(* ===== verification/Prelude.thy ===== *)
theory Prelude
  imports Main
begin

text \<open>
  Shared vocabulary of the development: bytes and buffers, the 64-bit \<^verbatim>\<open>size_t\<close> arithmetic of
  the C++ sources with its wrap-around written out, C++ exceptions as values, buffer slices, and the
  C character classification functions the sources call in the "C" locale.
\<close>

section \<open>Fact collections\<close>

named_theorems size_arith \<open>facts that turn wrap-around size arithmetic into plain arithmetic\<close>

section \<open>Bytes, buffers and exceptions\<close>

text \<open>A C++ \<^verbatim>\<open>char\<close> is one byte; a buffer given by pointer and length is the list of its bytes.\<close>

type_synonym byte = char
type_synonym bytes = "char list"

text \<open>The exceptions of the C++ standard library that the sources throw.\<close>

datatype cpp_exn =
    RuntimeError string
  | OverflowError string
  | UnderflowError string
  | InvalidArgument string
  | OutOfRange string
  | LogicError string
  | UndefinedBehaviour string
  | OutOfFuel

text \<open>
  \<open>UndefinedBehaviour\<close> marks an access that C++ leaves undefined, such as the front of an empty
  queue. \<open>OutOfFuel\<close> is not an exception of the program: it is what a loop definition with a fuel
  argument returns when the fuel runs out, so that a theorem that a call returns a value also says
  that its loops end.
\<close>

type_synonym 'a result = "cpp_exn + 'a"

section \<open>Unsigned 64-bit size arithmetic\<close>

text \<open>
  \<^verbatim>\<open>size_t\<close> is a 64-bit unsigned integer on the supported platforms. Values are natural numbers
  up to \<open>size_max\<close> (\<^verbatim>\<open>std::numeric_limits<size_t>::max()\<close>); \<open>uadd\<close> and \<open>usub\<close> are the
  wrap-around sum and difference.
\<close>

definition size_modulus :: nat where
  "size_modulus = 18446744073709551616"

definition size_max :: nat where
  "size_max = 18446744073709551615"

definition uadd :: "nat \<Rightarrow> nat \<Rightarrow> nat" where
  "uadd a b = (a + b) mod size_modulus"

definition usub :: "nat \<Rightarrow> nat \<Rightarrow> nat" where
  "usub a b = (a + size_modulus - b) mod size_modulus"

text \<open>The macro \<^verbatim>\<open>CHECK_UINT_OVERFLOW_SUM(a,b)\<close>, evaluated on \<^verbatim>\<open>size_t\<close> operands.\<close>

definition check_uint_overflow_sum :: "nat \<Rightarrow> nat \<Rightarrow> bool" where
  "check_uint_overflow_sum a b \<longleftrightarrow> uadd a b < a \<or> uadd a b < b"

lemma size_modulus_max: "size_modulus = Suc size_max"
  by (simp add: size_modulus_def size_max_def)

lemma uadd_exact [size_arith]: "a + b \<le> size_max \<Longrightarrow> uadd a b = a + b"
  by (simp add: uadd_def size_modulus_max)

lemma usub_exact [size_arith]:
  assumes "b \<le> a" and "a \<le> size_max"
  shows "usub a b = a - b"
proof -
  have "a + size_modulus - b = (a - b) + size_modulus" using assms by simp
  then have "usub a b = (a - b) mod size_modulus"
    by (simp only: usub_def mod_add_self2)
  moreover have "a - b < size_modulus" using assms unfolding size_modulus_max by linarith
  ultimately show ?thesis by simp
qed

lemma usub_wraps [size_arith]: "a < b \<Longrightarrow> b \<le> size_max \<Longrightarrow> usub a b = a + size_modulus - b"
  by (simp add: usub_def size_modulus_max)

lemma uadd_le_size_max [simp]: "uadd a b \<le> size_max"
proof -
  have "(a + b) mod size_modulus < size_modulus"
    by (simp add: size_modulus_max)
  then show ?thesis by (simp add: uadd_def size_modulus_max)
qed

text \<open>A difference that wraps below zero and is then added back gives the exact value.\<close>

lemma uadd_usub_exact [size_arith]:
  assumes "a \<le> size_max" and "b \<le> size_max" and "b \<le> a + c" and "a + c \<le> size_max + b"
    and "c \<le> size_max"
  shows "uadd (usub a b) c = a + c - b"
proof (cases "b \<le> a")
  case True
  then have "a - b + c = a + c - b" by simp
  with True assms show ?thesis by (simp add: size_arith)
next
  case False
  then have "usub a b = a + size_modulus - b" using assms by (simp add: size_arith)
  moreover from False assms have "a + size_modulus - b + c = (a + c - b) + size_modulus"
    by (simp add: size_modulus_max)
  moreover have "a + c - b < size_modulus" using assms by (simp add: size_modulus_max)
  ultimately show ?thesis by (simp add: uadd_def)
qed

text \<open>The macro detects exactly the sums that do not fit.\<close>

lemma check_uint_overflow_sum_iff:
  assumes "a \<le> size_max" and "b \<le> size_max"
  shows "check_uint_overflow_sum a b \<longleftrightarrow> size_max < a + b"
proof (cases "a + b \<le> size_max")
  case True
  then show ?thesis by (simp add: check_uint_overflow_sum_def size_arith)
next
  case False
  then have "size_modulus \<le> a + b" and "a + b - size_modulus < size_modulus"
    using assms by (simp_all add: size_modulus_max)
  then have "uadd a b = a + b - size_modulus"
    by (simp add: uadd_def mod_if)
  moreover have "a + b - size_modulus < a"
    using assms \<open>size_modulus \<le> a + b\<close> unfolding size_modulus_max by linarith
  ultimately show ?thesis
    using False by (simp add: check_uint_overflow_sum_def)
qed

section \<open>Slices of a buffer\<close>

definition slice :: "nat \<Rightarrow> nat \<Rightarrow> 'a list \<Rightarrow> 'a list" where
  "slice off n xs = take n (drop off xs)"

lemma slice_0 [simp]: "slice 0 n xs = take n xs"
  by (simp add: slice_def)

lemma length_slice [simp]: "length (slice off n xs) = min n (length xs - off)"
  by (simp add: slice_def min.commute)

lemma slice_append_right: "length xs \<le> off \<Longrightarrow> slice off n (xs @ ys) = slice (off - length xs) n ys"
  by (simp add: slice_def)

lemma slice_append_left:
  "off \<le> length xs \<Longrightarrow> slice off n (xs @ ys) = slice off n xs @ take (n - (length xs - off)) ys"
  by (simp add: slice_def)

lemma slice_slice_append: "slice off m xs @ slice (off + m) n xs = slice off (m + n) xs"
  by (simp add: slice_def take_add add.commute)

lemma nth_slice: "i < n \<Longrightarrow> off + i < length xs \<Longrightarrow> slice off n xs ! i = xs ! (off + i)"
  by (simp add: slice_def)

section \<open>C character functions\<close>

text \<open>\<^verbatim>\<open>isalpha\<close>, \<^verbatim>\<open>isdigit\<close>, \<^verbatim>\<open>isalnum\<close>, \<^verbatim>\<open>isxdigit\<close>, \<^verbatim>\<open>toupper\<close> and
  \<^verbatim>\<open>tolower\<close> of the C locale, on the unsigned value of a byte.\<close>

abbreviation byte_val :: "char \<Rightarrow> nat" where
  "byte_val c \<equiv> of_char c"

abbreviation byte_of :: "nat \<Rightarrow> char" where
  "byte_of n \<equiv> char_of n"

text \<open>The value of a byte read as the signed \<^verbatim>\<open>char\<close> of the x86 and ARM64-Linux GCC targets.\<close>

definition schar :: "char \<Rightarrow> int" where
  "schar c = (if byte_val c < 128 then int (byte_val c) else int (byte_val c) - 256)"

definition is_upper :: "char \<Rightarrow> bool" where
  "is_upper c \<longleftrightarrow> 65 \<le> byte_val c \<and> byte_val c \<le> 90"

definition is_lower :: "char \<Rightarrow> bool" where
  "is_lower c \<longleftrightarrow> 97 \<le> byte_val c \<and> byte_val c \<le> 122"

definition is_alpha :: "char \<Rightarrow> bool" where
  "is_alpha c \<longleftrightarrow> is_upper c \<or> is_lower c"

definition is_digit :: "char \<Rightarrow> bool" where
  "is_digit c \<longleftrightarrow> 48 \<le> byte_val c \<and> byte_val c \<le> 57"

definition is_alnum :: "char \<Rightarrow> bool" where
  "is_alnum c \<longleftrightarrow> is_alpha c \<or> is_digit c"

definition is_xdigit :: "char \<Rightarrow> bool" where
  "is_xdigit c \<longleftrightarrow> is_digit c \<or> (65 \<le> byte_val c \<and> byte_val c \<le> 70) \<or> (97 \<le> byte_val c \<and> byte_val c \<le> 102)"

definition to_upper :: "char \<Rightarrow> char" where
  "to_upper c = (if is_lower c then byte_of (byte_val c - 32) else c)"

definition to_lower :: "char \<Rightarrow> char" where
  "to_lower c = (if is_upper c then byte_of (byte_val c + 32) else c)"

lemma byte_val_inject: "byte_val c = byte_val d \<longleftrightarrow> c = d"
  by (rule of_char_eq_iff)

lemma byte_val_bound: "byte_val c < 256"
  by simp

lemma schar_negative: "128 \<le> byte_val c \<Longrightarrow> schar c < 0"
proof -
  assume "128 \<le> byte_val c"
  then have "schar c = int (byte_val c) - 256" by (simp add: schar_def)
  then show "schar c < 0" using byte_val_bound [of c] by linarith
qed

lemma is_alpha_nonzero: "is_alpha c \<Longrightarrow> c = to_upper c \<or> c = to_lower c"
  by (auto simp: is_alpha_def to_upper_def to_lower_def is_upper_def is_lower_def)

section \<open>Searching a buffer\<close>

text \<open>Position of the first element that satisfies a predicate: \<^verbatim>\<open>memchr\<close> and
  \<^verbatim>\<open>std::string::find(char)\<close> are instances.\<close>

fun find_index :: "('a \<Rightarrow> bool) \<Rightarrow> 'a list \<Rightarrow> nat option" where
  "find_index P [] = None"
| "find_index P (x # xs) = (if P x then Some 0 else map_option Suc (find_index P xs))"

lemma find_index_None_iff: "find_index P xs = None \<longleftrightarrow> (\<forall>x\<in>set xs. \<not> P x)"
  by (induction xs) auto

lemma find_index_SomeD:
  "find_index P xs = Some i \<Longrightarrow> i < length xs \<and> P (xs ! i) \<and> (\<forall>j<i. \<not> P (xs ! j))"
proof (induction xs arbitrary: i)
  case Nil
  then show ?case by simp
next
  case (Cons x xs)
  show ?case
  proof (cases "P x")
    case True
    with Cons.prems show ?thesis by simp
  next
    case False
    with Cons.prems obtain k where k: "find_index P xs = Some k" "i = Suc k" by auto
    from Cons.IH [OF k(1)] k(2) False show ?thesis
      by (auto simp: less_Suc_eq_0_disj)
  qed
qed

lemma find_index_SomeI:
  "i < length xs \<Longrightarrow> P (xs ! i) \<Longrightarrow> (\<And>j. j < i \<Longrightarrow> \<not> P (xs ! j)) \<Longrightarrow> find_index P xs = Some i"
proof (induction xs arbitrary: i)
  case Nil
  then show ?case by simp
next
  case (Cons x xs)
  show ?case
  proof (cases i)
    case 0
    with Cons.prems show ?thesis by simp
  next
    case (Suc k)
    have "\<not> P x" using Cons.prems(3) [of 0] Suc by simp
    moreover have "find_index P xs = Some k"
      using Cons.prems(1,2) Cons.prems(3) [of "Suc _"] Suc by (intro Cons.IH) auto
    ultimately show ?thesis using Suc by simp
  qed
qed

lemma find_index_append:
  "find_index P (xs @ ys) =
     (case find_index P xs of Some i \<Rightarrow> Some i | None \<Rightarrow> map_option ((+) (length xs)) (find_index P ys))"
proof (induction xs)
  case Nil
  show ?case by (cases "find_index P ys") auto
next
  case (Cons x xs)
  then show ?case by (cases "find_index P ys") (auto split: option.splits)
qed

end
