(* ===== verification/SafeInt.thy ===== *)
theory SafeInt
  imports Prelude
begin

text \<open>
  The checked integer arithmetic templates of \<^verbatim>\<open>src/Mantids30/Helpers/safeint.h\<close>. An integer type
  is given by its signedness and width; values are mathematical integers in its range, and a cast
  reduces modulo the width. Exceptions are values of \<open>cpp_exn\<close>.
\<close>

section \<open>Integer types\<close>

record int_type =
  it_signed :: bool
  it_bits :: nat

definition it_min :: "int_type \<Rightarrow> int" where
  "it_min t = (if it_signed t then - (2 ^ (it_bits t - 1)) else 0)"

definition it_max :: "int_type \<Rightarrow> int" where
  "it_max t = (if it_signed t then 2 ^ (it_bits t - 1) - 1 else 2 ^ it_bits t - 1)"

definition in_type :: "int_type \<Rightarrow> int \<Rightarrow> bool" where
  "in_type t v \<longleftrightarrow> it_min t \<le> v \<and> v \<le> it_max t"

text \<open>\<^verbatim>\<open>static_cast\<close> between integer types: reduction modulo the target width.\<close>

definition static_cast :: "int_type \<Rightarrow> int \<Rightarrow> int" where
  "static_cast t v = (v - it_min t) mod 2 ^ it_bits t + it_min t"

text \<open>C++ integer division truncates towards zero.\<close>

definition tdiv :: "int \<Rightarrow> int \<Rightarrow> int" where
  "tdiv a b = sgn a * sgn b * (\<bar>a\<bar> div \<bar>b\<bar>)"

text \<open>
  The literal \<^verbatim>\<open>-1\<close> compared with a value of the type: the usual arithmetic conversions turn it
  into the largest value for unsigned types at least as wide as \<^verbatim>\<open>int\<close>, and narrower types are
  promoted to \<^verbatim>\<open>int\<close> instead.
\<close>

definition minus_one_as :: "int_type \<Rightarrow> int" where
  "minus_one_as t = (if \<not> it_signed t \<and> 32 \<le> it_bits t then it_max t else -1)"

section \<open>The operations\<close>

definition safeAdd :: "int_type \<Rightarrow> int \<Rightarrow> int \<Rightarrow> int result" where
  "safeAdd t a b =
     (if a > 0 \<and> b > 0 \<and> it_max t - a < b then Inl (OverflowError ''Safe Add: Overflow detected'')
      else if a < 0 \<and> b < 0 \<and> it_min t - a > b then Inl (UnderflowError ''Safe Add: Underflow detected'')
      else Inr (a + b))"

definition safeSubtract :: "int_type \<Rightarrow> int \<Rightarrow> int \<Rightarrow> int result" where
  "safeSubtract t a b =
     (if b > 0 \<and> a < it_min t + b then Inl (UnderflowError ''Safe Subtract: Underflow detected'')
      else if b < 0 \<and> a > it_max t + b then Inl (OverflowError ''Safe Subtract: Overflow detected'')
      else Inr (a - b))"

definition safeMultiply :: "int_type \<Rightarrow> int \<Rightarrow> int \<Rightarrow> int result" where
  "safeMultiply t a b =
     (if a > 0 \<and> b > 0 \<and> a > tdiv (it_max t) b then Inl (OverflowError ''Safe Multiply: Overflow detected'')
      else if a < 0 \<and> b < 0 \<and> a < tdiv (it_max t) b then Inl (OverflowError ''Safe Multiply: Overflow detected'')
      else if a > 0 \<and> b < 0 \<and> b < tdiv (it_min t) a then Inl (UnderflowError ''Safe Multiply: Underflow detected'')
      else if a < 0 \<and> b > 0 \<and> a < tdiv (it_min t) b then Inl (UnderflowError ''Safe Multiply: Underflow detected'')
      else Inr (a * b))"

definition safeDivide :: "int_type \<Rightarrow> int \<Rightarrow> int \<Rightarrow> int result" where
  "safeDivide t a b =
     (if b = 0 then Inl (InvalidArgument ''Safe Divide: Division by zero'')
      else if a = it_min t \<and> b = minus_one_as t then Inl (OverflowError ''Safe Divide: Overflow detected'')
      else Inr (tdiv a b))"

definition safeStaticCast :: "int_type \<Rightarrow> int_type \<Rightarrow> int \<Rightarrow> int result" where
  "safeStaticCast to from v =
     (if v > static_cast from (it_max to)
      then Inl (OutOfRange ''Safe Static Cast: Value out of range for target type'')
      else if v < static_cast from (it_min to)
      then Inl (UnderflowError ''Safe Static Cast: Value out of range for target type'')
      else Inr (static_cast to v))"

definition unsafeStaticCast :: "int_type \<Rightarrow> int_type \<Rightarrow> int \<Rightarrow> int" where
  "unsafeStaticCast to from v =
     (if v > static_cast from (it_max to) then 0
      else if v < static_cast from (it_min to) then 0
      else static_cast to v)"

section \<open>Truncated division and products\<close>

lemma tdiv_pos_pos: "0 \<le> a \<Longrightarrow> 0 < b \<Longrightarrow> tdiv a b = a div b"
  by (cases "a = 0") (simp_all add: tdiv_def)

lemma tdiv_pos_neg: "0 \<le> a \<Longrightarrow> b < 0 \<Longrightarrow> tdiv a b = - (a div (- b))"
  by (cases "a = 0") (simp_all add: tdiv_def)

lemma tdiv_neg_pos: "a \<le> 0 \<Longrightarrow> 0 < b \<Longrightarrow> tdiv a b = - ((- a) div b)"
  by (cases "a = 0") (simp_all add: tdiv_def)

lemma div_less_iff_mult_less:
  assumes "0 < (b::int)"
  shows "m div b < a \<longleftrightarrow> m < a * b"
proof -
  have m: "m = m div b * b + m mod b" by simp
  have r: "0 \<le> m mod b" "m mod b < b" using assms by simp_all
  show ?thesis
  proof
    assume "m div b < a"
    then have "m div b + 1 \<le> a" by simp
    then have "(m div b + 1) * b \<le> a * b" using assms by (simp add: mult_right_mono)
    then have "m div b * b + b \<le> a * b" by (simp add: algebra_simps)
    then show "m < a * b" using m r by linarith
  next
    assume "m < a * b"
    then have "m div b * b < a * b" using m r by linarith
    then show "m div b < a" using assms by simp
  qed
qed

section \<open>Exactness\<close>

lemma type_bounds:
  "it_min t \<le> 0" "0 \<le> it_max t"
  by (simp_all add: it_min_def it_max_def)

lemma safeMultiply_pos_pos:
  assumes "0 < a" "0 < b"
  shows "safeMultiply t a b =
     (if a * b \<le> it_max t then Inr (a * b) else Inl (OverflowError ''Safe Multiply: Overflow detected''))"
  using assms by (simp add: safeMultiply_def tdiv_pos_pos type_bounds div_less_iff_mult_less not_le)

lemma safeMultiply_neg_neg:
  assumes "a < 0" "b < 0"
  shows "safeMultiply t a b =
     (if a * b \<le> it_max t then Inr (a * b) else Inl (OverflowError ''Safe Multiply: Overflow detected''))"
  using assms div_less_iff_mult_less [of "- b" "it_max t" "- a"]
  by (auto simp: safeMultiply_def tdiv_pos_neg type_bounds not_le)

lemma safeMultiply_pos_neg:
  assumes "0 < a" "b < 0"
  shows "safeMultiply t a b =
     (if it_min t \<le> a * b then Inr (a * b) else Inl (UnderflowError ''Safe Multiply: Underflow detected''))"
  using assms div_less_iff_mult_less [of a "- it_min t" "- b"]
  by (auto simp: safeMultiply_def tdiv_neg_pos type_bounds not_le algebra_simps)

lemma safeMultiply_neg_pos:
  assumes "a < 0" "0 < b"
  shows "safeMultiply t a b =
     (if it_min t \<le> a * b then Inr (a * b) else Inl (UnderflowError ''Safe Multiply: Underflow detected''))"
  using assms div_less_iff_mult_less [of b "- it_min t" "- a"]
  by (auto simp: safeMultiply_def tdiv_neg_pos type_bounds not_le algebra_simps)

text \<open>The contract of a checked operation: the exact result, or the exception for its direction.\<close>

definition checked :: "int_type \<Rightarrow> string \<Rightarrow> string \<Rightarrow> int \<Rightarrow> int result" where
  "checked t over_msg under_msg r =
     (if r > it_max t then Inl (OverflowError over_msg)
      else if r < it_min t then Inl (UnderflowError under_msg) else Inr r)"

lemma safeAdd_checked:
  assumes "in_type t a" and "in_type t b"
  shows "safeAdd t a b = checked t ''Safe Add: Overflow detected'' ''Safe Add: Underflow detected'' (a + b)"
  using assms type_bounds [of t] by (auto simp: safeAdd_def checked_def in_type_def)

lemma safeSubtract_checked:
  assumes "in_type t a" and "in_type t b"
  shows "safeSubtract t a b =
           checked t ''Safe Subtract: Overflow detected'' ''Safe Subtract: Underflow detected'' (a - b)"
  using assms type_bounds [of t] by (auto simp: safeSubtract_def checked_def in_type_def)

lemma safeMultiply_checked:
  "safeMultiply t a b =
     checked t ''Safe Multiply: Overflow detected'' ''Safe Multiply: Underflow detected'' (a * b)"
proof -
  consider "a = 0 \<or> b = 0" | "0 < a" "0 < b" | "a < 0" "b < 0" | "0 < a" "b < 0" | "a < 0" "0 < b"
    by linarith
  then show ?thesis
  proof cases
    case 1
    then show ?thesis using type_bounds [of t] by (auto simp: safeMultiply_def checked_def)
  next
    case 2
    then have "\<not> a * b < it_min t"
      using type_bounds [of t] mult_pos_pos [of a b] by linarith
    with 2 show ?thesis by (auto simp: safeMultiply_pos_pos checked_def)
  next
    case 3
    then have "\<not> a * b < it_min t"
      using type_bounds [of t] mult_neg_neg [of a b] by linarith
    with 3 show ?thesis by (auto simp: safeMultiply_neg_neg checked_def)
  next
    case 4
    then have "\<not> a * b > it_max t"
      using type_bounds [of t] mult_pos_neg [of a b] by linarith
    with 4 show ?thesis by (auto simp: safeMultiply_pos_neg checked_def)
  next
    case 5
    then have "\<not> a * b > it_max t"
      using type_bounds [of t] mult_neg_pos [of a b] by linarith
    with 5 show ?thesis by (auto simp: safeMultiply_neg_pos checked_def)
  qed
qed

text \<open>
  C15. For operands in the range of the type, \<^verbatim>\<open>safeAdd\<close>, \<^verbatim>\<open>safeSubtract\<close> and \<^verbatim>\<open>safeMultiply\<close>
  return the exact mathematical result when it is representable, throw an overflow when it is above
  the largest value and an underflow when it is below the smallest one, for every signed or unsigned
  width.
\<close>

theorem safe_arith_exact:
  assumes "in_type t a" and "in_type t b"
  shows "safeAdd t a b = checked t ''Safe Add: Overflow detected'' ''Safe Add: Underflow detected'' (a + b)
     \<and> safeSubtract t a b =
           checked t ''Safe Subtract: Overflow detected'' ''Safe Subtract: Underflow detected'' (a - b)
     \<and> safeMultiply t a b =
           checked t ''Safe Multiply: Overflow detected'' ''Safe Multiply: Underflow detected'' (a * b)"
  using safeAdd_checked [OF assms] safeSubtract_checked [OF assms] safeMultiply_checked by blast

abbreviation t_int8 :: int_type where
  "t_int8 \<equiv> \<lparr>it_signed = True, it_bits = 8\<rparr>"

abbreviation t_int32 :: int_type where
  "t_int32 \<equiv> \<lparr>it_signed = True, it_bits = 32\<rparr>"

abbreviation t_size :: int_type where
  "t_size \<equiv> \<lparr>it_signed = False, it_bits = 64\<rparr>"

theorem safe_arith_exact_witness:
  "in_type t_int8 100 \<and> in_type t_int8 (-3)
   \<and> safeAdd t_int8 100 (-3) = Inr 97 \<and> safeSubtract t_int8 100 (-3) = Inr 103
   \<and> safeMultiply t_int8 100 (-3) = Inl (UnderflowError ''Safe Multiply: Underflow detected'')"
proof -
  have r: "in_type t_int8 100" "in_type t_int8 (-3)"
    by (simp_all add: in_type_def it_min_def it_max_def)
  show ?thesis using safe_arith_exact [OF r] r by (simp add: checked_def it_min_def it_max_def)
qed

section \<open>Checked casts\<close>

lemma static_cast_unsigned:
  "\<not> it_signed t \<Longrightarrow> static_cast t v = v mod 2 ^ it_bits t"
  by (simp add: static_cast_def it_min_def)

text \<open>The bound \<^verbatim>\<open>static_cast<From>(std::numeric_limits<To>::max())\<close> for unsigned types.\<close>

lemma static_cast_unsigned_max:
  assumes "\<not> it_signed from" and "\<not> it_signed to"
  shows "static_cast from (it_max to) = 2 ^ min (it_bits from) (it_bits to) - 1"
proof (cases "it_bits to \<le> it_bits from")
  case True
  then have "(2::int) ^ it_bits to - 1 < 2 ^ it_bits from"
    by (metis diff_add_cancel less_add_one one_le_numeral order_less_le_trans power_increasing)
  then have "(2 ^ it_bits to - 1 :: int) mod 2 ^ it_bits from = 2 ^ it_bits to - 1"
    by (intro mod_pos_pos_trivial) simp_all
  with True assms show ?thesis by (simp add: static_cast_unsigned it_max_def min_absorb2)
next
  case False
  then have "(2::int) ^ it_bits from dvd 2 ^ it_bits to" by (simp add: le_imp_power_dvd)
  then have "(2 ^ it_bits to - 1 :: int) mod 2 ^ it_bits from = (- 1) mod 2 ^ it_bits from"
    by (metis (no_types) diff_0 dvd_imp_mod_0 mod_diff_left_eq)
  also have "\<dots> = 2 ^ it_bits from - 1"
    by (simp add: zmod_minus1)
  finally show ?thesis using False assms by (simp add: static_cast_unsigned it_max_def min_def)
qed

text \<open>The bounds of a signed type seen from an unsigned type that is at least as wide.\<close>

lemma static_cast_signed_bounds:
  assumes "\<not> it_signed from" and "it_signed to" and "0 < it_bits to" and "it_bits to \<le> it_bits from"
  shows "static_cast from (it_max to) = 2 ^ (it_bits to - 1) - 1"
    and "static_cast from (it_min to) = 2 ^ it_bits from - 2 ^ (it_bits to - 1)"
    and "(2::int) ^ (it_bits to - 1) \<le> 2 ^ it_bits from - 2 ^ (it_bits to - 1)"
proof -
  define h :: int where "h = 2 ^ (it_bits to - 1)"
  define m :: int where "m = 2 ^ it_bits from"
  have "(2::int) ^ it_bits to = h * 2"
    using assms(3) by (simp add: h_def flip: power_Suc2)
  then have hm: "0 < h" "h * 2 \<le> m"
    using power_increasing [OF assms(4), of "2::int"] by (simp_all add: h_def m_def)
  have "(h - 1) mod m = h - 1" using hm by (intro mod_pos_pos_trivial) simp_all
  with assms(1,2) show "static_cast from (it_max to) = 2 ^ (it_bits to - 1) - 1"
    by (simp add: static_cast_unsigned it_max_def h_def m_def)
  have "(- h) mod m = (m - h) mod m" by (metis diff_0 mod_diff_left_eq mod_self)
  also have "\<dots> = m - h" using hm by (intro mod_pos_pos_trivial) simp_all
  finally show "static_cast from (it_min to) = 2 ^ it_bits from - 2 ^ (it_bits to - 1)"
    using assms(1,2) by (simp add: static_cast_unsigned it_min_def h_def m_def)
  show "(2::int) ^ (it_bits to - 1) \<le> 2 ^ it_bits from - 2 ^ (it_bits to - 1)"
    using hm by (simp add: h_def m_def)
qed

lemma in_unsigned_iff: "\<not> it_signed t \<Longrightarrow> in_type t v \<longleftrightarrow> 0 \<le> v \<and> v < 2 ^ it_bits t"
  by (auto simp: in_type_def it_min_def it_max_def)

lemma unsigned_above_bound:
  assumes "in_type from v" and "\<not> it_signed from" and "\<not> it_signed to"
  shows "v > static_cast from (it_max to) \<longleftrightarrow> \<not> in_type to v"
  using assms by (cases "it_bits to \<le> it_bits from")
    (auto simp: static_cast_unsigned_max in_unsigned_iff min_def not_less
      dest: order_less_le_trans [OF _ power_increasing, of v "2::int" "it_bits from" "it_bits to"])

text \<open>
  Between unsigned types \<^verbatim>\<open>safeStaticCast\<close> returns the value when the target can hold it and
  throws otherwise, and \<^verbatim>\<open>unsafeStaticCast\<close> returns the value or zero. From an unsigned type to a
  signed type that is not wider (for example \<^verbatim>\<open>size_t\<close> to \<^verbatim>\<open>int\<close>), however, the lower bound is
  converted to a huge unsigned value, so that the checked cast throws and the unchecked one returns
  zero for every value, also for those the target can hold.
\<close>

theorem static_cast_checks:
  assumes "in_type from v" and "\<not> it_signed from"
  shows "(\<not> it_signed to \<longrightarrow>
            safeStaticCast to from v =
              (if in_type to v then Inr v
               else Inl (OutOfRange ''Safe Static Cast: Value out of range for target type''))
            \<and> unsafeStaticCast to from v = (if in_type to v then v else 0))
       \<and> (it_signed to \<and> 0 < it_bits to \<and> it_bits to \<le> it_bits from \<longrightarrow>
            (\<exists>e. safeStaticCast to from v = Inl e) \<and> unsafeStaticCast to from v = 0)"
proof (intro conjI impI)
  assume u: "\<not> it_signed to"
  have lo: "\<not> v < static_cast from (it_min to)"
    using assms u by (simp add: static_cast_unsigned it_min_def in_unsigned_iff)
  have id: "in_type to v \<Longrightarrow> static_cast to v = v"
    using u by (simp add: static_cast_unsigned in_unsigned_iff)
  note above = unsigned_above_bound [OF assms u]
  show "safeStaticCast to from v =
          (if in_type to v then Inr v
           else Inl (OutOfRange ''Safe Static Cast: Value out of range for target type''))"
    using lo id above by (simp add: safeStaticCast_def)
  show "unsafeStaticCast to from v = (if in_type to v then v else 0)"
    using lo id above by (simp add: unsafeStaticCast_def)
next
  assume s: "it_signed to \<and> 0 < it_bits to \<and> it_bits to \<le> it_bits from"
  then have b: "static_cast from (it_max to) < static_cast from (it_min to)"
    using static_cast_signed_bounds [OF assms(2), of to] by simp
  then show "\<exists>e. safeStaticCast to from v = Inl e"
    by (auto simp: safeStaticCast_def)
  show "unsafeStaticCast to from v = 0"
    using b by (auto simp: unsafeStaticCast_def)
qed

theorem static_cast_checks_witness:
  "in_type t_size 7 \<and> safeStaticCast \<lparr>it_signed = False, it_bits = 32\<rparr> t_size 7 = Inr 7
   \<and> unsafeStaticCast \<lparr>it_signed = False, it_bits = 8\<rparr> t_size 300 = 0
   \<and> (\<exists>e. safeStaticCast t_int32 t_size 7 = Inl e)"
proof -
  have r: "in_type t_size 7" "in_type t_size 300" "\<not> it_signed t_size"
    by (simp_all add: in_type_def it_min_def it_max_def)
  show ?thesis
    using r static_cast_checks [OF r(1,3), of "\<lparr>it_signed = False, it_bits = 32\<rparr>"]
      static_cast_checks [OF r(2,3), of "\<lparr>it_signed = False, it_bits = 8\<rparr>"]
      static_cast_checks [OF r(1,3), of t_int32]
    by (simp add: in_type_def it_min_def it_max_def)
qed

end
