(* ===== verification/Streamable.thy ===== *)
theory Streamable
  imports SafeInt
begin

text \<open>
  The stream abstraction of \<^verbatim>\<open>src/Mantids30/Memory/streamableobject.h\<close> and
  \<^verbatim>\<open>streamableobject.cpp\<close>: the write status that every streamable object carries, and the functions
  that drive an object's virtual \<^verbatim>\<open>write\<close>. An object is described by the operations of
  \<open>streamable\<close>; the contract that the drivers rely on is the locale \<open>stream_sink\<close>.
\<close>

section \<open>Write status\<close>

record WriteStatus =
  succeed :: bool
  finish :: bool
  bytesWritten :: nat
  writeError :: int

definition ws_init :: WriteStatus where
  "ws_init = \<lparr>succeed = True, finish = False, bytesWritten = 0, writeError = 0\<rparr>"

definition ws_reset :: "WriteStatus \<Rightarrow> WriteStatus" where
  "ws_reset ws = ws\<lparr>succeed := True, finish := False, bytesWritten := 0, writeError := 0\<rparr>"

text \<open>\<^verbatim>\<open>safeAdd<size_t>\<close> on naturals, and the conversion of a \<^verbatim>\<open>size_t\<close> to \<^verbatim>\<open>ssize_t\<close>.\<close>

definition safeAdd_size :: "nat \<Rightarrow> nat \<Rightarrow> nat result" where
  "safeAdd_size a b =
     (case safeAdd \<lparr>it_signed = False, it_bits = 64\<rparr> (int a) (int b) of
        Inl e \<Rightarrow> Inl e | Inr r \<Rightarrow> Inr (nat r))"

definition to_ssize :: "nat \<Rightarrow> int" where
  "to_ssize n = (if n < 2 ^ 63 then int n else int n - 2 ^ 64)"

text \<open>\<^verbatim>\<open>WriteStatus::operator+=(ssize_t)\<close>.\<close>

definition ws_add :: "WriteStatus \<Rightarrow> int \<Rightarrow> WriteStatus result" where
  "ws_add ws x =
     (if succeed ws = False \<or> finish ws = True
      then Inl (RuntimeError ''Trying to write into an already finished write object.'')
      else if x > 0 then
        (case safeAdd_size (bytesWritten ws) (nat x) of
           Inl e \<Rightarrow> Inl e | Inr n \<Rightarrow> Inr (ws\<lparr>bytesWritten := n\<rparr>))
      else if x = 0 then Inr (ws\<lparr>succeed := True, finish := True\<rparr>)
      else Inr (ws\<lparr>succeed := False, finish := False, writeError := x\<rparr>))"

text \<open>\<^verbatim>\<open>WriteStatus::operator+=(const WriteStatus&)\<close> and \<^verbatim>\<open>operator-\<close>.\<close>

definition ws_merge :: "WriteStatus \<Rightarrow> WriteStatus \<Rightarrow> WriteStatus result" where
  "ws_merge ws x =
     (case safeAdd_size (bytesWritten ws) (bytesWritten x) of
        Inl e \<Rightarrow> Inl e
      | Inr n \<Rightarrow>
          let ws1 = ws\<lparr>bytesWritten := n\<rparr>;
              ws2 = (if \<not> succeed x then ws1\<lparr>succeed := False\<rparr> else ws1)
          in Inr (if finish x then ws2\<lparr>finish := True\<rparr> else ws2))"

definition ws_minus :: "WriteStatus \<Rightarrow> WriteStatus \<Rightarrow> WriteStatus result" where
  "ws_minus ws x =
     (if bytesWritten x > bytesWritten ws
      then Inl (RuntimeError ''Invalid WriteStatus Substract Operation.'')
      else Inr (ws\<lparr>bytesWritten := bytesWritten ws - bytesWritten x, succeed := succeed x,
                    finish := finish x, writeError := writeError x\<rparr>))"

text \<open>
  The statement \<^verbatim>\<open>writeStatus.succeed += -1\<close>: the sum of a \<^verbatim>\<open>bool\<close> and -1, converted back to
  \<^verbatim>\<open>bool\<close>.
\<close>

definition ws_succeed_minus_1 :: "WriteStatus \<Rightarrow> WriteStatus" where
  "ws_succeed_minus_1 ws = ws\<lparr>succeed := ((if succeed ws then 1 else 0) + (-1::int) \<noteq> 0)\<rparr>"

section \<open>Streamable objects\<close>

record 'o streamable =
  so_write :: "'o \<Rightarrow> bytes \<Rightarrow> ('o \<times> nat option) result"
  so_status :: "'o \<Rightarrow> WriteStatus"
  so_set_status :: "WriteStatus \<Rightarrow> 'o \<Rightarrow> 'o"

definition so_fail_minus_1 :: "'o streamable \<Rightarrow> 'o \<Rightarrow> 'o" where
  "so_fail_minus_1 io out = so_set_status io (ws_succeed_minus_1 (so_status io out)) out"

definition writeEOF :: "'o streamable \<Rightarrow> 'o \<Rightarrow> ('o \<times> bool) result" where
  "writeEOF io out =
     (case so_write io out [] of
        Inl e \<Rightarrow> Inl e
      | Inr (out', Some _) \<Rightarrow> Inr (out', True)
      | Inr (out', None) \<Rightarrow> Inr (so_fail_minus_1 io out', False))"

text \<open>
  The loop of \<^verbatim>\<open>writeFullStream\<close> on the bytes that are still to be written. The fuel bounds the
  number of partial writes; an object that keeps accepting zero bytes makes the loop run forever.
\<close>

fun writeFullStream_loop :: "nat \<Rightarrow> 'o streamable \<Rightarrow> 'o \<Rightarrow> bytes \<Rightarrow> ('o \<times> bool) result" where
  "writeFullStream_loop 0 io out buf = Inl OutOfFuel"
| "writeFullStream_loop (Suc fuel) io out buf =
     (if buf \<noteq> [] then
        (case so_write io out buf of
           Inl e \<Rightarrow> Inl e
         | Inr (out', None) \<Rightarrow> Inr (so_fail_minus_1 io out', False)
         | Inr (out', Some cur) \<Rightarrow>
             if \<not> succeed (so_status io out') then Inr (so_fail_minus_1 io out', False)
             else writeFullStream_loop fuel io out' (drop cur buf))
      else Inr (out, True))"

definition writeFullStream :: "'o streamable \<Rightarrow> 'o \<Rightarrow> bytes \<Rightarrow> ('o \<times> bool) result" where
  "writeFullStream io out buf = writeFullStream_loop (Suc (length buf)) io out buf"

definition writeString :: "'o streamable \<Rightarrow> 'o \<Rightarrow> bytes \<Rightarrow> ('o \<times> bool) result" where
  "writeString io out buf = writeFullStream io out buf"

definition writeFullStreamWithEOF :: "'o streamable \<Rightarrow> 'o \<Rightarrow> bytes \<Rightarrow> ('o \<times> bool) result" where
  "writeFullStreamWithEOF io out buf =
     (case writeFullStream io out buf of
        Inl e \<Rightarrow> Inl e
      | Inr (out', False) \<Rightarrow> Inr (out', False)
      | Inr (out', True) \<Rightarrow>
          (case writeEOF io out' of
             Inl e \<Rightarrow> Inl e
           | Inr (out'', True) \<Rightarrow> Inr (out'', True)
           | Inr (out'', False) \<Rightarrow> Inr (so_fail_minus_1 io out'', False)))"

section \<open>Status lemmas\<close>

lemma safeAdd_size_eq:
  "a \<le> size_max \<Longrightarrow> b \<le> size_max \<Longrightarrow>
     safeAdd_size a b =
       (if a + b \<le> size_max then Inr (a + b) else Inl (OverflowError ''Safe Add: Overflow detected''))"
  by (auto simp: safeAdd_size_def safeAdd_def it_max_def it_min_def size_max_def)

lemma to_ssize_small: "n < 2 ^ 63 \<Longrightarrow> to_ssize n = int n"
  by (simp add: to_ssize_def)

lemma ws_succeed_minus_1_toggles: "ws_succeed_minus_1 ws = ws\<lparr>succeed := \<not> succeed ws\<rparr>"
  by (simp add: ws_succeed_minus_1_def)

section \<open>The contract of a sink\<close>

text \<open>
  A sink accepts a non-empty prefix of every non-empty buffer as long as it has \<open>room\<close> for it, and
  its \<open>delivered\<close> bytes grow by exactly the accepted prefix.
\<close>

locale stream_sink =
  fixes io :: "'o streamable"
    and delivered :: "'o \<Rightarrow> bytes"
    and ready :: "'o \<Rightarrow> nat \<Rightarrow> bool"
  assumes sink_write:
    "ready out (length buf) \<Longrightarrow> buf \<noteq> [] \<Longrightarrow>
       \<exists>out' n. so_write io out buf = Inr (out', Some n) \<and> 0 < n \<and> n \<le> length buf
         \<and> delivered out' = delivered out @ take n buf
         \<and> succeed (so_status io out') \<and> ready out' (length buf - n)"
begin

lemma writeFullStream_loop_delivers:
  "ready out (length buf) \<Longrightarrow> length buf < fuel \<Longrightarrow>
     \<exists>out'. writeFullStream_loop fuel io out buf = Inr (out', True)
       \<and> delivered out' = delivered out @ buf \<and> ready out' 0"
proof (induction fuel arbitrary: out buf)
  case 0
  then show ?case by simp
next
  case (Suc fuel)
  show ?case
  proof (cases "buf = []")
    case True
    with Suc.prems show ?thesis by simp
  next
    case False
    then obtain out1 n where w: "so_write io out buf = Inr (out1, Some n)" "0 < n" "n \<le> length buf"
      "delivered out1 = delivered out @ take n buf" "succeed (so_status io out1)"
      "ready out1 (length buf - n)"
      using sink_write [OF Suc.prems(1)] by blast
    have "ready out1 (length (drop n buf))" using w by simp
    moreover have "length (drop n buf) < fuel" using Suc.prems(2) w False by simp
    ultimately obtain out2 where "writeFullStream_loop fuel io out1 (drop n buf) = Inr (out2, True)"
      "delivered out2 = delivered out1 @ drop n buf" "ready out2 0"
      using Suc.IH by blast
    with w False show ?thesis by simp
  qed
qed

lemma writeFullStream_delivers:
  "ready out (length buf) \<Longrightarrow>
     \<exists>out'. writeFullStream io out buf = Inr (out', True)
       \<and> delivered out' = delivered out @ buf \<and> ready out' 0"
  unfolding writeFullStream_def by (rule writeFullStream_loop_delivers) simp_all

end

end
