(* ===== verification/MemHelpers.thy ===== *)
theory MemHelpers
  imports Prelude
begin

text \<open>
  The memory helpers of \<^verbatim>\<open>src/Mantids30/Helpers/mem.cpp\<close>: the case-folding comparison, the comparison
  and the copy in 64 KiB blocks. A read or write outside the buffers is the value \<open>None\<close>.
\<close>

section \<open>Comparison\<close>

text \<open>The table \<^verbatim>\<open>Mem::m_cmpMatrix\<close>, in the runs in which the source lists it.\<close>

definition m_cmpMatrix :: "nat list" where
  "m_cmpMatrix = [0..<65] @ [97..<123] @ [91..<97] @ [97..<123] @ [123..<256]"

definition icharcmp :: "char \<Rightarrow> char \<Rightarrow> bool" where
  "icharcmp c1 c2 \<longleftrightarrow> m_cmpMatrix ! byte_val c1 = m_cmpMatrix ! byte_val c2"

text \<open>The C library's \<^verbatim>\<open>memcmp\<close> promises the sign of the first difference of the unsigned bytes.\<close>

fun memcmp :: "bytes \<Rightarrow> bytes \<Rightarrow> int" where
  "memcmp (x # xs) (y # ys) =
     (if x = y then memcmp xs ys else if byte_val x < byte_val y then -1 else 1)"
| "memcmp _ _ = 0"

definition block_size :: nat where
  "block_size = 65536"

text \<open>\<^verbatim>\<open>Mem::memcmp64\<close>: the loop over blocks, from \<open>offset\<close> on.\<close>

function memcmp64_loop :: "bytes \<Rightarrow> bytes \<Rightarrow> nat \<Rightarrow> nat \<Rightarrow> int" where
  "memcmp64_loop s1 s2 n offset =
     (if offset < n then
        let currentBlock = min (n - offset) block_size;
            result = memcmp (slice offset currentBlock s1) (slice offset currentBlock s2)
        in if result \<noteq> 0 then result else memcmp64_loop s1 s2 n (offset + block_size)
      else 0)"
  by pat_completeness auto
termination
  by (relation "measure (\<lambda>(s1, s2, n, offset). n - offset)") (auto simp: block_size_def)

declare memcmp64_loop.simps [simp del]

definition memcmp64 :: "bytes \<Rightarrow> bytes \<Rightarrow> nat \<Rightarrow> int" where
  "memcmp64 s1 s2 n = memcmp64_loop s1 s2 n 0"

text \<open>\<^verbatim>\<open>Mem::memicmp2\<close>; the case-insensitive branch is the loop over single bytes.\<close>

fun memicmp_loop :: "bytes \<Rightarrow> bytes \<Rightarrow> nat \<Rightarrow> int" where
  "memicmp_loop p1 p2 0 = 0"
| "memicmp_loop (x # p1) (y # p2) (Suc n) = (if \<not> icharcmp x y then -1 else memicmp_loop p1 p2 n)"
| "memicmp_loop _ _ (Suc n) = 0"

definition memicmp2 :: "bytes \<Rightarrow> bytes \<Rightarrow> nat \<Rightarrow> bool \<Rightarrow> int" where
  "memicmp2 s1 s2 n caseSensitive =
     (if caseSensitive then memcmp64 s1 s2 n else memicmp_loop s1 s2 n)"

section \<open>Copy\<close>

text \<open>
  \<^verbatim>\<open>Mem::memcpy64\<close>. The loop body advances the offset and decreases the remaining count twice, the
  count with wrap-around. The state is the destination; \<open>None\<close> stands for a block that reaches
  outside one of the two buffers.
\<close>

function memcpy64_loop :: "bytes \<Rightarrow> bytes \<Rightarrow> nat \<Rightarrow> nat \<Rightarrow> bytes option" where
  "memcpy64_loop dest src numBytes currentOffset =
     (if numBytes > 0 then
        let blockSizeToCopy = min numBytes block_size
        in if currentOffset + blockSizeToCopy \<le> length dest \<and> currentOffset + blockSizeToCopy \<le> length src
           then memcpy64_loop
                  (take currentOffset dest @ slice currentOffset blockSizeToCopy src
                     @ drop (currentOffset + blockSizeToCopy) dest)
                  src
                  (usub (usub numBytes blockSizeToCopy) blockSizeToCopy)
                  (currentOffset + blockSizeToCopy + blockSizeToCopy)
           else None
      else Some dest)"
  by pat_completeness auto
termination
  by (relation "measure (\<lambda>(dest, src, n, off). length dest + 1 - off)") (auto simp: block_size_def)

declare memcpy64_loop.simps [simp del]

definition memcpy64 :: "bytes \<Rightarrow> bytes \<Rightarrow> nat \<Rightarrow> bytes option" where
  "memcpy64 dest src numBytes = memcpy64_loop dest src numBytes 0"

section \<open>The comparison agrees with its reference\<close>

lemma memcmp_self [simp]: "memcmp xs xs = 0"
  by (induction xs) auto

lemma memcmp_zero_iff: "length xs = length ys \<Longrightarrow> memcmp xs ys = 0 \<longleftrightarrow> xs = ys"
  by (induction xs ys rule: list_induct2) auto

lemma memcmp_append:
  "length xs = length ys \<Longrightarrow>
     memcmp (xs @ us) (ys @ vs) = (if memcmp xs ys \<noteq> 0 then memcmp xs ys else memcmp us vs)"
  by (induction xs ys rule: list_induct2) auto

text \<open>The block loop computes what one \<^verbatim>\<open>memcmp\<close> over the rest of the buffers computes.\<close>

lemma memcmp64_loop_eq:
  assumes "n \<le> length s1" and "n \<le> length s2"
  shows "memcmp64_loop s1 s2 n offset = memcmp (slice offset (n - offset) s1) (slice offset (n - offset) s2)"
  using assms
proof (induction s1 s2 n offset rule: memcmp64_loop.induct)
  case (1 s1 s2 n offset)
  show ?case
  proof (cases "offset < n")
    case False
    then show ?thesis by (simp add: memcmp64_loop.simps [of s1 s2 n offset] slice_def)
  next
    case True
    define b where "b = min (n - offset) block_size"
    have split: "slice offset (n - offset) s = slice offset b s @ slice (offset + block_size) (n - (offset + block_size)) s"
      for s :: bytes
    proof (cases "n - offset \<le> block_size")
      case True
      then show ?thesis by (simp add: b_def slice_def min_def)
    next
      case False
      then have "b = block_size" "n - offset = block_size + (n - (offset + block_size))"
        by (simp_all add: b_def)
      then show ?thesis by (metis slice_slice_append)
    qed
    have len: "length (slice offset b s1) = length (slice offset b s2)"
      using "1.prems" True by (simp add: b_def)
    have IH: "memcmp64_loop s1 s2 n (offset + block_size) =
        memcmp (slice (offset + block_size) (n - (offset + block_size)) s1)
          (slice (offset + block_size) (n - (offset + block_size)) s2)"
      if "memcmp (slice offset b s1) (slice offset b s2) = 0"
      using "1.IH" [OF True] "1.prems" that by (simp add: b_def)
    have "memcmp64_loop s1 s2 n offset =
       (if memcmp (slice offset b s1) (slice offset b s2) \<noteq> 0
        then memcmp (slice offset b s1) (slice offset b s2)
        else memcmp64_loop s1 s2 n (offset + block_size))"
      using True by (simp add: memcmp64_loop.simps [of s1 s2 n offset] b_def Let_def)
    then show ?thesis
      using IH by (simp add: split [of s1] split [of s2] memcmp_append [OF len])
  qed
qed

lemma memcmp64_eq_memcmp:
  "n \<le> length s1 \<Longrightarrow> n \<le> length s2 \<Longrightarrow> memcmp64 s1 s2 n = memcmp (take n s1) (take n s2)"
  by (simp add: memcmp64_def memcmp64_loop_eq)

lemma cmpMatrix_to_lower: "m_cmpMatrix ! byte_val c = byte_val (to_lower c)"
proof -
  have "byte_val c < 65 \<or> (65 \<le> byte_val c \<and> byte_val c \<le> 90) \<or> (91 \<le> byte_val c \<and> byte_val c \<le> 96)
     \<or> (97 \<le> byte_val c \<and> byte_val c \<le> 122) \<or> (123 \<le> byte_val c \<and> byte_val c < 256)"
    by auto
  then show ?thesis
    by (auto simp: m_cmpMatrix_def nth_append to_lower_def is_upper_def simp del: upt_rec_numeral)
qed

lemma icharcmp_iff: "icharcmp c1 c2 \<longleftrightarrow> to_lower c1 = to_lower c2"
  by (simp add: icharcmp_def cmpMatrix_to_lower)

lemma memicmp_loop_zero_iff:
  "n \<le> length s1 \<Longrightarrow> n \<le> length s2 \<Longrightarrow>
     memicmp_loop s1 s2 n = 0 \<longleftrightarrow> map to_lower (take n s1) = map to_lower (take n s2)"
  by (induction s1 s2 n rule: memicmp_loop.induct) (auto simp: icharcmp_iff)

text \<open>Equality of buffers as \<^verbatim>\<open>memicmp2\<close> is meant to decide it.\<close>

definition bytes_match :: "bool \<Rightarrow> bytes \<Rightarrow> bytes \<Rightarrow> bool" where
  "bytes_match caseSensitive xs ys \<longleftrightarrow>
     (if caseSensitive then xs = ys else map to_lower xs = map to_lower ys)"

lemma bytes_match_split:
  assumes "length xs \<le> length zs"
  shows "bytes_match cs (xs @ ys) zs \<longleftrightarrow>
     bytes_match cs xs (take (length xs) zs) \<and> bytes_match cs ys (drop (length xs) zs)"
proof -
  obtain us vs where z: "zs = us @ vs" "length us = length xs"
    using assms by (metis append_take_drop_id length_take min.absorb2)
  have "take (length xs) zs = us" "drop (length xs) zs = vs" using z by (simp_all flip: z(2))
  then show ?thesis using z by (simp add: bytes_match_def)
qed

lemma memicmp2_zero_iff:
  "n \<le> length s1 \<Longrightarrow> n \<le> length s2 \<Longrightarrow>
     memicmp2 s1 s2 n caseSensitive = 0 \<longleftrightarrow> bytes_match caseSensitive (take n s1) (take n s2)"
  by (simp add: memicmp2_def bytes_match_def memcmp64_eq_memcmp memcmp_zero_iff memicmp_loop_zero_iff)

text \<open>
  \<^verbatim>\<open>Mem::memicmp2\<close> returns zero exactly when the first \<open>n\<close> bytes are equal (case-sensitive
  mode) or equal up to ASCII case (otherwise); in case-sensitive mode the 64 KiB block loop of
  \<^verbatim>\<open>memcmp64\<close> gives the very value of one \<^verbatim>\<open>memcmp\<close> over the whole range.
\<close>

theorem memicmp2_correct:
  assumes "n \<le> length s1" and "n \<le> length s2"
  shows "(memicmp2 s1 s2 n caseSensitive = 0 \<longleftrightarrow> bytes_match caseSensitive (take n s1) (take n s2))
       \<and> memicmp2 s1 s2 n True = memcmp (take n s1) (take n s2)"
  using assms memicmp2_zero_iff [OF assms] by (simp add: memicmp2_def memcmp64_eq_memcmp)

theorem memicmp2_correct_witness:
  "memicmp2 ''Content-LENGTH'' ''content-length'' 14 False = 0
   \<and> memicmp2 ''Content-LENGTH'' ''content-length'' 14 True \<noteq> 0"
proof -
  have "bytes_match False (take 14 ''Content-LENGTH'') (take 14 ''content-length'')"
    by code_simp
  then show ?thesis
    using memicmp2_correct [of 14 "''Content-LENGTH''" "''content-length''" False]
      memicmp2_correct [of 14 "''Content-LENGTH''" "''content-length''" True]
    by (simp add: bytes_match_def)
qed

section \<open>The block copy\<close>

lemma block_size_pos [simp]: "0 < block_size"
  by (simp add: block_size_def)

lemma memcpy64_loop_out_of_bounds:
  assumes "length dest < currentOffset + min numBytes block_size" and "0 < numBytes"
  shows "memcpy64_loop dest src numBytes currentOffset = None"
  using assms by (simp add: memcpy64_loop.simps [of dest])

text \<open>While two more blocks remain, an iteration consumes two blocks of the count.\<close>

lemma memcpy64_loop_None:
  assumes "length dest = currentOffset + numBytes" and "numBytes mod (2 * block_size) \<noteq> 0"
    and "numBytes \<le> size_max"
  shows "memcpy64_loop dest src numBytes currentOffset = None"
  using assms
proof (induction numBytes arbitrary: dest currentOffset rule: less_induct)
  case (less n)
  define b where "b = min n block_size"
  have n: "0 < n" using less.prems(2) by (cases n) auto
  have b: "0 < b" "b \<le> n" using n by (simp_all add: b_def)
  define dest' where "dest' = take currentOffset dest @ slice currentOffset b src @ drop (currentOffset + b) dest"
  have step: "memcpy64_loop dest src n currentOffset =
      (if currentOffset + b \<le> length dest \<and> currentOffset + b \<le> length src
       then memcpy64_loop dest' src (usub (usub n b) b) (currentOffset + b + b) else None)"
    using n by (simp add: memcpy64_loop.simps [of dest src n currentOffset] b_def dest'_def Let_def)
  have sub1: "usub n b = n - b" using b less.prems(3) by (simp add: size_arith)
  have len: "length dest' = length dest"
    if "currentOffset + b \<le> length dest" "currentOffset + b \<le> length src"
    using that by (simp add: dest'_def)
  show ?case
  proof (cases "2 * b \<le> n")
    case True
    then have "b = block_size" using b by (auto simp: b_def min_def split: if_splits)
    have sub2: "usub (n - b) b = n - 2 * b" using True less.prems(3) by (simp add: size_arith)
    have "memcpy64_loop dest' src (n - 2 * b) (currentOffset + b + b) = None"
      if "currentOffset + b \<le> length dest" "currentOffset + b \<le> length src"
    proof (rule less.IH)
      show "n - 2 * b < n" using b by simp
      show "length dest' = currentOffset + b + b + (n - 2 * b)"
        using len [OF that] less.prems(1) True by simp
      show "(n - 2 * b) mod (2 * block_size) \<noteq> 0"
        using less.prems(2) True \<open>b = block_size\<close> by (simp add: le_mod_geq)
      show "n - 2 * b \<le> size_max" using less.prems(3) by simp
    qed
    then show ?thesis using step sub1 sub2 by simp
  next
    case False
    then have "n - b < b" using b by simp
    then have "usub (n - b) b = n - b + size_modulus - b" using less.prems(3) b by (simp add: size_arith)
    moreover have "0 < n - b + size_modulus - b"
      using less.prems(3) b(2) unfolding size_modulus_max by linarith
    ultimately have w: "0 < usub (n - b) b" by simp
    have "memcpy64_loop dest' src (usub (n - b) b) (currentOffset + b + b) = None"
      if "currentOffset + b \<le> length dest" "currentOffset + b \<le> length src"
      using w len [OF that] less.prems(1) \<open>n - b < b\<close>
      by (intro memcpy64_loop_out_of_bounds) (simp_all add: min_def)
    then show ?thesis using step sub1 by simp
  qed
qed

text \<open>
  \<^verbatim>\<open>Mem::memcpy64\<close> does not copy: called on buffers of exactly \<open>numBytes\<close> bytes, its loop runs
  out of the buffers for every length that is not a multiple of 128 KiB, because the loop body
  advances the offset and decreases the count twice.
\<close>

theorem memcpy64_overruns:
  assumes "length dest = numBytes" and "numBytes mod 131072 \<noteq> 0" and "numBytes \<le> size_max"
  shows "memcpy64 dest src numBytes = None"
  using assms memcpy64_loop_None [of dest 0 numBytes src]
  by (simp add: memcpy64_def block_size_def)

theorem memcpy64_overruns_witness: "memcpy64 ''abc'' ''xyz'' 3 = None"
  by (rule memcpy64_overruns) (simp_all add: size_max_def)

end
