(* ===== verification/Container.thy ===== *)
theory Container
  imports Streamable MemHelpers
begin

text \<open>
  The abstract binary container \<^verbatim>\<open>B_Base\<close> (\<^verbatim>\<open>src/Mantids30/Memory/b_base.cpp\<close>). Its virtual
  functions are the fields of \<open>container_vt\<close>; a subclass extends the record \<open>b_base\<close> and provides
  such a table. A buffer given by pointer and length is a byte list, and a read into a caller's buffer
  returns the bytes copied. The contract that the subclasses promise is stated by the locales
  \<open>scan_container\<close> and \<open>buffer_container\<close>, in which the inherited operations are verified once.
\<close>

section \<open>State and virtual functions\<close>

datatype BinaryContainerMethod =
    BC_METHOD_CHUNKS | BC_METHOD_MEM | BC_METHOD_BCREF | BC_METHOD_FILEMMAP | BC_METHOD_NULL

record b_base =
  writeStatus :: WriteStatus
  m_fsDirectoryPath :: string
  m_fsBaseFileName :: string
  m_storeMethod :: BinaryContainerMethod
  m_readOnly :: bool
  m_containerBytes :: nat
  m_maxSize :: nat

text \<open>
  What a \<^verbatim>\<open>copyToStreamableObject2\<close> does with the destination: return at once, mark the
  destination as failed (by \<^verbatim>\<open>writeStatus += -1\<close> or by clearing \<^verbatim>\<open>succeed\<close>), or write a vector of
  chunks one after the other.
\<close>

datatype copy_plan =
    PlanReturn "nat option"
  | PlanFailAdd
  | PlanFailSet
  | PlanWrite "bytes list"

record 's container_vt =
  vt_size :: "'s \<Rightarrow> nat"
  vt_append2 :: "'s \<Rightarrow> bytes \<Rightarrow> bool \<Rightarrow> 's \<times> nat option"
  vt_displace2 :: "'s \<Rightarrow> nat \<Rightarrow> 's \<times> nat option"
  vt_truncate2 :: "'s \<Rightarrow> nat \<Rightarrow> 's \<times> nat option"
  vt_clear2 :: "'s \<Rightarrow> 's \<times> bool"
  vt_copyPlan2 :: "'s \<Rightarrow> nat \<Rightarrow> nat \<Rightarrow> copy_plan"
  vt_copyToBuffer2 :: "'s \<Rightarrow> nat \<Rightarrow> nat \<Rightarrow> bytes option"
  vt_compare2 :: "'s \<Rightarrow> bytes \<Rightarrow> bool \<Rightarrow> nat \<Rightarrow> bool"
  vt_findChar :: "'s \<Rightarrow> char \<Rightarrow> nat \<Rightarrow> nat \<Rightarrow> bool \<Rightarrow> nat option result"

section \<open>Constructor, size and limits\<close>

definition b_init :: b_base where
  "b_init = \<lparr>writeStatus = ws_init, m_fsDirectoryPath = ''/tmp'', m_fsBaseFileName = ''BinaryContainer-'',
      m_storeMethod = BC_METHOD_NULL, m_readOnly = False, m_containerBytes = 0, m_maxSize = size_max\<rparr>"

definition b_setContainerBytes :: "'a b_base_scheme \<Rightarrow> nat \<Rightarrow> 'a b_base_scheme" where
  "b_setContainerBytes s value = s\<lparr>m_containerBytes := value\<rparr>"

definition b_incContainerBytesCount :: "'a b_base_scheme container_vt \<Rightarrow> 'a b_base_scheme \<Rightarrow> nat \<Rightarrow> 'a b_base_scheme" where
  "b_incContainerBytesCount vt s i = b_setContainerBytes s (uadd (vt_size vt s) i)"

definition b_decContainerBytesCount :: "'a b_base_scheme container_vt \<Rightarrow> 'a b_base_scheme \<Rightarrow> nat \<Rightarrow> 'a b_base_scheme" where
  "b_decContainerBytesCount vt s i = b_setContainerBytes s (usub (vt_size vt s) i)"

definition b_isNull :: "'a b_base_scheme container_vt \<Rightarrow> 'a b_base_scheme \<Rightarrow> bool" where
  "b_isNull vt s \<longleftrightarrow> vt_size vt s = 0"

definition b_setMaxSize :: "'a b_base_scheme \<Rightarrow> nat \<Rightarrow> 'a b_base_scheme" where
  "b_setMaxSize s value = s\<lparr>m_maxSize := value\<rparr>"

definition b_getSizeLeft :: "'a b_base_scheme container_vt \<Rightarrow> 'a b_base_scheme \<Rightarrow> nat" where
  "b_getSizeLeft vt s = (if vt_size vt s > m_maxSize s then 0 else m_maxSize s - vt_size vt s)"

definition b_reduceMaxSizeBy :: "'a b_base_scheme \<Rightarrow> nat \<Rightarrow> 'a b_base_scheme result" where
  "b_reduceMaxSizeBy s value =
     (if value > m_maxSize s
      then Inl (RuntimeError ''Don't reduce the max size with a value greater than the current max.'')
      else Inr (b_setMaxSize s (m_maxSize s - value)))"

section \<open>Growing and shrinking\<close>

definition b_append :: "'a b_base_scheme container_vt \<Rightarrow> 'a b_base_scheme \<Rightarrow> bytes \<Rightarrow> 'a b_base_scheme \<times> nat option" where
  "b_append vt s data =
     (if m_readOnly s then (s, None)
      else
        let len = length data; currentSize = vt_size vt s
        in if check_uint_overflow_sum len currentSize then (s, None)
           else if len + currentSize > m_maxSize s then (s, None)
           else if len = 0 then (s, None)
           else vt_append2 vt s data False)"

definition b_prepend :: "'a b_base_scheme container_vt \<Rightarrow> 'a b_base_scheme \<Rightarrow> bytes \<Rightarrow> 'a b_base_scheme \<times> nat option" where
  "b_prepend vt s data =
     (if m_readOnly s then (s, None)
      else
        let len = length data; currentSize = vt_size vt s
        in if check_uint_overflow_sum len currentSize then (s, None)
           else if len + currentSize > m_maxSize s then (s, None)
           else if len = 0 then (s, Some 0)
           else vt_append2 vt s data True)"

definition b_displace :: "'a b_base_scheme container_vt \<Rightarrow> 'a b_base_scheme \<Rightarrow> nat \<Rightarrow> 'a b_base_scheme \<times> nat option" where
  "b_displace vt s bytes = (let currentSize = vt_size vt s in vt_displace2 vt s (min bytes currentSize))"

definition b_truncate :: "'a b_base_scheme container_vt \<Rightarrow> 'a b_base_scheme \<Rightarrow> nat \<Rightarrow> 'a b_base_scheme \<times> nat option" where
  "b_truncate vt s bytes =
     (let currentSize = vt_size vt s
      in if bytes \<ge> currentSize then (s, None) else vt_truncate2 vt s bytes)"

definition b_clear0 :: "'a b_base_scheme \<Rightarrow> 'a b_base_scheme" where
  "b_clear0 s =
     s\<lparr>m_containerBytes := 0, m_fsDirectoryPath := ''/tmp'', m_fsBaseFileName := ''BinaryContainer-''\<rparr>"

definition b_clear :: "'a b_base_scheme container_vt \<Rightarrow> 'a b_base_scheme \<Rightarrow> 'a b_base_scheme \<times> bool" where
  "b_clear vt s = vt_clear2 vt (b_clear0 s)"

section \<open>Reading\<close>

text \<open>
  The guards shared by the reading functions: \<^verbatim>\<open>SIZE_MAX\<close> bytes mean the rest of the container.
  The result is \<open>None\<close> for an invalid position, otherwise the number of bytes requested.
\<close>

definition b_requested :: "nat \<Rightarrow> nat \<Rightarrow> nat \<Rightarrow> nat option" where
  "b_requested currentSize bytes offset =
     (if bytes = size_max then
        (if offset > currentSize then None
         else if check_uint_overflow_sum offset (currentSize - offset) then None
         else Some (currentSize - offset))
      else if check_uint_overflow_sum offset bytes then None else Some bytes)"

definition b_copyOut :: "'a b_base_scheme container_vt \<Rightarrow> 'a b_base_scheme \<Rightarrow> nat \<Rightarrow> nat \<Rightarrow> bytes option" where
  "b_copyOut vt s bytes offset =
     (case b_requested (vt_size vt s) bytes offset of
        None \<Rightarrow> None
      | Some n \<Rightarrow>
          if n = 0 then Some []
          else if offset + n > vt_size vt s then None
          else vt_copyToBuffer2 vt s n offset)"

text \<open>The loop of \<^verbatim>\<open>copyToString\<close> and \<^verbatim>\<open>toString\<close> through a buffer of 8192 bytes.\<close>

function b_string_loop :: "'a b_base_scheme container_vt \<Rightarrow> 'a b_base_scheme \<Rightarrow> nat \<Rightarrow> nat \<Rightarrow> bytes \<Rightarrow> bytes" where
  "b_string_loop vt s bytes offset outStr =
     (if bytes > 0 then
        let copyBytes = min bytes 8192
        in case b_copyOut vt s copyBytes offset of
             Some outmem \<Rightarrow> b_string_loop vt s (bytes - copyBytes) (uadd offset copyBytes) (outStr @ outmem)
           | None \<Rightarrow> outStr
      else outStr)"
  by pat_completeness auto
termination
  by (relation "measure (\<lambda>(vt, s, bytes, offset, outStr). bytes)") auto

declare b_string_loop.simps [simp del]

definition b_copyToString :: "'a b_base_scheme container_vt \<Rightarrow> 'a b_base_scheme \<Rightarrow> bytes \<Rightarrow> nat \<Rightarrow> nat \<Rightarrow> bytes \<times> nat option" where
  "b_copyToString vt s outStr bytes offset =
     (case b_requested (vt_size vt s) bytes offset of
        None \<Rightarrow> (outStr, None)
      | Some n \<Rightarrow>
          if n = 0 then (outStr, Some 0)
          else if offset + n > vt_size vt s then (outStr, None)
          else let r = b_string_loop vt s n offset outStr in (r, Some (length r)))"

definition b_toString :: "'a b_base_scheme container_vt \<Rightarrow> 'a b_base_scheme \<Rightarrow> nat \<Rightarrow> nat \<Rightarrow> bytes option" where
  "b_toString vt s bytes offset =
     (case b_requested (vt_size vt s) bytes offset of
        None \<Rightarrow> None
      | Some n \<Rightarrow>
          if n = 0 then Some []
          else if offset + n > vt_size vt s then None
          else Some (b_string_loop vt s n offset []))"

definition b_toStringEx :: "'a b_base_scheme container_vt \<Rightarrow> 'a b_base_scheme \<Rightarrow> nat \<Rightarrow> nat \<Rightarrow> bytes" where
  "b_toStringEx vt s bytes offset = (case b_toString vt s bytes offset of Some r \<Rightarrow> r | None \<Rightarrow> [])"

section \<open>Comparing and searching\<close>

text \<open>\<^verbatim>\<open>B_Base::compare(mem, len, ...)\<close> returns before it looks at the data.\<close>

definition b_compare :: "'a b_base_scheme container_vt \<Rightarrow> 'a b_base_scheme \<Rightarrow> bytes \<Rightarrow> bool \<Rightarrow> nat \<Rightarrow> bool" where
  "b_compare vt s mem caseSensitive offset =
     (if check_uint_overflow_sum offset (length mem) then False else True)"

definition b_compareString :: "'a b_base_scheme container_vt \<Rightarrow> 'a b_base_scheme \<Rightarrow> bytes \<Rightarrow> bool \<Rightarrow> nat \<Rightarrow> bool" where
  "b_compareString vt s cmpString caseSensitive offset =
     (if length cmpString \<noteq> vt_size vt s then False else b_compare vt s cmpString caseSensitive offset)"

text \<open>
  The search loop of \<^verbatim>\<open>B_Base::find\<close>: jump to the next occurrence of the first character, compare,
  otherwise skip one byte. The fuel bounds the iterations; every one uses up search space.
\<close>

fun b_find_loop :: "nat \<Rightarrow> 'a b_base_scheme container_vt \<Rightarrow> 'a b_base_scheme \<Rightarrow> bytes \<Rightarrow> bool \<Rightarrow> nat \<Rightarrow> nat \<Rightarrow> nat option result" where
  "b_find_loop 0 vt s needle caseSensitive currentOffset searchSpace = Inl OutOfFuel"
| "b_find_loop (Suc fuel) vt s needle caseSensitive currentOffset searchSpace =
     (case vt_findChar vt s (hd needle) currentOffset searchSpace caseSensitive of
        Inl e \<Rightarrow> Inl e
      | Inr None \<Rightarrow> Inr None
      | Inr (Some pos) \<Rightarrow>
          let displacement = usub pos currentOffset;
              currentOffset = uadd currentOffset displacement;
              searchSpace = usub searchSpace displacement
          in if vt_compare2 vt s needle caseSensitive currentOffset then Inr (Some currentOffset)
             else if searchSpace = 0 then Inr None
             else b_find_loop fuel vt s needle caseSensitive (uadd currentOffset 1) (usub searchSpace 1))"

definition b_find :: "'a b_base_scheme container_vt \<Rightarrow> 'a b_base_scheme \<Rightarrow> bytes \<Rightarrow> bool \<Rightarrow> nat \<Rightarrow> nat \<Rightarrow> nat option result" where
  "b_find vt s needle caseSensitive offset searchSpace =
     (let currentSize = vt_size vt s; needle_len = length needle
      in if check_uint_overflow_sum offset needle_len then Inr None
         else if check_uint_overflow_sum offset searchSpace then Inr None
         else if offset > currentSize then Inr None
         else
           let searchSpace = (if searchSpace = 0 then currentSize - offset else searchSpace)
           in if searchSpace = 0 then Inr None
              else if searchSpace < needle_len then Inr None
              else if needle_len = 0 then Inr (Some 0)
              else b_find_loop (Suc searchSpace) vt s needle caseSensitive offset searchSpace)"

text \<open>\<^verbatim>\<open>B_Base::find\<close> for a list of needles: the first needle of the list that occurs.\<close>

fun b_findAny :: "'a b_base_scheme container_vt \<Rightarrow> 'a b_base_scheme \<Rightarrow> bytes list \<Rightarrow> bool \<Rightarrow> nat \<Rightarrow> nat \<Rightarrow> (nat option \<times> bytes) result" where
  "b_findAny vt s [] caseSensitive offset searchSpace = Inr (None, [])"
| "b_findAny vt s (needle # needles) caseSensitive offset searchSpace =
     (case b_find vt s needle caseSensitive offset searchSpace of
        Inl e \<Rightarrow> Inl e
      | Inr (Some f) \<Rightarrow> Inr (Some f, needle)
      | Inr None \<Rightarrow> b_findAny vt s needles caseSensitive offset searchSpace)"

section \<open>Copying into streamable objects\<close>

text \<open>\<^verbatim>\<open>copyToStreamableObjectUsingCleanVector\<close>.\<close>

fun b_writeChunks :: "'o streamable \<Rightarrow> 'o \<Rightarrow> bytes list \<Rightarrow> nat \<Rightarrow> ('o \<times> nat option) result" where
  "b_writeChunks io out [] dataCopied = Inr (out, Some dataCopied)"
| "b_writeChunks io out (c # copyChunks) dataCopied =
     (case so_write io out c of
        Inl e \<Rightarrow> Inl e
      | Inr (out', None) \<Rightarrow> Inr (out', None)
      | Inr (out', Some written) \<Rightarrow>
          if \<not> succeed (so_status io out') then Inr (out', None)
          else (case safeAdd_size written dataCopied of
                  Inl e \<Rightarrow> Inl e
                | Inr dataCopied' \<Rightarrow> b_writeChunks io out' copyChunks dataCopied'))"

definition so_add_status :: "'o streamable \<Rightarrow> 'o \<Rightarrow> int \<Rightarrow> 'o result" where
  "so_add_status io out x =
     (case ws_add (so_status io out) x of Inl e \<Rightarrow> Inl e | Inr ws \<Rightarrow> Inr (so_set_status io ws out))"

definition so_fail :: "'o streamable \<Rightarrow> 'o \<Rightarrow> ('o \<times> nat option) result" where
  "so_fail io out = (case so_add_status io out (-1) of Inl e \<Rightarrow> Inl e | Inr out' \<Rightarrow> Inr (out', None))"

definition b_runPlan :: "'o streamable \<Rightarrow> 'o \<Rightarrow> copy_plan \<Rightarrow> ('o \<times> nat option) result" where
  "b_runPlan io out plan =
     (case plan of
        PlanReturn r \<Rightarrow> Inr (out, r)
      | PlanFailAdd \<Rightarrow> so_fail io out
      | PlanFailSet \<Rightarrow> Inr (so_set_status io ((so_status io out)\<lparr>succeed := False\<rparr>) out, None)
      | PlanWrite cs \<Rightarrow> b_writeChunks io out cs 0)"

text \<open>\<^verbatim>\<open>B_Base::appendTo\<close>: its guards and the subclass decide what happens to the destination.\<close>

definition b_appendPlan :: "'a b_base_scheme container_vt \<Rightarrow> 'a b_base_scheme \<Rightarrow> nat \<Rightarrow> nat \<Rightarrow> copy_plan" where
  "b_appendPlan vt s bytes offset =
     (let currentSize = vt_size vt s
      in case b_requested currentSize bytes offset of
           None \<Rightarrow> PlanFailAdd
         | Some n \<Rightarrow>
             if n = 0 then PlanReturn (Some 0)
             else if offset > currentSize then PlanFailAdd
             else vt_copyPlan2 vt s (if offset + n > currentSize then currentSize - offset else n) offset)"

definition b_appendTo :: "'a b_base_scheme container_vt \<Rightarrow> 'a b_base_scheme \<Rightarrow> 'o streamable \<Rightarrow> 'o \<Rightarrow> nat \<Rightarrow> nat \<Rightarrow> ('o \<times> nat option) result" where
  "b_appendTo vt s io out bytes offset = b_runPlan io out (b_appendPlan vt s bytes offset)"

definition b_streamTo :: "'a b_base_scheme container_vt \<Rightarrow> 'a b_base_scheme \<Rightarrow> 'o streamable \<Rightarrow> 'o \<Rightarrow> ('o \<times> bool) result" where
  "b_streamTo vt s io out =
     (case b_appendTo vt s io out size_max 0 of
        Inl e \<Rightarrow> Inl e
      | Inr (out', None) \<Rightarrow> Inr (out', False)
      | Inr (out', Some x) \<Rightarrow> Inr (out', succeed (so_status io out')))"

text \<open>A container is itself a streamable object: \<^verbatim>\<open>B_Base::write\<close>.\<close>

definition b_write :: "'a b_base_scheme container_vt \<Rightarrow> 'a b_base_scheme \<Rightarrow> bytes \<Rightarrow> ('a b_base_scheme \<times> nat option) result" where
  "b_write vt s buf =
     (case b_append vt s buf of
        (s', Some n) \<Rightarrow>
          (case ws_add (writeStatus s') (to_ssize n) of
             Inl e \<Rightarrow> Inl e | Inr ws \<Rightarrow> Inr (s'\<lparr>writeStatus := ws\<rparr>, Some n))
      | (s', None) \<Rightarrow>
          (case ws_add (writeStatus s') (-1) of
             Inl e \<Rightarrow> Inl e | Inr ws \<Rightarrow> Inr (s'\<lparr>writeStatus := ws\<rparr>, None)))"

definition b_streamable :: "'a b_base_scheme container_vt \<Rightarrow> 'a b_base_scheme streamable" where
  "b_streamable vt =
     \<lparr>so_write = b_write vt, so_status = writeStatus, so_set_status = (\<lambda>ws s. s\<lparr>writeStatus := ws\<rparr>)\<rparr>"

section \<open>Copying up to a needle\<close>

definition b_copyUntil :: "'a b_base_scheme container_vt \<Rightarrow> 'a b_base_scheme \<Rightarrow> 'o streamable \<Rightarrow> 'o \<Rightarrow> bytes \<Rightarrow> nat \<Rightarrow> bool \<Rightarrow> ('o \<times> int) result" where
  "b_copyUntil vt s io destination needle maxCopySize removeNeedle =
     (case b_find vt s needle False 0 maxCopySize of
        Inl e \<Rightarrow> Inl e
      | Inr None \<Rightarrow> Inr (destination, -1)
      | Inr (Some needlePos) \<Rightarrow>
          if check_uint_overflow_sum needlePos (length needle) then Inr (destination, -1)
          else if removeNeedle then
            (if needlePos > maxCopySize then Inr (destination, -2)
             else case b_appendTo vt s io destination needlePos 0 of
                    Inl e \<Rightarrow> Inl e | Inr (d', _) \<Rightarrow> Inr (d', 0))
          else
            (if needlePos + length needle > maxCopySize then Inr (destination, -2)
             else case b_appendTo vt s io destination (needlePos + length needle) 0 of
                    Inl e \<Rightarrow> Inl e | Inr (d', _) \<Rightarrow> Inr (d', 0)))"

text \<open>The destination of \<^verbatim>\<open>displaceUntil\<close> is a container, whose size after the copy is displaced.\<close>

definition b_displaceUntil :: "'a b_base_scheme container_vt \<Rightarrow> 'a b_base_scheme \<Rightarrow> 'b b_base_scheme container_vt \<Rightarrow> 'b b_base_scheme \<Rightarrow> bytes \<Rightarrow> nat \<Rightarrow> bool \<Rightarrow> ('a b_base_scheme \<times> 'b b_base_scheme \<times> int) result" where
  "b_displaceUntil vt s dvt destination needle maxCopySize removeNeedle =
     (case b_copyUntil vt s (b_streamable dvt) destination needle maxCopySize removeNeedle of
        Inl e \<Rightarrow> Inl e
      | Inr (d', retr) \<Rightarrow>
          if retr < 0 then Inr (s, d', retr)
          else
            let s' = fst (b_displace vt s (uadd (vt_size dvt d') (if removeNeedle then length needle else 0)))
            in Inr (s', d', 0))"

fun b_displaceUntilAny :: "'a b_base_scheme container_vt \<Rightarrow> 'a b_base_scheme \<Rightarrow> 'b b_base_scheme container_vt \<Rightarrow> 'b b_base_scheme \<Rightarrow> bytes list \<Rightarrow> nat \<Rightarrow> bool \<Rightarrow> ('a b_base_scheme \<times> 'b b_base_scheme \<times> int) result" where
  "b_displaceUntilAny vt s dvt destination [] maxCopySize removeNeedle = Inr (s, destination, -1)"
| "b_displaceUntilAny vt s dvt destination (needle # needles) maxCopySize removeNeedle =
     (case b_displaceUntil vt s dvt destination needle maxCopySize removeNeedle of
        Inl e \<Rightarrow> Inl e
      | Inr (s', d', retr) \<Rightarrow>
          if retr = 0 then Inr (s', d', 0)
          else b_displaceUntilAny vt s' dvt d' needles maxCopySize removeNeedle)"

section \<open>Occurrences of a needle\<close>

definition occurs_at :: "bytes \<Rightarrow> bytes \<Rightarrow> nat \<Rightarrow> bool" where
  "occurs_at needle xs i \<longleftrightarrow> i + length needle \<le> length xs \<and> slice i (length needle) xs = needle"

text \<open>What a search from a position returns: the first occurrence, or that there is none.\<close>

definition first_occurrence :: "bytes \<Rightarrow> bytes \<Rightarrow> nat \<Rightarrow> nat option \<Rightarrow> bool" where
  "first_occurrence needle xs from r =
     (case r of
        None \<Rightarrow> \<forall>i\<ge>from. \<not> occurs_at needle xs i
      | Some p \<Rightarrow> from \<le> p \<and> occurs_at needle xs p \<and> (\<forall>i. from \<le> i \<and> i < p \<longrightarrow> \<not> occurs_at needle xs i))"

text \<open>
  What a character search over a window may return: a position of the window with no exact occurrence
  of the character before it, or nothing when the character is not in the window.
\<close>

definition next_candidate :: "bytes \<Rightarrow> char \<Rightarrow> nat \<Rightarrow> nat \<Rightarrow> nat option \<Rightarrow> bool" where
  "next_candidate xs c off space r =
     (case r of
        None \<Rightarrow> \<forall>i. off \<le> i \<and> i < off + space \<longrightarrow> xs ! i \<noteq> c
      | Some p \<Rightarrow> off \<le> p \<and> p < off + space \<and> (\<forall>i. off \<le> i \<and> i < p \<longrightarrow> xs ! i \<noteq> c))"

lemma occurs_at_hd: "occurs_at needle xs i \<Longrightarrow> needle \<noteq> [] \<Longrightarrow> i < length xs \<and> xs ! i = hd needle"
proof -
  assume o: "occurs_at needle xs i" and ne: "needle \<noteq> []"
  then have l: "i < length xs" by (cases needle) (auto simp: occurs_at_def)
  have "needle ! 0 = slice i (length needle) xs ! 0" using o by (simp add: occurs_at_def)
  also have "\<dots> = xs ! i" using ne l by (simp add: nth_slice)
  finally show "i < length xs \<and> xs ! i = hd needle" using ne l by (simp add: hd_conv_nth)
qed

lemma first_occurrence_unique:
  "first_occurrence needle xs from r \<Longrightarrow> first_occurrence needle xs from r' \<Longrightarrow> r = r'"
  by (auto simp: first_occurrence_def split: option.splits) (metis linorder_neqE_nat)

lemma first_occurrence_skip:
  assumes "first_occurrence needle xs from' r" and "from \<le> from'"
    and "\<And>i. from \<le> i \<Longrightarrow> i < from' \<Longrightarrow> \<not> occurs_at needle xs i"
  shows "first_occurrence needle xs from r"
  using assms by (cases r) (auto simp: first_occurrence_def, (metis not_le)+)

section \<open>The contract of a container\<close>

text \<open>
  A container that can be measured (\<open>sized_container\<close>), and moreover compared and searched
  (\<open>scan_container\<close>): its operations answer as the byte list \<open>content\<close> would.
\<close>

locale sized_container =
  fixes vt :: "'a b_base_scheme container_vt"
    and content :: "'a b_base_scheme \<Rightarrow> bytes"
    and invar :: "'a b_base_scheme \<Rightarrow> bool"
  assumes size_content: "invar s \<Longrightarrow> vt_size vt s = length (content s)"
    and content_bound: "invar s \<Longrightarrow> length (content s) \<le> size_max"

locale scan_container = sized_container vt content invar
  for vt :: "'a b_base_scheme container_vt" and content and invar +
  assumes compare2_content:
      "invar s \<Longrightarrow> buf \<noteq> [] \<Longrightarrow> off + length buf \<le> size_max \<Longrightarrow>
         vt_compare2 vt s buf cs off \<longleftrightarrow>
           off + length buf \<le> length (content s) \<and> bytes_match cs (slice off (length buf) (content s)) buf"
    and findChar_content:
      "invar s \<Longrightarrow> off + space \<le> length (content s) \<Longrightarrow> 0 < space \<or> off = length (content s) \<Longrightarrow>
         \<exists>r. vt_findChar vt s c off space True = Inr r \<and> next_candidate (content s) c off space r"
begin

lemma find_loop_first:
  assumes "invar s" and "needle \<noteq> []" and "length needle \<le> size_max - length (content s)"
  shows "co + sp = length (content s) \<Longrightarrow> sp < fuel \<Longrightarrow>
     \<exists>r. b_find_loop fuel vt s needle True co sp = Inr r \<and> first_occurrence needle (content s) co r"
proof (induction fuel arbitrary: co sp)
  case 0
  then show ?case by simp
next
  case (Suc fuel)
  note bound = content_bound [OF assms(1)]
  have "0 < sp \<or> co = length (content s)" using Suc.prems(1) by linarith
  then obtain r where fc: "vt_findChar vt s (hd needle) co sp True = Inr r"
    and cand: "next_candidate (content s) (hd needle) co sp r"
    using findChar_content [OF assms(1), of co sp "hd needle"] Suc.prems(1) by auto
  show ?case
  proof (cases r)
    case None
    have "\<not> occurs_at needle (content s) i" if "co \<le> i" for i
      using occurs_at_hd [OF _ assms(2), of "content s" i] cand None that Suc.prems(1)
      by (auto simp: next_candidate_def)
    then show ?thesis using fc None by (simp add: first_occurrence_def)
  next
    case (Some p)
    then have p: "co \<le> p" "p < co + sp" and skip: "\<And>i. co \<le> i \<Longrightarrow> i < p \<Longrightarrow> content s ! i \<noteq> hd needle"
      using cand by (auto simp: next_candidate_def)
    have none_before: "\<not> occurs_at needle (content s) i" if "co \<le> i" "i < p" for i
      using occurs_at_hd [OF _ assms(2)] skip [OF that] by blast
    have d: "usub p co = p - co" "uadd co (p - co) = p" "usub sp (p - co) = sp - (p - co)"
      using p Suc.prems(1) bound by (simp_all add: size_arith)
    have cmp: "vt_compare2 vt s needle True p \<longleftrightarrow> occurs_at needle (content s) p"
      using compare2_content [OF assms(1,2), of p True] p Suc.prems(1) bound assms(3)
      by (auto simp: occurs_at_def bytes_match_def)
    show ?thesis
    proof (cases "occurs_at needle (content s) p")
      case True
      then show ?thesis using fc Some d cmp p none_before by (simp add: first_occurrence_def)
    next
      case False
      define sp' where "sp' = sp - (p - co)"
      have sp': "0 < sp'" "p + sp' = length (content s)" using p Suc.prems(1) by (simp_all add: sp'_def)
      have "uadd p 1 = p + 1" "usub sp' 1 = sp' - 1" using sp' bound by (simp_all add: size_arith)
      moreover obtain r' where r': "b_find_loop fuel vt s needle True (p + 1) (sp' - 1) = Inr r'"
        "first_occurrence needle (content s) (p + 1) r'"
      proof -
        have "p + 1 + (sp' - 1) = length (content s)" "sp' - 1 < fuel"
          using sp' Suc.prems(2) p(1) by (simp, simp add: sp'_def)
        then show ?thesis using Suc.IH that by blast
      qed
      moreover have "first_occurrence needle (content s) co r'"
        by (rule first_occurrence_skip [OF r'(2)])
          (use p none_before False in \<open>auto simp: less_Suc_eq\<close>)
      ultimately show ?thesis
        using fc Some d cmp False sp' by (auto simp: sp'_def [symmetric] Let_def)
    qed
  qed
qed

text \<open>A case-sensitive search over the rest of the container finds the first occurrence.\<close>

lemma find_first:
  assumes "invar s" and "needle \<noteq> []" and "length needle \<le> size_max - length (content s)"
    and "off \<le> length (content s)"
  shows "\<exists>r. b_find vt s needle True off 0 = Inr r \<and> first_occurrence needle (content s) off r"
proof -
  note bound = content_bound [OF assms(1)] and sz = size_content [OF assms(1)]
  have ov: "\<not> check_uint_overflow_sum off (length needle)" "\<not> check_uint_overflow_sum off 0"
    using assms(3,4) bound by (simp_all add: check_uint_overflow_sum_iff)
  show ?thesis
  proof (cases "length (content s) - off < length needle")
    case True
    then have "first_occurrence needle (content s) off None"
      by (auto simp: first_occurrence_def occurs_at_def)
    moreover have "b_find vt s needle True off 0 = Inr None"
      using True ov assms(4) by (auto simp: b_find_def sz Let_def simp del: b_find_loop.simps)
    ultimately show ?thesis by blast
  next
    case False
    then have "off < length (content s)" using assms(2) by (cases needle) auto
    with False ov assms(2) have
      "b_find vt s needle True off 0 =
         b_find_loop (Suc (length (content s) - off)) vt s needle True off (length (content s) - off)"
      by (auto simp: b_find_def sz Let_def simp del: b_find_loop.simps)
    then show ?thesis
      using find_loop_first [OF assms(1-3), of off "length (content s) - off" "Suc (length (content s) - off)"]
        assms(4) by simp
  qed
qed

end

text \<open>A container whose bytes can be read out at any position.\<close>

locale buffer_container = sized_container vt content invar
  for vt :: "'a b_base_scheme container_vt" and content and invar +
  assumes copyToBuffer2_content:
    "invar s \<Longrightarrow> 0 < n \<Longrightarrow> off + n \<le> length (content s) \<Longrightarrow>
       vt_copyToBuffer2 vt s n off = Some (slice off n (content s))"
begin

lemma copyOut_content:
  assumes "invar s" and "off + n \<le> length (content s)"
  shows "b_copyOut vt s n off = Some (slice off n (content s))"
proof -
  have "\<not> check_uint_overflow_sum off n"
    using assms content_bound [OF assms(1)] by (simp add: check_uint_overflow_sum_iff)
  moreover have "off = 0 \<and> length (content s) = n" if "n = size_max"
    using that assms(2) content_bound [OF assms(1)] by simp
  moreover have "0 < size_max" by (simp add: size_max_def)
  ultimately show ?thesis
    using assms copyToBuffer2_content [OF assms(1), of n off]
    by (auto simp: b_copyOut_def b_requested_def size_content slice_def)
qed

lemma string_loop_content:
  assumes "invar s"
  shows "off + n \<le> length (content s) \<Longrightarrow> b_string_loop vt s n off acc = acc @ slice off n (content s)"
proof (induction n arbitrary: off acc rule: less_induct)
  case (less n)
  show ?case
  proof (cases "n = 0")
    case True
    then show ?thesis by (simp add: b_string_loop.simps [of vt s 0] slice_def)
  next
    case False
    define k where "k = min n 8192"
    have k: "0 < k" "k \<le> n" "k \<noteq> size_max" using False by (auto simp: k_def size_max_def)
    have "b_copyOut vt s k off = Some (slice off k (content s))"
      using copyOut_content [OF assms] less.prems k(2) by simp
    moreover have "uadd off k = off + k"
      using less.prems k(2) content_bound [OF assms] by (simp add: size_arith)
    moreover have "b_string_loop vt s (n - k) (off + k) (acc @ slice off k (content s))
        = (acc @ slice off k (content s)) @ slice (off + k) (n - k) (content s)"
      using less.prems k by (intro less.IH) simp_all
    ultimately show ?thesis
      using False k slice_slice_append [of off k "content s" "n - k"]
      by (simp add: b_string_loop.simps [of vt s n] k_def [symmetric])
  qed
qed

text \<open>\<^verbatim>\<open>toString\<close> returns the requested bytes; the default arguments return everything.\<close>

lemma toString_content:
  assumes "invar s" and "n \<noteq> size_max" and "off \<le> size_max" and "n \<le> size_max"
  shows "b_toString vt s n off =
     (if off + n \<le> length (content s) \<or> n = 0 then Some (slice off n (content s)) else None)"
proof (cases "off + n \<le> size_max")
  case True
  then have "\<not> check_uint_overflow_sum off n" using assms by (simp add: check_uint_overflow_sum_iff)
  then show ?thesis
    using assms string_loop_content [OF assms(1), of off n "[]"]
    by (auto simp: b_toString_def b_requested_def size_content slice_def)
next
  case False
  then have "check_uint_overflow_sum off n" "n \<noteq> 0" "\<not> off + n \<le> length (content s)"
    using assms content_bound [OF assms(1)] by (auto simp: check_uint_overflow_sum_iff)
  then show ?thesis using assms(2) by (simp add: b_toString_def b_requested_def)
qed

lemma toString_all:
  assumes "invar s"
  shows "b_toString vt s size_max 0 = Some (content s)"
proof -
  have "\<not> check_uint_overflow_sum 0 (length (content s))"
    using content_bound [OF assms] by (simp add: check_uint_overflow_sum_iff)
  then show ?thesis
    using string_loop_content [OF assms, of 0 "length (content s)" "[]"]
    by (simp add: b_toString_def b_requested_def size_content [OF assms])
qed

end

text \<open>A container that can be searched and read.\<close>

locale read_container = scan_container vt content invar + buffer_container vt content invar
  for vt :: "'a b_base_scheme container_vt" and content and invar

section \<open>Destinations that accept every chunk whole\<close>

text \<open>
  A destination with room for a sequence of writes of the given lengths. It is in particular a sink
  for one buffer.
\<close>

locale full_sink =
  fixes io :: "'o streamable"
    and delivered :: "'o \<Rightarrow> bytes"
    and fits :: "'o \<Rightarrow> nat list \<Rightarrow> bool"
  assumes full_write:
    "fits out (length buf # ls) \<Longrightarrow> buf \<noteq> [] \<Longrightarrow>
       \<exists>out'. so_write io out buf = Inr (out', Some (length buf))
         \<and> delivered out' = delivered out @ buf \<and> succeed (so_status io out') \<and> fits out' ls"
begin

lemma writeChunks_delivers:
  "fits out (map length bufs) \<Longrightarrow> [] \<notin> set bufs \<Longrightarrow> copied + length (concat bufs) \<le> size_max \<Longrightarrow>
     \<exists>out'. b_writeChunks io out bufs copied = Inr (out', Some (copied + length (concat bufs)))
       \<and> delivered out' = delivered out @ concat bufs
       \<and> (succeed (so_status io out) \<longrightarrow> succeed (so_status io out')) \<and> fits out' []"
proof (induction bufs arbitrary: out copied)
  case Nil
  then show ?case by simp
next
  case (Cons b bufs)
  have "fits out (length b # map length bufs)" "b \<noteq> []" using Cons.prems by auto
  from full_write [OF this] obtain out1 where w: "so_write io out b = Inr (out1, Some (length b))"
    "delivered out1 = delivered out @ b" "succeed (so_status io out1)" "fits out1 (map length bufs)"
    by blast
  have "safeAdd_size (length b) copied = Inr (copied + length b)"
    using Cons.prems(3) by (simp add: safeAdd_size_eq add.commute)
  moreover have "[] \<notin> set bufs" "copied + length b + length (concat bufs) \<le> size_max"
    using Cons.prems(2,3) by auto
  ultimately show ?case using Cons.IH [OF w(4)] w by fastforce
qed

end

sublocale full_sink \<subseteq> stream_sink io delivered "\<lambda>out n. fits out (if n = 0 then [] else [n])"
proof
  fix out and buf :: bytes
  assume "fits out (if length buf = 0 then [] else [length buf])" and "buf \<noteq> []"
  then obtain out' where "so_write io out buf = Inr (out', Some (length buf))"
    "delivered out' = delivered out @ buf" "succeed (so_status io out')" "fits out' []"
    using full_write [of out buf "[]"] by auto
  with \<open>buf \<noteq> []\<close> show "\<exists>out' n. so_write io out buf = Inr (out', Some n) \<and> 0 < n \<and> n \<le> length buf
      \<and> delivered out' = delivered out @ take n buf \<and> succeed (so_status io out')
      \<and> fits out' (if length buf - n = 0 then [] else [length buf - n])"
    by (intro exI [of _ out'] exI [of _ "length buf"]) simp
qed

end
