(* ===== verification/BMem.thy ===== *)
theory BMem
  imports Container
begin

text \<open>
  The read-only view of a linear memory area, \<^verbatim>\<open>B_MEM\<close> (\<^verbatim>\<open>src/Mantids30/Memory/b_mem.cpp\<close>).
  \<open>linearMem\<close> is the memory from the pointer on; the null pointer is the empty list.
\<close>

record b_mem = b_base +
  linearMem :: bytes

type_synonym b_mem_fields = "unit b_mem_ext"

text \<open>\<^verbatim>\<open>memchr\<close> of the C library.\<close>

definition memchr :: "bytes \<Rightarrow> char \<Rightarrow> nat \<Rightarrow> nat option" where
  "memchr xs c n = find_index ((=) c) (take n xs)"

definition mem_clear2 :: "b_mem \<Rightarrow> b_mem \<times> bool" where
  "mem_clear2 s = (b_setContainerBytes (s\<lparr>linearMem := []\<rparr>) 0, True)"

definition mem_size :: "b_mem \<Rightarrow> nat" where
  "mem_size s = m_containerBytes s"

definition mem_append2 :: "b_mem \<Rightarrow> bytes \<Rightarrow> bool \<Rightarrow> b_mem \<times> nat option" where
  "mem_append2 s buf prependMode = (s, None)"

definition mem_truncate2 :: "b_mem \<Rightarrow> nat \<Rightarrow> b_mem \<times> nat option" where
  "mem_truncate2 s bytes = (let s' = b_setContainerBytes s bytes in (s', Some (mem_size s')))"

definition mem_displace2 :: "b_mem \<Rightarrow> nat \<Rightarrow> b_mem \<times> nat option" where
  "mem_displace2 s bytesToDisplace =
     (if bytesToDisplace > mem_size s then (s, None)
      else (b_setContainerBytes (s\<lparr>linearMem := drop bytesToDisplace (linearMem s)\<rparr>)
              (usub (mem_size s) bytesToDisplace), Some bytesToDisplace))"

definition mem_findChar :: "b_mem \<Rightarrow> char \<Rightarrow> nat \<Rightarrow> nat \<Rightarrow> bool \<Rightarrow> nat option result" where
  "mem_findChar s ch offset searchSpace caseSensitive0 =
     (let caseSensitive = (if caseSensitive0 \<and> \<not> is_alpha ch then False else caseSensitive0);
          currentSize = mem_size s
      in if currentSize = 0 then Inr None
         else if check_uint_overflow_sum offset searchSpace
         then Inl (RuntimeError ''Trying to search outside the search space (1)...'')
         else if offset + searchSpace > currentSize
         then Inl (RuntimeError ''Trying to search outside the search space (2)...'')
         else
           let searchSpace = (if searchSpace = 0 then currentSize - offset else searchSpace);
               area = drop offset (linearMem s);
               cPos = (if caseSensitive then memchr area ch searchSpace
                       else
                         let posUpper = memchr area (to_upper ch) searchSpace;
                             posLower = memchr area (to_lower ch) searchSpace
                         in case posUpper of
                              Some u \<Rightarrow> (case posLower of Some l \<Rightarrow> Some (if u < l then u else l) | None \<Rightarrow> Some u)
                            | None \<Rightarrow> posLower)
           in Inr (map_option ((+) offset) cPos))"

text \<open>The destination receives the area in blocks of at most 64 KiB.\<close>

function mem_blocks :: "bytes \<Rightarrow> nat \<Rightarrow> bytes list" where
  "mem_blocks transmitMem dataToCopy =
     (if dataToCopy > 0 then
        let rosize = (if dataToCopy > block_size then block_size else dataToCopy)
        in take rosize transmitMem # mem_blocks (drop rosize transmitMem) (dataToCopy - rosize)
      else [])"
  by pat_completeness auto
termination
  by (relation "measure (\<lambda>(t, d). d)") (auto simp: block_size_def)

declare mem_blocks.simps [simp del]

definition mem_copyPlan2 :: "b_mem \<Rightarrow> nat \<Rightarrow> nat \<Rightarrow> copy_plan" where
  "mem_copyPlan2 s bytes offset =
     (if bytes = 0 then PlanReturn (Some 0)
      else if check_uint_overflow_sum offset bytes then PlanFailAdd
      else if offset > mem_size s then PlanFailAdd
      else PlanWrite (mem_blocks (drop offset (linearMem s))
             (if offset + bytes > mem_size s then mem_size s - offset else bytes)))"

definition mem_copyToBuffer2 :: "b_mem \<Rightarrow> nat \<Rightarrow> nat \<Rightarrow> bytes option" where
  "mem_copyToBuffer2 s bytes offset =
     (if check_uint_overflow_sum offset bytes then None
      else if bytes = 0 then Some []
      else if offset + bytes > mem_size s then None
      else if offset > mem_size s then None
      else
        let containerBytesOffseted = mem_size s - offset
        in if containerBytesOffseted = 0 then Some []
           else Some (take (if containerBytesOffseted < bytes then containerBytesOffseted else bytes)
                        (drop offset (linearMem s))))"

definition mem_compare2 :: "b_mem \<Rightarrow> bytes \<Rightarrow> bool \<Rightarrow> nat \<Rightarrow> bool" where
  "mem_compare2 s buf caseSensitive offset =
     (if check_uint_overflow_sum offset (length buf) then False
      else if length buf = 0 then True
      else if offset + length buf > mem_size s then False
      else memicmp2 (drop offset (linearMem s)) buf (length buf) caseSensitive = 0)"

definition mem_vt :: "b_mem container_vt" where
  "mem_vt = \<lparr>vt_size = mem_size, vt_append2 = mem_append2, vt_displace2 = mem_displace2,
     vt_truncate2 = mem_truncate2, vt_clear2 = mem_clear2, vt_copyPlan2 = mem_copyPlan2,
     vt_copyToBuffer2 = mem_copyToBuffer2, vt_compare2 = mem_compare2, vt_findChar = mem_findChar\<rparr>"

text \<open>\<^verbatim>\<open>B_MEM::reference\<close>; the length parameter is a 32-bit integer.\<close>

definition mem_reference :: "b_mem \<Rightarrow> bytes \<Rightarrow> nat \<Rightarrow> b_mem" where
  "mem_reference s buf len =
     b_setContainerBytes ((fst (b_clear mem_vt s))\<lparr>linearMem := buf, m_readOnly := True\<rparr>) (len mod 2 ^ 32)"

definition mem_new :: "bytes option \<Rightarrow> nat \<Rightarrow> b_mem" where
  "mem_new buf len =
     (let s = fst (mem_clear2 (b_base.extend (b_init\<lparr>m_storeMethod := BC_METHOD_MEM, m_readOnly := True\<rparr>)
                  \<lparr>linearMem = []\<rparr>))
      in case buf of
           None \<Rightarrow> s
         | Some b \<Rightarrow> if len mod 2 ^ 32 \<noteq> 0 then mem_reference s b len else s)"

section \<open>The contract holds\<close>

definition mem_content :: "b_mem \<Rightarrow> bytes" where
  "mem_content s = take (m_containerBytes s) (linearMem s)"

definition mem_inv :: "b_mem \<Rightarrow> bool" where
  "mem_inv s \<longleftrightarrow> m_containerBytes s \<le> length (linearMem s) \<and> m_containerBytes s \<le> size_max"

lemma mem_content_length: "mem_inv s \<Longrightarrow> length (mem_content s) = m_containerBytes s"
  by (simp add: mem_content_def mem_inv_def)

lemma mem_slice: "mem_inv s \<Longrightarrow> off + n \<le> m_containerBytes s \<Longrightarrow> take n (drop off (linearMem s)) = slice off n (mem_content s)"
  by (simp add: slice_def mem_content_def drop_take min_def)

lemma find_index_candidate:
  assumes "off + n \<le> length xs" and "P c"
  shows "next_candidate xs c off n (map_option ((+) off) (find_index P (slice off n xs)))"
proof (cases "find_index P (slice off n xs)")
  case None
  have "xs ! i \<noteq> c" if "off \<le> i" "i < off + n" for i
  proof -
    have "slice off n xs ! (i - off) = xs ! i" using that assms by (simp add: nth_slice)
    moreover have "slice off n xs ! (i - off) \<in> set (slice off n xs)" using that assms by (intro nth_mem) simp
    ultimately show ?thesis using None assms(2) by (auto simp: find_index_None_iff)
  qed
  then show ?thesis using None by (simp add: next_candidate_def)
next
  case (Some k)
  note k = find_index_SomeD [OF Some]
  have "xs ! i \<noteq> c" if "off \<le> i" "i < off + k" for i
  proof -
    have "i - off < k" using that by simp
    then have "slice off n xs ! (i - off) \<noteq> c" using k assms(2) by auto
    moreover have "slice off n xs ! (i - off) = xs ! i"
      using nth_slice [of "i - off" n off xs] that assms k by auto
    ultimately show ?thesis by simp
  qed
  then show ?thesis using Some k assms by (simp add: next_candidate_def)
qed

lemma non_alpha_fold: "\<not> is_alpha c \<Longrightarrow> to_upper c = c \<and> to_lower c = c"
  by (simp add: is_alpha_def to_upper_def to_lower_def)

lemma mem_findChar_exact:
  assumes "mem_inv s" and "off + n \<le> m_containerBytes s" and "0 < n \<or> off = m_containerBytes s"
  shows "mem_findChar s c off n True =
     Inr (if m_containerBytes s = 0 then None
          else map_option ((+) off) (find_index ((=) c) (slice off n (mem_content s))))"
proof -
  have ov: "\<not> check_uint_overflow_sum off n"
    using assms by (simp add: mem_inv_def check_uint_overflow_sum_iff)
  have "(if n = 0 then m_containerBytes s - off else n) = n" using assms(3) by auto
  then show ?thesis
    using assms ov non_alpha_fold [of c] mem_slice [OF assms(1,2)]
    by (auto simp: mem_findChar_def mem_size_def memchr_def Let_def split: option.splits)
qed

interpretation bmem: read_container mem_vt mem_content mem_inv
proof (unfold_locales, goal_cases)
  case (1 s)
  then show ?case by (simp add: mem_vt_def mem_size_def mem_content_length)
next
  case (2 s)
  then show ?case by (simp add: mem_content_length mem_inv_def)
next
  case (3 s buf off cs)
  have ov: "\<not> check_uint_overflow_sum off (length buf)"
    using 3(3) by (simp add: check_uint_overflow_sum_iff)
  have "memicmp2 (drop off (linearMem s)) buf (length buf) cs = 0 \<longleftrightarrow>
      bytes_match cs (slice off (length buf) (mem_content s)) buf"
    if "off + length buf \<le> m_containerBytes s"
  proof -
    have "length buf \<le> length (drop off (linearMem s))" using that 3(1) by (auto simp: mem_inv_def)
    then show ?thesis using mem_slice [OF 3(1) that] by (simp add: memicmp2_zero_iff)
  qed
  then show ?case
    using 3 ov by (auto simp: mem_vt_def mem_compare2_def mem_size_def mem_content_length)
next
  case (4 s off space c)
  then have "mem_findChar s c off space True =
     Inr (if m_containerBytes s = 0 then None
          else map_option ((+) off) (find_index ((=) c) (slice off space (mem_content s))))"
    by (intro mem_findChar_exact) (simp_all add: mem_content_length)
  then show ?case
    using find_index_candidate [of off space "mem_content s" "(=) c" c] 4
    by (auto simp: mem_vt_def mem_content_length next_candidate_def)
next
  case (5 s n off)
  then have "\<not> check_uint_overflow_sum off n"
    by (simp add: check_uint_overflow_sum_iff mem_inv_def mem_content_length)
  then show ?case
    using 5 mem_slice [OF 5(1), of off n]
    by (auto simp: mem_vt_def mem_copyToBuffer2_def mem_size_def mem_content_length Let_def)
qed

text \<open>
  A \<^verbatim>\<open>B_MEM\<close> built on a buffer of less than 4 GiB is a faithful view of it: \<^verbatim>\<open>size\<close> and
  \<^verbatim>\<open>toString\<close> return its first \<open>len\<close> bytes, a case-sensitive \<^verbatim>\<open>find\<close> returns the first occurrence of
  the needle and never throws, and an \<^verbatim>\<open>append\<close> is refused without changing it.
\<close>

theorem mem_view_faithful:
  assumes "0 < len" and "len < 2 ^ 32" and "len \<le> length buf" and "needle \<noteq> []" and "length needle < 2 ^ 32"
    and "off \<le> len"
  shows "mem_size (mem_new (Some buf) len) = len
    \<and> b_toString mem_vt (mem_new (Some buf) len) size_max 0 = Some (take len buf)
    \<and> (\<exists>r. b_find mem_vt (mem_new (Some buf) len) needle True off 0 = Inr r \<and> first_occurrence needle (take len buf) off r)
    \<and> b_append mem_vt (mem_new (Some buf) len) needle = (mem_new (Some buf) len, None)"
proof -
  let ?s = "mem_new (Some buf) len"
  have s: "m_containerBytes ?s = len" "linearMem ?s = buf" "m_readOnly ?s"
    using assms(1,2)
    by (simp_all add: mem_new_def mem_clear2_def mem_reference_def b_clear_def b_clear0_def mem_vt_def
        b_setContainerBytes_def b_base.defs)
  then have inv: "mem_inv ?s" "mem_content ?s = take len buf"
    using assms(2,3) by (simp_all add: mem_inv_def mem_content_def size_max_def)
  have "length needle \<le> size_max - length (mem_content ?s)" using assms inv(2) by (simp add: size_max_def)
  then show ?thesis
    using bmem.find_first [OF inv(1) assms(4), of off] bmem.toString_all [OF inv(1)] assms s inv(2)
    by (simp add: mem_size_def b_append_def)
qed

theorem mem_view_faithful_witness:
  "b_find mem_vt (mem_new (Some ''GET / HTTP'') 10) ''TP'' True 0 0 = Inr (Some 8)"
proof -
  let ?s = "mem_new (Some ''GET / HTTP'') 10"
  obtain r where "b_find mem_vt ?s ''TP'' True 0 0 = Inr r" "first_occurrence ''TP'' ''GET / HTTP'' 0 r"
    using mem_view_faithful [of 10 "''GET / HTTP''" "''TP''" 0] by auto
  moreover have "first_occurrence ''TP'' ''GET / HTTP'' 0 (Some 8)"
    by (auto simp: first_occurrence_def occurs_at_def slice_def numeral_eq_Suc less_Suc_eq)
  ultimately show ?thesis using first_occurrence_unique by blast
qed

end
