(* ===== verification/BChunks.thy ===== *)
theory BChunks
  imports BMem
begin

text \<open>
  The chunked container \<^verbatim>\<open>B_Chunks\<close> (\<^verbatim>\<open>src/Mantids30/Memory/b_chunks.cpp\<close>, \<^verbatim>\<open>b_chunk.h\<close>): a
  vector of memory chunks, each with its absolute offset, found by binary search. Above a configurable
  size the data moves to a memory-mapped file. That file container is another \<^verbatim>\<open>B_Base\<close>: it is
  reached through its table \<open>mvt\<close>, and \<open>copyToFS\<close>, which creates it, is a parameter.
\<close>

section \<open>Chunks\<close>

record chunk =
  c_data :: bytes
  c_size :: nat
  c_offset :: nat

definition chunk_new :: chunk where
  "chunk_new = \<lparr>c_data = [], c_size = 0, c_offset = 0\<rparr>"

definition chunk_destroy :: "chunk \<Rightarrow> chunk" where
  "chunk_destroy c = c\<lparr>c_data := [], c_size := 0\<rparr>"

definition chunk_displace :: "chunk \<Rightarrow> nat \<Rightarrow> chunk" where
  "chunk_displace c displLen =
     (if c_data c = [] then c
      else if displLen = 0 then c
      else if displLen \<ge> c_size c then chunk_destroy c
      else
        let nContainerSize = c_size c - displLen
        in (chunk_destroy c)\<lparr>c_data := take nContainerSize (drop displLen (c_data c)), c_size := nContainerSize\<rparr>)"

definition chunk_truncate :: "chunk \<Rightarrow> nat \<Rightarrow> chunk" where
  "chunk_truncate c nSize =
     (if nSize \<ge> uadd (c_offset c) (c_size c) then c
      else if nSize = 0 \<or> nSize = c_offset c then c
      else
        let n = usub nSize (c_offset c)
        in (chunk_destroy c)\<lparr>c_data := take n (c_data c), c_size := n\<rparr>)"

text \<open>\<^verbatim>\<open>new\<close> throws instead of returning null, so \<^verbatim>\<open>copy\<close> always succeeds when it returns.\<close>

definition chunk_copy :: "chunk \<Rightarrow> bytes \<Rightarrow> nat \<Rightarrow> chunk" where
  "chunk_copy c buf count = (chunk_destroy c)\<lparr>c_data := take count buf, c_size := count\<rparr>"

definition nextOffset :: "chunk \<Rightarrow> nat" where
  "nextOffset c = uadd (c_size c) (c_offset c)"

definition containsOffset :: "chunk \<Rightarrow> nat \<Rightarrow> bool" where
  "containsOffset c l_offset \<longleftrightarrow> l_offset \<ge> c_offset c \<and> l_offset < nextOffset c"

definition moveToOffset :: "chunk \<Rightarrow> nat \<Rightarrow> chunk" where
  "moveToOffset c l_offset =
     (let l = usub l_offset (c_offset c)
      in \<lparr>c_data = drop l (c_data c), c_size = usub (c_size c) l, c_offset = 0\<rparr>)"

section \<open>State\<close>

record 'm b_chunks = b_base +
  m_chunksVector :: "chunk list"
  m_maxChunks :: nat
  m_maxChunkSize :: nat
  m_maxSizeInMemoryBeforeMovingToDisk :: nat
  m_mmapContainer :: "'m option"

type_synonym 'y mmap_vt = "'y b_base_scheme container_vt"
type_synonym 'y chunks = "'y b_base_scheme b_chunks"

definition chunks_clearChunks :: "'y chunks \<Rightarrow> 'y chunks" where
  "chunks_clearChunks s = s\<lparr>m_chunksVector := []\<rparr>"

definition chunks_clear2 :: "'y chunks \<Rightarrow> 'y chunks \<times> bool" where
  "chunks_clear2 s = (chunks_clearChunks (s\<lparr>m_mmapContainer := None\<rparr>), True)"

definition chunks_new :: "'y chunks" where
  "chunks_new =
     fst (chunks_clear2
       (b_base.extend (b_init\<lparr>m_storeMethod := BC_METHOD_CHUNKS\<rparr>)
          \<lparr>m_chunksVector = [], m_maxChunks = 262144, m_maxChunkSize = 65536,
            m_maxSizeInMemoryBeforeMovingToDisk = 0, m_mmapContainer = None\<rparr>))"

definition setMaxChunks :: "'y chunks \<Rightarrow> nat \<Rightarrow> 'y chunks" where
  "setMaxChunks s value =
     (if value < 4294967295 then s\<lparr>m_maxChunks := value\<rparr> else s\<lparr>m_maxChunks := 4294967295\<rparr>)"

definition setMaxChunkSize :: "'y chunks \<Rightarrow> nat \<Rightarrow> 'y chunks" where
  "setMaxChunkSize s value = s\<lparr>m_maxChunkSize := value\<rparr>"

definition setMaxSizeInMemoryBeforeMovingToDisk :: "'y chunks \<Rightarrow> nat \<Rightarrow> 'y chunks" where
  "setMaxSizeInMemoryBeforeMovingToDisk s value = s\<lparr>m_maxSizeInMemoryBeforeMovingToDisk := value\<rparr>"

definition isUsingFiles :: "'y chunks \<Rightarrow> bool" where
  "isUsingFiles s \<longleftrightarrow> m_mmapContainer s \<noteq> None"

definition chunks_size :: "'y mmap_vt \<Rightarrow> 'y chunks \<Rightarrow> nat" where
  "chunks_size mvt s = (case m_mmapContainer s of Some m \<Rightarrow> vt_size mvt m | None \<Rightarrow> m_containerBytes s)"

text \<open>An operation of the file container, with its new state stored back.\<close>

definition on_mmap :: "'y chunks \<Rightarrow> 'y b_base_scheme \<times> nat option \<Rightarrow> 'y chunks \<times> nat option" where
  "on_mmap s r = (s\<lparr>m_mmapContainer := Some (fst r)\<rparr>, snd r)"

section \<open>Offsets\<close>

text \<open>
  \<^verbatim>\<open>recalcChunkOffsets\<close>: the loop visits \<open>vsize\<close> positions, but its pointer stays on the first
  chunk, which receives every offset in turn.
\<close>

fun recalc_first :: "nat \<Rightarrow> nat \<Rightarrow> chunk \<Rightarrow> chunk" where
  "recalc_first 0 currentOffset i = i"
| "recalc_first (Suc n) currentOffset i =
     (let i' = i\<lparr>c_offset := currentOffset\<rparr> in recalc_first n (nextOffset i') i')"

definition recalcChunkOffsets :: "'y chunks \<Rightarrow> 'y chunks" where
  "recalcChunkOffsets s =
     (case m_chunksVector s of
        [] \<Rightarrow> s
      | c # cs \<Rightarrow> s\<lparr>m_chunksVector := recalc_first (length (c # cs)) 0 c # cs\<rparr>)"

text \<open>
  \<^verbatim>\<open>I_Chunk_GetPosForOffset\<close>: binary search in the vector; \<open>None\<close> is \<^verbatim>\<open>MAX_SIZE_T\<close>. The
  recursion only runs with \<open>curmin \<le> curpos \<le> curmax\<close> inside the vector, as the first line states.
\<close>

definition next_pos :: "nat \<Rightarrow> nat \<Rightarrow> nat" where
  "next_pos curmin curmax =
     (if curmin = curmax then curmin
      else curmin + (curmax + 1 - curmin) div 2 - (curmax - curmin) mod 2)"

function chunk_search :: "chunk list \<Rightarrow> nat \<Rightarrow> nat \<Rightarrow> nat \<Rightarrow> nat \<Rightarrow> nat option" where
  "chunk_search vec offset curpos curmax curmin =
     (if \<not> (curmin \<le> curpos \<and> curpos \<le> curmax \<and> curmax < length vec) then None
      else if containsOffset (vec ! curpos) offset then Some curpos
      else if offset < c_offset (vec ! curpos) then
        (if curpos = curmin then None
         else chunk_search vec offset (next_pos curmin (curpos - 1)) (curpos - 1) curmin)
      else
        (if curpos = curmax then None
         else chunk_search vec offset (next_pos (curpos + 1) curmax) curmax (curpos + 1)))"
  by pat_completeness auto
termination
  by (relation "measure (\<lambda>(vec, offset, curpos, curmax, curmin). curmax + 1 - curmin)") auto

declare chunk_search.simps [simp del]

definition I_Chunk_GetPosForOffset :: "chunk list \<Rightarrow> nat \<Rightarrow> nat option" where
  "I_Chunk_GetPosForOffset vec offset =
     (if length vec = 0 then None
      else chunk_search vec offset
             (if length vec = 1 then 0 else length vec div 2 - 1)
             (if length vec = 1 then 0 else length vec - 1) 0)"

section \<open>Appending, displacing, truncating\<close>

text \<open>The loop of \<^verbatim>\<open>append2\<close>: one new chunk per iteration, until the vector is full.\<close>

function chunks_append_loop :: "'y mmap_vt \<Rightarrow> bool \<Rightarrow> 'y chunks \<Rightarrow> bytes \<Rightarrow> nat \<Rightarrow> 'y chunks \<times> nat option" where
  "chunks_append_loop mvt prependMode s buf appendedBytes =
     (if buf \<noteq> [] then
        let chunkSize = min (length buf) (m_maxChunkSize s)
        in if length (m_chunksVector s) + 1 > m_maxChunks s then (s, Some appendedBytes)
           else
             let bcc = chunk_copy chunk_new buf chunkSize;
                 s1 = (if \<not> prependMode then
                         let off = (if length (m_chunksVector s) = 0 then 0
                                    else nextOffset (m_chunksVector s ! (length (m_chunksVector s) - 1)))
                         in s\<lparr>m_chunksVector := m_chunksVector s @ [bcc\<lparr>c_offset := off\<rparr>]\<rparr>
                       else s\<lparr>m_chunksVector := bcc # m_chunksVector s\<rparr>);
                 s2 = b_setContainerBytes s1 (uadd (chunks_size mvt s1) (c_size bcc))
             in chunks_append_loop mvt prependMode s2 (drop chunkSize buf) (appendedBytes + c_size bcc)
      else (if prependMode then recalcChunkOffsets s else s, Some appendedBytes))"
  by pat_completeness auto
termination
  by (relation "measure (\<lambda>(mvt, p, s, buf, n). m_maxChunks s - length (m_chunksVector s))")
    (auto simp: b_setContainerBytes_def Let_def)

declare chunks_append_loop.simps [simp del]

definition chunks_append2 :: "'y mmap_vt \<Rightarrow> ('y chunks \<Rightarrow> 'y b_base_scheme option) \<Rightarrow> 'y chunks \<Rightarrow> bytes \<Rightarrow> bool \<Rightarrow> 'y chunks \<times> nat option" where
  "chunks_append2 mvt copyToFS s buf prependMode =
     (case m_mmapContainer s of
        Some m \<Rightarrow> on_mmap s (if \<not> prependMode then b_append mvt m buf else b_prepend mvt m buf)
      | None \<Rightarrow>
          if check_uint_overflow_sum (length buf) (chunks_size mvt s) then (s, None)
          else if m_maxSizeInMemoryBeforeMovingToDisk s \<noteq> 0
                  \<and> length buf + chunks_size mvt s > m_maxSizeInMemoryBeforeMovingToDisk s then
            (case copyToFS s of
               None \<Rightarrow> (s, None)
             | Some m \<Rightarrow>
                 let s' = chunks_clearChunks (s\<lparr>m_mmapContainer := Some m\<rparr>)
                 in on_mmap s' (if prependMode then b_prepend mvt m buf else b_append mvt m buf))
          else chunks_append_loop mvt prependMode s buf 0)"

text \<open>The loop of \<^verbatim>\<open>displace2\<close>.\<close>

function chunks_displace_loop :: "'y mmap_vt \<Rightarrow> 'y chunks \<Rightarrow> nat \<Rightarrow> nat \<Rightarrow> 'y chunks \<times> nat option" where
  "chunks_displace_loop mvt s bytesToDisplace displaced =
     (if bytesToDisplace > 0 then
        (case m_chunksVector s of
           [] \<Rightarrow> (s, Some displaced)
         | c # cs \<Rightarrow>
             if bytesToDisplace \<ge> c_size c then
               chunks_displace_loop mvt
                 (b_setContainerBytes (s\<lparr>m_chunksVector := cs\<rparr>) (usub (chunks_size mvt s) (c_size c)))
                 (bytesToDisplace - c_size c) (displaced + c_size c)
             else
               chunks_displace_loop mvt
                 (b_setContainerBytes (s\<lparr>m_chunksVector := chunk_displace c bytesToDisplace # cs\<rparr>)
                    (usub (chunks_size mvt s) bytesToDisplace))
                 0 (displaced + bytesToDisplace))
      else (recalcChunkOffsets s, Some displaced))"
  by pat_completeness auto
termination
  by (relation "measure (\<lambda>(mvt, s, n, d). length (m_chunksVector s) + n)")
    (auto simp: b_setContainerBytes_def)

declare chunks_displace_loop.simps [simp del]

definition chunks_displace2 :: "'y mmap_vt \<Rightarrow> 'y chunks \<Rightarrow> nat \<Rightarrow> 'y chunks \<times> nat option" where
  "chunks_displace2 mvt s bytes =
     (case m_mmapContainer s of
        Some m \<Rightarrow> on_mmap s (b_displace mvt m bytes)
      | None \<Rightarrow> chunks_displace_loop mvt s bytes 0)"

text \<open>\<^verbatim>\<open>truncate2\<close>; the decrement of \<^verbatim>\<open>ival\<close> may wrap, and the increment undoes it.\<close>

definition chunks_truncate2 :: "'y mmap_vt \<Rightarrow> 'y chunks \<Rightarrow> nat \<Rightarrow> 'y chunks \<times> nat option" where
  "chunks_truncate2 mvt s bytes =
     (case m_mmapContainer s of
        Some m \<Rightarrow> on_mmap s (b_truncate mvt m bytes)
      | None \<Rightarrow>
          (case I_Chunk_GetPosForOffset (m_chunksVector s) bytes of
             None \<Rightarrow> (s, None)
           | Some ival \<Rightarrow>
               let vec = m_chunksVector s;
                   border = (c_offset (vec ! ival) = bytes);
                   ival' = (if border then usub ival 1 else ival);
                   vec' = (if border then vec else vec[ival := chunk_truncate (vec ! ival) bytes]);
                   s' = b_setContainerBytes (s\<lparr>m_chunksVector := take (uadd ival' 1) vec'\<rparr>) bytes
               in (s', Some (chunks_size mvt s'))))"

section \<open>Copying out, comparing, searching\<close>

text \<open>The vector of read-only pieces that \<^verbatim>\<open>copyToStreamableObject2\<close> collects.\<close>

fun chunks_pieces :: "chunk list \<Rightarrow> nat \<Rightarrow> nat \<Rightarrow> bytes list" where
  "chunks_pieces [] offset dataToCopy = []"
| "chunks_pieces (c # cs) offset dataToCopy =
     (if offset > 0 \<and> offset > c_size c then chunks_pieces cs (offset - c_size c) dataToCopy
      else
        let rodata = drop offset (c_data c);
            rosize = min (c_size c - offset) dataToCopy;
            rest = dataToCopy - rosize
        in take rosize rodata # (if rest = 0 then [] else chunks_pieces cs 0 rest))"

definition chunks_copyPlan2 :: "'y mmap_vt \<Rightarrow> 'y chunks \<Rightarrow> nat \<Rightarrow> nat \<Rightarrow> copy_plan" where
  "chunks_copyPlan2 mvt s bytes offset =
     (case m_mmapContainer s of
        Some m \<Rightarrow> b_appendPlan mvt m bytes offset
      | None \<Rightarrow>
          if bytes = 0 then PlanReturn (Some 0)
          else if check_uint_overflow_sum offset bytes then PlanReturn None
          else if offset > chunks_size mvt s then PlanReturn None
          else PlanWrite (chunks_pieces (m_chunksVector s) offset
                 (if offset + bytes > chunks_size mvt s then chunks_size mvt s - offset else bytes)))"

text \<open>The loop of \<^verbatim>\<open>copyToBuffer2\<close> on the current chunk and the chunks after it.\<close>

fun chunks_read :: "chunk \<Rightarrow> chunk list \<Rightarrow> nat \<Rightarrow> bytes" where
  "chunks_read c [] bytes =
     (if bytes = 0 then [] else if bytes > c_size c then take (c_size c) (c_data c) else take bytes (c_data c))"
| "chunks_read c (d # ds) bytes =
     (if bytes = 0 then []
      else if bytes > c_size c then take (c_size c) (c_data c) @ chunks_read d ds (bytes - c_size c)
      else take bytes (c_data c))"

definition chunks_copyToBuffer2 :: "'y mmap_vt \<Rightarrow> 'y chunks \<Rightarrow> nat \<Rightarrow> nat \<Rightarrow> bytes option" where
  "chunks_copyToBuffer2 mvt s bytes offset =
     (case m_mmapContainer s of
        Some m \<Rightarrow> b_copyOut mvt m bytes offset
      | None \<Rightarrow>
          if check_uint_overflow_sum offset bytes then None
          else if bytes = 0 then Some []
          else if offset + bytes > chunks_size mvt s then None
          else (case I_Chunk_GetPosForOffset (m_chunksVector s) offset of
                  None \<Rightarrow> None
                | Some i \<Rightarrow>
                    Some (chunks_read (moveToOffset (m_chunksVector s ! i) offset)
                            (drop (Suc i) (m_chunksVector s)) bytes)))"

fun chunks_compare_loop :: "chunk list \<Rightarrow> bytes \<Rightarrow> bool \<Rightarrow> nat \<Rightarrow> bool" where
  "chunks_compare_loop [] buf caseSensitive offset \<longleftrightarrow> length buf = 0"
| "chunks_compare_loop (c # cs) buf caseSensitive offset =
     (if offset > 0 \<and> offset > c_size c then chunks_compare_loop cs buf caseSensitive (offset - c_size c)
      else
        let size = c_size c - offset; n = min (length buf) size
        in if memicmp2 (drop offset (c_data c)) buf n caseSensitive \<noteq> 0 then False
           else if length buf - n = 0 then True
           else chunks_compare_loop cs (drop n buf) caseSensitive 0)"

definition chunks_compare2 :: "'y mmap_vt \<Rightarrow> 'y chunks \<Rightarrow> bytes \<Rightarrow> bool \<Rightarrow> nat \<Rightarrow> bool" where
  "chunks_compare2 mvt s buf caseSensitive offset =
     (case m_mmapContainer s of
        Some m \<Rightarrow> b_compare mvt m buf caseSensitive offset
      | None \<Rightarrow>
          if check_uint_overflow_sum offset (length buf) then False
          else if length buf = 0 then True
          else if offset + length buf > chunks_size mvt s then False
          else chunks_compare_loop (m_chunksVector s) buf caseSensitive offset)"

text \<open>
  The position inside one chunk: the exact character, or, in the mode the source calls case
  sensitive, the earlier of its upper-case and lower-case forms.
\<close>

definition chunk_findChar :: "bytes \<Rightarrow> char \<Rightarrow> nat \<Rightarrow> bool \<Rightarrow> nat option" where
  "chunk_findChar data c n caseSensitive =
     (if \<not> caseSensitive then memchr data c n
      else
        let pos_upper = memchr data (to_upper c) n; pos_lower = memchr data (to_lower c) n
        in case pos_upper of
             Some u \<Rightarrow> (case pos_lower of Some l \<Rightarrow> (if u \<le> l then Some u else Some l) | None \<Rightarrow> Some u)
           | None \<Rightarrow> pos_lower)"

fun chunks_findChar_loop :: "chunk list \<Rightarrow> char \<Rightarrow> nat \<Rightarrow> nat \<Rightarrow> bool \<Rightarrow> nat \<Rightarrow> nat option" where
  "chunks_findChar_loop [] c offset searchSpace caseSensitive retpos = None"
| "chunks_findChar_loop (k # ks) c offset searchSpace caseSensitive retpos =
     (if offset > 0 \<and> offset > c_size k
      then chunks_findChar_loop ks c (offset - c_size k) searchSpace caseSensitive (retpos + c_size k)
      else
        let size = c_size k - offset
        in case chunk_findChar (drop offset (c_data k)) c (min searchSpace size) caseSensitive of
             Some pos \<Rightarrow> Some (pos + offset + retpos)
           | None \<Rightarrow>
               if searchSpace > size
               then chunks_findChar_loop ks c 0 (searchSpace - size) caseSensitive (retpos + c_size k)
               else None)"

definition chunks_findChar :: "'y mmap_vt \<Rightarrow> 'y chunks \<Rightarrow> char \<Rightarrow> nat \<Rightarrow> nat \<Rightarrow> bool \<Rightarrow> nat option result" where
  "chunks_findChar mvt s c offset searchSpace caseSensitive0 =
     (let caseSensitive = (if caseSensitive0 \<and> \<not> is_alpha c then False else caseSensitive0)
      in case m_mmapContainer s of
           Some m \<Rightarrow> vt_findChar mvt m c offset 0 False
         | None \<Rightarrow>
             let currentSize = chunks_size mvt s
             in if check_uint_overflow_sum offset searchSpace then Inr None
                else if offset > currentSize \<or> offset + searchSpace > currentSize then Inr None
                else Inr (chunks_findChar_loop (m_chunksVector s) c offset searchSpace caseSensitive 0))"

definition chunks_vt :: "'y mmap_vt \<Rightarrow> ('y chunks \<Rightarrow> 'y b_base_scheme option) \<Rightarrow> 'y chunks container_vt" where
  "chunks_vt mvt copyToFS =
     \<lparr>vt_size = chunks_size mvt, vt_append2 = chunks_append2 mvt copyToFS,
      vt_displace2 = chunks_displace2 mvt, vt_truncate2 = chunks_truncate2 mvt, vt_clear2 = chunks_clear2,
      vt_copyPlan2 = chunks_copyPlan2 mvt, vt_copyToBuffer2 = chunks_copyToBuffer2 mvt,
      vt_compare2 = chunks_compare2 mvt, vt_findChar = chunks_findChar mvt\<rparr>"

section \<open>Content and invariant\<close>

definition chunk_wf :: "chunk \<Rightarrow> bool" where
  "chunk_wf c \<longleftrightarrow> c_size c = length (c_data c) \<and> c_data c \<noteq> []"

definition vec_content :: "chunk list \<Rightarrow> bytes" where
  "vec_content vec = concat (map c_data vec)"

definition chunks_content :: "'y chunks \<Rightarrow> bytes" where
  "chunks_content s = vec_content (m_chunksVector s)"

fun offsets_ok :: "chunk list \<Rightarrow> nat \<Rightarrow> bool" where
  "offsets_ok [] off \<longleftrightarrow> True"
| "offsets_ok (c # cs) off \<longleftrightarrow> c_offset c = off \<and> offsets_ok cs (off + c_size c)"

text \<open>
  \<open>chunks_data_inv\<close>: the data is in memory, no chunk is empty and the byte counter is exact.
  \<open>chunks_inv\<close>: moreover every chunk carries its absolute offset.
\<close>

definition chunks_data_inv :: "'y chunks \<Rightarrow> bool" where
  "chunks_data_inv s \<longleftrightarrow> m_mmapContainer s = None \<and> list_all chunk_wf (m_chunksVector s)
     \<and> m_containerBytes s = length (chunks_content s) \<and> length (chunks_content s) \<le> size_max"

definition chunks_inv :: "'y chunks \<Rightarrow> bool" where
  "chunks_inv s \<longleftrightarrow> chunks_data_inv s \<and> offsets_ok (m_chunksVector s) 0"

lemma vec_content_simps [simp]:
  "vec_content [] = []"
  "vec_content (c # cs) = c_data c @ vec_content cs"
  "vec_content (xs @ ys) = vec_content xs @ vec_content ys"
  by (simp_all add: vec_content_def)

lemma chunks_size_inv: "chunks_data_inv s \<Longrightarrow> chunks_size mvt s = length (chunks_content s)"
  by (simp add: chunks_size_def chunks_data_inv_def)

lemma chunks_data_inv_mmap: "chunks_data_inv s \<Longrightarrow> m_mmapContainer s = None"
  by (simp add: chunks_data_inv_def)

lemma offsets_ok_append:
  "list_all chunk_wf xs \<Longrightarrow>
     offsets_ok (xs @ ys) off \<longleftrightarrow> offsets_ok xs off \<and> offsets_ok ys (off + length (vec_content xs))"
  by (induction xs arbitrary: off) (auto simp: chunk_wf_def add.assoc)

lemma vec_split: "i < length vec \<Longrightarrow>
    vec_content vec = vec_content (take i vec) @ c_data (vec ! i) @ vec_content (drop (Suc i) vec)"
  by (metis id_take_nth_drop vec_content_simps(2,3))

lemma vec_length_le: "list_all chunk_wf vec \<Longrightarrow> length vec \<le> length (vec_content vec)"
  by (induction vec) (auto simp: chunk_wf_def Suc_le_eq length_greater_0_conv [symmetric] simp del: length_greater_0_conv)

lemma list_all_take_drop: "list_all P xs \<Longrightarrow> list_all P (take i xs) \<and> list_all P (drop i xs)"
  by (metis append_take_drop_id list_all_append)

definition chunk_start :: "chunk list \<Rightarrow> nat \<Rightarrow> nat" where
  "chunk_start vec i = length (vec_content (take i vec))"

lemma chunk_start_0 [simp]: "chunk_start vec 0 = 0"
  by (simp add: chunk_start_def)

lemma chunk_start_Suc: "i < length vec \<Longrightarrow> chunk_start vec (Suc i) = chunk_start vec i + length (c_data (vec ! i))"
  by (simp add: chunk_start_def take_Suc_conv_app_nth)

lemma chunk_start_all: "length vec \<le> i \<Longrightarrow> chunk_start vec i = length (vec_content vec)"
  by (simp add: chunk_start_def)

lemma chunk_start_le: "chunk_start vec i \<le> length (vec_content vec)"
  unfolding chunk_start_def by (metis append_take_drop_id vec_content_simps(3) le_add1 length_append)

lemma chunk_offset:
  assumes "list_all chunk_wf vec" and "offsets_ok vec 0" and "i < length vec"
  shows "c_offset (vec ! i) = chunk_start vec i"
proof -
  have "offsets_ok (take i vec @ vec ! i # drop (Suc i) vec) 0"
    using assms(2) id_take_nth_drop [OF assms(3)] by simp
  then show ?thesis
    using list_all_take_drop [OF assms(1)] by (simp add: offsets_ok_append chunk_start_def)
qed

lemma chunk_contains:
  assumes "list_all chunk_wf vec" and "offsets_ok vec 0" and "i < length vec"
    and "length (vec_content vec) \<le> size_max"
  shows "nextOffset (vec ! i) = chunk_start vec (Suc i)"
    and "containsOffset (vec ! i) off \<longleftrightarrow> chunk_start vec i \<le> off \<and> off < chunk_start vec (Suc i)"
proof -
  have "c_size (vec ! i) = length (c_data (vec ! i))"
    using assms(1,3) by (auto simp: list_all_length chunk_wf_def)
  then show n: "nextOffset (vec ! i) = chunk_start vec (Suc i)"
    using chunk_start_le [of vec "Suc i"] assms chunk_start_Suc [OF assms(3)] chunk_offset [OF assms(1-3)]
    by (simp add: nextOffset_def size_arith)
  show "containsOffset (vec ! i) off \<longleftrightarrow> chunk_start vec i \<le> off \<and> off < chunk_start vec (Suc i)"
    by (simp add: containsOffset_def n chunk_offset [OF assms(1-3)])
qed

section \<open>The binary search\<close>

lemma next_pos_between: "curmin \<le> curmax \<Longrightarrow> curmin \<le> next_pos curmin curmax \<and> next_pos curmin curmax \<le> curmax"
proof -
  assume "curmin \<le> curmax"
  then obtain d where d: "curmax = curmin + d" by (auto simp: le_iff_add)
  have "d mod 2 \<le> (d + 1) div 2" "(d + 1) div 2 - d mod 2 \<le> d"
    using div_mult_mod_eq [of d 2] by (cases "even d"; auto elim!: evenE oddE)+
  then show ?thesis by (auto simp: next_pos_def d)
qed

lemma chunk_search_finds:
  assumes "list_all chunk_wf vec" and "offsets_ok vec 0" and "length (vec_content vec) \<le> size_max"
  shows "curmin \<le> curpos \<Longrightarrow> curpos \<le> curmax \<Longrightarrow> curmax < length vec \<Longrightarrow>
    chunk_start vec curmin \<le> off \<Longrightarrow> off < chunk_start vec (Suc curmax) \<Longrightarrow>
    \<exists>i<length vec. chunk_search vec off curpos curmax curmin = Some i \<and> containsOffset (vec ! i) off"
proof (induction "curmax - curmin" arbitrary: curpos curmax curmin rule: less_induct)
  case less
  have pos: "curpos < length vec" using less.prems by simp
  note contains = chunk_contains(2) [OF assms(1,2) _ assms(3)]
  note start = chunk_offset [OF assms(1,2) pos]
  show ?case
  proof (cases "containsOffset (vec ! curpos) off")
    case True
    with less.prems pos show ?thesis by (auto simp: chunk_search.simps [of vec off curpos])
  next
    case no: False
    show ?thesis
    proof (cases "off < chunk_start vec curpos")
      case True
      then have "curpos \<noteq> curmin" using less.prems by auto
      moreover have "\<exists>i<length vec. chunk_search vec off (next_pos curmin (curpos - 1)) (curpos - 1) curmin = Some i
          \<and> containsOffset (vec ! i) off"
        using less.prems \<open>curpos \<noteq> curmin\<close> True next_pos_between [of curmin "curpos - 1"]
        by (intro less.hyps) auto
      ultimately show ?thesis
        using True no less.prems start by (simp add: chunk_search.simps [of vec off curpos])
    next
      case False
      then have above: "chunk_start vec (Suc curpos) \<le> off" using no contains [OF pos] by simp
      then have "curpos \<noteq> curmax" using less.prems by auto
      moreover have "\<exists>i<length vec. chunk_search vec off (next_pos (curpos + 1) curmax) curmax (curpos + 1) = Some i
          \<and> containsOffset (vec ! i) off"
        using less.prems \<open>curpos \<noteq> curmax\<close> above next_pos_between [of "curpos + 1" curmax]
        by (intro less.hyps) auto
      ultimately show ?thesis
        using False no less.prems start by (simp add: chunk_search.simps [of vec off curpos])
    qed
  qed
qed

lemma GetPosForOffset_finds:
  assumes "list_all chunk_wf vec" and "offsets_ok vec 0" and "length (vec_content vec) \<le> size_max"
    and "off < length (vec_content vec)"
  obtains i where "i < length vec" "I_Chunk_GetPosForOffset vec off = Some i"
    "chunk_start vec i \<le> off" "off < chunk_start vec (Suc i)"
proof -
  have ne: "vec \<noteq> []" using assms(4) by auto
  have "off < chunk_start vec (Suc (length vec - 1))" using assms(4) ne by (simp add: chunk_start_all)
  then have "\<exists>i<length vec. chunk_search vec off (if length vec = 1 then 0 else length vec div 2 - 1)
      (if length vec = 1 then 0 else length vec - 1) 0 = Some i \<and> containsOffset (vec ! i) off"
    using ne by (intro chunk_search_finds [OF assms(1-3)]) (auto split: if_splits)
  then show thesis
    using that chunk_contains(2) [OF assms(1,2) _ assms(3)] ne by (auto simp: I_Chunk_GetPosForOffset_def)
qed

section \<open>Reading\<close>

lemma chunks_read_content:
  "c_size c = length (c_data c) \<Longrightarrow> list_all chunk_wf ds \<Longrightarrow>
     chunks_read c ds n = take n (c_data c @ vec_content ds)"
  by (induction c ds n rule: chunks_read.induct) (auto simp: chunk_wf_def)

lemma chunks_copyToBuffer2_content:
  assumes "chunks_inv s" and "0 < n" and "off + n \<le> length (chunks_content s)"
  shows "chunks_copyToBuffer2 mvt s n off = Some (slice off n (chunks_content s))"
proof -
  let ?vec = "m_chunksVector s"
  have inv: "list_all chunk_wf ?vec" "offsets_ok ?vec 0" "length (vec_content ?vec) \<le> size_max"
    and d: "chunks_data_inv s"
    using assms(1) by (auto simp: chunks_inv_def chunks_data_inv_def chunks_content_def)
  have "off < length (vec_content ?vec)" using assms by (simp add: chunks_content_def)
  then obtain i where i: "i < length ?vec" "I_Chunk_GetPosForOffset ?vec off = Some i"
    "chunk_start ?vec i \<le> off" "off < chunk_start ?vec (Suc i)"
    using GetPosForOffset_finds [OF inv] by blast
  have ov: "\<not> check_uint_overflow_sum off n"
    using assms(3) inv(3) by (simp add: check_uint_overflow_sum_iff chunks_content_def)
  define l where "l = off - chunk_start ?vec i"
  have wf: "c_size (?vec ! i) = length (c_data (?vec ! i))"
    using inv(1) i(1) by (simp add: list_all_length chunk_wf_def)
  have l: "l < length (c_data (?vec ! i))" using i by (simp add: l_def chunk_start_Suc)
  have bnd: "off \<le> size_max" "c_size (?vec ! i) \<le> size_max"
    using assms(3) inv(3) wf chunk_start_le [of ?vec "Suc i"] chunk_start_Suc [OF i(1)]
    by (simp_all add: chunks_content_def)
  have "moveToOffset (?vec ! i) off =
      \<lparr>c_data = drop l (c_data (?vec ! i)), c_size = length (c_data (?vec ! i)) - l, c_offset = 0\<rparr>"
    using i bnd wf l by (simp add: moveToOffset_def chunk_offset [OF inv(1,2) i(1)] size_arith l_def [symmetric] Let_def)
  moreover have "slice off n (chunks_content s) = take n (drop l (c_data (?vec ! i)) @ vec_content (drop (Suc i) ?vec))"
    using i l by (simp add: slice_def chunks_content_def vec_split [OF i(1)] l_def chunk_start_def)
  ultimately show ?thesis
    using assms(2,3) d ov i list_all_take_drop [OF inv(1)]
    by (simp add: chunks_copyToBuffer2_def chunks_data_inv_mmap chunks_size_inv chunks_read_content)
qed

lemma chunks_compare_loop_content:
  "list_all chunk_wf vec \<Longrightarrow> off + length buf \<le> length (vec_content vec) \<Longrightarrow> buf \<noteq> [] \<Longrightarrow>
     chunks_compare_loop vec buf cs off \<longleftrightarrow> bytes_match cs (slice off (length buf) (vec_content vec)) buf"
proof (induction vec buf cs off rule: chunks_compare_loop.induct)
  case (1 buf cs off)
  then show ?case by simp
next
  case (2 c cv buf cs off)
  have wf: "c_size c = length (c_data c)" using 2(3) by (simp add: chunk_wf_def)
  show ?case
  proof (cases "off > 0 \<and> off > c_size c")
    case True
    then show ?thesis using 2 wf by (simp add: slice_append_right)
  next
    case False
    define n where "n = min (length buf) (c_size c - off)"
    have eq: "memicmp2 (drop off (c_data c)) buf n cs = 0 \<longleftrightarrow> bytes_match cs (slice off n (c_data c)) (take n buf)"
      by (subst memicmp2_zero_iff) (auto simp: n_def wf slice_def)
    show ?thesis
    proof (cases "length buf \<le> c_size c - off")
      case True
      then have "n = length buf" "slice off (length buf) (c_data c @ vec_content cv) = slice off (length buf) (c_data c)"
        using wf False by (auto simp: n_def slice_def)
      then show ?thesis using False eq by (auto simp: n_def [symmetric] Let_def)
    next
      case more: False
      then have n: "n = c_size c - off" "n < length buf" "off \<le> length (c_data c)"
        using False wf by (auto simp: n_def)
      have "chunks_compare_loop cv (drop n buf) cs 0 \<longleftrightarrow> bytes_match cs (slice 0 (length (drop n buf)) (vec_content cv)) (drop n buf)"
        if "\<not> memicmp2 (drop off (c_data c)) buf n cs \<noteq> 0"
        using 2(2) [OF False refl refl] that n 2(3,4) wf by (simp add: n_def [symmetric])
      moreover have "slice off (length buf) (c_data c @ vec_content cv) = slice off n (c_data c) @ take (length buf - n) (vec_content cv)"
        using n wf by (simp add: slice_def)
      ultimately show ?thesis
        using False eq n wf bytes_match_split [of "slice off n (c_data c)" buf cs] by (auto simp: n_def [symmetric] Let_def)
    qed
  qed
qed

lemma chunks_compare2_content:
  assumes "chunks_data_inv s" and "buf \<noteq> []" and "off + length buf \<le> size_max"
  shows "chunks_compare2 mvt s buf cs off \<longleftrightarrow>
     off + length buf \<le> length (chunks_content s) \<and> bytes_match cs (slice off (length buf) (chunks_content s)) buf"
proof -
  have "\<not> check_uint_overflow_sum off (length buf)" using assms(3) by (simp add: check_uint_overflow_sum_iff)
  moreover have "list_all chunk_wf (m_chunksVector s)" using assms(1) by (simp add: chunks_data_inv_def)
  ultimately show ?thesis
    using assms chunks_compare_loop_content [of "m_chunksVector s" off buf cs]
    by (auto simp: chunks_compare2_def chunks_data_inv_mmap chunks_size_inv chunks_content_def)
qed

section \<open>Searching a character\<close>

definition char_class :: "char \<Rightarrow> bool \<Rightarrow> char \<Rightarrow> bool" where
  "char_class c folded x \<longleftrightarrow> (if folded then to_upper c = x \<or> to_lower c = x else c = x)"

lemma find_index_disj:
  "find_index (\<lambda>x. P x \<or> Q x) xs =
     (case find_index P xs of
        Some u \<Rightarrow> (case find_index Q xs of Some l \<Rightarrow> (if u \<le> l then Some u else Some l) | None \<Rightarrow> Some u)
      | None \<Rightarrow> find_index Q xs)"
  by (induction xs) (auto split: option.splits)

lemma chunk_findChar_eq: "chunk_findChar data c n cs = find_index (char_class c cs) (take n data)"
  by (cases cs) (simp_all add: chunk_findChar_def memchr_def char_class_def [abs_def] find_index_disj Let_def)

lemma chunks_findChar_loop_content:
  "list_all chunk_wf vec \<Longrightarrow> off + space \<le> length (vec_content vec) \<Longrightarrow>
     chunks_findChar_loop vec c off space cs retpos =
       map_option (\<lambda>i. i + off + retpos) (find_index (char_class c cs) (slice off space (vec_content vec)))"
proof (induction vec c off space cs retpos rule: chunks_findChar_loop.induct)
  case (1 c off space cs retpos)
  then show ?case by simp
next
  case (2 k ks c off space cs retpos)
  have wf: "c_size k = length (c_data k)" using 2(3) by (simp add: chunk_wf_def)
  show ?case
  proof (cases "off > 0 \<and> off > c_size k")
    case True
    then have "chunks_findChar_loop ks c (off - c_size k) space cs (retpos + c_size k) =
        map_option (\<lambda>i. i + (off - c_size k) + (retpos + c_size k))
          (find_index (char_class c cs) (slice (off - c_size k) space (vec_content ks)))"
      using 2 wf by (intro 2(1)) simp_all
    with True wf show ?thesis by (simp add: slice_append_right add.assoc)
  next
    case False
    let ?n = "c_size k - off"
    have off: "off \<le> length (c_data k)" using False wf by auto
    have sl: "slice off space (vec_content (k # ks)) =
        take (min space ?n) (drop off (c_data k)) @ take (space - ?n) (vec_content ks)"
      using off by (simp add: slice_def wf min_def)
    have IH: "chunks_findChar_loop ks c 0 (space - ?n) cs (retpos + c_size k) =
        map_option (\<lambda>i. i + 0 + (retpos + c_size k)) (find_index (char_class c cs) (slice 0 (space - ?n) (vec_content ks)))"
      if "chunk_findChar (drop off (c_data k)) c (min space ?n) cs = None" "space > ?n"
      using 2(2) [OF False refl that] 2(3,4) wf off that(2) by simp
    show ?thesis
      unfolding sl find_index_append
      using False IH off wf
      by (cases "find_index (char_class c cs) (take (min space ?n) (drop off (c_data k)))"; cases "space > ?n")
        (auto simp: chunk_findChar_eq Let_def option.map_comp comp_def add_ac intro!: option.map_cong0)
  qed
qed

lemma chunks_findChar_candidate:
  assumes "chunks_data_inv s" and "off + space \<le> length (chunks_content s)"
  shows "\<exists>r. chunks_findChar mvt s c off space True = Inr r \<and> next_candidate (chunks_content s) c off space r"
proof -
  have wf: "list_all chunk_wf (m_chunksVector s)" "length (chunks_content s) \<le> size_max"
    using assms(1) by (simp_all add: chunks_data_inv_def)
  have "\<not> check_uint_overflow_sum off space" using assms(2) wf(2) by (simp add: check_uint_overflow_sum_iff)
  then have "chunks_findChar mvt s c off space True =
      Inr (map_option ((+) off) (find_index (char_class c (is_alpha c)) (slice off space (chunks_content s))))"
    using assms wf chunks_findChar_loop_content [OF wf(1), of off space c "is_alpha c" 0]
    by (auto simp: chunks_findChar_def chunks_data_inv_mmap chunks_size_inv chunks_content_def add.commute
        intro!: option.map_cong0)
  moreover have "char_class c (is_alpha c) c" using is_alpha_nonzero [of c] by (auto simp: char_class_def)
  ultimately show ?thesis using find_index_candidate [OF assms(2)] by auto
qed

interpretation bchunks_scan: scan_container "chunks_vt mvt copyToFS" chunks_content chunks_data_inv
  for mvt copyToFS
proof (unfold_locales, goal_cases)
  case (1 s)
  then show ?case by (simp add: chunks_vt_def chunks_size_inv)
next
  case (2 s)
  then show ?case by (simp add: chunks_data_inv_def)
next
  case (3 s buf off cs)
  then show ?case by (simp add: chunks_vt_def chunks_compare2_content)
next
  case (4 s off space c)
  then show ?case by (simp add: chunks_vt_def chunks_findChar_candidate)
qed

interpretation bchunks: read_container "chunks_vt mvt copyToFS" chunks_content chunks_inv
  for mvt copyToFS
proof (unfold_locales, goal_cases)
  case (1 s)
  then show ?case by (simp add: bchunks_scan.size_content chunks_inv_def)
next
  case (2 s)
  then show ?case by (simp add: chunks_inv_def chunks_data_inv_def)
next
  case (3 s buf off cs)
  then show ?case by (simp add: bchunks_scan.compare2_content chunks_inv_def)
next
  case (4 s off space c)
  then show ?case by (intro bchunks_scan.findChar_content) (simp_all add: chunks_inv_def)
next
  case (5 s n off)
  then show ?case by (simp add: chunks_vt_def chunks_copyToBuffer2_content)
qed

section \<open>Appending and prepending\<close>

text \<open>The state with another chunk vector and its byte count; nothing else changes.\<close>

definition with_vec :: "'y chunks \<Rightarrow> chunk list \<Rightarrow> 'y chunks" where
  "with_vec s vec = b_setContainerBytes (s\<lparr>m_chunksVector := vec\<rparr>) (length (vec_content vec))"

lemma with_vec_simps [simp]:
  "m_chunksVector (with_vec s vec) = vec"
  "m_maxChunks (with_vec s vec) = m_maxChunks s"
  "m_maxChunkSize (with_vec s vec) = m_maxChunkSize s"
  "m_mmapContainer (with_vec s vec) = m_mmapContainer s"
  "m_maxSizeInMemoryBeforeMovingToDisk (with_vec s vec) = m_maxSizeInMemoryBeforeMovingToDisk s"
  "m_readOnly (with_vec s vec) = m_readOnly s"
  "m_maxSize (with_vec s vec) = m_maxSize s"
  "writeStatus (with_vec s vec) = writeStatus s"
  "with_vec (with_vec s vec) vec' = with_vec s vec'"
  "chunks_content (with_vec s vec) = vec_content vec"
  by (simp_all add: with_vec_def b_setContainerBytes_def chunks_content_def)

lemma with_vec_bytes [simp]: "m_containerBytes (with_vec s vec) = length (vec_content vec)"
  by (simp add: with_vec_def b_setContainerBytes_def)

lemma with_vec_same: "chunks_data_inv s \<Longrightarrow> with_vec s (m_chunksVector s) = s"
  by (cases s) (simp add: with_vec_def b_setContainerBytes_def chunks_data_inv_def chunks_content_def)

lemma chunks_inv_with_vec:
  "m_mmapContainer s = None \<Longrightarrow>
     chunks_inv (with_vec s vec) \<longleftrightarrow>
       list_all chunk_wf vec \<and> length (vec_content vec) \<le> size_max \<and> offsets_ok vec 0"
  by (auto simp: chunks_inv_def chunks_data_inv_def)

lemma chunks_data_inv_with_vec:
  "m_mmapContainer s = None \<Longrightarrow>
     chunks_data_inv (with_vec s vec) \<longleftrightarrow> list_all chunk_wf vec \<and> length (vec_content vec) \<le> size_max"
  by (auto simp: chunks_data_inv_def)

lemma last_nextOffset:
  assumes "list_all chunk_wf vec" "offsets_ok vec 0" "length (vec_content vec) \<le> size_max" "vec \<noteq> []"
  shows "nextOffset (vec ! (length vec - 1)) = length (vec_content vec)"
  using chunk_contains(1) [OF assms(1,2) _ assms(3), of "length vec - 1"] assms(4)
  by (simp add: chunk_start_all)

lemma chunks_append_loop_step:
  assumes "chunks_inv s" and "buf \<noteq> []" and "0 < m_maxChunkSize s"
    and "length (chunks_content s) + length buf \<le> size_max" and "length (m_chunksVector s) < m_maxChunks s"
    and n: "n = min (length buf) (m_maxChunkSize s)"
    and c: "c = \<lparr>c_data = take n buf, c_size = n, c_offset = length (chunks_content s)\<rparr>"
  shows "chunks_append_loop mvt False s buf k =
      chunks_append_loop mvt False (with_vec s (m_chunksVector s @ [c])) (drop n buf) (k + n)"
    and "chunks_inv (with_vec s (m_chunksVector s @ [c]))"
proof -
  have inv: "list_all chunk_wf (m_chunksVector s)" "offsets_ok (m_chunksVector s) 0"
    "length (chunks_content s) \<le> size_max" "m_mmapContainer s = None"
    "m_containerBytes s = length (chunks_content s)"
    using assms(1) by (simp_all add: chunks_inv_def chunks_data_inv_def)
  have off: "(if length (m_chunksVector s) = 0 then 0
      else nextOffset (m_chunksVector s ! (length (m_chunksVector s) - 1))) = length (chunks_content s)"
    using last_nextOffset [OF inv(1,2)] inv(3) by (simp add: chunks_content_def)
  have "chunk_copy chunk_new buf n = c\<lparr>c_offset := 0\<rparr>"
    by (simp add: chunk_copy_def chunk_new_def chunk_destroy_def c)
  then show "chunks_append_loop mvt False s buf k =
      chunks_append_loop mvt False (with_vec s (m_chunksVector s @ [c])) (drop n buf) (k + n)"
    using assms(2-5) inv off n
    by (simp add: chunks_append_loop.simps [of mvt False s] chunks_size_def b_setContainerBytes_def
        with_vec_def c Let_def size_arith chunks_content_def)
  show "chunks_inv (with_vec s (m_chunksVector s @ [c]))"
    using inv assms(2-4) n
    by (auto simp: chunks_inv_with_vec offsets_ok_append chunk_wf_def c chunks_content_def)
qed

lemma chunks_append_loop_spec:
  "chunks_inv s \<Longrightarrow> 0 < m_maxChunkSize s \<Longrightarrow> length (chunks_content s) + length buf \<le> size_max \<Longrightarrow>
     \<exists>new n. chunks_append_loop mvt False s buf k = (with_vec s (m_chunksVector s @ new), Some (k + n))
       \<and> n \<le> length buf \<and> chunks_inv (with_vec s (m_chunksVector s @ new)) \<and> vec_content new = take n buf
       \<and> length new \<le> (length buf + m_maxChunkSize s - 1) div m_maxChunkSize s
       \<and> (length buf \<le> (m_maxChunks s - length (m_chunksVector s)) * m_maxChunkSize s \<longrightarrow> n = length buf)"
proof (induction "length buf" arbitrary: s buf k rule: less_induct)
  case less
  let ?m = "m_maxChunkSize s"
  have same: "with_vec s (m_chunksVector s @ []) = s"
    using less.prems(1) by (simp add: with_vec_same chunks_inv_def)
  show ?case
  proof (cases "buf = [] \<or> length (m_chunksVector s) \<ge> m_maxChunks s")
    case True
    then have "chunks_append_loop mvt False s buf k = (s, Some (k + 0))"
      by (auto simp: chunks_append_loop.simps [of mvt False s] Let_def)
    moreover have "length buf \<le> (m_maxChunks s - length (m_chunksVector s)) * ?m \<longrightarrow> 0 = length buf"
      using True by auto
    ultimately show ?thesis using same less.prems(1)
      by (intro exI [of _ "[]"] exI [of _ 0]) auto
  next
    case False
    define n where "n = min (length buf) ?m"
    define c where "c = \<lparr>c_data = take n buf, c_size = n, c_offset = length (chunks_content s)\<rparr>"
    define s1 where "s1 = with_vec s (m_chunksVector s @ [c])"
    have room: "length (m_chunksVector s) < m_maxChunks s" "buf \<noteq> []" using False by auto
    have n0: "0 < n" "n \<le> length buf" using room less.prems(2) by (auto simp: n_def)
    note step = chunks_append_loop_step [OF less.prems(1) room(2) less.prems(2,3) room(1) n_def c_def]
    have "length (drop n buf) < length buf" "chunks_inv s1" "0 < m_maxChunkSize s1"
      "length (chunks_content s1) + length (drop n buf) \<le> size_max"
      using n0 less.prems step(2) by (auto simp: s1_def c_def chunks_content_def)
    from less.hyps [OF this, of "k + n"] obtain new r where IH:
      "chunks_append_loop mvt False s1 (drop n buf) (k + n) = (with_vec s1 (m_chunksVector s1 @ new), Some (k + n + r))"
      "r \<le> length (drop n buf)" "chunks_inv (with_vec s1 (m_chunksVector s1 @ new))"
      "vec_content new = take r (drop n buf)"
      "length new \<le> (length (drop n buf) + ?m - 1) div ?m"
      "length (drop n buf) \<le> (m_maxChunks s - Suc (length (m_chunksVector s))) * ?m \<Longrightarrow> r = length (drop n buf)"
      by (auto simp: s1_def)
    have len: "Suc (length new) \<le> (length buf + ?m - 1) div ?m"
    proof (cases "length buf \<le> ?m")
      case True
      then have "length new = 0" using IH(5) less.prems(2) by (simp add: n_def)
      moreover have "1 \<le> (length buf + ?m - 1) div ?m" using n0 less.prems(2) by (simp add: div_greater_zero_iff Suc_le_eq)
      ultimately show ?thesis by simp
    next
      case False
      then have "n = ?m" by (simp add: n_def)
      moreover have "length buf + ?m - 1 = (length buf - ?m + ?m - 1) + ?m" using False less.prems(2) by simp
      then have "(length buf + ?m - 1) div ?m = Suc ((length buf - ?m + ?m - 1) div ?m)"
        using less.prems(2) by (simp only: div_add_self2)
      ultimately show ?thesis using IH(5) by (simp only: length_drop)
    qed
    have full: "n + r = length buf" if "length buf \<le> (m_maxChunks s - length (m_chunksVector s)) * ?m"
    proof -
      have "m_maxChunks s - length (m_chunksVector s) = Suc (m_maxChunks s - Suc (length (m_chunksVector s)))"
        using room(1) by simp
      then have "length (drop n buf) \<le> (m_maxChunks s - Suc (length (m_chunksVector s))) * ?m"
        using that by (auto simp: n_def min_def)
      then show ?thesis using IH(6) n0 by simp
    qed
    have "chunks_append_loop mvt False s buf k = (with_vec s (m_chunksVector s @ c # new), Some (k + (n + r)))"
      using step(1) [of mvt k, folded s1_def] IH(1) by (simp add: s1_def add.assoc)
    moreover have "chunks_inv (with_vec s (m_chunksVector s @ c # new))" using IH(3) by (simp add: s1_def)
    moreover have "vec_content (c # new) = take (n + r) buf" using IH(4) by (simp add: c_def take_add)
    moreover have "n + r \<le> length buf" using IH(2) n0 by simp
    ultimately show ?thesis using len full by (intro exI [of _ "c # new"] exI [of _ "n + r"]) simp
  qed
qed

text \<open>One \<^verbatim>\<open>append\<close> through \<^verbatim>\<open>B_Base\<close> when the limits leave room for the data.\<close>

definition chunks_needed :: "'y chunks \<Rightarrow> nat \<Rightarrow> nat" where
  "chunks_needed s len = (len + m_maxChunkSize s - 1) div m_maxChunkSize s"

definition chunks_room :: "'y chunks \<Rightarrow> nat \<Rightarrow> bool" where
  "chunks_room s len \<longleftrightarrow> \<not> m_readOnly s \<and> 0 < m_maxChunkSize s \<and> m_maxSize s \<le> size_max
     \<and> (m_maxSizeInMemoryBeforeMovingToDisk s = 0
        \<or> len + length (chunks_content s) \<le> m_maxSizeInMemoryBeforeMovingToDisk s)
     \<and> len + length (chunks_content s) \<le> m_maxSize s
     \<and> length (m_chunksVector s) + chunks_needed s len \<le> m_maxChunks s"

lemma chunks_needed_le: "0 < m_maxChunkSize u \<Longrightarrow> chunks_needed u n \<le> n"
proof -
  assume m: "0 < m_maxChunkSize u"
  then have "n \<le> n * m_maxChunkSize u" by simp
  then have "n + m_maxChunkSize u - 1 < (n + 1) * m_maxChunkSize u"
    using m by (simp only: add_mult_distrib mult_1)
  then show ?thesis using m by (simp add: chunks_needed_def less_mult_imp_div_less flip: less_Suc_eq_le)
qed

lemma chunks_needed_enough:
  assumes "0 < m_maxChunkSize s" and "chunks_needed s len \<le> k"
  shows "len \<le> k * m_maxChunkSize s"
proof -
  let ?m = "m_maxChunkSize s"
  have "len + ?m - 1 < (k + 1) * ?m"
    using assms by (simp add: chunks_needed_def div_less_iff_less_mult [symmetric] less_Suc_eq_le del: mult_Suc)
  then show ?thesis using assms(1) by (simp add: add_mult_distrib)
qed

lemma b_append_chunks:
  assumes "chunks_inv s" and "chunks_room s (length data)" and "data \<noteq> []"
  obtains new where "b_append (chunks_vt mvt fs) s data = (with_vec s (m_chunksVector s @ new), Some (length data))"
    "chunks_inv (with_vec s (m_chunksVector s @ new))" "vec_content new = data"
    "length new \<le> chunks_needed s (length data)"
proof -
  have d: "chunks_data_inv s" using assms(1) by (simp add: chunks_inv_def)
  have room: "length data + length (chunks_content s) \<le> m_maxSize s" "0 < m_maxChunkSize s" "m_maxSize s \<le> size_max"
    "\<not> m_readOnly s" using assms(2) by (simp_all add: chunks_room_def)
  have ov: "\<not> check_uint_overflow_sum (length data) (length (chunks_content s))"
    using room by (simp add: check_uint_overflow_sum_iff)
  have cap: "length data \<le> (m_maxChunks s - length (m_chunksVector s)) * m_maxChunkSize s"
    using assms(2) by (intro chunks_needed_enough) (auto simp: chunks_room_def)
  have "length (chunks_content s) + length data \<le> size_max" using room by simp
  from chunks_append_loop_spec [OF assms(1) room(2) this, of mvt 0] cap
  obtain new where "chunks_append_loop mvt False s data 0 = (with_vec s (m_chunksVector s @ new), Some (length data))"
    "chunks_inv (with_vec s (m_chunksVector s @ new))" "vec_content new = data"
    "length new \<le> chunks_needed s (length data)"
    by (auto simp: chunks_needed_def)
  moreover have "b_append (chunks_vt mvt fs) s data = chunks_append_loop mvt False s data 0"
    using room assms(2,3) d ov
    by (auto simp: b_append_def chunks_vt_def chunks_append2_def chunks_size_inv chunks_data_inv_mmap chunks_room_def Let_def)
  ultimately show thesis using that by simp
qed

section \<open>Displacing\<close>

lemma recalc_first_offset: "\<exists>off. recalc_first n cur c = c\<lparr>c_offset := off\<rparr>"
proof (induction n arbitrary: cur c)
  case 0
  show ?case by (intro exI [of _ "c_offset c"]) simp
next
  case (Suc n)
  then show ?case by (metis (no_types, lifting) chunk.surjective chunk.update_convs(3) recalc_first.simps(2))
qed

lemma recalc_keeps_data:
  assumes "chunks_data_inv s"
  obtains vec where "recalcChunkOffsets s = with_vec s vec" "vec_content vec = chunks_content s"
    "list_all chunk_wf vec" "length vec = length (m_chunksVector s)" "tl vec = tl (m_chunksVector s)"
proof (cases "m_chunksVector s")
  case Nil
  then have "recalcChunkOffsets s = with_vec s []" using with_vec_same [OF assms] by (simp add: recalcChunkOffsets_def)
  then show thesis using that [of "[]"] Nil by (simp add: chunks_content_def)
next
  case (Cons c cs)
  obtain off where off: "recalc_first (length (c # cs)) 0 c = c\<lparr>c_offset := off\<rparr>"
    using recalc_first_offset by blast
  have "recalcChunkOffsets s = with_vec s (c\<lparr>c_offset := off\<rparr> # cs)"
    using Cons off assms
    by (cases s) (simp add: recalcChunkOffsets_def with_vec_def b_setContainerBytes_def chunks_data_inv_def
        chunks_content_def del: recalc_first.simps)
  moreover have "list_all chunk_wf (c\<lparr>c_offset := off\<rparr> # cs)"
    using assms Cons by (simp add: chunks_data_inv_def chunk_wf_def)
  ultimately show thesis using that Cons by (simp add: chunks_content_def)
qed

lemma chunk_displace_wf:
  "chunk_wf c \<Longrightarrow> 0 < n \<Longrightarrow> n < c_size c \<Longrightarrow>
     chunk_wf (chunk_displace c n) \<and> c_data (chunk_displace c n) = drop n (c_data c)
       \<and> c_offset (chunk_displace c n) = c_offset c"
  by (simp add: chunk_wf_def chunk_displace_def chunk_destroy_def Let_def)

lemma chunks_displace_loop_spec:
  "chunks_data_inv s \<Longrightarrow> n \<le> length (chunks_content s) \<Longrightarrow>
     \<exists>vec. chunks_displace_loop mvt s n d = (recalcChunkOffsets (with_vec s vec), Some (d + n))
       \<and> vec_content vec = drop n (chunks_content s) \<and> list_all chunk_wf vec
       \<and> (\<exists>k. map c_offset vec = drop k (map c_offset (m_chunksVector s)) \<and> (0 < k \<or> length vec = length (m_chunksVector s)))"
proof (induction "m_chunksVector s" arbitrary: s n d)
  case Nil
  then have "chunks_content s = []" by (simp add: chunks_content_def flip: Nil(1))
  then show ?case
    using Nil with_vec_same [OF Nil(2)]
    by (intro exI [of _ "[]"]) (auto simp: chunks_displace_loop.simps [of mvt s] simp flip: Nil(1))
next
  case (Cons c cs)
  have inv: "chunk_wf c" "list_all chunk_wf cs" "m_mmapContainer s = None"
    "m_containerBytes s = c_size c + length (vec_content cs)" "c_size c + length (vec_content cs) \<le> size_max"
    and cont: "chunks_content s = c_data c @ vec_content cs"
    using Cons(3) by (auto simp: chunks_data_inv_def chunks_content_def chunk_wf_def simp flip: Cons(2))
  have size: "chunks_size mvt s = c_size c + length (vec_content cs)" using inv by (simp add: chunks_size_def)
  have csz: "c_size c = length (c_data c)" using inv(1) by (simp add: chunk_wf_def)
  consider "n = 0" | "0 < n" "n < c_size c" | "0 < n" "c_size c \<le> n" by linarith
  then show ?case
  proof cases
    case 1
    then show ?thesis
      using with_vec_same [OF Cons(3)] Cons(3) by (intro exI [of _ "m_chunksVector s"])
        (auto simp: chunks_displace_loop.simps [of mvt s] chunks_content_def chunks_data_inv_def intro!: exI [of _ 0])
  next
    case 2
    let ?v = "chunk_displace c n # cs"
    have "vec_content ?v = drop n (chunks_content s)" "length (vec_content ?v) = c_size c + length (vec_content cs) - n"
      using 2 chunk_displace_wf [OF inv(1) 2] csz by (simp_all add: cont)
    moreover from this have "b_setContainerBytes (s\<lparr>m_chunksVector := ?v\<rparr>) (usub (chunks_size mvt s) n) = with_vec s ?v"
      using inv(5) 2 by (simp add: with_vec_def size size_arith)
    moreover have "map c_offset ?v = drop 0 (map c_offset (m_chunksVector s))"
      using chunk_displace_wf [OF inv(1) 2] by (simp flip: Cons(2))
    ultimately show ?thesis
      using 2 chunk_displace_wf [OF inv(1) 2] inv(2) Cons(2) [symmetric]
      by (intro exI [of _ ?v] conjI exI [of _ 0])
        (simp_all add: chunks_displace_loop.simps [of mvt s] chunks_displace_loop.simps [of mvt _ 0])
  next
    case 3
    have w: "b_setContainerBytes (s\<lparr>m_chunksVector := cs\<rparr>) (usub (chunks_size mvt s) (c_size c)) = with_vec s cs"
      using inv(5) by (simp add: with_vec_def size size_arith)
    have "chunks_data_inv (with_vec s cs)" using inv by (simp add: chunks_data_inv_with_vec)
    moreover have "n - c_size c \<le> length (chunks_content (with_vec s cs))" using Cons(4) 3 csz by (simp add: cont)
    ultimately obtain vec k where IH: "chunks_displace_loop mvt (with_vec s cs) (n - c_size c) (d + c_size c) =
        (recalcChunkOffsets (with_vec s vec), Some (d + c_size c + (n - c_size c)))"
      "vec_content vec = drop (n - c_size c) (vec_content cs)" "list_all chunk_wf vec"
      "map c_offset vec = drop k (map c_offset cs)"
      using Cons(1) [of "with_vec s cs" "n - c_size c" "d + c_size c"] by auto
    moreover have "chunks_displace_loop mvt s n d = chunks_displace_loop mvt (with_vec s cs) (n - c_size c) (d + c_size c)"
      using 3 w by (simp add: chunks_displace_loop.simps [of mvt s] flip: Cons(2))
    moreover have "map c_offset vec = drop (Suc k) (map c_offset (m_chunksVector s))"
      using IH(4) by (simp flip: Cons(2))
    ultimately show ?thesis using 3 csz
      by (intro exI [of _ vec] conjI exI [of _ "Suc k"]) (simp_all add: cont)
  qed
qed

lemma b_displace_chunks:
  assumes "chunks_data_inv s" and "n \<le> length (chunks_content s)"
  obtains vec where "b_displace (chunks_vt mvt fs) s n = (with_vec s vec, Some n)"
    "vec_content vec = drop n (chunks_content s)" "list_all chunk_wf vec" "chunks_data_inv (with_vec s vec)"
proof -
  from chunks_displace_loop_spec [OF assms, of mvt 0]
  obtain v where v: "chunks_displace_loop mvt s n 0 = (recalcChunkOffsets (with_vec s v), Some n)"
    "vec_content v = drop n (chunks_content s)" "list_all chunk_wf v"
    by auto
  have "length (chunks_content s) \<le> size_max" "m_mmapContainer s = None"
    using assms(1) by (auto simp: chunks_data_inv_def)
  then have "chunks_data_inv (with_vec s v)" using v by (simp add: chunks_data_inv_with_vec)
  from recalc_keeps_data [OF this] obtain vec where vec: "recalcChunkOffsets (with_vec s v) = with_vec s vec"
    "vec_content vec = drop n (chunks_content s)" "list_all chunk_wf vec"
    using v(2) by auto
  moreover from vec have "chunks_data_inv (with_vec s vec)"
    using \<open>length (chunks_content s) \<le> size_max\<close> \<open>m_mmapContainer s = None\<close> by (simp add: chunks_data_inv_with_vec)
  moreover have "b_displace (chunks_vt mvt fs) s n = chunks_displace_loop mvt s n 0"
    using assms by (simp add: b_displace_def chunks_vt_def chunks_displace2_def chunks_data_inv_mmap chunks_size_inv)
  ultimately show thesis using that v(1) by simp
qed

text \<open>What the loop of \<^verbatim>\<open>recalcChunkOffsets\<close> leaves in the first chunk.\<close>

lemma recalc_first_value:
  "cur + n * c_size c \<le> size_max \<Longrightarrow> recalc_first (Suc n) cur c = c\<lparr>c_offset := cur + n * c_size c\<rparr>"
proof (induction n arbitrary: cur c)
  case 0
  then show ?case by simp
next
  case (Suc n)
  have "recalc_first (Suc (Suc n)) cur c = recalc_first (Suc n) (uadd (c_size c) cur) (c\<lparr>c_offset := cur\<rparr>)"
    by (simp only: recalc_first.simps(2) [of "Suc n"] Let_def nextOffset_def) simp
  also have "uadd (c_size c) cur = cur + c_size c" using Suc.prems by (simp add: size_arith)
  also have "recalc_first (Suc n) (cur + c_size c) (c\<lparr>c_offset := cur\<rparr>)
      = c\<lparr>c_offset := cur + c_size c + n * c_size c\<rparr>"
    using Suc.IH [of "cur + c_size c" "c\<lparr>c_offset := cur\<rparr>"] Suc.prems by simp
  finally show ?case by (simp add: add.assoc)
qed

lemma chunk_search_sound:
  "chunk_search vec off curpos curmax curmin = Some i \<Longrightarrow> i < length vec \<and> containsOffset (vec ! i) off"
proof (induction vec off curpos curmax curmin rule: chunk_search.induct)
  case (1 vec off curpos curmax curmin)
  from 1(3) 1(1,2) show ?case
    by (subst (asm) chunk_search.simps) (auto split: if_splits)
qed

lemma GetPosForOffset_none:
  assumes "\<And>c. c \<in> set vec \<Longrightarrow> 0 < c_offset c"
  shows "I_Chunk_GetPosForOffset vec 0 = None"
proof (cases "I_Chunk_GetPosForOffset vec 0")
  case (Some i)
  then have "i < length vec \<and> containsOffset (vec ! i) 0"
    using chunk_search_sound by (auto simp: I_Chunk_GetPosForOffset_def split: if_splits)
  then show ?thesis using assms [of "vec ! i"] by (simp add: containsOffset_def)
qed

lemma stale_offsets:
  assumes "chunks_inv s" and "map c_offset vec = drop k (map c_offset (m_chunksVector s))" and "vec \<noteq> []"
    and "x \<in> set (tl vec)"
  shows "0 < c_offset x"
proof -
  let ?v = "m_chunksVector s"
  have inv: "list_all chunk_wf ?v" "offsets_ok ?v 0" using assms(1) by (auto simp: chunks_inv_def chunks_data_inv_def)
  have "c_offset x \<in> set (map c_offset (tl vec))" using assms(4) by simp
  also have "map c_offset (tl vec) = map c_offset (drop (Suc k) ?v)"
    using assms(2) by (metis drop_Suc drop_map map_tl tl_drop)
  finally obtain y where "y \<in> set (drop (Suc k) ?v)" "c_offset x = c_offset y" by auto
  then obtain j where "j < length ?v - Suc k" "c_offset x = c_offset (?v ! (Suc k + j))"
    by (auto simp: in_set_conv_nth)
  then obtain i where i: "i < length ?v" "0 < i" "c_offset x = c_offset (?v ! i)"
    by (metis add_Suc less_diff_conv2 add.commute less_diff_conv zero_less_Suc)
  moreover have "0 < chunk_start ?v (Suc (i - 1))"
    using i inv(1) by (subst chunk_start_Suc) (auto simp: list_all_length chunk_wf_def)
  ultimately show ?thesis using chunk_offset [OF inv i(1)] by simp
qed

lemma b_displace_stale:
  assumes "chunks_inv s" and "n \<le> length (chunks_content s)"
    and "length (m_chunksVector s) * length (chunks_content s) \<le> size_max"
    and "b_displace (chunks_vt mvt fs) s n = (s', r)" and "2 \<le> length (m_chunksVector s')"
  shows "I_Chunk_GetPosForOffset (m_chunksVector s') 0 = None"
proof -
  have d: "chunks_data_inv s" using assms(1) by (simp add: chunks_inv_def)
  from chunks_displace_loop_spec [OF d assms(2), of mvt 0] obtain v k where
    v: "chunks_displace_loop mvt s n 0 = (recalcChunkOffsets (with_vec s v), Some n)"
    "vec_content v = drop n (chunks_content s)" "list_all chunk_wf v"
    "map c_offset v = drop k (map c_offset (m_chunksVector s))" by auto
  have s': "s' = recalcChunkOffsets (with_vec s v)"
    using assms(2,4) d v(1)
    by (simp add: b_displace_def chunks_vt_def chunks_displace2_def chunks_data_inv_mmap chunks_size_inv)
  obtain c cs where vc: "v = c # cs" using assms(5) by (cases v) (auto simp: s' recalcChunkOffsets_def)
  have "length v \<le> length (m_chunksVector s)"
    using arg_cong [OF v(4), of length] by simp
  then have "length cs * c_size c \<le> length (m_chunksVector s) * length (chunks_content s)"
    using v(3) arg_cong [OF v(2), of length] by (intro mult_mono) (simp_all add: vc chunk_wf_def)
  then have "recalc_first (Suc (length cs)) 0 c = c\<lparr>c_offset := length cs * c_size c\<rparr>"
    using recalc_first_value [of 0 "length cs" c] assms(3) by simp
  then have m: "m_chunksVector s' = c\<lparr>c_offset := length cs * c_size c\<rparr> # cs"
    by (simp add: s' recalcChunkOffsets_def vc del: recalc_first.simps)
  moreover have "0 < length cs * c_size c" using assms(5) v(3) m by (auto simp: vc chunk_wf_def)
  moreover have "0 < c_offset x" if "x \<in> set cs" for x
    using stale_offsets [OF assms(1) v(4)] that by (simp add: vc)
  ultimately show ?thesis by (intro GetPosForOffset_none) auto
qed

lemma b_toString_no_start:
  assumes "chunks_data_inv s" and "chunks_content s \<noteq> []" and "I_Chunk_GetPosForOffset (m_chunksVector s) 0 = None"
  shows "b_toString (chunks_vt mvt fs) s size_max 0 = Some []"
proof -
  let ?n = "length (chunks_content s)"
  have "chunks_copyToBuffer2 mvt s k 0 = None" if "0 < k" for k
    using assms(1,3) that by (simp add: chunks_copyToBuffer2_def chunks_data_inv_mmap)
  then have "b_copyOut (chunks_vt mvt fs) s k 0 = None" if "0 < k" "k \<noteq> size_max" for k
    using that by (auto simp: b_copyOut_def b_requested_def chunks_vt_def)
  from this [of "min ?n 8192"] have "b_string_loop (chunks_vt mvt fs) s ?n 0 [] = []"
    using assms(2) by (simp add: b_string_loop.simps [of _ s ?n] size_max_def min_def)
  moreover have "\<not> check_uint_overflow_sum 0 ?n"
    using assms(1) by (simp add: check_uint_overflow_sum_iff chunks_data_inv_def)
  ultimately show ?thesis
    using bchunks_scan.size_content [OF assms(1), of mvt fs] by (simp add: b_toString_def b_requested_def)
qed

section \<open>Truncating and clearing\<close>

lemma b_truncate_chunks:
  assumes "chunks_inv s" and "n < length (chunks_content s)"
  obtains vec where "b_truncate (chunks_vt mvt fs) s n = (with_vec s vec, Some n)"
    "vec_content vec = take n (chunks_content s)" "chunks_inv (with_vec s vec)"
proof -
  let ?v = "m_chunksVector s"
  have inv: "list_all chunk_wf ?v" "offsets_ok ?v 0" "length (vec_content ?v) \<le> size_max"
    and d: "chunks_data_inv s" and m: "m_mmapContainer s = None"
    using assms(1) by (auto simp: chunks_inv_def chunks_data_inv_def chunks_content_def)
  have "n < length (vec_content ?v)" using assms(2) by (simp add: chunks_content_def)
  then obtain i where i: "i < length ?v" "I_Chunk_GetPosForOffset ?v n = Some i"
    "chunk_start ?v i \<le> n" "n < chunk_start ?v (Suc i)"
    using GetPosForOffset_finds [OF inv] by blast
  note off = chunk_offset [OF inv(1,2) i(1)]
  have ib: "i < size_max" using i(1) vec_length_le [OF inv(1)] inv(3) by simp
  show thesis
  proof (cases "c_offset (?v ! i) = n")
    case True
    have "b_truncate (chunks_vt mvt fs) s n = (with_vec s (take i ?v), Some n)"
      using True i assms(2) d m ib off
      by (simp add: b_truncate_def chunks_vt_def chunks_truncate2_def chunks_size_inv with_vec_def Let_def
          uadd_usub_exact chunk_start_def [symmetric] chunks_size_def b_setContainerBytes_def chunks_data_inv_def)
    moreover have c: "vec_content (take i ?v) = take n (chunks_content s)"
      using True off by (simp add: chunks_content_def vec_split [OF i(1)] chunk_start_def)
    moreover have "offsets_ok (take i ?v) 0"
      using inv(1,2) list_all_take_drop [OF inv(1), of i] offsets_ok_append [of "take i ?v" "drop i ?v" 0] by simp
    ultimately show thesis
      using that [of "take i ?v"] list_all_take_drop [OF inv(1), of i] assms(2) inv(3) m
      by (simp add: chunks_inv_with_vec chunks_content_def)
  next
    case False
    define t where "t = chunk_truncate (?v ! i) n"
    define vec where "vec = take i ?v @ [t]"
    have wf: "c_size (?v ! i) = length (c_data (?v ! i))"
      using inv(1) i(1) by (simp add: list_all_length chunk_wf_def)
    have lt: "chunk_start ?v i < n" "n < chunk_start ?v i + length (c_data (?v ! i))"
      using False i off by (simp_all add: chunk_start_Suc)
    have "uadd (c_offset (?v ! i)) (c_size (?v ! i)) = chunk_start ?v i + length (c_data (?v ! i))"
      using chunk_start_le [of ?v "Suc i"] chunk_start_Suc [OF i(1)] inv(3) off wf by (simp add: size_arith)
    moreover have "usub n (c_offset (?v ! i)) = n - chunk_start ?v i"
      using off lt assms(2) inv(3) by (simp add: size_arith chunks_content_def)
    ultimately have t: "t = \<lparr>c_data = take (n - chunk_start ?v i) (c_data (?v ! i)),
        c_size = n - chunk_start ?v i, c_offset = chunk_start ?v i\<rparr>"
      using lt off by (simp add: t_def chunk_truncate_def chunk_destroy_def Let_def)
    have c: "vec_content vec = take n (chunks_content s)"
      using lt by (simp add: vec_def t chunks_content_def vec_split [OF i(1)] chunk_start_def)
    have "take (Suc i) (?v[i := t]) = vec" using i(1) by (simp add: vec_def take_Suc_conv_app_nth)
    moreover have "uadd i 1 = Suc i" using ib by (simp add: size_arith)
    ultimately have "b_truncate (chunks_vt mvt fs) s n = (with_vec s vec, Some n)"
      using False i assms(2) d m c
      by (simp add: b_truncate_def chunks_vt_def chunks_truncate2_def chunks_size_inv with_vec_def Let_def
          t_def [symmetric] chunks_size_def b_setContainerBytes_def chunks_data_inv_def)
    moreover have "offsets_ok vec 0" "list_all chunk_wf vec"
      using inv(1,2) list_all_take_drop [OF inv(1), of i] offsets_ok_append [of "take i ?v" "drop i ?v" 0] lt
      by (auto simp: vec_def offsets_ok_append t chunk_start_def chunk_wf_def)
    ultimately show thesis
      using that c assms(2) inv(3) m by (simp add: chunks_inv_with_vec chunks_content_def)
  qed
qed

lemma b_clear_chunks:
  "chunks_inv (fst (b_clear (chunks_vt mvt fs) s)) \<and> chunks_content (fst (b_clear (chunks_vt mvt fs) s)) = []"
  by (simp add: b_clear_def b_clear0_def chunks_vt_def chunks_clear2_def chunks_clearChunks_def chunks_inv_def
      chunks_data_inv_def chunks_content_def)

lemma chunks_new_inv: "chunks_inv chunks_new" "chunks_content chunks_new = []"
  by (simp_all add: chunks_new_def chunks_clear2_def chunks_clearChunks_def chunks_inv_def chunks_data_inv_def
      chunks_content_def b_init_def b_base.defs)

section \<open>Chunks as a destination\<close>

definition chunks_fits :: "'y chunks \<Rightarrow> nat list \<Rightarrow> bool" where
  "chunks_fits s ls \<longleftrightarrow> chunks_inv s \<and> \<not> m_readOnly s \<and> 0 < m_maxChunkSize s
     \<and> m_maxSizeInMemoryBeforeMovingToDisk s = 0
     \<and> sum_list ls + length (chunks_content s) \<le> m_maxSize s \<and> m_maxSize s \<le> size_max \<and> sum_list ls < 2 ^ 63
     \<and> length (m_chunksVector s) + sum_list (map (chunks_needed s) ls) \<le> m_maxChunks s
     \<and> succeed (writeStatus s) \<and> \<not> finish (writeStatus s)
     \<and> bytesWritten (writeStatus s) + sum_list ls \<le> size_max"

interpretation bchunks_sink: full_sink "b_streamable (chunks_vt mvt fs)" chunks_content chunks_fits
  for mvt fs
proof
  fix s :: "'a chunks" and buf :: bytes and ls
  assume fits: "chunks_fits s (length buf # ls)" and ne: "buf \<noteq> []"
  then have room: "chunks_room s (length buf)" by (auto simp: chunks_fits_def chunks_room_def size_max_def)
  have inv: "chunks_inv s" using fits by (simp add: chunks_fits_def)
  from b_append_chunks [OF inv room ne, of mvt fs] obtain new where
    a: "b_append (chunks_vt mvt fs) s buf = (with_vec s (m_chunksVector s @ new), Some (length buf))"
    "chunks_inv (with_vec s (m_chunksVector s @ new))" "vec_content new = buf"
    "length new \<le> chunks_needed s (length buf)" .
  let ?ws = "(writeStatus s)\<lparr>bytesWritten := bytesWritten (writeStatus s) + length buf\<rparr>"
  let ?s = "(with_vec s (m_chunksVector s @ new))\<lparr>writeStatus := ?ws\<rparr>"
  have "length buf < 2 ^ 63" using fits by (simp add: chunks_fits_def)
  then have "ws_add (writeStatus s) (to_ssize (length buf)) = Inr ?ws"
    using fits ne by (simp add: ws_add_def to_ssize_small safeAdd_size_eq chunks_fits_def)
  then have "b_write (chunks_vt mvt fs) s buf = Inr (?s, Some (length buf))"
    using a(1) by (simp add: b_write_def)
  moreover have c: "chunks_content ?s = chunks_content s @ buf"
    using a(3) by (simp add: chunks_content_def)
  moreover have needed: "chunks_needed ?s = chunks_needed s" by (rule ext) (simp add: chunks_needed_def)
  moreover have "chunks_fits ?s ls"
    using fits a(2,4) c needed unfolding chunks_fits_def
    by (auto simp: chunks_inv_def chunks_data_inv_def chunks_content_def)
  ultimately show "\<exists>out'. so_write (b_streamable (chunks_vt mvt fs)) s buf = Inr (out', Some (length buf))
      \<and> chunks_content out' = chunks_content s @ buf \<and> succeed (so_status (b_streamable (chunks_vt mvt fs)) out')
      \<and> chunks_fits out' ls"
    using fits by (intro exI [of _ ?s]) (auto simp: b_streamable_def chunks_fits_def)
qed

section \<open>Chunks as a source\<close>

lemma chunks_pieces_start:
  "list_all chunk_wf vec \<Longrightarrow> 0 < n \<Longrightarrow> n \<le> length (vec_content vec) \<Longrightarrow>
     concat (chunks_pieces vec 0 n) = take n (vec_content vec) \<and> [] \<notin> set (chunks_pieces vec 0 n)"
proof (induction vec arbitrary: n)
  case Nil
  then show ?case by simp
next
  case (Cons c vec)
  have wf: "c_size c = length (c_data c)" "c_data c \<noteq> []" using Cons.prems(1) by (simp_all add: chunk_wf_def)
  show ?case
  proof (cases "n \<le> c_size c")
    case True
    with wf Cons.prems(2) show ?thesis by (simp add: Let_def)
  next
    case False
    with Cons.IH [of "n - c_size c"] Cons.prems wf show ?thesis by (simp add: Let_def)
  qed
qed

lemma b_appendPlan_prefix:
  assumes "chunks_data_inv s" and "0 < n" and "n \<le> length (chunks_content s)"
  defines "pieces \<equiv> chunks_pieces (m_chunksVector s) 0 n"
  shows "b_appendPlan (chunks_vt mvt fs) s n 0 = PlanWrite pieces" and "concat pieces = take n (chunks_content s)" and "[] \<notin> set pieces"
proof -
  have inv: "list_all chunk_wf (m_chunksVector s)" "length (chunks_content s) \<le> size_max" using assms(1) by (simp_all add: chunks_data_inv_def)
  show "concat pieces = take n (chunks_content s)" "[] \<notin> set pieces"
    using chunks_pieces_start [OF inv(1), of n] assms(2,3) by (simp_all add: chunks_content_def pieces_def)
  have size: "vt_size (chunks_vt mvt fs) s = length (chunks_content s)" using bchunks_scan.size_content [OF assms(1)] .
  have "\<not> check_uint_overflow_sum 0 n" using inv(2) assms(3) by (simp add: check_uint_overflow_sum_iff)
  then show "b_appendPlan (chunks_vt mvt fs) s n 0 = PlanWrite pieces"
    using assms(1-3) inv(2) size
    by (auto simp: b_appendPlan_def b_requested_def chunks_vt_def chunks_copyPlan2_def chunks_data_inv_mmap
        check_uint_overflow_sum_iff chunks_size_inv Let_def pieces_def)
qed

lemma b_appendPlan_all:
  "length xs = vt_size vt s \<Longrightarrow> length xs \<le> size_max \<Longrightarrow> b_appendPlan vt s size_max 0 = b_appendPlan vt s (length xs) 0"
  by (simp add: b_appendPlan_def b_requested_def check_uint_overflow_sum_iff Let_def)

lemma b_appendPlan_chunks:
  assumes "chunks_data_inv s" and "chunks_content s \<noteq> []"
  defines "pieces \<equiv> chunks_pieces (m_chunksVector s) 0 (length (chunks_content s))"
  shows "b_appendPlan (chunks_vt mvt fs) s size_max 0 = PlanWrite pieces" and "concat pieces = chunks_content s" and "[] \<notin> set pieces"
proof -
  have n: "0 < length (chunks_content s)" "length (chunks_content s) \<le> size_max" using assms(1,2) by (simp_all add: chunks_data_inv_def)
  note p = b_appendPlan_prefix [OF assms(1) n(1) order_refl]
  show "b_appendPlan (chunks_vt mvt fs) s size_max 0 = PlanWrite pieces"
    using b_appendPlan_all [OF bchunks_scan.size_content [OF assms(1), symmetric] n(2)] p(1) by (simp add: pieces_def)
  show "concat pieces = chunks_content s" "[] \<notin> set pieces" using p(2,3) by (simp_all add: pieces_def)
qed

lemma b_appendTo_chunks:
  assumes "chunks_data_inv s" and "chunks_content s \<noteq> []"
    and "chunks_fits d (map length (chunks_pieces (m_chunksVector s) 0 (length (chunks_content s))))"
  obtains d' where
    "b_appendTo (chunks_vt mvt fs) s (b_streamable (chunks_vt mvt' fs')) d size_max 0 = Inr (d', Some (length (chunks_content s)))"
    "chunks_content d' = chunks_content d @ chunks_content s" "succeed (writeStatus d')" "chunks_inv d'"
proof -
  let ?n = "length (chunks_content s)"
  let ?p = "chunks_pieces (m_chunksVector s) 0 ?n"
  note p = b_appendPlan_chunks [OF assms(1,2)]
  have "?n \<le> size_max" using assms(1) by (simp add: chunks_data_inv_def)
  with bchunks_sink.writeChunks_delivers [OF assms(3) p(3), of 0 mvt' fs']
  obtain d' where "b_writeChunks (b_streamable (chunks_vt mvt' fs')) d ?p 0 = Inr (d', Some ?n)"
    "chunks_content d' = chunks_content d @ chunks_content s"
    "chunks_fits d' []"
    using p(2) by (auto simp del: length_concat)
  with p(1) show thesis
    using that by (auto simp: b_appendTo_def b_runPlan_def chunks_fits_def)
qed

section \<open>Prepending\<close>

text \<open>What prepending chunk by chunk produces.\<close>

function prepend_order :: "nat \<Rightarrow> bytes \<Rightarrow> bytes" where
  "prepend_order m buf = (if buf = [] \<or> m = 0 then [] else prepend_order m (drop m buf) @ take m buf)"
  by pat_completeness auto
termination
  by (relation "measure (\<lambda>(m, buf). length buf)") auto

declare prepend_order.simps [simp del]

lemma chunks_prepend_loop_spec:
  "chunks_data_inv s \<Longrightarrow> 0 < m_maxChunkSize s \<Longrightarrow> length (chunks_content s) + length buf \<le> size_max \<Longrightarrow>
   length buf \<le> (m_maxChunks s - length (m_chunksVector s)) * m_maxChunkSize s \<Longrightarrow>
     \<exists>vec. chunks_append_loop mvt True s buf k = (recalcChunkOffsets (with_vec s vec), Some (k + length buf))
       \<and> chunks_data_inv (with_vec s vec)
       \<and> vec_content vec = prepend_order (m_maxChunkSize s) buf @ chunks_content s"
proof (induction "length buf" arbitrary: s buf k rule: less_induct)
  case less
  let ?m = "m_maxChunkSize s" and ?v = "m_chunksVector s"
  note inv = less.prems(1) [unfolded chunks_data_inv_def]
  show ?case
  proof (cases "buf = []")
    case True
    then show ?thesis using with_vec_same [OF less.prems(1)] less.prems(1)
      by (intro exI [of _ ?v]) (auto simp: chunks_append_loop.simps [of mvt True s] prepend_order.simps chunks_content_def)
  next
    case False
    define n where "n = min (length buf) ?m"
    define c where "c = \<lparr>c_data = take n buf, c_size = n, c_offset = 0\<rparr>"
    define s1 where "s1 = with_vec s (c # ?v)"
    have n: "0 < n" "n \<le> length buf" using False less.prems(2) by (auto simp: n_def)
    have room: "length ?v < m_maxChunks s" using False less.prems(4) by (cases "m_maxChunks s - length ?v") auto
    have "chunk_copy chunk_new buf n = c" by (simp add: chunk_copy_def chunk_new_def chunk_destroy_def c_def)
    then have step: "chunks_append_loop mvt True s buf k = chunks_append_loop mvt True s1 (drop n buf) (k + n)"
      using False room less.prems(2,3) inv n
      by (simp add: chunks_append_loop.simps [of mvt True s] s1_def with_vec_def chunks_size_def Let_def
          n_def [symmetric] size_arith c_def chunks_content_def b_setContainerBytes_def add.commute)
    have inv1: "chunks_data_inv s1"
      using inv less.prems(3) n by (auto simp: s1_def chunks_data_inv_with_vec c_def chunk_wf_def chunks_content_def)
    have "m_maxChunks s - length ?v = Suc (m_maxChunks s - Suc (length ?v))" using room by simp
    then have "length (drop n buf) \<le> (m_maxChunks s1 - length (m_chunksVector s1)) * m_maxChunkSize s1"
      using less.prems(4) by (auto simp: s1_def n_def min_def)
    moreover have "length (chunks_content s1) + length (drop n buf) \<le> size_max" "length (drop n buf) < length buf"
      using less.prems(3) n by (auto simp: s1_def c_def chunks_content_def)
    ultimately obtain vec where IH: "chunks_append_loop mvt True s1 (drop n buf) (k + n)
        = (recalcChunkOffsets (with_vec s vec), Some (k + n + length (drop n buf)))"
      "chunks_data_inv (with_vec s vec)"
      "vec_content vec = prepend_order ?m (drop n buf) @ take n buf @ chunks_content s"
      using less.hyps [of "drop n buf" s1 "k + n"] inv1 less.prems(2)
      by (auto simp: s1_def c_def chunks_content_def)
    have "prepend_order ?m buf = prepend_order ?m (drop n buf) @ take n buf"
      using False less.prems(2) by (simp add: prepend_order.simps [of ?m buf] n_def min_def)
    with IH step n show ?thesis by (intro exI [of _ vec]) simp
  qed
qed

lemma b_prepend_chunks:
  assumes "chunks_data_inv s" and "chunks_room s (length data)" and "data \<noteq> []"
  obtains s' where "b_prepend (chunks_vt mvt fs) s data = (s', Some (length data))" "chunks_data_inv s'"
    "chunks_content s' = prepend_order (m_maxChunkSize s) data @ chunks_content s"
proof -
  have room: "length data + length (chunks_content s) \<le> m_maxSize s" "0 < m_maxChunkSize s" "m_maxSize s \<le> size_max"
    "\<not> m_readOnly s" using assms(2) by (simp_all add: chunks_room_def)
  have ov: "\<not> check_uint_overflow_sum (length data) (length (chunks_content s))"
    using room by (simp add: check_uint_overflow_sum_iff)
  have cap: "length data \<le> (m_maxChunks s - length (m_chunksVector s)) * m_maxChunkSize s"
    using assms(2) by (intro chunks_needed_enough) (auto simp: chunks_room_def)
  have "length (chunks_content s) + length data \<le> size_max" using room by simp
  from chunks_prepend_loop_spec [OF assms(1) room(2) this cap, of mvt 0]
  obtain v where v: "chunks_append_loop mvt True s data 0 = (recalcChunkOffsets (with_vec s v), Some (length data))"
    "chunks_data_inv (with_vec s v)" "vec_content v = prepend_order (m_maxChunkSize s) data @ chunks_content s" by auto
  from recalc_keeps_data [OF v(2)] obtain vec where vec: "recalcChunkOffsets (with_vec s v) = with_vec s vec"
    "vec_content vec = vec_content v" "list_all chunk_wf vec" by auto
  moreover have "b_prepend (chunks_vt mvt fs) s data = chunks_append_loop mvt True s data 0"
    using room assms ov
    by (auto simp: b_prepend_def chunks_vt_def chunks_append2_def chunks_size_inv chunks_data_inv_mmap chunks_room_def Let_def)
  moreover have "chunks_data_inv (with_vec s vec)"
    using vec v(2) assms(1) by (simp add: chunks_data_inv_def)
  ultimately show thesis using that [of "with_vec s vec"] v by simp
qed

section \<open>Properties\<close>

text \<open>
  Append and read back. When the limits leave room, \<^verbatim>\<open>append\<close> accepts all the bytes, splits them
  into chunks of at most \<^verbatim>\<open>m_maxChunkSize\<close>, keeps the invariant, and both \<^verbatim>\<open>toString\<close> and
  \<^verbatim>\<open>copyOut\<close> at every position (binary search over the chunk offsets included) return the old bytes
  followed by the new ones.
\<close>

theorem chunks_append_roundtrip:
  assumes "chunks_inv s" and "chunks_room s (length data)" and "data \<noteq> []"
  shows "\<exists>s'. b_append (chunks_vt mvt fs) s data = (s', Some (length data)) \<and> chunks_inv s'
    \<and> b_toString (chunks_vt mvt fs) s' size_max 0 = Some (chunks_content s @ data)
    \<and> (\<forall>off n. off + n \<le> length (chunks_content s @ data) \<longrightarrow>
         b_copyOut (chunks_vt mvt fs) s' n off = Some (slice off n (chunks_content s @ data)))"
proof -
  from b_append_chunks [OF assms, of mvt fs] obtain new where
    a: "b_append (chunks_vt mvt fs) s data = (with_vec s (m_chunksVector s @ new), Some (length data))"
    "chunks_inv (with_vec s (m_chunksVector s @ new))" "vec_content new = data" .
  have "chunks_content (with_vec s (m_chunksVector s @ new)) = chunks_content s @ data"
    using a(3) by (simp add: chunks_content_def)
  then show ?thesis
    using a(1,2) bchunks.toString_all [OF a(2), of mvt fs] bchunks.copyOut_content [OF a(2), of _ _ mvt fs] by auto
qed

lemma chunks_new_room: "0 < n \<Longrightarrow> n \<le> 1000 \<Longrightarrow> chunks_room chunks_new n"
  by (simp add: chunks_room_def chunks_needed_def chunks_new_def chunks_clear2_def chunks_clearChunks_def
      b_init_def b_base.defs chunks_content_def size_max_def)

theorem chunks_append_roundtrip_witness:
  "\<exists>s'. b_append (chunks_vt mem_vt (\<lambda>_. None)) chunks_new ''hello'' = (s', Some 5)
     \<and> b_toString (chunks_vt mem_vt (\<lambda>_. None)) s' size_max 0 = Some ''hello''"
  using chunks_append_roundtrip [OF chunks_new_inv(1) chunks_new_room, of "''hello''" mem_vt "\<lambda>_. None"]
  by (auto simp: chunks_new_inv(2))

text \<open>
  Abstractly the container is one byte string; a run of appends, truncations and clears changes it as
  the corresponding list operations do.
\<close>

datatype buffer_op = BAppend bytes | BTruncate nat | BClear

fun buffer_step :: "buffer_op \<Rightarrow> bytes \<Rightarrow> bytes" where
  "buffer_step (BAppend d) xs = xs @ d"
| "buffer_step (BTruncate n) xs = take n xs"
| "buffer_step BClear xs = []"

fun chunks_step :: "'y mmap_vt \<Rightarrow> ('y chunks \<Rightarrow> 'y b_base_scheme option) \<Rightarrow> buffer_op \<Rightarrow> 'y chunks \<Rightarrow> 'y chunks" where
  "chunks_step mvt fs (BAppend d) s = fst (b_append (chunks_vt mvt fs) s d)"
| "chunks_step mvt fs (BTruncate n) s = fst (b_truncate (chunks_vt mvt fs) s n)"
| "chunks_step mvt fs BClear s = fst (b_clear (chunks_vt mvt fs) s)"

fun run_has_room :: "'y mmap_vt \<Rightarrow> ('y chunks \<Rightarrow> 'y b_base_scheme option) \<Rightarrow> buffer_op list \<Rightarrow> 'y chunks \<Rightarrow> bool" where
  "run_has_room mvt fs [] s \<longleftrightarrow> True"
| "run_has_room mvt fs (op # ops) s \<longleftrightarrow>
     (case op of BAppend d \<Rightarrow> chunks_room s (length d) | _ \<Rightarrow> True) \<and> run_has_room mvt fs ops (chunks_step mvt fs op s)"

lemma chunks_step_refines:
  assumes "chunks_inv s" and "run_has_room mvt fs [op] s"
  shows "chunks_inv (chunks_step mvt fs op s) \<and> chunks_content (chunks_step mvt fs op s) = buffer_step op (chunks_content s)"
proof (cases op)
  case (BAppend d)
  show ?thesis
  proof (cases "d = []")
    case True
    then show ?thesis using assms BAppend by (auto simp: b_append_def Let_def)
  next
    case False
    have "chunks_room s (length d)" using assms(2) BAppend by simp
    from b_append_chunks [OF assms(1) this False, of mvt fs] obtain new where
      "b_append (chunks_vt mvt fs) s d = (with_vec s (m_chunksVector s @ new), Some (length d))"
      "chunks_inv (with_vec s (m_chunksVector s @ new))" "vec_content new = d" .
    then show ?thesis using BAppend by (simp add: chunks_content_def [of s])
  qed
next
  case (BTruncate n)
  show ?thesis
  proof (cases "n < length (chunks_content s)")
    case True
    from b_truncate_chunks [OF assms(1) True, of mvt fs] obtain vec where
      "b_truncate (chunks_vt mvt fs) s n = (with_vec s vec, Some n)"
      "vec_content vec = take n (chunks_content s)" "chunks_inv (with_vec s vec)" .
    then show ?thesis using BTruncate by simp
  next
    case False
    then show ?thesis
      using assms(1) BTruncate by (simp add: b_truncate_def bchunks.size_content Let_def)
  qed
next
  case BClear
  then show ?thesis using b_clear_chunks [of mvt fs s] by simp
qed

lemma chunks_run_refines:
  "chunks_inv s \<Longrightarrow> run_has_room mvt fs ops s \<Longrightarrow>
     chunks_inv (fold (chunks_step mvt fs) ops s)
     \<and> chunks_content (fold (chunks_step mvt fs) ops s) = fold buffer_step ops (chunks_content s)"
proof (induction ops arbitrary: s)
  case Nil
  then show ?case by simp
next
  case (Cons op ops)
  have "run_has_room mvt fs [op] s" "run_has_room mvt fs ops (chunks_step mvt fs op s)" using Cons.prems(2) by auto
  with chunks_step_refines [OF Cons.prems(1)] Cons.IH show ?case by auto
qed

text \<open>
  C1. Refinement. Any sequence of \<^verbatim>\<open>append\<close>, \<^verbatim>\<open>truncate\<close> and \<^verbatim>\<open>clear\<close> calls that stays within the
  limits leaves the chunk vector well formed, with \<^verbatim>\<open>size()\<close> and \<^verbatim>\<open>toString()\<close> equal to those of the
  byte string obtained by the same sequence of list operations.
\<close>

theorem chunks_refine_buffer:
  assumes "chunks_inv s" and "run_has_room mvt fs ops s"
  shows "chunks_inv (fold (chunks_step mvt fs) ops s)
    \<and> chunks_size mvt (fold (chunks_step mvt fs) ops s) = length (fold buffer_step ops (chunks_content s))
    \<and> b_toString (chunks_vt mvt fs) (fold (chunks_step mvt fs) ops s) size_max 0 =
        Some (fold buffer_step ops (chunks_content s))"
proof -
  note r = chunks_run_refines [OF assms]
  then have "chunks_data_inv (fold (chunks_step mvt fs) ops s)" by (simp add: chunks_inv_def)
  then show ?thesis using r bchunks.toString_all [of "fold (chunks_step mvt fs) ops s" mvt fs] by (simp add: chunks_size_inv)
qed

theorem chunks_refine_buffer_witness:
  "b_toString (chunks_vt mem_vt (\<lambda>_. None))
     (fold (chunks_step mem_vt (\<lambda>_. None)) [BAppend ''hello world'', BTruncate 5] chunks_new) size_max 0 = Some ''hello''"
proof -
  have "run_has_room mem_vt (\<lambda>_. None) [BAppend ''hello world'', BTruncate 5] chunks_new"
    by (simp add: chunks_new_room)
  then show ?thesis
    using chunks_refine_buffer [OF chunks_new_inv(1), of mem_vt "\<lambda>_. None" "[BAppend ''hello world'', BTruncate 5]"]
    by (simp add: chunks_new_inv(2) del: chunks_step.simps)
qed

text \<open>
  Search. A case-sensitive \<^verbatim>\<open>find\<close> over the rest of the container returns the first occurrence of
  the needle at or after the start position, also when it straddles chunks, and reports none exactly when
  there is none. The chunk offsets are not used, so this holds after any \<^verbatim>\<open>displace\<close> or \<^verbatim>\<open>prepend\<close> too.
\<close>

theorem chunks_find_first:
  assumes "chunks_data_inv s" and "needle \<noteq> []" and "length needle \<le> size_max - length (chunks_content s)"
    and "off \<le> length (chunks_content s)"
  shows "\<exists>r. b_find (chunks_vt mvt fs) s needle True off 0 = Inr r \<and> first_occurrence needle (chunks_content s) off r"
  by (rule bchunks_scan.find_first [OF assms])

text \<open>A container with two chunks, as two appends leave it.\<close>

definition two_chunks :: "b_mem_fields chunks" where
  "two_chunks = with_vec chunks_new
     [\<lparr>c_data = ''abc'', c_size = 3, c_offset = 0\<rparr>, \<lparr>c_data = ''def'', c_size = 3, c_offset = 3\<rparr>]"

lemma two_chunks_inv: "chunks_inv two_chunks" "chunks_data_inv two_chunks" "chunks_content two_chunks = ''abcdef''"
  by (simp_all add: two_chunks_def chunks_inv_def chunks_data_inv_def chunk_wf_def size_max_def chunks_new_def
      chunks_clear2_def chunks_clearChunks_def b_base.defs)

theorem chunks_find_first_witness:
  "b_find (chunks_vt mem_vt (\<lambda>_. None)) two_chunks ''cd'' True 0 0 = Inr (Some 2)"
proof -
  obtain r where "b_find (chunks_vt mem_vt (\<lambda>_. None)) two_chunks ''cd'' True 0 0 = Inr r"
    "first_occurrence ''cd'' ''abcdef'' 0 r"
    using chunks_find_first [OF two_chunks_inv(2), of "''cd''" 0 mem_vt "\<lambda>_. None"]
    by (auto simp: two_chunks_inv(3) size_max_def)
  moreover have "first_occurrence ''cd'' ''abcdef'' 0 (Some 2)"
    by (auto simp: first_occurrence_def occurs_at_def slice_def numeral_2_eq_2 less_Suc_eq)
  ultimately show ?thesis using first_occurrence_unique by blast
qed

text \<open>
  \<^verbatim>\<open>displace\<close> removes exactly the requested bytes from the front and keeps the data, the chunk sizes
  and the byte counter consistent.
\<close>

theorem chunks_displace_drops:
  assumes "chunks_data_inv s" and "n \<le> length (chunks_content s)"
  shows "\<exists>s'. b_displace (chunks_vt mvt fs) s n = (s', Some n) \<and> chunks_data_inv s'
    \<and> chunks_content s' = drop n (chunks_content s) \<and> chunks_size mvt s' = length (chunks_content s) - n"
proof -
  from b_displace_chunks [OF assms, of mvt fs] obtain vec where
    "b_displace (chunks_vt mvt fs) s n = (with_vec s vec, Some n)"
    "vec_content vec = drop n (chunks_content s)" "chunks_data_inv (with_vec s vec)" by metis
  then show ?thesis by (simp add: chunks_size_inv)
qed

theorem chunks_displace_drops_witness:
  "\<exists>s'. b_displace (chunks_vt mem_vt (\<lambda>_. None)) two_chunks 4 = (s', Some 4) \<and> chunks_content s' = ''ef''"
  using chunks_displace_drops [OF two_chunks_inv(2), of 4 mem_vt "\<lambda>_. None"] by (auto simp: two_chunks_inv(3))

text \<open>
  Stale offsets. \<^verbatim>\<open>recalcChunkOffsets\<close> never moves on from the first chunk. After a \<^verbatim>\<open>displace\<close> that
  leaves two chunks or more, no chunk contains position 0 any more: \<^verbatim>\<open>size()\<close> still counts the bytes, but
  \<^verbatim>\<open>toString()\<close> returns the empty string.
\<close>

theorem chunks_displace_stale:
  assumes "chunks_inv s" and "n \<le> length (chunks_content s)"
    and "length (m_chunksVector s) * length (chunks_content s) \<le> size_max"
    and "b_displace (chunks_vt mvt fs) s n = (s', r)" and "2 \<le> length (m_chunksVector s')"
  shows "chunks_size mvt s' = length (chunks_content s) - n \<and> 0 < chunks_size mvt s'
    \<and> b_toString (chunks_vt mvt fs) s' size_max 0 = Some []"
proof -
  have d: "chunks_data_inv s" using assms(1) by (simp add: chunks_inv_def)
  from b_displace_chunks [OF d assms(2), of mvt fs] assms(4) have
    s': "chunks_content s' = drop n (chunks_content s)" "chunks_data_inv s'" by (metis Pair_inject with_vec_simps(10))+
  have "2 \<le> length (chunks_content s')"
    using assms(5) s'(2) vec_length_le [of "m_chunksVector s'"] by (simp add: chunks_data_inv_def chunks_content_def)
  then have "chunks_content s' \<noteq> []" by auto
  then show ?thesis
    using b_toString_no_start [OF s'(2) _ b_displace_stale [OF assms]] s' by (simp add: chunks_size_inv)
qed

theorem chunks_displace_stale_witness:
  "b_toString (chunks_vt mem_vt (\<lambda>_. None)) (fst (b_displace (chunks_vt mem_vt (\<lambda>_. None)) two_chunks 1)) size_max 0 = Some []"
proof -
  let ?r = "b_displace (chunks_vt mem_vt (\<lambda>_. None)) two_chunks 1"
  have m: "length (m_chunksVector (fst ?r)) = 2"
    by (simp add: b_displace_def chunks_vt_def chunks_displace2_def chunks_size_def two_chunks_def
        chunks_displace_loop.simps b_setContainerBytes_def recalcChunkOffsets_def chunk_displace_def
        chunks_new_def chunks_clear2_def chunks_clearChunks_def b_base.defs b_init_def)
  show ?thesis
    using chunks_displace_stale [OF two_chunks_inv(1), of 1 mem_vt "\<lambda>_. None" "fst ?r" "snd ?r"] m
    by (simp add: two_chunks_inv(3) size_max_def) (simp add: two_chunks_def)
qed

text \<open>
  Prepending. \<^verbatim>\<open>prepend\<close> puts the chunks of its argument in front one at a time, so that data of at
  most one chunk comes first as intended, and longer data arrives with its chunks in reverse order.
\<close>

theorem chunks_prepend_content:
  assumes "chunks_data_inv s" and "chunks_room s (length data)" and "data \<noteq> []"
  shows "\<exists>s'. b_prepend (chunks_vt mvt fs) s data = (s', Some (length data)) \<and> chunks_data_inv s'
    \<and> (length data \<le> m_maxChunkSize s \<longrightarrow> chunks_content s' = data @ chunks_content s)
    \<and> (m_maxChunkSize s < length data \<and> length data \<le> 2 * m_maxChunkSize s \<longrightarrow>
         chunks_content s' = drop (m_maxChunkSize s) data @ take (m_maxChunkSize s) data @ chunks_content s)"
proof -
  from b_prepend_chunks [OF assms, of mvt fs] obtain s' where s':
    "b_prepend (chunks_vt mvt fs) s data = (s', Some (length data))" "chunks_data_inv s'"
    "chunks_content s' = prepend_order (m_maxChunkSize s) data @ chunks_content s" .
  have m: "0 < m_maxChunkSize s" using assms(2) by (simp add: chunks_room_def)
  have one: "prepend_order (m_maxChunkSize s) xs = xs" if "length xs \<le> m_maxChunkSize s" for xs
    using that m by (cases "xs = []")
      (simp_all add: prepend_order.simps [of _ xs] prepend_order.simps [of _ "[]"])
  have "prepend_order (m_maxChunkSize s) data = drop (m_maxChunkSize s) data @ take (m_maxChunkSize s) data"
    if "length data \<le> 2 * m_maxChunkSize s"
    using that m assms(3) one [of "drop (m_maxChunkSize s) data"] by (simp add: prepend_order.simps [of _ data])
  then show ?thesis using s' one by auto
qed

theorem chunks_prepend_content_witness:
  "\<exists>s'. b_prepend (chunks_vt mem_vt (\<lambda>_. None)) (setMaxChunkSize chunks_new 3) ''abcdef'' = (s', Some 6)
     \<and> chunks_content s' = ''defabc''"
proof -
  let ?s = "setMaxChunkSize chunks_new 3 :: b_mem_fields chunks"
  have "chunks_data_inv ?s" "chunks_content ?s = []"
    using chunks_new_inv by (auto simp: setMaxChunkSize_def chunks_inv_def chunks_data_inv_def chunks_content_def)
  moreover have "chunks_room ?s (length ''abcdef'')"
    by (simp add: chunks_room_def chunks_needed_def chunks_new_def chunks_clear2_def chunks_clearChunks_def
      b_init_def b_base.defs chunks_content_def size_max_def setMaxChunkSize_def)
  ultimately show ?thesis
    using chunks_prepend_content [of ?s "''abcdef''" mem_vt "\<lambda>_. None"] by (auto simp: setMaxChunkSize_def)
qed

text \<open>
  Streaming between containers. \<^verbatim>\<open>streamTo\<close> from one chunked container into another whose limits
  leave room delivers every byte in order, reports success and leaves the destination well formed and its
  status good.
\<close>

theorem chunks_stream_copy:
  assumes "chunks_data_inv s" and "chunks_content s \<noteq> []"
    and "chunks_fits d (map length (chunks_pieces (m_chunksVector s) 0 (length (chunks_content s))))"
  shows "\<exists>d'. b_streamTo (chunks_vt mvt fs) s (b_streamable (chunks_vt mvt' fs')) d = Inr (d', True)
    \<and> chunks_content d' = chunks_content d @ chunks_content s \<and> chunks_inv d'"
proof -
  from b_appendTo_chunks [OF assms, of mvt fs mvt' fs'] obtain d' where
    "b_appendTo (chunks_vt mvt fs) s (b_streamable (chunks_vt mvt' fs')) d size_max 0 = Inr (d', Some (length (chunks_content s)))"
    "chunks_content d' = chunks_content d @ chunks_content s" "succeed (writeStatus d')" "chunks_inv d'" .
  then show ?thesis by (simp add: b_streamTo_def b_streamable_def)
qed

definition small_chunks :: "b_mem_fields chunks" where
  "small_chunks = b_setMaxSize chunks_new 1000"

lemma small_chunks_fits:
  "sum_list ls \<le> 1000 \<Longrightarrow> sum_list (map (chunks_needed small_chunks) ls) \<le> 262144 \<Longrightarrow> chunks_fits small_chunks ls"
  using chunks_new_inv
  by (auto simp: chunks_fits_def small_chunks_def b_setMaxSize_def chunks_new_def chunks_clear2_def chunks_clearChunks_def
      b_init_def b_base.defs chunks_content_def size_max_def ws_init_def chunks_inv_def chunks_data_inv_def)

theorem chunks_stream_copy_witness:
  "\<exists>d'. b_streamTo (chunks_vt mem_vt (\<lambda>_. None)) two_chunks (b_streamable (chunks_vt mem_vt (\<lambda>_. None))) small_chunks = Inr (d', True)
     \<and> chunks_content d' = ''abcdef''"
proof -
  have "chunks_fits small_chunks (map length (chunks_pieces (m_chunksVector two_chunks) 0 (length ''abcdef'')))"
    by (rule small_chunks_fits)
      (simp_all add: two_chunks_def Let_def chunks_needed_def small_chunks_def chunks_new_def chunks_clear2_def
        chunks_clearChunks_def b_base.defs b_setMaxSize_def)
  moreover have "chunks_content small_chunks = []"
    using chunks_new_inv(2) by (simp add: small_chunks_def b_setMaxSize_def chunks_content_def)
  ultimately show ?thesis
    using chunks_stream_copy [OF two_chunks_inv(2), of small_chunks mem_vt "\<lambda>_. None" mem_vt "\<lambda>_. None"]
    by (auto simp: two_chunks_inv(3))
qed

end
