(* ===== verification/BRef.thy ===== *)
theory BRef
  imports BChunks
begin

text \<open>
  References into another container, \<^verbatim>\<open>B_Ref\<close> (\<^verbatim>\<open>src/Mantids30/Memory/b_ref.cpp\<close>): a window of
  the referenced container, given by an offset and a maximal number of bytes. The referenced container is
  reached through its table \<open>rvt\<close>.
\<close>

record 'm b_ref = b_base +
  referencedBC :: "'m option"
  referencedOffset :: nat
  referencedMaxBytes :: nat

type_synonym 'y reference = "'y b_base_scheme b_ref"

definition ref_clear2 :: "'y reference \<Rightarrow> 'y reference \<times> bool" where
  "ref_clear2 s = (if referencedBC s \<noteq> None then s\<lparr>referencedBC := None\<rparr> else s, True)"

definition ref_reference :: "'y b_base_scheme container_vt \<Rightarrow> 'y reference \<Rightarrow> 'y b_base_scheme \<Rightarrow> nat \<Rightarrow> nat \<Rightarrow> 'y reference \<times> bool" where
  "ref_reference rvt s bc offset maxBytes =
     (if offset > vt_size rvt bc then (s, False)
      else (s\<lparr>m_readOnly := True, referencedBC := Some bc, referencedOffset := offset, referencedMaxBytes := maxBytes\<rparr>, True))"

text \<open>The constructor leaves offset and length unset; they are not read before \<^verbatim>\<open>reference\<close>.\<close>

definition ref_new :: "'y b_base_scheme container_vt \<Rightarrow> 'y b_base_scheme option \<Rightarrow> nat \<Rightarrow> nat \<Rightarrow> 'y reference" where
  "ref_new rvt bc offset maxBytes =
     (let s = fst (ref_clear2 (b_base.extend (b_init\<lparr>m_storeMethod := BC_METHOD_BCREF\<rparr>)
                \<lparr>referencedBC = None, referencedOffset = 0, referencedMaxBytes = 0\<rparr>))
      in case bc of None \<Rightarrow> s | Some c \<Rightarrow> fst (ref_reference rvt s c offset maxBytes))"

definition ref_size :: "'y b_base_scheme container_vt \<Rightarrow> 'y reference \<Rightarrow> nat" where
  "ref_size rvt s =
     (case referencedBC s of
        None \<Rightarrow> 0
      | Some bc \<Rightarrow>
          let availableBytes = usub (vt_size rvt bc) (referencedOffset s)
          in if referencedMaxBytes s = size_max \<or> referencedMaxBytes s > availableBytes then availableBytes
             else referencedMaxBytes s)"

definition ref_findChar :: "'y b_base_scheme container_vt \<Rightarrow> 'y reference \<Rightarrow> char \<Rightarrow> nat \<Rightarrow> nat \<Rightarrow> bool \<Rightarrow> nat option result" where
  "ref_findChar rvt s c offset searchSpace caseSensitive0 =
     (case referencedBC s of
        None \<Rightarrow> Inr None
      | Some bc \<Rightarrow>
          let caseSensitive = (if caseSensitive0 \<and> \<not> is_alpha c then False else caseSensitive0)
          in vt_findChar rvt bc c (uadd (referencedOffset s) offset) searchSpace caseSensitive)"

definition ref_truncate2 :: "'y reference \<Rightarrow> nat \<Rightarrow> 'y reference \<times> nat option" where
  "ref_truncate2 s bytes = (s\<lparr>referencedMaxBytes := bytes\<rparr>, Some bytes)"

definition ref_append2 :: "'y b_base_scheme container_vt \<Rightarrow> 'y reference \<Rightarrow> bytes \<Rightarrow> bool \<Rightarrow> 'y reference \<times> nat option" where
  "ref_append2 rvt s buf prependMode =
     (case referencedBC s of
        None \<Rightarrow> (s, None)
      | Some bc \<Rightarrow>
          let r = (if prependMode then b_prepend rvt bc buf else b_append rvt bc buf)
          in (s\<lparr>referencedBC := Some (fst r)\<rparr>, snd r))"

definition ref_displace2 :: "'y b_base_scheme container_vt \<Rightarrow> 'y reference \<Rightarrow> nat \<Rightarrow> 'y reference \<times> nat option" where
  "ref_displace2 rvt s roBytesToDisplace =
     (case referencedBC s of
        None \<Rightarrow> (s, None)
      | Some bc \<Rightarrow>
          let bytesToDisplace = (if roBytesToDisplace > ref_size rvt s then ref_size rvt s else roBytesToDisplace);
              s1 = (if referencedMaxBytes s \<noteq> size_max
                    then s\<lparr>referencedMaxBytes := usub (referencedMaxBytes s) bytesToDisplace\<rparr> else s)
          in (s1\<lparr>referencedOffset := uadd (referencedOffset s1) bytesToDisplace\<rparr>, Some bytesToDisplace))"

definition ref_copyPlan2 :: "'y b_base_scheme container_vt \<Rightarrow> 'y reference \<Rightarrow> nat \<Rightarrow> nat \<Rightarrow> copy_plan" where
  "ref_copyPlan2 rvt s bytes offset =
     (case referencedBC s of
        None \<Rightarrow> PlanFailSet
      | Some bc \<Rightarrow>
          if offset > ref_size rvt s then PlanFailSet
          else b_appendPlan rvt bc (min bytes (ref_size rvt s - offset)) (uadd (referencedOffset s) offset))"

definition ref_copyToBuffer2 :: "'y b_base_scheme container_vt \<Rightarrow> 'y reference \<Rightarrow> nat \<Rightarrow> nat \<Rightarrow> bytes option" where
  "ref_copyToBuffer2 rvt s bytes offset =
     (case referencedBC s of
        None \<Rightarrow> None
      | Some bc \<Rightarrow>
          if offset > ref_size rvt s then None
          else b_copyOut rvt bc (min bytes (ref_size rvt s - offset)) (uadd (referencedOffset s) offset))"

definition ref_compare2 :: "'y b_base_scheme container_vt \<Rightarrow> 'y reference \<Rightarrow> bytes \<Rightarrow> bool \<Rightarrow> nat \<Rightarrow> bool" where
  "ref_compare2 rvt s buf caseSensitive offset =
     (case referencedBC s of
        None \<Rightarrow> False
      | Some bc \<Rightarrow>
          if offset > ref_size rvt s then False
          else b_compare rvt bc (take (min (length buf) (ref_size rvt s - offset)) buf) caseSensitive
                 (uadd (referencedOffset s) offset))"

definition ref_vt :: "'y b_base_scheme container_vt \<Rightarrow> 'y reference container_vt" where
  "ref_vt rvt =
     \<lparr>vt_size = ref_size rvt, vt_append2 = ref_append2 rvt, vt_displace2 = ref_displace2 rvt,
      vt_truncate2 = ref_truncate2, vt_clear2 = ref_clear2, vt_copyPlan2 = ref_copyPlan2 rvt,
      vt_copyToBuffer2 = ref_copyToBuffer2 rvt, vt_compare2 = ref_compare2 rvt, vt_findChar = ref_findChar rvt\<rparr>"

section \<open>A reference shows a window of its container\<close>

definition ref_content :: "('y b_base_scheme \<Rightarrow> bytes) \<Rightarrow> 'y reference \<Rightarrow> bytes" where
  "ref_content content s =
     (case referencedBC s of None \<Rightarrow> [] | Some bc \<Rightarrow> slice (referencedOffset s) (referencedMaxBytes s) (content bc))"

definition ref_inv :: "('y b_base_scheme \<Rightarrow> bytes) \<Rightarrow> ('y b_base_scheme \<Rightarrow> bool) \<Rightarrow> 'y reference \<Rightarrow> bool" where
  "ref_inv content invar s =
     (case referencedBC s of None \<Rightarrow> True | Some bc \<Rightarrow> invar bc \<and> referencedOffset s \<le> length (content bc))"

context sized_container
begin

lemma ref_size_content:
  assumes "ref_inv content invar r"
  shows "ref_size vt r = length (ref_content content r)" and "length (ref_content content r) \<le> size_max"
proof -
  show "length (ref_content content r) \<le> size_max"
  proof (cases "referencedBC r")
    case (Some bc)
    with assms content_bound [of bc] show ?thesis by (simp add: ref_inv_def ref_content_def)
  qed (simp add: ref_content_def)
  show "ref_size vt r = length (ref_content content r)"
  proof (cases "referencedBC r")
    case (Some bc)
    have "invar bc" "referencedOffset r \<le> length (content bc)" using assms Some by (simp_all add: ref_inv_def)
    with Some content_bound [of bc] show ?thesis
      by (simp add: ref_size_def ref_content_def size_content usub_exact Let_def)
  qed (simp add: ref_size_def ref_content_def)
qed

end

context buffer_container
begin

lemma ref_copyToBuffer2_content:
  assumes "ref_inv content invar r" and "0 < n" and "off + n \<le> length (ref_content content r)"
  shows "ref_copyToBuffer2 vt r n off = Some (slice off n (ref_content content r))"
proof (cases "referencedBC r")
  case None
  with assms show ?thesis by (simp add: ref_content_def)
next
  case (Some bc)
  have inv: "invar bc" using assms(1) Some by (simp add: ref_inv_def)
  have le: "referencedOffset r + (off + n) \<le> length (content bc)" "off + n \<le> referencedMaxBytes r"
    using assms(2,3) Some by (auto simp: ref_content_def)
  have "uadd (referencedOffset r) off = referencedOffset r + off"
    using le content_bound [OF inv] by (intro uadd_exact) simp
  moreover have "min n (ref_size vt r - off) = n" "\<not> off > ref_size vt r"
    using ref_size_content [OF assms(1)] assms(3) by simp_all
  moreover have "slice (referencedOffset r + off) n (content bc) = slice off n (ref_content content r)"
    using le Some by (simp add: ref_content_def slice_def drop_take min_def add.commute)
  ultimately show ?thesis
    using Some copyOut_content [OF inv, of "referencedOffset r + off" n] le
    by (simp add: ref_copyToBuffer2_def)
qed

end

interpretation bref: buffer_container "ref_vt (chunks_vt mvt fs)" "ref_content chunks_content" "ref_inv chunks_content chunks_inv"
  for mvt fs
proof (unfold_locales, goal_cases)
  case (1 r)
  then show ?case using bchunks.ref_size_content(1) by (simp add: ref_vt_def)
next
  case (2 r)
  then show ?case by (rule bchunks.ref_size_content(2))
next
  case (3 r n off)
  then show ?case using bchunks.ref_copyToBuffer2_content by (simp add: ref_vt_def)
qed

text \<open>Streaming a reference to the front of a container copies the window chunk by chunk.\<close>

lemma b_appendPlan_ref:
  assumes "ref_inv chunks_content chunks_inv r" and "referencedBC r = Some bc" and "referencedOffset r = 0"
    and "ref_content chunks_content r \<noteq> []"
  obtains pieces where "b_appendPlan (ref_vt (chunks_vt mvt fs)) r size_max 0 = PlanWrite pieces"
    and "concat pieces = ref_content chunks_content r" and "[] \<notin> set pieces"
proof -
  let ?v = "ref_content chunks_content r" and ?cvt = "chunks_vt mvt fs"
  note size = bchunks.ref_size_content(1) [OF assms(1), of mvt fs] bchunks.ref_size_content(2) [OF assms(1)]
  have v: "?v = take (length ?v) (chunks_content bc)" using assms(2,3) by (simp add: ref_content_def slice_def min_def)
  then have len: "0 < length ?v" "length ?v \<le> length (chunks_content bc)" using assms(4) by (simp, metis length_take min.cobounded1)
  have inv: "chunks_data_inv bc" using assms(1,2) by (simp add: ref_inv_def chunks_inv_def)
  note p = b_appendPlan_prefix [OF inv len]
  have "b_appendPlan (ref_vt ?cvt) r size_max 0 = b_appendPlan (ref_vt ?cvt) r (length ?v) 0"
    using size by (intro b_appendPlan_all) (simp_all add: ref_vt_def)
  also have "\<dots> = ref_copyPlan2 ?cvt r (length ?v) 0"
    using size len(1) assms(1)
    by (simp add: b_appendPlan_def b_requested_def ref_vt_def check_uint_overflow_sum_iff Let_def)
  also have "\<dots> = b_appendPlan ?cvt bc (length ?v) 0"
    using size assms(2,3) len(1) by (simp add: ref_copyPlan2_def uadd_exact)
  finally show thesis using that p v by metis
qed

text \<open>
  A \<^verbatim>\<open>B_Ref\<close> onto a chunked container reads as the window it was given: after a successful
  \<^verbatim>\<open>reference\<close> its size is that of the window, \<^verbatim>\<open>toString\<close> returns exactly the window's bytes, and
  \<^verbatim>\<open>displace\<close> moves the start of the window forward.
\<close>

theorem ref_window:
  assumes "chunks_inv bc" and "offset \<le> length (chunks_content bc)" and "maxBytes \<le> size_max"
    and "n \<le> length (slice offset maxBytes (chunks_content bc))"
  shows "\<exists>r. ref_reference (chunks_vt mvt fs) s bc offset maxBytes = (r, True)
    \<and> ref_size (chunks_vt mvt fs) r = length (slice offset maxBytes (chunks_content bc))
    \<and> b_toString (ref_vt (chunks_vt mvt fs)) r size_max 0 = Some (slice offset maxBytes (chunks_content bc))
    \<and> (\<exists>r'. b_displace (ref_vt (chunks_vt mvt fs)) r n = (r', Some n)
         \<and> b_toString (ref_vt (chunks_vt mvt fs)) r' size_max 0 = Some (drop n (slice offset maxBytes (chunks_content bc))))"
proof -
  let ?vt = "chunks_vt mvt fs" and ?w = "slice offset maxBytes (chunks_content bc)"
  define r where "r = s\<lparr>m_readOnly := True, referencedBC := Some bc, referencedOffset := offset, referencedMaxBytes := maxBytes\<rparr>"
  define r' where "r' = (if maxBytes \<noteq> size_max then r\<lparr>referencedMaxBytes := maxBytes - n\<rparr> else r)\<lparr>referencedOffset := offset + n\<rparr>"
  have inv: "ref_inv chunks_content chunks_inv r" using assms(1,2) by (simp add: ref_inv_def r_def)
  have cont: "ref_content chunks_content r = ?w" by (simp add: ref_content_def r_def)
  have ref: "ref_reference ?vt s bc offset maxBytes = (r, True)"
    using assms(1,2) by (simp add: ref_reference_def r_def bchunks.size_content)
  have size: "ref_size ?vt r = length ?w" using bchunks.ref_size_content(1) [OF inv] cont by simp
  have bnd: "length (chunks_content bc) \<le> size_max" using assms(1) by (rule bchunks.content_bound)
  have n: "n \<le> maxBytes" "offset + n \<le> length (chunks_content bc)" using assms(2,4) by auto
  have "b_displace (ref_vt ?vt) r n = (r', Some n)"
    using size assms(3,4) n bnd
    by (auto simp: b_displace_def ref_vt_def ref_displace2_def r'_def r_def size_arith Let_def)
  moreover have "ref_inv chunks_content chunks_inv r'" using assms(1) n by (simp add: ref_inv_def r'_def r_def)
  moreover have "ref_content chunks_content r' = drop n ?w"
  proof (cases "maxBytes = size_max")
    case True
    then have "slice (offset + n) maxBytes (chunks_content bc) = drop n ?w"
      using bnd by (simp add: slice_def drop_take add.commute)
    then show ?thesis using True by (simp add: ref_content_def r'_def r_def)
  next
    case False
    then show ?thesis by (simp add: ref_content_def r'_def r_def slice_def drop_take add.commute)
  qed
  ultimately show ?thesis
    using ref size bref.toString_all [of r mvt fs] bref.toString_all [of r' mvt fs] inv cont by auto
qed

theorem ref_window_witness:
  "\<exists>r. ref_reference (chunks_vt mem_vt (\<lambda>_. None)) (ref_new (chunks_vt mem_vt (\<lambda>_. None)) None 0 0) two_chunks 1 4 = (r, True)
     \<and> b_toString (ref_vt (chunks_vt mem_vt (\<lambda>_. None))) r size_max 0 = Some ''bcde''"
  using ref_window [OF two_chunks_inv(1), of 1 4 0 mem_vt "\<lambda>_. None" "ref_new (chunks_vt mem_vt (\<lambda>_. None)) None 0 0"]
  by (auto simp: two_chunks_inv(3) size_max_def slice_def)

end
