(* ===== verification/SubParser.thy ===== *)
theory SubParser
  imports BRef
begin

text \<open>
  The sub-parsers of the streaming parser (\<^verbatim>\<open>src/Mantids30/Memory/subparser.cpp\<close>): every one collects
  incoming bytes in a chunked buffer until its parse mode decides that an element is complete, shows the
  element through a reference, and calls the virtual function \<^verbatim>\<open>parse\<close>. That function belongs to the
  subclass: it is the argument \<open>parse\<close> of the definitions, and works on the extensible state.
  \<open>cvt\<close> is the table of \<^verbatim>\<open>B_Chunks\<close>.
\<close>

section \<open>State\<close>

datatype ParseStatus = PARSE_ERROR | PARSE_GET_MORE_DATA | PARSE_GOTO_NEXT_SUBPARSER

datatype ParseMode =
    PARSE_MODE_DELIMITER | PARSE_MODE_SIZE | PARSE_MODE_VALIDATOR | PARSE_MODE_CONNECTION_END
  | PARSE_MODE_DIRECT | PARSE_MODE_DIRECT_DELIMITER | PARSE_MODE_MULTIDELIMITER

type_synonym 'y chunks_fields = "('y b_base_scheme, unit) b_chunks_ext"

record 'y subparser =
  m_clientMode :: bool
  m_streamEnded :: bool
  m_subParserName :: string
  m_parsedBuffer :: "'y chunks_fields reference"
  m_unparsedBuffer :: "'y chunks"
  m_parseDelimiter :: bytes
  m_delimiterFound :: bytes
  m_parseMultiDelimiter :: "bytes list"
  m_parseMode :: ParseMode
  m_parseStatus :: ParseStatus

type_synonym 'y chunks_vt = "'y chunks container_vt"
type_synonym ('y, 'a) parse_fun = "('y, 'a) subparser_scheme \<Rightarrow> (('y, 'a) subparser_scheme \<times> ParseStatus) result"

definition subparser_init :: "'y chunks_vt \<Rightarrow> 'y subparser" where
  "subparser_init cvt =
     \<lparr>m_clientMode = True, m_streamEnded = False, m_subParserName = [],
      m_parsedBuffer = ref_new cvt None 0 0, m_unparsedBuffer = chunks_new,
      m_parseDelimiter = [CHR 0x0D, CHR 0x0A], m_delimiterFound = [], m_parseMultiDelimiter = [],
      m_parseMode = PARSE_MODE_DELIMITER, m_parseStatus = PARSE_GET_MORE_DATA\<rparr>"

definition initElemParser :: "('y, 'a) subparser_scheme \<Rightarrow> bool \<Rightarrow> ('y, 'a) subparser_scheme" where
  "initElemParser s clientMode = s\<lparr>m_clientMode := clientMode\<rparr>"

definition setParseStatus :: "('y, 'a) subparser_scheme \<Rightarrow> ParseStatus \<Rightarrow> ('y, 'a) subparser_scheme" where
  "setParseStatus s value = s\<lparr>m_parseStatus := value\<rparr>"

definition setParseDelimiter :: "('y, 'a) subparser_scheme \<Rightarrow> bytes \<Rightarrow> ('y, 'a) subparser_scheme" where
  "setParseDelimiter s value = s\<lparr>m_parseDelimiter := value\<rparr>"

definition setParseMultiDelimiter :: "('y, 'a) subparser_scheme \<Rightarrow> bytes list \<Rightarrow> ('y, 'a) subparser_scheme" where
  "setParseMultiDelimiter s value = s\<lparr>m_parseMultiDelimiter := value\<rparr>"

definition setParseDataTargetSize :: "('y, 'a) subparser_scheme \<Rightarrow> nat \<Rightarrow> ('y, 'a) subparser_scheme" where
  "setParseDataTargetSize s value = s\<lparr>m_unparsedBuffer := b_setMaxSize (m_unparsedBuffer s) value\<rparr>"

definition getUnparsedDataSize :: "'y chunks_vt \<Rightarrow> ('y, 'a) subparser_scheme \<Rightarrow> nat" where
  "getUnparsedDataSize cvt s = b_getSizeLeft cvt (m_unparsedBuffer s)"

definition setParseMode :: "('y, 'a) subparser_scheme \<Rightarrow> ParseMode \<Rightarrow> ('y, 'a) subparser_scheme" where
  "setParseMode s value =
     (if value = PARSE_MODE_DIRECT then setParseDataTargetSize s size_max else s)\<lparr>m_parseMode := value\<rparr>"

definition sp_clear :: "'y chunks_vt \<Rightarrow> ('y, 'a) subparser_scheme \<Rightarrow> ('y, 'a) subparser_scheme" where
  "sp_clear cvt s =
     s\<lparr>m_unparsedBuffer := fst (b_clear cvt (m_unparsedBuffer s)),
       m_parsedBuffer := fst (b_clear (ref_vt cvt) (m_parsedBuffer s))\<rparr>"

text \<open>
  The parsed buffer is a reference to the unparsed buffer of the same object: reading through the
  reference sees the present bytes of that buffer.
\<close>

definition getParsedBuffer :: "('y, 'a) subparser_scheme \<Rightarrow> 'y chunks_fields reference" where
  "getParsedBuffer s =
     (m_parsedBuffer s)\<lparr>referencedBC := map_option (\<lambda>_. m_unparsedBuffer s) (referencedBC (m_parsedBuffer s))\<rparr>"

definition sp_reference :: "'y chunks_vt \<Rightarrow> ('y, 'a) subparser_scheme \<Rightarrow> nat \<Rightarrow> nat \<Rightarrow> ('y, 'a) subparser_scheme" where
  "sp_reference cvt s offset maxBytes =
     s\<lparr>m_parsedBuffer := fst (ref_reference cvt (m_parsedBuffer s) (m_unparsedBuffer s) offset maxBytes)\<rparr>"

definition sp_clearUnparsed :: "'y chunks_vt \<Rightarrow> ('y, 'a) subparser_scheme \<Rightarrow> ('y, 'a) subparser_scheme" where
  "sp_clearUnparsed cvt s = s\<lparr>m_unparsedBuffer := fst (b_clear cvt (m_unparsedBuffer s))\<rparr>"

text \<open>\<^verbatim>\<open>setParseStatus(parse())\<close>, with an exception of \<^verbatim>\<open>parse\<close> passed on.\<close>

definition sp_parse :: "('y, 'a) parse_fun \<Rightarrow> ('y, 'a) subparser_scheme \<Rightarrow> ('y, 'a) subparser_scheme result" where
  "sp_parse parse s = (case parse s of Inl e \<Rightarrow> Inl e | Inr (s', st) \<Rightarrow> Inr (setParseStatus s' st))"

section \<open>Collecting\<close>

definition appendToUnparsedBuffer :: "'y chunks_vt \<Rightarrow> ('y, 'a) subparser_scheme \<Rightarrow> bytes \<Rightarrow> ('y, 'a) subparser_scheme \<times> nat option" where
  "appendToUnparsedBuffer cvt s buf =
     (let leftSize = b_getSizeLeft cvt (m_unparsedBuffer s)
      in if leftSize = 0 \<and> length buf > 0 then (s, None)
         else
           let count = min (length buf) leftSize
           in if count > 0 then
                (case b_append cvt (m_unparsedBuffer s) (take count buf) of
                   (u, r) \<Rightarrow>
                     if r = Some count then (s\<lparr>m_unparsedBuffer := u\<rparr>, Some count)
                     else (sp_clearUnparsed cvt (s\<lparr>m_unparsedBuffer := u\<rparr>), None))
              else (s, Some 0))"

section \<open>Parse modes\<close>

definition parseByMultiDelimiter :: "'y chunks_vt \<Rightarrow> ('y, 'a) parse_fun \<Rightarrow> ('y, 'a) subparser_scheme \<Rightarrow> bytes \<Rightarrow> (('y, 'a) subparser_scheme \<times> nat option) result" where
  "parseByMultiDelimiter cvt parse s buf =
     (let prevSize = vt_size cvt (m_unparsedBuffer s)
      in case appendToUnparsedBuffer cvt s buf of
           (s1, None) \<Rightarrow> Inr (s1, None)
         | (s1, Some bytesAppended) \<Rightarrow>
             let s2 = sp_reference cvt s1 0 size_max
             in case b_findAny cvt (m_unparsedBuffer s2) (m_parseMultiDelimiter s2) True 0 0 of
                  Inl e \<Rightarrow> Inl e
                | Inr (Some needlePos, found) \<Rightarrow>
                    (case sp_parse parse (sp_reference cvt (s2\<lparr>m_delimiterFound := found\<rparr>) 0 needlePos) of
                       Inl e \<Rightarrow> Inl e
                     | Inr s3 \<Rightarrow>
                         Inr (sp_clearUnparsed cvt s3, Some (usub (uadd needlePos (length (m_delimiterFound s3))) prevSize)))
                | Inr (None, found) \<Rightarrow>
                    if m_streamEnded s2 then
                      (case sp_parse parse (sp_reference cvt (s2\<lparr>m_delimiterFound := found\<rparr>) 0 size_max) of
                         Inl e \<Rightarrow> Inl e
                       | Inr s3 \<Rightarrow> Inr (sp_clearUnparsed cvt s3, Some bytesAppended))
                    else Inr (s2\<lparr>m_delimiterFound := found\<rparr>, Some bytesAppended))"

definition parseByDelimiter :: "'y chunks_vt \<Rightarrow> ('y, 'a) parse_fun \<Rightarrow> ('y, 'a) subparser_scheme \<Rightarrow> bytes \<Rightarrow> (('y, 'a) subparser_scheme \<times> nat option) result" where
  "parseByDelimiter cvt parse s buf =
     (let prevSize = vt_size cvt (m_unparsedBuffer s)
      in case appendToUnparsedBuffer cvt s buf of
           (s1, None) \<Rightarrow> Inr (s1, None)
         | (s1, Some bytesAppended) \<Rightarrow>
             let s2 = sp_reference cvt s1 0 size_max
             in case b_find cvt (m_unparsedBuffer s2) (m_parseDelimiter s2) True 0 0 of
                  Inl e \<Rightarrow> Inl e
                | Inr (Some needlePos) \<Rightarrow>
                    (case sp_parse parse (sp_reference cvt s2 0 needlePos) of
                       Inl e \<Rightarrow> Inl e
                     | Inr s3 \<Rightarrow>
                         Inr (sp_clearUnparsed cvt s3, Some (uadd (usub needlePos prevSize) (length (m_parseDelimiter s3)))))
                | Inr None \<Rightarrow>
                    if m_streamEnded s2 then
                      (case sp_parse parse (sp_reference cvt s2 0 size_max) of
                         Inl e \<Rightarrow> Inl e
                       | Inr s3 \<Rightarrow> Inr (sp_clearUnparsed cvt s3, Some bytesAppended))
                    else Inr (s2, Some bytesAppended))"

definition parseBySize :: "'y chunks_vt \<Rightarrow> ('y, 'a) parse_fun \<Rightarrow> ('y, 'a) subparser_scheme \<Rightarrow> bytes \<Rightarrow> (('y, 'a) subparser_scheme \<times> nat option) result" where
  "parseBySize cvt parse s buf =
     (if length buf = 0 then Inr (sp_clearUnparsed cvt (setParseStatus s PARSE_GOTO_NEXT_SUBPARSER), Some 0)
      else
        case appendToUnparsedBuffer cvt s buf of
          (s1, None) \<Rightarrow> Inr (s1, None)
        | (s1, Some bytesAppended) \<Rightarrow>
            if b_getSizeLeft cvt (m_unparsedBuffer s1) = 0 then
              (case sp_parse parse (sp_reference cvt s1 0 size_max) of
                 Inl e \<Rightarrow> Inl e
               | Inr s2 \<Rightarrow> Inr (sp_clearUnparsed cvt s2, Some bytesAppended))
            else Inr (s1, Some bytesAppended))"

definition parseByValidator :: "('y, 'a) subparser_scheme \<Rightarrow> bytes \<Rightarrow> (('y, 'a) subparser_scheme \<times> nat option) result" where
  "parseByValidator s buf = Inr (s, None)"

definition parseByConnectionEnd :: "'y chunks_vt \<Rightarrow> ('y, 'a) parse_fun \<Rightarrow> ('y, 'a) subparser_scheme \<Rightarrow> bytes \<Rightarrow> (('y, 'a) subparser_scheme \<times> nat option) result" where
  "parseByConnectionEnd cvt parse s buf =
     (case appendToUnparsedBuffer cvt s buf of
        (s1, None) \<Rightarrow> Inr (s1, None)
      | (s1, Some bytesAppended) \<Rightarrow>
          if length buf = 0 then
            (case sp_parse parse (sp_reference cvt s1 0 size_max) of
               Inl e \<Rightarrow> Inl e
             | Inr s2 \<Rightarrow> Inr (sp_clearUnparsed cvt s2, Some 0))
          else Inr (s1, Some bytesAppended))"

definition parseDirect :: "'y chunks_vt \<Rightarrow> ('y, 'a) parse_fun \<Rightarrow> ('y, 'a) subparser_scheme \<Rightarrow> bytes \<Rightarrow> (('y, 'a) subparser_scheme \<times> nat option) result" where
  "parseDirect cvt parse s buf =
     (case appendToUnparsedBuffer cvt s buf of
        (s1, None) \<Rightarrow> Inr (s1, None)
      | (s1, Some bytesAppended) \<Rightarrow>
          (case sp_parse parse (sp_reference cvt s1 0 size_max) of
             Inl e \<Rightarrow> Inl e
           | Inr s2 \<Rightarrow>
               let curBufSize = vt_size cvt (m_unparsedBuffer s2);
                   s3 = sp_clearUnparsed cvt s2
               in case b_reduceMaxSizeBy (m_unparsedBuffer s3) curBufSize of
                    Inl e \<Rightarrow> Inl e
                  | Inr u \<Rightarrow> Inr (s3\<lparr>m_unparsedBuffer := u\<rparr>, Some bytesAppended)))"

text \<open>
  \<^verbatim>\<open>getLastBytesInCommon\<close>: the longest suffix of the buffer that is a proper prefix of the boundary.
  The suffix is copied into fresh memory, whose contents \<open>heap n\<close> are compared if the copy fails.
\<close>

definition referenceLastBytes :: "'y chunks_vt \<Rightarrow> ('y, 'a) subparser_scheme \<Rightarrow> nat \<Rightarrow> 'y chunks_fields reference" where
  "referenceLastBytes cvt s bytes =
     fst (ref_reference cvt (ref_new cvt None 0 0) (m_unparsedBuffer s) (usub (vt_size cvt (m_unparsedBuffer s)) bytes) size_max)"

fun last_common_loop :: "'y chunks_vt \<Rightarrow> (nat \<Rightarrow> bytes) \<Rightarrow> ('y, 'a) subparser_scheme \<Rightarrow> bytes \<Rightarrow> nat \<Rightarrow> nat" where
  "last_common_loop cvt heap s boundary 0 = 0"
| "last_common_loop cvt heap s boundary (Suc v) =
     (let ref = referenceLastBytes cvt s (Suc v);
          n = ref_size cvt ref;
          toCmp = (case b_copyOut (ref_vt cvt) ref n 0 of Some bs \<Rightarrow> bs | None \<Rightarrow> heap n)
      in if toCmp = take n boundary then Suc v else last_common_loop cvt heap s boundary v)"

definition getLastBytesInCommon :: "'y chunks_vt \<Rightarrow> (nat \<Rightarrow> bytes) \<Rightarrow> ('y, 'a) subparser_scheme \<Rightarrow> bytes \<Rightarrow> nat" where
  "getLastBytesInCommon cvt heap s boundary =
     last_common_loop cvt heap s boundary (min (vt_size cvt (m_unparsedBuffer s)) (usub (length boundary) 1))"

definition parseDirectDelimiter :: "'y chunks_vt \<Rightarrow> (nat \<Rightarrow> bytes) \<Rightarrow> ('y, 'a) parse_fun \<Rightarrow> ('y, 'a) subparser_scheme \<Rightarrow> bytes \<Rightarrow> (('y, 'a) subparser_scheme \<times> nat option) result" where
  "parseDirectDelimiter cvt heap parse s0 buf =
     (let prevSize = vt_size cvt (m_unparsedBuffer s0);
          s = s0\<lparr>m_delimiterFound := []\<rparr>
      in case appendToUnparsedBuffer cvt s buf of
           (s1, None) \<Rightarrow> Inr (s1, None)
         | (s1, Some bytesAppended) \<Rightarrow>
             (case b_find cvt (m_unparsedBuffer s1) (m_parseDelimiter s1) True 0 0 of
                Inl e \<Rightarrow> Inl e
              | Inr None \<Rightarrow>
                  let bytesOfPossibleDelim = getLastBytesInCommon cvt heap s1 (m_parseDelimiter s1)
                  in if bytesOfPossibleDelim = 0 then
                       (case sp_parse parse (sp_reference cvt s1 0 size_max) of
                          Inl e \<Rightarrow> Inl e
                        | Inr s2 \<Rightarrow> Inr (sp_clearUnparsed cvt s2, Some bytesAppended))
                     else
                       (case sp_parse parse
                               (sp_reference cvt s1 0 (usub (vt_size cvt (m_unparsedBuffer s1)) bytesOfPossibleDelim)) of
                          Inl e \<Rightarrow> Inl e
                        | Inr s2 \<Rightarrow>
                            Inr (s2\<lparr>m_unparsedBuffer := fst (b_displace cvt (m_unparsedBuffer s2)
                                       (usub (vt_size cvt (m_unparsedBuffer s2)) bytesOfPossibleDelim))\<rparr>,
                                 Some bytesAppended))
              | Inr (Some delimPos) \<Rightarrow>
                  let s2 = s1\<lparr>m_delimiterFound := m_parseDelimiter s1\<rparr>;
                      s3 = (if delimPos = 0 then sp_reference cvt (sp_clearUnparsed cvt s2) 0 size_max
                            else sp_reference cvt s2 0 delimPos)
                  in (case sp_parse parse s3 of
                        Inl e \<Rightarrow> Inl e
                      | Inr s4 \<Rightarrow>
                          Inr (sp_clearUnparsed cvt s4,
                               Some (uadd (usub delimPos prevSize) (length (m_parseDelimiter s4)))))))"

definition writeIntoParser :: "'y chunks_vt \<Rightarrow> (nat \<Rightarrow> bytes) \<Rightarrow> ('y, 'a) parse_fun \<Rightarrow> ('y, 'a) subparser_scheme \<Rightarrow> bytes \<Rightarrow> (('y, 'a) subparser_scheme \<times> nat option) result" where
  "writeIntoParser cvt heap parse s0 buf =
     (let s = (if length buf = 0 then s0\<lparr>m_streamEnded := True\<rparr> else s0)
      in case m_parseMode s of
           PARSE_MODE_DELIMITER \<Rightarrow> parseByDelimiter cvt parse s buf
         | PARSE_MODE_SIZE \<Rightarrow> parseBySize cvt parse s buf
         | PARSE_MODE_VALIDATOR \<Rightarrow> parseByValidator s buf
         | PARSE_MODE_DIRECT_DELIMITER \<Rightarrow> parseDirectDelimiter cvt heap parse s buf
         | PARSE_MODE_CONNECTION_END \<Rightarrow> parseByConnectionEnd cvt parse s buf
         | PARSE_MODE_MULTIDELIMITER \<Rightarrow> parseByMultiDelimiter cvt parse s buf
         | PARSE_MODE_DIRECT \<Rightarrow> parseDirect cvt parse s buf)"

section \<open>First occurrence, computed\<close>

definition first_pos :: "bytes \<Rightarrow> bytes \<Rightarrow> nat option" where
  "first_pos needle xs = find_index (occurs_at needle xs) [0..<Suc (length xs)]"

lemma first_pos_correct: "first_occurrence needle xs 0 (first_pos needle xs)"
proof (cases "first_pos needle xs")
  case None
  then have "\<forall>i\<in>{0..<Suc (length xs)}. \<not> occurs_at needle xs i"
    by (simp add: first_pos_def find_index_None_iff del: upt_Suc)
  moreover have "\<not> occurs_at needle xs i" if "length xs < i" for i using that by (simp add: occurs_at_def)
  ultimately have "\<not> occurs_at needle xs i" for i
    by (metis atLeastLessThan_iff le0 less_Suc_eq_le not_le)
  then show ?thesis using None by (simp add: first_occurrence_def)
next
  case (Some p)
  then have p: "p < Suc (length xs)" "occurs_at needle xs ([0..<Suc (length xs)] ! p)"
    "\<forall>j<p. \<not> occurs_at needle xs ([0..<Suc (length xs)] ! j)"
    using find_index_SomeD [of "occurs_at needle xs" "[0..<Suc (length xs)]" p] unfolding first_pos_def by auto
  then have "\<forall>j<p. \<not> occurs_at needle xs j" by (metis less_trans nth_upt plus_nat.add_0)
  then show ?thesis using Some p(1,2) nth_upt [of 0 p "Suc (length xs)"] by (simp add: first_occurrence_def del: upt_Suc)
qed

lemma first_pos_iff: "first_pos needle xs = r \<longleftrightarrow> first_occurrence needle xs 0 r"
  using first_pos_correct first_occurrence_unique by blast

lemma first_pos_SomeD:
  "first_pos needle xs = Some p \<Longrightarrow> p + length needle \<le> length xs \<and> occurs_at needle xs p"
  by (auto simp: first_pos_iff first_occurrence_def occurs_at_def)

lemma occurs_at_append: "p + length needle \<le> length xs \<Longrightarrow> occurs_at needle (xs @ ys) p \<longleftrightarrow> occurs_at needle xs p"
  by (simp add: occurs_at_def slice_def)

text \<open>A first occurrence in extended data ends inside the extension if there was none before.\<close>

lemma first_pos_new:
  assumes "first_pos needle xs = None" and "first_pos needle (xs @ ys) = Some p"
  shows "length xs < p + length needle"
proof (rule ccontr)
  assume "\<not> length xs < p + length needle"
  then have "occurs_at needle xs p" using first_pos_SomeD [OF assms(2)] by (simp add: occurs_at_append)
  then show False using assms(1) by (simp add: first_pos_iff first_occurrence_def)
qed

section \<open>The collecting buffer\<close>

text \<open>
  The buffers of the element parsers: in memory, writable, with a size limit that the chunk limit can
  hold even if every chunk has one byte.
\<close>

definition sp_ok :: "'y chunks \<Rightarrow> bool" where
  "sp_ok u \<longleftrightarrow> chunks_inv u \<and> \<not> m_readOnly u \<and> 0 < m_maxChunkSize u
     \<and> m_maxSizeInMemoryBeforeMovingToDisk u = 0 \<and> m_maxSize u \<le> m_maxChunks u \<and> m_maxChunks u = 262144
     \<and> length (chunks_content u) \<le> m_maxSize u"

abbreviation sp_content :: "('y, 'a) subparser_scheme \<Rightarrow> bytes" where
  "sp_content s \<equiv> chunks_content (m_unparsedBuffer s)"

text \<open>What \<^verbatim>\<open>parse\<close> reads with \<^verbatim>\<open>getParsedBuffer()->toStringEx()\<close>.\<close>

definition sp_view :: "'y chunks_vt \<Rightarrow> ('y, 'a) subparser_scheme \<Rightarrow> bytes" where
  "sp_view cvt s = b_toStringEx (ref_vt cvt) (getParsedBuffer s) size_max 0"

lemma sp_ok_room:
  assumes "sp_ok u" and "n + length (chunks_content u) \<le> m_maxSize u"
  shows "chunks_room u n"
proof -
  have "length (m_chunksVector u) \<le> length (chunks_content u)"
    using assms(1) vec_length_le [of "m_chunksVector u"]
    by (simp add: sp_ok_def chunks_inv_def chunks_data_inv_def chunks_content_def)
  then show ?thesis
    using assms chunks_needed_le [of u n] by (auto simp: sp_ok_def chunks_room_def size_max_def)
qed

lemma sp_ok_with_vec:
  "sp_ok u \<Longrightarrow> chunks_inv (with_vec u vec) \<Longrightarrow> length (vec_content vec) \<le> m_maxSize u \<Longrightarrow> sp_ok (with_vec u vec)"
  by (simp add: sp_ok_def)

lemma sp_ok_size: "sp_ok u \<Longrightarrow> vt_size (chunks_vt mvt fs) u = length (chunks_content u)"
  by (simp add: sp_ok_def bchunks.size_content)

lemma appendToUnparsed_spec:
  assumes "sp_ok (m_unparsedBuffer s)" and "k = min (length buf) (m_maxSize (m_unparsedBuffer s) - length (sp_content s))"
    and "k = 0 \<longrightarrow> buf = []"
  obtains u where "appendToUnparsedBuffer (chunks_vt mvt fs) s buf = (s\<lparr>m_unparsedBuffer := u\<rparr>, Some k)"
    "sp_ok u" "chunks_content u = sp_content s @ take k buf" "m_maxSize u = m_maxSize (m_unparsedBuffer s)"
proof -
  let ?u = "m_unparsedBuffer s"
  have len: "length (chunks_content ?u) \<le> m_maxSize ?u" and inv: "chunks_inv ?u" using assms(1) by (simp_all add: sp_ok_def)
  have left: "b_getSizeLeft (chunks_vt mvt fs) ?u = m_maxSize ?u - length (chunks_content ?u)"
    using len by (simp add: b_getSizeLeft_def sp_ok_size [OF assms(1)])
  show thesis
  proof (cases "buf = []")
    case True
    then have "k = 0" using assms(2) by simp
    moreover have "appendToUnparsedBuffer (chunks_vt mvt fs) s buf = (s, Some 0)"
      using True by (simp add: appendToUnparsedBuffer_def Let_def)
    ultimately show thesis using that [of ?u] assms(1) by simp
  next
    case False
    then have "0 < k" using assms(3) by blast
    moreover have "k \<le> length buf" "k \<le> m_maxSize ?u - length (chunks_content ?u)" unfolding assms(2) by simp_all
    ultimately have k: "0 < k" "k \<le> length buf" "k + length (chunks_content ?u) \<le> m_maxSize ?u" using len by linarith+
    have len: "length (take k buf) = k" using k(2) by simp
    have room: "chunks_room ?u (length (take k buf))" using sp_ok_room [OF assms(1) k(3)] by (simp only: len)
    have ne: "take k buf \<noteq> []" using len k(1) by auto
    obtain new where
      a: "b_append (chunks_vt mvt fs) ?u (take k buf) = (with_vec ?u (m_chunksVector ?u @ new), Some k)"
      "chunks_inv (with_vec ?u (m_chunksVector ?u @ new))" "vec_content new = take k buf"
      using b_append_chunks [OF inv room ne, of mvt fs] by (metis len)
    have "appendToUnparsedBuffer (chunks_vt mvt fs) s buf = (s\<lparr>m_unparsedBuffer := with_vec ?u (m_chunksVector ?u @ new)\<rparr>, Some k)"
      using a(1) k left assms(2) by (auto simp: appendToUnparsedBuffer_def Let_def)
    moreover have "sp_ok (with_vec ?u (m_chunksVector ?u @ new))"
      using a k by (intro sp_ok_with_vec [OF assms(1)]) (auto simp: chunks_content_def)
    ultimately show thesis using that a(3) by (simp add: chunks_content_def)
  qed
qed

lemma appendToUnparsed_full:
  assumes "sp_ok (m_unparsedBuffer s)" and "length (sp_content s) = m_maxSize (m_unparsedBuffer s)" and "buf \<noteq> []"
  shows "appendToUnparsedBuffer (chunks_vt mvt fs) s buf = (s, None)"
  using assms by (simp add: appendToUnparsedBuffer_def b_getSizeLeft_def sp_ok_size)

lemma sp_view_reference:
  assumes "sp_ok (m_unparsedBuffer s)"
  shows "sp_view (chunks_vt mvt fs) (sp_reference (chunks_vt mvt fs) s 0 n) = take n (sp_content s)"
proof -
  let ?r = "getParsedBuffer (sp_reference (chunks_vt mvt fs) s 0 n)"
  have "ref_inv chunks_content chunks_inv ?r" "ref_content chunks_content ?r = take n (sp_content s)"
    using assms by (simp_all add: sp_ok_def getParsedBuffer_def sp_reference_def ref_reference_def ref_inv_def ref_content_def)
  then show ?thesis using bref.toString_all [of ?r mvt fs] by (simp add: sp_view_def b_toStringEx_def)
qed

lemma sp_view_all:
  assumes "sp_ok (m_unparsedBuffer s)"
  shows "sp_view (chunks_vt mvt fs) (sp_reference (chunks_vt mvt fs) s 0 size_max) = sp_content s"
proof -
  have "length (sp_content s) \<le> size_max" using assms bchunks.content_bound by (auto simp: sp_ok_def)
  then show ?thesis using sp_view_reference [OF assms, of mvt fs size_max] by simp
qed

lemma sp_reference_simps [simp]:
  "m_unparsedBuffer (sp_reference cvt s off n) = m_unparsedBuffer s"
  "m_parseDelimiter (sp_reference cvt s off n) = m_parseDelimiter s"
  "m_parseMultiDelimiter (sp_reference cvt s off n) = m_parseMultiDelimiter s"
  "m_streamEnded (sp_reference cvt s off n) = m_streamEnded s"
  "m_parseMode (sp_reference cvt s off n) = m_parseMode s"
  "m_parseStatus (sp_reference cvt s off n) = m_parseStatus s"
  "subparser.more (sp_reference cvt s off n) = subparser.more s"
  by (simp_all add: sp_reference_def)

lemma sp_find:
  assumes "sp_ok u" and "d \<noteq> []" and "length d < 2 ^ 32"
  shows "b_find (chunks_vt mvt fs) u d True 0 0 = Inr (first_pos d (chunks_content u))"
proof -
  have "chunks_data_inv u" "length d \<le> size_max - length (chunks_content u)"
    using assms(1,3) by (auto simp: sp_ok_def chunks_inv_def size_max_def)
  from bchunks_scan.find_first [OF this(1) assms(2) this(2), of 0 mvt fs] show ?thesis
    using first_pos_iff by (metis le0)
qed

lemma sp_ok_clear:
  "sp_ok u \<Longrightarrow> sp_ok (fst (b_clear (chunks_vt mvt fs) u)) \<and> chunks_content (fst (b_clear (chunks_vt mvt fs) u)) = []
     \<and> m_maxSize (fst (b_clear (chunks_vt mvt fs) u)) = m_maxSize u"
  using b_clear_chunks [of mvt fs u]
  by (auto simp: sp_ok_def b_clear_def b_clear0_def chunks_vt_def chunks_clear2_def chunks_clearChunks_def)

lemma first_pos_char: "c \<notin> set l \<Longrightarrow> first_pos [c] (l @ c # r) = Some (length l)"
  unfolding first_pos_iff first_occurrence_def
  by (auto simp: occurs_at_def slice_def take_Suc_conv_app_nth nth_append)

lemma first_pos_char_None: "first_pos [c] xs = None \<longleftrightarrow> c \<notin> set xs"
proof
  show "first_pos [c] xs = None \<Longrightarrow> c \<notin> set xs"
    by (metis first_pos_char option.distinct(1) split_list_first)
next
  assume "c \<notin> set xs"
  moreover have "c \<in> set xs" if "occurs_at [c] xs i" for i
    using occurs_at_hd [OF that] by (auto simp: in_set_conv_nth)
  ultimately show "first_pos [c] xs = None" by (auto simp: first_pos_iff first_occurrence_def)
qed

section \<open>Delimiter mode\<close>

text \<open>
  What a write does to the collected bytes \<open>u\<close>: refused, collected, or an element for \<^verbatim>\<open>parse\<close> with the
  number of bytes taken from the input.
\<close>

datatype feed = FeedFull | FeedMore bytes | FeedElement bytes nat

definition delim_feed :: "(bytes \<Rightarrow> (nat \<times> bytes) option) \<Rightarrow> nat \<Rightarrow> bool \<Rightarrow> bytes \<Rightarrow> bytes \<Rightarrow> feed" where
  "delim_feed look cap ended u buf =
     (if cap \<le> length u \<and> buf \<noteq> [] then FeedFull
      else
        let k = min (length buf) (cap - length u); w = u @ take k buf
        in case look w of
             Some (p, d) \<Rightarrow> FeedElement (take p w) (p + length d - length u)
           | None \<Rightarrow> if ended then FeedElement w k else FeedMore w)"

text \<open>The position of a delimiter: of one delimiter, or of the first of a list that occurs at all.\<close>

definition look_one :: "bytes \<Rightarrow> bytes \<Rightarrow> (nat \<times> bytes) option" where
  "look_one d w = map_option (\<lambda>p. (p, d)) (first_pos d w)"

fun look_any :: "bytes list \<Rightarrow> bytes \<Rightarrow> (nat \<times> bytes) option" where
  "look_any [] w = None"
| "look_any (d # ds) w = (case first_pos d w of Some p \<Rightarrow> Some (p, d) | None \<Rightarrow> look_any ds w)"

lemma look_any_SomeD:
  "look_any ds w = Some (p, d) \<Longrightarrow> d \<in> set ds \<and> first_pos d w = Some p"
  by (induction ds) (auto split: option.splits)

lemma look_any_None: "look_any ds w = None \<longleftrightarrow> (\<forall>d\<in>set ds. first_pos d w = None)"
  by (induction ds) (auto split: option.splits)

lemma look_any_single: "look_any [d] = look_one d"
  by (rule ext) (simp add: look_one_def split: option.splits)

text \<open>A delimiter found in extended data ends inside the extension if none was there before.\<close>

lemma look_any_new:
  assumes "look_any ds u = None" and "look_any ds (u @ x) = Some (p, d)"
  shows "length u < p + length d" and "p + length d \<le> length (u @ x)"
  using look_any_SomeD [OF assms(2)] first_pos_new [of d u x p] first_pos_SomeD [of d "u @ x" p] assms(1)
  by (auto simp: look_any_None)

text \<open>The element is parsed, the buffer cleared, and \<open>n\<close> bytes are reported as taken.\<close>

definition sp_element :: "'y chunks_vt \<Rightarrow> ('y, 'a) parse_fun \<Rightarrow> ('y, 'a) subparser_scheme \<Rightarrow> nat \<Rightarrow> (('y, 'a) subparser_scheme \<times> nat option) result" where
  "sp_element cvt parse s n = (case sp_parse parse s of Inl e \<Rightarrow> Inl e | Inr s' \<Rightarrow> Inr (sp_clearUnparsed cvt s', Some n))"

definition keeps_delimiter :: "('y, 'a) parse_fun \<Rightarrow> bool" where
  "keeps_delimiter parse \<longleftrightarrow> (\<forall>s s' st. parse s = Inr (s', st) \<longrightarrow> m_parseDelimiter s' = m_parseDelimiter s)"

lemma sp_parse_delimiter:
  "keeps_delimiter parse \<Longrightarrow> sp_parse parse s = Inr s' \<Longrightarrow> m_parseDelimiter s' = m_parseDelimiter s"
  by (auto simp: keeps_delimiter_def sp_parse_def setParseStatus_def split: sum.splits)

text \<open>A state that differs only in its buffers and found delimiter, with a good collecting buffer.\<close>

definition sp_same :: "('y, 'a) subparser_scheme \<Rightarrow> ('y, 'a) subparser_scheme \<Rightarrow> bool" where
  "sp_same s s' \<longleftrightarrow> sp_ok (m_unparsedBuffer s') \<and> m_maxSize (m_unparsedBuffer s') = m_maxSize (m_unparsedBuffer s)
     \<and> m_parseDelimiter s' = m_parseDelimiter s \<and> m_parseMultiDelimiter s' = m_parseMultiDelimiter s
     \<and> m_parseMode s' = m_parseMode s \<and> m_streamEnded s' = m_streamEnded s \<and> m_parseStatus s' = m_parseStatus s
     \<and> subparser.more s' = subparser.more s"

definition feed_simulates :: "'y chunks_vt \<Rightarrow> ('y, 'a) parse_fun \<Rightarrow> ('y, 'a) subparser_scheme \<Rightarrow> feed \<Rightarrow> (('y, 'a) subparser_scheme \<times> nat option) result \<Rightarrow> bool" where
  "feed_simulates cvt parse s f r =
     (case f of
        FeedFull \<Rightarrow> r = Inr (s, None)
      | FeedMore w \<Rightarrow> \<exists>s'. r = Inr (s', Some (length w - length (sp_content s))) \<and> sp_same s s' \<and> sp_content s' = w
      | FeedElement v n \<Rightarrow> \<exists>s1. sp_view cvt s1 = v \<and> sp_same s s1 \<and> r = sp_element cvt parse s1 n)"

lemma delimiter_count:
  assumes "u + k \<le> m" and "m < 2 ^ 32" and "u < p + d" and "p + d \<le> u + k"
  shows "uadd (usub p u) d = p + d - u"
  using assms by (intro uadd_usub_exact) (auto simp: size_max_def)

lemma delim_feed_bound:
  assumes "look_any ds u = None"
  shows "delim_feed (look_any ds) cap ended u buf = FeedElement v n \<Longrightarrow> n \<le> length buf"
    and "delim_feed (look_any ds) cap ended u buf = FeedMore w \<Longrightarrow> length w - length u \<le> length buf"
proof -
  let ?k = "min (length buf) (cap - length u)"
  have "p + length d - length u \<le> length buf" if "look_any ds (u @ take ?k buf) = Some (p, d)" for p d
    using look_any_new(2) [OF assms that] by simp
  then show "delim_feed (look_any ds) cap ended u buf = FeedElement v n \<Longrightarrow> n \<le> length buf"
    by (auto simp: delim_feed_def Let_def split: if_splits option.splits)
  show "delim_feed (look_any ds) cap ended u buf = FeedMore w \<Longrightarrow> length w - length u \<le> length buf"
    by (auto simp: delim_feed_def Let_def split: if_splits option.splits)
qed

lemma feed_simulates_count:
  "feed_simulates cvt parse s f r \<Longrightarrow> r = Inr (s', Some n) \<Longrightarrow>
     (\<exists>v. f = FeedElement v n) \<or> (\<exists>w. f = FeedMore w \<and> n = length w - length (sp_content s))"
proof (cases f)
  case (FeedElement v m)
  assume "feed_simulates cvt parse s f r" "r = Inr (s', Some n)"
  then obtain s1 where "sp_element cvt parse s1 m = Inr (s', Some n)" using FeedElement by (auto simp: feed_simulates_def)
  then show ?thesis using FeedElement by (cases "sp_parse parse s1") (auto simp: sp_element_def)
qed (auto simp: feed_simulates_def)

lemma delim_feed_split:
  assumes "look_any ds (u @ b1) = None" and "length u + length b1 \<le> cap" and "look_any ds u = None"
  shows "delim_feed (look_any ds) cap False u b1 = FeedMore (u @ b1)"
    and "delim_feed (look_any ds) cap False u (b1 @ b2) = FeedElement v n \<Longrightarrow>
      delim_feed (look_any ds) cap False (u @ b1) b2 = FeedElement v (n - length b1) \<and> length b1 < n"
proof -
  have k: "min (length b1) (cap - length u) = length b1" using assms(2) by simp
  then show "delim_feed (look_any ds) cap False u b1 = FeedMore (u @ b1)"
    using assms(1,2) by (cases b1) (auto simp: delim_feed_def k Let_def)
  assume e: "delim_feed (look_any ds) cap False u (b1 @ b2) = FeedElement v n"
  let ?k = "min (length b2) (cap - length (u @ b1))"
  have w: "u @ take (min (length (b1 @ b2)) (cap - length u)) (b1 @ b2) = (u @ b1) @ take ?k b2"
  proof -
    have "min (length (b1 @ b2)) (cap - length u) = length b1 + ?k" using assms(2) unfolding length_append by linarith
    then show ?thesis by simp
  qed
  obtain p d where l: "look_any ds ((u @ b1) @ take ?k b2) = Some (p, d)" "v = take p ((u @ b1) @ take ?k b2)"
    "n = p + length d - length u"
    using e unfolding delim_feed_def w Let_def by (auto split: if_splits option.splits)
  note new = look_any_new [OF assms(1) l(1)]
  have "\<not> (cap \<le> length (u @ b1) \<and> b2 \<noteq> [])" using new by auto
  then show "delim_feed (look_any ds) cap False (u @ b1) b2 = FeedElement v (n - length b1) \<and> length b1 < n"
    using l new by (auto simp: delim_feed_def Let_def)
qed

lemma parseByDelimiter_simulates:
  assumes ok: "sp_ok (m_unparsedBuffer s)" and d: "m_parseDelimiter s \<noteq> []" "length (m_parseDelimiter s) < 2 ^ 32"
    and kd: "keeps_delimiter parse" and none: "first_pos (m_parseDelimiter s) (sp_content s) = None"
  shows "feed_simulates (chunks_vt mvt fs) parse s
     (delim_feed (look_any [m_parseDelimiter s]) (m_maxSize (m_unparsedBuffer s)) (m_streamEnded s) (sp_content s) buf)
     (parseByDelimiter (chunks_vt mvt fs) parse s buf)"
proof -
  let ?cvt = "chunks_vt mvt fs" and ?d = "m_parseDelimiter s" and ?u = "sp_content s" and ?m = "m_maxSize (m_unparsedBuffer s)"
  have cap: "length ?u \<le> ?m" "?m < 2 ^ 32" using ok by (simp_all add: sp_ok_def)
  show ?thesis
  proof (cases "?m \<le> length ?u \<and> buf \<noteq> []")
    case True
    then have "appendToUnparsedBuffer ?cvt s buf = (s, None)" using cap by (intro appendToUnparsed_full [OF ok]) auto
    then show ?thesis using True by (simp add: feed_simulates_def delim_feed_def parseByDelimiter_def)
  next
    case False
    define k where "k = min (length buf) (?m - length ?u)"
    have "k = 0 \<longrightarrow> buf = []" using False by (auto simp: k_def min_def)
    from appendToUnparsed_spec [OF ok k_def this, of mvt fs] obtain u where
      a: "appendToUnparsedBuffer ?cvt s buf = (s\<lparr>m_unparsedBuffer := u\<rparr>, Some k)" "sp_ok u"
      "chunks_content u = ?u @ take k buf" "m_maxSize u = ?m" .
    let ?s1 = "s\<lparr>m_unparsedBuffer := u\<rparr>"
    let ?s2 = "sp_reference ?cvt ?s1 0 size_max"
    have f: "b_find ?cvt u ?d True 0 0 = Inr (first_pos ?d (?u @ take k buf))" using sp_find [OF a(2) d, of mvt fs] a(3) by simp
    have k: "k \<le> length buf" "length ?u + k \<le> ?m" using cap by (auto simp: k_def)
    note view = sp_view_reference [of ?s1 mvt fs] sp_view_reference [of ?s2 mvt fs]
    show ?thesis
    proof (cases "first_pos ?d (?u @ take k buf)")
      case None
      show ?thesis
      proof (cases "m_streamEnded s")
        case True
        then have "parseByDelimiter ?cvt parse s buf = sp_element ?cvt parse (sp_reference ?cvt ?s2 0 size_max) k"
          using a(1) f None by (simp add: parseByDelimiter_def sp_element_def Let_def)
        moreover have "sp_view ?cvt (sp_reference ?cvt ?s2 0 size_max) = ?u @ take k buf"
          using a(2,3) view(2) k cap by (simp add: size_max_def)
        ultimately show ?thesis using False None True a
          by (auto simp: feed_simulates_def sp_same_def delim_feed_def k_def [symmetric])
      next
        case more: False
        then have "parseByDelimiter ?cvt parse s buf = Inr (?s2, Some k)"
          using a(1) f None by (simp add: parseByDelimiter_def Let_def)
        then show ?thesis using False None more a k
          by (auto simp: feed_simulates_def sp_same_def delim_feed_def k_def [symmetric])
      qed
    next
      case (Some p)
      have p: "length ?u < p + length ?d" "p + length ?d \<le> length ?u + k"
        using first_pos_new [OF none Some] first_pos_SomeD [OF Some] k by auto
      have size: "vt_size ?cvt (m_unparsedBuffer s) = length ?u" using sp_ok_size [OF ok] .
      have del: "m_parseDelimiter s3 = ?d" if "sp_parse parse (sp_reference ?cvt ?s2 0 p) = Inr s3" for s3
        using sp_parse_delimiter [OF kd that] by simp
      have "parseByDelimiter ?cvt parse s buf = sp_element ?cvt parse (sp_reference ?cvt ?s2 0 p) (p + length ?d - length ?u)"
        using a(1) f Some delimiter_count [OF k(2) cap(2) p] size del
        by (auto simp: parseByDelimiter_def sp_element_def Let_def split: sum.splits)
      moreover have "sp_view ?cvt (sp_reference ?cvt ?s2 0 p) = take p (?u @ take k buf)"
        using a(2,3) view(2) by simp
      ultimately show ?thesis using False Some a
        by (auto simp: feed_simulates_def sp_same_def delim_feed_def k_def [symmetric])
    qed
  qed
qed

text \<open>A sub-parser with a limit of 4096 bytes and a \<^verbatim>\<open>parse\<close> that accepts every element.\<close>

definition example_subparser :: "b_mem_fields subparser" where
  "example_subparser = setParseDataTargetSize (subparser_init (chunks_vt mem_vt (\<lambda>_. None))) 4096"

definition example_parse :: "b_mem_fields subparser \<Rightarrow> (b_mem_fields subparser \<times> ParseStatus) result" where
  "example_parse s = Inr (s, PARSE_GOTO_NEXT_SUBPARSER)"

lemma example_parse_keeps: "keeps_delimiter example_parse"
  by (simp add: keeps_delimiter_def example_parse_def)

lemma example_subparser_simps:
  "sp_ok (m_unparsedBuffer example_subparser)" "sp_content example_subparser = []"
  "m_parseDelimiter example_subparser = [CHR 0x0D, CHR 0x0A]" "m_streamEnded example_subparser = False"
  "m_maxSize (m_unparsedBuffer example_subparser) = 4096"
  by (auto simp: example_subparser_def subparser_init_def setParseDataTargetSize_def b_setMaxSize_def sp_ok_def
      chunks_inv_def chunks_data_inv_def chunks_content_def chunks_new_def chunks_clear2_def chunks_clearChunks_def
      b_base.defs b_init_def)

lemma example_look: "first_pos [CHR 0x0D, CHR 0x0A] [CHR ''a'', CHR 0x0D, CHR 0x0A] = Some 1"
  "first_pos [CHR 0x0D, CHR 0x0A] [CHR ''a'', CHR 0x0D] = None" "first_pos [CHR 0x0D, CHR 0x0A] [] = None"
  by (simp_all add: first_pos_def occurs_at_def slice_def)

text \<open>
  C2. Delimiter mode. \<^verbatim>\<open>parseByDelimiter\<close> implements the specification \<open>delim_feed\<close>: the bytes are
  collected up to the size limit; when the delimiter appears (also across writes), \<^verbatim>\<open>parse\<close> is called
  once with exactly the bytes before its first occurrence, the buffer is cleared, and the number of bytes
  reported as taken ends right behind the delimiter, in spite of the unsigned subtraction that may wrap.
  It never reports more bytes than it was given.
\<close>

theorem delimiter_mode_correct:
  assumes "sp_ok (m_unparsedBuffer s)" and "m_parseDelimiter s \<noteq> []" and "length (m_parseDelimiter s) < 2 ^ 32"
    and "keeps_delimiter parse" and "first_pos (m_parseDelimiter s) (sp_content s) = None"
  shows "feed_simulates (chunks_vt mvt fs) parse s
     (delim_feed (look_any [m_parseDelimiter s]) (m_maxSize (m_unparsedBuffer s)) (m_streamEnded s) (sp_content s) buf)
     (parseByDelimiter (chunks_vt mvt fs) parse s buf)
    \<and> (\<forall>s' n. parseByDelimiter (chunks_vt mvt fs) parse s buf = Inr (s', Some n) \<longrightarrow> n \<le> length buf)"
proof -
  note sim = parseByDelimiter_simulates [OF assms, of mvt fs buf]
  have "look_any [m_parseDelimiter s] (sp_content s) = None" using assms(5) by simp
  note bound = delim_feed_bound [OF this, of "m_maxSize (m_unparsedBuffer s)" "m_streamEnded s" buf]
  show ?thesis using sim bound feed_simulates_count [OF sim] by blast
qed

theorem delimiter_mode_correct_witness:
  "\<exists>s. parseByDelimiter (chunks_vt mem_vt (\<lambda>_. None)) example_parse example_subparser [CHR ''a'', CHR 0x0D, CHR 0x0A] = Inr (s, Some 3)"
proof -
  have "delim_feed (look_any [[CHR 0x0D, CHR 0x0A]]) 4096 False [] [CHR ''a'', CHR 0x0D, CHR 0x0A] = FeedElement ''a'' 3"
    by (simp add: delim_feed_def example_look)
  then show ?thesis
    using delimiter_mode_correct [of example_subparser example_parse mem_vt "\<lambda>_. None" "[CHR ''a'', CHR 0x0D, CHR 0x0A]"]
    by (auto simp: example_subparser_simps example_parse_keeps example_look feed_simulates_def sp_element_def sp_parse_def
        example_parse_def)
qed

text \<open>
  C3. Delimiter mode does not depend on how the stream is cut. If writing \<open>b1 @ b2\<close> at once completes an
  element, then writing \<open>b1\<close>, which holds no complete delimiter, and \<open>b2\<close> afterwards hands the same bytes
  to \<^verbatim>\<open>parse\<close> and takes the same number of bytes in total.
\<close>

theorem delimiter_split_invariant:
  assumes "sp_ok (m_unparsedBuffer s)" and "m_parseDelimiter s \<noteq> []" and "length (m_parseDelimiter s) < 2 ^ 32"
    and "keeps_delimiter parse" and "first_pos (m_parseDelimiter s) (sp_content s) = None"
    and "first_pos (m_parseDelimiter s) (sp_content s @ b1) = None" and "\<not> m_streamEnded s"
    and "length (sp_content s) + length b1 \<le> m_maxSize (m_unparsedBuffer s)"
    and "delim_feed (look_any [m_parseDelimiter s]) (m_maxSize (m_unparsedBuffer s)) False (sp_content s) (b1 @ b2) = FeedElement v n"
  shows "\<exists>sA s1 s2. sp_view (chunks_vt mvt fs) s1 = v \<and> sp_view (chunks_vt mvt fs) s2 = v \<and> length b1 < n
    \<and> parseByDelimiter (chunks_vt mvt fs) parse s (b1 @ b2) = sp_element (chunks_vt mvt fs) parse s1 n
    \<and> parseByDelimiter (chunks_vt mvt fs) parse s b1 = Inr (sA, Some (length b1))
    \<and> parseByDelimiter (chunks_vt mvt fs) parse sA b2 = sp_element (chunks_vt mvt fs) parse s2 (n - length b1)"
proof -
  let ?cvt = "chunks_vt mvt fs" and ?d = "m_parseDelimiter s"
  have no: "look_any [?d] (sp_content s @ b1) = None" "look_any [?d] (sp_content s) = None" using assms(5,6) by simp_all
  note split = delim_feed_split [OF no(1) assms(8) no(2)]
  from parseByDelimiter_simulates [OF assms(1-5), of mvt fs b1] obtain sA where
    A: "parseByDelimiter ?cvt parse s b1 = Inr (sA, Some (length b1))" "sp_ok (m_unparsedBuffer sA)"
      "sp_content sA = sp_content s @ b1" "m_maxSize (m_unparsedBuffer sA) = m_maxSize (m_unparsedBuffer s)"
      "m_parseDelimiter sA = ?d" "\<not> m_streamEnded sA"
    using split(1) assms(7) by (auto simp: feed_simulates_def sp_same_def)
  from parseByDelimiter_simulates [OF assms(1-5), of mvt fs "b1 @ b2"] obtain s1 where
    "sp_view ?cvt s1 = v" "parseByDelimiter ?cvt parse s (b1 @ b2) = sp_element ?cvt parse s1 n"
    using assms(7,9) by (auto simp: feed_simulates_def)
  moreover from parseByDelimiter_simulates [of sA parse mvt fs b2] obtain s2 where
    "sp_view ?cvt s2 = v" "parseByDelimiter ?cvt parse sA b2 = sp_element ?cvt parse s2 (n - length b1)"
    using A assms(2-4,6) split(2) [OF assms(9)] by (auto simp: feed_simulates_def)
  ultimately show ?thesis using A(1) split(2) [OF assms(9)] by blast
qed

theorem delimiter_split_invariant_witness:
  "\<exists>s1 s2. parseByDelimiter (chunks_vt mem_vt (\<lambda>_. None)) example_parse example_subparser [CHR ''a'', CHR 0x0D] = Inr (s1, Some 2)
     \<and> parseByDelimiter (chunks_vt mem_vt (\<lambda>_. None)) example_parse s1 [CHR 0x0A] = Inr (s2, Some 1)"
proof -
  have "delim_feed (look_any [[CHR 0x0D, CHR 0x0A]]) 4096 False [] ([CHR ''a'', CHR 0x0D] @ [CHR 0x0A]) = FeedElement ''a'' 3"
    by (simp add: delim_feed_def example_look)
  then show ?thesis
    using delimiter_split_invariant [of example_subparser example_parse "[CHR ''a'', CHR 0x0D]" "[CHR 0x0A]" "''a''" 3 mem_vt "\<lambda>_. None"]
    by (auto simp: example_subparser_simps example_parse_keeps example_look sp_element_def sp_parse_def
        example_parse_def)
qed

section \<open>Multi-delimiter and size modes\<close>

definition keeps_found :: "('y, 'a) parse_fun \<Rightarrow> bool" where
  "keeps_found parse \<longleftrightarrow> (\<forall>s s' st. parse s = Inr (s', st) \<longrightarrow> m_delimiterFound s' = m_delimiterFound s)"

lemma sp_parse_found:
  "keeps_found parse \<Longrightarrow> sp_parse parse s = Inr s' \<Longrightarrow> m_delimiterFound s' = m_delimiterFound s"
  by (auto simp: keeps_found_def sp_parse_def setParseStatus_def split: sum.splits)

lemma sp_findAny:
  assumes "sp_ok u" and "\<forall>d\<in>set ds. d \<noteq> [] \<and> length d < 2 ^ 32"
  shows "b_findAny (chunks_vt mvt fs) u ds True 0 0 =
     Inr (case look_any ds (chunks_content u) of Some (p, d) \<Rightarrow> (Some p, d) | None \<Rightarrow> (None, []))"
  using assms(2)
proof (induction ds)
  case (Cons d ds)
  then show ?case using sp_find [OF assms(1), of d mvt fs] by (auto split: option.splits)
qed simp

definition sp_found :: "'y chunks_vt \<Rightarrow> ('y, 'a) subparser_scheme \<Rightarrow> 'y chunks \<Rightarrow> bytes \<Rightarrow> ('y, 'a) subparser_scheme" where
  "sp_found cvt s u dl = (sp_reference cvt (s\<lparr>m_unparsedBuffer := u\<rparr>) 0 size_max)\<lparr>m_delimiterFound := dl\<rparr>"

lemma sp_found_simps [simp]:
  "m_unparsedBuffer (sp_found cvt s u dl) = u" "m_delimiterFound (sp_found cvt s u dl) = dl"
  "m_parseDelimiter (sp_found cvt s u dl) = m_parseDelimiter s"
  "m_parseMultiDelimiter (sp_found cvt s u dl) = m_parseMultiDelimiter s"
  "m_streamEnded (sp_found cvt s u dl) = m_streamEnded s"
  "m_parseMode (sp_found cvt s u dl) = m_parseMode s" "m_parseStatus (sp_found cvt s u dl) = m_parseStatus s"
  "subparser.more (sp_found cvt s u dl) = subparser.more s"
  by (simp_all add: sp_found_def sp_reference_def)

text \<open>The multi-delimiter mode on a buffer that can take input: what is collected, and which delimiter is reported.\<close>

lemma parseByMultiDelimiter_collected:
  assumes ok: "sp_ok (m_unparsedBuffer s)" and d: "\<forall>d\<in>set (m_parseMultiDelimiter s). d \<noteq> [] \<and> length d < 2 ^ 32"
    and kf: "keeps_found parse" and none: "look_any (m_parseMultiDelimiter s) (sp_content s) = None"
    and free: "\<not> (m_maxSize (m_unparsedBuffer s) \<le> length (sp_content s) \<and> buf \<noteq> [])"
    and k: "k = min (length buf) (m_maxSize (m_unparsedBuffer s) - length (sp_content s))"
  obtains u where "sp_ok u" and "chunks_content u = sp_content s @ take k buf" and "m_maxSize u = m_maxSize (m_unparsedBuffer s)"
    and "parseByMultiDelimiter (chunks_vt mvt fs) parse s buf =
      (case look_any (m_parseMultiDelimiter s) (sp_content s @ take k buf) of
         Some (p, dl) \<Rightarrow> sp_element (chunks_vt mvt fs) parse
           (sp_reference (chunks_vt mvt fs) (sp_found (chunks_vt mvt fs) s u dl) 0 p) (p + length dl - length (sp_content s))
       | None \<Rightarrow>
           if m_streamEnded s then sp_element (chunks_vt mvt fs) parse
             (sp_reference (chunks_vt mvt fs) (sp_found (chunks_vt mvt fs) s u []) 0 size_max) k
           else Inr (sp_found (chunks_vt mvt fs) s u [], Some k))"
proof -
  let ?cvt = "chunks_vt mvt fs" and ?ds = "m_parseMultiDelimiter s" and ?u = "sp_content s" and ?m = "m_maxSize (m_unparsedBuffer s)"
  have cap: "length ?u \<le> ?m" "?m < 2 ^ 32" using ok by (simp_all add: sp_ok_def)
  have "k = 0 \<longrightarrow> buf = []" using free k by (auto simp: min_def split: if_splits)
  from appendToUnparsed_spec [OF ok k this, of mvt fs] obtain u where
    a: "appendToUnparsedBuffer ?cvt s buf = (s\<lparr>m_unparsedBuffer := u\<rparr>, Some k)" "sp_ok u"
    "chunks_content u = ?u @ take k buf" "m_maxSize u = ?m" .
  have f: "b_findAny ?cvt u ?ds True 0 0 =
      Inr (case look_any ?ds (?u @ take k buf) of Some (p, d) \<Rightarrow> (Some p, d) | None \<Rightarrow> (None, []))"
    using sp_findAny [OF a(2) d, of mvt fs] a(3) by simp
  have size: "vt_size ?cvt (m_unparsedBuffer s) = length ?u" using sp_ok_size [OF ok] .
  have "usub (uadd p (length dl)) (length ?u) = p + length dl - length ?u"
    if "look_any ?ds (?u @ take k buf) = Some (p, dl)" for p dl
    using look_any_new [OF none that] cap k by (auto simp: size_arith size_max_def)
  moreover have "m_delimiterFound s3 = dl" if "sp_parse parse (sp_reference ?cvt (sp_found ?cvt s u dl) 0 p) = Inr s3" for s3 dl p
    using sp_parse_found [OF kf that] by (simp add: sp_found_def sp_reference_def)
  ultimately show thesis
    by (intro that [OF a(2-4)])
      (use a(1) f size in \<open>auto simp: parseByMultiDelimiter_def sp_element_def sp_found_def Let_def split: sum.splits option.splits\<close>)
qed

lemma parseByMultiDelimiter_simulates:
  assumes ok: "sp_ok (m_unparsedBuffer s)" and d: "\<forall>d\<in>set (m_parseMultiDelimiter s). d \<noteq> [] \<and> length d < 2 ^ 32"
    and kf: "keeps_found parse" and none: "look_any (m_parseMultiDelimiter s) (sp_content s) = None"
  shows "feed_simulates (chunks_vt mvt fs) parse s
     (delim_feed (look_any (m_parseMultiDelimiter s)) (m_maxSize (m_unparsedBuffer s)) (m_streamEnded s) (sp_content s) buf)
     (parseByMultiDelimiter (chunks_vt mvt fs) parse s buf)"
proof -
  let ?cvt = "chunks_vt mvt fs" and ?ds = "m_parseMultiDelimiter s" and ?u = "sp_content s" and ?m = "m_maxSize (m_unparsedBuffer s)"
  have cap: "length ?u \<le> ?m" "?m < 2 ^ 32" using ok by (simp_all add: sp_ok_def)
  show ?thesis
  proof (cases "?m \<le> length ?u \<and> buf \<noteq> []")
    case True
    then have "appendToUnparsedBuffer ?cvt s buf = (s, None)" using cap by (intro appendToUnparsed_full [OF ok]) auto
    then show ?thesis using True by (simp add: feed_simulates_def delim_feed_def parseByMultiDelimiter_def)
  next
    case False
    define k where "k = min (length buf) (?m - length ?u)"
    from parseByMultiDelimiter_collected [OF ok d kf none False k_def, of mvt fs] obtain u where
      u: "sp_ok u" "chunks_content u = ?u @ take k buf" "m_maxSize u = ?m"
      and eq: "parseByMultiDelimiter ?cvt parse s buf =
        (case look_any ?ds (?u @ take k buf) of
           Some (p, dl) \<Rightarrow> sp_element ?cvt parse (sp_reference ?cvt (sp_found ?cvt s u dl) 0 p) (p + length dl - length ?u)
         | None \<Rightarrow>
             if m_streamEnded s then sp_element ?cvt parse (sp_reference ?cvt (sp_found ?cvt s u []) 0 size_max) k
             else Inr (sp_found ?cvt s u [], Some k))" .
    have k: "length ?u + k \<le> ?m" "k \<le> length buf" using cap by (auto simp: k_def)
    define w where "w = ?u @ take k buf"
    have elem: "\<exists>s1. sp_view ?cvt s1 = take p w \<and> sp_same s s1
        \<and> sp_element ?cvt parse (sp_reference ?cvt (sp_found ?cvt s u dl) 0 p) n = sp_element ?cvt parse s1 n" for p dl n
      using sp_view_reference [of "sp_found ?cvt s u dl" mvt fs p] u unfolding w_def
      by (intro exI [of _ "sp_reference ?cvt (sp_found ?cvt s u dl) 0 p"]) (simp add: sp_same_def)
    have all: "take size_max w = w" "length w - length ?u = k" using k cap by (simp_all add: size_max_def w_def)
    have more: "sp_same s (sp_found ?cvt s u [])" "chunks_content u = w" using u by (simp_all add: sp_same_def w_def)
    show ?thesis
    proof (cases "look_any ?ds w")
      case None
      then show ?thesis
        using False elem [of size_max "[]" k] more
        unfolding eq delim_feed_def k_def [symmetric] Let_def w_def [symmetric] all feed_simulates_def by (auto simp: all)
    next
      case (Some pd)
      then show ?thesis
        using False elem [of "fst pd" "snd pd" "fst pd + length (snd pd) - length ?u"]
        unfolding eq delim_feed_def k_def [symmetric] Let_def w_def [symmetric] feed_simulates_def by (auto split: prod.splits)
    qed
  qed
qed

text \<open>
  Multi-delimiter mode. \<^verbatim>\<open>parseByMultiDelimiter\<close> implements \<open>delim_feed\<close> for the delimiter chosen by
  \<^verbatim>\<open>B_Base::find\<close> on a list, which is the first delimiter of the list that occurs anywhere in the
  collected bytes, not the one that occurs first; it never takes more bytes than it was given.
\<close>

theorem multi_delimiter_mode_correct:
  assumes "sp_ok (m_unparsedBuffer s)" and "\<forall>d\<in>set (m_parseMultiDelimiter s). d \<noteq> [] \<and> length d < 2 ^ 32"
    and "keeps_found parse" and "look_any (m_parseMultiDelimiter s) (sp_content s) = None"
  shows "feed_simulates (chunks_vt mvt fs) parse s
     (delim_feed (look_any (m_parseMultiDelimiter s)) (m_maxSize (m_unparsedBuffer s)) (m_streamEnded s) (sp_content s) buf)
     (parseByMultiDelimiter (chunks_vt mvt fs) parse s buf)
    \<and> (\<forall>s' n. parseByMultiDelimiter (chunks_vt mvt fs) parse s buf = Inr (s', Some n) \<longrightarrow> n \<le> length buf)"
  using parseByMultiDelimiter_simulates [OF assms, of mvt fs buf] delim_feed_bound [OF assms(4)]
    feed_simulates_count [OF parseByMultiDelimiter_simulates [OF assms, of mvt fs buf]] by blast

text \<open>
  Size mode. \<^verbatim>\<open>parseBySize\<close> takes input until exactly the target size has been collected, and then
  hands all of it to \<^verbatim>\<open>parse\<close>; the input beyond it is left alone. An end of stream before that discards
  the collected bytes and moves to the next sub-parser.
\<close>

theorem size_mode_correct:
  assumes "sp_ok (m_unparsedBuffer s)" and "length (sp_content s) < m_maxSize (m_unparsedBuffer s)"
    and "k = min (length buf) (m_maxSize (m_unparsedBuffer s) - length (sp_content s))"
  shows "if buf = [] then
      parseBySize (chunks_vt mvt fs) parse s buf =
        Inr (sp_clearUnparsed (chunks_vt mvt fs) (setParseStatus s PARSE_GOTO_NEXT_SUBPARSER), Some 0)
    else if length (sp_content s) + k = m_maxSize (m_unparsedBuffer s) then
      \<exists>s1. sp_view (chunks_vt mvt fs) s1 = sp_content s @ take k buf
        \<and> parseBySize (chunks_vt mvt fs) parse s buf = sp_element (chunks_vt mvt fs) parse s1 k
    else \<exists>s1. parseBySize (chunks_vt mvt fs) parse s buf = Inr (s1, Some (length buf))
        \<and> sp_ok (m_unparsedBuffer s1) \<and> sp_content s1 = sp_content s @ buf"
proof (cases "buf = []")
  case True
  then show ?thesis by (simp add: parseBySize_def)
next
  case False
  let ?cvt = "chunks_vt mvt fs"
  have k0: "k = 0 \<longrightarrow> buf = []" using assms(2,3) by (auto simp: min_def split: if_splits)
  from appendToUnparsed_spec [OF assms(1,3) k0, of mvt fs] obtain u where
    a: "appendToUnparsedBuffer ?cvt s buf = (s\<lparr>m_unparsedBuffer := u\<rparr>, Some k)" "sp_ok u"
    "chunks_content u = sp_content s @ take k buf" "m_maxSize u = m_maxSize (m_unparsedBuffer s)" .
  have kl: "k \<le> length buf" using assms(3) by simp
  have left: "b_getSizeLeft ?cvt u = m_maxSize (m_unparsedBuffer s) - (length (sp_content s) + k)"
    using a kl by (auto simp: b_getSizeLeft_def sp_ok_size)
  show ?thesis
  proof (cases "length (sp_content s) + k = m_maxSize (m_unparsedBuffer s)")
    case True
    moreover have "parseBySize ?cvt parse s buf = sp_element ?cvt parse (sp_reference ?cvt (s\<lparr>m_unparsedBuffer := u\<rparr>) 0 size_max) k"
      using False True a left by (simp add: parseBySize_def sp_element_def)
    ultimately show ?thesis
      using False True sp_view_all [of "s\<lparr>m_unparsedBuffer := u\<rparr>" mvt fs] a(2,3)
      by (auto intro!: exI [of _ "sp_reference ?cvt (s\<lparr>m_unparsedBuffer := u\<rparr>) 0 size_max"])
  next
    case more: False
    then have "k = length buf" using assms(2,3) by (auto simp: min_def split: if_splits)
    moreover have "length (sp_content s) + k < m_maxSize (m_unparsedBuffer s)"
      using more a(2-4) kl by (simp add: sp_ok_def)
    ultimately show ?thesis using False more a left by (auto simp: parseBySize_def)
  qed
qed

theorem multi_delimiter_mode_correct_witness:
  "\<exists>s. parseByMultiDelimiter (chunks_vt mem_vt (\<lambda>_. None)) example_parse
     (setParseMultiDelimiter example_subparser [''='', ''&'']) ''a&b=c'' = Inr (s, Some 4)"
proof -
  let ?s = "setParseMultiDelimiter example_subparser [''='', ''&'']"
  have s: "sp_ok (m_unparsedBuffer ?s)" "sp_content ?s = []" "m_parseMultiDelimiter ?s = [''='', ''&'']"
    "m_streamEnded ?s = False" "m_maxSize (m_unparsedBuffer ?s) = 4096"
    using example_subparser_simps by (simp_all add: setParseMultiDelimiter_def)
  have "delim_feed (look_any [''='', ''&'']) 4096 False [] ''a&b=c'' = FeedElement ''a&b'' 4"
    using first_pos_char [of "CHR ''=''" "''a&b''" "''c''"] by (simp add: delim_feed_def)
  moreover have "keeps_found example_parse" by (simp add: keeps_found_def example_parse_def)
  ultimately show ?thesis
    using multi_delimiter_mode_correct [of ?s example_parse mem_vt "\<lambda>_. None" "''a&b=c''"] s
    by (auto simp: look_any_None first_pos_char_None feed_simulates_def sp_element_def sp_parse_def example_parse_def
        simp del: look_any.simps)
qed

theorem size_mode_correct_witness:
  "\<exists>s. parseBySize (chunks_vt mem_vt (\<lambda>_. None)) example_parse (setParseDataTargetSize example_subparser 3) ''abcde'' = Inr (s, Some 3)"
proof -
  let ?s = "setParseDataTargetSize example_subparser 3"
  have s: "sp_ok (m_unparsedBuffer ?s)" "sp_content ?s = []" "m_maxSize (m_unparsedBuffer ?s) = 3"
    using example_subparser_simps(1,2,5)
    by (auto simp: setParseDataTargetSize_def b_setMaxSize_def sp_ok_def chunks_inv_def chunks_data_inv_def chunks_content_def)
  show ?thesis
    using size_mode_correct [of ?s 3 "''abcde''" mem_vt "\<lambda>_. None" example_parse] s
    by (auto simp: sp_element_def sp_parse_def example_parse_def)
qed

end
