(* ===== verification/Parser.thy ===== *)
theory Parser
  imports SubParser
begin

text \<open>
  The streaming parser (\<^verbatim>\<open>src/Mantids30/Memory/parser.cpp\<close>): it hands incoming bytes to the current
  sub-parser and calls itself on the bytes the sub-parser did not take, at most \<^verbatim>\<open>m_maxTTL\<close> times. The
  protocol class and its sub-parsers are the state \<open>m_impl\<close>, reached through the functions of
  \<open>parser_vt\<close>. The locale \<open>protocol\<close> states what the loop relies on.
\<close>

record 'p parser_vt =
  pv_current :: "'p \<Rightarrow> bool"
  pv_setStatus :: "'p \<Rightarrow> ParseStatus \<Rightarrow> 'p"
  pv_getStatus :: "'p \<Rightarrow> ParseStatus"
  pv_write :: "'p \<Rightarrow> bytes \<Rightarrow> ('p \<times> nat option) result"
  pv_changeToNextParser :: "'p \<Rightarrow> ('p \<times> bool) result"
  pv_initProtocol :: "'p \<Rightarrow> 'p \<times> bool"
  pv_endProtocol :: "'p \<Rightarrow> 'p"

record 'p parser =
  p_writeStatus :: WriteStatus
  m_initialized :: bool
  m_maxTTL :: nat
  m_impl :: 'p

datatype ErrorMSG = PARSING_SUCCEED | PARSING_ERR_INIT | PARSING_ERR_PARSING

definition parser_new :: "'p \<Rightarrow> 'p parser" where
  "parser_new i = \<lparr>p_writeStatus = ws_init, m_initialized = False, m_maxTTL = 4096, m_impl = i\<rparr>"

definition setMaxTTL :: "'p parser \<Rightarrow> nat \<Rightarrow> 'p parser" where
  "setMaxTTL p value = p\<lparr>m_maxTTL := value\<rparr>"

text \<open>
  One round of \<^verbatim>\<open>parseData\<close>: the part before the check for data left in the buffer. It returns at
  once, or goes on with the bytes that were not taken.
\<close>

datatype 'p round = RoundReturn "'p parser" "nat option" | RoundRest "'p parser" nat

definition parse_round :: "'p parser_vt \<Rightarrow> 'p parser \<Rightarrow> bytes \<Rightarrow> 'p round result" where
  "parse_round vt p buf =
     (if pv_current vt (m_impl p) then
        (case pv_write vt (pv_setStatus vt (m_impl p) PARSE_GET_MORE_DATA) buf of
           Inl e \<Rightarrow> Inl e
         | Inr (i, None) \<Rightarrow> Inr (RoundReturn (p\<lparr>m_impl := i\<rparr>) None)
         | Inr (i, Some writtenBytes) \<Rightarrow>
             (case pv_getStatus vt i of
                PARSE_GOTO_NEXT_SUBPARSER \<Rightarrow>
                  (case pv_changeToNextParser vt i of
                     Inl e \<Rightarrow> Inl e
                   | Inr (i', False) \<Rightarrow> Inr (RoundReturn (p\<lparr>m_impl := i'\<rparr>) None)
                   | Inr (i', True) \<Rightarrow>
                       let p1 = p\<lparr>m_impl := i'\<rparr>;
                           p2 = (if \<not> pv_current vt i' then p1\<lparr>p_writeStatus := (p_writeStatus p1)\<lparr>finish := True\<rparr>\<rparr> else p1)
                       in if \<not> pv_current vt i' \<or> writtenBytes = length buf then Inr (RoundReturn p2 (Some writtenBytes))
                          else Inr (RoundRest p2 writtenBytes))
              | PARSE_GET_MORE_DATA \<Rightarrow>
                  if writtenBytes = length buf then Inr (RoundReturn (p\<lparr>m_impl := i\<rparr>) (Some writtenBytes))
                  else Inr (RoundRest (p\<lparr>m_impl := i\<rparr>) writtenBytes)
              | PARSE_ERROR \<Rightarrow> Inr (RoundReturn (p\<lparr>m_impl := i\<rparr>) None)))
      else Inr (RoundRest p 0))"

lemma parse_round_ttl: "parse_round vt p buf = Inr (RoundRest p' n) \<Longrightarrow> m_maxTTL p' = m_maxTTL p"
  by (auto simp: parse_round_def Let_def split: if_splits sum.splits option.splits prod.splits ParseStatus.splits bool.splits)

function parseData :: "'p parser_vt \<Rightarrow> 'p parser \<Rightarrow> bytes \<Rightarrow> nat \<Rightarrow> ('p parser \<times> nat option) result" where
  "parseData vt p buf ttl =
     (if ttl > m_maxTTL p then Inr (p, None)
      else
        case parse_round vt p buf of
          Inl e \<Rightarrow> Inl e
        | Inr (RoundReturn p' r) \<Rightarrow> Inr (p', r)
        | Inr (RoundRest p' writtenBytes) \<Rightarrow>
            if writtenBytes \<noteq> length buf then
              (case parseData vt p' (drop writtenBytes buf) (Suc ttl) of
                 Inl e \<Rightarrow> Inl e
               | Inr (p'', None) \<Rightarrow> Inr (p'', None)
               | Inr (p'', Some x) \<Rightarrow> Inr (p'', Some (uadd x writtenBytes)))
            else Inr (p', Some writtenBytes))"
  by pat_completeness auto
termination
  by (relation "measure (\<lambda>(vt, p, buf, ttl). Suc (m_maxTTL p) - ttl)") (auto dest: parse_round_ttl)

declare parseData.simps [simp del]

lemma parseData_continue:
  assumes "parse_round vt p buf = Inr (RoundRest p1 n)" and "ttl \<le> m_maxTTL p" and "n < length buf" and "length buf \<le> size_max"
    and "parseData vt p1 (drop n buf) (Suc ttl) = Inr (p2, Some (length buf - n))"
  shows "parseData vt p buf ttl = Inr (p2, Some (length buf))"
proof -
  have "uadd (length buf - n) n = length buf" using assms(3,4) by (simp add: uadd_exact)
  then show ?thesis using assms by (simp add: parseData.simps [of vt p])
qed

definition parser_write :: "'p parser_vt \<Rightarrow> 'p parser \<Rightarrow> bytes \<Rightarrow> ('p parser \<times> nat option) result" where
  "parser_write vt p buf = (if length buf = 0 then parseData vt p [] 0 else parseData vt p buf 0)"

text \<open>\<open>streamTo\<close> is the virtual \<^verbatim>\<open>streamTo\<close> of the object given to the constructor, applied to this parser.\<close>

definition parseObject :: "'p parser_vt \<Rightarrow> ('p parser \<Rightarrow> ('p parser \<times> bool) result) \<Rightarrow> 'p parser \<Rightarrow> ('p parser \<times> ErrorMSG) result" where
  "parseObject vt streamTo p =
     (let p1 = p\<lparr>p_writeStatus := (p_writeStatus p)\<lparr>finish := False\<rparr>\<rparr>;
          r = pv_initProtocol vt (m_impl p1);
          p2 = p1\<lparr>m_initialized := snd r, m_impl := fst r\<rparr>
      in if m_initialized p2 then
           (case streamTo p2 of
              Inl e \<Rightarrow> Inl e
            | Inr (p3, streamedBytes) \<Rightarrow>
                Inr (p3\<lparr>m_impl := pv_endProtocol vt (m_impl p3)\<rparr>,
                     if \<not> streamedBytes then PARSING_ERR_PARSING else PARSING_SUCCEED))
         else Inr (p2, PARSING_ERR_INIT))"

section \<open>The contract of a protocol\<close>

text \<open>A protocol whose sub-parsers never take more bytes than they are offered.\<close>

locale protocol =
  fixes vt :: "'p parser_vt"
    and good :: "'p \<Rightarrow> bool"
  assumes write_good:
    "good i \<Longrightarrow> pv_current vt i \<Longrightarrow> pv_write vt (pv_setStatus vt i PARSE_GET_MORE_DATA) buf = Inr (i', Some n) \<Longrightarrow>
       good i' \<and> n \<le> length buf"
    and next_good:
    "good i \<Longrightarrow> pv_getStatus vt i = PARSE_GOTO_NEXT_SUBPARSER \<Longrightarrow> pv_changeToNextParser vt i = Inr (i', True) \<Longrightarrow> good i'"
begin

lemma round_rest:
  assumes "good (m_impl p)" and "parse_round vt p buf = Inr (RoundRest p' n)"
  shows "good (m_impl p') \<and> n \<le> length buf"
proof (cases "pv_current vt (m_impl p)")
  case True
  let ?w = "pv_write vt (pv_setStatus vt (m_impl p) PARSE_GET_MORE_DATA) buf"
  obtain i m where w: "?w = Inr (i, Some m)"
    using assms(2) True by (auto simp: parse_round_def split: sum.splits option.splits)
  note g = write_good [OF assms(1) True w]
  show ?thesis
    using assms(2) True w g next_good [of i]
    by (auto simp: parse_round_def Let_def split: ParseStatus.splits sum.splits prod.splits bool.splits if_splits)
next
  case False
  then show ?thesis using assms by (simp add: parse_round_def)
qed

lemma round_return:
  assumes "good (m_impl p)" and "parse_round vt p buf = Inr (RoundReturn p' (Some n))"
  shows "good (m_impl p') \<and> n \<le> length buf \<and> (n = length buf \<or> finish (p_writeStatus p') \<and> \<not> pv_current vt (m_impl p'))"
proof -
  have True: "pv_current vt (m_impl p)" using assms(2) by (auto simp: parse_round_def split: if_splits)
  let ?w = "pv_write vt (pv_setStatus vt (m_impl p) PARSE_GET_MORE_DATA) buf"
  obtain i m where w: "?w = Inr (i, Some m)"
    using assms(2) True by (auto simp: parse_round_def split: sum.splits option.splits)
  note g = write_good [OF assms(1) True w]
  show ?thesis
    using assms(2) True w g next_good [of i]
    by (auto simp: parse_round_def Let_def split: ParseStatus.splits sum.splits prod.splits bool.splits if_splits)
qed

lemma parseData_takes:
  "good (m_impl p) \<Longrightarrow> length buf \<le> size_max \<Longrightarrow> parseData vt p buf ttl = Inr (p', Some n) \<Longrightarrow>
     good (m_impl p') \<and> n \<le> length buf \<and> (n = length buf \<or> finish (p_writeStatus p') \<and> \<not> pv_current vt (m_impl p'))"
proof (induction "Suc (m_maxTTL p) - ttl" arbitrary: p buf ttl n rule: less_induct)
  case less
  have ttl: "ttl \<le> m_maxTTL p" using less.prems(3) by (auto simp: parseData.simps [of vt p] split: if_splits)
  then consider q where "parse_round vt p buf = Inr (RoundReturn q (Some n))" "q = p'"
    | q w where "parse_round vt p buf = Inr (RoundRest q w)"
    using less.prems(3)
    by (auto simp: parseData.simps [of vt p] split: sum.splits round.splits)
  then show ?case
  proof cases
    case 1
    then show ?thesis using round_return [OF less.prems(1)] by blast
  next
    case (2 q w)
    note rest = round_rest [OF less.prems(1) 2] and same = parse_round_ttl [OF 2]
    show ?thesis
    proof (cases "w = length buf")
      case True
      then show ?thesis using 2 less.prems(3) ttl rest by (auto simp: parseData.simps [of vt p])
    next
      case False
      then obtain x where x: "parseData vt q (drop w buf) (Suc ttl) = Inr (p', Some x)" "n = uadd x w"
        using 2 less.prems(3) ttl
        by (auto simp: parseData.simps [of vt p] split: sum.splits option.splits prod.splits)
      have IH: "good (m_impl p') \<and> x \<le> length (drop w buf)
          \<and> (x = length (drop w buf) \<or> finish (p_writeStatus p') \<and> \<not> pv_current vt (m_impl p'))"
        using x(1) rest less.prems(2) ttl same by (intro less.hyps) auto
      moreover have "x + w \<le> size_max" using IH rest less.prems(2) by auto
      then have "n = x + w" using x(2) by (simp add: uadd_exact)
      ultimately show ?thesis using rest by auto
    qed
  qed
qed

end

end
