(* ===== verification/LineRecv.thy ===== *)
theory LineRecv
  imports Parser
begin

text \<open>
  The line protocol (\<^verbatim>\<open>src/Mantids30/Protocol_LineRecv\<close>): a parser with one multi-delimiter sub-parser
  that hands every line to the virtual function \<^verbatim>\<open>processParsedLine\<close>, the argument \<open>process\<close> on the
  state of the subclass.
\<close>

record 'y line_subparser = "'y subparser" +
  m_parsedString :: bytes

record ('y, 'c) linerecv =
  lr_subParser :: "'y line_subparser"
  lr_hasCurrent :: bool
  lr_user :: 'c

definition line_setMaxObjectSize :: "'y line_subparser \<Rightarrow> nat \<Rightarrow> 'y line_subparser" where
  "line_setMaxObjectSize s sz = setParseDataTargetSize s sz"

definition line_subparser_new :: "'y chunks_vt \<Rightarrow> 'y line_subparser" where
  "line_subparser_new cvt =
     (let s0 = subparser.extend (subparser_init cvt) \<lparr>m_parsedString = []\<rparr>;
          s1 = setParseMode s0 PARSE_MODE_MULTIDELIMITER;
          s2 = setParseMultiDelimiter s1 [[CHR 0x0A], [CHR 0x0D]];
          s3 = line_setMaxObjectSize s2 65536
      in s3\<lparr>m_subParserName := ''LineRecv_SubParser''\<rparr>)"

definition line_parse :: "'y chunks_vt \<Rightarrow> 'y line_subparser \<Rightarrow> ('y line_subparser \<times> ParseStatus) result" where
  "line_parse cvt s =
     Inr (s\<lparr>m_parsedString := b_toStringEx (ref_vt cvt) (getParsedBuffer s) size_max 0\<rparr>, PARSE_GOTO_NEXT_SUBPARSER)"

definition linerecv_changeToNextParser :: "('c \<Rightarrow> bytes \<Rightarrow> 'c \<times> bool) \<Rightarrow> ('y, 'c) linerecv \<Rightarrow> (('y, 'c) linerecv \<times> bool) result" where
  "linerecv_changeToNextParser process l =
     (let r = process (lr_user l) (m_parsedString (lr_subParser l)); l' = l\<lparr>lr_user := fst r\<rparr>
      in if \<not> snd r then Inr (l'\<lparr>lr_hasCurrent := False\<rparr>, False) else Inr (l', True))"

definition linerecv_setMaxLineSize :: "('y, 'c) linerecv \<Rightarrow> nat \<Rightarrow> ('y, 'c) linerecv" where
  "linerecv_setMaxLineSize l maxLineSize = l\<lparr>lr_subParser := line_setMaxObjectSize (lr_subParser l) maxLineSize\<rparr>"

definition linerecv_vt :: "'y chunks_vt \<Rightarrow> (nat \<Rightarrow> bytes) \<Rightarrow> ('c \<Rightarrow> bytes \<Rightarrow> 'c \<times> bool) \<Rightarrow> ('y, 'c) linerecv parser_vt" where
  "linerecv_vt cvt heap process =
     \<lparr>pv_current = lr_hasCurrent,
      pv_setStatus = (\<lambda>l st. l\<lparr>lr_subParser := setParseStatus (lr_subParser l) st\<rparr>),
      pv_getStatus = (\<lambda>l. m_parseStatus (lr_subParser l)),
      pv_write = (\<lambda>l buf.
        case writeIntoParser cvt heap (line_parse cvt) (lr_subParser l) buf of
          Inl e \<Rightarrow> Inl e | Inr (s, r) \<Rightarrow> Inr (l\<lparr>lr_subParser := s\<rparr>, r)),
      pv_changeToNextParser = linerecv_changeToNextParser process,
      pv_initProtocol = (\<lambda>l. (l, True)),
      pv_endProtocol = id\<rparr>"

definition linerecv_new :: "'y chunks_vt \<Rightarrow> 'c \<Rightarrow> ('y, 'c) linerecv parser" where
  "linerecv_new cvt user =
     (parser_new \<lparr>lr_subParser = line_subparser_new cvt, lr_hasCurrent = True, lr_user = user\<rparr>)\<lparr>m_initialized := True\<rparr>"

section \<open>The line sub-parser\<close>

definition line_good :: "'y line_subparser \<Rightarrow> bool" where
  "line_good s \<longleftrightarrow> sp_ok (m_unparsedBuffer s) \<and> m_parseMode s = PARSE_MODE_MULTIDELIMITER
     \<and> m_parseMultiDelimiter s = [[CHR 0x0A], [CHR 0x0D]]
     \<and> look_any [[CHR 0x0A], [CHR 0x0D]] (sp_content s) = None"

lemma line_parse_keeps_found: "keeps_found (line_parse cvt)"
  by (simp add: keeps_found_def line_parse_def)

abbreviation line_delims :: "bytes list" where
  "line_delims \<equiv> [[CHR 0x0A], [CHR 0x0D]]"

lemma look_line_empty [simp]: "look_any line_delims [] = None"
  by (simp add: look_any_None first_pos_char_None del: look_any.simps)

declare look_any.simps(2) [simp del]

lemma line_new_good: "line_good (line_subparser_new cvt)" "sp_content (line_subparser_new cvt) = []"
  "m_streamEnded (line_subparser_new cvt) = False" "m_maxSize (m_unparsedBuffer (line_subparser_new cvt)) = 65536"
  using chunks_new_inv
  by (auto simp: line_good_def line_subparser_new_def Let_def subparser_init_def subparser.defs setParseMode_def
      setParseMultiDelimiter_def line_setMaxObjectSize_def setParseDataTargetSize_def b_setMaxSize_def sp_ok_def
      chunks_inv_def chunks_data_inv_def chunks_content_def chunks_new_def chunks_clear2_def chunks_clearChunks_def
      b_base.defs b_init_def first_pos_char_None)

text \<open>One write, in terms of the specification of the multi-delimiter mode.\<close>

lemma line_write:
  assumes "line_good s" and "s0 = (if length buf = 0 then s\<lparr>m_streamEnded := True\<rparr> else s)"
    and "f = delim_feed (look_any line_delims) (m_maxSize (m_unparsedBuffer s)) (m_streamEnded s0) (sp_content s) buf"
  shows "case f of
      FeedFull \<Rightarrow> writeIntoParser (chunks_vt mvt fs) heap (line_parse (chunks_vt mvt fs)) s buf = Inr (s0, None)
    | FeedMore w \<Rightarrow> \<exists>s'. writeIntoParser (chunks_vt mvt fs) heap (line_parse (chunks_vt mvt fs)) s buf
          = Inr (s', Some (length w - length (sp_content s)))
        \<and> line_good s' \<and> sp_content s' = w \<and> sp_same s0 s'
    | FeedElement v n \<Rightarrow> \<exists>s'. writeIntoParser (chunks_vt mvt fs) heap (line_parse (chunks_vt mvt fs)) s buf = Inr (s', Some n)
        \<and> line_good s' \<and> sp_content s' = [] \<and> m_parsedString s' = v \<and> m_parseStatus s' = PARSE_GOTO_NEXT_SUBPARSER
        \<and> m_maxSize (m_unparsedBuffer s') = m_maxSize (m_unparsedBuffer s) \<and> m_streamEnded s' = m_streamEnded s0"
proof -
  let ?cvt = "chunks_vt mvt fs"
  have g: "sp_ok (m_unparsedBuffer s)" "m_parseMode s = PARSE_MODE_MULTIDELIMITER" "m_parseMultiDelimiter s = line_delims"
    "look_any line_delims (sp_content s) = None"
    using assms(1) by (simp_all add: line_good_def)
  have w: "writeIntoParser ?cvt heap (line_parse ?cvt) s buf = parseByMultiDelimiter ?cvt (line_parse ?cvt) s0 buf"
    using g(2) assms(2) by (simp add: writeIntoParser_def)
  have u: "m_unparsedBuffer s0 = m_unparsedBuffer s" "m_parseMultiDelimiter s0 = line_delims"
    "m_parseMode s0 = PARSE_MODE_MULTIDELIMITER" using g assms(2) by auto
  have sim: "feed_simulates ?cvt (line_parse ?cvt) s0 f (parseByMultiDelimiter ?cvt (line_parse ?cvt) s0 buf)"
    using parseByMultiDelimiter_simulates [OF _ _ line_parse_keeps_found, of s0 mvt fs ?cvt buf] g u assms(3) by simp
  show ?thesis
  proof (cases f)
    case FeedFull
    then show ?thesis using sim w by (simp add: feed_simulates_def)
  next
    case (FeedMore x)
    have "look_any line_delims x = None"
      using FeedMore unfolding assms(3) delim_feed_def Let_def by (auto split: if_splits option.splits)
    then show ?thesis using sim w u FeedMore by (auto simp: feed_simulates_def line_good_def sp_same_def)
  next
    case (FeedElement v n)
    then obtain s1 where s1: "sp_view ?cvt s1 = v" "sp_same s0 s1"
      "parseByMultiDelimiter ?cvt (line_parse ?cvt) s0 buf = sp_element ?cvt (line_parse ?cvt) s1 n"
      using sim by (auto simp: feed_simulates_def)
    let ?s' = "sp_clearUnparsed ?cvt (setParseStatus (s1\<lparr>m_parsedString := v\<rparr>) PARSE_GOTO_NEXT_SUBPARSER)"
    have "sp_element ?cvt (line_parse ?cvt) s1 n = Inr (?s', Some n)"
      using s1(1) by (simp add: sp_element_def sp_parse_def line_parse_def sp_view_def)
    moreover have "sp_ok (m_unparsedBuffer s1)" using s1(2) by (simp add: sp_same_def)
    ultimately show ?thesis
      using FeedElement s1 w u sp_ok_clear [of "m_unparsedBuffer s1" mvt fs]
      by (auto simp: sp_same_def line_good_def sp_clearUnparsed_def setParseStatus_def first_pos_char_None)
  qed
qed

interpretation linerecv: protocol "linerecv_vt (chunks_vt mvt fs) heap process" "\<lambda>l. line_good (lr_subParser l)"
  for mvt fs heap process
proof (unfold_locales, goal_cases)
  case (1 l buf l' n)
  let ?s = "setParseStatus (lr_subParser l) PARSE_GET_MORE_DATA"
  let ?t = "if length buf = 0 then ?s\<lparr>m_streamEnded := True\<rparr> else ?s"
  let ?f = "delim_feed (look_any line_delims) (m_maxSize (m_unparsedBuffer ?s)) (m_streamEnded ?t) (sp_content ?s) buf"
  have good: "line_good ?s" using 1(1) by (simp add: line_good_def setParseStatus_def)
  have w: "writeIntoParser (chunks_vt mvt fs) heap (line_parse (chunks_vt mvt fs)) ?s buf = Inr (lr_subParser l', Some n)"
    using 1(3) by (auto simp: linerecv_vt_def split: sum.splits prod.splits)
  have "look_any line_delims (sp_content ?s) = None" using good by (simp add: line_good_def)
  note bound = delim_feed_bound [OF this, of "m_maxSize (m_unparsedBuffer ?s)" "m_streamEnded ?t" buf]
  show ?case
    using line_write [OF good refl refl, of mvt fs heap buf] w bound by (cases ?f) auto
next
  case (2 l l')
  then show ?case
    by (auto simp: linerecv_vt_def linerecv_changeToNextParser_def Let_def split: if_splits)
qed

section \<open>Lines\<close>

definition line_feed_bytes :: "bytes list \<Rightarrow> bytes" where
  "line_feed_bytes lines = concat (map (\<lambda>l. l @ [CHR 0x0A]) lines)"

lemma delim_feed_line:
  assumes "CHR 0x0A \<notin> set l" and "length l < cap"
  shows "delim_feed (look_any line_delims) cap ended [] (l @ [CHR 0x0A] @ rest) = FeedElement l (Suc (length l))"
proof -
  let ?buf = "l @ [CHR 0x0A] @ rest"
  let ?k = "min (length ?buf) (cap - length ([]::bytes))"
  have "take ?k ?buf = l @ CHR 0x0A # take (?k - Suc (length l)) rest" using assms(2) by (simp add: take_Cons')
  then have "look_any line_delims ([] @ take ?k ?buf) = Some (length l, [CHR 0x0A])"
    using first_pos_char [OF assms(1)] by (simp add: look_any.simps)
  moreover have "take (length l) ([] @ take ?k ?buf) = l" using assms(2) by simp
  ultimately show ?thesis using assms(2) by (simp add: delim_feed_def Let_def)
qed

definition line_start :: "('y, 'c) linerecv \<Rightarrow> nat \<Rightarrow> 'c \<Rightarrow> bool" where
  "line_start l cap user \<longleftrightarrow> line_good (lr_subParser l) \<and> sp_content (lr_subParser l) = []
     \<and> m_maxSize (m_unparsedBuffer (lr_subParser l)) = cap \<and> lr_hasCurrent l \<and> lr_user l = user"

lemma line_round_element:
  assumes "line_start (m_impl p) cap user" and "buf \<noteq> []"
    and "\<forall>ended. delim_feed (look_any line_delims) cap ended [] buf = FeedElement l n" and "snd (process user l)"
  shows "\<exists>p'. line_start (m_impl p') cap (fst (process user l)) \<and> m_maxTTL p' = m_maxTTL p
    \<and> parse_round (linerecv_vt (chunks_vt mvt fs) heap process) p buf =
       Inr (if n = length buf then RoundReturn p' (Some n) else RoundRest p' n)"
proof -
  define s where "s = setParseStatus (lr_subParser (m_impl p)) PARSE_GET_MORE_DATA"
  have st: "line_good s" "sp_content s = []" "m_maxSize (m_unparsedBuffer s) = cap"
    using assms(1) by (simp_all add: s_def line_start_def line_good_def setParseStatus_def)
  obtain s' where s': "writeIntoParser (chunks_vt mvt fs) heap (line_parse (chunks_vt mvt fs)) s buf = Inr (s', Some n)"
    "line_good s'" "sp_content s' = []" "m_parsedString s' = l" "m_parseStatus s' = PARSE_GOTO_NEXT_SUBPARSER"
    "m_maxSize (m_unparsedBuffer s') = cap"
    using line_write [OF st(1) refl refl, of mvt fs heap buf] assms(3) st(2,3) by auto
  let ?i = "(m_impl p)\<lparr>lr_subParser := s', lr_user := fst (process user l)\<rparr>"
  have "line_start ?i cap (fst (process user l))" using assms(1) s' by (simp add: line_start_def)
  moreover have "parse_round (linerecv_vt (chunks_vt mvt fs) heap process) p buf =
      Inr (if n = length buf then RoundReturn (p\<lparr>m_impl := ?i\<rparr>) (Some n) else RoundRest (p\<lparr>m_impl := ?i\<rparr>) n)"
    using s' assms(1,4)
    by (simp add: parse_round_def linerecv_vt_def s_def [symmetric] line_start_def linerecv_changeToNextParser_def Let_def)
  ultimately show ?thesis by (intro exI [of _ "p\<lparr>m_impl := ?i\<rparr>"]) simp
qed

lemma line_round:
  assumes "line_start (m_impl p) cap user" and "CHR 0x0A \<notin> set l" and "length l < cap" and "snd (process user l)"
  shows "\<exists>p'. line_start (m_impl p') cap (fst (process user l)) \<and> m_maxTTL p' = m_maxTTL p
    \<and> parse_round (linerecv_vt (chunks_vt mvt fs) heap process) p (l @ [CHR 0x0A] @ rest) =
       Inr (if rest = [] then RoundReturn p' (Some (Suc (length l))) else RoundRest p' (Suc (length l)))"
proof -
  have f: "\<forall>ended. delim_feed (look_any line_delims) cap ended [] (l @ [CHR 0x0A] @ rest) = FeedElement l (Suc (length l))"
    using delim_feed_line [OF assms(2,3)] by blast
  have n: "(Suc (length l) = length (l @ [CHR 0x0A] @ rest)) = (rest = [])" by auto
  show ?thesis
    using line_round_element [where process = process, OF assms(1) _ f assms(4), of mvt fs heap] unfolding n by simp
qed

lemma line_write_element:
  assumes "line_start (m_impl p) cap user" and "buf \<noteq> []"
    and "\<forall>ended. delim_feed (look_any line_delims) cap ended [] buf = FeedElement l n" and "snd (process user l)"
    and "n = length buf"
  shows "\<exists>p'. parser_write (linerecv_vt (chunks_vt mvt fs) heap process) p buf = Inr (p', Some n)
    \<and> line_start (m_impl p') cap (fst (process user l))"
  using line_round_element [where process = process, OF assms(1-4), of mvt fs heap] assms(2,5)
  by (auto simp: parser_write_def parseData.simps [of _ p])

lemma lines_parseData:
  assumes "\<forall>u l. snd (process u l)"
  shows "lines \<noteq> [] \<Longrightarrow> \<forall>l\<in>set lines. CHR 0x0A \<notin> set l \<and> length l < cap \<Longrightarrow> ttl + length lines \<le> Suc (m_maxTTL p) \<Longrightarrow>
     length (line_feed_bytes lines) \<le> size_max \<Longrightarrow> line_start (m_impl p) cap user \<Longrightarrow>
     \<exists>p'. parseData (linerecv_vt (chunks_vt mvt fs) heap process) p (line_feed_bytes lines) ttl =
         Inr (p', Some (length (line_feed_bytes lines)))
       \<and> line_start (m_impl p') cap (fold (\<lambda>l u. fst (process u l)) lines user)"
proof (induction lines arbitrary: p ttl user)
  case Nil
  then show ?case by simp
next
  case (Cons l lines)
  let ?vt = "linerecv_vt (chunks_vt mvt fs) heap process"
  have b: "line_feed_bytes (l # lines) = l @ [CHR 0x0A] @ line_feed_bytes lines" by (simp add: line_feed_bytes_def)
  have ttl: "\<not> ttl > m_maxTTL p" using Cons.prems(3) by simp
  have l: "CHR 0x0A \<notin> set l" "length l < cap" using Cons.prems(2) by auto
  obtain p' where p': "line_start (m_impl p') cap (fst (process user l))" "m_maxTTL p' = m_maxTTL p"
    "parse_round ?vt p (line_feed_bytes (l # lines)) =
       Inr (if line_feed_bytes lines = [] then RoundReturn p' (Some (Suc (length l))) else RoundRest p' (Suc (length l)))"
    using line_round [OF Cons.prems(5) l, of process mvt fs heap "line_feed_bytes lines"] assms unfolding b by blast
  show ?case
  proof (cases "lines = []")
    case True
    then show ?thesis using p' ttl b by (simp add: parseData.simps [of ?vt p] line_feed_bytes_def)
  next
    case False
    then have ne: "line_feed_bytes lines \<noteq> []" by (cases lines) (auto simp: line_feed_bytes_def)
    have "length (line_feed_bytes lines) \<le> size_max" using Cons.prems(4) b by simp
    then obtain q where q: "parseData ?vt p' (line_feed_bytes lines) (Suc ttl) = Inr (q, Some (length (line_feed_bytes lines)))"
      "line_start (m_impl q) cap (fold (\<lambda>l u. fst (process u l)) lines (fst (process user l)))"
      using Cons.IH [OF False, of "Suc ttl" p' "fst (process user l)"] Cons.prems p' by auto
    have "uadd (length (line_feed_bytes lines)) (Suc (length l)) = length (line_feed_bytes (l # lines))"
      using Cons.prems(4) by (simp add: b uadd_exact)
    moreover have "drop (Suc (length l)) (line_feed_bytes (l # lines)) = line_feed_bytes lines" by (simp add: b)
    moreover have "Suc (length l) \<noteq> length (line_feed_bytes (l # lines))" using ne by (simp add: b)
    ultimately show ?thesis using p'(3) ne ttl q by (simp add: parseData.simps [of ?vt p])
  qed
qed

text \<open>
  C4. The line protocol delivers lines. One write of at most \<^verbatim>\<open>m_maxTTL\<close> + 1 newline-terminated lines,
  each shorter than the size limit, takes all the bytes and calls \<^verbatim>\<open>processParsedLine\<close> once per line, in
  order, with exactly the bytes of the line; the parser is then ready for the next line.
\<close>

theorem linerecv_delivers_lines:
  assumes "line_start (m_impl p) cap user" and "\<forall>u l. snd (process u l)" and "lines \<noteq> []"
    and "\<forall>l\<in>set lines. CHR 0x0A \<notin> set l \<and> length l < cap" and "length lines \<le> Suc (m_maxTTL p)"
    and "length (line_feed_bytes lines) \<le> size_max"
  shows "\<exists>p'. parser_write (linerecv_vt (chunks_vt mvt fs) heap process) p (line_feed_bytes lines) =
       Inr (p', Some (length (line_feed_bytes lines)))
     \<and> line_start (m_impl p') cap (fold (\<lambda>l u. fst (process u l)) lines user)"
proof -
  have "line_feed_bytes lines \<noteq> []" using assms(3) by (cases lines) (auto simp: line_feed_bytes_def)
  then show ?thesis
    using lines_parseData [OF assms(2,3,4), of 0 p user mvt fs heap] assms by (simp add: parser_write_def)
qed

lemma linerecv_new_start: "line_start (m_impl (linerecv_new cvt user)) 65536 user"
  using line_new_good [of cvt] by (simp add: linerecv_new_def parser_new_def line_start_def)

theorem linerecv_delivers_lines_witness:
  "\<exists>p'. parser_write (linerecv_vt (chunks_vt mem_vt (\<lambda>_. None)) (\<lambda>_. []) (\<lambda>u l. (u @ [l], True)))
       (linerecv_new (chunks_vt mem_vt (\<lambda>_. None)) []) (line_feed_bytes [''ab'', ''c'']) = Inr (p', Some 5)
     \<and> lr_user (m_impl p') = [''ab'', ''c'']"
proof -
  have "length (line_feed_bytes [''ab'', ''c'']) = 5" by (simp add: line_feed_bytes_def)
  then show ?thesis
    using linerecv_delivers_lines [OF linerecv_new_start, of "\<lambda>u l. (u @ [l], True)" "[''ab'', ''c'']"
        "chunks_vt mem_vt (\<lambda>_. None)" "[]" mem_vt "\<lambda>_. None" "\<lambda>_. []"]
    by (auto simp: linerecv_new_def parser_new_def size_max_def line_start_def)
qed

text \<open>
  The lines depend on how the stream is cut. A carriage return followed by a newline, written at once,
  ends one line that keeps the carriage return; the same bytes in two writes give two lines, the second
  one empty.
\<close>

theorem linerecv_split_dependent:
  "\<exists>p q r. parser_write (linerecv_vt (chunks_vt mvt fs) heap (\<lambda>u l. (u @ [l], True)))
        (linerecv_new (chunks_vt mvt fs) []) [CHR ''a'', CHR 0x0D, CHR 0x0A] = Inr (p, Some 3)
      \<and> lr_user (m_impl p) = [[CHR ''a'', CHR 0x0D]]
      \<and> parser_write (linerecv_vt (chunks_vt mvt fs) heap (\<lambda>u l. (u @ [l], True)))
        (linerecv_new (chunks_vt mvt fs) []) [CHR ''a'', CHR 0x0D] = Inr (q, Some 2)
      \<and> parser_write (linerecv_vt (chunks_vt mvt fs) heap (\<lambda>u l. (u @ [l], True))) q [CHR 0x0A] = Inr (r, Some 1)
      \<and> lr_user (m_impl r) = [''a'', []]"
proof -
  let ?vt = "linerecv_vt (chunks_vt mvt fs) heap (\<lambda>u l. (u @ [l], True))" and ?p0 = "linerecv_new (chunks_vt mvt fs) []"
  let ?process = "\<lambda>u l. (u @ [l], True)"
  note start = linerecv_new_start [of "chunks_vt mvt fs" "[] :: bytes list"]
  have "delim_feed (look_any line_delims) 65536 ended [] [CHR ''a'', CHR 0x0D, CHR 0x0A] = FeedElement [CHR ''a'', CHR 0x0D] 3" for ended
    using delim_feed_line [of "[CHR ''a'', CHR 0x0D]" 65536 ended "[]"] by simp
  then obtain p where p: "parser_write ?vt ?p0 [CHR ''a'', CHR 0x0D, CHR 0x0A] = Inr (p, Some 3)"
    "lr_user (m_impl p) = [[CHR ''a'', CHR 0x0D]]"
    using line_write_element [OF start, of "[CHR ''a'', CHR 0x0D, CHR 0x0A]" "[CHR ''a'', CHR 0x0D]" 3 ?process mvt fs heap]
    by (auto simp: line_start_def numeral_3_eq_3)
  have "look_any line_delims [CHR ''a'', CHR 0x0D] = Some (1, [CHR 0x0D])"
    using first_pos_char [of "CHR 0x0D" "''a''" "[]"] first_pos_char_None [of "CHR 0x0A" "[CHR ''a'', CHR 0x0D]"]
    by (simp add: look_any.simps)
  then have "delim_feed (look_any line_delims) 65536 ended [] [CHR ''a'', CHR 0x0D] = FeedElement ''a'' 2" for ended
    by (simp add: delim_feed_def)
  then obtain q where q: "parser_write ?vt ?p0 [CHR ''a'', CHR 0x0D] = Inr (q, Some 2)" "line_start (m_impl q) 65536 [''a'']"
    using line_write_element [OF start, of "[CHR ''a'', CHR 0x0D]" "''a''" 2 ?process mvt fs heap] by auto
  have "delim_feed (look_any line_delims) 65536 ended [] [CHR 0x0A] = FeedElement [] 1" for ended
    using delim_feed_line [of "[]" 65536 ended "[]"] by simp
  then obtain r where "parser_write ?vt q [CHR 0x0A] = Inr (r, Some 1)" "lr_user (m_impl r) = [''a'', []]"
    using line_write_element [OF q(2), of "[CHR 0x0A]" "[]" 1 ?process mvt fs heap] by (auto simp: line_start_def)
  with p q show ?thesis by blast
qed

text \<open>
  A successful \<^verbatim>\<open>Parser::write\<close> of the line protocol accounts for every byte: it ends within the TTL,
  the number of bytes reported never exceeds the number given, it is smaller only when the protocol has
  finished, and the sub-parser is left in a good state for the next write.
\<close>

theorem linerecv_write_accounts:
  assumes "line_good (lr_subParser (m_impl p))" and "length buf \<le> size_max"
    and "parser_write (linerecv_vt (chunks_vt mvt fs) heap process) p buf = Inr (p', Some n)"
  shows "line_good (lr_subParser (m_impl p')) \<and> n \<le> length buf
    \<and> (n = length buf \<or> finish (p_writeStatus p') \<and> \<not> lr_hasCurrent (m_impl p'))"
  using linerecv.parseData_takes [OF assms(1,2), of mvt fs heap process 0 p' n] assms(3)
  by (auto simp: parser_write_def linerecv_vt_def split: if_splits)

theorem linerecv_write_accounts_witness:
  "\<exists>p'. parser_write (linerecv_vt (chunks_vt mem_vt (\<lambda>_. None)) (\<lambda>_. []) (\<lambda>u l. (u @ [l], True)))
       (linerecv_new (chunks_vt mem_vt (\<lambda>_. None)) []) [CHR 0x0A] = Inr (p', Some 1) \<and> line_good (lr_subParser (m_impl p'))"
proof -
  let ?vt = "linerecv_vt (chunks_vt mem_vt (\<lambda>_. None)) (\<lambda>_. []) (\<lambda>u l. (u @ [l], True))"
  let ?p = "linerecv_new (chunks_vt mem_vt (\<lambda>_. None)) ([] :: bytes list)"
  have "delim_feed (look_any line_delims) 65536 ended [] [CHR 0x0A] = FeedElement [] 1" for ended
    using delim_feed_line [of "[]" 65536 ended "[]"] by simp
  then obtain p' where "parser_write ?vt ?p [CHR 0x0A] = Inr (p', Some 1)"
    using line_write_element [where p = ?p and process = "\<lambda>u l. (u @ [l], True)" and buf = "[CHR 0x0A]" and l = "[]" and n = 1
        and mvt = mem_vt and fs = "\<lambda>_. None" and heap = "\<lambda>_. []", OF linerecv_new_start] by auto
  moreover have "line_good (lr_subParser (m_impl ?p))"
    using linerecv_new_start [of "chunks_vt mem_vt (\<lambda>_. None)" "[] :: bytes list"] by (simp add: line_start_def)
  ultimately show ?thesis
    using linerecv_write_accounts [of ?p "[CHR 0x0A]" mem_vt "\<lambda>_. None" "\<lambda>_. []" "\<lambda>u l. (u @ [l], True)" p' 1]
    by (auto simp: size_max_def)
qed

end
