(* ===== verification/Encoders.thy ===== *)
theory Encoders
  imports SafeInt
begin

text \<open>
  The encoders of \<^verbatim>\<open>src/Mantids30/Helpers/encoders.cpp\<close>: URL percent encoding, hexadecimal, hex
  escapes in text, base32 and base64. The OpenSSL base64 BIO filters and the C++ random engine are
  parameters of the definitions that use them. \<^verbatim>\<open>char\<close> is signed, as on the x86 targets.
\<close>

unbundle bit_operations_syntax

datatype URL_ENCODING_TYPE = STRICT_ENCODING | QUOTEPRINT_ENCODING

section \<open>Hexadecimal digits\<close>

text \<open>\<^verbatim>\<open>nibble / 0x10\<close> is a signed division of a \<^verbatim>\<open>char\<close>, \<^verbatim>\<open>nibble & 0xF\<close> keeps the low bits.\<close>

definition toHexFrom4bitChar :: "char \<Rightarrow> nat \<Rightarrow> char" where
  "toHexFrom4bitChar c position =
     (let nibble = (if position = 1 then tdiv (schar c) 16
                    else if position = 2 then int (byte_val c mod 16)
                    else schar c)
      in if 0 \<le> nibble \<and> nibble \<le> 9 then byte_of (48 + nat nibble)
         else if 10 \<le> nibble \<and> nibble \<le> 15 then byte_of (65 + nat nibble - 10)
         else CHR ''0'')"

definition hexToValue :: "char \<Rightarrow> nat" where
  "hexToValue v =
     (if 48 \<le> byte_val v \<and> byte_val v \<le> 57 then byte_val v - 48
      else if 65 \<le> byte_val v \<and> byte_val v \<le> 70 then byte_val v - 65 + 10
      else if 97 \<le> byte_val v \<and> byte_val v \<le> 102 then byte_val v - 97 + 10
      else 0)"

text \<open>\<^verbatim>\<open>strtol\<close> in base 16 on two hexadecimal digits.\<close>

definition hexPairToByte :: "char \<Rightarrow> char \<Rightarrow> char" where
  "hexPairToByte a b =
     (if \<not> is_xdigit a \<or> \<not> is_xdigit b then byte_of 0
      else byte_of (hexToValue a * 16 + hexToValue b))"

section \<open>URL encoding\<close>

definition getIfMustBeURLEncoded :: "char \<Rightarrow> URL_ENCODING_TYPE \<Rightarrow> bool" where
  "getIfMustBeURLEncoded c urlEncodingType =
     (if urlEncodingType = QUOTEPRINT_ENCODING then
        (if c = CHR 0x22 then True else if 32 \<le> schar c \<and> schar c \<le> 126 then False else True)
      else (if is_alnum c then False else True))"

fun calcURLEncodingExpandedStringSize :: "bytes \<Rightarrow> URL_ENCODING_TYPE \<Rightarrow> nat" where
  "calcURLEncodingExpandedStringSize [] ty = 0"
| "calcURLEncodingExpandedStringSize (c # str) ty =
     (if getIfMustBeURLEncoded c ty then 3 else 1) + calcURLEncodingExpandedStringSize str ty"

text \<open>
  \<^verbatim>\<open>Encoders::toURL\<close> writes into a string of spaces of the precomputed size through the running
  index \<open>x\<close>.
\<close>

fun toURL_loop :: "URL_ENCODING_TYPE \<Rightarrow> bytes \<Rightarrow> bytes \<Rightarrow> nat \<Rightarrow> bytes" where
  "toURL_loop ty [] out x = out"
| "toURL_loop ty (c # str) out x =
     (if getIfMustBeURLEncoded c ty
      then toURL_loop ty str
             (out[x := CHR ''%'', x + 1 := toHexFrom4bitChar c 1, x + 2 := toHexFrom4bitChar c 2]) (x + 3)
      else toURL_loop ty str (out[x := c]) (x + 1))"

definition toURL :: "bytes \<Rightarrow> URL_ENCODING_TYPE \<Rightarrow> bytes" where
  "toURL str ty =
     (if length str = 0 then []
      else toURL_loop ty str (replicate (calcURLEncodingExpandedStringSize str ty) (CHR '' '')) 0)"

text \<open>\<^verbatim>\<open>Encoders::fromURL\<close>; the equations are the iterations of the loop on the unread rest.\<close>

fun fromURL :: "bytes \<Rightarrow> bytes" where
  "fromURL [] = []"
| "fromURL (c # a # b # rest) =
     (if c = CHR ''%'' \<and> is_xdigit a \<and> is_xdigit b
      then byte_of (hexToValue a * 16 + hexToValue b) # fromURL rest
      else c # fromURL (a # b # rest))"
| "fromURL (c # rest) = c # fromURL rest"

section \<open>Hexadecimal strings and escapes\<close>

definition hex_digit_upper :: "nat \<Rightarrow> char" where
  "hex_digit_upper n = (if n < 10 then byte_of (48 + n) else byte_of (55 + n))"

text \<open>\<^verbatim>\<open>sprintf("%02X")\<close> of every byte.\<close>

fun toHex :: "bytes \<Rightarrow> bytes" where
  "toHex [] = []"
| "toHex (c # data) = hex_digit_upper (byte_val c div 16) # hex_digit_upper (byte_val c mod 16) # toHex data"

text \<open>\<^verbatim>\<open>Encoders::fromHex\<close> fills the first \<open>min maxlen (size/2)\<close> bytes of \<open>data\<close>.\<close>

fun fromHex_loop :: "bytes \<Rightarrow> nat \<Rightarrow> bytes \<Rightarrow> bytes" where
  "fromHex_loop (a # b # hex) (Suc n) (d # data) =
     byte_of (hexToValue a * 16 + hexToValue b) # fromHex_loop hex n data"
| "fromHex_loop hex n data = data"

definition fromHex :: "bytes \<Rightarrow> bytes \<Rightarrow> nat \<Rightarrow> bytes" where
  "fromHex hexValue data maxlen =
     fromHex_loop hexValue (if length hexValue div 2 < maxlen then length hexValue div 2 else maxlen) data"

text \<open>\<^verbatim>\<open>content.find("\\0x", pos)\<close>.\<close>

fun is_escape_at :: "bytes \<Rightarrow> bool" where
  "is_escape_at (a # b # c # rest) \<longleftrightarrow> a = CHR 0x5C \<and> b = CHR ''0'' \<and> c = CHR ''x''"
| "is_escape_at _ \<longleftrightarrow> False"

fun find_escape :: "bytes \<Rightarrow> nat option" where
  "find_escape [] = None"
| "find_escape (c # cs) = (if is_escape_at (c # cs) then Some 0 else map_option Suc (find_escape cs))"

lemma find_escape_length: "find_escape xs = Some i \<Longrightarrow> i + 3 \<le> length xs"
proof (induction xs arbitrary: i)
  case Nil
  then show ?case by simp
next
  case (Cons x xs)
  show ?case
  proof (cases "is_escape_at (x # xs)")
    case True
    then have "3 \<le> length (x # xs)" by (cases "x # xs" rule: is_escape_at.cases) auto
    with True Cons.prems show ?thesis by simp
  next
    case False
    with Cons show ?thesis by auto
  qed
qed

text \<open>
  \<^verbatim>\<open>Encoders::replaceHexCodes\<close>: after a replacement the search resumes at the same position, on the
  replaced byte itself.
\<close>

function replaceHexCodes_loop :: "bytes \<Rightarrow> nat \<Rightarrow> bytes" where
  "replaceHexCodes_loop content pos =
     (case find_escape (drop pos content) of
        None \<Rightarrow> content
      | Some i \<Rightarrow>
          let p = pos + i
          in if p + 4 < length content \<and> is_xdigit (content ! (p + 3)) \<and> is_xdigit (content ! (p + 4))
             then replaceHexCodes_loop
                    (take p content @ [hexPairToByte (content ! (p + 3)) (content ! (p + 4))]
                       @ drop (p + 5) content) p
             else replaceHexCodes_loop content (p + 3))"
  by pat_completeness auto
termination
proof (relation "measure (\<lambda>(content, pos). length content - pos)", goal_cases)
  case 1
  show ?case by simp
next
  case (2 content pos i p)
  then show ?case using find_escape_length [OF 2(1)] by auto
next
  case (3 content pos i p)
  then show ?case using find_escape_length [OF 3(1)] by auto
qed

declare replaceHexCodes_loop.simps [simp del]

definition replaceHexCodes :: "bytes \<Rightarrow> bytes" where
  "replaceHexCodes content = replaceHexCodes_loop content 0"

section \<open>Base32\<close>

definition base32_chars :: bytes where
  "base32_chars = ''ABCDEFGHIJKLMNOPQRSTUVWXYZ234567''"

record base32_state =
  b32_out :: bytes
  currentByte :: nat
  bitsRemaining :: nat

text \<open>One iteration of the inner loop: shift a bit in, emit the byte when it is full.\<close>

definition base32_push_bit :: "base32_state \<Rightarrow> nat \<Rightarrow> base32_state" where
  "base32_push_bit s b =
     (let cb = 2 * currentByte s + b; br = bitsRemaining s - 1
      in if br = 0 then \<lparr>b32_out = b32_out s @ [byte_of cb], currentByte = 0, bitsRemaining = 8\<rparr>
         else s\<lparr>currentByte := cb, bitsRemaining := br\<rparr>)"

fun base32_bits :: "base32_state \<Rightarrow> nat \<Rightarrow> nat \<Rightarrow> base32_state" where
  "base32_bits s val 0 = s"
| "base32_bits s val (Suc bits) = base32_bits (base32_push_bit s ((val div 2 ^ bits) mod 2)) val bits"

fun base32_loop :: "base32_state \<Rightarrow> bytes \<Rightarrow> base32_state option" where
  "base32_loop s [] = Some s"
| "base32_loop s (c # cs) =
     (if c = CHR ''='' then Some s
      else case find_index ((=) c) base32_chars of
             None \<Rightarrow> None
           | Some val \<Rightarrow> base32_loop (base32_bits s val 5) cs)"

definition decodeFromBase32 :: "bytes \<Rightarrow> bytes" where
  "decodeFromBase32 base32Value =
     (case base32_loop \<lparr>b32_out = [], currentByte = 0, bitsRemaining = 8\<rparr> base32Value of
        None \<Rightarrow> []
      | Some s \<Rightarrow>
          if bitsRemaining s \<noteq> 8 \<and> bitsRemaining s < 5
          then b32_out s @ [byte_of (currentByte s * 2 ^ (bitsRemaining s + 3))]
          else b32_out s)"

section \<open>Base64\<close>

text \<open>
  \<open>bio_encode\<close> stands for writing through OpenSSL's \<^verbatim>\<open>BIO_f_base64\<close> without newlines and reading
  the memory BIO back, \<open>bio_decode\<close> for reading through it (\<open>None\<close>: a negative result).
\<close>

fun replace_char :: "char \<Rightarrow> char \<Rightarrow> bytes \<Rightarrow> bytes" where
  "replace_char a b [] = []"
| "replace_char a b (c # cs) = (if c = a then b else c) # replace_char a b cs"

definition encodeToBase64 :: "(bytes \<Rightarrow> bytes) \<Rightarrow> bytes \<Rightarrow> bool \<Rightarrow> bytes" where
  "encodeToBase64 bio_encode buf url =
     (let result = (if length buf > 0 then bio_encode buf else [])
      in if url
         then filter (\<lambda>c. c \<noteq> CHR ''='')
                (replace_char (CHR ''+'') (CHR ''-'') (replace_char (CHR ''/'') (CHR ''_'') result))
         else result)"

definition url_padding :: "bytes \<Rightarrow> bytes option" where
  "url_padding input =
     (if length input mod 4 = 0 then Some input
      else if length input mod 4 = 2 then Some (input @ ''=='')
      else if length input mod 4 = 3 then Some (input @ ''='')
      else None)"

definition decodeFromBase64 :: "(bytes \<Rightarrow> bytes option) \<Rightarrow> bytes \<Rightarrow> bool \<Rightarrow> bytes" where
  "decodeFromBase64 bio_decode input url =
     (let finish = (\<lambda>inputx. case bio_decode inputx of None \<Rightarrow> [] | Some r \<Rightarrow> r)
      in if url then
           (case url_padding input of
              None \<Rightarrow> []
            | Some inputurl \<Rightarrow>
                finish (replace_char (CHR ''-'') (CHR ''+'') (replace_char (CHR ''_'') (CHR ''/'') inputurl)))
         else finish input)"

text \<open>
  The obfuscated variants XOR every byte with the next output of a seeded
  \<^verbatim>\<open>std::uniform_int_distribution<char>\<close>, given here as the stream \<open>dis\<close>. The decoder is the
  library's own: it collects four characters at a time and stops at the first one that is not in the
  alphabet.
\<close>

definition m_b64Chars :: bytes where
  "m_b64Chars = ''ABCDEFGHIJKLMNOPQRSTUVWXYZabcdefghijklmnopqrstuvwxyz0123456789+/''"

text \<open>\<^verbatim>\<open>(unsigned char)m_b64Chars.find(c)\<close>; \<^verbatim>\<open>npos\<close> becomes 255.\<close>

definition b64_find :: "char \<Rightarrow> nat" where
  "b64_find c = (case find_index ((=) c) m_b64Chars of Some i \<Rightarrow> i | None \<Rightarrow> 255)"

definition xor_byte :: "char \<Rightarrow> char \<Rightarrow> char" where
  "xor_byte a b = byte_of (byte_val a XOR byte_val b)"

text \<open>The three bytes of four 6-bit values, in \<^verbatim>\<open>unsigned char\<close> arithmetic.\<close>

definition cont3_of :: "nat \<Rightarrow> nat \<Rightarrow> nat \<Rightarrow> nat \<Rightarrow> bytes" where
  "cont3_of c0 c1 c2 c3 =
     [byte_of (c0 * 4 + c1 div 16 mod 4),
      byte_of (c1 mod 16 * 16 + c2 div 4 mod 16),
      byte_of (c2 mod 4 * 64 + c3)]"

definition xor_stream :: "(nat \<Rightarrow> char) \<Rightarrow> nat \<Rightarrow> bytes \<Rightarrow> bytes" where
  "xor_stream dis k xs = map (\<lambda>(i, c). xor_byte c (dis (k + i))) (zip [0..<length xs] xs)"

definition decodeObf_rest :: "(nat \<Rightarrow> char) \<Rightarrow> nat \<Rightarrow> char list \<Rightarrow> bytes \<Rightarrow> bytes" where
  "decodeObf_rest dis k cont4 out =
     (case map b64_find cont4 of
        [] \<Rightarrow> out
      | [c0] \<Rightarrow> out
      | [c0, c1] \<Rightarrow> out @ xor_stream dis k (take 1 (cont3_of c0 c1 (b64_find (byte_of 0)) (b64_find (byte_of 0))))
      | c0 # c1 # c2 # _ \<Rightarrow> out @ xor_stream dis k (take 2 (cont3_of c0 c1 c2 (b64_find (byte_of 0)))))"

fun decodeObf_loop :: "(nat \<Rightarrow> char) \<Rightarrow> nat \<Rightarrow> char list \<Rightarrow> bytes \<Rightarrow> bytes \<Rightarrow> bytes" where
  "decodeObf_loop dis k cont4 input out =
     (case input of
        c # cs \<Rightarrow>
          if c \<noteq> CHR ''='' \<and> (is_alnum c \<or> c = CHR ''/'' \<or> c = CHR ''+'')
          then (case cont4 of
                  [x, y, z] \<Rightarrow>
                    decodeObf_loop dis (k + 3) [] cs
                      (out @ xor_stream dis k (cont3_of (b64_find x) (b64_find y) (b64_find z) (b64_find c)))
                | _ \<Rightarrow> decodeObf_loop dis k (cont4 @ [c]) cs out)
          else decodeObf_rest dis k cont4 out
      | [] \<Rightarrow> decodeObf_rest dis k cont4 out)"

definition decodeFromBase64Obf :: "(nat \<Rightarrow> char) \<Rightarrow> bytes \<Rightarrow> bytes" where
  "decodeFromBase64Obf dis sB64Buf = decodeObf_loop dis 0 [] sB64Buf []"

definition encodeToBase64Obf :: "(bytes \<Rightarrow> bytes) \<Rightarrow> (nat \<Rightarrow> char) \<Rightarrow> bytes \<Rightarrow> bytes" where
  "encodeToBase64Obf bio_encode dis buf = encodeToBase64 bio_encode (xor_stream dis 0 buf) False"

section \<open>URL encoding round trip\<close>

lemma hex_digit_upper_facts:
  "n < 16 \<Longrightarrow> hexToValue (hex_digit_upper n) = n"
  "n < 16 \<Longrightarrow> is_xdigit (hex_digit_upper n)"
  by (auto simp: hexToValue_def hex_digit_upper_def is_xdigit_def is_digit_def)

lemma byte_of_48: "byte_of (48::nat) = CHR ''0''"
  by code_simp

lemma toHex_high: "toHexFrom4bitChar c 1 = (if byte_val c < 128 then hex_digit_upper (byte_val c div 16) else CHR ''0'')"
proof (cases "byte_val c < 128")
  case True
  then have "tdiv (schar c) 16 = int (byte_val c div 16)" "byte_val c div 16 < 8"
    by (simp_all add: schar_def tdiv_pos_pos zdiv_int)
  with True show ?thesis by (simp add: toHexFrom4bitChar_def hex_digit_upper_def nat_less_iff)
next
  case False
  then have "schar c < 0" "-128 \<le> schar c" by (simp_all add: schar_def)
  then have "tdiv (schar c) 16 = - ((- schar c) div 16)" by (simp add: tdiv_neg_pos)
  then have "tdiv (schar c) 16 \<le> 0" using \<open>schar c < 0\<close> by (simp add: pos_imp_zdiv_nonneg_iff)
  with False show ?thesis by (auto simp: toHexFrom4bitChar_def Let_def byte_of_48)
qed

lemma toHex_low: "toHexFrom4bitChar c 2 = hex_digit_upper (byte_val c mod 16)"
proof -
  have "byte_val c mod 16 < 16" by simp
  then show ?thesis
    by (auto simp: toHexFrom4bitChar_def hex_digit_upper_def Let_def)
qed

text \<open>The text one byte contributes, and the byte that decoding it gives back.\<close>

definition url_char :: "URL_ENCODING_TYPE \<Rightarrow> char \<Rightarrow> bytes" where
  "url_char ty c =
     (if getIfMustBeURLEncoded c ty
      then [CHR ''%'', toHexFrom4bitChar c 1, toHexFrom4bitChar c 2] else [c])"

definition url_folded :: "char \<Rightarrow> char" where
  "url_folded c = (if byte_val c < 128 then c else byte_of (byte_val c mod 16))"

lemma length_url_chars:
  "length (concat (map (url_char ty) str)) = calcURLEncodingExpandedStringSize str ty"
  by (induction str) (auto simp: url_char_def)

lemma toURL_loop_eq:
  "toURL_loop ty str (pre @ replicate (calcURLEncodingExpandedStringSize str ty) z) (length pre)
     = pre @ concat (map (url_char ty) str)"
proof (induction str arbitrary: pre)
  case Nil
  show ?case by simp
next
  case (Cons c str)
  define n where "n = calcURLEncodingExpandedStringSize str ty"
  show ?case
  proof (cases "getIfMustBeURLEncoded c ty")
    case True
    have "(pre @ replicate (3 + n) z)[length pre := CHR ''%'', length pre + 1 := toHexFrom4bitChar c 1,
             length pre + 2 := toHexFrom4bitChar c 2]
        = (pre @ url_char ty c) @ replicate n z"
      using True by (simp add: url_char_def numeral_3_eq_3 numeral_2_eq_2 list_update_append)
    moreover have "length pre + 3 = length (pre @ url_char ty c)"
      using True by (simp add: url_char_def)
    ultimately show ?thesis
      using True Cons [of "pre @ url_char ty c"] by (simp add: n_def)
  next
    case False
    have "(pre @ replicate (Suc n) z)[length pre := c] = (pre @ [c]) @ replicate n z"
      by (simp add: list_update_append)
    then show ?thesis
      using False Cons [of "pre @ [c]"] by (simp add: n_def url_char_def)
  qed
qed

lemma toURL_eq: "toURL str ty = concat (map (url_char ty) str)"
  using toURL_loop_eq [of ty str "[]"] by (simp add: toURL_def)

lemma fromURL_plain: "c \<noteq> CHR ''%'' \<Longrightarrow> fromURL (c # xs) = c # fromURL xs"
  by (cases xs rule: fromURL.cases) auto

lemma fromURL_escape:
  "m < 16 \<Longrightarrow> n < 16 \<Longrightarrow>
     fromURL (CHR ''%'' # hex_digit_upper m # hex_digit_upper n # xs) = byte_of (m * 16 + n) # fromURL xs"
  by (simp add: hex_digit_upper_facts)

lemma fromURL_url_char:
  assumes "ty = STRICT_ENCODING \<or> c \<noteq> CHR ''%''"
  shows "fromURL (url_char ty c @ xs) = url_folded c # fromURL xs"
proof (cases "getIfMustBeURLEncoded c ty")
  case True
  have z: "CHR ''0'' = hex_digit_upper 0" by (simp add: hex_digit_upper_def byte_of_48)
  have "byte_val c div 16 < 16" by (simp add: less_mult_imp_div_less)
  then show ?thesis
    using True fromURL_escape [of "byte_val c div 16" "byte_val c mod 16" xs]
      fromURL_escape [of 0 "byte_val c mod 16" xs]
    by (simp add: url_char_def toHex_high [unfolded One_nat_def] toHex_low url_folded_def z
        del: fromURL.simps)
next
  case False
  then have "c \<noteq> CHR ''%''"
    using assms by (auto simp: getIfMustBeURLEncoded_def is_alnum_def is_alpha_def is_upper_def
        is_lower_def is_digit_def)
  moreover have "byte_val c < 128"
    using False schar_negative [of c]
    by (fastforce simp: getIfMustBeURLEncoded_def is_alnum_def is_alpha_def is_upper_def
        is_lower_def is_digit_def split: if_splits)
  ultimately show ?thesis
    using False by (simp add: url_char_def url_folded_def fromURL_plain)
qed

lemma fromURL_toURL_folded:
  "ty = STRICT_ENCODING \<or> CHR ''%'' \<notin> set str \<Longrightarrow> fromURL (toURL str ty) = map url_folded str"
  unfolding toURL_eq
  by (induction str) (auto simp: fromURL_url_char)

text \<open>
  Percent encoding round trip. \<^verbatim>\<open>fromURL\<close> inverts \<^verbatim>\<open>toURL\<close> on every string of 7-bit bytes, in
  strict mode always and in quoted-printable mode when the text has no percent sign. A byte of 128 or
  more is not preserved: the signed division by 16 makes its first hexadecimal digit zero, so that
  only its low four bits come back. The buffer size computed in advance is the exact length written.
\<close>

theorem url_roundtrip:
  assumes "ty = STRICT_ENCODING \<or> CHR ''%'' \<notin> set str"
  shows "fromURL (toURL str ty) = map (\<lambda>c. if byte_val c < 128 then c else byte_of (byte_val c mod 16)) str
       \<and> length (toURL str ty) = calcURLEncodingExpandedStringSize str ty"
  using fromURL_toURL_folded [OF assms] by (simp add: url_folded_def toURL_eq length_url_chars)

theorem url_roundtrip_witness:
  "fromURL (toURL ''a b/c?d=100%'' STRICT_ENCODING) = ''a b/c?d=100%''"
  using url_roundtrip [of STRICT_ENCODING "''a b/c?d=100%''"] by simp

section \<open>Hexadecimal round trip\<close>

lemma byte_of_nibbles: "byte_of (byte_val c div 16 * 16 + byte_val c mod 16) = c"
  by simp

lemma length_toHex [simp]: "length (toHex xs) = 2 * length xs"
  by (induction xs) auto

lemma fromHex_loop_toHex:
  "n \<le> length xs \<Longrightarrow> n \<le> length data \<Longrightarrow> fromHex_loop (toHex xs) n data = take n xs @ drop n data"
proof (induction xs arbitrary: n data)
  case Nil
  then show ?case by simp
next
  case (Cons c xs)
  show ?case
  proof (cases n)
    case 0
    then show ?thesis by simp
  next
    case (Suc m)
    with Cons.prems obtain d data' where "data = d # data'" by (cases data) auto
    moreover have "byte_val c div 16 < 16" by (simp add: less_mult_imp_div_less)
    ultimately show ?thesis
      using Cons Suc by (simp add: hex_digit_upper_facts byte_of_nibbles)
  qed
qed

text \<open>
  \<^verbatim>\<open>fromHex\<close> inverts \<^verbatim>\<open>toHex\<close>: decoding the hexadecimal text of a buffer into a destination
  writes back its first bytes, as many as the destination's limit allows, and leaves the rest of the
  destination untouched. The text has two digits per byte.
\<close>

theorem hex_roundtrip:
  assumes "min maxlen (length xs) \<le> length data"
  shows "fromHex (toHex xs) data maxlen = take maxlen xs @ drop (min maxlen (length xs)) data
       \<and> length (toHex xs) = 2 * length xs"
  using assms fromHex_loop_toHex [of maxlen xs data] fromHex_loop_toHex [of "length xs" xs data]
  by (auto simp: fromHex_def min_def)

theorem hex_roundtrip_witness:
  "fromHex (toHex ''key'') ''......'' 6 = ''key...''"
  using hex_roundtrip [of 6 "''key''" "''......''"] by simp

section \<open>Base32 round trip\<close>

text \<open>
  A reference encoder (RFC 4648): the bits of the bytes, most significant first, cut into groups of
  five that are filled up with zero bits, one character per group, and padded with \<^verbatim>\<open>=\<close> to a
  multiple of eight characters.
\<close>

definition nat_bits :: "nat \<Rightarrow> nat \<Rightarrow> nat list" where
  "nat_bits k v = map (\<lambda>i. (v div 2 ^ i) mod 2) (rev [0..<k])"

definition bits_val :: "nat list \<Rightarrow> nat" where
  "bits_val = foldl (\<lambda>v b. 2 * v + b) 0"

fun group5 :: "nat list \<Rightarrow> nat list list" where
  "group5 (a # b # c # d # e # rest) = [a, b, c, d, e] # group5 rest"
| "group5 [] = []"
| "group5 [a] = [[a, 0, 0, 0, 0]]"
| "group5 [a, b] = [[a, b, 0, 0, 0]]"
| "group5 [a, b, c] = [[a, b, c, 0, 0]]"
| "group5 [a, b, c, d] = [[a, b, c, d, 0]]"

definition bytes_bits :: "bytes \<Rightarrow> nat list" where
  "bytes_bits bs = concat (map (\<lambda>c. nat_bits 8 (byte_val c)) bs)"

definition base32_ref :: "bytes \<Rightarrow> bytes" where
  "base32_ref bs =
     (let cs = map (\<lambda>g. base32_chars ! bits_val g) (group5 (bytes_bits bs))
      in cs @ replicate ((8 - length cs mod 8) mod 8) (CHR ''=''))"

abbreviation base32_fold :: "nat list \<Rightarrow> base32_state \<Rightarrow> base32_state" where
  "base32_fold bs s \<equiv> foldl base32_push_bit s bs"

lemma nat_bits_Suc: "nat_bits (Suc k) v = (v div 2 ^ k) mod 2 # nat_bits k v"
  by (simp add: nat_bits_def)

lemma base32_bits_fold: "base32_bits s v k = base32_fold (nat_bits k v) s"
  by (induction k arbitrary: s) (simp_all add: nat_bits_Suc, simp add: nat_bits_def)

lemma group5_shape:
  "set xs \<subseteq> {0, 1} \<Longrightarrow> g \<in> set (group5 xs) \<Longrightarrow> length g = 5 \<and> set g \<subseteq> {0, 1}"
  by (induction xs rule: group5.induct) auto

lemma replicate_small: "replicate 2 x = [x, x]" "replicate 3 x = [x, x, x]" "replicate 4 x = [x, x, x, x]"
  by (simp_all add: numeral_eq_Suc)

lemma concat_group5: "concat (group5 xs) = xs @ replicate ((5 - length xs mod 5) mod 5) 0"
proof (induction xs rule: group5.induct)
  case (1 a b c d e rest)
  have "length (a # b # c # d # e # rest) mod 5 = length rest mod 5" by simp
  with 1 show ?case by (simp del: list.size)
qed (simp_all add: replicate_small)

lemma five_bits:
  assumes "length g = 5" and "set g \<subseteq> {0, 1}"
  shows "nat_bits 5 (bits_val g) = g" and "bits_val g < 32"
proof -
  obtain a b c d e where g: "g = [a, b, c, d, e]"
    using assms(1) by (auto simp: eval_nat_numeral length_Suc_conv)
  then have ab: "a = 0 \<or> a = 1" "b = 0 \<or> b = 1" "c = 0 \<or> c = 1" "d = 0 \<or> d = 1" "e = 0 \<or> e = 1"
    using assms(2) by auto
  have nb: "nat_bits 5 v = [v div 16 mod 2, v div 8 mod 2, v div 4 mod 2, v div 2 mod 2, v mod 2]" for v
  proof -
    have "[0..<5] = [0, 1, 2, 3, 4::nat]" by code_simp
    then show ?thesis by (simp add: nat_bits_def)
  qed
  show "nat_bits 5 (bits_val g) = g"
    using ab unfolding g nb bits_val_def by (elim disjE; simp)
  show "bits_val g < 32"
    using ab unfolding g bits_val_def by auto
qed

lemma base32_chars_props:
  "length base32_chars = 32" "distinct base32_chars" "CHR ''='' \<notin> set base32_chars"
  by (simp_all add: base32_chars_def)

lemma find_index_nth: "distinct xs \<Longrightarrow> i < length xs \<Longrightarrow> find_index ((=) (xs ! i)) xs = Some i"
  by (rule find_index_SomeI) (auto simp: nth_eq_iff_index_eq)

lemma base32_loop_groups:
  assumes "\<And>g. g \<in> set gs \<Longrightarrow> length g = 5 \<and> set g \<subseteq> {0, 1}"
  shows "base32_loop s (map (\<lambda>g. base32_chars ! bits_val g) gs @ replicate k (CHR ''=''))
           = Some (base32_fold (concat gs) s)"
  using assms
proof (induction gs arbitrary: s)
  case Nil
  show ?case by (cases k) simp_all
next
  case (Cons g gs)
  have g: "nat_bits 5 (bits_val g) = g" "bits_val g < 32"
    using five_bits [of g] Cons.prems by auto
  have "base32_chars ! bits_val g \<noteq> CHR ''=''"
    using g(2) base32_chars_props nth_mem [of "bits_val g" base32_chars] by metis
  moreover have "find_index ((=) (base32_chars ! bits_val g)) base32_chars = Some (bits_val g)"
    using g(2) base32_chars_props by (simp add: find_index_nth)
  ultimately show ?case using Cons.IH Cons.prems g(1) by (simp add: base32_bits_fold)
qed

lemma div_double: "2 * (v div (2 * m)) + v div m mod 2 = v div (m::nat)"
proof -
  have "v div (2 * m) = v div m div 2" by (metis div_mult2_eq mult.commute)
  then show ?thesis by simp
qed

lemma byte_horner:
  assumes "v < (256::nat)"
  shows "2 * (2 * (2 * (2 * (2 * (2 * (2 * (v div 128 mod 2) + v div 64 mod 2) + v div 32 mod 2)
      + v div 16 mod 2) + v div 8 mod 2) + v div 4 mod 2) + v div 2 mod 2) + v mod 2 = v"
proof -
  have "v div 128 mod 2 = v div 128" using assms by (simp add: less_mult_imp_div_less)
  then show ?thesis
    using div_double [of v 64] div_double [of v 32] div_double [of v 16] div_double [of v 8]
      div_double [of v 4] div_double [of v 2] by simp
qed

lemma base32_fold_byte:
  "base32_fold (nat_bits 8 (byte_val c)) \<lparr>b32_out = out, currentByte = 0, bitsRemaining = 8\<rparr>
     = \<lparr>b32_out = out @ [c], currentByte = 0, bitsRemaining = 8\<rparr>"
proof -
  have nb: "nat_bits 8 v = [v div 128 mod 2, v div 64 mod 2, v div 32 mod 2, v div 16 mod 2,
      v div 8 mod 2, v div 4 mod 2, v div 2 mod 2, v mod 2]" for v
  proof -
    have "[0..<8] = [0, 1, 2, 3, 4, 5, 6, 7::nat]" by code_simp
    then show ?thesis by (simp add: nat_bits_def)
  qed
  have "base32_fold (nat_bits 8 v) \<lparr>b32_out = out, currentByte = 0, bitsRemaining = 8\<rparr>
     = \<lparr>b32_out = out @ [byte_of v], currentByte = 0, bitsRemaining = 8\<rparr>" if "v < 256" for v
    using byte_horner [OF that] by (simp add: nb base32_push_bit_def Let_def)
  from this [of "byte_val c"] show ?thesis by simp
qed

lemma base32_fold_bytes:
  "base32_fold (bytes_bits bs) \<lparr>b32_out = out, currentByte = 0, bitsRemaining = 8\<rparr>
     = \<lparr>b32_out = out @ bs, currentByte = 0, bitsRemaining = 8\<rparr>"
  by (induction bs arbitrary: out) (simp_all add: bytes_bits_def base32_fold_byte)

lemma base32_fold_zeros:
  "k < 8 \<Longrightarrow> base32_fold (replicate k 0) \<lparr>b32_out = out, currentByte = 0, bitsRemaining = 8\<rparr>
     = \<lparr>b32_out = out, currentByte = 0, bitsRemaining = 8 - k\<rparr>"
proof (induction k)
  case 0
  show ?case by simp
next
  case (Suc k)
  have "replicate (Suc k) (0::nat) = replicate k 0 @ [0]" by (simp add: replicate_append_same)
  with Suc show ?case by (simp add: base32_push_bit_def del: replicate_Suc)
qed

lemma length_bytes_bits: "length (bytes_bits bs) = 8 * length bs"
  by (induction bs) (simp_all add: bytes_bits_def nat_bits_def)

lemma set_bytes_bits: "set (bytes_bits bs) \<subseteq> {0, 1}"
  by (auto simp: bytes_bits_def nat_bits_def)

lemma base32_padding_bits:
  "(5 - 8 * n mod 5) mod 5 < 5 \<and> ((5 - 8 * n mod 5) mod 5 = 4 \<longleftrightarrow> n mod 5 = (2::nat))"
proof -
  define q r where "q = n div 5" and "r = n mod 5"
  have n: "n = 5 * q + r" and r: "r = 0 \<or> r = 1 \<or> r = 2 \<or> r = 3 \<or> r = 4"
    by (auto simp: q_def r_def)
  have "8 * n = 3 * r + (8 * q + r) * 5" unfolding n by simp
  then have "8 * n mod 5 = 3 * r mod 5" by (simp only: mod_mult_self1)
  with r show ?thesis unfolding r_def [symmetric] by (elim disjE) simp_all
qed

text \<open>
  Base32 round trip. Decoding the RFC 4648 encoding of a secret gives the secret back, except
  that a spurious zero byte is appended when the length of the secret is 2 modulo 5: the decoder
  treats the four padding bits as the start of another byte.
\<close>

theorem base32_roundtrip:
  "decodeFromBase32 (base32_ref bs) = bs @ (if length bs mod 5 = 2 then [byte_of 0] else [])"
proof -
  define k where "k = (5 - (8 * length bs) mod 5) mod 5"
  let ?init = "\<lparr>b32_out = [], currentByte = 0, bitsRemaining = 8\<rparr>"
  have "base32_fold (concat (group5 (bytes_bits bs))) ?init
      = \<lparr>b32_out = bs, currentByte = 0, bitsRemaining = 8 - k\<rparr>"
    using base32_fold_bytes [where bs = bs and out = "[]"] base32_fold_zeros [where k = k and out = bs]
    by (simp add: concat_group5 length_bytes_bits k_def)
  then have loop: "base32_loop ?init (base32_ref bs) = Some \<lparr>b32_out = bs, currentByte = 0, bitsRemaining = 8 - k\<rparr>"
    using base32_loop_groups [of "group5 (bytes_bits bs)"] group5_shape [OF set_bytes_bits]
    by (simp add: base32_ref_def Let_def)
  have "k < 5 \<and> (k = 4 \<longleftrightarrow> length bs mod 5 = 2)"
    unfolding k_def by (rule base32_padding_bits)
  then show ?thesis
    unfolding decodeFromBase32_def loop by auto
qed

section \<open>Base64 round trips\<close>

text \<open>The RFC 4648 encoding, which OpenSSL's base64 filter documents as its output.\<close>

fun base64_ref :: "bytes \<Rightarrow> bytes" where
  "base64_ref [] = []"
| "base64_ref [a] =
     [m_b64Chars ! (byte_val a div 4), m_b64Chars ! (byte_val a mod 4 * 16), CHR ''='', CHR ''='']"
| "base64_ref [a, b] =
     [m_b64Chars ! (byte_val a div 4), m_b64Chars ! (byte_val a mod 4 * 16 + byte_val b div 16),
      m_b64Chars ! (byte_val b mod 16 * 4), CHR ''='']"
| "base64_ref (a # b # c # rest) =
     [m_b64Chars ! (byte_val a div 4), m_b64Chars ! (byte_val a mod 4 * 16 + byte_val b div 16),
      m_b64Chars ! (byte_val b mod 16 * 4 + byte_val c div 64), m_b64Chars ! (byte_val c mod 64)]
     @ base64_ref rest"

lemma b64Chars_props: "length m_b64Chars = 64" "distinct m_b64Chars"
  by (simp_all add: m_b64Chars_def)

lemma b64Chars_mem:
  "c \<in> set m_b64Chars \<Longrightarrow>
     c \<noteq> CHR ''='' \<and> c \<noteq> CHR ''-'' \<and> c \<noteq> CHR ''_'' \<and> (is_alnum c \<or> c = CHR ''/'' \<or> c = CHR ''+'')"
proof -
  have "list_all (\<lambda>c. c \<noteq> CHR ''='' \<and> c \<noteq> CHR ''-'' \<and> c \<noteq> CHR ''_''
      \<and> (is_alnum c \<or> c = CHR ''/'' \<or> c = CHR ''+'')) m_b64Chars"
    by code_simp
  then show "c \<in> set m_b64Chars \<Longrightarrow> c \<noteq> CHR ''='' \<and> c \<noteq> CHR ''-'' \<and> c \<noteq> CHR ''_''
      \<and> (is_alnum c \<or> c = CHR ''/'' \<or> c = CHR ''+'')" by (simp add: list_all_iff)
qed

lemma b64Chars_nth_mem: "i < 64 \<Longrightarrow> m_b64Chars ! i \<in> set m_b64Chars"
  using nth_mem [of i m_b64Chars] by (simp add: b64Chars_props)

lemma b64_find_nth: "i < 64 \<Longrightarrow> b64_find (m_b64Chars ! i) = i"
  by (simp add: b64_find_def find_index_nth b64Chars_props)

lemma sextet_bounds:
  "byte_val a div 4 < 64" "byte_val a mod 4 * 16 < 64" "byte_val a mod 4 * 16 + byte_val b div 16 < 64"
  "byte_val b mod 16 * 4 < 64" "byte_val b mod 16 * 4 + byte_val c div 64 < 64" "byte_val c mod 64 < 64"
proof -
  have d: "byte_val a div 4 < 64" "byte_val b div 16 < 16" "byte_val c div 64 < 4"
    by (simp_all add: less_mult_imp_div_less)
  have m: "byte_val a mod 4 < 4" "byte_val b mod 16 < 16" by simp_all
  show "byte_val a div 4 < 64" "byte_val a mod 4 * 16 < 64" "byte_val a mod 4 * 16 + byte_val b div 16 < 64"
    "byte_val b mod 16 * 4 < 64" "byte_val b mod 16 * 4 + byte_val c div 64 < 64" "byte_val c mod 64 < 64"
    using d m by simp_all
qed

text \<open>The encoding is characters of the alphabet followed by at most two padding characters.\<close>

lemma base64_ref_shape:
  "\<exists>body k. base64_ref bs = body @ replicate k (CHR ''='') \<and> set body \<subseteq> set m_b64Chars
     \<and> k \<le> 2 \<and> (length body + k) mod 4 = 0"
proof (induction bs rule: base64_ref.induct)
  case 1
  show ?case by (intro exI [of _ "[]"] exI [of _ 0]) simp
next
  case (2 a)
  show ?case
    by (intro exI [of _ "[m_b64Chars ! (byte_val a div 4), m_b64Chars ! (byte_val a mod 4 * 16)]"] exI [of _ 2])
      (simp add: replicate_small b64Chars_nth_mem sextet_bounds)
next
  case (3 a b)
  show ?case
    by (intro exI [of _ "[m_b64Chars ! (byte_val a div 4),
          m_b64Chars ! (byte_val a mod 4 * 16 + byte_val b div 16), m_b64Chars ! (byte_val b mod 16 * 4)]"]
        exI [of _ 1]) (simp add: b64Chars_nth_mem sextet_bounds)
next
  case (4 a b c rest)
  then obtain body k where IH: "base64_ref rest = body @ replicate k (CHR ''='')"
    "set body \<subseteq> set m_b64Chars" "k \<le> 2" "(length body + k) mod 4 = 0" by metis
  define quad where "quad = [m_b64Chars ! (byte_val a div 4), m_b64Chars ! (byte_val a mod 4 * 16 + byte_val b div 16),
      m_b64Chars ! (byte_val b mod 16 * 4 + byte_val c div 64), m_b64Chars ! (byte_val c mod 64)]"
  have "set quad \<subseteq> set m_b64Chars" "length quad = 4"
    by (simp_all add: quad_def b64Chars_nth_mem sextet_bounds)
  moreover have "(length (quad @ body) + k) mod 4 = (length body + k) mod 4"
    by (simp add: \<open>length quad = 4\<close> add.assoc)
  moreover have "base64_ref (a # b # c # rest) = (quad @ body) @ replicate k (CHR ''='')"
    using IH(1) by (simp add: quad_def)
  ultimately show ?case using IH
    by (intro exI [of _ "quad @ body"] exI [of _ k]) simp
qed

lemma replace_char_append: "replace_char a b (xs @ ys) = replace_char a b xs @ replace_char a b ys"
  by (induction xs) auto

lemma length_replace_char [simp]: "length (replace_char a b xs) = length xs"
  by (induction xs) auto

lemma replace_char_map: "replace_char a b = map (\<lambda>c. if c = a then b else c)"
proof
  show "replace_char a b xs = map (\<lambda>c. if c = a then b else c) xs" for xs
    by (induction xs) auto
qed

text \<open>The two alphabets are translated into each other.\<close>

definition to_url_alphabet :: "bytes \<Rightarrow> bytes" where
  "to_url_alphabet xs = replace_char (CHR ''+'') (CHR ''-'') (replace_char (CHR ''/'') (CHR ''_'') xs)"

definition from_url_alphabet :: "bytes \<Rightarrow> bytes" where
  "from_url_alphabet xs = replace_char (CHR ''-'') (CHR ''+'') (replace_char (CHR ''_'') (CHR ''/'') xs)"

lemma url_alphabet_inverse: "set xs \<subseteq> set m_b64Chars \<Longrightarrow> from_url_alphabet (to_url_alphabet xs) = xs"
  by (auto simp: to_url_alphabet_def from_url_alphabet_def replace_char_map comp_def
      intro!: map_idI dest!: b64Chars_mem subsetD)

lemma to_url_no_pad: "set xs \<subseteq> set m_b64Chars \<Longrightarrow> filter (\<lambda>c. c \<noteq> CHR ''='') (to_url_alphabet xs) = to_url_alphabet xs"
  by (auto simp: to_url_alphabet_def replace_char_map filter_id_conv dest!: b64Chars_mem subsetD)

lemma to_url_pad: "to_url_alphabet (xs @ replicate k (CHR ''='')) = to_url_alphabet xs @ replicate k (CHR ''='')"
  by (simp add: to_url_alphabet_def replace_char_map)

lemma from_url_pad: "from_url_alphabet (xs @ replicate k (CHR ''='')) = from_url_alphabet xs @ replicate k (CHR ''='')"
  by (simp add: from_url_alphabet_def replace_char_map)

lemma url_padding_restores:
  assumes "k \<le> 2" and "(length xs + k) mod 4 = 0"
  shows "url_padding xs = Some (xs @ replicate k (CHR ''=''))"
proof -
  have "(k = 0 \<and> length xs mod 4 = 0) \<or> (k = 1 \<and> length xs mod 4 = 3) \<or> (k = 2 \<and> length xs mod 4 = 2)"
    using assms by presburger
  then show ?thesis by (elim disjE) (simp_all add: url_padding_def replicate_small)
qed

lemma base64url_inverse:
  assumes enc: "bio_encode buf = base64_ref buf" and dec: "bio_decode (base64_ref buf) = Some buf"
  shows "decodeFromBase64 bio_decode (encodeToBase64 bio_encode buf True) True = buf"
    and "set (encodeToBase64 bio_encode buf True) \<subseteq> set (to_url_alphabet m_b64Chars)"
proof -
  define e where "e = (if length buf > 0 then base64_ref buf else [])"
  have e: "e = base64_ref buf" by (cases buf) (simp_all add: e_def)
  obtain body k where b: "base64_ref buf = body @ replicate k (CHR ''='')" "set body \<subseteq> set m_b64Chars"
    "k \<le> 2" "(length body + k) mod 4 = 0"
    using base64_ref_shape [of buf] by metis
  have "encodeToBase64 bio_encode buf True = filter (\<lambda>c. c \<noteq> CHR ''='') (to_url_alphabet e)"
    using enc by (simp add: encodeToBase64_def to_url_alphabet_def e_def Let_def)
  also have "\<dots> = to_url_alphabet body"
    using b by (simp add: e to_url_pad to_url_no_pad)
  finally have enc_eq: "encodeToBase64 bio_encode buf True = to_url_alphabet body" .
  have "url_padding (to_url_alphabet body) = Some (to_url_alphabet body @ replicate k (CHR ''=''))"
    using b by (intro url_padding_restores) (simp_all add: to_url_alphabet_def)
  moreover have "from_url_alphabet (to_url_alphabet body @ replicate k (CHR ''='')) = base64_ref buf"
    using b by (simp add: from_url_pad url_alphabet_inverse)
  ultimately show "decodeFromBase64 bio_decode (encodeToBase64 bio_encode buf True) True = buf"
    using dec by (simp add: decodeFromBase64_def enc_eq from_url_alphabet_def)
  show "set (encodeToBase64 bio_encode buf True) \<subseteq> set (to_url_alphabet m_b64Chars)"
    using b(2) unfolding enc_eq by (auto simp: to_url_alphabet_def replace_char_map)
qed

text \<open>
  Base64url round trip, the encoding of every JWT segment: when OpenSSL's filters encode as
  RFC 4648 prescribes and decode what they encoded, \<^verbatim>\<open>decodeFromBase64(encodeToBase64(buf, true), true)\<close>
  is \<open>buf\<close>. The alphabet is translated both ways and the stripped padding is restored exactly.
\<close>

theorem base64url_roundtrip:
  assumes "bio_encode buf = base64_ref buf" and "bio_decode (base64_ref buf) = Some buf"
  shows "decodeFromBase64 bio_decode (encodeToBase64 bio_encode buf True) True = buf"
  by (rule base64url_inverse(1)) (rule assms)+

theorem base64url_roundtrip_witness:
  "decodeFromBase64 (\<lambda>x. if x = ''Pz8+'' then Some ''??>'' else Some [])
     (encodeToBase64 base64_ref ''??>'' True) True = ''??>''"
  by (rule base64url_roundtrip) (simp_all add: m_b64Chars_def)

lemma xor_byte_cancel: "xor_byte (xor_byte a k) k = a"
proof -
  have "(byte_val a XOR byte_val k) mod 256 = take_bit 8 (byte_val a XOR byte_val k)"
    by (simp add: take_bit_eq_mod)
  also have "\<dots> = take_bit 8 (byte_val a) XOR take_bit 8 (byte_val k)"
    by (rule take_bit_xor)
  also have "\<dots> = byte_val a XOR byte_val k"
    by (simp add: take_bit_eq_mod)
  finally have "xor_byte (xor_byte a k) k = byte_of (byte_val a XOR (byte_val k XOR byte_val k))"
    by (simp add: xor_byte_def xor.assoc)
  then show ?thesis by simp
qed

lemma xor_stream_Nil [simp]: "xor_stream dis k [] = []"
  by (simp add: xor_stream_def)

lemma xor_stream_Cons [simp]: "xor_stream dis k (c # cs) = xor_byte c (dis k) # xor_stream dis (Suc k) cs"
proof -
  have "zip [0..<Suc n] (c # xs) = (0, c) # map (\<lambda>(i, d). (Suc i, d)) (zip [0..<n] xs)" for n and xs :: bytes
    by (simp add: upt_conv_Cons map_Suc_upt [symmetric] zip_map1 del: upt_Suc map_Suc_upt)
  then show ?thesis by (simp add: xor_stream_def comp_def case_prod_unfold del: upt_Suc)
qed

lemma xor_stream_inverse: "xor_stream dis k (xor_stream dis k xs) = xs"
  by (induction xs arbitrary: k) (simp_all add: xor_byte_cancel)

lemma cont3_of_sextets:
  "cont3_of (byte_val a div 4) (byte_val a mod 4 * 16 + byte_val b div 16)
     (byte_val b mod 16 * 4 + byte_val c div 64) (byte_val c mod 64) = [a, b, c]"
proof -
  have d: "byte_val b div 16 < 16" "byte_val c div 64 < 4" by (simp_all add: less_mult_imp_div_less)
  have "(byte_val a mod 4 * 16 + byte_val b div 16) div 16 mod 4 = byte_val a mod 4"
    "(byte_val a mod 4 * 16 + byte_val b div 16) mod 16 = byte_val b div 16"
    "(byte_val b mod 16 * 4 + byte_val c div 64) div 4 mod 16 = byte_val b mod 16"
    "(byte_val b mod 16 * 4 + byte_val c div 64) mod 4 = byte_val c div 64"
    using d by simp_all
  then show ?thesis by (simp add: cont3_of_def)
qed

declare decodeObf_loop.simps [simp del]

text \<open>The steps of the decoding loop on characters of the alphabet and at the padding.\<close>

lemma decodeObf_collect:
  assumes "c \<in> set m_b64Chars" and "length cont4 < 3"
  shows "decodeObf_loop dis k cont4 (c # cs) out = decodeObf_loop dis k (cont4 @ [c]) cs out"
  using assms b64Chars_mem [OF assms(1)]
  by (subst decodeObf_loop.simps) (auto split: list.splits)

lemma decodeObf_emit:
  assumes "c \<in> set m_b64Chars"
  shows "decodeObf_loop dis k [x, y, z] (c # cs) out =
           decodeObf_loop dis (k + 3) [] cs
             (out @ xor_stream dis k (cont3_of (b64_find x) (b64_find y) (b64_find z) (b64_find c)))"
  using b64Chars_mem [OF assms] by (subst decodeObf_loop.simps) simp

lemma decodeObf_stop:
  "decodeObf_loop dis k cont4 [] out = decodeObf_rest dis k cont4 out"
  "decodeObf_loop dis k cont4 (CHR ''='' # cs) out = decodeObf_rest dis k cont4 out"
  by (subst decodeObf_loop.simps, simp)+

lemmas decodeObf_steps = decodeObf_collect decodeObf_emit decodeObf_stop decodeObf_rest_def
  b64Chars_nth_mem b64_find_nth sextet_bounds

lemma decodeObf_base64_ref:
  "decodeObf_loop dis k [] (base64_ref ys) out = out @ xor_stream dis k ys"
proof (induction ys arbitrary: k out rule: base64_ref.induct)
  case 1
  show ?case by (simp add: decodeObf_steps)
next
  case (2 a)
  show ?case
    using cont3_of_sextets [of a "byte_of 0" "byte_of 0"]
    by (simp add: decodeObf_steps cont3_of_def)
next
  case (3 a b)
  show ?case
    using cont3_of_sextets [of a b "byte_of 0"]
    by (simp add: decodeObf_steps cont3_of_def numeral_2_eq_2)
next
  case (4 a b c rest)
  then show ?case
    by (simp add: decodeObf_steps cont3_of_sextets numeral_3_eq_3)
qed

text \<open>
  The obfuscated base64 codec: with the same key stream, the library's own base64 decoder inverts
  the encoder built on OpenSSL's filter, for every buffer and every stream of generated bytes.
\<close>

theorem base64_obf_roundtrip:
  assumes "bio_encode (xor_stream dis 0 buf) = base64_ref (xor_stream dis 0 buf)"
  shows "decodeFromBase64Obf dis (encodeToBase64Obf bio_encode dis buf) = buf"
proof -
  have "encodeToBase64Obf bio_encode dis buf = base64_ref (xor_stream dis 0 buf)"
    using assms by (cases buf) (simp_all add: encodeToBase64Obf_def encodeToBase64_def)
  then show ?thesis
    by (simp add: decodeFromBase64Obf_def decodeObf_base64_ref xor_stream_inverse)
qed

theorem base64_obf_roundtrip_witness:
  "decodeFromBase64Obf (\<lambda>i. byte_of (7 * i)) (encodeToBase64Obf base64_ref (\<lambda>i. byte_of (7 * i)) ''password'')
     = ''password''"
  by (rule base64_obf_roundtrip) (rule refl)

section \<open>Codecs\<close>

text \<open>
  A pair of functions that encode as RFC 4648 prescribes and decode what they encode, as documented for
  OpenSSL's filter. The library's own decoder, with a key stream of zeros, is such a decoder.
\<close>

locale base64_codec =
  fixes bio_encode :: "bytes \<Rightarrow> bytes"
    and bio_decode :: "bytes \<Rightarrow> bytes option"
  assumes encode_ref: "bio_encode buf = base64_ref buf"
    and decode_ref: "bio_decode (base64_ref buf) = Some buf"
begin

lemma url_decode_encode: "decodeFromBase64 bio_decode (encodeToBase64 bio_encode buf True) True = buf"
  by (rule base64url_inverse(1)) (rule encode_ref, rule decode_ref)

lemma url_encode_alphabet: "set (encodeToBase64 bio_encode buf True) \<subseteq> set (to_url_alphabet m_b64Chars)"
  by (rule base64url_inverse(2)) (rule encode_ref, rule decode_ref)

lemma url_encode_no_dot: "CHR ''.'' \<notin> set (encodeToBase64 bio_encode buf True)"
proof -
  have "CHR ''.'' \<notin> set (to_url_alphabet m_b64Chars)"
    by (simp add: to_url_alphabet_def m_b64Chars_def)
  then show ?thesis using url_encode_alphabet by blast
qed

end

definition own_base64_decode :: "bytes \<Rightarrow> bytes option" where
  "own_base64_decode x = Some (decodeFromBase64Obf (\<lambda>_. byte_of 0) x)"

interpretation own_codec: base64_codec base64_ref own_base64_decode
proof
  have zero: "xor_byte c (byte_of 0) = c" for c
    by (simp add: xor_byte_def)
  have "xor_stream (\<lambda>_. byte_of 0) 0 buf = buf" for buf :: bytes
    by (simp add: xor_stream_def zero split_def flip: map_map)
  then show "own_base64_decode (base64_ref buf) = Some buf" for buf
    by (simp add: own_base64_decode_def decodeFromBase64Obf_def decodeObf_base64_ref)
qed (rule refl)

end
