(* ===== verification/Text.thy ===== *)
theory Text
  imports Prelude
begin

text \<open>
  The text functions of the standard library and of Boost that the protocol code calls: ordered maps and
  multimaps keyed by strings, case conversion, trimming, splitting with compressed delimiters, and decimal
  numbers.
\<close>

section \<open>Maps keyed by strings\<close>

text \<open>\<^verbatim>\<open>std::string\<close> keys are ordered by their bytes, as unsigned values.\<close>

fun bytes_less :: "bytes \<Rightarrow> bytes \<Rightarrow> bool" where
  "bytes_less [] ys = (ys \<noteq> [])"
| "bytes_less (x # xs) [] = False"
| "bytes_less (x # xs) (y # ys) = (byte_val x < byte_val y \<or> (x = y \<and> bytes_less xs ys))"

text \<open>\<^verbatim>\<open>std::map\<close>: assignment to a key; \<^verbatim>\<open>std::multimap\<close>: insertion behind the equal keys, and the values of a key.\<close>

fun assoc_update :: "bytes \<Rightarrow> 'v \<Rightarrow> (bytes \<times> 'v) list \<Rightarrow> (bytes \<times> 'v) list" where
  "assoc_update k v [] = [(k, v)]"
| "assoc_update k v ((k', v') # ms) =
     (if k = k' then (k, v) # ms
      else if bytes_less k k' then (k, v) # (k', v') # ms
      else (k', v') # assoc_update k v ms)"

fun mm_insert :: "bytes \<Rightarrow> 'v \<Rightarrow> (bytes \<times> 'v) list \<Rightarrow> (bytes \<times> 'v) list" where
  "mm_insert k v [] = [(k, v)]"
| "mm_insert k v ((k', v') # ms) = (if bytes_less k k' then (k, v) # (k', v') # ms else (k', v') # mm_insert k v ms)"

definition mm_range :: "bytes \<Rightarrow> (bytes \<times> 'v) list \<Rightarrow> 'v list" where
  "mm_range k ms = map snd (filter (\<lambda>e. fst e = k) ms)"

definition mm_erase :: "bytes \<Rightarrow> (bytes \<times> 'v) list \<Rightarrow> (bytes \<times> 'v) list" where
  "mm_erase k ms = filter (\<lambda>e. fst e \<noteq> k) ms"

definition mm_sorted :: "(bytes \<times> 'v) list \<Rightarrow> bool" where
  "mm_sorted ms \<longleftrightarrow> sorted_wrt (\<lambda>x y. \<not> bytes_less (fst y) (fst x)) ms"

lemma map_of_assoc_update [simp]: "map_of (assoc_update k v ms) x = (if x = k then Some v else map_of ms x)"
  by (induction ms) auto

lemma bytes_less_irrefl [simp]: "\<not> bytes_less k k"
  by (induction k) auto

lemma bytes_less_trans: "bytes_less a b \<Longrightarrow> bytes_less b c \<Longrightarrow> bytes_less a c"
proof (induction a b arbitrary: c rule: bytes_less.induct)
  case (1 ys)
  then show ?case by (cases c; cases ys) auto
next
  case (3 x xs y ys)
  then show ?case by (cases c) auto
qed simp

lemma bytes_less_total: "a \<noteq> b \<Longrightarrow> bytes_less a b \<or> bytes_less b a"
proof (induction a b rule: bytes_less.induct)
  case (3 x xs y ys)
  have "x \<noteq> y \<Longrightarrow> byte_val x < byte_val y \<or> byte_val y < byte_val x" by (metis byte_val_inject nat_neq_iff)
  with 3 show ?case by auto
qed auto

lemma bytes_less_antisym: "bytes_less a b \<Longrightarrow> \<not> bytes_less b a"
  using bytes_less_trans bytes_less_irrefl by blast

lemma set_mm_insert [simp]: "set (mm_insert k v ms) = insert (k, v) (set ms)"
  by (induction ms) (auto split: if_splits)

lemma length_mm_insert [simp]: "length (mm_insert k v ms) = Suc (length ms)"
  by (induction ms) auto

text \<open>Insertion keeps the order, and puts the value behind the values of the same key.\<close>

lemma mm_insert_last: "(\<And>e. e \<in> set ms \<Longrightarrow> \<not> bytes_less k (fst e)) \<Longrightarrow> mm_insert k v ms = ms @ [(k, v)]"
proof (induction ms)
  case (Cons e ms)
  then have "\<not> bytes_less k (fst e)" "mm_insert k v ms = ms @ [(k, v)]" by simp_all
  then show ?case by (cases e) simp
qed simp

lemma mm_insert_sorted: "mm_sorted ms \<Longrightarrow> mm_sorted (mm_insert k v ms)"
proof (induction ms)
  case (Cons e ms)
  obtain k' v' where e: "e = (k', v')" by (cases e)
  show ?case
  proof (cases "bytes_less k k'")
    case True
    have "\<not> bytes_less (fst x) k" if "x \<in> set ms" for x
    proof
      assume "bytes_less (fst x) k"
      then have "bytes_less (fst x) k'" using True bytes_less_trans by blast
      then show False using Cons.prems that by (auto simp: mm_sorted_def e)
    qed
    then show ?thesis using True Cons.prems bytes_less_antisym by (auto simp: mm_sorted_def e)
  next
    case False
    then show ?thesis using Cons by (auto simp: mm_sorted_def e)
  qed
qed (simp add: mm_sorted_def)

lemma mm_range_insert: "mm_sorted ms \<Longrightarrow> mm_range x (mm_insert k v ms) = (if x = k then mm_range k ms @ [v] else mm_range x ms)"
proof (induction ms)
  case (Cons e ms)
  obtain k' v' where e: "e = (k', v')" by (cases e)
  have tail: "mm_sorted ms" using Cons.prems by (simp add: mm_sorted_def)
  show ?case
  proof (cases "bytes_less k k'")
    case True
    have "fst y \<noteq> k" if "y \<in> set (e # ms)" for y
    proof
      assume "fst y = k"
      then show False using True that Cons.prems by (auto simp: e mm_sorted_def)
    qed
    then have "filter (\<lambda>y. fst y = k) (e # ms) = []" unfolding filter_empty_conv by blast
    then show ?thesis using True by (simp add: mm_range_def e)
  next
    case False
    then show ?thesis using Cons.IH [OF tail] by (auto simp: mm_range_def e)
  qed
qed (simp add: mm_range_def)

lemma mm_range_erase: "mm_range x (mm_erase k ms) = (if x = k then [] else mm_range x ms)"
  by (induction ms) (auto simp: mm_range_def mm_erase_def)

lemma mm_erase_sorted: "mm_sorted ms \<Longrightarrow> mm_sorted (mm_erase k ms)"
  by (simp add: mm_sorted_def mm_erase_def sorted_wrt_filter)

section \<open>Case and blanks\<close>

definition to_upper_copy :: "bytes \<Rightarrow> bytes" where
  "to_upper_copy = map to_upper"

definition to_lower_copy :: "bytes \<Rightarrow> bytes" where
  "to_lower_copy = map to_lower"

definition iequals :: "bytes \<Rightarrow> bytes \<Rightarrow> bool" where
  "iequals a b \<longleftrightarrow> to_upper_copy a = to_upper_copy b"

definition starts_with :: "bytes \<Rightarrow> bytes \<Rightarrow> bool" where
  "starts_with xs p \<longleftrightarrow> take (length p) xs = p"

definition istarts_with :: "bytes \<Rightarrow> bytes \<Rightarrow> bool" where
  "istarts_with xs p \<longleftrightarrow> length p \<le> length xs \<and> iequals (take (length p) xs) p"

definition is_space :: "char \<Rightarrow> bool" where
  "is_space c \<longleftrightarrow> byte_val c = 32 \<or> (9 \<le> byte_val c \<and> byte_val c \<le> 13)"

definition trim :: "bytes \<Rightarrow> bytes" where
  "trim xs = rev (dropWhile is_space (rev (dropWhile is_space xs)))"

text \<open>The text up to the first NUL, where a \<^verbatim>\<open>std::string\<close> is passed on through \<^verbatim>\<open>c_str()\<close>.\<close>

definition c_str :: "bytes \<Rightarrow> bytes" where
  "c_str xs = takeWhile (\<lambda>c. c \<noteq> byte_of 0) xs"

lemma trim_id: "(xs = [] \<or> \<not> is_space (hd xs) \<and> \<not> is_space (last xs)) \<Longrightarrow> trim xs = xs"
proof -
  assume a: "xs = [] \<or> \<not> is_space (hd xs) \<and> \<not> is_space (last xs)"
  have d: "dropWhile is_space ys = ys" if "ys = [] \<or> \<not> is_space (hd ys)" for ys using that by (cases ys) auto
  have "dropWhile is_space (rev xs) = rev xs" by (rule d) (use a in \<open>auto simp: hd_rev\<close>)
  moreover have "dropWhile is_space xs = xs" by (rule d) (use a in auto)
  ultimately show ?thesis by (simp add: trim_def)
qed

lemma trim_leading: "is_space c \<Longrightarrow> trim (c # xs) = trim xs"
  by (simp add: trim_def)

lemma c_str_id: "byte_of 0 \<notin> set xs \<Longrightarrow> c_str xs = xs"
  by (auto simp: c_str_def takeWhile_eq_all_conv)

lemma iequals_refl [simp]: "iequals a a"
  by (simp add: iequals_def)

section \<open>Splitting\<close>

text \<open>
  \<^verbatim>\<open>boost::split\<close> with \<^verbatim>\<open>token_compress_on\<close>: a run of delimiters separates two tokens; a run at an end of
  the text gives an empty token there.
\<close>

function split_compress :: "(char \<Rightarrow> bool) \<Rightarrow> bytes \<Rightarrow> bytes list" where
  "split_compress P xs =
     (let rest = dropWhile (\<lambda>c. \<not> P c) xs
      in takeWhile (\<lambda>c. \<not> P c) xs # (if rest = [] then [] else split_compress P (dropWhile P rest)))"
  by auto
termination
proof (relation "measure (length \<circ> snd)", simp)
  fix P and xs rest :: bytes
  assume rest: "rest = dropWhile (\<lambda>c. \<not> P c) xs" "rest \<noteq> []"
  have "P (hd rest)" using rest hd_dropWhile [of "\<lambda>c. \<not> P c" xs] by auto
  then have "length (dropWhile P rest) < length rest"
    using rest(2) by (cases rest) (auto simp: less_Suc_eq_le length_dropWhile_le)
  also have "length rest \<le> length xs" using rest(1) by (simp add: length_dropWhile_le)
  finally show "((P, dropWhile P rest), P, xs) \<in> measure (length \<circ> snd)" by simp
qed

declare split_compress.simps [simp del]

lemma split_compress_single: "(\<And>c. c \<in> set xs \<Longrightarrow> \<not> P c) \<Longrightarrow> split_compress P xs = [xs]"
  by (subst split_compress.simps) (auto simp: takeWhile_eq_all_conv dropWhile_eq_Nil_conv)

lemma split_compress_append:
  assumes "\<And>c. c \<in> set xs \<Longrightarrow> \<not> P c" and "P d" and "ys = [] \<or> \<not> P (hd ys)"
  shows "split_compress P (xs @ d # ys) = xs # split_compress P ys"
proof -
  have t: "takeWhile (\<lambda>c. \<not> P c) (xs @ d # ys) = xs" "dropWhile (\<lambda>c. \<not> P c) (xs @ d # ys) = d # ys"
    using assms(1,2) by (simp_all add: takeWhile_tail dropWhile_append3)
  have "dropWhile P (d # ys) = ys" using assms(2,3) by (cases ys) auto
  then show ?thesis using t by (subst split_compress.simps) simp
qed

lemma split_compress_cover: "concat (split_compress P xs) = filter (\<lambda>c. \<not> P c) xs"
proof (induction P xs rule: split_compress.induct)
  case (1 P xs)
  let ?r = "dropWhile (\<lambda>c. \<not> P c) xs"
  have "filter (\<lambda>c. \<not> P c) xs = takeWhile (\<lambda>c. \<not> P c) xs @ filter (\<lambda>c. \<not> P c) ?r"
    by (metis (mono_tags, lifting) filter_True filter_append set_takeWhileD takeWhile_dropWhile_id)
  moreover have "filter (\<lambda>c. \<not> P c) ?r = filter (\<lambda>c. \<not> P c) (dropWhile P ?r)"
    by (metis (mono_tags, lifting) append_Nil filter_append filter_False set_takeWhileD takeWhile_dropWhile_id)
  ultimately have eq: "filter (\<lambda>c. \<not> P c) xs = takeWhile (\<lambda>c. \<not> P c) xs @ filter (\<lambda>c. \<not> P c) (dropWhile P ?r)" by simp
  show ?case
  proof (cases "?r = []")
    case True
    then have "filter (\<lambda>c. \<not> P c) (dropWhile P ?r) = []" by (simp only: dropWhile.simps filter.simps)
    with eq True show ?thesis by (subst split_compress.simps) (simp only: Let_def if_True concat.simps append_Nil2 simp_thms)
  next
    case False
    with 1 have ih: "concat (split_compress P (dropWhile P ?r)) = filter (\<lambda>c. \<not> P c) (dropWhile P ?r)" by simp
    show ?thesis unfolding split_compress.simps [of P xs] Let_def if_not_P [OF False] concat.simps ih eq ..
  qed
qed

text \<open>Texts built from parts: separated by a run of delimiters, or each part closed by one.\<close>

fun join :: "bytes \<Rightarrow> bytes list \<Rightarrow> bytes" where
  "join sep [] = []"
| "join sep [p] = p"
| "join sep (p # q # ps) = p @ sep @ join sep (q # ps)"

lemma join_eq_Nil: "(\<And>p. p \<in> set ps \<Longrightarrow> p \<noteq> []) \<Longrightarrow> join sep ps = [] \<longleftrightarrow> ps = []"
  by (induction sep ps rule: join.induct) auto

lemma join_snoc: "join sep (ps @ [q]) = (if ps = [] then q else join sep ps @ sep @ q)"
proof (induction sep ps rule: join.induct)
  case (3 sep p p' ps)
  then show ?case by (cases ps) auto
qed auto

lemma hd_join: "p \<noteq> [] \<Longrightarrow> hd (join sep (p # ps)) = hd p"
  by (cases ps) auto

lemma split_compress_skip: "P d \<Longrightarrow> split_compress P (d # ys) = [] # split_compress P (dropWhile P ys)"
  by (subst split_compress.simps) simp

lemma split_compress_sep:
  assumes "\<And>c. c \<in> set xs \<Longrightarrow> \<not> P c" and "sep \<noteq> []" and "\<And>c. c \<in> set sep \<Longrightarrow> P c" and "ys = [] \<or> \<not> P (hd ys)"
  shows "split_compress P (xs @ sep @ ys) = xs # split_compress P ys"
proof -
  obtain d ds where s: "sep = d # ds" using assms(2) by (cases sep) auto
  have t: "takeWhile (\<lambda>c. \<not> P c) (xs @ sep @ ys) = xs" "dropWhile (\<lambda>c. \<not> P c) (xs @ sep @ ys) = sep @ ys"
    using assms(1,3) s by (simp_all add: takeWhile_tail dropWhile_append3)
  have "dropWhile P (sep @ ys) = dropWhile P ys" using assms(3) by (simp add: dropWhile_append2)
  also have "\<dots> = ys" using assms(4) by (cases ys) auto
  finally show ?thesis using t s by (subst split_compress.simps) simp
qed

lemma split_compress_join:
  assumes "ps \<noteq> []" and "\<And>p. p \<in> set ps \<Longrightarrow> p \<noteq> [] \<and> (\<forall>c\<in>set p. \<not> P c)" and "sep \<noteq> []" and "\<And>c. c \<in> set sep \<Longrightarrow> P c"
  shows "split_compress P (join sep ps) = ps"
  using assms
proof (induction sep ps rule: join.induct)
  case (2 sep p)
  then show ?case by (simp add: split_compress_single)
next
  case (3 sep p q ps)
  have h: "\<not> P (hd (join sep (q # ps)))" using "3.prems"(2) [of q] by (simp add: hd_join)
  have "split_compress P (join sep (p # q # ps)) = p # split_compress P (join sep (q # ps))"
    unfolding join.simps by (rule split_compress_sep) (use "3.prems" h in auto)
  moreover have "split_compress P (join sep (q # ps)) = q # ps" by (rule "3.IH") (use "3.prems" in auto)
  ultimately show ?case by simp
qed simp

lemma split_compress_terminated:
  assumes "\<And>q. q \<in> set (p # ps) \<Longrightarrow> \<forall>c\<in>set q. \<not> P c" and "P d" and "\<not> P b"
  shows "split_compress P (concat (map (\<lambda>q. q @ [d, b]) (p # ps))) = p # map ((#) b) (ps @ [[]])"
proof -
  have gen: "split_compress P (p @ [d, b] @ concat (map (\<lambda>q. q @ [d, b]) ps)) = p # map ((#) b) (ps @ [[]])"
    if "\<forall>c\<in>set p. \<not> P c" "\<And>q. q \<in> set ps \<Longrightarrow> \<forall>c\<in>set q. \<not> P c" for p
    using that
  proof (induction ps arbitrary: p)
    case Nil
    then show ?case using split_compress_append [of p P d "[b]"] assms(2,3) split_compress_single [of "[b]" P] by simp
  next
    case (Cons q ps)
    have "split_compress P (p @ d # ([b] @ q @ [d, b] @ concat (map (\<lambda>q. q @ [d, b]) ps)))
        = p # split_compress P ((b # q) @ [d, b] @ concat (map (\<lambda>q. q @ [d, b]) ps))"
      using split_compress_append [of p P d "[b] @ q @ [d, b] @ concat (map (\<lambda>q. q @ [d, b]) ps)"] Cons.prems assms(2,3) by auto
    also have "split_compress P ((b # q) @ [d, b] @ concat (map (\<lambda>q. q @ [d, b]) ps)) = (b # q) # map ((#) b) (ps @ [[]])"
      by (rule Cons.IH) (use Cons.prems assms(3) in auto)
    finally show ?case by simp
  qed
  have "split_compress P (p @ [d, b] @ concat (map (\<lambda>q. q @ [d, b]) ps)) = p # map ((#) b) (ps @ [[]])"
    by (rule gen) (use assms(1) in auto)
  then show ?thesis by simp
qed

section \<open>Decimal numbers\<close>

definition digit :: "nat \<Rightarrow> char" where
  "digit d = byte_of (48 + d)"

text \<open>\<^verbatim>\<open>std::to_string\<close> and the \<^verbatim>\<open>%u\<close> conversions.\<close>

fun dec :: "nat \<Rightarrow> bytes" where
  "dec n = (if n < 10 then [digit n] else dec (n div 10) @ [digit (n mod 10)])"

declare dec.simps [simp del]

definition digits_val :: "bytes \<Rightarrow> nat" where
  "digits_val ds = foldl (\<lambda>v c. v * 10 + (byte_val c - 48)) 0 ds"

text \<open>\<^verbatim>\<open>strtoul\<close> with base 10, on 64-bit \<^verbatim>\<open>unsigned long\<close>: blanks, a sign, digits; saturates on overflow.\<close>

definition strtoul :: "bytes \<Rightarrow> nat" where
  "strtoul str =
     (let s1 = dropWhile is_space (c_str str);
          neg = (s1 \<noteq> [] \<and> hd s1 = CHR ''-'');
          s2 = (if s1 \<noteq> [] \<and> (hd s1 = CHR ''-'' \<or> hd s1 = CHR ''+'') then tl s1 else s1);
          v = digits_val (takeWhile is_digit s2)
      in if v > size_max then size_max else if neg then (size_modulus - v) mod size_modulus else v)"

lemma digit_facts:
  assumes "d < 10"
  shows "is_digit (digit d)" and "byte_val (digit d) - 48 = d" and "\<not> is_space (digit d)"
    and "digit d \<noteq> CHR ''-''" and "digit d \<noteq> CHR ''+''" and "digit d \<noteq> byte_of 0"
proof -
  have v: "byte_val (digit d) = 48 + d" using assms by (simp add: digit_def)
  show "is_digit (digit d)" "byte_val (digit d) - 48 = d" "\<not> is_space (digit d)"
    using v assms by (simp_all add: is_digit_def is_space_def)
  have neq: "digit d \<noteq> x" if "byte_val x < (48::nat)" for x
  proof
    assume "digit d = x"
    with v that show False by simp
  qed
  show "digit d \<noteq> CHR ''-''" "digit d \<noteq> CHR ''+''" "digit d \<noteq> byte_of 0" by (rule neq, simp)+
qed

lemma dec_digits: "c \<in> set (dec n) \<Longrightarrow> \<exists>d<10. c = digit d"
proof (induction n rule: dec.induct)
  case (1 n)
  show ?case
  proof (cases "n < 10")
    case True
    then show ?thesis using "1.prems" by (auto simp: dec.simps [of n])
  next
    case False
    then have "c \<in> set (dec (n div 10)) \<or> c = digit (n mod 10)" using "1.prems" by (auto simp: dec.simps [of n])
    moreover have "n mod 10 < 10" by simp
    ultimately show ?thesis using "1.IH" [OF False] by blast
  qed
qed

lemma dec_not_Nil [simp]: "dec n \<noteq> []"
  by (subst dec.simps) simp

lemma digits_val_snoc: "digits_val (ds @ [c]) = digits_val ds * 10 + (byte_val c - 48)"
  by (simp add: digits_val_def)

lemma digits_val_dec: "digits_val (dec n) = n"
proof (induction n rule: dec.induct)
  case (1 n)
  show ?case
  proof (cases "n < 10")
    case True
    then show ?thesis using digit_facts(2) [OF True] by (simp add: dec.simps [of n] digits_val_def)
  next
    case False
    then show ?thesis using "1.IH" [OF False] digit_facts(2) [of "n mod 10"]
      by (simp add: dec.simps [of n] digits_val_snoc)
  qed
qed

text \<open>Printed numbers are read back, also when other text follows.\<close>

lemma strtoul_dec:
  assumes "n \<le> size_max" and "rest = [] \<or> \<not> is_digit (hd rest)"
  shows "strtoul (dec n @ rest) = n"
proof -
  have d: "\<exists>d<10. c = digit d" if "c \<in> set (dec n)" for c using dec_digits that .
  have all: "is_digit c" "c \<noteq> byte_of 0" "\<not> is_space c" "c \<noteq> CHR ''-''" "c \<noteq> CHR ''+''" if c: "c \<in> set (dec n)" for c
    using d [OF c] digit_facts by auto
  have c0: "c_str (dec n @ rest) = dec n @ c_str rest"
    using all(2) by (simp add: c_str_def takeWhile_append2)
  obtain a as where a: "dec n = a # as" by (cases "dec n") auto
  have h: "\<not> is_space a" "a \<noteq> CHR ''-''" "a \<noteq> CHR ''+''" using all [of a] a by simp_all
  have "takeWhile is_digit (c_str rest) = []" using assms(2) by (cases rest) (auto simp: c_str_def)
  then have tw: "takeWhile is_digit (dec n @ c_str rest) = dec n" using all(1) by (simp add: takeWhile_append2)
  have dw: "dropWhile is_space (dec n @ c_str rest) = dec n @ c_str rest" "hd (dec n @ c_str rest) = a"
    using h a by simp_all
  show ?thesis
    using h assms(1) by (simp add: strtoul_def c0 dw tw digits_val_dec Let_def)
qed

end
