(* ===== verification/JSON.thy ===== *)
theory JSON
  imports Text
begin

text \<open>
  JSON values as the sources use them: the value types of jsoncpp's \<^verbatim>\<open>Json::Value\<close> with the member
  functions that are called, the access macros of \<^verbatim>\<open>src/Mantids30/Helpers/json.h\<close>, and the conversions of
  \<^verbatim>\<open>json.cpp\<close>. The reader and the writer are parameters of the definitions that call them.
\<close>

text \<open>A number with fraction is \<open>JReal m e\<close>, the double \<open>m * 2 ^ e\<close>.\<close>

datatype json =
    JNull
  | JInt int
  | JUInt nat
  | JReal int int
  | JString bytes
  | JBool bool
  | JArray "json list"
  | JObject "(bytes \<times> json) list"

section \<open>Member functions of the value class\<close>

fun isObject :: "json \<Rightarrow> bool" where
  "isObject (JObject _) = True"
| "isObject _ = False"

fun isArray :: "json \<Rightarrow> bool" where
  "isArray (JArray _) = True"
| "isArray _ = False"

fun isString :: "json \<Rightarrow> bool" where
  "isString (JString _) = True"
| "isString _ = False"

fun isMember :: "json \<Rightarrow> bytes \<Rightarrow> bool result" where
  "isMember JNull key = Inr False"
| "isMember (JObject ms) key = Inr (map_of ms key \<noteq> None)"
| "isMember _ key = Inl (LogicError ''requires objectValue or nullValue'')"

text \<open>The constant and the modifying subscript; the latter turns null into an object.\<close>

fun json_get :: "json \<Rightarrow> bytes \<Rightarrow> json result" where
  "json_get JNull key = Inr JNull"
| "json_get (JObject ms) key = Inr (case map_of ms key of None \<Rightarrow> JNull | Some v \<Rightarrow> v)"
| "json_get _ key = Inl (LogicError ''requires objectValue or nullValue'')"

fun json_set :: "json \<Rightarrow> bytes \<Rightarrow> json \<Rightarrow> json result" where
  "json_set JNull key v = Inr (JObject [(key, v)])"
| "json_set (JObject ms) key v = Inr (JObject (assoc_update key v ms))"
| "json_set _ key v = Inl (LogicError ''requires objectValue'')"

fun json_append :: "json \<Rightarrow> json \<Rightarrow> json result" where
  "json_append JNull v = Inr (JArray [v])"
| "json_append (JArray vs) v = Inr (JArray (vs @ [v]))"
| "json_append _ v = Inl (LogicError ''requires arrayValue'')"

text \<open>\<^verbatim>\<open>isUInt64\<close> and \<^verbatim>\<open>asUInt64\<close>: integral values from 0 to the 64-bit maximum.\<close>

definition real_integral :: "int \<Rightarrow> int \<Rightarrow> int option" where
  "real_integral m e =
     (if e \<ge> 0 then Some (m * 2 ^ nat e)
      else if m mod 2 ^ nat (- e) = 0 then Some (m div 2 ^ nat (- e)) else None)"

fun as_uint64 :: "json \<Rightarrow> nat option" where
  "as_uint64 (JInt i) = (if i \<ge> 0 then Some (nat i) else None)"
| "as_uint64 (JUInt n) = Some n"
| "as_uint64 (JReal m e) =
     (case real_integral m e of
        Some i \<Rightarrow> if i \<ge> 0 \<and> i < 2 ^ 64 then Some (nat i) else None
      | None \<Rightarrow> None)"
| "as_uint64 _ = None"

section \<open>Access macros\<close>

definition member_value :: "json \<Rightarrow> bytes \<Rightarrow> json option" where
  "member_value j x = (case j of JObject ms \<Rightarrow> map_of ms x | _ \<Rightarrow> None)"

definition JSON_ASSTRING :: "json \<Rightarrow> bytes \<Rightarrow> bytes \<Rightarrow> bytes" where
  "JSON_ASSTRING j x def = (case member_value j x of Some (JString s) \<Rightarrow> s | _ \<Rightarrow> def)"

definition JSON_ASBOOL :: "json \<Rightarrow> bytes \<Rightarrow> bool \<Rightarrow> bool" where
  "JSON_ASBOOL j x def = (case member_value j x of Some (JBool b) \<Rightarrow> b | _ \<Rightarrow> def)"

definition JSON_ASUINT64 :: "json \<Rightarrow> bytes \<Rightarrow> nat \<Rightarrow> nat" where
  "JSON_ASUINT64 j x def =
     (case member_value j x of Some v \<Rightarrow> (case as_uint64 v of Some n \<Rightarrow> n | None \<Rightarrow> def) | None \<Rightarrow> def)"

definition JSON_ISARRAY :: "json \<Rightarrow> bytes \<Rightarrow> bool" where
  "JSON_ISARRAY j key = (case member_value j key of Some v \<Rightarrow> isArray v | None \<Rightarrow> False)"

definition JSON_ASSTRING_D :: "json \<Rightarrow> bytes \<Rightarrow> bytes" where
  "JSON_ASSTRING_D j def = (case j of JString s \<Rightarrow> s | _ \<Rightarrow> def)"

definition JSON_ASBOOL_D :: "json \<Rightarrow> bool \<Rightarrow> bool" where
  "JSON_ASBOOL_D j def = (case j of JBool b \<Rightarrow> b | _ \<Rightarrow> def)"

section \<open>Conversions\<close>

fun array_strings :: "json list \<Rightarrow> bytes list" where
  "array_strings [] = []"
| "array_strings (JString s # vs) = s # array_strings vs"
| "array_strings (_ # vs) = array_strings vs"

definition jsonToStringList :: "json \<Rightarrow> bytes \<Rightarrow> bytes list" where
  "jsonToStringList value sub =
     (if sub = [] then (case value of JArray vs \<Rightarrow> array_strings vs | _ \<Rightarrow> [])
      else case member_value value sub of Some (JArray vs) \<Rightarrow> array_strings vs | _ \<Rightarrow> [])"

definition jsonToStringSet :: "json \<Rightarrow> bytes \<Rightarrow> bytes set" where
  "jsonToStringSet value sub =
     (if sub = [] then (case value of JArray vs \<Rightarrow> set (array_strings vs) | _ \<Rightarrow> {})
      else case member_value value sub of Some (JArray vs) \<Rightarrow> set (array_strings vs) | _ \<Rightarrow> {})"

text \<open>\<^verbatim>\<open>listToJSON\<close> fills an array by index; the value stays null for an empty list.\<close>

definition listToJSON :: "bytes list \<Rightarrow> json" where
  "listToJSON t = (if t = [] then JNull else JArray (map JString t))"

section \<open>Lemmas\<close>

lemma jsonToStringList_listToJSON: "jsonToStringList (listToJSON xs) [] = xs"
proof -
  have "array_strings (map JString xs) = xs" by (induction xs) auto
  then show ?thesis by (simp add: jsonToStringList_def listToJSON_def)
qed

text \<open>Setting a member of an object or of null gives an object in which exactly that member changed.\<close>

lemma json_set_member:
  assumes "json_set j k v = Inr j'"
  shows "member_value j' x = (if x = k then Some v else member_value j x)" and "isObject j'"
  using assms by (cases j; auto simp: member_value_def)+

lemma isMember_object: "isObject j \<Longrightarrow> isMember j x = Inr (member_value j x \<noteq> None)"
  by (cases j) (auto simp: member_value_def)

lemma json_get_object: "isObject j \<Longrightarrow> json_get j x = Inr (case member_value j x of None \<Rightarrow> JNull | Some v \<Rightarrow> v)"
  by (cases j) (auto simp: member_value_def)

lemma json_set_object: "isObject j \<Longrightarrow> \<exists>j'. json_set j k v = Inr j'"
  by (cases j) auto

end
