(* ===== verification/JWTToken.thy ===== *)
theory JWTToken
  imports JSON
begin

text \<open>
  The token of the JWT library (\<^verbatim>\<open>src/Mantids30/DataFormat_JWT/jwt_token.cpp\<close>): its claims as a JSON
  value, the verification and revocation flags, and the time checks of \<^verbatim>\<open>isValid\<close>. The reader of the
  JSON library is the parameter \<open>json_parse\<close>, which returns the value it leaves in its output argument and
  whether it succeeded; the current time is an argument.
\<close>

record token =
  m_claims :: json
  m_signatureVerified :: bool
  m_revoked :: bool

definition token_empty :: token where
  "token_empty = \<lparr>m_claims = JNull, m_signatureVerified = False, m_revoked = False\<rparr>"

section \<open>Writing claims\<close>

definition addClaim :: "token \<Rightarrow> bytes \<Rightarrow> json \<Rightarrow> token result" where
  "addClaim t name value =
     (case json_set (m_claims t) name value of Inl e \<Rightarrow> Inl e | Inr j \<Rightarrow> Inr (t\<lparr>m_claims := j\<rparr>))"

definition setIssuer :: "token \<Rightarrow> bytes \<Rightarrow> token result" where
  "setIssuer t issuer = addClaim t ''iss'' (JString issuer)"

definition setSubject :: "token \<Rightarrow> bytes \<Rightarrow> token result" where
  "setSubject t subject = addClaim t ''sub'' (JString subject)"

definition setDomain :: "token \<Rightarrow> bytes \<Rightarrow> token result" where
  "setDomain t domain = addClaim t ''domain'' (JString domain)"

definition setAudience :: "token \<Rightarrow> bytes \<Rightarrow> token result" where
  "setAudience t audience = addClaim t ''aud'' (JString audience)"

definition setExpirationTime :: "token \<Rightarrow> int \<Rightarrow> token result" where
  "setExpirationTime t expiry = addClaim t ''exp'' (JInt expiry)"

definition setNotBefore :: "token \<Rightarrow> int \<Rightarrow> token result" where
  "setNotBefore t nbf = addClaim t ''nbf'' (JInt nbf)"

definition setIssuedAt :: "token \<Rightarrow> int \<Rightarrow> token result" where
  "setIssuedAt t iat = addClaim t ''iat'' (JInt iat)"

definition setJwtId :: "token \<Rightarrow> bytes \<Rightarrow> token result" where
  "setJwtId t jti = addClaim t ''jti'' (JString jti)"

definition decodePayload :: "(json \<Rightarrow> bytes \<Rightarrow> json \<times> bool) \<Rightarrow> token \<Rightarrow> bytes \<Rightarrow> token \<times> bool" where
  "decodePayload json_parse t payload =
     (let r = json_parse (m_claims t) payload in (t\<lparr>m_claims := fst r\<rparr>, snd r))"

definition token_of_payload :: "(json \<Rightarrow> bytes \<Rightarrow> json \<times> bool) \<Rightarrow> bytes \<Rightarrow> token" where
  "token_of_payload json_parse payload = fst (decodePayload json_parse token_empty payload)"

definition exportPayload :: "(json \<Rightarrow> bytes) \<Rightarrow> token \<Rightarrow> bytes" where
  "exportPayload json_write t = json_write (m_claims t)"

section \<open>Reading claims\<close>

definition getIssuer :: "token \<Rightarrow> bytes" where
  "getIssuer t = JSON_ASSTRING (m_claims t) ''iss'' []"

definition getImpersonator :: "token \<Rightarrow> bytes" where
  "getImpersonator t = JSON_ASSTRING (m_claims t) ''impersonator'' []"

definition getSubject :: "token \<Rightarrow> bytes" where
  "getSubject t = JSON_ASSTRING (m_claims t) ''sub'' []"

definition getDomain :: "token \<Rightarrow> bytes" where
  "getDomain t = JSON_ASSTRING (m_claims t) ''domain'' []"

definition getAudience :: "token \<Rightarrow> bytes" where
  "getAudience t = JSON_ASSTRING (m_claims t) ''aud'' []"

definition getJwtId :: "token \<Rightarrow> bytes" where
  "getJwtId t = JSON_ASSTRING (m_claims t) ''jti'' []"

text \<open>The conversion of an unsigned 64-bit value to \<^verbatim>\<open>std::time_t\<close>.\<close>

definition to_time :: "nat \<Rightarrow> int" where
  "to_time n = (if n < 2 ^ 63 then int n else int n - 2 ^ 64)"

definition getExpirationTime :: "token \<Rightarrow> int" where
  "getExpirationTime t = to_time (JSON_ASUINT64 (m_claims t) ''exp'' 18446744073709551615)"

definition getNotBefore :: "token \<Rightarrow> int" where
  "getNotBefore t = to_time (JSON_ASUINT64 (m_claims t) ''nbf'' 0)"

definition getIssuedAt :: "token \<Rightarrow> int" where
  "getIssuedAt t = to_time (JSON_ASUINT64 (m_claims t) ''iat'' 0)"

definition getClaim :: "token \<Rightarrow> bytes \<Rightarrow> json result" where
  "getClaim t name = json_get (m_claims t) name"

definition hasClaim :: "token \<Rightarrow> bytes \<Rightarrow> bool result" where
  "hasClaim t name = isMember (m_claims t) name"

definition isAdmin :: "token \<Rightarrow> bool result" where
  "isAdmin t =
     (case isMember (m_claims t) ''isAdmin'' of
        Inl e \<Rightarrow> Inl e
      | Inr False \<Rightarrow> Inr False
      | Inr True \<Rightarrow> (case getClaim t ''isAdmin'' of Inl e \<Rightarrow> Inl e | Inr v \<Rightarrow> Inr (JSON_ASBOOL_D v False)))"

section \<open>Roles and permissions\<close>

text \<open>Roles and permissions are lists under the keys \<^verbatim>\<open>roles\<close> and \<^verbatim>\<open>permissions\<close>.\<close>

definition getAllRoles :: "token \<Rightarrow> bytes set result" where
  "getAllRoles t =
     (case isMember (m_claims t) ''roles'' of
        Inl e \<Rightarrow> Inl e
      | Inr False \<Rightarrow> Inr {}
      | Inr True \<Rightarrow>
          (case json_get (m_claims t) ''roles'' of
             Inl e \<Rightarrow> Inl e
           | Inr (JArray vs) \<Rightarrow> Inr (set (map (\<lambda>r. JSON_ASSTRING_D r []) vs))
           | Inr _ \<Rightarrow> Inr {}))"

definition addRole :: "token \<Rightarrow> bytes \<Rightarrow> token result" where
  "addRole t roleId =
     (case isMember (m_claims t) ''roles'' of
        Inl e \<Rightarrow> Inl e
      | Inr present \<Rightarrow>
          (case (if \<not> present then json_set (m_claims t) ''roles'' (JArray []) else Inr (m_claims t)) of
             Inl e \<Rightarrow> Inl e
           | Inr j \<Rightarrow>
               (case json_get j ''roles'' of
                  Inl e \<Rightarrow> Inl e
                | Inr arr \<Rightarrow>
                    (case json_append arr (JString roleId) of
                       Inl e \<Rightarrow> Inl e
                     | Inr arr' \<Rightarrow>
                         (case json_set j ''roles'' arr' of Inl e \<Rightarrow> Inl e | Inr j' \<Rightarrow> Inr (t\<lparr>m_claims := j'\<rparr>))))))"

definition hasRole :: "token \<Rightarrow> bytes \<Rightarrow> bool result" where
  "hasRole t roleId =
     (case isMember (m_claims t) ''roles'' of
        Inl e \<Rightarrow> Inl e
      | Inr False \<Rightarrow> Inr False
      | Inr True \<Rightarrow>
          (case json_get (m_claims t) ''roles'' of
             Inl e \<Rightarrow> Inl e
           | Inr (JArray vs) \<Rightarrow> Inr (list_ex (\<lambda>r. JSON_ASSTRING_D r [] = roleId) vs)
           | Inr _ \<Rightarrow> Inr False))"

definition getAllPermissions :: "token \<Rightarrow> bytes set result" where
  "getAllPermissions t =
     (case isMember (m_claims t) ''permissions'' of
        Inl e \<Rightarrow> Inl e
      | Inr False \<Rightarrow> Inr {}
      | Inr True \<Rightarrow>
          (case json_get (m_claims t) ''permissions'' of
             Inl e \<Rightarrow> Inl e
           | Inr (JArray vs) \<Rightarrow> Inr (set (map (\<lambda>r. JSON_ASSTRING_D r []) vs))
           | Inr _ \<Rightarrow> Inr {}))"

definition addPermission :: "token \<Rightarrow> bytes \<Rightarrow> token result" where
  "addPermission t permissionId =
     (case isMember (m_claims t) ''permissions'' of
        Inl e \<Rightarrow> Inl e
      | Inr present \<Rightarrow>
          (case (if \<not> present then json_set (m_claims t) ''permissions'' (JArray []) else Inr (m_claims t)) of
             Inl e \<Rightarrow> Inl e
           | Inr j \<Rightarrow>
               (case json_get j ''permissions'' of
                  Inl e \<Rightarrow> Inl e
                | Inr arr \<Rightarrow>
                    (case json_append arr (JString permissionId) of
                       Inl e \<Rightarrow> Inl e
                     | Inr arr' \<Rightarrow>
                         (case json_set j ''permissions'' arr' of Inl e \<Rightarrow> Inl e | Inr j' \<Rightarrow> Inr (t\<lparr>m_claims := j'\<rparr>))))))"

definition hasPermission :: "token \<Rightarrow> bytes \<Rightarrow> bool result" where
  "hasPermission t permissionId =
     (case isMember (m_claims t) ''permissions'' of
        Inl e \<Rightarrow> Inl e
      | Inr False \<Rightarrow> Inr False
      | Inr True \<Rightarrow>
          (case json_get (m_claims t) ''permissions'' of
             Inl e \<Rightarrow> Inl e
           | Inr (JArray vs) \<Rightarrow> Inr (list_ex (\<lambda>r. JSON_ASSTRING_D r [] = permissionId) vs)
           | Inr _ \<Rightarrow> Inr False))"

definition getAllRolesAsJSON :: "token \<Rightarrow> json result" where
  "getAllRolesAsJSON t =
     (case isMember (m_claims t) ''roles'' of
        Inl e \<Rightarrow> Inl e | Inr True \<Rightarrow> json_get (m_claims t) ''roles'' | Inr False \<Rightarrow> Inr JNull)"

definition getAllPermissionsAsJSON :: "token \<Rightarrow> json result" where
  "getAllPermissionsAsJSON t =
     (case isMember (m_claims t) ''permissions'' of
        Inl e \<Rightarrow> Inl e | Inr True \<Rightarrow> json_get (m_claims t) ''permissions'' | Inr False \<Rightarrow> Inr JNull)"

section \<open>Validity\<close>

definition setSignatureVerified :: "token \<Rightarrow> bool \<Rightarrow> token" where
  "setSignatureVerified t newVerified = t\<lparr>m_signatureVerified := newVerified\<rparr>"

definition setRevoked :: "token \<Rightarrow> bool \<Rightarrow> token" where
  "setRevoked t newRevoked = t\<lparr>m_revoked := newRevoked\<rparr>"

definition isValid :: "int \<Rightarrow> token \<Rightarrow> bool result" where
  "isValid currentTime t =
     (case isMember (m_claims t) ''exp'' of
        Inl e \<Rightarrow> Inl e
      | Inr hasExp \<Rightarrow>
          if hasExp \<and> currentTime \<ge> getExpirationTime t then Inr False
          else
            (case isMember (m_claims t) ''nbf'' of
               Inl e \<Rightarrow> Inl e
             | Inr hasNbf \<Rightarrow>
                 if hasNbf \<and> currentTime < getNotBefore t then Inr False
                 else Inr (m_signatureVerified t \<and> \<not> m_revoked t)))"

section \<open>Properties\<close>

lemma addClaim_member:
  "addClaim t k v = Inr t' \<Longrightarrow>
     member_value (m_claims t') x = (if x = k then Some v else member_value (m_claims t) x) \<and> isObject (m_claims t')
       \<and> m_signatureVerified t' = m_signatureVerified t \<and> m_revoked t' = m_revoked t"
  by (auto simp: addClaim_def json_set_member split: sum.splits)

lemma isValid_window:
  assumes "isObject (m_claims t)" and "member_value (m_claims t) ''exp'' = Some (JInt expiry)"
    and "member_value (m_claims t) ''nbf'' = Some (JInt nbf)"
    and "0 \<le> expiry" and "expiry < 2 ^ 63" and "0 \<le> nbf" and "nbf < 2 ^ 63"
  shows "getExpirationTime t = expiry" and "getNotBefore t = nbf"
    and "isValid now t = Inr (nbf \<le> now \<and> now < expiry \<and> m_signatureVerified t \<and> \<not> m_revoked t)"
proof -
  show g: "getExpirationTime t = expiry" "getNotBefore t = nbf"
    using assms by (simp_all add: getExpirationTime_def getNotBefore_def JSON_ASUINT64_def to_time_def nat_less_iff)
  then show "isValid now t = Inr (nbf \<le> now \<and> now < expiry \<and> m_signatureVerified t \<and> \<not> m_revoked t)"
    using assms by (auto simp: isValid_def isMember_object)
qed

text \<open>
  Times survive the claims. After setting expiration and not-before times that are representable and
  not negative, the getters return them, and \<^verbatim>\<open>isValid\<close> accepts the token exactly in the window from
  not-before to expiration, if its signature is verified and it is not revoked.
\<close>

theorem token_time_window:
  assumes "setExpirationTime t expiry = Inr t1" and "setNotBefore t1 nbf = Inr t2"
    and "0 \<le> expiry" and "expiry < 2 ^ 63" and "0 \<le> nbf" and "nbf < 2 ^ 63"
  shows "getExpirationTime t2 = expiry \<and> getNotBefore t2 = nbf
    \<and> isValid now t2 = Inr (nbf \<le> now \<and> now < expiry \<and> m_signatureVerified t \<and> \<not> m_revoked t)"
proof -
  note s = addClaim_member [OF assms(1) [unfolded setExpirationTime_def]]
    addClaim_member [OF assms(2) [unfolded setNotBefore_def]]
  have m: "member_value (m_claims t2) ''exp'' = Some (JInt expiry)" "member_value (m_claims t2) ''nbf'' = Some (JInt nbf)"
    and obj: "isObject (m_claims t2)" using s by simp_all
  show ?thesis using s isValid_window [OF obj m assms(3-6)] by simp
qed

theorem token_time_window_witness:
  "\<exists>t. isValid 1500 t = Inr True \<and> isValid 2000 t = Inr False \<and> isValid 999 t = Inr False"
proof -
  define t where "t = token_empty\<lparr>m_signatureVerified := True\<rparr>"
  obtain t1 where t1: "setExpirationTime t 2000 = Inr t1" "isObject (m_claims t1)"
    by (simp add: t_def setExpirationTime_def addClaim_def token_empty_def)
  obtain t2 where "setNotBefore t1 1000 = Inr t2"
    using json_set_object [OF t1(2), of "''nbf''" "JInt 1000"] by (auto simp: setNotBefore_def addClaim_def)
  then show ?thesis
    using token_time_window [OF t1(1), of 1000 t2 1500] token_time_window [OF t1(1), of 1000 t2 2000]
      token_time_window [OF t1(1), of 1000 t2 999]
    by (auto simp: t_def token_empty_def)
qed

text \<open>
  An expiration claim that is not a usable number never makes a token valid: when \<^verbatim>\<open>exp\<close> is present
  but is not an unsigned 64-bit number, the default converts to the time -1, and \<^verbatim>\<open>isValid\<close> refuses the
  token at every present time.
\<close>

theorem token_bad_expiry_refused:
  assumes "member_value (m_claims t) ''exp'' = Some v" and "as_uint64 v = None" and "0 \<le> now"
  shows "isValid now t = Inr False"
proof -
  have "isObject (m_claims t)" using assms(1) by (cases "m_claims t") (auto simp: member_value_def)
  moreover have "getExpirationTime t = -1" using assms(1,2) by (simp add: getExpirationTime_def JSON_ASUINT64_def to_time_def)
  ultimately show ?thesis using assms by (simp add: isValid_def isMember_object)
qed

theorem token_bad_expiry_refused_witness:
  "isValid 5 \<lparr>m_claims = JObject [(''exp'', JString ''never'')], m_signatureVerified = True, m_revoked = False\<rparr> = Inr False"
  by (rule token_bad_expiry_refused [of _ "JString ''never''"]) (simp_all add: member_value_def)

text \<open>
  Roles and permissions round trip. After \<^verbatim>\<open>addRole\<close> (or \<^verbatim>\<open>addPermission\<close>) on a token whose list is
  absent or an array, \<^verbatim>\<open>hasRole\<close> holds of exactly the added and the previous roles, and neither operation
  changes what the other one reports.
\<close>

theorem token_roles_roundtrip:
  assumes "m_claims t = JNull \<or> isObject (m_claims t)"
    and "member_value (m_claims t) ''roles'' = None \<or> (\<exists>vs. member_value (m_claims t) ''roles'' = Some (JArray vs))"
  shows "\<exists>t'. addRole t role = Inr t'
    \<and> (\<exists>b. hasRole t r = Inr b \<and> hasRole t' r = Inr (b \<or> r = role))
    \<and> hasPermission t' p = hasPermission t p"
proof -
  have obj: "isMember (m_claims t) x = Inr (member_value (m_claims t) x \<noteq> None)" for x
    using assms(1) by (auto simp: isMember_object member_value_def)
  have get: "json_get (m_claims t) x = Inr (case member_value (m_claims t) x of None \<Rightarrow> JNull | Some v \<Rightarrow> v)" for x
    using assms(1) by (auto simp: json_get_object member_value_def)
  have set: "\<exists>j'. json_set (m_claims t) k v = Inr j'" for k v
    using assms(1) json_set_object by auto
  obtain vs j1 where vs: "(case member_value (m_claims t) ''roles'' of None \<Rightarrow> [] | Some (JArray vs) \<Rightarrow> vs | _ \<Rightarrow> []) = vs"
    "(if member_value (m_claims t) ''roles'' = None then json_set (m_claims t) ''roles'' (JArray []) else Inr (m_claims t)) = Inr j1"
    using set [of "''roles''" "JArray []"] assms(2) by (cases "member_value (m_claims t) ''roles''") auto
  have j1: "isObject j1" "member_value j1 ''roles'' = Some (JArray vs)" "\<And>x. x \<noteq> ''roles'' \<Longrightarrow> member_value j1 x = member_value (m_claims t) x"
    using vs assms json_set_member by (auto split: if_splits simp: member_value_def)
  obtain j2 where j2: "json_set j1 ''roles'' (JArray (vs @ [JString role])) = Inr j2" using json_set_object [OF j1(1)] by blast
  have m2: "isObject j2" "member_value j2 x = (if x = ''roles'' then Some (JArray (vs @ [JString role])) else member_value j1 x)" for x
    using json_set_member [OF j2] by simp_all
  have "addRole t role = Inr (t\<lparr>m_claims := j2\<rparr>)"
    using vs(2) j1 j2 by (auto simp: addRole_def obj json_get_object split: if_splits)
  moreover have "hasRole (t\<lparr>m_claims := j2\<rparr>) r = Inr (list_ex (\<lambda>x. JSON_ASSTRING_D x [] = r) vs \<or> r = role)"
    using m2 by (auto simp: hasRole_def isMember_object json_get_object JSON_ASSTRING_D_def)
  moreover have "hasRole t r = Inr (list_ex (\<lambda>x. JSON_ASSTRING_D x [] = r) vs)"
    using vs(1) assms(2) by (auto simp: hasRole_def obj get)
  moreover have "hasPermission (t\<lparr>m_claims := j2\<rparr>) p = hasPermission t p"
    using m2 j1(3) [of "''permissions''"] by (simp add: hasPermission_def obj get isMember_object json_get_object split: bool.splits)
  ultimately show ?thesis by blast
qed

theorem token_roles_roundtrip_witness:
  "\<exists>t'. addRole token_empty ''admin'' = Inr t' \<and> hasRole t' ''admin'' = Inr True"
  using token_roles_roundtrip [of token_empty "''admin''" "''admin''" "[]"]
  by (auto simp: token_empty_def member_value_def)

end
