(* ===== verification/JWTCache.thy ===== *)
theory JWTCache
  imports Prelude "HOL-Library.Multiset"
begin

text \<open>
  The cache of verified payloads and the revocation list of the JWT library
  (\<^verbatim>\<open>src/Mantids30/DataFormat_JWT/jwt_cache.cpp\<close>, \<^verbatim>\<open>jwt_revocation.cpp\<close>). Every function holds the mutex
  of its object for its whole body, except \<^verbatim>\<open>add\<close> and \<^verbatim>\<open>setCacheMaxByteCount\<close>, which release it before
  \<^verbatim>\<open>evictCache\<close> takes it again; a run of several threads is a sequence of the locked sections.
\<close>

section \<open>Cache\<close>

record jwt_cache =
  m_cacheMaxByteCount :: nat
  m_cacheCurrentByteCount :: nat
  m_enabled :: bool
  m_tokenCache :: "bytes set"
  m_cacheQueue :: "bytes list"

text \<open>The constructor does not initialise \<^verbatim>\<open>m_enabled\<close>; its value is an argument.\<close>

definition cache_new :: "bool \<Rightarrow> jwt_cache" where
  "cache_new enabled =
     \<lparr>m_cacheMaxByteCount = 1048576, m_cacheCurrentByteCount = 0, m_enabled = enabled, m_tokenCache = {}, m_cacheQueue = []\<rparr>"

text \<open>The loop of \<^verbatim>\<open>evictCache\<close>; the front of an empty queue is undefined behaviour.\<close>

fun evict_loop :: "nat \<Rightarrow> nat \<Rightarrow> bytes set \<Rightarrow> bytes list \<Rightarrow> (nat \<times> bytes set \<times> bytes list) result" where
  "evict_loop maxCount cur cached [] =
     (if cur > maxCount then Inl (UndefinedBehaviour ''front of an empty queue'') else Inr (cur, cached, []))"
| "evict_loop maxCount cur cached (evictedToken # queue) =
     (if cur > maxCount then evict_loop maxCount (usub cur (length evictedToken)) (cached - {evictedToken}) queue
      else Inr (cur, cached, evictedToken # queue))"

definition evictCache :: "jwt_cache \<Rightarrow> jwt_cache result" where
  "evictCache c =
     (case evict_loop (m_cacheMaxByteCount c) (m_cacheCurrentByteCount c) (m_tokenCache c) (m_cacheQueue c) of
        Inl e \<Rightarrow> Inl e
      | Inr (cur, cached, queue) \<Rightarrow>
          Inr (c\<lparr>m_cacheCurrentByteCount := cur, m_tokenCache := cached, m_cacheQueue := queue\<rparr>))"

text \<open>The locked sections of \<^verbatim>\<open>setCacheMaxByteCount\<close> and \<^verbatim>\<open>add\<close>, and the functions.\<close>

definition cache_setMax_locked :: "jwt_cache \<Rightarrow> nat \<Rightarrow> jwt_cache" where
  "cache_setMax_locked c maxByteCount = c\<lparr>m_cacheMaxByteCount := maxByteCount\<rparr>"

definition setCacheMaxByteCount :: "jwt_cache \<Rightarrow> nat \<Rightarrow> jwt_cache result" where
  "setCacheMaxByteCount c maxByteCount = evictCache (cache_setMax_locked c maxByteCount)"

definition cache_clear :: "jwt_cache \<Rightarrow> jwt_cache" where
  "cache_clear c = c\<lparr>m_cacheQueue := [], m_tokenCache := {}\<rparr>"

definition cache_setEnabled :: "jwt_cache \<Rightarrow> bool \<Rightarrow> jwt_cache" where
  "cache_setEnabled c newEnabled =
     (if \<not> newEnabled then c\<lparr>m_cacheQueue := [], m_tokenCache := {}\<rparr> else c)\<lparr>m_enabled := newEnabled\<rparr>"

definition checkToken :: "jwt_cache \<Rightarrow> bytes \<Rightarrow> bool" where
  "checkToken c payload \<longleftrightarrow> m_enabled c \<and> payload \<in> m_tokenCache c"

definition cache_add_locked :: "jwt_cache \<Rightarrow> bytes \<Rightarrow> jwt_cache" where
  "cache_add_locked c payload =
     c\<lparr>m_cacheQueue := m_cacheQueue c @ [payload], m_tokenCache := insert payload (m_tokenCache c),
       m_cacheCurrentByteCount := uadd (m_cacheCurrentByteCount c) (length payload)\<rparr>"

definition cache_add :: "jwt_cache \<Rightarrow> bytes \<Rightarrow> jwt_cache result" where
  "cache_add c payload = (if \<not> m_enabled c then Inr c else evictCache (cache_add_locked c payload))"

section \<open>Cache invariant\<close>

definition queue_bytes :: "bytes list \<Rightarrow> nat" where
  "queue_bytes queue = sum_list (map length queue)"

text \<open>
  The counter is the total size of the queue, every cached payload is in the queue, and the total fits.
\<close>

definition cache_inv :: "jwt_cache \<Rightarrow> bool" where
  "cache_inv c \<longleftrightarrow> m_cacheCurrentByteCount c = queue_bytes (m_cacheQueue c)
     \<and> m_tokenCache c \<subseteq> set (m_cacheQueue c) \<and> queue_bytes (m_cacheQueue c) \<le> size_max"

lemma queue_bytes_simps [simp]:
  "queue_bytes [] = 0" "queue_bytes (x # xs) = length x + queue_bytes xs" "queue_bytes (xs @ ys) = queue_bytes xs + queue_bytes ys"
  by (simp_all add: queue_bytes_def)

lemma cache_new_inv: "cache_inv (cache_new enabled)"
  by (simp add: cache_inv_def cache_new_def)

text \<open>Eviction drops the oldest payloads until the rest fits.\<close>

lemma evict_loop_spec:
  "cur = queue_bytes queue \<Longrightarrow> cached \<subseteq> set queue \<Longrightarrow> queue_bytes queue \<le> size_max \<Longrightarrow>
     \<exists>k. evict_loop maxCount cur cached queue =
         Inr (queue_bytes (drop k queue), cached - set (take k queue), drop k queue)
       \<and> k \<le> length queue \<and> queue_bytes (drop k queue) \<le> maxCount \<and> cached - set (take k queue) \<subseteq> set (drop k queue)"
proof (induction queue arbitrary: cur cached)
  case Nil
  then show ?case by simp
next
  case (Cons x queue)
  show ?case
  proof (cases "cur > maxCount")
    case True
    have u: "usub cur (length x) = queue_bytes queue" using Cons.prems by (simp add: usub_exact)
    have "cached - {x} \<subseteq> set queue" using Cons.prems(2) by auto
    with Cons.IH [of "queue_bytes queue" "cached - {x}"] Cons.prems(3) obtain k where
      "evict_loop maxCount (queue_bytes queue) (cached - {x}) queue =
        Inr (queue_bytes (drop k queue), cached - {x} - set (take k queue), drop k queue)"
      "k \<le> length queue" "queue_bytes (drop k queue) \<le> maxCount" "cached - {x} - set (take k queue) \<subseteq> set (drop k queue)"
      by auto
    then show ?thesis using True u by (intro exI [of _ "Suc k"]) (auto simp: set_diff_eq)
  next
    case False
    then show ?thesis using Cons.prems by (intro exI [of _ 0]) simp
  qed
qed

lemma evictCache_spec:
  assumes "cache_inv c"
  obtains k where "evictCache c = Inr (c\<lparr>m_cacheCurrentByteCount := queue_bytes (drop k (m_cacheQueue c)),
      m_tokenCache := m_tokenCache c - set (take k (m_cacheQueue c)), m_cacheQueue := drop k (m_cacheQueue c)\<rparr>)"
    "queue_bytes (drop k (m_cacheQueue c)) \<le> m_cacheMaxByteCount c"
    "m_tokenCache c - set (take k (m_cacheQueue c)) \<subseteq> set (drop k (m_cacheQueue c))"
    "queue_bytes (drop k (m_cacheQueue c)) \<le> queue_bytes (m_cacheQueue c)"
proof -
  have c: "m_cacheCurrentByteCount c = queue_bytes (m_cacheQueue c)" "m_tokenCache c \<subseteq> set (m_cacheQueue c)"
    "queue_bytes (m_cacheQueue c) \<le> size_max" using assms by (simp_all add: cache_inv_def)
  from evict_loop_spec [OF this, of "m_cacheMaxByteCount c"] obtain k where
    k: "evict_loop (m_cacheMaxByteCount c) (m_cacheCurrentByteCount c) (m_tokenCache c) (m_cacheQueue c) =
      Inr (queue_bytes (drop k (m_cacheQueue c)), m_tokenCache c - set (take k (m_cacheQueue c)), drop k (m_cacheQueue c))"
    "queue_bytes (drop k (m_cacheQueue c)) \<le> m_cacheMaxByteCount c"
    "m_tokenCache c - set (take k (m_cacheQueue c)) \<subseteq> set (drop k (m_cacheQueue c))" by blast
  have "queue_bytes (m_cacheQueue c) = queue_bytes (take k (m_cacheQueue c)) + queue_bytes (drop k (m_cacheQueue c))"
    by (simp flip: queue_bytes_simps(3))
  then show thesis using that [of k] k by (simp add: evictCache_def)
qed

lemma cache_add_ok:
  assumes "cache_inv c" and "queue_bytes (m_cacheQueue c) + length p \<le> size_max"
  shows "\<exists>c'. cache_add c p = Inr c'"
proof -
  have "cache_inv (cache_add_locked c p)" using assms by (auto simp: cache_inv_def cache_add_locked_def uadd_exact)
  then obtain c' where "evictCache (cache_add_locked c p) = Inr c'" by (rule evictCache_spec)
  then show ?thesis by (simp add: cache_add_def)
qed

text \<open>An added payload that fits is found at once.\<close>

lemma cache_add_fits:
  assumes "m_enabled c" and "m_cacheCurrentByteCount c + length p \<le> m_cacheMaxByteCount c" and "m_cacheMaxByteCount c \<le> size_max"
  shows "cache_add c p = Inr (cache_add_locked c p)" and "checkToken (cache_add_locked c p) p"
proof -
  have fit: "\<not> uadd (m_cacheCurrentByteCount c) (length p) > m_cacheMaxByteCount c" using assms by (simp add: uadd_exact)
  then have "evictCache (cache_add_locked c p) = Inr (cache_add_locked c p)"
    by (cases "m_cacheQueue c") (simp_all add: evictCache_def cache_add_locked_def)
  then show "cache_add c p = Inr (cache_add_locked c p)" using assms(1) by (simp add: cache_add_def)
  show "checkToken (cache_add_locked c p) p" using assms(1) by (simp add: checkToken_def cache_add_locked_def)
qed

section \<open>Interleaved runs\<close>

text \<open>
  The steps of concurrent callers: every step is one locked section. Clearing and disabling are separate
  step kinds, because they leave the counter as it is.
\<close>

datatype cache_step = StepAdd bytes | StepEvict | StepSetMax nat | StepEnable | StepClear | StepDisable

fun cache_run_step :: "cache_step \<Rightarrow> jwt_cache \<Rightarrow> jwt_cache result" where
  "cache_run_step (StepAdd p) c = Inr (if m_enabled c then cache_add_locked c p else c)"
| "cache_run_step StepEvict c = evictCache c"
| "cache_run_step (StepSetMax n) c = Inr (cache_setMax_locked c n)"
| "cache_run_step StepEnable c = Inr (cache_setEnabled c True)"
| "cache_run_step StepClear c = Inr (cache_clear c)"
| "cache_run_step StepDisable c = Inr (cache_setEnabled c False)"

fun cache_run :: "cache_step list \<Rightarrow> jwt_cache \<Rightarrow> jwt_cache result" where
  "cache_run [] c = Inr c"
| "cache_run (s # ss) c = (case cache_run_step s c of Inl e \<Rightarrow> Inl e | Inr c' \<Rightarrow> cache_run ss c')"

fun step_bytes :: "cache_step \<Rightarrow> nat" where
  "step_bytes (StepAdd p) = length p"
| "step_bytes _ = 0"

lemma cache_run_step_inv:
  assumes "cache_inv c" and "s \<noteq> StepClear" and "s \<noteq> StepDisable" and "queue_bytes (m_cacheQueue c) + step_bytes s \<le> size_max"
  shows "\<exists>c'. cache_run_step s c = Inr c' \<and> cache_inv c'
    \<and> queue_bytes (m_cacheQueue c') \<le> queue_bytes (m_cacheQueue c) + step_bytes s
    \<and> (s = StepEvict \<longrightarrow> m_cacheCurrentByteCount c' \<le> m_cacheMaxByteCount c')"
proof (cases s)
  case (StepAdd p)
  then show ?thesis using assms by (auto simp: cache_inv_def cache_add_locked_def uadd_exact)
next
  case StepEvict
  from evictCache_spec [OF assms(1)] obtain k where
    "evictCache c = Inr (c\<lparr>m_cacheCurrentByteCount := queue_bytes (drop k (m_cacheQueue c)),
      m_tokenCache := m_tokenCache c - set (take k (m_cacheQueue c)), m_cacheQueue := drop k (m_cacheQueue c)\<rparr>)"
    "queue_bytes (drop k (m_cacheQueue c)) \<le> m_cacheMaxByteCount c"
    "m_tokenCache c - set (take k (m_cacheQueue c)) \<subseteq> set (drop k (m_cacheQueue c))"
    "queue_bytes (drop k (m_cacheQueue c)) \<le> queue_bytes (m_cacheQueue c)" .
  then show ?thesis using assms(1) StepEvict by (simp add: cache_inv_def)
next
  case (StepSetMax n)
  then show ?thesis using assms by (simp add: cache_inv_def cache_setMax_locked_def)
next
  case StepEnable
  then show ?thesis using assms by (simp add: cache_inv_def cache_setEnabled_def)
qed (use assms in auto)

lemma cache_run_inv:
  "cache_inv c \<Longrightarrow> StepClear \<notin> set ss \<Longrightarrow> StepDisable \<notin> set ss \<Longrightarrow>
   queue_bytes (m_cacheQueue c) + sum_list (map step_bytes ss) \<le> size_max \<Longrightarrow>
     \<exists>c'. cache_run ss c = Inr c' \<and> cache_inv c'"
proof (induction ss arbitrary: c)
  case (Cons s ss)
  have "queue_bytes (m_cacheQueue c) + step_bytes s \<le> size_max" using Cons.prems(4) by simp
  from cache_run_step_inv [OF Cons.prems(1) _ _ this] Cons.prems(2,3) obtain c' where
    c': "cache_run_step s c = Inr c'" "cache_inv c'" "queue_bytes (m_cacheQueue c') \<le> queue_bytes (m_cacheQueue c) + step_bytes s"
    by auto
  have "queue_bytes (m_cacheQueue c') + sum_list (map step_bytes ss) \<le> size_max" using c'(3) Cons.prems(4) by simp
  with Cons.IH [OF c'(2)] Cons.prems c'(1) show ?case by simp
qed simp

text \<open>
  The cache under concurrent use. Any interleaving of the locked sections of \<^verbatim>\<open>add\<close>, \<^verbatim>\<open>evictCache\<close>,
  \<^verbatim>\<open>setCacheMaxByteCount\<close> and \<^verbatim>\<open>setEnabled(true)\<close> keeps the byte counter equal to the size of the queued
  payloads and never takes the front of an empty queue; right after an eviction the total is within the
  configured maximum.
\<close>

theorem cache_interleaving_safe:
  assumes "StepClear \<notin> set ss" and "StepDisable \<notin> set ss" and "sum_list (map step_bytes ss) \<le> size_max"
  shows "\<exists>c c'. cache_run ss (cache_new enabled) = Inr c \<and> cache_inv c
    \<and> evictCache c = Inr c' \<and> m_cacheCurrentByteCount c' \<le> m_cacheMaxByteCount c'
    \<and> m_tokenCache c' \<subseteq> set (m_cacheQueue c')"
proof -
  have "queue_bytes (m_cacheQueue (cache_new enabled)) + sum_list (map step_bytes ss) \<le> size_max"
    using assms(3) by (simp add: cache_new_def)
  from cache_run_inv [OF cache_new_inv assms(1,2) this] obtain c where c: "cache_run ss (cache_new enabled) = Inr c" "cache_inv c"
    by blast
  then have "queue_bytes (m_cacheQueue c) + step_bytes StepEvict \<le> size_max" by (simp add: cache_inv_def)
  from cache_run_step_inv [OF c(2) _ _ this] c show ?thesis by (auto simp: cache_inv_def)
qed

theorem cache_interleaving_safe_witness:
  "\<exists>c. cache_run [StepAdd ''ab'', StepAdd ''cde'', StepSetMax 4, StepEvict] (cache_new True) = Inr c"
  using cache_interleaving_safe [of "[StepAdd ''ab'', StepAdd ''cde'', StepSetMax 4, StepEvict]" True] by (auto simp: size_max_def)

text \<open>
  \<^verbatim>\<open>clear\<close> and \<^verbatim>\<open>setEnabled(false)\<close> do not reset the byte counter. If payloads of a total above the
  maximum are added, with eviction keeping the cache full, and the cache is then cleared, the next eviction
  whose counter exceeds the maximum runs into the empty queue: undefined behaviour is reachable from the
  initial state through the public functions.
\<close>

theorem cache_clear_breaks_eviction:
  "\<exists>c1. cache_add (cache_new True) ''ab'' = Inr c1
     \<and> setCacheMaxByteCount (cache_clear c1) 1 = Inl (UndefinedBehaviour ''front of an empty queue'')
     \<and> setCacheMaxByteCount c1 1 \<noteq> Inl (UndefinedBehaviour ''front of an empty queue'')"
  by (simp add: cache_add_def cache_new_def cache_add_locked_def evictCache_def uadd_def usub_def size_modulus_def
      setCacheMaxByteCount_def cache_clear_def cache_setMax_locked_def)

section \<open>Revocation list\<close>

record revocation =
  m_expirationSignatures :: "(int \<times> bytes) list"
  m_revokedTokens :: "bytes set"

definition revocation_new :: revocation where
  "revocation_new = \<lparr>m_expirationSignatures = [], m_revokedTokens = {}\<rparr>"

text \<open>Insertion into the \<^verbatim>\<open>std::multimap\<close>: behind the entries with the same or a smaller key.\<close>

fun multimap_insert :: "int \<times> bytes \<Rightarrow> (int \<times> bytes) list \<Rightarrow> (int \<times> bytes) list" where
  "multimap_insert e [] = [e]"
| "multimap_insert e (x # xs) = (if fst x \<le> fst e then x # multimap_insert e xs else e # x # xs)"

definition addToRevocationList :: "revocation \<Rightarrow> bytes \<Rightarrow> int \<Rightarrow> revocation" where
  "addToRevocationList r signature expirationTime =
     r\<lparr>m_expirationSignatures := multimap_insert (expirationTime, signature) (m_expirationSignatures r),
       m_revokedTokens := insert signature (m_revokedTokens r)\<rparr>"

definition isSignatureRevoked :: "revocation \<Rightarrow> bytes \<Rightarrow> bool" where
  "isSignatureRevoked r signature \<longleftrightarrow> signature \<in> m_revokedTokens r"

definition removeExpiredTokensFromRevocationList :: "int \<Rightarrow> revocation \<Rightarrow> revocation" where
  "removeExpiredTokensFromRevocationList now r =
     (let expired = takeWhile (\<lambda>e. fst e \<le> now) (m_expirationSignatures r)
      in r\<lparr>m_revokedTokens := m_revokedTokens r - set (map snd expired),
           m_expirationSignatures := drop (length expired) (m_expirationSignatures r)\<rparr>)"

text \<open>One round of the collector thread: it collects unless it has been stopped meanwhile.\<close>

definition garbageCollector_round :: "bool \<Rightarrow> int \<Rightarrow> revocation \<Rightarrow> revocation" where
  "garbageCollector_round stop now r = (if \<not> stop then removeExpiredTokensFromRevocationList now r else r)"

lemma multimap_insert_mset: "mset (multimap_insert e xs) = add_mset e (mset xs)"
  by (induction xs) auto

lemma multimap_insert_set [simp]: "set (multimap_insert e xs) = insert e (set xs)"
  by (induction xs) auto

lemma multimap_insert_sorted: "sorted (map fst xs) \<Longrightarrow> sorted (map fst (multimap_insert e xs))"
  by (induction xs) (auto simp: not_le)

lemma takeWhile_sorted_filter: "sorted (map fst xs) \<Longrightarrow> set (takeWhile (\<lambda>e. fst e \<le> (now::int)) xs) = {e \<in> set xs. fst e \<le> now}"
  by (induction xs) force+

definition revocation_inv :: "revocation \<Rightarrow> bool" where
  "revocation_inv r \<longleftrightarrow> sorted (map fst (m_expirationSignatures r)) \<and> m_revokedTokens r \<subseteq> snd ` set (m_expirationSignatures r)"

lemma revocation_inv_add: "revocation_inv r \<Longrightarrow> revocation_inv (addToRevocationList r s e)"
  by (auto simp: revocation_inv_def addToRevocationList_def multimap_insert_sorted)

lemma revocation_gc:
  assumes "revocation_inv r"
  shows "isSignatureRevoked (removeExpiredTokensFromRevocationList now r) s \<longleftrightarrow>
      isSignatureRevoked r s \<and> (\<forall>t. (t, s) \<in> set (m_expirationSignatures r) \<longrightarrow> now < t)"
    and "revocation_inv (removeExpiredTokensFromRevocationList now r)"
proof -
  let ?xs = "m_expirationSignatures r"
  have sorted: "sorted (map fst ?xs)" using assms by (simp add: revocation_inv_def)
  show "isSignatureRevoked (removeExpiredTokensFromRevocationList now r) s \<longleftrightarrow>
      isSignatureRevoked r s \<and> (\<forall>t. (t, s) \<in> set ?xs \<longrightarrow> now < t)"
    using takeWhile_sorted_filter [OF sorted, of now]
    by (force simp: isSignatureRevoked_def removeExpiredTokensFromRevocationList_def Let_def)
  have d: "drop (length (takeWhile (\<lambda>e. fst e \<le> now) ?xs)) ?xs = dropWhile (\<lambda>e. fst e \<le> now) ?xs"
    by (metis append_eq_conv_conj takeWhile_dropWhile_id)
  have "set ?xs = set (takeWhile (\<lambda>e. fst e \<le> now) ?xs) \<union> set (dropWhile (\<lambda>e. fst e \<le> now) ?xs)"
    by (metis set_append takeWhile_dropWhile_id)
  moreover have "sorted (map fst (dropWhile (\<lambda>e. fst e \<le> now) ?xs))" using sorted by (simp add: d [symmetric] drop_map [symmetric])
  ultimately show "revocation_inv (removeExpiredTokensFromRevocationList now r)"
    using assms by (auto simp: revocation_inv_def removeExpiredTokensFromRevocationList_def Let_def d)
qed

text \<open>
  C16. Revocation lasts until expiry. In every reachable state, a garbage collection at time \<open>now\<close> keeps a
  signature revoked exactly if it was revoked and none of its entries has expired by then, and it keeps
  the list ordered; a newly added signature is revoked, and stays so through every earlier collection.
\<close>

theorem revocation_until_expiry:
  assumes "revocation_inv r"
  shows "(isSignatureRevoked (garbageCollector_round False now r) s \<longleftrightarrow>
      isSignatureRevoked r s \<and> (\<forall>t. (t, s) \<in> set (m_expirationSignatures r) \<longrightarrow> now < t))
    \<and> revocation_inv (garbageCollector_round stop now r) \<and> revocation_inv (addToRevocationList r s expiry)
    \<and> isSignatureRevoked (addToRevocationList r s expiry) s
    \<and> (now < expiry \<and> (\<forall>t. (t, s) \<in> set (m_expirationSignatures r) \<longrightarrow> now < t) \<longrightarrow>
         isSignatureRevoked (garbageCollector_round False now (addToRevocationList r s expiry)) s)"
  using revocation_gc [OF assms, of now] revocation_gc(1) [OF revocation_inv_add [OF assms, of s expiry], of now s]
    revocation_inv_add [OF assms] assms
  by (auto simp: garbageCollector_round_def isSignatureRevoked_def addToRevocationList_def)

theorem revocation_until_expiry_witness:
  "isSignatureRevoked (garbageCollector_round False 5 (addToRevocationList revocation_new ''sig'' 10)) ''sig''"
  using revocation_until_expiry [of revocation_new 5 "''sig''" False 10]
  by (simp add: revocation_inv_def revocation_new_def)

end
