(* ===== verification/JWT.thy ===== *)
theory JWT
  imports Encoders JWTToken JWTCache
begin

text \<open>
  Signing and verifying JSON Web Tokens (\<^verbatim>\<open>src/Mantids30/DataFormat_JWT/jwt.cpp\<close> and
  \<^verbatim>\<open>jwt_algorithmdetails.cpp\<close>), over the token (\<^verbatim>\<open>JWTToken\<close>), the cache of verified payloads and the
  revocation list (\<^verbatim>\<open>JWTCache\<close>) and the base64 functions (\<^verbatim>\<open>Encoders\<close>). What OpenSSL and jsoncpp do
  is a record of functions that every definition takes as an argument; the clock is an argument too.
\<close>

section \<open>Library functions\<close>

text \<open>The OpenSSL names of the hash functions.\<close>

datatype digest_nid = NID_sha256 | NID_sha384 | NID_sha512

text \<open>
  \<open>bio_encode\<close> and \<open>bio_decode\<close> are the base64 filter; \<open>json_reader\<close> returns what the parser leaves in the
  value it is given and whether it succeeded; \<open>json_writer\<close> is \<^verbatim>\<open>Json::writeString\<close>; \<open>hmac_digest\<close> is the digest
  that \<^verbatim>\<open>HMAC\<close> stores. The remaining fields are the outcomes of the allocations, of reading a key from PEM
  text, and of the \<^verbatim>\<open>EVP_DigestSign\<close> and \<^verbatim>\<open>EVP_DigestVerify\<close> calls: the start (\<^verbatim>\<open>== 1\<close>), the reported signature size,
  the buffer after the final call, and whether the verification returned 1.
\<close>

record ('sk, 'pk) jwt_lib =
  bio_encode :: "bytes \<Rightarrow> bytes"
  bio_decode :: "bytes \<Rightarrow> bytes option"
  json_reader :: "json \<Rightarrow> bytes \<Rightarrow> json \<times> bool"
  json_writer :: "json \<Rightarrow> bytes"
  hmac_digest :: "digest_nid \<Rightarrow> bytes \<Rightarrow> bytes \<Rightarrow> bytes"
  bio_new_ok :: bool
  md_ctx_ok :: bool
  pem_private :: "bytes \<Rightarrow> 'sk option"
  pem_public :: "bytes \<Rightarrow> 'pk option"
  sign_init_ok :: "digest_nid \<Rightarrow> 'sk \<Rightarrow> bool"
  sign_size :: "digest_nid \<Rightarrow> 'sk \<Rightarrow> bytes \<Rightarrow> nat"
  sign_final :: "digest_nid \<Rightarrow> 'sk \<Rightarrow> bytes \<Rightarrow> bytes"
  verify_final :: "digest_nid \<Rightarrow> 'pk \<Rightarrow> bytes \<Rightarrow> bytes \<Rightarrow> bool"

section \<open>Algorithms\<close>

datatype Algorithm = HS256 | HS384 | HS512 | RS256 | RS384 | RS512

record AlgorithmDetails =
  nid :: digest_nid
  isUsingHMAC :: bool
  usingRSA :: bool
  algorithmStr :: bytes
  algorithm :: Algorithm

fun algorithm_details :: "Algorithm \<Rightarrow> AlgorithmDetails" where
  "algorithm_details HS256 =
     \<lparr>nid = NID_sha256, isUsingHMAC = True, usingRSA = False, algorithmStr = ''HS256'', algorithm = HS256\<rparr>"
| "algorithm_details HS384 =
     \<lparr>nid = NID_sha384, isUsingHMAC = True, usingRSA = False, algorithmStr = ''HS384'', algorithm = HS384\<rparr>"
| "algorithm_details HS512 =
     \<lparr>nid = NID_sha512, isUsingHMAC = True, usingRSA = False, algorithmStr = ''HS512'', algorithm = HS512\<rparr>"
| "algorithm_details RS256 =
     \<lparr>nid = NID_sha256, isUsingHMAC = False, usingRSA = True, algorithmStr = ''RS256'', algorithm = RS256\<rparr>"
| "algorithm_details RS384 =
     \<lparr>nid = NID_sha384, isUsingHMAC = False, usingRSA = True, algorithmStr = ''RS384'', algorithm = RS384\<rparr>"
| "algorithm_details RS512 =
     \<lparr>nid = NID_sha512, isUsingHMAC = False, usingRSA = True, algorithmStr = ''RS512'', algorithm = RS512\<rparr>"

text \<open>The constructor from a name; an unknown name is taken for \<^verbatim>\<open>RS512\<close>.\<close>

definition algorithm_details_of_name :: "bytes \<Rightarrow> AlgorithmDetails" where
  "algorithm_details_of_name name =
     (if name = ''HS256'' then algorithm_details HS256
      else if name = ''HS384'' then algorithm_details HS384
      else if name = ''HS512'' then algorithm_details HS512
      else if name = ''RS256'' then algorithm_details RS256
      else if name = ''RS384'' then algorithm_details RS384
      else if name = ''RS512'' then algorithm_details RS512
      else algorithm_details RS512)"

definition isAlgorithmSupported :: "bytes \<Rightarrow> bool" where
  "isAlgorithmSupported alg \<longleftrightarrow> alg = ''HS256'' \<or> alg = ''RS256'' \<or> alg = ''HS384'' \<or> alg = ''RS384'' \<or> alg = ''HS512'' \<or> alg = ''RS512''"

definition isHMACAlgorithm :: "bytes \<Rightarrow> bool" where
  "isHMACAlgorithm alg \<longleftrightarrow> alg = ''HS256'' \<or> alg = ''HS384'' \<or> alg = ''HS512''"

definition isRSAAlgorithm :: "bytes \<Rightarrow> bool" where
  "isRSAAlgorithm alg \<longleftrightarrow> alg = ''RS256'' \<or> alg = ''RS384'' \<or> alg = ''RS512''"

section \<open>State\<close>

record jwt =
  verificationCallback :: "(bytes \<Rightarrow> bool) option"
  m_cache :: jwt_cache
  m_revocation :: revocation
  m_algorithm :: Algorithm
  m_sharedSecret :: bytes
  m_publicSecret :: bytes
  m_privateSecret :: bytes
  m_defaultExpirationTimeInSeconds :: int
  m_defaultMaxTimeBeforeInSeconds :: int

definition jwt_new :: "bool \<Rightarrow> Algorithm \<Rightarrow> jwt" where
  "jwt_new cache_enabled alg =
     \<lparr>verificationCallback = None, m_cache = cache_new cache_enabled, m_revocation = revocation_new, m_algorithm = alg,
      m_sharedSecret = [], m_publicSecret = [], m_privateSecret = [],
      m_defaultExpirationTimeInSeconds = 300, m_defaultMaxTimeBeforeInSeconds = 60\<rparr>"

definition setDefaultMaxTimeBeforeInSeconds :: "jwt \<Rightarrow> int \<Rightarrow> jwt" where
  "setDefaultMaxTimeBeforeInSeconds j n = j\<lparr>m_defaultMaxTimeBeforeInSeconds := n\<rparr>"

definition setDefaultMaxExpirationTimeInSeconds :: "jwt \<Rightarrow> int \<Rightarrow> jwt" where
  "setDefaultMaxExpirationTimeInSeconds j n = j\<lparr>m_defaultExpirationTimeInSeconds := n\<rparr>"

definition setPrivateSecret :: "jwt \<Rightarrow> bytes \<Rightarrow> jwt" where
  "setPrivateSecret j newPrivateSecret = j\<lparr>m_privateSecret := newPrivateSecret\<rparr>"

definition setPublicSecret :: "jwt \<Rightarrow> bytes \<Rightarrow> jwt" where
  "setPublicSecret j newPublicSecret = j\<lparr>m_publicSecret := newPublicSecret, m_cache := cache_clear (m_cache j)\<rparr>"

definition setSharedSecret :: "jwt \<Rightarrow> bytes \<Rightarrow> jwt" where
  "setSharedSecret j newSharedSecret = j\<lparr>m_sharedSecret := newSharedSecret, m_cache := cache_clear (m_cache j)\<rparr>"

section \<open>Signatures\<close>

datatype sig_result = SIG_OK | SIG_EMPTY_KEY | SIG_ERROR_CREATING_SIGNATURE | SIG_ERROR_CREATING_RSA_OBJECT | SIG_ERROR_READING_KEY

text \<open>\<open>m_digest\<close> is \<open>None\<close> for a null pointer and for a buffer that was allocated but not written.\<close>

record RAWSignature =
  m_result :: sig_result
  m_digest :: "bytes option"
  m_digestSize :: nat

fun getHashTypeNumber :: "Algorithm \<Rightarrow> digest_nid" where
  "getHashTypeNumber HS256 = NID_sha256"
| "getHashTypeNumber HS384 = NID_sha384"
| "getHashTypeNumber HS512 = NID_sha512"
| "getHashTypeNumber RS256 = NID_sha256"
| "getHashTypeNumber RS384 = NID_sha384"
| "getHashTypeNumber RS512 = NID_sha512"

text \<open>The buffer for the digest has \<^verbatim>\<open>EVP_MAX_MD_SIZE + 1 = 65\<close> bytes; \<^verbatim>\<open>HMAC\<close> stores the real size.\<close>

definition createHMACSignature :: "('sk, 'pk) jwt_lib \<Rightarrow> jwt \<Rightarrow> digest_nid \<Rightarrow> bytes \<Rightarrow> RAWSignature" where
  "createHMACSignature lib j hashType data =
     (if m_sharedSecret j \<noteq> []
      then let digest = hmac_digest lib hashType (m_sharedSecret j) data
           in \<lparr>m_result = SIG_OK, m_digest = Some digest, m_digestSize = length digest\<rparr>
      else \<lparr>m_result = SIG_EMPTY_KEY, m_digest = None, m_digestSize = 65\<rparr>)"

text \<open>
  The size that the first final call reports is stored into an \<^verbatim>\<open>unsigned int\<close>. Without a memory BIO
  the result stays \<open>SIG_OK\<close>, with no digest.
\<close>

definition createRSASignature :: "('sk, 'pk) jwt_lib \<Rightarrow> jwt \<Rightarrow> digest_nid \<Rightarrow> bytes \<Rightarrow> RAWSignature" where
  "createRSASignature lib j hashType data =
     (let none = (\<lambda>r. \<lparr>m_result = r, m_digest = None, m_digestSize = 0\<rparr>)
      in if \<not> bio_new_ok lib then none SIG_OK
         else case pem_private lib (m_privateSecret j) of
           None \<Rightarrow> none SIG_ERROR_READING_KEY
         | Some pkey \<Rightarrow>
             if \<not> md_ctx_ok lib then none SIG_ERROR_CREATING_SIGNATURE
             else if \<not> sign_init_ok lib hashType pkey then none SIG_ERROR_CREATING_SIGNATURE
             else let digestSize = sign_size lib hashType pkey data mod 2 ^ 32
                  in if digestSize > 0
                     then \<lparr>m_result = SIG_OK, m_digest = Some (sign_final lib hashType pkey data), m_digestSize = digestSize\<rparr>
                     else none SIG_ERROR_CREATING_SIGNATURE)"

definition createSignature :: "('sk, 'pk) jwt_lib \<Rightarrow> jwt \<Rightarrow> bytes \<Rightarrow> RAWSignature option" where
  "createSignature lib j data =
     (let d = algorithm_details (m_algorithm j)
      in if isUsingHMAC d then Some (createHMACSignature lib j (nid d) data)
         else if usingRSA d then Some (createRSASignature lib j (nid d) data)
         else None)"

definition validateRSASignature :: "('sk, 'pk) jwt_lib \<Rightarrow> jwt \<Rightarrow> digest_nid \<Rightarrow> bytes \<Rightarrow> bytes \<Rightarrow> int" where
  "validateRSASignature lib j hashType data signature =
     (if \<not> bio_new_ok lib then 0
      else case pem_public lib (m_publicSecret j) of
        None \<Rightarrow> -3
      | Some pkey \<Rightarrow>
          if md_ctx_ok lib then (if verify_final lib hashType pkey data signature then 0 else -1) else 0)"

section \<open>Signing\<close>

definition header_json :: "Algorithm \<Rightarrow> json" where
  "header_json alg = JObject [(''alg'', JString (algorithmStr (algorithm_details alg))), (''typ'', JString ''JWT'')]"

definition createHeader :: "('sk, 'pk) jwt_lib \<Rightarrow> jwt \<Rightarrow> bytes" where
  "createHeader lib j = encodeToBase64 (bio_encode lib) (json_writer lib (header_json (m_algorithm j))) True"

text \<open>A call through a null signature is undefined; \<^verbatim>\<open>createSignature\<close> returns none for no algorithm.\<close>

definition sign :: "('sk, 'pk) jwt_lib \<Rightarrow> jwt \<Rightarrow> json \<Rightarrow> bytes result" where
  "sign lib j payload =
     (let payload_str = json_writer lib payload;
          header_str = createHeader lib j;
          payload_b64 = encodeToBase64 (bio_encode lib) payload_str True
      in case createSignature lib j (header_str @ ''.'' @ payload_b64) of
           None \<Rightarrow> Inl (UndefinedBehaviour ''null signature'')
         | Some eSignature \<Rightarrow>
             let signature =
                   (if m_result eSignature = SIG_OK
                    then encodeToBase64 (bio_encode lib)
                           (take (m_digestSize eSignature) (case m_digest eSignature of Some d \<Rightarrow> d | None \<Rightarrow> [])) True
                    else [])
             in Inr (header_str @ ''.'' @ payload_b64 @ ''.'' @ signature))"

text \<open>\<open>clock i\<close> is the i-th reading of the time.\<close>

definition signFromToken ::
  "('sk, 'pk) jwt_lib \<Rightarrow> (nat \<Rightarrow> int) \<Rightarrow> jwt \<Rightarrow> token \<Rightarrow> bool \<Rightarrow> (token \<times> bytes) result" where
  "signFromToken lib clock j t updateDefaultTimeValues =
     (case (if updateDefaultTimeValues
            then case setExpirationTime t (clock 0 + m_defaultExpirationTimeInSeconds j) of
                   Inl e \<Rightarrow> Inl e
                 | Inr t1 \<Rightarrow>
                     (case setIssuedAt t1 (clock 1) of
                        Inl e \<Rightarrow> Inl e
                      | Inr t2 \<Rightarrow> setNotBefore t2 (clock 2 - m_defaultMaxTimeBeforeInSeconds j))
            else Inr t) of
        Inl e \<Rightarrow> Inl e
      | Inr t' \<Rightarrow> (case sign lib j (m_claims t') of Inl e \<Rightarrow> Inl e | Inr s \<Rightarrow> Inr (t', s)))"

section \<open>Verifying\<close>

definition str_find :: "char \<Rightarrow> bytes \<Rightarrow> nat option" where
  "str_find c xs = find_index ((=) c) xs"

definition str_rfind :: "char \<Rightarrow> bytes \<Rightarrow> nat option" where
  "str_rfind c xs = map_option (\<lambda>i. length xs - 1 - i) (find_index ((=) c) (rev xs))"

text \<open>The split of a token at its first and last dot, shared by \<^verbatim>\<open>verify\<close> and \<^verbatim>\<open>decodeNoVerify\<close>.\<close>

definition split_token :: "bytes \<Rightarrow> (bytes \<times> bytes \<times> bytes) option" where
  "split_token fullSignedToken =
     (case (str_find (CHR ''.'') fullSignedToken, str_rfind (CHR ''.'') fullSignedToken) of
        (Some pos_header, Some pos_payload) \<Rightarrow>
          if pos_header \<ge> pos_payload then None
          else Some (take pos_header fullSignedToken,
                     slice (pos_header + 1) (pos_payload - pos_header - 1) fullSignedToken,
                     drop (pos_payload + 1) fullSignedToken)
      | _ \<Rightarrow> None)"

text \<open>The signature check of \<^verbatim>\<open>verify\<close>; \<open>None\<close> is its early \<^verbatim>\<open>return false\<close>.\<close>

definition verify_signature ::
  "('sk, 'pk) jwt_lib \<Rightarrow> jwt \<Rightarrow> bytes \<Rightarrow> bytes \<Rightarrow> bytes \<Rightarrow> bool option" where
  "verify_signature lib j incomingAlgorithm data signature_str =
     (if isHMACAlgorithm incomingAlgorithm then
        (case createSignature lib j data of
           None \<Rightarrow> None
         | Some computed \<Rightarrow>
             if m_result computed \<noteq> SIG_OK then None
             else Some (m_digestSize computed > 0 \<and> m_digestSize computed = length signature_str
                    \<and> take (m_digestSize computed) (case m_digest computed of Some d \<Rightarrow> d | None \<Rightarrow> []) = signature_str))
      else if isRSAAlgorithm incomingAlgorithm then
        Some (validateRSASignature lib j (getHashTypeNumber (m_algorithm j)) data signature_str = 0)
      else Some False)"

text \<open>
  \<^verbatim>\<open>verify\<close> returns the object with its updated cache, and the output token with the result; a missing
  output argument is replaced by a local token.
\<close>

definition verify ::
  "('sk, 'pk) jwt_lib \<Rightarrow> int \<Rightarrow> jwt \<Rightarrow> bytes \<Rightarrow> token option \<Rightarrow> jwt \<times> (token \<times> bool) result" where
  "verify lib now j fullSignedToken tokenPayloadOutput =
     (let out = (case tokenPayloadOutput of None \<Rightarrow> token_empty | Some t \<Rightarrow> t);
          finish = (\<lambda>t. case isValid now t of Inl e \<Rightarrow> Inl e | Inr b \<Rightarrow> Inr (t, b))
      in case split_token fullSignedToken of
           None \<Rightarrow> (j, Inr (out, False))
         | Some (header_b64, payload_b64, signature_b64) \<Rightarrow>
             let header_str = decodeFromBase64 (bio_decode lib) header_b64 True;
                 payload_str = decodeFromBase64 (bio_decode lib) payload_b64 True;
                 signature_str = decodeFromBase64 (bio_decode lib) signature_b64 True;
                 accepted = setSignatureVerified (fst (decodePayload (json_reader lib) out payload_str)) True
             in case verificationCallback j of
                  Some callback \<Rightarrow>
                    if callback fullSignedToken then (j, finish accepted) else (j, Inr (out, False))
                | None \<Rightarrow>
                    if checkToken (m_cache j) payload_str then (j, finish accepted)
                    else
                      case json_reader lib JNull header_str of
                        (_, False) \<Rightarrow> (j, Inr (out, False))
                      | (header, True) \<Rightarrow>
                          let incomingAlgorithm = JSON_ASSTRING header ''alg'' []
                          in if \<not> isAlgorithmSupported incomingAlgorithm then (j, Inr (out, False))
                             else
                               case verify_signature lib j incomingAlgorithm (header_b64 @ ''.'' @ payload_b64) signature_str of
                                 None \<Rightarrow> (j, Inr (out, False))
                               | Some verified \<Rightarrow>
                                   let out1 = (if verified then fst (decodePayload (json_reader lib) out payload_str) else out);
                                       out2 = setRevoked (setSignatureVerified out1 verified) (isSignatureRevoked (m_revocation j) signature_str)
                                   in if verified
                                      then case cache_add (m_cache j) payload_str of
                                             Inl e \<Rightarrow> (j, Inl e)
                                           | Inr cache \<Rightarrow> (j\<lparr>m_cache := cache\<rparr>, finish out2)
                                      else (j, finish out2))"

definition decodeNoVerify :: "('sk, 'pk) jwt_lib \<Rightarrow> bytes \<Rightarrow> token \<Rightarrow> token \<times> bool" where
  "decodeNoVerify lib fullSignedToken out =
     (case split_token fullSignedToken of
        None \<Rightarrow> (out, False)
      | Some (header_b64, payload_b64, signature_b64) \<Rightarrow>
          decodePayload (json_reader lib) out (decodeFromBase64 (bio_decode lib) payload_b64 True))"

definition verifyAndDecodeTokenPayload ::
  "('sk, 'pk) jwt_lib \<Rightarrow> int \<Rightarrow> jwt \<Rightarrow> bytes \<Rightarrow> jwt \<times> token result" where
  "verifyAndDecodeTokenPayload lib now j fullSignedToken =
     (case verify lib now j fullSignedToken (Some token_empty) of
        (j', Inl e) \<Rightarrow> (j', Inl e)
      | (j', Inr (r, ok)) \<Rightarrow> (j', Inr (if ok then r else token_empty)))"

section \<open>Splitting a token\<close>

lemma str_find_prefix:
  assumes "c \<notin> set h"
  shows "str_find c (h @ c # xs) = Some (length h)"
proof -
  have "find_index ((=) c) h = None" using assms by (auto simp: find_index_None_iff)
  then show ?thesis by (simp add: str_find_def find_index_append)
qed

lemma str_rfind_suffix:
  assumes "c \<notin> set s"
  shows "str_rfind c (xs @ c # s) = Some (length xs)"
proof -
  have "find_index ((=) c) (rev s @ c # rev xs) = Some (length s)"
    using str_find_prefix [of c "rev s" "rev xs"] assms by (simp add: str_find_def)
  then show ?thesis by (simp add: str_rfind_def)
qed

lemma split_token_parts:
  assumes "CHR ''.'' \<notin> set h" and "CHR ''.'' \<notin> set s"
  shows "split_token (h @ ''.'' @ p @ ''.'' @ s) = Some (h, p, s)"
proof -
  have f: "str_find (CHR ''.'') (h @ ''.'' @ p @ ''.'' @ s) = Some (length h)"
    using str_find_prefix [OF assms(1), of "p @ ''.'' @ s"] by simp
  have r: "str_rfind (CHR ''.'') (h @ ''.'' @ p @ ''.'' @ s) = Some (length h + 1 + length p)"
    using str_rfind_suffix [OF assms(2), of "h @ ''.'' @ p"] by simp
  show ?thesis using f r by (simp add: split_token_def slice_def)
qed

section \<open>What an accepting call has checked\<close>

text \<open>The decoded text of a part of a token.\<close>

abbreviation part_str :: "('sk, 'pk) jwt_lib \<Rightarrow> bytes \<Rightarrow> bytes" where
  "part_str lib part \<equiv> decodeFromBase64 (bio_decode lib) part True"

lemma isValid_refuses [simp]:
  "m_revoked t \<Longrightarrow> isValid now t \<noteq> Inr True" "\<not> m_signatureVerified t \<Longrightarrow> isValid now t \<noteq> Inr True"
  by (auto simp: isValid_def split: sum.splits if_splits)

lemma verify_accepts:
  assumes "verify lib now j full out = (j', Inr (t, True))" and "verificationCallback j = None"
  obtains h p s where "split_token full = Some (h, p, s)"
    and "checkToken (m_cache j) (part_str lib p)
      \<or> (\<exists>alg. verify_signature lib j alg (h @ ''.'' @ p) (part_str lib s) = Some True)
          \<and> \<not> isSignatureRevoked (m_revocation j) (part_str lib s)"
    and "m_claims t = fst (json_reader lib (m_claims (case out of None \<Rightarrow> token_empty | Some o' \<Rightarrow> o')) (part_str lib p))"
    and "isValid now t = Inr True"
proof -
  have "\<exists>h p s. split_token full = Some (h, p, s)
    \<and> (checkToken (m_cache j) (part_str lib p)
      \<or> (\<exists>alg. verify_signature lib j alg (h @ ''.'' @ p) (part_str lib s) = Some True)
          \<and> \<not> isSignatureRevoked (m_revocation j) (part_str lib s))
    \<and> m_claims t = fst (json_reader lib (m_claims (case out of None \<Rightarrow> token_empty | Some o' \<Rightarrow> o')) (part_str lib p))
    \<and> isValid now t = Inr True"
    using assms
    by (auto simp: verify_def Let_def decodePayload_def setSignatureVerified_def setRevoked_def
        split: option.splits prod.splits if_splits sum.splits bool.splits)
  then show thesis using that by blast
qed

text \<open>The only field that \<^verbatim>\<open>verify\<close> changes is the cache, and it adds only a payload whose signature it accepted.\<close>

lemma evict_loop_subset: "evict_loop n cur cached queue = Inr (a, b, c) \<Longrightarrow> b \<subseteq> cached"
  by (induction n cur cached queue rule: evict_loop.induct) (auto split: if_splits)

lemma evictCache_subset: "evictCache c = Inr c' \<Longrightarrow> m_tokenCache c' \<subseteq> m_tokenCache c"
  by (auto simp: evictCache_def dest!: evict_loop_subset split: sum.splits)

lemma cache_add_subset: "cache_add c p = Inr c' \<Longrightarrow> m_tokenCache c' \<subseteq> insert p (m_tokenCache c)"
  by (auto simp: cache_add_def cache_add_locked_def dest!: evictCache_subset split: if_splits)

lemma verify_state:
  "fst (verify lib now j full out) = j
   \<or> (\<exists>h p s alg c. split_token full = Some (h, p, s)
        \<and> verify_signature lib j alg (h @ ''.'' @ p) (part_str lib s) = Some True
        \<and> cache_add (m_cache j) (part_str lib p) = Inr c \<and> fst (verify lib now j full out) = j\<lparr>m_cache := c\<rparr>)"
proof (cases "split_token full")
  case (Some hps)
  obtain h p s where hps: "hps = (h, p, s)" by (cases hps)
  obtain header ok where r: "json_reader lib JNull (part_str lib h) = (header, ok)" by fastforce
  let ?v = "verify_signature lib j (JSON_ASSTRING header ''alg'' []) (h @ ''.'' @ p) (part_str lib s)"
  show ?thesis
  proof (cases "?v = Some True")
    case True
    then show ?thesis using Some r unfolding hps
      by (cases "cache_add (m_cache j) (part_str lib p)"; cases "verificationCallback j"; cases ok)
        (simp_all add: verify_def Let_def del: append.simps, blast+)
  next
    case False
    then show ?thesis using Some r unfolding hps
      by (cases "verificationCallback j"; cases ok; cases ?v) (simp_all add: verify_def Let_def del: append.simps)
  qed
qed (simp add: verify_def)

section \<open>Authenticity over a run\<close>

text \<open>
  A run of an object: the calls that the public interface allows, in any order, with those of its public members: the cache, the revocation list and the
  callback. The third argument records the tokens that were presented to \<^verbatim>\<open>verify\<close> since a verification secret was last set, the fourth the payloads that
  the application put into the cache itself since then, with \<^verbatim>\<open>m_cache.add\<close> or by an assignment of the whole cache.
\<close>

inductive jwt_run :: "('sk, 'pk) jwt_lib \<Rightarrow> Algorithm \<Rightarrow> jwt \<Rightarrow> bytes set \<Rightarrow> bytes set \<Rightarrow> bool" for lib alg where
  run_new: "jwt_run lib alg (jwt_new enabled alg) {} {}"
| run_verify: "jwt_run lib alg j seen added \<Longrightarrow> jwt_run lib alg (fst (verify lib now j full out)) (insert full seen) added"
| run_sharedSecret: "jwt_run lib alg j seen added \<Longrightarrow> jwt_run lib alg (setSharedSecret j secret) {} {}"
| run_publicSecret: "jwt_run lib alg j seen added \<Longrightarrow> jwt_run lib alg (setPublicSecret j secret) {} {}"
| run_privateSecret: "jwt_run lib alg j seen added \<Longrightarrow> jwt_run lib alg (setPrivateSecret j secret) seen added"
| run_expiration: "jwt_run lib alg j seen added \<Longrightarrow> jwt_run lib alg (setDefaultMaxExpirationTimeInSeconds j n) seen added"
| run_before: "jwt_run lib alg j seen added \<Longrightarrow> jwt_run lib alg (setDefaultMaxTimeBeforeInSeconds j n) seen added"
| run_callback: "jwt_run lib alg j seen added \<Longrightarrow> jwt_run lib alg (j\<lparr>verificationCallback := cb\<rparr>) seen added"
| run_revoke: "jwt_run lib alg j seen added \<Longrightarrow> jwt_run lib alg (j\<lparr>m_revocation := addToRevocationList (m_revocation j) sig expiry\<rparr>) seen added"
| run_collect: "jwt_run lib alg j seen added \<Longrightarrow> jwt_run lib alg (j\<lparr>m_revocation := garbageCollector_round stop now (m_revocation j)\<rparr>) seen added"
| run_revocationAssign: "jwt_run lib alg j seen added \<Longrightarrow> jwt_run lib alg (j\<lparr>m_revocation := r\<rparr>) seen added"
| run_cacheAdd: "jwt_run lib alg j seen added \<Longrightarrow> cache_add (m_cache j) payload = Inr c \<Longrightarrow> jwt_run lib alg (j\<lparr>m_cache := c\<rparr>) seen (insert payload added)"
| run_cacheEvict: "jwt_run lib alg j seen added \<Longrightarrow> evictCache (m_cache j) = Inr c \<Longrightarrow> jwt_run lib alg (j\<lparr>m_cache := c\<rparr>) seen added"
| run_cacheAssign: "jwt_run lib alg j seen added \<Longrightarrow> jwt_run lib alg (j\<lparr>m_cache := c\<rparr>) seen (m_tokenCache c \<union> added)"
| run_cacheEnabled: "jwt_run lib alg j seen added \<Longrightarrow> jwt_run lib alg (j\<lparr>m_cache := cache_setEnabled (m_cache j) enabled\<rparr>) seen added"
| run_cacheClear: "jwt_run lib alg j seen added \<Longrightarrow> jwt_run lib alg (j\<lparr>m_cache := cache_clear (m_cache j)\<rparr>) seen added"
| run_cacheMax: "jwt_run lib alg j seen added \<Longrightarrow> setCacheMaxByteCount (m_cache j) n = Inr c \<Longrightarrow> jwt_run lib alg (j\<lparr>m_cache := c\<rparr>) seen added"

text \<open>A token of this payload whose signature was accepted under the present secrets.\<close>

definition carries_signed :: "('sk, 'pk) jwt_lib \<Rightarrow> jwt \<Rightarrow> bytes \<Rightarrow> bytes \<Rightarrow> bool" where
  "carries_signed lib j payload full \<longleftrightarrow>
     (\<exists>h p s alg. split_token full = Some (h, p, s) \<and> part_str lib p = payload
        \<and> verify_signature lib j alg (h @ ''.'' @ p) (part_str lib s) = Some True)"

definition cache_authentic :: "('sk, 'pk) jwt_lib \<Rightarrow> jwt \<Rightarrow> bytes set \<Rightarrow> bytes set \<Rightarrow> bool" where
  "cache_authentic lib j seen added \<longleftrightarrow> (\<forall>payload\<in>m_tokenCache (m_cache j). payload \<in> added \<or> (\<exists>full\<in>seen. carries_signed lib j payload full))"

text \<open>The HMAC check depends on the algorithm and the two verification secrets only.\<close>

lemma verify_signature_cong:
  assumes "m_algorithm j' = m_algorithm j" and "isUsingHMAC (algorithm_details (m_algorithm j))"
    and "m_sharedSecret j' = m_sharedSecret j" and "m_publicSecret j' = m_publicSecret j"
  shows "verify_signature lib j' = verify_signature lib j"
  using assms
  by (intro ext) (simp add: verify_signature_def createSignature_def createHMACSignature_def validateRSASignature_def Let_def)

lemma cache_authentic_step:
  assumes "cache_authentic lib j seen added" and "verify_signature lib j' = verify_signature lib j" and "seen \<subseteq> seen'"
    and "added \<subseteq> added'" and "m_tokenCache (m_cache j') \<subseteq> m_tokenCache (m_cache j) \<union> added'"
  shows "cache_authentic lib j' seen' added'"
proof -
  have "carries_signed lib j' = carries_signed lib j" unfolding carries_signed_def [abs_def] assms(2) ..
  then show ?thesis using assms(1,3-5) unfolding cache_authentic_def by (metis UnE subsetD)
qed

lemma cache_authentic_verify:
  assumes "cache_authentic lib j seen added" and "isUsingHMAC (algorithm_details (m_algorithm j))"
  shows "cache_authentic lib (fst (verify lib now j full out)) (insert full seen) added"
  using verify_state [of lib now j full out]
proof (elim disjE exE conjE)
  assume "fst (verify lib now j full out) = j"
  with assms(1) show ?thesis by (auto simp: cache_authentic_def)
next
  fix h p s alg c
  assume v: "split_token full = Some (h, p, s)" "verify_signature lib j alg (h @ ''.'' @ p) (part_str lib s) = Some True"
    "cache_add (m_cache j) (part_str lib p) = Inr c" "fst (verify lib now j full out) = j\<lparr>m_cache := c\<rparr>"
  have "carries_signed lib j (part_str lib p) full" using v unfolding carries_signed_def by blast
  moreover have "verify_signature lib (j\<lparr>m_cache := c\<rparr>) = verify_signature lib j" by (rule verify_signature_cong) (use assms(2) in simp_all)
  ultimately show ?thesis
    using assms(1) cache_add_subset [OF v(3)] v(4) unfolding cache_authentic_def carries_signed_def by fastforce
qed

lemma setCacheMax_subset: "setCacheMaxByteCount c n = Inr c' \<Longrightarrow> m_tokenCache c' \<subseteq> m_tokenCache c"
  using evictCache_subset [of "cache_setMax_locked c n"] by (simp add: setCacheMaxByteCount_def cache_setMax_locked_def)

lemma verify_algorithm: "m_algorithm (fst (verify lib now j full out)) = m_algorithm j"
  using verify_state [of lib now j full out] by auto

lemma jwt_run_keep:
  assumes "m_algorithm j = alg \<and> cache_authentic lib j seen added" and "isUsingHMAC (algorithm_details alg)"
    and "m_algorithm j' = m_algorithm j" and "m_sharedSecret j' = m_sharedSecret j" and "m_publicSecret j' = m_publicSecret j"
    and "added \<subseteq> added'" and "m_tokenCache (m_cache j') \<subseteq> m_tokenCache (m_cache j) \<union> added'"
  shows "m_algorithm j' = alg \<and> cache_authentic lib j' seen added'"
  using assms cache_authentic_step [of lib j seen added j' seen added'] verify_signature_cong [of j' j lib] by simp

lemma jwt_run_invariant:
  assumes "isUsingHMAC (algorithm_details alg)"
  shows "jwt_run lib alg j seen added \<Longrightarrow> m_algorithm j = alg \<and> cache_authentic lib j seen added"
proof (induction rule: jwt_run.induct)
  case (run_verify j seen added now full out)
  then show ?case using cache_authentic_verify [of lib j seen added] assms by (simp add: verify_algorithm)
next
  case (run_cacheMax j seen added n c)
  show ?case by (rule jwt_run_keep [OF run_cacheMax.IH assms]) (use setCacheMax_subset [OF run_cacheMax.hyps(2)] in auto)
next
  case (run_cacheAdd j seen added payload c)
  show ?case by (rule jwt_run_keep [OF run_cacheAdd.IH assms]) (use cache_add_subset [OF run_cacheAdd.hyps(2)] in auto)
next
  case (run_cacheEvict j seen added c)
  show ?case by (rule jwt_run_keep [OF run_cacheEvict.IH assms]) (use evictCache_subset [OF run_cacheEvict.hyps(2)] in auto)
next
  case (run_cacheAssign j seen added c)
  show ?case by (rule jwt_run_keep [OF run_cacheAssign.IH assms]) auto
next
  case (run_privateSecret j seen added secret)
  show ?case by (rule jwt_run_keep [OF run_privateSecret.IH assms]) (auto simp: setPrivateSecret_def)
next
  case (run_expiration j seen added n)
  show ?case by (rule jwt_run_keep [OF run_expiration.IH assms]) (auto simp: setDefaultMaxExpirationTimeInSeconds_def)
next
  case (run_before j seen added n)
  show ?case by (rule jwt_run_keep [OF run_before.IH assms]) (auto simp: setDefaultMaxTimeBeforeInSeconds_def)
next
  case (run_callback j seen added cb)
  show ?case by (rule jwt_run_keep [OF run_callback.IH assms]) auto
next
  case (run_revoke j seen added sig expiry)
  show ?case by (rule jwt_run_keep [OF run_revoke.IH assms]) auto
next
  case (run_collect j seen added stop now)
  show ?case by (rule jwt_run_keep [OF run_collect.IH assms]) auto
next
  case (run_revocationAssign j seen added r)
  show ?case by (rule jwt_run_keep [OF run_revocationAssign.IH assms]) auto
next
  case (run_cacheEnabled j seen added enabled)
  show ?case by (rule jwt_run_keep [OF run_cacheEnabled.IH assms]) (auto simp: cache_setEnabled_def)
next
  case (run_cacheClear j seen added)
  show ?case by (rule jwt_run_keep [OF run_cacheClear.IH assms]) (auto simp: cache_clear_def)
qed (simp_all add: cache_authentic_def jwt_new_def cache_new_def setSharedSecret_def setPublicSecret_def cache_clear_def)

text \<open>With an HMAC algorithm and no readable public key, an accepted signature is the keyed digest.\<close>

lemma verify_signature_hmac:
  assumes "isUsingHMAC (algorithm_details (m_algorithm j))" and "bio_new_ok lib" and "pem_public lib (m_publicSecret j) = None"
    and "verify_signature lib j alg data sig = Some True"
  shows "m_sharedSecret j \<noteq> [] \<and> sig = hmac_digest lib (getHashTypeNumber (m_algorithm j)) (m_sharedSecret j) data"
proof -
  have "nid (algorithm_details (m_algorithm j)) = getHashTypeNumber (m_algorithm j)" by (cases "m_algorithm j") simp_all
  then show ?thesis using assms
    by (auto simp: verify_signature_def createSignature_def createHMACSignature_def validateRSASignature_def Let_def split: if_splits)
qed

text \<open>
  C5. Only signed payloads are accepted. For an object with an HMAC algorithm, no remote callback and no
  readable public key, after any sequence of public calls, those of its public cache and revocation list included: if \<^verbatim>\<open>verify\<close> accepts a token, then the claims it
  hands out are those of a payload for which a token with the keyed digest of its own header and payload
  under the present shared secret was presented, now or earlier since that secret was set, unless the application put that payload into the cache itself
  (\<open>added\<close>); and the
  returned claims are inside their time window. A token that chooses another algorithm in its header gains
  nothing.
\<close>

theorem jwt_only_signed_accepted:
  assumes "jwt_run lib alg j seen added" and "isUsingHMAC (algorithm_details alg)"
    and "verificationCallback j = None" and "bio_new_ok lib" and "pem_public lib (m_publicSecret j) = None"
    and "verify lib now j full out = (j', Inr (t, True))"
  shows "\<exists>payload. m_claims t = fst (json_reader lib (m_claims (case out of None \<Rightarrow> token_empty | Some o' \<Rightarrow> o')) payload)
      \<and> isValid now t = Inr True
      \<and> (payload \<in> added
        \<or> m_sharedSecret j \<noteq> []
          \<and> (\<exists>tok\<in>insert full seen. \<exists>h p s. split_token tok = Some (h, p, s) \<and> decodeFromBase64 (bio_decode lib) p True = payload
              \<and> decodeFromBase64 (bio_decode lib) s True = hmac_digest lib (getHashTypeNumber alg) (m_sharedSecret j) (h @ ''.'' @ p)))"
proof -
  obtain h p s where
    v: "split_token full = Some (h, p, s)"
    "checkToken (m_cache j) (part_str lib p)
      \<or> (\<exists>alg. verify_signature lib j alg (h @ ''.'' @ p) (part_str lib s) = Some True)
          \<and> \<not> isSignatureRevoked (m_revocation j) (part_str lib s)"
    "m_claims t = fst (json_reader lib (m_claims (case out of None \<Rightarrow> token_empty | Some o' \<Rightarrow> o')) (part_str lib p))"
    "isValid now t = Inr True" by (rule verify_accepts [OF assms(6,3)])
  have inv: "m_algorithm j = alg" "cache_authentic lib j seen added" using jwt_run_invariant [OF assms(2,1)] by blast+
  have "part_str lib p \<in> added \<or> (\<exists>tok\<in>insert full seen. carries_signed lib j (part_str lib p) tok)"
  proof (cases "checkToken (m_cache j) (part_str lib p)")
    case True
    then show ?thesis using inv(2) by (auto simp: cache_authentic_def checkToken_def)
  next
    case False
    then show ?thesis using v(1,2) by (auto simp: carries_signed_def)
  qed
  then show ?thesis
  proof
    assume "part_str lib p \<in> added"
    then show ?thesis using v(3,4) by (intro exI [of _ "part_str lib p"]) simp
  next
    assume "\<exists>tok\<in>insert full seen. carries_signed lib j (part_str lib p) tok"
    then obtain tok h' p' s' alg' where tok: "tok \<in> insert full seen" "split_token tok = Some (h', p', s')" "part_str lib p' = part_str lib p"
      "verify_signature lib j alg' (h' @ ''.'' @ p') (part_str lib s') = Some True"
      unfolding carries_signed_def by blast
    have "m_sharedSecret j \<noteq> [] \<and> part_str lib s' = hmac_digest lib (getHashTypeNumber alg) (m_sharedSecret j) (h' @ ''.'' @ p')"
      using verify_signature_hmac [OF _ assms(4,5) tok(4)] assms(2) inv(1) by simp
    then show ?thesis using tok(1-3) v(3,4) by (intro exI [of _ "part_str lib p"]) blast
  qed
qed

section \<open>Issuing and verifying\<close>

text \<open>A verified token as \<^verbatim>\<open>verify\<close> returns it.\<close>

definition verified_token :: "jwt \<Rightarrow> json \<Rightarrow> bytes \<Rightarrow> token" where
  "verified_token j payload signature =
     \<lparr>m_claims = payload, m_signatureVerified = True, m_revoked = isSignatureRevoked (m_revocation j) signature\<rparr>"

text \<open>The header written by \<^verbatim>\<open>createHeader\<close> passes the checks of \<^verbatim>\<open>verify\<close>.\<close>

lemma header_algorithm:
  "JSON_ASSTRING (header_json alg) ''alg'' [] = algorithmStr (algorithm_details alg)"
  "isAlgorithmSupported (algorithmStr (algorithm_details alg))"
  by (cases alg; simp add: header_json_def JSON_ASSTRING_def member_value_def isAlgorithmSupported_def)+

lemma token_updated:
  "(t :: token)\<lparr>m_claims := a, m_signatureVerified := b, m_revoked := c\<rparr> = \<lparr>m_claims = a, m_signatureVerified = b, m_revoked = c\<rparr>"
  by (cases t) simp

lemma sign_verify:
  assumes codec: "base64_codec (bio_encode lib) (bio_decode lib)"
    and hdr: "json_reader lib JNull (json_writer lib (header_json (m_algorithm j))) = (header_json (m_algorithm j), True)"
    and pay: "\<And>old. json_reader lib old (json_writer lib payload) = (payload, True)"
    and cb: "verificationCallback j = None" and miss: "\<not> checkToken (m_cache j) (json_writer lib payload)"
    and add: "cache_add (m_cache j) (json_writer lib payload) = Inr c"
    and sig: "\<And>data. \<exists>d. createSignature lib j data = Some \<lparr>m_result = SIG_OK, m_digest = Some d, m_digestSize = length d\<rparr>
      \<and> verify_signature lib j (algorithmStr (algorithm_details (m_algorithm j))) data d = Some True"
    and full: "sign lib j payload = Inr full"
  obtains h p s where "split_token full = Some (h, p, s)" and "part_str lib p = json_writer lib payload"
    and "verify lib now j full out = (j\<lparr>m_cache := c\<rparr>,
      case isValid now (verified_token j payload (part_str lib s)) of
        Inl e \<Rightarrow> Inl e | Inr b \<Rightarrow> Inr (verified_token j payload (part_str lib s), b))"
proof -
  note b64 = base64_codec.url_decode_encode [OF codec] base64_codec.url_encode_no_dot [OF codec]
  define h where "h = createHeader lib j"
  define p where "p = encodeToBase64 (bio_encode lib) (json_writer lib payload) True"
  obtain d where d: "createSignature lib j (h @ ''.'' @ p) = Some \<lparr>m_result = SIG_OK, m_digest = Some d, m_digestSize = length d\<rparr>"
    "verify_signature lib j (algorithmStr (algorithm_details (m_algorithm j))) (h @ ''.'' @ p) d = Some True"
    using sig by blast
  define s where "s = encodeToBase64 (bio_encode lib) d True"
  have "full = h @ ''.'' @ p @ ''.'' @ s"
    using full d(1) by (simp add: sign_def h_def [symmetric] p_def [symmetric] s_def Let_def)
  moreover have "CHR ''.'' \<notin> set h" "CHR ''.'' \<notin> set s" using b64(2) by (simp_all add: h_def s_def createHeader_def)
  ultimately have split: "split_token full = Some (h, p, s)" using split_token_parts [of h s p] by simp
  have dec: "part_str lib h = json_writer lib (header_json (m_algorithm j))" "part_str lib p = json_writer lib payload" "part_str lib s = d"
    using b64(1) by (simp_all add: h_def p_def s_def createHeader_def)
  have "verify lib now j full out = (j\<lparr>m_cache := c\<rparr>,
      case isValid now (verified_token j payload d) of Inl e \<Rightarrow> Inl e | Inr b \<Rightarrow> Inr (verified_token j payload d, b))"
    using cb miss add d(2)
    by (simp add: verify_def split dec hdr pay header_algorithm Let_def decodePayload_def setSignatureVerified_def
        setRevoked_def verified_token_def token_updated del: append.simps split: sum.split)
  then show thesis unfolding dec(3) [symmetric] by (rule that [OF split dec(2)])
qed

lemma signFromToken_claims:
  assumes "signFromToken lib clock j t True = Inr (t', full)"
  shows "sign lib j (m_claims t') = Inr full" and "isObject (m_claims t')"
    and "member_value (m_claims t') ''exp'' = Some (JInt (clock 0 + m_defaultExpirationTimeInSeconds j))"
    and "member_value (m_claims t') ''nbf'' = Some (JInt (clock 2 - m_defaultMaxTimeBeforeInSeconds j))"
    and "member_value (m_claims t') ''iat'' = Some (JInt (clock 1))"
    and "x \<notin> {''exp'', ''iat'', ''nbf''} \<Longrightarrow> member_value (m_claims t') x = member_value (m_claims t) x"
proof -
  from assms obtain t1 t2 where s: "setExpirationTime t (clock 0 + m_defaultExpirationTimeInSeconds j) = Inr t1"
    "setIssuedAt t1 (clock 1) = Inr t2" "setNotBefore t2 (clock 2 - m_defaultMaxTimeBeforeInSeconds j) = Inr t'"
    "sign lib j (m_claims t') = Inr full"
    by (auto simp: signFromToken_def split: sum.splits)
  note m = addClaim_member [OF s(1) [unfolded setExpirationTime_def]] addClaim_member [OF s(2) [unfolded setIssuedAt_def]]
    addClaim_member [OF s(3) [unfolded setNotBefore_def]]
  show "sign lib j (m_claims t') = Inr full" by (rule s(4))
  show "isObject (m_claims t')"
    "member_value (m_claims t') ''exp'' = Some (JInt (clock 0 + m_defaultExpirationTimeInSeconds j))"
    "member_value (m_claims t') ''nbf'' = Some (JInt (clock 2 - m_defaultMaxTimeBeforeInSeconds j))"
    "member_value (m_claims t') ''iat'' = Some (JInt (clock 1))" using m by simp_all
  show "x \<notin> {''exp'', ''iat'', ''nbf''} \<Longrightarrow> member_value (m_claims t') x = member_value (m_claims t) x" using m by simp
qed

text \<open>Both kinds of signature are accepted by the object that made them.\<close>

lemma hmac_signature_ok:
  assumes "isUsingHMAC (algorithm_details (m_algorithm j))" and "m_sharedSecret j \<noteq> []"
    and "\<And>data. hmac_digest lib (getHashTypeNumber (m_algorithm j)) (m_sharedSecret j) data \<noteq> []"
  shows "\<exists>d. createSignature lib j data = Some \<lparr>m_result = SIG_OK, m_digest = Some d, m_digestSize = length d\<rparr>
      \<and> verify_signature lib j (algorithmStr (algorithm_details (m_algorithm j))) data d = Some True"
  using assms
  by (cases "m_algorithm j")
    (simp_all add: verify_signature_def createSignature_def createHMACSignature_def isHMACAlgorithm_def Let_def)

lemma rsa_signature_ok:
  assumes "usingRSA (algorithm_details (m_algorithm j))" and "bio_new_ok lib" and "md_ctx_ok lib"
    and "pem_private lib (m_privateSecret j) = Some sk" and "pem_public lib (m_publicSecret j) = Some pk"
    and "sign_init_ok lib (getHashTypeNumber (m_algorithm j)) sk"
    and "sign_final lib (getHashTypeNumber (m_algorithm j)) sk data \<noteq> []"
    and "sign_size lib (getHashTypeNumber (m_algorithm j)) sk data = length (sign_final lib (getHashTypeNumber (m_algorithm j)) sk data)"
    and "length (sign_final lib (getHashTypeNumber (m_algorithm j)) sk data) < 2 ^ 32"
    and "verify_final lib (getHashTypeNumber (m_algorithm j)) pk data (sign_final lib (getHashTypeNumber (m_algorithm j)) sk data)"
  shows "\<exists>d. createSignature lib j data = Some \<lparr>m_result = SIG_OK, m_digest = Some d, m_digestSize = length d\<rparr>
      \<and> verify_signature lib j (algorithmStr (algorithm_details (m_algorithm j))) data d = Some True"
  using assms
  by (cases "m_algorithm j")
    (simp_all add: verify_signature_def createSignature_def createRSASignature_def validateRSASignature_def
      isHMACAlgorithm_def isRSAAlgorithm_def Let_def)

text \<open>The result of verifying a freshly issued token, from the laws of either kind of signature.\<close>

lemma issue_verify:
  assumes codec: "base64_codec (bio_encode lib) (bio_decode lib)"
    and hdr: "json_reader lib JNull (json_writer lib (header_json (m_algorithm j))) = (header_json (m_algorithm j), True)"
    and pay: "\<And>old. json_reader lib old (json_writer lib (m_claims t')) = (m_claims t', True)"
    and cb: "verificationCallback j = None" and miss: "\<not> checkToken (m_cache j) (json_writer lib (m_claims t'))"
    and add: "cache_add (m_cache j) (json_writer lib (m_claims t')) = Inr c"
    and sig: "\<And>data. \<exists>d. createSignature lib j data = Some \<lparr>m_result = SIG_OK, m_digest = Some d, m_digestSize = length d\<rparr>
      \<and> verify_signature lib j (algorithmStr (algorithm_details (m_algorithm j))) data d = Some True"
    and iss: "signFromToken lib clock j t True = Inr (t', full)"
    and expiry: "0 \<le> clock 0 + m_defaultExpirationTimeInSeconds j" "clock 0 + m_defaultExpirationTimeInSeconds j < 2 ^ 63"
    and nbf: "0 \<le> clock 2 - m_defaultMaxTimeBeforeInSeconds j" "clock 2 - m_defaultMaxTimeBeforeInSeconds j < 2 ^ 63"
  obtains h p s where "split_token full = Some (h, p, s)" and "part_str lib p = json_writer lib (m_claims t')"
    and "verify lib now j full out = (j\<lparr>m_cache := c\<rparr>,
      Inr (verified_token j (m_claims t') (part_str lib s),
           clock 2 - m_defaultMaxTimeBeforeInSeconds j \<le> now \<and> now < clock 0 + m_defaultExpirationTimeInSeconds j
             \<and> \<not> isSignatureRevoked (m_revocation j) (part_str lib s)))"
proof -
  note claims = signFromToken_claims [OF iss]
  obtain h p s where v: "split_token full = Some (h, p, s)" "part_str lib p = json_writer lib (m_claims t')"
    "verify lib now j full out = (j\<lparr>m_cache := c\<rparr>,
      case isValid now (verified_token j (m_claims t') (part_str lib s)) of
        Inl e \<Rightarrow> Inl e | Inr b \<Rightarrow> Inr (verified_token j (m_claims t') (part_str lib s), b))"
    by (rule sign_verify [OF codec hdr pay cb miss add sig claims(1)])
  have "isValid now (verified_token j (m_claims t') (part_str lib s)) =
      Inr (clock 2 - m_defaultMaxTimeBeforeInSeconds j \<le> now \<and> now < clock 0 + m_defaultExpirationTimeInSeconds j
             \<and> \<not> isSignatureRevoked (m_revocation j) (part_str lib s))"
    using isValid_window(3) [of "verified_token j (m_claims t') (part_str lib s)", OF _ _ _ expiry nbf, of now] claims(2-4)
    by (simp add: verified_token_def)
  then show thesis using that [OF v(1,2)] v(3) by simp
qed

text \<open>
  C6. Issue and verify with a shared secret. A token that \<^verbatim>\<open>signFromToken\<close> issues with default times is
  verified by the same object, at any time: the claims come back unchanged, and the result is true
  exactly from the not-before time until just before the expiration time, unless the signature has been
  revoked. Hypotheses: the base64 filter encodes by RFC 4648 and decodes what it encoded, the JSON reader
  reads back the two written values, digests are not empty, and the payload is not in the cache, which is
  in a good state.
\<close>

theorem jwt_issue_verify_hmac:
  assumes "base64_codec (bio_encode lib) (bio_decode lib)"
    and "json_reader lib JNull (json_writer lib (header_json (m_algorithm j))) = (header_json (m_algorithm j), True)"
    and "\<And>old. json_reader lib old (json_writer lib (m_claims t')) = (m_claims t', True)"
    and "isUsingHMAC (algorithm_details (m_algorithm j))" and "m_sharedSecret j \<noteq> []"
    and "\<And>data. hmac_digest lib (getHashTypeNumber (m_algorithm j)) (m_sharedSecret j) data \<noteq> []"
    and "verificationCallback j = None" and "\<not> checkToken (m_cache j) (json_writer lib (m_claims t'))"
    and "cache_inv (m_cache j)" and "queue_bytes (m_cacheQueue (m_cache j)) + length (json_writer lib (m_claims t')) \<le> size_max"
    and "signFromToken lib clock j t True = Inr (t', full)"
    and "0 \<le> clock 0 + m_defaultExpirationTimeInSeconds j" and "clock 0 + m_defaultExpirationTimeInSeconds j < 2 ^ 63"
    and "0 \<le> clock 2 - m_defaultMaxTimeBeforeInSeconds j" and "clock 2 - m_defaultMaxTimeBeforeInSeconds j < 2 ^ 63"
  shows "\<exists>j' h p s v. split_token full = Some (h, p, s) \<and> verify lib now j full out = (j', Inr (v,
         clock 2 - m_defaultMaxTimeBeforeInSeconds j \<le> now \<and> now < clock 0 + m_defaultExpirationTimeInSeconds j
           \<and> \<not> isSignatureRevoked (m_revocation j) (decodeFromBase64 (bio_decode lib) s True)))
       \<and> m_claims v = m_claims t' \<and> m_signatureVerified v"
proof -
  obtain c where c: "cache_add (m_cache j) (json_writer lib (m_claims t')) = Inr c" using cache_add_ok [OF assms(9,10)] ..
  obtain h p s where "split_token full = Some (h, p, s)" "verify lib now j full out = (j\<lparr>m_cache := c\<rparr>,
      Inr (verified_token j (m_claims t') (part_str lib s),
           clock 2 - m_defaultMaxTimeBeforeInSeconds j \<le> now \<and> now < clock 0 + m_defaultExpirationTimeInSeconds j
             \<and> \<not> isSignatureRevoked (m_revocation j) (part_str lib s)))"
    by (rule issue_verify [OF assms(1-3,7,8) c hmac_signature_ok [OF assms(4-6)] assms(11-15)])
  then show ?thesis by (simp add: verified_token_def)
qed

text \<open>
  Issue and verify with a key pair. The same as for a shared secret, for the RSA algorithms: when the
  private key signs (a signature that is not empty, of the size reported first) and the public key
  verifies what the private key signed, an issued token is verified with its claims unchanged, exactly in
  its time window, unless revoked.
\<close>

theorem jwt_issue_verify_rsa:
  assumes "base64_codec (bio_encode lib) (bio_decode lib)"
    and "json_reader lib JNull (json_writer lib (header_json (m_algorithm j))) = (header_json (m_algorithm j), True)"
    and "\<And>old. json_reader lib old (json_writer lib (m_claims t')) = (m_claims t', True)"
    and "usingRSA (algorithm_details (m_algorithm j))" and "bio_new_ok lib" and "md_ctx_ok lib"
    and "pem_private lib (m_privateSecret j) = Some sk" and "pem_public lib (m_publicSecret j) = Some pk"
    and "sign_init_ok lib (getHashTypeNumber (m_algorithm j)) sk"
    and "\<And>data. sign_final lib (getHashTypeNumber (m_algorithm j)) sk data \<noteq> []"
    and "\<And>data. sign_size lib (getHashTypeNumber (m_algorithm j)) sk data = length (sign_final lib (getHashTypeNumber (m_algorithm j)) sk data)"
    and "\<And>data. length (sign_final lib (getHashTypeNumber (m_algorithm j)) sk data) < 2 ^ 32"
    and "\<And>data. verify_final lib (getHashTypeNumber (m_algorithm j)) pk data (sign_final lib (getHashTypeNumber (m_algorithm j)) sk data)"
    and "verificationCallback j = None" and "\<not> checkToken (m_cache j) (json_writer lib (m_claims t'))"
    and "cache_inv (m_cache j)" and "queue_bytes (m_cacheQueue (m_cache j)) + length (json_writer lib (m_claims t')) \<le> size_max"
    and "signFromToken lib clock j t True = Inr (t', full)"
    and "0 \<le> clock 0 + m_defaultExpirationTimeInSeconds j" and "clock 0 + m_defaultExpirationTimeInSeconds j < 2 ^ 63"
    and "0 \<le> clock 2 - m_defaultMaxTimeBeforeInSeconds j" and "clock 2 - m_defaultMaxTimeBeforeInSeconds j < 2 ^ 63"
  shows "\<exists>j' h p s v. split_token full = Some (h, p, s) \<and> verify lib now j full out = (j', Inr (v,
         clock 2 - m_defaultMaxTimeBeforeInSeconds j \<le> now \<and> now < clock 0 + m_defaultExpirationTimeInSeconds j
           \<and> \<not> isSignatureRevoked (m_revocation j) (decodeFromBase64 (bio_decode lib) s True)))
       \<and> m_claims v = m_claims t' \<and> m_signatureVerified v"
proof -
  obtain c where c: "cache_add (m_cache j) (json_writer lib (m_claims t')) = Inr c" using cache_add_ok [OF assms(16,17)] ..
  obtain h p s where "split_token full = Some (h, p, s)" "verify lib now j full out = (j\<lparr>m_cache := c\<rparr>,
      Inr (verified_token j (m_claims t') (part_str lib s),
           clock 2 - m_defaultMaxTimeBeforeInSeconds j \<le> now \<and> now < clock 0 + m_defaultExpirationTimeInSeconds j
             \<and> \<not> isSignatureRevoked (m_revocation j) (part_str lib s)))"
    by (rule issue_verify [OF assms(1-3,14,15) c rsa_signature_ok [OF assms(4-13)] assms(18-22)])
  then show ?thesis by (simp add: verified_token_def)
qed

text \<open>A payload found in the cache is accepted without a look at the signature or the revocation list.\<close>

lemma verify_cached:
  assumes "verificationCallback j = None" and "split_token full = Some (h, p, s)" and "checkToken (m_cache j) (part_str lib p)"
  shows "verify lib now j full None =
    (let t = \<lparr>m_claims = fst (json_reader lib JNull (part_str lib p)), m_signatureVerified = True, m_revoked = False\<rparr>
     in (j, case isValid now t of Inl e \<Rightarrow> Inl e | Inr b \<Rightarrow> Inr (t, b)))"
  using assms by (simp add: verify_def decodePayload_def setSignatureVerified_def token_empty_def Let_def split: sum.split)

text \<open>
  C17. A revoked token passes on the second try. With the cache enabled and room for the payload, the first
  verification of a revoked token inside its time window answers false but stores the payload; presenting
  the very same token again answers true, although the revocation list still holds its signature.
\<close>

theorem jwt_revoked_accepted_on_retry:
  assumes "base64_codec (bio_encode lib) (bio_decode lib)"
    and "json_reader lib JNull (json_writer lib (header_json (m_algorithm j))) = (header_json (m_algorithm j), True)"
    and "\<And>old. json_reader lib old (json_writer lib (m_claims t')) = (m_claims t', True)"
    and "isUsingHMAC (algorithm_details (m_algorithm j))" and "m_sharedSecret j \<noteq> []"
    and "\<And>data. hmac_digest lib (getHashTypeNumber (m_algorithm j)) (m_sharedSecret j) data \<noteq> []"
    and "verificationCallback j = None" and "\<not> checkToken (m_cache j) (json_writer lib (m_claims t'))"
    and "m_enabled (m_cache j)" and "m_cacheMaxByteCount (m_cache j) \<le> size_max"
    and "m_cacheCurrentByteCount (m_cache j) + length (json_writer lib (m_claims t')) \<le> m_cacheMaxByteCount (m_cache j)"
    and "signFromToken lib clock j t True = Inr (t', full)"
    and "0 \<le> clock 0 + m_defaultExpirationTimeInSeconds j" and "clock 0 + m_defaultExpirationTimeInSeconds j < 2 ^ 63"
    and "0 \<le> clock 2 - m_defaultMaxTimeBeforeInSeconds j" and "clock 2 - m_defaultMaxTimeBeforeInSeconds j < 2 ^ 63"
    and "split_token full = Some (h, p, s)" and "isSignatureRevoked (m_revocation j) (decodeFromBase64 (bio_decode lib) s True)"
    and "clock 2 - m_defaultMaxTimeBeforeInSeconds j \<le> now" and "now < clock 0 + m_defaultExpirationTimeInSeconds j"
  shows "\<exists>j1 v1 v2. verify lib now j full None = (j1, Inr (v1, False)) \<and> m_revocation j1 = m_revocation j
    \<and> verify lib now j1 full None = (j1, Inr (v2, True)) \<and> m_claims v2 = m_claims t'"
proof -
  let ?c = "cache_add_locked (m_cache j) (json_writer lib (m_claims t'))"
  let ?t = "\<lparr>m_claims = m_claims t', m_signatureVerified = True, m_revoked = False\<rparr>"
  note add = cache_add_fits [OF assms(9,11,10)]
  obtain h' p' s' where first: "split_token full = Some (h', p', s')" "part_str lib p' = json_writer lib (m_claims t')"
    "verify lib now j full None = (j\<lparr>m_cache := ?c\<rparr>,
      Inr (verified_token j (m_claims t') (part_str lib s'),
           clock 2 - m_defaultMaxTimeBeforeInSeconds j \<le> now \<and> now < clock 0 + m_defaultExpirationTimeInSeconds j
             \<and> \<not> isSignatureRevoked (m_revocation j) (part_str lib s')))"
    by (rule issue_verify [OF assms(1-3,7,8) add(1) hmac_signature_ok [OF assms(4-6)] assms(12-16)])
  have same: "s' = s" using first(1) assms(17) by simp
  have "isValid now ?t = Inr True"
    using isValid_window(3) [of ?t, OF _ _ _ assms(13-16), of now] signFromToken_claims(2-4) [OF assms(12)] assms(19,20) by simp
  then have "verify lib now (j\<lparr>m_cache := ?c\<rparr>) full None = (j\<lparr>m_cache := ?c\<rparr>, Inr (?t, True))"
    using verify_cached [of "j\<lparr>m_cache := ?c\<rparr>" full h' p' s' lib now] first(1,2) add(2) assms(3) [of JNull] assms(7) by simp
  then show ?thesis using first(3) same assms(18) by auto
qed

section \<open>A concrete run\<close>

text \<open>
  An instance of the library functions for the examples: the verified base64 functions of this
  development, a reader and a writer that know the two values of the example, and a keyed digest that
  appends the length of the data to the key; the key pair signs likewise.
\<close>

definition example_claims :: json where
  "example_claims = JObject [(''exp'', JInt 1300), (''iat'', JInt 1000), (''nbf'', JInt 940), (''sub'', JString ''bob'')]"

definition example_lib :: "Algorithm \<Rightarrow> (unit, unit) jwt_lib" where
  "example_lib alg =
     \<lparr>bio_encode = base64_ref, bio_decode = own_base64_decode,
      json_reader = (\<lambda>old x. if x = ''H'' then (header_json alg, True) else if x = ''P'' then (example_claims, True) else (JNull, False)),
      json_writer = (\<lambda>v. if v = header_json alg then ''H'' else if v = example_claims then ''P'' else ''?''),
      hmac_digest = (\<lambda>n key data. key @ [byte_of (length data mod 256)]),
      bio_new_ok = True, md_ctx_ok = True, pem_private = (\<lambda>x. if x = [] then None else Some ()), pem_public = (\<lambda>x. if x = [] then None else Some ()),
      sign_init_ok = (\<lambda>n k. True), sign_size = (\<lambda>n k data. 1), sign_final = (\<lambda>n k data. [byte_of (length data mod 256)]),
      verify_final = (\<lambda>n k data sig. sig = [byte_of (length data mod 256)])\<rparr>"

definition example_token :: token where
  "example_token = token_empty\<lparr>m_claims := JObject [(''sub'', JString ''bob'')]\<rparr>"

definition example_jwt :: "Algorithm \<Rightarrow> jwt" where
  "example_jwt alg = setPrivateSecret (if isUsingHMAC (algorithm_details alg) then setSharedSecret (jwt_new True alg) ''key''
     else setPublicSecret (jwt_new True alg) ''pub'') ''priv''"

lemma example_codec: "base64_codec (bio_encode (example_lib alg)) (bio_decode (example_lib alg))"
  using own_codec.base64_codec_axioms by (simp add: example_lib_def)

lemma example_header_neq: "header_json alg \<noteq> example_claims"
  by (simp add: header_json_def example_claims_def)

lemma example_reader:
  "json_reader (example_lib alg) JNull (json_writer (example_lib alg) (header_json alg)) = (header_json alg, True)"
  "json_reader (example_lib alg) old (json_writer (example_lib alg) example_claims) = (example_claims, True)"
  using example_header_neq [of alg] by (simp_all add: example_lib_def)

lemma example_jwt_fields [simp]:
  "verificationCallback (example_jwt alg) = None" "m_cache (example_jwt alg) = cache_new True"
  "m_revocation (example_jwt alg) = revocation_new" "m_algorithm (example_jwt alg) = alg"
  "m_defaultExpirationTimeInSeconds (example_jwt alg) = 300" "m_defaultMaxTimeBeforeInSeconds (example_jwt alg) = 60"
  "m_sharedSecret (example_jwt HS256) = ''key''" "m_publicSecret (example_jwt HS256) = []"
  "m_publicSecret (example_jwt RS256) = ''pub''" "m_privateSecret (example_jwt alg) = ''priv''"
  by (simp_all add: example_jwt_def jwt_new_def setPrivateSecret_def setSharedSecret_def setPublicSecret_def
      cache_clear_def cache_new_def)

lemma example_sign:
  obtains t' full where "signFromToken (example_lib alg) (\<lambda>_. 1000) (example_jwt alg) example_token True = Inr (t', full)"
    and "m_claims t' = example_claims"
proof -
  have "\<exists>full. sign (example_lib alg) (example_jwt alg) v = Inr full" for v
    by (cases alg) (simp_all add: sign_def createSignature_def Let_def)
  then obtain full where "sign (example_lib alg) (example_jwt alg) example_claims = Inr full" by blast
  then have "signFromToken (example_lib alg) (\<lambda>_. 1000) (example_jwt alg) example_token True = Inr (example_token\<lparr>m_claims := example_claims\<rparr>, full)"
    by (simp add: signFromToken_def setExpirationTime_def setIssuedAt_def setNotBefore_def addClaim_def example_token_def
        token_empty_def example_claims_def)
  then show thesis by (rule that) simp
qed

lemma example_cache:
  "\<not> checkToken (cache_new True) x" "cache_inv (cache_new True)"
  "queue_bytes (m_cacheQueue (cache_new True)) + length (json_writer (example_lib alg) v) \<le> size_max"
  "m_cacheCurrentByteCount (cache_new True) + length (json_writer (example_lib alg) v) \<le> m_cacheMaxByteCount (cache_new True)"
  "m_cacheMaxByteCount (cache_new True) \<le> size_max" "m_enabled (cache_new True)"
  by (simp_all add: checkToken_def cache_new_def cache_inv_def example_lib_def size_max_def)

theorem jwt_issue_verify_hmac_witness:
  "\<exists>t' full j' v. signFromToken (example_lib HS256) (\<lambda>_. 1000) (example_jwt HS256) example_token True = Inr (t', full)
     \<and> verify (example_lib HS256) 1100 (example_jwt HS256) full None = (j', Inr (v, True)) \<and> m_claims v = example_claims"
proof -
  obtain t' full where sign: "signFromToken (example_lib HS256) (\<lambda>_. 1000) (example_jwt HS256) example_token True = Inr (t', full)"
    "m_claims t' = example_claims" by (rule example_sign)
  have "hmac_digest (example_lib HS256) n k d \<noteq> []" for n k d by (simp add: example_lib_def)
  then show ?thesis
    using jwt_issue_verify_hmac [OF example_codec, of HS256 "example_jwt HS256" t' "\<lambda>_. 1000" example_token full 1100 None]
      sign example_reader example_cache
    by (auto simp: isSignatureRevoked_def revocation_new_def)
qed

theorem jwt_issue_verify_rsa_witness:
  "\<exists>t' full j' v. signFromToken (example_lib RS256) (\<lambda>_. 1000) (example_jwt RS256) example_token True = Inr (t', full)
     \<and> verify (example_lib RS256) 1100 (example_jwt RS256) full None = (j', Inr (v, True)) \<and> m_claims v = example_claims"
proof -
  obtain t' full where sign: "signFromToken (example_lib RS256) (\<lambda>_. 1000) (example_jwt RS256) example_token True = Inr (t', full)"
    "m_claims t' = example_claims" by (rule example_sign)
  have "bio_new_ok (example_lib RS256)" "md_ctx_ok (example_lib RS256)" "pem_private (example_lib RS256) ''priv'' = Some ()"
    "pem_public (example_lib RS256) ''pub'' = Some ()" "sign_init_ok (example_lib RS256) n ()"
    "sign_final (example_lib RS256) n () d \<noteq> []" "sign_size (example_lib RS256) n () d = length (sign_final (example_lib RS256) n () d)"
    "length (sign_final (example_lib RS256) n () d) < 2 ^ 32" "verify_final (example_lib RS256) n () d (sign_final (example_lib RS256) n () d)"
    for n d by (simp_all add: example_lib_def)
  then show ?thesis
    using jwt_issue_verify_rsa [OF example_codec, of RS256 "example_jwt RS256" t' "()" "()" "\<lambda>_. 1000" example_token full 1100 None]
      sign example_reader example_cache
    by (auto simp: isSignatureRevoked_def revocation_new_def)
qed

theorem jwt_revoked_accepted_on_retry_witness:
  "\<exists>j full j1 v1 v2. verify (example_lib HS256) 1100 j full None = (j1, Inr (v1, False))
     \<and> verify (example_lib HS256) 1100 j1 full None = (j1, Inr (v2, True))"
proof -
  obtain t' full where sign: "signFromToken (example_lib HS256) (\<lambda>_. 1000) (example_jwt HS256) example_token True = Inr (t', full)"
    "m_claims t' = example_claims" by (rule example_sign)
  have hm: "hmac_digest (example_lib HS256) n k d \<noteq> []" for n k d by (simp add: example_lib_def)
  obtain c where c: "cache_add (cache_new True) (json_writer (example_lib HS256) example_claims) = Inr c"
    using cache_add_ok [OF example_cache(2,3)] by blast
  obtain h p s where s: "split_token full = Some (h, p, s)"
    by (rule issue_verify [OF example_codec, of HS256 "example_jwt HS256" t' c "\<lambda>_. 1000" example_token full 1100 None])
      (use sign example_reader example_cache c hmac_signature_ok [of "example_jwt HS256" "example_lib HS256"] hm in auto)
  define j where "j = (example_jwt HS256)\<lparr>m_revocation := addToRevocationList revocation_new (part_str (example_lib HS256) s) 2000\<rparr>"
  have sj: "signFromToken (example_lib HS256) (\<lambda>_. 1000) j example_token True = Inr (t', full)"
    using sign(1) by (simp add: j_def signFromToken_def sign_def createHeader_def createSignature_def createHMACSignature_def Let_def
        cong: sum.case_cong option.case_cong)
  show ?thesis
    using jwt_revoked_accepted_on_retry [OF example_codec, of HS256 j t' "\<lambda>_. 1000" example_token full h p s 1100]
      sj sign(2) s hm example_reader example_cache
    by (auto simp: j_def isSignatureRevoked_def addToRevocationList_def)
qed

theorem jwt_only_signed_accepted_witness:
  "\<exists>full j' t h p s. verify (example_lib HS256) 1100 (example_jwt HS256) full None = (j', Inr (t, True))
     \<and> split_token full = Some (h, p, s)
     \<and> decodeFromBase64 own_base64_decode s True = hmac_digest (example_lib HS256) NID_sha256 ''key'' (h @ ''.'' @ p)"
proof -
  obtain t' full where sign: "signFromToken (example_lib HS256) (\<lambda>_. 1000) (example_jwt HS256) example_token True = Inr (t', full)"
    "m_claims t' = example_claims" by (rule example_sign)
  have hm: "hmac_digest (example_lib HS256) n k d \<noteq> []" for n k d by (simp add: example_lib_def)
  obtain c where c: "cache_add (cache_new True) (json_writer (example_lib HS256) example_claims) = Inr c"
    using cache_add_ok [OF example_cache(2,3)] by blast
  obtain j' v where v: "verify (example_lib HS256) 1100 (example_jwt HS256) full None = (j', Inr (v, True))"
    by (rule issue_verify [OF example_codec, of HS256 "example_jwt HS256" t' c "\<lambda>_. 1000" example_token full 1100 None])
      (use sign example_reader example_cache c hmac_signature_ok [of "example_jwt HS256" "example_lib HS256"] hm in
        \<open>auto simp: isSignatureRevoked_def revocation_new_def\<close>)
  have r: "jwt_run (example_lib HS256) HS256 (example_jwt HS256) {} {}"
    using run_privateSecret [OF run_sharedSecret [OF run_new [of "example_lib HS256" HS256 True]]] by (simp add: example_jwt_def)
  from jwt_only_signed_accepted [OF r _ _ _ _ v] show ?thesis
    using v by (auto simp: example_lib_def)
qed

end
