(* ===== verification/SafeMap.thy ===== *)
theory SafeMap
  imports Prelude
begin

text \<open>
  The thread-safe map of \<^verbatim>\<open>src/Mantids30/Threads/map.h\<close>: elements that readers open and release, and
  that a destroyer deletes once the last reader has released them. Every member function holds the mutex of
  the map, except while it waits on a condition variable; the definitions are the locked sections, and a
  step relation interleaves the calls of any number of threads, with spurious wake-ups.
\<close>

section \<open>Locked sections\<close>

text \<open>\<open>item\<close> is \<open>None\<close> for the null pointer; \<open>numReaders\<close> is an unsigned 32-bit counter.\<close>

record 'i map_element =
  item :: "'i option"
  numReaders :: nat

type_synonym ('k, 'i) key_value_map = "'k \<rightharpoonup> 'i map_element"

definition map_getKeys :: "('k, 'i) key_value_map \<Rightarrow> 'k set" where
  "map_getKeys m = dom m"

definition map_isMember :: "('k, 'i) key_value_map \<Rightarrow> 'k \<Rightarrow> bool" where
  "map_isMember m key \<longleftrightarrow> m key \<noteq> None"

definition addElement :: "('k, 'i) key_value_map \<Rightarrow> 'k \<Rightarrow> 'i option \<Rightarrow> ('k, 'i) key_value_map \<times> bool" where
  "addElement m key element =
     (if m key = None then (m(key \<mapsto> \<lparr>item = element, numReaders = 0\<rparr>), True) else (m, False))"

definition openElement :: "('k, 'i) key_value_map \<Rightarrow> 'k \<Rightarrow> ('k, 'i) key_value_map \<times> 'i option" where
  "openElement m key =
     (case m key of
        Some el \<Rightarrow>
          (case item el of
             Some i \<Rightarrow> (m(key \<mapsto> el\<lparr>numReaders := (numReaders el + 1) mod 2 ^ 32\<rparr>), Some i)
           | None \<Rightarrow> (m, None))
      | None \<Rightarrow> (m, None))"

text \<open>The second result says whether the waiting destroyer is notified.\<close>

definition releaseElement :: "('k, 'i) key_value_map \<Rightarrow> 'k \<Rightarrow> (('k, 'i) key_value_map \<times> bool \<times> bool) result" where
  "releaseElement m key =
     (case m key of
        Some el \<Rightarrow>
          if numReaders el = 0 then Inl (RuntimeError ''Invalid close on Mutex MAP'')
          else Inr (m(key \<mapsto> el\<lparr>numReaders := numReaders el - 1\<rparr>), numReaders el - 1 = 0, True)
      | None \<Rightarrow> Inr (m, False, False))"

text \<open>
  \<^verbatim>\<open>destroyElement\<close> first takes the item away, which makes it inaccessible; the loop condition is
  checked under the lock, at first and after every wait; the end deletes the item and erases the key.
\<close>

definition destroy_begin :: "('k, 'i) key_value_map \<Rightarrow> 'k \<Rightarrow> (('k, 'i) key_value_map \<times> 'i) option" where
  "destroy_begin m key =
     (case m key of
        Some el \<Rightarrow> (case item el of Some i \<Rightarrow> Some (m(key \<mapsto> el\<lparr>item := None\<rparr>), i) | None \<Rightarrow> None)
      | None \<Rightarrow> None)"

definition destroy_must_wait :: "('k, 'i) key_value_map \<Rightarrow> 'k \<Rightarrow> bool" where
  "destroy_must_wait m key \<longleftrightarrow> (case m key of Some el \<Rightarrow> numReaders el \<noteq> 0 | None \<Rightarrow> False)"

definition destroy_end :: "('k, 'i) key_value_map \<Rightarrow> 'k \<Rightarrow> ('k, 'i) key_value_map" where
  "destroy_end m key = m(key := None)"

definition waitForEmptyMap_done :: "('k, 'i) key_value_map \<Rightarrow> bool" where
  "waitForEmptyMap_done m \<longleftrightarrow> m = Map.empty"

section \<open>Threads\<close>

text \<open>
  What a thread does between its locked sections. \<open>Destroying\<close> and \<open>Emptying\<close> threads sleep on a condition
  variable; the flag tells that they have been notified.
\<close>

datatype ('k, 'i) activity =
    Idle
  | Reading 'k 'i
  | Destroying 'k 'i bool
  | Emptying bool

text \<open>
  Besides the map and the threads, the state records which item belongs to which key and which items
  were deleted, in order; neither is read by the program.
\<close>

record ('k, 'i) map_system =
  kvmap :: "('k, 'i) key_value_map"
  activity :: "nat \<Rightarrow> ('k, 'i) activity"
  owned :: "'k \<rightharpoonup> 'i"
  deleted :: "'i list"

definition map_start :: "('k, 'i) map_system" where
  "map_start = \<lparr>kvmap = Map.empty, activity = (\<lambda>_. Idle), owned = Map.empty, deleted = []\<rparr>"

text \<open>The end of \<^verbatim>\<open>destroyElement\<close> by thread \<open>t\<close>; an empty map notifies one thread, \<open>w\<close>, that waits for it.\<close>

definition notify_destroyer :: "nat \<Rightarrow> 'k \<Rightarrow> (nat \<Rightarrow> ('k, 'i) activity) \<Rightarrow> (nat \<Rightarrow> ('k, 'i) activity)" where
  "notify_destroyer w key a =
     (case a w of Destroying k i n \<Rightarrow> if k = key then a(w := Destroying k i True) else a | _ \<Rightarrow> a)"

definition notify_empty :: "nat \<Rightarrow> (nat \<Rightarrow> ('k, 'i) activity) \<Rightarrow> (nat \<Rightarrow> ('k, 'i) activity)" where
  "notify_empty w a = (case a w of Emptying n \<Rightarrow> a(w := Emptying True) | _ \<Rightarrow> a)"

definition finish_destroy :: "nat \<Rightarrow> nat \<Rightarrow> 'k \<Rightarrow> 'i \<Rightarrow> ('k, 'i) map_system \<Rightarrow> ('k, 'i) map_system" where
  "finish_destroy t w key i s =
     (let m = destroy_end (kvmap s) key; a = (activity s)(t := Idle)
      in s\<lparr>kvmap := m, activity := (if m = Map.empty then notify_empty w a else a),
           owned := (owned s)(key := None), deleted := i # deleted s\<rparr>)"

text \<open>
  The steps. An item is added once; a thread releases only what it has opened; there are fewer readers of
  one element than the counter can hold. A notification goes to a waiting thread if there is one.
\<close>

inductive map_step :: "('k, 'i) map_system \<Rightarrow> ('k, 'i) map_system \<Rightarrow> bool" where
  step_add: "activity s t = Idle \<Longrightarrow> i \<notin> ran (owned s) \<Longrightarrow> i \<notin> set (deleted s) \<Longrightarrow>
     addElement (kvmap s) key (Some i) = (m, ok) \<Longrightarrow>
     map_step s (s\<lparr>kvmap := m, owned := (if ok then (owned s)(key \<mapsto> i) else owned s)\<rparr>)"
| step_open: "activity s t = Idle \<Longrightarrow> openElement (kvmap s) key = (m, Some i) \<Longrightarrow>
     (\<And>el. kvmap s key = Some el \<Longrightarrow> numReaders el < 2 ^ 32 - 1) \<Longrightarrow>
     map_step s (s\<lparr>kvmap := m, activity := (activity s)(t := Reading key i)\<rparr>)"
| step_release: "activity s t = Reading key i \<Longrightarrow> releaseElement (kvmap s) key = Inr (m, wake, ok) \<Longrightarrow>
     ((\<exists>u j. activity s u = Destroying key j False) \<Longrightarrow> \<exists>j. activity s w = Destroying key j False) \<Longrightarrow>
     map_step s (s\<lparr>kvmap := m, activity :=
       (if wake then notify_destroyer w key ((activity s)(t := Idle)) else (activity s)(t := Idle))\<rparr>)"
| step_destroy_wait: "activity s t = Idle \<Longrightarrow> destroy_begin (kvmap s) key = Some (m, i) \<Longrightarrow> destroy_must_wait m key \<Longrightarrow>
     map_step s (s\<lparr>kvmap := m, activity := (activity s)(t := Destroying key i False)\<rparr>)"
| step_destroy_now: "activity s t = Idle \<Longrightarrow> destroy_begin (kvmap s) key = Some (m, i) \<Longrightarrow> \<not> destroy_must_wait m key \<Longrightarrow>
     ((\<exists>u. activity s u = Emptying False) \<Longrightarrow> activity s w = Emptying False) \<Longrightarrow>
     map_step s (finish_destroy t w key i (s\<lparr>kvmap := m\<rparr>))"
| step_destroy_sleep: "activity s t = Destroying key i n \<Longrightarrow> destroy_must_wait (kvmap s) key \<Longrightarrow>
     map_step s (s\<lparr>activity := (activity s)(t := Destroying key i False)\<rparr>)"
| step_destroy_end: "activity s t = Destroying key i n \<Longrightarrow> \<not> destroy_must_wait (kvmap s) key \<Longrightarrow>
     ((\<exists>u. activity s u = Emptying False) \<Longrightarrow> activity s w = Emptying False) \<Longrightarrow>
     map_step s (finish_destroy t w key i s)"
| step_empty_wait: "activity s t = Idle \<or> activity s t = Emptying n \<Longrightarrow> \<not> waitForEmptyMap_done (kvmap s) \<Longrightarrow>
     map_step s (s\<lparr>activity := (activity s)(t := Emptying False)\<rparr>)"
| step_empty_end: "activity s t = Emptying n \<Longrightarrow> waitForEmptyMap_done (kvmap s) \<Longrightarrow>
     map_step s (s\<lparr>activity := (activity s)(t := Idle)\<rparr>)"

inductive map_reachable :: "('k, 'i) map_system \<Rightarrow> bool" where
  reach_start: "map_reachable map_start"
| reach_step: "map_reachable s \<Longrightarrow> map_step s s' \<Longrightarrow> map_reachable s'"

section \<open>Invariant\<close>

definition readers :: "(nat \<Rightarrow> ('k, 'i) activity) \<Rightarrow> 'k \<Rightarrow> nat set" where
  "readers a key = {t. \<exists>i. a t = Reading key i}"

text \<open>Threads agree with the map: readers are counted, their item is the one of the key, and a key whose
  item was taken away has exactly one destroyer, which is notified when no reader is left.\<close>

definition map_threads_ok :: "('k, 'i) map_system \<Rightarrow> bool" where
  "map_threads_ok s \<longleftrightarrow>
     (\<forall>key. finite (readers (activity s) key))
   \<and> (\<forall>t key i. activity s t = Reading key i \<longrightarrow> owned s key = Some i)
   \<and> (\<forall>t key i n. activity s t = Destroying key i n \<longrightarrow>
        owned s key = Some i \<and> (\<exists>el. kvmap s key = Some el \<and> item el = None \<and> (numReaders el = 0 \<longrightarrow> n)))
   \<and> (\<forall>t u key i j n n'. activity s t = Destroying key i n \<longrightarrow> activity s u = Destroying key j n' \<longrightarrow> t = u)"

definition map_elements_ok :: "('k, 'i) map_system \<Rightarrow> bool" where
  "map_elements_ok s \<longleftrightarrow>
     (\<forall>key. owned s key = None \<longleftrightarrow> kvmap s key = None)
   \<and> (\<forall>key el. kvmap s key = Some el \<longrightarrow>
        numReaders el = card (readers (activity s) key)
      \<and> (\<forall>i. item el = Some i \<longrightarrow> owned s key = Some i)
      \<and> (item el = None \<longrightarrow> (\<exists>t i n. activity s t = Destroying key i n)))"

definition map_items_ok :: "('k, 'i) map_system \<Rightarrow> bool" where
  "map_items_ok s \<longleftrightarrow>
     (\<forall>k k' i. owned s k = Some i \<longrightarrow> owned s k' = Some i \<longrightarrow> k = k')
   \<and> ran (owned s) \<inter> set (deleted s) = {} \<and> distinct (deleted s)"

definition map_inv :: "('k, 'i) map_system \<Rightarrow> bool" where
  "map_inv s \<longleftrightarrow> map_threads_ok s \<and> map_elements_ok s \<and> map_items_ok s"

lemma map_start_inv: "map_inv map_start"
  by (simp add: map_inv_def map_threads_ok_def map_elements_ok_def map_items_ok_def map_start_def readers_def)

text \<open>How a step changes the set of readers of a key.\<close>

lemma readers_read: "readers (a(t := Reading key i)) k = (if k = key then insert t (readers a k) else readers a k - {t})"
  by (auto simp: readers_def)

lemma readers_other: "(\<And>k i. x \<noteq> Reading k i) \<Longrightarrow> readers (a(t := x)) k = readers a k - {t}"
  by (auto simp: readers_def)

lemma readers_notify [simp]: "readers (notify_destroyer w key a) = readers a" "readers (notify_empty w a) = readers a"
  by (auto simp: readers_def notify_destroyer_def notify_empty_def fun_eq_iff split: activity.splits)

lemma readers_idle: "(\<And>k i. a t \<noteq> Reading k i) \<Longrightarrow> t \<notin> readers a k"
  by (auto simp: readers_def)

lemma notify_destroyer_cases:
  "notify_destroyer w key a u = a u \<or> (\<exists>i n. a u = Destroying key i n \<and> notify_destroyer w key a u = Destroying key i True)"
  by (auto simp: notify_destroyer_def split: activity.splits)

lemma notify_empty_cases: "notify_empty w a u = a u \<or> (\<exists>n. a u = Emptying n \<and> notify_empty w a u = Emptying True)"
  by (auto simp: notify_empty_def split: activity.splits)

lemma notify_empty_iff [simp]:
  "notify_empty w a u = Reading k i \<longleftrightarrow> a u = Reading k i" "notify_empty w a u = Destroying k i n \<longleftrightarrow> a u = Destroying k i n"
  "notify_destroyer w key a u = Reading k i \<longleftrightarrow> a u = Reading k i"
  by (auto simp: notify_empty_def notify_destroyer_def split: activity.splits)

lemma notify_destroyer_someone [simp]: "(\<exists>n. notify_destroyer w key a u = Destroying k i n) \<longleftrightarrow> (\<exists>n. a u = Destroying k i n)"
  by (auto simp: notify_destroyer_def split: activity.splits)

lemma map_invD:
  assumes "map_inv s"
  shows "finite (readers (activity s) key)"
    and "activity s t = Reading key i \<Longrightarrow> owned s key = Some i"
    and "activity s t = Destroying key i n \<Longrightarrow> owned s key = Some i"
    and "activity s t = Destroying key i n \<Longrightarrow> \<exists>el. kvmap s key = Some el \<and> item el = None \<and> (numReaders el = 0 \<longrightarrow> n)"
    and "activity s t = Destroying key i n \<Longrightarrow> activity s u = Destroying key j n' \<Longrightarrow> t = u"
    and "kvmap s key = None \<longleftrightarrow> owned s key = None"
    and "kvmap s key = Some el \<Longrightarrow> numReaders el = card (readers (activity s) key)"
    and "kvmap s key = Some el \<Longrightarrow> item el = Some i \<Longrightarrow> owned s key = Some i"
    and "kvmap s key = Some el \<Longrightarrow> item el = None \<Longrightarrow> \<exists>t i n. activity s t = Destroying key i n"
    and "map_items_ok s"
  using assms by (auto simp: map_inv_def map_threads_ok_def map_elements_ok_def)

lemma map_invI:
  assumes "\<And>key. finite (readers (activity s) key)"
    and "\<And>t key i. activity s t = Reading key i \<Longrightarrow> owned s key = Some i"
    and "\<And>t key i n. activity s t = Destroying key i n \<Longrightarrow> owned s key = Some i"
    and "\<And>t key i n. activity s t = Destroying key i n \<Longrightarrow> \<exists>el. kvmap s key = Some el \<and> item el = None \<and> (numReaders el = 0 \<longrightarrow> n)"
    and "\<And>t key i n u j n'. activity s t = Destroying key i n \<Longrightarrow> activity s u = Destroying key j n' \<Longrightarrow> t = u"
    and "\<And>key. owned s key = None \<longleftrightarrow> kvmap s key = None"
    and "\<And>key el. kvmap s key = Some el \<Longrightarrow> numReaders el = card (readers (activity s) key)"
    and "\<And>key el i. kvmap s key = Some el \<Longrightarrow> item el = Some i \<Longrightarrow> owned s key = Some i"
    and "\<And>key el. kvmap s key = Some el \<Longrightarrow> item el = None \<Longrightarrow> \<exists>t i n. activity s t = Destroying key i n"
    and "map_items_ok s"
  shows "map_inv s"
  unfolding map_inv_def map_threads_ok_def map_elements_ok_def
  by (intro conjI allI impI) (rule assms; assumption)+

lemma add_inv:
  assumes "map_inv s" and "i \<notin> ran (owned s)" and "i \<notin> set (deleted s)" and "addElement (kvmap s) key (Some i) = (m, ok)"
  shows "map_inv (s\<lparr>kvmap := m, owned := (if ok then (owned s)(key \<mapsto> i) else owned s)\<rparr>)"
proof (cases "kvmap s key")
  case None
  note inv = map_invD [OF assms(1)]
  have ok: "ok = True" "m = (kvmap s)(key \<mapsto> \<lparr>item = Some i, numReaders = 0\<rparr>)" using None assms(4) by (auto simp: addElement_def)
  have own: "owned s key = None" using inv(6) None by blast
  have none: "activity s t \<noteq> Reading key j" "activity s t \<noteq> Destroying key j n" for t j n
    using inv(2,3) own by fastforce+
  have empty: "readers (activity s) key = {}" using none by (simp add: readers_def)
  let ?s = "s\<lparr>kvmap := m, owned := (owned s)(key \<mapsto> i)\<rparr>"
  have "map_threads_ok ?s" using inv(1-5) none ok by (auto simp: map_threads_ok_def)
  moreover have "map_elements_ok ?s"
    using inv(6-9) none ok empty by (auto simp: map_elements_ok_def)
  moreover have "map_items_ok ?s" using inv(10) assms(2,3) own by (auto simp: map_items_ok_def ran_def)
  ultimately show ?thesis using ok by (simp add: map_inv_def)
next
  case (Some el)
  then have "m = kvmap s" "\<not> ok" using assms(4) by (auto simp: addElement_def)
  then show ?thesis using assms(1) by simp
qed

lemma open_inv:
  assumes "map_inv s" and "activity s t = Idle" and "openElement (kvmap s) key = (m, Some i)"
    and "\<And>el. kvmap s key = Some el \<Longrightarrow> numReaders el < 2 ^ 32 - 1"
  shows "map_inv (s\<lparr>kvmap := m, activity := (activity s)(t := Reading key i)\<rparr>)"
proof -
  note inv = map_invD [OF assms(1)]
  obtain el where el: "kvmap s key = Some el" "item el = Some i" "m = (kvmap s)(key \<mapsto> el\<lparr>numReaders := Suc (numReaders el)\<rparr>)"
    using assms(3,4) by (auto simp: openElement_def split: option.splits)
  have own: "owned s key = Some i" using inv(8) el by blast
  have none: "activity s u \<noteq> Destroying key j n" for u j n using inv(4) el by fastforce
  let ?a = "(activity s)(t := Reading key i)"
  have tr: "t \<notin> readers (activity s) k" for k using readers_idle [of "activity s" t k] assms(2) by simp
  have rd: "readers ?a k = (if k = key then insert t (readers (activity s) k) else readers (activity s) k)" for k
    using tr by (auto simp: readers_read)
  show ?thesis
  proof (rule map_invI)
    fix u k j n e
    let ?s = "s\<lparr>kvmap := m, activity := ?a\<rparr>"
    show "finite (readers (activity ?s) k)" using inv(1) by (simp add: rd)
    show "owned ?s k = Some j" if "activity ?s u = Reading k j" using that inv(2) own by (auto split: if_splits)
    show "owned ?s k = Some j" if "activity ?s u = Destroying k j n" using that inv(3) by (auto split: if_splits)
    show "\<exists>el. kvmap ?s k = Some el \<and> item el = None \<and> (numReaders el = 0 \<longrightarrow> n)" if "activity ?s u = Destroying k j n"
      using that inv(4) none el(3) by (auto split: if_splits)
    show "u = v" if "activity ?s u = Destroying k j n" "activity ?s v = Destroying k j' n'" for v j' n'
      using that inv(5) by (auto split: if_splits)
    show "(owned ?s k = None) = (kvmap ?s k = None)" using inv(6) [of k] el by (auto simp: own)
    show "numReaders e = card (readers (activity ?s) k)" if "kvmap ?s k = Some e"
      using that inv(1,7) el tr by (auto simp: rd split: if_splits)
    show "owned ?s k = Some j" if "kvmap ?s k = Some e" "item e = Some j" using that inv(8) el by (auto split: if_splits)
    show "\<exists>t i n. activity ?s t = Destroying k i n" if "kvmap ?s k = Some e" "item e = None"
      using that inv(9) el assms(2) by (fastforce split: if_splits)
    show "map_items_ok ?s" using inv(10) by (simp add: map_items_ok_def)
  qed
qed

lemma release_inv:
  assumes "map_inv s" and "activity s t = Reading key i" and "releaseElement (kvmap s) key = Inr (m, wake, ok)"
    and "(\<exists>u j. activity s u = Destroying key j False) \<Longrightarrow> \<exists>j. activity s w = Destroying key j False"
  shows "map_inv (s\<lparr>kvmap := m, activity :=
       (if wake then notify_destroyer w key ((activity s)(t := Idle)) else (activity s)(t := Idle))\<rparr>)"
proof -
  note inv = map_invD [OF assms(1)]
  have own: "owned s key = Some i" using inv(2) assms(2) by blast
  then obtain el where el: "kvmap s key = Some el" using inv(6) [of key] by auto
  have tr: "t \<in> readers (activity s) key" using assms(2) by (auto simp: readers_def)
  have m: "m = (kvmap s)(key \<mapsto> el\<lparr>numReaders := numReaders el - 1\<rparr>)" "wake \<longleftrightarrow> numReaders el - 1 = 0"
    using assms(3) el by (auto simp: releaseElement_def split: if_splits)
  define a where "a = (if wake then notify_destroyer w key ((activity s)(t := Idle)) else (activity s)(t := Idle))"
  have rd: "readers a k = (if k = key then readers (activity s) k - {t} else readers (activity s) k)" for k
    using assms(2) unfolding a_def by (auto simp: readers_other) (auto simp: readers_def)
  have card: "numReaders el - 1 = card (readers a key)" using inv(1,7) el tr by (simp add: rd)
  have reading: "a u = Reading k j \<Longrightarrow> activity s u = Reading k j" for u k j unfolding a_def by (auto split: if_splits)
  have destr: "(\<exists>n. a u = Destroying k j n) \<longleftrightarrow> (\<exists>n. activity s u = Destroying k j n)" for u k j
    using assms(2) unfolding a_def by auto
  have other: "a u = Destroying k j n \<Longrightarrow> k \<noteq> key \<Longrightarrow> activity s u = Destroying k j n" for u k j n
    unfolding a_def notify_destroyer_def by (auto split: if_splits activity.splits)
  have woken: "n" if u: "a u = Destroying key j n" and wake for u j n
  proof -
    obtain n' where n': "activity s u = Destroying key j n'" using destr u by blast
    have aw: "a = notify_destroyer w key ((activity s)(t := Idle))" using that(2) by (simp add: a_def)
    show n
    proof (cases n')
      case False
      then have "\<exists>u j. activity s u = Destroying key j False" using n' by auto
      then obtain j' where w: "activity s w = Destroying key j' False" using assms(4) by blast
      then have "w = u" using inv(5) n' by blast
      then show ?thesis using u w aw assms(2) by (auto simp: notify_destroyer_def split: if_splits)
    next
      case True
      then show ?thesis using u n' aw by (auto simp: notify_destroyer_def split: if_splits activity.splits)
    qed
  qed
  have "map_inv (s\<lparr>kvmap := m, activity := a\<rparr>)"
  proof (rule map_invI)
    fix u k j n e
    let ?s = "s\<lparr>kvmap := m, activity := a\<rparr>"
    show "finite (readers (activity ?s) k)" using inv(1) by (simp add: rd)
    show "owned ?s k = Some j" if "activity ?s u = Reading k j" using that reading inv(2) by fastforce
    show "owned ?s k = Some j" if "activity ?s u = Destroying k j n" using that destr inv(3) by fastforce
    show "u = v" if "activity ?s u = Destroying k j n" "activity ?s v = Destroying k j' n'" for v j' n'
    proof -
      have "\<exists>x. activity s u = Destroying k j x" "\<exists>y. activity s v = Destroying k j' y"
        using that destr [of u k j] destr [of v k j'] by auto
      then show ?thesis using inv(5) by blast
    qed
    show "\<exists>el. kvmap ?s k = Some el \<and> item el = None \<and> (numReaders el = 0 \<longrightarrow> n)" if u: "activity ?s u = Destroying k j n"
    proof (cases "k = key")
      case True
      obtain n' where "activity s u = Destroying key j n'" using destr u True by fastforce
      then have "item el = None" using inv(4) el by fastforce
      then show ?thesis using True woken u m by auto
    next
      case False
      then show ?thesis using other u inv(4) m(1) by fastforce
    qed
    show "(owned ?s k = None) = (kvmap ?s k = None)" using inv(6) [of k] m(1) own by auto
    show "numReaders e = card (readers (activity ?s) k)" if "kvmap ?s k = Some e"
      using that m(1) card inv(7) by (auto simp: rd split: if_splits)
    show "owned ?s k = Some j" if "kvmap ?s k = Some e" "item e = Some j" using that inv(8) m(1) el by (auto split: if_splits)
    show "\<exists>t i n. activity ?s t = Destroying k i n" if e: "kvmap ?s k = Some e" "item e = None"
    proof -
      obtain e' where "kvmap s k = Some e'" "item e' = None" using e m(1) el by (auto split: if_splits)
      then obtain u j n where "activity s u = Destroying k j n" using inv(9) by blast
      then show ?thesis using destr by fastforce
    qed
    show "map_items_ok ?s" using inv(10) by (simp add: map_items_ok_def)
  qed
  then show ?thesis by (simp add: a_def)
qed

text \<open>Taking the item away: a key with an item has no destroyer yet, and the new one is asleep or finishes.\<close>

lemma destroy_begin_facts:
  assumes "map_inv s" and "destroy_begin (kvmap s) key = Some (m, i)"
  obtains el where "kvmap s key = Some el" and "item el = Some i" and "m = (kvmap s)(key \<mapsto> el\<lparr>item := None\<rparr>)"
    and "owned s key = Some i" and "\<forall>u j n. activity s u \<noteq> Destroying key j n"
    and "destroy_must_wait m key \<longleftrightarrow> readers (activity s) key \<noteq> {}"
proof -
  note inv = map_invD [OF assms(1)]
  obtain el where el: "kvmap s key = Some el" "item el = Some i" "m = (kvmap s)(key \<mapsto> el\<lparr>item := None\<rparr>)"
    using assms(2) by (auto simp: destroy_begin_def split: option.splits)
  have "owned s key = Some i" using inv(8) el by blast
  moreover have "activity s u \<noteq> Destroying key j n" for u j n using inv(4) el by fastforce
  moreover have "destroy_must_wait m key \<longleftrightarrow> readers (activity s) key \<noteq> {}"
    using inv(1,7) el by (simp add: destroy_must_wait_def)
  ultimately show thesis using that el by blast
qed

lemma destroy_wait_inv:
  assumes "map_inv s" and "activity s t = Idle" and "destroy_begin (kvmap s) key = Some (m, i)" and "destroy_must_wait m key"
  shows "map_inv (s\<lparr>kvmap := m, activity := (activity s)(t := Destroying key i False)\<rparr>)"
proof -
  note inv = map_invD [OF assms(1)]
  obtain el where el: "kvmap s key = Some el" "item el = Some i" "m = (kvmap s)(key \<mapsto> el\<lparr>item := None\<rparr>)"
    "owned s key = Some i" "\<forall>u j n. activity s u \<noteq> Destroying key j n" "destroy_must_wait m key \<longleftrightarrow> readers (activity s) key \<noteq> {}"
    by (rule destroy_begin_facts [OF assms(1,3)])
  let ?a = "(activity s)(t := Destroying key i False)"
  have rd: "readers ?a k = readers (activity s) k" for k
    using readers_idle [of "activity s" t k] assms(2) by (simp add: readers_other)
  have nz: "numReaders el \<noteq> 0" using inv(1,7) el(1,6) assms(4) by auto
  show ?thesis
  proof (rule map_invI)
    fix u k j n e
    let ?s = "s\<lparr>kvmap := m, activity := ?a\<rparr>"
    show "finite (readers (activity ?s) k)" using inv(1) by (simp add: rd)
    show "owned ?s k = Some j" if "activity ?s u = Reading k j" using that inv(2) by (auto split: if_splits)
    show "owned ?s k = Some j" if "activity ?s u = Destroying k j n" using that inv(3) el(4) by (auto split: if_splits)
    show "\<exists>el. kvmap ?s k = Some el \<and> item el = None \<and> (numReaders el = 0 \<longrightarrow> n)" if "activity ?s u = Destroying k j n"
      using that inv(4) el(3,5) nz by (auto split: if_splits)
    show "u = v" if "activity ?s u = Destroying k j n" "activity ?s v = Destroying k j' n'" for v j' n'
      using that inv(5) el(5) by (auto split: if_splits)
    show "(owned ?s k = None) = (kvmap ?s k = None)" using inv(6) [of k] el(3,4) by auto
    show "numReaders e = card (readers (activity ?s) k)" if "kvmap ?s k = Some e"
      using that inv(7) el(1,3) by (auto simp: rd split: if_splits)
    show "owned ?s k = Some j" if "kvmap ?s k = Some e" "item e = Some j" using that inv(8) el(3) by (auto split: if_splits)
    show "\<exists>t i n. activity ?s t = Destroying k i n" if e: "kvmap ?s k = Some e" "item e = None"
    proof (cases "k = key")
      case False
      then obtain u j n where "activity s u = Destroying k j n" using inv(9) e el(3) by fastforce
      then show ?thesis using assms(2) by (intro exI [of _ u] exI [of _ j] exI [of _ n]) auto
    qed auto
    show "map_items_ok ?s" using inv(10) by (simp add: map_items_ok_def)
  qed
qed

text \<open>The end of a destruction, when no reader is left and no other thread is destroying the key.\<close>

lemma finish_inv:
  assumes "map_inv s" and "owned s key = Some i" and "readers (activity s) key = {}"
    and "\<And>u j n. activity s u = Destroying key j n \<Longrightarrow> u = t" and "\<And>k j. activity s t \<noteq> Reading k j"
    and "\<And>k j n. activity s t = Destroying k j n \<Longrightarrow> k = key" and "\<And>k. k \<noteq> key \<Longrightarrow> m k = kvmap s k"
  shows "map_inv (finish_destroy t w key i (s\<lparr>kvmap := m\<rparr>))"
proof -
  note inv = map_invD [OF assms(1)]
  define a where "a = (if destroy_end m key = Map.empty then notify_empty w ((activity s)(t := Idle)) else (activity s)(t := Idle))"
  have rd: "readers a k = readers (activity s) k" for k
    using readers_idle [of "activity s" t k] assms(5) by (simp add: a_def readers_other)
  have a_iff: "a u = Reading k j \<longleftrightarrow> activity s u = Reading k j" "a u = Destroying k j n \<longleftrightarrow> u \<noteq> t \<and> activity s u = Destroying k j n"
    for u k j n using assms(5) by (auto simp: a_def)
  have mk: "destroy_end m key k = (if k = key then None else kvmap s k)" for k using assms(7) by (simp add: destroy_end_def)
  have state: "finish_destroy t w key i (s\<lparr>kvmap := m\<rparr>) =
      s\<lparr>kvmap := destroy_end m key, activity := a, owned := (owned s)(key := None), deleted := i # deleted s\<rparr>"
    by (simp add: finish_destroy_def a_def Let_def)
  show ?thesis unfolding state
  proof (rule map_invI)
    fix u k j n e
    let ?s = "s\<lparr>kvmap := destroy_end m key, activity := a, owned := (owned s)(key := None), deleted := i # deleted s\<rparr>"
    show "finite (readers (activity ?s) k)" using inv(1) by (simp add: rd)
    show "owned ?s k = Some j" if "activity ?s u = Reading k j"
      using that inv(2) assms(3) by (auto simp: a_iff readers_def)
    show "owned ?s k = Some j" if "activity ?s u = Destroying k j n" using that inv(3) assms(4) by (auto simp: a_iff)
    show "\<exists>el. kvmap ?s k = Some el \<and> item el = None \<and> (numReaders el = 0 \<longrightarrow> n)" if "activity ?s u = Destroying k j n"
      using that inv(4) assms(4) by (auto simp: a_iff mk)
    show "u = v" if "activity ?s u = Destroying k j n" "activity ?s v = Destroying k j' n'" for v j' n'
      using that inv(5) by (auto simp: a_iff)
    show "(owned ?s k = None) = (kvmap ?s k = None)" using inv(6) [of k] by (simp add: mk)
    show "numReaders e = card (readers (activity ?s) k)" if "kvmap ?s k = Some e"
      using that inv(7) by (simp add: rd mk split: if_splits)
    show "owned ?s k = Some j" if "kvmap ?s k = Some e" "item e = Some j" using that inv(8) by (simp add: mk split: if_splits)
    show "\<exists>t i n. activity ?s t = Destroying k i n" if e: "kvmap ?s k = Some e" "item e = None"
    proof -
      obtain u j n where u: "activity s u = Destroying k j n" "k \<noteq> key" using inv(9) e by (fastforce simp: mk split: if_splits)
      then have "u \<noteq> t" using assms(6) by blast
      then show ?thesis using u by (auto simp: a_iff)
    qed
    show "map_items_ok ?s" using inv(10) assms(2) by (auto simp: map_items_ok_def ran_def)
  qed
qed

text \<open>Steps that only change who sleeps.\<close>

lemma sleep_inv:
  assumes "map_inv s" and "activity s t = Destroying key i n" and "destroy_must_wait (kvmap s) key"
  shows "map_inv (s\<lparr>activity := (activity s)(t := Destroying key i False)\<rparr>)"
proof -
  note inv = map_invD [OF assms(1)]
  obtain el where el: "kvmap s key = Some el" "item el = None" "numReaders el \<noteq> 0"
    using inv(4) [OF assms(2)] assms(3) by (auto simp: destroy_must_wait_def)
  have rd: "readers ((activity s)(t := Destroying key i False)) k = readers (activity s) k" for k
    using readers_idle [of "activity s" t k] assms(2) by (simp add: readers_other)
  show ?thesis
  proof (rule map_invI)
    fix u k j n' e
    let ?s = "s\<lparr>activity := (activity s)(t := Destroying key i False)\<rparr>"
    show "finite (readers (activity ?s) k)" using inv(1) by (simp add: rd)
    show "owned ?s k = Some j" if "activity ?s u = Reading k j" using that inv(2) by (auto split: if_splits)
    show "owned ?s k = Some j" if "activity ?s u = Destroying k j n'" using that inv(3) assms(2) by (auto split: if_splits)
    show "\<exists>el. kvmap ?s k = Some el \<and> item el = None \<and> (numReaders el = 0 \<longrightarrow> n')" if "activity ?s u = Destroying k j n'"
      using that inv(4) el by (auto split: if_splits)
    show "u = v" if "activity ?s u = Destroying k j n'" "activity ?s v = Destroying k j' n''" for v j' n''
      using that inv(5) assms(2) by (auto split: if_splits)
    show "(owned ?s k = None) = (kvmap ?s k = None)" using inv(6) by simp
    show "numReaders e = card (readers (activity ?s) k)" if "kvmap ?s k = Some e" using that inv(7) by (simp add: rd)
    show "owned ?s k = Some j" if "kvmap ?s k = Some e" "item e = Some j" using that inv(8) by simp
    show "\<exists>t i n. activity ?s t = Destroying k i n" if e: "kvmap ?s k = Some e" "item e = None"
    proof -
      have "kvmap s k = Some e" using e(1) by simp
      then obtain u j n where "activity s u = Destroying k j n" using inv(9) e(2) by blast
      then show ?thesis using assms(2) by (cases "u = t") (auto intro!: exI [of _ u])
    qed
    show "map_items_ok ?s" using inv(10) by (simp add: map_items_ok_def)
  qed
qed

lemma empty_wait_inv:
  assumes "map_inv s" and "activity s t = Idle \<or> activity s t = Emptying n" and "x = Idle \<or> x = Emptying n'"
  shows "map_inv (s\<lparr>activity := (activity s)(t := x)\<rparr>)"
proof -
  have iff: "((activity s)(t := x)) u = Reading k i \<longleftrightarrow> activity s u = Reading k i"
    "((activity s)(t := x)) u = Destroying k i b \<longleftrightarrow> activity s u = Destroying k i b" for u k i b
    using assms(2,3) by auto
  then have "readers ((activity s)(t := x)) = readers (activity s)" by (simp add: readers_def fun_eq_iff)
  then show ?thesis using assms(1) iff
    by (simp add: map_inv_def map_threads_ok_def map_elements_ok_def map_items_ok_def del: fun_upd_apply)
qed

lemma map_step_inv: "map_step s s' \<Longrightarrow> map_inv s \<Longrightarrow> map_inv s'"
proof (induction rule: map_step.induct)
  case (step_destroy_now s t key m i w)
  note inv = map_invD [OF step_destroy_now.prems]
  obtain el where el: "m = (kvmap s)(key \<mapsto> el\<lparr>item := None\<rparr>)" "owned s key = Some i" "\<forall>u j n. activity s u \<noteq> Destroying key j n"
    "destroy_must_wait m key \<longleftrightarrow> readers (activity s) key \<noteq> {}"
    using destroy_begin_facts [OF step_destroy_now.prems step_destroy_now.hyps(2)] by blast
  show ?case by (rule finish_inv [OF step_destroy_now.prems el(2)]) (use el step_destroy_now.hyps in auto)
next
  case (step_destroy_end s t key i n w)
  note inv = map_invD [OF step_destroy_end.prems]
  have "owned s key = Some i" by (rule inv(3) [OF step_destroy_end.hyps(1)])
  moreover obtain el where "kvmap s key = Some el" using inv(4) [OF step_destroy_end.hyps(1)] by blast
  then have "readers (activity s) key = {}" using step_destroy_end.hyps(2) inv(1,7) by (simp add: destroy_must_wait_def)
  moreover have "u = t" if "activity s u = Destroying key j n'" for u j n' using inv(5) that step_destroy_end.hyps(1) by blast
  ultimately have "map_inv (finish_destroy t w key i (s\<lparr>kvmap := kvmap s\<rparr>))"
    by (rule finish_inv [OF step_destroy_end.prems]) (use step_destroy_end.hyps(1) in auto)
  then show ?case by simp
next
  case (step_add s t i key m ok)
  then show ?case by (intro add_inv)
next
  case (step_release s t key i m wake ok w)
  then show ?case by (intro release_inv)
qed (auto intro: open_inv destroy_wait_inv sleep_inv empty_wait_inv)

lemma map_reachable_inv: "map_reachable s \<Longrightarrow> map_inv s"
  by (induction rule: map_reachable.induct) (auto intro: map_start_inv map_step_inv)

text \<open>
  C11. No use after free. In every reachable state of any number of threads, an item that a thread is
  reading has not been deleted, no item is deleted twice, and releasing an opened element never throws.
  The hypotheses are the discipline of the interface: a thread releases what it opened, an item is added
  once, and fewer than \<open>2 ^ 32 - 1\<close> threads read one element.
\<close>

theorem safe_map_no_use_after_free:
  assumes "map_reachable s" and "activity s t = Reading key i"
  shows "i \<notin> set (deleted s) \<and> distinct (deleted s) \<and> (\<exists>m wake. releaseElement (kvmap s) key = Inr (m, wake, True))"
proof -
  note inv = map_invD [OF map_reachable_inv [OF assms(1)]]
  have own: "owned s key = Some i" using inv(2) assms(2) by blast
  then obtain el where el: "kvmap s key = Some el" using inv(6) [of key] by auto
  have "t \<in> readers (activity s) key" using assms(2) by (auto simp: readers_def)
  then have "numReaders el \<noteq> 0" using inv(1,7) el by auto
  then show ?thesis using inv(10) own el by (auto simp: map_items_ok_def ran_def releaseElement_def)
qed

text \<open>
  C14. A destroyer is never forgotten. When the last reader of an element under destruction is gone, the
  waiting destroyer has been notified, and its next step deletes the item, erases the key and returns;
  until then the element can no longer be opened, so that the readers can only get fewer.
\<close>

theorem safe_map_destroyer_woken:
  assumes "map_reachable s" and "activity s t = Destroying key i notified"
  shows "snd (openElement (kvmap s) key) = None
    \<and> ((\<forall>u j. activity s u \<noteq> Reading key j) \<longrightarrow>
        notified \<and> (\<exists>s'. map_step s s' \<and> activity s' t = Idle \<and> i \<in> set (deleted s') \<and> kvmap s' key = None))"
proof -
  note inv = map_invD [OF map_reachable_inv [OF assms(1)]]
  obtain el where el: "kvmap s key = Some el" "item el = None" "numReaders el = 0 \<longrightarrow> notified"
    using inv(4) [OF assms(2)] by (elim exE conjE)
  have closed: "snd (openElement (kvmap s) key) = None" using el by (simp add: openElement_def)
  have "notified \<and> (\<exists>s'. map_step s s' \<and> activity s' t = Idle \<and> i \<in> set (deleted s') \<and> kvmap s' key = None)"
    if none: "\<forall>u j. activity s u \<noteq> Reading key j"
  proof -
    have z: "numReaders el = 0" using inv(7) el(1) none by (simp add: readers_def)
    obtain w where w: "(\<exists>u. activity s u = Emptying False) \<Longrightarrow> activity s w = Emptying False" by blast
    have "map_step s (finish_destroy t w key i s)"
      by (rule step_destroy_end [OF assms(2)]) (use el z w in \<open>auto simp: destroy_must_wait_def\<close>)
    moreover have "activity (finish_destroy t w key i s) t = Idle"
      by (auto simp: finish_destroy_def Let_def notify_empty_def split: activity.splits)
    ultimately show ?thesis using z el(3) by (auto simp: finish_destroy_def destroy_end_def Let_def intro!: exI [of _ "finish_destroy t w key i s"])
  qed
  with closed show ?thesis by blast
qed

section \<open>Waiting for the empty map\<close>

definition one_item :: "(nat, nat) map_system" where
  "one_item = map_start\<lparr>kvmap := [0 \<mapsto> \<lparr>item = Some 7, numReaders = 0\<rparr>], owned := [0 \<mapsto> 7]\<rparr>"

lemma one_item_reachable: "map_reachable one_item"
proof -
  have "map_step (map_start :: (nat, nat) map_system) one_item"
    using step_add [of "map_start :: (nat, nat) map_system" 0 7 0 "[0 \<mapsto> \<lparr>item = Some 7, numReaders = 0\<rparr>]" True]
    by (simp add: map_start_def one_item_def addElement_def)
  then show ?thesis by (rule reach_step [OF reach_start])
qed

text \<open>
  One waiter of several may sleep on. \<^verbatim>\<open>waitForEmptyMap\<close> of two threads and one \<^verbatim>\<open>destroyElement\<close>: there is
  a reachable state in which the map is empty and a waiting thread has not been notified, because the
  empty map notifies one thread only.
\<close>

theorem safe_map_empty_waiter_sleeps:
  "\<exists>(s :: (nat, nat) map_system) t. map_reachable s \<and> kvmap s = Map.empty \<and> activity s t = Emptying False"
proof -
  let ?s1 = "one_item\<lparr>activity := (activity one_item)(1 := Emptying False)\<rparr>"
  let ?s2 = "?s1\<lparr>activity := (activity ?s1)(2 := Emptying False)\<rparr>"
  let ?m = "[0 \<mapsto> \<lparr>item = None, numReaders = 0\<rparr>] :: (nat, nat) key_value_map"
  have "map_reachable ?s1" by (rule reach_step [OF one_item_reachable step_empty_wait]) (simp_all add: one_item_def map_start_def waitForEmptyMap_done_def)
  then have r2: "map_reachable ?s2" by (rule reach_step [OF _ step_empty_wait]) (simp_all add: one_item_def map_start_def waitForEmptyMap_done_def)
  have "map_step ?s2 (finish_destroy 0 1 0 7 (?s2\<lparr>kvmap := ?m\<rparr>))"
    by (rule step_destroy_now) (auto simp: one_item_def map_start_def destroy_begin_def destroy_must_wait_def)
  with r2 have "map_reachable (finish_destroy 0 1 0 7 (?s2\<lparr>kvmap := ?m\<rparr>))" by (rule reach_step)
  moreover have "kvmap (finish_destroy 0 1 0 7 (?s2\<lparr>kvmap := ?m\<rparr>)) = Map.empty"
    "activity (finish_destroy 0 1 0 7 (?s2\<lparr>kvmap := ?m\<rparr>)) 2 = Emptying False"
    by (simp_all add: finish_destroy_def destroy_end_def notify_empty_def one_item_def map_start_def)
  ultimately show ?thesis by blast
qed

theorem safe_map_no_use_after_free_witness:
  "\<exists>(s :: (nat, nat) map_system). activity s 1 = Reading 0 7 \<and> 7 \<notin> set (deleted s)"
proof -
  let ?s = "one_item\<lparr>kvmap := [0 \<mapsto> \<lparr>item = Some 7, numReaders = 1\<rparr>], activity := (activity one_item)(1 := Reading 0 7)\<rparr>"
  have "map_step one_item ?s"
    by (rule step_open) (auto simp: one_item_def map_start_def openElement_def)
  then have "map_reachable ?s" by (rule reach_step [OF one_item_reachable])
  from safe_map_no_use_after_free [OF this, of 1 0 7] show ?thesis by (intro exI [of _ ?s]) simp
qed

theorem safe_map_destroyer_woken_witness:
  "\<exists>(s :: (nat, nat) map_system) s'. activity s 2 = Destroying 0 7 True \<and> map_step s s' \<and> 7 \<in> set (deleted s')"
proof -
  let ?s1 = "one_item\<lparr>kvmap := [0 \<mapsto> \<lparr>item = Some 7, numReaders = 1\<rparr>], activity := (activity one_item)(1 := Reading 0 7)\<rparr>"
  let ?s2 = "?s1\<lparr>kvmap := [0 \<mapsto> \<lparr>item = None, numReaders = 1\<rparr>], activity := (activity ?s1)(2 := Destroying 0 7 False)\<rparr>"
  let ?s3 = "?s2\<lparr>kvmap := [0 \<mapsto> \<lparr>item = None, numReaders = 0\<rparr>], activity := (if True then notify_destroyer 2 0 ((activity ?s2)(1 := Idle)) else (activity ?s2)(1 := Idle))\<rparr>"
  have "map_reachable ?s1"
    by (rule reach_step [OF one_item_reachable step_open]) (auto simp: one_item_def map_start_def openElement_def)
  then have "map_reachable ?s2"
    by (rule reach_step [OF _ step_destroy_wait]) (auto simp: one_item_def map_start_def destroy_begin_def destroy_must_wait_def)
  then have r: "map_reachable ?s3"
    by (rule reach_step [OF _ step_release [of _ 1 0 7 _ True True]]) (auto simp: one_item_def map_start_def releaseElement_def)
  have a: "activity ?s3 2 = Destroying 0 7 True" "\<forall>u j. activity ?s3 u \<noteq> Reading 0 j"
    by (auto simp: notify_destroyer_def one_item_def map_start_def)
  from safe_map_destroyer_woken [OF r a(1)] a show ?thesis by blast
qed

end
