(* ===== verification/SafeQueue.thy ===== *)
theory SafeQueue
  imports Prelude
begin

text \<open>
  The bounded queue of \<^verbatim>\<open>src/Mantids30/Threads/queue.h\<close>, shared by producers and consumers that wait on
  two condition variables with a timeout. The definitions are the sections under the mutex; the step
  relation interleaves any number of threads, with spurious wake-ups and timeouts. A notification follows when the mutex has been unlocked, as a
  step of its own, and a wait may report a timeout although the thread has been notified.
\<close>

section \<open>Locked sections\<close>

text \<open>\<open>None\<close>: the queue is full (or empty), and the caller waits or gives up.\<close>

definition push_section :: "nat \<Rightarrow> 'a list \<Rightarrow> 'a \<Rightarrow> 'a list option" where
  "push_section maxItems queue x = (if length queue \<ge> maxItems then None else Some (queue @ [x]))"

fun pop_section :: "'a list \<Rightarrow> ('a \<times> 'a list) option" where
  "pop_section [] = None"
| "pop_section (x # queue) = Some (x, queue)"

section \<open>Threads\<close>

text \<open>
  A thread that waits in \<^verbatim>\<open>push\<close> or in \<^verbatim>\<open>pop\<close>; the flag tells that it has been notified. A thread that has unlocked the mutex with its work done is about to
  notify a consumer (in \<^verbatim>\<open>push\<close>) or a producer (in \<^verbatim>\<open>pop\<close>).
\<close>

datatype 'a queue_activity = QIdle | Pushing 'a bool | Popping bool | Notifying_popper | Notifying_pusher

text \<open>
  \<open>pushed\<close> and \<open>popped\<close> record the items in the order of the sections, \<open>late\<close> counts the consumers that gave up with a timeout when they had been notified; the
  program does not have them.
\<close>

record 'a queue_system =
  m_queue :: "'a list"
  m_maxItems :: nat
  qactivity :: "nat \<Rightarrow> 'a queue_activity"
  pushed :: "'a list"
  popped :: "'a list"
  late :: nat

definition queue_start :: "'a queue_system" where
  "queue_start = \<lparr>m_queue = [], m_maxItems = 4294967295, qactivity = (\<lambda>_. QIdle), pushed = [], popped = [], late = 0\<rparr>"

definition setMaxItems :: "'a queue_system \<Rightarrow> nat \<Rightarrow> 'a queue_system" where
  "setMaxItems s n = s\<lparr>m_maxItems := n\<rparr>"

text \<open>\<^verbatim>\<open>notify_one\<close>: thread \<open>w\<close> is the one that is woken, if it sleeps there.\<close>

definition notify_popper :: "nat \<Rightarrow> (nat \<Rightarrow> 'a queue_activity) \<Rightarrow> nat \<Rightarrow> 'a queue_activity" where
  "notify_popper w a = (if a w = Popping False then a(w := Popping True) else a)"

definition notify_pusher :: "nat \<Rightarrow> (nat \<Rightarrow> 'a queue_activity) \<Rightarrow> nat \<Rightarrow> 'a queue_activity" where
  "notify_pusher w a = (case a w of Pushing x n \<Rightarrow> a(w := Pushing x True) | _ \<Rightarrow> a)"

inductive queue_step :: "'a queue_system \<Rightarrow> 'a queue_system \<Rightarrow> bool" where
  push_done: "qactivity s t = QIdle \<or> qactivity s t = Pushing x n \<Longrightarrow> push_section (m_maxItems s) (m_queue s) x = Some q \<Longrightarrow>
     queue_step s (s\<lparr>m_queue := q, qactivity := (qactivity s)(t := Notifying_popper), pushed := pushed s @ [x]\<rparr>)"
| push_notify: "qactivity s t = Notifying_popper \<Longrightarrow> ((\<exists>u. qactivity s u = Popping False) \<Longrightarrow> qactivity s w = Popping False) \<Longrightarrow>
     queue_step s (s\<lparr>qactivity := notify_popper w ((qactivity s)(t := QIdle))\<rparr>)"
| push_wait: "qactivity s t = QIdle \<or> qactivity s t = Pushing x n \<Longrightarrow> push_section (m_maxItems s) (m_queue s) x = None \<Longrightarrow>
     queue_step s (s\<lparr>qactivity := (qactivity s)(t := Pushing x False)\<rparr>)"
| push_timeout: "qactivity s t = Pushing x n \<Longrightarrow> queue_step s (s\<lparr>qactivity := (qactivity s)(t := QIdle)\<rparr>)"
| pop_done: "qactivity s t = QIdle \<or> qactivity s t = Popping n \<Longrightarrow> pop_section (m_queue s) = Some (x, q) \<Longrightarrow>
     queue_step s (s\<lparr>m_queue := q, qactivity := (qactivity s)(t := Notifying_pusher), popped := popped s @ [x]\<rparr>)"
| pop_notify: "qactivity s t = Notifying_pusher \<Longrightarrow> ((\<exists>u y. qactivity s u = Pushing y False) \<Longrightarrow> \<exists>y. qactivity s w = Pushing y False) \<Longrightarrow>
     queue_step s (s\<lparr>qactivity := notify_pusher w ((qactivity s)(t := QIdle))\<rparr>)"
| pop_wait: "qactivity s t = QIdle \<or> qactivity s t = Popping n \<Longrightarrow> pop_section (m_queue s) = None \<Longrightarrow>
     queue_step s (s\<lparr>qactivity := (qactivity s)(t := Popping False)\<rparr>)"
| pop_timeout: "qactivity s t = Popping n \<Longrightarrow>
     queue_step s (s\<lparr>qactivity := (qactivity s)(t := QIdle), late := late s + (if n then 1 else 0)\<rparr>)"
| set_max: "queue_step s (setMaxItems s n)"

inductive queue_reachable :: "'a queue_system \<Rightarrow> bool" where
  queue_reach_start: "queue_reachable queue_start"
| queue_reach_step: "queue_reachable s \<Longrightarrow> queue_step s s' \<Longrightarrow> queue_reachable s'"

section \<open>Invariant\<close>

definition notified_poppers :: "(nat \<Rightarrow> 'a queue_activity) \<Rightarrow> nat set" where
  "notified_poppers a = {t. a t = Popping True}"

definition notifying_pushers :: "(nat \<Rightarrow> 'a queue_activity) \<Rightarrow> nat set" where
  "notifying_pushers a = {t. a t = Notifying_popper}"

text \<open>The wake-ups that consumers have or will get, and those that were given to consumers that gave up.\<close>

definition wakeups :: "'a queue_system \<Rightarrow> nat" where
  "wakeups s = card (notified_poppers (qactivity s)) + card (notifying_pushers (qactivity s)) + late s"

definition queue_inv :: "'a queue_system \<Rightarrow> bool" where
  "queue_inv s \<longleftrightarrow> pushed s = popped s @ m_queue s \<and> finite (notified_poppers (qactivity s)) \<and> finite (notifying_pushers (qactivity s))
     \<and> ((\<exists>t. qactivity s t = Popping False) \<longrightarrow> length (m_queue s) \<le> wakeups s)"

lemma notified_update:
  "notified_poppers (a(t := x)) = (if x = Popping True then insert t (notified_poppers a) else notified_poppers a - {t})"
  by (auto simp: notified_poppers_def)

lemma notifying_update:
  "notifying_pushers (a(t := x)) = (if x = Notifying_popper then insert t (notifying_pushers a) else notifying_pushers a - {t})"
  by (auto simp: notifying_pushers_def)

lemma notifying_kept [simp]: "notifying_pushers (notify_popper w a) = notifying_pushers a" "notifying_pushers (notify_pusher w a) = notifying_pushers a"
  by (auto simp: notifying_pushers_def notify_popper_def notify_pusher_def split: queue_activity.splits)

lemma notified_pusher [simp]: "notified_poppers (notify_pusher w a) = notified_poppers a"
  "notify_pusher w a u = Popping n \<longleftrightarrow> a u = Popping n"
  by (auto simp: notified_poppers_def notify_pusher_def split: queue_activity.splits)

lemma notified_popper:
  "notified_poppers (notify_popper w a) = (if a w = Popping False then insert w (notified_poppers a) else notified_poppers a)"
  by (auto simp: notified_poppers_def notify_popper_def)

lemma card_remove_le: "finite A \<Longrightarrow> card A \<le> Suc (card (A - {t}))"
  by (cases "t \<in> A") auto

text \<open>A step that leaves the wake-ups, or ends with an empty queue.\<close>

lemma queue_inv_frame:
  assumes "queue_inv s" and "t \<notin> notified_poppers (qactivity s)" and "t \<notin> notifying_pushers (qactivity s)" and "x \<notin> {Popping True, Popping False, Notifying_popper}"
  shows "queue_inv (s\<lparr>qactivity := (qactivity s)(t := x)\<rparr>)"
  using assms by (auto simp: queue_inv_def wakeups_def notified_update notifying_update split: if_splits)

lemma queue_step_inv: "queue_step s s' \<Longrightarrow> queue_inv s \<Longrightarrow> queue_inv s'"
proof (induction rule: queue_step.induct)
  case (push_done s t x n q)
  have q: "q = m_queue s @ [x]" using push_done.hyps(2) by (auto simp: push_section_def split: if_splits)
  have t: "t \<notin> notified_poppers (qactivity s)" "t \<notin> notifying_pushers (qactivity s)"
    using push_done.hyps(1) by (auto simp: notified_poppers_def notifying_pushers_def)
  show ?case using push_done.prems q t by (auto simp: queue_inv_def wakeups_def notified_update notifying_update split: if_splits)
next
  case (push_notify s t w)
  let ?N = "notified_poppers (qactivity s)" and ?P = "notifying_pushers (qactivity s)"
  let ?a = "notify_popper w ((qactivity s)(t := QIdle))"
  have t: "t \<notin> ?N" "t \<in> ?P" using push_notify.hyps(1) by (auto simp: notified_poppers_def notifying_pushers_def)
  have fin: "finite ?N" "finite ?P" using push_notify.prems by (auto simp: queue_inv_def)
  have "length (m_queue s) \<le> card (notified_poppers ?a) + card (notifying_pushers ?a) + late s" if sleeper: "\<exists>u. ?a u = Popping False"
  proof -
    from sleeper obtain u where u: "qactivity s u = Popping False" "u \<noteq> t" by (auto simp: notify_popper_def split: if_splits)
    then have w: "qactivity s w = Popping False" using push_notify.hyps(2) by blast
    then have "w \<noteq> t" "w \<notin> ?N" using push_notify.hyps(1) by (auto simp: notified_poppers_def)
    then have "card (notified_poppers ?a) = Suc (card ?N)" using w t fin by (simp add: notified_popper notified_update)
    moreover have "Suc (card (notifying_pushers ?a)) = card ?P" using card_Suc_Diff1 [OF fin(2) t(2)] by (simp add: notifying_update)
    moreover have "length (m_queue s) \<le> card ?N + card ?P + late s" using push_notify.prems u by (auto simp: queue_inv_def wakeups_def)
    ultimately show ?thesis by linarith
  qed
  then show ?case using push_notify.prems by (auto simp: queue_inv_def wakeups_def notified_popper notified_update notifying_update)
next
  case (pop_done s t n x q)
  let ?N = "notified_poppers (qactivity s)" and ?P = "notifying_pushers (qactivity s)"
  have q: "m_queue s = x # q" using pop_done.hyps(2) by (cases "m_queue s") auto
  have t: "t \<notin> ?P" using pop_done.hyps(1) by (auto simp: notifying_pushers_def)
  have "length q \<le> card (?N - {t}) + card ?P + late s" if "\<exists>u. ((qactivity s)(t := Notifying_pusher)) u = Popping False"
  proof -
    from that obtain u where "qactivity s u = Popping False" by (auto split: if_splits)
    then have "length (m_queue s) \<le> card ?N + card ?P + late s" "finite ?N" using pop_done.prems by (auto simp: queue_inv_def wakeups_def)
    then show ?thesis using card_remove_le [of ?N t] q by simp
  qed
  then show ?case using pop_done.prems q t by (auto simp: queue_inv_def wakeups_def notified_update notifying_update)
next
  case (pop_wait s t n)
  then have "m_queue s = []" by (cases "m_queue s") auto
  then show ?case using pop_wait.prems by (simp add: queue_inv_def notified_update notifying_update)
next
  case (pop_timeout s t n)
  let ?N = "notified_poppers (qactivity s)" and ?P = "notifying_pushers (qactivity s)"
  have t: "t \<notin> ?P" "\<not> n \<Longrightarrow> t \<notin> ?N" using pop_timeout.hyps by (auto simp: notified_poppers_def notifying_pushers_def)
  have "finite ?N" using pop_timeout.prems by (simp add: queue_inv_def)
  then have "card ?N \<le> card (?N - {t}) + (if n then 1 else 0)" using card_remove_le [of ?N t] t(2) by (cases n) auto
  then show ?case using pop_timeout.prems t by (fastforce simp: queue_inv_def wakeups_def notified_update notifying_update split: if_splits)
next
  case (set_max s n)
  then show ?case by (simp add: queue_inv_def setMaxItems_def wakeups_def)
next
  case (push_wait s t x n)
  then show ?case by (intro queue_inv_frame) (auto simp: notified_poppers_def notifying_pushers_def)
next
  case (push_timeout s t x n)
  then show ?case by (intro queue_inv_frame) (auto simp: notified_poppers_def notifying_pushers_def)
next
  case (pop_notify s t w)
  then have "queue_inv (s\<lparr>qactivity := (qactivity s)(t := QIdle)\<rparr>)" by (intro queue_inv_frame) (auto simp: notified_poppers_def notifying_pushers_def)
  then show ?case by (simp add: queue_inv_def wakeups_def)
qed

lemma queue_start_inv: "queue_inv queue_start"
  by (simp add: queue_inv_def queue_start_def notified_poppers_def notifying_pushers_def)

lemma queue_reachable_inv: "queue_reachable s \<Longrightarrow> queue_inv s"
  by (induction rule: queue_reachable.induct) (auto intro: queue_start_inv queue_step_inv)

text \<open>
  C13. First in, first out, and which wake-ups can be lost. In every reachable state of any number of producers and
  consumers, the items popped so far followed by the items in the queue are the items pushed so far, in
  order. Whenever a consumer sleeps unnotified, the queued items are at most as many as the consumers that have been notified, the producers that are
  about to notify one, and the consumers that had been notified but gave up because their time was over: only those lose a wake-up.
\<close>

theorem safe_queue_fifo_wakeup:
  assumes "queue_reachable s"
  shows "pushed s = popped s @ m_queue s
    \<and> (qactivity s t = Popping False \<longrightarrow>
        length (m_queue s) \<le> card {u. qactivity s u = Popping True} + card {u. qactivity s u = Notifying_popper} + late s)"
  using queue_reachable_inv [OF assms] by (auto simp: queue_inv_def wakeups_def notified_poppers_def notifying_pushers_def)

text \<open>Two consumers sleep, and a producer has pushed an item and notified one of them.\<close>

theorem safe_queue_fifo_wakeup_witness:
  "\<exists>s. queue_reachable s \<and> qactivity s 3 = Popping False \<and> late s = 0 \<and> m_queue s = [5 :: nat] \<and> pushed s = popped s @ [5]
     \<and> 1 \<le> card {u. qactivity s u = Popping True} + card {u. qactivity s u = Notifying_popper}"
proof -
  define s1 where "s1 = (queue_start :: nat queue_system)\<lparr>qactivity := (qactivity queue_start)(1 := Popping False)\<rparr>"
  define s2 where "s2 = s1\<lparr>qactivity := (qactivity s1)(3 := Popping False)\<rparr>"
  define s3 where "s3 = s2\<lparr>m_queue := [5], qactivity := (qactivity s2)(2 := Notifying_popper), pushed := pushed s2 @ [5]\<rparr>"
  define s4 where "s4 = s3\<lparr>qactivity := notify_popper 1 ((qactivity s3)(2 := QIdle))\<rparr>"
  note defs = s1_def s2_def s3_def s4_def queue_start_def notify_popper_def push_section_def
  have "queue_reachable s1" unfolding s1_def by (rule queue_reach_step [OF queue_reach_start pop_wait]) (simp_all add: defs)
  then have "queue_reachable s2" unfolding s2_def by (rule queue_reach_step [OF _ pop_wait]) (simp_all add: defs)
  then have "queue_reachable s3" unfolding s3_def by (rule queue_reach_step [OF _ push_done]) (auto simp: defs)
  then have r: "queue_reachable s4" unfolding s4_def by (rule queue_reach_step [OF _ push_notify]) (auto simp: defs)
  have f: "qactivity s4 3 = Popping False" "m_queue s4 = [5]" "late s4 = 0" by (simp_all add: defs)
  show ?thesis using safe_queue_fifo_wakeup [OF r, of 3] r f by (intro exI [of _ s4]) simp
qed

text \<open>
  A wake-up that is lost. The notified consumer reports a timeout: the item stays in the queue, the other consumer sleeps, and nobody is notified or about to
  notify.
\<close>

lemma safe_queue_lost_wakeup:
  "\<exists>s. queue_reachable s \<and> qactivity s 3 = Popping False \<and> m_queue s = [5 :: nat] \<and> (\<forall>u. qactivity s u \<in> {QIdle, Popping False})"
proof -
  define s1 where "s1 = (queue_start :: nat queue_system)\<lparr>qactivity := (qactivity queue_start)(1 := Popping False)\<rparr>"
  define s2 where "s2 = s1\<lparr>qactivity := (qactivity s1)(3 := Popping False)\<rparr>"
  define s3 where "s3 = s2\<lparr>m_queue := [5], qactivity := (qactivity s2)(2 := Notifying_popper), pushed := pushed s2 @ [5]\<rparr>"
  define s4 where "s4 = s3\<lparr>qactivity := notify_popper 1 ((qactivity s3)(2 := QIdle))\<rparr>"
  define s5 where "s5 = s4\<lparr>qactivity := (qactivity s4)(1 := QIdle), late := late s4 + (if True then 1 else 0)\<rparr>"
  note defs = s1_def s2_def s3_def s4_def s5_def queue_start_def notify_popper_def push_section_def
  have "queue_reachable s1" unfolding s1_def by (rule queue_reach_step [OF queue_reach_start pop_wait]) (simp_all add: defs)
  then have "queue_reachable s2" unfolding s2_def by (rule queue_reach_step [OF _ pop_wait]) (simp_all add: defs)
  then have "queue_reachable s3" unfolding s3_def by (rule queue_reach_step [OF _ push_done]) (auto simp: defs)
  then have "queue_reachable s4" unfolding s4_def by (rule queue_reach_step [OF _ push_notify]) (auto simp: defs)
  then have r: "queue_reachable s5" unfolding s5_def by (rule queue_reach_step [OF _ pop_timeout]) (simp add: defs)
  show ?thesis using r by (intro exI [of _ s5]) (simp add: defs)
qed

end
