(* ===== verification/ThreadPool.thy ===== *)
theory ThreadPool
  imports Prelude
begin

text \<open>
  The thread pool of \<^verbatim>\<open>src/Mantids30/Threads/threadpool.cpp\<close>: several task queues under one mutex, worker
  threads that take tasks, producers that wait on a full queue, and termination. Random choices (the shuffled
  order of the queues, the chosen queue) are arguments of the definitions and free choices of the steps.
\<close>

section \<open>Choosing queues\<close>

text \<open>A task is null when both its function and its data are: \<open>None\<close>.\<close>

type_synonym 'a task = "'a option"

text \<open>The first queue with elements, in the shuffled order \<open>fullVector\<close>.\<close>

definition getRandomTaskQueueWithElements :: "nat list \<Rightarrow> 'a list list \<Rightarrow> nat option" where
  "getRandomTaskQueueWithElements fullVector queues = find (\<lambda>i. queues ! i \<noteq> []) fullVector"

text \<open>
  \<open>elements\<close> is the truncated product of the number of queues and the priority; \<open>r\<close> is the random index.
\<close>

definition getRandomQueueByKey :: "nat list \<Rightarrow> nat \<Rightarrow> nat \<Rightarrow> nat result" where
  "getRandomQueueByKey fullVector elements r =
     (let elements = (if elements = 0 then 1 else elements);
          elements = (if elements > length fullVector then length fullVector else elements);
          reducedVector = take elements fullVector
      in if r < length reducedVector then Inr (reducedVector ! r) else Inl (OutOfRange ''vector::_M_range_check''))"

section \<open>State\<close>

text \<open>
  A worker is about to call \<^verbatim>\<open>popTask\<close>, sleeps in it (with a flag for a notification), runs a task, or has
  left \<^verbatim>\<open>taskProcessor\<close>. A producer may sleep in \<^verbatim>\<open>pushTask\<close> for the queue it chose, or have unlocked the mutex after an insertion and be about to
  notify a worker. \<open>stops\<close> counts the calls of \<^verbatim>\<open>stop\<close> that have unlocked the mutex and are about to notify all workers.
\<close>

datatype 'a worker = WReady | WSleeping bool | WRunning 'a | WExited

datatype 'a producer = PIdle | PWaiting nat "'a task" | PNotifying

record 'a thread_pool =
  m_terminate :: bool
  m_maxTasksPerQueue :: nat
  m_queues :: "'a task list list"
  workers :: "nat \<Rightarrow> 'a worker"
  producers :: "nat \<Rightarrow> 'a producer"
  stops :: nat
  inserted :: "nat \<Rightarrow> 'a task list"
  removed :: "nat \<Rightarrow> 'a task list"

definition pool_start :: "nat \<Rightarrow> nat \<Rightarrow> 'a thread_pool" where
  "pool_start threadsCount taskQueues =
     \<lparr>m_terminate = False, m_maxTasksPerQueue = 100, m_queues = replicate taskQueues [],
      workers = (\<lambda>t. if t < threadsCount then WReady else WExited), producers = (\<lambda>_. PIdle), stops = 0,
      inserted = (\<lambda>_. []), removed = (\<lambda>_. [])\<rparr>"

definition notify_worker :: "nat \<Rightarrow> (nat \<Rightarrow> 'a worker) \<Rightarrow> nat \<Rightarrow> 'a worker" where
  "notify_worker w ws = (if ws w = WSleeping False then ws(w := WSleeping True) else ws)"

text \<open>The two parts of \<^verbatim>\<open>stop\<close>: the locked section, and the notification behind it.\<close>

definition pool_stop :: "'a thread_pool \<Rightarrow> 'a thread_pool" where
  "pool_stop s = s\<lparr>m_terminate := True, stops := stops s + 1\<rparr>"

definition pool_notify_all :: "'a thread_pool \<Rightarrow> 'a thread_pool" where
  "pool_notify_all s = s\<lparr>stops := stops s - 1, workers := (\<lambda>t. if workers s t = WSleeping False then WSleeping True else workers s t)\<rparr>"

definition setMaxTasksPerQueue :: "'a thread_pool \<Rightarrow> nat \<Rightarrow> 'a thread_pool" where
  "setMaxTasksPerQueue s value = s\<lparr>m_maxTasksPerQueue := value\<rparr>"

text \<open>The insertion of \<^verbatim>\<open>pushTask\<close> into queue \<open>i\<close> by producer \<open>p\<close>, and the notification of worker \<open>w\<close> that follows when the mutex is unlocked.\<close>

definition push_task :: "nat \<Rightarrow> nat \<Rightarrow> 'a task \<Rightarrow> 'a thread_pool \<Rightarrow> 'a thread_pool" where
  "push_task p i x s = s\<lparr>m_queues := (m_queues s)[i := m_queues s ! i @ [x]], producers := (producers s)(p := PNotifying),
     inserted := (inserted s)(i := inserted s i @ [x])\<rparr>"

definition push_notify :: "nat \<Rightarrow> nat \<Rightarrow> 'a thread_pool \<Rightarrow> 'a thread_pool" where
  "push_notify p w s = s\<lparr>workers := notify_worker w (workers s), producers := (producers s)(p := PIdle)\<rparr>"

definition queue_full :: "nat \<Rightarrow> 'a thread_pool \<Rightarrow> bool" where
  "queue_full i s \<longleftrightarrow> length (m_queues s ! i) > m_maxTasksPerQueue s"

text \<open>The end of \<^verbatim>\<open>popTask\<close> with queue \<open>i\<close>, and what the worker does next: a null task ends its loop.\<close>

definition pop_task :: "nat \<Rightarrow> nat \<Rightarrow> 'a thread_pool \<Rightarrow> 'a thread_pool" where
  "pop_task t i s =
     (let x = hd (m_queues s ! i)
      in s\<lparr>m_queues := (m_queues s)[i := tl (m_queues s ! i)],
           workers := (workers s)(t := (case x of None \<Rightarrow> WExited | Some f \<Rightarrow> WRunning f)),
           removed := (removed s)(i := removed s i @ [x])\<rparr>)"

definition no_tasks :: "'a thread_pool \<Rightarrow> bool" where
  "no_tasks s \<longleftrightarrow> (\<forall>q\<in>set (m_queues s). q = [])"

text \<open>
  The steps; with \<open>spurious\<close>, a sleeping worker may wake without a notification. A worker that finds no
  task goes to sleep without a look at \<open>m_terminate\<close>; it looks at it only after it has been woken.
\<close>

inductive pool_step :: "bool \<Rightarrow> 'a thread_pool \<Rightarrow> 'a thread_pool \<Rightarrow> bool" for spurious where
  pool_push: "producers s p = PIdle \<Longrightarrow> i < length (m_queues s) \<Longrightarrow> \<not> m_terminate s \<Longrightarrow> \<not> queue_full i s \<Longrightarrow>
     pool_step spurious s (push_task p i x s)"
| pool_push_wait: "producers s p = PIdle \<Longrightarrow> i < length (m_queues s) \<Longrightarrow> \<not> m_terminate s \<Longrightarrow> queue_full i s \<Longrightarrow>
     pool_step spurious s (s\<lparr>producers := (producers s)(p := PWaiting i x)\<rparr>)"
| pool_push_woken: "producers s p = PWaiting i x \<Longrightarrow> i < length (m_queues s) \<Longrightarrow> \<not> queue_full i s \<Longrightarrow>
     pool_step spurious s (push_task p i x s)"
| pool_push_notify: "producers s p = PNotifying \<Longrightarrow> ((\<exists>u. workers s u = WSleeping False) \<Longrightarrow> workers s w = WSleeping False) \<Longrightarrow>
     pool_step spurious s (push_notify p w s)"
| pool_push_timeout: "producers s p = PWaiting i x \<Longrightarrow> pool_step spurious s (s\<lparr>producers := (producers s)(p := PIdle)\<rparr>)"
| pool_pop: "workers s t = WReady \<Longrightarrow> i < length (m_queues s) \<Longrightarrow> m_queues s ! i \<noteq> [] \<Longrightarrow> pool_step spurious s (pop_task t i s)"
| pool_sleep: "workers s t = WReady \<Longrightarrow> no_tasks s \<Longrightarrow> pool_step spurious s (s\<lparr>workers := (workers s)(t := WSleeping False)\<rparr>)"
| pool_woken_pop: "workers s t = WSleeping n \<Longrightarrow> n \<or> spurious \<Longrightarrow> i < length (m_queues s) \<Longrightarrow> m_queues s ! i \<noteq> [] \<Longrightarrow>
     pool_step spurious s (pop_task t i s)"
| pool_woken_exit: "workers s t = WSleeping n \<Longrightarrow> n \<or> spurious \<Longrightarrow> m_terminate s \<Longrightarrow> no_tasks s \<Longrightarrow>
     pool_step spurious s (s\<lparr>workers := (workers s)(t := WExited)\<rparr>)"
| pool_woken_sleep: "workers s t = WSleeping n \<Longrightarrow> n \<or> spurious \<Longrightarrow> \<not> m_terminate s \<Longrightarrow> no_tasks s \<Longrightarrow>
     pool_step spurious s (s\<lparr>workers := (workers s)(t := WSleeping False)\<rparr>)"
| pool_task_done: "workers s t = WRunning f \<Longrightarrow> pool_step spurious s (s\<lparr>workers := (workers s)(t := WReady)\<rparr>)"
| pool_stop_notify: "stops s > 0 \<Longrightarrow> pool_step spurious s (pool_notify_all s)"
| pool_set_max: "pool_step spurious s (setMaxTasksPerQueue s n)"

inductive pool_reachable :: "nat \<Rightarrow> nat \<Rightarrow> 'a thread_pool \<Rightarrow> bool" for threads queues where
  pool_init: "pool_reachable threads queues (pool_start threads queues)"
| pool_next: "pool_reachable threads queues s \<Longrightarrow> pool_step True s s' \<Longrightarrow> pool_reachable threads queues s'"
| pool_stopped: "pool_reachable threads queues s \<Longrightarrow> pool_reachable threads queues (pool_stop s)"

section \<open>Queue selection\<close>

lemma getRandomTaskQueue_some:
  assumes "set fullVector = {..<length queues}"
  shows "case getRandomTaskQueueWithElements fullVector queues of
      Some i \<Rightarrow> i < length queues \<and> queues ! i \<noteq> [] | None \<Rightarrow> \<forall>q\<in>set queues. q = []"
  using assms
  by (auto simp: getRandomTaskQueueWithElements_def find_None_iff find_Some_iff in_set_conv_nth set_eq_iff split: option.split)

section \<open>Invariant\<close>

definition woken_workers :: "(nat \<Rightarrow> 'a worker) \<Rightarrow> nat set" where
  "woken_workers ws = {t. ws t = WSleeping True}"

definition notifying :: "(nat \<Rightarrow> 'a producer) \<Rightarrow> nat set" where
  "notifying ps = {p. ps p = PNotifying}"

definition pool_inv :: "'a thread_pool \<Rightarrow> bool" where
  "pool_inv s \<longleftrightarrow> (\<forall>i<length (m_queues s). inserted s i = removed s i @ m_queues s ! i)
     \<and> finite (woken_workers (workers s)) \<and> finite {t. workers s t \<noteq> WExited} \<and> finite (notifying (producers s))
     \<and> ((\<exists>t. workers s t = WSleeping False) \<longrightarrow> length (concat (m_queues s)) \<le> card (woken_workers (workers s)) + card (notifying (producers s)))"

lemma length_concat_update:
  "i < length qs \<Longrightarrow> length (concat (qs[i := q])) + length (qs ! i) = length (concat qs) + length q"
  by (induction qs arbitrary: i) (auto split: nat.splits)

lemma woken_update: "woken_workers (ws(t := x)) = (if x = WSleeping True then insert t (woken_workers ws) else woken_workers ws - {t})"
  by (auto simp: woken_workers_def)

lemma woken_notify: "woken_workers (notify_worker w ws) = (if ws w = WSleeping False then insert w (woken_workers ws) else woken_workers ws)"
  by (auto simp: woken_workers_def notify_worker_def)

lemma pool_notifying_update: "notifying (ps(p := x)) = (if x = PNotifying then insert p (notifying ps) else notifying ps - {p})"
  by (auto simp: notifying_def)

lemma no_tasks_concat: "no_tasks s \<longleftrightarrow> concat (m_queues s) = []"
  by (auto simp: no_tasks_def)

lemma pool_inv_push:
  assumes "pool_inv s" and "i < length (m_queues s)" and "producers s p \<noteq> PNotifying"
  shows "pool_inv (push_task p i x s)"
proof -
  have "length (concat ((m_queues s)[i := m_queues s ! i @ [x]])) = Suc (length (concat (m_queues s)))"
    using length_concat_update [OF assms(2), of "m_queues s ! i @ [x]"] by simp
  moreover have "p \<notin> notifying (producers s)" using assms(3) by (simp add: notifying_def)
  ultimately show ?thesis using assms(1,2) by (auto simp: pool_inv_def push_task_def pool_notifying_update nth_list_update)
qed

lemma pool_inv_notify:
  assumes "pool_inv s" and "producers s p = PNotifying" and "(\<exists>u. workers s u = WSleeping False) \<Longrightarrow> workers s w = WSleeping False"
  shows "pool_inv (push_notify p w s)"
proof -
  let ?ws = "notify_worker w (workers s)" and ?N = "notifying (producers s)"
  have p: "p \<in> ?N" "finite ?N" using assms(1,2) by (auto simp: notifying_def pool_inv_def)
  have "length (concat (m_queues s)) \<le> card (woken_workers ?ws) + card (?N - {p})" if "\<exists>u. ?ws u = WSleeping False"
  proof -
    from that obtain u where u: "workers s u = WSleeping False" by (auto simp: notify_worker_def split: if_splits)
    then have w: "workers s w = WSleeping False" using assms(3) by blast
    then have "w \<notin> woken_workers (workers s)" by (auto simp: woken_workers_def)
    moreover have "card ?N = Suc (card (?N - {p}))" using card_Suc_Diff1 [OF p(2,1)] by simp
    moreover have "finite (woken_workers (workers s))" "length (concat (m_queues s)) \<le> card (woken_workers (workers s)) + card ?N"
      using assms(1) u unfolding pool_inv_def by blast+
    ultimately show ?thesis using w by (simp add: woken_notify)
  qed
  moreover have "{t. ?ws t \<noteq> WExited} = {t. workers s t \<noteq> WExited}" by (auto simp: notify_worker_def)
  ultimately show ?thesis using assms(1) by (auto simp: pool_inv_def push_notify_def woken_notify pool_notifying_update)
qed

lemma pool_inv_pop:
  assumes "pool_inv s" and "i < length (m_queues s)" and "m_queues s ! i \<noteq> []"
  shows "pool_inv (pop_task t i s)"
proof -
  obtain x q where q: "m_queues s ! i = x # q" using assms(3) by (cases "m_queues s ! i") auto
  define y where "y = (case x of None \<Rightarrow> WExited | Some f \<Rightarrow> WRunning f)"
  have y: "y \<noteq> WSleeping b" for b by (auto simp: y_def split: option.splits)
  let ?ws = "(workers s)(t := y)" and ?W = "woken_workers (workers s)"
  have len: "Suc (length (concat ((m_queues s)[i := q]))) = length (concat (m_queues s))"
    using length_concat_update [OF assms(2), of q] q by simp
  have fin: "finite ?W" "finite {t. workers s t \<noteq> WExited}" using assms(1) by (auto simp: pool_inv_def)
  have "length (concat ((m_queues s)[i := q])) \<le> card (?W - {t}) + card (notifying (producers s))" if "\<exists>u. ?ws u = WSleeping False"
  proof -
    from that obtain u where "workers s u = WSleeping False" using y by (auto split: if_splits)
    then have "length (concat (m_queues s)) \<le> card ?W + card (notifying (producers s))" using assms(1) by (auto simp: pool_inv_def)
    moreover have "card ?W \<le> Suc (card (?W - {t}))" using fin(1) by (cases "t \<in> ?W") auto
    ultimately show ?thesis using len by linarith
  qed
  moreover have "finite {u. ?ws u \<noteq> WExited}"
    by (rule finite_subset [OF _ finite.insertI [OF fin(2), of t]]) auto
  ultimately show ?thesis using assms(1,2) q y fin
    by (auto simp: pool_inv_def pop_task_def woken_update nth_list_update y_def Let_def)
qed

text \<open>A worker that changes state without a task: it sleeps or exits when there is none, or is ready again.\<close>

lemma pool_inv_worker:
  assumes "pool_inv s" and "y \<noteq> WSleeping True"
    and "no_tasks s \<or> (t \<notin> woken_workers (workers s) \<and> y \<noteq> WSleeping False)"
  shows "pool_inv (s\<lparr>workers := (workers s)(t := y)\<rparr>)"
proof -
  have "finite {u. ((workers s)(t := y)) u \<noteq> WExited}"
    by (rule finite_subset [of _ "insert t {t. workers s t \<noteq> WExited}"]) (use assms(1) in \<open>auto simp: pool_inv_def\<close>)
  moreover have "length (concat (m_queues s)) \<le> card (woken_workers (workers s) - {t}) + card (notifying (producers s))" if "\<exists>u. ((workers s)(t := y)) u = WSleeping False"
  proof (cases "no_tasks s")
    case True
    then have "length (concat (m_queues s)) = 0" unfolding no_tasks_concat by (simp only: list.size)
    then show ?thesis by linarith
  next
    case False
    with that assms show ?thesis by (auto simp: pool_inv_def split: if_splits)
  qed
  ultimately show ?thesis using assms(1,2) by (simp add: pool_inv_def woken_update)
qed

lemma pool_inv_frame [simp]:
  "producers s p \<noteq> PNotifying \<Longrightarrow> x \<noteq> PNotifying \<Longrightarrow> pool_inv (s\<lparr>producers := (producers s)(p := x)\<rparr>) = pool_inv s"
  "pool_inv (setMaxTasksPerQueue s n) = pool_inv s" "pool_inv (pool_stop s) = pool_inv s"
proof -
  assume "producers s p \<noteq> PNotifying" "x \<noteq> PNotifying"
  then have "notifying ((producers s)(p := x)) = notifying (producers s)" by (auto simp: notifying_def)
  then show "pool_inv (s\<lparr>producers := (producers s)(p := x)\<rparr>) = pool_inv s" by (simp add: pool_inv_def)
qed (simp_all add: pool_inv_def setMaxTasksPerQueue_def pool_stop_def)

lemma pool_inv_notify_all:
  assumes "pool_inv s"
  shows "pool_inv (pool_notify_all s)"
proof -
  let ?ws = "\<lambda>t. if workers s t = WSleeping False then WSleeping True else workers s t"
  have "woken_workers ?ws \<subseteq> {t. workers s t \<noteq> WExited}" by (auto simp: woken_workers_def)
  then have "finite (woken_workers ?ws)" using assms finite_subset by (auto simp: pool_inv_def)
  moreover have "{t. ?ws t \<noteq> WExited} = {t. workers s t \<noteq> WExited}" by auto
  ultimately show ?thesis using assms by (auto simp: pool_inv_def pool_notify_all_def)
qed

lemma pool_step_inv: "pool_step b s s' \<Longrightarrow> pool_inv s \<Longrightarrow> pool_inv s'"
proof (induction rule: pool_step.induct)
  case (pool_task_done s t f)
  then show ?case by (intro pool_inv_worker) (auto simp: woken_workers_def)
qed (auto intro: pool_inv_push pool_inv_notify pool_inv_pop pool_inv_worker pool_inv_notify_all)

lemma pool_reachable_inv: "pool_reachable threads queues s \<Longrightarrow> pool_inv s"
proof (induction rule: pool_reachable.induct)
  case pool_init
  have "finite {t. (if t < threads then WReady else WExited) \<noteq> (WExited :: 'a worker)}"
    by (rule finite_subset [of _ "{..<threads}"]) auto
  then show ?case by (simp add: pool_inv_def pool_start_def woken_workers_def notifying_def)
qed (auto intro: pool_step_inv)

text \<open>
  C12. Tasks are neither lost nor repeated, and workers are woken. In every reachable state, for every
  queue, the tasks taken by workers followed by the tasks still queued are the tasks inserted, in order;
  and while a worker sleeps unnotified, there are at most as many queued tasks as there are notified workers and producers that have
  unlocked the mutex and are about to notify one.
\<close>

theorem thread_pool_conserves_tasks:
  assumes "pool_reachable threads queues s"
  shows "(i < length (m_queues s) \<longrightarrow> inserted s i = removed s i @ m_queues s ! i)
    \<and> (workers s t = WSleeping False \<longrightarrow>
        length (concat (m_queues s)) \<le> card {u. workers s u = WSleeping True} + card {p. producers s p = PNotifying})"
  using pool_reachable_inv [OF assms] by (auto simp: pool_inv_def woken_workers_def notifying_def)

text \<open>Two workers sleep; a task has been inserted, and its producer has notified one of them.\<close>

theorem thread_pool_conserves_tasks_witness:
  "\<exists>s. pool_reachable 2 1 s \<and> workers s 1 = WSleeping False \<and> m_queues s = [[Some (7::nat)]] \<and> inserted s 0 = removed s 0 @ [Some 7]
     \<and> 1 \<le> card {u. workers s u = WSleeping True} + card {p. producers s p = PNotifying}"
proof -
  define s1 where "s1 = (pool_start 2 1 :: nat thread_pool)\<lparr>workers := (workers (pool_start 2 1))(0 := WSleeping False)\<rparr>"
  define s2 where "s2 = s1\<lparr>workers := (workers s1)(1 := WSleeping False)\<rparr>"
  define s3 where "s3 = push_notify 0 0 (push_task 0 0 (Some 7) s2)"
  note defs = s1_def s2_def s3_def pool_start_def push_task_def push_notify_def notify_worker_def no_tasks_def queue_full_def
  have "pool_reachable 2 1 s1" unfolding s1_def by (rule pool_next [OF pool_init pool_sleep]) (simp_all add: defs)
  then have "pool_reachable 2 1 s2" unfolding s2_def by (rule pool_next [OF _ pool_sleep]) (simp_all add: defs)
  then have "pool_reachable 2 1 (push_task 0 0 (Some 7) s2)" by (rule pool_next [OF _ pool_push]) (simp_all add: defs)
  then have r: "pool_reachable 2 1 s3" unfolding s3_def by (rule pool_next [OF _ pool_push_notify]) (simp_all add: defs)
  have f: "workers s3 1 = WSleeping False" "m_queues s3 = [[Some 7]]" by (simp_all add: defs)
  show ?thesis using r f thread_pool_conserves_tasks [OF r, of 0 1] by (intro exI [of _ s3]) simp
qed

text \<open>
  Stopping while a task runs hangs. There is a run of a pool with one worker and one task in which
  \<^verbatim>\<open>stop\<close> is called while the task runs, after which the worker sleeps in \<^verbatim>\<open>popTask\<close> with the queues empty and
  \<^verbatim>\<open>m_terminate\<close> set, and no thread can take any further step that changes more than the queue limit: the
  join in the destructor never returns unless a spurious wake-up happens.
\<close>

theorem thread_pool_stop_hangs:
  "\<exists>s :: nat thread_pool. pool_reachable 1 1 s \<and> m_terminate s \<and> no_tasks s \<and> workers s 0 = WSleeping False
     \<and> {s'. pool_step False s s'} \<subseteq> range (setMaxTasksPerQueue s)"
proof -
  define s1 where "s1 = push_task 0 0 (Some 7) (pool_start 1 1 :: nat thread_pool)"
  define s2 where "s2 = pop_task 0 0 (push_notify 0 0 s1)"
  define s3 where "s3 = pool_notify_all (pool_stop s2)"
  define s4 where "s4 = s3\<lparr>workers := (workers s3)(0 := WReady)\<rparr>"
  define s5 where "s5 = s4\<lparr>workers := (workers s4)(0 := WSleeping False)\<rparr>"
  note defs = s1_def s2_def s3_def s4_def s5_def pool_start_def push_task_def push_notify_def pop_task_def pool_stop_def pool_notify_all_def
    notify_worker_def no_tasks_def Let_def
  have "pool_reachable 1 1 s1" unfolding s1_def
    by (rule pool_next [OF pool_init pool_push [of _ 0]]) (auto simp: pool_start_def queue_full_def split: if_splits)
  then have "pool_reachable 1 1 (push_notify 0 0 s1)" by (rule pool_next [OF _ pool_push_notify]) (auto simp: defs split: if_splits)
  then have "pool_reachable 1 1 s2" unfolding s2_def by (rule pool_next [OF _ pool_pop]) (simp_all add: defs)
  then have "pool_reachable 1 1 (pool_stop s2)" by (rule pool_stopped)
  then have "pool_reachable 1 1 s3" unfolding s3_def by (rule pool_next [OF _ pool_stop_notify]) (simp add: defs)
  then have "pool_reachable 1 1 s4" unfolding s4_def by (rule pool_next [OF _ pool_task_done [of _ _ 7]]) (simp add: defs)
  then have r: "pool_reachable 1 1 s5" unfolding s5_def by (rule pool_next [OF _ pool_sleep]) (simp_all add: defs)
  have facts: "m_terminate s5" "no_tasks s5" "workers s5 = (\<lambda>t. if t = 0 then WSleeping False else WExited)" "producers s5 = (\<lambda>_. PIdle)"
    "m_queues s5 = [[]]" "stops s5 = 0"
    by (auto simp: defs)
  have "s' \<in> range (setMaxTasksPerQueue s5)" if "pool_step False s5 s'" for s'
    using that facts by (cases rule: pool_step.cases) (auto split: if_splits)
  then show ?thesis using r facts by (intro exI [of _ s5]) auto
qed

end
