(* ===== verification/URLStream.thy ===== *)
theory URLStream
  imports BChunks Encoders
begin

text \<open>
  Streaming URL encoding: \<^verbatim>\<open>StreamableTransformer\<close> (\<^verbatim>\<open>streamabletransformer.cpp\<close>), an object that
  transforms what is written to it and passes it on to another streamable object, and its two subclasses, the URL
  decoder and encoder (\<^verbatim>\<open>streamdecoder_url.cpp\<close>, \<^verbatim>\<open>streamencoder_url.cpp\<close>). The destination is any
  streamable object; the contract that the theorems need of it is the locale \<open>roomy_sink\<close>, interpreted on
  \<^verbatim>\<open>B_Chunks\<close>.
\<close>

section \<open>The decoder\<close>

text \<open>\<^verbatim>\<open>m_bytes\<close> is not initialised by the constructor; a byte of it is read only after it was written.\<close>

record url_decoder =
  m_bytes :: bytes
  m_filled :: nat

definition url_decoder_new :: url_decoder where
  "url_decoder_new = \<lparr>m_bytes = replicate 3 (CHR 0x00), m_filled = 0\<rparr>"

fun dec_getPlainBytesSize :: "bytes \<Rightarrow> nat \<times> char" where
  "dec_getPlainBytesSize [] = (0, CHR 0x00)"
| "dec_getPlainBytesSize (c # buf) =
     (if c = CHR ''%'' then (0, CHR ''%'') else if c = CHR ''+'' then (0, CHR ''+'')
      else (case dec_getPlainBytesSize buf of (n, d) \<Rightarrow> (Suc n, d)))"

definition flushBytesAndResetFilledCounter :: "'o streamable \<Rightarrow> url_decoder \<Rightarrow> 'o \<Rightarrow> (url_decoder \<times> 'o \<times> bool) result" where
  "flushBytesAndResetFilledCounter io d dst =
     (case writeFullStream io dst (take (m_filled d) (m_bytes d)) of
        Inl e \<Rightarrow> Inl e | Inr (dst', r) \<Rightarrow> Inr (d\<lparr>m_filled := 0\<rparr>, dst', r))"

text \<open>The outcome of \<^verbatim>\<open>writeFullStream\<close> as the transformers treat it: a failure is added to the status.\<close>

definition write_or_fail :: "'o streamable \<Rightarrow> 'o \<Rightarrow> bytes \<Rightarrow> ('o \<times> bool) result" where
  "write_or_fail io dst buf =
     (case writeFullStream io dst buf of
        Inl e \<Rightarrow> Inl e
      | Inr (dst', True) \<Rightarrow> Inr (dst', True)
      | Inr (dst', False) \<Rightarrow> (case so_add_status io dst' (-1) of Inl e \<Rightarrow> Inl e | Inr dst'' \<Rightarrow> Inr (dst'', False)))"

text \<open>One round of the loop of \<^verbatim>\<open>writeTo\<close>, on the unread bytes; it gives the number of bytes it has read.\<close>

definition decode_round :: "'o streamable \<Rightarrow> url_decoder \<Rightarrow> 'o \<Rightarrow> bytes \<Rightarrow> (url_decoder \<times> 'o \<times> nat) result" where
  "decode_round io d dst unread =
     (if m_filled d = 0 then
        (case dec_getPlainBytesSize unread of
           (bytesToTransmitInPlain, byteDetected) \<Rightarrow>
             if bytesToTransmitInPlain > 0 then
               (case write_or_fail io dst (take bytesToTransmitInPlain unread) of
                  Inl e \<Rightarrow> Inl e
                | Inr (dst', x) \<Rightarrow> Inr (d, dst', if x then bytesToTransmitInPlain else 0))
             else if byteDetected = CHR ''%'' then
               Inr (d\<lparr>m_bytes := (m_bytes d)[0 := CHR ''%''], m_filled := 1\<rparr>, dst, 1)
             else if byteDetected = CHR ''+'' then
               (case flushBytesAndResetFilledCounter io (d\<lparr>m_bytes := (m_bytes d)[0 := CHR '' ''], m_filled := 1\<rparr>) dst of
                  Inl e \<Rightarrow> Inl e | Inr (d', dst', _) \<Rightarrow> Inr (d', dst', 1))
             else Inr (d, dst, 0))
      else if m_filled d = 1 then
        (let d1 = d\<lparr>m_bytes := (m_bytes d)[1 := hd unread], m_filled := 2\<rparr>
         in if \<not> is_xdigit (m_bytes d1 ! 1) then
              (case flushBytesAndResetFilledCounter io d1 dst of
                 Inl e \<Rightarrow> Inl e | Inr (d', dst', _) \<Rightarrow> Inr (d', dst', 1))
            else Inr (d1, dst, 1))
      else if m_filled d = 2 then
        (let d1 = d\<lparr>m_bytes := (m_bytes d)[2 := hd unread]\<rparr>
         in if \<not> is_xdigit (m_bytes d1 ! 2) then
              (case flushBytesAndResetFilledCounter io (d1\<lparr>m_filled := 3\<rparr>) dst of
                 Inl e \<Rightarrow> Inl e | Inr (d', dst', _) \<Rightarrow> Inr (d', dst', 1))
            else
              (case write_or_fail io dst [hexPairToByte (m_bytes d1 ! 1) (m_bytes d1 ! 2)] of
                 Inl e \<Rightarrow> Inl e | Inr (dst', _) \<Rightarrow> Inr (d1\<lparr>m_filled := 0\<rparr>, dst', 1)))
      else Inr (d, dst, 0))"

fun decode_loop :: "nat \<Rightarrow> 'o streamable \<Rightarrow> url_decoder \<Rightarrow> 'o \<Rightarrow> bytes \<Rightarrow> nat \<Rightarrow> (url_decoder \<times> 'o \<times> nat) result" where
  "decode_loop 0 io d dst buf readenBytes = Inl OutOfFuel"
| "decode_loop (Suc fuel) io d dst buf readenBytes =
     (if readenBytes < length buf then
        (case decode_round io d dst (drop readenBytes buf) of
           Inl e \<Rightarrow> Inl e
         | Inr (d', dst', n) \<Rightarrow>
             if \<not> succeed (so_status io dst') then Inr (d', dst', readenBytes + n)
             else decode_loop fuel io d' dst' buf (readenBytes + n))
      else Inr (d, dst, readenBytes))"

definition decoder_writeTo :: "'o streamable \<Rightarrow> url_decoder \<Rightarrow> 'o \<Rightarrow> bytes \<Rightarrow> (url_decoder \<times> 'o \<times> nat) result" where
  "decoder_writeTo io d dst buf = decode_loop (Suc (length buf)) io d dst buf 0"

definition decoder_writeTransformerEOF :: "'o streamable \<Rightarrow> url_decoder \<Rightarrow> 'o \<Rightarrow> (url_decoder \<times> 'o \<times> nat) result" where
  "decoder_writeTransformerEOF io d dst =
     (case flushBytesAndResetFilledCounter io d dst of
        Inl e \<Rightarrow> Inl e | Inr (d', dst', r) \<Rightarrow> Inr (d', dst', if r then 1 else 0))"

section \<open>The encoder\<close>

definition shouldEncodeThisByte :: "char \<Rightarrow> bool" where
  "shouldEncodeThisByte c \<longleftrightarrow> \<not> is_alnum c"

fun enc_getPlainBytesSize :: "bytes \<Rightarrow> nat" where
  "enc_getPlainBytesSize [] = 0"
| "enc_getPlainBytesSize (c # buf) = (if shouldEncodeThisByte c then 0 else Suc (enc_getPlainBytesSize buf))"

definition encoded_byte :: "char \<Rightarrow> bytes" where
  "encoded_byte c = [CHR ''%'', hex_digit_upper (byte_val c div 16), hex_digit_upper (byte_val c mod 16)]"

definition encode_round :: "'o streamable \<Rightarrow> 'o \<Rightarrow> bytes \<Rightarrow> ('o \<times> nat) result" where
  "encode_round io dst unread =
     (let bytesToTransmitInPlain = enc_getPlainBytesSize unread
      in if bytesToTransmitInPlain > 0 then
           (case writeFullStream io dst (take bytesToTransmitInPlain unread) of
              Inl e \<Rightarrow> Inl e | Inr (dst', x) \<Rightarrow> Inr (dst', if x then bytesToTransmitInPlain else 0))
         else
           (case writeFullStream io dst (encoded_byte (hd unread)) of
              Inl e \<Rightarrow> Inl e | Inr (dst', x) \<Rightarrow> Inr (dst', if x then 1 else 0)))"

fun encode_loop :: "nat \<Rightarrow> 'o streamable \<Rightarrow> 'o \<Rightarrow> bytes \<Rightarrow> nat \<Rightarrow> ('o \<times> nat) result" where
  "encode_loop 0 io dst buf readenBytes = Inl OutOfFuel"
| "encode_loop (Suc fuel) io dst buf readenBytes =
     (if readenBytes < length buf then
        (case encode_round io dst (drop readenBytes buf) of
           Inl e \<Rightarrow> Inl e
         | Inr (dst', n) \<Rightarrow>
             if succeed (so_status io dst') = False then Inr (dst', readenBytes + n)
             else encode_loop fuel io dst' buf (readenBytes + n))
      else Inr (dst, readenBytes))"

definition encoder_writeTo :: "'o streamable \<Rightarrow> 'o \<Rightarrow> bytes \<Rightarrow> ('o \<times> nat) result" where
  "encoder_writeTo io dst buf =
     (if length buf > size_max div 3 - 3 then
        (case so_add_status io dst (-1) of Inl e \<Rightarrow> Inl e | Inr dst' \<Rightarrow> Inr (dst', size_max))
      else encode_loop (Suc (length buf)) io dst buf 0)"

section \<open>Transformers\<close>

text \<open>A transformer with its own state, its destination and the write status of its base class.\<close>

record ('s, 'o) transformer =
  t_state :: 's
  destObj :: 'o
  t_status :: WriteStatus

text \<open>\<^verbatim>\<open>StreamableTransformer::write\<close>, given the virtual \<^verbatim>\<open>writeTo\<close> and \<^verbatim>\<open>writeTransformerEOF\<close>.\<close>

definition transformer_write ::
  "'o streamable \<Rightarrow> ('s \<Rightarrow> 'o \<Rightarrow> bytes \<Rightarrow> ('s \<times> 'o \<times> nat) result) \<Rightarrow> ('s \<Rightarrow> 'o \<Rightarrow> ('s \<times> 'o \<times> nat) result) \<Rightarrow>
    ('s, 'o) transformer \<Rightarrow> bytes \<Rightarrow> (('s, 'o) transformer \<times> nat option) result" where
  "transformer_write io writeTo writeTransformerEOF t buf =
     (case (if buf = [] then writeTransformerEOF (t_state t) (destObj t) else writeTo (t_state t) (destObj t) buf) of
        Inl e \<Rightarrow> Inl e
      | Inr (s', dst', r) \<Rightarrow>
          Inr (t\<lparr>t_state := s', destObj := dst'\<rparr>, if \<not> succeed (so_status io dst') then None else Some r))"

definition url_decoder_streamable :: "'o streamable \<Rightarrow> (url_decoder, 'o) transformer streamable" where
  "url_decoder_streamable io =
     \<lparr>so_write = transformer_write io (decoder_writeTo io) (decoder_writeTransformerEOF io),
      so_status = t_status, so_set_status = (\<lambda>ws t. t\<lparr>t_status := ws\<rparr>)\<rparr>"

definition url_encoder_streamable :: "'o streamable \<Rightarrow> (unit, 'o) transformer streamable" where
  "url_encoder_streamable io =
     \<lparr>so_write = transformer_write io
        (\<lambda>s dst buf. map_sum id (\<lambda>(dst', r). (s, dst', r)) (encoder_writeTo io dst buf)) (\<lambda>s dst. Inr (s, dst, 0)),
      so_status = t_status, so_set_status = (\<lambda>ws t. t\<lparr>t_status := ws\<rparr>)\<rparr>"

text \<open>\<^verbatim>\<open>StreamableTransformer::transform\<close>: the source is a container.\<close>

definition transform ::
  "('s, 'o) transformer streamable \<Rightarrow> 's \<Rightarrow> 'a b_base_scheme container_vt \<Rightarrow> 'a b_base_scheme \<Rightarrow> 'o \<Rightarrow> ('s \<times> 'o) result" where
  "transform tio s vt input out =
     (case b_streamTo vt input tio \<lparr>t_state = s, destObj = out, t_status = ws_init\<rparr> of
        Inl e \<Rightarrow> Inl e | Inr (t, _) \<Rightarrow> Inr (t_state t, destObj t))"

definition decodeURLStr :: "'y mmap_vt \<Rightarrow> ('y chunks \<Rightarrow> 'y b_base_scheme option) \<Rightarrow> bytes \<Rightarrow> bytes result" where
  "decodeURLStr mvt fs url =
     (case transform (url_decoder_streamable (b_streamable (chunks_vt mvt fs))) url_decoder_new mem_vt (mem_new (Some url) (length url)) chunks_new of
        Inl e \<Rightarrow> Inl e
      | Inr (_, uriDecoded) \<Rightarrow>
          if succeed (writeStatus uriDecoded) \<and> finish (writeStatus uriDecoded)
          then Inr (b_toStringEx (chunks_vt mvt fs) uriDecoded size_max 0) else Inr url)"

definition encodeURLStr :: "'y mmap_vt \<Rightarrow> ('y chunks \<Rightarrow> 'y b_base_scheme option) \<Rightarrow> bytes \<Rightarrow> bytes result" where
  "encodeURLStr mvt fs url =
     (case transform (url_encoder_streamable (b_streamable (chunks_vt mvt fs))) () mem_vt (mem_new (Some url) (length url)) chunks_new of
        Inl e \<Rightarrow> Inl e
      | Inr (_, uriEncoded) \<Rightarrow>
          if succeed (writeStatus uriEncoded) \<and> finish (writeStatus uriEncoded)
          then Inr (b_toStringEx (chunks_vt mvt fs) uriEncoded size_max 0) else Inr url)"

section \<open>What decoding and encoding mean\<close>

text \<open>
  The decoder as an automaton on single bytes: its state is the part of an escape that was read, and each byte releases
  the bytes that are now decided.
\<close>

fun dec_step :: "bytes \<Rightarrow> char \<Rightarrow> bytes \<times> bytes" where
  "dec_step [] c = (if c = CHR ''%'' then ([c], []) else if c = CHR ''+'' then ([], '' '') else ([], [c]))"
| "dec_step [p] c = (if is_xdigit c then ([p, c], []) else ([], [p, c]))"
| "dec_step (p # x # _) c = (if is_xdigit c then ([], [hexPairToByte x c]) else ([], [p, x, c]))"

fun dec_run :: "bytes \<Rightarrow> bytes \<Rightarrow> bytes \<times> bytes" where
  "dec_run p [] = (p, [])"
| "dec_run p (c # s) = (let (p1, o1) = dec_step p c; (p2, o2) = dec_run p1 s in (p2, o1 @ o2))"

definition enc_char :: "char \<Rightarrow> bytes" where
  "enc_char c = (if shouldEncodeThisByte c then encoded_byte c else [c])"

lemma dec_run_append: "dec_run p (xs @ ys) = (let (p1, o1) = dec_run p xs; (p2, o2) = dec_run p1 ys in (p2, o1 @ o2))"
  by (induction xs arbitrary: p) (simp_all add: Let_def case_prod_beta)

lemma dec_step_pending: "length p \<le> 2 \<Longrightarrow> length (fst (dec_step p c)) \<le> 2"
  by (cases "(p, c)" rule: dec_step.cases) auto

lemma dec_run_pending: "length p \<le> 2 \<Longrightarrow> length (fst (dec_run p s)) \<le> 2"
  by (induction s arbitrary: p) (auto simp: Let_def case_prod_beta dec_step_pending)

lemma dec_step_size: "length p \<le> 2 \<Longrightarrow> length (fst (dec_step p c)) + length (snd (dec_step p c)) \<le> Suc (length p)"
  by (cases "(p, c)" rule: dec_step.cases) auto

lemma dec_run_size: "length p \<le> 2 \<Longrightarrow> length (fst (dec_run p s)) + length (snd (dec_run p s)) \<le> length p + length s"
proof (induction s arbitrary: p)
  case (Cons c s)
  have "length (fst (dec_step p c)) \<le> 2" using Cons.prems by (rule dec_step_pending)
  from Cons.IH [OF this] dec_step_size [OF Cons.prems, of c] show ?case by (simp add: Let_def case_prod_beta)
qed simp

lemma dec_run_plain: "\<forall>c\<in>set s. c \<noteq> CHR ''%'' \<and> c \<noteq> CHR ''+'' \<Longrightarrow> dec_run [] s = ([], s)"
  by (induction s) auto

lemma dec_encoded_byte: "dec_run [] (encoded_byte c) = ([], [c])"
proof -
  have v: "byte_val c div 16 < 16" "byte_val c mod 16 < 16" by (simp_all add: less_mult_imp_div_less)
  have "byte_of (byte_val c div 16 * 16 + byte_val c mod 16) = c" by simp
  then have "hexPairToByte (hex_digit_upper (byte_val c div 16)) (hex_digit_upper (byte_val c mod 16)) = c"
    using v hex_digit_upper_facts by (simp add: hexPairToByte_def)
  then show ?thesis using v hex_digit_upper_facts by (simp add: encoded_byte_def)
qed

lemma alnum_not_special: "is_alnum c \<Longrightarrow> c \<noteq> CHR ''%'' \<and> c \<noteq> CHR ''+''"
  by (auto simp: is_alnum_def is_alpha_def is_upper_def is_lower_def is_digit_def)

text \<open>Decoding undoes encoding, for every byte string.\<close>

lemma dec_run_encoded: "dec_run [] (concat (map enc_char s)) = ([], s)"
proof (induction s)
  case (Cons c s)
  have "dec_run [] (enc_char c) = ([], [c])"
    using dec_encoded_byte alnum_not_special [of c] by (simp add: enc_char_def shouldEncodeThisByte_def)
  then show ?case using Cons by (simp add: dec_run_append)
qed simp

lemma length_enc_char: "length (enc_char c) \<le> 3"
  by (simp add: enc_char_def encoded_byte_def)

lemma length_encoded: "length (concat (map enc_char s)) \<le> 3 * length s"
proof (induction s)
  case (Cons c s)
  then show ?case using length_enc_char [of c] by simp
qed simp

section \<open>Destinations with room\<close>

text \<open>A destination that accepts every sequence of writes up to a total number of bytes.\<close>

locale roomy_sink =
  fixes io :: "'o streamable"
    and delivered :: "'o \<Rightarrow> bytes"
    and room :: "'o \<Rightarrow> nat \<Rightarrow> bool"
  assumes roomy_write: "room out n \<Longrightarrow> buf \<noteq> [] \<Longrightarrow> length buf \<le> n \<Longrightarrow>
      \<exists>out'. so_write io out buf = Inr (out', Some (length buf)) \<and> delivered out' = delivered out @ buf \<and> room out' (n - length buf)"
    and room_status: "room out n \<Longrightarrow> succeed (so_status io out) \<and> \<not> finish (so_status io out)"
    and room_mono: "room out n \<Longrightarrow> m \<le> n \<Longrightarrow> room out m"
begin

lemma full_write:
  assumes "room out n" and "length buf \<le> n"
  obtains out' where "writeFullStream io out buf = Inr (out', True)" and "delivered out' = delivered out @ buf" and "room out' (n - length buf)"
proof (cases "buf = []")
  case True
  then show thesis using that [of out] assms(1) by (simp add: writeFullStream_def)
next
  case False
  then obtain out' where out': "so_write io out buf = Inr (out', Some (length buf))" "delivered out' = delivered out @ buf" "room out' (n - length buf)"
    using roomy_write [OF assms(1) _ assms(2)] by blast
  moreover have "writeFullStream_loop (length buf) io out' [] = Inr (out', True)" using False by (cases "length buf") simp_all
  ultimately show thesis using that False room_status [OF out'(3)] by (simp add: writeFullStream_def)
qed

lemma write_or_fail_ok:
  assumes "room out n" and "length buf \<le> n"
  shows "\<exists>out'. write_or_fail io out buf = Inr (out', True) \<and> delivered out' = delivered out @ buf \<and> room out' (n - length buf)"
  by (rule full_write [OF assms]) (auto simp: write_or_fail_def)

lemma flush_ok:
  assumes "room out n" and "m_filled d \<le> n"
  shows "\<exists>out'. flushBytesAndResetFilledCounter io d out = Inr (d\<lparr>m_filled := 0\<rparr>, out', True)
    \<and> delivered out' = delivered out @ take (m_filled d) (m_bytes d) \<and> room out' (n - length (take (m_filled d) (m_bytes d)))"
proof -
  have "length (take (m_filled d) (m_bytes d)) \<le> n" using assms(2) by simp
  from full_write [OF assms(1) this] show ?thesis unfolding flushBytesAndResetFilledCounter_def by force
qed

end

definition pending :: "url_decoder \<Rightarrow> bytes" where
  "pending d = take (m_filled d) (m_bytes d)"

definition decoder_ok :: "url_decoder \<Rightarrow> bool" where
  "decoder_ok d \<longleftrightarrow> length (m_bytes d) = 3 \<and> m_filled d \<le> 2 \<and> (m_filled d \<noteq> 0 \<longrightarrow> m_bytes d ! 0 = CHR ''%'')"

lemma plain_size:
  "dec_getPlainBytesSize s = (n, c) \<Longrightarrow> n \<le> length s \<and> (\<forall>x\<in>set (take n s). x \<noteq> CHR ''%'' \<and> x \<noteq> CHR ''+'')
     \<and> (n < length s \<longrightarrow> s ! n = c \<and> (c = CHR ''%'' \<or> c = CHR ''+''))"
proof (induction s arbitrary: n c)
  case (Cons y s)
  show ?case
  proof (cases "y = CHR ''%'' \<or> y = CHR ''+''")
    case True
    then show ?thesis using Cons.prems by auto
  next
    case False
    then obtain n' where n': "dec_getPlainBytesSize s = (n', c)" "n = Suc n'"
      using Cons.prems by (auto split: prod.splits)
    show ?thesis using Cons.IH [OF n'(1)] False unfolding n'(2) by simp
  qed
qed simp

lemma three_bytes: "length xs = 3 \<Longrightarrow> \<exists>a b c. xs = [a, b, c]"
  by (auto simp: numeral_3_eq_3 length_Suc_conv)

context roomy_sink
begin

text \<open>A round reads some bytes and delivers what the automaton releases for them.\<close>

definition round_ok :: "'o \<Rightarrow> nat \<Rightarrow> url_decoder \<Rightarrow> bytes \<Rightarrow> (url_decoder \<times> 'o \<times> nat) result \<Rightarrow> bool" where
  "round_ok out n d unread r \<longleftrightarrow>
     (\<exists>d' out' k o1. r = Inr (d', out', k) \<and> 0 < k \<and> k \<le> length unread \<and> decoder_ok d'
       \<and> dec_run (pending d) (take k unread) = (pending d', o1) \<and> delivered out' = delivered out @ o1 \<and> room out' (n - length o1))"

lemma decode_round_plain:
  assumes "m_filled d = 0" and "decoder_ok d" and "room out n" and "unread \<noteq> []" and "length (snd (dec_run (pending d) unread)) \<le> n"
  shows "round_ok out n d unread (decode_round io d out unread)"
proof -
  have p: "pending d = []" using assms(1) by (simp add: pending_def)
  obtain k x where g: "dec_getPlainBytesSize unread = (k, x)" by fastforce
  note ps = plain_size [OF g]
  show ?thesis
  proof (cases "k > 0")
    case True
    have run: "dec_run [] (take k unread) = ([], take k unread)" by (rule dec_run_plain) (use ps in blast)
    have "dec_run [] (take k unread @ drop k unread) = (let (p2, o2) = dec_run [] (drop k unread) in (p2, take k unread @ o2))"
      unfolding dec_run_append run by simp
    then have "length (take k unread) \<le> n" using assms(5) p by (simp add: Let_def case_prod_beta)
    from write_or_fail_ok [OF assms(3) this] show ?thesis
      using assms(1,2) g True run p ps by (auto simp: decode_round_def round_ok_def)
  next
    case False
    then obtain rest where u: "unread = x # rest" "x = CHR ''%'' \<or> x = CHR ''+''" using ps assms(4) by (cases unread) auto
    obtain b0 b1 b2 where b: "m_bytes d = [b0, b1, b2]" using assms(2) three_bytes [of "m_bytes d"] unfolding decoder_ok_def by blast
    show ?thesis
    proof (cases "x = CHR ''%''")
      case True
      then show ?thesis using assms(1,3) g False p u b by (auto simp: decode_round_def decoder_ok_def pending_def round_ok_def)
    next
      case plus: False
      let ?d = "d\<lparr>m_bytes := (m_bytes d)[0 := CHR '' ''], m_filled := 1\<rparr>"
      have "m_filled ?d \<le> n" using assms(5) plus p u by (simp add: Let_def case_prod_beta)
      from flush_ok [OF assms(3) this] show ?thesis
        using assms(1) g False plus p u b by (auto simp: decode_round_def decoder_ok_def pending_def round_ok_def)
    qed
  qed
qed

lemma decode_round_first:
  assumes "m_filled d = 1" and "decoder_ok d" and "room out n" and "unread \<noteq> []" and "length (snd (dec_run (pending d) unread)) \<le> n"
  shows "round_ok out n d unread (decode_round io d out unread)"
proof -
  obtain b0 b1 b2 where b: "m_bytes d = [b0, b1, b2]" using assms(2) three_bytes [of "m_bytes d"] unfolding decoder_ok_def by blast
  obtain c rest where u: "unread = c # rest" using assms(4) by (cases unread) auto
  have p: "pending d = [b0]" "b0 = CHR ''%''" using b assms(1,2) by (simp_all add: pending_def decoder_ok_def)
  let ?d = "d\<lparr>m_bytes := (m_bytes d)[1 := hd unread], m_filled := 2\<rparr>"
  show ?thesis
  proof (cases "is_xdigit c")
    case True
    then show ?thesis using assms(1,3) p u b by (auto simp: decode_round_def decoder_ok_def pending_def round_ok_def)
  next
    case False
    have "m_filled ?d \<le> n" using assms(5) False p u by (simp add: Let_def case_prod_beta)
    from flush_ok [OF assms(3) this] show ?thesis
      using assms(1) False p u b by (auto simp: decode_round_def decoder_ok_def pending_def round_ok_def)
  qed
qed

lemma decode_round_second:
  assumes "m_filled d = 2" and "decoder_ok d" and "room out n" and "unread \<noteq> []" and "length (snd (dec_run (pending d) unread)) \<le> n"
  shows "round_ok out n d unread (decode_round io d out unread)"
proof -
  obtain b0 b1 b2 where b: "m_bytes d = [b0, b1, b2]" using assms(2) three_bytes [of "m_bytes d"] unfolding decoder_ok_def by blast
  obtain c rest where u: "unread = c # rest" using assms(4) by (cases unread) auto
  have p: "pending d = [b0, b1]" "b0 = CHR ''%''" using b assms(1,2) by (simp_all add: pending_def decoder_ok_def)
  let ?d = "d\<lparr>m_bytes := (m_bytes d)[2 := hd unread], m_filled := 3\<rparr>"
  show ?thesis
  proof (cases "is_xdigit c")
    case True
    have "length [hexPairToByte b1 c] \<le> n" using assms(5) True p u by (simp add: Let_def case_prod_beta)
    from write_or_fail_ok [OF assms(3) this] show ?thesis
      using assms(1) True p u b by (auto simp: decode_round_def decoder_ok_def pending_def round_ok_def)
  next
    case False
    have "m_filled ?d \<le> n" using assms(5) False p u by (simp add: Let_def case_prod_beta)
    from flush_ok [OF assms(3) this] show ?thesis
      using assms(1) False p u b by (auto simp: decode_round_def decoder_ok_def pending_def round_ok_def)
  qed
qed

lemma decode_round_ok:
  assumes "decoder_ok d" and "room out n" and "unread \<noteq> []" and "length (snd (dec_run (pending d) unread)) \<le> n"
  shows "round_ok out n d unread (decode_round io d out unread)"
proof -
  consider "m_filled d = 0" | "m_filled d = 1" | "m_filled d = 2" using assms(1) by (fastforce simp: decoder_ok_def)
  then show ?thesis using decode_round_plain decode_round_first decode_round_second assms by cases blast+
qed

lemma decode_loop_ok:
  assumes "decoder_ok d" and "room out n" and "r \<le> length buf" and "length (snd (dec_run (pending d) (drop r buf))) \<le> n" and "length buf - r < fuel"
  shows "\<exists>d' out' o1. decode_loop fuel io d out buf r = Inr (d', out', length buf) \<and> decoder_ok d'
    \<and> dec_run (pending d) (drop r buf) = (pending d', o1) \<and> delivered out' = delivered out @ o1 \<and> room out' (n - length o1)"
  using assms
proof (induction fuel arbitrary: d out n r)
  case (Suc fuel)
  show ?case
  proof (cases "r < length buf")
    case False
    then show ?thesis using Suc.prems by simp
  next
    case True
    then have "drop r buf \<noteq> []" by simp
    from decode_round_ok [OF Suc.prems(1,2) this Suc.prems(4)]
    obtain d1 out1 k o1 where s: "decode_round io d out (drop r buf) = Inr (d1, out1, k)" "0 < k" "k \<le> length (drop r buf)" "decoder_ok d1"
      "dec_run (pending d) (take k (drop r buf)) = (pending d1, o1)" "delivered out1 = delivered out @ o1" "room out1 (n - length o1)"
      unfolding round_ok_def by blast
    have split: "drop r buf = take k (drop r buf) @ drop (r + k) buf" by (metis append_take_drop_id drop_drop add.commute)
    have run: "dec_run (pending d) (drop r buf) = (let (p2, o2) = dec_run (pending d1) (drop (r + k) buf) in (p2, o1 @ o2))"
      by (subst split) (simp add: dec_run_append s(5))
    have "length (snd (dec_run (pending d1) (drop (r + k) buf))) \<le> n - length o1"
      using Suc.prems(4) unfolding run by (simp add: Let_def case_prod_beta)
    moreover have "r + k \<le> length buf" "length buf - (r + k) < fuel" using s(2,3) Suc.prems(5) True by simp_all
    ultimately obtain d2 out2 o2 where
      "decode_loop fuel io d1 out1 buf (r + k) = Inr (d2, out2, length buf)" "decoder_ok d2"
      "dec_run (pending d1) (drop (r + k) buf) = (pending d2, o2)" "delivered out2 = delivered out1 @ o2" "room out2 (n - length o1 - length o2)"
      using Suc.IH [OF s(4,7)] by blast
    then show ?thesis using s True run room_status [OF s(7)] by (auto simp: diff_diff_left)
  qed
qed simp

lemma decoder_writeTo_ok:
  assumes "decoder_ok d" and "room out n" and "length (snd (dec_run (pending d) buf)) \<le> n"
  shows "\<exists>d' out'. decoder_writeTo io d out buf = Inr (d', out', length buf) \<and> decoder_ok d' \<and> pending d' = fst (dec_run (pending d) buf)
    \<and> delivered out' = delivered out @ snd (dec_run (pending d) buf) \<and> room out' (n - length (snd (dec_run (pending d) buf)))"
  using decode_loop_ok [OF assms(1,2), of 0 buf "Suc (length buf)"] assms(3) unfolding decoder_writeTo_def by fastforce

lemma enc_plain_size: "enc_getPlainBytesSize s \<le> length s \<and> (\<forall>c\<in>set (take (enc_getPlainBytesSize s) s). \<not> shouldEncodeThisByte c)
    \<and> (enc_getPlainBytesSize s = 0 \<longrightarrow> s = [] \<or> shouldEncodeThisByte (hd s))"
  by (induction s) auto

lemma enc_plain: "\<forall>c\<in>set s. \<not> shouldEncodeThisByte c \<Longrightarrow> concat (map enc_char s) = s"
  by (induction s) (auto simp: enc_char_def)

lemma encode_round_ok:
  assumes "room out n" and "unread \<noteq> []" and "length (concat (map enc_char unread)) \<le> n"
  shows "\<exists>out' k. encode_round io out unread = Inr (out', k) \<and> 0 < k \<and> k \<le> length unread
    \<and> delivered out' = delivered out @ concat (map enc_char (take k unread)) \<and> room out' (n - length (concat (map enc_char (take k unread))))"
proof -
  let ?k = "enc_getPlainBytesSize unread"
  note ps = enc_plain_size [of unread]
  have all: "length (concat (map enc_char (take k unread))) \<le> n" for k
  proof -
    have "length (concat (map enc_char (take k unread @ drop k unread))) \<le> n" using assms(3) by simp
    then show ?thesis unfolding map_append concat_append length_append by linarith
  qed
  show ?thesis
  proof (cases "?k > 0")
    case True
    have plain: "concat (map enc_char (take ?k unread)) = take ?k unread" using ps enc_plain by blast
    obtain out' where "writeFullStream io out (take ?k unread) = Inr (out', True)" "delivered out' = delivered out @ take ?k unread"
      "room out' (n - length (take ?k unread))" using full_write [OF assms(1) all [of ?k, unfolded plain]] .
    then show ?thesis using True ps plain by (intro exI [of _ out'] exI [of _ ?k]) (simp add: encode_round_def Let_def)
  next
    case False
    obtain c rest where u: "unread = c # rest" using assms(2) by (cases unread) auto
    have "shouldEncodeThisByte c" using False unfolding u by (simp split: if_splits)
    then have c: "enc_char c = encoded_byte c" by (simp add: enc_char_def)
    have "length (encoded_byte c) \<le> n" using all [of 1] u c by simp
    then obtain out' where "writeFullStream io out (encoded_byte c) = Inr (out', True)" "delivered out' = delivered out @ encoded_byte c"
      "room out' (n - length (encoded_byte c))" using full_write [OF assms(1)] by blast
    then show ?thesis using False u c by (intro exI [of _ out'] exI [of _ 1]) (simp add: encode_round_def Let_def)
  qed
qed

lemma encode_loop_ok:
  assumes "room out n" and "r \<le> length buf" and "length (concat (map enc_char (drop r buf))) \<le> n" and "length buf - r < fuel"
  shows "\<exists>out'. encode_loop fuel io out buf r = Inr (out', length buf)
    \<and> delivered out' = delivered out @ concat (map enc_char (drop r buf)) \<and> room out' (n - length (concat (map enc_char (drop r buf))))"
  using assms
proof (induction fuel arbitrary: out n r)
  case (Suc fuel)
  show ?case
  proof (cases "r < length buf")
    case False
    then show ?thesis using Suc.prems by simp
  next
    case True
    then have "drop r buf \<noteq> []" by simp
    from encode_round_ok [OF Suc.prems(1) this Suc.prems(3)]
    obtain out1 k where s: "encode_round io out (drop r buf) = Inr (out1, k)" "0 < k" "k \<le> length (drop r buf)"
      "delivered out1 = delivered out @ concat (map enc_char (take k (drop r buf)))" "room out1 (n - length (concat (map enc_char (take k (drop r buf)))))"
      by blast
    have split: "concat (map enc_char (drop r buf)) = concat (map enc_char (take k (drop r buf))) @ concat (map enc_char (drop (r + k) buf))"
      by (metis append_take_drop_id drop_drop add.commute concat_append map_append)
    have "length (concat (map enc_char (drop (r + k) buf))) \<le> n - length (concat (map enc_char (take k (drop r buf))))"
      using Suc.prems(3) unfolding split by simp
    moreover have "r + k \<le> length buf" "length buf - (r + k) < fuel" using s(2,3) Suc.prems(4) True by simp_all
    ultimately obtain out2 where
      "encode_loop fuel io out1 buf (r + k) = Inr (out2, length buf)"
      "delivered out2 = delivered out1 @ concat (map enc_char (drop (r + k) buf))"
      "room out2 (n - length (concat (map enc_char (take k (drop r buf)))) - length (concat (map enc_char (drop (r + k) buf))))"
      using Suc.IH [OF s(5)] by blast
    then show ?thesis using s True split room_status [OF s(5)] by (auto simp: diff_diff_left)
  qed
qed simp

lemma encoder_writeTo_ok:
  assumes "room out n" and "length (concat (map enc_char buf)) \<le> n" and "length buf \<le> size_max div 3 - 3"
  shows "\<exists>out'. encoder_writeTo io out buf = Inr (out', length buf)
    \<and> delivered out' = delivered out @ concat (map enc_char buf) \<and> room out' (n - length (concat (map enc_char buf)))"
  using encode_loop_ok [OF assms(1), of 0 buf "Suc (length buf)"] assms(2,3) unfolding encoder_writeTo_def by fastforce

end

section \<open>Transforming a whole container\<close>

text \<open>
  The contract of a transformer over such a destination: it implements an automaton \<open>run\<close> on the state \<open>state_of\<close>
  that it keeps between writes. Buffers are bounded by \<open>limit\<close>.
\<close>

locale transducer = roomy_sink io delivered room
  for io :: "'o streamable" and delivered :: "'o \<Rightarrow> bytes" and room :: "'o \<Rightarrow> nat \<Rightarrow> bool" +
  fixes tio :: "('s, 'o) transformer streamable"
    and writeTo :: "'s \<Rightarrow> 'o \<Rightarrow> bytes \<Rightarrow> ('s \<times> 'o \<times> nat) result"
    and eof :: "'s \<Rightarrow> 'o \<Rightarrow> ('s \<times> 'o \<times> nat) result"
    and ok :: "'s \<Rightarrow> bool"
    and state_of :: "'s \<Rightarrow> 'p"
    and run :: "'p \<Rightarrow> bytes \<Rightarrow> 'p \<times> bytes"
    and limit :: nat
  assumes tio_write: "so_write tio = transformer_write io writeTo eof"
    and tio_status: "so_status tio = t_status"
    and run_Nil: "run p [] = (p, [])"
    and run_append: "run p (xs @ ys) = (let (p1, o1) = run p xs; (p2, o2) = run p1 ys in (p2, o1 @ o2))"
    and writeTo_law: "ok s \<Longrightarrow> room dst n \<Longrightarrow> length (snd (run (state_of s) buf)) \<le> n \<Longrightarrow> length buf \<le> limit \<Longrightarrow>
      \<exists>s' dst'. writeTo s dst buf = Inr (s', dst', length buf) \<and> ok s' \<and> state_of s' = fst (run (state_of s) buf)
        \<and> delivered dst' = delivered dst @ snd (run (state_of s) buf) \<and> room dst' (n - length (snd (run (state_of s) buf)))"
begin

definition transformed :: "('s, 'o) transformer \<Rightarrow> bytes \<Rightarrow> nat \<Rightarrow> ('s, 'o) transformer \<Rightarrow> bool" where
  "transformed t input n t' \<longleftrightarrow> ok (t_state t') \<and> t_status t' = t_status t \<and> state_of (t_state t') = fst (run (state_of (t_state t)) input)
     \<and> delivered (destObj t') = delivered (destObj t) @ snd (run (state_of (t_state t)) input)
     \<and> room (destObj t') (n - length (snd (run (state_of (t_state t)) input)))"

lemma transformer_write_ok:
  assumes "ok (t_state t)" and "room (destObj t) n" and "length (snd (run (state_of (t_state t)) buf)) \<le> n" and "buf \<noteq> []" and "length buf \<le> limit"
  shows "\<exists>t'. so_write tio t buf = Inr (t', Some (length buf)) \<and> transformed t buf n t'"
proof -
  obtain s' dst' where w: "writeTo (t_state t) (destObj t) buf = Inr (s', dst', length buf)" "ok s'"
    "state_of s' = fst (run (state_of (t_state t)) buf)" "delivered dst' = delivered (destObj t) @ snd (run (state_of (t_state t)) buf)"
    "room dst' (n - length (snd (run (state_of (t_state t)) buf)))"
    using writeTo_law [OF assms(1,2,3,5)] by blast
  have "so_write tio t buf = Inr (t\<lparr>t_state := s', destObj := dst'\<rparr>, Some (length buf))"
    using w(1) assms(4) room_status [OF w(5)] by (simp add: tio_write transformer_write_def)
  then show ?thesis using w(2-5) by (auto simp: transformed_def)
qed

lemma writeChunks_transforms:
  assumes "ok (t_state t)" and "succeed (t_status t)" and "room (destObj t) n" and "length (snd (run (state_of (t_state t)) (concat bufs))) \<le> n"
    and "[] \<notin> set bufs" and "length (concat bufs) \<le> limit" and "copied + length (concat bufs) \<le> size_max"
  shows "\<exists>t'. b_writeChunks tio t bufs copied = Inr (t', Some (copied + length (concat bufs))) \<and> transformed t (concat bufs) n t'"
  using assms
proof (induction bufs arbitrary: t n copied)
  case Nil
  then show ?case by (simp add: run_Nil transformed_def)
next
  case (Cons b bufs)
  have b: "b \<noteq> []" "length b \<le> limit" using Cons.prems(5,6) by auto
  let ?r = "run (state_of (t_state t)) b"
  have app: "run (state_of (t_state t)) (concat (b # bufs)) = (fst (run (fst ?r) (concat bufs)), snd ?r @ snd (run (fst ?r) (concat bufs)))"
    by (simp add: run_append Let_def case_prod_beta)
  have "length (snd ?r) \<le> n" using Cons.prems(4) unfolding app by simp
  then obtain t1 where t1: "so_write tio t b = Inr (t1, Some (length b))" "transformed t b n t1"
    using transformer_write_ok [OF Cons.prems(1,3) _ b] by blast
  note t1' = t1(2) [unfolded transformed_def]
  have "safeAdd_size (length b) copied = Inr (copied + length b)"
    using Cons.prems(7) by (simp add: safeAdd_size_eq add.commute)
  then have step: "b_writeChunks tio t (b # bufs) copied = b_writeChunks tio t1 bufs (copied + length b)"
    using t1(1) t1' Cons.prems(2) by (simp add: tio_status)
  have "\<exists>t2. b_writeChunks tio t1 bufs (copied + length b) = Inr (t2, Some (copied + length b + length (concat bufs)))
      \<and> transformed t1 (concat bufs) (n - length (snd ?r)) t2"
    by (rule Cons.IH) (use t1' Cons.prems app in auto)
  then obtain t2 where t2: "b_writeChunks tio t1 bufs (copied + length b) = Inr (t2, Some (copied + length b + length (concat bufs)))"
    "transformed t1 (concat bufs) (n - length (snd ?r)) t2" by blast
  have "transformed t (concat (b # bufs)) n t2"
    using t2(2) t1' unfolding transformed_def app by (auto simp: diff_diff_left)
  then show ?case using step t2(1) by auto
qed

lemma transform_ok:
  assumes "b_appendPlan vt input size_max 0 = PlanWrite bufs" and "[] \<notin> set bufs" and "length (concat bufs) \<le> limit" and "length (concat bufs) \<le> size_max"
    and "ok s" and "room out n" and "length (snd (run (state_of s) (concat bufs))) \<le> n"
  shows "\<exists>s' out'. transform tio s vt input out = Inr (s', out') \<and> ok s' \<and> state_of s' = fst (run (state_of s) (concat bufs))
    \<and> delivered out' = delivered out @ snd (run (state_of s) (concat bufs)) \<and> room out' (n - length (snd (run (state_of s) (concat bufs))))"
proof -
  let ?t = "\<lparr>t_state = s, destObj = out, t_status = ws_init\<rparr>"
  have "\<exists>t'. b_writeChunks tio ?t bufs 0 = Inr (t', Some (0 + length (concat bufs))) \<and> transformed ?t (concat bufs) n t'"
    by (rule writeChunks_transforms) (use assms in \<open>simp_all add: ws_init_def\<close>)
  then obtain t' where "b_writeChunks tio ?t bufs 0 = Inr (t', Some (length (concat bufs)))" "transformed ?t (concat bufs) n t'" by auto
  then show ?thesis
    using assms(1) by (simp add: transform_def b_streamTo_def b_appendTo_def b_runPlan_def transformed_def)
qed

end

definition enc_run :: "unit \<Rightarrow> bytes \<Rightarrow> unit \<times> bytes" where
  "enc_run u s = ((), concat (map enc_char s))"

sublocale roomy_sink \<subseteq> decoding: transducer io delivered room "url_decoder_streamable io" "decoder_writeTo io"
    "decoder_writeTransformerEOF io" decoder_ok pending dec_run size_max
proof
  show "so_write (url_decoder_streamable io) = transformer_write io (decoder_writeTo io) (decoder_writeTransformerEOF io)"
    "so_status (url_decoder_streamable io) = t_status"
    by (simp_all add: url_decoder_streamable_def)
  show "dec_run p (xs @ ys) = (let (p1, o1) = dec_run p xs; (p2, o2) = dec_run p1 ys in (p2, o1 @ o2))" for p xs ys
    by (rule dec_run_append)
  show "\<exists>s' dst'. decoder_writeTo io s dst buf = Inr (s', dst', length buf) \<and> decoder_ok s' \<and> pending s' = fst (dec_run (pending s) buf)
      \<and> delivered dst' = delivered dst @ snd (dec_run (pending s) buf) \<and> room dst' (n - length (snd (dec_run (pending s) buf)))"
    if "decoder_ok s" "room dst n" "length (snd (dec_run (pending s) buf)) \<le> n" for s dst n buf
    using decoder_writeTo_ok [OF that] by blast
qed simp

sublocale roomy_sink \<subseteq> encoding: transducer io delivered room "url_encoder_streamable io"
    "\<lambda>s dst buf. map_sum id (\<lambda>(dst', r). (s, dst', r)) (encoder_writeTo io dst buf)" "\<lambda>s dst. Inr (s, dst, 0)" "\<lambda>s. True" "\<lambda>s. ()" enc_run "size_max div 3 - 3"
proof
  show "\<exists>s' dst'. map_sum id (\<lambda>(dst', r). (s, dst', r)) (encoder_writeTo io dst buf) = Inr (s', dst', length buf) \<and> True \<and> () = fst (enc_run () buf)
      \<and> delivered dst' = delivered dst @ snd (enc_run () buf) \<and> room dst' (n - length (snd (enc_run () buf)))"
    if "room dst n" "length (snd (enc_run () buf)) \<le> n" "length buf \<le> size_max div 3 - 3" for s dst n buf
    using encoder_writeTo_ok [OF that(1) _ that(3)] that(2) by (fastforce simp: enc_run_def)
qed (auto simp: url_encoder_streamable_def enc_run_def)

section \<open>Chunked containers as destinations\<close>

definition chunks_roomy :: "'y chunks \<Rightarrow> nat \<Rightarrow> bool" where
  "chunks_roomy s n \<longleftrightarrow> chunks_fits s (replicate n 1)"

lemma chunks_needed_1: "0 < m_maxChunkSize s \<Longrightarrow> chunks_needed s 1 = 1"
  by (simp add: chunks_needed_def)

lemma chunks_roomy_conv: "chunks_roomy s n \<longleftrightarrow> chunks_inv s \<and> \<not> m_readOnly s \<and> 0 < m_maxChunkSize s
     \<and> m_maxSizeInMemoryBeforeMovingToDisk s = 0 \<and> n + length (chunks_content s) \<le> m_maxSize s \<and> m_maxSize s \<le> size_max \<and> n < 2 ^ 63
     \<and> length (m_chunksVector s) + n \<le> m_maxChunks s
     \<and> succeed (writeStatus s) \<and> \<not> finish (writeStatus s) \<and> bytesWritten (writeStatus s) + n \<le> size_max"
  by (auto simp: chunks_roomy_def chunks_fits_def sum_list_replicate chunks_needed_1 [simplified])

interpretation chunk_sink: roomy_sink "b_streamable (chunks_vt mvt fs)" chunks_content chunks_roomy
  for mvt fs
proof
  fix s :: "'a chunks" and n m and buf :: bytes
  show "succeed (so_status (b_streamable (chunks_vt mvt fs)) s) \<and> \<not> finish (so_status (b_streamable (chunks_vt mvt fs)) s)" if "chunks_roomy s n"
    using that by (simp add: chunks_roomy_conv b_streamable_def)
  show "chunks_roomy s m" if "chunks_roomy s n" "m \<le> n" using that by (auto simp: chunks_roomy_conv)
  assume room: "chunks_roomy s n" and buf: "buf \<noteq> []" "length buf \<le> n"
  have "sum_list (map (chunks_needed s) (length buf # replicate (n - length buf) 1)) \<le> n"
    using chunks_needed_le [of s "length buf"] chunks_needed_1 [of s] buf room by (simp add: chunks_roomy_conv sum_list_replicate)
  then have "chunks_fits s (length buf # replicate (n - length buf) 1)"
    using room buf unfolding chunks_fits_def by (simp add: chunks_roomy_conv sum_list_replicate)
  from bchunks_sink.full_write [OF this buf(1)] show
    "\<exists>out'. so_write (b_streamable (chunks_vt mvt fs)) s buf = Inr (out', Some (length buf)) \<and> chunks_content out' = chunks_content s @ buf
      \<and> chunks_roomy out' (n - length buf)"
    unfolding chunks_roomy_def by blast
qed


text \<open>
  C18. The decoder implements the byte automaton of percent-encoding, whatever its input is and however it is cut into
  writes: two writes in a row deliver to a chunked container with room exactly what the automaton releases for the two
  texts together, report all bytes as read, and keep the undecided rest for the next write.
\<close>

theorem url_decoder_correct:
  assumes "decoder_ok d" and "chunks_roomy out (length (pending d) + length xs + length ys)"
  shows "\<exists>d1 out1 d2 out2. decoder_writeTo (b_streamable (chunks_vt mvt fs)) d out xs = Inr (d1, out1, length xs)
    \<and> decoder_writeTo (b_streamable (chunks_vt mvt fs)) d1 out1 ys = Inr (d2, out2, length ys)
    \<and> (pending d2, drop (length (chunks_content out)) (chunks_content out2)) = dec_run (pending d) (xs @ ys)
    \<and> chunks_inv out2 \<and> decoder_ok d2"
proof -
  have p: "length (pending d) \<le> 2" using assms(1) by (simp add: pending_def decoder_ok_def)
  let ?x = "dec_run (pending d) xs"
  have p1: "length (fst ?x) \<le> 2" by (rule dec_run_pending [OF p])
  have "length (snd ?x) \<le> length (pending d) + length xs + length ys" using dec_run_size [OF p, of xs] by simp
  from chunk_sink.decoder_writeTo_ok [OF assms this, of mvt fs] obtain d1 out1 where
    1: "decoder_writeTo (b_streamable (chunks_vt mvt fs)) d out xs = Inr (d1, out1, length xs)" "decoder_ok d1" "pending d1 = fst ?x"
      "chunks_content out1 = chunks_content out @ snd ?x" "chunks_roomy out1 (length (pending d) + length xs + length ys - length (snd ?x))"
    by blast
  have "length (snd (dec_run (pending d1) ys)) \<le> length (pending d) + length xs + length ys - length (snd ?x)"
    using dec_run_size [OF p1, of ys] dec_run_size [OF p, of xs] 1(3) by simp
  from chunk_sink.decoder_writeTo_ok [OF 1(2,5) this, of mvt fs] obtain d2 out2 where
    2: "decoder_writeTo (b_streamable (chunks_vt mvt fs)) d1 out1 ys = Inr (d2, out2, length ys)" "decoder_ok d2" "pending d2 = fst (dec_run (pending d1) ys)"
      "chunks_content out2 = chunks_content out1 @ snd (dec_run (pending d1) ys)" "chunks_inv out2"
    by (auto simp: chunks_roomy_conv)
  then show ?thesis using 1 by (simp add: dec_run_append case_prod_beta Let_def)
qed

theorem url_decoder_correct_witness:
  "\<exists>d1 out1 d2 out2. decoder_writeTo (b_streamable (chunks_vt mem_vt (\<lambda>_. None))) url_decoder_new small_chunks ''a+%4'' = Inr (d1, out1, 4)
    \<and> decoder_writeTo (b_streamable (chunks_vt mem_vt (\<lambda>_. None))) d1 out1 ''1%zz'' = Inr (d2, out2, 4)
    \<and> chunks_content out2 = ''a A%zz''"
proof -
  have c: "chunks_content small_chunks = []" using chunks_new_inv(2) by (simp add: small_chunks_def b_setMaxSize_def chunks_content_def)
  have room: "chunks_roomy small_chunks (length (pending url_decoder_new) + length ''a+%4'' + length ''1%zz'')"
    unfolding chunks_roomy_def
    by (rule small_chunks_fits) (simp_all add: small_chunks_def chunks_needed_def sum_list_replicate chunks_new_def chunks_clear2_def
        chunks_clearChunks_def b_base.defs b_setMaxSize_def pending_def url_decoder_new_def)
  have new: "decoder_ok url_decoder_new" "pending url_decoder_new = []" by (simp_all add: decoder_ok_def url_decoder_new_def pending_def)
  have run: "dec_run [] (''a+%4'' @ ''1%zz'') = ([], ''a A%zz'')" by code_simp
  have len: "length ''a+%4'' = 4" "length ''1%zz'' = 4" by simp_all
  from url_decoder_correct [OF new(1) room, of mem_vt "\<lambda>_. None"] show ?thesis
    unfolding new(2) run c len by (metis (no_types, lifting) drop0 list.size(3) prod.inject)
qed

text \<open>
  Streaming a container through the URL encoder into a second one and from there through the decoder into a third
  one gives back every byte, whatever the bytes are and however the containers are chunked.
\<close>

theorem url_stream_roundtrip:
  assumes "chunks_data_inv s" and "chunks_content s \<noteq> []" and "length (chunks_content s) \<le> size_max div 3 - 3"
    and "chunks_roomy m (3 * length (chunks_content s))" and "chunks_content m = []" and "chunks_roomy f (length (chunks_content s))"
  shows "\<exists>m' f' d. transform (url_encoder_streamable (b_streamable (chunks_vt mvt fs))) () (chunks_vt mvt fs) s m = Inr ((), m')
    \<and> transform (url_decoder_streamable (b_streamable (chunks_vt mvt fs))) url_decoder_new (chunks_vt mvt fs) m' f = Inr (d, f')
    \<and> chunks_content f' = chunks_content f @ chunks_content s \<and> pending d = []"
proof -
  note p = b_appendPlan_chunks(1) [OF assms(1,2), of mvt fs] b_appendPlan_chunks(2,3) [OF assms(1,2)]
  let ?c = "chunks_content s" and ?e = "concat (map enc_char (chunks_content s))"
  have e: "length ?e \<le> 3 * length ?c" by (rule length_encoded)
  have lim: "length ?c \<le> size_max" using assms(3) by simp
  have "\<exists>u m'. transform (url_encoder_streamable (b_streamable (chunks_vt mvt fs))) () (chunks_vt mvt fs) s m = Inr (u, m')
      \<and> True \<and> () = fst (enc_run () (concat (chunks_pieces (m_chunksVector s) 0 (length ?c))))
      \<and> chunks_content m' = chunks_content m @ snd (enc_run () (concat (chunks_pieces (m_chunksVector s) 0 (length ?c))))
      \<and> chunks_roomy m' (3 * length ?c - length (snd (enc_run () (concat (chunks_pieces (m_chunksVector s) 0 (length ?c))))))"
    by (rule chunk_sink.encoding.transform_ok [OF p(1,3)]) (use e assms(3,4) lim p(2) in \<open>simp_all add: enc_run_def\<close>)
  then obtain m' where
    m': "transform (url_encoder_streamable (b_streamable (chunks_vt mvt fs))) () (chunks_vt mvt fs) s m = Inr ((), m')"
      "chunks_content m' = ?e" "chunks_inv m'"
    using assms(5) unfolding p(2) by (auto simp: enc_run_def chunks_roomy_conv)
  have ne: "?e \<noteq> []" using assms(2) by (cases ?c) (auto simp: enc_char_def encoded_byte_def split: if_splits)
  have inv: "chunks_data_inv m'" using m'(3) by (simp add: chunks_inv_def)
  note q = b_appendPlan_chunks(1) [OF inv ne [folded m'(2)], of mvt fs, unfolded m'(2)] b_appendPlan_chunks(2,3) [OF inv ne [folded m'(2)], unfolded m'(2)]
  have new: "decoder_ok url_decoder_new" "pending url_decoder_new = []" by (simp_all add: decoder_ok_def url_decoder_new_def pending_def)
  have sz: "length ?e \<le> size_max" using e assms(3) by (simp add: size_max_def)
  let ?q = "concat (chunks_pieces (m_chunksVector m') 0 (length ?e))"
  have "\<exists>d f'. transform (url_decoder_streamable (b_streamable (chunks_vt mvt fs))) url_decoder_new (chunks_vt mvt fs) m' f = Inr (d, f')
      \<and> decoder_ok d \<and> pending d = fst (dec_run (pending url_decoder_new) ?q) \<and> chunks_content f' = chunks_content f @ snd (dec_run (pending url_decoder_new) ?q)
      \<and> chunks_roomy f' (length ?c - length (snd (dec_run (pending url_decoder_new) ?q)))"
    by (rule chunk_sink.decoding.transform_ok [OF q(1,3) _ _ new(1) assms(6)]) (use q(2) sz in \<open>simp_all add: new(2) dec_run_encoded\<close>)
  then show ?thesis using m'(1) unfolding q(2) new(2) dec_run_encoded by auto
qed

theorem url_stream_roundtrip_witness:
  "\<exists>m' f' d. transform (url_encoder_streamable (b_streamable (chunks_vt mem_vt (\<lambda>_. None)))) () (chunks_vt mem_vt (\<lambda>_. None)) two_chunks small_chunks = Inr ((), m')
    \<and> transform (url_decoder_streamable (b_streamable (chunks_vt mem_vt (\<lambda>_. None)))) url_decoder_new (chunks_vt mem_vt (\<lambda>_. None)) m' small_chunks = Inr (d, f')
    \<and> chunks_content f' = ''abcdef''"
proof -
  have c: "chunks_content small_chunks = []" using chunks_new_inv(2) by (simp add: small_chunks_def b_setMaxSize_def chunks_content_def)
  have room: "chunks_roomy small_chunks n" if "n \<le> 1000" for n
    unfolding chunks_roomy_def
    by (rule small_chunks_fits) (use that in \<open>simp_all add: small_chunks_def chunks_needed_def sum_list_replicate chunks_new_def chunks_clear2_def
        chunks_clearChunks_def b_base.defs b_setMaxSize_def\<close>)
  from url_stream_roundtrip [OF two_chunks_inv(2), of small_chunks small_chunks mem_vt "\<lambda>_. None"] show ?thesis
    using room two_chunks_inv(3) c by (auto simp: size_max_def)
qed

section \<open>The string functions\<close>

lemma mem_blocks_facts: "n \<le> length xs \<Longrightarrow> concat (mem_blocks xs n) = take n xs \<and> [] \<notin> set (mem_blocks xs n)"
proof (induction xs n rule: mem_blocks.induct)
  case (1 xs n)
  show ?case
  proof (cases "n > 0")
    case True
    let ?r = "if n > block_size then block_size else n"
    have r: "0 < ?r" "?r \<le> n" using True by (simp_all add: block_size_def)
    have ih: "concat (mem_blocks (drop ?r xs) (n - ?r)) = take (n - ?r) (drop ?r xs) \<and> [] \<notin> set (mem_blocks (drop ?r xs) (n - ?r))"
      using 1 True r by simp
    have "take n xs = take ?r xs @ take (n - ?r) (drop ?r xs)" using r by (metis take_add le_add_diff_inverse)
    moreover have "take ?r xs \<noteq> []" using r "1.prems" by auto
    moreover have "mem_blocks xs n = take ?r xs # mem_blocks (drop ?r xs) (n - ?r)" using True by (subst mem_blocks.simps) (simp add: Let_def)
    ultimately show ?thesis using ih by simp
  qed (simp add: mem_blocks.simps)
qed

lemma b_appendPlan_mem:
  assumes "url \<noteq> []" and "length url < 2 ^ 32"
  shows "b_appendPlan mem_vt (mem_new (Some url) (length url)) size_max 0 = PlanWrite (mem_blocks url (length url))"
    and "concat (mem_blocks url (length url)) = url" and "[] \<notin> set (mem_blocks url (length url))"
proof -
  let ?s = "mem_new (Some url) (length url)"
  have s: "m_containerBytes ?s = length url" "linearMem ?s = url"
    using assms by (simp_all add: mem_new_def mem_clear2_def mem_reference_def b_clear_def b_clear0_def mem_vt_def b_setContainerBytes_def b_base.defs)
  have "\<not> check_uint_overflow_sum 0 (length url)" using assms(2) by (simp add: check_uint_overflow_sum_iff size_max_def)
  then show "b_appendPlan mem_vt ?s size_max 0 = PlanWrite (mem_blocks url (length url))"
    using assms(1) s by (simp add: b_appendPlan_def b_requested_def mem_vt_def mem_copyPlan2_def mem_size_def Let_def)
  show "concat (mem_blocks url (length url)) = url" "[] \<notin> set (mem_blocks url (length url))"
    using mem_blocks_facts [of "length url" url] by simp_all
qed

lemma chunks_new_roomy: "n \<le> 262144 \<Longrightarrow> chunks_roomy chunks_new n"
  using chunks_new_inv by (simp add: chunks_roomy_conv chunks_new_def chunks_clear2_def chunks_clearChunks_def b_init_def b_base.defs
      chunks_content_def size_max_def ws_init_def)

lemma chunks_new_not_finished: "\<not> finish (writeStatus chunks_new)"
  by (simp add: chunks_new_def chunks_clear2_def chunks_clearChunks_def b_init_def b_base.defs ws_init_def)

lemma empty_transform: "transform tio s mem_vt (mem_new (Some []) 0) out = Inr (s, out)"
  by (simp add: transform_def b_streamTo_def b_appendTo_def b_runPlan_def b_appendPlan_def b_requested_def mem_vt_def mem_new_def mem_clear2_def
      mem_size_def b_setContainerBytes_def b_base.defs b_init_def check_uint_overflow_sum_def uadd_def size_modulus_def Let_def)

lemma decodeURLStr_id:
  assumes "length url \<le> 262144"
  shows "decodeURLStr mvt fs url = Inr url"
proof (cases "url = []")
  case True
  then show ?thesis by (simp add: decodeURLStr_def empty_transform chunks_new_not_finished)
next
  case False
  have "length url < 2 ^ 32" using assms by simp
  note p = b_appendPlan_mem [OF False this]
  have new: "decoder_ok url_decoder_new" "pending url_decoder_new = []" by (simp_all add: decoder_ok_def url_decoder_new_def pending_def)
  have sz: "length url \<le> size_max" "length (snd (dec_run [] url)) \<le> 262144"
    using dec_run_size [of "[]" url] assms by (simp_all add: size_max_def)
  have room: "chunks_roomy chunks_new 262144" by (rule chunks_new_roomy) simp
  have "\<exists>d u. transform (url_decoder_streamable (b_streamable (chunks_vt mvt fs))) url_decoder_new mem_vt (mem_new (Some url) (length url)) chunks_new = Inr (d, u) \<and> \<not> finish (writeStatus u)"
    using chunk_sink.decoding.transform_ok [OF p(1,3) _ _ new(1) room] p(2) sz by (fastforce simp: new(2) chunks_roomy_conv)
  then show ?thesis by (auto simp: decodeURLStr_def)
qed

lemma encodeURLStr_id:
  assumes "3 * length url \<le> 262144"
  shows "encodeURLStr mvt fs url = Inr url"
proof (cases "url = []")
  case True
  then show ?thesis by (simp add: encodeURLStr_def empty_transform chunks_new_not_finished)
next
  case False
  have "length url < 2 ^ 32" using assms by simp
  note p = b_appendPlan_mem [OF False this]
  have sz: "length url \<le> size_max" "length url \<le> size_max div 3 - 3" "length (concat (map enc_char url)) \<le> 262144"
    using assms length_encoded [of url] by (simp_all add: size_max_def)
  have room: "chunks_roomy chunks_new 262144" by (rule chunks_new_roomy) simp
  have "\<exists>u. transform (url_encoder_streamable (b_streamable (chunks_vt mvt fs))) () mem_vt (mem_new (Some url) (length url)) chunks_new = Inr ((), u) \<and> \<not> finish (writeStatus u)"
    using chunk_sink.encoding.transform_ok [OF p(1,3) _ _ TrueI room] p(2) sz by (fastforce simp: enc_run_def chunks_roomy_conv)
  then show ?thesis by (auto simp: encodeURLStr_def)
qed

text \<open>
  The string functions do nothing: \<^verbatim>\<open>decodeURLStr\<close> and \<^verbatim>\<open>encodeURLStr\<close> return every text (within the
  default limits of a container) unchanged. They accept the transformed text only when its container is marked as finished,
  and \<^verbatim>\<open>streamTo\<close> never writes the end of the stream. The request line relies on \<^verbatim>\<open>decodeURLStr\<close>
  for the URI, which therefore stays percent-encoded.
\<close>

theorem url_strings_unchanged:
  assumes "3 * length url \<le> 262144"
  shows "decodeURLStr mvt fs url = Inr url \<and> encodeURLStr mvt fs url = Inr url"
  using assms by (simp add: decodeURLStr_id encodeURLStr_id)

theorem url_strings_unchanged_witness:
  "decodeURLStr mem_vt (\<lambda>_. None) ''/a%20b'' = Inr ''/a%20b'' \<and> encodeURLStr mem_vt (\<lambda>_. None) ''/a b'' = Inr ''/a b''"
  using url_strings_unchanged [of "''/a%20b''" mem_vt "\<lambda>_. None"] url_strings_unchanged [of "''/a b''" mem_vt "\<lambda>_. None"] by simp

end
