(* ===== verification/HTTPHeaders.thy ===== *)
theory HTTPHeaders
  imports Text
begin

text \<open>
  Header values of the HTTP library: the protocol version (\<^verbatim>\<open>common_version.cpp\<close>), cache control
  (\<^verbatim>\<open>hdr_cachecontrol.cpp\<close>) and the security headers \<^verbatim>\<open>Strict-Transport-Security\<close>,
  \<^verbatim>\<open>X-Frame-Options\<close> and \<^verbatim>\<open>X-XSS-Protection\<close> (\<^verbatim>\<open>hdr_sec_*.cpp\<close>). Each type has its printer and its
  reader; the theorems say what reading back a printed value gives.
\<close>

definition any_of :: "bytes \<Rightarrow> char \<Rightarrow> bool" where
  "any_of ds c \<longleftrightarrow> c \<in> set ds"

definition uint16 :: "nat \<Rightarrow> nat" where
  "uint16 n = n mod 65536"

definition uint32 :: "nat \<Rightarrow> nat" where
  "uint32 n = n mod 4294967296"

section \<open>Protocol version\<close>

record http_version =
  m_minorVersion :: nat
  m_majorVersion :: nat

definition version_new :: http_version where
  "version_new = \<lparr>m_minorVersion = 1, m_majorVersion = 1\<rparr>"

definition version_parse :: "bytes \<Rightarrow> http_version" where
  "version_parse version =
     (case split_compress (any_of ''/'') version of
        [_, numbers] \<Rightarrow>
          (case split_compress (any_of ''.'') numbers of
             [major, minor] \<Rightarrow> \<lparr>m_minorVersion = uint16 (strtoul minor), m_majorVersion = uint16 (strtoul major)\<rparr>
           | _ \<Rightarrow> \<lparr>m_minorVersion = 0, m_majorVersion = 1\<rparr>)
      | _ \<Rightarrow> \<lparr>m_minorVersion = 0, m_majorVersion = 1\<rparr>)"

definition version_toString :: "http_version \<Rightarrow> bytes" where
  "version_toString v = ''HTTP/'' @ dec (m_majorVersion v) @ ''.'' @ dec (m_minorVersion v)"

definition upgradeMinor :: "http_version \<Rightarrow> nat \<Rightarrow> http_version" where
  "upgradeMinor v value' = (if value' > m_minorVersion v then v\<lparr>m_minorVersion := value'\<rparr> else v)"

definition version_wf :: "http_version \<Rightarrow> bool" where
  "version_wf v \<longleftrightarrow> m_minorVersion v < 65536 \<and> m_majorVersion v < 65536"

text \<open>Texts without the delimiters of a list.\<close>

definition free_of :: "bytes \<Rightarrow> bytes \<Rightarrow> bool" where
  "free_of ds p \<longleftrightarrow> (\<forall>d\<in>set ds. d \<notin> set p)"

lemma free_of_simps [simp]:
  "free_of ds []"
  "free_of ds (x # p) \<longleftrightarrow> x \<notin> set ds \<and> free_of ds p"
  "free_of ds (p @ q) \<longleftrightarrow> free_of ds p \<and> free_of ds q"
  by (auto simp: free_of_def)

lemma free_of_dec: "\<forall>d\<in>set ds. \<not> is_digit d \<Longrightarrow> free_of ds (dec n)"
  using dec_digits digit_facts(1) by (fastforce simp: free_of_def)

lemma split_any_of_join:
  assumes "ps \<noteq> []" and "list_all (\<lambda>p. p \<noteq> [] \<and> free_of ds p) ps" and "sep \<noteq> []" and "set sep \<subseteq> set ds"
  shows "split_compress (any_of ds) (join sep ps) = ps"
  by (rule split_compress_join) (use assms in \<open>auto simp: any_of_def list_all_iff free_of_def\<close>)

lemma strtoul_dec_alone: "n \<le> size_max \<Longrightarrow> strtoul (dec n) = n"
  using strtoul_dec [of n "[]"] by simp

lemma version_roundtrip:
  assumes "version_wf v"
  shows "version_parse (version_toString v) = v"
proof -
  have bounds: "m_majorVersion v \<le> size_max" "m_minorVersion v \<le> size_max"
    using assms by (simp_all add: version_wf_def size_max_def)
  have dots: "free_of ''.'' (dec n)" "free_of ''/'' (dec n)" for n
    by (rule free_of_dec, simp add: is_digit_def)+
  let ?numbers = "dec (m_majorVersion v) @ ''.'' @ dec (m_minorVersion v)"
  have "split_compress (any_of ''/'') (join ''/'' [''HTTP'', ?numbers]) = [''HTTP'', ?numbers]"
    by (rule split_any_of_join) (simp_all add: dots)
  moreover have "split_compress (any_of ''.'') (join ''.'' [dec (m_majorVersion v), dec (m_minorVersion v)])
      = [dec (m_majorVersion v), dec (m_minorVersion v)]"
    by (rule split_any_of_join) (simp_all add: dots)
  ultimately show ?thesis
    using assms bounds by (simp add: version_parse_def version_toString_def strtoul_dec_alone version_wf_def uint16_def)
qed

lemma version_parse_wf: "version_wf (version_parse s)"
  by (auto simp: version_parse_def version_wf_def uint16_def split: list.split)

section \<open>Cache control\<close>

record cache_control =
  optionNoStore :: bool
  optionNoCache :: bool
  optionMustRevalidate :: bool
  optionPrivate :: bool
  optionPublic :: bool
  optionImmutable :: bool
  optionNoTransform :: bool
  optionProxyRevalidate :: bool
  maxAge :: nat
  sMaxAge :: nat

definition cache_control_new :: cache_control where
  "cache_control_new =
     \<lparr>optionNoStore = True, optionNoCache = False, optionMustRevalidate = False, optionPrivate = False,
      optionPublic = False, optionImmutable = False, optionNoTransform = False, optionProxyRevalidate = False,
      maxAge = 0, sMaxAge = 0\<rparr>"

definition add_option :: "bool \<Rightarrow> bytes \<Rightarrow> bytes \<Rightarrow> bytes" where
  "add_option b opt r = (if b then r @ (if r = [] then [] else '','') @ opt else r)"

definition cache_control_toString :: "cache_control \<Rightarrow> bytes" where
  "cache_control_toString c =
     (let r = add_option (optionMustRevalidate c) ''must-revalidate'' [];
          r = add_option (optionProxyRevalidate c) ''proxy-revalidate'' r;
          r = add_option (optionNoTransform c) ''no-transform'' r;
          r = add_option (optionImmutable c) ''immutable'' r;
          r = add_option (optionNoStore c) ''no-store'' r;
          r = add_option (optionNoCache c) ''no-cache'' r;
          r = add_option (optionPrivate c) ''private'' r;
          r = add_option (optionPublic c) ''public'' r;
          r = add_option (maxAge c \<noteq> 0) (''max-age='' @ dec (maxAge c)) r
      in add_option (sMaxAge c \<noteq> 0) (''s-maxage='' @ dec (sMaxAge c)) r)"

definition cache_control_param :: "cache_control \<Rightarrow> bytes \<Rightarrow> cache_control" where
  "cache_control_param c param =
     (let paramLower = to_lower_copy param
      in if paramLower = ''no-store'' then c\<lparr>optionNoStore := True\<rparr>
         else if paramLower = ''no-cache'' then c\<lparr>optionNoCache := True\<rparr>
         else if paramLower = ''private'' then c\<lparr>optionPrivate := True\<rparr>
         else if paramLower = ''public'' then c\<lparr>optionPublic := True\<rparr>
         else if paramLower = ''immutable'' then c\<lparr>optionImmutable := True\<rparr>
         else if paramLower = ''proxy-revalidate'' then c\<lparr>optionProxyRevalidate := True\<rparr>
         else if paramLower = ''no-transform'' then c\<lparr>optionNoTransform := True\<rparr>
         else if starts_with paramLower ''max-age='' then c\<lparr>maxAge := uint32 (strtoul (drop 8 paramLower))\<rparr>
         else if starts_with paramLower ''s-maxage='' then c\<lparr>sMaxAge := uint32 (strtoul (drop 9 paramLower))\<rparr>
         else c)"

definition cache_control_fromString :: "bytes \<Rightarrow> cache_control" where
  "cache_control_fromString str = foldl cache_control_param cache_control_new (split_compress (any_of '', '') str)"

text \<open>The printed text is the comma-separated list of the options that are set.\<close>

definition cache_control_options :: "cache_control \<Rightarrow> bytes list" where
  "cache_control_options c =
     (if optionMustRevalidate c then [''must-revalidate''] else []) @
     (if optionProxyRevalidate c then [''proxy-revalidate''] else []) @
     (if optionNoTransform c then [''no-transform''] else []) @
     (if optionImmutable c then [''immutable''] else []) @
     (if optionNoStore c then [''no-store''] else []) @
     (if optionNoCache c then [''no-cache''] else []) @
     (if optionPrivate c then [''private''] else []) @
     (if optionPublic c then [''public''] else []) @
     (if maxAge c \<noteq> 0 then [''max-age='' @ dec (maxAge c)] else []) @
     (if sMaxAge c \<noteq> 0 then [''s-maxage='' @ dec (sMaxAge c)] else [])"

lemma add_option_join:
  assumes "\<And>p. p \<in> set ps \<Longrightarrow> p \<noteq> []"
  shows "add_option b opt (join '','' ps) = join '','' (ps @ (if b then [opt] else []))"
  using join_eq_Nil [of ps "'',''"] assms by (auto simp: add_option_def join_snoc)

lemma cache_control_toString_join: "cache_control_toString c = join '','' (cache_control_options c)"
proof -
  have start: "add_option b opt [] = join '','' (if b then [opt] else [])" for b opt
    using add_option_join [of "[]" b opt] by simp
  show ?thesis
    unfolding cache_control_toString_def cache_control_options_def Let_def start
    by (subst add_option_join, force split: if_splits)+ (simp only: append_assoc)
qed

lemma to_lower_digits: "map to_lower (dec n) = dec n"
proof -
  have "to_lower c = c" if "c \<in> set (dec n)" for c
    using dec_digits [OF that] digit_facts(1) by (fastforce simp: to_lower_def is_upper_def is_digit_def)
  then show ?thesis by (simp add: map_idI)
qed

text \<open>Reading one printed option sets exactly its field, except for \<^verbatim>\<open>must-revalidate\<close>, which is not known.\<close>

lemma cache_control_param_simps:
  "cache_control_param c ''must-revalidate'' = c"
  "cache_control_param c ''proxy-revalidate'' = c\<lparr>optionProxyRevalidate := True\<rparr>"
  "cache_control_param c ''no-transform'' = c\<lparr>optionNoTransform := True\<rparr>"
  "cache_control_param c ''immutable'' = c\<lparr>optionImmutable := True\<rparr>"
  "cache_control_param c ''no-store'' = c\<lparr>optionNoStore := True\<rparr>"
  "cache_control_param c ''no-cache'' = c\<lparr>optionNoCache := True\<rparr>"
  "cache_control_param c ''private'' = c\<lparr>optionPrivate := True\<rparr>"
  "cache_control_param c ''public'' = c\<lparr>optionPublic := True\<rparr>"
  by (simp_all add: cache_control_param_def to_lower_copy_def to_lower_def is_upper_def starts_with_def)

lemma cache_control_param_ages:
  assumes "n < 4294967296"
  shows "cache_control_param c (''max-age='' @ dec n) = c\<lparr>maxAge := n\<rparr>"
    and "cache_control_param c (''s-maxage='' @ dec n) = c\<lparr>sMaxAge := n\<rparr>"
proof -
  have l: "to_lower_copy (''max-age='' @ dec n) = ''max-age='' @ dec n" "to_lower_copy (''s-maxage='' @ dec n) = ''s-maxage='' @ dec n"
    by (simp_all add: to_lower_copy_def to_lower_digits to_lower_def is_upper_def)
  have s: "strtoul (dec n) = n" "uint32 n = n" using assms strtoul_dec_alone by (simp_all add: size_max_def uint32_def)
  show "cache_control_param c (''max-age='' @ dec n) = c\<lparr>maxAge := n\<rparr>"
    "cache_control_param c (''s-maxage='' @ dec n) = c\<lparr>sMaxAge := n\<rparr>"
    unfolding cache_control_param_def l Let_def by (simp_all add: starts_with_def s)
qed

lemma cache_control_options_clean: "list_all (\<lambda>p. p \<noteq> [] \<and> free_of '', '' p) (cache_control_options c)"
proof -
  have "free_of '', '' (dec n)" for n by (rule free_of_dec) (simp add: is_digit_def)
  then show ?thesis by (simp add: cache_control_options_def)
qed

lemma foldl_if: "foldl f c (if b then [x] else []) = (if b then f c x else c)"
  by simp

lemma cache_control_fold:
  assumes "maxAge c < 4294967296" and "sMaxAge c < 4294967296"
  shows "foldl cache_control_param cache_control_new (cache_control_options c)
    = c\<lparr>optionMustRevalidate := False, optionNoStore := True\<rparr>"
  unfolding cache_control_options_def foldl_append foldl_if cache_control_param_simps cache_control_param_ages [OF assms(1)] cache_control_param_ages [OF assms(2)]
  by (cases c) (simp add: cache_control_new_def)

text \<open>
  Reading back a printed cache control value (\<^verbatim>\<open>CacheControl::fromString\<close> after \<^verbatim>\<open>CacheControl::toString\<close>)
  restores every field, ages included, except two: \<^verbatim>\<open>must-revalidate\<close> is never read and \<^verbatim>\<open>no-store\<close>,
  which the default constructor sets, is never cleared.
\<close>

theorem cache_control_reread:
  assumes "maxAge c < 4294967296" and "sMaxAge c < 4294967296"
  shows "cache_control_fromString (cache_control_toString c) = c\<lparr>optionMustRevalidate := False, optionNoStore := True\<rparr>"
proof (cases "cache_control_options c = []")
  case True
  then have "foldl cache_control_param cache_control_new [[]] = cache_control_new"
    by (simp add: cache_control_param_def to_lower_copy_def starts_with_def)
  moreover have "split_compress (any_of '', '') [] = [[]]" by (rule split_compress_single) simp
  moreover have "cache_control_new = c\<lparr>optionMustRevalidate := False, optionNoStore := True\<rparr>"
    using cache_control_fold [OF assms] True by simp
  ultimately show ?thesis using True by (simp add: cache_control_toString_join cache_control_fromString_def)
next
  case False
  then have "split_compress (any_of '', '') (cache_control_toString c) = cache_control_options c"
    unfolding cache_control_toString_join by (rule split_any_of_join) (simp_all add: cache_control_options_clean)
  then show ?thesis using cache_control_fold [OF assms] by (simp add: cache_control_fromString_def)
qed

theorem cache_control_reread_witness:
  "cache_control_fromString (cache_control_toString (cache_control_new\<lparr>optionMustRevalidate := True, optionPublic := True, maxAge := 3600\<rparr>))
    = cache_control_new\<lparr>optionPublic := True, maxAge := 3600\<rparr>"
  using cache_control_reread [of "cache_control_new\<lparr>optionMustRevalidate := True, optionPublic := True, maxAge := 3600\<rparr>"]
  by (simp add: cache_control_new_def)

section \<open>Security headers\<close>

record hsts =
  isActivated :: bool
  isPreloadEnabled :: bool
  isSubdomainIncluded :: bool
  m_maxAge :: nat

definition hsts_new :: hsts where
  "hsts_new = \<lparr>isActivated = False, isPreloadEnabled = False, isSubdomainIncluded = False, m_maxAge = 0\<rparr>"

definition hsts_toString :: "hsts \<Rightarrow> bytes" where
  "hsts_toString h =
     (if isActivated h then
        let r = (if m_maxAge h \<noteq> 0 then ''; max-age='' @ dec (m_maxAge h) else []) @
                (if isSubdomainIncluded h then ''; includeSubDomains'' else []) @
                (if isPreloadEnabled h then ''; preload'' else [])
        in if length r > 2 then drop 2 r else []
      else [])"

definition hsts_part :: "hsts \<Rightarrow> bytes \<Rightarrow> hsts" where
  "hsts_part h part =
     (if iequals part ''preload'' then h\<lparr>isPreloadEnabled := True\<rparr>
      else if iequals part ''includeSubDomains'' then h\<lparr>isSubdomainIncluded := True\<rparr>
      else if istarts_with part ''max-age='' then h\<lparr>m_maxAge := uint32 (strtoul (drop 0 part))\<rparr>
      else h)"

definition hsts_fromString :: "bytes \<Rightarrow> hsts" where
  "hsts_fromString sValue =
     (if sValue = [] then hsts_new
      else foldl hsts_part (hsts_new\<lparr>isActivated := True\<rparr>) (split_compress (any_of ''; '') sValue))"

datatype eOptsValues = NONE | DENY | SAMEORIGIN | ALLOWFROM

record xframe_opts =
  xframe_value :: eOptsValues
  allowFromURL :: bytes

definition xframe_new :: xframe_opts where
  "xframe_new = \<lparr>xframe_value = DENY, allowFromURL = []\<rparr>"

definition xframe_of :: "eOptsValues \<Rightarrow> bytes \<Rightarrow> xframe_opts result" where
  "xframe_of v url =
     (if url \<noteq> [] \<and> v \<noteq> ALLOWFROM then Inl (RuntimeError ''Using allowFromURL without ALLOWFROM'')
      else Inr \<lparr>xframe_value = v, allowFromURL = url\<rparr>)"

fun xframe_toString :: "xframe_opts \<Rightarrow> bytes" where
  "xframe_toString x =
     (case xframe_value x of
        DENY \<Rightarrow> ''DENY''
      | ALLOWFROM \<Rightarrow> ''ALLOW-FROM '' @ allowFromURL x
      | SAMEORIGIN \<Rightarrow> ''SAMEORIGIN''
      | NONE \<Rightarrow> [])"

definition xframe_fromString :: "bytes \<Rightarrow> xframe_opts \<times> bool" where
  "xframe_fromString sValue =
     (case split_compress (any_of '' '') sValue of
        [] \<Rightarrow> (xframe_new\<lparr>xframe_value := DENY\<rparr>, False)
      | p # ps \<Rightarrow>
          if iequals p ''DENY'' then (xframe_new\<lparr>xframe_value := DENY\<rparr>, True)
          else if iequals p ''SAMEORIGIN'' then (xframe_new\<lparr>xframe_value := DENY\<rparr>, True)
          else if iequals p ''ALLOW-FROM'' \<and> ps \<noteq> [] then (xframe_new\<lparr>xframe_value := DENY, allowFromURL := hd ps\<rparr>, True)
          else (xframe_new\<lparr>xframe_value := DENY\<rparr>, False))"

record xss_protection =
  xss_isActivated :: bool
  enableBlockingMode :: bool
  reportURL :: bytes

definition xss_new :: xss_protection where
  "xss_new = \<lparr>xss_isActivated = True, enableBlockingMode = True, reportURL = []\<rparr>"

definition xss_toString :: "xss_protection \<Rightarrow> bytes" where
  "xss_toString x =
     (if \<not> xss_isActivated x then ''0''
      else ''1'' @ (if enableBlockingMode x then ''; mode=block'' else []) @
           (if reportURL x \<noteq> [] then ''; report='' @ reportURL x else []))"

definition xss_part :: "xss_protection \<Rightarrow> bytes \<Rightarrow> xss_protection" where
  "xss_part x part =
     (if iequals part ''mode=block'' then x\<lparr>enableBlockingMode := True\<rparr>
      else if istarts_with part ''report='' then x\<lparr>reportURL := drop 7 part\<rparr>
      else x)"

definition xss_fromString :: "bytes \<Rightarrow> xss_protection" where
  "xss_fromString sValue =
     (case split_compress (any_of ''; '') sValue of
        [] \<Rightarrow> xss_new\<lparr>xss_isActivated := False\<rparr>
      | [p] \<Rightarrow> xss_new\<lparr>xss_isActivated := (p = ''1'')\<rparr>
      | p # ps \<Rightarrow>
          if p = ''1'' then foldl xss_part (xss_new\<lparr>xss_isActivated := True, enableBlockingMode := False\<rparr>) ps
          else xss_new\<lparr>xss_isActivated := False\<rparr>)"

definition hsts_options :: "hsts \<Rightarrow> bytes list" where
  "hsts_options h =
     (if m_maxAge h \<noteq> 0 then [''max-age='' @ dec (m_maxAge h)] else []) @
     (if isSubdomainIncluded h then [''includeSubDomains''] else []) @
     (if isPreloadEnabled h then [''preload''] else [])"

lemma hsts_toString_join: "hsts_toString h = (if isActivated h then join ''; '' (hsts_options h) else [])"
  by (simp add: hsts_toString_def hsts_options_def)

lemma hsts_options_clean: "list_all (\<lambda>p. p \<noteq> [] \<and> free_of ''; '' p) (hsts_options h)"
proof -
  have "free_of ''; '' (dec n)" for n by (rule free_of_dec) (simp add: is_digit_def)
  then show ?thesis by (simp add: hsts_options_def)
qed

lemmas upper_simps = iequals_def istarts_with_def to_upper_copy_def to_upper_def is_lower_def

lemma hsts_part_simps:
  "hsts_part h ''preload'' = h\<lparr>isPreloadEnabled := True\<rparr>"
  "hsts_part h ''includeSubDomains'' = h\<lparr>isSubdomainIncluded := True\<rparr>"
  "hsts_part h (''max-age='' @ dec n) = h\<lparr>m_maxAge := 0\<rparr>"
  by (simp_all add: hsts_part_def upper_simps strtoul_def c_str_def is_space_def is_digit_def digits_val_def size_max_def uint32_def)

lemma hsts_fold:
  "foldl hsts_part (hsts_new\<lparr>isActivated := True\<rparr>) (hsts_options h) = h\<lparr>isActivated := True, m_maxAge := 0\<rparr>"
  unfolding hsts_options_def foldl_append foldl_if hsts_part_simps
  by (cases h) (simp add: hsts_new_def)

lemma hsts_reread:
  "hsts_fromString (hsts_toString h) = (if isActivated h \<and> hsts_options h \<noteq> [] then h\<lparr>m_maxAge := 0\<rparr> else hsts_new)"
proof (cases "isActivated h \<and> hsts_options h \<noteq> []")
  case True
  then have s: "split_compress (any_of ''; '') (hsts_toString h) = hsts_options h"
    unfolding hsts_toString_join by (simp add: split_any_of_join hsts_options_clean)
  have "join ''; '' (hsts_options h) \<noteq> []"
    using True hsts_options_clean [of h] by (subst join_eq_Nil) (auto simp: list_all_iff)
  then have "hsts_toString h \<noteq> []" using True by (simp add: hsts_toString_join)
  then show ?thesis using True s hsts_fold [of h] by (simp add: hsts_fromString_def)
qed (auto simp: hsts_toString_join hsts_fromString_def)

lemma xss_part_report: "xss_part x (''report='' @ url) = x\<lparr>reportURL := url\<rparr>"
  by (simp add: xss_part_def upper_simps)

lemma xss_part_block: "xss_part x ''mode=block'' = x\<lparr>enableBlockingMode := True\<rparr>"
  by (simp add: xss_part_def)

definition xss_options :: "xss_protection \<Rightarrow> bytes list" where
  "xss_options x = (if enableBlockingMode x then [''mode=block''] else []) @ (if reportURL x \<noteq> [] then [''report='' @ reportURL x] else [])"

lemma xss_reread:
  assumes "free_of ''; '' (reportURL x)"
  shows "xss_fromString (xss_toString x)
    = (if \<not> xss_isActivated x then xss_new\<lparr>xss_isActivated := False\<rparr> else if xss_options x = [] then xss_new else x)"
proof -
  have single: "split_compress (any_of ''; '') [c] = [[c]]" if "c \<noteq> CHR '';''" "c \<noteq> CHR '' ''" for c
    using that by (intro split_compress_single) (auto simp: any_of_def)
  show ?thesis
  proof (cases "xss_isActivated x \<and> xss_options x \<noteq> []")
    case True
    then have j: "xss_toString x = join ''; '' (''1'' # xss_options x)"
      by (auto simp: xss_toString_def xss_options_def)
    have "split_compress (any_of ''; '') (xss_toString x) = ''1'' # xss_options x"
      unfolding j by (rule split_any_of_join) (use assms in \<open>auto simp: xss_options_def\<close>)
    moreover have "foldl xss_part (xss_new\<lparr>xss_isActivated := True, enableBlockingMode := False\<rparr>) (xss_options x) = x"
      using True by (cases x) (auto simp: xss_options_def xss_part_report [simplified] xss_part_block xss_new_def)
    ultimately show ?thesis using True by (cases "xss_options x") (simp_all add: xss_fromString_def)
  next
    case False
    then show ?thesis
      by (auto simp: xss_toString_def xss_fromString_def xss_options_def single xss_new_def split: if_splits)
  qed
qed

text \<open>
  What the readers of the security headers give for printed values. \<^verbatim>\<open>Strict-Transport-Security\<close>: the flags
  come back, the maximum age is always read as 0, because the number is taken from the start of the option.
  \<^verbatim>\<open>X-Frame-Options\<close>: every text is read as \<^verbatim>\<open>DENY\<close>, a printed allowed URL is kept in the other field.
  \<^verbatim>\<open>X-XSS-Protection\<close>: exact, except that a header without options is read with blocking switched on.
\<close>

theorem security_headers_reread:
  assumes "free_of ''; '' (reportURL x)"
  shows "hsts_fromString (hsts_toString h) = (if isActivated h \<and> hsts_options h \<noteq> [] then h\<lparr>m_maxAge := 0\<rparr> else hsts_new)
    \<and> xframe_value (fst (xframe_fromString s)) = DENY
    \<and> xss_fromString (xss_toString x)
        = (if \<not> xss_isActivated x then xss_new\<lparr>xss_isActivated := False\<rparr> else if xss_options x = [] then xss_new else x)"
  using hsts_reread xss_reread [OF assms] by (auto simp: xframe_fromString_def xframe_new_def split: list.split)

theorem security_headers_reread_witness:
  "hsts_fromString (hsts_toString \<lparr>isActivated = True, isPreloadEnabled = True, isSubdomainIncluded = False, m_maxAge = 31536000\<rparr>)
      = \<lparr>isActivated = True, isPreloadEnabled = True, isSubdomainIncluded = False, m_maxAge = 0\<rparr>
    \<and> xframe_value (fst (xframe_fromString ''SAMEORIGIN'')) = DENY
    \<and> xss_fromString (xss_toString \<lparr>xss_isActivated = True, enableBlockingMode = False, reportURL = ''/r''\<rparr>)
        = \<lparr>xss_isActivated = True, enableBlockingMode = False, reportURL = ''/r''\<rparr>"
  using security_headers_reread
    [of "\<lparr>xss_isActivated = True, enableBlockingMode = False, reportURL = ''/r''\<rparr>"
        "\<lparr>isActivated = True, isPreloadEnabled = True, isSubdomainIncluded = False, m_maxAge = 31536000\<rparr>" "''SAMEORIGIN''"]
  by (simp add: hsts_options_def xss_options_def)

end
