(* ===== verification/URLVars.thy ===== *)
theory URLVars
  imports Parser URLStream HTTPHeaders JSON
begin

text \<open>
  Variables of a query or form (\<^verbatim>\<open>src/Mantids30/Protocol_HTTP/common_urlvars.cpp\<close>, \<^verbatim>\<open>common_urlvar_subparser.cpp\<close>) and the
  abstract container of variables (\<^verbatim>\<open>src/Mantids30/Memory/vars.cpp\<close>): a streaming parser with one multi-delimiter sub-parser
  that reads names and values in turn, decodes them through the URL stream decoder and keeps them in a multimap.
\<close>

section \<open>The sub-parser of one name or value\<close>

record 'y urlvar_subparser = "'y subparser" +
  m_pData :: "'y chunks"

definition urlvar_setVarType :: "'y urlvar_subparser \<Rightarrow> bool \<Rightarrow> 'y urlvar_subparser" where
  "urlvar_setVarType s varName =
     (if varName then setParseMultiDelimiter s [''='', ''&''] else setParseMultiDelimiter s [''&''])"

definition urlvar_setMaxObjectSize :: "'y urlvar_subparser \<Rightarrow> nat \<Rightarrow> 'y urlvar_subparser" where
  "urlvar_setMaxObjectSize s sz = setParseDataTargetSize s (uint32 sz)"

definition urlvar_subparser_new :: "'y chunks_vt \<Rightarrow> 'y urlvar_subparser" where
  "urlvar_subparser_new cvt =
     (let s0 = subparser.extend (subparser_init cvt) \<lparr>m_pData = chunks_new\<rparr>;
          s1 = setParseMode s0 PARSE_MODE_MULTIDELIMITER;
          s2 = setParseMultiDelimiter s1 [''='', ''&''];
          s3 = urlvar_setMaxObjectSize s2 4096
      in s3\<lparr>m_pData := chunks_new, m_subParserName := ''URLVarContent''\<rparr>)"

definition flushRetrievedContentAsBC :: "'y urlvar_subparser \<Rightarrow> 'y urlvar_subparser \<times> 'y chunks" where
  "flushRetrievedContentAsBC s = (s\<lparr>m_pData := chunks_new\<rparr>, m_pData s)"

definition flushRetrievedContentAsString :: "'y chunks_vt \<Rightarrow> 'y urlvar_subparser \<Rightarrow> 'y urlvar_subparser \<times> bytes" where
  "flushRetrievedContentAsString cvt s =
     (s\<lparr>m_pData := chunks_new\<rparr>, case b_toString cvt (m_pData s) size_max 0 of Some r \<Rightarrow> r | None \<Rightarrow> [])"

definition urlvar_parse :: "'y chunks_vt \<Rightarrow> 'y urlvar_subparser \<Rightarrow> ('y urlvar_subparser \<times> ParseStatus) result" where
  "urlvar_parse cvt s =
     (let s1 = s\<lparr>m_pData := fst (b_clear cvt (m_pData s))\<rparr>
      in if vt_size (ref_vt cvt) (getParsedBuffer s1) = 0 then Inr (s1, PARSE_GET_MORE_DATA)
         else
           case transform (url_decoder_streamable (b_streamable cvt)) url_decoder_new (ref_vt cvt) (getParsedBuffer s1) (m_pData s1) of
             Inl e \<Rightarrow> Inl e
           | Inr (_, pData) \<Rightarrow>
               if \<not> succeed (writeStatus pData)
               then Inr (s1\<lparr>m_pData := fst (b_clear cvt pData)\<rparr>, PARSE_ERROR)
               else Inr (s1\<lparr>m_pData := pData\<rparr>, PARSE_GOTO_NEXT_SUBPARSER))"

section \<open>The variables\<close>

datatype eHTTP_URLVarStat = URLV_STAT_WAITING_NAME | URLV_STAT_WAITING_CONTENT

record 'y urlvars =
  m_currentStat :: eHTTP_URLVarStat
  m_currentVarName :: bytes
  m_vars :: "(bytes \<times> 'y chunks) list"
  m_urlVarParser :: "'y urlvar_subparser"
  m_maxVarNameSize :: nat
  m_maxVarContentSize :: nat

definition iSetMaxVarContentSize :: "'y urlvars \<Rightarrow> 'y urlvars" where
  "iSetMaxVarContentSize v =
     (if m_currentStat v = URLV_STAT_WAITING_CONTENT
      then v\<lparr>m_urlVarParser := urlvar_setMaxObjectSize (m_urlVarParser v) (m_maxVarContentSize v)\<rparr> else v)"

definition iSetMaxVarNameSize :: "'y urlvars \<Rightarrow> 'y urlvars" where
  "iSetMaxVarNameSize v =
     (if m_currentStat v = URLV_STAT_WAITING_NAME
      then v\<lparr>m_urlVarParser := urlvar_setMaxObjectSize (m_urlVarParser v) (m_maxVarNameSize v)\<rparr> else v)"

definition setMaxVarNameSize :: "'y urlvars \<Rightarrow> nat \<Rightarrow> 'y urlvars" where
  "setMaxVarNameSize v value = iSetMaxVarNameSize (v\<lparr>m_maxVarNameSize := uint32 value\<rparr>)"

definition setMaxVarContentSize :: "'y urlvars \<Rightarrow> nat \<Rightarrow> 'y urlvars" where
  "setMaxVarContentSize v value = iSetMaxVarContentSize (v\<lparr>m_maxVarContentSize := value\<rparr>)"

text \<open>The constructor of \<^verbatim>\<open>Vars\<close> sets the limits that the one of \<^verbatim>\<open>URLVars\<close> then changes.\<close>

definition urlvars_new :: "'y chunks_vt \<Rightarrow> 'y urlvars" where
  "urlvars_new cvt =
     (let v0 = \<lparr>m_currentStat = URLV_STAT_WAITING_NAME, m_currentVarName = [], m_vars = [],
                m_urlVarParser = urlvar_subparser_new cvt, m_maxVarNameSize = 256, m_maxVarContentSize = 128 * 1024\<rparr>;
          v1 = v0\<lparr>m_urlVarParser := urlvar_setVarType (m_urlVarParser v0) True\<rparr>
      in setMaxVarContentSize (setMaxVarNameSize v1 4096) 4096)"

definition addVar :: "'y urlvars \<Rightarrow> bytes \<Rightarrow> 'y chunks \<Rightarrow> 'y urlvars \<times> bool" where
  "addVar v varName data =
     (if varName \<noteq> [] then (v\<lparr>m_vars := mm_insert (to_upper_copy varName) data (m_vars v)\<rparr>, True) else (v, False))"

definition vars_clear :: "'y urlvars \<Rightarrow> 'y urlvars" where
  "vars_clear v = v\<lparr>m_vars := []\<rparr>"

definition vars_isEmpty :: "'y urlvars \<Rightarrow> bool" where
  "vars_isEmpty v \<longleftrightarrow> m_vars v = []"

definition urlvars_changeToNextParser :: "'y chunks_vt \<Rightarrow> 'y urlvars \<Rightarrow> ('y urlvars \<times> bool) result" where
  "urlvars_changeToNextParser cvt v =
     (case m_currentStat v of
        URLV_STAT_WAITING_NAME \<Rightarrow>
          (let r = flushRetrievedContentAsString cvt (m_urlVarParser v);
               v1 = v\<lparr>m_urlVarParser := fst r, m_currentVarName := snd r\<rparr>
           in if m_delimiterFound (m_urlVarParser v1) = ''&'' \<or> m_streamEnded (m_urlVarParser v1) then
                let f = flushRetrievedContentAsBC (m_urlVarParser v1)
                in Inr (fst (addVar (v1\<lparr>m_urlVarParser := fst f\<rparr>) (m_currentVarName v1) (snd f)), True)
              else
                Inr (v1\<lparr>m_currentStat := URLV_STAT_WAITING_CONTENT,
                        m_urlVarParser := urlvar_setMaxObjectSize (urlvar_setVarType (m_urlVarParser v1) False) (m_maxVarContentSize v1)\<rparr>, True))
      | URLV_STAT_WAITING_CONTENT \<Rightarrow>
          (let f = flushRetrievedContentAsBC (m_urlVarParser v);
               v1 = fst (addVar (v\<lparr>m_urlVarParser := fst f\<rparr>) (m_currentVarName v) (snd f))
           in Inr (v1\<lparr>m_currentStat := URLV_STAT_WAITING_NAME,
                      m_urlVarParser := urlvar_setMaxObjectSize (urlvar_setVarType (m_urlVarParser v1) True) (m_maxVarNameSize v1)\<rparr>, True)))"

definition urlvars_vt :: "'y chunks_vt \<Rightarrow> (nat \<Rightarrow> bytes) \<Rightarrow> 'y urlvars parser_vt" where
  "urlvars_vt cvt heap =
     \<lparr>pv_current = (\<lambda>_. True),
      pv_setStatus = (\<lambda>v st. v\<lparr>m_urlVarParser := setParseStatus (m_urlVarParser v) st\<rparr>),
      pv_getStatus = (\<lambda>v. m_parseStatus (m_urlVarParser v)),
      pv_write = (\<lambda>v buf.
        case writeIntoParser cvt heap (urlvar_parse cvt) (m_urlVarParser v) buf of
          Inl e \<Rightarrow> Inl e | Inr (s, r) \<Rightarrow> Inr (v\<lparr>m_urlVarParser := s\<rparr>, r)),
      pv_changeToNextParser = urlvars_changeToNextParser cvt,
      pv_initProtocol = (\<lambda>v. (v, True)),
      pv_endProtocol = id\<rparr>"

text \<open>\<^verbatim>\<open>URLVars::create\<close>: a parser whose protocol is initialised at once.\<close>

definition urlvars_create :: "'y chunks_vt \<Rightarrow> 'y urlvars parser" where
  "urlvars_create cvt =
     (let v = urlvars_new cvt
      in (parser_new (v\<lparr>m_urlVarParser := initElemParser (m_urlVarParser v) False\<rparr>))\<lparr>m_initialized := True\<rparr>)"

section \<open>Reading the variables\<close>

text \<open>
  The loops of \<^verbatim>\<open>varCount\<close> and \<^verbatim>\<open>getValues\<close> never advance their iterator: \<open>None\<close> is a loop that does not end. \<open>ne\<close> says
  that the iterator differs from the end of the range.
\<close>

partial_function (option) varCount_loop :: "bool \<Rightarrow> nat \<Rightarrow> nat option" where
  "varCount_loop ne i = (if ne then varCount_loop ne (uint32 (i + 1)) else Some i)"

definition varCount :: "'y urlvars \<Rightarrow> bytes \<Rightarrow> nat option" where
  "varCount v varName = varCount_loop (mm_range (to_upper_copy varName) (m_vars v) \<noteq> []) 0"

partial_function (option) getValues_loop :: "'a list \<Rightarrow> 'a list \<Rightarrow> 'a list option" where
  "getValues_loop rng r = (case rng of [] \<Rightarrow> Some r | x # _ \<Rightarrow> getValues_loop rng (r @ [x]))"

definition getValues :: "'y urlvars \<Rightarrow> bytes \<Rightarrow> 'y chunks list option" where
  "getValues v varName = getValues_loop (mm_range (to_upper_copy varName) (m_vars v)) []"

definition getValue :: "'y urlvars \<Rightarrow> bytes \<Rightarrow> 'y chunks option" where
  "getValue v varName = (case mm_range (to_upper_copy varName) (m_vars v) of [] \<Rightarrow> None | x # _ \<Rightarrow> Some x)"

definition vars_exist :: "'y urlvars \<Rightarrow> bytes \<Rightarrow> bool" where
  "vars_exist v varName \<longleftrightarrow> getValue v varName \<noteq> None"

definition getKeysList :: "'y urlvars \<Rightarrow> bytes set" where
  "getKeysList v = fst ` set (m_vars v)"

section \<open>Printing the variables\<close>

text \<open>The status check after every part of \<^verbatim>\<open>streamTo\<close>.\<close>

definition then_ok :: "'o streamable \<Rightarrow> 'o result \<Rightarrow> ('o \<Rightarrow> ('o \<times> bool) result) \<Rightarrow> ('o \<times> bool) result" where
  "then_ok io r k = (case r of Inl e \<Rightarrow> Inl e | Inr out \<Rightarrow> if \<not> succeed (so_status io out) then Inr (out, False) else k out)"

definition write_text :: "'o streamable \<Rightarrow> bytes \<Rightarrow> 'o \<Rightarrow> 'o result" where
  "write_text io s out = map_sum id fst (writeString io out s)"

definition encode_into :: "'y chunks_vt \<Rightarrow> 'o streamable \<Rightarrow> 'y chunks \<Rightarrow> 'o \<Rightarrow> 'o result" where
  "encode_into cvt io src out = map_sum id snd (transform (url_encoder_streamable io) () cvt src out)"

fun urlvars_stream_loop :: "'y chunks_vt \<Rightarrow> 'o streamable \<Rightarrow> bool \<Rightarrow> (bytes \<times> 'y chunks) list \<Rightarrow> 'o \<Rightarrow> ('o \<times> bool) result" where
  "urlvars_stream_loop cvt io firstVar [] out = Inr (out, True)"
| "urlvars_stream_loop cvt io firstVar (i # vars) out =
     (let pair = (\<lambda>out. then_ok io (encode_into cvt io (fst (b_append cvt chunks_new (fst i))) out)
            (\<lambda>out. if vt_size cvt (snd i) \<noteq> 0 then
                then_ok io (write_text io ''='' out) (\<lambda>out. then_ok io (encode_into cvt io (snd i) out)
                  (\<lambda>out. urlvars_stream_loop cvt io False vars out))
              else urlvars_stream_loop cvt io False vars out))
      in if firstVar then pair out else then_ok io (write_text io ''&'' out) pair)"

definition urlvars_streamTo :: "'y chunks_vt \<Rightarrow> 'o streamable \<Rightarrow> 'y urlvars \<Rightarrow> 'o \<Rightarrow> ('o \<times> bool) result" where
  "urlvars_streamTo cvt io v out = urlvars_stream_loop cvt io True (m_vars v) out"

text \<open>\<^verbatim>\<open>StreamableNull\<close> counts what is written into it; \<^verbatim>\<open>URLVars::size\<close> prints into one.\<close>

record streamable_null =
  null_status :: WriteStatus
  null_bytes :: nat

definition null_write :: "streamable_null \<Rightarrow> bytes \<Rightarrow> (streamable_null \<times> nat option) result" where
  "null_write n buf =
     (case ws_add (null_status n) (to_ssize (length buf)) of
        Inl e \<Rightarrow> Inl e
      | Inr ws \<Rightarrow>
          (case safeAdd_size (null_bytes n) (length buf) of
             Inl e \<Rightarrow> Inl e | Inr b \<Rightarrow> Inr (n\<lparr>null_status := ws, null_bytes := b\<rparr>, Some (length buf))))"

definition null_streamable :: "streamable_null streamable" where
  "null_streamable = \<lparr>so_write = null_write, so_status = null_status, so_set_status = (\<lambda>ws n. n\<lparr>null_status := ws\<rparr>)\<rparr>"

definition urlvars_size :: "'y chunks_vt \<Rightarrow> 'y urlvars \<Rightarrow> nat result" where
  "urlvars_size cvt v =
     (case urlvars_streamTo cvt null_streamable v \<lparr>null_status = ws_init, null_bytes = 0\<rparr> of
        Inl e \<Rightarrow> Inl e
      | Inr (n, _) \<Rightarrow> if succeed (null_status n) then Inr (bytesWritten (null_status n)) else Inr 0)"

section \<open>Loops that do not end\<close>

lemma varCount_loop_returns: "varCount_loop ne i = Some n \<Longrightarrow> \<not> ne \<and> n = i"
  by (rule varCount_loop.raw_induct [of "\<lambda>ne i n. \<not> ne \<and> n = i"]) (auto split: if_splits)

lemma getValues_loop_returns: "getValues_loop rng r = Some vs \<Longrightarrow> rng = [] \<and> vs = r"
  by (rule getValues_loop.raw_induct [of "\<lambda>rng r vs. rng = [] \<and> vs = r"]) (auto split: list.splits)

lemma varCount_eq: "varCount v n = (if mm_range (to_upper_copy n) (m_vars v) = [] then Some 0 else None)"
proof (cases "mm_range (to_upper_copy n) (m_vars v) = []")
  case True
  then show ?thesis by (simp add: varCount_def varCount_loop.simps)
next
  case False
  then show ?thesis using varCount_loop_returns [of True 0] by (cases "varCount_loop True 0") (auto simp: varCount_def)
qed

lemma getValues_eq: "getValues v n = (if mm_range (to_upper_copy n) (m_vars v) = [] then Some [] else None)"
proof (cases "mm_range (to_upper_copy n) (m_vars v) = []")
  case True
  then show ?thesis by (simp add: getValues_def getValues_loop.simps)
next
  case False
  then show ?thesis
    using getValues_loop_returns [of "mm_range (to_upper_copy n) (m_vars v)" "[]"]
    by (cases "getValues_loop (mm_range (to_upper_copy n) (m_vars v)) []") (auto simp: getValues_def)
qed

text \<open>
  \<^verbatim>\<open>varCount\<close> and \<^verbatim>\<open>getValues\<close> return exactly for names that no variable has, and never for a variable that exists, that
  is, whenever \<^verbatim>\<open>exist\<close> says so; after \<^verbatim>\<open>addVar\<close> of a variable both hang on its name in any letter case.
\<close>

theorem urlvars_count_terminates_iff:
  "(varCount v n \<noteq> None) = (\<not> vars_exist v n) \<and> (getValues v n \<noteq> None) = (\<not> vars_exist v n)
    \<and> varCount (fst (addVar v (c # cs) d)) (c # cs) = None \<and> getValues (fst (addVar v (c # cs) d)) (c # cs) = None"
proof -
  have "mm_range k (mm_insert k d ms) \<noteq> []" for k and d :: "'a chunks" and ms
    by (simp add: mm_range_def filter_empty_conv)
  then show ?thesis
    by (auto simp: varCount_eq getValues_eq vars_exist_def getValue_def addVar_def split: list.splits)
qed

section \<open>One name or value\<close>

lemma urlvar_parse_keeps_found: "keeps_found (urlvar_parse cvt)"
  by (auto simp: keeps_found_def urlvar_parse_def Let_def split: sum.splits if_splits)

text \<open>The container for decoded bytes before use, and the sub-parser between writes: delimiters, collected bytes, end of stream.\<close>

definition fresh_data :: "'y chunks \<Rightarrow> bool" where
  "fresh_data d \<longleftrightarrow> chunks_roomy d 262144 \<and> chunks_content d = []"

definition uv_sub :: "bytes list \<Rightarrow> bytes \<Rightarrow> bool \<Rightarrow> 'y urlvar_subparser \<Rightarrow> bool" where
  "uv_sub ds w ended s \<longleftrightarrow> sp_ok (m_unparsedBuffer s) \<and> m_parseMode s = PARSE_MODE_MULTIDELIMITER
     \<and> m_parseMultiDelimiter s = ds \<and> m_maxSize (m_unparsedBuffer s) = 4096 \<and> sp_content s = w \<and> m_streamEnded s = ended"

definition uv_decoded :: "bytes \<Rightarrow> bytes" where
  "uv_decoded x = snd (dec_run [] x)"

text \<open>What an element \<open>x\<close> that ended with the delimiter \<open>dl\<close> leaves behind.\<close>

definition uv_result :: "bytes \<Rightarrow> bytes \<Rightarrow> 'y urlvar_subparser \<Rightarrow> bool" where
  "uv_result dl x s \<longleftrightarrow> m_delimiterFound s = dl
     \<and> (if x = [] then fresh_data (m_pData s) \<and> m_parseStatus s = PARSE_GET_MORE_DATA
        else chunks_inv (m_pData s) \<and> chunks_content (m_pData s) = uv_decoded x \<and> m_parseStatus s = PARSE_GOTO_NEXT_SUBPARSER)"

lemma fresh_new: "fresh_data chunks_new"
  using chunks_new_roomy [of 262144] chunks_new_inv(2) by (simp add: fresh_data_def)

lemma fresh_clear: "fresh_data d \<Longrightarrow> fresh_data (fst (b_clear (chunks_vt mvt fs) d))"
  using b_clear_chunks [of mvt fs d]
  by (auto simp: fresh_data_def chunks_roomy_conv b_clear_def b_clear0_def chunks_vt_def chunks_clear2_def chunks_clearChunks_def)

lemma length_uv_decoded: "length (uv_decoded x) \<le> length x"
  using dec_run_size [of "[]" x] by (simp add: uv_decoded_def)

lemma urlvar_parse_element:
  assumes "sp_ok u" and "fresh_data (m_pData s)" and "length (chunks_content u) \<le> 4096" and "x = take p (chunks_content u)"
  shows "\<exists>d. urlvar_parse (chunks_vt mvt fs) (sp_reference (chunks_vt mvt fs) (sp_found (chunks_vt mvt fs) s u dl) 0 p)
      = Inr ((sp_reference (chunks_vt mvt fs) (sp_found (chunks_vt mvt fs) s u dl) 0 p)\<lparr>m_pData := d\<rparr>,
             if x = [] then PARSE_GET_MORE_DATA else PARSE_GOTO_NEXT_SUBPARSER)
    \<and> (if x = [] then fresh_data d else chunks_inv d \<and> chunks_content d = uv_decoded x)"
proof -
  let ?cvt = "chunks_vt mvt fs"
  let ?s1 = "sp_reference ?cvt (sp_found ?cvt s u dl) 0 p"
  let ?d0 = "fst (b_clear ?cvt (m_pData s))"
  let ?r = "getParsedBuffer (?s1\<lparr>m_pData := ?d0\<rparr>)"
  have data: "m_pData ?s1 = m_pData s" by (simp add: sp_reference_def sp_found_def)
  have fresh: "fresh_data ?d0" using fresh_clear [OF assms(2)] .
  have r: "ref_inv chunks_content chunks_inv ?r" "referencedBC ?r = Some u" "referencedOffset ?r = 0" "ref_content chunks_content ?r = x"
    using assms(1,4) by (simp_all add: sp_ok_def getParsedBuffer_def sp_reference_def sp_found_def ref_reference_def ref_inv_def ref_content_def)
  have size: "vt_size (ref_vt ?cvt) ?r = length x" using bref.size_content [OF r(1)] r(4) by simp
  show ?thesis
  proof (cases "x = []")
    case True
    then show ?thesis using size fresh by (auto simp: urlvar_parse_def data Let_def)
  next
    case False
    then obtain pieces where p: "b_appendPlan (ref_vt ?cvt) ?r size_max 0 = PlanWrite pieces" "concat pieces = x" "[] \<notin> set pieces"
      using b_appendPlan_ref [OF r(1-3)] r(4) by metis
    have len: "length x \<le> 4096" using assms(3,4) by simp
    have "decoder_ok url_decoder_new" "pending url_decoder_new = []" by (simp_all add: decoder_ok_def url_decoder_new_def pending_def)
    moreover have "chunks_roomy ?d0 262144" "chunks_content ?d0 = []" using fresh by (simp_all add: fresh_data_def)
    ultimately obtain dd d where t: "transform (url_decoder_streamable (b_streamable ?cvt)) url_decoder_new (ref_vt ?cvt) ?r ?d0 = Inr (dd, d)"
      "chunks_content d = uv_decoded x" "chunks_roomy d (262144 - length (uv_decoded x))"
      using chunk_sink.decoding.transform_ok [OF p(1,3), of url_decoder_new ?d0 262144 mvt fs] p(2) len length_uv_decoded [of x]
      by (auto simp: size_max_def uv_decoded_def)
    then have "chunks_inv d" "succeed (writeStatus d)" by (simp_all add: chunks_roomy_conv)
    then show ?thesis using False size t(1,2) by (auto simp: urlvar_parse_def data Let_def)
  qed
qed

lemma uv_element_result:
  assumes "uv_sub ds w e s" and "fresh_data (m_pData s)" and "sp_ok u" and "chunks_content u = y" and "m_maxSize u = 4096"
    and "x = take p y"
  shows "\<exists>s'. sp_element (chunks_vt mvt fs) (urlvar_parse (chunks_vt mvt fs))
        (sp_reference (chunks_vt mvt fs) (sp_found (chunks_vt mvt fs) s u dl) 0 p) n = Inr (s', Some n)
    \<and> uv_sub ds [] e s' \<and> uv_result dl x s'"
proof -
  let ?cvt = "chunks_vt mvt fs"
  have "length y \<le> 4096" using assms(3-5) by (auto simp: sp_ok_def)
  then obtain d where d: "urlvar_parse ?cvt (sp_reference ?cvt (sp_found ?cvt s u dl) 0 p)
      = Inr ((sp_reference ?cvt (sp_found ?cvt s u dl) 0 p)\<lparr>m_pData := d\<rparr>, if x = [] then PARSE_GET_MORE_DATA else PARSE_GOTO_NEXT_SUBPARSER)"
    "if x = [] then fresh_data d else chunks_inv d \<and> chunks_content d = uv_decoded x"
    using urlvar_parse_element [OF assms(3,2), where x = x and p = p] assms(4,6) by blast
  show ?thesis
    using assms(1,3,5) d sp_ok_clear [OF assms(3), of mvt fs]
    by (auto simp: sp_element_def sp_parse_def uv_sub_def uv_result_def sp_clearUnparsed_def setParseStatus_def sp_reference_def)
qed

text \<open>One write into the sub-parser.\<close>

lemma uv_write:
  assumes "uv_sub ds w e s" and "fresh_data (m_pData s)" and "ds = [''='', ''&''] \<or> ds = [''&'']" and "look_any ds w = None"
    and "length w < 4096 \<or> buf = []"
  defines "y \<equiv> w @ take (4096 - length w) buf" and "e' \<equiv> e \<or> buf = []"
  shows "\<exists>s'. case look_any ds y of
      Some (p, dl) \<Rightarrow> writeIntoParser (chunks_vt mvt fs) heap (urlvar_parse (chunks_vt mvt fs)) s buf = Inr (s', Some (p + length dl - length w))
        \<and> uv_sub ds [] e' s' \<and> uv_result dl (take p y) s'
    | None \<Rightarrow> writeIntoParser (chunks_vt mvt fs) heap (urlvar_parse (chunks_vt mvt fs)) s buf = Inr (s', Some (length y - length w))
        \<and> (if e' then uv_sub ds [] e' s' \<and> uv_result [] y s'
           else uv_sub ds y e' s' \<and> fresh_data (m_pData s') \<and> m_parseStatus s' = m_parseStatus s)"
proof -
  let ?cvt = "chunks_vt mvt fs"
  define s0 where "s0 = (if length buf = 0 then s\<lparr>m_streamEnded := True\<rparr> else s)"
  have s0: "uv_sub ds w e' s0" "fresh_data (m_pData s0)" "m_parseStatus s0 = m_parseStatus s" using assms(1,2) by (auto simp: uv_sub_def s0_def e'_def)
  have w: "writeIntoParser ?cvt heap (urlvar_parse ?cvt) s buf = parseByMultiDelimiter ?cvt (urlvar_parse ?cvt) s0 buf"
    using assms(1) by (simp add: writeIntoParser_def s0_def uv_sub_def)
  note f = s0(1) [unfolded uv_sub_def]
  have ds: "\<forall>d\<in>set (m_parseMultiDelimiter s0). d \<noteq> [] \<and> length d < 2 ^ 32" using f assms(3) by auto
  define k where "k = min (length buf) (4096 - length w)"
  have y: "w @ take k buf = y" "length y - length w = k" by (simp_all add: k_def y_def min_def)
  obtain u where u: "sp_ok u" "chunks_content u = y" "m_maxSize u = 4096"
    "parseByMultiDelimiter ?cvt (urlvar_parse ?cvt) s0 buf =
      (case look_any ds y of
         Some (p, dl) \<Rightarrow> sp_element ?cvt (urlvar_parse ?cvt) (sp_reference ?cvt (sp_found ?cvt s0 u dl) 0 p) (p + length dl - length w)
       | None \<Rightarrow>
           if e' then sp_element ?cvt (urlvar_parse ?cvt) (sp_reference ?cvt (sp_found ?cvt s0 u []) 0 size_max) k
           else Inr (sp_found ?cvt s0 u [], Some k))"
    by (rule parseByMultiDelimiter_collected [OF _ ds urlvar_parse_keeps_found, of buf k mvt fs ?cvt])
      (use f assms(4,5) in \<open>auto simp: k_def y [symmetric]\<close>)
  have "length y \<le> 4096" using u(1-3) by (auto simp: sp_ok_def)
  then have all: "take size_max y = y" by (simp add: size_max_def)
  show ?thesis
  proof (cases "look_any ds y")
    case None
    show ?thesis
    proof (cases e')
      case True
      then show ?thesis using uv_element_result [OF s0(1,2) u(1-3) all [symmetric], of mvt fs "[]" k] w u(4) None y(2) by auto
    next
      case False
      have "uv_sub ds y e' (sp_found ?cvt s0 u [])" "m_pData (sp_found ?cvt s0 u []) = m_pData s0"
        using f u by (simp_all add: uv_sub_def) (simp add: sp_found_def sp_reference_def)
      then show ?thesis using w u(4) None False y(2) s0(2,3) by (intro exI [of _ "sp_found ?cvt s0 u []"]) simp
    qed
  next
    case (Some pd)
    obtain p dl where "pd = (p, dl)" by (cases pd)
    then show ?thesis using uv_element_result [OF s0(1,2) u(1-3) refl, of mvt fs dl p "p + length dl - length w"] w u(4) Some by auto
  qed
qed

section \<open>Names and values\<close>

fun uv_delims :: "eHTTP_URLVarStat \<Rightarrow> bytes list" where
  "uv_delims URLV_STAT_WAITING_NAME = [''='', ''&'']"
| "uv_delims URLV_STAT_WAITING_CONTENT = [''&'']"

definition uv_entry :: "bytes \<times> 'y chunks \<Rightarrow> bytes \<times> bytes" where
  "uv_entry i = (fst i, chunks_content (snd i))"

definition vars_view :: "'y urlvars \<Rightarrow> (bytes \<times> bytes) list" where
  "vars_view v = map uv_entry (m_vars v)"

text \<open>The variables between rounds: what is awaited, the name read last, the variables stored, and the bytes collected.\<close>

definition uv_state :: "eHTTP_URLVarStat \<Rightarrow> bytes \<Rightarrow> (bytes \<times> bytes) list \<Rightarrow> bytes \<Rightarrow> bool \<Rightarrow> 'y urlvars \<Rightarrow> bool" where
  "uv_state st name vs w e v \<longleftrightarrow> m_currentStat v = st \<and> (st = URLV_STAT_WAITING_CONTENT \<longrightarrow> m_currentVarName v = name) \<and> vars_view v = vs
     \<and> uv_sub (uv_delims st) w e (m_urlVarParser v) \<and> fresh_data (m_pData (m_urlVarParser v))
     \<and> m_maxVarNameSize v = 4096 \<and> m_maxVarContentSize v = 4096"

definition uv_insert :: "bytes \<Rightarrow> bytes \<Rightarrow> (bytes \<times> bytes) list \<Rightarrow> (bytes \<times> bytes) list" where
  "uv_insert name x vs = mm_insert (to_upper_copy name) x vs"

lemma map_mm_insert: "map uv_entry (mm_insert k v ms) = mm_insert k (chunks_content v) (map uv_entry ms)"
  by (induction ms) (auto simp: uv_entry_def)

lemma addVar_view: "name \<noteq> [] \<Longrightarrow> vars_view (fst (addVar v name d)) = uv_insert name (chunks_content d) (vars_view v)"
  by (simp add: addVar_def vars_view_def uv_insert_def map_mm_insert)

lemma addVar_keeps [simp]:
  "m_currentStat (fst (addVar v n d)) = m_currentStat v" "m_urlVarParser (fst (addVar v n d)) = m_urlVarParser v"
  "m_maxVarNameSize (fst (addVar v n d)) = m_maxVarNameSize v" "m_maxVarContentSize (fst (addVar v n d)) = m_maxVarContentSize v"
  "m_currentVarName (fst (addVar v n d)) = m_currentVarName v"
  by (simp_all add: addVar_def)

lemma vars_view_update [simp]:
  "vars_view (v\<lparr>m_urlVarParser := s\<rparr>) = vars_view v" "vars_view (v\<lparr>m_currentVarName := n\<rparr>) = vars_view v"
  "vars_view (v\<lparr>m_currentStat := st\<rparr>) = vars_view v"
  by (simp_all add: vars_view_def)

lemma uv_sub_next:
  assumes "uv_sub ds [] e s"
  shows "uv_sub [''='', ''&''] [] e (urlvar_setMaxObjectSize (urlvar_setVarType (s\<lparr>m_pData := d\<rparr>) True) 4096)"
    and "uv_sub [''&''] [] e (urlvar_setMaxObjectSize (urlvar_setVarType (s\<lparr>m_pData := d\<rparr>) False) 4096)"
  using assms by (simp_all add: uv_sub_def urlvar_setMaxObjectSize_def urlvar_setVarType_def setParseMultiDelimiter_def
      setParseDataTargetSize_def b_setMaxSize_def uint32_def sp_ok_def chunks_inv_def chunks_data_inv_def chunks_content_def)

lemma urlvar_set_keeps [simp]:
  "m_pData (urlvar_setMaxObjectSize s n) = m_pData s" "m_pData (urlvar_setVarType s b) = m_pData s"
  by (simp_all add: urlvar_setMaxObjectSize_def urlvar_setVarType_def setParseMultiDelimiter_def setParseDataTargetSize_def)

text \<open>What \<^verbatim>\<open>changeToNextParser\<close> does after an element.\<close>

lemma change_after_name:
  assumes "uv_state URLV_STAT_WAITING_NAME name0 vs w e0 v" and "uv_sub [''='', ''&''] [] e s'" and "uv_result dl x s'" and "x \<noteq> []"
  shows "dl \<noteq> ''&'' \<and> \<not> e \<Longrightarrow> \<exists>v'. urlvars_changeToNextParser (chunks_vt mvt fs) (v\<lparr>m_urlVarParser := s'\<rparr>) = Inr (v', True)
      \<and> uv_state URLV_STAT_WAITING_CONTENT (uv_decoded x) vs [] e v'"
    and "dl = ''&'' \<or> e \<Longrightarrow> uv_decoded x \<noteq> [] \<Longrightarrow> \<exists>v'. urlvars_changeToNextParser (chunks_vt mvt fs) (v\<lparr>m_urlVarParser := s'\<rparr>) = Inr (v', True)
      \<and> uv_state URLV_STAT_WAITING_NAME [] (uv_insert (uv_decoded x) [] vs) [] e v'"
proof -
  have r: "m_delimiterFound s' = dl" "m_streamEnded s' = e" "b_toString (chunks_vt mvt fs) (m_pData s') size_max 0 = Some (uv_decoded x)"
    using assms(2-4) bchunks.toString_all [of "m_pData s'" mvt fs] by (auto simp: uv_result_def uv_sub_def)
  note defs = urlvars_changeToNextParser_def flushRetrievedContentAsString_def flushRetrievedContentAsBC_def Let_def
  show "dl \<noteq> ''&'' \<and> \<not> e \<Longrightarrow> \<exists>v'. urlvars_changeToNextParser (chunks_vt mvt fs) (v\<lparr>m_urlVarParser := s'\<rparr>) = Inr (v', True)
      \<and> uv_state URLV_STAT_WAITING_CONTENT (uv_decoded x) vs [] e v'"
    using assms(1) r uv_sub_next(2) [OF assms(2), of chunks_new] fresh_new by (simp add: defs uv_state_def)
  have "uv_sub [''='', ''&''] [] e (s'\<lparr>m_pData := chunks_new\<rparr>)" using assms(2) by (simp add: uv_sub_def)
  then show "dl = ''&'' \<or> e \<Longrightarrow> uv_decoded x \<noteq> [] \<Longrightarrow> \<exists>v'. urlvars_changeToNextParser (chunks_vt mvt fs) (v\<lparr>m_urlVarParser := s'\<rparr>) = Inr (v', True)
      \<and> uv_state URLV_STAT_WAITING_NAME [] (uv_insert (uv_decoded x) [] vs) [] e v'"
    using assms(1) r fresh_new by (auto simp: defs uv_state_def addVar_view chunks_new_inv)
qed

lemma change_after_value:
  assumes "uv_state URLV_STAT_WAITING_CONTENT name vs w e0 v" and "uv_sub [''&''] [] e s'" and "uv_result dl x s'" and "x \<noteq> []" and "name \<noteq> []"
  shows "\<exists>v'. urlvars_changeToNextParser (chunks_vt mvt fs) (v\<lparr>m_urlVarParser := s'\<rparr>) = Inr (v', True)
      \<and> uv_state URLV_STAT_WAITING_NAME [] (uv_insert name (uv_decoded x) vs) [] e v'"
  using assms uv_sub_next(1) [OF assms(2), of chunks_new] fresh_new
  by (simp add: urlvars_changeToNextParser_def flushRetrievedContentAsBC_def Let_def uv_state_def uv_result_def addVar_view)

text \<open>One round of the parser, given what \<^verbatim>\<open>changeToNextParser\<close> does with the element.\<close>

lemma uv_round:
  assumes st: "uv_state st name vs w e (m_impl p)" and none: "look_any (uv_delims st) w = None" and room: "length w < 4096 \<or> buf = []"
  defines "y \<equiv> w @ take (4096 - length w) buf" and "e' \<equiv> e \<or> buf = []"
  assumes elem: "case look_any (uv_delims st) y of Some (q, dl) \<Rightarrow> x = take q y \<and> n = q + length dl - length w \<and> d = dl | None \<Rightarrow> e' \<and> x = y \<and> n = length y - length w \<and> d = []"
    and ne: "x \<noteq> []"
    and change: "\<And>s'. uv_sub (uv_delims st) [] e' s' \<Longrightarrow> uv_result d x s' \<Longrightarrow>
      \<exists>v'. urlvars_changeToNextParser (chunks_vt mvt fs) ((m_impl p)\<lparr>m_urlVarParser := s'\<rparr>) = Inr (v', True) \<and> Q v'"
  shows "\<exists>p'. parse_round (urlvars_vt (chunks_vt mvt fs) heap) p buf = Inr (if n = length buf then RoundReturn p' (Some n) else RoundRest p' n)
    \<and> Q (m_impl p') \<and> m_maxTTL p' = m_maxTTL p"
proof -
  let ?cvt = "chunks_vt mvt fs"
  let ?s = "setParseStatus (m_urlVarParser (m_impl p)) PARSE_GET_MORE_DATA"
  have s: "uv_sub (uv_delims st) w e ?s" "fresh_data (m_pData ?s)" using st by (simp_all add: uv_state_def uv_sub_def setParseStatus_def)
  have ds: "uv_delims st = [''='', ''&''] \<or> uv_delims st = [''&'']" by (cases st) simp_all
  obtain s' where s': "writeIntoParser ?cvt heap (urlvar_parse ?cvt) ?s buf = Inr (s', Some n)" "uv_sub (uv_delims st) [] e' s'" "uv_result d x s'"
    using uv_write [OF s ds none room, of mvt fs heap] elem unfolding y_def [symmetric] e'_def [symmetric] by (auto split: option.splits)
  then obtain v' where v': "urlvars_changeToNextParser ?cvt ((m_impl p)\<lparr>m_urlVarParser := s'\<rparr>) = Inr (v', True)" "Q v'" using change by blast
  have "m_parseStatus s' = PARSE_GOTO_NEXT_SUBPARSER" using s'(3) ne by (simp add: uv_result_def)
  then have "parse_round (urlvars_vt ?cvt heap) p buf =
      Inr (if n = length buf then RoundReturn (p\<lparr>m_impl := v'\<rparr>) (Some n) else RoundRest (p\<lparr>m_impl := v'\<rparr>) n)"
    using s'(1) v'(1) by (simp add: parse_round_def urlvars_vt_def)
  then show ?thesis using v'(2) by (intro exI [of _ "p\<lparr>m_impl := v'\<rparr>"]) simp
qed

lemma look_name:
  assumes "CHR ''='' \<notin> set x" and "length x < k"
  shows "look_any [''='', ''&''] (take k (x @ ''='' @ rest)) = Some (length x, ''='')" and "take (length x) (take k (x @ ''='' @ rest)) = x"
proof -
  have "take k (x @ ''='' @ rest) = x @ CHR ''='' # take (k - Suc (length x)) rest" using assms(2) by (simp add: take_Cons')
  then show "look_any [''='', ''&''] (take k (x @ ''='' @ rest)) = Some (length x, ''='')" "take (length x) (take k (x @ ''='' @ rest)) = x"
    using first_pos_char [OF assms(1)] by simp_all
qed

lemma look_value:
  assumes "CHR ''&'' \<notin> set x" and "length x < k"
  shows "look_any [''&''] (take k (x @ ''&'' @ rest)) = Some (length x, ''&'')" and "take (length x) (take k (x @ ''&'' @ rest)) = x"
proof -
  have "take k (x @ ''&'' @ rest) = x @ CHR ''&'' # take (k - Suc (length x)) rest" using assms(2) by (simp add: take_Cons')
  then show "look_any [''&''] (take k (x @ ''&'' @ rest)) = Some (length x, ''&'')" "take (length x) (take k (x @ ''&'' @ rest)) = x"
    using first_pos_char [OF assms(1)] by simp_all
qed

lemma look_empty: "look_any (uv_delims st) [] = None"
  by (cases st) (simp_all add: look_any_None first_pos_char_None del: look_any.simps)

lemma look_value_None: "CHR ''&'' \<notin> set x \<Longrightarrow> look_any [''&''] x = None"
  by (simp add: look_any_None first_pos_char_None del: look_any.simps)

lemma uv_name_round:
  assumes "uv_state URLV_STAT_WAITING_NAME n0 vs [] False (m_impl p)" and "CHR ''='' \<notin> set x" and "length x < 4096" and "x \<noteq> []" and "rest \<noteq> []"
  shows "\<exists>p'. parse_round (urlvars_vt (chunks_vt mvt fs) heap) p (x @ ''='' @ rest) = Inr (RoundRest p' (Suc (length x)))
    \<and> uv_state URLV_STAT_WAITING_CONTENT (uv_decoded x) vs [] False (m_impl p') \<and> m_maxTTL p' = m_maxTTL p"
proof -
  have "\<exists>p'. parse_round (urlvars_vt (chunks_vt mvt fs) heap) p (x @ ''='' @ rest) =
      Inr (if Suc (length x) = length (x @ ''='' @ rest) then RoundReturn p' (Some (Suc (length x))) else RoundRest p' (Suc (length x)))
    \<and> uv_state URLV_STAT_WAITING_CONTENT (uv_decoded x) vs [] False (m_impl p') \<and> m_maxTTL p' = m_maxTTL p"
    by (rule uv_round [OF assms(1) look_empty, where x = x and d = "''=''"])
      (use look_name [OF assms(2,3), of rest] assms(4) change_after_name(1) [OF assms(1)] in auto)
  then show ?thesis using assms(5) by auto
qed

lemma uv_value_element:
  assumes "uv_state URLV_STAT_WAITING_CONTENT name vs [] False (m_impl p)" and "CHR ''&'' \<notin> set x" and "length x < 4096" and "x \<noteq> []" and "name \<noteq> []"
  shows "\<exists>p'. parse_round (urlvars_vt (chunks_vt mvt fs) heap) p (x @ ''&'' @ rest) =
      Inr (if Suc (length x) = length (x @ ''&'' @ rest) then RoundReturn p' (Some (Suc (length x))) else RoundRest p' (Suc (length x)))
    \<and> uv_state URLV_STAT_WAITING_NAME [] (uv_insert name (uv_decoded x) vs) [] False (m_impl p') \<and> m_maxTTL p' = m_maxTTL p"
  by (rule uv_round [OF assms(1) look_empty, where x = x and d = "''&''"])
    (use look_value [OF assms(2,3), of rest] assms(4,5) change_after_value [OF assms(1)] in auto)

lemma uv_value_round:
  assumes "uv_state URLV_STAT_WAITING_CONTENT name vs [] False (m_impl p)" and "CHR ''&'' \<notin> set x" and "length x < 4096" and "x \<noteq> []"
    and "rest \<noteq> []" and "name \<noteq> []"
  shows "\<exists>p'. parse_round (urlvars_vt (chunks_vt mvt fs) heap) p (x @ ''&'' @ rest) = Inr (RoundRest p' (Suc (length x)))
    \<and> uv_state URLV_STAT_WAITING_NAME [] (uv_insert name (uv_decoded x) vs) [] False (m_impl p') \<and> m_maxTTL p' = m_maxTTL p"
  using uv_value_element [OF assms(1-4,6), of mvt fs heap rest] assms(5) by auto

text \<open>A delimiter where a value should begin: \<^verbatim>\<open>parse\<close> sees no bytes, asks for more data, and the delimiter is gone.\<close>

lemma uv_empty_value_round:
  assumes "uv_state URLV_STAT_WAITING_CONTENT name vs [] False (m_impl p)" and "rest \<noteq> []"
  shows "\<exists>p'. parse_round (urlvars_vt (chunks_vt mvt fs) heap) p (''&'' @ rest) = Inr (RoundRest p' 1)
    \<and> uv_state URLV_STAT_WAITING_CONTENT name vs [] False (m_impl p') \<and> m_maxTTL p' = m_maxTTL p"
proof -
  let ?cvt = "chunks_vt mvt fs" and ?s = "setParseStatus (m_urlVarParser (m_impl p)) PARSE_GET_MORE_DATA"
  have s: "uv_sub [''&''] [] False ?s" "fresh_data (m_pData ?s)" using assms(1) by (simp_all add: uv_state_def uv_sub_def setParseStatus_def)
  have l: "look_any [''&''] [] = None" "look_any [''&''] (take 4096 (''&'' @ rest)) = Some (0, ''&'')"
    using look_value_None [of "[]"] look_value(1) [of "[]" 4096 rest] by simp_all
  obtain s' where s': "writeIntoParser ?cvt heap (urlvar_parse ?cvt) ?s (''&'' @ rest) = Inr (s', Some 1)" "uv_sub [''&''] [] False s'" "uv_result ''&'' [] s'"
    using uv_write [OF s _ l(1), of "''&'' @ rest" mvt fs heap] l(2) by auto
  then have r: "fresh_data (m_pData s')" "m_parseStatus s' = PARSE_GET_MORE_DATA" by (simp_all add: uv_result_def)
  let ?p = "p\<lparr>m_impl := (m_impl p)\<lparr>m_urlVarParser := s'\<rparr>\<rparr>"
  have "parse_round (urlvars_vt ?cvt heap) p (''&'' @ rest) = Inr (RoundRest ?p 1)"
    using s'(1) r(2) assms(2) by (simp add: parse_round_def urlvars_vt_def)
  moreover have "uv_state URLV_STAT_WAITING_CONTENT name vs [] False (m_impl ?p)" using assms(1) s'(2) r(1) by (simp add: uv_state_def)
  ultimately show ?thesis by (intro exI [of _ ?p]) simp
qed

lemma uv_value_tail:
  assumes "uv_state URLV_STAT_WAITING_CONTENT name vs [] False (m_impl p)" and "CHR ''&'' \<notin> set x" and "length x \<le> 4096" and "x \<noteq> []"
  shows "\<exists>p'. parse_round (urlvars_vt (chunks_vt mvt fs) heap) p x = Inr (RoundReturn p' (Some (length x)))
    \<and> uv_state URLV_STAT_WAITING_CONTENT name vs x False (m_impl p') \<and> m_maxTTL p' = m_maxTTL p"
proof -
  let ?cvt = "chunks_vt mvt fs" and ?s = "setParseStatus (m_urlVarParser (m_impl p)) PARSE_GET_MORE_DATA"
  have s: "uv_sub [''&''] [] False ?s" "fresh_data (m_pData ?s)" using assms(1) by (simp_all add: uv_state_def uv_sub_def setParseStatus_def)
  have l: "look_any [''&''] [] = None" "look_any [''&''] ([] @ take (4096 - length ([] :: bytes)) x) = None"
    using assms(2,3) look_value_None by (simp_all del: look_any.simps)
  obtain s' where s': "writeIntoParser ?cvt heap (urlvar_parse ?cvt) ?s x = Inr (s', Some (length x))" "uv_sub [''&''] x False s'"
    "fresh_data (m_pData s')" "m_parseStatus s' = PARSE_GET_MORE_DATA"
    using uv_write [OF s _ l(1), of x mvt fs heap] l(2) assms(3,4) by (auto simp: setParseStatus_def)
  let ?p = "p\<lparr>m_impl := (m_impl p)\<lparr>m_urlVarParser := s'\<rparr>\<rparr>"
  have "parse_round (urlvars_vt ?cvt heap) p x = Inr (RoundReturn ?p (Some (length x)))"
    using s' by (simp add: parse_round_def urlvars_vt_def)
  moreover have "uv_state URLV_STAT_WAITING_CONTENT name vs x False (m_impl ?p)" using assms(1) s'(2,3) by (simp add: uv_state_def)
  ultimately show ?thesis by (intro exI [of _ ?p]) simp
qed

lemma uv_value_eof:
  assumes "uv_state URLV_STAT_WAITING_CONTENT name vs x False (m_impl p)" and "CHR ''&'' \<notin> set x" and "x \<noteq> []" and "name \<noteq> []"
  shows "\<exists>p'. parse_round (urlvars_vt (chunks_vt mvt fs) heap) p [] = Inr (RoundReturn p' (Some 0))
    \<and> uv_state URLV_STAT_WAITING_NAME [] (uv_insert name (uv_decoded x) vs) [] True (m_impl p')"
proof -
  have l: "look_any (uv_delims URLV_STAT_WAITING_CONTENT) x = None" using look_value_None [OF assms(2)] by simp
  have "\<exists>p'. parse_round (urlvars_vt (chunks_vt mvt fs) heap) p [] = Inr (if 0 = length ([] :: bytes) then RoundReturn p' (Some 0) else RoundRest p' 0)
    \<and> uv_state URLV_STAT_WAITING_NAME [] (uv_insert name (uv_decoded x) vs) [] True (m_impl p') \<and> m_maxTTL p' = m_maxTTL p"
    by (rule uv_round [OF assms(1) l, where x = x and d = "[]"])
      (use l assms(3,4) change_after_value [OF assms(1)] in auto)
  then show ?thesis by auto
qed

section \<open>Queries\<close>

definition uv_pair :: "bytes \<times> bytes \<Rightarrow> bytes" where
  "uv_pair kx = fst kx @ ''='' @ snd kx"

definition uv_query :: "(bytes \<times> bytes) list \<Rightarrow> bytes" where
  "uv_query ps = join ''&'' (map uv_pair ps)"

text \<open>A name and a value as they stand in the text: not empty, without the delimiter that ends them, within the limits.\<close>

definition uv_wf :: "bytes \<times> bytes \<Rightarrow> bool" where
  "uv_wf kx \<longleftrightarrow> CHR ''='' \<notin> set (fst kx) \<and> fst kx \<noteq> [] \<and> length (fst kx) < 4096 \<and> uv_decoded (fst kx) \<noteq> []
     \<and> CHR ''&'' \<notin> set (snd kx) \<and> snd kx \<noteq> [] \<and> length (snd kx) < 4096"

definition uv_store :: "(bytes \<times> bytes) list \<Rightarrow> bytes \<times> bytes \<Rightarrow> (bytes \<times> bytes) list" where
  "uv_store vs kx = uv_insert (uv_decoded (fst kx)) (uv_decoded (snd kx)) vs"

lemma uv_query_simps:
  "uv_query [kx] = fst kx @ ''='' @ snd kx"
  "ps \<noteq> [] \<Longrightarrow> uv_query (kx # ps) = fst kx @ ''='' @ snd kx @ ''&'' @ uv_query ps"
  by (simp_all add: uv_query_def uv_pair_def) (cases ps; simp add: uv_pair_def)

lemma uv_query_not_Nil: "ps \<noteq> [] \<Longrightarrow> uv_query ps \<noteq> []"
  by (cases ps; cases "tl ps") (simp_all add: uv_query_def uv_pair_def)

lemma uv_query_parse:
  "ps \<noteq> [] \<Longrightarrow> \<forall>kx\<in>set ps. uv_wf kx \<Longrightarrow> ttl + 2 * length ps \<le> Suc (m_maxTTL p) \<Longrightarrow> length (uv_query ps) \<le> size_max \<Longrightarrow>
     uv_state URLV_STAT_WAITING_NAME n0 vs [] False (m_impl p) \<Longrightarrow>
     \<exists>p'. parseData (urlvars_vt (chunks_vt mvt fs) heap) p (uv_query ps) ttl = Inr (p', Some (length (uv_query ps)))
       \<and> uv_state URLV_STAT_WAITING_CONTENT (uv_decoded (fst (last ps))) (foldl uv_store vs (butlast ps)) (snd (last ps)) False (m_impl p')"
proof (induction ps arbitrary: p ttl n0 vs)
  case (Cons kx ps)
  let ?vt = "urlvars_vt (chunks_vt mvt fs) heap"
  obtain k x where kx: "kx = (k, x)" by (cases kx)
  have wf: "CHR ''='' \<notin> set k" "length k < 4096" "k \<noteq> []" "CHR ''&'' \<notin> set x" "x \<noteq> []" "length x < 4096" "uv_decoded k \<noteq> []"
    using Cons.prems(2) by (simp_all add: uv_wf_def kx)
  have ttl: "ttl \<le> m_maxTTL p" "Suc ttl \<le> m_maxTTL p" using Cons.prems(3) by simp_all
  define tail where "tail = (if ps = [] then [] else ''&'' @ uv_query ps)"
  have q: "uv_query (kx # ps) = k @ ''='' @ x @ tail" using uv_query_simps(1) [of kx] uv_query_simps(2) [of ps kx] by (simp add: tail_def kx)
  have len: "length (k @ ''='' @ x @ tail) \<le> size_max" using Cons.prems(4) q by simp
  obtain p1 where p1: "parse_round ?vt p (k @ ''='' @ x @ tail) = Inr (RoundRest p1 (Suc (length k)))"
    "uv_state URLV_STAT_WAITING_CONTENT (uv_decoded k) vs [] False (m_impl p1)" "m_maxTTL p1 = m_maxTTL p"
    using uv_name_round [OF Cons.prems(5) wf(1,2,3), of "x @ tail" mvt fs heap] wf(5) by auto
  have step1: "parseData ?vt p (k @ ''='' @ x @ tail) ttl = Inr (p2, Some (length (k @ ''='' @ x @ tail)))"
    if "parseData ?vt p1 (x @ tail) (Suc ttl) = Inr (p2, Some (length (x @ tail)))" for p2
    using that wf(5) by (intro parseData_continue [OF p1(1) ttl(1) _ len]) simp_all
  show ?case
  proof (cases "ps = []")
    case True
    obtain p2 where p2: "parse_round ?vt p1 x = Inr (RoundReturn p2 (Some (length x)))"
      "uv_state URLV_STAT_WAITING_CONTENT (uv_decoded k) vs x False (m_impl p2)"
      using uv_value_tail [OF p1(2) wf(4) _ wf(5)] wf(6) by (meson less_imp_le)
    have "parseData ?vt p1 (x @ tail) (Suc ttl) = Inr (p2, Some (length (x @ tail)))"
      using p2(1) ttl(2) p1(3) True by (simp add: tail_def parseData.simps [of ?vt p1])
    from step1 [OF this] p2(2) show ?thesis unfolding q using True kx by auto
  next
    case False
    obtain p2 where p2: "parse_round ?vt p1 (x @ ''&'' @ uv_query ps) = Inr (RoundRest p2 (Suc (length x)))"
      "uv_state URLV_STAT_WAITING_NAME [] (uv_store vs kx) [] False (m_impl p2)" "m_maxTTL p2 = m_maxTTL p"
      using uv_value_round [OF p1(2) wf(4,6,5) uv_query_not_Nil [OF False] wf(7), of mvt fs heap] p1(3) by (auto simp: uv_store_def kx)
    have "\<forall>kx\<in>set ps. uv_wf kx" "Suc (Suc ttl) + 2 * length ps \<le> Suc (m_maxTTL p2)" "length (uv_query ps) \<le> size_max"
      using Cons.prems(2,3) p2(3) len False by (simp_all add: tail_def)
    from Cons.IH [OF False this p2(2)] obtain p3 where
      p3: "parseData ?vt p2 (uv_query ps) (Suc (Suc ttl)) = Inr (p3, Some (length (uv_query ps)))"
      "uv_state URLV_STAT_WAITING_CONTENT (uv_decoded (fst (last ps))) (foldl uv_store (uv_store vs kx) (butlast ps)) (snd (last ps)) False (m_impl p3)"
      by blast
    have "parseData ?vt p1 (x @ ''&'' @ uv_query ps) (Suc ttl) = Inr (p3, Some (length (x @ ''&'' @ uv_query ps)))"
      using p3(1) p1(3) ttl(2) len uv_query_not_Nil [OF False] False
      by (intro parseData_continue [OF p2(1)]) (simp_all add: tail_def)
    from step1 [unfolded tail_def] this p3(2) show ?thesis unfolding q tail_def using False by auto
  qed
qed simp

text \<open>A query that is written at once, followed by the end of the stream.\<close>

lemma uv_query_stored:
  assumes "ps \<noteq> []" and "\<forall>kx\<in>set ps. uv_wf kx" and "2 * length ps \<le> Suc (m_maxTTL p0)" and "m_maxTTL p0 \<le> 4096"
    and "uv_state URLV_STAT_WAITING_NAME n0 vs [] False (m_impl p0)"
  shows "\<exists>p p'. parser_write (urlvars_vt (chunks_vt mvt fs) heap) p0 (uv_query ps) = Inr (p, Some (length (uv_query ps)))
    \<and> vars_view (m_impl p) = foldl uv_store vs (butlast ps)
    \<and> parser_write (urlvars_vt (chunks_vt mvt fs) heap) p [] = Inr (p', Some 0) \<and> vars_view (m_impl p') = foldl uv_store vs ps"
proof -
  let ?vt = "urlvars_vt (chunks_vt mvt fs) heap"
  have "length (uv_query ps) \<le> 8193 * length ps" if "\<forall>kx\<in>set ps. uv_wf kx" for ps
    using that
  proof (induction ps)
    case (Cons kx ps)
    have "length (fst kx) \<le> 4095" "length (snd kx) \<le> 4095" using Cons.prems by (simp_all add: uv_wf_def less_Suc_eq_le [symmetric])
    moreover have "length (uv_query (kx # ps)) \<le> length (fst kx) + length (snd kx) + 2 + length (uv_query ps)"
      by (cases "ps = []") (simp_all add: uv_query_simps)
    ultimately show ?case using Cons by simp
  qed (simp add: uv_query_def)
  then have "length (uv_query ps) \<le> size_max" using assms(2-4) by (fastforce simp: size_max_def)
  then obtain p where p: "parseData ?vt p0 (uv_query ps) 0 = Inr (p, Some (length (uv_query ps)))"
    "uv_state URLV_STAT_WAITING_CONTENT (uv_decoded (fst (last ps))) (foldl uv_store vs (butlast ps)) (snd (last ps)) False (m_impl p)"
    using uv_query_parse [OF assms(1,2) _ _ assms(5)] assms(3) by (metis add_0)
  have wf: "uv_wf (last ps)" using assms(1,2) by simp
  obtain p' where p': "parse_round ?vt p [] = Inr (RoundReturn p' (Some 0))"
    "uv_state URLV_STAT_WAITING_NAME [] (uv_insert (uv_decoded (fst (last ps))) (uv_decoded (snd (last ps))) (foldl uv_store vs (butlast ps))) [] True (m_impl p')"
    using uv_value_eof [OF p(2), of mvt fs heap] wf by (auto simp: uv_wf_def)
  have "foldl uv_store vs ps = uv_store (foldl uv_store vs (butlast ps)) (last ps)"
    using assms(1) by (metis append_butlast_last_id foldl_Cons foldl_Nil foldl_append)
  then show ?thesis
    using p p' assms(1) uv_query_not_Nil [OF assms(1)]
    by (auto simp: parser_write_def parseData.simps [of ?vt p] uv_state_def uv_store_def)
qed

lemma urlvars_create_state: "uv_state URLV_STAT_WAITING_NAME [] [] [] False (m_impl (urlvars_create cvt))" "m_maxTTL (urlvars_create cvt) = 4096"
  using chunks_new_inv fresh_new
  by (auto simp: urlvars_create_def urlvars_new_def parser_new_def initElemParser_def uv_state_def vars_view_def setMaxVarNameSize_def
      setMaxVarContentSize_def iSetMaxVarNameSize_def iSetMaxVarContentSize_def urlvar_subparser_new_def urlvar_setVarType_def
      urlvar_setMaxObjectSize_def setParseMultiDelimiter_def setParseDataTargetSize_def setParseMode_def subparser_init_def subparser.defs
      uv_sub_def uint32_def sp_ok_def b_setMaxSize_def chunks_inv_def chunks_data_inv_def chunks_content_def chunks_new_def chunks_clear2_def
      chunks_clearChunks_def b_base.defs b_init_def Let_def)

text \<open>
  Reading a query. One write of \<^verbatim>\<open>k1=x1&...&kn=xn\<close> into new variables takes every byte and stores the first \<open>n - 1\<close>
  variables, names and values percent-decoded and names in upper case; the last value is only collected. The variable is
  stored when the end of the stream is written. Up to 2048 variables fit into one write.
\<close>

theorem urlvars_query:
  assumes "ps \<noteq> []" and "\<forall>kx\<in>set ps. uv_wf kx" and "length ps \<le> 2048"
  shows "\<exists>p p'. parser_write (urlvars_vt (chunks_vt mvt fs) heap) (urlvars_create (chunks_vt mvt fs)) (uv_query ps) = Inr (p, Some (length (uv_query ps)))
    \<and> vars_view (m_impl p) = foldl uv_store [] (butlast ps)
    \<and> parser_write (urlvars_vt (chunks_vt mvt fs) heap) p [] = Inr (p', Some 0) \<and> vars_view (m_impl p') = foldl uv_store [] ps"
  using uv_query_stored [OF assms(1,2) _ _ urlvars_create_state(1), of "chunks_vt mvt fs"] assms(3) by (simp add: urlvars_create_state(2))

theorem urlvars_query_witness:
  "\<exists>p p'. parser_write (urlvars_vt (chunks_vt mem_vt (\<lambda>_. None)) (\<lambda>_. [])) (urlvars_create (chunks_vt mem_vt (\<lambda>_. None))) ''b=2&a=x%20y'' = Inr (p, Some 11)
    \<and> vars_view (m_impl p) = [(''B'', ''2'')]
    \<and> parser_write (urlvars_vt (chunks_vt mem_vt (\<lambda>_. None)) (\<lambda>_. [])) p [] = Inr (p', Some 0)
    \<and> vars_view (m_impl p') = [(''A'', ''x y''), (''B'', ''2'')]"
proof -
  let ?ps = "[(''b'', ''2''), (''a'', ''x%20y'')]"
  have q: "uv_query ?ps = ''b=2&a=x%20y''" by code_simp
  have wf: "\<forall>kx\<in>set ?ps. uv_wf kx" by code_simp
  have v: "foldl uv_store [] (butlast ?ps) = [(''B'', ''2'')]" "foldl uv_store [] ?ps = [(''A'', ''x y''), (''B'', ''2'')]" by code_simp+
  have n: "?ps \<noteq> []" "length ?ps \<le> 2048" "length ''b=2&a=x%20y'' = 11" by simp_all
  from urlvars_query [OF n(1) wf n(2), of mem_vt "\<lambda>_. None" "\<lambda>_. []"] show ?thesis unfolding q v n(3) .
qed

section \<open>Printed variables\<close>

definition uv_encoded :: "bytes \<Rightarrow> bytes" where
  "uv_encoded s = concat (map enc_char s)"

definition uv_printed :: "bytes \<times> bytes \<Rightarrow> bytes" where
  "uv_printed kx = uv_encoded (fst kx) @ (if snd kx = [] then [] else ''='' @ uv_encoded (snd kx))"

lemma uv_encoded_facts:
  "uv_decoded (uv_encoded s) = s" "uv_encoded s = [] \<longleftrightarrow> s = []" "CHR ''='' \<notin> set (uv_encoded s)" "CHR ''&'' \<notin> set (uv_encoded s)"
  "length (uv_encoded s) \<le> 3 * length s"
proof -
  show "uv_decoded (uv_encoded s) = s" by (simp add: uv_decoded_def uv_encoded_def dec_run_encoded)
  show "uv_encoded s = [] \<longleftrightarrow> s = []" by (cases s) (auto simp: uv_encoded_def enc_char_def encoded_byte_def)
  have "is_xdigit c \<Longrightarrow> is_alnum c" for c by (auto simp: is_xdigit_def is_alnum_def is_alpha_def is_upper_def is_lower_def)
  moreover have "is_xdigit (hex_digit_upper (byte_val x div 16))" "is_xdigit (hex_digit_upper (byte_val x mod 16))" for x
    by (rule hex_digit_upper_facts(2), simp add: less_mult_imp_div_less)+
  ultimately have "c \<in> set (enc_char x) \<Longrightarrow> is_alnum c \<or> c = CHR ''%''" for c x
    by (auto simp: enc_char_def encoded_byte_def shouldEncodeThisByte_def split: if_splits)
  then have "c \<in> set (uv_encoded s) \<Longrightarrow> is_alnum c \<or> c = CHR ''%''" for c by (auto simp: uv_encoded_def)
  then show "CHR ''='' \<notin> set (uv_encoded s)" "CHR ''&'' \<notin> set (uv_encoded s)"
    by (fastforce simp: is_alnum_def is_alpha_def is_upper_def is_lower_def is_digit_def)+
  show "length (uv_encoded s) \<le> 3 * length s" by (simp add: uv_encoded_def length_encoded)
qed

lemma name_container:
  assumes "s \<noteq> []" and "length s \<le> 262144"
  shows "chunks_inv (fst (b_append (chunks_vt mvt fs) (chunks_new :: 'y chunks) s)) \<and> chunks_content (fst (b_append (chunks_vt mvt fs) (chunks_new :: 'y chunks) s)) = s"
proof -
  let ?c = "chunks_new :: 'y chunks"
  have new: "chunks_roomy ?c (length s)" using assms(2) by (rule chunks_new_roomy)
  moreover have "chunks_needed ?c (length s) \<le> length s" using new by (intro chunks_needed_le) (simp add: chunks_roomy_conv)
  ultimately have "chunks_room ?c (length s)" unfolding chunks_roomy_conv chunks_room_def by linarith
  then obtain new where "b_append (chunks_vt mvt fs) ?c s = (with_vec ?c (m_chunksVector ?c @ new), Some (length s))"
    "chunks_inv (with_vec ?c (m_chunksVector ?c @ new))" "vec_content new = s"
    using b_append_chunks [OF chunks_new_inv(1) _ assms(1), of mvt fs] by metis
  then show ?thesis using chunks_new_inv(2) by (simp add: chunks_content_def)
qed

text \<open>Each part of the printed text reaches a destination with room.\<close>

definition uv_printable :: "bytes \<times> 'y chunks \<Rightarrow> bool" where
  "uv_printable i \<longleftrightarrow> fst i \<noteq> [] \<and> length (fst i) \<le> 262144 \<and> chunks_inv (snd i) \<and> length (chunks_content (snd i)) \<le> size_max div 3 - 3"

context roomy_sink
begin

lemma then_ok_room: "room out n \<Longrightarrow> then_ok io (Inr out) k = k out"
  using room_status by (simp add: then_ok_def)

lemma write_text_room:
  assumes "room out n" and "length s \<le> n"
  shows "\<exists>out'. write_text io s out = Inr out' \<and> delivered out' = delivered out @ s \<and> room out' (n - length s)"
  using full_write [OF assms] by (metis write_text_def writeString_def fst_conv map_sum.simps(2))

lemma encode_into_room:
  assumes "chunks_data_inv src" and "chunks_content src \<noteq> []" and "length (chunks_content src) \<le> size_max div 3 - 3"
    and "room out n" and "length (uv_encoded (chunks_content src)) \<le> n"
  shows "\<exists>out'. encode_into (chunks_vt mvt fs) io src out = Inr out' \<and> delivered out' = delivered out @ uv_encoded (chunks_content src)
    \<and> room out' (n - length (uv_encoded (chunks_content src)))"
proof -
  note p = b_appendPlan_chunks(1) [OF assms(1,2), of mvt fs] b_appendPlan_chunks(2,3) [OF assms(1,2)]
  have "length (chunks_content src) \<le> size_max" using assms(3) by simp
  then show ?thesis
    using encoding.transform_ok [OF p(1,3), where out = out and n = n and s = "()"] p(2) assms(3-5) by (auto simp: encode_into_def enc_run_def uv_encoded_def)
qed

lemma stream_pair_room:
  assumes "uv_printable i" and "room out n" and "t = uv_printed (uv_entry i)" and "length t \<le> n"
  shows "\<exists>out'. then_ok io (encode_into (chunks_vt mvt fs) io (fst (b_append (chunks_vt mvt fs) chunks_new (fst i))) out)
      (\<lambda>out. if vt_size (chunks_vt mvt fs) (snd i) \<noteq> 0 then
          then_ok io (write_text io ''='' out) (\<lambda>out. then_ok io (encode_into (chunks_vt mvt fs) io (snd i) out) k)
        else k out) = k out' \<and> delivered out' = delivered out @ t \<and> room out' (n - length t)"
proof -
  let ?cvt = "chunks_vt mvt fs" and ?name = "uv_encoded (fst i)" and ?text = "uv_encoded (chunks_content (snd i))"
  let ?c = "fst (b_append ?cvt chunks_new (fst i))"
  have i: "fst i \<noteq> []" "length (fst i) \<le> 262144" "chunks_inv (snd i)" "length (chunks_content (snd i)) \<le> size_max div 3 - 3"
    using assms(1) by (simp_all add: uv_printable_def)
  have c: "chunks_data_inv ?c" "chunks_content ?c = fst i" using name_container [OF i(1,2), of mvt fs] by (simp_all add: chunks_inv_def)
  have t: "t = ?name @ (if chunks_content (snd i) = [] then [] else ''='' @ ?text)" by (simp add: assms(3) uv_printed_def uv_entry_def)
  have "length (chunks_content ?c) \<le> size_max div 3 - 3" using c i(2) by (simp add: size_max_def)
  then obtain o1 where o1: "encode_into ?cvt io ?c out = Inr o1" "delivered o1 = delivered out @ ?name" "room o1 (n - length ?name)"
    using encode_into_room [OF c(1) _ _ assms(2), of mvt fs] i(1) c(2) assms(4) t by auto
  have size: "vt_size ?cvt (snd i) = length (chunks_content (snd i))" using i(3) by (rule bchunks.size_content)
  show ?thesis
  proof (cases "chunks_content (snd i) = []")
    case True
    then show ?thesis using o1 then_ok_room [OF o1(3)] size t by auto
  next
    case False
    obtain o2 where o2: "write_text io ''='' o1 = Inr o2" "delivered o2 = delivered o1 @ ''=''" "room o2 (n - length ?name - 1)"
      using write_text_room [OF o1(3), of "''=''"] assms(4) t False by (auto simp: Suc_le_eq)
    have "chunks_data_inv (snd i)" "length ?text \<le> n - length ?name - 1" using i(3) assms(4) t False by (auto simp: chunks_inv_def)
    then obtain o3 where o3: "encode_into ?cvt io (snd i) o2 = Inr o3" "delivered o3 = delivered o2 @ ?text" "room o3 (n - length ?name - 1 - length ?text)"
      using encode_into_room [OF _ False i(4) o2(3), of mvt fs] by blast
    show ?thesis
      using o1 o2 o3 then_ok_room [OF o1(3)] then_ok_room [OF o2(3)] then_ok_room [OF o3(3)] size t False by (auto simp: diff_diff_left)
  qed
qed

lemma stream_loop_room:
  assumes "\<forall>i\<in>set vars. uv_printable i"
    and "room out n" and "t = concat (map (\<lambda>i. ''&'' @ uv_printed (uv_entry i)) vars)" and "length t \<le> n"
  shows "\<exists>out'. urlvars_stream_loop (chunks_vt mvt fs) io False vars out = Inr (out', True) \<and> delivered out' = delivered out @ t \<and> room out' (n - length t)"
  using assms
proof (induction vars arbitrary: out n t)
  case (Cons i vars)
  let ?u = "uv_printed (uv_entry i)" and ?loop = "urlvars_stream_loop (chunks_vt mvt fs) io False vars"
  let ?t = "concat (map (\<lambda>i. ''&'' @ uv_printed (uv_entry i)) vars)"
  have t: "t = ''&'' @ ?u @ ?t" using Cons.prems(3) by simp
  obtain o1 where o1: "write_text io ''&'' out = Inr o1" "delivered o1 = delivered out @ ''&''" "room o1 (n - 1)"
    using write_text_room [OF Cons.prems(2), of "''&''"] Cons.prems(4) t by auto
  have "length ?u \<le> n - 1" "uv_printable i" using Cons.prems(1,4) t by auto
  then obtain o2 where o2: "urlvars_stream_loop (chunks_vt mvt fs) io False (i # vars) out = ?loop o2" "delivered o2 = delivered o1 @ ?u" "room o2 (n - 1 - length ?u)"
    using stream_pair_room [OF _ o1(3) refl, of i mvt fs ?loop] then_ok_room [OF o1(3)] o1(1) by (auto simp: Let_def)
  have "\<exists>out'. ?loop o2 = Inr (out', True) \<and> delivered out' = delivered o2 @ ?t \<and> room out' (n - 1 - length ?u - length ?t)"
    using Cons.prems(1,4) t by (intro Cons.IH [OF _ o2(3) refl]) auto
  then show ?case using o1 o2 t by (auto simp: diff_diff_left)
qed simp

lemma streamTo_room:
  assumes "\<forall>i\<in>set (m_vars v). uv_printable i"
    and "room out n" and "t = join ''&'' (map uv_printed (vars_view v))" and "length t \<le> n"
  shows "\<exists>out'. urlvars_streamTo (chunks_vt mvt fs) io v out = Inr (out', True) \<and> delivered out' = delivered out @ t \<and> room out' (n - length t)"
proof (cases "m_vars v")
  case Nil
  then show ?thesis using assms by (simp add: urlvars_streamTo_def vars_view_def)
next
  case (Cons i vars)
  let ?u = "uv_printed (uv_entry i)" and ?loop = "urlvars_stream_loop (chunks_vt mvt fs) io False vars"
  let ?t = "concat (map (\<lambda>i. ''&'' @ uv_printed (uv_entry i)) vars)"
  have "join ''&'' (u # map uv_printed (map uv_entry is)) = u @ concat (map (\<lambda>i. ''&'' @ uv_printed (uv_entry i)) is)"
    for u and "is" :: "(bytes \<times> 'b chunks) list"
    by (induction "is" arbitrary: u) simp_all
  then have t: "t = ?u @ ?t" using assms(3) Cons by (simp add: vars_view_def)
  have "length ?u \<le> n" "uv_printable i" "\<forall>i\<in>set vars. uv_printable i" using assms(1,4) t Cons by auto
  then obtain o1 where o1: "urlvars_stream_loop (chunks_vt mvt fs) io True (i # vars) out = ?loop o1" "delivered o1 = delivered out @ ?u" "room o1 (n - length ?u)"
    using stream_pair_room [OF _ assms(2) refl, of i mvt fs ?loop] by (auto simp: Let_def)
  have "length ?t \<le> n - length ?u" using assms(4) t by simp
  with stream_loop_room [OF _ o1(3) refl, of vars mvt fs] \<open>\<forall>i\<in>set vars. uv_printable i\<close> show ?thesis
    using o1 t Cons by (auto simp: urlvars_streamTo_def diff_diff_left)
qed

end

lemma foldl_uv_store_sorted:
  assumes "mm_sorted (vs @ ws)" and "\<forall>kx\<in>set ws. to_upper_copy (fst kx) = fst kx"
  shows "foldl uv_store vs (map (\<lambda>kx. (uv_encoded (fst kx), uv_encoded (snd kx))) ws) = vs @ ws"
  using assms
proof (induction ws arbitrary: vs)
  case (Cons kx ws)
  have "uv_store vs (uv_encoded (fst kx), uv_encoded (snd kx)) = vs @ [kx]"
    using Cons.prems mm_insert_last [of vs "fst kx" "snd kx"]
    by (simp add: uv_store_def uv_encoded_facts(1) uv_insert_def mm_sorted_def sorted_wrt_append)
  then show ?case using Cons.IH [of "vs @ [kx]"] Cons.prems by simp
qed simp

text \<open>
  C21. Printing and reading. Variables with non-empty values that \<^verbatim>\<open>streamTo\<close> prints into a container with room are read
  back, byte for byte and in the same order, by new variables that are given the printed text and then the end of the
  stream; names and values may be any bytes.
\<close>

theorem urlvars_print_read:
  assumes "\<forall>i\<in>set (m_vars v). uv_printable i \<and> to_upper_copy (fst i) = fst i \<and> chunks_content (snd i) \<noteq> []
      \<and> length (fst i) \<le> 1365 \<and> length (chunks_content (snd i)) \<le> 1365"
    and "mm_sorted (m_vars v)" and "m_vars v \<noteq> []" and "length (m_vars v) \<le> 2048"
    and "chunks_roomy out n" and "length (join ''&'' (map uv_printed (vars_view v))) \<le> n" and "chunks_content out = []"
  shows "\<exists>out' p p'. urlvars_streamTo (chunks_vt mvt fs) (b_streamable (chunks_vt mvt fs)) v out = Inr (out', True)
    \<and> parser_write (urlvars_vt (chunks_vt mvt fs) heap) (urlvars_create (chunks_vt mvt fs)) (chunks_content out') = Inr (p, Some (length (chunks_content out')))
    \<and> parser_write (urlvars_vt (chunks_vt mvt fs) heap) p [] = Inr (p', Some 0) \<and> vars_view (m_impl p') = vars_view v"
proof -
  let ?ps = "map (\<lambda>kx. (uv_encoded (fst kx), uv_encoded (snd kx))) (vars_view v)"
  have e: "snd kx \<noteq> []" "to_upper_copy (fst kx) = fst kx" "uv_wf (uv_encoded (fst kx), uv_encoded (snd kx))" if "kx \<in> set (vars_view v)" for kx
  proof -
    obtain i where i: "i \<in> set (m_vars v)" "kx = uv_entry i" using \<open>kx \<in> set (vars_view v)\<close> by (auto simp: vars_view_def)
    have f: "fst i \<noteq> []" "to_upper_copy (fst i) = fst i" "chunks_content (snd i) \<noteq> []" "length (fst i) \<le> 1365" "length (chunks_content (snd i)) \<le> 1365"
      using assms(1) i(1) by (auto simp: uv_printable_def)
    then show "snd kx \<noteq> []" "to_upper_copy (fst kx) = fst kx" by (simp_all add: i(2) uv_entry_def)
    show "uv_wf (uv_encoded (fst kx), uv_encoded (snd kx))"
      using f uv_encoded_facts(5) [of "fst i"] uv_encoded_facts(5) [of "chunks_content (snd i)"]
      by (simp add: uv_wf_def uv_encoded_facts(1-4) i(2) uv_entry_def)
  qed
  have printed: "join ''&'' (map uv_printed (vars_view v)) = uv_query ?ps"
    unfolding uv_query_def map_map comp_def
    by (rule arg_cong [where f = "join ''&''"], rule map_cong [OF refl]) (use e(1) in \<open>simp add: uv_printed_def uv_pair_def\<close>)
  obtain out' where out': "urlvars_streamTo (chunks_vt mvt fs) (b_streamable (chunks_vt mvt fs)) v out = Inr (out', True)" "chunks_content out' = uv_query ?ps"
    using chunk_sink.streamTo_room [OF _ assms(5) refl assms(6), of mvt fs mvt fs] assms(1,7) printed by auto
  have "mm_sorted ([] @ vars_view v)" using assms(2) by (simp add: mm_sorted_def vars_view_def sorted_wrt_map uv_entry_def)
  then have "foldl uv_store [] ?ps = vars_view v" using foldl_uv_store_sorted [of "[]" "vars_view v"] e(2) by simp
  moreover have "?ps \<noteq> []" "length ?ps \<le> 2048" "\<forall>kx\<in>set ?ps. uv_wf kx" using assms(3,4) e(3) by (auto simp: vars_view_def)
  ultimately obtain p p' where
    "parser_write (urlvars_vt (chunks_vt mvt fs) heap) (urlvars_create (chunks_vt mvt fs)) (uv_query ?ps) = Inr (p, Some (length (uv_query ?ps)))"
    "parser_write (urlvars_vt (chunks_vt mvt fs) heap) p [] = Inr (p', Some 0)" "vars_view (m_impl p') = vars_view v"
    using uv_query_stored [OF _ _ _ _ urlvars_create_state(1), of ?ps "chunks_vt mvt fs" mvt fs heap] urlvars_create_state(2) [of "chunks_vt mvt fs"] by auto
  then show ?thesis using out' by (intro exI [of _ out'] exI [of _ p] exI [of _ p']) simp
qed

theorem urlvars_print_read_witness:
  "\<exists>out' p p'. urlvars_streamTo (chunks_vt mem_vt (\<lambda>_. None)) (b_streamable (chunks_vt mem_vt (\<lambda>_. None)))
       (fst (addVar (urlvars_new (chunks_vt mem_vt (\<lambda>_. None))) ''k'' two_chunks)) small_chunks = Inr (out', True)
     \<and> parser_write (urlvars_vt (chunks_vt mem_vt (\<lambda>_. None)) (\<lambda>_. [])) (urlvars_create (chunks_vt mem_vt (\<lambda>_. None))) (chunks_content out')
       = Inr (p, Some (length (chunks_content out')))
     \<and> parser_write (urlvars_vt (chunks_vt mem_vt (\<lambda>_. None)) (\<lambda>_. [])) p [] = Inr (p', Some 0) \<and> vars_view (m_impl p') = [(''K'', ''abcdef'')]"
proof -
  let ?v = "fst (addVar (urlvars_new (chunks_vt mem_vt (\<lambda>_. None))) ''k'' two_chunks)"
  have up: "to_upper_copy ''k'' = ''K''" "to_upper_copy ''K'' = ''K''" by code_simp+
  have v: "m_vars ?v = [(''K'', two_chunks)]"
    by (simp add: addVar_def urlvars_new_def setMaxVarContentSize_def setMaxVarNameSize_def iSetMaxVarContentSize_def iSetMaxVarNameSize_def up)
  then have view: "vars_view ?v = [(''K'', ''abcdef'')]" by (simp add: vars_view_def uv_entry_def two_chunks_inv(3))
  have printed: "join ''&'' (map uv_printed (vars_view ?v)) = ''K=abcdef''" unfolding view by code_simp
  have p8: "length (uv_printed (''K'', ''abcdef'')) = 8" by code_simp
  have room: "chunks_roomy small_chunks 8" unfolding chunks_roomy_def
    by (rule small_chunks_fits) (simp_all add: small_chunks_def chunks_needed_def sum_list_replicate chunks_new_def chunks_clear2_def
        chunks_clearChunks_def b_base.defs b_setMaxSize_def)
  have c: "chunks_content small_chunks = []" using chunks_new_inv(2) by (simp add: small_chunks_def b_setMaxSize_def chunks_content_def)
  show ?thesis
    using urlvars_print_read [of ?v small_chunks 8 mem_vt "\<lambda>_. None" "\<lambda>_. []"] room c two_chunks_inv
    unfolding printed v view by (simp add: uv_printable_def up mm_sorted_def size_max_def p8)
qed

text \<open>
  An empty value swallows the next variable. In \<^verbatim>\<open>k=&x&\<close>, where \<open>x\<close> may be another pair such as \<^verbatim>\<open>b=1\<close>, the whole of
  \<open>x\<close> becomes the value of \<open>k\<close>, and no other variable is stored.
\<close>

theorem urlvars_empty_value_swallows:
  assumes "uv_wf (k, x)"
  shows "\<exists>p. parser_write (urlvars_vt (chunks_vt mvt fs) heap) (urlvars_create (chunks_vt mvt fs)) (k @ ''=&'' @ x @ ''&'')
      = Inr (p, Some (length (k @ ''=&'' @ x @ ''&'')))
    \<and> vars_view (m_impl p) = [(to_upper_copy (uv_decoded k), uv_decoded x)]"
proof -
  let ?vt = "urlvars_vt (chunks_vt mvt fs) heap"
  have wf: "CHR ''='' \<notin> set k" "length k < 4096" "k \<noteq> []" "CHR ''&'' \<notin> set x" "x \<noteq> []" "length x < 4096" "uv_decoded k \<noteq> []"
    using assms by (simp_all add: uv_wf_def)
  have len: "length (k @ ''='' @ ''&'' @ x @ ''&'') \<le> size_max" using wf(2,6) by (simp add: size_max_def)
  obtain p1 where p1: "parse_round ?vt (urlvars_create (chunks_vt mvt fs)) (k @ ''='' @ ''&'' @ x @ ''&'') = Inr (RoundRest p1 (Suc (length k)))"
    "uv_state URLV_STAT_WAITING_CONTENT (uv_decoded k) [] [] False (m_impl p1)" "m_maxTTL p1 = 4096"
    using uv_name_round [OF urlvars_create_state(1) wf(1-3), where mvt = mvt and fs = fs and heap = heap and rest = "''&'' @ x @ ''&''"]
    by (auto simp: urlvars_create_state(2))
  obtain p2 where p2: "parse_round ?vt p1 (''&'' @ x @ ''&'') = Inr (RoundRest p2 1)"
    "uv_state URLV_STAT_WAITING_CONTENT (uv_decoded k) [] [] False (m_impl p2)" "m_maxTTL p2 = 4096"
    using uv_empty_value_round [OF p1(2), of "x @ ''&''" mvt fs heap] p1(3) by auto
  obtain p3 where p3: "parse_round ?vt p2 (x @ ''&'') = Inr (RoundReturn p3 (Some (Suc (length x))))"
    "uv_state URLV_STAT_WAITING_NAME [] (uv_insert (uv_decoded k) (uv_decoded x) []) [] False (m_impl p3)"
    using uv_value_element [OF p2(2) wf(4,6,5,7), of mvt fs heap "[]"] by auto
  have "parseData ?vt p2 (x @ ''&'') 2 = Inr (p3, Some (length (x @ ''&'')))" using p3(1) p2(3) by (simp add: parseData.simps [of ?vt p2])
  then have "parseData ?vt p1 (''&'' @ x @ ''&'') 1 = Inr (p3, Some (length (''&'' @ x @ ''&'')))"
    using p1(3) len by (intro parseData_continue [OF p2(1)]) (simp_all add: numeral_2_eq_2)
  then have "parseData ?vt (urlvars_create (chunks_vt mvt fs)) (k @ ''='' @ ''&'' @ x @ ''&'') 0 = Inr (p3, Some (length (k @ ''='' @ ''&'' @ x @ ''&'')))"
    by (intro parseData_continue [OF p1(1) _ _ len]) (simp_all add: urlvars_create_state(2))
  then show ?thesis using p3(2) by (simp add: parser_write_def uv_state_def uv_insert_def)
qed

theorem urlvars_empty_value_swallows_witness:
  "\<exists>p. parser_write (urlvars_vt (chunks_vt mem_vt (\<lambda>_. None)) (\<lambda>_. [])) (urlvars_create (chunks_vt mem_vt (\<lambda>_. None))) ''a=&b=1&'' = Inr (p, Some 7)
    \<and> vars_view (m_impl p) = [(''A'', ''b=1'')]"
proof -
  have "uv_wf (''a'', ''b=1'')" by code_simp
  moreover have "to_upper_copy (uv_decoded ''a'') = ''A''" "uv_decoded ''b=1'' = ''b=1''" by code_simp+
  ultimately show ?thesis using urlvars_empty_value_swallows [of "''a''" "''b=1''" mem_vt "\<lambda>_. None" "\<lambda>_. []"] by (simp add: numeral_nat)
qed

end
