(* ===== verification/HTTPStartLine.thy ===== *)
theory HTTPStartLine
  imports URLVars
begin

text \<open>
  The first line of a message: the request line (\<^verbatim>\<open>src/Mantids30/Protocol_HTTP/req_requestline.cpp\<close>) and the status line
  (\<^verbatim>\<open>rsp_status.cpp\<close>), both sub-parsers in delimiter mode. \<open>cvt\<close> is the table of \<^verbatim>\<open>B_Chunks\<close>, built from \<open>mvt\<close> and \<open>fs\<close>.
\<close>

definition crlf :: bytes where
  "crlf = [CHR 0x0D, CHR 0x0A]"

definition blanks :: bytes where
  "blanks = [CHR 0x09, CHR '' '']"

section \<open>Request line\<close>

record 'y request_line = "'y subparser" +
  m_requestMethod :: bytes
  m_requestURI :: bytes
  m_requestURIParameters :: bytes
  m_httpVersion :: http_version
  m_getVars :: "'y urlvars parser"

definition setSecurityMaxURLSize :: "'y request_line \<Rightarrow> nat \<Rightarrow> 'y request_line" where
  "setSecurityMaxURLSize s value = setParseDataTargetSize s value"

definition request_line_new :: "'y chunks_vt \<Rightarrow> 'y request_line" where
  "request_line_new cvt =
     (let s0 = subparser.extend (subparser_init cvt)
            \<lparr>m_requestMethod = ''GET'', m_requestURI = [], m_requestURIParameters = [], m_httpVersion = version_new, m_getVars = urlvars_create cvt\<rparr>;
          s1 = setParseDelimiter (setParseMode s0 PARSE_MODE_DELIMITER) crlf
      in (setSecurityMaxURLSize s1 (128 * 1024))\<lparr>m_subParserName := ''RequestLine''\<rparr>)"

definition urlvars_streamable :: "'y chunks_vt \<Rightarrow> (nat \<Rightarrow> bytes) \<Rightarrow> 'y urlvars parser streamable" where
  "urlvars_streamable cvt heap =
     \<lparr>so_write = parser_write (urlvars_vt cvt heap), so_status = p_writeStatus, so_set_status = (\<lambda>ws p. p\<lparr>p_writeStatus := ws\<rparr>)\<rparr>"

definition parseGETParameters :: "'y chunks_vt \<Rightarrow> (nat \<Rightarrow> bytes) \<Rightarrow> 'y request_line \<Rightarrow> 'y request_line result" where
  "parseGETParameters cvt heap s =
     (let bc = fst (b_append cvt chunks_new (m_requestURIParameters s))
      in case b_streamTo cvt bc (urlvars_streamable cvt heap) (m_getVars s) of
           Inl e \<Rightarrow> Inl e | Inr (vars, _) \<Rightarrow> Inr (s\<lparr>m_getVars := vars\<rparr>))"

definition parseURI :: "'y mmap_vt \<Rightarrow> ('y chunks \<Rightarrow> 'y b_base_scheme option) \<Rightarrow> (nat \<Rightarrow> bytes) \<Rightarrow> 'y request_line \<Rightarrow> 'y request_line result" where
  "parseURI mvt fs heap s =
     (case (case find_index ((=) CHR ''?'') (m_requestURI s) of
              Some found \<Rightarrow>
                parseGETParameters (chunks_vt mvt fs) heap
                  (s\<lparr>m_requestURIParameters := c_str (drop (found + 1) (m_requestURI s)), m_requestURI := take found (m_requestURI s)\<rparr>)
            | None \<Rightarrow> Inr s) of
        Inl e \<Rightarrow> Inl e
      | Inr s' \<Rightarrow>
          (case decodeURLStr mvt fs (m_requestURI s') of Inl e \<Rightarrow> Inl e | Inr uri \<Rightarrow> Inr (s'\<lparr>m_requestURI := uri\<rparr>)))"

definition request_parse :: "'y mmap_vt \<Rightarrow> ('y chunks \<Rightarrow> 'y b_base_scheme option) \<Rightarrow> (nat \<Rightarrow> bytes) \<Rightarrow>
    'y request_line \<Rightarrow> ('y request_line \<times> ParseStatus) result" where
  "request_parse mvt fs heap s =
     (let clientRequest = b_toStringEx (ref_vt (chunks_vt mvt fs)) (getParsedBuffer s) size_max 0
      in case split_compress (any_of blanks) clientRequest of
           method # uri # rest \<Rightarrow>
             (case parseURI mvt fs heap
                     (s\<lparr>m_requestMethod := to_upper_copy method, m_requestURI := uri,
                        m_httpVersion := version_parse (case rest of version # _ \<Rightarrow> version | [] \<Rightarrow> ''HTTP/1.0'')\<rparr>) of
                Inl e \<Rightarrow> Inl e | Inr s' \<Rightarrow> Inr (s', PARSE_GOTO_NEXT_SUBPARSER))
         | _ \<Rightarrow> Inr (s, PARSE_ERROR))"

definition request_streamToUpstream :: "'y chunks_vt \<Rightarrow> 'o streamable \<Rightarrow> 'y request_line \<Rightarrow> 'o \<Rightarrow> ('o \<times> bool) result" where
  "request_streamToUpstream cvt io s out =
     (let last = (\<lambda>out. then_ok io (write_text io ('' '' @ version_toString (m_httpVersion s) @ crlf) out)
            (\<lambda>out. Inr (out, succeed (so_status io out))))
      in then_ok io (write_text io (m_requestMethod s @ '' '' @ m_requestURI s) out)
        (\<lambda>out. if \<not> vars_isEmpty (m_impl (m_getVars s)) then
            then_ok io (write_text io ''?'' out) (\<lambda>out.
              case urlvars_streamTo cvt io (m_impl (m_getVars s)) out of
                Inl e \<Rightarrow> Inl e | Inr (out, False) \<Rightarrow> Inr (out, False) | Inr (out, True) \<Rightarrow> last out)
          else last out))"

section \<open>Status line\<close>

record 'y http_status = "'y subparser" +
  st_httpVersion :: http_version
  m_statusCode :: nat
  m_statusMessage :: bytes

definition S_999_NOT_SET :: nat where
  "S_999_NOT_SET = 1000"

definition m_responseStatusCodesTable :: "(nat \<times> bytes) list" where
  "m_responseStatusCodesTable =
     [(100, ''Continue''), (101, ''Switching Protocol''),
      (200, ''OK''), (201, ''Created''), (202, ''Accepted''), (203, ''Non-Authoritative Information''), (204, ''No Content''),
      (205, ''Reset Content''), (206, ''Partial Content''),
      (300, ''Multiple Choices''), (301, ''Moved Permanently''), (302, ''Found''), (303, ''See Other''), (304, ''Not Modified''),
      (307, ''Temporary Redirect''), (308, ''Permanent Redirect''),
      (400, ''Bad Request''), (401, ''Unauthorized''), (403, ''Forbidden''), (404, ''Not Found''), (405, ''Method Not Allowed''),
      (406, ''Not Acceptable''), (407, ''Proxy Authentication Required''), (408, ''Request Timeout''), (409, ''Conflict''),
      (410, ''Gone''), (411, ''Length Required''), (412, ''Precondition Failed''), (413, ''Payload Too Large''),
      (414, ''URI Too Long''), (415, ''Unsupported Media Type''), (416, ''Range Not Satisfiable''), (417, ''Expectation Failed''),
      (426, ''Upgrade Required''), (428, ''Precondition Required''), (429, ''Too Many Requests''),
      (431, ''Request Header Fields Too Large''), (451, ''Unavailable For Legal Reasons''),
      (500, ''Internal Server Error''), (501, ''Not Implemented''), (502, ''Bad Gateway''), (503, ''Service Unavailable''),
      (504, ''Gateway Timeout''), (505, ''HTTP Version Not Supported''), (511, ''Network Authentication Required'')]"

definition status_new :: "'y chunks_vt \<Rightarrow> 'y http_status" where
  "status_new cvt =
     (let s0 = subparser.extend (subparser_init cvt) \<lparr>st_httpVersion = version_new, m_statusCode = S_999_NOT_SET, m_statusMessage = []\<rparr>;
          s1 = setParseDelimiter (setParseMode s0 PARSE_MODE_DELIMITER) crlf
      in (setParseDataTargetSize s1 128)\<lparr>m_subParserName := ''Status''\<rparr>)"

text \<open>The remaining words of the line, joined by single blanks.\<close>

fun status_words :: "bytes list \<Rightarrow> bytes" where
  "status_words [] = []"
| "status_words (w # ws) = w @ concat (map (\<lambda>w. '' '' @ w) ws)"

definition status_parse :: "'y chunks_vt \<Rightarrow> 'y http_status \<Rightarrow> ('y http_status \<times> ParseStatus) result" where
  "status_parse cvt s =
     (let clientRequest = b_toStringEx (ref_vt cvt) (getParsedBuffer s) size_max 0
      in case split_compress (any_of blanks) clientRequest of
           version # code # message \<Rightarrow>
             Inr (s\<lparr>st_httpVersion := version_parse version, m_statusCode := uint16 (strtoul code), m_statusMessage := status_words message\<rparr>,
                  PARSE_GOTO_NEXT_SUBPARSER)
         | _ \<Rightarrow> Inr (s, PARSE_ERROR))"

definition getStringTranslation :: "nat \<Rightarrow> bytes" where
  "getStringTranslation code = (case map_of m_responseStatusCodesTable code of Some m \<Rightarrow> m | None \<Rightarrow> [])"

definition setResponseMessage :: "'y http_status \<Rightarrow> bytes \<Rightarrow> 'y http_status" where
  "setResponseMessage s value = s\<lparr>m_statusMessage := value\<rparr>"

definition setCode :: "'y http_status \<Rightarrow> nat \<Rightarrow> 'y http_status" where
  "setCode s code =
     (if code \<noteq> S_999_NOT_SET then setResponseMessage (s\<lparr>m_statusCode := uint16 code\<rparr>) (getStringTranslation code) else s)"

definition status_streamToUpstream :: "'o streamable \<Rightarrow> 'y http_status \<Rightarrow> 'o \<Rightarrow> ('o \<times> bool) result" where
  "status_streamToUpstream io s out =
     writeString io out (version_toString (st_httpVersion s) @ '' '' @ dec (m_statusCode s) @ '' '' @ m_statusMessage s @ crlf)"

section \<open>One line in delimiter mode\<close>

lemma first_pos_crlf:
  assumes "CHR 0x0D \<notin> set l"
  shows "first_pos crlf (l @ crlf @ rest) = Some (length l)"
proof -
  have "\<not> occurs_at crlf (l @ crlf @ rest) i" if "i < length l" for i
    using occurs_at_hd [of crlf "l @ crlf @ rest" i] that assms by (auto simp: crlf_def nth_append in_set_conv_nth)
  moreover have "occurs_at crlf (l @ crlf @ rest) (length l)" by (simp add: occurs_at_def slice_def crlf_def)
  ultimately show ?thesis by (simp add: first_pos_iff first_occurrence_def)
qed

lemma first_pos_crlf_Nil: "first_pos crlf [] = None"
  by (simp add: first_pos_def occurs_at_def crlf_def)

text \<open>A sub-parser that waits for a line, and the write that completes the line.\<close>

definition awaits_line :: "nat \<Rightarrow> ('y, 'a) subparser_scheme \<Rightarrow> bool" where
  "awaits_line cap s \<longleftrightarrow> sp_ok (m_unparsedBuffer s) \<and> m_parseMode s = PARSE_MODE_DELIMITER \<and> m_parseDelimiter s = crlf
     \<and> sp_content s = [] \<and> m_maxSize (m_unparsedBuffer s) = cap \<and> \<not> m_streamEnded s"

lemma line_element:
  assumes "awaits_line cap s" and "CHR 0x0D \<notin> set l" and "length l + 2 \<le> cap" and "keeps_delimiter parse"
  shows "\<exists>s1. writeIntoParser (chunks_vt mvt fs) heap parse s (l @ crlf) = sp_element (chunks_vt mvt fs) parse s1 (length l + 2)
    \<and> sp_view (chunks_vt mvt fs) s1 = l \<and> sp_same s s1"
proof -
  let ?cvt = "chunks_vt mvt fs"
  note a = assms(1) [unfolded awaits_line_def]
  have d: "m_parseDelimiter s \<noteq> []" "length (m_parseDelimiter s) < 2 ^ 32" using a by (simp_all add: crlf_def)
  have "look_any [crlf] (l @ crlf) = Some (length l, crlf)" using first_pos_crlf [OF assms(2), of "[]"] by simp
  moreover have "take (cap - length (sp_content s)) (l @ crlf) = l @ crlf" "l @ crlf \<noteq> []" "length crlf = 2" using a assms(3) by (simp_all add: crlf_def)
  ultimately have "delim_feed (look_any [m_parseDelimiter s]) (m_maxSize (m_unparsedBuffer s)) (m_streamEnded s) (sp_content s) (l @ crlf)
      = FeedElement l (length l + 2)"
    using a assms(3) unfolding delim_feed_def Let_def by (simp add: min_def del: look_any.simps)
  moreover have "writeIntoParser ?cvt heap parse s (l @ crlf) = parseByDelimiter ?cvt parse s (l @ crlf)"
    using a by (simp add: writeIntoParser_def crlf_def)
  ultimately show ?thesis
    using parseByDelimiter_simulates [OF _ d assms(4), of mvt fs "l @ crlf"] a first_pos_crlf_Nil by (auto simp: feed_simulates_def)
qed

lemma request_line_awaits: "awaits_line 131072 (request_line_new cvt)" and status_awaits: "awaits_line 128 (status_new cvt)"
  using chunks_new_inv
  by (auto simp: awaits_line_def request_line_new_def status_new_def Let_def subparser_init_def subparser.defs setParseMode_def
      setParseDelimiter_def setSecurityMaxURLSize_def setParseDataTargetSize_def b_setMaxSize_def sp_ok_def
      chunks_inv_def chunks_data_inv_def chunks_content_def chunks_new_def chunks_clear2_def chunks_clearChunks_def
      b_base.defs b_init_def)

section \<open>Status lines\<close>

lemma status_parse_keeps: "keeps_delimiter (status_parse cvt)"
  by (auto simp: keeps_delimiter_def status_parse_def Let_def split: list.splits)

definition words_ok :: "bytes list \<Rightarrow> bool" where
  "words_ok ws \<longleftrightarrow> list_all (\<lambda>w. w \<noteq> [] \<and> free_of (blanks @ [CHR 0x0D]) w) ws"

lemma join_Cons: "join sep (w # ws) = w @ concat (map ((@) sep) ws)"
proof (induction ws arbitrary: w)
  case (Cons a ws)
  have "join sep (w # a # ws) = w @ sep @ join sep (a # ws)" by simp
  then show ?case unfolding Cons.IH by simp
qed simp

lemma status_words_join: "status_words ws = join '' '' ws"
  by (cases ws) (simp_all add: join_Cons del: join.simps(3))

lemma set_join: "set (join sep ws) \<subseteq> set sep \<union> \<Union> (set ` set ws)"
  by (cases ws) (auto simp: join_Cons simp del: join.simps(3))

lemma blanks_free: "free_of (blanks @ [CHR 0x0D]) w \<Longrightarrow> free_of blanks w \<and> CHR 0x0D \<notin> set w"
  by (auto simp: free_of_def)

lemma version_text_ok: "version_toString v \<noteq> [] \<and> free_of (blanks @ [CHR 0x0D]) (version_toString v)"
  using free_of_dec [of "blanks @ [CHR 0x0D]"] by (auto simp: version_toString_def blanks_def is_digit_def)

lemma dec_word_ok: "dec n \<noteq> [] \<and> free_of (blanks @ [CHR 0x0D]) (dec n)"
  using free_of_dec [of "blanks @ [CHR 0x0D]" n] by (auto simp: blanks_def is_digit_def)

lemma join_words_no_CR: "words_ok ws \<Longrightarrow> CHR 0x0D \<notin> set (join '' '' ws)"
  using set_join [of "'' ''" ws] by (auto simp: words_ok_def list_all_iff free_of_def)

lemma split_words: "words_ok ws \<Longrightarrow> ws \<noteq> [] \<Longrightarrow> split_compress (any_of blanks) (join '' '' ws) = ws"
  by (rule split_any_of_join) (auto simp: words_ok_def list_all_iff free_of_def blanks_def)

definition status_line :: "'y http_status \<Rightarrow> bytes" where
  "status_line s = version_toString (st_httpVersion s) @ '' '' @ dec (m_statusCode s) @ '' '' @ m_statusMessage s"

text \<open>
  Status lines. What \<^verbatim>\<open>streamToUpstream\<close> prints for a status whose message is made of words is read back by a new
  \<^verbatim>\<open>Status\<close> with the same version, code and message, provided the line fits into the 128 bytes that the parser collects.
\<close>

theorem status_line_roundtrip:
  assumes "version_wf (st_httpVersion s)" and "m_statusCode s < 65536" and "words_ok ws" and "ws \<noteq> []" and "m_statusMessage s = join '' '' ws"
    and "length (status_line s) \<le> 126" and "chunks_roomy out 128" and "chunks_content out = []"
  shows "\<exists>out' s'. status_streamToUpstream (b_streamable (chunks_vt mvt fs)) s out = Inr (out', True)
    \<and> writeIntoParser (chunks_vt mvt fs) heap (status_parse (chunks_vt mvt fs)) (status_new (chunks_vt mvt fs)) (chunks_content out')
      = Inr (s', Some (length (chunks_content out')))
    \<and> m_parseStatus s' = PARSE_GOTO_NEXT_SUBPARSER \<and> st_httpVersion s' = st_httpVersion s \<and> m_statusCode s' = m_statusCode s
    \<and> m_statusMessage s' = m_statusMessage s"
proof -
  let ?cvt = "chunks_vt mvt fs" and ?ws = "version_toString (st_httpVersion s) # dec (m_statusCode s) # ws"
  have ok: "words_ok ?ws" using assms(3) version_text_ok dec_word_ok by (simp add: words_ok_def)
  have line: "status_line s = join '' '' ?ws" using assms(4,5) by (cases ws) (simp_all add: status_line_def)
  obtain out' where out': "status_streamToUpstream (b_streamable ?cvt) s out = Inr (out', True)" "chunks_content out' = status_line s @ crlf"
    using chunk_sink.full_write [OF assms(7), of "status_line s @ crlf" mvt fs] assms(6,8)
    by (auto simp: status_streamToUpstream_def writeString_def status_line_def crlf_def)
  obtain s1 where s1: "writeIntoParser ?cvt heap (status_parse ?cvt) (status_new ?cvt) (status_line s @ crlf)
      = sp_element ?cvt (status_parse ?cvt) s1 (length (status_line s) + 2)" "sp_view ?cvt s1 = status_line s"
    using line_element [OF status_awaits _ _ status_parse_keeps, where l = "status_line s" and mvt = mvt and fs = fs and heap = heap] join_words_no_CR [OF ok] assms(6) line by auto
  have "split_compress (any_of blanks) (b_toStringEx (ref_vt ?cvt) (getParsedBuffer s1) size_max 0) = ?ws"
    using split_words [OF ok] s1(2) line by (simp add: sp_view_def)
  moreover have "version_parse (version_toString (st_httpVersion s)) = st_httpVersion s" "uint16 (strtoul (dec (m_statusCode s))) = m_statusCode s"
    using version_roundtrip [OF assms(1)] assms(2) strtoul_dec_alone [of "m_statusCode s"] by (simp_all add: uint16_def size_max_def)
  ultimately show ?thesis
    using out' s1(1) assms(5)
    by (simp add: sp_element_def sp_parse_def status_parse_def sp_clearUnparsed_def setParseStatus_def status_words_join crlf_def)
qed

theorem status_line_roundtrip_witness:
  "\<exists>out' s'. status_streamToUpstream (b_streamable (chunks_vt mem_vt (\<lambda>_. None))) (setCode (status_new (chunks_vt mem_vt (\<lambda>_. None))) 404) small_chunks = Inr (out', True)
    \<and> writeIntoParser (chunks_vt mem_vt (\<lambda>_. None)) (\<lambda>_. []) (status_parse (chunks_vt mem_vt (\<lambda>_. None))) (status_new (chunks_vt mem_vt (\<lambda>_. None)))
        (chunks_content out') = Inr (s', Some (length (chunks_content out')))
    \<and> m_statusCode s' = 404 \<and> m_statusMessage s' = ''Not Found''"
proof -
  let ?s = "setCode (status_new (chunks_vt mem_vt (\<lambda>_. None))) 404"
  have msg: "getStringTranslation 404 = ''Not Found''" by code_simp
  have s: "st_httpVersion ?s = version_new" "m_statusCode ?s = 404" "m_statusMessage ?s = ''Not Found''"
    by (simp_all add: setCode_def setResponseMessage_def S_999_NOT_SET_def uint16_def msg
        status_new_def Let_def setParseDataTargetSize_def setParseDelimiter_def setParseMode_def subparser.defs)
  have l: "status_line ?s = ''HTTP/1.1 404 Not Found''" unfolding status_line_def s by code_simp
  have w: "words_ok [''Not'', ''Found'']" "''Not Found'' = join '' '' [''Not'', ''Found'']" "version_wf version_new"
    by (simp_all add: words_ok_def blanks_def version_wf_def version_new_def)
  have room: "chunks_roomy small_chunks 128" unfolding chunks_roomy_def
    by (rule small_chunks_fits) (simp_all add: small_chunks_def chunks_needed_def sum_list_replicate chunks_new_def chunks_clear2_def
        chunks_clearChunks_def b_base.defs b_setMaxSize_def)
  have c: "chunks_content small_chunks = []" using chunks_new_inv(2) by (simp add: small_chunks_def b_setMaxSize_def chunks_content_def)
  have "version_wf (st_httpVersion ?s)" "m_statusCode ?s < 65536" "[''Not'', ''Found''] \<noteq> []" "length (status_line ?s) \<le> 126"
    unfolding s l using w(3) by simp_all
  then show ?thesis using status_line_roundtrip [OF _ _ w(1) _ _ _ room c, of ?s mem_vt "\<lambda>_. None" "\<lambda>_. []"] w(2) s by metis
qed

section \<open>Request lines\<close>

text \<open>A text of at most one chunk is streamed out of a new container by a single write.\<close>

lemma single_chunk_plan:
  assumes "q \<noteq> []" and "length q \<le> 65536"
  shows "b_appendPlan (chunks_vt mvt fs) (fst (b_append (chunks_vt mvt fs) (chunks_new :: 'y chunks) q)) size_max 0 = PlanWrite [q]"
proof -
  let ?c = "chunks_new :: 'y chunks"
  have new: "chunks_roomy ?c (length q)" using assms(2) by (intro chunks_new_roomy) simp
  have size: "m_maxChunkSize ?c = 65536" "m_chunksVector ?c = []"
    by (simp_all add: chunks_new_def chunks_clear2_def chunks_clearChunks_def b_base.defs)
  have one: "chunks_needed ?c (length q) = 1"
    using assms size(1) by (simp add: chunks_needed_def div_nat_eqI Suc_le_eq)
  have "chunks_room ?c (length q)"
    using new one unfolding chunks_roomy_conv chunks_room_def using assms(1) by (cases q) auto
  then obtain new where n: "b_append (chunks_vt mvt fs) ?c q = (with_vec ?c (m_chunksVector ?c @ new), Some (length q))"
    "chunks_inv (with_vec ?c (m_chunksVector ?c @ new))" "vec_content new = q" "length new \<le> 1"
    using b_append_chunks [OF chunks_new_inv(1) _ assms(1), of mvt fs] one by metis
  let ?b = "with_vec ?c new"
  have b: "fst (b_append (chunks_vt mvt fs) ?c q) = ?b" "chunks_data_inv ?b" "chunks_content ?b = q" "m_chunksVector ?b = new"
    using n(1-3) size(2) by (simp_all add: chunks_inv_def chunks_content_def)
  note p = b_appendPlan_chunks(1) [OF b(2), of mvt fs] b_appendPlan_chunks(2) [OF b(2)]
  have "length (chunks_pieces new 0 (length q)) \<le> 1" using n(4) by (cases new) (auto simp: Let_def)
  then have "chunks_pieces new 0 (length q) = [q]"
    using p(2) assms(1) b(3,4) by (cases "chunks_pieces new 0 (length q)") auto
  then show ?thesis using p(1) assms(1) b by simp
qed

lemma request_parse_keeps: "keeps_delimiter (request_parse mvt fs heap)"
  by (auto simp: keeps_delimiter_def request_parse_def parseURI_def parseGETParameters_def Let_def
      split: list.splits sum.splits option.splits prod.splits)

lemma parseGETParameters_query:
  assumes "ps \<noteq> []" and "\<forall>kx\<in>set ps. uv_wf kx" and "length ps \<le> 2048" and "length (uv_query ps) \<le> 65536"
    and "m_requestURIParameters s = uv_query ps" and "m_getVars s = urlvars_create (chunks_vt mvt fs)"
  shows "\<exists>p. parseGETParameters (chunks_vt mvt fs) heap s = Inr (s\<lparr>m_getVars := p\<rparr>) \<and> vars_view (m_impl p) = foldl uv_store [] (butlast ps)"
proof -
  let ?cvt = "chunks_vt mvt fs"
  obtain p where p: "parser_write (urlvars_vt ?cvt heap) (urlvars_create ?cvt) (uv_query ps) = Inr (p, Some (length (uv_query ps)))"
    "vars_view (m_impl p) = foldl uv_store [] (butlast ps)"
    using uv_query_stored [OF assms(1,2) _ _ urlvars_create_state(1), where mvt = mvt and fs = fs and heap = heap] assms(3)
    by (auto simp: urlvars_create_state(2))
  have "safeAdd_size (length (uv_query ps)) 0 = Inr (length (uv_query ps))" using assms(4) by (simp add: safeAdd_size_eq size_max_def)
  then have "\<exists>r. b_streamTo ?cvt (fst (b_append ?cvt chunks_new (uv_query ps))) (urlvars_streamable ?cvt heap) (urlvars_create ?cvt) = Inr (p, r)"
    using p(1) single_chunk_plan [OF uv_query_not_Nil [OF assms(1)] assms(4), of mvt fs]
    by (auto simp: b_streamTo_def b_appendTo_def b_runPlan_def urlvars_streamable_def)
  then show ?thesis using p(2) assms(5,6) by (auto simp: parseGETParameters_def Let_def)
qed

definition request_text :: "bytes \<Rightarrow> bytes \<Rightarrow> (bytes \<times> bytes) list \<Rightarrow> http_version \<Rightarrow> bytes" where
  "request_text method path ps v = method @ '' '' @ path @ ''?'' @ uv_query ps @ '' '' @ version_toString v"

text \<open>
  Reading a request. A line \<^verbatim>\<open>METHOD path?k1=x1&...&kn=xn HTTP/a.b\<close> that is written to a new \<^verbatim>\<open>RequestLine\<close> completes it:
  the method is put in upper case, the version is read, and the path is stored as it stands, still percent-encoded. Of the
  \<open>n\<close> variables of the query only the first \<open>n - 1\<close> are stored, because the query is streamed into the variables without
  an end of stream.
\<close>

theorem request_line_read:
  assumes "words_ok [method, path @ ''?'' @ uv_query ps]" and "CHR ''?'' \<notin> set path" and "version_wf v"
    and "ps \<noteq> []" and "\<forall>kx\<in>set ps. uv_wf kx" and "length ps \<le> 2048" and "length (uv_query ps) \<le> 65536" and "byte_of 0 \<notin> set (uv_query ps)"
    and "length (request_text method path ps v) \<le> 131070"
  shows "\<exists>s. writeIntoParser (chunks_vt mvt fs) heap (request_parse mvt fs heap) (request_line_new (chunks_vt mvt fs)) (request_text method path ps v @ crlf)
      = Inr (s, Some (length (request_text method path ps v) + 2))
    \<and> m_parseStatus s = PARSE_GOTO_NEXT_SUBPARSER \<and> m_requestMethod s = to_upper_copy method \<and> m_requestURI s = path
    \<and> m_requestURIParameters s = uv_query ps \<and> m_httpVersion s = v
    \<and> vars_view (m_impl (m_getVars s)) = foldl uv_store [] (butlast ps)"
proof -
  let ?cvt = "chunks_vt mvt fs" and ?ws = "[method, path @ ''?'' @ uv_query ps, version_toString v]" and ?line = "request_text method path ps v"
  have ok: "words_ok ?ws" using assms(1) version_text_ok by (simp add: words_ok_def)
  have line: "?line = join '' '' ?ws" by (simp add: request_text_def)
  obtain s1 where s1: "writeIntoParser ?cvt heap (request_parse mvt fs heap) (request_line_new ?cvt) (?line @ crlf)
      = sp_element ?cvt (request_parse mvt fs heap) s1 (length ?line + 2)" "sp_view ?cvt s1 = ?line" "sp_same (request_line_new ?cvt) s1"
    using line_element [where parse = "request_parse mvt fs heap" and s = "request_line_new ?cvt" and l = ?line and mvt = mvt and fs = fs and heap = heap,
        OF request_line_awaits _ _ request_parse_keeps] join_words_no_CR [OF ok] assms(9) line by auto
  have vars: "m_getVars s1 = urlvars_create ?cvt"
  proof -
    have "subparser.more s1 = subparser.more (request_line_new ?cvt)" using s1(3) by (simp add: sp_same_def)
    then show ?thesis by (cases s1) (simp add: request_line_new_def setSecurityMaxURLSize_def setParseDataTargetSize_def setParseDelimiter_def
          setParseMode_def subparser.defs Let_def)
  qed
  have words: "split_compress (any_of blanks) (b_toStringEx (ref_vt ?cvt) (getParsedBuffer s1) size_max 0) = ?ws"
    using split_words [OF ok] s1(2) line by (simp add: sp_view_def)
  have found: "find_index ((=) CHR ''?'') (path @ ''?'' @ uv_query ps) = Some (length path)"
  proof -
    have "find_index ((=) CHR ''?'') path = None" using assms(2) unfolding find_index_None_iff by metis
    then show ?thesis by (simp add: find_index_append)
  qed
  let ?s2 = "s1\<lparr>m_requestMethod := to_upper_copy method, m_httpVersion := v, m_requestURIParameters := uv_query ps, m_requestURI := path\<rparr>"
  obtain p where p: "parseGETParameters ?cvt heap ?s2 = Inr (?s2\<lparr>m_getVars := p\<rparr>)" "vars_view (m_impl p) = foldl uv_store [] (butlast ps)"
    using parseGETParameters_query [OF assms(4-7), of ?s2 mvt fs heap] vars by auto
  have "length path \<le> 262144" using assms(9) by (simp add: request_text_def)
  then have "request_parse mvt fs heap s1 = Inr (?s2\<lparr>m_getVars := p\<rparr>, PARSE_GOTO_NEXT_SUBPARSER)"
    using words found p(1) version_roundtrip [OF assms(3)] c_str_id [OF assms(8)]
    by (simp add: request_parse_def parseURI_def decodeURLStr_id)
  then show ?thesis using s1(1) p(2) by (simp add: sp_element_def sp_parse_def sp_clearUnparsed_def setParseStatus_def)
qed

theorem request_line_read_witness:
  "\<exists>s. writeIntoParser (chunks_vt mem_vt (\<lambda>_. None)) (\<lambda>_. []) (request_parse mem_vt (\<lambda>_. None) (\<lambda>_. [])) (request_line_new (chunks_vt mem_vt (\<lambda>_. None)))
        (''get /a%20b?x=1&y=2 HTTP/1.1'' @ crlf) = Inr (s, Some 29)
    \<and> m_requestMethod s = ''GET'' \<and> m_requestURI s = ''/a%20b'' \<and> vars_view (m_impl (m_getVars s)) = [(''X'', ''1'')]"
proof -
  let ?ps = "[(''x'', ''1''), (''y'', ''2'')]"
  have q: "uv_query ?ps = ''x=1&y=2''" by code_simp
  have t: "request_text ''get'' ''/a%20b'' ?ps version_new = ''get /a%20b?x=1&y=2 HTTP/1.1''" by code_simp
  have wf: "\<forall>kx\<in>set ?ps. uv_wf kx" "foldl uv_store [] (butlast ?ps) = [(''X'', ''1'')]" "to_upper_copy ''get'' = ''GET''" by code_simp+
  have w: "words_ok [''get'', ''/a%20b'' @ ''?'' @ uv_query ?ps]" "version_wf version_new"
    unfolding q by (simp_all add: words_ok_def blanks_def version_wf_def version_new_def)
  have z: "byte_of 0 \<notin> set ''x=1&y=2''" by code_simp
  have n: "length ''get /a%20b?x=1&y=2 HTTP/1.1'' + 2 = 29" "CHR ''?'' \<notin> set ''/a%20b''" "?ps \<noteq> []" "length ?ps \<le> 2048"
    "length ''x=1&y=2'' \<le> 65536" "length ''get /a%20b?x=1&y=2 HTTP/1.1'' \<le> 131070" by simp_all
  from request_line_read [OF w(1) n(2) w(2) n(3) wf(1) n(4), where mvt = mem_vt and fs = "\<lambda>_. None" and heap = "\<lambda>_. []"]
  show ?thesis unfolding t q wf(2,3) n(1) using z n(5,6) by blast
qed

end
