(* ===== verification/HTTPContent.thy ===== *)
theory HTTPContent
  imports HTTPStartLine Encoders
begin

text \<open>
  The body of an HTTP message (\<^verbatim>\<open>src/Mantids30/Protocol_HTTP/common_content.cpp\<close>): a sub-parser that receives the body by its
  length, in chunks, or until the connection closes, and hands it to an output stream; and the transformer that sends a body in
  chunks (\<^verbatim>\<open>common_content_chunked_subparser.cpp\<close>). The output stream is any streamable object \<open>io\<close>; \<open>mk\<close> creates the
  container of a content type.
\<close>

section \<open>Hexadecimal sizes\<close>

text \<open>The \<^verbatim>\<open>%X\<close> conversion of \<^verbatim>\<open>printf\<close>.\<close>

fun hex_upper :: "nat \<Rightarrow> bytes" where
  "hex_upper n = (if n < 16 then [hex_digit_upper n] else hex_upper (n div 16) @ [hex_digit_upper (n mod 16)])"

declare hex_upper.simps [simp del]

definition hex_val :: "bytes \<Rightarrow> nat" where
  "hex_val ds = foldl (\<lambda>v c. v * 16 + hexToValue c) 0 ds"

text \<open>
  \<^verbatim>\<open>strtoul\<close> in base 16: the value and the text behind the number, \<open>None\<close> when there is no number. Blanks, a sign and the
  prefix \<^verbatim>\<open>0x\<close> are skipped; a value out of range is the largest one.
\<close>

definition strtoul16 :: "bytes \<Rightarrow> (nat \<times> bytes) option" where
  "strtoul16 s =
     (let s1 = dropWhile is_space s;
          neg = (s1 \<noteq> [] \<and> hd s1 = CHR ''-'');
          s2 = (if s1 \<noteq> [] \<and> (hd s1 = CHR ''-'' \<or> hd s1 = CHR ''+'') then tl s1 else s1);
          s3 = (if length s2 > 2 \<and> s2 ! 0 = CHR ''0'' \<and> (s2 ! 1 = CHR ''x'' \<or> s2 ! 1 = CHR ''X'') \<and> is_xdigit (s2 ! 2) then drop 2 s2 else s2);
          ds = takeWhile is_xdigit s3;
          v = hex_val ds
      in if ds = [] then None
         else Some (if v > size_max then size_max else if neg then (size_modulus - v) mod size_modulus else v, dropWhile is_xdigit s3))"

text \<open>\<^verbatim>\<open>B_Base::toUInt32(16)\<close>: the result is cut to 32 bits.\<close>

definition b_toUInt32 :: "'a b_base_scheme container_vt \<Rightarrow> 'a b_base_scheme \<Rightarrow> nat \<Rightarrow> nat \<Rightarrow> nat option" where
  "b_toUInt32 vt s bytes offset =
     (case b_toString vt s bytes offset of
        None \<Rightarrow> None
      | Some t \<Rightarrow>
          (case strtoul16 (c_str t) of
             None \<Rightarrow> None
           | Some (v, rest) \<Rightarrow> if rest \<noteq> [] then None else Some (v mod 2 ^ 32)))"

section \<open>The content sub-parser\<close>

datatype eDataType = CONTENT_TYPE_BIN | CONTENT_TYPE_MIME | CONTENT_TYPE_URL | CONTENT_TYPE_JSON

datatype eProcessingMode =
    PROCMODE_CHUNK_SIZE
  | PROCMODE_CHUNK_DATA
  | PROCMODE_CHUNK_CRLF
  | PROCMODE_CONTENT_LENGTH
  | PROCMODE_CONNECTION_CLOSE

datatype eTransmitionMode = TRANSMIT_MODE_CHUNKS | TRANSMIT_MODE_CONTENT_LENGTH | TRANSMIT_MODE_CONNECTION_CLOSE

record ('y, 'o) content = "'y subparser" +
  m_outStream :: 'o
  m_usingInternalOutStream :: bool
  m_transmitionMode :: eTransmitionMode
  m_currentMode :: eProcessingMode
  m_containerType :: eDataType
  m_securityMaxPostDataSize :: nat
  m_currentContentLengthSize :: nat
  m_securityMaxHttpChunkSize :: nat

definition content_new :: "'y chunks_vt \<Rightarrow> (eDataType \<Rightarrow> 'o) \<Rightarrow> ('y, 'o) content" where
  "content_new cvt mk =
     (subparser.extend (subparser_init cvt)
       \<lparr>m_outStream = mk CONTENT_TYPE_BIN, m_usingInternalOutStream = True, m_transmitionMode = TRANSMIT_MODE_CONNECTION_CLOSE,
        m_currentMode = PROCMODE_CONTENT_LENGTH, m_containerType = CONTENT_TYPE_BIN, m_securityMaxPostDataSize = 17 * 1048576,
        m_currentContentLengthSize = 0, m_securityMaxHttpChunkSize = 16 * 1048576\<rparr>)\<lparr>m_subParserName := ''Content''\<rparr>"

definition setSecurityMaxPostDataSize :: "('y, 'o) content \<Rightarrow> nat \<Rightarrow> ('y, 'o) content" where
  "setSecurityMaxPostDataSize s value = s\<lparr>m_securityMaxPostDataSize := value\<rparr>"

definition setSecurityMaxHttpChunkSize :: "('y, 'o) content \<Rightarrow> nat \<Rightarrow> ('y, 'o) content" where
  "setSecurityMaxHttpChunkSize s value = s\<lparr>m_securityMaxHttpChunkSize := value\<rparr>"

definition parseHttpChunkSize :: "'y chunks_vt \<Rightarrow> ('y, 'o) content \<Rightarrow> nat" where
  "parseHttpChunkSize cvt s =
     (case b_toUInt32 (ref_vt cvt) (getParsedBuffer s) size_max 0 of
        None \<Rightarrow> 2 ^ 32 - 1
      | Some n \<Rightarrow> if n > m_securityMaxHttpChunkSize s then 2 ^ 32 - 1 else n)"

text \<open>\<^verbatim>\<open>getParsedBuffer()->appendTo(*m_outStream)\<close> and \<^verbatim>\<open>m_outStream->writeEOF()\<close>, whose results are not looked at.\<close>

definition content_append :: "'y chunks_vt \<Rightarrow> 'o streamable \<Rightarrow> ('y, 'o) content \<Rightarrow> ('y, 'o) content result" where
  "content_append cvt io s =
     (case b_appendTo (ref_vt cvt) (getParsedBuffer s) io (m_outStream s) size_max 0 of
        Inl e \<Rightarrow> Inl e | Inr (out, _) \<Rightarrow> Inr (s\<lparr>m_outStream := out\<rparr>))"

definition content_eof :: "'o streamable \<Rightarrow> ('y, 'o) content \<Rightarrow> ('y, 'o) content result" where
  "content_eof io s =
     (case writeEOF io (m_outStream s) of Inl e \<Rightarrow> Inl e | Inr (out, _) \<Rightarrow> Inr (s\<lparr>m_outStream := out\<rparr>))"

definition with_status :: "ParseStatus \<Rightarrow> ('y, 'o) content result \<Rightarrow> (('y, 'o) content \<times> ParseStatus) result" where
  "with_status st r = (case r of Inl e \<Rightarrow> Inl e | Inr s \<Rightarrow> Inr (s, st))"

definition content_parse :: "'y chunks_vt \<Rightarrow> 'o streamable \<Rightarrow> ('y, 'o) content \<Rightarrow> (('y, 'o) content \<times> ParseStatus) result" where
  "content_parse cvt io s =
     (case m_currentMode s of
        PROCMODE_CHUNK_SIZE \<Rightarrow>
          (let targetChunkSize = parseHttpChunkSize cvt s
           in if targetChunkSize \<noteq> 2 ^ 32 - 1 then
                if targetChunkSize > 0 then
                  Inr ((setParseDataTargetSize (setParseMode s PARSE_MODE_SIZE) targetChunkSize)\<lparr>m_currentMode := PROCMODE_CHUNK_DATA\<rparr>,
                       PARSE_GET_MORE_DATA)
                else with_status PARSE_GOTO_NEXT_SUBPARSER (content_eof io s)
              else Inr (s, PARSE_ERROR))
      | PROCMODE_CHUNK_DATA \<Rightarrow>
          with_status PARSE_GET_MORE_DATA
            (content_append cvt io ((setParseDataTargetSize (setParseMode s PARSE_MODE_SIZE) 2)\<lparr>m_currentMode := PROCMODE_CHUNK_CRLF\<rparr>))
      | PROCMODE_CHUNK_CRLF \<Rightarrow>
          Inr ((setParseDataTargetSize (setParseDelimiter (setParseMode s PARSE_MODE_DELIMITER) crlf) 1024)\<lparr>m_currentMode := PROCMODE_CHUNK_SIZE\<rparr>,
               PARSE_GET_MORE_DATA)
      | PROCMODE_CONTENT_LENGTH \<Rightarrow>
          (case content_append cvt io s of
             Inl e \<Rightarrow> Inl e
           | Inr s' \<Rightarrow>
               if getUnparsedDataSize cvt s' > 0 then Inr (s', PARSE_GET_MORE_DATA)
               else with_status PARSE_GOTO_NEXT_SUBPARSER (content_eof io s'))
      | PROCMODE_CONNECTION_CLOSE \<Rightarrow>
          if vt_size (ref_vt cvt) (getParsedBuffer s) \<noteq> 0 then with_status PARSE_GET_MORE_DATA (content_append cvt io s)
          else with_status PARSE_GOTO_NEXT_SUBPARSER (content_eof io s))"

definition setContainerType :: "(eDataType \<Rightarrow> 'o) \<Rightarrow> ('y, 'o) content \<Rightarrow> eDataType \<Rightarrow> ('y, 'o) content" where
  "setContainerType mk s value =
     (let s' = s\<lparr>m_containerType := value\<rparr>
      in if m_usingInternalOutStream s' then s'\<lparr>m_outStream := mk value\<rparr> else s')"

text \<open>The typed views of the output stream: the container type decides whether it may be asked for.\<close>

definition getUrlPostVars :: "('y, 'o) content \<Rightarrow> 'o result" where
  "getUrlPostVars s =
     (if m_containerType s = CONTENT_TYPE_URL \<and> m_usingInternalOutStream s then Inr (m_outStream s)
      else Inl (RuntimeError ''Invalid operation: getUrlPostVars should not be called when the content type is not URL.''))"

definition getJSONVars :: "('y, 'o) content \<Rightarrow> 'o result" where
  "getJSONVars s =
     (if m_containerType s = CONTENT_TYPE_JSON \<and> m_usingInternalOutStream s then Inr (m_outStream s)
      else Inl (RuntimeError ''Invalid operation: getJSONVars should not be called when the content type is not JSON.''))"

definition getMultiPartVars :: "('y, 'o) content \<Rightarrow> 'o result" where
  "getMultiPartVars s =
     (if m_containerType s = CONTENT_TYPE_MIME \<and> m_usingInternalOutStream s then Inr (m_outStream s)
      else Inl (RuntimeError ''Invalid operation: getMultiPartVars should not be called when the content type is not MIME.''))"

definition postVars :: "('y, 'o) content \<Rightarrow> 'o result" where
  "postVars s =
     (if \<not> m_usingInternalOutStream s then Inl (RuntimeError ''Error: not using internal output stream'')
      else if m_containerType s = CONTENT_TYPE_BIN then Inl (RuntimeError ''Error: container type is binary'')
      else if m_containerType s = CONTENT_TYPE_JSON then Inl (RuntimeError ''Error: container type is JSON'')
      else Inr (m_outStream s))"

definition setTransmitionMode :: "('y, 'o) content \<Rightarrow> eTransmitionMode \<Rightarrow> ('y, 'o) content" where
  "setTransmitionMode s0 value =
     (let s = s0\<lparr>m_transmitionMode := value\<rparr>
      in case value of
           TRANSMIT_MODE_CONNECTION_CLOSE \<Rightarrow>
             (setParseDataTargetSize (setParseMode s PARSE_MODE_DIRECT) (m_securityMaxPostDataSize s))\<lparr>m_currentMode := PROCMODE_CONNECTION_CLOSE\<rparr>
         | TRANSMIT_MODE_CHUNKS \<Rightarrow>
             (setParseDataTargetSize (setParseDelimiter (setParseMode s PARSE_MODE_DELIMITER) crlf) 64)\<lparr>m_currentMode := PROCMODE_CHUNK_SIZE\<rparr>
         | TRANSMIT_MODE_CONTENT_LENGTH \<Rightarrow>
             (setParseMode s PARSE_MODE_DIRECT)\<lparr>m_currentMode := PROCMODE_CONTENT_LENGTH\<rparr>)"

definition setContentLenSize :: "('y, 'o) content \<Rightarrow> nat \<Rightarrow> ('y, 'o) content \<times> bool" where
  "setContentLenSize s contentLengthSize =
     (if contentLengthSize > m_securityMaxPostDataSize s
      then (setParseDataTargetSize (s\<lparr>m_currentContentLengthSize := 0\<rparr>) 0, False)
      else (setParseDataTargetSize (s\<lparr>m_currentContentLengthSize := contentLengthSize\<rparr>) contentLengthSize, True))"

text \<open>\<open>setMem\<close> is \<^verbatim>\<open>setMaxSizeInMemoryBeforeMovingToDisk\<close> of the binary container.\<close>

definition setMaxBinPostMemoryBeforeFS :: "('o \<Rightarrow> nat \<Rightarrow> 'o) \<Rightarrow> ('y, 'o) content \<Rightarrow> nat \<Rightarrow> ('y, 'o) content result" where
  "setMaxBinPostMemoryBeforeFS setMem s value =
     (if m_containerType s = CONTENT_TYPE_BIN \<and> m_usingInternalOutStream s then Inr (s\<lparr>m_outStream := setMem (m_outStream s) value\<rparr>)
      else Inl (RuntimeError ''This method is only meant for the internal container. Custom containers should be configured externally.''))"

text \<open>\<^verbatim>\<open>setStreamableObj\<close>: the null pointer goes back to a new internal container of the last type.\<close>

definition setStreamableObj :: "(eDataType \<Rightarrow> 'o) \<Rightarrow> ('y, 'o) content \<Rightarrow> 'o option \<Rightarrow> ('y, 'o) content" where
  "setStreamableObj mk s outDataContainer =
     (case outDataContainer of
        Some out \<Rightarrow> s\<lparr>m_usingInternalOutStream := False, m_outStream := out\<rparr>
      | None \<Rightarrow> setContainerType mk (s\<lparr>m_usingInternalOutStream := True\<rparr>) (m_containerType s))"

section \<open>Sending in chunks\<close>

record chunk_transformer =
  ct_status :: WriteStatus
  ct_pos :: nat

definition chunk_transformer_new :: chunk_transformer where
  "chunk_transformer_new = \<lparr>ct_status = ws_init, ct_pos = 0\<rparr>"

text \<open>\<^verbatim>\<open>writeStatus += -1\<close> of the transformer, then the null result.\<close>

definition ct_fail :: "chunk_transformer \<Rightarrow> 'u \<Rightarrow> ((chunk_transformer \<times> 'u) \<times> nat option) result" where
  "ct_fail t up = (case ws_add (ct_status t) (-1) of Inl e \<Rightarrow> Inl e | Inr ws \<Rightarrow> Inr ((t\<lparr>ct_status := ws\<rparr>, up), None))"

definition ct_write :: "'u streamable \<Rightarrow> chunk_transformer \<times> 'u \<Rightarrow> bytes \<Rightarrow> ((chunk_transformer \<times> 'u) \<times> nat option) result" where
  "ct_write io tu buf =
     (case tu of (t, up) \<Rightarrow>
        if length buf = 0 then
          (case writeString io up (if ct_pos t = 0 then ''0'' @ crlf @ crlf else crlf @ ''0'' @ crlf @ crlf) of
             Inl e \<Rightarrow> Inl e
           | Inr (up', False) \<Rightarrow> ct_fail t up'
           | Inr (up', True) \<Rightarrow> Inr ((t, up'), Some 0))
        else if uadd (length buf) 64 < length buf then
          (case ct_fail t up of
             Inl e \<Rightarrow> Inl e
           | Inr ((t', up'), r) \<Rightarrow>
               (case so_add_status io up' (-1) of Inl e \<Rightarrow> Inl e | Inr up'' \<Rightarrow> Inr ((t', up''), None)))
        else
          (case writeString io up ((if ct_pos t = 0 then [] else crlf) @ hex_upper (length buf mod 2 ^ 32) @ crlf) of
             Inl e \<Rightarrow> Inl e
           | Inr (up1, _) \<Rightarrow>
               if \<not> succeed (so_status io up1) then ct_fail t up1
               else
                 (case writeFullStream io up1 buf of
                    Inl e \<Rightarrow> Inl e
                  | Inr (up2, False) \<Rightarrow> Inr ((t, up2), None)
                  | Inr (up2, True) \<Rightarrow> Inr ((t\<lparr>ct_pos := uadd (ct_pos t) (length buf)\<rparr>, up2), Some (length buf)))))"

definition chunk_streamable :: "'u streamable \<Rightarrow> (chunk_transformer \<times> 'u) streamable" where
  "chunk_streamable io =
     \<lparr>so_write = ct_write io, so_status = (\<lambda>(t, up). ct_status t), so_set_status = (\<lambda>ws (t, up). (t\<lparr>ct_status := ws\<rparr>, up))\<rparr>"

text \<open>
  \<^verbatim>\<open>Content::streamToUpstream\<close>. The virtual \<^verbatim>\<open>streamTo\<close> of the output stream is used with two kinds of destination, and is given
  for both; the destructor of the transformer writes the end of the stream. The result is the status of the output stream itself.
\<close>

definition content_streamToUpstream ::
  "'o streamable \<Rightarrow> 'u streamable \<Rightarrow> ('o \<Rightarrow> 'u \<Rightarrow> ('u \<times> bool) result) \<Rightarrow>
    ('o \<Rightarrow> chunk_transformer \<times> 'u \<Rightarrow> ((chunk_transformer \<times> 'u) \<times> bool) result) \<Rightarrow> ('y, 'o) content \<Rightarrow> 'u \<Rightarrow> ('u \<times> bool) result" where
  "content_streamToUpstream oio io streamTo streamToChunked s up =
     (case m_transmitionMode s of
        TRANSMIT_MODE_CHUNKS \<Rightarrow>
          (case streamToChunked (m_outStream s) (chunk_transformer_new, up) of
             Inl e \<Rightarrow> Inl e
           | Inr (tu, _) \<Rightarrow>
               (case writeEOF (chunk_streamable io) tu of
                  Inl e \<Rightarrow> Inl e
                | Inr ((t, up'), _) \<Rightarrow> Inr (up', succeed (so_status oio (m_outStream s)))))
      | _ \<Rightarrow>
          (case streamTo (m_outStream s) up of
             Inl e \<Rightarrow> Inl e | Inr (up', _) \<Rightarrow> Inr (up', succeed (so_status oio (m_outStream s)))))"

section \<open>Sizes are read back\<close>

definition hex_digit_good :: "nat \<Rightarrow> bool" where
  "hex_digit_good d \<longleftrightarrow> hexToValue (hex_digit_upper d) = d \<and> is_xdigit (hex_digit_upper d) \<and> \<not> is_space (hex_digit_upper d)
     \<and> hex_digit_upper d \<notin> set (byte_of 0 # CHR 0x0D # ''-+xX'')"

lemma hex_digits_good: "list_all hex_digit_good [0..<16]"
  by code_simp

lemma hex_digit_facts:
  assumes "d < 16"
  shows "hexToValue (hex_digit_upper d) = d" "is_xdigit (hex_digit_upper d)" "hex_digit_upper d \<noteq> byte_of 0" "\<not> is_space (hex_digit_upper d)"
    "hex_digit_upper d \<noteq> CHR ''-''" "hex_digit_upper d \<noteq> CHR ''+''" "hex_digit_upper d \<noteq> CHR ''x''" "hex_digit_upper d \<noteq> CHR ''X''"
    "hex_digit_upper d \<noteq> CHR 0x0D"
  using hex_digits_good assms unfolding list_all_iff hex_digit_good_def by simp_all

lemma hex_upper_digits: "c \<in> set (hex_upper n) \<Longrightarrow> \<exists>d<16. c = hex_digit_upper d"
proof (induction n rule: hex_upper.induct)
  case (1 n)
  show ?case
  proof (cases "n < 16")
    case True
    then show ?thesis using 1(2) by (simp add: hex_upper.simps [of n]) blast
  next
    case False
    then have "c \<in> set (hex_upper (n div 16)) \<or> c = hex_digit_upper (n mod 16)" using 1(2) by (auto simp: hex_upper.simps [of n])
    then show ?thesis using 1(1) [OF False] by (metis mod_less_divisor zero_less_numeral)
  qed
qed

lemma hex_upper_not_Nil [simp]: "hex_upper n \<noteq> []"
  by (simp add: hex_upper.simps [of n])

lemma hex_val_upper: "hex_val (hex_upper n) = n"
proof (induction n rule: hex_upper.induct)
  case (1 n)
  show ?case
  proof (cases "n < 16")
    case True
    then show ?thesis by (simp add: hex_upper.simps [of n] hex_val_def hex_digit_facts(1))
  next
    case False
    then have "hex_val (hex_upper n) = hex_val (hex_upper (n div 16)) * 16 + n mod 16"
      by (simp add: hex_upper.simps [of n] hex_val_def hex_digit_facts(1))
    then show ?thesis using 1 [OF False] by simp
  qed
qed

lemma strtoul16_upper:
  assumes "n \<le> size_max"
  shows "strtoul16 (c_str (hex_upper n)) = Some (n, [])"
proof -
  let ?h = "hex_upper n"
  have all: "is_xdigit c" "c \<noteq> byte_of 0" "\<not> is_space c" "c \<noteq> CHR ''-''" "c \<noteq> CHR ''+''" "c \<noteq> CHR ''x''" "c \<noteq> CHR ''X''" if "c \<in> set ?h" for c
  proof -
    obtain d where d: "d < 16" "c = hex_digit_upper d" using hex_upper_digits [OF \<open>c \<in> set ?h\<close>] by blast
    note f = hex_digit_facts [OF d(1)]
    show "is_xdigit c" "c \<noteq> byte_of 0" "\<not> is_space c" "c \<noteq> CHR ''-''" "c \<noteq> CHR ''+''" "c \<noteq> CHR ''x''" "c \<noteq> CHR ''X''"
      unfolding d(2) using f(2-8) by simp_all
  qed
  have c: "c_str ?h = ?h" using all(2) by (intro c_str_id) blast
  obtain a as where a: "?h = a # as" by (cases ?h) auto
  then have sp: "dropWhile is_space ?h = ?h" "hd ?h \<noteq> CHR ''-''" "hd ?h \<noteq> CHR ''+''" using all [of a] by simp_all
  have x: "\<not> (length ?h > 2 \<and> ?h ! 0 = CHR ''0'' \<and> (?h ! 1 = CHR ''x'' \<or> ?h ! 1 = CHR ''X'') \<and> is_xdigit (?h ! 2))"
    using all(6,7) nth_mem [of 1 ?h] by fastforce
  have w: "takeWhile is_xdigit ?h = ?h" "dropWhile is_xdigit ?h = []" using all(1) by (simp_all add: takeWhile_eq_all_conv dropWhile_eq_Nil_conv)
  have sign: "(if ?h \<noteq> [] \<and> (hd ?h = CHR ''-'' \<or> hd ?h = CHR ''+'') then tl ?h else ?h) = ?h" "\<not> (?h \<noteq> [] \<and> hd ?h = CHR ''-'')"
    using sp(2,3) by simp_all
  show ?thesis unfolding c strtoul16_def Let_def sp(1) sign(1) if_not_P [OF x] if_not_P [OF sign(2)] w hex_val_upper using assms by simp
qed

section \<open>The output stream\<close>

text \<open>A destination with room that may also be told the end of the stream.\<close>

locale ending_sink = roomy_sink io delivered room
  for io :: "'o streamable" and delivered :: "'o \<Rightarrow> bytes" and room :: "'o \<Rightarrow> nat \<Rightarrow> bool" +
  assumes room_eof: "room out n \<Longrightarrow> \<exists>out' b. writeEOF io out = Inr (out', b) \<and> delivered out' = delivered out"
begin

lemma pieces_delivered:
  "room out n \<Longrightarrow> length (concat ps) \<le> n \<Longrightarrow> [] \<notin> set ps \<Longrightarrow> copied + length (concat ps) \<le> size_max \<Longrightarrow>
     \<exists>out'. b_writeChunks io out ps copied = Inr (out', Some (copied + length (concat ps)))
       \<and> delivered out' = delivered out @ concat ps \<and> room out' (n - length (concat ps))"
proof (induction ps arbitrary: out n copied)
  case (Cons p ps)
  then obtain out1 where w: "so_write io out p = Inr (out1, Some (length p))" "delivered out1 = delivered out @ p" "room out1 (n - length p)"
    using roomy_write [of out n p] by auto
  have "safeAdd_size (length p) copied = Inr (copied + length p)" using Cons.prems(4) by (simp add: safeAdd_size_eq add.commute)
  moreover obtain out2 where "b_writeChunks io out1 ps (copied + length p) = Inr (out2, Some (copied + length p + length (concat ps)))"
    "delivered out2 = delivered out1 @ concat ps" "room out2 (n - length p - length (concat ps))"
    using Cons.IH [OF w(3) _ _, of "copied + length p"] Cons.prems(2-4) by (simp add: le_diff_conv2) (use that in blast)
  ultimately show ?case using w room_status [OF w(3)] by simp
qed simp

text \<open>A reference to the front of a chunked container, streamed into the destination.\<close>

lemma reference_delivered:
  assumes "ref_inv chunks_content chunks_inv r" and "referencedBC r = Some bc" and "referencedOffset r = 0"
    and "room out n" and "length (ref_content chunks_content r) \<le> n" and "ref_content chunks_content r \<noteq> []"
  shows "\<exists>out'. b_appendTo (ref_vt (chunks_vt mvt fs)) r io out size_max 0 = Inr (out', Some (length (ref_content chunks_content r)))
    \<and> delivered out' = delivered out @ ref_content chunks_content r \<and> room out' (n - length (ref_content chunks_content r))"
proof -
  obtain ps where ps: "b_appendPlan (ref_vt (chunks_vt mvt fs)) r size_max 0 = PlanWrite ps" "concat ps = ref_content chunks_content r" "[] \<notin> set ps"
    using b_appendPlan_ref [OF assms(1-3,6)] by metis
  have "length (chunks_content bc) \<le> size_max" using assms(1,2) by (simp add: ref_inv_def chunks_inv_def chunks_data_inv_def)
  then have "length (ref_content chunks_content r) \<le> size_max" using assms(2) by (simp add: ref_content_def)
  then show ?thesis using pieces_delivered [OF assms(4) _ ps(3), of 0] assms(5) ps(1,2) by (simp add: b_appendTo_def b_runPlan_def)
qed

end

interpretation chunk_end: ending_sink "b_streamable (chunks_vt mvt fs)" chunks_content chunks_roomy
  for mvt fs
proof
  fix s :: "'a chunks" and n
  assume "chunks_roomy s n"
  then have s: "succeed (writeStatus s)" "\<not> finish (writeStatus s)" "\<not> m_readOnly s" by (simp_all add: chunks_roomy_conv)
  then have "b_append (chunks_vt mvt fs) s [] = (s, None)" by (simp add: b_append_def Let_def)
  then show "\<exists>out' b. writeEOF (b_streamable (chunks_vt mvt fs)) s = Inr (out', b) \<and> chunks_content out' = chunks_content s"
    using s by (simp add: writeEOF_def b_streamable_def b_write_def ws_add_def so_fail_minus_1_def chunks_content_def) blast
qed

section \<open>Collecting buffers\<close>

text \<open>The buffer of a sub-parser when it is empty, whatever its size limit.\<close>

definition empty_buffer :: "nat \<Rightarrow> 'y chunks \<Rightarrow> bool" where
  "empty_buffer n u \<longleftrightarrow> chunks_inv u \<and> chunks_content u = [] \<and> \<not> m_readOnly u \<and> 0 < m_maxChunkSize u
     \<and> m_maxSizeInMemoryBeforeMovingToDisk u = 0 \<and> m_maxChunks u = 262144 \<and> m_maxSize u = n"

text \<open>A buffer that holds data; its limit may have been changed since.\<close>

definition filled_buffer :: "bytes \<Rightarrow> 'y chunks \<Rightarrow> bool" where
  "filled_buffer w u \<longleftrightarrow> chunks_inv u \<and> chunks_content u = w \<and> \<not> m_readOnly u \<and> 0 < m_maxChunkSize u
     \<and> m_maxSizeInMemoryBeforeMovingToDisk u = 0 \<and> m_maxChunks u = 262144"

lemma empty_buffer_ok: "empty_buffer n u \<Longrightarrow> n \<le> 262144 \<Longrightarrow> sp_ok u"
  by (simp add: empty_buffer_def sp_ok_def)

lemma sp_ok_filled: "sp_ok u \<Longrightarrow> filled_buffer (chunks_content u) u"
  by (simp add: sp_ok_def filled_buffer_def)

lemma filled_retarget [simp]: "filled_buffer w (b_setMaxSize u n) \<longleftrightarrow> filled_buffer w u" "m_maxSize (b_setMaxSize u n) = n"
  by (simp_all add: filled_buffer_def b_setMaxSize_def chunks_inv_def chunks_data_inv_def chunks_content_def)

lemma filled_clear: "filled_buffer w u \<Longrightarrow> empty_buffer (m_maxSize u) (fst (b_clear (chunks_vt mvt fs) u))"
  using b_clear_chunks [of mvt fs u]
  by (auto simp: filled_buffer_def empty_buffer_def b_clear_def b_clear0_def chunks_vt_def chunks_clear2_def chunks_clearChunks_def)

lemma empty_buffer_append:
  assumes "empty_buffer n (m_unparsedBuffer s)" and "buf \<noteq> []" and "0 < n" and "n \<le> size_max" and "k = min (length buf) n" and "k \<le> 262144"
  obtains u where "appendToUnparsedBuffer (chunks_vt mvt fs) s buf = (s\<lparr>m_unparsedBuffer := u\<rparr>, Some k)"
    "filled_buffer (take k buf) u" "m_maxSize u = n"
proof -
  let ?u = "m_unparsedBuffer s" and ?cvt = "chunks_vt mvt fs"
  have u: "chunks_inv ?u" "chunks_content ?u = []" "m_maxSize ?u = n" using assms(1) by (simp_all add: empty_buffer_def)
  have "m_chunksVector ?u = []"
    using u(1,2) vec_length_le [of "m_chunksVector ?u"] by (simp add: chunks_inv_def chunks_data_inv_def chunks_content_def)
  moreover have "chunks_needed ?u k \<le> k" using assms(1) by (intro chunks_needed_le) (simp add: empty_buffer_def)
  ultimately have room: "chunks_room ?u (length (take k buf))"
    using assms u(2) by (auto simp: chunks_room_def empty_buffer_def min_def)
  have ne: "take k buf \<noteq> []" "length (take k buf) = k" using assms(2,3,5) by simp_all
  obtain new where
    a: "b_append ?cvt ?u (take k buf) = (with_vec ?u (m_chunksVector ?u @ new), Some k)"
      "chunks_inv (with_vec ?u (m_chunksVector ?u @ new))" "vec_content new = take k buf"
    using b_append_chunks [OF u(1) room ne(1), of mvt fs] ne(2) by metis
  have left: "b_getSizeLeft ?cvt ?u = n" using u bchunks.size_content [OF u(1), of mvt fs] by (simp add: b_getSizeLeft_def)
  have "filled_buffer (take k buf) (with_vec ?u (m_chunksVector ?u @ new))"
    using a(2,3) assms(1) u(2) by (simp add: filled_buffer_def empty_buffer_def chunks_content_def)
  then show thesis
    using that [of "with_vec ?u (m_chunksVector ?u @ new)"] a(1) assms(2,3,5) left u(3)
    by (simp add: appendToUnparsedBuffer_def Let_def)
qed

text \<open>The parsed buffer of the sub-parser shows the whole unparsed buffer.\<close>

definition shows_all :: "('y, 'a) subparser_scheme \<Rightarrow> bool" where
  "shows_all s \<longleftrightarrow> referencedBC (m_parsedBuffer s) \<noteq> None \<and> referencedOffset (m_parsedBuffer s) = 0 \<and> referencedMaxBytes (m_parsedBuffer s) = size_max"

lemma shows_all_reference: "chunks_inv (m_unparsedBuffer s) \<Longrightarrow> shows_all (sp_reference (chunks_vt mvt fs) s 0 size_max)"
  by (simp add: shows_all_def sp_reference_def ref_reference_def)

lemma shows_all_content:
  assumes "shows_all s" and "filled_buffer w (m_unparsedBuffer s)"
  shows "ref_inv chunks_content chunks_inv (getParsedBuffer s)" and "referencedBC (getParsedBuffer s) = Some (m_unparsedBuffer s)"
    and "referencedOffset (getParsedBuffer s) = 0" and "ref_content chunks_content (getParsedBuffer s) = w"
proof -
  have r: "referencedBC (getParsedBuffer s) = Some (m_unparsedBuffer s)" "referencedOffset (getParsedBuffer s) = 0"
    "referencedMaxBytes (getParsedBuffer s) = size_max"
    using assms(1) by (auto simp: shows_all_def getParsedBuffer_def)
  then show "referencedBC (getParsedBuffer s) = Some (m_unparsedBuffer s)" "referencedOffset (getParsedBuffer s) = 0" by simp_all
  have u: "chunks_inv (m_unparsedBuffer s)" "chunks_content (m_unparsedBuffer s) = w" using assms(2) by (simp_all add: filled_buffer_def)
  show "ref_inv chunks_content chunks_inv (getParsedBuffer s)" using r u by (simp add: ref_inv_def)
  have "length w \<le> size_max" using u by (auto simp: chunks_inv_def chunks_data_inv_def)
  then show "ref_content chunks_content (getParsedBuffer s) = w" using r u by (simp add: ref_content_def)
qed

context ending_sink
begin

lemma content_append_delivers:
  assumes "shows_all s" and "filled_buffer w (m_unparsedBuffer s)" and "room (m_outStream s) n" and "length w \<le> n" and "w \<noteq> []"
  obtains out where "content_append (chunks_vt mvt fs) io s = Inr (s\<lparr>m_outStream := out\<rparr>)" and "delivered out = delivered (m_outStream s) @ w"
    and "room out (n - length w)"
  using reference_delivered [OF shows_all_content(1-3) [OF assms(1,2)] assms(3), of mvt fs] assms(4,5) shows_all_content(4) [OF assms(1,2)]
  by (auto simp: content_append_def)

lemma content_eof_keeps:
  assumes "room (m_outStream s) n"
  obtains out where "content_eof io s = Inr (s\<lparr>m_outStream := out\<rparr>)" and "delivered out = delivered (m_outStream s)"
  using room_eof [OF assms] by (auto simp: content_eof_def)

text \<open>One write in the mode that counts the length of the body.\<close>

definition body_expects :: "nat \<Rightarrow> ('y, 'o) content \<Rightarrow> bool" where
  "body_expects n s \<longleftrightarrow> m_parseMode s = PARSE_MODE_DIRECT \<and> m_currentMode s = PROCMODE_CONTENT_LENGTH
     \<and> empty_buffer n (m_unparsedBuffer s) \<and> room (m_outStream s) n"

lemma body_write:
  assumes "body_expects n s" and "buf \<noteq> []" and "0 < n" and "n \<le> size_max" and "k = min (length buf) n" and "k \<le> 262144"
  obtains s' where "writeIntoParser (chunks_vt mvt fs) heap (content_parse (chunks_vt mvt fs) io) s buf = Inr (s', Some k)"
    and "delivered (m_outStream s') = delivered (m_outStream s) @ take k buf"
    and "m_parseStatus s' = (if k < n then PARSE_GET_MORE_DATA else PARSE_GOTO_NEXT_SUBPARSER)"
    and "k < n \<Longrightarrow> body_expects (n - k) s'"
proof -
  let ?cvt = "chunks_vt mvt fs"
  note b = assms(1) [unfolded body_expects_def]
  obtain u where u: "appendToUnparsedBuffer ?cvt s buf = (s\<lparr>m_unparsedBuffer := u\<rparr>, Some k)" "filled_buffer (take k buf) u" "m_maxSize u = n"
    using empty_buffer_append [of n s buf k mvt fs] b assms(2-6) by metis
  let ?s1 = "sp_reference ?cvt (s\<lparr>m_unparsedBuffer := u\<rparr>) 0 size_max"
  have s1: "shows_all ?s1" "filled_buffer (take k buf) (m_unparsedBuffer ?s1)" "room (m_outStream ?s1) n" "m_currentMode ?s1 = PROCMODE_CONTENT_LENGTH"
  proof -
    show "shows_all ?s1" using u(2) by (intro shows_all_reference) (simp add: filled_buffer_def)
    show "filled_buffer (take k buf) (m_unparsedBuffer ?s1)" using u(2) by simp
    show "room (m_outStream ?s1) n" "m_currentMode ?s1 = PROCMODE_CONTENT_LENGTH" using b by (simp_all add: sp_reference_def)
  qed
  have len: "length (take k buf) = k" "take k buf \<noteq> []" using assms(2,3,5) by simp_all
  obtain out where out: "content_append ?cvt io ?s1 = Inr (?s1\<lparr>m_outStream := out\<rparr>)"
      "delivered out = delivered (m_outStream ?s1) @ take k buf" "room out (n - k)"
    using content_append_delivers [OF s1(1-3), of mvt fs] len assms(5) by auto
  have size: "vt_size ?cvt u = k" using u(2) len bchunks.size_content [of u mvt fs] by (simp add: filled_buffer_def)
  have left: "getUnparsedDataSize ?cvt (?s1\<lparr>m_outStream := out\<rparr>) = n - k"
    using size u(3) assms(5) by (simp add: getUnparsedDataSize_def b_getSizeLeft_def)
  obtain out' st where p: "content_parse ?cvt io ?s1 = Inr (?s1\<lparr>m_outStream := out'\<rparr>, st)" "delivered out' = delivered out"
      "st = (if k < n then PARSE_GET_MORE_DATA else PARSE_GOTO_NEXT_SUBPARSER)" "k < n \<Longrightarrow> room out' (n - k)"
  proof (cases "k < n")
    case True
    then show thesis using that [of out] out s1(4) left by (simp add: content_parse_def)
  next
    case False
    obtain out2 where "content_eof io (?s1\<lparr>m_outStream := out\<rparr>) = Inr (?s1\<lparr>m_outStream := out2\<rparr>)" "delivered out2 = delivered out"
      using content_eof_keeps [of "?s1\<lparr>m_outStream := out\<rparr>" "n - k"] out(3) by auto
    then show thesis using that [of out2] False out s1(4) left by (simp add: content_parse_def with_status_def)
  qed
  let ?s2 = "setParseStatus (?s1\<lparr>m_outStream := out'\<rparr>) st"
  let ?v = "fst (b_clear ?cvt u)"
  have v: "empty_buffer n ?v" using filled_clear [OF u(2), of mvt fs] u(3) by simp
  then have "b_reduceMaxSizeBy ?v k = Inr (b_setMaxSize ?v (n - k))" using assms(5) by (simp add: b_reduceMaxSizeBy_def empty_buffer_def)
  then have w: "writeIntoParser ?cvt heap (content_parse ?cvt io) s buf = Inr (?s2\<lparr>m_unparsedBuffer := b_setMaxSize ?v (n - k)\<rparr>, Some k)"
    using b assms(2) u(1) p(1) size by (simp add: writeIntoParser_def parseDirect_def sp_parse_def sp_clearUnparsed_def setParseStatus_def Let_def)
  have "empty_buffer (n - k) (b_setMaxSize ?v (n - k))"
    using v by (simp add: empty_buffer_def b_setMaxSize_def chunks_inv_def chunks_data_inv_def chunks_content_def)
  then show thesis
    using that [OF w] p(2-4) out(2) b by (simp add: body_expects_def setParseStatus_def sp_reference_def)
qed

end

section \<open>A body in blocks\<close>

text \<open>
  The writes of a parser to the content, one block after the other, as long as the content takes whole blocks and asks for more:
  the state and the number of bytes taken.
\<close>

fun content_writes :: "'y chunks_vt \<Rightarrow> (nat \<Rightarrow> bytes) \<Rightarrow> 'o streamable \<Rightarrow> ('y, 'o) content \<Rightarrow> bytes list \<Rightarrow> (('y, 'o) content \<times> nat) result" where
  "content_writes cvt heap io s [] = Inr (s, 0)"
| "content_writes cvt heap io s (b # bs) =
     (case writeIntoParser cvt heap (content_parse cvt io) (setParseStatus s PARSE_GET_MORE_DATA) b of
        Inl e \<Rightarrow> Inl e
      | Inr (s', None) \<Rightarrow> Inr (s', 0)
      | Inr (s', Some n) \<Rightarrow>
          if n = length b \<and> m_parseStatus s' = PARSE_GET_MORE_DATA then
            (case content_writes cvt heap io s' bs of Inl e \<Rightarrow> Inl e | Inr (s'', m) \<Rightarrow> Inr (s'', n + m))
          else Inr (s', n))"

context ending_sink
begin

lemma body_writes:
  assumes "body_expects n s" and "0 < n" and "n \<le> size_max" and "[] \<notin> set bufs" and "\<forall>b\<in>set bufs. length b \<le> 262144"
    and "m_parseStatus s = PARSE_GET_MORE_DATA"
  shows "\<exists>s'. content_writes (chunks_vt mvt fs) heap io s bufs = Inr (s', min n (length (concat bufs)))
    \<and> delivered (m_outStream s') = delivered (m_outStream s) @ take n (concat bufs)
    \<and> m_parseStatus s' = (if n \<le> length (concat bufs) then PARSE_GOTO_NEXT_SUBPARSER else PARSE_GET_MORE_DATA)"
  using assms
proof (induction bufs arbitrary: s n)
  case (Cons b bufs)
  define k where "k = min (length b) n"
  have s: "body_expects n (setParseStatus s PARSE_GET_MORE_DATA)" using Cons.prems(1) by (simp add: body_expects_def setParseStatus_def)
  have b: "b \<noteq> []" "k \<le> 262144" using Cons.prems(4,5) by (auto simp: k_def)
  obtain s1 where s1: "writeIntoParser (chunks_vt mvt fs) heap (content_parse (chunks_vt mvt fs) io) (setParseStatus s PARSE_GET_MORE_DATA) b = Inr (s1, Some k)"
      "delivered (m_outStream s1) = delivered (m_outStream s) @ take k b"
      "m_parseStatus s1 = (if k < n then PARSE_GET_MORE_DATA else PARSE_GOTO_NEXT_SUBPARSER)" "k < n \<Longrightarrow> body_expects (n - k) s1"
    using body_write [OF s b(1) Cons.prems(2,3) k_def b(2), of mvt fs heap] by (auto simp: setParseStatus_def)
  show ?case
  proof (cases "k < n")
    case True
    then have k: "k = length b" by (simp add: k_def)
    obtain s2 where "content_writes (chunks_vt mvt fs) heap io s1 bufs = Inr (s2, min (n - k) (length (concat bufs)))"
        "delivered (m_outStream s2) = delivered (m_outStream s1) @ take (n - k) (concat bufs)"
        "m_parseStatus s2 = (if n - k \<le> length (concat bufs) then PARSE_GOTO_NEXT_SUBPARSER else PARSE_GET_MORE_DATA)"
      using Cons.IH [OF s1(4) [OF True]] True le_trans [OF diff_le_self Cons.prems(3), of k] Cons.prems(4,5) s1(3) by auto
    then show ?thesis using s1(1-3) True k by (auto simp: min_def)
  next
    case False
    then have "k = n" "n \<le> length b" by (auto simp: k_def)
    then show ?thesis using s1(1-3) False by (simp add: min_def)
  qed
qed simp

end

text \<open>A content that has not received anything yet.\<close>

definition content_idle :: "('y, 'o) content \<Rightarrow> bool" where
  "content_idle s \<longleftrightarrow> (\<exists>n. empty_buffer n (m_unparsedBuffer s)) \<and> m_parseStatus s = PARSE_GET_MORE_DATA \<and> \<not> m_streamEnded s"

lemma content_new_idle: "content_idle (content_new cvt mk)"
  using chunks_new_inv
  by (simp add: content_idle_def content_new_def subparser_init_def subparser.defs empty_buffer_def chunks_inv_def chunks_data_inv_def
      chunks_content_def chunks_new_def chunks_clear2_def chunks_clearChunks_def b_base.defs b_init_def)

lemma empty_retarget: "empty_buffer m u \<Longrightarrow> empty_buffer n (b_setMaxSize u n)"
  by (simp add: empty_buffer_def b_setMaxSize_def chunks_inv_def chunks_data_inv_def chunks_content_def)

text \<open>
  C24. A body with a content length. After \<^verbatim>\<open>setTransmitionMode\<close> and \<^verbatim>\<open>setContentLenSize\<close> with a positive length within the
  limit, and however the body arrives in blocks, the content takes exactly that many bytes, hands them to the output container
  in order and unchanged, and asks for the next sub-parser exactly when the last of them has arrived; bytes behind the body are left alone.
\<close>

theorem content_length_exact:
  assumes "content_idle s0" and "setContentLenSize (setTransmitionMode s0 TRANSMIT_MODE_CONTENT_LENGTH) n = (s, ok)"
    and "0 < n" and "n \<le> m_securityMaxPostDataSize s0" and "chunks_roomy (m_outStream s0) n"
    and "[] \<notin> set bufs" and "\<forall>b\<in>set bufs. length b \<le> 262144"
  shows "ok \<and> (\<exists>s'. content_writes (chunks_vt mvt fs) heap (b_streamable (chunks_vt mvt' fs')) s bufs = Inr (s', min n (length (concat bufs)))
    \<and> chunks_content (m_outStream s') = chunks_content (m_outStream s0) @ take n (concat bufs)
    \<and> (m_parseStatus s' = PARSE_GOTO_NEXT_SUBPARSER \<longleftrightarrow> n \<le> length (concat bufs)))"
proof -
  have "ok" "s = setParseDataTargetSize ((setTransmitionMode s0 TRANSMIT_MODE_CONTENT_LENGTH)\<lparr>m_currentContentLengthSize := n\<rparr>) n"
    using assms(2,4) by (auto simp: setContentLenSize_def setTransmitionMode_def setParseMode_def setParseDataTargetSize_def Let_def split: if_splits)
  moreover obtain m where "empty_buffer m (m_unparsedBuffer s0)" using assms(1) by (auto simp: content_idle_def)
  then have "empty_buffer n (b_setMaxSize (b_setMaxSize (m_unparsedBuffer s0) size_max) n)" by (rule empty_retarget [OF empty_retarget])
  moreover from this calculation(2) have "chunk_end.body_expects n s" "m_parseStatus s = PARSE_GET_MORE_DATA" "m_outStream s = m_outStream s0"
    using assms(1,5)
    by (auto simp: chunk_end.body_expects_def content_idle_def setTransmitionMode_def setParseMode_def setParseDataTargetSize_def Let_def)
  moreover have "n \<le> size_max" using assms(5) by (simp add: chunks_roomy_conv size_max_def)
  ultimately show ?thesis using chunk_end.body_writes [of n s bufs mvt fs heap mvt' fs'] assms(3,6,7) by auto
qed

theorem content_length_exact_witness:
  "\<exists>s'. content_writes (chunks_vt mem_vt (\<lambda>_. None)) (\<lambda>n. replicate n CHR ''x'') (b_streamable (chunks_vt mem_vt (\<lambda>_. None)))
       (fst (setContentLenSize (setTransmitionMode (content_new (chunks_vt mem_vt (\<lambda>_. None)) (\<lambda>_. chunks_new)) TRANSMIT_MODE_CONTENT_LENGTH) 5)) [''he'', ''llo!''] = Inr (s', 5)
     \<and> chunks_content (m_outStream s') = ''hello'' \<and> m_parseStatus s' = PARSE_GOTO_NEXT_SUBPARSER"
proof -
  let ?s = "content_new (chunks_vt mem_vt (\<lambda>_. None)) (\<lambda>_. chunks_new :: b_mem_fields chunks)"
  have s: "m_securityMaxPostDataSize ?s = 17825792" "m_outStream ?s = chunks_new" by (simp_all add: content_new_def subparser.defs)
  have room: "chunks_roomy (chunks_new :: b_mem_fields chunks) 5" by (rule chunks_new_roomy) simp
  have c: "concat [''he'', ''llo!''] = ''hello!''" "[] \<notin> set [''he'', ''llo!'']" "\<forall>b\<in>set [''he'', ''llo!'']. length b \<le> 262144" by simp_all
  have n: "min 5 (length ''hello!'') = 5" "take 5 ''hello!'' = ''hello''" "(5 \<le> length ''hello!'') = True" by (simp_all add: eval_nat_numeral)
  have e: "chunks_content (chunks_new :: b_mem_fields chunks) = []" by (rule chunks_new_inv(2))
  have "0 < (5 :: nat)" "(5 :: nat) \<le> m_securityMaxPostDataSize ?s" "chunks_roomy (m_outStream ?s) 5" unfolding s using room by simp_all
  from content_length_exact [OF content_new_idle surjective_pairing this c(2,3), of mem_vt "\<lambda>_. None" "\<lambda>n. replicate n CHR ''x''" mem_vt "\<lambda>_. None"]
  show ?thesis unfolding s c n e append_Nil by blast
qed

section \<open>Chunks on the wire\<close>

definition chunk_frames :: "bytes list \<Rightarrow> bytes" where
  "chunk_frames ps = concat (map (\<lambda>p. hex_upper (length p) @ crlf @ p @ crlf) ps)"

definition chunk_encode :: "bytes list \<Rightarrow> bytes" where
  "chunk_encode ps = chunk_frames ps @ ''0'' @ crlf @ crlf"

lemma chunk_frames_Cons: "chunk_frames (p # ps) = hex_upper (length p) @ crlf @ p @ crlf @ chunk_frames ps"
  by (simp add: chunk_frames_def)

lemma crlf_length [simp]: "length crlf = 2"
  by (simp add: crlf_def)

text \<open>What is on the wire, with the line end that the next write begins with.\<close>

context roomy_sink
begin

definition settled :: "chunk_transformer \<Rightarrow> 'o \<Rightarrow> bytes" where
  "settled t up = delivered up @ (if ct_pos t = 0 then [] else crlf)"

definition owed :: "chunk_transformer \<Rightarrow> nat" where
  "owed t = (if ct_pos t = 0 then 0 else 2)"

lemma ct_write_piece:
  assumes "room up n" and "p \<noteq> []" and "length p < 2 ^ 32" and "owed t + length (hex_upper (length p)) + 2 + length p \<le> n"
    and "ct_pos t + length p \<le> size_max"
  obtains up' where "ct_write io (t, up) p = Inr ((t\<lparr>ct_pos := ct_pos t + length p\<rparr>, up'), Some (length p))"
    and "settled (t\<lparr>ct_pos := ct_pos t + length p\<rparr>) up' = settled t up @ hex_upper (length p) @ crlf @ p @ crlf"
    and "room up' (n - (owed t + length (hex_upper (length p)) + 2 + length p))"
proof -
  let ?h = "(if ct_pos t = 0 then [] else crlf) @ hex_upper (length p) @ crlf"
  have h: "length ?h = owed t + length (hex_upper (length p)) + 2" by (simp add: owed_def)
  obtain up1 where u1: "writeFullStream io up ?h = Inr (up1, True)" "delivered up1 = delivered up @ ?h" "room up1 (n - length ?h)"
    using full_write [OF assms(1), of ?h] assms(4) h by auto
  have "length p \<le> n - length ?h" using assms(4) h by simp
  then obtain up2 where u2: "writeFullStream io up1 p = Inr (up2, True)" "delivered up2 = delivered up1 @ p" "room up2 (n - length ?h - length p)"
    using full_write [OF u1(3)] by blast
  have small: "length p mod 2 ^ 32 = length p" "\<not> uadd (length p) 64 < length p" "uadd (ct_pos t) (length p) = ct_pos t + length p"
    using assms(3,5) by (simp_all add: uadd_exact size_max_def)
  have "ct_write io (t, up) p = Inr ((t\<lparr>ct_pos := ct_pos t + length p\<rparr>, up2), Some (length p))"
    using assms(2) u1(1) u2(1) room_status [OF u1(3)] small unfolding ct_write_def writeString_def by simp
  moreover have "settled (t\<lparr>ct_pos := ct_pos t + length p\<rparr>) up2 = settled t up @ hex_upper (length p) @ crlf @ p @ crlf"
    using u1(2) u2(2) assms(2) by (simp add: settled_def)
  ultimately show thesis using that u2(3) h by simp
qed

lemma ct_pieces:
  "room up n \<Longrightarrow> [] \<notin> set ps \<Longrightarrow> \<forall>p\<in>set ps. length p < 2 ^ 32 \<Longrightarrow> owed t + length (chunk_frames ps) + 5 \<le> n \<Longrightarrow>
     ct_pos t + length (concat ps) \<le> size_max \<Longrightarrow> copied + length (concat ps) \<le> size_max \<Longrightarrow> succeed (ct_status t) \<Longrightarrow>
     \<exists>t' up'. b_writeChunks (chunk_streamable io) (t, up) ps copied = Inr ((t', up'), Some (copied + length (concat ps)))
       \<and> settled t' up' = settled t up @ chunk_frames ps \<and> room up' (owed t' + 5) \<and> ct_status t' = ct_status t"
proof (induction ps arbitrary: t up n copied)
  case Nil
  then show ?case using room_mono [of up n "owed t + 5"] by (simp add: chunk_frames_def)
next
  case (Cons p ps)
  have p: "p \<noteq> []" "length p < 2 ^ 32" using Cons.prems(2,3) by auto
  have need: "owed t + length (hex_upper (length p)) + 2 + length p \<le> n" using Cons.prems(4) by (simp add: chunk_frames_Cons)
  have pos: "ct_pos t + length p \<le> size_max" using Cons.prems(5) by simp
  let ?t = "t\<lparr>ct_pos := ct_pos t + length p\<rparr>"
  obtain up1 where u1: "ct_write io (t, up) p = Inr ((?t, up1), Some (length p))" "settled ?t up1 = settled t up @ hex_upper (length p) @ crlf @ p @ crlf"
      "room up1 (n - (owed t + length (hex_upper (length p)) + 2 + length p))"
    using ct_write_piece [OF Cons.prems(1) p need pos] by metis
  have "owed ?t + length (chunk_frames ps) + 5 \<le> n - (owed t + length (hex_upper (length p)) + 2 + length p)"
    using Cons.prems(4) p(1) by (simp add: chunk_frames_Cons owed_def)
  then obtain t2 up2 where u2: "b_writeChunks (chunk_streamable io) (?t, up1) ps (copied + length p) = Inr ((t2, up2), Some (copied + length p + length (concat ps)))"
      "settled t2 up2 = settled ?t up1 @ chunk_frames ps" "room up2 (owed t2 + 5)" "ct_status t2 = ct_status ?t"
    using Cons.IH [OF u1(3), of ?t "copied + length p"] Cons.prems by auto
  have "safeAdd_size (length p) copied = Inr (copied + length p)" using Cons.prems(6) by (simp add: safeAdd_size_eq add.commute)
  then have "b_writeChunks (chunk_streamable io) (t, up) (p # ps) copied = Inr ((t2, up2), Some (copied + length (concat (p # ps))))"
    using u1(1) u2(1) Cons.prems(7) by (simp add: chunk_streamable_def)
  then show ?case using u1(2) u2(2-4) by (simp add: chunk_frames_Cons)
qed

lemma ct_eof:
  assumes "room up (owed t + 5)"
  obtains up' where "writeEOF (chunk_streamable io) (t, up) = Inr ((t, up'), True)" and "delivered up' = settled t up @ ''0'' @ crlf @ crlf"
proof -
  let ?e = "if ct_pos t = 0 then ''0'' @ crlf @ crlf else crlf @ ''0'' @ crlf @ crlf"
  have "length ?e \<le> owed t + 5" by (simp add: owed_def)
  then obtain up' where "writeFullStream io up ?e = Inr (up', True)" "delivered up' = delivered up @ ?e"
    using full_write [OF assms] by blast
  then show thesis using that by (simp add: writeEOF_def chunk_streamable_def ct_write_def writeString_def settled_def)
qed

end


section \<open>Receiving chunks\<close>

text \<open>The write that completes a line, with more data behind it, for a \<^verbatim>\<open>parse\<close> that leaves the delimiter as it was.\<close>

lemma size_line:
  assumes "empty_buffer cap (m_unparsedBuffer s)" and "cap \<le> 262144" and "m_parseDelimiter s = crlf"
    and "CHR 0x0D \<notin> set l" and "length l + 2 \<le> cap"
  obtains u r w where "sp_view (chunks_vt mvt fs) (s\<lparr>m_unparsedBuffer := u, m_parsedBuffer := r\<rparr>) = l"
    and "vt_size (ref_vt (chunks_vt mvt fs)) (getParsedBuffer (s\<lparr>m_unparsedBuffer := u, m_parsedBuffer := r\<rparr>)) = length l"
    and "filled_buffer w u" and "m_maxSize u = cap"
    and "\<And>parse s2. sp_parse parse (s\<lparr>m_unparsedBuffer := u, m_parsedBuffer := r\<rparr>) = Inr s2 \<Longrightarrow> m_parseDelimiter s2 = crlf \<Longrightarrow>
      parseByDelimiter (chunks_vt mvt fs) parse s (l @ crlf @ rest) = Inr (sp_clearUnparsed (chunks_vt mvt fs) s2, Some (length l + 2))"
proof -
  let ?cvt = "chunks_vt mvt fs" and ?buf = "l @ crlf @ rest"
  define k where "k = min (length ?buf) cap"
  have ok: "sp_ok (m_unparsedBuffer s)" "sp_content s = []" "m_maxSize (m_unparsedBuffer s) = cap"
    using empty_buffer_ok [OF assms(1,2)] assms(1) by (simp_all add: empty_buffer_def)
  have k: "k = min (length ?buf) (m_maxSize (m_unparsedBuffer s) - length (sp_content s))" "k = 0 \<longrightarrow> ?buf = []" "length l + 2 \<le> k"
    using assms(5) ok by (auto simp: k_def crlf_def)
  obtain u where u: "appendToUnparsedBuffer ?cvt s ?buf = (s\<lparr>m_unparsedBuffer := u\<rparr>, Some k)" "sp_ok u" "chunks_content u = take k ?buf" "m_maxSize u = cap"
    using appendToUnparsed_spec [OF ok(1) k(1,2), of mvt fs] ok(2,3) by auto
  have "take k ?buf = l @ crlf @ take (k - length l - 2) rest" using k(3) by (simp add: crlf_def take_Cons')
  then have f: "b_find ?cvt u crlf True 0 0 = Inr (Some (length l))"
    using sp_find [OF u(2), of crlf mvt fs] u(3) first_pos_crlf [OF assms(4)] by (simp add: crlf_def)
  define s1 where "s1 = sp_reference ?cvt (sp_reference ?cvt (s\<lparr>m_unparsedBuffer := u\<rparr>) 0 size_max) 0 (length l)"
  have s1: "s1 = s\<lparr>m_unparsedBuffer := u, m_parsedBuffer := m_parsedBuffer s1\<rparr>" by (simp add: s1_def sp_reference_def)
  have view: "sp_view ?cvt s1 = l" using sp_view_reference [of "sp_reference ?cvt (s\<lparr>m_unparsedBuffer := u\<rparr>) 0 size_max" mvt fs "length l"] u(2,3) k(3)
    by (simp add: s1_def)
  have "ref_inv chunks_content chunks_inv (getParsedBuffer s1)" "ref_content chunks_content (getParsedBuffer s1) = l"
    using u(2,3) k(3) by (simp_all add: s1_def sp_ok_def getParsedBuffer_def sp_reference_def ref_reference_def ref_inv_def ref_content_def)
  then have size: "vt_size (ref_vt ?cvt) (getParsedBuffer s1) = length l" using bref.size_content [of "getParsedBuffer s1" mvt fs] by simp
  have "parseByDelimiter ?cvt parse s ?buf = Inr (sp_clearUnparsed ?cvt s2, Some (length l + 2))"
    if "sp_parse parse s1 = Inr s2" "m_parseDelimiter s2 = crlf" for parse s2
  proof -
    have "uadd (usub (length l) 0) (length crlf) = length l + 2" using assms(2,5) by (simp add: uadd_exact usub_exact size_max_def)
    then show ?thesis using u(1) f that assms(3) sp_ok_size [OF ok(1), of mvt fs] ok(2) by (simp add: parseByDelimiter_def Let_def s1_def)
  qed
  then show thesis using that [of "m_parsedBuffer s1" u "take k ?buf"] s1 view size u(4) sp_ok_filled [OF u(2)] u(3) by simp
qed

lemma sp_view_text: "sp_view cvt s = l \<Longrightarrow> l \<noteq> [] \<Longrightarrow> b_toString (ref_vt cvt) (getParsedBuffer s) size_max 0 = Some l"
  by (auto simp: sp_view_def b_toStringEx_def split: option.splits)

lemma chunk_size_read:
  assumes "sp_view cvt s = hex_upper n" and "n < 2 ^ 32 - 1" and "n \<le> m_securityMaxHttpChunkSize s"
  shows "parseHttpChunkSize cvt s = n"
  using assms(2,3) sp_view_text [OF assms(1)] strtoul16_upper [of n] by (simp add: parseHttpChunkSize_def b_toUInt32_def size_max_def)

lemma hex_upper_no_CR: "CHR 0x0D \<notin> set (hex_upper n)"
  using hex_upper_digits hex_digit_facts(9) by metis

lemma hex_upper_length: "n < 16 ^ Suc k \<Longrightarrow> length (hex_upper n) \<le> Suc k"
proof (induction k arbitrary: n)
  case 0
  then show ?case by (simp add: hex_upper.simps [of n])
next
  case (Suc k)
  then have "n div 16 < 16 ^ Suc k" by (simp add: less_mult_imp_div_less mult.commute)
  then show ?case using Suc.IH [of "n div 16"] by (simp add: hex_upper.simps [of n])
qed

text \<open>The content between two chunks, before the data of a chunk and before the line end behind it.\<close>

definition awaits_chunk :: "nat \<Rightarrow> ('y, 'o) content \<Rightarrow> bool" where
  "awaits_chunk cap s \<longleftrightarrow> m_currentMode s = PROCMODE_CHUNK_SIZE \<and> m_parseMode s = PARSE_MODE_DELIMITER \<and> m_parseDelimiter s = crlf
     \<and> empty_buffer cap (m_unparsedBuffer s)"

definition awaits_block :: "eProcessingMode \<Rightarrow> nat \<Rightarrow> ('y, 'o) content \<Rightarrow> bool" where
  "awaits_block m n s \<longleftrightarrow> m_currentMode s = m \<and> m_parseMode s = PARSE_MODE_SIZE \<and> m_parseDelimiter s = crlf \<and> empty_buffer n (m_unparsedBuffer s)"

text \<open>Two contents with the same output stream and limits.\<close>

definition same_output :: "('y, 'o) content \<Rightarrow> ('y, 'o) content \<Rightarrow> bool" where
  "same_output s s' \<longleftrightarrow> m_outStream s' = m_outStream s \<and> m_securityMaxHttpChunkSize s' = m_securityMaxHttpChunkSize s"

lemma chunk_size_step:
  assumes "awaits_chunk cap s" and "cap \<le> 262144" and "length (hex_upper n) + 2 \<le> cap" and "0 < n" and "n < 2 ^ 32 - 1"
    and "n \<le> m_securityMaxHttpChunkSize s"
  obtains s' where "writeIntoParser (chunks_vt mvt fs) heap (content_parse (chunks_vt mvt fs) io) s (hex_upper n @ crlf @ rest)
      = Inr (s', Some (length (hex_upper n) + 2))"
    and "awaits_block PROCMODE_CHUNK_DATA n s'" and "same_output s s'" and "m_parseStatus s' = PARSE_GET_MORE_DATA"
proof -
  let ?cvt = "chunks_vt mvt fs"
  note a = assms(1) [unfolded awaits_chunk_def]
  obtain u r w where l: "sp_view ?cvt (s\<lparr>m_unparsedBuffer := u, m_parsedBuffer := r\<rparr>) = hex_upper n" "filled_buffer w u"
    "\<And>parse s2. sp_parse parse (s\<lparr>m_unparsedBuffer := u, m_parsedBuffer := r\<rparr>) = Inr s2 \<Longrightarrow> m_parseDelimiter s2 = crlf \<Longrightarrow>
      parseByDelimiter ?cvt parse s (hex_upper n @ crlf @ rest) = Inr (sp_clearUnparsed ?cvt s2, Some (length (hex_upper n) + 2))"
    using size_line [of cap s "hex_upper n" mvt fs rest] a assms(2,3) hex_upper_no_CR by metis
  let ?s1 = "s\<lparr>m_unparsedBuffer := u, m_parsedBuffer := r\<rparr>"
  let ?s2 = "setParseStatus ((setParseDataTargetSize (setParseMode ?s1 PARSE_MODE_SIZE) n)\<lparr>m_currentMode := PROCMODE_CHUNK_DATA\<rparr>) PARSE_GET_MORE_DATA"
  have "parseHttpChunkSize ?cvt ?s1 = n" using chunk_size_read [OF l(1)] assms(5,6) by simp
  then have "sp_parse (content_parse ?cvt io) ?s1 = Inr ?s2" using a assms(4,5) by (simp add: sp_parse_def content_parse_def Let_def)
  moreover have d: "m_parseDelimiter ?s2 = crlf" using a by (simp add: setParseStatus_def setParseDataTargetSize_def setParseMode_def)
  ultimately have "writeIntoParser ?cvt heap (content_parse ?cvt io) s (hex_upper n @ crlf @ rest) = Inr (sp_clearUnparsed ?cvt ?s2, Some (length (hex_upper n) + 2))"
    using l(3) a by (simp add: writeIntoParser_def)
  moreover have "awaits_block PROCMODE_CHUNK_DATA n (sp_clearUnparsed ?cvt ?s2)"
    using l(2) d filled_clear [of w "b_setMaxSize u n" mvt fs]
    by (simp add: awaits_block_def sp_clearUnparsed_def setParseStatus_def setParseDataTargetSize_def setParseMode_def)
  ultimately show thesis
    using that by (simp add: same_output_def sp_clearUnparsed_def setParseStatus_def setParseDataTargetSize_def setParseMode_def)
qed


text \<open>A block of known size, complete in the write.\<close>

lemma block_complete:
  assumes "awaits_block m n s" and "length b = n" and "0 < n" and "n \<le> 262144"
  obtains u where "filled_buffer b u" and "shows_all (sp_reference (chunks_vt mvt fs) (s\<lparr>m_unparsedBuffer := u\<rparr>) 0 size_max)"
    and "\<And>heap parse s2. sp_parse parse (sp_reference (chunks_vt mvt fs) (s\<lparr>m_unparsedBuffer := u\<rparr>) 0 size_max) = Inr s2 \<Longrightarrow>
      writeIntoParser (chunks_vt mvt fs) heap parse s (b @ rest) = Inr (sp_clearUnparsed (chunks_vt mvt fs) s2, Some n)"
proof -
  let ?cvt = "chunks_vt mvt fs"
  note a = assms(1) [unfolded awaits_block_def]
  have k: "n = min (length (b @ rest)) n" "b @ rest \<noteq> []" "n \<le> size_max" "b \<noteq> []" using assms(2-4) by (auto simp: size_max_def)
  obtain u where u: "appendToUnparsedBuffer ?cvt s (b @ rest) = (s\<lparr>m_unparsedBuffer := u\<rparr>, Some n)" "filled_buffer b u" "m_maxSize u = n"
    using empty_buffer_append [of n s "b @ rest" n mvt fs] a k assms(2-4) by auto
  have "vt_size ?cvt u = n" using u(2) assms(2) bchunks.size_content [of u mvt fs] by (simp add: filled_buffer_def)
  then have "b_getSizeLeft ?cvt u = 0" using u(3) by (simp add: b_getSizeLeft_def)
  moreover have "shows_all (sp_reference ?cvt (s\<lparr>m_unparsedBuffer := u\<rparr>) 0 size_max)" using u(2) by (intro shows_all_reference) (simp add: filled_buffer_def)
  moreover have "writeIntoParser ?cvt heap parse s (b @ rest) = Inr (sp_clearUnparsed ?cvt s2, Some n)"
    if "sp_parse parse (sp_reference ?cvt (s\<lparr>m_unparsedBuffer := u\<rparr>) 0 size_max) = Inr s2" for heap parse s2
    using that calculation(1) u(1) a k(4) by (simp add: writeIntoParser_def parseBySize_def)
  ultimately show thesis using that [OF u(2)] by blast
qed

lemma chunk_line_end_step:
  assumes "awaits_block PROCMODE_CHUNK_CRLF 2 s" and "length e = 2"
  obtains s' where "writeIntoParser (chunks_vt mvt fs) heap (content_parse (chunks_vt mvt fs) io) s (e @ rest) = Inr (s', Some 2)"
    and "awaits_chunk 1024 s'" and "same_output s s'" and "m_parseStatus s' = PARSE_GET_MORE_DATA"
proof -
  let ?cvt = "chunks_vt mvt fs"
  have two: "0 < (2 :: nat)" "(2 :: nat) \<le> 262144" by simp_all
  obtain u where u: "filled_buffer e u"
    "\<And>heap parse s2. sp_parse parse (sp_reference ?cvt (s\<lparr>m_unparsedBuffer := u\<rparr>) 0 size_max) = Inr s2 \<Longrightarrow>
      writeIntoParser ?cvt heap parse s (e @ rest) = Inr (sp_clearUnparsed ?cvt s2, Some 2)"
    using block_complete [OF assms, of mvt fs rest] two by metis
  let ?s1 = "sp_reference ?cvt (s\<lparr>m_unparsedBuffer := u\<rparr>) 0 size_max"
  let ?s2 = "setParseStatus ((setParseDataTargetSize (setParseDelimiter (setParseMode ?s1 PARSE_MODE_DELIMITER) crlf) 1024)\<lparr>m_currentMode := PROCMODE_CHUNK_SIZE\<rparr>) PARSE_GET_MORE_DATA"
  have "sp_parse (content_parse ?cvt io) ?s1 = Inr ?s2"
    using assms(1) by (simp add: awaits_block_def sp_parse_def content_parse_def sp_reference_def)
  then have "writeIntoParser ?cvt heap (content_parse ?cvt io) s (e @ rest) = Inr (sp_clearUnparsed ?cvt ?s2, Some 2)" by (rule u(2))
  moreover have "awaits_chunk 1024 (sp_clearUnparsed ?cvt ?s2)"
    using filled_clear [of e "b_setMaxSize u 1024" mvt fs] u(1)
    by (simp add: awaits_chunk_def sp_clearUnparsed_def setParseStatus_def setParseDataTargetSize_def setParseDelimiter_def setParseMode_def)
  ultimately show thesis
    using that by (simp add: same_output_def sp_clearUnparsed_def setParseStatus_def setParseDataTargetSize_def setParseDelimiter_def setParseMode_def sp_reference_def)
qed

context ending_sink
begin

lemma chunk_data_step:
  assumes "awaits_block PROCMODE_CHUNK_DATA (length p) s" and "p \<noteq> []" and "length p \<le> 262144" and "room (m_outStream s) n" and "length p \<le> n"
  obtains s' where "writeIntoParser (chunks_vt mvt fs) heap (content_parse (chunks_vt mvt fs) io) s (p @ rest) = Inr (s', Some (length p))"
    and "awaits_block PROCMODE_CHUNK_CRLF 2 s'" and "m_parseStatus s' = PARSE_GET_MORE_DATA"
    and "delivered (m_outStream s') = delivered (m_outStream s) @ p" and "room (m_outStream s') (n - length p)"
    and "m_securityMaxHttpChunkSize s' = m_securityMaxHttpChunkSize s"
proof -
  let ?cvt = "chunks_vt mvt fs"
  obtain u where u: "filled_buffer p u" "shows_all (sp_reference ?cvt (s\<lparr>m_unparsedBuffer := u\<rparr>) 0 size_max)"
    "\<And>heap parse s2. sp_parse parse (sp_reference ?cvt (s\<lparr>m_unparsedBuffer := u\<rparr>) 0 size_max) = Inr s2 \<Longrightarrow>
      writeIntoParser ?cvt heap parse s (p @ rest) = Inr (sp_clearUnparsed ?cvt s2, Some (length p))"
    using block_complete [OF assms(1), of p mvt fs rest] assms(2,3) by auto
  let ?s1 = "sp_reference ?cvt (s\<lparr>m_unparsedBuffer := u\<rparr>) 0 size_max"
  let ?s2 = "(setParseDataTargetSize (setParseMode ?s1 PARSE_MODE_SIZE) 2)\<lparr>m_currentMode := PROCMODE_CHUNK_CRLF\<rparr>"
  have s2: "shows_all ?s2" "filled_buffer p (m_unparsedBuffer ?s2)" "m_outStream ?s2 = m_outStream s"
    using u(1,2) by (simp_all add: shows_all_def setParseDataTargetSize_def setParseMode_def sp_reference_def)
  obtain out where out: "content_append ?cvt io ?s2 = Inr (?s2\<lparr>m_outStream := out\<rparr>)" "delivered out = delivered (m_outStream s) @ p" "room out (n - length p)"
    using content_append_delivers [OF s2(1,2), of n mvt fs] s2(3) assms(2,4,5) by auto
  let ?s3 = "setParseStatus (?s2\<lparr>m_outStream := out\<rparr>) PARSE_GET_MORE_DATA"
  have "sp_parse (content_parse ?cvt io) ?s1 = Inr ?s3"
    using assms(1) out(1) by (simp add: awaits_block_def sp_parse_def content_parse_def with_status_def sp_reference_def)
  then have "writeIntoParser ?cvt heap (content_parse ?cvt io) s (p @ rest) = Inr (sp_clearUnparsed ?cvt ?s3, Some (length p))" by (rule u(3))
  moreover have "awaits_block PROCMODE_CHUNK_CRLF 2 (sp_clearUnparsed ?cvt ?s3)"
    using filled_clear [of p "b_setMaxSize u 2" mvt fs] u(1) assms(1)
    by (simp add: awaits_block_def sp_clearUnparsed_def setParseStatus_def setParseDataTargetSize_def setParseMode_def)
  ultimately show thesis
    using that out(2,3) by (simp add: sp_clearUnparsed_def setParseStatus_def setParseDataTargetSize_def setParseMode_def sp_reference_def)
qed

lemma last_chunk_step:
  assumes "awaits_chunk cap s" and "cap \<le> 262144" and "3 \<le> cap" and "room (m_outStream s) n"
  obtains s' where "writeIntoParser (chunks_vt mvt fs) heap (content_parse (chunks_vt mvt fs) io) s (''0'' @ crlf @ rest) = Inr (s', Some 3)"
    and "m_parseStatus s' = PARSE_GOTO_NEXT_SUBPARSER" and "delivered (m_outStream s') = delivered (m_outStream s)"
proof -
  let ?cvt = "chunks_vt mvt fs"
  note a = assms(1) [unfolded awaits_chunk_def]
  have zero: "hex_upper 0 = ''0''" by code_simp
  have c: "CHR 0x0D \<notin> set ''0''" "length ''0'' + 2 \<le> cap" and three: "length ''0'' + 2 = 3" using assms(3) by simp_all
  obtain u r w where l: "sp_view ?cvt (s\<lparr>m_unparsedBuffer := u, m_parsedBuffer := r\<rparr>) = ''0''"
    "\<And>parse s2. sp_parse parse (s\<lparr>m_unparsedBuffer := u, m_parsedBuffer := r\<rparr>) = Inr s2 \<Longrightarrow> m_parseDelimiter s2 = crlf \<Longrightarrow>
      parseByDelimiter ?cvt parse s (''0'' @ crlf @ rest) = Inr (sp_clearUnparsed ?cvt s2, Some 3)"
    using size_line [OF _ assms(2) _ c, of s mvt fs rest] a unfolding three by metis
  let ?s1 = "s\<lparr>m_unparsedBuffer := u, m_parsedBuffer := r\<rparr>"
  have p: "parseHttpChunkSize ?cvt ?s1 = 0" using chunk_size_read [of ?cvt ?s1 0] l(1) zero by simp
  obtain out where out: "content_eof io ?s1 = Inr (?s1\<lparr>m_outStream := out\<rparr>)" "delivered out = delivered (m_outStream s)"
    using content_eof_keeps [of ?s1 n] assms(4) by auto
  let ?s2 = "setParseStatus (?s1\<lparr>m_outStream := out\<rparr>) PARSE_GOTO_NEXT_SUBPARSER"
  have "sp_parse (content_parse ?cvt io) ?s1 = Inr ?s2" using a p out(1) by (simp add: sp_parse_def content_parse_def with_status_def)
  then have "writeIntoParser ?cvt heap (content_parse ?cvt io) s (''0'' @ crlf @ rest) = Inr (sp_clearUnparsed ?cvt ?s2, Some 3)"
    using l(2) a by (simp add: writeIntoParser_def setParseStatus_def)
  then show thesis using that out(2) by (simp add: sp_clearUnparsed_def setParseStatus_def)
qed

end


section \<open>A protocol that is receiving a body\<close>

text \<open>
  The parser loop with the content as its current sub-parser: a protocol hands the content the bytes, and has nothing to parse
  behind it.
\<close>

locale body_protocol =
  fixes vt :: "'p parser_vt" and body :: "'p \<Rightarrow> ('y, 'o) content" and put :: "'p \<Rightarrow> ('y, 'o) content \<Rightarrow> 'p" and receiving :: "'p \<Rightarrow> bool"
    and wr :: "('y, 'o) content \<Rightarrow> bytes \<Rightarrow> (('y, 'o) content \<times> nat option) result" and frame :: "'p \<Rightarrow> 'f"
  assumes receiving_current: "receiving i \<Longrightarrow> pv_current vt i"
    and receiving_write: "receiving i \<Longrightarrow> pv_write vt (pv_setStatus vt i st) buf =
      (case wr (setParseStatus (body i) st) buf of Inl e \<Rightarrow> Inl e | Inr (s, r) \<Rightarrow> Inr (put i s, r))"
    and receiving_put: "receiving i \<Longrightarrow> receiving (put i s) \<and> body (put i s) = s \<and> pv_getStatus vt (put i s) = m_parseStatus s \<and> frame (put i s) = frame i"
    and receiving_next: "receiving i \<Longrightarrow> \<exists>i'. pv_changeToNextParser vt i = Inr (i', True) \<and> \<not> pv_current vt i' \<and> body i' = body i \<and> frame i' = frame i"
begin

lemma more_round:
  assumes "receiving (m_impl p)" and "wr (setParseStatus (body (m_impl p)) PARSE_GET_MORE_DATA) buf = Inr (s, Some n)"
    and "m_parseStatus s = PARSE_GET_MORE_DATA" and "n < length buf"
  shows "parse_round vt p buf = Inr (RoundRest (p\<lparr>m_impl := put (m_impl p) s\<rparr>) n)"
  using assms receiving_current [OF assms(1)] receiving_write [OF assms(1)] receiving_put [OF assms(1), of s] by (simp add: parse_round_def)

lemma last_round:
  assumes "receiving (m_impl p)" and "wr (setParseStatus (body (m_impl p)) PARSE_GET_MORE_DATA) buf = Inr (s, Some n)"
    and "m_parseStatus s = PARSE_GOTO_NEXT_SUBPARSER"
  obtains p' where "parse_round vt p buf = Inr (RoundReturn p' (Some n))" and "\<not> pv_current vt (m_impl p')" and "body (m_impl p') = s"
    and "finish (p_writeStatus p')" and "frame (m_impl p') = frame (m_impl p)"
proof -
  note put = receiving_put [OF assms(1), of s]
  then obtain i where "pv_changeToNextParser vt (put (m_impl p) s) = Inr (i, True)" "\<not> pv_current vt i" "body i = s" "frame i = frame (m_impl p)"
    using receiving_next [of "put (m_impl p) s"] by auto
  then show thesis
    using that [of "p\<lparr>m_impl := i, p_writeStatus := (p_writeStatus p)\<lparr>finish := True\<rparr>\<rparr>"] assms put
      receiving_current [OF assms(1)] receiving_write [OF assms(1)]
    by (simp add: parse_round_def Let_def)
qed

end

lemma parseData_rest:
  assumes "parse_round vt p buf = Inr (RoundRest p1 n)" and "ttl \<le> m_maxTTL p" and "n < length buf"
    and "parseData vt p1 (drop n buf) (Suc ttl) = Inr (p2, Some m)" and "m + n \<le> size_max"
  shows "parseData vt p buf ttl = Inr (p2, Some (m + n))"
  using assms by (simp add: parseData.simps [of vt p] uadd_exact)

lemma awaits_status [simp]:
  "awaits_chunk cap (setParseStatus s st) = awaits_chunk cap s" "awaits_block m n (setParseStatus s st) = awaits_block m n s"
  "m_outStream (setParseStatus s' st) = m_outStream s'" "m_securityMaxHttpChunkSize (setParseStatus s' st) = m_securityMaxHttpChunkSize s'"
  by (simp_all add: awaits_chunk_def awaits_block_def setParseStatus_def)

locale chunked_reception = ending_sink io delivered room
    + body_protocol vt body put receiving "writeIntoParser (chunks_vt mvt fs) heap (content_parse (chunks_vt mvt fs) io)" frame
  for io :: "'o streamable" and delivered :: "'o \<Rightarrow> bytes" and room :: "'o \<Rightarrow> nat \<Rightarrow> bool" and vt :: "'p parser_vt"
    and body :: "'p \<Rightarrow> ('y, 'o) content" and put :: "'p \<Rightarrow> ('y, 'o) content \<Rightarrow> 'p" and receiving :: "'p \<Rightarrow> bool"
    and mvt fs heap and frame :: "'p \<Rightarrow> 'f"
begin

text \<open>One chunk takes three rounds: its size, its data and the line end.\<close>

lemma one_chunk:
  assumes "receiving (m_impl p)" and "awaits_chunk cap (body (m_impl p))" and "64 \<le> cap" and "cap \<le> 262144" and "room (m_outStream (body (m_impl p))) n"
    and "c \<noteq> []" and "length c \<le> 262144" and "length c \<le> m_securityMaxHttpChunkSize (body (m_impl p))" and "length c \<le> n"
    and "ttl + 3 \<le> m_maxTTL p" and "rest \<noteq> []"
  obtains i where "receiving i" and "frame i = frame (m_impl p)" and "awaits_chunk 1024 (body i)" and "delivered (m_outStream (body i)) = delivered (m_outStream (body (m_impl p))) @ c"
    and "room (m_outStream (body i)) (n - length c)" and "m_securityMaxHttpChunkSize (body i) = m_securityMaxHttpChunkSize (body (m_impl p))"
    and "\<And>p2 m. parseData vt (p\<lparr>m_impl := i\<rparr>) rest (ttl + 3) = Inr (p2, Some m) \<Longrightarrow> m + length (hex_upper (length c) @ crlf @ c @ crlf) \<le> size_max \<Longrightarrow>
      parseData vt p (hex_upper (length c) @ crlf @ c @ crlf @ rest) ttl = Inr (p2, Some (m + length (hex_upper (length c) @ crlf @ c @ crlf)))"
proof -
  let ?cvt = "chunks_vt mvt fs" and ?h = "hex_upper (length c)"
  let ?w = "writeIntoParser ?cvt heap (content_parse ?cvt io)"
  have len: "length ?h \<le> 8" using hex_upper_length [of "length c" 7] assms(7) by simp
  obtain s1 where s1: "?w (setParseStatus (body (m_impl p)) PARSE_GET_MORE_DATA) (?h @ crlf @ c @ crlf @ rest) = Inr (s1, Some (length ?h + 2))"
      "awaits_block PROCMODE_CHUNK_DATA (length c) s1" "same_output (body (m_impl p)) s1" "m_parseStatus s1 = PARSE_GET_MORE_DATA"
    using chunk_size_step [of cap "setParseStatus (body (m_impl p)) PARSE_GET_MORE_DATA" "length c" mvt fs heap io "c @ crlf @ rest"] assms(2-4,6-8) len
    by (auto simp: same_output_def)
  let ?p1 = "p\<lparr>m_impl := put (m_impl p) s1\<rparr>"
  have p1: "receiving (m_impl ?p1)" "body (m_impl ?p1) = s1" "frame (m_impl ?p1) = frame (m_impl p)" using receiving_put [OF assms(1)] by simp_all
  have r1: "parse_round vt p (?h @ crlf @ c @ crlf @ rest) = Inr (RoundRest ?p1 (length ?h + 2))"
    by (rule more_round [OF assms(1) s1(1,4)]) (use assms(6) in simp)
  obtain s2 where s2: "?w (setParseStatus s1 PARSE_GET_MORE_DATA) (c @ crlf @ rest) = Inr (s2, Some (length c))"
      "awaits_block PROCMODE_CHUNK_CRLF 2 s2" "m_parseStatus s2 = PARSE_GET_MORE_DATA"
      "delivered (m_outStream s2) = delivered (m_outStream s1) @ c" "room (m_outStream s2) (n - length c)" "m_securityMaxHttpChunkSize s2 = m_securityMaxHttpChunkSize s1"
    using chunk_data_step [of c "setParseStatus s1 PARSE_GET_MORE_DATA" n mvt fs heap "crlf @ rest"] s1(2,3) assms(5-7,9) by (auto simp: same_output_def)
  let ?p2 = "p\<lparr>m_impl := put (m_impl ?p1) s2\<rparr>"
  have p2: "receiving (m_impl ?p2)" "body (m_impl ?p2) = s2" "frame (m_impl ?p2) = frame (m_impl p)" using receiving_put [OF p1(1)] p1(3) by simp_all
  have r2: "parse_round vt ?p1 (c @ crlf @ rest) = Inr (RoundRest ?p2 (length c))"
    using more_round [OF p1(1), of "c @ crlf @ rest" s2 "length c"] p1(2) s2(1,3) by simp
  obtain s3 where s3: "?w (setParseStatus s2 PARSE_GET_MORE_DATA) (crlf @ rest) = Inr (s3, Some 2)"
      "awaits_chunk 1024 s3" "same_output s2 s3" "m_parseStatus s3 = PARSE_GET_MORE_DATA"
    using chunk_line_end_step [of "setParseStatus s2 PARSE_GET_MORE_DATA" crlf mvt fs heap io rest] s2(2) by (auto simp: same_output_def)
  let ?p3 = "p\<lparr>m_impl := put (m_impl ?p2) s3\<rparr>"
  have p3: "receiving (m_impl ?p3)" "body (m_impl ?p3) = s3" "frame (m_impl ?p3) = frame (m_impl p)" using receiving_put [OF p2(1)] p2(3) by simp_all
  have r3: "parse_round vt ?p2 (crlf @ rest) = Inr (RoundRest ?p3 2)"
    using more_round [OF p2(1), of "crlf @ rest" s3 2] p2(2) s3(1,4) assms(11) by simp
  have "parseData vt p (?h @ crlf @ c @ crlf @ rest) ttl = Inr (q, Some (m + length (?h @ crlf @ c @ crlf)))"
    if q: "parseData vt ?p3 rest (ttl + 3) = Inr (q, Some m)" "m + length (?h @ crlf @ c @ crlf) \<le> size_max" for q m
  proof -
    have "parseData vt ?p2 (crlf @ rest) (Suc (Suc ttl)) = Inr (q, Some (m + 2))"
      using parseData_rest [OF r3, of "Suc (Suc ttl)" q m] assms(10,11) q by (simp add: eval_nat_numeral)
    then have "parseData vt ?p1 (c @ crlf @ rest) (Suc ttl) = Inr (q, Some (m + 2 + length c))"
      using parseData_rest [OF r2, of "Suc ttl" q "m + 2"] assms(10) q(2) by simp
    then have "parseData vt p (?h @ crlf @ c @ crlf @ rest) ttl = Inr (q, Some (m + 2 + length c + (length ?h + 2)))"
      using parseData_rest [OF r1, of ttl q "m + 2 + length c"] assms(6,10) q(2) by simp
    then show ?thesis by (simp add: ac_simps)
  qed
  moreover have "delivered (m_outStream s3) = delivered (m_outStream (body (m_impl p))) @ c" "room (m_outStream s3) (n - length c)"
      "m_securityMaxHttpChunkSize s3 = m_securityMaxHttpChunkSize (body (m_impl p))"
    using s1(3) s2(4-6) s3(3) by (simp_all add: same_output_def)
  ultimately show thesis using that [of "m_impl ?p3"] p3 s3(2) by auto
qed

end


context chunked_reception
begin

lemma chunks_parsed:
  assumes "receiving (m_impl p)" and "awaits_chunk cap (body (m_impl p))" and "64 \<le> cap" and "cap \<le> 262144"
    and "room (m_outStream (body (m_impl p))) n" and "length (concat ps) \<le> n" and "[] \<notin> set ps"
    and "\<forall>c\<in>set ps. length c \<le> 262144 \<and> length c \<le> m_securityMaxHttpChunkSize (body (m_impl p))"
    and "ttl + 3 * length ps \<le> m_maxTTL p" and "length (chunk_frames ps) + 3 \<le> size_max"
  shows "\<exists>p'. parseData vt p (chunk_frames ps @ ''0'' @ crlf @ rest) ttl = Inr (p', Some (length (chunk_frames ps) + 3))
    \<and> \<not> pv_current vt (m_impl p') \<and> finish (p_writeStatus p') \<and> frame (m_impl p') = frame (m_impl p)
    \<and> delivered (m_outStream (body (m_impl p'))) = delivered (m_outStream (body (m_impl p))) @ concat ps"
  using assms
proof (induction ps arbitrary: p cap n ttl)
  case Nil
  obtain s where s: "writeIntoParser (chunks_vt mvt fs) heap (content_parse (chunks_vt mvt fs) io) (setParseStatus (body (m_impl p)) PARSE_GET_MORE_DATA) (''0'' @ crlf @ rest) = Inr (s, Some 3)"
      "m_parseStatus s = PARSE_GOTO_NEXT_SUBPARSER" "delivered (m_outStream s) = delivered (m_outStream (body (m_impl p)))"
    using last_chunk_step [of cap "setParseStatus (body (m_impl p)) PARSE_GET_MORE_DATA" n mvt fs heap rest] Nil.prems(2-5) by auto
  obtain p' where "parse_round vt p (''0'' @ crlf @ rest) = Inr (RoundReturn p' (Some 3))" "\<not> pv_current vt (m_impl p')" "body (m_impl p') = s" "finish (p_writeStatus p')"
      "frame (m_impl p') = frame (m_impl p)"
    using last_round [OF Nil.prems(1) s(1,2)] by metis
  then show ?case using s(3) Nil.prems(9) by (simp add: chunk_frames_def parseData.simps [of vt p])
next
  case (Cons c ps)
  let ?rest = "chunk_frames ps @ ''0'' @ crlf @ rest"
  have f: "chunk_frames (c # ps) @ ''0'' @ crlf @ rest = hex_upper (length c) @ crlf @ c @ crlf @ ?rest" by (simp add: chunk_frames_Cons)
  have c: "c \<noteq> []" "length c \<le> 262144" "length c \<le> m_securityMaxHttpChunkSize (body (m_impl p))" "length c \<le> n" "ttl + 3 \<le> m_maxTTL p" "?rest \<noteq> []"
    using Cons.prems(6-9) by auto
  obtain i where i: "receiving i" "frame i = frame (m_impl p)" "awaits_chunk 1024 (body i)" "delivered (m_outStream (body i)) = delivered (m_outStream (body (m_impl p))) @ c"
      "room (m_outStream (body i)) (n - length c)" "m_securityMaxHttpChunkSize (body i) = m_securityMaxHttpChunkSize (body (m_impl p))"
      "\<And>p2 m. parseData vt (p\<lparr>m_impl := i\<rparr>) ?rest (ttl + 3) = Inr (p2, Some m) \<Longrightarrow> m + length (hex_upper (length c) @ crlf @ c @ crlf) \<le> size_max \<Longrightarrow>
        parseData vt p (hex_upper (length c) @ crlf @ c @ crlf @ ?rest) ttl = Inr (p2, Some (m + length (hex_upper (length c) @ crlf @ c @ crlf)))"
    using one_chunk [OF Cons.prems(1-5) c] by metis
  have fits: "length (concat ps) \<le> n - length c" using Cons.prems(6) by simp
  obtain p' where p': "parseData vt (p\<lparr>m_impl := i\<rparr>) ?rest (ttl + 3) = Inr (p', Some (length (chunk_frames ps) + 3))"
      "\<not> pv_current vt (m_impl p')" "finish (p_writeStatus p')" "frame (m_impl p') = frame i" "delivered (m_outStream (body (m_impl p'))) = delivered (m_outStream (body i)) @ concat ps"
    using Cons.IH [of "p\<lparr>m_impl := i\<rparr>" 1024 "n - length c" "ttl + 3"] i(1,3,5,6) Cons.prems(7-10) fits by (auto simp: chunk_frames_Cons)
  have "parseData vt p (chunk_frames (c # ps) @ ''0'' @ crlf @ rest) ttl = Inr (p', Some (length (chunk_frames (c # ps)) + 3))"
    using i(7) [OF p'(1)] Cons.prems(10) unfolding f by (simp add: chunk_frames_Cons ac_simps)
  then show ?case using p'(2-5) i(2,4) by auto
qed

end


section \<open>Sending a chunked body\<close>

context roomy_sink
begin

lemma chunked_send:
  assumes "b_appendPlan vt src size_max 0 = PlanWrite ps" and "[] \<notin> set ps" and "\<forall>p\<in>set ps. length p < 2 ^ 32" and "length (concat ps) \<le> size_max"
    and "room up (length (chunk_encode ps))" and "m_transmitionMode s = TRANSMIT_MODE_CHUNKS" and "m_outStream s = src"
  shows "\<exists>up'. content_streamToUpstream (b_streamable vt) io f (\<lambda>o'. b_streamTo vt o' (chunk_streamable io)) s up = Inr (up', succeed (writeStatus src))
    \<and> delivered up' = delivered up @ chunk_encode ps"
proof -
  have t: "owed chunk_transformer_new = 0" "settled chunk_transformer_new up = delivered up" "ct_pos chunk_transformer_new = 0" "succeed (ct_status chunk_transformer_new)"
    by (simp_all add: owed_def settled_def chunk_transformer_new_def ws_init_def)
  obtain t' up1 where w: "b_writeChunks (chunk_streamable io) (chunk_transformer_new, up) ps 0 = Inr ((t', up1), Some (length (concat ps)))"
      "settled t' up1 = delivered up @ chunk_frames ps" "room up1 (owed t' + 5)"
    using ct_pieces [OF assms(5,2,3), of chunk_transformer_new 0] assms(4) t by (auto simp: chunk_encode_def)
  obtain up' where "writeEOF (chunk_streamable io) (t', up1) = Inr ((t', up'), True)" "delivered up' = settled t' up1 @ ''0'' @ crlf @ crlf"
    using ct_eof [OF w(3)] by metis
  then show ?thesis
    using w assms(1,6,7) by (simp add: content_streamToUpstream_def b_streamTo_def b_appendTo_def b_runPlan_def chunk_encode_def b_streamable_def)
qed

end


text \<open>
  Only the low 32 bits of a chunk size count. A size line with the number \<open>n\<close> is accepted, whatever the limit for chunks, when
  the low 32 bits of \<open>n\<close> are within the limit (so \<^verbatim>\<open>100000001\<close> is the size 1), and is an error (the value \<^verbatim>\<open>0xFFFFFFFF\<close>) otherwise.
\<close>

theorem chunk_size_truncated:
  assumes "sp_view cvt s = hex_upper n" and "n \<le> size_max"
  shows "parseHttpChunkSize cvt s = (if n mod 2 ^ 32 \<le> m_securityMaxHttpChunkSize s then n mod 2 ^ 32 else 2 ^ 32 - 1)"
  using sp_view_text [OF assms(1)] strtoul16_upper [OF assms(2)] by (simp add: parseHttpChunkSize_def b_toUInt32_def)


theorem chunk_size_truncated_witness:
  "\<exists>s :: (b_mem_fields, b_mem_fields chunks) content.
     sp_view (chunks_vt mem_vt (\<lambda>_. None)) s = ''100000001'' \<and> parseHttpChunkSize (chunks_vt mem_vt (\<lambda>_. None)) s = 1"
proof -
  let ?cvt = "chunks_vt mem_vt (\<lambda>_. None)"
  let ?s = "setTransmitionMode (content_new ?cvt (\<lambda>_. chunks_new :: b_mem_fields chunks)) TRANSMIT_MODE_CHUNKS"
  obtain m where "empty_buffer m (m_unparsedBuffer (content_new ?cvt (\<lambda>_. chunks_new :: b_mem_fields chunks)))"
    using content_new_idle by (auto simp: content_idle_def)
  then have e: "empty_buffer 64 (m_unparsedBuffer ?s)"
    by (auto simp: setTransmitionMode_def setParseDataTargetSize_def setParseDelimiter_def setParseMode_def Let_def intro: empty_retarget)
  have d: "m_parseDelimiter ?s = crlf" "m_securityMaxHttpChunkSize ?s = 16777216"
    by (simp_all add: setTransmitionMode_def setParseDataTargetSize_def setParseDelimiter_def setParseMode_def Let_def content_new_def subparser.defs)
  have "byte_of 49 = CHR ''1''" "byte_of 48 = CHR ''0''" by code_simp+
  then have h: "hex_upper 4294967297 = ''100000001''" by (simp add: hex_upper.simps hex_digit_upper_def)
  have len: "length (hex_upper 4294967297) + 2 \<le> 64" and cap: "(64 :: nat) \<le> 262144" unfolding h by simp_all
  obtain u r w where v: "sp_view ?cvt (?s\<lparr>m_unparsedBuffer := u, m_parsedBuffer := r\<rparr>) = hex_upper 4294967297"
    using size_line [OF e _ d(1) hex_upper_no_CR len, of mem_vt "\<lambda>_. None" "[]"] by (metis cap)
  show ?thesis
    by (rule exI [of _ "?s\<lparr>m_unparsedBuffer := u, m_parsedBuffer := r\<rparr>"]) (use chunk_size_truncated [OF v] v d(2) in \<open>simp add: h size_max_def\<close>)
qed

end
