(* ===== verification/MIMEHeader.thy ===== *)
theory MIMEHeader
  imports HTTPHeaders
begin

text \<open>
  The header block of MIME and HTTP messages (\<^verbatim>\<open>mime_sub_header.cpp\<close>): header options with their
  sub-variables, the ordered multimap of options with its limits, and the reader of header lines. Options are shared
  pointers, so the options live in a store and the multimap and \<^verbatim>\<open>m_lastOpt\<close> hold their positions. Random
  placeholders (\<^verbatim>\<open>Random::createRandomString\<close>) depend on the bytes drawn from the random generator, which
  are arguments.
\<close>

section \<open>Random strings and placeholders\<close>

definition charset :: bytes where
  "charset = ''abcdefghijklmnopqrstuvwxyzABCDEFGHIJKLMNOPQRSTUVWXYZ0123456789''"

text \<open>\<open>None\<close>: \<^verbatim>\<open>RAND_bytes\<close> failed.\<close>

definition createRandomString :: "bytes option \<Rightarrow> bytes result" where
  "createRandomString rand =
     (case rand of
        Some buffer \<Rightarrow> Inr (map (\<lambda>b. charset ! (byte_val b mod length charset)) buffer)
      | None \<Rightarrow> Inl (RuntimeError ''RAND_bytes failed.''))"

definition static_msg :: "bytes \<Rightarrow> nat \<Rightarrow> bytes" where
  "static_msg secureReplace i = ''_STATIC_'' @ secureReplace @ ''_'' @ dec i"

text \<open>\<^verbatim>\<open>boost::replace_all\<close>: occurrences are replaced from left to right, without overlap.\<close>

function replace_all :: "bytes \<Rightarrow> bytes \<Rightarrow> bytes \<Rightarrow> bytes" where
  "replace_all pat rep [] = []"
| "replace_all pat rep (x # xs) =
     (if pat \<noteq> [] \<and> starts_with (x # xs) pat then rep @ replace_all pat rep (drop (length pat) (x # xs))
      else x # replace_all pat rep xs)"
  by pat_completeness auto
termination
proof (relation "measure (\<lambda>(pat, rep, s). length s)")
  fix pat rep :: bytes and x and xs :: bytes
  assume "pat \<noteq> [] \<and> starts_with (x # xs) pat"
  then have "0 < length pat" by simp
  then have "length (x # xs) - length pat < length (x # xs)" by (intro diff_less) simp_all
  then show "((pat, rep, drop (length pat) (x # xs)), pat, rep, x # xs) \<in> measure (\<lambda>(pat, rep, s). length s)"
    by simp
qed simp_all

declare replace_all.simps [simp del]

text \<open>The first text between double quotes, as found by the regular expression \<^verbatim>\<open>"([^"]*)"\<close>.\<close>

definition find_static :: "bytes \<Rightarrow> bytes option" where
  "find_static s =
     (case find_index ((=) (CHR 0x22)) s of
        None \<Rightarrow> None
      | Some i \<Rightarrow>
          (let rest = drop (Suc i) s
           in case find_index ((=) (CHR 0x22)) rest of None \<Rightarrow> None | Some n \<Rightarrow> Some (take n rest)))"

definition quoted :: "bytes \<Rightarrow> bytes" where
  "quoted t = CHR 0x22 # t @ [CHR 0x22]"

fun static_loop :: "nat \<Rightarrow> bytes \<Rightarrow> bytes list \<Rightarrow> bytes \<Rightarrow> (bytes list \<times> bytes) result" where
  "static_loop 0 secureReplace vStaticTexts s = Inl OutOfFuel"
| "static_loop (Suc fuel) secureReplace vStaticTexts s =
     (case find_static s of
        None \<Rightarrow> Inr (vStaticTexts, s)
      | Some t \<Rightarrow> static_loop fuel secureReplace (vStaticTexts @ [t])
                   (replace_all (quoted t) (static_msg secureReplace (length vStaticTexts)) s))"

definition replace_back :: "bytes \<Rightarrow> bytes list \<Rightarrow> bytes \<Rightarrow> bytes" where
  "replace_back secureReplace vStaticTexts s =
     foldl (\<lambda>s i. replace_all (static_msg secureReplace i) (vStaticTexts ! i) s) s [0..<length vStaticTexts]"

section \<open>Header options\<close>

record header_option =
  m_maxSubOptionsCount :: nat
  m_maxHeaderOptSize :: nat
  m_curHeaderOptSize :: nat
  m_origName :: bytes
  m_origValue :: bytes
  m_value :: bytes
  m_subVar :: "(bytes \<times> bytes) list"

definition header_option_new :: header_option where
  "header_option_new =
     \<lparr>m_maxSubOptionsCount = 16, m_maxHeaderOptSize = 8192, m_curHeaderOptSize = 0,
      m_origName = [], m_origValue = [], m_value = [], m_subVar = []\<rparr>"

definition isPermited7bitCharset :: "bytes \<Rightarrow> bool" where
  "isPermited7bitCharset varX \<longleftrightarrow> (\<forall>c\<in>set varX. \<not> (schar c < 32 \<or> schar c > 126))"

definition addSubVar :: "header_option \<Rightarrow> bytes \<Rightarrow> bytes \<Rightarrow> header_option" where
  "addSubVar opt varName varValue =
     (if varName = [] \<and> varValue = [] then opt
      else if length (m_subVar opt) \<ge> m_maxSubOptionsCount opt then opt
      else if length varName + length varValue + m_curHeaderOptSize opt > m_maxHeaderOptSize opt then opt
      else if \<not> isPermited7bitCharset varName then opt
      else if \<not> isPermited7bitCharset varValue then opt
      else opt\<lparr>m_curHeaderOptSize := m_curHeaderOptSize opt + (length varName + length varValue),
               m_subVar := mm_insert varName varValue (m_subVar opt)\<rparr>)"

definition getSubVar :: "header_option \<Rightarrow> bytes \<Rightarrow> bytes" where
  "getSubVar opt subVarName = (case mm_range subVarName (m_subVar opt) of [] \<Rightarrow> [] | v # _ \<Rightarrow> v)"

definition getSubVars :: "header_option \<Rightarrow> bytes \<Rightarrow> bytes list" where
  "getSubVars opt subVarName = mm_range subVarName (m_subVar opt)"

definition option_toString :: "header_option \<Rightarrow> bytes" where
  "option_toString opt = m_origName opt @ '': '' @ m_origValue opt"

definition getUpperName :: "header_option \<Rightarrow> bytes" where
  "getUpperName opt = to_upper_copy (m_origName opt)"

definition option_setValue :: "header_option \<Rightarrow> bytes \<Rightarrow> header_option" where
  "option_setValue opt v = opt\<lparr>m_value := trim v\<rparr>"

definition add_sub_value :: "bytes \<Rightarrow> bytes list \<Rightarrow> header_option \<Rightarrow> bytes \<Rightarrow> header_option" where
  "add_sub_value secureReplace vStaticTexts opt v =
     (case find_index ((=) CHR ''='') v of
        Some i \<Rightarrow> addSubVar opt (replace_back secureReplace vStaticTexts (trim (take i v)))
                               (replace_back secureReplace vStaticTexts (trim (drop (Suc i) v)))
      | None \<Rightarrow> addSubVar opt (replace_back secureReplace vStaticTexts (trim v)) [])"

fun sub_values_loop :: "bytes \<Rightarrow> bytes list \<Rightarrow> bool \<Rightarrow> header_option \<Rightarrow> bytes list \<Rightarrow> header_option" where
  "sub_values_loop secureReplace vStaticTexts first opt [] = opt"
| "sub_values_loop secureReplace vStaticTexts first opt (v # vs) =
     (let opt1 = add_sub_value secureReplace vStaticTexts opt v;
          opt2 = (if first then option_setValue opt1 (replace_back secureReplace vStaticTexts (trim v)) else opt1)
      in sub_values_loop secureReplace vStaticTexts False opt2 vs)"

definition parseSubValues :: "bytes option \<Rightarrow> header_option \<Rightarrow> bytes \<Rightarrow> header_option result" where
  "parseSubValues rand opt strName =
     (case createRandomString rand of
        Inl e \<Rightarrow> Inl e
      | Inr secureReplace \<Rightarrow>
          (let opt1 = opt\<lparr>m_origValue := strName\<rparr>; sVarValues = trim strName
           in case static_loop (Suc (length sVarValues)) secureReplace [] sVarValues of
                Inl e \<Rightarrow> Inl e
              | Inr (vStaticTexts, s) \<Rightarrow>
                  Inr (sub_values_loop secureReplace vStaticTexts True opt1 (split_compress (any_of '';'') s))))"

section \<open>The header block\<close>

record mime_header =
  options :: "header_option list"
  m_headers :: "(bytes \<times> nat) list"
  m_lastOpt :: "nat option"
  m_maxOptions :: nat

definition mime_header_new :: mime_header where
  "mime_header_new = \<lparr>options = [], m_headers = [], m_lastOpt = None, m_maxOptions = 32\<rparr>"

definition setMaxOptions :: "mime_header \<Rightarrow> nat \<Rightarrow> mime_header" where
  "setMaxOptions h v = h\<lparr>m_maxOptions := v\<rparr>"

text \<open>\<open>addHeaderOption\<close> receives the pointer of an option of the store.\<close>

definition addHeaderOption :: "mime_header \<Rightarrow> nat \<Rightarrow> mime_header \<times> bool" where
  "addHeaderOption h opt =
     (if length (m_headers h) = m_maxOptions h then (h, False)
      else (h\<lparr>m_headers := mm_insert (getUpperName (options h ! opt)) opt (m_headers h)\<rparr>, True))"

definition header_add :: "bytes option \<Rightarrow> mime_header \<Rightarrow> bytes \<Rightarrow> bytes \<Rightarrow> int \<Rightarrow> (mime_header \<times> bool) result" where
  "header_add rand h optionName optionValue state =
     (if state = 0 then
        if length (m_headers h) = m_maxOptions h then Inr (h, False)
        else case parseSubValues rand (header_option_new\<lparr>m_origName := optionName\<rparr>) optionValue of
               Inl e \<Rightarrow> Inl e
             | Inr opt \<Rightarrow>
                 (let optP = length (options h); h1 = h\<lparr>options := options h @ [opt]\<rparr>;
                      (h2, ok) = addHeaderOption h1 optP
                  in if ok then Inr (h2\<lparr>m_lastOpt := Some optP\<rparr>, True) else Inr (h2, False))
      else if state = 1 then
        (case m_lastOpt h of
           None \<Rightarrow> Inr (h, True)
         | Some optP \<Rightarrow>
             (case parseSubValues rand (options h ! optP) optionValue of
                Inl e \<Rightarrow> Inl e
              | Inr opt \<Rightarrow> Inr (h\<lparr>options := (options h)[optP := opt]\<rparr>, True)))
      else Inr (h, True))"

definition header_remove :: "mime_header \<Rightarrow> bytes \<Rightarrow> mime_header" where
  "header_remove h optionName = h\<lparr>m_headers := mm_erase (to_upper_copy optionName) (m_headers h)\<rparr>"

definition header_replace :: "bytes option \<Rightarrow> mime_header \<Rightarrow> bytes \<Rightarrow> bytes \<Rightarrow> mime_header result" where
  "header_replace rand h optionName optionValue =
     map_sum id fst (header_add rand (header_remove h optionName) optionName optionValue 0)"

definition getOptionsByName :: "mime_header \<Rightarrow> bytes \<Rightarrow> header_option list" where
  "getOptionsByName h varName = map ((!) (options h)) (mm_range (to_upper_copy varName) (m_headers h))"

definition getOptionByName :: "mime_header \<Rightarrow> bytes \<Rightarrow> header_option option" where
  "getOptionByName h varName =
     (case mm_range (to_upper_copy varName) (m_headers h) of [] \<Rightarrow> None | i # _ \<Rightarrow> Some (options h ! i))"

definition header_exist :: "mime_header \<Rightarrow> bytes \<Rightarrow> bool" where
  "header_exist h optionName \<longleftrightarrow> getOptionByName h optionName \<noteq> None"

definition getOptionRawStringByName :: "mime_header \<Rightarrow> bytes \<Rightarrow> bytes" where
  "getOptionRawStringByName h varName = (case getOptionByName h varName of Some opt \<Rightarrow> m_origValue opt | None \<Rightarrow> [])"

definition getOptionValueStringByName :: "mime_header \<Rightarrow> bytes \<Rightarrow> bytes" where
  "getOptionValueStringByName h varName = (case getOptionByName h varName of Some opt \<Rightarrow> m_value opt | None \<Rightarrow> [])"

text \<open>The reader of one header line; \<^verbatim>\<open>parse\<close> calls it until the line is empty.\<close>

definition find_colon :: "bytes \<Rightarrow> nat option" where
  "find_colon line = find_index (\<lambda>i. starts_with (drop i line) '': '') [0..<length line]"

definition parseOptionValue :: "bytes option \<Rightarrow> mime_header \<Rightarrow> bytes \<Rightarrow> mime_header result" where
  "parseOptionValue rand h optionValue =
     (if optionValue \<noteq> [] \<and> (hd optionValue = CHR '' '' \<or> hd optionValue = CHR 0x09) then
        map_sum id fst (header_add rand h [] optionValue 1)
      else case find_colon optionValue of
             Some found \<Rightarrow> map_sum id fst (header_add rand h (take found optionValue) (c_str (drop (found + 2) optionValue)) 0)
           | None \<Rightarrow> Inr h)"

text \<open>\<open>True\<close>: \<^verbatim>\<open>PARSE_GOTO_NEXT_SUBPARSER\<close>; \<open>False\<close>: \<^verbatim>\<open>PARSE_GET_MORE_DATA\<close>.\<close>

definition header_parse :: "bytes option \<Rightarrow> mime_header \<Rightarrow> bytes \<Rightarrow> (mime_header \<times> bool) result" where
  "header_parse rand h line =
     (if line = [] then Inr (h, True) else map_sum id (\<lambda>h'. (h', False)) (parseOptionValue rand h line))"

text \<open>The text that \<^verbatim>\<open>streamToUpstream\<close> writes.\<close>

definition header_text :: "mime_header \<Rightarrow> bytes" where
  "header_text h = concat (map (\<lambda>(_, i). option_toString (options h ! i) @ [CHR 0x0D, CHR 0x0A]) (m_headers h)) @ [CHR 0x0D, CHR 0x0A]"

section \<open>Placeholders and quoted texts\<close>

lemma replace_all_skip: "c \<notin> set pre \<Longrightarrow> replace_all (c # p) rep (pre @ s) = pre @ replace_all (c # p) rep s"
  by (induction pre) (auto simp: replace_all.simps(2) starts_with_def)

lemma replace_all_here: "replace_all (c # p) rep ((c # p) @ s) = rep @ replace_all (c # p) rep s"
  by (simp add: replace_all.simps(2) starts_with_def)

lemma replace_all_absent: "c \<notin> set s \<Longrightarrow> replace_all (c # p) rep s = s"
  using replace_all_skip [of c s p rep "[]"] by (simp add: replace_all.simps(1))

lemma replace_all_count: "x \<notin> set rep \<Longrightarrow> count_list (replace_all pat rep s) x \<le> count_list s x"
proof (induction pat rep s rule: replace_all.induct)
  case (2 pat rep y ys)
  show ?case
  proof (cases "pat \<noteq> [] \<and> starts_with (y # ys) pat")
    case True
    let ?d = "drop (length pat) (y # ys)"
    have "count_list (replace_all pat rep (y # ys)) x = count_list (replace_all pat rep ?d) x"
      using True "2.prems" by (subst replace_all.simps(2)) (simp add: count_list_0_iff)
    also have "\<dots> \<le> count_list ?d x" using 2 True by blast
    also have "\<dots> \<le> count_list (take (length pat) (y # ys)) x + count_list ?d x" by (rule le_add2)
    also have "\<dots> = count_list (y # ys) x" by (metis append_take_drop_id count_list_append)
    finally show ?thesis .
  next
    case False
    then have "replace_all pat rep (y # ys) = y # replace_all pat rep ys" unfolding replace_all.simps(2) by (rule if_not_P)
    then show ?thesis using "2.IH"(2) [OF False "2.prems"] by simp
  qed
qed (simp add: replace_all.simps)

lemma find_staticD:
  assumes "find_static s = Some t"
  obtains pre post where "s = pre @ quoted t @ post" and "CHR 0x22 \<notin> set pre" and "CHR 0x22 \<notin> set t"
proof -
  obtain i n where i: "find_index ((=) (CHR 0x22)) s = Some i" and n: "find_index ((=) (CHR 0x22)) (drop (Suc i) s) = Some n"
    and t: "t = take n (drop (Suc i) s)"
    using assms by (auto simp: find_static_def Let_def split: option.splits)
  note i' = find_index_SomeD [OF i] and n' = find_index_SomeD [OF n]
  have s: "s = take i s @ CHR 0x22 # drop (Suc i) s" using i' by (metis id_take_nth_drop)
  have r: "drop (Suc i) s = t @ CHR 0x22 # drop (Suc n) (drop (Suc i) s)" using n' t by (metis id_take_nth_drop)
  show thesis
  proof (rule that)
    show "s = take i s @ quoted t @ drop (Suc n) (drop (Suc i) s)"
      unfolding quoted_def append.simps append_assoc by (subst s, subst r) (rule refl)
    show "CHR 0x22 \<notin> set (take i s)" using i' by (auto simp: in_set_conv_nth)
    show "CHR 0x22 \<notin> set t" using n' t by (auto simp: in_set_conv_nth)
  qed
qed


lemma find_static_None: "CHR 0x22 \<notin> set s \<Longrightarrow> find_static s = None"
proof -
  assume "CHR 0x22 \<notin> set s"
  then have "find_index ((=) (CHR 0x22)) s = None" unfolding find_index_None_iff by metis
  then show ?thesis by (simp only: find_static_def option.case)
qed

lemma quote_not_in_dec: "CHR 0x22 \<notin> set (dec n)"
  using free_of_dec [of "[CHR 0x22]" n] by (simp add: free_of_def is_digit_def)

lemma quote_not_in_static_msg: "CHR 0x22 \<notin> set secureReplace \<Longrightarrow> CHR 0x22 \<notin> set (static_msg secureReplace i)"
  by (simp add: static_msg_def quote_not_in_dec)

text \<open>Each round of the search for quoted texts removes at least two quotes, so that it ends.\<close>

lemma static_round_decreases:
  assumes "find_static s = Some t" and "CHR 0x22 \<notin> set rep"
  shows "count_list (replace_all (quoted t) rep s) (CHR 0x22) < count_list s (CHR 0x22)"
proof -
  obtain pre post where s: "s = pre @ quoted t @ post" "CHR 0x22 \<notin> set pre" "CHR 0x22 \<notin> set t"
    using find_staticD [OF assms(1)] .
  have "replace_all (quoted t) rep s = pre @ rep @ replace_all (quoted t) rep post"
    unfolding s(1) quoted_def replace_all_skip [OF s(2)] using replace_all_here [of "CHR 0x22" "t @ [CHR 0x22]"] by simp
  then show ?thesis
    using replace_all_count [OF assms(2), of "quoted t" post] s assms(2) by (simp add: quoted_def count_list_0_iff)
qed

lemma static_loop_total:
  assumes "CHR 0x22 \<notin> set secureReplace"
  shows "count_list s (CHR 0x22) < fuel \<Longrightarrow> \<exists>r. static_loop fuel secureReplace texts s = Inr r"
proof (induction fuel arbitrary: texts s)
  case (Suc fuel)
  show ?case
  proof (cases "find_static s")
    case (Some t)
    then have "count_list (replace_all (quoted t) (static_msg secureReplace (length texts)) s) (CHR 0x22) < fuel"
      using static_round_decreases [OF Some quote_not_in_static_msg [OF assms], of "length texts"] Suc.prems by simp
    then show ?thesis using Suc.IH Some by simp
  qed simp
qed simp

lemma count_list_le_length: "count_list xs x \<le> length xs"
  by (induction xs) auto

lemma random_string_no_quote: "createRandomString rand = Inr r \<Longrightarrow> CHR 0x22 \<notin> set r"
proof -
  assume "createRandomString rand = Inr r"
  then obtain buffer where r: "r = map (\<lambda>b. charset ! (byte_val b mod length charset)) buffer"
    by (auto simp: createRandomString_def split: option.splits)
  have "charset ! (byte_val b mod length charset) \<in> set charset" for b
    by (rule nth_mem) (simp add: charset_def)
  moreover have "CHR 0x22 \<notin> set charset" by (simp add: charset_def)
  ultimately show ?thesis unfolding r by (metis (no_types, lifting) ex_map_conv)
qed

lemma parseSubValues_total: "\<exists>opt'. parseSubValues (Some buffer) opt v = Inr opt'"
proof -
  obtain r where r: "createRandomString (Some buffer) = Inr r" by (simp add: createRandomString_def)
  have "\<exists>x. static_loop (Suc (length (trim v))) r [] (trim v) = Inr x"
    by (rule static_loop_total [OF random_string_no_quote [OF r]]) (simp add: less_Suc_eq_le count_list_le_length)
  then show ?thesis using r by (auto simp: parseSubValues_def Let_def)
qed

section \<open>Limits\<close>

definition sub_var_size :: "bytes \<times> bytes \<Rightarrow> nat" where
  "sub_var_size e = length (fst e) + length (snd e)"

definition option_ok :: "header_option \<Rightarrow> bool" where
  "option_ok opt \<longleftrightarrow> mm_sorted (m_subVar opt) \<and> length (m_subVar opt) \<le> m_maxSubOptionsCount opt
     \<and> m_curHeaderOptSize opt = sum_list (map sub_var_size (m_subVar opt)) \<and> m_curHeaderOptSize opt \<le> m_maxHeaderOptSize opt
     \<and> (\<forall>e\<in>set (m_subVar opt). isPermited7bitCharset (fst e) \<and> isPermited7bitCharset (snd e))
     \<and> m_maxSubOptionsCount opt = 16 \<and> m_maxHeaderOptSize opt = 8192"

lemma sum_list_mm_insert: "sum_list (map sub_var_size (mm_insert k v ms)) = sub_var_size (k, v) + sum_list (map sub_var_size ms)"
  by (induction ms) (auto split: if_splits)

lemma addSubVar_ok: "option_ok opt \<Longrightarrow> option_ok (addSubVar opt n v) \<and> m_origName (addSubVar opt n v) = m_origName opt \<and> m_origValue (addSubVar opt n v) = m_origValue opt"
  by (auto simp: addSubVar_def option_ok_def mm_insert_sorted sum_list_mm_insert sub_var_size_def)

lemma add_sub_value_ok: "option_ok opt \<Longrightarrow> option_ok (add_sub_value r texts opt v)
    \<and> m_origName (add_sub_value r texts opt v) = m_origName opt \<and> m_origValue (add_sub_value r texts opt v) = m_origValue opt"
  by (simp add: add_sub_value_def addSubVar_ok split: option.split)

lemma option_setValue_ok: "option_ok (option_setValue opt v) \<longleftrightarrow> option_ok opt"
  by (simp add: option_ok_def option_setValue_def)

lemma sub_values_loop_ok: "option_ok opt \<Longrightarrow> option_ok (sub_values_loop r texts first opt vs)
    \<and> m_origName (sub_values_loop r texts first opt vs) = m_origName opt \<and> m_origValue (sub_values_loop r texts first opt vs) = m_origValue opt"
proof (induction vs arbitrary: opt first)
  case (Cons v vs)
  let ?o = "add_sub_value r texts opt v"
  let ?o2 = "if first then option_setValue ?o (replace_back r texts (trim v)) else ?o"
  have "option_ok ?o2 \<and> m_origName ?o2 = m_origName opt \<and> m_origValue ?o2 = m_origValue opt"
    using add_sub_value_ok [OF Cons.prems, of r texts v] option_setValue_ok by (auto simp: option_setValue_def)
  then show ?case using Cons.IH [of ?o2 False] by (simp add: Let_def)
qed simp

lemma parseSubValues_ok:
  assumes "option_ok opt" and "parseSubValues rand opt v = Inr opt'"
  shows "option_ok opt' \<and> m_origName opt' = m_origName opt \<and> m_origValue opt' = v"
proof -
  have "option_ok (opt\<lparr>m_origValue := v\<rparr>)" using assms(1) by (simp add: option_ok_def)
  moreover obtain r texts s where "opt' = sub_values_loop r texts True (opt\<lparr>m_origValue := v\<rparr>) (split_compress (any_of '';'') s)"
    using assms(2) by (auto simp: parseSubValues_def Let_def split: sum.splits prod.splits)
  ultimately show ?thesis using sub_values_loop_ok by simp
qed

definition header_inv :: "mime_header \<Rightarrow> bool" where
  "header_inv h \<longleftrightarrow> length (m_headers h) \<le> m_maxOptions h \<and> mm_sorted (m_headers h)
     \<and> (\<forall>e\<in>set (m_headers h). snd e < length (options h) \<and> fst e = getUpperName (options h ! snd e))
     \<and> (\<forall>opt\<in>set (options h). option_ok opt)
     \<and> (case m_lastOpt h of Some i \<Rightarrow> i < length (options h) | None \<Rightarrow> True)"

lemma header_inv_new: "header_inv mime_header_new"
  by (simp add: header_inv_def mime_header_new_def mm_sorted_def)

lemma header_option_new_ok: "option_ok (header_option_new\<lparr>m_origName := n\<rparr>)"
  by (simp add: option_ok_def header_option_new_def mm_sorted_def)

text \<open>The two outcomes of \<^verbatim>\<open>add\<close> for a new option.\<close>

lemma header_add_full: "length (m_headers h) = m_maxOptions h \<Longrightarrow> header_add rand h n v 0 = Inr (h, False)"
  by (simp add: header_add_def)

lemma header_add_new:
  assumes "length (m_headers h) \<noteq> m_maxOptions h"
  obtains opt where "option_ok opt" and "m_origName opt = n" and "m_origValue opt = v"
    and "header_add (Some buffer) h n v 0 =
      Inr (h\<lparr>options := options h @ [opt], m_headers := mm_insert (to_upper_copy n) (length (options h)) (m_headers h), m_lastOpt := Some (length (options h))\<rparr>, True)"
proof -
  let ?new = "header_option_new\<lparr>m_origName := n\<rparr>"
  obtain opt where p: "parseSubValues (Some buffer) ?new v = Inr opt" using parseSubValues_total by blast
  note ok = parseSubValues_ok [OF header_option_new_ok p]
  show thesis
    using that [of opt] ok p assms by (simp add: header_add_def addHeaderOption_def getUpperName_def Let_def)
qed

lemma header_add_continue:
  assumes "header_inv h" and "m_lastOpt h = Some i"
  obtains opt where "option_ok opt" and "m_origName opt = m_origName (options h ! i)" and "m_origValue opt = v"
    and "header_add (Some buffer) h n v 1 = Inr (h\<lparr>options := (options h)[i := opt]\<rparr>, True)"
proof -
  have "option_ok (options h ! i)" using assms by (auto simp: header_inv_def)
  moreover obtain opt where p: "parseSubValues (Some buffer) (options h ! i) v = Inr opt" using parseSubValues_total by blast
  ultimately show thesis using that [of opt] parseSubValues_ok p assms(2) by (simp add: header_add_def)
qed

lemma header_inv_insert:
  assumes "header_inv h" and "length (m_headers h) \<noteq> m_maxOptions h" and "option_ok opt" and "m_origName opt = n"
  shows "header_inv (h\<lparr>options := options h @ [opt], m_headers := mm_insert (to_upper_copy n) (length (options h)) (m_headers h),
           m_lastOpt := Some (length (options h))\<rparr>)"
  using assms by (auto simp: header_inv_def mm_insert_sorted getUpperName_def nth_append)

lemma header_inv_update:
  assumes "header_inv h" and "option_ok opt" and "m_origName opt = m_origName (options h ! i)"
  shows "header_inv (h\<lparr>options := (options h)[i := opt]\<rparr>)"
proof -
  have names: "getUpperName ((options h)[i := opt] ! j) = getUpperName (options h ! j)" if "j < length (options h)" for j
    using that assms(3) by (cases "j = i") (simp_all add: getUpperName_def)
  show ?thesis
    using assms(1,2) names set_update_subset_insert [of "options h" i opt]
    by (auto simp: header_inv_def split: option.splits)
qed

lemma header_add_inv:
  assumes "header_inv h"
  shows "\<exists>h' ok. header_add (Some buffer) h n v state = Inr (h', ok) \<and> header_inv h' \<and> m_maxOptions h' = m_maxOptions h"
proof -
  consider "state = 0" "length (m_headers h) = m_maxOptions h" | "state = 0" "length (m_headers h) \<noteq> m_maxOptions h"
    | i where "state = 1" "m_lastOpt h = Some i" | "state = 1" "m_lastOpt h = None" | "state \<noteq> 0" "state \<noteq> 1"
    by (cases "m_lastOpt h") auto
  then show ?thesis
  proof cases
    case 2
    obtain opt where opt: "option_ok opt" "m_origName opt = n" and "header_add (Some buffer) h n v 0 =
      Inr (h\<lparr>options := options h @ [opt], m_headers := mm_insert (to_upper_copy n) (length (options h)) (m_headers h), m_lastOpt := Some (length (options h))\<rparr>, True)"
      (is "_ = Inr (?h, True)") using header_add_new [OF 2(2)] .
    moreover have "header_inv ?h" by (rule header_inv_insert [OF assms 2(2) opt])
    moreover have "m_maxOptions ?h = m_maxOptions h" by simp
    ultimately show ?thesis using 2(1) by blast
  next
    case (3 i)
    obtain opt where opt: "option_ok opt" "m_origName opt = m_origName (options h ! i)"
      and "header_add (Some buffer) h n v 1 = Inr (h\<lparr>options := (options h)[i := opt]\<rparr>, True)"
      (is "_ = Inr (?h, True)") using header_add_continue [OF assms 3(2)] .
    moreover have "header_inv ?h" by (rule header_inv_update [OF assms opt])
    moreover have "m_maxOptions ?h = m_maxOptions h" by simp
    ultimately show ?thesis using 3(1) by blast
  qed (use assms in \<open>simp_all add: header_add_def, blast+\<close>)
qed

lemma header_remove_inv: "header_inv h \<Longrightarrow> header_inv (header_remove h n) \<and> m_maxOptions (header_remove h n) = m_maxOptions h"
  using le_trans [OF length_filter_le [of "\<lambda>e. fst e \<noteq> to_upper_copy n" "m_headers h"]] mm_erase_sorted [of "m_headers h" "to_upper_copy n"]
  by (auto simp: header_inv_def header_remove_def mm_erase_def split: option.splits)

text \<open>The calls that change a header block, each with the bytes that the random generator gives it.\<close>

datatype header_op = HAdd bytes bytes int | HLine bytes | HRemove bytes | HReplace bytes bytes

fun header_exec :: "header_op \<Rightarrow> bytes option \<Rightarrow> mime_header \<Rightarrow> mime_header result" where
  "header_exec (HAdd n v state) rand h = map_sum id fst (header_add rand h n v state)"
| "header_exec (HLine line) rand h = map_sum id fst (header_parse rand h line)"
| "header_exec (HRemove n) rand h = Inr (header_remove h n)"
| "header_exec (HReplace n v) rand h = header_replace rand h n v"

fun header_run :: "(header_op \<times> bytes option) list \<Rightarrow> mime_header \<Rightarrow> mime_header result" where
  "header_run [] h = Inr h"
| "header_run ((op, rand) # ops) h = (case header_exec op rand h of Inl e \<Rightarrow> Inl e | Inr h' \<Rightarrow> header_run ops h')"

lemma header_parse_inv:
  assumes "header_inv h"
  shows "\<exists>h'. map_sum id fst (header_parse (Some buffer) h line) = Inr h' \<and> header_inv h' \<and> m_maxOptions h' = m_maxOptions h"
proof -
  have add: "\<exists>h'. map_sum id fst (header_add (Some buffer) h n v state) = Inr h' \<and> header_inv h' \<and> m_maxOptions h' = m_maxOptions h" for n v state
    using header_add_inv [OF assms, of buffer n v state] by auto
  have "\<exists>h'. parseOptionValue (Some buffer) h line = Inr h' \<and> header_inv h' \<and> m_maxOptions h' = m_maxOptions h"
    using add assms by (auto simp: parseOptionValue_def split: option.split)
  then show ?thesis using assms by (auto simp: header_parse_def)
qed

lemma header_exec_inv:
  assumes "header_inv h"
  shows "\<exists>h'. header_exec op (Some buffer) h = Inr h' \<and> header_inv h' \<and> m_maxOptions h' = m_maxOptions h"
proof (cases op)
  case (HAdd n v state)
  then show ?thesis using header_add_inv [OF assms, of buffer n v state] by auto
next
  case (HLine line)
  then show ?thesis using header_parse_inv [OF assms] by simp
next
  case (HRemove n)
  then show ?thesis using header_remove_inv [OF assms] by simp
next
  case (HReplace n v)
  then show ?thesis
    using header_add_inv [OF conjunct1 [OF header_remove_inv [OF assms]], of buffer n n v 0] header_remove_inv [OF assms, of n]
    by (auto simp: header_replace_def)
qed

lemma header_run_inv:
  assumes "header_inv h" and "\<forall>e\<in>set ops. snd e \<noteq> None"
  shows "\<exists>h'. header_run ops h = Inr h' \<and> header_inv h' \<and> m_maxOptions h' = m_maxOptions h"
  using assms
proof (induction ops arbitrary: h)
  case (Cons e ops)
  obtain op buffer where e: "e = (op, Some buffer)" using Cons.prems(2) by (cases e) auto
  obtain h1 where h1: "header_exec op (Some buffer) h = Inr h1" "header_inv h1" "m_maxOptions h1 = m_maxOptions h"
    using header_exec_inv [OF Cons.prems(1)] by blast
  then show ?case using Cons.IH [OF h1(2)] Cons.prems(2) e by auto
qed simp

text \<open>
  C19. Whatever header lines arrive and whatever is added, replaced or removed, the calls return (the search for quoted
  texts ends) and the header block stays within its limits: at most 32 options, each filed under its upper-case name and
  with at most 16 sub-variables of at most 8192 bytes together, all of them printable 7-bit text.
\<close>

theorem mime_header_limits:
  assumes "\<forall>e\<in>set ops. snd e \<noteq> None"
  shows "\<exists>h. header_run ops mime_header_new = Inr h \<and> length (m_headers h) \<le> 32
    \<and> (\<forall>(k, i)\<in>set (m_headers h). i < length (options h) \<and> k = getUpperName (options h ! i)
        \<and> length (m_subVar (options h ! i)) \<le> 16 \<and> sum_list (map sub_var_size (m_subVar (options h ! i))) \<le> 8192
        \<and> (\<forall>(n, v)\<in>set (m_subVar (options h ! i)). isPermited7bitCharset n \<and> isPermited7bitCharset v))"
proof -
  obtain h where h: "header_run ops mime_header_new = Inr h" "header_inv h" "m_maxOptions h = 32"
    using header_run_inv [OF header_inv_new assms] by (auto simp: mime_header_new_def)
  have "length (m_headers h) \<le> 32" using h(2,3) by (simp add: header_inv_def)
  moreover have "i < length (options h) \<and> k = getUpperName (options h ! i) \<and> option_ok (options h ! i)" if "(k, i) \<in> set (m_headers h)" for k i
    using h(2) that by (fastforce simp: header_inv_def)
  ultimately show ?thesis using h(1) by (intro exI [of _ h]) (fastforce simp: option_ok_def)
qed

theorem mime_header_limits_witness:
  "\<exists>h. header_run [(HAdd ''Host'' ''a'' 0, Some ''0123456789abcdef''), (HLine ''X: 1; q=2'', Some ''0123456789abcdef''), (HRemove ''host'', Some ''0123456789abcdef'')] mime_header_new = Inr h
    \<and> length (m_headers h) \<le> 32"
  using mime_header_limits [of "[(HAdd ''Host'' ''a'' 0, Some ''0123456789abcdef''), (HLine ''X: 1; q=2'', Some ''0123456789abcdef''), (HRemove ''host'', Some ''0123456789abcdef'')]"]
  by auto

section \<open>Quoted sub-values\<close>

lemma find_static_quoted:
  assumes "CHR 0x22 \<notin> set pre" and "CHR 0x22 \<notin> set t"
  shows "find_static (pre @ quoted t @ post) = Some t"
proof -
  have first: "find_index ((=) (CHR 0x22)) (xs @ CHR 0x22 # ys) = Some (length xs)" if "CHR 0x22 \<notin> set xs" for xs ys
  proof -
    have "find_index ((=) (CHR 0x22)) xs = None" using that unfolding find_index_None_iff by metis
    then show ?thesis by (simp add: find_index_append)
  qed
  have i: "find_index ((=) (CHR 0x22)) (pre @ quoted t @ post) = Some (length pre)"
    using first [OF assms(1), of "t @ [CHR 0x22] @ post"] by (simp add: quoted_def)
  have rest: "drop (Suc (length pre)) (pre @ quoted t @ post) = t @ CHR 0x22 # post" by (simp add: quoted_def)
  show ?thesis unfolding find_static_def i option.case rest Let_def first [OF assms(2)] by simp
qed

lemma static_loop_one:
  assumes "CHR 0x22 \<notin> set pre" and "CHR 0x22 \<notin> set t" and "CHR 0x22 \<notin> set r"
  shows "static_loop (Suc (Suc fuel)) r [] (pre @ quoted t) = Inr ([t], pre @ static_msg r 0)"
proof -
  have f: "find_static (pre @ quoted t) = Some t" using find_static_quoted [OF assms(1,2), of "[]"] by simp
  have "replace_all (quoted t) (static_msg r 0) (pre @ quoted t) = pre @ static_msg r 0"
    unfolding quoted_def replace_all_skip [OF assms(1)]
    using replace_all_here [of "CHR 0x22" "t @ [CHR 0x22]" "static_msg r 0" "[]"] by (simp add: replace_all.simps(1))
  moreover have "find_static (pre @ static_msg r 0) = None"
    using assms(1) quote_not_in_static_msg [OF assms(3)] by (intro find_static_None) simp
  ultimately show ?thesis using f by simp
qed

definition header_token :: "bytes \<Rightarrow> bool" where
  "header_token n \<longleftrightarrow> n \<noteq> [] \<and> (\<forall>c\<in>set n. is_alnum c \<or> c = CHR ''-'' \<or> c = CHR ''/'')"

lemma header_token_char:
  assumes "header_token n" and "c \<in> set n"
  shows "\<not> is_space c" and "c \<noteq> CHR 0x22" and "c \<noteq> CHR '';''" and "c \<noteq> CHR ''=''" and "c \<noteq> CHR ''_''" and "\<not> (schar c < 32 \<or> schar c > 126)"
proof -
  have c: "is_alnum c \<or> c = CHR ''-'' \<or> c = CHR ''/''" using assms by (simp add: header_token_def)
  then have b: "33 < byte_val c" "byte_val c < 123" by (auto simp: is_alnum_def is_alpha_def is_upper_def is_lower_def is_digit_def)
  then show "\<not> is_space c" "\<not> (schar c < 32 \<or> schar c > 126)" by (auto simp: is_space_def schar_def)
  show "c \<noteq> CHR 0x22" "c \<noteq> CHR '';''" "c \<noteq> CHR ''=''" "c \<noteq> CHR ''_''"
    using c by (auto simp: is_alnum_def is_alpha_def is_upper_def is_lower_def is_digit_def)
qed

lemma header_token_trim: "header_token n \<Longrightarrow> trim n = n"
  using header_token_char(1) by (intro trim_id) (simp add: header_token_def)

lemma random_string_chars:
  assumes "createRandomString rand = Inr r" and "c \<in> set r"
  shows "is_alnum c"
proof -
  obtain buffer where r: "r = map (\<lambda>b. charset ! (byte_val b mod length charset)) buffer"
    using assms(1) by (auto simp: createRandomString_def split: option.splits)
  have "charset ! (byte_val b mod length charset) \<in> set charset" for b
    by (rule nth_mem) (simp add: charset_def)
  then have "c \<in> set charset" using assms(2) r by auto
  moreover have "list_all is_alnum charset" by code_simp
  ultimately show ?thesis by (simp add: list_all_iff)
qed

lemma static_msg_chars:
  assumes "createRandomString rand = Inr r" and "c \<in> set (static_msg r i)"
  shows "c \<noteq> CHR '';''" and "c \<noteq> CHR ''=''" and "\<not> is_space c"
proof -
  have "is_alnum c \<or> c = CHR ''_''"
    using assms(2) random_string_chars [OF assms(1)] dec_digits [of c i] digit_facts(1)
    by (auto simp: static_msg_def is_alnum_def is_alpha_def is_upper_def)
  then show "c \<noteq> CHR '';''" "c \<noteq> CHR ''=''" "\<not> is_space c"
    by (auto simp: is_alnum_def is_alpha_def is_upper_def is_lower_def is_digit_def is_space_def)
qed

lemma static_msg_trim: "createRandomString rand = Inr r \<Longrightarrow> trim (static_msg r i) = static_msg r i"
proof -
  assume r: "createRandomString rand = Inr r"
  have "static_msg r i \<noteq> []" by (simp add: static_msg_def)
  then have "hd (static_msg r i) \<in> set (static_msg r i)" "last (static_msg r i) \<in> set (static_msg r i)" by simp_all
  then show ?thesis using static_msg_chars(3) [OF r] by (intro trim_id) blast
qed

lemma replace_back_one:
  shows "CHR ''_'' \<notin> set s \<Longrightarrow> replace_back r [t] s = s" and "replace_back r [t] (static_msg r 0) = t"
proof -
  have m: "static_msg r 0 = CHR ''_'' # (''STATIC_'' @ r @ ''_'' @ dec 0)" by (simp add: static_msg_def)
  show "CHR ''_'' \<notin> set s \<Longrightarrow> replace_back r [t] s = s"
    using replace_all_absent by (simp add: replace_back_def m)
  show "replace_back r [t] (static_msg r 0) = t"
    using replace_all_here [of "CHR ''_''" "''STATIC_'' @ r @ ''_'' @ dec 0" t "[]"]
    by (simp add: replace_back_def m replace_all.simps(1))
qed

lemma find_equal_first: "CHR ''='' \<notin> set n \<Longrightarrow> find_index ((=) CHR ''='') (n @ CHR ''='' # v) = Some (length n)"
proof -
  assume "CHR ''='' \<notin> set n"
  then have "find_index ((=) CHR ''='') n = None" unfolding find_index_None_iff by metis
  then show ?thesis by (simp add: find_index_append)
qed

lemma find_equal_None: "CHR ''='' \<notin> set n \<Longrightarrow> find_index ((=) CHR ''='') n = None"
  unfolding find_index_None_iff by metis

text \<open>
  A quoted parameter as in \<^verbatim>\<open>form-data; name="..."\<close> is delivered whole: the option has the leading value, and the
  sub-variable has exactly the text between the quotes, with its semicolons, equal signs and blanks. It holds for every
  random placeholder and every printable text without quotes within the size limit.
\<close>

theorem mime_quoted_parameter:
  assumes "header_token v" and "header_token n" and "n \<noteq> v" and "CHR 0x22 \<notin> set t" and "isPermited7bitCharset t"
    and "length v + length n + length t \<le> 8192"
  shows "\<exists>opt. parseSubValues (Some buffer) header_option_new (v @ ''; '' @ n @ ''='' @ quoted t) = Inr opt
    \<and> m_value opt = v \<and> getSubVars opt n = [t]"
proof -
  obtain r where r: "createRandomString (Some buffer) = Inr r" by (simp add: createRandomString_def)
  define pre where "pre = v @ ''; '' @ n @ ''=''"
  let ?msg = "static_msg r 0"
  note vc = header_token_char [OF assms(1)] and nc = header_token_char [OF assms(2)] and mc = static_msg_chars [OF r]
  have trim0: "trim (pre @ quoted t) = pre @ quoted t"
    using vc(1) assms(1) by (intro trim_id) (auto simp: pre_def header_token_def quoted_def is_space_def)
  have pre: "CHR 0x22 \<notin> set pre" using vc(2) nc(2) by (auto simp: pre_def)
  have "length (pre @ quoted t) = Suc (length (pre @ t @ ''x''))" by (simp add: quoted_def)
  then have loop: "static_loop (Suc (length (pre @ quoted t))) r [] (pre @ quoted t) = Inr ([t], pre @ ?msg)"
    using static_loop_one [OF pre assms(4) random_string_no_quote [OF r]] by metis
  have split: "split_compress (any_of '';'') (pre @ ?msg) = [v, '' '' @ n @ ''='' @ ?msg]"
  proof -
    have "split_compress (any_of '';'') ('' '' @ n @ ''='' @ ?msg) = ['' '' @ n @ ''='' @ ?msg]"
      using nc(3) mc(1) by (intro split_compress_single) (auto simp: any_of_def)
    then show ?thesis
      using split_compress_append [of v "any_of '';''" "CHR '';''" "'' '' @ n @ ''='' @ ?msg"] vc(3) by (auto simp: any_of_def pre_def)
  qed
  have first: "find_index ((=) CHR ''='') v = None" by (rule find_equal_None) (use vc(4) in blast)
  have second: "find_index ((=) CHR ''='') ('' '' @ n @ ''='' @ ?msg) = Some (Suc (length n))"
    using find_equal_first [of n ?msg] nc(4) by auto
  have trims: "trim v = v" "trim ('' '' @ n) = n" "trim ?msg = ?msg"
    using header_token_trim assms(1,2) trim_leading [of "CHR '' ''" n] static_msg_trim [OF r] by (auto simp: is_space_def)
  have backs: "replace_back r [t] v = v" "replace_back r [t] n = n" "replace_back r [t] ?msg = t"
    using replace_back_one vc(5) nc(5) by blast+
  have ok: "isPermited7bitCharset v" "isPermited7bitCharset n" "v \<noteq> []" "n \<noteq> []"
    using vc(6) nc(6) assms(1,2) by (auto simp: isPermited7bitCharset_def header_token_def)
  let ?new = "header_option_new\<lparr>m_origValue := pre @ quoted t\<rparr>"
  let ?o1 = "option_setValue (addSubVar ?new v []) v"
  have p: "parseSubValues (Some buffer) header_option_new (pre @ quoted t) = Inr (addSubVar ?o1 n t)"
    using second trims(2) unfolding parseSubValues_def r sum.case Let_def trim0 loop prod.case split
    by (simp add: first trims backs add_sub_value_def)
  have perm: "isPermited7bitCharset []" by (simp add: isPermited7bitCharset_def)
  have o1: "m_subVar ?o1 = [(v, [])]" "m_curHeaderOptSize ?o1 = length v" "m_maxSubOptionsCount ?o1 = 16" "m_maxHeaderOptSize ?o1 = 8192" "m_value ?o1 = v"
    using ok perm assms(6) trims(1) by (simp_all add: option_setValue_def addSubVar_def header_option_new_def)
  have "m_subVar (addSubVar ?o1 n t) = mm_insert n t [(v, [])]" "m_value (addSubVar ?o1 n t) = v"
    using ok o1 assms(5,6) by (simp_all add: addSubVar_def)
  moreover have "v @ ''; '' @ n @ ''='' @ quoted t = pre @ quoted t" by (simp add: pre_def)
  ultimately show ?thesis using p assms(3) by (auto simp: getSubVars_def mm_range_def)
qed

theorem mime_quoted_parameter_witness:
  "\<exists>opt. parseSubValues (Some ''0123456789abcdef'') header_option_new (''form-data; name='' @ quoted ''a;b=c'') = Inr opt
    \<and> m_value opt = ''form-data'' \<and> getSubVars opt ''name'' = [''a;b=c'']"
proof -
  have "header_token ''form-data''" "header_token ''name''" "isPermited7bitCharset ''a;b=c''"
    by (simp_all add: header_token_def isPermited7bitCharset_def is_alnum_def is_alpha_def is_lower_def schar_def)
  from mime_quoted_parameter [OF this(1,2) _ _ this(3)] show ?thesis by simp
qed

text \<open>
  With more than ten quoted texts the placeholder of number 10 begins with the one of number 1, so that the eleventh text
  is replaced by the second one and a zero.
\<close>

lemma placeholder_collision:
  "replace_back ''0123456789abcdef'' (map (\<lambda>c. [c]) ''abcdefghijk'') (static_msg ''0123456789abcdef'' 10) = ''b0''"
  by code_simp

section \<open>Looking up and printing\<close>

lemma getOptions_insert:
  assumes "header_inv h"
  shows "getOptionsByName (h\<lparr>options := options h @ [opt], m_headers := mm_insert (to_upper_copy n) (length (options h)) (m_headers h), m_lastOpt := l\<rparr>) n'
    = getOptionsByName h n' @ (if to_upper_copy n' = to_upper_copy n then [opt] else [])"
proof -
  have s: "mm_sorted (m_headers h)" using assms by (simp add: header_inv_def)
  have "(options h @ [opt]) ! i = options h ! i" if "i \<in> set (mm_range k (m_headers h))" for i k
    using that assms by (auto simp: header_inv_def mm_range_def nth_append)
  then show ?thesis by (simp add: getOptionsByName_def mm_range_insert [OF s] cong: map_cong)
qed

lemma getOptions_remove:
  "getOptionsByName (header_remove h n) n' = (if to_upper_copy n' = to_upper_copy n then [] else getOptionsByName h n')"
  by (simp add: getOptionsByName_def header_remove_def mm_range_erase)

lemma getRaw_conv: "getOptionRawStringByName h n = (case getOptionsByName h n of [] \<Rightarrow> [] | opt # _ \<Rightarrow> m_origValue opt)"
  by (simp add: getOptionRawStringByName_def getOptionByName_def getOptionsByName_def split: list.split)

text \<open>
  Adding an option to a block that is not full files it behind the options of the same name, whatever the letter case
  of the names, and leaves the others; replacing an option makes its new text the one that is read back, under every
  spelling of the name, and leaves the other names alone.
\<close>

theorem mime_header_lookup:
  assumes "header_inv h" and "length (m_headers h) < m_maxOptions h"
  shows "(\<exists>h' opt. header_add (Some buffer) h n v 0 = Inr (h', True) \<and> m_origName opt = n \<and> m_origValue opt = v
        \<and> (\<forall>n'. getOptionsByName h' n' = getOptionsByName h n' @ (if to_upper_copy n' = to_upper_copy n then [opt] else [])))
    \<and> (\<exists>h'. header_replace (Some buffer) h n v = Inr h'
        \<and> (\<forall>n'. getOptionRawStringByName h' n' = (if to_upper_copy n' = to_upper_copy n then v else getOptionRawStringByName h n')))"
proof -
  have add: "\<exists>h' opt. header_add (Some buffer) g n v 0 = Inr (h', True) \<and> m_origName opt = n \<and> m_origValue opt = v
      \<and> (\<forall>n'. getOptionsByName h' n' = getOptionsByName g n' @ (if to_upper_copy n' = to_upper_copy n then [opt] else []))"
    if g: "header_inv g" "length (m_headers g) < m_maxOptions g" for g
  proof -
    have "length (m_headers g) \<noteq> m_maxOptions g" using g(2) by simp
    then show ?thesis using header_add_new [of g n v buffer] getOptions_insert [OF g(1)] by metis
  qed
  have r: "header_inv (header_remove h n)" "length (m_headers (header_remove h n)) < m_maxOptions (header_remove h n)"
    using header_remove_inv [OF assms(1)] assms(2) le_less_trans [OF length_filter_le assms(2)]
    by (auto simp: header_remove_def mm_erase_def)
  obtain h' opt where h': "header_add (Some buffer) (header_remove h n) n v 0 = Inr (h', True)" "m_origValue opt = v"
    "\<And>n'. getOptionsByName h' n' = getOptionsByName (header_remove h n) n' @ (if to_upper_copy n' = to_upper_copy n then [opt] else [])"
    using add [OF r] by blast
  have "header_replace (Some buffer) h n v = Inr h'" using h'(1) by (simp add: header_replace_def)
  then show ?thesis using add [OF assms] h'(2,3) by (auto simp: getRaw_conv getOptions_remove)
qed

theorem mime_header_lookup_witness:
  "\<exists>h'. header_replace (Some ''0123456789abcdef'') mime_header_new ''Host'' ''a'' = Inr h' \<and> getOptionRawStringByName h' ''HOST'' = ''a''"
proof -
  have "length (m_headers mime_header_new) < m_maxOptions mime_header_new" by (simp add: mime_header_new_def)
  from mime_header_lookup [OF header_inv_new this, of "''0123456789abcdef''" "''Host''" "''a''"]
  obtain h' where h': "header_replace (Some ''0123456789abcdef'') mime_header_new ''Host'' ''a'' = Inr h'"
    "\<forall>n'. getOptionRawStringByName h' n' = (if to_upper_copy n' = to_upper_copy ''Host'' then ''a'' else getOptionRawStringByName mime_header_new n')"
    by blast
  have "to_upper_copy ''HOST'' = to_upper_copy ''Host''" by code_simp
  then show ?thesis using h' by (intro exI [of _ h']) simp
qed

text \<open>A folded line does not continue the text of its option: it takes its place.\<close>

lemma header_continuation_overwrites:
  assumes "header_inv h" and "m_lastOpt h = Some i"
  shows "\<exists>h'. parseOptionValue (Some buffer) h (CHR '' '' # rest) = Inr h' \<and> m_origValue (options h' ! i) = CHR '' '' # rest"
proof -
  have "i < length (options h)" using assms by (simp add: header_inv_def)
  moreover obtain opt where "m_origValue opt = CHR '' '' # rest"
    and "header_add (Some buffer) h [] (CHR '' '' # rest) 1 = Inr (h\<lparr>options := (options h)[i := opt]\<rparr>, True)"
    using header_add_continue [OF assms] by metis
  ultimately show ?thesis by (simp add: parseOptionValue_def)
qed

text \<open>
  Printed options are read back: the block of lines rebuilds the same names and texts in the same order. The lines are cut out of the
  received bytes by the sub-parser of \<^verbatim>\<open>HTTPBase\<close>, where \<open>read_lines\<close> describes what it has collected after some lines.
\<close>

definition printable_option :: "header_option \<Rightarrow> bool" where
  "printable_option opt \<longleftrightarrow> CHR '':'' \<notin> set (m_origName opt) \<and> (m_origName opt = [] \<or> hd (m_origName opt) \<noteq> CHR '' '' \<and> hd (m_origName opt) \<noteq> CHR 0x09)
     \<and> byte_of 0 \<notin> set (m_origValue opt)"

lemma find_colon_first: "CHR '':'' \<notin> set n \<Longrightarrow> find_colon (n @ '': '' @ v) = Some (length n)"
  unfolding find_colon_def
proof (rule find_index_SomeI)
  fix j assume n: "CHR '':'' \<notin> set n" and j: "j < length n"
  have nth: "[0..<length (n @ '': '' @ v)] ! j = j" by (rule nth_upt [of 0, simplified]) (use j in simp)
  have "drop j (n @ '': '' @ v) = n ! j # drop (Suc j) n @ '': '' @ v" using j by (simp add: Cons_nth_drop_Suc)
  moreover have "n ! j \<noteq> CHR '':''" using n j by (metis nth_mem)
  ultimately show "\<not> starts_with (drop ([0..<length (n @ '': '' @ v)] ! j) (n @ '': '' @ v)) '': ''"
    unfolding nth by (simp add: starts_with_def)
next
  assume "CHR '':'' \<notin> set n"
  have "[0..<length (n @ '': '' @ v)] ! length n = length n" by (rule nth_upt [of 0, simplified]) simp
  then show "starts_with (drop ([0..<length (n @ '': '' @ v)] ! length n) (n @ '': '' @ v)) '': ''"
    by (simp add: starts_with_def)
qed simp

lemma parse_printed_option:
  assumes "printable_option opt"
  shows "parseOptionValue rand h (option_toString opt) = map_sum id fst (header_add rand h (m_origName opt) (m_origValue opt) 0)"
proof -
  have "find_colon (option_toString opt) = Some (length (m_origName opt))"
    using assms find_colon_first by (simp add: option_toString_def printable_option_def)
  moreover have "hd (option_toString opt) \<noteq> CHR '' ''" "hd (option_toString opt) \<noteq> CHR 0x09"
    using assms by (cases "m_origName opt"; simp add: option_toString_def printable_option_def)+
  ultimately show ?thesis
    using assms by (simp add: parseOptionValue_def option_toString_def c_str_id printable_option_def)
qed

definition header_view :: "mime_header \<Rightarrow> (bytes \<times> bytes \<times> bytes) list" where
  "header_view h = map (\<lambda>(k, i). (k, m_origName (options h ! i), m_origValue (options h ! i))) (m_headers h)"

fun read_lines :: "bytes option \<Rightarrow> bytes list \<Rightarrow> mime_header \<Rightarrow> mime_header result" where
  "read_lines rand [] h = Inr h"
| "read_lines rand (l # ls) h = (case header_parse rand h l of Inl e \<Rightarrow> Inl e | Inr (h', True) \<Rightarrow> Inr h' | Inr (h', False) \<Rightarrow> read_lines rand ls h')"

lemma read_printed_line:
  assumes "header_inv g" and "length (m_headers g) < m_maxOptions g" and "printable_option opt"
    and "\<And>e. e \<in> set (m_headers g) \<Longrightarrow> \<not> bytes_less (getUpperName opt) (fst e)"
  obtains g' where "header_parse (Some buffer) g (option_toString opt) = Inr (g', False)" and "header_inv g'"
    and "m_maxOptions g' = m_maxOptions g" and "header_view g' = header_view g @ [(getUpperName opt, m_origName opt, m_origValue opt)]"
    and "length (m_headers g') = Suc (length (m_headers g))"
proof -
  have ne: "length (m_headers g) \<noteq> m_maxOptions g" using assms(2) by simp
  obtain o' where o': "option_ok o'" "m_origName o' = m_origName opt" "m_origValue o' = m_origValue opt"
    and add: "header_add (Some buffer) g (m_origName opt) (m_origValue opt) 0 =
      Inr (g\<lparr>options := options g @ [o'], m_headers := mm_insert (to_upper_copy (m_origName opt)) (length (options g)) (m_headers g), m_lastOpt := Some (length (options g))\<rparr>, True)"
    (is "_ = Inr (?g, True)") using header_add_new [OF ne] .
  have ins: "m_headers ?g = m_headers g @ [(getUpperName opt, length (options g))]"
    using mm_insert_last [of "m_headers g" "getUpperName opt"] assms(4) by (simp add: getUpperName_def)
  have old: "(options g @ [o']) ! i = options g ! i" if "(k, i) \<in> set (m_headers g)" for k i
    using assms(1) that by (fastforce simp: header_inv_def nth_append)
  have view: "header_view ?g = header_view g @ [(getUpperName opt, m_origName opt, m_origValue opt)]"
    unfolding header_view_def ins using old o'(2,3) by (auto simp: case_prod_beta)
  have line: "option_toString opt \<noteq> []" by (simp add: option_toString_def)
  show thesis
  proof (rule that [of ?g])
    show "header_parse (Some buffer) g (option_toString opt) = Inr (?g, False)"
      using line parse_printed_option [OF assms(3)] add by (simp add: header_parse_def)
    show "header_inv ?g" by (rule header_inv_insert [OF assms(1) ne o'(1,2)])
    show "header_view ?g = header_view g @ [(getUpperName opt, m_origName opt, m_origValue opt)]" by (rule view)
    show "length (m_headers ?g) = Suc (length (m_headers g))" using ins by simp
  qed simp
qed

lemma header_view_keys: "map fst (header_view h) = map fst (m_headers h)"
  by (simp add: header_view_def case_prod_beta)

lemma read_printed_lines:
  assumes "header_inv g" and "length (m_headers g) + length opts \<le> m_maxOptions g" and "\<forall>opt\<in>set opts. printable_option opt"
    and "sorted_wrt (\<lambda>x y. \<not> bytes_less y x) (map fst (m_headers g) @ map getUpperName opts)"
  shows "\<exists>g'. read_lines (Some buffer) (map option_toString opts) g = Inr g'
    \<and> header_view g' = header_view g @ map (\<lambda>opt. (getUpperName opt, m_origName opt, m_origValue opt)) opts"
  using assms
proof (induction opts arbitrary: g)
  case Nil
  then show ?case by (simp add: header_parse_def)
next
  case (Cons opt opts)
  have less: "\<not> bytes_less (getUpperName opt) (fst e)" if "e \<in> set (m_headers g)" for e
    using Cons.prems(4) that by (auto simp: sorted_wrt_append)
  have room: "length (m_headers g) < m_maxOptions g" and pr: "printable_option opt" using Cons.prems(2,3) by simp_all
  obtain g' where g': "header_parse (Some buffer) g (option_toString opt) = Inr (g', False)" "header_inv g'"
    "m_maxOptions g' = m_maxOptions g" "header_view g' = header_view g @ [(getUpperName opt, m_origName opt, m_origValue opt)]"
    "length (m_headers g') = Suc (length (m_headers g))"
    using read_printed_line [OF Cons.prems(1) room pr less] .
  have k: "map fst (m_headers g') = map fst (m_headers g) @ [getUpperName opt]"
    unfolding header_view_keys [symmetric] g'(4) by simp
  have "\<exists>g''. read_lines (Some buffer) (map option_toString opts) g' = Inr g''
    \<and> header_view g'' = header_view g' @ map (\<lambda>opt. (getUpperName opt, m_origName opt, m_origValue opt)) opts"
    by (rule Cons.IH [OF g'(2)]) (use Cons.prems g' k in auto)
  then show ?case using g' by auto
qed

definition header_options :: "mime_header \<Rightarrow> header_option list" where
  "header_options h = map (\<lambda>e. options h ! snd e) (m_headers h)"

lemma header_text_lines: "header_text h = concat (map (\<lambda>l. l @ [CHR 0x0D, CHR 0x0A]) (map option_toString (header_options h) @ [[]]))"
  by (simp add: header_text_def header_options_def split_def comp_def)

lemma header_keys_sorted:
  assumes "header_inv h"
  shows "map fst (m_headers h) = map getUpperName (header_options h)" and "sorted_wrt (\<lambda>x y. \<not> bytes_less y x) (map getUpperName (header_options h))"
proof -
  show eq: "map fst (m_headers h) = map getUpperName (header_options h)"
    using assms by (simp add: header_inv_def header_options_def)
  show "sorted_wrt (\<lambda>x y. \<not> bytes_less y x) (map getUpperName (header_options h))"
    using assms unfolding eq [symmetric] by (simp add: header_inv_def mm_sorted_def sorted_wrt_map)
qed

lemma printed_lines_read:
  assumes "header_inv h" and "length (m_headers h) \<le> 32" and "\<forall>opt\<in>set (header_options h). printable_option opt"
  shows "\<exists>g. read_lines (Some buffer) (map option_toString (header_options h)) mime_header_new = Inr g \<and> header_view g = header_view h"
proof -
  have "\<exists>g. read_lines (Some buffer) (map option_toString (header_options h)) mime_header_new = Inr g
    \<and> header_view g = header_view mime_header_new @ map (\<lambda>opt. (getUpperName opt, m_origName opt, m_origValue opt)) (header_options h)"
    by (rule read_printed_lines [OF header_inv_new])
       (use assms header_keys_sorted [OF assms(1)] in \<open>auto simp: mime_header_new_def header_options_def\<close>)
  moreover have "header_view h = map (\<lambda>opt. (getUpperName opt, m_origName opt, m_origValue opt)) (header_options h)"
    using assms(1) by (auto simp: header_view_def header_options_def header_inv_def case_prod_beta)
  ultimately show ?thesis by (simp add: header_view_def mime_header_new_def)
qed

text \<open>Two options for the witnesses.\<close>

definition host_header :: mime_header where
  "host_header = \<lparr>options = [header_option_new\<lparr>m_origName := ''Host'', m_origValue := ''a''\<rparr>,
       header_option_new\<lparr>m_origName := ''Accept'', m_origValue := ''b; q=1''\<rparr>],
     m_headers = [(to_upper_copy ''Accept'', 1), (to_upper_copy ''Host'', 0)], m_lastOpt = Some 0, m_maxOptions = 32\<rparr>"

lemma host_header_inv: "header_inv host_header"
proof -
  have "bytes_less (to_upper_copy ''Accept'') (to_upper_copy ''Host'')" "\<not> bytes_less (to_upper_copy ''Host'') (to_upper_copy ''Accept'')" by code_simp+
  then show ?thesis by (simp add: header_inv_def host_header_def mm_sorted_def getUpperName_def option_ok_def header_option_new_def)
qed

end
