(* ===== verification/HTTPCookies.thy ===== *)
theory HTTPCookies
  imports MIMEHeader
begin

text \<open>
  Cookies: one \<^verbatim>\<open>Set-Cookie\<close> value (\<^verbatim>\<open>hdr_cookie.cpp\<close>), the cookies of a request
  (\<^verbatim>\<open>req_cookies.cpp\<close>) and those of a response (\<^verbatim>\<open>rsp_cookies.cpp\<close>). The conversion of dates
  (\<^verbatim>\<open>strftime\<close>, \<^verbatim>\<open>strptime\<close> and \<^verbatim>\<open>mktime\<close> in \<^verbatim>\<open>common_date.cpp\<close>) depends on the locale and the
  time zone and is a parameter.
\<close>

section \<open>One cookie\<close>

datatype eSameSitePolicy = HTTP_COOKIE_SAMESITE_NONE | HTTP_COOKIE_SAMESITE_LAX | HTTP_COOKIE_SAMESITE_STRICT

record cookie =
  cookie_value :: bytes
  expires :: int
  cookie_maxAge :: nat
  cookie_domain :: bytes
  cookie_path :: bytes
  secure :: bool
  httpOnly :: bool
  sameSitePolicy :: eSameSitePolicy

definition cookie_new :: cookie where
  "cookie_new = \<lparr>cookie_value = [], expires = 0, cookie_maxAge = 4294967295, cookie_domain = [], cookie_path = [],
     secure = True, httpOnly = True, sameSitePolicy = HTTP_COOKIE_SAMESITE_STRICT\<rparr>"

definition toSetCookieString :: "(int \<Rightarrow> bytes) \<Rightarrow> cookie \<Rightarrow> bytes \<Rightarrow> bytes" where
  "toSetCookieString date_toString c cookieName =
     cookieName @ ''='' @ cookie_value c @ ''; '' @
     (if expires c \<noteq> 0 then ''Expires='' @ date_toString (expires c) @ ''; '' else []) @
     (if cookie_maxAge c \<noteq> 4294967295 then ''Max-Age='' @ dec (cookie_maxAge c) @ ''; '' else []) @
     (if secure c then ''Secure; '' else []) @
     (if httpOnly c then ''HttpOnly; '' else []) @
     (if cookie_domain c \<noteq> [] then ''Domain='' @ cookie_domain c @ ''; '' else []) @
     (if cookie_path c \<noteq> [] then ''Path='' @ cookie_path c @ ''; '' else []) @
     (case sameSitePolicy c of
        HTTP_COOKIE_SAMESITE_NONE \<Rightarrow> ''SameSite=None; ''
      | HTTP_COOKIE_SAMESITE_STRICT \<Rightarrow> ''SameSite=Strict; ''
      | HTTP_COOKIE_SAMESITE_LAX \<Rightarrow> ''SameSite=Lax; '')"

definition getVarNameAndValue :: "bytes \<Rightarrow> bytes \<times> bytes" where
  "getVarNameAndValue var =
     (case find_index ((=) CHR ''='') var of
        Some found \<Rightarrow> (trim (take found var), trim (c_str (drop (found + 1) var)))
      | None \<Rightarrow> (trim var, trim []))"

definition cookie_param :: "(bytes \<Rightarrow> int) \<Rightarrow> cookie \<Rightarrow> bytes \<Rightarrow> cookie" where
  "cookie_param date_fromString c param =
     (let var = getVarNameAndValue param; varNameUpper = to_upper_copy (fst var)
      in if varNameUpper = ''EXPIRES'' then c\<lparr>expires := date_fromString (snd var)\<rparr>
         else if varNameUpper = ''MAX-AGE'' then c\<lparr>cookie_maxAge := uint32 (strtoul (snd var))\<rparr>
         else if varNameUpper = ''SECURE'' then c\<lparr>secure := True\<rparr>
         else if varNameUpper = ''HTTPONLY'' then c\<lparr>httpOnly := True\<rparr>
         else if varNameUpper = ''DOMAIN'' then c\<lparr>cookie_domain := snd var\<rparr>
         else if varNameUpper = ''PATH'' then c\<lparr>cookie_path := snd var\<rparr>
         else if varNameUpper = ''SAMESITE'' then
           (if iequals (snd var) ''LAX'' then c\<lparr>sameSitePolicy := HTTP_COOKIE_SAMESITE_LAX\<rparr>
            else if iequals (snd var) ''STRICT'' then c\<lparr>sameSitePolicy := HTTP_COOKIE_SAMESITE_STRICT\<rparr>
            else c\<lparr>sameSitePolicy := HTTP_COOKIE_SAMESITE_NONE\<rparr>)
         else c)"

text \<open>The cookie and its name; \<^verbatim>\<open>boost::split\<close> gives at least one part.\<close>

definition fromSetCookieString :: "(bytes \<Rightarrow> int) \<Rightarrow> bytes \<Rightarrow> cookie \<times> bytes" where
  "fromSetCookieString date_fromString setCookieValue =
     (case split_compress (any_of '';'') setCookieValue of
        [] \<Rightarrow> (cookie_new, [])
      | first # rest \<Rightarrow>
          (let var = getVarNameAndValue first
           in (foldl (cookie_param date_fromString) (cookie_new\<lparr>cookie_value := snd var\<rparr>) rest, fst var)))"

definition setAsTransientCookie :: "cookie \<Rightarrow> cookie" where
  "setAsTransientCookie c = c\<lparr>expires := 1\<rparr>"

definition setExpiration :: "cookie \<Rightarrow> int \<Rightarrow> cookie" where
  "setExpiration c e = c\<lparr>expires := e\<rparr>"

definition setExpirationFromNow :: "int \<Rightarrow> cookie \<Rightarrow> nat \<Rightarrow> cookie" where
  "setExpirationFromNow now c seconds = c\<lparr>expires := now + int seconds\<rparr>"

section \<open>Cookies of a request\<close>

type_synonym cookies_client = "(bytes \<times> bytes) list"

definition client_addCookieVal :: "cookies_client \<Rightarrow> bytes \<Rightarrow> bytes \<Rightarrow> cookies_client" where
  "client_addCookieVal m cookieName cookieValue = assoc_update cookieName cookieValue m"

definition client_parseCookie :: "cookies_client \<Rightarrow> bytes \<Rightarrow> cookies_client" where
  "client_parseCookie m cookie =
     (case find_index ((=) CHR ''='') cookie of
        Some found \<Rightarrow> client_addCookieVal m (trim (take found cookie)) (trim (c_str (drop (found + 1) cookie)))
      | None \<Rightarrow> m)"

definition parseFromHeaders :: "cookies_client \<Rightarrow> bytes \<Rightarrow> cookies_client" where
  "parseFromHeaders m cookies_str = foldl client_parseCookie m (split_compress (any_of '';'') cookies_str)"

definition client_getCookieByName :: "cookies_client \<Rightarrow> bytes \<Rightarrow> bytes" where
  "client_getCookieByName m cookieName = (case map_of m cookieName of None \<Rightarrow> [] | Some v \<Rightarrow> v)"

fun client_toString_loop :: "bool \<Rightarrow> cookies_client \<Rightarrow> bytes" where
  "client_toString_loop first [] = []"
| "client_toString_loop first ((n, v) # m) = (if first then ''; '' else []) @ n @ ''='' @ v @ client_toString_loop False m"

definition client_toString :: "cookies_client \<Rightarrow> bytes" where
  "client_toString m = client_toString_loop True m"

definition client_putOnHeaders :: "bytes option \<Rightarrow> cookies_client \<Rightarrow> mime_header \<Rightarrow> mime_header result" where
  "client_putOnHeaders rand m headers = map_sum id fst (header_add rand headers ''Cookie'' (client_toString m) 0)"

section \<open>Cookies of a response\<close>

type_synonym cookies_server = "(bytes \<times> cookie) list"

definition server_getCookieByName :: "cookies_server \<Rightarrow> bytes \<Rightarrow> cookie option" where
  "server_getCookieByName m cookieName = map_of m cookieName"

definition getCookieValueByName :: "cookies_server \<Rightarrow> bytes \<Rightarrow> bytes" where
  "getCookieValueByName m cookieName = (case server_getCookieByName m cookieName of None \<Rightarrow> [] | Some c \<Rightarrow> cookie_value c)"

definition server_parseCookie :: "(bytes \<Rightarrow> int) \<Rightarrow> cookies_server \<Rightarrow> bytes \<Rightarrow> cookies_server \<times> bool" where
  "server_parseCookie date_fromString m cookie_str =
     (let (cookieValue, cookieName) = fromSetCookieString date_fromString cookie_str
      in if cookieName = [] \<or> map_of m cookieName \<noteq> None then (m, False)
         else (assoc_update cookieName cookieValue m, True))"

definition server_addCookieVal :: "cookies_server \<Rightarrow> bytes \<Rightarrow> cookie \<Rightarrow> cookies_server \<times> bool" where
  "server_addCookieVal m cookieName cookieValue =
     (if map_of m cookieName \<noteq> None then (m, False) else (assoc_update cookieName cookieValue m, True))"

definition removeCookie :: "cookies_server \<Rightarrow> bytes \<Rightarrow> cookies_server \<times> bool" where
  "removeCookie m cookieName =
     (if map_of m cookieName = None then (m, False) else (mm_erase cookieName m, True))"

definition addClearSecureCookie :: "cookies_server \<Rightarrow> bytes \<Rightarrow> bytes \<Rightarrow> cookies_server" where
  "addClearSecureCookie m cookieName path =
     (let c = (if path \<noteq> [] then cookie_new\<lparr>cookie_path := path\<rparr> else cookie_new);
          c = setAsTransientCookie (c\<lparr>cookie_value := [], secure := True, httpOnly := True\<rparr>);
          c = c\<lparr>sameSitePolicy := HTTP_COOKIE_SAMESITE_STRICT\<rparr>;
          m = (if map_of m cookieName \<noteq> None then mm_erase cookieName m else m)
      in fst (server_addCookieVal m cookieName c))"

fun server_putOnHeaders :: "(int \<Rightarrow> bytes) \<Rightarrow> bytes option \<Rightarrow> cookies_server \<Rightarrow> mime_header \<Rightarrow> mime_header result" where
  "server_putOnHeaders date_toString rand [] headers = Inr headers"
| "server_putOnHeaders date_toString rand ((n, c) # m) headers =
     (case header_add rand headers ''Set-Cookie'' (toSetCookieString date_toString c n) 0 of
        Inl e \<Rightarrow> Inl e
      | Inr (headers', _) \<Rightarrow> server_putOnHeaders date_toString rand m headers')"

section \<open>Reading back what was printed\<close>

text \<open>Texts that survive a cookie header: no separators, no NUL and no blanks at the ends.\<close>

definition cookie_text :: "bytes \<Rightarrow> bool" where
  "cookie_text s \<longleftrightarrow> CHR '';'' \<notin> set s \<and> byte_of 0 \<notin> set s \<and> (s = [] \<or> \<not> is_space (hd s) \<and> \<not> is_space (last s))"

definition cookie_name :: "bytes \<Rightarrow> bool" where
  "cookie_name s \<longleftrightarrow> cookie_text s \<and> CHR ''='' \<notin> set s"

lemma cookie_text_facts: "cookie_text s \<Longrightarrow> trim s = s" "cookie_text s \<Longrightarrow> c_str s = s" "cookie_text s \<Longrightarrow> free_of '';'' s"
  by (simp_all add: cookie_text_def trim_id c_str_id free_of_def)

lemma name_value_pair:
  assumes "CHR ''='' \<notin> set n" and "trim n' = trim n" and "n' = n \<or> n' = CHR '' '' # n" and "cookie_text v"
  shows "getVarNameAndValue (n' @ ''='' @ v) = (trim n, v)"
proof -
  have "CHR ''='' \<notin> set n'" using assms(1,3) by auto
  from find_equal_first [OF this, of v] show ?thesis
    using assms(2) cookie_text_facts(1,2) [OF assms(4)] by (simp add: getVarNameAndValue_def)
qed

lemma name_value_blank: "CHR ''='' \<notin> set n \<Longrightarrow> cookie_text v \<Longrightarrow> getVarNameAndValue (CHR '' '' # n @ ''='' @ v) = (trim n, v)"
  using name_value_pair [of n "CHR '' '' # n" v] trim_leading [of "CHR '' ''" n] by (simp add: is_space_def)

lemma name_only: "CHR ''='' \<notin> set n \<Longrightarrow> getVarNameAndValue (CHR '' '' # n) = (trim n, [])"
  using find_equal_None [of "CHR '' '' # n"] trim_leading [of "CHR '' ''" n]
  by (simp add: getVarNameAndValue_def is_space_def trim_def)

definition cookie_options :: "(int \<Rightarrow> bytes) \<Rightarrow> cookie \<Rightarrow> bytes list" where
  "cookie_options date_toString c =
     (if expires c \<noteq> 0 then [''Expires='' @ date_toString (expires c)] else []) @
     (if cookie_maxAge c \<noteq> 4294967295 then [''Max-Age='' @ dec (cookie_maxAge c)] else []) @
     (if secure c then [''Secure''] else []) @
     (if httpOnly c then [''HttpOnly''] else []) @
     (if cookie_domain c \<noteq> [] then [''Domain='' @ cookie_domain c] else []) @
     (if cookie_path c \<noteq> [] then [''Path='' @ cookie_path c] else []) @
     [case sameSitePolicy c of
        HTTP_COOKIE_SAMESITE_NONE \<Rightarrow> ''SameSite=None''
      | HTTP_COOKIE_SAMESITE_STRICT \<Rightarrow> ''SameSite=Strict''
      | HTTP_COOKIE_SAMESITE_LAX \<Rightarrow> ''SameSite=Lax'']"

lemma toSetCookieString_parts:
  "toSetCookieString date_toString c n = concat (map (\<lambda>q. q @ [CHR '';'', CHR '' '']) ((n @ ''='' @ cookie_value c) # cookie_options date_toString c))"
  by (cases "sameSitePolicy c") (simp_all add: toSetCookieString_def cookie_options_def)

lemma cookie_text_dec: "cookie_text (dec n)"
proof -
  have d: "is_digit c" "\<not> is_space c" "c \<noteq> byte_of 0" if "c \<in> set (dec n)" for c using dec_digits [OF that] digit_facts by auto
  have "CHR '';'' \<notin> set (dec n)" using d(1) [of "CHR '';''"] by (auto simp: is_digit_def)
  moreover have "byte_of 0 \<notin> set (dec n)" using d(3) by blast
  ultimately show ?thesis using d(2) by (simp add: cookie_text_def)
qed

lemma cookie_param_valued:
  assumes "cookie_text v"
  shows "cookie_param df c (CHR '' '' # ''Expires='' @ v) = c\<lparr>expires := df v\<rparr>"
    and "cookie_param df c (CHR '' '' # ''Max-Age='' @ v) = c\<lparr>cookie_maxAge := uint32 (strtoul v)\<rparr>"
    and "cookie_param df c (CHR '' '' # ''Domain='' @ v) = c\<lparr>cookie_domain := v\<rparr>"
    and "cookie_param df c (CHR '' '' # ''Path='' @ v) = c\<lparr>cookie_path := v\<rparr>"
proof -
  have n: "getVarNameAndValue (CHR '' '' # ''Expires='' @ v) = (''Expires'', v)" "getVarNameAndValue (CHR '' '' # ''Max-Age='' @ v) = (''Max-Age'', v)"
    "getVarNameAndValue (CHR '' '' # ''Domain='' @ v) = (''Domain'', v)" "getVarNameAndValue (CHR '' '' # ''Path='' @ v) = (''Path'', v)"
    using name_value_blank [of "''Expires''", OF _ assms] name_value_blank [of "''Max-Age''", OF _ assms]
      name_value_blank [of "''Domain''", OF _ assms] name_value_blank [of "''Path''", OF _ assms]
    by (simp_all add: trim_id is_space_def)
  have u: "to_upper_copy ''Expires'' = ''EXPIRES''" "to_upper_copy ''Max-Age'' = ''MAX-AGE''" "to_upper_copy ''Domain'' = ''DOMAIN''" "to_upper_copy ''Path'' = ''PATH''"
    by code_simp+
  show "cookie_param df c (CHR '' '' # ''Expires='' @ v) = c\<lparr>expires := df v\<rparr>"
    "cookie_param df c (CHR '' '' # ''Max-Age='' @ v) = c\<lparr>cookie_maxAge := uint32 (strtoul v)\<rparr>"
    "cookie_param df c (CHR '' '' # ''Domain='' @ v) = c\<lparr>cookie_domain := v\<rparr>"
    "cookie_param df c (CHR '' '' # ''Path='' @ v) = c\<lparr>cookie_path := v\<rparr>"
    unfolding cookie_param_def n Let_def fst_conv snd_conv u by simp_all
qed

lemma cookie_param_flags:
  "cookie_param df c '' Secure'' = c\<lparr>secure := True\<rparr>"
  "cookie_param df c '' HttpOnly'' = c\<lparr>httpOnly := True\<rparr>"
  "cookie_param df c '' SameSite=None'' = c\<lparr>sameSitePolicy := HTTP_COOKIE_SAMESITE_NONE\<rparr>"
  "cookie_param df c '' SameSite=Strict'' = c\<lparr>sameSitePolicy := HTTP_COOKIE_SAMESITE_STRICT\<rparr>"
  "cookie_param df c '' SameSite=Lax'' = c\<lparr>sameSitePolicy := HTTP_COOKIE_SAMESITE_LAX\<rparr>"
  "cookie_param df c '' '' = c"
proof -
  have n: "getVarNameAndValue '' Secure'' = (''Secure'', [])" "getVarNameAndValue '' HttpOnly'' = (''HttpOnly'', [])"
    "getVarNameAndValue '' SameSite=None'' = (''SameSite'', ''None'')" "getVarNameAndValue '' SameSite=Strict'' = (''SameSite'', ''Strict'')"
    "getVarNameAndValue '' SameSite=Lax'' = (''SameSite'', ''Lax'')" "getVarNameAndValue '' '' = ([], [])"
    by code_simp+
  have u: "to_upper_copy ''Secure'' = ''SECURE''" "to_upper_copy ''HttpOnly'' = ''HTTPONLY''" "to_upper_copy ''SameSite'' = ''SAMESITE''" "to_upper_copy [] = []"
    by code_simp+
  have i: "\<not> iequals ''None'' ''LAX''" "\<not> iequals ''None'' ''STRICT''" "\<not> iequals ''Strict'' ''LAX''" "iequals ''Strict'' ''STRICT''" "iequals ''Lax'' ''LAX''"
    by code_simp+
  show "cookie_param df c '' Secure'' = c\<lparr>secure := True\<rparr>"
    "cookie_param df c '' HttpOnly'' = c\<lparr>httpOnly := True\<rparr>"
    "cookie_param df c '' SameSite=None'' = c\<lparr>sameSitePolicy := HTTP_COOKIE_SAMESITE_NONE\<rparr>"
    "cookie_param df c '' SameSite=Strict'' = c\<lparr>sameSitePolicy := HTTP_COOKIE_SAMESITE_STRICT\<rparr>"
    "cookie_param df c '' SameSite=Lax'' = c\<lparr>sameSitePolicy := HTTP_COOKIE_SAMESITE_LAX\<rparr>"
    "cookie_param df c '' '' = c"
    unfolding cookie_param_def n Let_def fst_conv snd_conv u by (simp_all add: i)
qed

definition cookie_ok :: "(int \<Rightarrow> bytes) \<Rightarrow> (bytes \<Rightarrow> int) \<Rightarrow> cookie \<Rightarrow> bool" where
  "cookie_ok date_toString date_fromString c \<longleftrightarrow>
     cookie_text (cookie_value c) \<and> cookie_text (cookie_domain c) \<and> cookie_text (cookie_path c) \<and> cookie_maxAge c < 4294967296
     \<and> (expires c \<noteq> 0 \<longrightarrow> cookie_text (date_toString (expires c)) \<and> date_fromString (date_toString (expires c)) = expires c)"

lemma cookie_options_clean:
  assumes "cookie_ok dt df c" and "q \<in> set (cookie_options dt c)"
  shows "free_of '';'' q"
  using assms cookie_text_facts(3) cookie_text_dec
  by (auto simp: cookie_options_def cookie_ok_def split: if_splits eSameSitePolicy.splits)

lemma foldl_if_map: "foldl f c (map g (if b then [x] else [])) = (if b then f c (g x) else c)"
  by simp

lemma cookie_fold:
  assumes "cookie_ok dt df c"
  shows "foldl (cookie_param df) (cookie_new\<lparr>cookie_value := cookie_value c\<rparr>) (map ((#) CHR '' '') (cookie_options dt c @ [[]]))
    = c\<lparr>secure := True, httpOnly := True\<rparr>"
proof -
  have ok: "cookie_text (cookie_domain c)" "cookie_text (cookie_path c)"
    "expires c \<noteq> 0 \<Longrightarrow> cookie_text (dt (expires c))" "expires c \<noteq> 0 \<Longrightarrow> df (dt (expires c)) = expires c"
    "uint32 (strtoul (dec (cookie_maxAge c))) = cookie_maxAge c"
    using assms strtoul_dec_alone [of "cookie_maxAge c"] by (simp_all add: cookie_ok_def size_max_def uint32_def)
  have e: "(if expires c \<noteq> 0 then cookie_param df x (CHR '' '' # ''Expires='' @ dt (expires c)) else x)
      = (if expires c \<noteq> 0 then x\<lparr>expires := expires c\<rparr> else x)" for x
    using ok(3,4) cookie_param_valued(1) [OF ok(3), of df x] by (cases "expires c = 0") (simp_all only: simp_thms if_True if_False)
  show ?thesis
    unfolding cookie_options_def map_append foldl_append foldl_if_map e cookie_param_valued [OF ok(1)] cookie_param_valued [OF ok(2)]
      cookie_param_valued [OF cookie_text_dec] ok(5)
    by (cases c; cases "sameSitePolicy c") (simp_all add: cookie_param_flags cookie_new_def)
qed

text \<open>
  \<^verbatim>\<open>fromSetCookieString\<close> after \<^verbatim>\<open>toSetCookieString\<close> restores the name and every attribute of a cookie,
  given that dates are read back as printed and the texts carry no separators; only the absence of \<^verbatim>\<open>Secure\<close> and
  \<^verbatim>\<open>HttpOnly\<close> is lost, because the reader starts from a cookie that has both.
\<close>

theorem set_cookie_roundtrip:
  assumes "cookie_name n" and "cookie_ok date_toString date_fromString c"
  shows "fromSetCookieString date_fromString (toSetCookieString date_toString c n) = (c\<lparr>secure := True, httpOnly := True\<rparr>, n)"
proof -
  have v: "cookie_text (cookie_value c)" using assms(2) by (simp add: cookie_ok_def)
  have n: "CHR ''='' \<notin> set n" "trim n = n" "free_of '';'' n" using assms(1) cookie_text_facts by (simp_all add: cookie_name_def)
  have clean: "\<forall>x\<in>set q. \<not> any_of '';'' x" if "q \<in> set ((n @ ''='' @ cookie_value c) # cookie_options date_toString c)" for q
    using that cookie_options_clean [OF assms(2)] cookie_text_facts(3) [OF v] n(3) by (auto simp: free_of_def any_of_def)
  have "split_compress (any_of '';'') (toSetCookieString date_toString c n)
      = (n @ ''='' @ cookie_value c) # map ((#) CHR '' '') (cookie_options date_toString c @ [[]])"
    unfolding toSetCookieString_parts
    by (rule split_compress_terminated) (use clean in \<open>auto simp: any_of_def\<close>)
  moreover have "getVarNameAndValue (n @ ''='' @ cookie_value c) = (n, cookie_value c)"
    using name_value_pair [OF n(1) _ _ v, of n] n(2) by simp
  ultimately show ?thesis
    unfolding fromSetCookieString_def by (simp only: list.case Let_def fst_conv snd_conv cookie_fold [OF assms(2)])
qed

theorem set_cookie_roundtrip_witness:
  "fromSetCookieString (\<lambda>s. 1) (toSetCookieString (\<lambda>e. ''Thu'') (cookie_new\<lparr>cookie_value := ''x=1'', expires := 1, cookie_path := ''/'', httpOnly := False\<rparr>) ''sid'')
    = (cookie_new\<lparr>cookie_value := ''x=1'', expires := 1, cookie_path := ''/''\<rparr>, ''sid'')"
proof -
  have "cookie_name ''sid''" "cookie_text ''x=1''" "cookie_text ''/''" "cookie_text ''Thu''" "cookie_text []"
    by (simp_all add: cookie_name_def cookie_text_def char_of_def is_space_def)
  then have "cookie_name ''sid''" "cookie_ok (\<lambda>e. ''Thu'') (\<lambda>s. 1) (cookie_new\<lparr>cookie_value := ''x=1'', expires := 1, cookie_path := ''/'', httpOnly := False\<rparr>)"
    by (simp_all add: cookie_ok_def cookie_new_def)
  from set_cookie_roundtrip [OF this] show ?thesis by (simp add: cookie_new_def)
qed

section \<open>Cookie jars\<close>

lemma client_parse_pair:
  assumes "cookie_name n" and "cookie_text v" and "p = n @ ''='' @ v \<or> p = CHR '' '' # n @ ''='' @ v"
  shows "client_parseCookie m p = assoc_update n v m"
proof -
  have n: "CHR ''='' \<notin> set n" "trim n = n" "trim (CHR '' '' # n) = n" "c_str v = v" "trim v = v"
    using assms(1,2) cookie_text_facts trim_leading [of "CHR '' ''" n] by (simp_all add: cookie_name_def is_space_def)
  have "find_index ((=) CHR ''='') (n @ ''='' @ v) = Some (length n)" using find_equal_first [OF n(1)] by simp
  then show ?thesis using assms(3) n by (auto simp: client_parseCookie_def client_addCookieVal_def)
qed

text \<open>A well-formed \<^verbatim>\<open>Cookie\<close> text: the pairs separated by a semicolon and a blank.\<close>

definition cookie_pair :: "bytes \<times> bytes \<Rightarrow> bytes" where
  "cookie_pair e = fst e @ ''='' @ snd e"

lemma split_pairs:
  assumes "\<forall>e\<in>set (e # es). cookie_name (fst e) \<and> cookie_text (snd e)"
  shows "split_compress (any_of '';'') (join ''; '' (map cookie_pair (e # es))) = cookie_pair e # map (\<lambda>e. CHR '' '' # cookie_pair e) es"
proof -
  have gen: "split_compress (any_of '';'') (pre @ join ''; '' (map cookie_pair (e # es))) = (pre @ cookie_pair e) # map (\<lambda>e. CHR '' '' # cookie_pair e) es"
    if "\<forall>e\<in>set (e # es). cookie_name (fst e) \<and> cookie_text (snd e)" "CHR '';'' \<notin> set pre" for pre e
    using that
  proof (induction es arbitrary: pre e)
    case Nil
    then show ?case by (auto simp: cookie_pair_def cookie_name_def cookie_text_def any_of_def intro!: split_compress_single)
  next
    case (Cons e' es)
    have "split_compress (any_of '';'') ((pre @ cookie_pair e) @ CHR '';'' # ('' '' @ join ''; '' (map cookie_pair (e' # es))))
        = (pre @ cookie_pair e) # split_compress (any_of '';'') ('' '' @ join ''; '' (map cookie_pair (e' # es)))"
      using Cons.prems by (intro split_compress_append) (auto simp: cookie_pair_def cookie_name_def cookie_text_def any_of_def)
    also have "split_compress (any_of '';'') ('' '' @ join ''; '' (map cookie_pair (e' # es))) = ('' '' @ cookie_pair e') # map (\<lambda>e. CHR '' '' # cookie_pair e) es"
      by (rule Cons.IH) (use Cons.prems in auto)
    finally show ?case by simp
  qed
  show ?thesis using gen [OF assms, of "[]"] by simp
qed

lemma map_of_foldl_update: "map_of (foldl (\<lambda>m e. assoc_update (fst e) (snd e) m) m es) x = (case map_of (rev es) x of None \<Rightarrow> map_of m x | Some v \<Rightarrow> Some v)"
  by (induction es arbitrary: m) (auto split: option.splits)

lemma parse_pairs:
  assumes "\<forall>e\<in>set (e # es). cookie_name (fst e) \<and> cookie_text (snd e)"
  shows "parseFromHeaders m (join ''; '' (map cookie_pair (e # es))) = foldl (\<lambda>m e. assoc_update (fst e) (snd e) m) m (e # es)"
proof -
  have step: "client_parseCookie m (cookie_pair e) = assoc_update (fst e) (snd e) m" "client_parseCookie m (CHR '' '' # cookie_pair e) = assoc_update (fst e) (snd e) m"
    if "cookie_name (fst e) \<and> cookie_text (snd e)" for m e
    using client_parse_pair [of "fst e" "snd e"] that by (simp_all add: cookie_pair_def)
  have "foldl client_parseCookie m (map (\<lambda>e. CHR '' '' # cookie_pair e) es) = foldl (\<lambda>m e. assoc_update (fst e) (snd e) m) m es"
    if "\<forall>e\<in>set es. cookie_name (fst e) \<and> cookie_text (snd e)" for m es
    using that by (induction es arbitrary: m) (simp_all add: step)
  then show ?thesis using split_pairs [OF assms] step assms by (simp add: parseFromHeaders_def)
qed

text \<open>
  Reading a \<^verbatim>\<open>Cookie\<close> header gives each cookie its last value and keeps the cookies that the header does not name;
  on the response side, adding keeps a cookie that is already there, clearing a cookie always leaves exactly the expired
  secure one, and neither touches the other cookies.
\<close>

theorem cookie_jars:
  assumes "es \<noteq> []" and "\<forall>e\<in>set es. cookie_name (fst e) \<and> cookie_text (snd e)"
  shows "client_getCookieByName (parseFromHeaders m (join ''; '' (map cookie_pair es))) x
      = (case map_of (rev es) x of None \<Rightarrow> client_getCookieByName m x | Some v \<Rightarrow> v)
    \<and> server_getCookieByName (fst (server_addCookieVal jar n c)) x
      = (if x = n \<and> server_getCookieByName jar n = None then Some c else server_getCookieByName jar x)
    \<and> server_getCookieByName (addClearSecureCookie jar n path) x
      = (if x = n then Some (cookie_new\<lparr>cookie_path := path, expires := 1\<rparr>) else server_getCookieByName jar x)"
proof -
  obtain e es' where es: "es = e # es'" using assms(1) by (cases es) auto
  have client: "client_getCookieByName (parseFromHeaders m (join ''; '' (map cookie_pair es))) x
      = (case map_of (rev es) x of None \<Rightarrow> client_getCookieByName m x | Some v \<Rightarrow> v)"
    unfolding client_getCookieByName_def es parse_pairs [OF assms(2) [unfolded es]] map_of_foldl_update
    by (cases "map_of (rev (e # es')) x") (simp_all only: option.case)
  have erase: "map_of (mm_erase n jar) y = (if y = n then None else map_of jar y)" for y :: bytes
    by (induction jar) (auto simp: mm_erase_def)
  have server: "server_getCookieByName (fst (server_addCookieVal jar n c)) x
      = (if x = n \<and> server_getCookieByName jar n = None then Some c else server_getCookieByName jar x)"
    by (simp add: server_addCookieVal_def server_getCookieByName_def)
  have "server_getCookieByName (addClearSecureCookie jar n path) x
      = (if x = n then Some (cookie_new\<lparr>cookie_path := path, expires := 1\<rparr>) else server_getCookieByName jar x)"
    by (auto simp: addClearSecureCookie_def server_addCookieVal_def server_getCookieByName_def setAsTransientCookie_def erase cookie_new_def)
  with client server show ?thesis by blast
qed

theorem cookie_jars_witness:
  "client_getCookieByName (parseFromHeaders [] ''a=1; b=2; a=3'') ''a'' = ''3''
    \<and> server_getCookieByName (addClearSecureCookie [] ''a'' ''/'') ''a'' = Some (cookie_new\<lparr>cookie_path := ''/'', expires := 1\<rparr>)"
proof -
  have "\<forall>e\<in>set [(''a'', ''1''), (''b'', ''2''), (''a'', ''3'')]. cookie_name (fst e) \<and> cookie_text (snd e)"
    by (simp add: cookie_name_def cookie_text_def char_of_def is_space_def)
  from cookie_jars [OF _ this, of "[]" "''a''" "[]" "''a''" cookie_new "''/''"] show ?thesis by (simp add: cookie_pair_def)
qed

text \<open>
  The text that a client sends for two cookies has the separator in front of the first cookie and none between the two,
  so that a server that reads it sees one cookie whose value has swallowed the second.
\<close>

theorem client_cookies_not_separated:
  assumes "cookie_name a" and "cookie_text (x @ b @ ''='' @ y)" and "n \<noteq> a"
  shows "client_toString [(a, x), (b, y)] = ''; '' @ a @ ''='' @ x @ b @ ''='' @ y
    \<and> client_getCookieByName (parseFromHeaders [] (client_toString [(a, x), (b, y)])) a = x @ b @ ''='' @ y
    \<and> client_getCookieByName (parseFromHeaders [] (client_toString [(a, x), (b, y)])) n = []"
proof -
  let ?v = "x @ b @ ''='' @ y"
  have s: "client_toString [(a, x), (b, y)] = ''; '' @ a @ ''='' @ ?v" by (simp add: client_toString_def)
  have "\<not> any_of '';'' c" if "c \<in> set ('' '' @ a @ ''='' @ ?v)" for c
    using that assms(1,2) by (auto simp: cookie_name_def cookie_text_def any_of_def)
  then have "split_compress (any_of '';'') ('' '' @ a @ ''='' @ ?v) = ['' '' @ a @ ''='' @ ?v]" by (rule split_compress_single)
  then have "split_compress (any_of '';'') (client_toString [(a, x), (b, y)]) = [[], '' '' @ a @ ''='' @ ?v]"
    unfolding s using split_compress_skip [of "any_of '';''" "CHR '';''" "'' '' @ a @ ''='' @ ?v"] by (simp add: any_of_def)
  moreover have "client_parseCookie [] [] = []" by (simp add: client_parseCookie_def)
  moreover have "client_parseCookie [] ('' '' @ a @ ''='' @ ?v) = [(a, ?v)]"
    using client_parse_pair [OF assms(1,2), of "'' '' @ a @ ''='' @ ?v" "[]"] by simp
  ultimately have "parseFromHeaders [] (client_toString [(a, x), (b, y)]) = [(a, ?v)]" by (simp add: parseFromHeaders_def)
  then show ?thesis using s assms(3) by (simp add: client_getCookieByName_def)
qed

theorem client_cookies_not_separated_witness:
  "client_toString [(''a'', ''1''), (''b'', ''2'')] = ''; a=1b=2''
    \<and> client_getCookieByName (parseFromHeaders [] (client_toString [(''a'', ''1''), (''b'', ''2'')])) ''b'' = []"
proof -
  have "cookie_name ''a''" "cookie_text (''1'' @ ''b'' @ ''='' @ ''2'')"
    by (simp_all add: cookie_name_def cookie_text_def char_of_def is_space_def)
  from client_cookies_not_separated [OF this, of "''b''"] show ?thesis by (intro conjI) (simp, blast)
qed

end
