(* ===== verification/HTTPBase.thy ===== *)
theory HTTPBase
  imports HTTPContent HTTPCookies
begin

text \<open>
  What the client and the server share: the header block as a sub-parser (\<^verbatim>\<open>src/Mantids30/Protocol_MIME/mime_sub_header.cpp\<close>), the
  request and the response (\<^verbatim>\<open>src/Mantids30/Protocol_HTTP/httpv1_base.h\<close>), and the base of both protocols. A body is kept in an
  object of type \<open>'o\<close> with the virtual functions \<open>body_vt\<close>; messages are sent to the stream \<open>'u\<close>. \<open>rand\<close> is the answer of the
  random generator, which the reader of header values asks for a text to stand for quoted strings.
\<close>

section \<open>Header block\<close>

record 'y sub_header = "'y subparser" +
  sh_header :: mime_header

definition setMaxOptionSize :: "'y sub_header \<Rightarrow> nat \<Rightarrow> 'y sub_header" where
  "setMaxOptionSize s value = setParseDataTargetSize s value"

definition sub_header_new :: "'y chunks_vt \<Rightarrow> 'y sub_header" where
  "sub_header_new cvt =
     (setMaxOptionSize (setParseDelimiter (setParseMode (subparser.extend (subparser_init cvt) \<lparr>sh_header = mime_header_new\<rparr>)
        PARSE_MODE_DELIMITER) crlf) (2 * 1024))\<lparr>m_subParserName := ''MIME_Sub_Header''\<rparr>"

definition sub_header_parse :: "bytes option \<Rightarrow> 'y chunks_vt \<Rightarrow> 'y sub_header \<Rightarrow> ('y sub_header \<times> ParseStatus) result" where
  "sub_header_parse rand cvt s =
     (if vt_size (ref_vt cvt) (getParsedBuffer s) = 0 then Inr (s, PARSE_GOTO_NEXT_SUBPARSER)
      else
        (case parseOptionValue rand (sh_header s) (b_toStringEx (ref_vt cvt) (getParsedBuffer s) size_max 0) of
           Inl e \<Rightarrow> Inl e | Inr h \<Rightarrow> Inr (s\<lparr>sh_header := h\<rparr>, PARSE_GET_MORE_DATA)))"

fun header_stream_loop :: "'u streamable \<Rightarrow> bytes list \<Rightarrow> 'u \<Rightarrow> ('u \<times> bool) result" where
  "header_stream_loop io [] up = then_ok io (write_text io crlf up) (\<lambda>up. Inr (up, True))"
| "header_stream_loop io (l # ls) up = then_ok io (write_text io (l @ crlf) up) (header_stream_loop io ls)"

definition header_streamToUpstream :: "'u streamable \<Rightarrow> mime_header \<Rightarrow> 'u \<Rightarrow> ('u \<times> bool) result" where
  "header_streamToUpstream io h up = header_stream_loop io (map (\<lambda>(_, i). option_toString (options h ! i)) (m_headers h)) up"

definition getOptionAsUINT64 :: "mime_header \<Rightarrow> bytes \<Rightarrow> nat" where
  "getOptionAsUINT64 h varName = (case getOptionByName h varName of Some opt \<Rightarrow> strtoul (m_value opt) | None \<Rightarrow> 0)"

section \<open>Requests and responses\<close>

record security =
  sec_XFrameOpts :: xframe_opts
  sec_XSSProtection :: xss_protection
  sec_HSTS :: hsts
  disableNoSniffContentType :: bool

record basic_auth =
  ba_username :: bytes
  ba_password :: bytes
  ba_isEnabled :: bool

definition setAuthentication :: "basic_auth \<Rightarrow> bytes \<Rightarrow> bytes \<Rightarrow> basic_auth" where
  "setAuthentication a username password = a\<lparr>ba_isEnabled := True, ba_username := username, ba_password := password\<rparr>"

record network_client_info =
  REMOTE_ADDR :: bytes
  nci_isSecure :: bool
  tlsCommonName :: bytes

record ('y, 'o) http_request =
  networkClientInfo :: network_client_info
  requestLine :: "'y request_line"
  req_content :: "('y, 'o) content"
  req_headers :: "'y sub_header"
  basicAuth :: basic_auth
  userAgent :: bytes
  virtualHost :: bytes
  virtualPort :: nat

record ('y, 'o) http_response =
  rsp_status :: "'y http_status"
  rsp_content :: "('y, 'o) content"
  rsp_headers :: "'y sub_header"
  rsp_security :: security
  rsp_cookies :: cookies_server
  cacheControl :: cache_control
  sWWWAuthenticateRealm :: bytes
  rsp_contentType :: bytes
  immutableHeaders :: bool

definition http_request_new :: "'y chunks_vt \<Rightarrow> (eDataType \<Rightarrow> 'o) \<Rightarrow> ('y, 'o) http_request" where
  "http_request_new cvt mk =
     \<lparr>networkClientInfo = \<lparr>REMOTE_ADDR = [], nci_isSecure = False, tlsCommonName = []\<rparr>, requestLine = request_line_new cvt,
      req_content = content_new cvt mk, req_headers = sub_header_new cvt,
      basicAuth = \<lparr>ba_username = [], ba_password = [], ba_isEnabled = False\<rparr>, userAgent = [], virtualHost = [], virtualPort = 80\<rparr>"

definition http_response_new :: "'y chunks_vt \<Rightarrow> (eDataType \<Rightarrow> 'o) \<Rightarrow> ('y, 'o) http_response" where
  "http_response_new cvt mk =
     \<lparr>rsp_status = status_new cvt, rsp_content = content_new cvt mk, rsp_headers = sub_header_new cvt,
      rsp_security = \<lparr>sec_XFrameOpts = xframe_new, sec_XSSProtection = xss_new, sec_HSTS = hsts_new, disableNoSniffContentType = False\<rparr>,
      rsp_cookies = [], cacheControl = cache_control_new, sWWWAuthenticateRealm = [], rsp_contentType = [], immutableHeaders = False\<rparr>"

subsection \<open>Reading a request\<close>

datatype VarSource = VARS_POST | VARS_GET

text \<open>The variables are an object of the body or of the request line.\<close>

definition getVars :: "('y, 'o) http_request \<Rightarrow> VarSource \<Rightarrow> ('o + 'y urlvars parser) result" where
  "getVars r source =
     (case source of VARS_POST \<Rightarrow> map_sum id Inl (postVars (req_content r)) | VARS_GET \<Rightarrow> Inr (Inr (m_getVars (requestLine r))))"

definition getCookies :: "('y, 'o) http_request \<Rightarrow> header_option option" where
  "getCookies r = getOptionByName (sh_header (req_headers r)) ''Cookie''"

definition getJSONStreamerContent :: "('y, 'o) http_request \<Rightarrow> 'o option result" where
  "getJSONStreamerContent r =
     (if m_containerType (req_content r) = CONTENT_TYPE_JSON then map_sum id Some (getJSONVars (req_content r)) else Inr None)"

definition getAllCookies :: "('y, 'o) http_request \<Rightarrow> (bytes \<times> bytes) list" where
  "getAllCookies r = (case getCookies r of None \<Rightarrow> [] | Some opt \<Rightarrow> m_subVar opt)"

definition getHeaderOption :: "('y, 'o) http_request \<Rightarrow> bytes \<Rightarrow> bytes" where
  "getHeaderOption r optionName = getOptionRawStringByName (sh_header (req_headers r)) optionName"

text \<open>The extraction operator of a string stream: blanks are skipped and a word is read.\<close>

definition next_word :: "bytes \<Rightarrow> bytes \<times> bytes" where
  "next_word s = (let s1 = dropWhile is_space s in (takeWhile (\<lambda>c. \<not> is_space c) s1, dropWhile (\<lambda>c. \<not> is_space c) s1))"

definition getAuthorizationBearer :: "('y, 'o) http_request \<Rightarrow> bytes" where
  "getAuthorizationBearer r =
     (let authorization = getHeaderOption r ''Authorization'';
          (keyword, rest) = next_word authorization;
          (headerBearerToken, _) = next_word rest
      in if authorization \<noteq> [] \<and> keyword = ''Bearer'' \<and> headerBearerToken \<noteq> [] then headerBearerToken else [])"

definition getOrigin :: "('y, 'o) http_request \<Rightarrow> bytes" where
  "getOrigin r = getHeaderOption r ''Origin''"

definition getReferer :: "('y, 'o) http_request \<Rightarrow> bytes" where
  "getReferer r = getHeaderOption r ''Referer''"

definition getCookie :: "('y, 'o) http_request \<Rightarrow> bytes \<Rightarrow> bytes" where
  "getCookie r sCookieName = (case getCookies r of None \<Rightarrow> [] | Some opt \<Rightarrow> getSubVar opt sCookieName)"

definition getContentType :: "('y, 'o) http_request \<Rightarrow> bytes" where
  "getContentType r = getOptionRawStringByName (sh_header (req_headers r)) ''Content-Type''"

definition getURI :: "('y, 'o) http_request \<Rightarrow> bytes" where
  "getURI r = m_requestURI (requestLine r)"

subsection \<open>Filling a response\<close>

definition setContentType :: "('y, 'o) http_response \<Rightarrow> bytes \<Rightarrow> bool \<Rightarrow> ('y, 'o) http_response" where
  "setContentType r type bNoSniff = r\<lparr>rsp_contentType := type, rsp_security := (rsp_security r)\<lparr>disableNoSniffContentType := bNoSniff\<rparr>\<rparr>"

definition rsp_header_remove :: "('y, 'o) http_response \<Rightarrow> bytes \<Rightarrow> ('y, 'o) http_response" where
  "rsp_header_remove r name = r\<lparr>rsp_headers := (rsp_headers r)\<lparr>sh_header := header_remove (sh_header (rsp_headers r)) name\<rparr>\<rparr>"

definition rsp_header_replace :: "bytes option \<Rightarrow> ('y, 'o) http_response \<Rightarrow> bytes \<Rightarrow> bytes \<Rightarrow> ('y, 'o) http_response result" where
  "rsp_header_replace rand r name v =
     (case header_replace rand (sh_header (rsp_headers r)) name v of
        Inl e \<Rightarrow> Inl e | Inr h \<Rightarrow> Inr (r\<lparr>rsp_headers := (rsp_headers r)\<lparr>sh_header := h\<rparr>\<rparr>))"

definition uncached :: "cache_control \<Rightarrow> cache_control" where
  "uncached c = c\<lparr>optionNoCache := True, optionNoStore := True, optionMustRevalidate := True\<rparr>"

definition setDataStreamer :: "(eDataType \<Rightarrow> 'o) \<Rightarrow> ('y, 'o) http_response \<Rightarrow> 'o option \<Rightarrow> ('y, 'o) http_response" where
  "setDataStreamer mk r dataStream =
     (let r1 = (if dataStream = None
                then setContentType ((rsp_header_remove r ''Last-Modified'')\<lparr>cacheControl := uncached cache_control_new\<rparr>) [] False else r)
      in r1\<lparr>rsp_content := setStreamableObj mk (rsp_content r1) dataStream\<rparr>)"

definition addCookieClearSecure :: "('y, 'o) http_response \<Rightarrow> bytes \<Rightarrow> bytes \<Rightarrow> ('y, 'o) http_response" where
  "addCookieClearSecure r cookieName path = r\<lparr>rsp_cookies := addClearSecureCookie (rsp_cookies r) cookieName path\<rparr>"

definition setCookie :: "('y, 'o) http_response \<Rightarrow> bytes \<Rightarrow> cookie \<Rightarrow> ('y, 'o) http_response" where
  "setCookie r sCookieName sCookieValue =
     r\<lparr>rsp_cookies := fst (server_addCookieVal (fst (removeCookie (rsp_cookies r) sCookieName)) sCookieName sCookieValue)\<rparr>"

definition setSecureCookie :: "int \<Rightarrow> ('y, 'o) http_response \<Rightarrow> bytes \<Rightarrow> bytes \<Rightarrow> nat \<Rightarrow> bytes \<Rightarrow> ('y, 'o) http_response" where
  "setSecureCookie now r cookieName cookieValue uMaxAge path =
     setCookie r cookieName
       ((setExpirationFromNow now cookie_new uMaxAge)
          \<lparr>cookie_path := path, cookie_value := cookieValue, secure := True, httpOnly := True, cookie_maxAge := uMaxAge,
           sameSitePolicy := HTTP_COOKIE_SAMESITE_STRICT\<rparr>)"

definition setInsecureCookie :: "('y, 'o) http_response \<Rightarrow> bytes \<Rightarrow> bytes \<Rightarrow> ('y, 'o) http_response" where
  "setInsecureCookie r sCookieName sCookieValue = setCookie r sCookieName (cookie_new\<lparr>cookie_value := sCookieValue\<rparr>)"

definition setRedirectLocation :: "bytes option \<Rightarrow> (eDataType \<Rightarrow> 'o) \<Rightarrow> ('y, 'o) http_response \<Rightarrow> bytes \<Rightarrow> bool \<Rightarrow> (('y, 'o) http_response \<times> nat) result" where
  "setRedirectLocation rand mk r location temporary =
     (case rsp_header_replace rand r ''Location'' location of
        Inl e \<Rightarrow> Inl e | Inr r' \<Rightarrow> Inr (setDataStreamer mk r' None, if temporary then 307 else 308))"

section \<open>The base of both protocols\<close>

text \<open>The sub-parser that \<^verbatim>\<open>m_currentParser\<close> points to.\<close>

datatype http_part = RequestLine | RequestHeaders | RequestContent | ResponseStatus | ResponseHeaders | ResponseContent

record ('y, 'o, 'u) http_base =
  clientRequest :: "('y, 'o) http_request"
  serverResponse :: "('y, 'o) http_response"
  m_currentParser :: "http_part option"
  m_upStream :: 'u

definition setInternalProductVersion :: "bytes option \<Rightarrow> ('y, 'o) http_response \<Rightarrow> bytes \<Rightarrow> bytes \<Rightarrow> nat \<Rightarrow> nat \<Rightarrow> ('y, 'o) http_response result" where
  "setInternalProductVersion rand r prodName extraInfo versionMajor versionMinor =
     rsp_header_replace rand r ''Server''
       (prodName @ ''/'' @ dec versionMajor @ ''.'' @ dec versionMinor @ (if extraInfo \<noteq> [] then '' '' @ extraInfo else []))"

definition http_base_new :: "bytes option \<Rightarrow> 'y chunks_vt \<Rightarrow> (eDataType \<Rightarrow> 'o) \<Rightarrow> bool \<Rightarrow> 'u \<Rightarrow> ('y, 'o, 'u) http_base result" where
  "http_base_new rand cvt mk clientMode up =
     (let rq = http_request_new cvt mk;
          rq = rq\<lparr>requestLine := initElemParser (requestLine rq) clientMode, req_headers := initElemParser (req_headers rq) clientMode,
            req_content := initElemParser (req_content rq) clientMode\<rparr>;
          rs = http_response_new cvt mk;
          rs = rs\<lparr>rsp_status := initElemParser (rsp_status rs) clientMode, rsp_headers := initElemParser (rsp_headers rs) clientMode,
            rsp_content := initElemParser (rsp_content rs) clientMode\<rparr>
      in case setInternalProductVersion rand rs ''Mantids30::HTTP'' ''(+https://github.com/unmanarc/libMantids30)'' 0 4 of
           Inl e \<Rightarrow> Inl e
         | Inr rs \<Rightarrow> Inr \<lparr>clientRequest = rq, serverResponse = rs, m_currentParser = None, m_upStream = up\<rparr>)"


section \<open>The current sub-parser\<close>

text \<open>
  The calls of the parser loop through \<^verbatim>\<open>m_currentParser\<close>. \<open>env\<close> collects what the sub-parsers rely on: the memory of \<^verbatim>\<open>B_Chunks\<close>, the
  contents of fresh memory, the random generator and the object that receives the body.
\<close>

record ('y, 'o) http_env =
  he_mvt :: "'y mmap_vt"
  he_fs :: "'y chunks \<Rightarrow> 'y b_base_scheme option"
  he_heap :: "nat \<Rightarrow> bytes"
  he_rand :: "bytes option"
  he_io :: "'o streamable"
  he_mk :: "eDataType \<Rightarrow> 'o"

abbreviation he_cvt :: "('y, 'o) http_env \<Rightarrow> 'y chunks_vt" where
  "he_cvt env \<equiv> chunks_vt (he_mvt env) (he_fs env)"

definition part_setStatus :: "('y, 'o, 'u, 'z) http_base_scheme \<Rightarrow> ParseStatus \<Rightarrow> ('y, 'o, 'u, 'z) http_base_scheme" where
  "part_setStatus b st =
     (let rq = clientRequest b; rs = serverResponse b
      in case m_currentParser b of
           None \<Rightarrow> b
         | Some RequestLine \<Rightarrow> b\<lparr>clientRequest := rq\<lparr>requestLine := setParseStatus (requestLine rq) st\<rparr>\<rparr>
         | Some RequestHeaders \<Rightarrow> b\<lparr>clientRequest := rq\<lparr>req_headers := setParseStatus (req_headers rq) st\<rparr>\<rparr>
         | Some RequestContent \<Rightarrow> b\<lparr>clientRequest := rq\<lparr>req_content := setParseStatus (req_content rq) st\<rparr>\<rparr>
         | Some ResponseStatus \<Rightarrow> b\<lparr>serverResponse := rs\<lparr>rsp_status := setParseStatus (rsp_status rs) st\<rparr>\<rparr>
         | Some ResponseHeaders \<Rightarrow> b\<lparr>serverResponse := rs\<lparr>rsp_headers := setParseStatus (rsp_headers rs) st\<rparr>\<rparr>
         | Some ResponseContent \<Rightarrow> b\<lparr>serverResponse := rs\<lparr>rsp_content := setParseStatus (rsp_content rs) st\<rparr>\<rparr>)"

definition part_getStatus :: "('y, 'o, 'u, 'z) http_base_scheme \<Rightarrow> ParseStatus" where
  "part_getStatus b =
     (let rq = clientRequest b; rs = serverResponse b
      in case m_currentParser b of
           None \<Rightarrow> PARSE_ERROR
         | Some RequestLine \<Rightarrow> m_parseStatus (requestLine rq)
         | Some RequestHeaders \<Rightarrow> m_parseStatus (req_headers rq)
         | Some RequestContent \<Rightarrow> m_parseStatus (req_content rq)
         | Some ResponseStatus \<Rightarrow> m_parseStatus (rsp_status rs)
         | Some ResponseHeaders \<Rightarrow> m_parseStatus (rsp_headers rs)
         | Some ResponseContent \<Rightarrow> m_parseStatus (rsp_content rs))"

definition part_write :: "('y, 'o) http_env \<Rightarrow> ('y, 'o, 'u, 'z) http_base_scheme \<Rightarrow> bytes \<Rightarrow> (('y, 'o, 'u, 'z) http_base_scheme \<times> nat option) result" where
  "part_write env b buf =
     (let rq = clientRequest b; rs = serverResponse b; cvt = he_cvt env; heap = he_heap env
      in case m_currentParser b of
           None \<Rightarrow> Inr (b, None)
         | Some RequestLine \<Rightarrow>
             map_sum id (\<lambda>(s, r). (b\<lparr>clientRequest := rq\<lparr>requestLine := s\<rparr>\<rparr>, r))
               (writeIntoParser cvt heap (request_parse (he_mvt env) (he_fs env) heap) (requestLine rq) buf)
         | Some RequestHeaders \<Rightarrow>
             map_sum id (\<lambda>(s, r). (b\<lparr>clientRequest := rq\<lparr>req_headers := s\<rparr>\<rparr>, r))
               (writeIntoParser cvt heap (sub_header_parse (he_rand env) cvt) (req_headers rq) buf)
         | Some RequestContent \<Rightarrow>
             map_sum id (\<lambda>(s, r). (b\<lparr>clientRequest := rq\<lparr>req_content := s\<rparr>\<rparr>, r))
               (writeIntoParser cvt heap (content_parse cvt (he_io env)) (req_content rq) buf)
         | Some ResponseStatus \<Rightarrow>
             map_sum id (\<lambda>(s, r). (b\<lparr>serverResponse := rs\<lparr>rsp_status := s\<rparr>\<rparr>, r))
               (writeIntoParser cvt heap (status_parse cvt) (rsp_status rs) buf)
         | Some ResponseHeaders \<Rightarrow>
             map_sum id (\<lambda>(s, r). (b\<lparr>serverResponse := rs\<lparr>rsp_headers := s\<rparr>\<rparr>, r))
               (writeIntoParser cvt heap (sub_header_parse (he_rand env) cvt) (rsp_headers rs) buf)
         | Some ResponseContent \<Rightarrow>
             map_sum id (\<lambda>(s, r). (b\<lparr>serverResponse := rs\<lparr>rsp_content := s\<rparr>\<rparr>, r))
               (writeIntoParser cvt heap (content_parse cvt (he_io env)) (rsp_content rs) buf))"

definition http_vt :: "('y, 'o) http_env \<Rightarrow> (('y, 'o, 'u, 'z) http_base_scheme \<Rightarrow> (('y, 'o, 'u, 'z) http_base_scheme \<times> bool) result) \<Rightarrow>
    ('y, 'o, 'u, 'z) http_base_scheme parser_vt" where
  "http_vt env next =
     \<lparr>pv_current = (\<lambda>b. m_currentParser b \<noteq> None), pv_setStatus = part_setStatus, pv_getStatus = part_getStatus,
      pv_write = part_write env, pv_changeToNextParser = next, pv_initProtocol = (\<lambda>b. (b, True)), pv_endProtocol = id\<rparr>"

text \<open>What a sender asks of the body it sends and of the stream it sends to.\<close>

record ('o, 'u) upstream_env =
  ue_io :: "'u streamable"
  ue_size :: "'o \<Rightarrow> nat"
  ue_streamTo :: "'o \<Rightarrow> 'u \<Rightarrow> ('u \<times> bool) result"
  ue_streamToChunked :: "'o \<Rightarrow> chunk_transformer \<times> 'u \<Rightarrow> ((chunk_transformer \<times> 'u) \<times> bool) result"

definition icontains :: "bytes \<Rightarrow> bytes \<Rightarrow> bool" where
  "icontains s t \<longleftrightarrow> list_ex (\<lambda>i. istarts_with (drop i s) t) [0..<Suc (length s)]"

section \<open>The header block, read and sent\<close>

context roomy_sink
begin

lemma write_text_delivers:
  assumes "room up n" and "length t \<le> n"
  obtains up' where "write_text io t up = Inr up'" and "delivered up' = delivered up @ t" and "room up' (n - length t)"
proof -
  obtain up' where "writeFullStream io up t = Inr (up', True)" "delivered up' = delivered up @ t" "room up' (n - length t)"
    using full_write [OF assms] by metis
  then show thesis using that by (simp add: write_text_def writeString_def)
qed

lemma header_stream_delivers:
  "room up n \<Longrightarrow> length (concat (map (\<lambda>l. l @ crlf) (ls @ [[]]))) \<le> n \<Longrightarrow>
     \<exists>up'. header_stream_loop io ls up = Inr (up', True) \<and> delivered up' = delivered up @ concat (map (\<lambda>l. l @ crlf) (ls @ [[]]))
       \<and> room up' (n - length (concat (map (\<lambda>l. l @ crlf) (ls @ [[]]))))"
proof (induction ls arbitrary: up n)
  case Nil
  obtain up' where "write_text io crlf up = Inr up'" "delivered up' = delivered up @ crlf" "room up' (n - length crlf)"
    using write_text_delivers [OF Nil.prems(1), of crlf] Nil.prems(2) by auto
  then show ?case using room_status by (auto simp: then_ok_def)
next
  case (Cons l ls)
  obtain up1 where u: "write_text io (l @ crlf) up = Inr up1" "delivered up1 = delivered up @ l @ crlf" "room up1 (n - length (l @ crlf))"
    using write_text_delivers [OF Cons.prems(1), of "l @ crlf"] Cons.prems(2) by auto
  have "length (concat (map (\<lambda>l. l @ crlf) (ls @ [[]]))) \<le> n - length (l @ crlf)" using Cons.prems(2) by simp
  then obtain up2 where "header_stream_loop io ls up1 = Inr (up2, True)" "delivered up2 = delivered up1 @ concat (map (\<lambda>l. l @ crlf) (ls @ [[]]))"
      "room up2 (n - length (l @ crlf) - length (concat (map (\<lambda>l. l @ crlf) (ls @ [[]]))))"
    using Cons.IH [OF u(3)] by blast
  then show ?case using u room_status [OF u(3)] by (auto simp: then_ok_def)
qed

lemma header_text_delivered:
  assumes "room up n" and "length (header_text h) \<le> n"
  obtains up' where "header_streamToUpstream io h up = Inr (up', True)" and "delivered up' = delivered up @ header_text h"
    and "room up' (n - length (header_text h))"
proof -
  have t: "concat (map (\<lambda>l. l @ crlf) (map (\<lambda>(_, i). option_toString (options h ! i)) (m_headers h) @ [[]])) = header_text h"
    by (simp add: header_text_def crlf_def comp_def case_prod_unfold)
  show thesis
    using header_stream_delivers [OF assms(1), of "map (\<lambda>(_, i). option_toString (options h ! i)) (m_headers h)"] assms(2) that
    unfolding t header_streamToUpstream_def by blast
qed

end


section \<open>Lines of a message\<close>

lemma awaits_line_empty: "awaits_line cap s \<Longrightarrow> empty_buffer cap (m_unparsedBuffer s) \<and> cap \<le> 262144"
  by (auto simp: awaits_line_def sp_ok_def empty_buffer_def)

text \<open>
  A sub-parser that waits for a line, and a write that completes the line, with the rest of the message behind it: \<^verbatim>\<open>parse\<close> is asked
  once, about this line, and the sub-parser waits for the next one.
\<close>

lemma line_taken:
  assumes "awaits_line cap s" and "CHR 0x0D \<notin> set l" and "length l + 2 \<le> cap"
  obtains u r where "sp_view (chunks_vt mvt fs) (s\<lparr>m_unparsedBuffer := u, m_parsedBuffer := r\<rparr>) = l"
    and "vt_size (ref_vt (chunks_vt mvt fs)) (getParsedBuffer (s\<lparr>m_unparsedBuffer := u, m_parsedBuffer := r\<rparr>)) = length l"
    and "\<And>heap parse s2 st. parse (s\<lparr>m_unparsedBuffer := u, m_parsedBuffer := r\<rparr>) = Inr (s2, st) \<Longrightarrow> m_unparsedBuffer s2 = u \<Longrightarrow>
      m_parseDelimiter s2 = crlf \<Longrightarrow> m_parseMode s2 = PARSE_MODE_DELIMITER \<Longrightarrow> \<not> m_streamEnded s2 \<Longrightarrow>
      \<exists>s3. writeIntoParser (chunks_vt mvt fs) heap parse s (l @ crlf @ rest) = Inr (s3, Some (length l + 2))
        \<and> awaits_line cap s3 \<and> m_parseStatus s3 = st \<and> subparser.more s3 = subparser.more s2"
proof -
  let ?cvt = "chunks_vt mvt fs"
  note e = awaits_line_empty [OF assms(1)]
  note a = assms(1) [unfolded awaits_line_def]
  obtain u r w where l: "sp_view ?cvt (s\<lparr>m_unparsedBuffer := u, m_parsedBuffer := r\<rparr>) = l"
      "vt_size (ref_vt ?cvt) (getParsedBuffer (s\<lparr>m_unparsedBuffer := u, m_parsedBuffer := r\<rparr>)) = length l" "filled_buffer w u" "m_maxSize u = cap"
      "\<And>parse s2. sp_parse parse (s\<lparr>m_unparsedBuffer := u, m_parsedBuffer := r\<rparr>) = Inr s2 \<Longrightarrow> m_parseDelimiter s2 = crlf \<Longrightarrow>
        parseByDelimiter ?cvt parse s (l @ crlf @ rest) = Inr (sp_clearUnparsed ?cvt s2, Some (length l + 2))"
    using size_line [of cap s l mvt fs rest] e a assms(2,3) by metis
  have "\<exists>s3. writeIntoParser ?cvt heap parse s (l @ crlf @ rest) = Inr (s3, Some (length l + 2))
      \<and> awaits_line cap s3 \<and> m_parseStatus s3 = st \<and> subparser.more s3 = subparser.more s2"
    if p: "parse (s\<lparr>m_unparsedBuffer := u, m_parsedBuffer := r\<rparr>) = Inr (s2, st)" "m_unparsedBuffer s2 = u" "m_parseDelimiter s2 = crlf"
      "m_parseMode s2 = PARSE_MODE_DELIMITER" "\<not> m_streamEnded s2" for heap parse s2 st
  proof -
    have "writeIntoParser ?cvt heap parse s (l @ crlf @ rest) = Inr (sp_clearUnparsed ?cvt (setParseStatus s2 st), Some (length l + 2))"
      using l(5) [of parse "setParseStatus s2 st"] p(1,3) a by (simp add: writeIntoParser_def sp_parse_def setParseStatus_def crlf_def)
    moreover have "empty_buffer cap (fst (b_clear ?cvt u))" using filled_clear [OF l(3), of mvt fs] l(4) by simp
    ultimately show ?thesis
      using p(2-5) e by (auto simp: awaits_line_def sp_clearUnparsed_def setParseStatus_def sp_ok_def empty_buffer_def)
  qed
  then show thesis using that [OF l(1,2)] by blast
qed

lemma header_line_taken:
  assumes "awaits_line cap s" and "CHR 0x0D \<notin> set l" and "length l + 2 \<le> cap" and "header_parse rand (sh_header s) l = Inr (h, fin)"
  obtains s' where "writeIntoParser (chunks_vt mvt fs) heap (sub_header_parse rand (chunks_vt mvt fs)) s (l @ crlf @ rest) = Inr (s', Some (length l + 2))"
    and "awaits_line cap s'" and "sh_header s' = h" and "m_parseStatus s' = (if fin then PARSE_GOTO_NEXT_SUBPARSER else PARSE_GET_MORE_DATA)"
proof -
  let ?cvt = "chunks_vt mvt fs"
  note a = assms(1) [unfolded awaits_line_def]
  obtain u r where l: "sp_view ?cvt (s\<lparr>m_unparsedBuffer := u, m_parsedBuffer := r\<rparr>) = l"
      "vt_size (ref_vt ?cvt) (getParsedBuffer (s\<lparr>m_unparsedBuffer := u, m_parsedBuffer := r\<rparr>)) = length l"
      "\<And>heap parse s2 st. parse (s\<lparr>m_unparsedBuffer := u, m_parsedBuffer := r\<rparr>) = Inr (s2, st) \<Longrightarrow> m_unparsedBuffer s2 = u \<Longrightarrow>
        m_parseDelimiter s2 = crlf \<Longrightarrow> m_parseMode s2 = PARSE_MODE_DELIMITER \<Longrightarrow> \<not> m_streamEnded s2 \<Longrightarrow>
        \<exists>s3. writeIntoParser ?cvt heap parse s (l @ crlf @ rest) = Inr (s3, Some (length l + 2))
          \<and> awaits_line cap s3 \<and> m_parseStatus s3 = st \<and> subparser.more s3 = subparser.more s2"
    using line_taken [OF assms(1-3), of mvt fs rest] by metis
  let ?s1 = "s\<lparr>m_unparsedBuffer := u, m_parsedBuffer := r\<rparr>"
  have "sub_header_parse rand ?cvt ?s1 = Inr (?s1\<lparr>sh_header := h\<rparr>, if fin then PARSE_GOTO_NEXT_SUBPARSER else PARSE_GET_MORE_DATA)"
    using assms(4) l(1,2) unfolding sub_header_parse_def sp_view_def [symmetric] l(1) l(2) header_parse_def by (cases "parseOptionValue rand (sh_header s) l") (auto split: if_splits)
  from l(3) [where parse = "sub_header_parse rand ?cvt", OF this, of heap] obtain s3 where s3: "writeIntoParser ?cvt heap (sub_header_parse rand ?cvt) s (l @ crlf @ rest) = Inr (s3, Some (length l + 2))"
      "awaits_line cap s3" "m_parseStatus s3 = (if fin then PARSE_GOTO_NEXT_SUBPARSER else PARSE_GET_MORE_DATA)"
      "subparser.more s3 = subparser.more (?s1\<lparr>sh_header := h\<rparr>)"
    using a by auto
  moreover have "sh_header s3 = h" using s3(4) by (cases s3; cases s) simp
  ultimately show thesis using that by blast
qed


lemma status_line_taken:
  assumes "awaits_line cap s" and "CHR 0x0D \<notin> set l" and "length l + 2 \<le> cap"
    and "split_compress (any_of blanks) l = version # code # message"
  obtains s' where "writeIntoParser (chunks_vt mvt fs) heap (status_parse (chunks_vt mvt fs)) s (l @ crlf @ rest) = Inr (s', Some (length l + 2))"
    and "m_statusCode s' = uint16 (strtoul code)" and "st_httpVersion s' = version_parse version" and "m_statusMessage s' = status_words message"
    and "m_parseStatus s' = PARSE_GOTO_NEXT_SUBPARSER"
proof -
  let ?cvt = "chunks_vt mvt fs"
  note a = assms(1) [unfolded awaits_line_def]
  obtain u r where l: "sp_view ?cvt (s\<lparr>m_unparsedBuffer := u, m_parsedBuffer := r\<rparr>) = l"
      "\<And>heap parse s2 st. parse (s\<lparr>m_unparsedBuffer := u, m_parsedBuffer := r\<rparr>) = Inr (s2, st) \<Longrightarrow> m_unparsedBuffer s2 = u \<Longrightarrow>
        m_parseDelimiter s2 = crlf \<Longrightarrow> m_parseMode s2 = PARSE_MODE_DELIMITER \<Longrightarrow> \<not> m_streamEnded s2 \<Longrightarrow>
        \<exists>s3. writeIntoParser ?cvt heap parse s (l @ crlf @ rest) = Inr (s3, Some (length l + 2))
          \<and> awaits_line cap s3 \<and> m_parseStatus s3 = st \<and> subparser.more s3 = subparser.more s2"
    using line_taken [OF assms(1-3), of mvt fs rest] by metis
  let ?s1 = "s\<lparr>m_unparsedBuffer := u, m_parsedBuffer := r\<rparr>"
  let ?s2 = "?s1\<lparr>st_httpVersion := version_parse version, m_statusCode := uint16 (strtoul code), m_statusMessage := status_words message\<rparr>"
  have "status_parse ?cvt ?s1 = Inr (?s2, PARSE_GOTO_NEXT_SUBPARSER)"
    unfolding status_parse_def sp_view_def [symmetric] l(1) Let_def assms(4) by simp
  from l(2) [where parse = "status_parse ?cvt", OF this, of heap] obtain s3 where
    s3: "writeIntoParser ?cvt heap (status_parse ?cvt) s (l @ crlf @ rest) = Inr (s3, Some (length l + 2))"
      "m_parseStatus s3 = PARSE_GOTO_NEXT_SUBPARSER" "subparser.more s3 = subparser.more ?s2"
    using a by auto
  moreover have "m_statusCode s3 = uint16 (strtoul code)" "st_httpVersion s3 = version_parse version" "m_statusMessage s3 = status_words message"
    using s3(3) by (cases s3; cases s; simp)+
  ultimately show thesis using that by blast
qed

lemma awaits_line_status [simp]: "awaits_line cap (setParseStatus s st) = awaits_line cap s"
  and awaits_line_client [simp]: "awaits_line cap (initElemParser s m) = awaits_line cap s"
  by (simp_all add: awaits_line_def setParseStatus_def initElemParser_def)

lemma sh_header_status [simp]: "sh_header (setParseStatus s st) = sh_header s" "sh_header (initElemParser s m) = sh_header s"
  by (simp_all add: setParseStatus_def initElemParser_def)

lemma sub_header_awaits: "awaits_line 2048 (sub_header_new cvt)" "sh_header (sub_header_new cvt) = mime_header_new"
  using chunks_new_inv
  by (simp_all add: awaits_line_def sub_header_new_def setMaxOptionSize_def subparser_init_def subparser.defs setParseMode_def setParseDelimiter_def
      setParseDataTargetSize_def b_setMaxSize_def sp_ok_def chunks_inv_def chunks_data_inv_def chunks_content_def chunks_new_def chunks_clear2_def
      chunks_clearChunks_def b_base.defs b_init_def)


section \<open>A protocol that is receiving headers\<close>

text \<open>The parser loop with a header block as its current sub-parser, on either side of a connection.\<close>

locale header_protocol =
  fixes vt :: "'p parser_vt" and hdr :: "'p \<Rightarrow> 'y sub_header" and put :: "'p \<Rightarrow> 'y sub_header \<Rightarrow> 'p" and active :: "'p \<Rightarrow> bool"
    and env :: "('y, 'o) http_env"
  assumes active_current: "active i \<Longrightarrow> pv_current vt i"
    and active_write: "active i \<Longrightarrow> pv_write vt (pv_setStatus vt i st) buf =
      map_sum id (\<lambda>(s, r). (put i s, r)) (writeIntoParser (he_cvt env) (he_heap env) (sub_header_parse (he_rand env) (he_cvt env)) (setParseStatus (hdr i) st) buf)"
    and active_put: "active i \<Longrightarrow> active (put i s) \<and> hdr (put i s) = s \<and> pv_getStatus vt (put i s) = m_parseStatus s"
    and put_put: "active i \<Longrightarrow> put (put i s) s' = put i s'" and put_hdr: "active i \<Longrightarrow> put i (hdr i) = i"
begin

lemma header_line_round:
  assumes "active (m_impl p)" and "awaits_line cap (hdr (m_impl p))" and "l \<noteq> [] \<and> CHR 0x0D \<notin> set l \<and> length l + 2 \<le> cap"
    and "header_parse (he_rand env) (sh_header (hdr (m_impl p))) l = Inr (h, False)" and "rest \<noteq> []"
  obtains s where "parse_round vt p (l @ crlf @ rest) = Inr (RoundRest (p\<lparr>m_impl := put (m_impl p) s\<rparr>) (length l + 2))"
    and "awaits_line cap s" and "sh_header s = h"
proof -
  obtain s where s: "writeIntoParser (he_cvt env) (he_heap env) (sub_header_parse (he_rand env) (he_cvt env)) (setParseStatus (hdr (m_impl p)) PARSE_GET_MORE_DATA) (l @ crlf @ rest)
        = Inr (s, Some (length l + 2))" "awaits_line cap s" "sh_header s = h" "m_parseStatus s = PARSE_GET_MORE_DATA"
    using header_line_taken [of cap "setParseStatus (hdr (m_impl p)) PARSE_GET_MORE_DATA" l "he_rand env" h False "he_mvt env" "he_fs env" "he_heap env" rest] assms(2-4) by auto
  then show thesis
    using that [OF _ s(2,3)] assms(1,5) active_current [OF assms(1)] active_write [OF assms(1)] active_put [OF assms(1), of s] by (simp add: parse_round_def)
qed

lemma lines_parsed:
  assumes "active (m_impl p)" and "awaits_line cap (hdr (m_impl p))" and "\<forall>l\<in>set ls. l \<noteq> [] \<and> CHR 0x0D \<notin> set l \<and> length l + 2 \<le> cap"
    and "read_lines (he_rand env) ls (sh_header (hdr (m_impl p))) = Inr h" and "ttl + length ls \<le> Suc (m_maxTTL p)" and "rest \<noteq> []"
  shows "\<exists>s. awaits_line cap s \<and> sh_header s = h
    \<and> (\<forall>p2 m. parseData vt (p\<lparr>m_impl := put (m_impl p) s\<rparr>) rest (ttl + length ls) = Inr (p2, Some m) \<longrightarrow>
        m + length (concat (map (\<lambda>l. l @ crlf) ls)) \<le> size_max \<longrightarrow>
        parseData vt p (concat (map (\<lambda>l. l @ crlf) ls) @ rest) ttl = Inr (p2, Some (m + length (concat (map (\<lambda>l. l @ crlf) ls)))))"
  using assms
proof (induction ls arbitrary: p ttl)
  case Nil
  then show ?case using put_hdr [OF Nil.prems(1)] by (intro exI [of _ "hdr (m_impl p)"]) simp
next
  case (Cons l ls)
  let ?c = "concat (map (\<lambda>l. l @ crlf) ls)"
  obtain h1 where h1: "header_parse (he_rand env) (sh_header (hdr (m_impl p))) l = Inr (h1, False)" "read_lines (he_rand env) ls h1 = Inr h"
    using Cons.prems(3,4)
    by (cases "parseOptionValue (he_rand env) (sh_header (hdr (m_impl p))) l") (auto simp: header_parse_def)
  obtain s1 where s1: "parse_round vt p (l @ crlf @ ?c @ rest) = Inr (RoundRest (p\<lparr>m_impl := put (m_impl p) s1\<rparr>) (length l + 2))" "awaits_line cap s1" "sh_header s1 = h1"
    using header_line_round [OF Cons.prems(1,2) _ h1(1), of "?c @ rest"] Cons.prems(3,6) by auto
  let ?p1 = "p\<lparr>m_impl := put (m_impl p) s1\<rparr>"
  have p1: "active (m_impl ?p1)" "hdr (m_impl ?p1) = s1" using active_put [OF Cons.prems(1)] by simp_all
  obtain s where s: "awaits_line cap s" "sh_header s = h"
      "\<And>p2 m. parseData vt (p\<lparr>m_impl := put (m_impl p) s\<rparr>) rest (Suc ttl + length ls) = Inr (p2, Some m) \<Longrightarrow> m + length ?c \<le> size_max \<Longrightarrow>
        parseData vt ?p1 (?c @ rest) (Suc ttl) = Inr (p2, Some (m + length ?c))"
    using Cons.IH [OF p1(1), of "Suc ttl"] p1(2) s1(2,3) h1(2) Cons.prems(3,5,6) put_put [OF Cons.prems(1)] by auto
  have "parseData vt p (concat (map (\<lambda>l. l @ crlf) (l # ls)) @ rest) ttl = Inr (p2, Some (m + length (concat (map (\<lambda>l. l @ crlf) (l # ls)))))"
    if q: "parseData vt (p\<lparr>m_impl := put (m_impl p) s\<rparr>) rest (ttl + length (l # ls)) = Inr (p2, Some m)"
      "m + length (concat (map (\<lambda>l. l @ crlf) (l # ls))) \<le> size_max" for p2 m
  proof -
    have "parseData vt ?p1 (?c @ rest) (Suc ttl) = Inr (p2, Some (m + length ?c))" using s(3) q by simp
    then have "parseData vt p (l @ crlf @ ?c @ rest) ttl = Inr (p2, Some (m + length ?c + (length l + 2)))"
      using parseData_rest [OF s1(1), of ttl p2 "m + length ?c"] q(2) Cons.prems(5,6) by simp
    then show ?thesis by (simp add: ac_simps)
  qed
  then show ?case using s(1,2) by blast
qed

text \<open>The empty line ends the headers.\<close>

lemma end_of_headers:
  assumes "active (m_impl p)" and "awaits_line cap (hdr (m_impl p))" and "2 \<le> cap"
    and "\<And>s. sh_header s = sh_header (hdr (m_impl p)) \<Longrightarrow> m_parseStatus s = PARSE_GOTO_NEXT_SUBPARSER \<Longrightarrow>
      \<exists>i. pv_changeToNextParser vt (put (m_impl p) s) = Inr (i, True) \<and> pv_current vt i \<and> good i"
    and "rest \<noteq> []"
  obtains i where "parse_round vt p (crlf @ rest) = Inr (RoundRest (p\<lparr>m_impl := i\<rparr>) 2)" and "good i"
proof -
  have two: "length ([] :: bytes) + 2 = 2" by simp
  obtain s where s: "writeIntoParser (he_cvt env) (he_heap env) (sub_header_parse (he_rand env) (he_cvt env)) (setParseStatus (hdr (m_impl p)) PARSE_GET_MORE_DATA) (crlf @ rest)
        = Inr (s, Some 2)" "sh_header s = sh_header (hdr (m_impl p))" "m_parseStatus s = PARSE_GOTO_NEXT_SUBPARSER"
    using header_line_taken [of cap "setParseStatus (hdr (m_impl p)) PARSE_GET_MORE_DATA" "[]" "he_rand env" "sh_header (hdr (m_impl p))" True "he_mvt env" "he_fs env" "he_heap env" rest] assms(2,3)
    unfolding two by (auto simp: header_parse_def)
  obtain i where "pv_changeToNextParser vt (put (m_impl p) s) = Inr (i, True)" "pv_current vt i" "good i" using assms(4) [OF s(2,3)] by blast
  then show thesis
    using that [of i] assms(1,5) s active_current [OF assms(1)] active_write [OF assms(1)] active_put [OF assms(1), of s]
    by (simp add: parse_round_def Let_def)
qed

end


section \<open>Options that are plain words\<close>

lemma parseSubValues_token:
  assumes "header_token v" and "parseSubValues (Some buffer) opt v = Inr opt'"
  shows "m_value opt' = v"
proof -
  obtain r where r: "createRandomString (Some buffer) = Inr r" by (simp add: createRandomString_def)
  have t: "trim v = v" using assms(1) by (rule header_token_trim)
  have "find_static v = None" using header_token_char(2) [OF assms(1)] by (intro find_static_None) blast
  moreover have "split_compress (any_of '';'') v = [v]"
    using header_token_char(3) [OF assms(1)] by (intro split_compress_single) (auto simp: any_of_def)
  ultimately show ?thesis using assms(2) r t by (auto simp: parseSubValues_def Let_def option_setValue_def replace_back_def)
qed

text \<open>An option whose text is one word is found again under every spelling of its name, behind the options that had this name before.\<close>

lemma header_add_token:
  assumes "header_inv h" and "length (m_headers h) < m_maxOptions h" and "header_token v"
  obtains h' opt where "header_add (Some buffer) h n v 0 = Inr (h', True)" and "m_value opt = v" and "m_origValue opt = v"
    and "\<And>n'. getOptionsByName h' n' = getOptionsByName h n' @ (if to_upper_copy n' = to_upper_copy n then [opt] else [])" and "header_inv h'"
proof -
  let ?new = "header_option_new\<lparr>m_origName := n\<rparr>"
  obtain opt where p: "parseSubValues (Some buffer) ?new v = Inr opt" using parseSubValues_total by blast
  note ok = parseSubValues_ok [OF header_option_new_ok p]
  let ?h = "h\<lparr>options := options h @ [opt], m_headers := mm_insert (to_upper_copy n) (length (options h)) (m_headers h), m_lastOpt := Some (length (options h))\<rparr>"
  have a: "header_add (Some buffer) h n v 0 = Inr (?h, True)"
    using ok p assms(2) by (simp add: header_add_def addHeaderOption_def getUpperName_def Let_def)
  moreover have "header_inv ?h" using header_add_inv [OF assms(1), of buffer n v 0] a by auto
  ultimately show thesis using that [OF _ parseSubValues_token [OF assms(3) p]] ok getOptions_insert [OF assms(1), where opt = opt and n = n] by auto
qed

lemma header_line_token:
  assumes "header_inv h" and "length (m_headers h) < m_maxOptions h" and "header_token n" and "header_token v"
  obtains h' opt where "header_parse (Some buffer) h (n @ '': '' @ v) = Inr (h', False)" and "m_value opt = v" and "m_origValue opt = v"
    and "\<And>n'. getOptionsByName h' n' = getOptionsByName h n' @ (if to_upper_copy n' = to_upper_copy n then [opt] else [])" and "header_inv h'"
proof -
  have plain: "c \<noteq> CHR '':'' \<and> c \<noteq> CHR '' '' \<and> c \<noteq> CHR 0x09 \<and> c \<noteq> byte_of 0" if "header_token t" "c \<in> set t" for c t
    using that header_token_char(1,6) [OF that] by (auto simp: header_token_def is_alnum_def is_alpha_def is_upper_def is_lower_def is_digit_def is_space_def schar_def)
  have p: "printable_option (header_option_new\<lparr>m_origName := n, m_origValue := v\<rparr>)"
    using plain assms(3,4) hd_in_set [of n] by (auto simp: printable_option_def header_token_def)
  have "n @ '': '' @ v \<noteq> []" by simp
  moreover obtain h' opt where "header_add (Some buffer) h n v 0 = Inr (h', True)" "m_value opt = v" "m_origValue opt = v"
      "\<And>n'. getOptionsByName h' n' = getOptionsByName h n' @ (if to_upper_copy n' = to_upper_copy n then [opt] else [])" "header_inv h'"
    using header_add_token [OF assms(1,2,4)] by metis
  ultimately show thesis
    using that [of h' opt] parse_printed_option [OF p, of "Some buffer" h] by (simp add: header_parse_def option_toString_def)
qed

lemma getValue_conv: "getOptionValueStringByName h n = (case getOptionsByName h n of [] \<Rightarrow> [] | opt # _ \<Rightarrow> m_value opt)"
  and exist_conv: "header_exist h n \<longleftrightarrow> getOptionsByName h n \<noteq> []"
  and uint_conv: "getOptionAsUINT64 h n = (case getOptionsByName h n of [] \<Rightarrow> 0 | opt # _ \<Rightarrow> strtoul (m_value opt))"
  by (simp_all add: getOptionValueStringByName_def getOptionAsUINT64_def header_exist_def getOptionByName_def getOptionsByName_def split: list.split)

section \<open>A base to start from\<close>

abbreviation into_chunks :: "('y, 'a chunks) http_env \<Rightarrow> 'a mmap_vt \<Rightarrow> ('a chunks \<Rightarrow> 'a b_base_scheme option) \<Rightarrow> ('y, 'a chunks) http_env" where
  "into_chunks env mvt fs \<equiv> env\<lparr>he_io := b_streamable (chunks_vt mvt fs)\<rparr>"

definition example_env :: "(b_mem_fields, b_mem_fields chunks) http_env" where
  "example_env = \<lparr>he_mvt = mem_vt, he_fs = (\<lambda>_. None), he_heap = (\<lambda>n. replicate n CHR ''x''), he_rand = Some ''0123456789abcdef'',
     he_io = b_streamable (chunks_vt mem_vt (\<lambda>_. None)), he_mk = (\<lambda>_. chunks_new)\<rparr>"

lemma example_env_simps [simp]:
  "he_rand example_env = Some ''0123456789abcdef''" "he_mk example_env = (\<lambda>_. chunks_new)"
  "into_chunks example_env mem_vt (\<lambda>_. None) = example_env"
  by (simp_all add: example_env_def)

lemma server_header_new:
  assumes "header_replace (Some buffer) mime_header_new ''Server'' v = Inr h"
  shows "header_inv h" and "length (m_headers h) < m_maxOptions h" and "to_upper_copy n \<noteq> ''SERVER'' \<Longrightarrow> getOptionsByName h n = []"
    and "\<exists>opt os. getOptionsByName h ''Server'' = opt # os \<and> m_origValue opt = v"
proof -
  let ?h = "header_remove mime_header_new ''Server''"
  have e: "?h = mime_header_new" by (simp add: header_remove_def mime_header_new_def mm_erase_def)
  have s: "to_upper_copy ''Server'' = ''SERVER''" by code_simp
  have "length (m_headers mime_header_new) \<noteq> m_maxOptions mime_header_new" by (simp add: mime_header_new_def)
  then obtain opt where v: "m_origValue opt = v" and "header_add (Some buffer) mime_header_new ''Server'' v 0 = Inr (mime_header_new\<lparr>options := options mime_header_new @ [opt],
      m_headers := mm_insert ''SERVER'' (length (options mime_header_new)) (m_headers mime_header_new), m_lastOpt := Some (length (options mime_header_new))\<rparr>, True)"
    using header_add_new [of mime_header_new "''Server''" v buffer] unfolding s by metis
  then have a: "h = mime_header_new\<lparr>options := options mime_header_new @ [opt], m_headers := mm_insert ''SERVER'' (length (options mime_header_new)) (m_headers mime_header_new),
      m_lastOpt := Some (length (options mime_header_new))\<rparr>"
    using assms unfolding header_replace_def e by simp
  show "header_inv h" using header_add_inv [OF header_inv_new, of buffer "''Server''" v 0] assms by (auto simp: header_replace_def e)
  show "length (m_headers h) < m_maxOptions h" unfolding a by (simp add: mime_header_new_def)
  show "\<exists>opt os. getOptionsByName h ''Server'' = opt # os \<and> m_origValue opt = v"
    using getOptions_insert [OF header_inv_new, where opt = opt and n = "''Server''"] v unfolding a s
    by (simp add: getOptionsByName_def mime_header_new_def mm_range_def s)
  show "getOptionsByName h n = []" if "to_upper_copy n \<noteq> ''SERVER''"
    using getOptions_insert [OF header_inv_new, where opt = opt and n = "''Server''"] that unfolding a s by (simp add: getOptionsByName_def mime_header_new_def mm_range_def)
qed

lemma base_new_exists: "\<exists>b. http_base_new (he_rand example_env) (he_cvt example_env) (he_mk example_env) m up = Inr b"
proof -
  let ?v = "''Mantids30::HTTP/'' @ dec 0 @ ''.'' @ dec 4 @ '' (+https://github.com/unmanarc/libMantids30)''"
  have e: "header_remove mime_header_new ''Server'' = mime_header_new" by (simp add: header_remove_def mime_header_new_def mm_erase_def)
  obtain h ok where "header_add (Some ''0123456789abcdef'') mime_header_new ''Server'' ?v 0 = Inr (h, ok)"
    using header_add_inv [OF header_inv_new] by metis
  then show ?thesis
    by (simp add: http_base_new_def setInternalProductVersion_def rsp_header_replace_def header_replace_def Let_def http_response_new_def sub_header_awaits(2) e)
qed


section \<open>Printing and reading a header block\<close>

text \<open>
  The smallest protocol with a header block: the block is its only sub-parser, and the message ends with it. The state has the flag
  that tells whether the sub-parser is still the current one.
\<close>

definition header_only_vt :: "('y, 'o) http_env \<Rightarrow> ('y sub_header \<times> bool) parser_vt" where
  "header_only_vt env =
     \<lparr>pv_current = snd, pv_setStatus = (\<lambda>(s, cur) st. (setParseStatus s st, cur)), pv_getStatus = (\<lambda>(s, cur). m_parseStatus s),
      pv_write = (\<lambda>(s, cur) buf. map_sum id (\<lambda>(s', n). ((s', cur), n)) (writeIntoParser (he_cvt env) (he_heap env) (sub_header_parse (he_rand env) (he_cvt env)) s buf)),
      pv_changeToNextParser = (\<lambda>(s, cur). Inr ((s, False), True)), pv_initProtocol = (\<lambda>i. (i, True)), pv_endProtocol = (\<lambda>i. i)\<rparr>"

interpretation header_only: header_protocol "header_only_vt env" fst "\<lambda>i s. (s, snd i)" snd env
  for env
  by unfold_locales (auto simp: header_only_vt_def split_def)

lemma lines_length: "\<forall>l\<in>set ls. length l + 2 \<le> n \<Longrightarrow> length (concat (map (\<lambda>l. l @ crlf) ls)) \<le> n * length ls"
  by (induction ls) (auto simp: crlf_def)

lemma header_only_end:
  assumes "awaits_line cap s" and "2 \<le> cap" and "ttl \<le> m_maxTTL p" and "m_impl p = (s, True)"
  obtains p' where "parseData (header_only_vt env) p crlf ttl = Inr (p', Some 2)" and "finish (p_writeStatus p')" and "sh_header (fst (m_impl p')) = sh_header s"
proof -
  have two: "length ([] :: bytes) + 2 = 2" "length crlf = 2" by (simp_all add: crlf_def)
  obtain s' where s': "writeIntoParser (he_cvt env) (he_heap env) (sub_header_parse (he_rand env) (he_cvt env)) (setParseStatus s PARSE_GET_MORE_DATA) crlf
        = Inr (s', Some 2)" "sh_header s' = sh_header s" "m_parseStatus s' = PARSE_GOTO_NEXT_SUBPARSER"
    using header_line_taken [of cap "setParseStatus s PARSE_GET_MORE_DATA" "[]" "he_rand env" "sh_header s" True "he_mvt env" "he_fs env" "he_heap env" "[]"] assms(1,2)
    unfolding two by (auto simp: header_parse_def)
  then have "parse_round (header_only_vt env) p crlf =
      Inr (RoundReturn (p\<lparr>m_impl := (s', False), p_writeStatus := (p_writeStatus p)\<lparr>finish := True\<rparr>\<rparr>) (Some 2))"
    using assms(4) two(2) by (simp add: parse_round_def header_only_vt_def Let_def)
  then show thesis using that s'(2) assms(3) by (simp add: parseData.simps [of _ p])
qed

text \<open>
  C20. A header block written by \<^verbatim>\<open>streamToUpstream\<close> and given to the parser is read back. The block goes into chunks with room for it;
  the bytes found there are exactly the text of the block, and when the parser gets them in one write it takes all of them, finds the end of
  the message there, and the header sub-parser has the same options: same names, same raw texts, same order. It holds for at most 32 options,
  names without a colon that do not begin with a blank, values without NUL, no CR in names and values, and lines that fit with
  their CR LF in the 2 KiB of the sub-parser.
\<close>

theorem header_block_roundtrip:
  assumes "header_inv h" and "length (m_headers h) \<le> 32" and "\<forall>opt\<in>set (header_options h). printable_option opt"
    and "\<forall>opt\<in>set (header_options h). CHR 0x0D \<notin> set (option_toString opt) \<and> length (option_toString opt) + 2 \<le> 2048"
    and "he_rand env = Some buffer" and "chunks_roomy up (length (header_text h))" and "chunks_content up = []"
  shows "\<exists>up' p'. header_streamToUpstream (b_streamable (chunks_vt mvt fs)) h up = Inr (up', True) \<and> chunks_content up' = header_text h
    \<and> parser_write (header_only_vt env) (parser_new (sub_header_new (he_cvt env), True)) (chunks_content up') = Inr (p', Some (length (header_text h)))
    \<and> finish (p_writeStatus p') \<and> header_view (sh_header (fst (m_impl p'))) = header_view h"
proof -
  let ?vt = "header_only_vt env" and ?p = "parser_new (sub_header_new (he_cvt env), True)" and ?ls = "map option_toString (header_options h)"
  obtain up' where up': "header_streamToUpstream (b_streamable (chunks_vt mvt fs)) h up = Inr (up', True)" "chunks_content up' = header_text h"
    using chunk_sink.header_text_delivered [OF assms(6), of h mvt fs] assms(7) by auto
  obtain g where g: "read_lines (he_rand env) ?ls mime_header_new = Inr g" "header_view g = header_view h"
    using printed_lines_read [OF assms(1-3)] assms(5) by auto
  let ?c = "concat (map (\<lambda>l. l @ crlf) ?ls)"
  have ht: "header_text h = ?c @ crlf" by (simp add: header_text_lines crlf_def comp_def)
  have p: "snd (m_impl ?p)" "fst (m_impl ?p) = sub_header_new (he_cvt env)" "m_maxTTL ?p = 4096" by (simp_all add: parser_new_def)
  have n: "length ?ls \<le> 32" using assms(2) by (simp add: header_options_def)
  have fit: "\<forall>l\<in>set ?ls. l \<noteq> [] \<and> CHR 0x0D \<notin> set l \<and> length l + 2 \<le> 2048" using assms(4) by (auto simp: option_toString_def)
  then have len: "length ?c \<le> 2048 * length ?ls" by (intro lines_length) auto
  have aw: "awaits_line 2048 (fst (m_impl ?p))" unfolding p(2) by (rule sub_header_awaits)
  have rl: "read_lines (he_rand env) ?ls (sh_header (fst (m_impl ?p))) = Inr g" unfolding p(2) sub_header_awaits(2) by (rule g(1))
  have ttl: "0 + length ?ls \<le> Suc (m_maxTTL ?p)" using n p(3) by simp
  have crlf: "crlf \<noteq> []" by (simp add: crlf_def)
  obtain s where s: "awaits_line 2048 s" "sh_header s = g"
      "\<And>p2 m. parseData ?vt (?p\<lparr>m_impl := (s, True)\<rparr>) crlf (0 + length ?ls) = Inr (p2, Some m) \<Longrightarrow> m + length ?c \<le> size_max \<Longrightarrow>
        parseData ?vt ?p (?c @ crlf) 0 = Inr (p2, Some (m + length ?c))"
    using header_only.lines_parsed [OF p(1) aw fit rl ttl crlf] p(1) by auto
  obtain p' where p': "parseData ?vt (?p\<lparr>m_impl := (s, True)\<rparr>) crlf (0 + length ?ls) = Inr (p', Some 2)" "finish (p_writeStatus p')" "sh_header (fst (m_impl p')) = g"
    using header_only_end [OF s(1), of "0 + length ?ls" "?p\<lparr>m_impl := (s, True)\<rparr>" env] s(2) n p(3) by auto
  have "parseData ?vt ?p (?c @ crlf) 0 = Inr (p', Some (2 + length ?c))"
    using s(3) [OF p'(1)] len n by (simp add: size_max_def)
  then have "parser_write ?vt ?p (chunks_content up') = Inr (p', Some (length (header_text h)))"
    unfolding up'(2) ht by (simp add: parser_write_def crlf_def)
  then show ?thesis using up' p'(2,3) g(2) by blast
qed

theorem header_block_roundtrip_witness:
  "\<exists>up p'. header_streamToUpstream (b_streamable (chunks_vt mem_vt (\<lambda>_. None))) host_header chunks_new = Inr (up, True)
    \<and> chunks_content up = ''Accept: b; q=1'' @ crlf @ ''Host: a'' @ crlf @ crlf
    \<and> parser_write (header_only_vt example_env) (parser_new (sub_header_new (he_cvt example_env), True)) (chunks_content up) = Inr (p', Some 27)
    \<and> header_view (sh_header (fst (m_impl p'))) = [(''ACCEPT'', ''Accept'', ''b; q=1''), (''HOST'', ''Host'', ''a'')]"
proof -
  have o: "header_options host_header = [header_option_new\<lparr>m_origName := ''Accept'', m_origValue := ''b; q=1''\<rparr>, header_option_new\<lparr>m_origName := ''Host'', m_origValue := ''a''\<rparr>]"
    by (simp add: header_options_def host_header_def)
  have t: "header_text host_header = ''Accept: b; q=1'' @ crlf @ ''Host: a'' @ crlf @ crlf"
    unfolding header_text_lines o by (simp add: option_toString_def crlf_def)
  have l: "length (header_text host_header) = 27" unfolding t by (simp add: crlf_def)
  have up: "to_upper_copy ''Accept'' = ''ACCEPT''" "to_upper_copy ''Host'' = ''HOST''" by code_simp+
  have v: "header_view host_header = [(''ACCEPT'', ''Accept'', ''b; q=1''), (''HOST'', ''Host'', ''a'')]" by (simp add: header_view_def host_header_def up)
  have h: "length (m_headers host_header) \<le> 32" "\<forall>opt\<in>set (header_options host_header). printable_option opt"
    "\<forall>opt\<in>set (header_options host_header). CHR 0x0D \<notin> set (option_toString opt) \<and> length (option_toString opt) + 2 \<le> 2048"
    unfolding o by (simp_all add: host_header_def printable_option_def char_of_def option_toString_def)
  have room: "chunks_roomy (chunks_new :: b_mem_fields chunks) (length (header_text host_header))" by (rule chunks_new_roomy) (simp add: l)
  from header_block_roundtrip [OF host_header_inv h example_env_simps(1) room chunks_new_inv(2), of mem_vt "\<lambda>_. None"]
  show ?thesis unfolding t [symmetric] v l by metis
qed

end
