(* ===== verification/HTTPClient.thy ===== *)
theory HTTPClient
  imports HTTPBase
begin

text \<open>
  The client side of a connection (\<^verbatim>\<open>src/Mantids30/Protocol_HTTP/httpv1_client.cpp\<close>): the request that is sent when the protocol starts, and
  the state machine that reads status, headers and body of the answer. Regular expression, dates and Base64 codec are arguments.
\<close>

section \<open>The client\<close>

record ('y, 'o, 'u) http_client = "('y, 'o, 'u) http_base" +
  m_clientCookies :: cookies_client
  m_serverContentType :: bytes

definition http_client_new :: "('y, 'o) http_env \<Rightarrow> 'u \<Rightarrow> ('y, 'o, 'u) http_client result" where
  "http_client_new env up =
     (case http_base_new (he_rand env) (he_cvt env) (he_mk env) True up of
        Inl e \<Rightarrow> Inl e
      | Inr b \<Rightarrow>
          let rq = clientRequest b; rl = requestLine rq;
              rl' = rl\<lparr>m_httpVersion := (m_httpVersion rl)\<lparr>m_majorVersion := 1, m_minorVersion := 0\<rparr>, m_requestMethod := ''GET''\<rparr>
          in Inr (http_base.extend
               (b\<lparr>m_currentParser := Some ResponseStatus, clientRequest := rq\<lparr>requestLine := rl', userAgent := ''libMantids/'' @ dec 0 @ ''.'' @ dec 4\<rparr>\<rparr>)
               \<lparr>m_clientCookies = [], m_serverContentType = []\<rparr>))"

subsection \<open>Preparing the request\<close>

definition req_header_replace :: "bytes option \<Rightarrow> ('y, 'o) http_request \<Rightarrow> bytes \<Rightarrow> bytes \<Rightarrow> ('y, 'o) http_request result" where
  "req_header_replace rand r name v =
     (case header_replace rand (sh_header (req_headers r)) name v of
        Inl e \<Rightarrow> Inl e | Inr h \<Rightarrow> Inr (r\<lparr>req_headers := (req_headers r)\<lparr>sh_header := h\<rparr>\<rparr>))"

definition req_upgradeMinor :: "('y, 'o) http_request \<Rightarrow> ('y, 'o) http_request" where
  "req_upgradeMinor r = r\<lparr>requestLine := (requestLine r)\<lparr>m_httpVersion := upgradeMinor (m_httpVersion (requestLine r)) 1\<rparr>\<rparr>"

definition setClientRequest :: "('y, 'o, 'u) http_client \<Rightarrow> bytes \<Rightarrow> bytes \<Rightarrow> ('y, 'o, 'u) http_client" where
  "setClientRequest c hostName uriPath =
     (let r = (if hostName \<noteq> [] then req_upgradeMinor (clientRequest c) else clientRequest c)
      in c\<lparr>clientRequest := r\<lparr>requestLine := (requestLine r)\<lparr>m_requestURI := uriPath\<rparr>, virtualHost := hostName\<rparr>\<rparr>)"

definition prepare_post :: "(eDataType \<Rightarrow> 'o) \<Rightarrow> eDataType \<Rightarrow> ('y, 'o, 'u) http_client \<Rightarrow> bytes \<Rightarrow> bytes \<Rightarrow> ('y, 'o, 'u) http_client" where
  "prepare_post mk ctype c0 hostName uriPath =
     (let c = setClientRequest c0 hostName uriPath; r = clientRequest c
      in c\<lparr>clientRequest := r\<lparr>requestLine := (requestLine r)\<lparr>m_requestMethod := ''POST''\<rparr>, req_content := setContainerType mk (req_content r) ctype\<rparr>\<rparr>)"

text \<open>The result is the client with the variables of the body and of the URL, which the caller fills.\<close>

definition prepareRequestAsPostMIME :: "(eDataType \<Rightarrow> 'o) \<Rightarrow> ('y, 'o, 'u) http_client \<Rightarrow> bytes \<Rightarrow> bytes \<Rightarrow> (('y, 'o, 'u) http_client \<times> 'o \<times> 'y urlvars parser) result" where
  "prepareRequestAsPostMIME mk c0 hostName uriPath =
     (let c = prepare_post mk CONTENT_TYPE_MIME c0 hostName uriPath
      in map_sum id (\<lambda>post. (c, post, m_getVars (requestLine (clientRequest c)))) (getMultiPartVars (req_content (clientRequest c))))"

definition prepareRequestAsPostURL :: "(eDataType \<Rightarrow> 'o) \<Rightarrow> ('y, 'o, 'u) http_client \<Rightarrow> bytes \<Rightarrow> bytes \<Rightarrow> (('y, 'o, 'u) http_client \<times> 'o \<times> 'y urlvars parser) result" where
  "prepareRequestAsPostURL mk c0 hostName uriPath =
     (let c = prepare_post mk CONTENT_TYPE_URL c0 hostName uriPath
      in map_sum id (\<lambda>post. (c, post, m_getVars (requestLine (clientRequest c)))) (getUrlPostVars (req_content (clientRequest c))))"

definition getResponseHeader :: "('y, 'o, 'u) http_client \<Rightarrow> bytes \<Rightarrow> bytes" where
  "getResponseHeader c headerName = getOptionValueStringByName (sh_header (rsp_headers (serverResponse c))) headerName"

definition setReferer :: "bytes option \<Rightarrow> ('y, 'o, 'u) http_client \<Rightarrow> bytes \<Rightarrow> ('y, 'o, 'u) http_client result" where
  "setReferer rand c refererURL =
     (case req_header_replace rand (req_upgradeMinor (clientRequest c)) ''Referer'' refererURL of
        Inl e \<Rightarrow> Inl e | Inr r \<Rightarrow> Inr (c\<lparr>clientRequest := r\<rparr>))"

text \<open>\<open>bc\<close> is the container built from the value.\<close>

definition addURLVar :: "('y, 'o, 'u) http_client \<Rightarrow> bytes \<Rightarrow> 'y chunks \<Rightarrow> ('y, 'o, 'u) http_client" where
  "addURLVar c varName bc =
     (let r = clientRequest c; rl = requestLine r; v = m_getVars rl
      in c\<lparr>clientRequest := r\<lparr>requestLine := rl\<lparr>m_getVars := v\<lparr>m_impl := fst (addVar (m_impl v) varName bc)\<rparr>\<rparr>\<rparr>\<rparr>)"

definition addCookie :: "('y, 'o, 'u) http_client \<Rightarrow> bytes \<Rightarrow> bytes \<Rightarrow> ('y, 'o, 'u) http_client" where
  "addCookie c cookieName cookieVal = c\<lparr>m_clientCookies := client_addCookieVal (m_clientCookies c) cookieName cookieVal\<rparr>"

section \<open>Sending the request\<close>

definition client_headers :: "bytes option \<Rightarrow> (bytes \<Rightarrow> bytes) \<Rightarrow> nat \<Rightarrow> ('y, 'o, 'u) http_client \<Rightarrow> mime_header result" where
  "client_headers rand bio_encode strsize c =
     (let r = clientRequest c; replace = (\<lambda>name v h. header_replace rand h name v); andThen = (\<lambda>h k. case h of Inl e \<Rightarrow> Inl e | Inr h \<Rightarrow> k h);
          h1 = replace ''Content-Length'' (dec strsize) (header_remove (sh_header (req_headers r)) ''Connetion'');
          h2 = andThen h1 (client_putOnHeaders rand (m_clientCookies c));
          h3 = (if ba_isEnabled (basicAuth r)
                then andThen h2 (replace ''Authentication''
                  (''Basic '' @ encodeToBase64 bio_encode (ba_username (basicAuth r) @ '':'' @ ba_password (basicAuth r)) False)) else h2);
          h4 = andThen h3 (replace ''User-Agent'' (userAgent r))
      in if virtualHost r \<noteq> []
         then andThen h4 (replace ''Host'' (virtualHost r @ (if virtualPort r = 80 then [] else '':'' @ dec (virtualPort r)))) else h4)"

definition streamClientHeaders :: "bytes option \<Rightarrow> (bytes \<Rightarrow> bytes) \<Rightarrow> ('o, 'u) upstream_env \<Rightarrow> ('y, 'o, 'u) http_client \<Rightarrow> (('y, 'o, 'u) http_client \<times> bool) result" where
  "streamClientHeaders rand bio_encode ue c =
     (let r = clientRequest c; strsize = ue_size ue (m_outStream (req_content r))
      in if strsize = size_max then Inr (c, False)
         else
           case client_headers rand bio_encode strsize c of
             Inl e \<Rightarrow> Inl e
           | Inr h \<Rightarrow>
               (case header_streamToUpstream (ue_io ue) h (m_upStream c) of
                  Inl e \<Rightarrow> Inl e
                | Inr (up, ok) \<Rightarrow> Inr (c\<lparr>clientRequest := r\<lparr>req_headers := (req_headers r)\<lparr>sh_header := h\<rparr>\<rparr>, m_upStream := up\<rparr>, ok)))"

definition client_initProtocol :: "bytes option \<Rightarrow> (bytes \<Rightarrow> bytes) \<Rightarrow> 'y chunks_vt \<Rightarrow> 'o streamable \<Rightarrow> ('o, 'u) upstream_env \<Rightarrow>
    ('y, 'o, 'u) http_client \<Rightarrow> (('y, 'o, 'u) http_client \<times> bool) result" where
  "client_initProtocol rand bio_encode cvt oio ue c =
     (case request_streamToUpstream cvt (ue_io ue) (requestLine (clientRequest c)) (m_upStream c) of
        Inl e \<Rightarrow> Inl e
      | Inr (up, False) \<Rightarrow> Inr (c\<lparr>m_upStream := up\<rparr>, False)
      | Inr (up, True) \<Rightarrow>
          (case streamClientHeaders rand bio_encode ue (c\<lparr>m_upStream := up\<rparr>) of
             Inl e \<Rightarrow> Inl e
           | Inr (c1, False) \<Rightarrow> Inr (c1, False)
           | Inr (c1, True) \<Rightarrow>
               (case content_streamToUpstream oio (ue_io ue) (ue_streamTo ue) (ue_streamToChunked ue) (req_content (clientRequest c1)) (m_upStream c1) of
                  Inl e \<Rightarrow> Inl e | Inr (up, ok) \<Rightarrow> Inr (c1\<lparr>m_upStream := up\<rparr>, ok))))"

section \<open>Reading the answer\<close>

definition parseHeaders2ServerCookies :: "(bytes \<Rightarrow> int) \<Rightarrow> ('y, 'o) http_response \<Rightarrow> ('y, 'o) http_response" where
  "parseHeaders2ServerCookies date_fromString rs =
     rs\<lparr>rsp_cookies := foldl (\<lambda>m opt. fst (server_parseCookie date_fromString m (m_origValue opt))) (rsp_cookies rs)
       (getOptionsByName (sh_header (rsp_headers rs)) [])\<rparr>"

definition parseHeaders2TransmitionMode :: "('y, 'o) http_response \<Rightarrow> ('y, 'o) http_response \<times> http_part option" where
  "parseHeaders2TransmitionMode rs =
     (let h = sh_header (rsp_headers rs); c = setTransmitionMode (rsp_content rs) TRANSMIT_MODE_CONNECTION_CLOSE
      in if header_exist h ''Content-Length'' then
           let len = getOptionAsUINT64 h ''Content-Length''; c1 = setTransmitionMode c TRANSMIT_MODE_CONTENT_LENGTH
           in if len = 0 then (rs\<lparr>rsp_content := c1\<rparr>, None)
              else (case setContentLenSize c1 len of
                      (c2, ok) \<Rightarrow> (rs\<lparr>rsp_content := c2\<rparr>, if ok then Some ResponseContent else None))
         else if icontains (getOptionValueStringByName h ''Transfer-Encoding'') ''CHUNKED'' then
           (rs\<lparr>rsp_content := setTransmitionMode c TRANSMIT_MODE_CHUNKS\<rparr>, Some ResponseContent)
         else (rs\<lparr>rsp_content := c\<rparr>, Some ResponseContent))"

definition parse_security :: "mime_header \<Rightarrow> security \<Rightarrow> security" where
  "parse_security h sec =
     sec\<lparr>sec_XFrameOpts := fst (xframe_fromString (getOptionRawStringByName h ''X-Frame-Options'')),
         sec_XSSProtection := xss_fromString (getOptionRawStringByName h ''X-XSS-Protection''),
         sec_HSTS := hsts_fromString (getOptionRawStringByName h ''Strict-Transport-Security''),
         disableNoSniffContentType := iequals (getOptionRawStringByName h ''X-Content-Type-Options'') ''nosniff''\<rparr>"

text \<open>\<open>realm\<close> is the group that the search for \<^verbatim>\<open>Basic Realm="..."\<close> finds last, if any.\<close>

definition client_changeToNextParser :: "(bytes \<Rightarrow> int) \<Rightarrow> (bytes \<Rightarrow> bytes option) \<Rightarrow> ('y, 'o, 'u) http_client \<Rightarrow> (('y, 'o, 'u) http_client \<times> bool) result" where
  "client_changeToNextParser date_fromString realm c =
     (if m_currentParser c = Some ResponseStatus then Inr (c\<lparr>m_currentParser := Some ResponseHeaders\<rparr>, True)
      else if m_currentParser c = Some ResponseHeaders then
        let rs = serverResponse c; h = sh_header (rsp_headers rs);
            rs1 = rs\<lparr>cacheControl := cache_control_fromString (getOptionRawStringByName h ''Cache-Control''),
              rsp_security := parse_security h (rsp_security rs)\<rparr>;
            fullWWWAuthenticate = getOptionRawStringByName h ''WWW-Authenticate'';
            rs2 = (if fullWWWAuthenticate \<noteq> []
                   then (case realm fullWWWAuthenticate of Some t \<Rightarrow> rs1\<lparr>sWWWAuthenticateRealm := t\<rparr> | None \<Rightarrow> rs1) else rs1);
            (rs3, next) = parseHeaders2TransmitionMode (parseHeaders2ServerCookies date_fromString rs2)
        in Inr (c\<lparr>serverResponse := rs3, m_serverContentType := getOptionRawStringByName h ''Content-Type'', m_currentParser := next\<rparr>, True)
      else Inr (c\<lparr>m_currentParser := None\<rparr>, True))"

abbreviation client_vt :: "('y, 'o) http_env \<Rightarrow> (bytes \<Rightarrow> int) \<Rightarrow> (bytes \<Rightarrow> bytes option) \<Rightarrow> ('y, 'o, 'u) http_client parser_vt" where
  "client_vt env date_fromString realm \<equiv> http_vt env (client_changeToNextParser date_fromString realm)"


section \<open>The client as a protocol\<close>

interpretation client_hdr: header_protocol "client_vt env d r" "\<lambda>c. rsp_headers (serverResponse c)"
  "\<lambda>c s. c\<lparr>serverResponse := (serverResponse c)\<lparr>rsp_headers := s\<rparr>\<rparr>" "\<lambda>c. m_currentParser c = Some ResponseHeaders" env
  for env d r
  by unfold_locales (simp_all add: http_vt_def part_write_def part_setStatus_def part_getStatus_def Let_def)

interpretation client_body: chunked_reception "b_streamable (chunks_vt mvt fs)" chunks_content chunks_roomy "client_vt (into_chunks env mvt fs) d r"
  "\<lambda>c. rsp_content (serverResponse c)" "\<lambda>c s. c\<lparr>serverResponse := (serverResponse c)\<lparr>rsp_content := s\<rparr>\<rparr>"
  "\<lambda>c. m_currentParser c = Some ResponseContent" "he_mvt env" "he_fs env" "he_heap env"
  "\<lambda>c. (rsp_status (serverResponse c), rsp_headers (serverResponse c))"
  for mvt fs env d r
  by unfold_locales
    (auto simp: http_vt_def part_write_def part_setStatus_def part_getStatus_def client_changeToNextParser_def Let_def split: sum.splits)

section \<open>An answer in chunks\<close>

text \<open>A client that has sent its request and has not received anything yet.\<close>

definition client_waiting :: "('y, 'o, 'u) http_client \<Rightarrow> bool" where
  "client_waiting c \<longleftrightarrow> m_currentParser c = Some ResponseStatus \<and> awaits_line 128 (rsp_status (serverResponse c))
     \<and> awaits_line 2048 (rsp_headers (serverResponse c)) \<and> content_idle (rsp_content (serverResponse c))"

lemma status_round:
  assumes "client_waiting (m_impl p)" and "CHR 0x0D \<notin> set sl" and "length sl \<le> 126" and "split_compress (any_of blanks) sl = version # code # message" and "rest \<noteq> []"
  obtains s where "parse_round (client_vt env d r) p (sl @ crlf @ rest) =
      Inr (RoundRest (p\<lparr>m_impl := (m_impl p)\<lparr>serverResponse := (serverResponse (m_impl p))\<lparr>rsp_status := s\<rparr>, m_currentParser := Some ResponseHeaders\<rparr>\<rparr>) (length sl + 2))"
    and "m_statusCode s = uint16 (strtoul code)" and "m_statusMessage s = status_words message"
proof -
  note w = assms(1) [unfolded client_waiting_def]
  obtain s where "writeIntoParser (he_cvt env) (he_heap env) (status_parse (he_cvt env)) (setParseStatus (rsp_status (serverResponse (m_impl p))) PARSE_GET_MORE_DATA) (sl @ crlf @ rest)
        = Inr (s, Some (length sl + 2))" "m_statusCode s = uint16 (strtoul code)" "m_statusMessage s = status_words message" "m_parseStatus s = PARSE_GOTO_NEXT_SUBPARSER"
    using status_line_taken [of 128 "setParseStatus (rsp_status (serverResponse (m_impl p))) PARSE_GET_MORE_DATA" sl version code message "he_mvt env" "he_fs env" "he_heap env" rest]
      w assms(2-4) by auto
  then show thesis
    using that [of s] w assms(5)
    by (simp add: parse_round_def http_vt_def part_write_def part_setStatus_def part_getStatus_def client_changeToNextParser_def Let_def)
qed

text \<open>The headers of a chunked answer lead to the body, with the content waiting for the first chunk.\<close>

definition chunked_answer :: "mime_header \<Rightarrow> bool" where
  "chunked_answer h \<longleftrightarrow> \<not> header_exist h ''Content-Length'' \<and> icontains (getOptionValueStringByName h ''Transfer-Encoding'') ''CHUNKED''"

lemma content_idle_chunks:
  assumes "content_idle s"
  shows "awaits_chunk 64 (setTransmitionMode (setTransmitionMode s TRANSMIT_MODE_CONNECTION_CLOSE) TRANSMIT_MODE_CHUNKS)"
proof -
  obtain n where "empty_buffer n (m_unparsedBuffer s)" using assms by (auto simp: content_idle_def)
  then have "empty_buffer 64 (b_setMaxSize (b_setMaxSize (b_setMaxSize (m_unparsedBuffer s) size_max) (m_securityMaxPostDataSize s)) 64)"
    by (intro empty_retarget [OF empty_retarget [OF empty_retarget]])
  then show ?thesis
    by (simp add: awaits_chunk_def setTransmitionMode_def setParseMode_def setParseDelimiter_def setParseDataTargetSize_def Let_def)
qed

lemma setTransmitionMode_keeps [simp]:
  "m_outStream (setTransmitionMode s m) = m_outStream s" "m_securityMaxHttpChunkSize (setTransmitionMode s m) = m_securityMaxHttpChunkSize s"
  by (cases m; simp add: setTransmitionMode_def setParseMode_def setParseDelimiter_def setParseDataTargetSize_def Let_def)+

lemma chunked_next:
  assumes "m_currentParser c = Some ResponseHeaders" and "chunked_answer (sh_header (rsp_headers (serverResponse c)))"
    and "content_idle (rsp_content (serverResponse c))"
  shows "\<exists>c'. client_changeToNextParser d r c = Inr (c', True) \<and> m_currentParser c' = Some ResponseContent
    \<and> rsp_status (serverResponse c') = rsp_status (serverResponse c) \<and> sh_header (rsp_headers (serverResponse c')) = sh_header (rsp_headers (serverResponse c))
    \<and> awaits_chunk 64 (rsp_content (serverResponse c')) \<and> m_outStream (rsp_content (serverResponse c')) = m_outStream (rsp_content (serverResponse c))
    \<and> m_securityMaxHttpChunkSize (rsp_content (serverResponse c')) = m_securityMaxHttpChunkSize (rsp_content (serverResponse c))"
  using assms content_idle_chunks [OF assms(3)]
  by (simp add: client_changeToNextParser_def chunked_answer_def parseHeaders2TransmitionMode_def parseHeaders2ServerCookies_def Let_def split: option.splits)


lemma chunk_frames_length: "length (chunk_encode ps) = length (chunk_frames ps) + 5"
  by (simp add: chunk_encode_def)

text \<open>The client behind the head of an answer in chunks: what a status line, header lines and the empty line leave, whatever follows.\<close>

definition head_read :: "nat \<Rightarrow> bytes list \<Rightarrow> mime_header \<Rightarrow> ('y, 'o) http_response \<Rightarrow> ('y, 'o, 'u) http_client \<Rightarrow> bool" where
  "head_read code message h rs c \<longleftrightarrow>
     m_currentParser c = Some ResponseContent \<and> m_statusCode (rsp_status (serverResponse c)) = code
     \<and> m_statusMessage (rsp_status (serverResponse c)) = status_words message \<and> sh_header (rsp_headers (serverResponse c)) = h
     \<and> awaits_chunk 64 (rsp_content (serverResponse c)) \<and> m_outStream (rsp_content (serverResponse c)) = m_outStream (rsp_content rs)
     \<and> m_securityMaxHttpChunkSize (rsp_content (serverResponse c)) = m_securityMaxHttpChunkSize (rsp_content rs)"

lemma client_head_parsed:
  fixes p :: "('y, 'o, 'u) http_client parser"
  assumes "client_waiting (m_impl p)" and "CHR 0x0D \<notin> set sl" and "length sl \<le> 126" and "split_compress (any_of blanks) sl = version # code # message"
    and "\<forall>l\<in>set ls. l \<noteq> [] \<and> CHR 0x0D \<notin> set l \<and> length l + 2 \<le> 2048"
    and "read_lines (he_rand env) ls (sh_header (rsp_headers (serverResponse (m_impl p)))) = Inr h" and "chunked_answer h"
    and "2 + length ls \<le> m_maxTTL p" and "body \<noteq> []"
  obtains c where "head_read (uint16 (strtoul code)) message h (serverResponse (m_impl p)) c"
    and "\<And>p' m. parseData (client_vt env d r) (p\<lparr>m_impl := c\<rparr>) body (2 + length ls) = Inr (p', Some m) \<Longrightarrow>
      m + length (sl @ crlf @ concat (map (\<lambda>l. l @ crlf) ls) @ crlf) \<le> size_max \<Longrightarrow>
      parser_write (client_vt env d r) p (sl @ crlf @ concat (map (\<lambda>l. l @ crlf) ls) @ crlf @ body)
        = Inr (p', Some (m + length (sl @ crlf @ concat (map (\<lambda>l. l @ crlf) ls) @ crlf)))"
proof -
  let ?vt = "client_vt env d r" and ?rs = "serverResponse (m_impl p)" and ?lines = "concat (map (\<lambda>l. l @ crlf) ls)"
  note w = assms(1) [unfolded client_waiting_def]
  obtain s1 where s1: "parse_round ?vt p (sl @ crlf @ ?lines @ crlf @ body) =
      Inr (RoundRest (p\<lparr>m_impl := (m_impl p)\<lparr>serverResponse := ?rs\<lparr>rsp_status := s1\<rparr>, m_currentParser := Some ResponseHeaders\<rparr>\<rparr>) (length sl + 2))"
      "m_statusCode s1 = uint16 (strtoul code)" "m_statusMessage s1 = status_words message"
    using status_round [OF assms(1-4), of "?lines @ crlf @ body" env d r] assms(9) by auto
  let ?p1 = "p\<lparr>m_impl := (m_impl p)\<lparr>serverResponse := ?rs\<lparr>rsp_status := s1\<rparr>, m_currentParser := Some ResponseHeaders\<rparr>\<rparr>"
  have hb: "crlf @ body \<noteq> []" using assms(9) by simp
  obtain s2 where s2: "awaits_line 2048 s2" "sh_header s2 = h"
      "\<And>p2 m. parseData ?vt (?p1\<lparr>m_impl := (m_impl ?p1)\<lparr>serverResponse := (serverResponse (m_impl ?p1))\<lparr>rsp_headers := s2\<rparr>\<rparr>\<rparr>) (crlf @ body) (1 + length ls) = Inr (p2, Some m) \<Longrightarrow>
        m + length ?lines \<le> size_max \<Longrightarrow> parseData ?vt ?p1 (?lines @ crlf @ body) 1 = Inr (p2, Some (m + length ?lines))"
    using client_hdr.lines_parsed [of ?p1 2048 ls env h 1 "crlf @ body" d r] w assms(5,6,8) hb by auto
  let ?p2 = "?p1\<lparr>m_impl := (m_impl ?p1)\<lparr>serverResponse := (serverResponse (m_impl ?p1))\<lparr>rsp_headers := s2\<rparr>\<rparr>\<rparr>"
  obtain c3 where c3: "parse_round ?vt ?p2 (crlf @ body) = Inr (RoundRest (?p2\<lparr>m_impl := c3\<rparr>) 2)" "head_read (uint16 (strtoul code)) message h ?rs c3"
  proof (rule client_hdr.end_of_headers [of ?p2 2048 env d r "head_read (uint16 (strtoul code)) message h ?rs" body])
    fix s :: "'y sub_header"
    assume "sh_header s = sh_header (rsp_headers (serverResponse (m_impl ?p2)))"
    then show "\<exists>i. pv_changeToNextParser ?vt ((m_impl ?p2)\<lparr>serverResponse := (serverResponse (m_impl ?p2))\<lparr>rsp_headers := s\<rparr>\<rparr>) = Inr (i, True)
        \<and> pv_current ?vt i \<and> head_read (uint16 (strtoul code)) message h ?rs i"
      using chunked_next [of "(m_impl ?p2)\<lparr>serverResponse := (serverResponse (m_impl ?p2))\<lparr>rsp_headers := s\<rparr>\<rparr>" d r] w assms(7) s2(2) s1(2,3)
      by (auto simp: http_vt_def head_read_def)
  qed (use s2(1) assms(9) in simp_all)
  have "parser_write ?vt p (sl @ crlf @ ?lines @ crlf @ body) = Inr (p', Some (m + length (sl @ crlf @ ?lines @ crlf)))"
    if b: "parseData ?vt (p\<lparr>m_impl := c3\<rparr>) body (2 + length ls) = Inr (p', Some m)" "m + length (sl @ crlf @ ?lines @ crlf) \<le> size_max" for p' m
  proof -
    have "parseData ?vt ?p2 (crlf @ body) (1 + length ls) = Inr (p', Some (m + 2))"
      using parseData_rest [OF c3(1), of "1 + length ls" p' m] b assms(8,9) by simp
    then have "parseData ?vt ?p1 (?lines @ crlf @ body) 1 = Inr (p', Some (m + 2 + length ?lines))" using s2(3) [of p' "m + 2"] b(2) by simp
    then have "parseData ?vt p (sl @ crlf @ ?lines @ crlf @ body) 0 = Inr (p', Some (m + 2 + length ?lines + (length sl + 2)))"
      using parseData_rest [OF s1(1), of 0 p' "m + 2 + length ?lines"] b(2) by simp
    then show ?thesis by (simp add: parser_write_def ac_simps)
  qed
  then show thesis using that c3(2) by blast
qed

lemma client_reads_chunks:
  fixes p :: "('y, 'b chunks, 'u) http_client parser"
  assumes "head_read code message h rs (m_impl p)" and "[] \<notin> set ps" and "\<forall>c\<in>set ps. length c \<le> 262144 \<and> length c \<le> m_securityMaxHttpChunkSize (rsp_content rs)"
    and "chunks_roomy (m_outStream (rsp_content rs)) (length (concat ps))" and "ttl + 3 * length ps \<le> m_maxTTL p" and "length (chunk_encode ps) \<le> size_max"
  obtains p' where "parseData (client_vt (into_chunks env mvt fs) d r) p (chunk_encode ps) ttl = Inr (p', Some (length (chunk_frames ps) + 3))"
    and "m_currentParser (m_impl p') = None" and "finish (p_writeStatus p')" and "m_statusCode (rsp_status (serverResponse (m_impl p'))) = code"
    and "m_statusMessage (rsp_status (serverResponse (m_impl p'))) = status_words message" and "sh_header (rsp_headers (serverResponse (m_impl p'))) = h"
    and "chunks_content (m_outStream (rsp_content (serverResponse (m_impl p')))) = chunks_content (m_outStream (rsp_content rs)) @ concat ps"
  using client_body.chunks_parsed [where p = p and cap = 64 and n = "length (concat ps)" and ps = ps and ttl = ttl
      and rest = crlf and env = env and mvt = mvt and fs = fs and d = d and r = r] assms that
  by (auto simp: head_read_def http_vt_def chunk_encode_def)

text \<open>
  C9. An answer in chunks, from the first byte to the last. A client that waits for its answer and gets, in one write, a status line, header
  lines (without \<^verbatim>\<open>Content-Length\<close> and with the transfer encoding \<^verbatim>\<open>chunked\<close>), an empty line and the chunks \<open>ps\<close> has then the status code and
  message of the line, the headers that reading the lines one by one gives, and the concatenation of the chunks in its body; it has finished and
  has taken all bytes but the last line end. The lines fit the limits of the sub-parsers, and their number and that of the chunks the limit of rounds.
\<close>

theorem client_receives_chunked:
  assumes "client_waiting (m_impl p)" and "CHR 0x0D \<notin> set sl" and "length sl \<le> 126" and "split_compress (any_of blanks) sl = version # code # message"
    and "\<forall>l\<in>set ls. l \<noteq> [] \<and> CHR 0x0D \<notin> set l \<and> length l + 2 \<le> 2048"
    and "read_lines (he_rand env) ls (sh_header (rsp_headers (serverResponse (m_impl p)))) = Inr h" and "chunked_answer h"
    and "[] \<notin> set ps" and "\<forall>c\<in>set ps. length c \<le> 262144 \<and> length c \<le> m_securityMaxHttpChunkSize (rsp_content (serverResponse (m_impl p)))"
    and "chunks_roomy (m_outStream (rsp_content (serverResponse (m_impl p)))) (length (concat ps))" and "2 + length ls + 3 * length ps \<le> m_maxTTL p"
    and "length (sl @ crlf @ concat (map (\<lambda>l. l @ crlf) ls) @ crlf @ chunk_encode ps) \<le> size_max"
  shows "\<exists>p'. parser_write (client_vt (into_chunks env mvt fs) d r) p (sl @ crlf @ concat (map (\<lambda>l. l @ crlf) ls) @ crlf @ chunk_encode ps)
        = Inr (p', Some (length (sl @ crlf @ concat (map (\<lambda>l. l @ crlf) ls) @ crlf @ chunk_encode ps) - 2))
    \<and> m_currentParser (m_impl p') = None \<and> finish (p_writeStatus p')
    \<and> m_statusCode (rsp_status (serverResponse (m_impl p'))) = uint16 (strtoul code)
    \<and> m_statusMessage (rsp_status (serverResponse (m_impl p'))) = status_words message
    \<and> sh_header (rsp_headers (serverResponse (m_impl p'))) = h
    \<and> chunks_content (m_outStream (rsp_content (serverResponse (m_impl p')))) = chunks_content (m_outStream (rsp_content (serverResponse (m_impl p)))) @ concat ps"
proof -
  let ?vt = "client_vt (into_chunks env mvt fs) d r" and ?head = "sl @ crlf @ concat (map (\<lambda>l. l @ crlf) ls) @ crlf"
  obtain c where c: "head_read (uint16 (strtoul code)) message h (serverResponse (m_impl p)) c"
      "\<And>p' m. parseData ?vt (p\<lparr>m_impl := c\<rparr>) (chunk_encode ps) (2 + length ls) = Inr (p', Some m) \<Longrightarrow> m + length ?head \<le> size_max \<Longrightarrow>
        parser_write ?vt p (sl @ crlf @ concat (map (\<lambda>l. l @ crlf) ls) @ crlf @ chunk_encode ps) = Inr (p', Some (m + length ?head))"
    using client_head_parsed [OF assms(1-5), of "into_chunks env mvt fs" h "chunk_encode ps" d r] assms(6,7,11) by (auto simp: chunk_encode_def)
  have c1: "head_read (uint16 (strtoul code)) message h (serverResponse (m_impl p)) (m_impl (p\<lparr>m_impl := c\<rparr>))" using c(1) by simp
  have len: "length (chunk_frames ps) + 5 + length ?head \<le> size_max" using assms(12) by (simp add: chunk_encode_def)
  obtain p' where p': "parseData ?vt (p\<lparr>m_impl := c\<rparr>) (chunk_encode ps) (2 + length ls) = Inr (p', Some (length (chunk_frames ps) + 3))"
      "m_currentParser (m_impl p') = None" "finish (p_writeStatus p')" "m_statusCode (rsp_status (serverResponse (m_impl p'))) = uint16 (strtoul code)"
      "m_statusMessage (rsp_status (serverResponse (m_impl p'))) = status_words message" "sh_header (rsp_headers (serverResponse (m_impl p'))) = h"
      "chunks_content (m_outStream (rsp_content (serverResponse (m_impl p')))) = chunks_content (m_outStream (rsp_content (serverResponse (m_impl p)))) @ concat ps"
    using client_reads_chunks [OF c1 assms(8-10), where ttl = "2 + length ls" and env = env and mvt = mvt and fs = fs and d = d and r = r] assms(11) len by (auto simp: chunk_frames_length)
  show ?thesis using c(2) [OF p'(1)] p'(2-7) len by (intro exI [of _ p']) (simp add: chunk_frames_length ac_simps)
qed


lemma http_client_new_waiting:
  assumes "http_client_new env up = Inr c"
  shows "client_waiting c"
    and "header_replace (he_rand env) mime_header_new ''Server'' (''Mantids30::HTTP/'' @ dec 0 @ ''.'' @ dec 4 @ '' (+https://github.com/unmanarc/libMantids30)'')
      = Inr (sh_header (rsp_headers (serverResponse c)))"
    and "m_outStream (rsp_content (serverResponse c)) = he_mk env CONTENT_TYPE_BIN" and "m_securityMaxHttpChunkSize (rsp_content (serverResponse c)) = 16777216"
proof -
  let ?rs = "(http_response_new (he_cvt env) (he_mk env))\<lparr>rsp_status := initElemParser (status_new (he_cvt env)) True,
      rsp_headers := initElemParser (sub_header_new (he_cvt env)) True, rsp_content := initElemParser (content_new (he_cvt env) (he_mk env)) True\<rparr>"
  have "sh_header (rsp_headers ?rs) = mime_header_new" by (simp add: sub_header_awaits(2))
  then obtain h where h: "header_replace (he_rand env) mime_header_new ''Server'' (''Mantids30::HTTP/'' @ dec 0 @ ''.'' @ dec 4 @ '' (+https://github.com/unmanarc/libMantids30)'') = Inr h"
      "serverResponse c = ?rs\<lparr>rsp_headers := (rsp_headers ?rs)\<lparr>sh_header := h\<rparr>\<rparr>" "m_currentParser c = Some ResponseStatus"
    using assms
    by (auto simp: http_client_new_def http_base_new_def http_base.defs setInternalProductVersion_def rsp_header_replace_def Let_def http_response_new_def split: sum.splits)
  show "header_replace (he_rand env) mime_header_new ''Server'' (''Mantids30::HTTP/'' @ dec 0 @ ''.'' @ dec 4 @ '' (+https://github.com/unmanarc/libMantids30)'')
      = Inr (sh_header (rsp_headers (serverResponse c)))" using h by simp
  have "awaits_line 2048 ((initElemParser (sub_header_new (he_cvt env)) True)\<lparr>sh_header := h\<rparr>)"
    using sub_header_awaits(1) [of "he_cvt env"] by (simp add: awaits_line_def initElemParser_def)
  moreover have "content_idle (initElemParser (content_new (he_cvt env) (he_mk env)) True)"
    using content_new_idle [of "he_cvt env" "he_mk env"] by (simp add: content_idle_def initElemParser_def)
  ultimately show "client_waiting c" using h(2,3) status_awaits by (simp add: client_waiting_def)
  show "m_outStream (rsp_content (serverResponse c)) = he_mk env CONTENT_TYPE_BIN" "m_securityMaxHttpChunkSize (rsp_content (serverResponse c)) = 16777216"
    using h(2) by (simp_all add: initElemParser_def content_new_def subparser.defs)
qed


lemma client_new_exists: "\<exists>c. http_client_new example_env up = Inr c"
  using base_new_exists [of True up] by (auto simp: http_client_new_def Let_def)

theorem client_receives_chunked_witness:
  "\<exists>c p'. http_client_new example_env () = Inr c
     \<and> parser_write (client_vt example_env (\<lambda>_. 0) (\<lambda>_. None)) (parser_new c)
        (''HTTP/1.1 200 OK'' @ crlf @ (''Transfer-Encoding: chunked'' @ crlf) @ crlf @ chunk_encode [''ab'', ''c'']) = Inr (p', Some 63)
     \<and> m_statusCode (rsp_status (serverResponse (m_impl p'))) = 200 \<and> chunks_content (m_outStream (rsp_content (serverResponse (m_impl p')))) = ''abc''"
proof -
  obtain c :: "(b_mem_fields, b_mem_fields chunks, unit) http_client" where c: "http_client_new example_env () = Inr c"
    using client_new_exists [of "()"] by (rule exE)
  note w = http_client_new_waiting [OF c]
  let ?h0 = "sh_header (rsp_headers (serverResponse c))"
  note s = server_header_new [OF w(2) [unfolded example_env_simps]]
  have tok: "header_token ''Transfer-Encoding''" "header_token ''chunked''" by code_simp+
  obtain h opt where h: "header_parse (Some ''0123456789abcdef'') ?h0 (''Transfer-Encoding'' @ '': '' @ ''chunked'') = Inr (h, False)" "m_value opt = ''chunked''"
      "\<And>n'. getOptionsByName h n' = getOptionsByName ?h0 n' @ (if to_upper_copy n' = to_upper_copy ''Transfer-Encoding'' then [opt] else [])"
    using header_line_token [OF s(1,2) tok] by metis
  have up: "to_upper_copy ''Transfer-Encoding'' \<noteq> ''SERVER''" "to_upper_copy ''Content-Length'' \<noteq> ''SERVER''"
    "to_upper_copy ''Content-Length'' \<noteq> to_upper_copy ''Transfer-Encoding''" "icontains ''chunked'' ''CHUNKED''" by code_simp+
  have ans: "chunked_answer h" using h(2,3) s(3) up by (simp add: chunked_answer_def exist_conv getValue_conv)
  have split: "split_compress (any_of blanks) ''HTTP/1.1 200 OK'' = [''HTTP/1.1'', ''200'', ''OK'']" by code_simp
  have "dec 200 = ''200''" by (simp add: dec.simps digit_def) code_simp
  then have code: "uint16 (strtoul ''200'') = 200" using strtoul_dec [of 200] by (simp add: uint16_def size_max_def)
  have lines: "read_lines (he_rand example_env) [''Transfer-Encoding: chunked''] ?h0 = Inr h" using h(1) by simp
  have room: "chunks_roomy (chunks_new :: b_mem_fields chunks) 3" by (rule chunks_new_roomy) simp
  have enc: "chunk_encode [''ab'', ''c''] = ''2'' @ crlf @ ''ab'' @ crlf @ ''1'' @ crlf @ ''c'' @ crlf @ ''0'' @ crlf @ crlf" by code_simp
  have len: "length (''HTTP/1.1 200 OK'' @ crlf @ concat (map (\<lambda>l. l @ crlf) [''Transfer-Encoding: chunked'']) @ crlf @ chunk_encode [''ab'', ''c'']) = 65"
    unfolding enc by (simp add: crlf_def)
  have cc: "concat (map (\<lambda>l. l @ crlf) [''Transfer-Encoding: chunked'']) = ''Transfer-Encoding: chunked'' @ crlf" "concat [''ab'', ''c''] = ''abc''" by simp_all
  have e: "chunks_content (chunks_new :: b_mem_fields chunks) = []" by (rule chunks_new_inv(2))
  have p: "m_impl (parser_new c) = c" "m_maxTTL (parser_new c) = 4096" by (simp_all add: parser_new_def)
  have a: "client_waiting (m_impl (parser_new c))" "CHR 0x0D \<notin> set ''HTTP/1.1 200 OK''" "length ''HTTP/1.1 200 OK'' \<le> 126"
    "\<forall>l\<in>set [''Transfer-Encoding: chunked'']. l \<noteq> [] \<and> CHR 0x0D \<notin> set l \<and> length l + 2 \<le> 2048"
    "[] \<notin> set [''ab'', ''c'']" "2 + length [''Transfer-Encoding: chunked''] + 3 * length [''ab'', ''c''] \<le> m_maxTTL (parser_new c)"
    "\<forall>q\<in>set [''ab'', ''c'']. length q \<le> 262144 \<and> length q \<le> m_securityMaxHttpChunkSize (rsp_content (serverResponse (m_impl (parser_new c))))"
    unfolding p using w(1,4) by simp_all
  have b: "read_lines (he_rand example_env) [''Transfer-Encoding: chunked''] (sh_header (rsp_headers (serverResponse (m_impl (parser_new c))))) = Inr h"
    unfolding p by (rule lines)
  have three: "length (concat [''ab'', ''c'']) = 3" by simp
  have r: "chunks_roomy (m_outStream (rsp_content (serverResponse (m_impl (parser_new c))))) (length (concat [''ab'', ''c'']))"
    unfolding p three w(3) example_env_simps using room .
  have m: "length (''HTTP/1.1 200 OK'' @ crlf @ concat (map (\<lambda>l. l @ crlf) [''Transfer-Encoding: chunked'']) @ crlf @ chunk_encode [''ab'', ''c'']) \<le> size_max"
    unfolding len by (simp add: size_max_def)
  have n: "(65 :: nat) - 2 = 63" by simp
  from client_receives_chunked [OF a(1-3) split a(4) b ans a(5,7) r a(6) m, of mem_vt "\<lambda>_. None" "\<lambda>_. 0" "\<lambda>_. None"]
  obtain p' where "parser_write (client_vt example_env (\<lambda>_. 0) (\<lambda>_. None)) (parser_new c)
        (''HTTP/1.1 200 OK'' @ crlf @ (''Transfer-Encoding: chunked'' @ crlf) @ crlf @ chunk_encode [''ab'', ''c'']) = Inr (p', Some 63)"
      "m_statusCode (rsp_status (serverResponse (m_impl p'))) = 200" "chunks_content (m_outStream (rsp_content (serverResponse (m_impl p')))) = ''abc''"
    unfolding cc len [unfolded cc] code n p w(3) example_env_simps e append_Nil by blast
  then show ?thesis using c by blast
qed


text \<open>
  The name of the server is not what it sent. The constructor of the base puts the library's own name into the response headers on the client
  side too, so that a \<^verbatim>\<open>Server\<close> line of the answer is filed behind it and the client reads its own name.
\<close>

theorem client_reads_own_server_name:
  assumes "http_client_new env up = Inr c" and "he_rand env = Some buffer" and "header_token v"
  shows "\<exists>h. header_parse (he_rand env) (sh_header (rsp_headers (serverResponse c))) (''Server'' @ '': '' @ v) = Inr (h, False)
    \<and> getOptionRawStringByName h ''Server'' = ''Mantids30::HTTP/'' @ dec 0 @ ''.'' @ dec 4 @ '' (+https://github.com/unmanarc/libMantids30)''"
proof -
  let ?v = "''Mantids30::HTTP/'' @ dec 0 @ ''.'' @ dec 4 @ '' (+https://github.com/unmanarc/libMantids30)''"
  let ?h0 = "sh_header (rsp_headers (serverResponse c))"
  note s = server_header_new [OF http_client_new_waiting(2) [OF assms(1), unfolded assms(2)]]
  have tok: "header_token ''Server''" by code_simp
  obtain h opt where h: "header_parse (Some buffer) ?h0 (''Server'' @ '': '' @ v) = Inr (h, False)"
      "\<And>n'. getOptionsByName h n' = getOptionsByName ?h0 n' @ (if to_upper_copy n' = to_upper_copy ''Server'' then [opt] else [])"
    using header_line_token [OF s(1,2) tok assms(3)] by metis
  obtain o' os where "getOptionsByName ?h0 ''Server'' = o' # os" "m_origValue o' = ?v" using s(4) by blast
  then show ?thesis using h assms(2) by (auto simp: getRaw_conv)
qed

theorem client_reads_own_server_name_witness:
  "\<exists>c h. http_client_new example_env () = Inr c \<and> header_parse (Some ''0123456789abcdef'') (sh_header (rsp_headers (serverResponse c))) (''Server'' @ '': '' @ ''nginx'') = Inr (h, False)
     \<and> getOptionRawStringByName h ''Server'' \<noteq> ''nginx''"
proof -
  obtain c :: "(b_mem_fields, b_mem_fields chunks, unit) http_client" where c: "http_client_new example_env () = Inr c"
    using client_new_exists [of "()"] by (rule exE)
  have "header_token ''nginx''" by code_simp
  from client_reads_own_server_name [OF c example_env_simps(1) this] show ?thesis using c by auto
qed

end
