(* ===== verification/HTTPServer.thy ===== *)
theory HTTPServer
  imports HTTPBase
begin

text \<open>
  The server side of a connection (\<^verbatim>\<open>src/Mantids30/Protocol_HTTP/httpv1_server.cpp\<close>): the state machine that reads a request, calls the
  handlers of the derived class and sends the answer, and the mapping of request paths to files. The virtual handlers, the
  file system, dates and the Base64 codec are arguments.
\<close>

section \<open>The server\<close>

record ('y, 'o, 'u) http_server = "('y, 'o, 'u) http_base" +
  m_staticContentElements :: "(bytes \<times> 'o) list"
  m_badAnswer :: bool
  m_currentFileExtension :: bytes
  m_includeServerDate :: bool
  m_mimeTypes :: "(bytes \<times> bytes) list"

definition default_mimeTypes :: "(bytes \<times> bytes) list" where
  "default_mimeTypes =
     [(''.aac'', ''audio/aac''), (''.abw'', ''application/x-abiword''), (''.arc'', ''application/x-freearc''),
      (''.avi'', ''video/x-msvideo''), (''.azw'', ''application/vnd.amazon.ebook''), (''.bin'', ''application/octet-stream''),
      (''.bmp'', ''image/bmp''), (''.bz'', ''application/x-bzip''), (''.bz2'', ''application/x-bzip2''), (''.csh'', ''application/x-csh''),
      (''.css'', ''text/css''), (''.csv'', ''text/csv''), (''.doc'', ''application/msword''),
      (''.docx'', ''application/vnd.openxmlformats-officedocument.wordprocessingml.document''),
      (''.eot'', ''application/vnd.ms-fontobject''), (''.epub'', ''application/epub+zip''), (''.gz'', ''application/gzip''),
      (''.gif'', ''image/gif''), (''.htm'', ''text/html''), (''.html'', ''text/html''), (''.iso'', ''application/octet-stream''),
      (''.ico'', ''image/vnd.microsoft.icon''), (''.ics'', ''text/calendar''), (''.jar'', ''application/java-archive''),
      (''.jpeg'', ''image/jpeg''), (''.jpg'', ''image/jpeg''), (''.js'', ''application/javascript''), (''.json'', ''application/json''),
      (''.jsonld'', ''application/ld+json''), (''.mid'', ''audio/midi''), (''.midi'', ''audio/x-midi''), (''.mjs'', ''text/javascript''),
      (''.mp3'', ''audio/mpeg''), (''.mp4'', ''video/mp4''), (''.mpeg'', ''video/mpeg''), (''.mpg'', ''video/mpeg''),
      (''.mpkg'', ''application/vnd.apple.installer+xml''), (''.odp'', ''application/vnd.oasis.opendocument.presentation''),
      (''.ods'', ''application/vnd.oasis.opendocument.spreadsheet''), (''.odt'', ''application/vnd.oasis.opendocument.text''),
      (''.oga'', ''audio/ogg''), (''.ogv'', ''video/ogg''), (''.ogx'', ''application/ogg''), (''.opus'', ''audio/opus''),
      (''.otf'', ''font/otf''), (''.png'', ''image/png''), (''.pdf'', ''application/pdf''), (''.php'', ''application/x-httpd-php''),
      (''.ppt'', ''application/vnd.ms-powerpoint''),
      (''.pptx'', ''application/vnd.openxmlformats-officedocument.presentationml.presentation''), (''.rar'', ''application/vnd.rar''),
      (''.rtf'', ''application/rtf''), (''.sh'', ''application/x-sh''), (''.svg'', ''image/svg+xml''),
      (''.swf'', ''application/x-shockwave-flash''), (''.tar'', ''application/x-tar''), (''.tif'', ''image/tiff''),
      (''.ts'', ''video/mp2t''), (''.ttf'', ''font/ttf''), (''.txt'', ''text/plain''), (''.vsd'', ''application/vnd.visio''),
      (''.wav'', ''audio/wav''), (''.weba'', ''audio/webm''), (''.webm'', ''video/webm''), (''.webp'', ''image/webp''),
      (''.woff'', ''font/woff''), (''.woff2'', ''font/woff2''), (''.xhtml'', ''application/xhtml+xml''),
      (''.xls'', ''application/vnd.ms-excel''), (''.xlsx'', ''application/vnd.openxmlformats-officedocument.spreadsheetml.sheet''),
      (''.xml'', ''application/xml''), (''.xul'', ''application/vnd.mozilla.xul+xml''), (''.zip'', ''application/zip''),
      (''.3gp'', ''video/3gpp''), (''.3g2'', ''video/3gpp2''), (''.7z'', ''application/x-7z-compressed'')]"

definition http_server_new :: "('y, 'o) http_env \<Rightarrow> 'u \<Rightarrow> ('y, 'o, 'u) http_server result" where
  "http_server_new env up =
     (case http_base_new (he_rand env) (he_cvt env) (he_mk env) False up of
        Inl e \<Rightarrow> Inl e
      | Inr b \<Rightarrow>
          Inr (http_base.extend
            (b\<lparr>serverResponse := (serverResponse b)\<lparr>cacheControl := uncached (cacheControl (serverResponse b))\<rparr>, m_currentParser := Some RequestLine\<rparr>)
            \<lparr>m_staticContentElements = [], m_badAnswer = False, m_currentFileExtension = [], m_includeServerDate = True, m_mimeTypes = default_mimeTypes\<rparr>))"

definition setResponseServerName :: "bytes option \<Rightarrow> ('y, 'o, 'u) http_server \<Rightarrow> bytes \<Rightarrow> ('y, 'o, 'u) http_server result" where
  "setResponseServerName rand s sServerName =
     (case rsp_header_replace rand (serverResponse s) ''Server'' sServerName of Inl e \<Rightarrow> Inl e | Inr r \<Rightarrow> Inr (s\<lparr>serverResponse := r\<rparr>))"

definition addResponseContentTypeFileExtension :: "('y, 'o, 'u) http_server \<Rightarrow> bytes \<Rightarrow> bytes \<Rightarrow> ('y, 'o, 'u) http_server" where
  "addResponseContentTypeFileExtension s ext type = s\<lparr>m_mimeTypes := assoc_update ext type (m_mimeTypes s)\<rparr>"

definition setClientInfoVars :: "('y, 'o, 'u) http_server \<Rightarrow> bytes \<Rightarrow> bool \<Rightarrow> bytes \<Rightarrow> ('y, 'o, 'u) http_server" where
  "setClientInfoVars s ipAddr sec cn =
     s\<lparr>clientRequest := (clientRequest s)\<lparr>networkClientInfo := \<lparr>REMOTE_ADDR = take 46 (c_str ipAddr), nci_isSecure = sec, tlsCommonName = cn\<rparr>\<rparr>\<rparr>"

definition setStaticContentElements :: "('y, 'o, 'u) http_server \<Rightarrow> (bytes \<times> 'o) list \<Rightarrow> ('y, 'o, 'u) http_server" where
  "setStaticContentElements s value = s\<lparr>m_staticContentElements := value\<rparr>"

definition verifyStaticContentExistence :: "('y, 'o, 'u) http_server \<Rightarrow> bytes \<Rightarrow> bool" where
  "verifyStaticContentExistence s path \<longleftrightarrow> map_of (m_staticContentElements s) path \<noteq> None"

definition setResponseIncludeServerDate :: "('y, 'o, 'u) http_server \<Rightarrow> bool \<Rightarrow> ('y, 'o, 'u) http_server" where
  "setResponseIncludeServerDate s value = s\<lparr>m_includeServerDate := value\<rparr>"

definition addStaticContent :: "('y, 'o, 'u) http_server \<Rightarrow> bytes \<Rightarrow> 'o \<Rightarrow> ('y, 'o, 'u) http_server" where
  "addStaticContent s path contentElement = s\<lparr>m_staticContentElements := assoc_update path contentElement (m_staticContentElements s)\<rparr>"

text \<open>\<open>source\<close> is \<^verbatim>\<open>streamTo\<close> of the given object.\<close>

definition streamResponse :: "('o \<Rightarrow> ('o \<times> bool) result) \<Rightarrow> ('y, 'o, 'u) http_server \<Rightarrow> (('y, 'o, 'u) http_server \<times> bool) result" where
  "streamResponse source s =
     (let rs = serverResponse s; c = rsp_content rs
      in case source (m_outStream c) of
           Inl e \<Rightarrow> Inl e | Inr (out, _) \<Rightarrow> Inr (s\<lparr>serverResponse := rs\<lparr>rsp_content := c\<lparr>m_outStream := out\<rparr>\<rparr>\<rparr>, True))"

fun htmlEncode :: "bytes \<Rightarrow> bytes" where
  "htmlEncode [] = []"
| "htmlEncode (c # rawStr) =
     (if c = CHR ''<'' then ''&lt;''
      else if c = CHR ''>'' then ''&gt;''
      else if c = CHR 0x22 then ''&quot;''
      else if c = CHR ''&'' then ''&amp;''
      else if c = CHR 0x27 then ''&apos;''
      else [c]) @ htmlEncode rawStr"

section \<open>Files\<close>

text \<open>What \<^verbatim>\<open>stat\<close>, \<^verbatim>\<open>realpath\<close>, \<^verbatim>\<open>access\<close> and \<^verbatim>\<open>B_MMAP::referenceFile\<close> say of a path.\<close>

datatype file_kind = Directory | Regular | Special

record 'o filesystem =
  fs_realpath :: "bytes \<Rightarrow> bytes option"
  fs_kind :: "bytes \<Rightarrow> file_kind"
  fs_readable :: "bytes \<Rightarrow> bool"
  fs_executable :: "bytes \<Rightarrow> bool"
  fs_map :: "bytes \<Rightarrow> 'o option"
  fs_mtime :: "bytes \<Rightarrow> int option"

definition realpath :: "'o filesystem \<Rightarrow> bytes \<Rightarrow> bytes option" where
  "realpath f path = map_option c_str (fs_realpath f (c_str path))"

record sLocalRequestedFileInfo =
  sRealRelativePath :: bytes
  sRealFullPath :: bytes
  isDir :: bool
  isExecutable :: bool
  isTransversal :: bool
  pathExist :: bool

definition info_reset :: sLocalRequestedFileInfo where
  "info_reset = \<lparr>sRealRelativePath = [], sRealFullPath = [], isDir = False, isExecutable = False, isTransversal = False, pathExist = False\<rparr>"

text \<open>A slash at the end, unless there is one.\<close>

definition with_slash :: "bytes \<Rightarrow> bytes" where
  "with_slash path = path @ (if path \<noteq> [] \<and> last path = CHR ''/'' then [] else ''/'')"

definition requested_path :: "bytes \<Rightarrow> bytes \<Rightarrow> bytes \<Rightarrow> bytes" where
  "requested_path sServerDir uri app = sServerDir @ (if uri = [] then [] else tl uri) @ app"

definition transversal :: "bytes \<Rightarrow> bytes \<Rightarrow> bool" where
  "transversal sServerDir path \<longleftrightarrow> length path < length sServerDir \<or> take (length sServerDir) path \<noteq> sServerDir"

definition located :: "bytes \<Rightarrow> bytes \<Rightarrow> sLocalRequestedFileInfo \<Rightarrow> sLocalRequestedFileInfo" where
  "located sServerDir path info = info\<lparr>sRealFullPath := path, sRealRelativePath := drop (length sServerDir - 1) path\<rparr>"

text \<open>The lookups without an answer: of a path that may lack its slash, and of a path of an existing file.\<close>

definition getLocalFilePathFromURI0NE :: "'o filesystem \<Rightarrow> bytes \<Rightarrow> bytes \<Rightarrow> sLocalRequestedFileInfo option \<Rightarrow> (sLocalRequestedFileInfo \<times> bool) result" where
  "getLocalFilePathFromURI0NE f uri sServerDir0 info0 =
     (if info0 = None then Inl (RuntimeError ''getLocalFilePathFromURI0NE Should be called with info object... Aborting...'')
      else
        let info = info_reset
        in case realpath f sServerDir0 of
             None \<Rightarrow> Inr (info, False)
           | Some d \<Rightarrow>
               let sServerDir = with_slash d
               in case realpath f (requested_path sServerDir uri []) of
                    None \<Rightarrow> Inr (info, False)
                  | Some path \<Rightarrow>
                      if transversal sServerDir path then Inr (info\<lparr>isTransversal := True\<rparr>, False)
                      else Inr (located sServerDir path info, True))"

definition getLocalFilePathFromURI0E :: "'o filesystem \<Rightarrow> bytes \<Rightarrow> bytes \<Rightarrow> sLocalRequestedFileInfo option \<Rightarrow> (sLocalRequestedFileInfo \<times> bool) result" where
  "getLocalFilePathFromURI0E f uri sServerDir0 info0 =
     (if info0 = None then Inl (RuntimeError ''getLocalFilePathFromURI0E Should be called with info object... Aborting...'')
      else
        let info = info_reset
        in case realpath f sServerDir0 of
             None \<Rightarrow> Inr (info, False)
           | Some d \<Rightarrow>
               let sServerDir = with_slash d
               in case realpath f (requested_path sServerDir uri []) of
                    None \<Rightarrow> Inr (info, False)
                  | Some p \<Rightarrow>
                      let dir = (fs_kind f p = Directory); path = (if dir then with_slash p else p); info1 = info\<lparr>isDir := dir\<rparr>
                      in if transversal sServerDir path then Inr (info1\<lparr>isTransversal := True\<rparr>, False)
                         else Inr (located sServerDir path info1, True))"

definition file_extension :: "bytes \<Rightarrow> bytes option" where
  "file_extension path =
     (let p = c_str path in if CHR ''.'' \<in> set p then Some (CHR ''.'' # rev (takeWhile (\<lambda>c. c \<noteq> CHR ''.'') (rev p))) else None)"

definition setResponseContentTypeByFileExtension :: "('y, 'o, 'u) http_server \<Rightarrow> bytes \<Rightarrow> ('y, 'o, 'u) http_server \<times> bool" where
  "setResponseContentTypeByFileExtension s sFilePath =
     (case file_extension sFilePath of
        None \<Rightarrow> (s, False)
      | Some cFileExtension \<Rightarrow>
          if tl cFileExtension = [] then (s, False)
          else
            let s1 = s\<lparr>m_currentFileExtension := to_lower_copy cFileExtension\<rparr>
            in case map_of (m_mimeTypes s1) (m_currentFileExtension s1) of
                 Some type \<Rightarrow> (s1\<lparr>serverResponse := setContentType (serverResponse s1) type True\<rparr>, True)
               | None \<Rightarrow> (s1\<lparr>serverResponse := setContentType (serverResponse s1) [] False\<rparr>, False))"

definition cached :: "cache_control \<Rightarrow> cache_control" where
  "cached c = c\<lparr>optionNoCache := False, optionNoStore := False, optionMustRevalidate := False, maxAge := 3600, optionImmutable := True\<rparr>"

definition set_cached :: "('y, 'o, 'u) http_server \<Rightarrow> ('y, 'o, 'u) http_server" where
  "set_cached s = s\<lparr>serverResponse := (serverResponse s)\<lparr>cacheControl := cached (cacheControl (serverResponse s))\<rparr>\<rparr>"

definition map_file :: "bytes option \<Rightarrow> (eDataType \<Rightarrow> 'o) \<Rightarrow> (int \<Rightarrow> bytes) \<Rightarrow> 'o filesystem \<Rightarrow> bytes \<Rightarrow> bytes \<Rightarrow> bytes \<Rightarrow> ('y, 'o, 'u) http_server \<Rightarrow>
    sLocalRequestedFileInfo \<Rightarrow> (('y, 'o, 'u) http_server \<times> sLocalRequestedFileInfo \<times> bool) result" where
  "map_file rand mk date_toString f sServerDir sFullRequestedPath path s info =
     (case fs_map f path of
        None \<Rightarrow> Inr (s, info, False)
      | Some bFile \<Rightarrow>
          let info1 = located sServerDir path info;
              s1 = s\<lparr>serverResponse := setDataStreamer mk (serverResponse s) (Some bFile)\<rparr>;
              s2 = fst (setResponseContentTypeByFileExtension s1 (sRealRelativePath info1));
              rs = serverResponse s2
          in case fs_mtime f (c_str sFullRequestedPath) of
               Some t \<Rightarrow>
                 if m_includeServerDate s2 then
                   (case header_add rand (sh_header (rsp_headers rs)) ''Last-Modified'' (date_toString t) 0 of
                      Inl e \<Rightarrow> Inl e
                    | Inr (h, _) \<Rightarrow> Inr (set_cached (s2\<lparr>serverResponse := rs\<lparr>rsp_headers := (rsp_headers rs)\<lparr>sh_header := h\<rparr>\<rparr>\<rparr>), info1, True))
                 else Inr (set_cached s2, info1, True)
             | None \<Rightarrow> Inr (set_cached s2, info1, True))"

definition getLocalFilePathFromURI2 :: "bytes option \<Rightarrow> (eDataType \<Rightarrow> 'o) \<Rightarrow> (int \<Rightarrow> bytes) \<Rightarrow> 'o filesystem \<Rightarrow> ('y, 'o, 'u) http_server \<Rightarrow> bytes \<Rightarrow>
    sLocalRequestedFileInfo option \<Rightarrow> bytes \<Rightarrow> bool \<Rightarrow> (('y, 'o, 'u) http_server \<times> sLocalRequestedFileInfo \<times> bool) result" where
  "getLocalFilePathFromURI2 rand mk date_toString f s sServerDir0 info0 defaultFileAppend dontMapExecutables =
     (if info0 = None then Inl (RuntimeError ''getLocalFilePathFromURI2 Should be called with info object... Aborting...'')
      else
        let info = info_reset; uri = getURI (clientRequest s)
        in case realpath f sServerDir0 of
             None \<Rightarrow> Inr (s, info, False)
           | Some d \<Rightarrow>
               let sServerDir = with_slash d; sFullRequestedPath = requested_path sServerDir uri defaultFileAppend; rel = uri @ defaultFileAppend
               in case map_of (m_staticContentElements s) rel of
                    Some element \<Rightarrow>
                      let s1 = fst (setResponseContentTypeByFileExtension (set_cached s) rel)
                      in Inr (s1\<lparr>serverResponse := setDataStreamer mk (serverResponse s1) (Some element)\<rparr>,
                              info\<lparr>sRealRelativePath := rel, sRealFullPath := ''MEM:'' @ rel\<rparr>, True)
                  | None \<Rightarrow>
                      (case realpath f sFullRequestedPath of
                         None \<Rightarrow> Inr (s, info, False)
                       | Some p \<Rightarrow>
                           let kind = fs_kind f p; dir = (kind = Directory); path = (if dir then with_slash p else p); info1 = info\<lparr>isDir := dir\<rparr>
                           in if transversal sServerDir path then Inr (s, info1\<lparr>isTransversal := True\<rparr>, False)
                              else if dir then
                                let info2 = info1\<lparr>pathExist := True\<rparr>
                                in if defaultFileAppend \<noteq> [] then Inr (s, info2, False)
                                   else Inr (s, located sServerDir path info2, fs_readable f path)
                              else if kind = Regular then
                                let info2 = info1\<lparr>pathExist := True\<rparr>
                                in if dontMapExecutables \<and> fs_executable f path
                                   then Inr (s, (located sServerDir path info2)\<lparr>isExecutable := True\<rparr>, True)
                                   else map_file rand mk date_toString f sServerDir sFullRequestedPath path s info2
                              else Inr (s, info1, False)))"


section \<open>The answer\<close>

text \<open>
  The virtual functions of the derived class, which may change any part of the server: after the request line, after the headers, and
  for the answer, where the result is the status code.
\<close>

record ('y, 'o, 'u) http_handlers =
  procHTTPClientURI :: "('y, 'o, 'u) http_server \<Rightarrow> (('y, 'o, 'u) http_server \<times> bool) result"
  procHTTPClientHeaders :: "('y, 'o, 'u) http_server \<Rightarrow> (('y, 'o, 'u) http_server \<times> bool) result"
  procHTTPClientContent :: "('y, 'o, 'u) http_server \<Rightarrow> (('y, 'o, 'u) http_server \<times> nat) result"

record server_time =
  st_now :: int
  st_toString :: "int \<Rightarrow> bytes"

definition server_headers :: "bytes option \<Rightarrow> server_time \<Rightarrow> nat \<Rightarrow> bool \<Rightarrow> ('y, 'o) http_response \<Rightarrow> mime_header result" where
  "server_headers rand tm strsize withDate rs =
     (let replace = (\<lambda>name v h. header_replace rand h name v); andThen = (\<lambda>h k. case h of Inl e \<Rightarrow> Inl e | Inr h \<Rightarrow> k h);
          h0 = sh_header (rsp_headers rs); sec = rsp_security rs;
          h1 = (if strsize = size_max then
                  let h = andThen (replace ''Connetion'' ''Close'' h0) (\<lambda>h. Inr (header_remove h ''Content-Length''))
                  in if m_transmitionMode (rsp_content rs) = TRANSMIT_MODE_CHUNKS then andThen h (replace ''Transfer-Encoding'' ''Chunked'') else h
                else replace ''Content-Length'' (dec strsize) (header_remove h0 ''Connetion''));
          h2 = (if withDate then andThen h1 (replace ''Date'' (st_toString tm (st_now tm))) else h1)
      in if immutableHeaders rs then h2
         else
           let h3 = (if sWWWAuthenticateRealm rs \<noteq> []
                     then andThen h2 (replace ''WWW-Authenticate'' (''Basic realm='' @ [CHR 0x22] @ sWWWAuthenticateRealm rs @ [CHR 0x22])) else h2);
               h4 = andThen h3 (\<lambda>h. server_putOnHeaders (st_toString tm) rand (rsp_cookies rs) (header_remove h ''Set-Cookie''));
               h5 = andThen h4 (replace ''X-XSS-Protection'' (xss_toString (sec_XSSProtection sec)));
               cacheOptions = cache_control_toString (cacheControl rs);
               h6 = (if cacheOptions \<noteq> [] then andThen h5 (replace ''Cache-Control'' cacheOptions) else h5);
               h7 = (if xframe_value (sec_XFrameOpts sec) \<noteq> NONE then andThen h6 (replace ''X-Frame-Options'' (xframe_toString (sec_XFrameOpts sec))) else h6);
               h8 = (if isActivated (sec_HSTS sec) then andThen h7 (replace ''Strict-Transport-Security'' (hsts_toString (sec_HSTS sec))) else h7)
           in if rsp_contentType rs \<noteq> [] then
                let h9 = andThen h8 (replace ''Content-Type'' (rsp_contentType rs))
                in if disableNoSniffContentType sec then andThen h9 (replace ''X-Content-Type-Options'' ''nosniff'') else h9
              else h8)"

definition streamServerHeaders :: "bytes option \<Rightarrow> server_time \<Rightarrow> ('o, 'u) upstream_env \<Rightarrow> ('y, 'o, 'u) http_server \<Rightarrow> (('y, 'o, 'u) http_server \<times> bool) result" where
  "streamServerHeaders rand tm ue s =
     (let rs = serverResponse s
      in case server_headers rand tm (ue_size ue (m_outStream (rsp_content rs))) (m_includeServerDate s) rs of
           Inl e \<Rightarrow> Inl e
         | Inr h \<Rightarrow>
             (case header_streamToUpstream (ue_io ue) h (m_upStream s) of
                Inl e \<Rightarrow> Inl e
              | Inr (up, ok) \<Rightarrow> Inr (s\<lparr>serverResponse := rs\<lparr>rsp_headers := (rsp_headers rs)\<lparr>sh_header := h\<rparr>\<rparr>, m_upStream := up\<rparr>, ok)))"

definition set_status :: "('y, 'o, 'u) http_server \<Rightarrow> nat \<Rightarrow> ('y, 'o, 'u) http_server" where
  "set_status s code = s\<lparr>serverResponse := (serverResponse s)\<lparr>rsp_status := setCode (rsp_status (serverResponse s)) code\<rparr>\<rparr>"

text \<open>Everything the answer relies on.\<close>

record ('y, 'o, 'u) server_env =
  se_env :: "('y, 'o) http_env"
  se_up :: "('o, 'u) upstream_env"
  se_time :: server_time
  se_handlers :: "('y, 'o, 'u) http_handlers"
  se_bio_decode :: "bytes \<Rightarrow> bytes option"
  se_setMultiPartBoundary :: "'o \<Rightarrow> bytes \<Rightarrow> 'o"

definition answer_stream :: "('y, 'o, 'u) server_env \<Rightarrow> ('y, 'o, 'u) http_server \<Rightarrow> (('y, 'o, 'u) http_server \<times> bool) result" where
  "answer_stream se s =
     (let ue = se_up se; env = se_env se
      in case status_streamToUpstream (ue_io ue) (rsp_status (serverResponse s)) (m_upStream s) of
           Inl e \<Rightarrow> Inl e
         | Inr (up, False) \<Rightarrow> Inr (s\<lparr>m_upStream := up\<rparr>, False)
         | Inr (up, True) \<Rightarrow>
             (case streamServerHeaders (he_rand env) (se_time se) ue (s\<lparr>m_upStream := up\<rparr>) of
                Inl e \<Rightarrow> Inl e
              | Inr (s1, False) \<Rightarrow> Inr (s1, False)
              | Inr (s1, True) \<Rightarrow>
                  (case content_streamToUpstream (he_io env) (ue_io ue) (ue_streamTo ue) (ue_streamToChunked ue) (rsp_content (serverResponse s1)) (m_upStream s1) of
                     Inl e \<Rightarrow> Inl e
                   | Inr (up, streamedOK) \<Rightarrow>
                       let rs = serverResponse s1
                       in Inr (s1\<lparr>m_upStream := up, serverResponse := rs\<lparr>rsp_content := setStreamableObj (he_mk env) (rsp_content rs) None\<rparr>\<rparr>, streamedOK))))"

definition answer :: "('y, 'o, 'u) server_env \<Rightarrow> ('y, 'o, 'u) http_server \<Rightarrow> (('y, 'o, 'u) http_server \<times> bool) result" where
  "answer se s =
     (case (if \<not> m_badAnswer s then map_sum id (\<lambda>(s', code). set_status s' code) (procHTTPClientContent (se_handlers se) s) else Inr s) of
        Inl e \<Rightarrow> Inl e
      | Inr s1 \<Rightarrow> answer_stream se (s1\<lparr>m_currentParser := None\<rparr>))"

section \<open>The state machine\<close>

definition prepareServerVersionOnURI :: "('y, 'o, 'u) http_server \<Rightarrow> ('y, 'o, 'u) http_server" where
  "prepareServerVersionOnURI s =
     (let v = m_httpVersion (requestLine (clientRequest s)); rs = serverResponse s;
          st = (rsp_status rs)\<lparr>st_httpVersion := \<lparr>m_minorVersion = 0, m_majorVersion = 1\<rparr>\<rparr>;
          s1 = s\<lparr>serverResponse := rs\<lparr>rsp_status := st\<rparr>\<rparr>
      in if m_majorVersion v \<noteq> 1 then (set_status s1 505)\<lparr>m_badAnswer := True\<rparr>
         else s\<lparr>serverResponse := rs\<lparr>rsp_status := st\<lparr>st_httpVersion := \<lparr>m_minorVersion = m_minorVersion v, m_majorVersion = 1\<rparr>\<rparr>\<rparr>\<rparr>)"

definition prepareServerVersionOnOptions :: "('y, 'o, 'u) http_server \<Rightarrow> ('y, 'o, 'u) http_server" where
  "prepareServerVersionOnOptions s =
     (if m_minorVersion (m_httpVersion (requestLine (clientRequest s))) \<ge> 1 \<and> virtualHost (clientRequest s) = []
      then (set_status s 400)\<lparr>m_badAnswer := True\<rparr> else s)"

definition parseHostOptions :: "('y, 'o, 'u) http_server \<Rightarrow> ('y, 'o, 'u) http_server" where
  "parseHostOptions s =
     (let r = clientRequest s; hostVal = getOptionValueStringByName (sh_header (req_headers r)) ''HOST''
      in if hostVal = [] then s
         else
           (case split_compress (any_of '':'') hostVal of
              [] \<Rightarrow> s\<lparr>clientRequest := r\<lparr>virtualPort := 80\<rparr>\<rparr>
            | [host] \<Rightarrow> s\<lparr>clientRequest := r\<lparr>virtualPort := 80, virtualHost := host\<rparr>\<rparr>
            | host # port # _ \<Rightarrow> s\<lparr>clientRequest := r\<lparr>virtualHost := host, virtualPort := uint16 (strtoul port)\<rparr>\<rparr>))"

definition parse_basic_auth :: "(bytes \<Rightarrow> bytes option) \<Rightarrow> mime_header \<Rightarrow> basic_auth \<Rightarrow> basic_auth" where
  "parse_basic_auth bio_decode h a0 =
     (let a = a0\<lparr>ba_isEnabled := False\<rparr>
      in if header_exist h ''Authorization'' then
           (case split_compress (any_of '' '') (getOptionValueStringByName h ''Authorization'') of
              [scheme, credentials] \<Rightarrow>
                if scheme = ''Basic'' then
                  let bp = decodeFromBase64 bio_decode credentials False
                  in (case find_index ((=) CHR '':'') bp of
                        Some pos \<Rightarrow> \<lparr>ba_username = take pos bp, ba_password = drop (pos + 1) bp, ba_isEnabled = True\<rparr>
                      | None \<Rightarrow> a)
                else a
            | _ \<Rightarrow> a)
         else a)"

definition set_container :: "('y, 'o, 'u) server_env \<Rightarrow> bytes \<Rightarrow> ('y, 'o) http_request \<Rightarrow> ('y, 'o) http_request result" where
  "set_container se ctype r =
     (let env = se_env se; put = (\<lambda>t. r\<lparr>req_content := setContainerType (he_mk env) (req_content r) t\<rparr>)
      in if icontains ctype ''multipart/form-data'' then
           let r1 = put CONTENT_TYPE_MIME; c = req_content r1
           in (case getMultiPartVars c of
                 Inl e \<Rightarrow> Inl e
               | Inr vars \<Rightarrow>
                   (case getOptionByName (sh_header (req_headers r1)) ''Content-Type'' of
                      None \<Rightarrow> Inr r1
                    | Some opt \<Rightarrow> Inr (r1\<lparr>req_content := c\<lparr>m_outStream := se_setMultiPartBoundary se vars (getSubVar opt ''boundary'')\<rparr>\<rparr>)))
         else if icontains ctype ''application/x-www-form-urlencoded'' then Inr (put CONTENT_TYPE_URL)
         else if icontains ctype ''application/json'' then Inr (put CONTENT_TYPE_JSON)
         else Inr (put CONTENT_TYPE_BIN))"

text \<open>The end of the headers: the handler is asked, and a body is awaited or the answer sent.\<close>

definition headers_handled :: "('y, 'o, 'u) server_env \<Rightarrow> nat \<Rightarrow> ('y, 'o, 'u) http_server \<Rightarrow> (('y, 'o, 'u) http_server \<times> bool) result" where
  "headers_handled se contentLength s =
     (if m_badAnswer s then Inr (s, True)
      else case procHTTPClientHeaders (se_handlers se) s of
             Inl e \<Rightarrow> Inl e
           | Inr (s1, False) \<Rightarrow> Inr (s1\<lparr>m_currentParser := None\<rparr>, True)
           | Inr (s1, True) \<Rightarrow> if contentLength \<noteq> 0 then Inr (s1\<lparr>m_currentParser := Some RequestContent\<rparr>, True) else answer se s1)"

definition headers_parsed :: "('y, 'o, 'u) server_env \<Rightarrow> ('y, 'o, 'u) http_server \<Rightarrow> ('y, 'o, 'u) http_server" where
  "headers_parsed se s0 =
     (let s = prepareServerVersionOnOptions (parseHostOptions s0); r = clientRequest s; h = sh_header (req_headers r);
          r1 = r\<lparr>basicAuth := parse_basic_auth (se_bio_decode se) h (basicAuth r)\<rparr>
      in s\<lparr>clientRequest := (if header_exist h ''User-Agent'' then r1\<lparr>userAgent := getOptionRawStringByName h ''User-Agent''\<rparr> else r1)\<rparr>)"

definition changeToNextParserFromClientHeaders :: "('y, 'o, 'u) server_env \<Rightarrow> ('y, 'o, 'u) http_server \<Rightarrow> (('y, 'o, 'u) http_server \<times> bool) result" where
  "changeToNextParserFromClientHeaders se s0 =
     (let s = headers_parsed se s0; r = clientRequest s; h = sh_header (req_headers r)
      in if m_badAnswer s then answer se s
         else
           let contentLength = getOptionAsUINT64 h ''Content-Length''
           in if contentLength \<noteq> 0 then
                case setContentLenSize (setTransmitionMode (req_content r) TRANSMIT_MODE_CONTENT_LENGTH) contentLength of
                  (c, ok) \<Rightarrow>
                    let r1 = r\<lparr>req_content := c\<rparr>
                    in if \<not> ok then answer se (set_status (s\<lparr>clientRequest := r1, m_badAnswer := True\<rparr>) 413)
                       else case set_container se (getOptionValueStringByName h ''Content-Type'') r1 of
                              Inl e \<Rightarrow> Inl e | Inr r2 \<Rightarrow> headers_handled se contentLength (s\<lparr>clientRequest := r2\<rparr>)
              else headers_handled se contentLength s)"

definition changeToNextParserFromClientRequestLine :: "('y, 'o, 'u) server_env \<Rightarrow> ('y, 'o, 'u) http_server \<Rightarrow> (('y, 'o, 'u) http_server \<times> bool) result" where
  "changeToNextParserFromClientRequestLine se s0 =
     (let s = prepareServerVersionOnURI s0
      in if m_badAnswer s then answer se s
         else case procHTTPClientURI (se_handlers se) s of
                Inl e \<Rightarrow> Inl e
              | Inr (s1, ok) \<Rightarrow> Inr (s1\<lparr>m_currentParser := (if ok then Some RequestHeaders else None)\<rparr>, True))"

definition changeToNextParserFromClientContentData :: "('y, 'o, 'u) server_env \<Rightarrow> ('y, 'o, 'u) http_server \<Rightarrow> (('y, 'o, 'u) http_server \<times> bool) result" where
  "changeToNextParserFromClientContentData se s = answer se (s\<lparr>m_currentParser := None\<rparr>)"

definition server_changeToNextParser :: "('y, 'o, 'u) server_env \<Rightarrow> ('y, 'o, 'u) http_server \<Rightarrow> (('y, 'o, 'u) http_server \<times> bool) result" where
  "server_changeToNextParser se s =
     (if m_currentParser s = Some RequestLine then changeToNextParserFromClientRequestLine se s
      else if m_currentParser s = Some RequestHeaders then changeToNextParserFromClientHeaders se s
      else changeToNextParserFromClientContentData se s)"

abbreviation server_vt :: "('y, 'o, 'u) server_env \<Rightarrow> ('y, 'o, 'u) http_server parser_vt" where
  "server_vt se \<equiv> http_vt (se_env se) (server_changeToNextParser se)"


section \<open>The order of the states\<close>

lemma answer_stream_current: "answer_stream se s = Inr (s', ok) \<Longrightarrow> m_currentParser s' = m_currentParser s"
  by (auto simp: answer_stream_def streamServerHeaders_def Let_def split: sum.splits bool.splits prod.splits)

lemma answer_current: "answer se s = Inr (s', ok) \<Longrightarrow> m_currentParser s' = None"
  by (auto simp: answer_def dest: answer_stream_current split: sum.splits)

lemma headers_handled_current:
  assumes "headers_handled se n s = Inr (s', ok)" and "\<not> m_badAnswer s"
  shows "m_currentParser s' = None \<or> m_currentParser s' = Some RequestContent"
  using assms answer_current by (auto simp: headers_handled_def split: sum.splits prod.splits bool.splits if_splits)

lemma from_headers_current:
  assumes "changeToNextParserFromClientHeaders se s = Inr (s', ok)"
  shows "m_currentParser s' = None \<or> m_currentParser s' = Some RequestContent"
  using assms
  by (auto simp: changeToNextParserFromClientHeaders_def Let_def dest: answer_current dest!: headers_handled_current split: sum.splits prod.splits if_splits)

text \<open>How many sub-parsers may still follow.\<close>

fun parts_left :: "http_part option \<Rightarrow> nat" where
  "parts_left (Some RequestLine) = 3"
| "parts_left (Some RequestHeaders) = 2"
| "parts_left (Some _) = 1"
| "parts_left None = 0"

text \<open>The server after the first \<open>n\<close> changes of the sub-parser, as long as there is one to change.\<close>

fun server_changes :: "nat \<Rightarrow> ('y, 'o, 'u) server_env \<Rightarrow> ('y, 'o, 'u) http_server \<Rightarrow> ('y, 'o, 'u) http_server result" where
  "server_changes 0 se s = Inr s"
| "server_changes (Suc n) se s =
     (if m_currentParser s = None then Inr s
      else case server_changeToNextParser se s of Inl e \<Rightarrow> Inl e | Inr (s', _) \<Rightarrow> server_changes n se s')"

lemma change_progress:
  assumes "server_changeToNextParser se s = Inr (s', ok)" and "m_currentParser s \<noteq> None"
  shows "parts_left (m_currentParser s') < parts_left (m_currentParser s)"
proof -
  consider "m_currentParser s = Some RequestLine" | "m_currentParser s = Some RequestHeaders"
    | "m_currentParser s \<noteq> Some RequestLine" "m_currentParser s \<noteq> Some RequestHeaders" by blast
  then show ?thesis
  proof cases
    case 1
    then show ?thesis using assms(1)
      by (auto simp: server_changeToNextParser_def changeToNextParserFromClientRequestLine_def Let_def dest!: answer_current split: sum.splits prod.splits if_splits)
  next
    case 2
    then show ?thesis using assms(1) from_headers_current [of se s s' ok] by (auto simp: server_changeToNextParser_def)
  next
    case 3
    then have "m_currentParser s' = None" using assms(1) answer_current by (auto simp: server_changeToNextParser_def changeToNextParserFromClientContentData_def)
    then show ?thesis using assms(2) 3 by (cases "m_currentParser s" rule: parts_left.cases) auto
  qed
qed

text \<open>
  C7. A connection ends. Whatever the handlers do, the server never goes back to an earlier part of a request: after the request line it waits for the
  headers, after the headers for the body, and after at most three changes of the sub-parser it waits for nothing, so that the parser loop finishes.
\<close>

theorem server_finishes:
  "case server_changes 3 se s of Inl e \<Rightarrow> True | Inr s' \<Rightarrow> m_currentParser s' = None"
proof -
  have "parts_left (m_currentParser s') = 0" if "server_changes n se s = Inr s'" "parts_left (m_currentParser s) \<le> n" for n s s'
    using that
  proof (induction n arbitrary: s)
    case (Suc n)
    show ?case
    proof (cases "m_currentParser s = None")
      case False
      then obtain s1 ok where s1: "server_changeToNextParser se s = Inr (s1, ok)" "server_changes n se s1 = Inr s'"
        using Suc.prems(1) by (auto split: sum.splits prod.splits)
      then show ?thesis using Suc.IH [OF s1(2)] change_progress [OF s1(1) False] Suc.prems(2) by simp
    qed (use Suc.prems in simp)
  qed simp
  moreover have "parts_left p \<le> 3" "parts_left p = 0 \<Longrightarrow> p = None" for p by (cases p rule: parts_left.cases; simp)+
  ultimately show ?thesis by (auto split: sum.split)
qed


section \<open>Paths stay inside the server directory\<close>

text \<open>The path behind the real server directory, with the slash that ends the directory kept in the relative path.\<close>

definition contained :: "bytes \<Rightarrow> sLocalRequestedFileInfo \<Rightarrow> bool" where
  "contained d info \<longleftrightarrow> (\<exists>rest. sRealFullPath info = with_slash d @ rest \<and> sRealRelativePath info = CHR ''/'' # rest) \<and> \<not> isTransversal info"

lemma with_slash_last: "\<exists>d'. with_slash d = d' @ ''/''"
proof (cases "d \<noteq> [] \<and> last d = CHR ''/''")
  case True
  then have "with_slash d = butlast d @ ''/''" using append_butlast_last_id [of d] by (simp add: with_slash_def)
  then show ?thesis by blast
qed (auto simp: with_slash_def)

lemma located_contained:
  assumes "\<not> transversal (with_slash d) path" and "\<not> isTransversal info"
  shows "contained d (located (with_slash d) path info)"
proof -
  obtain d' where d': "with_slash d = d' @ ''/''" using with_slash_last by blast
  have "path = with_slash d @ drop (length (with_slash d)) path" using assms(1) append_take_drop_id [of "length (with_slash d)" path] by (simp add: transversal_def)
  then obtain rest where r: "path = with_slash d @ rest" by blast
  then show ?thesis using assms(2) by (simp add: contained_def located_def d')
qed

lemma map_file_located:
  assumes "map_file rand mk date f dir req path s info = Inr (s', info', True)"
  shows "info' = located dir path info \<and> (\<exists>b. fs_map f path = Some b \<and> m_outStream (rsp_content (serverResponse s')) = b)"
proof -
  have out: "m_outStream (rsp_content (serverResponse (fst (setResponseContentTypeByFileExtension (s\<lparr>serverResponse := setDataStreamer mk (serverResponse s) (Some b)\<rparr>) q)))) = b" for b q
    by (auto simp: setResponseContentTypeByFileExtension_def setContentType_def setDataStreamer_def setStreamableObj_def Let_def split: option.splits)
  show ?thesis using assms out by (auto simp: map_file_def set_cached_def Let_def split: option.splits sum.splits if_splits)
qed

text \<open>
  C8. No path leads out of the server directory. Whatever the request path is and whatever the file system answers, a lookup that succeeds for a file
  (not for content kept in memory) has found a path that begins with the real path of the server directory and a slash, the relative path is
  the rest of it, and the file that becomes the answer is the one at this path. The same holds for the two lookups that prepare no answer.
\<close>

theorem local_path_contained:
  "(getLocalFilePathFromURI2 rand mk date f s dir info0 app noexec = Inr (s', info, True) \<longrightarrow>
      map_of (m_staticContentElements s) (getURI (clientRequest s) @ app) = None \<longrightarrow>
      (\<exists>d. realpath f dir = Some d \<and> contained d info
        \<and> (isDir info \<or> isExecutable info \<or> fs_map f (sRealFullPath info) = Some (m_outStream (rsp_content (serverResponse s'))))))
   \<and> (getLocalFilePathFromURI0E f uri dir info0 = Inr (info, True) \<longrightarrow> (\<exists>d. realpath f dir = Some d \<and> contained d info))
   \<and> (getLocalFilePathFromURI0NE f uri dir info0 = Inr (info, True) \<longrightarrow> (\<exists>d. realpath f dir = Some d \<and> contained d info))"
proof -
  have reset: "\<not> isTransversal info_reset" by (simp add: info_reset_def)
  have l: "sRealFullPath (located d path i) = path" "isDir (located d path i) = isDir i" for d path i by (simp_all add: located_def)
  have c: "contained d (i\<lparr>isExecutable := b\<rparr>) = contained d i" for d i b by (simp add: contained_def)
  have "getLocalFilePathFromURI0NE f uri dir info0 = Inr (info, True) \<longrightarrow> (\<exists>d. realpath f dir = Some d \<and> contained d info)"
    using located_contained reset by (auto simp: getLocalFilePathFromURI0NE_def Let_def split: option.splits if_splits)
  moreover have "getLocalFilePathFromURI0E f uri dir info0 = Inr (info, True) \<longrightarrow> (\<exists>d. realpath f dir = Some d \<and> contained d info)"
    using located_contained reset by (auto simp: getLocalFilePathFromURI0E_def Let_def split: option.splits if_splits)
  moreover have "getLocalFilePathFromURI2 rand mk date f s dir info0 app noexec = Inr (s', info, True) \<longrightarrow>
      map_of (m_staticContentElements s) (getURI (clientRequest s) @ app) = None \<longrightarrow>
      (\<exists>d. realpath f dir = Some d \<and> contained d info
        \<and> (isDir info \<or> isExecutable info \<or> fs_map f (sRealFullPath info) = Some (m_outStream (rsp_content (serverResponse s')))))"
    using located_contained reset
    by (auto simp: getLocalFilePathFromURI2_def Let_def l c dest!: map_file_located split: option.splits if_splits)
  ultimately show ?thesis by blast
qed

lemma server_new_exists: "\<exists>s. http_server_new example_env up = Inr s"
  using base_new_exists [of False up] by (auto simp: http_server_new_def)

definition example_files :: "b_mem_fields chunks filesystem" where
  "example_files = \<lparr>fs_realpath = (\<lambda>p. if p = ''/srv'' \<or> p = ''/srv/a'' then Some p else None), fs_kind = (\<lambda>_. Regular), fs_readable = (\<lambda>_. True),
     fs_executable = (\<lambda>_. False), fs_map = (\<lambda>_. Some chunks_new), fs_mtime = (\<lambda>_. None)\<rparr>"

theorem local_path_contained_witness:
  "\<exists>s s' info. http_server_new example_env () = Inr s \<and>
     getLocalFilePathFromURI2 None (\<lambda>_. chunks_new) (\<lambda>_. []) example_files
       (s\<lparr>clientRequest := (clientRequest s)\<lparr>requestLine := (requestLine (clientRequest s))\<lparr>m_requestURI := ''/a''\<rparr>\<rparr>\<rparr>) ''/srv'' (Some info_reset) [] True = Inr (s', info, True)
     \<and> contained ''/srv'' info"
proof -
  obtain s :: "(b_mem_fields, b_mem_fields chunks, unit) http_server" where s: "http_server_new example_env () = Inr s"
    using server_new_exists [of "()"] by (rule exE)
  let ?s = "s\<lparr>clientRequest := (clientRequest s)\<lparr>requestLine := (requestLine (clientRequest s))\<lparr>m_requestURI := ''/a''\<rparr>\<rparr>\<rparr>"
  have st: "m_staticContentElements ?s = []" using s by (auto simp: http_server_new_def http_base.defs split: sum.splits)
  have u: "getURI (clientRequest ?s) = ''/a''" by (simp add: getURI_def)
  have z: "byte_of 0 = CHR 0x00" by code_simp
  have r: "realpath example_files ''/srv'' = Some ''/srv''" "realpath example_files ''/srv/a'' = Some ''/srv/a''" "with_slash ''/srv'' = ''/srv/''"
    "requested_path ''/srv/'' ''/a'' [] = ''/srv/a''" "transversal ''/srv/'' ''/srv/a'' = False"
    by (simp_all add: realpath_def example_files_def c_str_def z with_slash_def requested_path_def transversal_def)
  have f: "fs_kind example_files p = Regular" "fs_executable example_files p = False" "fs_map example_files p = Some chunks_new" "fs_mtime example_files p = None" for p
    by (simp_all add: example_files_def)
  obtain s' info where g: "getLocalFilePathFromURI2 None (\<lambda>_. chunks_new) (\<lambda>_. []) example_files ?s ''/srv'' (Some info_reset) [] True = Inr (s', info, True)"
    unfolding getLocalFilePathFromURI2_def u st Let_def using r f by (simp add: map_file_def Let_def)
  have "contained ''/srv'' info"
    using local_path_contained [of None "\<lambda>_. chunks_new" "\<lambda>_. []" example_files ?s "''/srv''" "Some info_reset" "[]" True s' info] g r(1) unfolding st by auto
  then show ?thesis using s g by blast
qed


section \<open>Refused requests\<close>

lemma bad_answer: "m_badAnswer s \<Longrightarrow> answer se s = answer_stream se (s\<lparr>m_currentParser := None\<rparr>)"
  by (simp add: answer_def)

lemma set_status_simps [simp]:
  "m_badAnswer (set_status s code) = m_badAnswer s" "m_upStream (set_status s code) = m_upStream s" "clientRequest (set_status s code) = clientRequest s"
  "code \<noteq> 1000 \<Longrightarrow> code < 65536 \<Longrightarrow> m_statusCode (rsp_status (serverResponse (set_status s code))) = code"
  by (simp_all add: set_status_def setCode_def setResponseMessage_def S_999_NOT_SET_def uint16_def)

lemma parseHostOptions_simps [simp]:
  "m_badAnswer (parseHostOptions s) = m_badAnswer s" "m_upStream (parseHostOptions s) = m_upStream s"
  "requestLine (clientRequest (parseHostOptions s)) = requestLine (clientRequest s)" "req_content (clientRequest (parseHostOptions s)) = req_content (clientRequest s)"
  "req_headers (clientRequest (parseHostOptions s)) = req_headers (clientRequest s)"
  by (auto simp: parseHostOptions_def Let_def split: list.split)

lemma headers_parsed_good:
  assumes "\<not> m_badAnswer s" and "m_minorVersion (m_httpVersion (requestLine (clientRequest s))) = 0 \<or> virtualHost (clientRequest (parseHostOptions s)) \<noteq> []"
  shows "\<not> m_badAnswer (headers_parsed se s)" and "m_upStream (headers_parsed se s) = m_upStream s"
    and "req_headers (clientRequest (headers_parsed se s)) = req_headers (clientRequest s)" and "req_content (clientRequest (headers_parsed se s)) = req_content (clientRequest s)"
  using assms by (auto simp: headers_parsed_def prepareServerVersionOnOptions_def Let_def)

text \<open>
  Requests that are refused. A request of another major version is answered with 505 as soon as its first line is read, one of version 1.1 without a host with 400 and one
  whose body is longer than the limit with 413 when its headers are read; none of the handlers is asked, and no byte of the body is awaited: what
  follows is the sending of the answer.
\<close>

theorem server_refusals:
  "(m_currentParser s = Some RequestLine \<and> m_majorVersion (m_httpVersion (requestLine (clientRequest s))) \<noteq> 1 \<longrightarrow>
      (\<exists>s1. server_changeToNextParser se s = answer_stream se s1 \<and> m_statusCode (rsp_status (serverResponse s1)) = 505 \<and> m_upStream s1 = m_upStream s))
   \<and> (m_currentParser s = Some RequestHeaders \<and> 1 \<le> m_minorVersion (m_httpVersion (requestLine (clientRequest s)))
        \<and> virtualHost (clientRequest (parseHostOptions s)) = [] \<longrightarrow>
      (\<exists>s1. server_changeToNextParser se s = answer_stream se s1 \<and> m_statusCode (rsp_status (serverResponse s1)) = 400 \<and> m_upStream s1 = m_upStream s))
   \<and> (m_currentParser s = Some RequestHeaders \<and> \<not> m_badAnswer s
        \<and> (m_minorVersion (m_httpVersion (requestLine (clientRequest s))) = 0 \<or> virtualHost (clientRequest (parseHostOptions s)) \<noteq> [])
        \<and> m_securityMaxPostDataSize (req_content (clientRequest s)) < getOptionAsUINT64 (sh_header (req_headers (clientRequest s))) ''Content-Length'' \<longrightarrow>
      (\<exists>s1. server_changeToNextParser se s = answer_stream se s1 \<and> m_statusCode (rsp_status (serverResponse s1)) = 413 \<and> m_upStream s1 = m_upStream s))"
proof (intro conjI impI)
  assume "m_currentParser s = Some RequestLine \<and> m_majorVersion (m_httpVersion (requestLine (clientRequest s))) \<noteq> 1"
  then show "\<exists>s1. server_changeToNextParser se s = answer_stream se s1 \<and> m_statusCode (rsp_status (serverResponse s1)) = 505 \<and> m_upStream s1 = m_upStream s"
    by (simp add: server_changeToNextParser_def changeToNextParserFromClientRequestLine_def prepareServerVersionOnURI_def bad_answer Let_def)
      (rule exI, rule conjI, rule refl, simp)
next
  assume a: "m_currentParser s = Some RequestHeaders \<and> 1 \<le> m_minorVersion (m_httpVersion (requestLine (clientRequest s))) \<and> virtualHost (clientRequest (parseHostOptions s)) = []"
  then have "m_badAnswer (headers_parsed se s)" "m_statusCode (rsp_status (serverResponse (headers_parsed se s))) = 400" "m_upStream (headers_parsed se s) = m_upStream s"
    by (simp_all add: headers_parsed_def prepareServerVersionOnOptions_def Let_def)
  then show "\<exists>s1. server_changeToNextParser se s = answer_stream se s1 \<and> m_statusCode (rsp_status (serverResponse s1)) = 400 \<and> m_upStream s1 = m_upStream s"
    using a by (intro exI [of _ "(headers_parsed se s)\<lparr>m_currentParser := None\<rparr>"]) (simp add: server_changeToNextParser_def changeToNextParserFromClientHeaders_def bad_answer Let_def)
next
  assume a: "m_currentParser s = Some RequestHeaders \<and> \<not> m_badAnswer s
        \<and> (m_minorVersion (m_httpVersion (requestLine (clientRequest s))) = 0 \<or> virtualHost (clientRequest (parseHostOptions s)) \<noteq> [])
        \<and> m_securityMaxPostDataSize (req_content (clientRequest s)) < getOptionAsUINT64 (sh_header (req_headers (clientRequest s))) ''Content-Length''"
  note h = headers_parsed_good [of s se]
  have m: "m_securityMaxPostDataSize (setTransmitionMode c TRANSMIT_MODE_CONTENT_LENGTH) = m_securityMaxPostDataSize c" for c :: "('a, 'b) content"
    by (simp add: setTransmitionMode_def setParseMode_def setParseDataTargetSize_def Let_def)
  show "\<exists>s1. server_changeToNextParser se s = answer_stream se s1 \<and> m_statusCode (rsp_status (serverResponse s1)) = 413 \<and> m_upStream s1 = m_upStream s"
    using a h by (simp add: server_changeToNextParser_def changeToNextParserFromClientHeaders_def setContentLenSize_def m bad_answer Let_def)
      (rule exI, rule conjI, rule refl, simp)
qed


definition example_up :: "(b_mem_fields chunks, b_mem_fields chunks) upstream_env" where
  "example_up = \<lparr>ue_io = b_streamable (chunks_vt mem_vt (\<lambda>_. None)), ue_size = (\<lambda>_. size_max),
     ue_streamTo = (\<lambda>o'. b_streamTo (chunks_vt mem_vt (\<lambda>_. None)) o' (b_streamable (chunks_vt mem_vt (\<lambda>_. None)))),
     ue_streamToChunked = (\<lambda>o'. b_streamTo (chunks_vt mem_vt (\<lambda>_. None)) o' (chunk_streamable (b_streamable (chunks_vt mem_vt (\<lambda>_. None)))))\<rparr>"

definition example_se :: "(b_mem_fields, b_mem_fields chunks, b_mem_fields chunks) server_env" where
  "example_se = \<lparr>se_env = example_env, se_up = example_up, se_time = \<lparr>st_now = 0, st_toString = (\<lambda>_. ''now'')\<rparr>,
     se_handlers = \<lparr>procHTTPClientURI = (\<lambda>s. Inr (s, True)), procHTTPClientHeaders = (\<lambda>s. Inr (s, True)), procHTTPClientContent = (\<lambda>s. Inr (s, 200))\<rparr>,
     se_bio_decode = (\<lambda>_. None), se_setMultiPartBoundary = (\<lambda>o' _. o')\<rparr>"

theorem server_refusals_witness:
  "\<exists>s s1. http_server_new example_env chunks_new = Inr s
     \<and> server_changeToNextParser example_se (s\<lparr>clientRequest := (clientRequest s)\<lparr>requestLine := (requestLine (clientRequest s))\<lparr>m_httpVersion := version_parse ''HTTP/2.0''\<rparr>\<rparr>\<rparr>)
       = answer_stream example_se s1 \<and> m_statusCode (rsp_status (serverResponse s1)) = 505"
proof -
  obtain s :: "(b_mem_fields, b_mem_fields chunks, b_mem_fields chunks) http_server" where s: "http_server_new example_env chunks_new = Inr s"
    using server_new_exists [of chunks_new] by (rule exE)
  let ?s = "s\<lparr>clientRequest := (clientRequest s)\<lparr>requestLine := (requestLine (clientRequest s))\<lparr>m_httpVersion := version_parse ''HTTP/2.0''\<rparr>\<rparr>\<rparr>"
  have p: "split_compress (any_of ''/'') ''HTTP/2.0'' = [''HTTP'', ''2.0'']" "split_compress (any_of ''.'') ''2.0'' = [''2'', ''0'']" by code_simp+
  have "dec 2 = ''2''" by (simp add: dec.simps digit_def) code_simp
  then have "strtoul ''2'' = 2" using strtoul_dec [of 2 "[]"] by (simp add: size_max_def)
  then have "m_majorVersion (version_parse ''HTTP/2.0'') = 2" unfolding version_parse_def p by (simp add: p uint16_def)
  moreover have "m_currentParser ?s = Some RequestLine" using s by (auto simp: http_server_new_def http_base.defs split: sum.splits)
  ultimately show ?thesis using server_refusals [of ?s example_se] s by auto
qed

section \<open>The answer on the wire\<close>

definition status_text :: "'y http_status \<Rightarrow> bytes" where
  "status_text s = version_toString (st_httpVersion s) @ '' '' @ dec (m_statusCode s) @ '' '' @ m_statusMessage s @ crlf"

text \<open>
  C10. What the peer receives. When the headers that the answer needs can be built and the stream to the peer has room, the answer of a server whose body is sent
  in chunks is the status line, the header lines with the empty line, and the pieces of the body each behind its size, closed by the chunk of size
  zero, in this order and nothing else; the server is left with a new empty body.
\<close>

theorem server_answer_wire:
  assumes "roomy_sink (ue_io (se_up se)) delivered room" and "he_io (se_env se) = b_streamable vt"
    and "ue_streamToChunked (se_up se) = (\<lambda>o'. b_streamTo vt o' (chunk_streamable (ue_io (se_up se))))"
    and "m_transmitionMode (rsp_content (serverResponse s)) = TRANSMIT_MODE_CHUNKS"
    and "server_headers (he_rand (se_env se)) (se_time se) (ue_size (se_up se) (m_outStream (rsp_content (serverResponse s)))) (m_includeServerDate s) (serverResponse s) = Inr h"
    and "b_appendPlan vt (m_outStream (rsp_content (serverResponse s))) size_max 0 = PlanWrite ps" and "[] \<notin> set ps" and "\<forall>p\<in>set ps. length p < 2 ^ 32"
    and "length (concat ps) \<le> size_max"
    and "room (m_upStream s) (length (status_text (rsp_status (serverResponse s)) @ header_text h @ chunk_encode ps))"
  shows "\<exists>s'. answer_stream se s = Inr (s', succeed (writeStatus (m_outStream (rsp_content (serverResponse s)))))
    \<and> delivered (m_upStream s') = delivered (m_upStream s) @ status_text (rsp_status (serverResponse s)) @ header_text h @ chunk_encode ps
    \<and> m_outStream (rsp_content (serverResponse s')) = he_mk (se_env se) (m_containerType (rsp_content (serverResponse s)))"
proof -
  let ?io = "ue_io (se_up se)" and ?st = "status_text (rsp_status (serverResponse s))" and ?rs = "serverResponse s"
  obtain up1 where u1: "writeFullStream ?io (m_upStream s) ?st = Inr (up1, True)" "delivered up1 = delivered (m_upStream s) @ ?st"
      "room up1 (length (?st @ header_text h @ chunk_encode ps) - length ?st)"
    using roomy_sink.full_write [OF assms(1,10)] by (metis length_append le_add1)
  obtain up2 where u2: "header_streamToUpstream ?io h up1 = Inr (up2, True)" "delivered up2 = delivered up1 @ header_text h"
      "room up2 (length (?st @ header_text h @ chunk_encode ps) - length ?st - length (header_text h))"
    using roomy_sink.header_text_delivered [OF assms(1) u1(3), of h] by auto
  let ?s2 = "s\<lparr>serverResponse := ?rs\<lparr>rsp_headers := (rsp_headers ?rs)\<lparr>sh_header := h\<rparr>\<rparr>, m_upStream := up2\<rparr>"
  have r: "room up2 (length (chunk_encode ps))" using u2(3) by simp
  obtain up3 where u3: "content_streamToUpstream (b_streamable vt) ?io (ue_streamTo (se_up se)) (\<lambda>o'. b_streamTo vt o' (chunk_streamable ?io)) (rsp_content ?rs) up2
        = Inr (up3, succeed (writeStatus (m_outStream (rsp_content ?rs))))" "delivered up3 = delivered up2 @ chunk_encode ps"
    using roomy_sink.chunked_send [OF assms(1,6-9) r assms(4) refl] by blast
  have "status_streamToUpstream ?io (rsp_status ?rs) (m_upStream s) = Inr (up1, True)"
    using u1(1) by (simp add: status_streamToUpstream_def writeString_def status_text_def)
  moreover have "streamServerHeaders (he_rand (se_env se)) (se_time se) (se_up se) (s\<lparr>m_upStream := up1\<rparr>) = Inr (?s2, True)"
    using assms(5) u2(1) by (simp add: streamServerHeaders_def Let_def)
  ultimately have "answer_stream se s = Inr (?s2\<lparr>m_upStream := up3, serverResponse := (serverResponse ?s2)\<lparr>rsp_content := setStreamableObj (he_mk (se_env se)) (rsp_content ?rs) None\<rparr>\<rparr>,
      succeed (writeStatus (m_outStream (rsp_content ?rs))))"
    using u3(1) assms(2,3) by (simp add: answer_stream_def Let_def)
  then show ?thesis using u1(2) u2(2) u3(2) by (simp add: setStreamableObj_def setContainerType_def)
qed


text \<open>The headers of an answer can always be built when the random generator answers.\<close>

lemma header_replace_total: "header_inv h \<Longrightarrow> \<exists>h'. header_replace (Some buffer) h n v = Inr h' \<and> header_inv h'"
  using header_add_inv [of "header_remove h n" buffer n v 0] header_remove_inv [of h n] by (auto simp: header_replace_def)

lemma putOnHeaders_total: "header_inv h \<Longrightarrow> \<exists>h'. server_putOnHeaders date (Some buffer) m h = Inr h' \<and> header_inv h'"
proof (induction m arbitrary: h)
  case (Cons e m)
  obtain n c where e: "e = (n, c)" by (cases e)
  obtain h1 ok where "header_add (Some buffer) h ''Set-Cookie'' (toSetCookieString date c n) 0 = Inr (h1, ok)" "header_inv h1"
    using header_add_inv [OF Cons.prems] by blast
  then show ?case using Cons.IH by (simp add: e)
qed simp

definition header_ok :: "mime_header result \<Rightarrow> bool" where
  "header_ok r \<longleftrightarrow> (\<exists>h. r = Inr h \<and> header_inv h)"

lemma header_ok_steps:
  "header_inv h \<Longrightarrow> header_ok (header_replace (Some buffer) h n v)"
  "header_ok r \<Longrightarrow> header_ok (case r of Inl e \<Rightarrow> Inl e | Inr h \<Rightarrow> header_replace (Some buffer) h n v)"
  "header_ok r \<Longrightarrow> header_ok (case r of Inl e \<Rightarrow> Inl e | Inr h \<Rightarrow> Inr (header_remove h n))"
  "header_ok r \<Longrightarrow> header_ok (case r of Inl e \<Rightarrow> Inl e | Inr h \<Rightarrow> server_putOnHeaders date (Some buffer) m (header_remove h n))"
  "header_ok r \<Longrightarrow> header_ok r' \<Longrightarrow> header_ok (if b then r else r')"
  using header_replace_total header_remove_inv putOnHeaders_total by (auto simp: header_ok_def)

lemma server_headers_total:
  assumes "header_inv (sh_header (rsp_headers rs))"
  shows "\<exists>h. server_headers (Some buffer) tm n d rs = Inr h"
proof -
  have "header_ok (server_headers (Some buffer) tm n d rs)"
    unfolding server_headers_def Let_def
    by (intro header_ok_steps conjI assms header_remove_inv [THEN conjunct1])
  then show ?thesis by (auto simp: header_ok_def)
qed


text \<open>A stream that keeps everything, for an example.\<close>

definition list_io :: "bytes streamable" where
  "list_io = \<lparr>so_write = (\<lambda>out buf. Inr (out @ buf, Some (length buf))), so_status = (\<lambda>_. ws_init), so_set_status = (\<lambda>_ out. out)\<rparr>"

lemma list_io_roomy: "roomy_sink list_io id (\<lambda>_ _. True)"
  by unfold_locales (simp_all add: list_io_def ws_init_def)

definition list_se :: "(b_mem_fields, b_mem_fields chunks, bytes) server_env" where
  "list_se = \<lparr>se_env = example_env,
     se_up = \<lparr>ue_io = list_io, ue_size = (\<lambda>_. size_max), ue_streamTo = (\<lambda>o'. b_streamTo (chunks_vt mem_vt (\<lambda>_. None)) o' list_io),
       ue_streamToChunked = (\<lambda>o'. b_streamTo (chunks_vt mem_vt (\<lambda>_. None)) o' (chunk_streamable list_io))\<rparr>,
     se_time = \<lparr>st_now = 0, st_toString = (\<lambda>_. ''now'')\<rparr>,
     se_handlers = \<lparr>procHTTPClientURI = (\<lambda>s. Inr (s, True)), procHTTPClientHeaders = (\<lambda>s. Inr (s, True)), procHTTPClientContent = (\<lambda>s. Inr (s, 200))\<rparr>,
     se_bio_decode = (\<lambda>_. None), se_setMultiPartBoundary = (\<lambda>o' _. o')\<rparr>"

lemma list_se_simps [simp]:
  "ue_io (se_up list_se) = list_io" "he_io (se_env list_se) = b_streamable (chunks_vt mem_vt (\<lambda>_. None))"
  "ue_streamToChunked (se_up list_se) = (\<lambda>o'. b_streamTo (chunks_vt mem_vt (\<lambda>_. None)) o' (chunk_streamable list_io))"
  "he_rand (se_env list_se) = Some ''0123456789abcdef''"
  by (simp_all add: list_se_def example_env_def)

theorem server_answer_wire_witness:
  "\<exists>s s' ok h. answer_stream list_se s = Inr (s', ok) \<and> m_upStream s' = status_text (rsp_status (serverResponse s)) @ header_text h @ chunk_encode [''hi'']"
proof -
  let ?cvt = "chunks_vt mem_vt (\<lambda>_. None)" and ?bc = "fst (b_append (chunks_vt mem_vt (\<lambda>_. None)) chunks_new ''hi'') :: b_mem_fields chunks"
  obtain s0 :: "(b_mem_fields, b_mem_fields chunks, bytes) http_server" where s0: "http_server_new example_env [] = Inr s0"
    using server_new_exists [of "[]"] by (rule exE)
  let ?s = "s0\<lparr>m_upStream := [], serverResponse := (http_response_new ?cvt (\<lambda>_. chunks_new))
      \<lparr>rsp_content := (content_new ?cvt (\<lambda>_. chunks_new))\<lparr>m_transmitionMode := TRANSMIT_MODE_CHUNKS, m_outStream := ?bc\<rparr>\<rparr>\<rparr>"
  have "header_inv (sh_header (rsp_headers (serverResponse ?s)))" by (simp add: http_response_new_def sub_header_awaits(2) header_inv_new)
  then obtain h where h: "server_headers (he_rand (se_env list_se)) (se_time list_se) (ue_size (se_up list_se) (m_outStream (rsp_content (serverResponse ?s)))) (m_includeServerDate ?s) (serverResponse ?s) = Inr h"
    unfolding list_se_simps(4) using server_headers_total by blast
  have plan: "b_appendPlan ?cvt (m_outStream (rsp_content (serverResponse ?s))) size_max 0 = PlanWrite [''hi'']"
    using single_chunk_plan [of "''hi''" mem_vt "\<lambda>_. None"] by simp
  have r: "roomy_sink (ue_io (se_up list_se)) id (\<lambda>_ _. True)" using list_io_roomy by simp
  have m: "m_transmitionMode (rsp_content (serverResponse ?s)) = TRANSMIT_MODE_CHUNKS" "[] \<notin> set [''hi'']" "\<forall>p\<in>set [''hi'']. length p < 2 ^ 32" "length (concat [''hi'']) \<le> size_max"
    by (simp_all add: size_max_def)
  have c: "ue_streamToChunked (se_up list_se) = (\<lambda>o'. b_streamTo ?cvt o' (chunk_streamable (ue_io (se_up list_se))))" by simp
  from server_answer_wire [OF r list_se_simps(2) c m(1) h plan m(2-4) TrueI]
  obtain s' where "answer_stream list_se ?s = Inr (s', succeed (writeStatus (m_outStream (rsp_content (serverResponse ?s)))))"
    "m_upStream s' = m_upStream ?s @ status_text (rsp_status (serverResponse ?s)) @ header_text h @ chunk_encode [''hi'']" by auto
  moreover have "m_upStream ?s = []" by simp
  ultimately show ?thesis unfolding append_Nil by (metis append_Nil)
qed

section \<open>Text in a page\<close>

text \<open>The reader of character references, for the five that the server writes.\<close>

fun htmlDecode :: "bytes \<Rightarrow> bytes" where
  "htmlDecode [] = []"
| "htmlDecode (c # s) =
     (if c = CHR ''&'' then
        if starts_with s ''lt;'' then CHR ''<'' # htmlDecode (drop 3 s)
        else if starts_with s ''gt;'' then CHR ''>'' # htmlDecode (drop 3 s)
        else if starts_with s ''quot;'' then CHR 0x22 # htmlDecode (drop 5 s)
        else if starts_with s ''amp;'' then CHR ''&'' # htmlDecode (drop 4 s)
        else if starts_with s ''apos;'' then CHR 0x27 # htmlDecode (drop 5 s)
        else c # htmlDecode s
      else c # htmlDecode s)"

text \<open>
  Text in a page. The encoded text has no character that opens or closes a tag or a quoted attribute, and a reader of character references
  gets the text back.
\<close>

theorem html_encode_safe:
  "set (htmlEncode s) \<inter> {CHR ''<'', CHR ''>'', CHR 0x22, CHR 0x27} = {} \<and> htmlDecode (htmlEncode s) = s"
proof (induction s)
  case (Cons c s)
  have "htmlDecode (''&lt;'' @ r) = CHR ''<'' # htmlDecode r" "htmlDecode (''&gt;'' @ r) = CHR ''>'' # htmlDecode r" "htmlDecode (''&quot;'' @ r) = CHR 0x22 # htmlDecode r"
    "htmlDecode (''&amp;'' @ r) = CHR ''&'' # htmlDecode r" "htmlDecode (''&apos;'' @ r) = CHR 0x27 # htmlDecode r" for r
    by (simp_all add: starts_with_def)
  then show ?case using Cons.IH by (simp del: htmlDecode.simps) (auto simp: htmlDecode.simps(2))
qed simp

end
