(* ===== verification/Sessions.thy ===== *)
theory Sessions
  imports SafeMap JWTToken MIMEHeader "HOL-Library.Char_ord" "HOL-Library.List_Lexorder"
begin

text \<open>
  Authenticated sessions (\<^verbatim>\<open>src/Mantids30/Sessions/session.cpp\<close>, \<^verbatim>\<open>session_vars.cpp\<close>) and the manager of web
  sessions (\<^verbatim>\<open>src/Mantids30/Server_MonolithWebAPI/sessionsmanager.cpp\<close>), which keeps the sessions in a
  thread-safe map (\<open>SafeMap\<close>) and, under a mutex of its own, a registry of the sessions of every user.
  A session object is shared by its users, so the manager refers to it by an address in a store. The
  values of \<^verbatim>\<open>time(nullptr)\<close> and the random bytes are arguments.
\<close>

section \<open>Sessions\<close>

record session =
  m_jwtAuthenticatedInfo :: token
  m_user :: bytes
  m_domain :: bytes
  m_impersonator :: bytes
  m_firstActivityTimestamp :: int
  m_lastActivityTimestamp :: int
  m_sessionVariables :: "(bytes \<times> json) list"

definition session_new :: "int \<Rightarrow> int \<Rightarrow> token \<Rightarrow> session" where
  "session_new t t' jwt =
     \<lparr>m_jwtAuthenticatedInfo = jwt, m_user = getSubject jwt, m_domain = getDomain jwt, m_impersonator = getImpersonator jwt,
      m_firstActivityTimestamp = t, m_lastActivityTimestamp = t', m_sessionVariables = []\<rparr>"

definition updateLastActivity :: "int \<Rightarrow> session \<Rightarrow> session" where
  "updateLastActivity now s = s\<lparr>m_lastActivityTimestamp := now\<rparr>"

definition setLastActivity :: "session \<Rightarrow> int \<Rightarrow> session" where
  "setLastActivity s v = s\<lparr>m_lastActivityTimestamp := v\<rparr>"

text \<open>The difference of the times is cut to 32 bits.\<close>

definition isLastActivityExpired :: "int \<Rightarrow> session \<Rightarrow> nat \<Rightarrow> bool" where
  "isLastActivityExpired now s expSeconds =
     (if m_lastActivityTimestamp s > now then True
      else nat ((now - m_lastActivityTimestamp s) mod 2 ^ 32) > expSeconds)"

definition setSessionVariable :: "session \<Rightarrow> bytes \<Rightarrow> json \<Rightarrow> session" where
  "setSessionVariable s varName varValue = s\<lparr>m_sessionVariables := assoc_update varName varValue (m_sessionVariables s)\<rparr>"

definition getSessionVariableValue :: "session \<Rightarrow> bytes \<Rightarrow> json" where
  "getSessionVariableValue s varName = (case map_of (m_sessionVariables s) varName of Some v \<Rightarrow> v | None \<Rightarrow> JNull)"

definition doesSessionVariableExist :: "session \<Rightarrow> bytes \<Rightarrow> bool" where
  "doesSessionVariableExist s varName \<longleftrightarrow> map_of (m_sessionVariables s) varName \<noteq> None"

definition clearSessionVariable :: "session \<Rightarrow> bytes \<Rightarrow> session" where
  "clearSessionVariable s varName = s\<lparr>m_sessionVariables := mm_erase varName (m_sessionVariables s)\<rparr>"

section \<open>The session manager\<close>

record web_session =
  authSession :: nat
  networkClientInfo :: json

definition compareUserAgent :: "web_session \<Rightarrow> bytes \<Rightarrow> bool" where
  "compareUserAgent w userAgent \<longleftrightarrow> JSON_ASSTRING (networkClientInfo w) ''userAgent'' '''' = userAgent"

definition compareRemoteAddress :: "web_session \<Rightarrow> bytes \<Rightarrow> bool" where
  "compareRemoteAddress w remoteAddress \<longleftrightarrow> JSON_ASSTRING (networkClientInfo w) ''remoteAddress'' '''' = remoteAddress"

record sessions_manager =
  m_sessions :: "(bytes, web_session) key_value_map"
  m_sessionClientInfo :: "(bytes \<times> (bytes \<times> json) list) list"
  m_gcWaitTime :: nat
  m_MaxInactiveSeconds :: nat
  m_maxSessionsPerUser :: nat

definition sessions_manager_new :: sessions_manager where
  "sessions_manager_new =
     \<lparr>m_sessions = Map.empty, m_sessionClientInfo = [], m_gcWaitTime = 1, m_MaxInactiveSeconds = 900, m_maxSessionsPerUser = 100\<rparr>"

definition setMaxInactiveSeconds :: "sessions_manager \<Rightarrow> nat \<Rightarrow> sessions_manager" where
  "setMaxInactiveSeconds m v = m\<lparr>m_MaxInactiveSeconds := v\<rparr>"

definition setMaxSessionsPerUser :: "sessions_manager \<Rightarrow> nat \<Rightarrow> sessions_manager" where
  "setMaxSessionsPerUser m v = m\<lparr>m_maxSessionsPerUser := v\<rparr>"

definition setGcWaitTime :: "sessions_manager \<Rightarrow> nat \<Rightarrow> sessions_manager" where
  "setGcWaitTime m v = m\<lparr>m_gcWaitTime := v\<rparr>"

text \<open>The section of \<^verbatim>\<open>createSession\<close> under the mutex; \<open>None\<close> when the user has too many sessions.\<close>

definition create_register :: "sessions_manager \<Rightarrow> bytes \<Rightarrow> bytes \<Rightarrow> json \<Rightarrow> sessions_manager option" where
  "create_register m effectiveUser sessionId info =
     (case map_of (m_sessionClientInfo m) effectiveUser of
        None \<Rightarrow> Some (m\<lparr>m_sessionClientInfo := assoc_update effectiveUser [(sessionId, info)] (m_sessionClientInfo m)\<rparr>)
      | Some ms \<Rightarrow>
          if length ms \<ge> m_maxSessionsPerUser m then None
          else Some (m\<lparr>m_sessionClientInfo := assoc_update effectiveUser (assoc_update sessionId info ms) (m_sessionClientInfo m)\<rparr>))"

text \<open>The result is the session identifier and the value left in \<^verbatim>\<open>*maxAge\<close>.\<close>

definition createSession ::
  "(nat \<Rightarrow> session) \<Rightarrow> bytes option \<Rightarrow> bytes option \<Rightarrow> sessions_manager \<Rightarrow> nat \<Rightarrow> json
    \<Rightarrow> (sessions_manager \<times> bytes \<times> nat) result" where
  "createSession st rand rand' m sess info =
     (case createRandomString rand of
        Inl e \<Rightarrow> Inl e
      | Inr a \<Rightarrow>
          (case createRandomString rand' of
             Inl e \<Rightarrow> Inl e
           | Inr b \<Rightarrow>
               let sessionId = a @ '':'' @ b in
               (case create_register m (m_user (st sess)) sessionId info of
                  None \<Rightarrow> Inr (m, '''', 0)
                | Some m' \<Rightarrow>
                    (case addElement (m_sessions m') sessionId (Some \<lparr>authSession = sess, networkClientInfo = info\<rparr>) of
                       (ss, ok) \<Rightarrow> Inr (m'\<lparr>m_sessions := ss\<rparr>, (if ok then sessionId else ''''), m_MaxInactiveSeconds m)))))"

text \<open>The section of \<^verbatim>\<open>destroySession\<close> under the mutex.\<close>

definition destroy_unregister :: "sessions_manager \<Rightarrow> bytes \<Rightarrow> bytes \<Rightarrow> sessions_manager result" where
  "destroy_unregister m effectiveUser sessionID =
     (case map_of (m_sessionClientInfo m) effectiveUser of
        None \<Rightarrow> Inl (RuntimeError ''Unregistered Session??'')
      | Some ms \<Rightarrow>
          if map_of ms sessionID = None then Inl (RuntimeError ''Unregistered Session??'')
          else (let ms' = mm_erase sessionID ms
                in Inr (m\<lparr>m_sessionClientInfo :=
                     (if ms' = [] then mm_erase effectiveUser (m_sessionClientInfo m)
                      else assoc_update effectiveUser ms' (m_sessionClientInfo m))\<rparr>)))"

text \<open>
  \<^verbatim>\<open>destroyElement\<close> of the map, called by the only running thread: \<open>None\<close> when it has to wait for a reader.
\<close>

definition destroyElement :: "('k, 'i) key_value_map \<Rightarrow> 'k \<Rightarrow> (('k, 'i) key_value_map \<times> bool) option" where
  "destroyElement ss key =
     (case destroy_begin ss key of
        None \<Rightarrow> Some (ss, False)
      | Some (ss', i) \<Rightarrow> if destroy_must_wait ss' key then None else Some (destroy_end ss' key, True))"

definition destroySession ::
  "(nat \<Rightarrow> session) \<Rightarrow> sessions_manager \<Rightarrow> bytes \<Rightarrow> (sessions_manager \<times> bool) result option" where
  "destroySession st m sessionID =
     (case openElement (m_sessions m) sessionID of
        (ss, None) \<Rightarrow> Some (Inr (m, False))
      | (ss, Some sess) \<Rightarrow>
          (case releaseElement ss sessionID of
             Inl e \<Rightarrow> Some (Inl e)
           | Inr (ss', wake, ok) \<Rightarrow>
               (case destroyElement ss' sessionID of
                  None \<Rightarrow> None
                | Some (ss'', False) \<Rightarrow> Some (Inr (m\<lparr>m_sessions := ss''\<rparr>, False))
                | Some (ss'', True) \<Rightarrow>
                    (case destroy_unregister (m\<lparr>m_sessions := ss''\<rparr>) (m_user (st (authSession sess))) sessionID of
                       Inl e \<Rightarrow> Some (Inl e)
                     | Inr m' \<Rightarrow> Some (Inr (m', True))))))"

definition openSession ::
  "(nat \<Rightarrow> session) \<Rightarrow> int \<Rightarrow> int \<Rightarrow> sessions_manager \<Rightarrow> bytes \<Rightarrow> sessions_manager \<times> (web_session \<times> nat) option" where
  "openSession st now now' m sessionID =
     (case openElement (m_sessions m) sessionID of
        (ss, Some xs) \<Rightarrow>
          let s = st (authSession xs);
              lastActivity = nat (m_lastActivityTimestamp s mod 2 ^ 64);
              maxAge =
                (if isLastActivityExpired now s (m_MaxInactiveSeconds m) then 0
                 else (let expirationTime = uadd lastActivity (m_MaxInactiveSeconds m); currentTime = nat (now' mod 2 ^ 64)
                       in if expirationTime > currentTime then expirationTime - currentTime else 0))
          in (m\<lparr>m_sessions := ss\<rparr>, Some (xs, maxAge))
      | (ss, None) \<Rightarrow> (m, None))"

definition releaseSession :: "sessions_manager \<Rightarrow> bytes \<Rightarrow> (sessions_manager \<times> bool) result" where
  "releaseSession m sessionID =
     (case releaseElement (m_sessions m) sessionID of
        Inl e \<Rightarrow> Inl e
      | Inr (ss, wake, ok) \<Rightarrow> Inr (m\<lparr>m_sessions := ss\<rparr>, ok))"

text \<open>\<^verbatim>\<open>gc\<close>: the keys are visited in the order of the map; \<open>now key\<close> is the time at which \<open>key\<close> is examined.\<close>

fun gc_loop :: "(nat \<Rightarrow> session) \<Rightarrow> (bytes \<Rightarrow> int) \<Rightarrow> nat \<Rightarrow> bytes list \<Rightarrow> (bytes, web_session) key_value_map
    \<Rightarrow> (bytes, web_session) key_value_map result option" where
  "gc_loop st now maxInactive [] ss = Some (Inr ss)"
| "gc_loop st now maxInactive (key # ks) ss =
     (case openElement ss key of
        (ss', None) \<Rightarrow> gc_loop st now maxInactive ks ss'
      | (ss', Some s) \<Rightarrow>
          (case releaseElement ss' key of
             Inl e \<Rightarrow> Some (Inl e)
           | Inr (ss'', wake, ok) \<Rightarrow>
               if isLastActivityExpired (now key) (st (authSession s)) maxInactive then
                 (case destroyElement ss'' key of
                    None \<Rightarrow> None
                  | Some (ss''', ok) \<Rightarrow> gc_loop st now maxInactive ks ss''')
               else gc_loop st now maxInactive ks ss''))"

definition gc :: "(nat \<Rightarrow> session) \<Rightarrow> (bytes \<Rightarrow> int) \<Rightarrow> sessions_manager \<Rightarrow> sessions_manager result option" where
  "gc st now m =
     (case gc_loop st now (m_MaxInactiveSeconds m) (sorted_list_of_set (map_getKeys (m_sessions m))) (m_sessions m) of
        None \<Rightarrow> None
      | Some (Inl e) \<Rightarrow> Some (Inl e)
      | Some (Inr ss) \<Rightarrow> Some (Inr (m\<lparr>m_sessions := ss\<rparr>)))"

definition validateSessionIDFormat :: "bytes \<Rightarrow> bool" where
  "validateSessionIDFormat sessionID =
     (if sessionID = [] then True
      else length sessionID = 25 \<and> list_all is_alnum (take 12 sessionID)
         \<and> sessionID ! 12 = CHR '':'' \<and> list_all is_alnum (drop 13 sessionID))"

definition truncateSessionId :: "bytes \<Rightarrow> bytes" where
  "truncateSessionId s = (if length s > 12 then take 12 s else s)"

text \<open>\<^verbatim>\<open>getUserSessionsInfo\<close>: the subscript creates an empty entry for an unknown user.\<close>

fun sessions_info :: "json \<Rightarrow> (bytes \<times> json) list \<Rightarrow> json result" where
  "sessions_info r [] = Inr r"
| "sessions_info r ((sid, v) # ms) =
     (case json_set r (truncateSessionId sid) v of Inl e \<Rightarrow> Inl e | Inr r' \<Rightarrow> sessions_info r' ms)"

definition getUserSessionsInfo :: "sessions_manager \<Rightarrow> bytes \<Rightarrow> sessions_manager \<times> json result" where
  "getUserSessionsInfo m effectiveUserName =
     (case map_of (m_sessionClientInfo m) effectiveUserName of
        Some ms \<Rightarrow> (m, sessions_info JNull ms)
      | None \<Rightarrow> (m\<lparr>m_sessionClientInfo := assoc_update effectiveUserName [] (m_sessionClientInfo m)\<rparr>, Inr JNull))"

section \<open>Threads of the manager\<close>

text \<open>
  What a thread does between the locked sections. \<open>SDestroying\<close> and \<open>SWaiting\<close> carry the user that
  \<^verbatim>\<open>destroySession\<close> has read, or nothing when the collector destroys.
\<close>

datatype sess_activity =
    SIdle
  | SCreating bytes web_session
  | SReading bytes
  | SDestroyOpened bytes bytes
  | SGcOpened bytes web_session
  | SDestroying bytes "bytes option"
  | SWaiting bytes "bytes option"
  | SErased bytes bytes

text \<open>
  Besides the manager, the session objects and the threads, the state records to which user an identifier
  was issued, and whether an operation of the manager has thrown; neither is read by the program.
\<close>

record sess_system =
  manager :: sessions_manager
  sess_store :: "nat \<Rightarrow> session"
  sess_acts :: "nat \<Rightarrow> sess_activity"
  issued :: "bytes \<rightharpoonup> bytes"
  thrown :: bool

definition sess_start :: "nat \<Rightarrow> (nat \<Rightarrow> session) \<Rightarrow> sess_system" where
  "sess_start lim st =
     \<lparr>manager = setMaxSessionsPerUser sessions_manager_new lim, sess_store = st, sess_acts = (\<lambda>_. SIdle), issued = Map.empty, thrown = False\<rparr>"

abbreviation with_sessions :: "sess_system \<Rightarrow> (bytes, web_session) key_value_map \<Rightarrow> sess_system" where
  "with_sessions s ss \<equiv> s\<lparr>manager := (manager s)\<lparr>m_sessions := ss\<rparr>\<rparr>"

abbreviation web_user :: "(nat \<Rightarrow> session) \<Rightarrow> web_session \<Rightarrow> bytes" where
  "web_user st w \<equiv> m_user (st (authSession w))"

text \<open>
  The steps; \<open>lim\<close> bounds the limits that \<^verbatim>\<open>setMaxSessionsPerUser\<close> sets. The random identifiers do not repeat; there are fewer readers of one session than the
  counter of 32 bits can hold; the operations on session objects keep their user (there
  is no operation that sets it); the collector visits keys in any order, each iteration as in \<open>gc_loop\<close>.
\<close>

fun opens :: "sess_activity \<Rightarrow> bytes \<Rightarrow> bool" where
  "opens (SReading sid) x \<longleftrightarrow> sid = x"
| "opens (SDestroyOpened sid u) x \<longleftrightarrow> sid = x"
| "opens (SGcOpened sid w) x \<longleftrightarrow> sid = x"
| "opens _ x \<longleftrightarrow> False"

definition can_open :: "sess_system \<Rightarrow> bytes \<Rightarrow> bool" where
  "can_open s sid \<longleftrightarrow> (case m_sessions (manager s) sid of Some el \<Rightarrow> numReaders el < 2 ^ 32 - 1 | None \<Rightarrow> True)"

inductive sess_step :: "nat \<Rightarrow> sess_system \<Rightarrow> sess_system \<Rightarrow> bool" for lim where
  step_register: "sess_acts s t = SIdle \<Longrightarrow> issued s sid = None \<Longrightarrow>
     create_register (manager s) (web_user (sess_store s) w) sid (networkClientInfo w) = Some m \<Longrightarrow>
     sess_step lim s (s\<lparr>manager := m, sess_acts := (sess_acts s)(t := SCreating sid w), issued := (issued s)(sid \<mapsto> web_user (sess_store s) w)\<rparr>)"
| step_insert: "sess_acts s t = SCreating sid w \<Longrightarrow> addElement (m_sessions (manager s)) sid (Some w) = (ss, ok) \<Longrightarrow>
     sess_step lim s (with_sessions s ss\<lparr>sess_acts := (sess_acts s)(t := SIdle)\<rparr>)"
| step_open_session: "sess_acts s t = SIdle \<Longrightarrow> can_open s sid \<Longrightarrow> openElement (m_sessions (manager s)) sid = (ss, Some w) \<Longrightarrow>
     sess_step lim s (with_sessions s ss\<lparr>sess_acts := (sess_acts s)(t := SReading sid)\<rparr>)"
| step_release_session: "sess_acts s t = SReading sid \<Longrightarrow> releaseElement (m_sessions (manager s)) sid = Inr (ss, wake, ok) \<Longrightarrow>
     sess_step lim s (with_sessions s ss\<lparr>sess_acts := (sess_acts s)(t := SIdle)\<rparr>)"
| step_release_throws: "opens (sess_acts s t) sid \<Longrightarrow> releaseElement (m_sessions (manager s)) sid = Inl e \<Longrightarrow>
     sess_step lim s (s\<lparr>thrown := True, sess_acts := (sess_acts s)(t := SIdle)\<rparr>)"
| step_object: "m_user x = m_user (sess_store s r) \<Longrightarrow>
     sess_step lim s (s\<lparr>sess_store := (sess_store s)(r := x)\<rparr>)"
| step_info: "sess_step lim s (s\<lparr>manager := fst (getUserSessionsInfo (manager s) u)\<rparr>)"
| step_set_inactive: "sess_step lim s (s\<lparr>manager := setMaxInactiveSeconds (manager s) v\<rparr>)"
| step_set_limit: "v \<le> lim \<Longrightarrow> sess_step lim s (s\<lparr>manager := setMaxSessionsPerUser (manager s) v\<rparr>)"
| step_destroy_open: "sess_acts s t = SIdle \<Longrightarrow> can_open s sid \<Longrightarrow> openElement (m_sessions (manager s)) sid = (ss, Some w) \<Longrightarrow>
     sess_step lim s (with_sessions s ss\<lparr>sess_acts := (sess_acts s)(t := SDestroyOpened sid (web_user (sess_store s) w))\<rparr>)"
| step_destroy_release: "sess_acts s t = SDestroyOpened sid u \<Longrightarrow> releaseElement (m_sessions (manager s)) sid = Inr (ss, wake, ok) \<Longrightarrow>
     sess_step lim s (with_sessions s ss\<lparr>sess_acts := (sess_acts s)(t := SDestroying sid (Some u))\<rparr>)"
| step_gc_open: "sess_acts s t = SIdle \<Longrightarrow> can_open s sid \<Longrightarrow> openElement (m_sessions (manager s)) sid = (ss, Some w) \<Longrightarrow>
     sess_step lim s (with_sessions s ss\<lparr>sess_acts := (sess_acts s)(t := SGcOpened sid w)\<rparr>)"
| step_gc_release: "sess_acts s t = SGcOpened sid w \<Longrightarrow> releaseElement (m_sessions (manager s)) sid = Inr (ss, wake, ok) \<Longrightarrow>
     sess_step lim s (with_sessions s ss\<lparr>sess_acts := (sess_acts s)(t :=
       (if isLastActivityExpired now (sess_store s (authSession w)) (m_MaxInactiveSeconds (manager s)) then SDestroying sid None else SIdle))\<rparr>)"
| step_take: "sess_acts s t = SDestroying sid u \<Longrightarrow> destroy_begin (m_sessions (manager s)) sid = Some (ss, w) \<Longrightarrow>
     sess_step lim s (with_sessions s ss\<lparr>sess_acts := (sess_acts s)(t := SWaiting sid u)\<rparr>)"
| step_taken: "sess_acts s t = SDestroying sid u \<Longrightarrow> destroy_begin (m_sessions (manager s)) sid = None \<Longrightarrow>
     sess_step lim s (s\<lparr>sess_acts := (sess_acts s)(t := SIdle)\<rparr>)"
| step_delete: "sess_acts s t = SWaiting sid u \<Longrightarrow> \<not> destroy_must_wait (m_sessions (manager s)) sid \<Longrightarrow>
     sess_step lim s (with_sessions s (destroy_end (m_sessions (manager s)) sid)\<lparr>sess_acts := (sess_acts s)(t :=
       (case u of Some u' \<Rightarrow> SErased sid u' | None \<Rightarrow> SIdle))\<rparr>)"
| step_unregister: "sess_acts s t = SErased sid u \<Longrightarrow>
     sess_step lim s (s\<lparr>manager := (case destroy_unregister (manager s) u sid of Inr m \<Rightarrow> m | Inl e \<Rightarrow> manager s),
       thrown := (thrown s \<or> (\<exists>e. destroy_unregister (manager s) u sid = Inl e)), sess_acts := (sess_acts s)(t := SIdle)\<rparr>)"

inductive sess_reachable :: "nat \<Rightarrow> sess_system \<Rightarrow> bool" for lim where
  sess_reach_start: "sess_reachable lim (sess_start lim st)"
| sess_reach_step: "sess_reachable lim s \<Longrightarrow> sess_step lim s s' \<Longrightarrow> sess_reachable lim s'"

section \<open>Invariant\<close>

definition registered :: "sessions_manager \<Rightarrow> bytes \<Rightarrow> bytes \<Rightarrow> bool" where
  "registered m u sid \<longleftrightarrow> (\<exists>ms. map_of (m_sessionClientInfo m) u = Some ms \<and> map_of ms sid \<noteq> None)"

text \<open>The identifiers that a thread is responsible for.\<close>

fun holds :: "sess_activity \<Rightarrow> bytes \<Rightarrow> bool" where
  "holds (SCreating sid w) x = (sid = x)"
| "holds (SWaiting sid u) x = (sid = x)"
| "holds (SErased sid u) x = (sid = x)"
| "holds _ x = False"

fun act_ok :: "sess_system \<Rightarrow> sess_activity \<Rightarrow> bool" where
  "act_ok s (SCreating sid w) \<longleftrightarrow> issued s sid = Some (web_user (sess_store s) w)
     \<and> registered (manager s) (web_user (sess_store s) w) sid \<and> m_sessions (manager s) sid = None"
| "act_ok s (SDestroyOpened sid u) \<longleftrightarrow> issued s sid = Some u"
| "act_ok s (SDestroying sid u) \<longleftrightarrow> (u \<noteq> None \<longrightarrow> issued s sid = u)"
| "act_ok s (SWaiting sid u) \<longleftrightarrow> (u \<noteq> None \<longrightarrow> issued s sid = u)
     \<and> (\<exists>el. m_sessions (manager s) sid = Some el \<and> item el = None)"
| "act_ok s (SErased sid u) \<longleftrightarrow> issued s sid = Some u \<and> registered (manager s) u sid \<and> m_sessions (manager s) sid = None"
| "act_ok s _ \<longleftrightarrow> True"

definition element_ok :: "sess_system \<Rightarrow> bytes \<Rightarrow> bool" where
  "element_ok s sid \<longleftrightarrow>
     (\<forall>el. m_sessions (manager s) sid = Some el \<longrightarrow>
        (\<exists>u. issued s sid = Some u \<and> registered (manager s) u sid \<and> (\<forall>w. item el = Some w \<longrightarrow> web_user (sess_store s) w = u)))"

definition info_ok :: "nat \<Rightarrow> (bytes \<times> (bytes \<times> json) list) list \<Rightarrow> bool" where
  "info_ok lim info \<longleftrightarrow> (\<forall>u ms. map_of info u = Some ms \<longrightarrow> length ms \<le> max 1 lim)"

definition sess_inv :: "nat \<Rightarrow> sess_system \<Rightarrow> bool" where
  "sess_inv lim s \<longleftrightarrow>
     m_maxSessionsPerUser (manager s) \<le> lim \<and> info_ok lim (m_sessionClientInfo (manager s))
   \<and> (\<forall>u sid. registered (manager s) u sid \<longrightarrow> issued s sid = Some u)
   \<and> (\<forall>sid. element_ok s sid) \<and> (\<forall>t. act_ok s (sess_acts s t))
   \<and> (\<forall>t t' sid. holds (sess_acts s t) sid \<longrightarrow> holds (sess_acts s t') sid \<longrightarrow> t = t')
   \<and> \<not> thrown s"

lemma map_of_mm_erase: "map_of (mm_erase k ms) x = (if x = k then None else map_of ms x)"
  by (induction ms) (auto simp: mm_erase_def)

lemma length_mm_erase: "length (mm_erase k ms) \<le> length ms"
  by (simp add: mm_erase_def)

lemma length_assoc_update: "length (assoc_update k v ms) \<le> Suc (length ms)"
  by (induction k v ms rule: assoc_update.induct) auto

lemma sess_invD:
  assumes "sess_inv lim s"
  shows "m_maxSessionsPerUser (manager s) \<le> lim" and "info_ok lim (m_sessionClientInfo (manager s))"
    and "registered (manager s) u sid \<Longrightarrow> issued s sid = Some u"
    and "element_ok s sid" and "act_ok s (sess_acts s t)"
    and "holds (sess_acts s t) sid \<Longrightarrow> holds (sess_acts s t') sid \<Longrightarrow> t = t'" and "\<not> thrown s"
  using assms by (auto simp: sess_inv_def)

lemma sess_invI:
  assumes "m_maxSessionsPerUser (manager s) \<le> lim" and "info_ok lim (m_sessionClientInfo (manager s))"
    and "\<And>u sid. registered (manager s) u sid \<Longrightarrow> issued s sid = Some u"
    and "\<And>sid. element_ok s sid" and "\<And>t. act_ok s (sess_acts s t)"
    and "\<And>t t' sid. holds (sess_acts s t) sid \<Longrightarrow> holds (sess_acts s t') sid \<Longrightarrow> t = t'" and "\<not> thrown s"
  shows "sess_inv lim s"
  unfolding sess_inv_def using assms by blast

lemma sess_start_inv: "sess_inv lim (sess_start lim st)"
  by (simp add: sess_inv_def sess_start_def info_ok_def registered_def element_ok_def setMaxSessionsPerUser_def sessions_manager_new_def)

text \<open>Opening and releasing change counters only.\<close>

definition same_items :: "('k, 'i) key_value_map \<Rightarrow> ('k, 'i) key_value_map \<Rightarrow> bool" where
  "same_items ss ss' \<longleftrightarrow> (\<forall>x. map_option item (ss x) = map_option item (ss' x))"

lemma open_same_items: "openElement ss key = (ss', r) \<Longrightarrow> same_items ss' ss"
  by (auto simp: openElement_def same_items_def split: option.splits)

lemma open_item: "openElement ss key = (ss', Some i) \<Longrightarrow> \<exists>el. ss key = Some el \<and> item el = Some i"
  by (auto simp: openElement_def split: option.splits)

lemma release_same_items: "releaseElement ss key = Inr (ss', r) \<Longrightarrow> same_items ss' ss"
  by (auto simp: releaseElement_def same_items_def split: option.splits if_splits)

lemma same_itemsD:
  assumes "same_items ss' ss"
  shows "ss' x = None \<longleftrightarrow> ss x = None" and "ss' x = Some el \<Longrightarrow> \<exists>el'. ss x = Some el' \<and> item el' = item el"
    and "ss x = Some el \<Longrightarrow> \<exists>el'. ss' x = Some el' \<and> item el' = item el"
proof -
  have x: "map_option item (ss' x) = map_option item (ss x)" using assms by (simp add: same_items_def)
  show "ss' x = None \<longleftrightarrow> ss x = None" using x by (cases "ss x"; cases "ss' x") auto
  show "ss' x = Some el \<Longrightarrow> \<exists>el'. ss x = Some el' \<and> item el' = item el" using x by (cases "ss x") auto
  show "ss x = Some el \<Longrightarrow> \<exists>el'. ss' x = Some el' \<and> item el' = item el" using x by (cases "ss' x") auto
qed

lemma registered_cong [simp]: "registered (m\<lparr>m_maxSessionsPerUser := n\<rparr>) = registered m" "registered (m\<lparr>m_sessions := ss\<rparr>) = registered m" "registered (m\<lparr>m_MaxInactiveSeconds := v\<rparr>) = registered m"
  by (auto simp: registered_def fun_eq_iff)

lemma counters_inv:
  assumes "sess_inv lim s" and "same_items ss (m_sessions (manager s))" and "act_ok s a" and "\<And>x. \<not> holds a x"
  shows "sess_inv lim (with_sessions s ss\<lparr>sess_acts := (sess_acts s)(t := a)\<rparr>)"
proof -
  let ?s = "with_sessions s ss\<lparr>sess_acts := (sess_acts s)(t := a)\<rparr>"
  note inv = sess_invD [OF assms(1)] and items = same_itemsD [OF assms(2)]
  have act: "act_ok ?s b" if "act_ok s b" for b
    using that by (cases b) (fastforce simp: items(1) dest: items(3))+
  have el: "element_ok ?s sid" for sid
    unfolding element_ok_def
  proof (intro allI impI)
    fix el assume "m_sessions (manager ?s) sid = Some el"
    then obtain el' where e: "m_sessions (manager s) sid = Some el'" "item el' = item el" using items(2) by auto
    then show "\<exists>u. issued ?s sid = Some u \<and> registered (manager ?s) u sid \<and> (\<forall>w. item el = Some w \<longrightarrow> web_user (sess_store ?s) w = u)"
      using inv(4) [of sid] by (simp add: element_ok_def)
  qed
  have hold: "holds (sess_acts ?s x) sid \<Longrightarrow> holds (sess_acts s x) sid" for x sid using assms(4) by (cases "x = t") simp_all
  have acts: "act_ok ?s (sess_acts ?s x)" for x using act [OF assms(3)] act [OF inv(5)] by (cases "x = t") simp_all
  have unique: "x = x'" if "holds (sess_acts ?s x) y" "holds (sess_acts ?s x') y" for x x' y
    using inv(6) [OF hold [OF that(1)] hold [OF that(2)]] .
  show ?thesis by (rule sess_invI) (rule el acts | erule (1) unique | simp add: inv(1-3,7))+
qed

lemma opened_issued:
  assumes "sess_inv lim s" and "openElement (m_sessions (manager s)) sid = (ss, Some w)"
  shows "issued s sid = Some (web_user (sess_store s) w)"
  using sess_invD(4) [OF assms(1), of sid] open_item [OF assms(2)] by (auto simp: element_ok_def)

lemma object_inv:
  assumes "sess_inv lim s" and "m_user x = m_user (sess_store s r)"
  shows "sess_inv lim (s\<lparr>sess_store := (sess_store s)(r := x)\<rparr>)"
proof -
  have user: "web_user ((sess_store s)(r := x)) w = web_user (sess_store s) w" for w using assms(2) by simp
  have "act_ok (s\<lparr>sess_store := (sess_store s)(r := x)\<rparr>) a = act_ok s a" for a using user by (cases a) auto
  then show ?thesis using assms(1) user by (simp add: sess_inv_def element_ok_def)
qed

text \<open>The registry under the locked sections.\<close>

lemma create_register_Some:
  assumes "create_register m u sid info = Some m'"
  shows "m_sessions m' = m_sessions m" and "m_maxSessionsPerUser m' = m_maxSessionsPerUser m"
    and "registered m' v x \<longleftrightarrow> v = u \<and> x = sid \<or> registered m v x"
    and "m_maxSessionsPerUser m \<le> lim \<Longrightarrow> info_ok lim (m_sessionClientInfo m) \<Longrightarrow> info_ok lim (m_sessionClientInfo m')"
    and "v \<noteq> u \<Longrightarrow> map_of (m_sessionClientInfo m') v = map_of (m_sessionClientInfo m) v"
proof -
  have len: "length ms < m_maxSessionsPerUser m \<Longrightarrow> m_maxSessionsPerUser m \<le> lim \<Longrightarrow> length (assoc_update sid info ms) \<le> max (Suc 0) lim" for ms
    using length_assoc_update [of sid info ms] by linarith
  show "m_sessions m' = m_sessions m" "m_maxSessionsPerUser m' = m_maxSessionsPerUser m" "registered m' v x \<longleftrightarrow> v = u \<and> x = sid \<or> registered m v x"
    "v \<noteq> u \<Longrightarrow> map_of (m_sessionClientInfo m') v = map_of (m_sessionClientInfo m) v"
    using assms by (auto simp: create_register_def registered_def split: option.splits if_splits)
  show "m_maxSessionsPerUser m \<le> lim \<Longrightarrow> info_ok lim (m_sessionClientInfo m) \<Longrightarrow> info_ok lim (m_sessionClientInfo m')"
    using assms len by (auto simp: create_register_def info_ok_def not_le split: option.splits if_splits simp del: max_def)
qed

lemma destroy_unregister_Inr:
  assumes "registered m u sid"
  obtains m' where "destroy_unregister m u sid = Inr m'" "m_sessions m' = m_sessions m" "m_maxSessionsPerUser m' = m_maxSessionsPerUser m"
    "\<And>v x. registered m' v x \<longleftrightarrow> registered m v x \<and> \<not> (v = u \<and> x = sid)"
    "\<And>lim. info_ok lim (m_sessionClientInfo m) \<Longrightarrow> info_ok lim (m_sessionClientInfo m')"
    "\<And>v. v \<noteq> u \<Longrightarrow> map_of (m_sessionClientInfo m') v = map_of (m_sessionClientInfo m) v"
proof -
  obtain ms where ms: "map_of (m_sessionClientInfo m) u = Some ms" "map_of ms sid \<noteq> None"
    using assms by (auto simp: registered_def)
  let ?ms = "mm_erase sid ms"
  let ?m = "m\<lparr>m_sessionClientInfo := (if ?ms = [] then mm_erase u (m_sessionClientInfo m) else assoc_update u ?ms (m_sessionClientInfo m))\<rparr>"
  have lookup: "map_of (m_sessionClientInfo ?m) v = (if v = u then if ?ms = [] then None else Some ?ms else map_of (m_sessionClientInfo m) v)" for v
    by (simp add: map_of_mm_erase)
  have erased: "map_of ?ms x \<noteq> None \<longleftrightarrow> map_of ms x \<noteq> None \<and> x \<noteq> sid" for x by (simp add: map_of_mm_erase)
  then have empty: "?ms = [] \<Longrightarrow> map_of ms x \<noteq> None \<Longrightarrow> x = sid" for x by fastforce
  show thesis
  proof (rule that)
    show "destroy_unregister m u sid = Inr ?m" using ms by (simp add: destroy_unregister_def Let_def)
    show "registered ?m v x \<longleftrightarrow> registered m v x \<and> \<not> (v = u \<and> x = sid)" for v x
      unfolding registered_def lookup using ms erased [of x] empty [of x] by auto
    show "info_ok lim (m_sessionClientInfo ?m)" if "info_ok lim (m_sessionClientInfo m)" for lim
      using that ms(1) length_mm_erase [of sid ms] unfolding info_ok_def lookup by (auto simp del: max_def intro: order_trans)
    show "map_of (m_sessionClientInfo ?m) v = map_of (m_sessionClientInfo m) v" if "v \<noteq> u" for v using that unfolding lookup by simp
  qed simp_all
qed

lemma getUserSessionsInfo_keeps:
  shows "m_sessions (fst (getUserSessionsInfo m u)) = m_sessions m"
    and "m_maxSessionsPerUser (fst (getUserSessionsInfo m u)) = m_maxSessionsPerUser m"
    and "registered (fst (getUserSessionsInfo m u)) = registered m"
    and "info_ok lim (m_sessionClientInfo m) \<Longrightarrow> info_ok lim (m_sessionClientInfo (fst (getUserSessionsInfo m u)))"
    and "map_of (m_sessionClientInfo m) v = Some ms \<Longrightarrow> map_of (m_sessionClientInfo (fst (getUserSessionsInfo m u))) v = Some ms"
  by (auto simp: getUserSessionsInfo_def registered_def info_ok_def fun_eq_iff split: option.splits)

lemma info_inv: "sess_inv lim s \<Longrightarrow> sess_inv lim (s\<lparr>manager := fst (getUserSessionsInfo (manager s) u)\<rparr>)"
proof -
  assume inv: "sess_inv lim s"
  let ?s = "s\<lparr>manager := fst (getUserSessionsInfo (manager s) u)\<rparr>"
  have "act_ok ?s a = act_ok s a" for a by (cases a) (simp_all add: getUserSessionsInfo_keeps)
  then show ?thesis using inv by (simp add: sess_inv_def element_ok_def getUserSessionsInfo_keeps)
qed

lemma set_inactive_inv: "sess_inv lim s \<Longrightarrow> sess_inv lim (s\<lparr>manager := setMaxInactiveSeconds (manager s) v\<rparr>)"
proof -
  assume inv: "sess_inv lim s"
  have "act_ok (s\<lparr>manager := setMaxInactiveSeconds (manager s) v\<rparr>) a = act_ok s a" for a
    by (cases a) (simp_all add: setMaxInactiveSeconds_def)
  then show ?thesis using inv by (simp add: sess_inv_def element_ok_def setMaxInactiveSeconds_def)
qed

lemma set_limit_inv: "sess_inv lim s \<Longrightarrow> v \<le> lim \<Longrightarrow> sess_inv lim (s\<lparr>manager := setMaxSessionsPerUser (manager s) v\<rparr>)"
proof -
  assume inv: "sess_inv lim s" and v: "v \<le> lim"
  have "act_ok (s\<lparr>manager := setMaxSessionsPerUser (manager s) v\<rparr>) a = act_ok s a" for a
    by (cases a) (simp_all add: setMaxSessionsPerUser_def)
  then show ?thesis using inv v by (simp add: sess_inv_def element_ok_def setMaxSessionsPerUser_def)
qed

lemma register_inv:
  assumes "sess_inv lim s" and "sess_acts s t = SIdle" and "issued s sid = None"
    and "create_register (manager s) (web_user (sess_store s) w) sid (networkClientInfo w) = Some m"
  shows "sess_inv lim (s\<lparr>manager := m, sess_acts := (sess_acts s)(t := SCreating sid w), issued := (issued s)(sid \<mapsto> web_user (sess_store s) w)\<rparr>)"
proof -
  let ?u = "web_user (sess_store s) w"
  let ?s = "s\<lparr>manager := m, sess_acts := (sess_acts s)(t := SCreating sid w), issued := (issued s)(sid \<mapsto> ?u)\<rparr>"
  note inv = sess_invD [OF assms(1)] and reg = create_register_Some [OF assms(4)]
  have none: "m_sessions (manager s) sid = None"
    using inv(4) [of sid] assms(3) by (cases "m_sessions (manager s) sid") (auto simp: element_ok_def)
  have act: "act_ok ?s a" if "act_ok s a" for a
    using that assms(3) none by (cases a) (auto simp: reg)
  have el: "element_ok ?s x" for x
    using inv(4) [of x] none by (auto simp: element_ok_def reg)
  have free: "\<not> holds (sess_acts s x) sid" for x
    using inv(5) [of x] assms(3) none by (cases "sess_acts s x") auto
  have acts: "act_ok ?s (sess_acts ?s x)" for x
    using act [OF inv(5) [of x]] none reg(1,3) by (cases "x = t") simp_all
  have unique: "x = x'" if "holds (sess_acts ?s x) y" "holds (sess_acts ?s x') y" for x x' y
    using that free inv(6) [of x y x'] by (cases "x = t"; cases "x' = t") auto
  have issue: "issued ?s x = Some u" if "registered (manager ?s) u x" for u x
    using that inv(3) [of u x] reg(3) assms(3) by auto
  show ?thesis by (rule sess_invI) (rule el acts | erule (1) unique | erule issue | use inv(1,2,7) reg(2,4) in simp)+
qed

lemma insert_inv:
  assumes "sess_inv lim s" and "sess_acts s t = SCreating sid w" and "addElement (m_sessions (manager s)) sid (Some w) = (ss, ok)"
  shows "sess_inv lim (with_sessions s ss\<lparr>sess_acts := (sess_acts s)(t := SIdle)\<rparr>)"
proof -
  let ?s = "with_sessions s ss\<lparr>sess_acts := (sess_acts s)(t := SIdle)\<rparr>"
  note inv = sess_invD [OF assms(1)]
  have new: "issued s sid = Some (web_user (sess_store s) w)" "registered (manager s) (web_user (sess_store s) w) sid" "m_sessions (manager s) sid = None"
    using inv(5) [of t] assms(2) by auto
  then have ss: "ss = (m_sessions (manager s))(sid \<mapsto> \<lparr>item = Some w, numReaders = 0\<rparr>)" using assms(3) by (auto simp: addElement_def)
  have el: "element_ok ?s x" for x using inv(4) [of x] new by (auto simp: element_ok_def ss)
  have free: "\<not> holds (sess_acts s x) sid" if "x \<noteq> t" for x using inv(6) [of x sid t] that assms(2) by auto
  have acts: "act_ok ?s (sess_acts ?s x)" for x
    using inv(5) [of x] free [of x] by (cases "sess_acts s x") (auto simp: ss)
  have unique: "x = x'" if "holds (sess_acts ?s x) y" "holds (sess_acts ?s x') y" for x x' y
    using that inv(6) [of x y x'] by (auto split: if_splits)
  show ?thesis by (rule sess_invI) (rule el acts | erule (1) unique | simp add: inv(1-3,7))+
qed

lemma take_inv:
  assumes "sess_inv lim s" and "sess_acts s t = SDestroying sid u" and "destroy_begin (m_sessions (manager s)) sid = Some (ss, w)"
  shows "sess_inv lim (with_sessions s ss\<lparr>sess_acts := (sess_acts s)(t := SWaiting sid u)\<rparr>)"
proof -
  let ?s = "with_sessions s ss\<lparr>sess_acts := (sess_acts s)(t := SWaiting sid u)\<rparr>"
  note inv = sess_invD [OF assms(1)]
  obtain e where e: "m_sessions (manager s) sid = Some e" "item e = Some w" "ss = (m_sessions (manager s))(sid \<mapsto> e\<lparr>item := None\<rparr>)"
    using assms(3) by (auto simp: destroy_begin_def split: option.splits)
  have el: "element_ok ?s x" for x using inv(4) [of x] e by (auto simp: element_ok_def)
  have free: "\<not> holds (sess_acts s x) sid" for x using inv(5) [of x] e by (cases "sess_acts s x") auto
  have "act_ok ?s (SWaiting sid u)" using inv(5) [of t] assms(2) e by auto
  moreover have "act_ok ?s (sess_acts s x)" for x
    using inv(5) [of x] free [of x] by (cases "sess_acts s x") (auto simp: e(3))
  ultimately have acts: "act_ok ?s (sess_acts ?s x)" for x by simp
  have unique: "x = x'" if "holds (sess_acts ?s x) y" "holds (sess_acts ?s x') y" for x x' y
    using that free inv(6) [of x y x'] by (cases "x = t"; cases "x' = t") auto
  show ?thesis by (rule sess_invI) (rule el acts | erule (1) unique | simp add: inv(1-3,7))+
qed

lemma delete_inv:
  assumes "sess_inv lim s" and "sess_acts s t = SWaiting sid u"
  shows "sess_inv lim (with_sessions s (destroy_end (m_sessions (manager s)) sid)\<lparr>sess_acts := (sess_acts s)(t :=
       (case u of Some u' \<Rightarrow> SErased sid u' | None \<Rightarrow> SIdle))\<rparr>)"
proof -
  let ?a = "case u of Some u' \<Rightarrow> SErased sid u' | None \<Rightarrow> SIdle"
  let ?s = "with_sessions s (destroy_end (m_sessions (manager s)) sid)\<lparr>sess_acts := (sess_acts s)(t := ?a)\<rparr>"
  note inv = sess_invD [OF assms(1)]
  have old: "u \<noteq> None \<Longrightarrow> issued s sid = u" "\<exists>e. m_sessions (manager s) sid = Some e" using inv(5) [of t] assms(2) by auto
  have el: "element_ok ?s x" for x using inv(4) [of x] by (auto simp: element_ok_def destroy_end_def)
  have free: "\<not> holds (sess_acts s x) sid" if "x \<noteq> t" for x using inv(6) [of x sid t] that assms(2) by auto
  have "act_ok ?s ?a" using old inv(4) [of sid] by (auto simp: element_ok_def destroy_end_def split: option.splits)
  moreover have "act_ok ?s (sess_acts s x)" if "x \<noteq> t" for x
    using inv(5) [of x] free [OF that] by (cases "sess_acts s x") (auto simp: destroy_end_def)
  ultimately have acts: "act_ok ?s (sess_acts ?s x)" for x by simp
  have hold: "holds (sess_acts ?s x) y \<Longrightarrow> holds (sess_acts s x) y" for x y
    using assms(2) by (cases "x = t") (auto split: option.splits)
  have unique: "x = x'" if "holds (sess_acts ?s x) y" "holds (sess_acts ?s x') y" for x x' y
    using inv(6) [OF hold [OF that(1)] hold [OF that(2)]] .
  show ?thesis by (rule sess_invI) (rule el acts | erule (1) unique | simp add: inv(1-3,7))+
qed

lemma unregister_inv:
  assumes "sess_inv lim s" and "sess_acts s t = SErased sid u"
  shows "sess_inv lim (s\<lparr>manager := (case destroy_unregister (manager s) u sid of Inr m \<Rightarrow> m | Inl e \<Rightarrow> manager s),
       thrown := (thrown s \<or> (\<exists>e. destroy_unregister (manager s) u sid = Inl e)), sess_acts := (sess_acts s)(t := SIdle)\<rparr>)"
proof -
  note inv = sess_invD [OF assms(1)]
  have old: "issued s sid = Some u" "registered (manager s) u sid" "m_sessions (manager s) sid = None" using inv(5) [of t] assms(2) by auto
  obtain m where m: "destroy_unregister (manager s) u sid = Inr m" "m_sessions m = m_sessions (manager s)"
      "m_maxSessionsPerUser m = m_maxSessionsPerUser (manager s)"
      "\<And>v x. registered m v x \<longleftrightarrow> registered (manager s) v x \<and> \<not> (v = u \<and> x = sid)"
      "\<And>lim. info_ok lim (m_sessionClientInfo (manager s)) \<Longrightarrow> info_ok lim (m_sessionClientInfo m)"
    using destroy_unregister_Inr [OF old(2)] by metis
  let ?s = "s\<lparr>manager := m, thrown := False, sess_acts := (sess_acts s)(t := SIdle)\<rparr>"
  have el: "element_ok ?s x" for x using inv(4) [of x] old(3) by (auto simp: element_ok_def m)
  have free: "\<not> holds (sess_acts s x) sid" if "x \<noteq> t" for x using inv(6) [of x sid t] that assms(2) by auto
  have acts: "act_ok ?s (sess_acts ?s x)" for x
    using inv(5) [of x] free [of x] by (cases "x = t"; cases "sess_acts s x") (auto simp: m)
  have unique: "x = x'" if "holds (sess_acts ?s x) y" "holds (sess_acts ?s x') y" for x x' y
    using that inv(6) [of x y x'] by (auto split: if_splits)
  have "sess_inv lim ?s" by (rule sess_invI) (rule el acts | erule (1) unique | use inv(1-3,7) m(3-5) in simp)+
  then show ?thesis using m(1) inv(7) by simp
qed

section \<open>The counters of readers\<close>

text \<open>The counter of an element is the number of threads that have it open, and only elements in the map are open: no release throws.\<close>

definition openers :: "(nat \<Rightarrow> sess_activity) \<Rightarrow> bytes \<Rightarrow> nat set" where
  "openers a sid = {t. opens (a t) sid}"

definition counted :: "(bytes, web_session) key_value_map \<Rightarrow> (nat \<Rightarrow> sess_activity) \<Rightarrow> bytes \<Rightarrow> bool" where
  "counted ss a sid \<longleftrightarrow> finite (openers a sid) \<and> (case ss sid of None \<Rightarrow> openers a sid = {} | Some el \<Rightarrow> numReaders el = card (openers a sid))"

definition readers_inv :: "sess_system \<Rightarrow> bool" where
  "readers_inv s \<longleftrightarrow> (\<forall>sid. counted (m_sessions (manager s)) (sess_acts s) sid)"

lemma openers_update: "openers (a(t := x)) sid = (if opens x sid then insert t (openers a sid) else openers a sid - {t})"
  by (auto simp: openers_def)

lemma counted_same:
  assumes "counted ss a sid" and "opens x sid = opens (a t) sid" and "map_option numReaders (ss' sid) = map_option numReaders (ss sid)"
  shows "counted ss' (a(t := x)) sid"
proof -
  have "openers (a(t := x)) sid = openers a sid" using assms(2) by (auto simp: openers_def)
  then show ?thesis using assms(1,3) by (auto simp: counted_def split: option.splits)
qed

lemma readers_open:
  assumes "readers_inv s" and "sess_acts s t = SIdle" and "can_open s sid" and "openElement (m_sessions (manager s)) sid = (ss, Some w)"
    and "\<And>x. opens a x \<longleftrightarrow> x = sid"
  shows "readers_inv (with_sessions s ss\<lparr>sess_acts := (sess_acts s)(t := a)\<rparr>)"
proof -
  obtain el where el: "m_sessions (manager s) sid = Some el" "ss = (m_sessions (manager s))(sid \<mapsto> el\<lparr>numReaders := Suc (numReaders el)\<rparr>)"
    using assms(3,4) by (auto simp: openElement_def can_open_def split: option.splits)
  have "counted ss ((sess_acts s)(t := a)) x" for x
  proof (cases "x = sid")
    case True
    have "t \<notin> openers (sess_acts s) sid" using assms(2) by (simp add: openers_def)
    moreover have "counted (m_sessions (manager s)) (sess_acts s) sid" using assms(1) by (simp add: readers_inv_def)
    ultimately show ?thesis using el True assms(5) by (simp add: counted_def openers_update)
  next
    case False
    then show ?thesis using assms(1,2,5) el by (intro counted_same) (auto simp: readers_inv_def)
  qed
  then show ?thesis by (simp add: readers_inv_def)
qed

lemma readers_release:
  assumes "readers_inv s" and "\<And>x. opens (sess_acts s t) x \<longleftrightarrow> x = sid" and "releaseElement (m_sessions (manager s)) sid = Inr (ss, r)"
    and "\<And>x. \<not> opens a x"
  shows "readers_inv (with_sessions s ss\<lparr>sess_acts := (sess_acts s)(t := a)\<rparr>)"
proof -
  have c: "counted (m_sessions (manager s)) (sess_acts s) x" for x using assms(1) by (simp add: readers_inv_def)
  have t: "t \<in> openers (sess_acts s) sid" using assms(2) by (simp add: openers_def)
  then obtain el where el: "m_sessions (manager s) sid = Some el" using c [of sid] by (auto simp: counted_def split: option.splits)
  have fin: "finite (openers (sess_acts s) sid)" "numReaders el = card (openers (sess_acts s) sid)" using c [of sid] el by (auto simp: counted_def)
  have ss: "ss = (m_sessions (manager s))(sid \<mapsto> el\<lparr>numReaders := numReaders el - 1\<rparr>)"
    using assms(3) el by (auto simp: releaseElement_def split: if_splits)
  have "counted ss ((sess_acts s)(t := a)) x" for x
  proof (cases "x = sid")
    case True
    then show ?thesis using ss fin t assms(4) by (simp add: counted_def openers_update)
  next
    case False
    then show ?thesis using c [of x] ss assms(2,4) by (intro counted_same) auto
  qed
  then show ?thesis by (simp add: readers_inv_def)
qed

text \<open>Steps that leave the counters.\<close>

lemma readers_frame:
  assumes "readers_inv s" and "\<And>x. opens a x = opens (sess_acts s t) x"
    and "\<And>x. map_option numReaders (m_sessions m x) = map_option numReaders (m_sessions (manager s) x)"
  shows "readers_inv (s\<lparr>manager := m, sess_acts := (sess_acts s)(t := a)\<rparr>)"
  using assms by (auto simp: readers_inv_def intro!: counted_same)

lemma no_release_throws:
  assumes "readers_inv s" and "opens (sess_acts s t) sid"
  shows "releaseElement (m_sessions (manager s)) sid \<noteq> Inl e"
proof -
  have "t \<in> openers (sess_acts s) sid" using assms(2) by (simp add: openers_def)
  moreover have "counted (m_sessions (manager s)) (sess_acts s) sid" using assms(1) by (simp add: readers_inv_def)
  ultimately show ?thesis by (auto simp: counted_def releaseElement_def card_eq_0_iff split: option.splits)
qed

lemma readers_start: "readers_inv (sess_start lim st)"
  by (simp add: readers_inv_def counted_def sess_start_def openers_def setMaxSessionsPerUser_def sessions_manager_new_def)

lemma readers_step: "sess_step lim s s' \<Longrightarrow> sess_inv lim s \<Longrightarrow> readers_inv s \<Longrightarrow> readers_inv s'"
proof (induction rule: sess_step.induct)
  case (step_register s t sid w m)
  then have "readers_inv (s\<lparr>manager := m, sess_acts := (sess_acts s)(t := SCreating sid w)\<rparr>)"
    by (intro readers_frame) (simp_all add: create_register_Some(1) [OF step_register(3)])
  then show ?case by (simp add: readers_inv_def)
next
  case (step_insert s t sid w ss ok)
  have n: "m_sessions (manager s) sid = None" using sess_invD(5) [OF step_insert(3), of t] step_insert(1) by simp
  have c: "counted (m_sessions (manager s)) (sess_acts s) x" for x using step_insert(4) by (simp add: readers_inv_def)
  have ss: "ss = (m_sessions (manager s))(sid \<mapsto> \<lparr>item = Some w, numReaders = 0\<rparr>)" using step_insert(2) n by (simp add: addElement_def)
  have "openers ((sess_acts s)(t := SIdle)) x = openers (sess_acts s) x" for x using step_insert(1) by (auto simp: openers_def)
  then have "counted ss ((sess_acts s)(t := SIdle)) x" for x
    using c [of x] n unfolding counted_def ss by (cases "x = sid") (auto split: option.splits)
  then show ?case by (simp add: readers_inv_def)
next
  case (step_open_session s t sid ss w)
  then show ?case by (intro readers_open) auto
next
  case (step_release_session s t sid ss wake ok)
  then show ?case by (intro readers_release) auto
next
  case (step_release_throws s t sid e)
  then show ?case using no_release_throws by blast
next
  case (step_destroy_open s t sid ss w)
  then show ?case by (intro readers_open) auto
next
  case (step_destroy_release s t sid u ss wake ok)
  then show ?case by (intro readers_release) auto
next
  case (step_gc_open s t sid ss w)
  then show ?case by (intro readers_open) auto
next
  case (step_gc_release s t sid w ss wake ok now)
  then show ?case by (intro readers_release) auto
next
  case (step_take s t sid u ss w)
  then show ?case by (intro readers_frame) (auto simp: destroy_begin_def split: option.splits)
next
  case (step_taken s t sid u)
  have "readers_inv (s\<lparr>manager := manager s, sess_acts := (sess_acts s)(t := SIdle)\<rparr>)" using step_taken by (intro readers_frame) auto
  then show ?case by simp
next
  case (step_delete s t sid u)
  let ?a = "case u of Some u' \<Rightarrow> SErased sid u' | None \<Rightarrow> SIdle"
  have a: "\<not> opens ?a x" for x by (simp split: option.splits)
  have o: "openers ((sess_acts s)(t := ?a)) x = openers (sess_acts s) x" for x using a step_delete(1) by (auto simp: openers_def)
  have c: "counted (m_sessions (manager s)) (sess_acts s) x" for x using step_delete(4) by (simp add: readers_inv_def)
  have "counted (destroy_end (m_sessions (manager s)) sid) ((sess_acts s)(t := ?a)) x" for x
    using c [of x] step_delete(2) by (auto simp: counted_def o destroy_end_def destroy_must_wait_def split: option.splits)
  then show ?case by (simp add: readers_inv_def)
next
  case (step_unregister s t sid u)
  obtain m where "destroy_unregister (manager s) u sid = Inr m" "m_sessions m = m_sessions (manager s)"
    using sess_invD(5) [OF step_unregister(2), of t] step_unregister(1) destroy_unregister_Inr [of "manager s" u sid] by (metis act_ok.simps(5))
  then have "readers_inv (s\<lparr>manager := m, sess_acts := (sess_acts s)(t := SIdle)\<rparr>)" using step_unregister by (intro readers_frame) auto
  then show ?case using \<open>destroy_unregister (manager s) u sid = Inr m\<close> by (simp add: readers_inv_def)
qed (simp_all add: readers_inv_def getUserSessionsInfo_keeps setMaxInactiveSeconds_def setMaxSessionsPerUser_def)

lemma sess_step_inv: "sess_step lim s s' \<Longrightarrow> sess_inv lim s \<Longrightarrow> readers_inv s \<Longrightarrow> sess_inv lim s'"
proof (induction rule: sess_step.induct)
  case (step_insert s t sid w ss ok)
  then show ?case by (intro insert_inv)
next
  case (step_release_throws s t sid e)
  then show ?case using no_release_throws by blast
next
  case (step_destroy_release s t sid u ss wake ok)
  then show ?case using sess_invD(5) [of lim s t] by (intro counters_inv) (auto dest: release_same_items)
next
  case (step_take s t sid u ss w)
  then show ?case by (intro take_inv)
next
  case (step_taken s t sid u)
  have "sess_inv lim (with_sessions s (m_sessions (manager s))\<lparr>sess_acts := (sess_acts s)(t := SIdle)\<rparr>)"
    by (rule counters_inv [OF step_taken(3)]) (simp_all add: same_items_def)
  then show ?case by simp
next
  case (step_delete s t sid u)
  then show ?case by (intro delete_inv)
qed (auto intro: register_inv object_inv info_inv set_inactive_inv set_limit_inv unregister_inv
    intro!: counters_inv dest: open_same_items release_same_items opened_issued)

lemma sess_steps_inv: "sess_step lim s s' \<Longrightarrow> sess_inv lim s \<and> readers_inv s \<Longrightarrow> sess_inv lim s' \<and> readers_inv s'"
  using sess_step_inv readers_step by blast

lemma sess_reachable_invs: "sess_reachable lim s \<Longrightarrow> sess_inv lim s \<and> readers_inv s"
proof (induction rule: sess_reachable.induct)
  case (sess_reach_step s s')
  then show ?case using sess_steps_inv by blast
qed (simp add: sess_start_inv readers_start)

lemmas sess_reachable_inv = sess_reachable_invs [THEN conjunct1]

lemma registered_listed: "map_of (m_sessionClientInfo m) u = Some ms \<Longrightarrow> sid \<in> fst ` set ms \<longleftrightarrow> registered m u sid"
  by (auto simp: registered_def map_of_eq_None_iff)

section \<open>Locked-out users\<close>

text \<open>The registry lists sessions of the user, none of which exists or is being worked on.\<close>

definition all_dead :: "sess_system \<Rightarrow> bytes \<Rightarrow> (bytes \<times> json) list \<Rightarrow> bool" where
  "all_dead s u ms \<longleftrightarrow> map_of (m_sessionClientInfo (manager s)) u = Some ms
     \<and> (\<forall>sid. map_of ms sid \<noteq> None \<longrightarrow> m_sessions (manager s) sid = None \<and> (\<forall>t. \<not> holds (sess_acts s t) sid))"

lemma all_dead_counters:
  assumes "all_dead s u ms" and "same_items ss (m_sessions (manager s))" and "\<And>x. \<not> holds a x"
  shows "all_dead (with_sessions s ss\<lparr>sess_acts := (sess_acts s)(t := a)\<rparr>) u ms"
  using assms by (auto simp: all_dead_def same_itemsD(1))

lemma all_dead_held: "all_dead s u ms \<Longrightarrow> holds (sess_acts s t) sid \<Longrightarrow> map_of ms sid = None"
  by (auto simp: all_dead_def)

lemma all_dead_step:
  assumes "sess_step lim s s'" and "sess_inv lim s" and "lim \<le> length ms" and "all_dead s u ms"
  shows "all_dead s' u ms"
  using assms
proof (induction rule: sess_step.induct)
  case (step_register s t sid w m)
  let ?v = "web_user (sess_store s) w"
  note reg = create_register_Some [OF step_register(3)] and inv = sess_invD [OF step_register(4)]
  have "?v \<noteq> u" using step_register(3,5,6) inv(1) by (auto simp: create_register_def all_dead_def)
  moreover have "map_of ms sid = None"
    using inv(3) [of u sid] step_register(2,6) by (cases "map_of ms sid") (auto simp: all_dead_def registered_def)
  ultimately show ?case using step_register(6) reg(1,5) by (auto simp: all_dead_def)
next
  case (step_insert s t sid w ss ok)
  then have "map_of ms sid = None" using all_dead_held [of s u ms t sid] by simp
  then show ?case using step_insert by (auto simp: all_dead_def addElement_def split: if_splits)
next
  case (step_info s v)
  then show ?case by (auto simp: all_dead_def getUserSessionsInfo_keeps(1,5))
next
  case (step_take s t sid x ss w)
  then have "map_of ms sid = None" by (auto simp: all_dead_def destroy_begin_def split: option.splits)
  then show ?case using step_take by (auto simp: all_dead_def destroy_begin_def split: option.splits)
next
  case (step_delete s t sid x)
  then have "map_of ms sid = None" using all_dead_held [of s u ms t sid] by simp
  then show ?case using step_delete by (auto simp: all_dead_def destroy_end_def split: option.splits)
next
  case (step_unregister s t sid v)
  note inv = sess_invD [OF step_unregister(2)]
  have reg: "registered (manager s) v sid" using inv(5) [of t] step_unregister(1) by simp
  obtain m where m: "destroy_unregister (manager s) v sid = Inr m" "m_sessions m = m_sessions (manager s)"
      "\<And>w. w \<noteq> v \<Longrightarrow> map_of (m_sessionClientInfo m) w = map_of (m_sessionClientInfo (manager s)) w"
    using destroy_unregister_Inr [OF reg] by metis
  have "map_of ms sid = None" using all_dead_held [OF step_unregister(4), of t sid] step_unregister(1) by simp
  then have "v \<noteq> u" using reg step_unregister(4) by (auto simp: all_dead_def registered_def)
  then show ?case using step_unregister(4) m by (auto simp: all_dead_def)
qed (auto simp: all_dead_def setMaxInactiveSeconds_def setMaxSessionsPerUser_def same_itemsD(1) dest!: open_same_items release_same_items)

lemma all_dead_steps:
  assumes "(sess_step lim)\<^sup>*\<^sup>* s s'" and "sess_inv lim s \<and> readers_inv s" and "lim \<le> length ms" and "all_dead s u ms"
  shows "(sess_inv lim s' \<and> readers_inv s') \<and> all_dead s' u ms"
  using assms
proof (induction rule: rtranclp_induct)
  case (step s' s'')
  then have i: "sess_inv lim s' \<and> readers_inv s'" "all_dead s' u ms" by blast+
  then show ?case using sess_steps_inv [OF step(2)] all_dead_step [OF step(2)] assms(3) by blast
qed simp

text \<open>A run that gets there: a session is created, expires, and is collected.\<close>

lemma collected_run:
  assumes "m_user (st (0 :: nat)) = u" and "isLastActivityExpired now (st 0) 900"
  shows "\<exists>s. sess_reachable lim s \<and> all_dead s u [(sid, info)]"
    and "\<exists>s. sess_reachable lim s \<and> sess_acts s 0 = SDestroyOpened sid u \<and> (\<exists>el. m_sessions (manager s) sid = Some el \<and> item el = Some \<lparr>authSession = 0, networkClientInfo = info\<rparr>)
      \<and> sess_store s = st \<and> issued s sid = Some u"
proof -
  let ?w = "\<lparr>authSession = 0, networkClientInfo = info\<rparr>" and ?el = "\<lambda>n. \<lparr>item = Some \<lparr>authSession = 0, networkClientInfo = info\<rparr>, numReaders = n\<rparr>"
  let ?m = "\<lambda>ss. \<lparr>m_sessions = ss, m_sessionClientInfo = [(u, [(sid, info)])], m_gcWaitTime = 1, m_MaxInactiveSeconds = 900, m_maxSessionsPerUser = lim\<rparr>"
  let ?s = "\<lambda>ss a. \<lparr>manager = ?m ss, sess_store = st, sess_acts = (\<lambda>_. SIdle)(0 := a), issued = [sid \<mapsto> u], thrown = False\<rparr>"
  note new = sess_start_def setMaxSessionsPerUser_def sessions_manager_new_def create_register_def
  have "sess_step lim (sess_start lim st) (?s Map.empty (SCreating sid ?w))"
    using step_register [of "sess_start lim st" 0 sid ?w "?m Map.empty"] assms(1) by (simp add: new)
  then have 1: "sess_reachable lim (?s Map.empty (SCreating sid ?w))" by (rule sess_reach_step [OF sess_reach_start])
  have "sess_step lim (?s Map.empty (SCreating sid ?w)) (?s [sid \<mapsto> ?el 0] SIdle)"
    using step_insert [of "?s Map.empty (SCreating sid ?w)" 0 sid ?w] by (simp add: addElement_def)
  then have 2: "sess_reachable lim (?s [sid \<mapsto> ?el 0] SIdle)" by (rule sess_reach_step [OF 1])
  have "sess_step lim (?s [sid \<mapsto> ?el 0] SIdle) (?s [sid \<mapsto> ?el 1] (SGcOpened sid ?w))"
    using step_gc_open [of "?s [sid \<mapsto> ?el 0] SIdle" 0 sid _ ?w] by (simp add: openElement_def can_open_def)
  then have 3: "sess_reachable lim (?s [sid \<mapsto> ?el 1] (SGcOpened sid ?w))" by (rule sess_reach_step [OF 2])
  have "sess_step lim (?s [sid \<mapsto> ?el 1] (SGcOpened sid ?w)) (?s [sid \<mapsto> ?el 0] (SDestroying sid None))"
    using step_gc_release [of "?s [sid \<mapsto> ?el 1] (SGcOpened sid ?w)" 0 sid ?w _ _ _ _ now] assms(2) by (simp add: releaseElement_def)
  then have 4: "sess_reachable lim (?s [sid \<mapsto> ?el 0] (SDestroying sid None))" by (rule sess_reach_step [OF 3])
  let ?gone = "\<lparr>item = None :: web_session option, numReaders = 0\<rparr>"
  have "sess_step lim (?s [sid \<mapsto> ?el 0] (SDestroying sid None)) (?s [sid \<mapsto> ?gone] (SWaiting sid None))"
    using step_take [of "?s [sid \<mapsto> ?el 0] (SDestroying sid None)" 0 sid None _ ?w] by (simp add: destroy_begin_def)
  then have 5: "sess_reachable lim (?s [sid \<mapsto> ?gone] (SWaiting sid None))" by (rule sess_reach_step [OF 4])
  have "sess_step lim (?s [sid \<mapsto> ?gone] (SWaiting sid None)) (?s Map.empty SIdle)"
    using step_delete [of "?s [sid \<mapsto> ?gone] (SWaiting sid None)" 0 sid None] by (simp add: destroy_end_def destroy_must_wait_def)
  then have "sess_reachable lim (?s Map.empty SIdle)" by (rule sess_reach_step [OF 5])
  moreover have "all_dead (?s Map.empty SIdle) u [(sid, info)]" by (simp add: all_dead_def)
  ultimately show "\<exists>s. sess_reachable lim s \<and> all_dead s u [(sid, info)]" by blast
  have "sess_step lim (?s [sid \<mapsto> ?el 0] SIdle) (?s [sid \<mapsto> ?el 1] (SDestroyOpened sid u))"
    using step_destroy_open [of "?s [sid \<mapsto> ?el 0] SIdle" 0 sid _ ?w] assms(1) by (simp add: openElement_def can_open_def)
  then have "sess_reachable lim (?s [sid \<mapsto> ?el 1] (SDestroyOpened sid u))" by (rule sess_reach_step [OF 2])
  then show "\<exists>s. sess_reachable lim s \<and> sess_acts s 0 = SDestroyOpened sid u \<and> (\<exists>el. m_sessions (manager s) sid = Some el \<and> item el = Some \<lparr>authSession = 0, networkClientInfo = info\<rparr>)
      \<and> sess_store s = st \<and> issued s sid = Some u"
    by (intro exI [of _ "?s [sid \<mapsto> ?el 1] (SDestroyOpened sid u)"]) simp
qed

section \<open>Properties\<close>

text \<open>
  C22. Registration of sessions is safe under every interleaving of \<^verbatim>\<open>createSession\<close>, \<^verbatim>\<open>openSession\<close>,
  \<^verbatim>\<open>releaseSession\<close>, \<^verbatim>\<open>destroySession\<close>, \<^verbatim>\<open>getUserSessionsInfo\<close>, the setters and the collector, as long as random identifiers
  do not repeat, every thread releases only what it has opened, and the counter of readers does not overflow: neither the "Unregistered Session??" exception of
  \<^verbatim>\<open>destroySession\<close> nor the "Invalid close on Mutex MAP" exception of the releases is ever thrown, and every session in the map
  belongs to a user for whom it is registered.
\<close>

theorem sessions_registry_safe:
  assumes "sess_reachable lim s"
  shows "\<not> thrown s \<and> (\<forall>sid el w. m_sessions (manager s) sid = Some el \<longrightarrow> item el = Some w \<longrightarrow>
      registered (manager s) (web_user (sess_store s) w) sid)"
  using sess_invD(4,7) [OF sess_reachable_inv [OF assms]] by (fastforce simp: element_ok_def)

text \<open>A session is in the map, and a thread that destroys it has it open.\<close>

theorem sessions_registry_safe_witness:
  "\<exists>s. sess_reachable 1 s \<and> sess_acts s 0 = SDestroyOpened ''A'' ''bob'' \<and> m_sessions (manager s) ''A'' \<noteq> None
     \<and> registered (manager s) ''bob'' ''A'' \<and> \<not> thrown s"
proof -
  let ?st = "\<lambda>_. (session_new 0 0 token_empty)\<lparr>m_user := ''bob''\<rparr>"
  obtain s el where s: "sess_reachable 1 s" "sess_acts s 0 = SDestroyOpened ''A'' ''bob''" "m_sessions (manager s) ''A'' = Some el"
      "item el = Some \<lparr>authSession = 0, networkClientInfo = JNull\<rparr>" "sess_store s = ?st"
    using collected_run(2) [of ?st "''bob''" 1000 1 "''A''" JNull] by (auto simp: isLastActivityExpired_def session_new_def)
  then show ?thesis using sessions_registry_safe [OF s(1)] by (intro exI [of _ s]) fastforce
qed

text \<open>
  C23. The limit of sessions per user holds under every interleaving of the operations, of changes of the limit too: no more sessions of a user are in the
  map than the largest limit that was ever set, or than one when that is zero (the first registration of a user is not checked). Lowering the limit leaves the
  sessions that there are.
\<close>

theorem sessions_per_user_bound:
  assumes "sess_reachable lim s"
  shows "card {sid. m_sessions (manager s) sid \<noteq> None \<and> issued s sid = Some u} \<le> max 1 lim"
proof (cases "map_of (m_sessionClientInfo (manager s)) u")
  case None
  note inv = sess_invD [OF sess_reachable_inv [OF assms]]
  have "{sid. m_sessions (manager s) sid \<noteq> None \<and> issued s sid = Some u} = {}"
    using inv(4) None by (fastforce simp: element_ok_def registered_def)
  then show ?thesis by (simp only: card.empty)
next
  case (Some ms)
  note inv = sess_invD [OF sess_reachable_inv [OF assms]]
  have "{sid. m_sessions (manager s) sid \<noteq> None \<and> issued s sid = Some u} \<subseteq> fst ` set ms"
    using inv(4) registered_listed [OF Some] by (fastforce simp: element_ok_def)
  then have "card {sid. m_sessions (manager s) sid \<noteq> None \<and> issued s sid = Some u} \<le> card (fst ` set ms)"
    by (rule card_mono [rotated]) simp
  also have "\<dots> \<le> length ms" using card_image_le [of "set ms" fst] card_length [of ms] by (meson List.finite_set le_trans)
  also have "\<dots> \<le> max 1 lim" using inv(2) Some by (simp add: info_ok_def)
  finally show ?thesis .
qed

theorem sessions_per_user_bound_witness:
  "\<exists>s. sess_reachable 1 s \<and> m_sessions (manager s) ''A'' \<noteq> None \<and> issued s ''A'' = Some ''bob''
     \<and> card {sid. m_sessions (manager s) sid \<noteq> None \<and> issued s sid = Some ''bob''} \<le> 1"
proof -
  let ?st = "\<lambda>_. (session_new 0 0 token_empty)\<lparr>m_user := ''bob''\<rparr>"
  obtain s el where s: "sess_reachable 1 s" "m_sessions (manager s) ''A'' = Some el" "issued s ''A'' = Some ''bob''"
    using collected_run(2) [of ?st "''bob''" 1000 1 "''A''" JNull] by (auto simp: isLastActivityExpired_def session_new_def)
  then show ?thesis using sessions_per_user_bound [OF s(1), of "''bob''"] by (intro exI [of _ s]) simp
qed

text \<open>
  Collected sessions lock their user out: the collector destroys expired sessions but leaves them in the
  registry, and nothing removes them. Once as many sessions as the limit are registered for a user and all
  of them are gone from the map, no operation of any thread changes that: \<^verbatim>\<open>createSession\<close> refuses the user for ever.
\<close>

theorem sessions_lockout:
  assumes "sess_reachable lim s" and "all_dead s (m_user (st x)) ms" and "lim \<le> length ms" and "(sess_step lim)\<^sup>*\<^sup>* s s'"
  shows "createSession st (Some r) (Some r') (manager s') x info = Inr (manager s', [], 0)"
proof -
  have "(sess_inv lim s' \<and> readers_inv s') \<and> all_dead s' (m_user (st x)) ms"
    using all_dead_steps [OF assms(4) sess_reachable_invs [OF assms(1)] assms(3,2)] .
  then have "create_register (manager s') (m_user (st x)) sid info = None" for sid info
    using assms(3) sess_invD(1) [of lim s'] by (auto simp: create_register_def all_dead_def)
  then show ?thesis by (simp add: createSession_def createRandomString_def)
qed

theorem sessions_lockout_witness:
  "\<exists>s. sess_reachable 1 s \<and> createSession (\<lambda>_. (session_new 0 0 token_empty)\<lparr>m_user := ''bob''\<rparr>) (Some ''x'') (Some ''y'') (manager s) 0 JNull
     = Inr (manager s, [], 0)"
proof -
  let ?st = "\<lambda>_. (session_new 0 0 token_empty)\<lparr>m_user := ''bob''\<rparr>"
  obtain s where s: "sess_reachable 1 s" "all_dead s ''bob'' [(''A'', JNull)]"
    using collected_run [of ?st "''bob''" 1000 1 "''A''" JNull] by (auto simp: isLastActivityExpired_def session_new_def)
  then show ?thesis using sessions_lockout [of 1 s ?st 0 "[(''A'', JNull)]" s "''x''" "''y''" JNull] by auto
qed

text \<open>
  \<^verbatim>\<open>openSession\<close> reports the remaining life of a session: for a session in the map whose last activity lies at
  most the inactivity limit in the past, the age it returns is the last activity plus the limit minus the
  current time; for an older one, or one with a last activity in the future, it is zero. Times are those of
  a 32-bit clock, and the call takes place within one second.
\<close>

theorem open_session_age:
  assumes "m_sessions m sid = Some el" and "item el = Some w" and "s = st (authSession w)"
    and "0 \<le> m_lastActivityTimestamp s" and "m_lastActivityTimestamp s < 2 ^ 32" and "0 \<le> now" and "now < 2 ^ 32"
    and "m_MaxInactiveSeconds m < 2 ^ 32"
  shows "snd (openSession st now now m sid) = Some (w,
      if m_lastActivityTimestamp s \<le> now then nat (m_lastActivityTimestamp s + int (m_MaxInactiveSeconds m) - now) else 0)"
proof -
  let ?l = "m_lastActivityTimestamp s" and ?x = "m_MaxInactiveSeconds m"
  have small: "?l mod 2 ^ 64 = ?l" "now mod 2 ^ 64 = now" using assms(4-7) by simp_all
  have diff: "?l \<le> now \<Longrightarrow> (now - ?l) mod 2 ^ 32 = now - ?l" using assms(4-7) by (intro mod_pos_pos_trivial) simp_all
  have sum: "uadd (nat ?l) ?x = nat ?l + ?x" using assms(4,5,8) by (intro uadd_exact) (simp add: size_max_def)
  show ?thesis
  proof (cases "?l \<le> now")
    case True
    then have expired: "isLastActivityExpired now s ?x \<longleftrightarrow> nat (now - ?l) > ?x" using diff by (simp add: isLastActivityExpired_def)
    have "snd (openSession st now now m sid) = Some (w, if nat (now - ?l) > ?x then 0
        else if nat ?l + ?x > nat now then nat ?l + ?x - nat now else 0)"
      using assms(1,2) unfolding assms(3) [symmetric]
      by (simp only: openSession_def openElement_def Let_def option.case prod.case assms(3) [symmetric] expired small sum snd_conv)
    also have "(if nat (now - ?l) > ?x then 0 else if nat ?l + ?x > nat now then nat ?l + ?x - nat now else 0) = nat (?l + int ?x - now)"
      using assms(4,6) True by auto
    finally show ?thesis using True by simp
  next
    case False
    then have "isLastActivityExpired now s ?x" by (simp add: isLastActivityExpired_def)
    then show ?thesis using assms(1-3) False by (simp add: openSession_def openElement_def)
  qed
qed

theorem open_session_age_witness:
  "snd (openSession (\<lambda>_. session_new 1000 1000 token_empty) 1300 1300
      (sessions_manager_new\<lparr>m_sessions := [''A'' \<mapsto> \<lparr>item = Some \<lparr>authSession = 0, networkClientInfo = JNull\<rparr>, numReaders = 0\<rparr>]\<rparr>) ''A'')
    = Some (\<lparr>authSession = 0, networkClientInfo = JNull\<rparr>, 600)"
  using open_session_age [of "sessions_manager_new\<lparr>m_sessions := [''A'' \<mapsto> \<lparr>item = Some \<lparr>authSession = 0, networkClientInfo = JNull\<rparr>, numReaders = 0\<rparr>]\<rparr>"
      "''A''" "\<lparr>item = Some \<lparr>authSession = 0, networkClientInfo = JNull\<rparr>, numReaders = 0\<rparr>" "\<lparr>authSession = 0, networkClientInfo = JNull\<rparr>"
      "session_new 1000 1000 token_empty" "\<lambda>_. session_new 1000 1000 token_empty" 1300]
  by (simp add: session_new_def sessions_manager_new_def)

text \<open>The identifiers that \<^verbatim>\<open>createSession\<close> draws have the format that is accepted from clients.\<close>

lemma session_id_format:
  assumes "createRandomString (Some a) = Inr x" and "createRandomString (Some b) = Inr y" and "length a = 12" and "length b = 12"
  shows "validateSessionIDFormat (x @ '':'' @ y)"
proof -
  have "length x = 12" "length y = 12" using assms by (auto simp: createRandomString_def)
  moreover have "list_all is_alnum x" "list_all is_alnum y"
    using random_string_chars [OF assms(1)] random_string_chars [OF assms(2)] by (simp_all add: list_all_iff)
  ultimately show ?thesis by (simp add: validateSessionIDFormat_def nth_append)
qed

text \<open>Session variables behave like a map.\<close>

lemma session_variables:
  "getSessionVariableValue (setSessionVariable s k v) x = (if x = k then v else getSessionVariableValue s x)"
  "doesSessionVariableExist (setSessionVariable s k v) x \<longleftrightarrow> x = k \<or> doesSessionVariableExist s x"
  "getSessionVariableValue (clearSessionVariable s k) x = (if x = k then JNull else getSessionVariableValue s x)"
  "doesSessionVariableExist (clearSessionVariable s k) x \<longleftrightarrow> x \<noteq> k \<and> doesSessionVariableExist s x"
  by (simp_all add: getSessionVariableValue_def setSessionVariable_def doesSessionVariableExist_def clearSessionVariable_def map_of_mm_erase)

end
