(* ===== verification/SocketStream.thy ===== *)
theory SocketStream
  imports BChunks Encoders "HOL-Library.Word"
begin

text \<open>
  Streams over a socket (\<^verbatim>\<open>src/Mantids30/Net_Sockets/socket_stream.cpp\<close>): full reads and writes over the partial ones of the
  operating system, the integers, blocks and strings of \<^verbatim>\<open>socket_stream_writer.cpp\<close> and \<^verbatim>\<open>socket_stream_reader.cpp\<close> with their
  templates in the headers, the in-memory socket \<^verbatim>\<open>socket_stream_dummy.cpp\<close>, the XOR layer \<^verbatim>\<open>socket_chain_xor.cpp\<close>, the sockets of the operating
  system \<^verbatim>\<open>socket.cpp\<close> over a parameter for its calls, and the buffered
  reader \<^verbatim>\<open>streams_bufferedreader.cpp\<close>. A socket is given by its virtual operations; the integer type of a template is the type of a word.
\<close>

section \<open>Sockets\<close>

text \<open>
  \<^verbatim>\<open>partialRead\<close> gives the bytes that were put into the buffer, none at the end of the stream, and \<open>None\<close> for a negative result;
  \<^verbatim>\<open>partialWrite\<close> gives its number. \<open>sv_shutdown\<close> is \<^verbatim>\<open>shutdownSocket\<close> for both directions, which \<^verbatim>\<open>readDeSync\<close> and \<^verbatim>\<open>writeDeSync\<close> call.
\<close>

record 's socket_vt =
  sv_partialRead :: "'s \<Rightarrow> nat \<Rightarrow> ('s \<times> bytes option) result"
  sv_partialWrite :: "'s \<Rightarrow> bytes \<Rightarrow> ('s \<times> int) result"
  sv_shutdown :: "'s \<Rightarrow> 's"
  sv_status :: "'s \<Rightarrow> WriteStatus"
  sv_set_status :: "WriteStatus \<Rightarrow> 's \<Rightarrow> 's"

definition readDeSync :: "'s socket_vt \<Rightarrow> 's \<Rightarrow> 's" where
  "readDeSync vt s = sv_shutdown vt s"

definition writeDeSync :: "'s socket_vt \<Rightarrow> 's \<Rightarrow> 's" where
  "writeDeSync vt s = sv_shutdown vt s"

text \<open>The loop of \<^verbatim>\<open>readFull\<close>: the bytes read, and whether it ended without a read error.\<close>

function readFull_loop :: "'s socket_vt \<Rightarrow> 's \<Rightarrow> bytes \<Rightarrow> nat \<Rightarrow> ('s \<times> bytes \<times> bool) result" where
  "readFull_loop vt s cur expected =
     (if length cur < expected then
        (case sv_partialRead vt s (min 4096 (expected - length cur)) of
           Inl e \<Rightarrow> Inl e
         | Inr (s', None) \<Rightarrow> Inr (s', cur, False)
         | Inr (s', Some bs) \<Rightarrow> if bs = [] then Inr (s', cur, True) else readFull_loop vt s' (cur @ bs) expected)
      else Inr (s, cur, True))"
  by pat_completeness auto
termination by (relation "measure (\<lambda>(vt, s, cur, expected). expected - length cur)") (auto intro!: diff_less_mono2)

text \<open>The bytes in the buffer, the number that the caller is told, and the result. A read error leaves the number at zero.\<close>

definition readFull :: "'s socket_vt \<Rightarrow> 's \<Rightarrow> nat \<Rightarrow> ('s \<times> bytes \<times> nat \<times> bool) result" where
  "readFull vt s expected =
     (if expected = 0 then Inr (s, [], 0, True)
      else case readFull_loop vt s [] expected of
             Inl e \<Rightarrow> Inl e
           | Inr (s', cur, False) \<Rightarrow> Inr (s', cur, 0, False)
           | Inr (s', cur, True) \<Rightarrow> Inr (s', cur, length cur, expected \<le> length cur))"

text \<open>\<^verbatim>\<open>writeStatus += -1\<close>.\<close>

definition socket_failed :: "'s socket_vt \<Rightarrow> 's \<Rightarrow> ('s \<times> bool) result" where
  "socket_failed vt s = map_sum id (\<lambda>ws. (sv_set_status vt ws s, False)) (ws_add (sv_status vt s) (-1))"

text \<open>
  The loop of \<^verbatim>\<open>writeFull\<close> in pieces of 4096 bytes. A socket that reports more bytes than are left makes the pointer leave the buffer.
\<close>

function writeFull_loop :: "'s socket_vt \<Rightarrow> 's \<Rightarrow> bytes \<Rightarrow> ('s \<times> bool) result" where
  "writeFull_loop vt s remaining =
     (if remaining \<noteq> [] then
        (case sv_partialWrite vt s (take 4096 remaining) of
           Inl e \<Rightarrow> Inl e
         | Inr (s', sentBytes) \<Rightarrow>
             if sentBytes \<le> 0 then socket_failed vt (sv_shutdown vt s')
             else if length remaining < nat sentBytes then Inl (UndefinedBehaviour ''read behind the buffer'')
             else writeFull_loop vt s' (drop (nat sentBytes) remaining))
      else Inr (s, True))"
  by pat_completeness auto
termination by (relation "measure (\<lambda>(vt, s, remaining). length remaining)") auto

definition socket_writeFull :: "'s socket_vt \<Rightarrow> 's \<Rightarrow> bytes \<Rightarrow> ('s \<times> bool) result" where
  "socket_writeFull vt s data = (if 2 ^ 63 - 1 < length data then socket_failed vt s else writeFull_loop vt s data)"

text \<open>\<^verbatim>\<open>write\<close> makes a socket a streamable object: no bytes are the end of the stream.\<close>

definition socket_write :: "'s socket_vt \<Rightarrow> 's \<Rightarrow> bytes \<Rightarrow> ('s \<times> nat option) result" where
  "socket_write vt s buf =
     (if buf = [] then Inr (sv_shutdown vt s, Some 0)
      else map_sum id (\<lambda>(s', r). (s', if r > 0 then Some (nat r) else None)) (sv_partialWrite vt s buf))"

definition socket_streamable :: "'s socket_vt \<Rightarrow> 's streamable" where
  "socket_streamable vt = \<lparr>so_write = socket_write vt, so_status = sv_status vt, so_set_status = sv_set_status vt\<rparr>"

text \<open>\<^verbatim>\<open>streamTo\<close> reads until the end of the stream, which may never come: \<open>None\<close>.\<close>

partial_function (option) socket_streamTo :: "'s socket_vt \<Rightarrow> 'o streamable \<Rightarrow> 's \<Rightarrow> 'o \<Rightarrow> ('s \<times> 'o \<times> bool) result option" where
  "socket_streamTo vt io s out =
     (case sv_partialRead vt s 8192 of
        Inl e \<Rightarrow> Some (Inl e)
      | Inr (s', None) \<Rightarrow> Some (Inr (s', out, False))
      | Inr (s', Some data) \<Rightarrow>
          if data = [] then Some (Inr (s', out, True))
          else case writeFullStream io out data of
                 Inl e \<Rightarrow> Some (Inl e)
               | Inr (out', ok) \<Rightarrow>
                   if \<not> ok then Some (Inr (s', out', False))
                   else if finish (so_status io out') then Some (Inr (s', out', True))
                   else socket_streamTo vt io s' out')"


section \<open>Integers in network order\<close>

text \<open>The memory image of \<open>k\<close> bytes after \<^verbatim>\<open>htons\<close>, \<^verbatim>\<open>htonl\<close> or \<^verbatim>\<open>htonll\<close>, and back.\<close>

fun net_bytes :: "nat \<Rightarrow> nat \<Rightarrow> bytes" where
  "net_bytes 0 v = []"
| "net_bytes (Suc k) v = net_bytes k (v div 256) @ [byte_of (v mod 256)]"

definition net_val :: "bytes \<Rightarrow> nat" where
  "net_val bs = foldl (\<lambda>a c. a * 256 + byte_val c) 0 bs"

definition writeU8 :: "'s socket_vt \<Rightarrow> 's \<Rightarrow> 8 word \<Rightarrow> ('s \<times> bool) result" where
  "writeU8 vt s c = socket_writeFull vt s (net_bytes 1 (unat c))"

definition writeU16 :: "'s socket_vt \<Rightarrow> 's \<Rightarrow> 16 word \<Rightarrow> ('s \<times> bool) result" where
  "writeU16 vt s c = socket_writeFull vt s (net_bytes 2 (unat c))"

definition writeU32 :: "'s socket_vt \<Rightarrow> 's \<Rightarrow> 32 word \<Rightarrow> ('s \<times> bool) result" where
  "writeU32 vt s c = socket_writeFull vt s (net_bytes 4 (unat c))"

definition writeU64 :: "'s socket_vt \<Rightarrow> 's \<Rightarrow> 64 word \<Rightarrow> ('s \<times> bool) result" where
  "writeU64 vt s c = socket_writeFull vt s (net_bytes 8 (unat c))"

text \<open>The choice of the templates by the size of their type; \<open>None\<close> for a size that has no case.\<close>

definition write_sized :: "'s socket_vt \<Rightarrow> 's \<Rightarrow> 'a::len word \<Rightarrow> ('s \<times> bool) result option" where
  "write_sized vt s c =
     (if LENGTH('a) = 8 then Some (writeU8 vt s (ucast c))
      else if LENGTH('a) = 16 then Some (writeU16 vt s (ucast c))
      else if LENGTH('a) = 32 then Some (writeU32 vt s (ucast c))
      else if LENGTH('a) = 64 then Some (writeU64 vt s (ucast c))
      else None)"

definition writeU :: "'s socket_vt \<Rightarrow> 's \<Rightarrow> 'a::len word \<Rightarrow> ('s \<times> bool) result" where
  "writeU vt s c =
     (case write_sized vt s c of
        None \<Rightarrow> Inr (writeDeSync vt s, False)
      | Some r \<Rightarrow> map_sum id (\<lambda>(s', ok). (if ok then s' else writeDeSync vt s', ok)) r)"

definition writeBlockEx :: "'s socket_vt \<Rightarrow> 's \<Rightarrow> bytes \<Rightarrow> 'a::len word \<Rightarrow> ('s \<times> bool) result" where
  "writeBlockEx vt s data datalen =
     (case write_sized vt s datalen of
        None \<Rightarrow> Inl (RuntimeError ''Code Error: writting block with invalid lenght variable size.'')
      | Some (Inl e) \<Rightarrow> Inl e
      | Some (Inr (s', False)) \<Rightarrow> Inr (s', False)
      | Some (Inr (s', True)) \<Rightarrow>
          if datalen = 0 then Inr (s', True)
          else map_sum id (\<lambda>(s'', ok). (if ok then s'' else writeDeSync vt s'', ok)) (socket_writeFull vt s' (take (unat datalen) data)))"

text \<open>\<open>max_less_1\<close> is \<^verbatim>\<open>std::numeric_limits<T>::max()-1\<close>; the conversion of the length to \<^verbatim>\<open>T\<close> keeps the low bits.\<close>

definition max_less_1 :: "'a::len itself \<Rightarrow> nat" where
  "max_less_1 T = 2 ^ LENGTH('a) - 2"

definition writeStringEx :: "'a::len itself \<Rightarrow> 's socket_vt \<Rightarrow> 's \<Rightarrow> bytes \<Rightarrow> nat \<Rightarrow> ('s \<times> bool) result" where
  "writeStringEx T vt s str maxSize =
     (if maxSize < length str then Inr (writeDeSync vt s, False)
      else writeBlockEx vt s str (word_of_nat (length str) :: 'a word))"


section \<open>Reading\<close>

text \<open>A variable of \<open>k\<close> bytes is zero before the read, which may fill it in part.\<close>

definition read_sized_U :: "nat \<Rightarrow> 's socket_vt \<Rightarrow> 's \<Rightarrow> ('s \<times> nat \<times> bool) result" where
  "read_sized_U k vt s =
     map_sum id (\<lambda>(s', data, r, ok). (s', net_val (data @ replicate (k - length data) (byte_of 0)), ok \<and> r = k)) (readFull vt s k)"

definition readU8 :: "'s socket_vt \<Rightarrow> 's \<Rightarrow> ('s \<times> nat \<times> bool) result" where
  "readU8 vt s = read_sized_U 1 vt s"

definition readU16 :: "'s socket_vt \<Rightarrow> 's \<Rightarrow> ('s \<times> nat \<times> bool) result" where
  "readU16 vt s = read_sized_U 2 vt s"

definition readU32 :: "'s socket_vt \<Rightarrow> 's \<Rightarrow> ('s \<times> nat \<times> bool) result" where
  "readU32 vt s = read_sized_U 4 vt s"

definition readU64 :: "'s socket_vt \<Rightarrow> 's \<Rightarrow> ('s \<times> nat \<times> bool) result" where
  "readU64 vt s = read_sized_U 8 vt s"

definition readU :: "'a::len itself \<Rightarrow> 's socket_vt \<Rightarrow> 's \<Rightarrow> ('s \<times> 'a word \<times> bool) result" where
  "readU T vt s =
     (case (if LENGTH('a) = 8 then readU8 vt s
            else if LENGTH('a) = 16 then readU16 vt s
            else if LENGTH('a) = 32 then readU32 vt s
            else if LENGTH('a) = 64 then readU64 vt s
            else Inl (RuntimeError ''Code Error: reading block with invalid lenght variable size.'')) of
        Inl e \<Rightarrow> Inl e
      | Inr (s', r, readOK) \<Rightarrow> Inr (if readOK then s' else readDeSync vt s', word_of_nat r, readOK))"

text \<open>
  \<^verbatim>\<open>readBlockEx\<close> reads into a buffer of \<open>datalen\<close> bytes and \<^verbatim>\<open>readBlockWAllocEx\<close> into one that it allocates; they give the bytes and the
  length that they leave in their argument. The size \<^verbatim>\<open>expectedBytesCount+1\<close> of the allocation is computed in at least 32 bits.
\<close>

definition readBlockEx :: "'s socket_vt \<Rightarrow> 's \<Rightarrow> 'a::len word \<Rightarrow> bool \<Rightarrow> ('s \<times> bytes \<times> 'a word \<times> bool) result" where
  "readBlockEx vt s datalen mustReceiveFullDataLen =
     (if datalen = 0 then Inr (s, [], datalen, True)
      else case readU TYPE('a) vt s of
             Inl e \<Rightarrow> Inl e
           | Inr (s', len, False) \<Rightarrow> Inr (s', [], datalen, False)
           | Inr (s', len, True) \<Rightarrow>
               if (len \<noteq> datalen \<and> mustReceiveFullDataLen) \<or> datalen < len then Inr (readDeSync vt s', [], datalen, False)
               else if len = 0 then Inr (s', [], len, True)
               else map_sum id (\<lambda>(s'', data, r, ok). (s'', data, len, ok \<and> r = unat len)) (readFull vt s' (unat len)))"

definition readBlockWAllocEx :: "'s socket_vt \<Rightarrow> 's \<Rightarrow> 'a::len word option \<Rightarrow> ('s \<times> bytes option \<times> 'a word) result" where
  "readBlockWAllocEx vt s datalen0 =
     (let datalen = (case datalen0 of Some d \<Rightarrow> d | None \<Rightarrow> word_of_nat (max_less_1 TYPE('a)))
      in case readU TYPE('a) vt s of
           Inl e \<Rightarrow> Inl e
         | Inr (s', n, False) \<Rightarrow> Inr (s', None, 0)
         | Inr (s', expectedBytesCount, True) \<Rightarrow>
             if datalen < expectedBytesCount then Inr (readDeSync vt s', None, 0)
             else if expectedBytesCount = 0 then Inr (s', Some [], 0)
             else if 32 \<le> LENGTH('a) \<and> expectedBytesCount + 1 = 0 then Inl (UndefinedBehaviour ''buffer of size zero is filled'')
             else case readFull vt s' (unat expectedBytesCount) of
                    Inl e \<Rightarrow> Inl e
                  | Inr (s'', odata, r, ok) \<Rightarrow>
                      if ok \<and> r = unat expectedBytesCount then Inr (s'', Some odata, expectedBytesCount)
                      else Inr (readDeSync vt s'', None, 0))"

definition readStringEx :: "'s socket_vt \<Rightarrow> 's \<Rightarrow> 'a::len word \<Rightarrow> ('s \<times> bytes \<times> bool) result" where
  "readStringEx vt s maxLenght =
     map_sum id (\<lambda>(s', data, receivedBytes).
         (s', case data of None \<Rightarrow> [] | Some d \<Rightarrow> if receivedBytes = 0 then [] else take (unat receivedBytes) d, data \<noteq> None))
       (readBlockWAllocEx vt s (Some maxLenght))"

text \<open>
  Reading to a delimiter. \<open>acc\<close> are the bytes of the earlier blocks and of this one; the position in the block runs from 1 to 65536.
\<close>

function read64KBlockDelim :: "'s socket_vt \<Rightarrow> 's \<Rightarrow> bytes \<Rightarrow> bytes \<Rightarrow> nat \<Rightarrow> nat \<Rightarrow> ('s \<times> bytes \<times> int) result" where
  "read64KBlockDelim vt s acc delim blockNo pos =
     (if pos \<le> 65536 then
        case readU8 vt s of
          Inl e \<Rightarrow> Inl e
        | Inr (s', v, readOK) \<Rightarrow>
            let acc' = acc @ [byte_of v]
            in if \<not> readOK then Inr (s', acc', -2)
               else if (blockNo = 0 \<and> length delim \<le> pos \<or> 0 < blockNo) \<and> drop (length acc' - length delim) acc' = delim then Inr (s', acc', int pos)
               else read64KBlockDelim vt s' acc' delim blockNo (pos + 1)
      else Inr (s, acc, -1))"
  by pat_completeness auto
termination by (relation "measure (\<lambda>(vt, s, acc, delim, blockNo, pos). 65537 - pos)") auto

text \<open>The loop of \<^verbatim>\<open>readBlock32WAllocAndDelim\<close>; \<open>blockNo\<close> blocks of 65536 bytes are full. The sizes are 32-bit integers.\<close>

function read_blocks :: "'s socket_vt \<Rightarrow> 's \<Rightarrow> nat \<Rightarrow> bytes \<Rightarrow> bytes \<Rightarrow> nat \<Rightarrow> ('s \<times> (bytes \<times> nat) option) result" where
  "read_blocks vt s datalen acc delim blockNo =
     (case read64KBlockDelim vt s acc delim blockNo 1 of
        Inl e \<Rightarrow> Inl e
      | Inr (s', acc', bytesRecv) \<Rightarrow>
          if bytesRecv = -2 then Inr (s', None)
          else if bytesRecv = -1 then
            if 2 ^ 32 \<le> (blockNo + 2) * 65536 then Inl (UndefinedBehaviour ''size of the new block wraps around'')
            else if datalen < (blockNo + 2) * 65536 then Inr (s', None)
            else read_blocks vt s' datalen acc' delim (blockNo + 1)
          else Inr (s', Some (acc', blockNo * 65536 + nat bytesRecv)))"
  by pat_completeness auto
termination by (relation "measure (\<lambda>(vt, s, datalen, acc, delim, blockNo). 65536 - blockNo)") auto

definition readBlock32WAllocAndDelim :: "'s socket_vt \<Rightarrow> 's \<Rightarrow> nat \<Rightarrow> bytes \<Rightarrow> ('s \<times> (bytes \<times> nat) option) result" where
  "readBlock32WAllocAndDelim vt s datalen delim =
     (if datalen \<le> 65535 then Inr (s, None) else read_blocks vt s datalen [] delim 0)"



declare readFull_loop.simps [simp del] writeFull_loop.simps [simp del] read64KBlockDelim.simps [simp del] read_blocks.simps [simp del]

section \<open>The contract of a connected socket\<close>

text \<open>
  What the operating system promises for a connected stream with room: a read gives a non-empty part of what is \<open>pending\<close>, a write takes
  a non-empty part of what it is given. \<open>echo\<close> is what the peer answers to the bytes that it gets, at once; it is empty for a silent peer.
\<close>

locale socket_line =
  fixes vt :: "'s socket_vt" and pending :: "'s \<Rightarrow> bytes" and sent :: "'s \<Rightarrow> bytes" and room :: "'s \<Rightarrow> nat \<Rightarrow> bool" and echo :: "bytes \<Rightarrow> bytes"
  assumes line_read: "room s k \<Longrightarrow> pending s \<noteq> [] \<Longrightarrow> 0 < n \<Longrightarrow>
      \<exists>s' bs. sv_partialRead vt s n = Inr (s', Some bs) \<and> bs \<noteq> [] \<and> length bs \<le> n \<and> pending s = bs @ pending s' \<and> sent s' = sent s \<and> room s' k"
    and line_write: "room s k \<Longrightarrow> data \<noteq> [] \<Longrightarrow> length data \<le> k \<Longrightarrow>
      \<exists>s' n. sv_partialWrite vt s data = Inr (s', int n) \<and> 0 < n \<and> n \<le> length data \<and> sent s' = sent s @ take n data
        \<and> pending s' = pending s @ echo (take n data) \<and> room s' (k - n)"
    and echo_append: "echo (a @ b) = echo a @ echo b" and room_less: "room s k \<Longrightarrow> j \<le> k \<Longrightarrow> room s j"
begin

lemma echo_Nil: "echo [] = []"
  using echo_append [of "[]" "[]"] by simp

lemma readFull_loop_reads:
  "room s k \<Longrightarrow> length cur \<le> n \<Longrightarrow> n - length cur \<le> length (pending s) \<Longrightarrow>
     \<exists>s'. readFull_loop vt s cur n = Inr (s', cur @ take (n - length cur) (pending s), True)
       \<and> pending s' = drop (n - length cur) (pending s) \<and> sent s' = sent s \<and> room s' k"
proof (induction "n - length cur" arbitrary: s cur rule: less_induct)
  case less
  show ?case
  proof (cases "length cur < n")
    case True
    then have "0 < min 4096 (n - length cur)" "pending s \<noteq> []" using less.prems by auto
    from line_read [OF less.prems(1) this(2,1)] obtain s1 bs where s1: "sv_partialRead vt s (min 4096 (n - length cur)) = Inr (s1, Some bs)" "bs \<noteq> []"
        "length bs \<le> n - length cur" "pending s = bs @ pending s1" "sent s1 = sent s" "room s1 k" by auto
    have "n - length (cur @ bs) < n - length cur" using s1(2) True by (auto intro!: diff_less_mono2)
    moreover have "length (cur @ bs) \<le> n" "n - length (cur @ bs) \<le> length (pending s1)" using s1(3,4) less.prems(2,3) by auto
    ultimately obtain s' where
      "readFull_loop vt s1 (cur @ bs) n = Inr (s', cur @ bs @ take (n - length (cur @ bs)) (pending s1), True)"
      "pending s' = drop (n - length (cur @ bs)) (pending s1)" "sent s' = sent s1" "room s' k" using less.hyps [OF _ s1(6)] by fastforce
    then show ?thesis using s1 True by (subst readFull_loop.simps) auto
  next
    case False
    then show ?thesis using less.prems by (subst readFull_loop.simps) auto
  qed
qed

lemma readFull_reads:
  assumes "room s k" and "n \<le> length (pending s)"
  shows "\<exists>s'. readFull vt s n = Inr (s', take n (pending s), n, True) \<and> pending s' = drop n (pending s) \<and> sent s' = sent s \<and> room s' k"
  using readFull_loop_reads [of s k "[]" n] assms by (cases "n = 0") (auto simp: readFull_def)

lemma writeFull_loop_sends:
  "room s k \<Longrightarrow> length data \<le> k \<Longrightarrow>
     \<exists>s'. writeFull_loop vt s data = Inr (s', True) \<and> sent s' = sent s @ data \<and> pending s' = pending s @ echo data \<and> room s' (k - length data)"
proof (induction "length data" arbitrary: s k data rule: less_induct)
  case less
  show ?case
  proof (cases "data = []")
    case True
    then show ?thesis using less.prems by (subst writeFull_loop.simps) (simp add: echo_Nil)
  next
    case False
    then have t: "take 4096 data \<noteq> []" "length (take 4096 data) \<le> k" using less.prems(2) by auto
    obtain s1 n where s1: "sv_partialWrite vt s (take 4096 data) = Inr (s1, int n)" "0 < n" "n \<le> length (take 4096 data)"
        "sent s1 = sent s @ take n data" "pending s1 = pending s @ echo (take n data)" "room s1 (k - n)"
      using line_write [OF less.prems(1) t] by (auto simp: min_def split: if_splits)
    have "length (drop n data) < length data" "length (drop n data) \<le> k - n" using s1(2,3) less.prems(2) by auto
    then obtain s' where "writeFull_loop vt s1 (drop n data) = Inr (s', True)" "sent s' = sent s1 @ drop n data"
        "pending s' = pending s1 @ echo (drop n data)" "room s' (k - n - length (drop n data))"
      using less.hyps [OF _ s1(6)] by blast
    moreover have "echo (take n data) @ echo (drop n data) = echo data" by (simp flip: echo_append)
    ultimately show ?thesis using s1 False by (subst writeFull_loop.simps) auto
  qed
qed

lemma writeFull_sends:
  assumes "room s k" and "length data \<le> k" and "length data < 2 ^ 63"
  shows "\<exists>s'. socket_writeFull vt s data = Inr (s', True) \<and> sent s' = sent s @ data \<and> pending s' = pending s @ echo data \<and> room s' (k - length data)"
  using writeFull_loop_sends [OF assms(1,2)] assms(3) by (simp add: socket_writeFull_def)

end


section \<open>Integers, blocks and strings over a line\<close>

lemma length_net_bytes [simp]: "length (net_bytes k v) = k"
  by (induction k arbitrary: v) simp_all

lemma net_val_snoc: "net_val (bs @ [c]) = net_val bs * 256 + byte_val c"
  by (simp add: net_val_def)

lemma net_val_bytes: "v < 256 ^ k \<Longrightarrow> net_val (net_bytes k v) = v"
proof (induction k arbitrary: v)
  case 0
  then show ?case by (simp add: net_val_def)
next
  case (Suc k)
  then have "v div 256 < 256 ^ k" by (simp add: less_mult_imp_div_less mult.commute)
  then show ?case using Suc.IH by (simp add: net_val_snoc)
qed

text \<open>The sizes of integers that the templates support, in bytes.\<close>

definition sized :: "'a::len itself \<Rightarrow> bool" where
  "sized T \<longleftrightarrow> LENGTH('a) \<in> {8, 16, 32, 64}"

definition frame_of :: "'a::len itself \<Rightarrow> bytes \<Rightarrow> bytes" where
  "frame_of T str = net_bytes (LENGTH('a) div 8) (length str) @ str"

lemma length_frame: "length (frame_of TYPE('a::len) str) = LENGTH('a) div 8 + length str"
  by (simp add: frame_of_def)

lemma net_val_word:
  assumes "sized TYPE('a::len)"
  shows "net_val (net_bytes (LENGTH('a) div 8) (unat (c :: 'a word))) = unat c"
proof -
  have "(256 :: nat) ^ (LENGTH('a) div 8) = 2 ^ LENGTH('a)" using assms by (auto simp: sized_def)
  then show ?thesis using unsigned_less [of c] by (intro net_val_bytes) simp
qed

lemma unat_ucast_same: "LENGTH('a::len) = LENGTH('b::len) \<Longrightarrow> unat (ucast (c :: 'a word) :: 'b word) = unat c"
  using unsigned_less [of c, where ?'a = nat] by (simp add: unsigned_ucast_eq take_bit_nat_eq_self)

lemma write_sized_bytes:
  assumes "sized TYPE('a::len)"
  shows "write_sized vt s (c :: 'a word) = Some (socket_writeFull vt s (net_bytes (LENGTH('a) div 8) (unat c)))"
  using assms by (auto simp: sized_def write_sized_def writeU8_def writeU16_def writeU32_def writeU64_def unat_ucast_same)

context socket_line
begin

lemma readU_reads:
  assumes "room s k" and "sized TYPE('a::len)" and "pending s = net_bytes (LENGTH('a) div 8) (unat (c :: 'a word)) @ rest"
  shows "\<exists>s'. readU TYPE('a) vt s = Inr (s', c, True) \<and> pending s' = rest \<and> sent s' = sent s \<and> room s' k"
proof -
  let ?k = "LENGTH('a) div 8"
  obtain s' where s': "readFull vt s ?k = Inr (s', net_bytes ?k (unat c), ?k, True)" "pending s' = rest" "sent s' = sent s" "room s' k"
    using readFull_reads [OF assms(1), of ?k] assms(3) by auto
  then have "read_sized_U ?k vt s = Inr (s', unat c, True)" using net_val_word [OF assms(2), of c] by (simp add: read_sized_U_def)
  then have "readU TYPE('a) vt s = Inr (s', c, True)"
    using assms(2) by (auto simp: sized_def readU_def readU8_def readU16_def readU32_def readU64_def)
  then show ?thesis using s'(2-4) by blast
qed

lemma writeU_sends:
  assumes "room s k" and "sized TYPE('a::len)" and "LENGTH('a) div 8 \<le> k"
  shows "\<exists>s'. writeU vt s (c :: 'a word) = Inr (s', True) \<and> sent s' = sent s @ net_bytes (LENGTH('a) div 8) (unat c)
    \<and> pending s' = pending s @ echo (net_bytes (LENGTH('a) div 8) (unat c)) \<and> room s' (k - LENGTH('a) div 8)"
proof -
  have "length (net_bytes (LENGTH('a) div 8) (unat c)) < 2 ^ 63" using assms(2) by (auto simp: sized_def)
  then obtain s' where "socket_writeFull vt s (net_bytes (LENGTH('a) div 8) (unat c)) = Inr (s', True)"
      "sent s' = sent s @ net_bytes (LENGTH('a) div 8) (unat c)" "pending s' = pending s @ echo (net_bytes (LENGTH('a) div 8) (unat c))" "room s' (k - LENGTH('a) div 8)"
    using writeFull_sends [OF assms(1), of "net_bytes (LENGTH('a) div 8) (unat c)"] assms(3) by auto
  then show ?thesis using write_sized_bytes [OF assms(2), of vt s c] by (intro exI [of _ s']) (simp add: writeU_def)
qed

lemma writeStringEx_sends:
  assumes "room s k" and "sized TYPE('a::len)" and "length str \<le> maxSize" and "length str \<le> max_less_1 TYPE('a)" and "length (frame_of TYPE('a) str) \<le> k"
    and "length str < 2 ^ 63"
  shows "\<exists>s'. writeStringEx TYPE('a) vt s str maxSize = Inr (s', True) \<and> sent s' = sent s @ frame_of TYPE('a) str
    \<and> pending s' = pending s @ echo (frame_of TYPE('a) str) \<and> room s' (k - length (frame_of TYPE('a) str))"
proof -
  let ?k = "LENGTH('a) div 8" and ?w = "word_of_nat (length str) :: 'a word"
  have "length str < 2 ^ LENGTH('a)" using assms(2,4) by (auto simp: sized_def max_less_1_def)
  then have w: "unat ?w = length str" by (simp add: unat_of_nat take_bit_nat_eq_self)
  have k: "?k \<le> k" "length str \<le> k - ?k" using assms(5) by (simp_all add: length_frame)
  have n: "length (net_bytes ?k (length str)) < 2 ^ 63" using assms(2) by (auto simp: sized_def)
  obtain s1 where s1: "socket_writeFull vt s (net_bytes ?k (length str)) = Inr (s1, True)" "sent s1 = sent s @ net_bytes ?k (length str)"
      "pending s1 = pending s @ echo (net_bytes ?k (length str))" "room s1 (k - ?k)"
    using writeFull_sends [OF assms(1) _ n] k(1) by auto
  obtain s2 where s2: "socket_writeFull vt s1 str = Inr (s2, True)" "sent s2 = sent s1 @ str" "pending s2 = pending s1 @ echo str" "room s2 (k - ?k - length str)"
    using writeFull_sends [OF s1(4) k(2) assms(6)] by auto
  have z: "?w = 0 \<longleftrightarrow> str = []" using w by (metis length_0_conv unat_0 unat_eq_zero)
  have wb: "write_sized vt s ?w = Some (Inr (s1, True))" using write_sized_bytes [OF assms(2), of vt s ?w] s1(1) w by simp
  have "writeBlockEx vt s str ?w = Inr (if str = [] then s1 else s2, True)"
    using wb s2(1) w z by (simp add: writeBlockEx_def)
  moreover have "s1' = s1" if "str = []" "s1' = s1" for s1' using that by simp
  ultimately show ?thesis
    using assms(3) s1(2-4) s2(2-4) echo_append [of "net_bytes ?k (length str)" str]
    by (intro exI [of _ "if str = [] then s1 else s2"]) (auto simp: writeStringEx_def frame_of_def)
qed

lemma readStringEx_reads:
  assumes "room s k" and "sized TYPE('a::len)" and "pending s = frame_of TYPE('a) str @ rest" and "length str \<le> unat m" and "length str \<le> max_less_1 TYPE('a)"
  shows "\<exists>s'. readStringEx vt s (m :: 'a word) = Inr (s', str, True) \<and> pending s' = rest \<and> sent s' = sent s \<and> room s' k"
proof -
  let ?k = "LENGTH('a) div 8" and ?w = "word_of_nat (length str) :: 'a word"
  have less: "length str < 2 ^ LENGTH('a) - 1" using assms(2,5) by (auto simp: sized_def max_less_1_def)
  then have "length str < 2 ^ LENGTH('a)" by simp
  then have w: "unat ?w = length str" by (simp add: unat_of_nat take_bit_nat_eq_self)
  obtain s1 where s1: "readU TYPE('a) vt s = Inr (s1, ?w, True)" "pending s1 = str @ rest" "sent s1 = sent s" "room s1 k"
    using readU_reads [OF assms(1,2), of ?w "str @ rest"] assms(3) w by (auto simp: frame_of_def)
  obtain s2 where s2: "readFull vt s1 (length str) = Inr (s2, str, length str, True)" "pending s2 = rest" "sent s2 = sent s" "room s2 k"
    using readFull_reads [OF s1(4), of "length str"] s1(2,3) by auto
  have z: "?w = 0 \<longleftrightarrow> str = []" using w by (metis length_0_conv unat_0 unat_eq_zero)
  have "\<not> m < ?w" using assms(4) w by (simp add: word_less_nat_alt)
  moreover have "?w + 1 \<noteq> 0"
  proof
    assume "?w + 1 = 0"
    then have "?w = - 1" by (metis add.commute add_eq_0_iff)
    then have "unat ?w = 2 ^ LENGTH('a) - 1" by (simp add: unsigned_minus_1_eq_mask mask_eq_exp_minus_1)
    then show False using w less by simp
  qed
  ultimately have "readBlockWAllocEx vt s (Some m) = Inr (if str = [] then s1 else s2, Some str, ?w)"
    using s1(1) s2(1) w z by (auto simp: readBlockWAllocEx_def)
  then have "readStringEx vt s m = Inr (if str = [] then s1 else s2, str, True)" using w z by (auto simp: readStringEx_def)
  then show ?thesis using s1(2-4) s2(2-4) by (intro exI [of _ "if str = [] then s1 else s2"]) auto
qed

end



section \<open>The in-memory socket\<close>

record 'y dummy_socket =
  ds_sender :: "'y chunks"
  ds_receiver :: "'y chunks"
  shuttedDownRD :: bool
  shuttedDownWR :: bool
  ds_peerName :: bytes
  ds_writeStatus :: WriteStatus

datatype shut_mode = SHUT_RD | SHUT_WR | SHUT_RDWR

definition dummy_new :: "'y dummy_socket" where
  "dummy_new = \<lparr>ds_sender = chunks_new, ds_receiver = chunks_new, shuttedDownRD = False, shuttedDownWR = False, ds_peerName = [], ds_writeStatus = ws_init\<rparr>"

definition setPeerName :: "'y dummy_socket \<Rightarrow> bytes \<Rightarrow> 'y dummy_socket" where
  "setPeerName d newPeerName = d\<lparr>ds_peerName := newPeerName\<rparr>"

definition dummy_shutdownSocket :: "'y dummy_socket \<Rightarrow> shut_mode \<Rightarrow> 'y dummy_socket \<times> int" where
  "dummy_shutdownSocket d mode =
     ((case mode of SHUT_RDWR \<Rightarrow> d\<lparr>shuttedDownRD := True, shuttedDownWR := True\<rparr> | SHUT_RD \<Rightarrow> d\<lparr>shuttedDownRD := True\<rparr> | SHUT_WR \<Rightarrow> d\<lparr>shuttedDownWR := True\<rparr>), 0)"

text \<open>The result of \<^verbatim>\<open>copyOut\<close> is ignored; when it fails the caller's buffer stays as it was.\<close>

definition dummy_partialRead :: "'y mmap_vt \<Rightarrow> ('y chunks \<Rightarrow> 'y b_base_scheme option) \<Rightarrow> 'y dummy_socket \<Rightarrow> nat \<Rightarrow> ('y dummy_socket \<times> bytes option) result" where
  "dummy_partialRead mvt fs d datalen =
     (let cvt = chunks_vt mvt fs; storedDataSize = vt_size cvt (ds_sender d)
      in if storedDataSize = 0 then Inr (d, Some [])
         else
           let n = min datalen storedDataSize;
               sender = (if datalen \<le> storedDataSize then fst (b_displace cvt (ds_sender d) datalen) else fst (b_clear cvt (ds_sender d)))
           in case b_copyOut cvt (ds_sender d) n 0 of
                None \<Rightarrow> Inl (UndefinedBehaviour ''the buffer is not filled'')
              | Some data \<Rightarrow> Inr (d\<lparr>ds_sender := sender\<rparr>, Some data))"

definition dummy_partialWrite :: "'y mmap_vt \<Rightarrow> ('y chunks \<Rightarrow> 'y b_base_scheme option) \<Rightarrow> 'y dummy_socket \<Rightarrow> bytes \<Rightarrow> ('y dummy_socket \<times> int) result" where
  "dummy_partialWrite mvt fs d data =
     (case b_append (chunks_vt mvt fs) (ds_receiver d) data of
        (receiver, r) \<Rightarrow> Inr (d\<lparr>ds_receiver := receiver\<rparr>, case r of None \<Rightarrow> -1 | Some n \<Rightarrow> to_ssize n))"

definition dummy_vt :: "'y mmap_vt \<Rightarrow> ('y chunks \<Rightarrow> 'y b_base_scheme option) \<Rightarrow> 'y dummy_socket socket_vt" where
  "dummy_vt mvt fs =
     \<lparr>sv_partialRead = dummy_partialRead mvt fs, sv_partialWrite = dummy_partialWrite mvt fs,
      sv_shutdown = (\<lambda>d. fst (dummy_shutdownSocket d SHUT_RDWR)), sv_status = ds_writeStatus, sv_set_status = (\<lambda>ws d. d\<lparr>ds_writeStatus := ws\<rparr>)\<rparr>"

text \<open>
  Room for \<open>k\<close> bytes, and data to read that lie in one chunk: \<^verbatim>\<open>displace\<close> leaves wrong offsets when two chunks remain, and \<^verbatim>\<open>copyOut\<close> then fails.
\<close>

definition dummy_room :: "'y dummy_socket \<Rightarrow> nat \<Rightarrow> bool" where
  "dummy_room d k \<longleftrightarrow>
     chunks_inv (ds_sender d) \<and> length (m_chunksVector (ds_sender d)) \<le> 1
     \<and> chunks_inv (ds_receiver d) \<and> \<not> m_readOnly (ds_receiver d) \<and> 0 < m_maxChunkSize (ds_receiver d)
     \<and> m_maxSizeInMemoryBeforeMovingToDisk (ds_receiver d) = 0 \<and> k + length (chunks_content (ds_receiver d)) \<le> m_maxSize (ds_receiver d)
     \<and> m_maxSize (ds_receiver d) \<le> size_max \<and> k < 2 ^ 63 \<and> length (m_chunksVector (ds_receiver d)) + k \<le> m_maxChunks (ds_receiver d)"

lemma b_displace_single:
  assumes "chunks_inv s" and "length (m_chunksVector s) \<le> 1" and "n \<le> length (chunks_content s)"
  obtains vec where "b_displace (chunks_vt mvt fs) s n = (with_vec s vec, Some n)" "chunks_content (with_vec s vec) = drop n (chunks_content s)"
    "chunks_inv (with_vec s vec)" "length vec \<le> 1"
proof -
  have d: "chunks_data_inv s" using assms(1) by (simp add: chunks_inv_def)
  have b: "length (chunks_content s) \<le> size_max" "m_mmapContainer s = None" using d by (auto simp: chunks_data_inv_def)
  from chunks_displace_loop_spec [OF d assms(3), of mvt 0] obtain v k where
    v: "chunks_displace_loop mvt s n 0 = (recalcChunkOffsets (with_vec s v), Some n)"
    "vec_content v = drop n (chunks_content s)" "list_all chunk_wf v"
    "map c_offset v = drop k (map c_offset (m_chunksVector s))" by auto
  have e: "b_displace (chunks_vt mvt fs) s n = (recalcChunkOffsets (with_vec s v), Some n)"
    using assms(3) d v(1) by (simp add: b_displace_def chunks_vt_def chunks_displace2_def chunks_data_inv_mmap chunks_size_inv)
  have "length v \<le> 1" using arg_cong [OF v(4), of length] assms(2) by simp
  then consider "v = []" | c where "v = [c]" by (cases v) auto
  then show thesis
  proof cases
    case 1
    then have "recalcChunkOffsets (with_vec s v) = with_vec s []" by (simp add: recalcChunkOffsets_def)
    then show thesis using that [of "[]"] e v(2) 1 b by (simp add: chunks_inv_with_vec chunks_content_def)
  next
    case 2
    have r: "recalcChunkOffsets (with_vec s v) = with_vec s [c\<lparr>c_offset := 0\<rparr>]"
      using 2 by (cases s) (simp add: recalcChunkOffsets_def with_vec_def b_setContainerBytes_def)
    have "chunk_wf (c\<lparr>c_offset := 0\<rparr>)" using v(3) 2 by (simp add: chunk_wf_def)
    then show thesis using that [of "[c\<lparr>c_offset := 0\<rparr>]"] e v(2) 2 b r by (simp add: chunks_inv_with_vec chunks_content_def)
  qed
qed

lemma dummy_partialRead_takes:
  assumes "dummy_room d k" and "chunks_content (ds_sender d) \<noteq> []" and "0 < n"
  shows "\<exists>d'. dummy_partialRead mvt fs d n = Inr (d', Some (take n (chunks_content (ds_sender d))))
    \<and> chunks_content (ds_sender d') = drop n (chunks_content (ds_sender d)) \<and> ds_receiver d' = ds_receiver d \<and> dummy_room d' k"
proof -
  let ?s = "ds_sender d"
  have inv: "chunks_inv ?s" "length (m_chunksVector ?s) \<le> 1" using assms(1) by (simp_all add: dummy_room_def)
  then have size: "vt_size (chunks_vt mvt fs) ?s = length (chunks_content ?s)" by (simp add: bchunks.size_content)
  let ?m = "min n (length (chunks_content ?s))"
  have out: "b_copyOut (chunks_vt mvt fs) ?s ?m 0 = Some (take n (chunks_content ?s))"
    using bchunks.copyOut_content [OF inv(1), of 0 ?m] by (simp add: min_def)
  show ?thesis
  proof (cases "n \<le> length (chunks_content ?s)")
    case True
    from b_displace_single [OF inv True] obtain vec where vec: "b_displace (chunks_vt mvt fs) ?s n = (with_vec ?s vec, Some n)"
      "chunks_content (with_vec ?s vec) = drop n (chunks_content ?s)" "chunks_inv (with_vec ?s vec)" "length vec \<le> 1" by metis
    then show ?thesis using assms size out True
      by (intro exI [of _ "d\<lparr>ds_sender := with_vec ?s vec\<rparr>"]) (simp add: dummy_partialRead_def dummy_room_def min_def)
  next
    case False
    have "length (m_chunksVector (fst (b_clear (chunks_vt mvt fs) ?s))) = 0"
      by (simp add: b_clear_def b_clear0_def chunks_vt_def chunks_clear2_def chunks_clearChunks_def)
    then show ?thesis using assms size out False b_clear_chunks [of mvt fs ?s]
      by (intro exI [of _ "d\<lparr>ds_sender := fst (b_clear (chunks_vt mvt fs) ?s)\<rparr>"]) (simp add: dummy_partialRead_def dummy_room_def min_def)
  qed
qed

interpretation dummy: socket_line "dummy_vt mvt fs" "\<lambda>d. chunks_content (ds_sender d)" "\<lambda>d. chunks_content (ds_receiver d)" dummy_room "\<lambda>_. []"
  for mvt fs
proof
  fix d :: "'a dummy_socket" and k j n :: nat and data a b :: bytes
  show "dummy_room d j" if "dummy_room d k" "j \<le> k" using that by (simp add: dummy_room_def)
  show "\<exists>s' bs. sv_partialRead (dummy_vt mvt fs) d n = Inr (s', Some bs) \<and> bs \<noteq> [] \<and> length bs \<le> n
      \<and> chunks_content (ds_sender d) = bs @ chunks_content (ds_sender s') \<and> chunks_content (ds_receiver s') = chunks_content (ds_receiver d) \<and> dummy_room s' k"
    if "dummy_room d k" "chunks_content (ds_sender d) \<noteq> []" "0 < n"
    using dummy_partialRead_takes [OF that, of mvt fs] that(2,3) by (fastforce simp: dummy_vt_def)
  assume room: "dummy_room d k" and data: "data \<noteq> []" "length data \<le> k"
  let ?r = "ds_receiver d"
  have "length (m_chunksVector ?r) + chunks_needed ?r (length data) \<le> m_maxChunks ?r"
    using chunks_needed_le [of ?r "length data"] room data(2) by (simp add: dummy_room_def)
  then have cr: "chunks_inv ?r" "chunks_room ?r (length data)" using room data(2) by (simp_all add: dummy_room_def chunks_room_def)
  from b_append_chunks [OF cr data(1), of mvt fs] obtain new where new:
    "b_append (chunks_vt mvt fs) ?r data = (with_vec ?r (m_chunksVector ?r @ new), Some (length data))"
    "chunks_inv (with_vec ?r (m_chunksVector ?r @ new))" "vec_content new = data" "length new \<le> chunks_needed ?r (length data)" .
  have "length new \<le> length data" using new(4) chunks_needed_le [of ?r "length data"] room by (simp add: dummy_room_def)
  then have "length (m_chunksVector ?r) + length new + (k - length data) \<le> m_maxChunks ?r" "k - length data < 2 ^ 63"
    using room data(2) unfolding dummy_room_def by (linarith, linarith)
  then have "dummy_room (d\<lparr>ds_receiver := with_vec ?r (m_chunksVector ?r @ new)\<rparr>) (k - length data)"
    using room data(2) new(2,3) by (simp add: dummy_room_def chunks_content_def)
  moreover have "to_ssize (length data) = int (length data)" using room data(2) by (simp add: to_ssize_small dummy_room_def)
  ultimately show "\<exists>s' n. sv_partialWrite (dummy_vt mvt fs) d data = Inr (s', int n) \<and> 0 < n \<and> n \<le> length data
      \<and> chunks_content (ds_receiver s') = chunks_content (ds_receiver d) @ take n data
      \<and> chunks_content (ds_sender s') = chunks_content (ds_sender d) @ [] \<and> dummy_room s' (k - n)"
    using new(1,3) data(1)
    by (intro exI [of _ "d\<lparr>ds_receiver := with_vec ?r (m_chunksVector ?r @ new)\<rparr>"] exI [of _ "length data"])
      (simp add: dummy_vt_def dummy_partialWrite_def chunks_content_def)
qed simp


section \<open>The XOR layer\<close>

text \<open>A layer over another socket. The copy is made by a loop with a 32-bit counter, so that it is meant for less than \<open>2\<^sup>3\<^sup>2\<close> bytes.\<close>

record 's xor_socket =
  xs_base :: 's
  m_xorByte :: char

definition xor_new :: "'s \<Rightarrow> 's xor_socket" where
  "xor_new s = \<lparr>xs_base = s, m_xorByte = CHR 0x77\<rparr>"

definition setXorByte :: "'s xor_socket \<Rightarrow> char \<Rightarrow> 's xor_socket" where
  "setXorByte x k = x\<lparr>m_xorByte := k\<rparr>"

definition getXorCopy :: "'s xor_socket \<Rightarrow> bytes \<Rightarrow> bytes" where
  "getXorCopy x data = map (\<lambda>c. xor_byte c (m_xorByte x)) data"

definition xor_partialRead :: "'s socket_vt \<Rightarrow> 's xor_socket \<Rightarrow> nat \<Rightarrow> ('s xor_socket \<times> bytes option) result" where
  "xor_partialRead vt x datalen =
     (if datalen = 0 then Inr (x, Some [])
      else map_sum id (\<lambda>(s', r). (x\<lparr>xs_base := s'\<rparr>, map_option (getXorCopy x) r)) (sv_partialRead vt (xs_base x) datalen))"

definition xor_partialWrite :: "'s socket_vt \<Rightarrow> 's xor_socket \<Rightarrow> bytes \<Rightarrow> ('s xor_socket \<times> int) result" where
  "xor_partialWrite vt x data =
     (if data = [] then Inr (x, 0)
      else map_sum id (\<lambda>(s', r). (x\<lparr>xs_base := s'\<rparr>, r)) (sv_partialWrite vt (xs_base x) (getXorCopy x data)))"

definition xor_vt :: "'s socket_vt \<Rightarrow> 's xor_socket socket_vt" where
  "xor_vt vt =
     \<lparr>sv_partialRead = xor_partialRead vt, sv_partialWrite = xor_partialWrite vt, sv_shutdown = (\<lambda>x. x\<lparr>xs_base := sv_shutdown vt (xs_base x)\<rparr>),
      sv_status = (\<lambda>x. sv_status vt (xs_base x)), sv_set_status = (\<lambda>ws x. x\<lparr>xs_base := sv_set_status vt ws (xs_base x)\<rparr>)\<rparr>"

text \<open>\<open>masked c\<close>: what goes over the wire for a layer with the key \<open>c\<close>.\<close>

definition masked :: "char \<Rightarrow> bytes \<Rightarrow> bytes" where
  "masked c data = map (\<lambda>b. xor_byte b c) data"

lemma masked_simps [simp]:
  "masked c [] = []" "masked c (a @ b) = masked c a @ masked c b" "length (masked c a) = length a" "masked c a = [] \<longleftrightarrow> a = []"
  "masked c (masked c a) = a" "take n (masked c a) = masked c (take n a)"
  by (simp_all add: masked_def xor_byte_cancel take_map comp_def)

lemma getXorCopy_masked: "getXorCopy x data = masked (m_xorByte x) data"
  by (simp add: getXorCopy_def masked_def)

context socket_line
begin

text \<open>A layer over a line with a silent peer is a line again; what is pending and what was sent are seen through the layer.\<close>

lemma xor_line:
  assumes "\<And>b. echo b = []"
  shows "socket_line (xor_vt vt) (\<lambda>x. masked c (pending (xs_base x))) (\<lambda>x. masked c (sent (xs_base x))) (\<lambda>x k. room (xs_base x) k \<and> m_xorByte x = c) (\<lambda>_. [])"
proof
  fix x :: "'s xor_socket" and k j n :: nat and data :: bytes
  show "room (xs_base x) j \<and> m_xorByte x = c" if "room (xs_base x) k \<and> m_xorByte x = c" "j \<le> k" using that room_less by blast
  show "\<exists>s' bs. sv_partialRead (xor_vt vt) x n = Inr (s', Some bs) \<and> bs \<noteq> [] \<and> length bs \<le> n
      \<and> masked c (pending (xs_base x)) = bs @ masked c (pending (xs_base s'))
      \<and> masked c (sent (xs_base s')) = masked c (sent (xs_base x)) \<and> room (xs_base s') k \<and> m_xorByte s' = c"
    if r: "room (xs_base x) k \<and> m_xorByte x = c" "masked c (pending (xs_base x)) \<noteq> []" "0 < n"
  proof -
    obtain s' bs where "sv_partialRead vt (xs_base x) n = Inr (s', Some bs)" "bs \<noteq> []" "length bs \<le> n" "pending (xs_base x) = bs @ pending s'"
        "sent s' = sent (xs_base x)" "room s' k" using line_read [OF conjunct1 [OF r(1)] _ r(3)] r(2) by auto
    then show ?thesis using r(1,3)
      by (intro exI [of _ "x\<lparr>xs_base := s'\<rparr>"] exI [of _ "masked c bs"]) (simp add: xor_vt_def xor_partialRead_def getXorCopy_masked)
  qed
  assume w: "room (xs_base x) k \<and> m_xorByte x = c" "data \<noteq> []" "length data \<le> k"
  then obtain s' n where "sv_partialWrite vt (xs_base x) (masked c data) = Inr (s', int n)" "0 < n" "n \<le> length data"
      "sent s' = sent (xs_base x) @ masked c (take n data)" "pending s' = pending (xs_base x)" "room s' (k - n)"
    using line_write [of "xs_base x" k "masked c data"] assms by auto
  then show "\<exists>s' n. sv_partialWrite (xor_vt vt) x data = Inr (s', int n) \<and> 0 < n \<and> n \<le> length data
      \<and> masked c (sent (xs_base s')) = masked c (sent (xs_base x)) @ take n data
      \<and> masked c (pending (xs_base s')) = masked c (pending (xs_base x)) @ [] \<and> room (xs_base s') (k - n) \<and> m_xorByte s' = c"
    using w(1,2) by (intro exI [of _ "x\<lparr>xs_base := s'\<rparr>"] exI [of _ n]) (simp add: xor_vt_def xor_partialWrite_def getXorCopy_masked)
qed simp

end

interpretation dummy_xor: socket_line "xor_vt (dummy_vt mvt fs)" "\<lambda>x. masked c (chunks_content (ds_sender (xs_base x)))"
    "\<lambda>x. masked c (chunks_content (ds_receiver (xs_base x)))" "\<lambda>x k. dummy_room (xs_base x) k \<and> m_xorByte x = c" "\<lambda>_. []"
  for mvt fs c
  by (rule dummy.xor_line) simp


section \<open>Sockets of the operating system\<close>

text \<open>
  \<^verbatim>\<open>socket.cpp\<close>: a file descriptor and the calls of the operating system on it, which are the parameter \<open>kernel\<close>. A negative result of
  \<^verbatim>\<open>recv\<close> and \<^verbatim>\<open>read\<close> is \<open>None\<close>. \<open>m_sockFD\<close> is \<open>-1\<close> for a socket that is not open.
\<close>

record 'k kernel =
  k_recv :: "'k \<Rightarrow> nat \<Rightarrow> 'k \<times> bytes option"
  k_read :: "'k \<Rightarrow> nat \<Rightarrow> 'k \<times> bytes option"
  k_send :: "'k \<Rightarrow> bytes \<Rightarrow> 'k \<times> int"
  k_write :: "'k \<Rightarrow> bytes \<Rightarrow> 'k \<times> int"
  k_shutdown :: "'k \<Rightarrow> shut_mode \<Rightarrow> 'k \<times> int"

record 'k net_socket =
  m_useWriteInsteadRecv :: bool
  m_sockFD :: int
  m_shutdownProtocolOnRead :: bool
  m_shutdownProtocolOnWrite :: bool
  ns_kernel :: 'k
  ns_writeStatus :: WriteStatus

definition net_socket_new :: "'k \<Rightarrow> 'k net_socket" where
  "net_socket_new k = \<lparr>m_useWriteInsteadRecv = False, m_sockFD = -1, m_shutdownProtocolOnRead = False, m_shutdownProtocolOnWrite = False,
     ns_kernel = k, ns_writeStatus = ws_init\<rparr>"

definition setUseWriteInsteadRecv :: "'k net_socket \<Rightarrow> 'k net_socket" where
  "setUseWriteInsteadRecv s = s\<lparr>m_useWriteInsteadRecv := True\<rparr>"

definition isActive :: "'k net_socket \<Rightarrow> bool" where
  "isActive s \<longleftrightarrow> m_sockFD s \<noteq> -1"

definition setSocketFD :: "'k net_socket \<Rightarrow> int \<Rightarrow> 'k net_socket result" where
  "setSocketFD s fd =
     (if m_sockFD s \<noteq> -1 then Inl (RuntimeError ''Assiging a file descriptor to an initialized Socket.'') else Inr (s\<lparr>m_sockFD := fd\<rparr>))"

definition adquireSocketFD :: "'k net_socket \<Rightarrow> 'k net_socket \<times> int" where
  "adquireSocketFD s = (s\<lparr>m_sockFD := -1\<rparr>, m_sockFD s)"

definition net_partialRead :: "'k kernel \<Rightarrow> 'k net_socket \<Rightarrow> nat \<Rightarrow> ('k net_socket \<times> bytes option) result" where
  "net_partialRead kv s datalen =
     (if \<not> isActive s then Inr (s, None)
      else if datalen = 0 then Inr (s, Some [])
      else case (if \<not> m_useWriteInsteadRecv s then k_recv kv else k_read kv) (ns_kernel s) datalen of
             (k, r) \<Rightarrow> Inr (s\<lparr>ns_kernel := k\<rparr>, r))"

definition net_partialWrite :: "'k kernel \<Rightarrow> 'k net_socket \<Rightarrow> bytes \<Rightarrow> ('k net_socket \<times> int) result" where
  "net_partialWrite kv s data =
     (if \<not> isActive s then Inr (s, -1)
      else if data = [] then Inr (s, 0)
      else case (if \<not> m_useWriteInsteadRecv s then k_send kv else k_write kv) (ns_kernel s) data of
             (k, r) \<Rightarrow> Inr (s\<lparr>ns_kernel := k\<rparr>, r))"

definition shutdown_fd :: "'k kernel \<Rightarrow> 'k net_socket \<Rightarrow> shut_mode \<Rightarrow> 'k net_socket \<times> int" where
  "shutdown_fd kv s mode = (case k_shutdown kv (ns_kernel s) mode of (k, x) \<Rightarrow> (s\<lparr>ns_kernel := k\<rparr>, x))"

text \<open>A direction that was shut down before is not shut down again.\<close>

definition iShutdown :: "'k kernel \<Rightarrow> 'k net_socket \<Rightarrow> shut_mode \<Rightarrow> 'k net_socket \<times> int" where
  "iShutdown kv s mode =
     (if \<not> isActive s then (s, -10)
      else
        let rd_to_shutdown = (mode \<in> {SHUT_RD, SHUT_RDWR} \<and> \<not> m_shutdownProtocolOnRead s);
            wr_to_shutdown = (mode \<in> {SHUT_WR, SHUT_RDWR} \<and> \<not> m_shutdownProtocolOnWrite s)
        in if rd_to_shutdown \<and> wr_to_shutdown then
             (case shutdown_fd kv s SHUT_RDWR of (s', x) \<Rightarrow> (s'\<lparr>m_shutdownProtocolOnRead := True, m_shutdownProtocolOnWrite := True\<rparr>, x))
           else if rd_to_shutdown then (case shutdown_fd kv s SHUT_RD of (s', x) \<Rightarrow> (s'\<lparr>m_shutdownProtocolOnRead := True\<rparr>, x))
           else if wr_to_shutdown then (case shutdown_fd kv s SHUT_WR of (s', x) \<Rightarrow> (s'\<lparr>m_shutdownProtocolOnWrite := True\<rparr>, x))
           else (s, -1))"

definition shutdownSocket :: "'k kernel \<Rightarrow> 'k net_socket \<Rightarrow> shut_mode \<Rightarrow> 'k net_socket \<times> int" where
  "shutdownSocket kv s mode = (if \<not> isActive s then (s, -1) else iShutdown kv s mode)"

definition net_vt :: "'k kernel \<Rightarrow> 'k net_socket socket_vt" where
  "net_vt kv =
     \<lparr>sv_partialRead = net_partialRead kv, sv_partialWrite = net_partialWrite kv, sv_shutdown = (\<lambda>s. fst (shutdownSocket kv s SHUT_RDWR)),
      sv_status = ns_writeStatus, sv_set_status = (\<lambda>ws s. s\<lparr>ns_writeStatus := ws\<rparr>)\<rparr>"

text \<open>
  A connected stream of the operating system. What arrived is in \<open>w_in\<close>, what was taken from the program in \<open>w_out\<close>. Each call handles as
  many bytes as the system likes, but at least one: the \<open>i\<close>-th call at most \<open>w_plan i + 1\<close>. Every way to cut the stream in pieces is a plan.
\<close>

record wire =
  w_in :: bytes
  w_out :: bytes
  w_plan :: "nat \<Rightarrow> nat"
  w_calls :: nat

definition wire_piece :: "wire \<Rightarrow> nat \<Rightarrow> nat" where
  "wire_piece w n = min n (Suc (w_plan w (w_calls w)))"

definition wire_recv :: "wire \<Rightarrow> nat \<Rightarrow> wire \<times> bytes option" where
  "wire_recv w n = (w\<lparr>w_in := drop (wire_piece w n) (w_in w), w_calls := Suc (w_calls w)\<rparr>, Some (take (wire_piece w n) (w_in w)))"

definition wire_send :: "wire \<Rightarrow> bytes \<Rightarrow> wire \<times> int" where
  "wire_send w data =
     (w\<lparr>w_out := w_out w @ take (wire_piece w (length data)) data, w_calls := Suc (w_calls w)\<rparr>, int (wire_piece w (length data)))"

definition wire_kernel :: "wire kernel" where
  "wire_kernel = \<lparr>k_recv = wire_recv, k_read = wire_recv, k_send = wire_send, k_write = wire_send, k_shutdown = (\<lambda>w mode. (w, 0))\<rparr>"

interpretation net: socket_line "net_vt wire_kernel" "\<lambda>s. w_in (ns_kernel s)" "\<lambda>s. w_out (ns_kernel s)" "\<lambda>s k. isActive s" "\<lambda>_. []"
proof
  fix s :: "wire net_socket" and n :: nat and data :: bytes
  assume a: "isActive s"
  let ?w = "ns_kernel s"
  show "\<exists>s' bs. sv_partialRead (net_vt wire_kernel) s n = Inr (s', Some bs) \<and> bs \<noteq> [] \<and> length bs \<le> n
      \<and> w_in ?w = bs @ w_in (ns_kernel s') \<and> w_out (ns_kernel s') = w_out ?w \<and> isActive s'" if "w_in ?w \<noteq> []" "0 < n"
    using a that by (simp add: net_vt_def net_partialRead_def wire_kernel_def wire_recv_def wire_piece_def isActive_def min_le_iff_disj)
  show "\<exists>s' n. sv_partialWrite (net_vt wire_kernel) s data = Inr (s', int n) \<and> 0 < n \<and> n \<le> length data
      \<and> w_out (ns_kernel s') = w_out ?w @ take n data \<and> w_in (ns_kernel s') = w_in ?w @ [] \<and> isActive s'" if "data \<noteq> []"
    using a that by (intro exI [of _ "s\<lparr>ns_kernel := fst (wire_send ?w data)\<rparr>"] exI [of _ "wire_piece ?w (length data)"])
      (simp add: net_vt_def net_partialWrite_def wire_kernel_def wire_send_def wire_piece_def isActive_def)
qed simp_all

interpretation net_xor: socket_line "xor_vt (net_vt wire_kernel)" "\<lambda>x. masked c (w_in (ns_kernel (xs_base x)))" "\<lambda>x. masked c (w_out (ns_kernel (xs_base x)))"
    "\<lambda>x k. isActive (xs_base x) \<and> m_xorByte x = c" "\<lambda>_. []"
  for c
  by (rule net.xor_line) simp


section \<open>The buffered reader\<close>

text \<open>
  The constructor allocates \<^verbatim>\<open>bufferSize\<close> bytes and never sets \<^verbatim>\<open>m_maxBufferSize\<close>, which is then whatever the memory held: \<open>garbage\<close>.
\<close>

record 's buffered_reader =
  br_stream :: 's
  br_buffer :: bytes
  br_allocated :: nat
  m_maxBufferSize :: nat

definition buffered_reader_new :: "nat \<Rightarrow> 's \<Rightarrow> nat \<Rightarrow> 's buffered_reader" where
  "buffered_reader_new garbage stream bufferSize = \<lparr>br_stream = stream, br_buffer = [], br_allocated = bufferSize, m_maxBufferSize = garbage\<rparr>"

datatype eStreamBufferReadErrors =
  E_STREAMBUFFER_READ_OK | E_STREAMBUFFER_READ_FULL | E_STREAMBUFFER_READ_NOTFOUND | E_STREAMBUFFER_READ_DISCONNECTED | E_STREAMBUFFER_READ_MAXSIZEEXCEED

text \<open>The two forms of \<^verbatim>\<open>displaceAndCopy\<close>: into memory of \<open>len\<close> bytes, and into a string.\<close>

definition displaceAndCopy :: "'s buffered_reader \<Rightarrow> nat \<Rightarrow> 's buffered_reader \<times> bytes \<times> eStreamBufferReadErrors" where
  "displaceAndCopy b dlen = (b\<lparr>br_buffer := drop dlen (br_buffer b)\<rparr>, take (dlen - 1) (br_buffer b) @ [byte_of 0], E_STREAMBUFFER_READ_OK)"

definition displaceAndCopy_len :: "'s buffered_reader \<Rightarrow> nat \<Rightarrow> nat \<Rightarrow> 's buffered_reader \<times> bytes \<times> eStreamBufferReadErrors" where
  "displaceAndCopy_len b len dlen = (if len < dlen then (b, [], E_STREAMBUFFER_READ_MAXSIZEEXCEED) else displaceAndCopy b dlen)"

partial_function (option) bufferedReadUntil :: "'s socket_vt \<Rightarrow> ('s buffered_reader \<Rightarrow> nat \<Rightarrow> 's buffered_reader \<times> bytes \<times> eStreamBufferReadErrors) \<Rightarrow>
    's buffered_reader \<Rightarrow> char \<Rightarrow> ('s buffered_reader \<times> bytes \<times> eStreamBufferReadErrors) result option" where
  "bufferedReadUntil vt copy b delimiter =
     (case find_index ((=) delimiter) (br_buffer b) of
        Some needle \<Rightarrow> Some (Inr (copy b (needle + 1)))
      | None \<Rightarrow>
          if m_maxBufferSize b = length (br_buffer b) then Some (Inr (b, [], E_STREAMBUFFER_READ_FULL))
          else case sv_partialRead vt (br_stream b) (usub (m_maxBufferSize b) (length (br_buffer b))) of
                 Inl e \<Rightarrow> Some (Inl e)
               | Inr (s', None) \<Rightarrow> Some (Inr (b\<lparr>br_stream := s'\<rparr>, [], E_STREAMBUFFER_READ_DISCONNECTED))
               | Inr (s', Some data) \<Rightarrow>
                   if br_allocated b < length (br_buffer b) + length data then Some (Inl (UndefinedBehaviour ''write behind the buffer''))
                   else bufferedReadUntil vt copy (b\<lparr>br_stream := s', br_buffer := br_buffer b @ data\<rparr>) delimiter)"

definition readLineCR :: "'s socket_vt \<Rightarrow> 's buffered_reader \<Rightarrow> ('s buffered_reader \<times> bytes \<times> eStreamBufferReadErrors) result option" where
  "readLineCR vt b = bufferedReadUntil vt displaceAndCopy b (CHR 0x0D)"

definition readLineLF :: "'s socket_vt \<Rightarrow> 's buffered_reader \<Rightarrow> ('s buffered_reader \<times> bytes \<times> eStreamBufferReadErrors) result option" where
  "readLineLF vt b = bufferedReadUntil vt displaceAndCopy b (CHR 0x0A)"



section \<open>Sequences of strings\<close>

text \<open>Several strings in a row, with the default limit of the templates.\<close>

fun write_strings :: "'a::len itself \<Rightarrow> 's socket_vt \<Rightarrow> 's \<Rightarrow> bytes list \<Rightarrow> ('s \<times> bool) result" where
  "write_strings T vt s [] = Inr (s, True)"
| "write_strings T vt s (str # strs) =
     (case writeStringEx T vt s str (max_less_1 T) of
        Inl e \<Rightarrow> Inl e | Inr (s', ok) \<Rightarrow> if ok then write_strings T vt s' strs else Inr (s', False))"

fun read_strings :: "'a::len itself \<Rightarrow> 's socket_vt \<Rightarrow> 's \<Rightarrow> nat \<Rightarrow> ('s \<times> bytes list \<times> bool) result" where
  "read_strings T vt s 0 = Inr (s, [], True)"
| "read_strings T vt s (Suc n) =
     (case readStringEx vt s (word_of_nat (max_less_1 T) :: 'a word) of
        Inl e \<Rightarrow> Inl e
      | Inr (s', str, ok) \<Rightarrow> if ok then map_sum id (\<lambda>(s'', strs, ok'). (s'', str # strs, ok')) (read_strings T vt s' n) else Inr (s', [], False))"

definition frames :: "'a::len itself \<Rightarrow> bytes list \<Rightarrow> bytes" where
  "frames T strs = concat (map (frame_of T) strs)"

definition fits_frame :: "'a::len itself \<Rightarrow> bytes \<Rightarrow> bool" where
  "fits_frame T str \<longleftrightarrow> length str \<le> max_less_1 T \<and> length str < 2 ^ 63"

lemma unat_max_less_1: "sized TYPE('a::len) \<Longrightarrow> unat (word_of_nat (max_less_1 TYPE('a)) :: 'a word) = max_less_1 TYPE('a)"
  by (auto simp: sized_def max_less_1_def unat_of_nat take_bit_nat_eq_self)

context socket_line
begin

lemma write_strings_send:
  "room s k \<Longrightarrow> sized TYPE('a::len) \<Longrightarrow> \<forall>str\<in>set strs. fits_frame TYPE('a) str \<Longrightarrow> length (frames TYPE('a) strs) \<le> k \<Longrightarrow>
     \<exists>s'. write_strings TYPE('a) vt s strs = Inr (s', True) \<and> sent s' = sent s @ frames TYPE('a) strs \<and> room s' (k - length (frames TYPE('a) strs))"
proof (induction strs arbitrary: s k)
  case (Cons str strs)
  then have f: "length str \<le> max_less_1 TYPE('a)" "length str < 2 ^ 63" "length (frame_of TYPE('a) str) \<le> k"
    by (simp_all add: fits_frame_def frames_def)
  from writeStringEx_sends [OF Cons.prems(1,2) f(1,1,3,2)] obtain s1 where s1: "writeStringEx TYPE('a) vt s str (max_less_1 TYPE('a)) = Inr (s1, True)"
      "sent s1 = sent s @ frame_of TYPE('a) str" "room s1 (k - length (frame_of TYPE('a) str))" by metis
  have "length (frames TYPE('a) strs) \<le> k - length (frame_of TYPE('a) str)" using Cons.prems(4) by (simp add: frames_def)
  then obtain s2 where "write_strings TYPE('a) vt s1 strs = Inr (s2, True)" "sent s2 = sent s1 @ frames TYPE('a) strs"
      "room s2 (k - length (frame_of TYPE('a) str) - length (frames TYPE('a) strs))"
    using Cons.IH [OF s1(3) Cons.prems(2)] Cons.prems(3) by auto
  then show ?case using s1 by (simp add: frames_def)
qed (simp add: frames_def)

lemma read_strings_read:
  "room s k \<Longrightarrow> sized TYPE('a::len) \<Longrightarrow> \<forall>str\<in>set strs. fits_frame TYPE('a) str \<Longrightarrow> pending s = frames TYPE('a) strs @ rest \<Longrightarrow>
     \<exists>s'. read_strings TYPE('a) vt s (length strs) = Inr (s', strs, True) \<and> pending s' = rest"
proof (induction strs arbitrary: s)
  case (Cons str strs)
  have f: "length str \<le> max_less_1 TYPE('a)" using Cons.prems(3) by (simp add: fits_frame_def)
  have p: "pending s = frame_of TYPE('a) str @ frames TYPE('a) strs @ rest" using Cons.prems(4) by (simp add: frames_def)
  obtain s1 where "readStringEx vt s (word_of_nat (max_less_1 TYPE('a)) :: 'a word) = Inr (s1, str, True)" "pending s1 = frames TYPE('a) strs @ rest" "room s1 k"
    using readStringEx_reads [OF Cons.prems(1,2) p _ f, of "word_of_nat (max_less_1 TYPE('a))"] f unat_max_less_1 [OF Cons.prems(2)] by metis
  then show ?case using Cons.IH [of s1] Cons.prems(2,3) by auto
qed (simp add: frames_def)

end

text \<open>Over the in-memory socket, directly and through a layer.\<close>

lemma dummy_strings_roundtrip:
  assumes "sized TYPE('a::len)" and "\<forall>str\<in>set strs. fits_frame TYPE('a) str" and "dummy_room d (length (frames TYPE('a) strs))" and "dummy_room e k"
  shows "(\<exists>d'. write_strings TYPE('a) (dummy_vt mvt fs) d strs = Inr (d', True)
      \<and> (chunks_content (ds_receiver d') = chunks_content (ds_receiver d) @ chunks_content (ds_sender e) \<longrightarrow>
          (\<exists>e'. read_strings TYPE('a) (dummy_vt mvt fs) e (length strs) = Inr (e', strs, True) \<and> chunks_content (ds_sender e') = [])))
    \<and> (\<exists>x. write_strings TYPE('a) (xor_vt (dummy_vt mvt fs)) (setXorByte (xor_new d) c) strs = Inr (x, True)
      \<and> (chunks_content (ds_receiver (xs_base x)) = chunks_content (ds_receiver d) @ chunks_content (ds_sender e) \<longrightarrow>
          (\<exists>y. read_strings TYPE('a) (xor_vt (dummy_vt mvt fs)) (setXorByte (xor_new e) c) (length strs) = Inr (y, strs, True)
            \<and> chunks_content (ds_sender (xs_base y)) = [])))"
proof (rule conjI)
  let ?n = "length (frames TYPE('a) strs)" and ?d = "setXorByte (xor_new d) c" and ?e = "setXorByte (xor_new e) c"
  obtain d' where d': "write_strings TYPE('a) (dummy_vt mvt fs) d strs = Inr (d', True)"
      "chunks_content (ds_receiver d') = chunks_content (ds_receiver d) @ frames TYPE('a) strs"
    using dummy.write_strings_send [OF assms(3,1,2)] by blast
  show "\<exists>d'. write_strings TYPE('a) (dummy_vt mvt fs) d strs = Inr (d', True)
      \<and> (chunks_content (ds_receiver d') = chunks_content (ds_receiver d) @ chunks_content (ds_sender e) \<longrightarrow>
          (\<exists>e'. read_strings TYPE('a) (dummy_vt mvt fs) e (length strs) = Inr (e', strs, True) \<and> chunks_content (ds_sender e') = []))"
    using d' dummy.read_strings_read [OF assms(4,1,2), of "[]" mvt fs] by auto
  have r: "dummy_room (xs_base ?d) ?n \<and> m_xorByte ?d = c" "dummy_room (xs_base ?e) k \<and> m_xorByte ?e = c"
    using assms(3,4) by (simp_all add: setXorByte_def xor_new_def)
  obtain x where x: "write_strings TYPE('a) (xor_vt (dummy_vt mvt fs)) ?d strs = Inr (x, True)"
      "masked c (chunks_content (ds_receiver (xs_base x))) = masked c (chunks_content (ds_receiver d)) @ frames TYPE('a) strs"
    using dummy_xor.write_strings_send [OF r(1) assms(1,2), of mvt fs] by (auto simp: setXorByte_def xor_new_def)
  show "\<exists>x. write_strings TYPE('a) (xor_vt (dummy_vt mvt fs)) ?d strs = Inr (x, True)
      \<and> (chunks_content (ds_receiver (xs_base x)) = chunks_content (ds_receiver d) @ chunks_content (ds_sender e) \<longrightarrow>
          (\<exists>y. read_strings TYPE('a) (xor_vt (dummy_vt mvt fs)) ?e (length strs) = Inr (y, strs, True) \<and> chunks_content (ds_sender (xs_base y)) = []))"
    using x dummy_xor.read_strings_read [OF r(2) assms(1,2), of "[]" mvt fs] by (auto simp: setXorByte_def xor_new_def)
qed

text \<open>
  C29. Strings over a connection, however the operating system cuts the bytes. Strings that fit their length prefix (of 8, 16, 32 or 64 bits) are
  written one after the other to an open socket, and another open socket, to which the bytes that this put on the wire arrive, gives the
  same strings in the same order and takes none of the bytes that follow. It holds for each plan of the two connections, that is for any number of
  bytes, at least one, that each \<^verbatim>\<open>send\<close> takes and each \<^verbatim>\<open>recv\<close> gives; and it holds as well through XOR layers of the same key.
\<close>

theorem socket_strings_roundtrip:
  assumes "sized TYPE('a::len)" and "\<forall>str\<in>set strs. fits_frame TYPE('a) str" and "isActive s" and "isActive r"
  shows "(\<exists>s'. write_strings TYPE('a) (net_vt wire_kernel) s strs = Inr (s', True) \<and> w_out (ns_kernel s') = w_out (ns_kernel s) @ frames TYPE('a) strs)
    \<and> (w_in (ns_kernel r) = frames TYPE('a) strs @ rest \<longrightarrow>
        (\<exists>r'. read_strings TYPE('a) (net_vt wire_kernel) r (length strs) = Inr (r', strs, True) \<and> w_in (ns_kernel r') = rest))
    \<and> (\<exists>x. write_strings TYPE('a) (xor_vt (net_vt wire_kernel)) (setXorByte (xor_new s) c) strs = Inr (x, True)
        \<and> w_out (ns_kernel (xs_base x)) = w_out (ns_kernel s) @ masked c (frames TYPE('a) strs))
    \<and> (w_in (ns_kernel r) = masked c (frames TYPE('a) strs) @ rest \<longrightarrow>
        (\<exists>y. read_strings TYPE('a) (xor_vt (net_vt wire_kernel)) (setXorByte (xor_new r) c) (length strs) = Inr (y, strs, True)
          \<and> w_in (ns_kernel (xs_base y)) = rest))"
proof (intro conjI impI)
  let ?s = "setXorByte (xor_new s) c" and ?r = "setXorByte (xor_new r) c"
  show "\<exists>s'. write_strings TYPE('a) (net_vt wire_kernel) s strs = Inr (s', True) \<and> w_out (ns_kernel s') = w_out (ns_kernel s) @ frames TYPE('a) strs"
    using net.write_strings_send [OF assms(3,1,2) order_refl] by blast
  show "\<exists>r'. read_strings TYPE('a) (net_vt wire_kernel) r (length strs) = Inr (r', strs, True) \<and> w_in (ns_kernel r') = rest"
    if "w_in (ns_kernel r) = frames TYPE('a) strs @ rest" by (rule net.read_strings_read [OF assms(4,1,2) that])
  have a: "isActive (xs_base ?s) \<and> m_xorByte ?s = c" "isActive (xs_base ?r) \<and> m_xorByte ?r = c" "xs_base ?s = s" "xs_base ?r = r"
    using assms(3,4) by (simp_all add: setXorByte_def xor_new_def)
  obtain x where x: "write_strings TYPE('a) (xor_vt (net_vt wire_kernel)) ?s strs = Inr (x, True)"
      "masked c (w_out (ns_kernel (xs_base x))) = masked c (w_out (ns_kernel s)) @ frames TYPE('a) strs"
    using net_xor.write_strings_send [OF a(1) assms(1,2) order_refl] a(3) by auto
  have "w_out (ns_kernel (xs_base x)) = w_out (ns_kernel s) @ masked c (frames TYPE('a) strs)"
    using arg_cong [OF x(2), of "masked c"] by simp
  then show "\<exists>x. write_strings TYPE('a) (xor_vt (net_vt wire_kernel)) ?s strs = Inr (x, True)
      \<and> w_out (ns_kernel (xs_base x)) = w_out (ns_kernel s) @ masked c (frames TYPE('a) strs)" using x(1) by blast
  show "\<exists>y. read_strings TYPE('a) (xor_vt (net_vt wire_kernel)) ?r (length strs) = Inr (y, strs, True) \<and> w_in (ns_kernel (xs_base y)) = rest"
    if i: "w_in (ns_kernel r) = masked c (frames TYPE('a) strs) @ rest"
  proof -
    have "masked c (w_in (ns_kernel (xs_base ?r))) = frames TYPE('a) strs @ masked c rest" using i a(4) by simp
    from net_xor.read_strings_read [OF a(2) assms(1,2) this] obtain y where
      y: "read_strings TYPE('a) (xor_vt (net_vt wire_kernel)) ?r (length strs) = Inr (y, strs, True)" "masked c (w_in (ns_kernel (xs_base y))) = masked c rest"
      by blast
    have "w_in (ns_kernel (xs_base y)) = rest" using arg_cong [OF y(2), of "masked c"] by simp
    then show ?thesis using y(1) by blast
  qed
qed


section \<open>A reader that never returns\<close>

text \<open>A reader that waits at the end of the stream.\<close>

definition waits_at_end :: "'s socket_vt \<Rightarrow> 's buffered_reader \<Rightarrow> char \<Rightarrow> bool" where
  "waits_at_end vt b c \<longleftrightarrow> (\<forall>n. sv_partialRead vt (br_stream b) n = Inr (br_stream b, Some [])) \<and> c \<notin> set (br_buffer b)
     \<and> m_maxBufferSize b \<noteq> length (br_buffer b) \<and> length (br_buffer b) \<le> br_allocated b"

lemma find_index_none: "c \<notin> set bs \<Longrightarrow> find_index ((=) c) bs = None"
  by (induction bs) auto

lemma bufferedReadUntil_closed: "bufferedReadUntil vt copy b c = Some r \<Longrightarrow> \<not> waits_at_end vt b c"
proof (rule bufferedReadUntil.raw_induct [of "\<lambda>vt copy b c r. \<not> waits_at_end vt b c"])
  fix f :: "'a socket_vt \<Rightarrow> ('a buffered_reader \<Rightarrow> nat \<Rightarrow> 'a buffered_reader \<times> bytes \<times> eStreamBufferReadErrors) \<Rightarrow> 'a buffered_reader \<Rightarrow> char \<Rightarrow>
      ('a buffered_reader \<times> bytes \<times> eStreamBufferReadErrors) result option" and vt copy b c r
  assume ih: "\<And>vt copy b c r. f vt copy b c = Some r \<Longrightarrow> \<not> waits_at_end vt b c"
    and eq: "(case find_index ((=) c) (br_buffer b) of
        Some needle \<Rightarrow> Some (Inr (copy b (needle + 1)))
      | None \<Rightarrow>
          if m_maxBufferSize b = length (br_buffer b) then Some (Inr (b, [], E_STREAMBUFFER_READ_FULL))
          else case sv_partialRead vt (br_stream b) (usub (m_maxBufferSize b) (length (br_buffer b))) of
                 Inl e \<Rightarrow> Some (Inl e)
               | Inr (s', None) \<Rightarrow> Some (Inr (b\<lparr>br_stream := s'\<rparr>, [], E_STREAMBUFFER_READ_DISCONNECTED))
               | Inr (s', Some data) \<Rightarrow>
                   if br_allocated b < length (br_buffer b) + length data then Some (Inl (UndefinedBehaviour ''write behind the buffer''))
                   else f vt copy (b\<lparr>br_stream := s', br_buffer := br_buffer b @ data\<rparr>) c) = Some r"
  show "\<not> waits_at_end vt b c"
  proof
    assume w: "waits_at_end vt b c"
    then have "f vt copy b c = Some r" using eq by (simp add: waits_at_end_def find_index_none)
    then show False using ih w by blast
  qed
qed

text \<open>
  A closed connection and the buffered reader. When the peer has closed the connection and the buffer neither holds the delimiter nor is full, reading a line never
  returns: the end of the stream, for which the socket gives zero bytes, is not told apart from data, and the loop reads again for ever.
\<close>

theorem buffered_reader_hangs:
  assumes "chunks_inv (ds_sender (br_stream b))" and "chunks_content (ds_sender (br_stream b)) = []" and "CHR 0x0A \<notin> set (br_buffer b)"
    and "m_maxBufferSize b \<noteq> length (br_buffer b)" and "length (br_buffer b) \<le> br_allocated b"
  shows "readLineLF (dummy_vt mvt fs) b = None"
proof (cases "readLineLF (dummy_vt mvt fs) b")
  case (Some r)
  have "sv_partialRead (dummy_vt mvt fs) (br_stream b) n = Inr (br_stream b, Some [])" for n
    using assms(1,2) by (simp add: dummy_vt_def dummy_partialRead_def bchunks.size_content)
  then have "waits_at_end (dummy_vt mvt fs) b (CHR 0x0A)" using assms(3-5) by (simp add: waits_at_end_def)
  then show ?thesis using bufferedReadUntil_closed Some unfolding readLineLF_def by blast
qed



text \<open>A socket with data to read, and one that is new.\<close>

definition dummy_holding :: "bytes \<Rightarrow> 'y dummy_socket" where
  "dummy_holding data = dummy_new\<lparr>ds_sender := with_vec chunks_new (if data = [] then [] else [\<lparr>c_data = data, c_size = length data, c_offset = 0\<rparr>])\<rparr>"

lemma chunks_new_fields: "m_mmapContainer chunks_new = None" "\<not> m_readOnly chunks_new" "m_maxChunkSize chunks_new = 65536" "m_maxSize chunks_new = size_max"
    "m_maxSizeInMemoryBeforeMovingToDisk chunks_new = 0" "m_chunksVector chunks_new = []" "m_maxChunks chunks_new = 262144"
  by (simp_all add: chunks_new_def chunks_clear2_def chunks_clearChunks_def b_init_def b_base.defs)

lemma dummy_holding_room:
  assumes "length data \<le> size_max" and "k \<le> 262144"
  shows "dummy_room (dummy_holding data) k" and "chunks_content (ds_sender (dummy_holding data)) = data" and "chunks_content (ds_receiver (dummy_holding data)) = []"
  using assms chunks_new_inv
  by (simp_all add: dummy_room_def dummy_holding_def dummy_new_def chunks_inv_with_vec chunk_wf_def chunks_new_fields chunks_content_def size_max_def)

text \<open>One socket sends one byte at a time, the other receives one byte, then at most two, then at most three, and so on.\<close>

theorem socket_strings_roundtrip_witness:
  "\<exists>s' r'. write_strings TYPE(16) (net_vt wire_kernel) ((net_socket_new \<lparr>w_in = [], w_out = [], w_plan = (\<lambda>i. 0), w_calls = 0\<rparr>)\<lparr>m_sockFD := 3\<rparr>) [''ab'', [], ''c''] = Inr (s', True)
     \<and> read_strings TYPE(16) (net_vt wire_kernel) ((net_socket_new \<lparr>w_in = w_out (ns_kernel s') @ ''rest'', w_out = [], w_plan = (\<lambda>i. i), w_calls = 0\<rparr>)\<lparr>m_sockFD := 4\<rparr>) 3
        = Inr (r', [''ab'', [], ''c''], True)
     \<and> w_in (ns_kernel r') = ''rest''"
proof -
  define strs where "strs = [''ab'', [], ''c'']"
  define s where "s = (net_socket_new \<lparr>w_in = [], w_out = [], w_plan = (\<lambda>i. 0), w_calls = 0\<rparr>)\<lparr>m_sockFD := 3\<rparr>"
  define r where "r bs = (net_socket_new \<lparr>w_in = bs @ ''rest'', w_out = [], w_plan = (\<lambda>i. i), w_calls = 0\<rparr>)\<lparr>m_sockFD := 4\<rparr>" for bs
  have f: "sized TYPE(16)" "\<forall>str\<in>set strs. fits_frame TYPE(16) str" by (simp_all add: sized_def fits_frame_def max_less_1_def strs_def)
  have a: "isActive s" "isActive (r bs)" "w_out (ns_kernel s) = []" "w_in (ns_kernel (r bs)) = bs @ ''rest''" for bs
    by (simp_all add: s_def r_def net_socket_new_def isActive_def)
  note t = socket_strings_roundtrip [OF f a(1,2)]
  obtain s' where s': "write_strings TYPE(16) (net_vt wire_kernel) s strs = Inr (s', True)" "w_out (ns_kernel s') = frames TYPE(16) strs"
    using conjunct1 [OF t] a(3) by auto
  obtain r' where "read_strings TYPE(16) (net_vt wire_kernel) (r (frames TYPE(16) strs)) (length strs) = Inr (r', strs, True)" "w_in (ns_kernel r') = ''rest''"
    using t [of "frames TYPE(16) strs" "''rest''"] a(4) by blast
  moreover have "length strs = 3" by (simp add: strs_def)
  ultimately have "\<exists>s' r'. write_strings TYPE(16) (net_vt wire_kernel) s strs = Inr (s', True)
      \<and> read_strings TYPE(16) (net_vt wire_kernel) (r (w_out (ns_kernel s'))) 3 = Inr (r', strs, True) \<and> w_in (ns_kernel r') = ''rest''"
    using s' by auto
  then show ?thesis unfolding s_def r_def strs_def .
qed

theorem buffered_reader_hangs_witness:
  "readLineLF (dummy_vt mem_vt (\<lambda>_. None)) ((buffered_reader_new 4096 (dummy_new :: b_mem_fields dummy_socket) 4096)\<lparr>br_buffer := ''no line end''\<rparr>) = None"
  by (rule buffered_reader_hangs) (use chunks_new_inv in \<open>simp_all add: buffered_reader_new_def dummy_new_def\<close>)

end
