(* ===== verification/CryptoChallenge.thy ===== *)
theory CryptoChallenge
  imports SocketStream MIMEHeader
begin

text \<open>
  The mutual authentication of two peers that share a key (\<^verbatim>\<open>src/Mantids30/Net_Sockets/streams_cryptochallenge.cpp\<close>): both send a
  random string, the client proves first that it knows the key, and the server proves it only to a client that did. The SHA-256 digest of
  OpenSSL is a parameter, and the random bytes are an argument.
\<close>

section \<open>The protocol\<close>

definition calcSHA256 :: "(bytes \<Rightarrow> bytes) \<Rightarrow> bytes \<Rightarrow> bytes" where
  "calcSHA256 sha256 password = toHex (sha256 password)"

text \<open>An operation on the socket that ends the protocol with two failures when it fails.\<close>

definition or_fail :: "('s \<times> 'a \<times> bool) result \<Rightarrow> ('s \<Rightarrow> 'a \<Rightarrow> ('s \<times> bool \<times> bool) result) \<Rightarrow> ('s \<times> bool \<times> bool) result" where
  "or_fail r k = (case r of Inl e \<Rightarrow> Inl e | Inr (s, a, ok) \<Rightarrow> if ok then k s a else Inr (s, False, False))"

definition write_string8 :: "'s socket_vt \<Rightarrow> 's \<Rightarrow> bytes \<Rightarrow> ('s \<times> unit \<times> bool) result" where
  "write_string8 vt s str = map_sum id (\<lambda>(s', ok). (s', (), ok)) (writeStringEx TYPE(8) vt s str (max_less_1 TYPE(8)))"

definition read_string8 :: "'s socket_vt \<Rightarrow> 's \<Rightarrow> ('s \<times> bytes \<times> bool) result" where
  "read_string8 vt s = readStringEx vt s (word_of_nat (max_less_1 TYPE(8)) :: 8 word)"

text \<open>\<open>rand\<close>: the 64 random bytes, or \<open>None\<close> when the generator fails. The result is the remote and the local verdict.\<close>

definition mutualChallengeResponseSHA256Auth ::
  "(bytes \<Rightarrow> bytes) \<Rightarrow> bytes option \<Rightarrow> 's socket_vt \<Rightarrow> 's \<Rightarrow> bytes \<Rightarrow> bool \<Rightarrow> ('s \<times> bool \<times> bool) result" where
  "mutualChallengeResponseSHA256Auth sha256 rand vt s sharedKey server =
     (case createRandomString rand of
        Inl e \<Rightarrow> Inl e
      | Inr sLocal \<Rightarrow>
          or_fail (write_string8 vt s sLocal) (\<lambda>s1 _.
          or_fail (read_string8 vt s1) (\<lambda>s2 sRemote.
          if length sRemote \<noteq> 64 then Inr (s2, False, False)
          else
          or_fail (if \<not> server then write_string8 vt s2 (calcSHA256 sha256 (sharedKey @ sRemote @ sLocal)) else Inr (s2, (), True)) (\<lambda>s3 _.
          or_fail (read_string8 vt s3) (\<lambda>s4 sRemoteChallenge.
          let bRemoteChallengeOK = (sRemoteChallenge = calcSHA256 sha256 (sharedKey @ sLocal @ sRemote))
          in
          or_fail (if server then write_string8 vt s4 (calcSHA256 sha256 ((if bRemoteChallengeOK then sharedKey else []) @ sRemote @ sLocal))
                   else Inr (s4, (), True)) (\<lambda>s5 _.
          case writeU vt s5 (if bRemoteChallengeOK then 1 else 0 :: 8 word) of
            Inl e \<Rightarrow> Inl e
          | Inr (s6, _) \<Rightarrow>
              (case readU TYPE(8) vt s6 of
                 Inl e \<Rightarrow> Inl e
               | Inr (s7, v, _) \<Rightarrow> Inr (s7, bRemoteChallengeOK, v = 1))))))))"


section \<open>A run over a line\<close>

definition frame8 :: "bytes \<Rightarrow> bytes" where
  "frame8 str = frame_of TYPE(8) str"

definition short :: "bytes \<Rightarrow> bool" where
  "short str \<longleftrightarrow> length str \<le> 254"

lemma sized_8: "sized TYPE(8)" "max_less_1 TYPE(8) = 254" "unat (word_of_nat 254 :: 8 word) = 254"
  by (simp_all add: sized_def max_less_1_def)

lemma length_frame8 [simp]: "length (frame8 str) = Suc (length str)"
  by (simp add: frame8_def length_frame)

text \<open>Appending on both sides of the wire; \<open>bit_byte\<close> is the last byte that a side sends.\<close>

definition bit_byte :: "bool \<Rightarrow> bytes" where
  "bit_byte b = [byte_of (if b then 1 else 0)]"

lemma bit_byte_net: "net_bytes (LENGTH(8) div 8) (unat (if b then 1 else 0 :: 8 word)) = bit_byte b"
proof -
  have "LENGTH(8) div 8 = Suc 0" by simp
  then show ?thesis by (simp add: bit_byte_def)
qed

context socket_line
begin

lemma write_string8_sends:
  assumes "room s k" and "short str" and "Suc (length str) \<le> k"
  obtains s' where "write_string8 vt s str = Inr (s', (), True)" and "sent s' = sent s @ frame8 str" and "pending s' = pending s @ echo (frame8 str)"
    and "room s' (k - Suc (length str))"
proof -
  have l: "length str \<le> max_less_1 TYPE(8)" "length (frame_of TYPE(8) str) \<le> k" "length str < 2 ^ 63"
    using assms(2,3) by (simp_all add: short_def sized_8 length_frame)
  from writeStringEx_sends [OF assms(1) sized_8(1) l(1,1,2,3)] obtain s' where s':
    "writeStringEx TYPE(8) vt s str (max_less_1 TYPE(8)) = Inr (s', True)" "sent s' = sent s @ frame_of TYPE(8) str"
    "pending s' = pending s @ echo (frame_of TYPE(8) str)" "room s' (k - length (frame_of TYPE(8) str))" by (elim exE conjE)
  show thesis
  proof (rule that)
    show "write_string8 vt s str = Inr (s', (), True)" using s'(1) by (simp add: write_string8_def)
  qed (use s'(2-4) in \<open>simp_all only: frame8_def length_frame8 [unfolded frame8_def]\<close>)
qed

lemma read_string8_reads:
  assumes "room s k" and "pending s = frame8 str @ rest" and "short str"
  obtains s' where "read_string8 vt s = Inr (s', str, True)" and "pending s' = rest" and "sent s' = sent s" and "room s' k"
proof -
  have l: "pending s = frame_of TYPE(8) str @ rest" "length str \<le> unat (word_of_nat (max_less_1 TYPE(8)) :: 8 word)" "length str \<le> max_less_1 TYPE(8)"
    using assms(2,3) by (simp_all add: short_def sized_8 frame8_def)
  from readStringEx_reads [OF assms(1) sized_8(1) l] show thesis using that unfolding read_string8_def by blast
qed

lemma verdict_exchanged:
  assumes "room s k" and "1 \<le> k" and "pending s @ echo (bit_byte b) = bit_byte c @ rest"
  obtains s1 s2 where "writeU vt s (if b then 1 else 0 :: 8 word) = Inr (s1, True)" and "readU TYPE(8) vt s1 = Inr (s2, if c then 1 else 0, True)"
    and "sent s2 = sent s @ bit_byte b" and "pending s2 = rest"
proof -
  obtain s1 where s1: "writeU vt s (if b then 1 else 0 :: 8 word) = Inr (s1, True)" "sent s1 = sent s @ bit_byte b" "pending s1 = pending s @ echo (bit_byte b)" "room s1 (k - 1)"
    using writeU_sends [OF assms(1) sized_8(1), of "if b then 1 else 0"] assms(2) unfolding bit_byte_net by auto
  obtain s2 where "readU TYPE(8) vt s1 = Inr (s2, if c then 1 else 0, True)" "pending s2 = rest" "sent s2 = sent s1"
    using readU_reads [OF s1(4) sized_8(1), of "if c then 1 else 0" rest] s1(3) assms(3) unfolding bit_byte_net by auto
  then show thesis using that s1(1,2) by simp
qed

text \<open>Both runs, for a line that gives the right pieces at the right time, whatever the peer is.\<close>

lemma client_run:
  assumes "room s k" and "199 \<le> k" and "createRandomString rand = Inr l" and "length l = 64" and "length r = 64" and "\<And>x. length (sha256 x) = 32"
    and "pending s @ echo (frame8 l) = frame8 r @ p1" and "p1 @ echo (frame8 (calcSHA256 sha256 (key @ r @ l))) = frame8 a @ p2" and "short a"
    and "p2 @ echo (bit_byte (a = calcSHA256 sha256 (key @ l @ r))) = bit_byte c @ rest"
  obtains s' where "mutualChallengeResponseSHA256Auth sha256 rand vt s key False = Inr (s', a = calcSHA256 sha256 (key @ l @ r), c)"
    and "sent s' = sent s @ frame8 l @ frame8 (calcSHA256 sha256 (key @ r @ l)) @ bit_byte (a = calcSHA256 sha256 (key @ l @ r))" and "pending s' = rest"
proof -
  let ?h = "calcSHA256 sha256 (key @ r @ l)" and ?ok = "a = calcSHA256 sha256 (key @ l @ r)"
  have len: "length ?h = 64" using assms(6) by (simp add: calcSHA256_def length_toHex)
  have sh: "short l" "short r" "short ?h" using assms(4,5) len by (simp_all add: short_def)
  have k: "Suc (length l) \<le> k" "Suc (length ?h) \<le> k - 65" "1 \<le> k - 65 - 65" using assms(2,4) len by simp_all
  obtain s1 where s1: "write_string8 vt s l = Inr (s1, (), True)" "sent s1 = sent s @ frame8 l" "pending s1 = frame8 r @ p1" "room s1 (k - 65)"
    using write_string8_sends [OF assms(1) sh(1) k(1)] assms(4,7) by auto
  obtain s2 where s2: "read_string8 vt s1 = Inr (s2, r, True)" "pending s2 = p1" "sent s2 = sent s1" "room s2 (k - 65)"
    using read_string8_reads [OF s1(4,3) sh(2)] by blast
  obtain s3 where s3: "write_string8 vt s2 ?h = Inr (s3, (), True)" "sent s3 = sent s2 @ frame8 ?h" "pending s3 = frame8 a @ p2" "room s3 (k - 65 - 65)"
    using write_string8_sends [OF s2(4) sh(3) k(2)] assms(8) len s2(2) by auto
  obtain s4 where s4: "read_string8 vt s3 = Inr (s4, a, True)" "pending s4 = p2" "sent s4 = sent s3" "room s4 (k - 65 - 65)"
    using read_string8_reads [OF s3(4,3) assms(9)] by blast
  obtain s5 s6 where s5: "writeU vt s4 (if ?ok then 1 else 0 :: 8 word) = Inr (s5, True)" "readU TYPE(8) vt s5 = Inr (s6, if c then 1 else 0, True)"
      "sent s6 = sent s4 @ bit_byte ?ok" "pending s6 = rest"
    using verdict_exchanged [OF s4(4) k(3), of ?ok c rest] assms(10) s4(2) by auto
  have "mutualChallengeResponseSHA256Auth sha256 rand vt s key False = Inr (s6, ?ok, c)"
    using s1(1) s2(1) s3(1) s4(1) s5(1,2) assms(3,5) by (simp add: mutualChallengeResponseSHA256Auth_def or_fail_def Let_def)
  then show thesis using that s5(3,4) s4(3) s3(2) s2(3) s1(2) by simp
qed

lemma server_run:
  assumes "room s k" and "199 \<le> k" and "createRandomString rand = Inr l" and "length l = 64" and "length r = 64" and "\<And>x. length (sha256 x) = 32"
    and "pending s @ echo (frame8 l) = frame8 r @ frame8 a @ p2" and "short a" and "ok \<longleftrightarrow> a = calcSHA256 sha256 (key @ l @ r)"
    and "p2 @ echo (frame8 (calcSHA256 sha256 ((if ok then key else []) @ r @ l))) @ echo (bit_byte ok) = bit_byte c @ rest"
  obtains s' where "mutualChallengeResponseSHA256Auth sha256 rand vt s key True = Inr (s', ok, c)"
    and "sent s' = sent s @ frame8 l @ frame8 (calcSHA256 sha256 ((if ok then key else []) @ r @ l)) @ bit_byte ok" and "pending s' = rest"
proof -
  let ?h = "calcSHA256 sha256 ((if ok then key else []) @ r @ l)"
  have len: "length ?h = 64" using assms(6) by (simp add: calcSHA256_def length_toHex)
  have sh: "short l" "short r" "short ?h" using assms(4,5) len by (simp_all add: short_def)
  have k: "Suc (length l) \<le> k" "Suc (length ?h) \<le> k - 65" "1 \<le> k - 65 - 65" using assms(2,4) len by simp_all
  obtain s1 where s1: "write_string8 vt s l = Inr (s1, (), True)" "sent s1 = sent s @ frame8 l" "pending s1 = frame8 r @ frame8 a @ p2" "room s1 (k - 65)"
    using write_string8_sends [OF assms(1) sh(1) k(1)] assms(4,7) by auto
  obtain s2 where s2: "read_string8 vt s1 = Inr (s2, r, True)" "pending s2 = frame8 a @ p2" "sent s2 = sent s1" "room s2 (k - 65)"
    using read_string8_reads [OF s1(4,3) sh(2)] by blast
  obtain s4 where s4: "read_string8 vt s2 = Inr (s4, a, True)" "pending s4 = p2" "sent s4 = sent s2" "room s4 (k - 65)"
    using read_string8_reads [OF s2(4,2) assms(8)] by blast
  obtain s5 where s5: "write_string8 vt s4 ?h = Inr (s5, (), True)" "sent s5 = sent s4 @ frame8 ?h" "pending s5 = p2 @ echo (frame8 ?h)" "room s5 (k - 65 - 65)"
    using write_string8_sends [OF s4(4) sh(3) k(2)] len s4(2) by auto
  obtain s6 s7 where s6: "writeU vt s5 (if ok then 1 else 0 :: 8 word) = Inr (s6, True)" "readU TYPE(8) vt s6 = Inr (s7, if c then 1 else 0, True)"
      "sent s7 = sent s5 @ bit_byte ok" "pending s7 = rest"
    using verdict_exchanged [OF s5(4) k(3), of ok c rest] assms(10) s5(3) by auto
  have "mutualChallengeResponseSHA256Auth sha256 rand vt s key True = Inr (s7, ok, c)"
    using s1(1) s2(1) s4(1) s5(1) s6(1,2) assms(3,5,9) by (simp add: mutualChallengeResponseSHA256Auth_def or_fail_def Let_def)
  then show thesis using that s6(3,4) s5(2) s4(3) s2(3) s1(2) by simp
qed

end



section \<open>Two peers that know the key\<close>

lemma toHex_short: "(\<And>x. length (sha256 x) = 32) \<Longrightarrow> short (calcSHA256 sha256 x)"
  by (simp add: short_def calcSHA256_def)

text \<open>
  C26. Two peers with the same key. When each side has the bytes of the other to read, client and server both end with both verdicts positive, and what each
  of them writes is what the other one reads: the random strings, the two digests over the key and both strings, and the verdicts.
\<close>

theorem challenge_mutual:
  assumes "\<And>x. length (sha256 x) = 32" and "createRandomString rc = Inr lc" and "length lc = 64" and "createRandomString rs = Inr ls" and "length ls = 64"
    and "dummy_room c 199" and "chunks_content (ds_sender c) = frame8 ls @ frame8 (calcSHA256 sha256 (key @ lc @ ls)) @ bit_byte True"
    and "dummy_room s 199" and "chunks_content (ds_sender s) = frame8 lc @ frame8 (calcSHA256 sha256 (key @ ls @ lc)) @ bit_byte True"
  shows "\<exists>c' s'. mutualChallengeResponseSHA256Auth sha256 rc (dummy_vt mvt fs) c key False = Inr (c', True, True)
    \<and> chunks_content (ds_receiver c') = chunks_content (ds_receiver c) @ chunks_content (ds_sender s)
    \<and> mutualChallengeResponseSHA256Auth sha256 rs (dummy_vt mvt fs) s key True = Inr (s', True, True)
    \<and> chunks_content (ds_receiver s') = chunks_content (ds_receiver s) @ chunks_content (ds_sender c)"
proof -
  obtain c' where c': "mutualChallengeResponseSHA256Auth sha256 rc (dummy_vt mvt fs) c key False = Inr (c', True, True)"
      "chunks_content (ds_receiver c') = chunks_content (ds_receiver c) @ frame8 lc @ frame8 (calcSHA256 sha256 (key @ ls @ lc)) @ bit_byte True"
    by (rule dummy.client_run [where s = c and k = 199 and rand = rc and l = lc and r = ls and a = "calcSHA256 sha256 (key @ lc @ ls)" and c = True and rest = "[]"
        and ?sha256.0 = sha256 and key = key and mvt = mvt and fs = fs])
      (use assms(1-7) toHex_short [of sha256] in simp_all)
  obtain s' where s': "mutualChallengeResponseSHA256Auth sha256 rs (dummy_vt mvt fs) s key True = Inr (s', True, True)"
      "chunks_content (ds_receiver s') = chunks_content (ds_receiver s) @ frame8 ls @ frame8 (calcSHA256 sha256 (key @ lc @ ls)) @ bit_byte True"
    by (rule dummy.server_run [where s = s and k = 199 and rand = rs and l = ls and r = lc and a = "calcSHA256 sha256 (key @ ls @ lc)" and ok = True and c = True and rest = "[]"
        and ?sha256.0 = sha256 and key = key and mvt = mvt and fs = fs])
      (use assms(1-5,8,9) toHex_short [of sha256] in simp_all)
  show ?thesis using c' s' assms(7,9) by auto
qed

text \<open>
  C27. The server answers a client that does not know the key with nothing that depends on the key: whatever the client sent instead of the digest, the verdict of
  the server is negative, and what it wrote are its random string, a digest of the two random strings alone, and the verdict.
\<close>

theorem server_reveals_nothing:
  assumes "\<And>x. length (sha256 x) = 32" and "createRandomString rand = Inr l" and "length l = 64" and "dummy_room s 199"
    and "chunks_content (ds_sender s) = frame8 r @ frame8 a @ bit_byte c" and "length r = 64" and "short a" and "a \<noteq> calcSHA256 sha256 (key @ l @ r)"
  shows "\<exists>s'. mutualChallengeResponseSHA256Auth sha256 rand (dummy_vt mvt fs) s key True = Inr (s', False, c)
    \<and> chunks_content (ds_receiver s') = chunks_content (ds_receiver s) @ frame8 l @ frame8 (calcSHA256 sha256 (r @ l)) @ bit_byte False"
proof -
  obtain s' where "mutualChallengeResponseSHA256Auth sha256 rand (dummy_vt mvt fs) s key True = Inr (s', False, c)"
      "chunks_content (ds_receiver s') = chunks_content (ds_receiver s) @ frame8 l @ frame8 (calcSHA256 sha256 (r @ l)) @ bit_byte False"
    by (rule dummy.server_run [where s = s and k = 199 and rand = rand and l = l and r = r and a = a and ok = False and c = c and rest = "[]"
        and ?sha256.0 = sha256 and key = key and mvt = mvt and fs = fs])
      (use assms in simp_all)
  then show ?thesis by blast
qed


section \<open>A peer that knows nothing\<close>

text \<open>A peer that sends back every byte at once: what was written is what there is to read.\<close>

record echo_peer =
  ep_pending :: bytes
  ep_sent :: bytes

definition echo_vt :: "echo_peer socket_vt" where
  "echo_vt =
     \<lparr>sv_partialRead = (\<lambda>p n. Inr (p\<lparr>ep_pending := drop n (ep_pending p)\<rparr>, Some (take n (ep_pending p)))),
      sv_partialWrite = (\<lambda>p data. Inr (p\<lparr>ep_pending := ep_pending p @ data, ep_sent := ep_sent p @ data\<rparr>, int (length data))),
      sv_shutdown = id, sv_status = (\<lambda>_. ws_init), sv_set_status = (\<lambda>_. id)\<rparr>"

interpretation echo_peer: socket_line echo_vt ep_pending ep_sent "\<lambda>_ _. True" "\<lambda>b. b"
proof
  fix p :: echo_peer and n :: nat and data :: bytes
  show "\<exists>s' bs. sv_partialRead echo_vt p n = Inr (s', Some bs) \<and> bs \<noteq> [] \<and> length bs \<le> n \<and> ep_pending p = bs @ ep_pending s' \<and> ep_sent s' = ep_sent p \<and> True"
    if "ep_pending p \<noteq> []" "0 < n"
    using that by (intro exI [of _ "p\<lparr>ep_pending := drop n (ep_pending p)\<rparr>"] exI [of _ "take n (ep_pending p)"]) (simp add: echo_vt_def)
  show "\<exists>s' n. sv_partialWrite echo_vt p data = Inr (s', int n) \<and> 0 < n \<and> n \<le> length data \<and> ep_sent s' = ep_sent p @ take n data
      \<and> ep_pending s' = ep_pending p @ take n data \<and> True" if "data \<noteq> []"
    using that by (intro exI [of _ "p\<lparr>ep_pending := ep_pending p @ data, ep_sent := ep_sent p @ data\<rparr>"] exI [of _ "length data"]) (simp add: echo_vt_def)
qed simp_all

text \<open>
  C28. The client can be deceived by reflection. A peer that knows no key and only sends back what it gets, byte by byte, is accepted as the server: the client, whose
  random string comes back as the server's, computes for both digests the same text, so that its own proof is the proof that it expects; both verdicts are positive for every key,
  every digest function and every random string.
\<close>

theorem challenge_reflection:
  assumes "\<And>x. length (sha256 x) = 32" and "createRandomString rand = Inr l" and "length l = 64"
  shows "\<exists>p. mutualChallengeResponseSHA256Auth sha256 rand echo_vt \<lparr>ep_pending = [], ep_sent = []\<rparr> key False = Inr (p, True, True)"
proof -
  obtain p where "mutualChallengeResponseSHA256Auth sha256 rand echo_vt \<lparr>ep_pending = [], ep_sent = []\<rparr> key False = Inr (p, True, True)"
    by (rule echo_peer.client_run [where s = "\<lparr>ep_pending = [], ep_sent = []\<rparr>" and k = 199 and rand = rand and l = l and r = l
        and a = "calcSHA256 sha256 (key @ l @ l)" and c = True and rest = "[]" and ?sha256.0 = sha256 and key = key])
      (use assms toHex_short [of sha256] in simp_all)
  then show ?thesis by blast
qed


section \<open>Witnesses\<close>

definition example_rand :: "bytes option" where
  "example_rand = Some (replicate 64 (CHR 0x07))"

lemma example_rand_string: "createRandomString example_rand = Inr (replicate 64 (CHR ''h''))"
  by (simp add: createRandomString_def example_rand_def charset_def)

definition example_sha :: "bytes \<Rightarrow> bytes" where
  "example_sha x = take 32 (x @ replicate 32 (CHR 0x00))"

lemma example_sha_length: "length (example_sha x) = 32"
  by (simp add: example_sha_def)

theorem challenge_reflection_witness:
  "\<exists>p. mutualChallengeResponseSHA256Auth example_sha example_rand echo_vt \<lparr>ep_pending = [], ep_sent = []\<rparr> ''secret'' False = Inr (p, True, True)"
  by (rule challenge_reflection [OF example_sha_length example_rand_string]) simp

theorem server_reveals_nothing_witness:
  "\<exists>s'. mutualChallengeResponseSHA256Auth example_sha example_rand (dummy_vt mem_vt (\<lambda>_. None))
       (dummy_holding (frame8 (replicate 64 (CHR ''r'')) @ frame8 ''guess'' @ bit_byte True) :: b_mem_fields dummy_socket) ''secret'' True = Inr (s', False, True)"
proof -
  define s :: "b_mem_fields dummy_socket" where "s = dummy_holding (frame8 (replicate 64 (CHR ''r'')) @ frame8 ''guess'' @ bit_byte True)"
  have s: "dummy_room s 199" "chunks_content (ds_sender s) = frame8 (replicate 64 (CHR ''r'')) @ frame8 ''guess'' @ bit_byte True"
    unfolding s_def using dummy_holding_room [of "frame8 (replicate 64 (CHR ''r'')) @ frame8 ''guess'' @ bit_byte True" 199]
    by (simp_all add: size_max_def bit_byte_def)
  have ne: "''guess'' \<noteq> calcSHA256 example_sha x" for x
  proof
    assume "''guess'' = calcSHA256 example_sha x"
    from arg_cong [OF this, of length] show False by (simp add: calcSHA256_def example_sha_length)
  qed
  have l: "length (replicate 64 (CHR ''h'')) = 64" "length (replicate 64 (CHR ''r'')) = 64" "short ''guess''" by (simp_all add: short_def)
  from server_reveals_nothing [OF example_sha_length example_rand_string l(1) s l(2,3) ne] show ?thesis unfolding s_def by blast
qed

theorem challenge_mutual_witness:
  "\<exists>c s c' s'. mutualChallengeResponseSHA256Auth example_sha example_rand (dummy_vt mem_vt (\<lambda>_. None)) (c :: b_mem_fields dummy_socket) ''secret'' False = Inr (c', True, True)
     \<and> mutualChallengeResponseSHA256Auth example_sha example_rand (dummy_vt mem_vt (\<lambda>_. None)) s ''secret'' True = Inr (s', True, True)
     \<and> chunks_content (ds_receiver c') = chunks_content (ds_sender s) \<and> chunks_content (ds_receiver s') = chunks_content (ds_sender c)"
proof -
  define l where "l = replicate 64 (CHR ''h'')"
  define t where "t = frame8 l @ frame8 (calcSHA256 example_sha (''secret'' @ l @ l)) @ bit_byte True"
  define c :: "b_mem_fields dummy_socket" where "c = dummy_holding t"
  have "length t \<le> size_max" by (simp add: t_def l_def size_max_def bit_byte_def calcSHA256_def example_sha_length)
  then have c: "dummy_room c 199" "chunks_content (ds_sender c) = t" "chunks_content (ds_receiver c) = []"
    unfolding c_def using dummy_holding_room [of t 199] by simp_all
  have l: "createRandomString example_rand = Inr l" "length l = 64" by (simp_all add: example_rand_string l_def)
  from challenge_mutual [OF example_sha_length l l c(1) c(2) [unfolded t_def] c(1) c(2) [unfolded t_def], of mem_vt "\<lambda>_. None"] c(3)
  show ?thesis by auto
qed

end
