(* ===== verification/APIMethods.thy ===== *)
theory APIMethods
  imports Sessions
begin

text \<open>
  The methods of the monolithic API (\<^verbatim>\<open>src/Mantids30/API_Monolith/methodshandler.cpp\<close>), what a session needs to call them
  (\<^verbatim>\<open>methodsrequirements_map.cpp\<close>), and the filters that guard the files of a web server (\<^verbatim>\<open>src/Mantids30/Server_WebCore/resourcesfilter.cpp\<close>).
  A method is a function that changes the world \<open>'w\<close> of the application and answers with a JSON value. Regular expressions are texts; whether one of
  them matches is a parameter.
\<close>

section \<open>Requirements of methods\<close>

record requirements_map =
  m_methodRequiredPermissions :: "(bytes \<times> bytes) list"
  m_methodRequiredRoles :: "(bytes \<times> bytes) list"

definition requirements_new :: requirements_map where
  "requirements_new = \<lparr>m_methodRequiredPermissions = [], m_methodRequiredRoles = []\<rparr>"

definition addMethodRequiredPermissions :: "requirements_map \<Rightarrow> bytes \<Rightarrow> bytes set \<Rightarrow> requirements_map" where
  "addMethodRequiredPermissions r methodName applicationPermissions =
     r\<lparr>m_methodRequiredPermissions := m_methodRequiredPermissions r @ map (Pair methodName) (sorted_list_of_set applicationPermissions)\<rparr>"

definition addMethodRequiredRoles :: "requirements_map \<Rightarrow> bytes \<Rightarrow> bytes set \<Rightarrow> requirements_map" where
  "addMethodRequiredRoles r methodName applicationRoles =
     r\<lparr>m_methodRequiredRoles := m_methodRequiredRoles r @ map (Pair methodName) (sorted_list_of_set applicationRoles)\<rparr>"

definition getMethodRequiredPermissions :: "requirements_map \<Rightarrow> bytes \<Rightarrow> bytes set" where
  "getMethodRequiredPermissions r methodName = set (map snd (filter (\<lambda>(k, _). k = methodName) (m_methodRequiredPermissions r)))"

definition getMethodRequiredRoles :: "requirements_map \<Rightarrow> bytes \<Rightarrow> bytes set" where
  "getMethodRequiredRoles r methodName = set (map snd (filter (\<lambda>(k, _). k = methodName) (m_methodRequiredRoles r)))"

text \<open>The loops of \<^verbatim>\<open>validateMethod\<close>: what the session holds is erased from what is left.\<close>

fun erase_held :: "(bytes \<Rightarrow> bool result) \<Rightarrow> bytes list \<Rightarrow> bytes set \<Rightarrow> bytes set result" where
  "erase_held has [] left = Inr left"
| "erase_held has (x # xs) left =
     (case has x of Inl e \<Rightarrow> Inl e | Inr held \<Rightarrow> erase_held has xs (if held then left - {x} else left))"

text \<open>
  \<^verbatim>\<open>validateMethod\<close> with the roles and permissions left and its result. The assignment \<^verbatim>\<open>rolesLeft = rolesLeft\<close> keeps the roles that the
  caller passed, and roles that the session has are erased from the permissions.
\<close>

definition validateMethod ::
  "requirements_map \<Rightarrow> session option \<Rightarrow> bytes \<Rightarrow> bytes set \<Rightarrow> bytes set \<Rightarrow> (bytes set \<times> bytes set \<times> bool) result" where
  "validateMethod r session methodName rolesLeft permissionsLeft =
     (case session of
        None \<Rightarrow> Inr (rolesLeft, permissionsLeft, False)
      | Some s \<Rightarrow>
          let tok = m_jwtAuthenticatedInfo s
          in (case isAdmin tok of
                Inl e \<Rightarrow> Inl e
              | Inr admin \<Rightarrow>
                  (case getAllRoles tok of
                     Inl e \<Rightarrow> Inl e
                   | Inr authedRoles \<Rightarrow>
                       if admin then Inr ({}, {}, True)
                       else
                         let requiredRoles = getMethodRequiredRoles r methodName;
                             requiredPermissions = getMethodRequiredPermissions r methodName
                         in (case erase_held (hasPermission tok) (sorted_list_of_set requiredPermissions) requiredPermissions of
                               Inl e \<Rightarrow> Inl e
                             | Inr left1 \<Rightarrow>
                                 (case erase_held (hasRole tok) (sorted_list_of_set requiredRoles) left1 of
                                    Inl e \<Rightarrow> Inl e
                                  | Inr left2 \<Rightarrow> Inr (rolesLeft, left2, rolesLeft = {} \<and> left2 = {}))))))"

section \<open>The methods handler\<close>

datatype eMethodValidationCodes = VALIDATION_OK | VALIDATION_METHODNOTFOUND | VALIDATION_NOTAUTHORIZED

definition METHOD_RET_CODE_SUCCESS :: int where "METHOD_RET_CODE_SUCCESS = 0"

definition METHOD_RET_CODE_METHODNOTFOUND :: int where "METHOD_RET_CODE_METHODNOTFOUND = -9999"

text \<open>What a method answers comes with the changes that it made to the object of the session.\<close>

type_synonym 'w api_method = "'w \<Rightarrow> session option \<Rightarrow> json \<Rightarrow> 'w \<times> (session \<Rightarrow> session) \<times> json"

record 'w method_definition =
  md_method :: "'w api_method"
  md_methodName :: bytes
  md_reqPermissions :: "bytes set"
  md_reqRoles :: "bytes set"
  md_doUsageUpdateLastSessionActivity :: bool
  md_isActiveSessionRequired :: bool

record 'w methods_handler =
  m_methods :: "bytes \<rightharpoonup> 'w api_method"
  m_methodRequireActiveSession :: "bytes \<rightharpoonup> bool"
  m_methodUpdateSessionLastActivityOnUsage :: "bytes \<rightharpoonup> bool"
  m_methodsPermissions :: requirements_map

definition methods_handler_new :: "'w methods_handler" where
  "methods_handler_new =
     \<lparr>m_methods = (\<lambda>_. None), m_methodRequireActiveSession = (\<lambda>_. None), m_methodUpdateSessionLastActivityOnUsage = (\<lambda>_. None),
      m_methodsPermissions = requirements_new\<rparr>"

definition addMethod :: "'w methods_handler \<Rightarrow> 'w method_definition \<Rightarrow> 'w methods_handler \<times> bool" where
  "addMethod h d =
     (let name = md_methodName d
      in if m_methods h name = None
         then (h\<lparr>m_methods := (m_methods h)(name \<mapsto> md_method d),
                 m_methodsPermissions :=
                   addMethodRequiredRoles (addMethodRequiredPermissions (m_methodsPermissions h) name (md_reqPermissions d)) name (md_reqRoles d),
                 m_methodRequireActiveSession := (m_methodRequireActiveSession h)(name \<mapsto> md_isActiveSessionRequired d),
                 m_methodUpdateSessionLastActivityOnUsage := (m_methodUpdateSessionLastActivityOnUsage h)(name \<mapsto> md_doUsageUpdateLastSessionActivity d)\<rparr>, True)
         else (h, False))"

text \<open>The subscript of a map of flags inserts \<open>False\<close> for a missing name.\<close>

definition flag_at :: "(bytes \<rightharpoonup> bool) \<Rightarrow> bytes \<Rightarrow> (bytes \<rightharpoonup> bool) \<times> bool" where
  "flag_at m name = (case m name of Some b \<Rightarrow> (m, b) | None \<Rightarrow> (m(name \<mapsto> False), False))"

text \<open>\<^verbatim>\<open>invoke\<close> dereferences the session when the method updates its last activity.\<close>

definition invoke ::
  "int \<Rightarrow> 'w methods_handler \<Rightarrow> 'w \<Rightarrow> session option \<Rightarrow> bytes \<Rightarrow> json
    \<Rightarrow> ('w methods_handler \<times> 'w \<times> session option \<times> json option \<times> int) result" where
  "invoke now h w session methodName payload =
     (case m_methods h methodName of
        None \<Rightarrow> Inr (h, w, session, None, METHOD_RET_CODE_METHODNOTFOUND)
      | Some method \<Rightarrow>
          let (w', change, payloadOut) = method w session payload;
              session' = map_option change session;
              (flags, updates) = flag_at (m_methodUpdateSessionLastActivityOnUsage h) methodName;
              h' = h\<lparr>m_methodUpdateSessionLastActivityOnUsage := flags\<rparr>
          in if updates
             then (case session' of
                     None \<Rightarrow> Inl (UndefinedBehaviour ''null session'')
                   | Some s \<Rightarrow> Inr (h', w', Some (updateLastActivity now s), Some payloadOut, METHOD_RET_CODE_SUCCESS))
             else Inr (h', w', session', Some payloadOut, METHOD_RET_CODE_SUCCESS))"

definition setToJSON :: "bytes set \<Rightarrow> json" where
  "setToJSON t = listToJSON (sorted_list_of_set t)"

definition validateMethodRequirements ::
  "'w methods_handler \<Rightarrow> session option \<Rightarrow> bytes \<Rightarrow> json \<Rightarrow> ('w methods_handler \<times> json \<times> eMethodValidationCodes) result" where
  "validateMethodRequirements h session methodName reasons =
     (if m_methods h methodName = None then Inr (h, reasons, VALIDATION_METHODNOTFOUND)
      else
        let (flags, required) = flag_at (m_methodRequireActiveSession h) methodName;
            h' = h\<lparr>m_methodRequireActiveSession := flags\<rparr>
        in if required \<and> session = None then Inr (h', reasons, VALIDATION_NOTAUTHORIZED)
           else (case validateMethod (m_methodsPermissions h') session methodName {} {} of
                   Inl e \<Rightarrow> Inl e
                 | Inr (rolesLeft, permissionsLeft, True) \<Rightarrow> Inr (h', reasons, VALIDATION_OK)
                 | Inr (rolesLeft, permissionsLeft, False) \<Rightarrow>
                     (case json_set reasons ''rolesLeft'' (setToJSON rolesLeft) of
                        Inl e \<Rightarrow> Inl e
                      | Inr reasons1 \<Rightarrow>
                          (case json_set reasons1 ''permissionsLeft'' (setToJSON permissionsLeft) of
                             Inl e \<Rightarrow> Inl e
                           | Inr reasons2 \<Rightarrow> Inr (h', reasons2, VALIDATION_NOTAUTHORIZED)))))"

definition doesMethodRequireActiveSession :: "'w methods_handler \<Rightarrow> bytes \<Rightarrow> 'w methods_handler \<times> bool" where
  "doesMethodRequireActiveSession h methodName =
     (let (flags, b) = flag_at (m_methodRequireActiveSession h) methodName in (h\<lparr>m_methodRequireActiveSession := flags\<rparr>, b))"

section \<open>Filters of resources\<close>

datatype FilterAction = RFILTER_ACCEPT | RFILTER_DENY | RFILTER_REDIRECT

record resource_filter =
  f_regexPatterns :: "bytes list"
  f_redirectLocation :: bytes
  f_requiredPermissions :: "bytes list"
  f_rejectedPermissions :: "bytes list"
  f_requiredRoles :: "bytes list"
  f_rejectedRoles :: "bytes list"
  f_sRegexs :: "bytes list"
  f_requireSession :: bool
  f_disallowSession :: bool
  f_action :: FilterAction

definition filter_new :: resource_filter where
  "filter_new =
     \<lparr>f_regexPatterns = [], f_redirectLocation = [], f_requiredPermissions = [], f_rejectedPermissions = [], f_requiredRoles = [],
      f_rejectedRoles = [], f_sRegexs = [], f_requireSession = False, f_disallowSession = False, f_action = RFILTER_ACCEPT\<rparr>"

text \<open>A regular expression that does not compile throws.\<close>

fun compile_all :: "(bytes \<Rightarrow> bool) \<Rightarrow> bytes list \<Rightarrow> bytes list \<Rightarrow> bytes list result" where
  "compile_all compiles [] patterns = Inr patterns"
| "compile_all compiles (i # is) patterns =
     (if compiles i then compile_all compiles is (patterns @ [i]) else Inl (RuntimeError ''regex_error''))"

definition compileRegex :: "(bytes \<Rightarrow> bool) \<Rightarrow> resource_filter \<Rightarrow> resource_filter result" where
  "compileRegex compiles f = map_sum id (\<lambda>ps. f\<lparr>f_regexPatterns := ps\<rparr>) (compile_all compiles (f_sRegexs f) (f_regexPatterns f))"

record filter_result =
  fr_accept :: bool
  fr_redirectLocation :: bytes

definition filter_result_new :: filter_result where
  "filter_result_new = \<lparr>fr_accept = True, fr_redirectLocation = []\<rparr>"

definition addFilter :: "resource_filter list \<Rightarrow> resource_filter \<Rightarrow> resource_filter list" where
  "addFilter fs f = fs @ [f]"

text \<open>A loop over names that stops at the first that does not qualify.\<close>

fun all_names :: "(bytes \<Rightarrow> bool) \<Rightarrow> bytes list \<Rightarrow> bool \<Rightarrow> bool" where
  "all_names good [] matches = matches"
| "all_names good (n # ns) matches = (if \<not> matches then matches else all_names good ns (good n))"

definition filter_applies :: "resource_filter \<Rightarrow> bytes set \<Rightarrow> bytes set \<Rightarrow> bool \<Rightarrow> bool" where
  "filter_applies f permissions roles isSessionActive =
     (let m1 = all_names (\<lambda>p. p \<in> permissions) (f_requiredPermissions f) True;
          m2 = all_names (\<lambda>p. p \<notin> permissions) (f_rejectedPermissions f) m1;
          m3 = all_names (\<lambda>r. r \<in> roles) (f_requiredRoles f) m2;
          m4 = all_names (\<lambda>r. r \<notin> roles) (f_rejectedRoles f) m3;
          m5 = (if f_requireSession f \<and> \<not> isSessionActive then False else m4)
      in if f_disallowSession f \<and> isSessionActive then False else m5)"

definition filter_decision :: "resource_filter \<Rightarrow> filter_result \<Rightarrow> filter_result" where
  "filter_decision f res =
     (case f_action f of
        RFILTER_ACCEPT \<Rightarrow> res\<lparr>fr_accept := True\<rparr>
      | RFILTER_REDIRECT \<Rightarrow> res\<lparr>fr_accept := True, fr_redirectLocation := f_redirectLocation f\<rparr>
      | RFILTER_DENY \<Rightarrow> res\<lparr>fr_accept := False\<rparr>)"

text \<open>The patterns see the C string of the URI.\<close>

fun evaluateURI :: "(bytes \<Rightarrow> bytes \<Rightarrow> bool) \<Rightarrow> resource_filter list \<Rightarrow> bytes \<Rightarrow> bytes set \<Rightarrow> bytes set \<Rightarrow> bool \<Rightarrow> filter_result" where
  "evaluateURI regex_match [] uri permissions roles isSessionActive = filter_result_new"
| "evaluateURI regex_match (f # fs) uri permissions roles isSessionActive =
     (if filter_applies f permissions roles isSessionActive \<and> list_ex (regex_match (takeWhile (\<lambda>c. c \<noteq> CHR 0x00) uri)) (f_regexPatterns f)
      then filter_decision f filter_result_new
      else evaluateURI regex_match fs uri permissions roles isSessionActive)"

section \<open>What a session needs\<close>

text \<open>The handler after a list of registrations.\<close>

definition handler_of :: "'w method_definition list \<Rightarrow> 'w methods_handler" where
  "handler_of ds = fold (\<lambda>d h. fst (addMethod h d)) ds methods_handler_new"

definition well_defined :: "'w method_definition \<Rightarrow> bool" where
  "well_defined d \<longleftrightarrow> finite (md_reqPermissions d) \<and> finite (md_reqRoles d)"

text \<open>The requirements of a name in a handler are those of one definition, or there are none.\<close>

definition registers :: "'w methods_handler \<Rightarrow> bytes \<Rightarrow> 'w method_definition option \<Rightarrow> bool" where
  "registers h name d \<longleftrightarrow>
     m_methods h name = map_option md_method d \<and> m_methodRequireActiveSession h name = map_option md_isActiveSessionRequired d
     \<and> m_methodUpdateSessionLastActivityOnUsage h name = map_option md_doUsageUpdateLastSessionActivity d
     \<and> getMethodRequiredPermissions (m_methodsPermissions h) name = (case d of None \<Rightarrow> {} | Some d \<Rightarrow> md_reqPermissions d)
     \<and> getMethodRequiredRoles (m_methodsPermissions h) name = (case d of None \<Rightarrow> {} | Some d \<Rightarrow> md_reqRoles d)"

lemma required_after_add:
  "getMethodRequiredPermissions (addMethodRequiredPermissions r n ps) name = getMethodRequiredPermissions r name \<union> (if name = n \<and> finite ps then ps else {})"
  "getMethodRequiredRoles (addMethodRequiredPermissions r n ps) name = getMethodRequiredRoles r name"
  "getMethodRequiredRoles (addMethodRequiredRoles r n ps) name = getMethodRequiredRoles r name \<union> (if name = n \<and> finite ps then ps else {})"
  "getMethodRequiredPermissions (addMethodRequiredRoles r n ps) name = getMethodRequiredPermissions r name"
  by (auto simp: getMethodRequiredPermissions_def addMethodRequiredPermissions_def getMethodRequiredRoles_def addMethodRequiredRoles_def filter_map comp_def image_iff)

lemma addMethod_registers:
  assumes "registers h name d" and "well_defined e"
  shows "registers (fst (addMethod h e)) name (if d = None \<and> md_methodName e = name then Some e else d)"
  using assms by (cases d) (auto simp: registers_def well_defined_def addMethod_def Let_def required_after_add)

lemma fold_registers:
  assumes "registers h name d" and "list_all well_defined ds"
  shows "registers (fold (\<lambda>d h. fst (addMethod h d)) ds h) name (case d of Some d \<Rightarrow> Some d | None \<Rightarrow> find (\<lambda>d. md_methodName d = name) ds)"
  using assms
proof (induction ds arbitrary: h d)
  case Nil
  then show ?case by (cases d) simp_all
next
  case (Cons e ds)
  show ?case using Cons.IH [OF addMethod_registers [OF Cons.prems(1), of e]] Cons.prems(2) by (cases d) (auto simp: well_defined_def)
qed

lemma handler_registers:
  assumes "list_all well_defined ds"
  shows "registers (handler_of ds) name (find (\<lambda>d. md_methodName d = name) ds)"
proof -
  have "registers methods_handler_new name None"
    by (simp add: registers_def methods_handler_new_def requirements_new_def getMethodRequiredPermissions_def getMethodRequiredRoles_def)
  from fold_registers [OF this assms] show ?thesis by (simp add: handler_of_def)
qed

lemma erase_held_total:
  assumes "\<And>x. has x = Inr (held x)"
  shows "erase_held has xs left = Inr (left - {x \<in> set xs. held x})"
  using assms by (induction xs arbitrary: left) auto

text \<open>Claims in an object, or none at all, are read without an exception.\<close>

definition readable :: "token \<Rightarrow> bool" where
  "readable t \<longleftrightarrow> isObject (m_claims t) \<or> m_claims t = JNull"

lemma readable_member: "readable t \<Longrightarrow> isMember (m_claims t) x = Inr (member_value (m_claims t) x \<noteq> None)"
  by (cases "m_claims t") (auto simp: readable_def member_value_def)

lemma readable_get: "readable t \<Longrightarrow> json_get (m_claims t) x = Inr (case member_value (m_claims t) x of None \<Rightarrow> JNull | Some v \<Rightarrow> v)"
  by (cases "m_claims t") (auto simp: readable_def member_value_def)

lemma readable_total:
  assumes "readable t"
  shows "\<exists>b. isAdmin t = Inr b" and "\<exists>rs. getAllRoles t = Inr rs" and "\<exists>b. hasRole t x = Inr b" and "\<exists>b. hasPermission t x = Inr b"
  unfolding isAdmin_def getAllRoles_def hasRole_def hasPermission_def getClaim_def readable_member [OF assms] readable_get [OF assms]
  by (auto split: bool.split json.split)

definition holds_role :: "token \<Rightarrow> bytes \<Rightarrow> bool" where
  "holds_role t x \<longleftrightarrow> hasRole t x = Inr True"

definition holds_permission :: "token \<Rightarrow> bytes \<Rightarrow> bool" where
  "holds_permission t x \<longleftrightarrow> hasPermission t x = Inr True"

lemma readable_holds:
  assumes "readable t"
  shows "hasRole t x = Inr (holds_role t x)" and "hasPermission t x = Inr (holds_permission t x)"
  using readable_total(3,4) [OF assms, of x] by (auto simp: holds_role_def holds_permission_def)

lemma validateMethod_total:
  assumes "readable (m_jwtAuthenticatedInfo s)" and "finite (getMethodRequiredPermissions r name)" and "finite (getMethodRequiredRoles r name)"
  shows "\<exists>left. validateMethod r (Some s) name {} {} = Inr ({}, left, isAdmin (m_jwtAuthenticatedInfo s) = Inr True
    \<or> (\<forall>p\<in>getMethodRequiredPermissions r name. holds_permission (m_jwtAuthenticatedInfo s) p
          \<or> p \<in> getMethodRequiredRoles r name \<and> holds_role (m_jwtAuthenticatedInfo s) p))"
proof -
  let ?t = "m_jwtAuthenticatedInfo s"
  obtain admin roles where ar: "isAdmin ?t = Inr admin" "getAllRoles ?t = Inr roles" using readable_total(1,2) [OF assms(1)] by blast
  have e: "erase_held (hasPermission ?t) xs left = Inr (left - {x \<in> set xs. holds_permission ?t x})"
    "erase_held (hasRole ?t) xs left = Inr (left - {x \<in> set xs. holds_role ?t x})" for xs left
    by (rule erase_held_total, simp add: readable_holds [OF assms(1)])+
  show ?thesis
  proof (cases admin)
    case True
    then show ?thesis using ar by (simp add: validateMethod_def)
  next
    case False
    let ?left = "getMethodRequiredPermissions r name - {x \<in> getMethodRequiredPermissions r name. holds_permission ?t x}
      - {x \<in> getMethodRequiredRoles r name. holds_role ?t x}"
    have "validateMethod r (Some s) name {} {} = Inr ({}, ?left, ?left = {})"
      using ar False assms(2,3) by (simp add: validateMethod_def e Let_def)
    moreover have "?left = {} \<longleftrightarrow> (\<forall>p\<in>getMethodRequiredPermissions r name. holds_permission ?t p \<or> p \<in> getMethodRequiredRoles r name \<and> holds_role ?t p)"
      by auto
    ultimately show ?thesis using ar(1) False by simp
  qed
qed

lemma validate_registered:
  assumes "registers h name (Some d)" and "well_defined d" and "readable (m_jwtAuthenticatedInfo s)"
  shows "\<exists>reasons code. validateMethodRequirements h (Some s) name JNull = Inr (h, reasons, code) \<and> code \<in> {VALIDATION_OK, VALIDATION_NOTAUTHORIZED}
    \<and> (code = VALIDATION_OK \<longleftrightarrow> isAdmin (m_jwtAuthenticatedInfo s) = Inr True
         \<or> (\<forall>p\<in>md_reqPermissions d. holds_permission (m_jwtAuthenticatedInfo s) p \<or> p \<in> md_reqRoles d \<and> holds_role (m_jwtAuthenticatedInfo s) p))"
proof -
  have r: "getMethodRequiredPermissions (m_methodsPermissions h) name = md_reqPermissions d"
      "getMethodRequiredRoles (m_methodsPermissions h) name = md_reqRoles d"
      "m_methods h name = Some (md_method d)" "m_methodRequireActiveSession h name = Some (md_isActiveSessionRequired d)"
    using assms(1) by (simp_all add: registers_def)
  obtain left where v: "validateMethod (m_methodsPermissions h) (Some s) name {} {} = Inr ({}, left, isAdmin (m_jwtAuthenticatedInfo s) = Inr True
      \<or> (\<forall>p\<in>md_reqPermissions d. holds_permission (m_jwtAuthenticatedInfo s) p \<or> p \<in> md_reqRoles d \<and> holds_role (m_jwtAuthenticatedInfo s) p))"
    (is "_ = Inr ({}, left, ?ok)")
    using validateMethod_total [OF assms(3), of "m_methodsPermissions h" name] assms(2) unfolding r(1,2) well_defined_def by blast
  show ?thesis
  proof (cases ?ok)
    case True
    then have "validateMethod (m_methodsPermissions h) (Some s) name {} {} = Inr ({}, left, True)" using v by simp
    then show ?thesis using r(3,4) True by (simp add: validateMethodRequirements_def flag_at_def)
  next
    case False
    then have "validateMethod (m_methodsPermissions h) (Some s) name {} {} = Inr ({}, left, False)" using v by simp
    then have "\<exists>reasons. validateMethodRequirements h (Some s) name JNull = Inr (h, reasons, VALIDATION_NOTAUTHORIZED)"
      using r(3,4) by (simp add: validateMethodRequirements_def flag_at_def)
    then show ?thesis using False by auto
  qed
qed

lemma find_well_defined:
  assumes "find (\<lambda>d. md_methodName d = name) ds = Some d" and "list_all well_defined ds"
  shows "registers (handler_of ds) name (Some d)" and "well_defined d"
proof -
  show "registers (handler_of ds) name (Some d)" using handler_registers [OF assms(2), of name] assms(1) by simp
  have "d \<in> set ds" using assms(1) by (metis find_Some_iff nth_mem)
  then show "well_defined d" using assms(2) by (simp add: list_all_iff)
qed

text \<open>
  C33. What the requirements of a method amount to. After any list of registrations, with the first definition of a name in force, the check for a session without
  further parameters says OK exactly when the session is an administrator's, or each required permission is held or waived. A permission is waived when
  it has the name of one of the required roles and the session has that role. A required role is needed for nothing else: a session that has none of the required
  roles passes when it holds the permissions, although the comment of the function speaks of roles and permissions. Else the answer is that the session
  is not authorised, and unknown methods are not found.
\<close>

theorem monolith_access:
  assumes "list_all well_defined ds" and "readable (m_jwtAuthenticatedInfo s)"
  shows "case find (\<lambda>d. md_methodName d = name) ds of
      None \<Rightarrow> validateMethodRequirements (handler_of ds) (Some s) name JNull = Inr (handler_of ds, JNull, VALIDATION_METHODNOTFOUND)
    | Some d \<Rightarrow> \<exists>reasons code. validateMethodRequirements (handler_of ds) (Some s) name JNull = Inr (handler_of ds, reasons, code)
        \<and> code \<in> {VALIDATION_OK, VALIDATION_NOTAUTHORIZED}
        \<and> (code = VALIDATION_OK \<longleftrightarrow> isAdmin (m_jwtAuthenticatedInfo s) = Inr True
             \<or> (\<forall>p\<in>md_reqPermissions d. holds_permission (m_jwtAuthenticatedInfo s) p \<or> p \<in> md_reqRoles d \<and> holds_role (m_jwtAuthenticatedInfo s) p))"
proof (cases "find (\<lambda>d. md_methodName d = name) ds")
  case None
  then have "m_methods (handler_of ds) name = None" using handler_registers [OF assms(1), of name] by (simp add: registers_def)
  then show ?thesis using None by (simp add: validateMethodRequirements_def)
next
  case (Some d)
  then show ?thesis using validate_registered [OF find_well_defined [OF Some assms(1)] assms(2)] by simp
qed

text \<open>
  Required roles and public methods. The roles that a method requires are not enforced: a session without any role may call a method that requires roles and
  no permissions. And a method that is registered as needing no session is refused to every caller without one.
\<close>

theorem monolith_roles_ignored:
  assumes "list_all well_defined ds" and "find (\<lambda>d. md_methodName d = name) ds = Some d"
  shows "(\<forall>s. md_reqPermissions d = {} \<and> readable (m_jwtAuthenticatedInfo s) \<longrightarrow>
      (\<exists>reasons. validateMethodRequirements (handler_of ds) (Some s) name JNull = Inr (handler_of ds, reasons, VALIDATION_OK)))
    \<and> (\<exists>reasons. validateMethodRequirements (handler_of ds) None name JNull = Inr (handler_of ds, reasons, VALIDATION_NOTAUTHORIZED))"
proof (intro conjI allI impI)
  note d = find_well_defined [OF assms(2,1)]
  show "\<exists>reasons. validateMethodRequirements (handler_of ds) (Some s) name JNull = Inr (handler_of ds, reasons, VALIDATION_OK)"
    if "md_reqPermissions d = {} \<and> readable (m_jwtAuthenticatedInfo s)" for s
    using validate_registered [OF d, of s] that by auto
  have "m_methods (handler_of ds) name = Some (md_method d)" "m_methodRequireActiveSession (handler_of ds) name = Some (md_isActiveSessionRequired d)"
    using d(1) by (simp_all add: registers_def)
  then show "\<exists>reasons. validateMethodRequirements (handler_of ds) None name JNull = Inr (handler_of ds, reasons, VALIDATION_NOTAUTHORIZED)"
    by (simp add: validateMethodRequirements_def flag_at_def validateMethod_def Let_def)
qed

section \<open>What the filters decide\<close>

lemma all_names_all: "all_names good ns matches \<longleftrightarrow> matches \<and> (\<forall>n\<in>set ns. good n)"
  by (induction ns arbitrary: matches) auto

text \<open>A filter that applies to the session and one of whose patterns matches the URI.\<close>

definition governs :: "(bytes \<Rightarrow> bytes \<Rightarrow> bool) \<Rightarrow> bytes \<Rightarrow> bytes set \<Rightarrow> bytes set \<Rightarrow> bool \<Rightarrow> resource_filter \<Rightarrow> bool" where
  "governs regex_match uri permissions roles active f \<longleftrightarrow>
     set (f_requiredPermissions f) \<subseteq> permissions \<and> set (f_rejectedPermissions f) \<inter> permissions = {}
     \<and> set (f_requiredRoles f) \<subseteq> roles \<and> set (f_rejectedRoles f) \<inter> roles = {}
     \<and> (f_requireSession f \<longrightarrow> active) \<and> (f_disallowSession f \<longrightarrow> \<not> active) \<and> (\<exists>p\<in>set (f_regexPatterns f). regex_match uri p)"

lemma filter_applies_iff:
  "filter_applies f permissions roles active \<and> list_ex (regex_match uri) (f_regexPatterns f) \<longleftrightarrow> governs regex_match uri permissions roles active f"
  by (auto simp: filter_applies_def governs_def all_names_all list_ex_iff Let_def)

text \<open>
  C34. The filters of a web server. The first filter in the list whose permissions, roles and session conditions hold and one of whose patterns matches the URI
  decides: an accepting filter serves the file, a denying one refuses it, and a redirecting one names its location. When there is none the file is served.
\<close>

theorem filters_first_match:
  assumes "CHR 0x00 \<notin> set uri"
  shows "evaluateURI regex_match fs uri permissions roles active =
    (case find (governs regex_match uri permissions roles active) fs of
       None \<Rightarrow> \<lparr>fr_accept = True, fr_redirectLocation = []\<rparr>
     | Some f \<Rightarrow> \<lparr>fr_accept = (f_action f \<noteq> RFILTER_DENY), fr_redirectLocation = (if f_action f = RFILTER_REDIRECT then f_redirectLocation f else [])\<rparr>)"
proof -
  have c: "takeWhile (\<lambda>c. c \<noteq> CHR 0x00) uri = uri" using assms by (auto simp: takeWhile_eq_all_conv)
  show ?thesis
    by (induction fs) (auto simp: c filter_applies_iff filter_decision_def filter_result_new_def split: FilterAction.split)
qed

section \<open>Concrete cases\<close>

definition example_method :: "bytes \<Rightarrow> bytes set \<Rightarrow> bytes set \<Rightarrow> bool \<Rightarrow> nat method_definition" where
  "example_method name ps rs active =
     \<lparr>md_method = (\<lambda>w s p. (w + 1, id, p)), md_methodName = name, md_reqPermissions = ps, md_reqRoles = rs,
      md_doUsageUpdateLastSessionActivity = True, md_isActiveSessionRequired = active\<rparr>"

definition example_session :: "json \<Rightarrow> session" where
  "example_session claims = session_new 0 0 (token_empty\<lparr>m_claims := claims\<rparr>)"

lemma example_readable: "isObject claims \<Longrightarrow> readable (m_jwtAuthenticatedInfo (example_session claims))"
  by (simp add: example_session_def session_new_def readable_def)

lemma example_powerless:
  "isAdmin (m_jwtAuthenticatedInfo (example_session (JObject []))) = Inr False" "\<not> holds_permission (m_jwtAuthenticatedInfo (example_session (JObject []))) p"
  by (simp_all add: example_session_def session_new_def token_empty_def isAdmin_def holds_permission_def hasPermission_def)

theorem monolith_access_witness:
  "\<exists>reasons. validateMethodRequirements (handler_of [example_method ''delete'' {''admin''} {} True]) (Some (example_session (JObject []))) ''delete'' JNull
      = Inr (handler_of [example_method ''delete'' {''admin''} {} True], reasons, VALIDATION_NOTAUTHORIZED)"
proof -
  let ?ds = "[example_method ''delete'' {''admin''} {} True]"
  have "list_all well_defined ?ds" "find (\<lambda>d. md_methodName d = ''delete'') ?ds = Some (example_method ''delete'' {''admin''} {} True)"
    "md_reqPermissions (example_method ''delete'' {''admin''} {} True) = {''admin''}" "md_reqRoles (example_method ''delete'' {''admin''} {} True) = {}"
    by (simp_all add: well_defined_def example_method_def)
  then show ?thesis
    using monolith_access [of ?ds "example_session (JObject [])" "''delete''"] example_readable [of "JObject []"] example_powerless by auto
qed

theorem monolith_roles_ignored_witness:
  "\<exists>reasons. validateMethodRequirements (handler_of [example_method ''reset'' {} {''root''} False]) (Some (example_session (JObject []))) ''reset'' JNull
      = Inr (handler_of [example_method ''reset'' {} {''root''} False], reasons, VALIDATION_OK)"
proof -
  let ?d = "example_method ''reset'' {} {''root''} False"
  have "list_all well_defined [?d]" "find (\<lambda>d. md_methodName d = ''reset'') [?d] = Some ?d" "md_reqPermissions ?d = {}"
    by (simp_all add: well_defined_def example_method_def)
  then show ?thesis using monolith_roles_ignored [of "[?d]" "''reset''" ?d] example_readable [of "JObject []"] by auto
qed

theorem filters_first_match_witness:
  "evaluateURI (\<lambda>u p. take (length p) u = p)
     [filter_new\<lparr>f_regexPatterns := [''/private/''], f_requireSession := True\<rparr>, filter_new\<lparr>f_regexPatterns := [''/private/''], f_action := RFILTER_DENY\<rparr>]
     ''/private/a.html'' {} {} False = \<lparr>fr_accept = False, fr_redirectLocation = []\<rparr>"
  by (subst filters_first_match) (simp_all add: governs_def filter_new_def)

end
