(* ===== verification/StreamableJSON.thy ===== *)
theory StreamableJSON
  imports JSON Streamable
begin

text \<open>
  Streams that keep what is written to them: a text (\<^verbatim>\<open>src/Mantids30/Memory/streamablestring.cpp\<close>) and a JSON value
  (\<^verbatim>\<open>streamablejson.cpp\<close>), which is read from the text at the end of the stream. The reader and the two writers of JSON texts are parameters:
  \<open>jr old text\<close> is the value after parsing and whether it succeeded, \<open>jw\<close> the compact and \<open>js\<close> the styled text.
\<close>

section \<open>Text\<close>

record streamable_string =
  ss_value :: bytes
  ss_writeStatus :: WriteStatus

definition streamable_string_new :: streamable_string where
  "streamable_string_new = \<lparr>ss_value = [], ss_writeStatus = ws_init\<rparr>"

definition ss_write :: "streamable_string \<Rightarrow> bytes \<Rightarrow> (streamable_string \<times> nat option) result" where
  "ss_write s buf =
     (case ws_add (ss_writeStatus s) (to_ssize (length buf)) of
        Inl e \<Rightarrow> Inl e
      | Inr ws \<Rightarrow> Inr (s\<lparr>ss_value := ss_value s @ buf, ss_writeStatus := ws\<rparr>, Some (length buf)))"

definition string_streamable :: "streamable_string streamable" where
  "string_streamable = \<lparr>so_write = ss_write, so_status = ss_writeStatus, so_set_status = (\<lambda>ws s. s\<lparr>ss_writeStatus := ws\<rparr>)\<rparr>"

definition ss_streamTo :: "'o streamable \<Rightarrow> streamable_string \<Rightarrow> 'o \<Rightarrow> ('o \<times> bool) result" where
  "ss_streamTo io s out = writeFullStream io out (ss_value s)"

definition ss_setValue :: "streamable_string \<Rightarrow> bytes \<Rightarrow> streamable_string" where
  "ss_setValue s newValue = s\<lparr>ss_value := newValue\<rparr>"

section \<open>JSON\<close>

record streamable_json =
  sj_maxSize :: nat
  sj_strValue :: bytes
  sj_root :: json
  sj_formatted :: bool
  sj_isFull :: bool
  sj_writeStatus :: WriteStatus

definition streamable_json_new :: streamable_json where
  "streamable_json_new = \<lparr>sj_maxSize = size_max, sj_strValue = [], sj_root = JNull, sj_formatted = True, sj_isFull = False, sj_writeStatus = ws_init\<rparr>"

text \<open>\<^verbatim>\<open>processValue\<close> parses into the root; the result is the root or the null pointer.\<close>

definition processValue :: "(json \<Rightarrow> bytes \<Rightarrow> json \<times> bool) \<Rightarrow> streamable_json \<Rightarrow> streamable_json \<times> json option" where
  "processValue jr s =
     (if sj_isFull s then (s, None)
      else case jr (sj_root s) (sj_strValue s) of
             (root, ok) \<Rightarrow> (s\<lparr>sj_root := root\<rparr>, if ok then Some root else None))"

definition sj_add_status :: "streamable_json \<Rightarrow> int \<Rightarrow> streamable_json result" where
  "sj_add_status s x = map_sum id (\<lambda>ws. s\<lparr>sj_writeStatus := ws\<rparr>) (ws_add (sj_writeStatus s) x)"

definition sj_write :: "(json \<Rightarrow> bytes \<Rightarrow> json \<times> bool) \<Rightarrow> streamable_json \<Rightarrow> bytes \<Rightarrow> (streamable_json \<times> nat option) result" where
  "sj_write jr s buf =
     (if buf = [] then
        (case sj_add_status s 0 of
           Inl e \<Rightarrow> Inl e
         | Inr s1 \<Rightarrow>
             (case processValue jr s1 of
                (s2, None) \<Rightarrow> map_sum id (\<lambda>s3. (s3, None)) (sj_add_status s2 (-1))
              | (s2, Some _) \<Rightarrow> Inr (s2, Some 0)))
      else if uadd (length (sj_strValue s)) (length buf) > sj_maxSize s
      then map_sum id (\<lambda>s1. (s1, None)) (sj_add_status (s\<lparr>sj_isFull := True\<rparr>) (-1))
      else map_sum id (\<lambda>s1. (s1, Some (length buf))) (sj_add_status (s\<lparr>sj_strValue := sj_strValue s @ buf\<rparr>) (to_ssize (length buf))))"

definition json_streamable :: "(json \<Rightarrow> bytes \<Rightarrow> json \<times> bool) \<Rightarrow> streamable_json streamable" where
  "json_streamable jr = \<lparr>so_write = sj_write jr, so_status = sj_writeStatus, so_set_status = (\<lambda>ws s. s\<lparr>sj_writeStatus := ws\<rparr>)\<rparr>"

definition sj_streamTo ::
  "(json \<Rightarrow> bytes) \<Rightarrow> (json \<Rightarrow> bytes) \<Rightarrow> 'o streamable \<Rightarrow> streamable_json \<Rightarrow> 'o \<Rightarrow> (streamable_json \<times> 'o \<times> bool) result" where
  "sj_streamTo jw js io s out =
     (let s1 = s\<lparr>sj_strValue := (if \<not> sj_formatted s then jw (sj_root s) else js (sj_root s))\<rparr>
      in map_sum id (\<lambda>(out', ok). (s1, out', ok)) (writeFullStream io out (sj_strValue s1)))"

definition sj_clear :: "streamable_json \<Rightarrow> streamable_json" where
  "sj_clear s = s\<lparr>sj_root := JNull, sj_strValue := []\<rparr>"

definition sj_setValue :: "streamable_json \<Rightarrow> json \<Rightarrow> streamable_json" where
  "sj_setValue s value = s\<lparr>sj_root := value\<rparr>"

definition sj_setMaxSize :: "streamable_json \<Rightarrow> nat \<Rightarrow> streamable_json" where
  "sj_setMaxSize s value = s\<lparr>sj_maxSize := value\<rparr>"

definition sj_setFormatted :: "streamable_json \<Rightarrow> bool \<Rightarrow> streamable_json" where
  "sj_setFormatted s value = s\<lparr>sj_formatted := value\<rparr>"

text \<open>\<^verbatim>\<open>StreamableObject::toString\<close> streams into a text.\<close>

definition sj_toString :: "(json \<Rightarrow> bytes) \<Rightarrow> (json \<Rightarrow> bytes) \<Rightarrow> streamable_json \<Rightarrow> (streamable_json \<times> bytes) result" where
  "sj_toString jw js s = map_sum id (\<lambda>(s1, out, _). (s1, ss_value out)) (sj_streamTo jw js string_streamable s streamable_string_new)"

section \<open>Both are sinks\<close>

definition status_room :: "WriteStatus \<Rightarrow> nat \<Rightarrow> bool" where
  "status_room ws n \<longleftrightarrow> succeed ws \<and> \<not> finish ws \<and> bytesWritten ws + n < 2 ^ 63"

lemma ws_add_room:
  assumes "status_room ws n" and "0 < n"
  shows "ws_add ws (to_ssize n) = Inr (ws\<lparr>bytesWritten := bytesWritten ws + n\<rparr>)"
  using assms by (simp add: status_room_def ws_add_def to_ssize_def safeAdd_size_eq size_max_def)

lemma ss_write_room:
  assumes "status_room (ss_writeStatus s) (length buf)" and "buf \<noteq> []"
  shows "\<exists>s'. so_write string_streamable s buf = Inr (s', Some (length buf)) \<and> ss_value s' = ss_value s @ buf
    \<and> succeed (so_status string_streamable s') \<and> status_room (ss_writeStatus s') 0"
  using assms ws_add_room [OF assms(1)] by (simp add: string_streamable_def ss_write_def status_room_def)

interpretation text_sink: stream_sink string_streamable ss_value "\<lambda>s. status_room (ss_writeStatus s)"
  by unfold_locales (drule (1) ss_write_room, fastforce)

definition json_room :: "streamable_json \<Rightarrow> nat \<Rightarrow> bool" where
  "json_room s n \<longleftrightarrow> status_room (sj_writeStatus s) n \<and> length (sj_strValue s) + n \<le> sj_maxSize s \<and> sj_maxSize s \<le> size_max"

lemma sj_write_room:
  assumes "json_room s (length buf)" and "buf \<noteq> []"
  shows "so_write (json_streamable jr) s buf
    = Inr (s\<lparr>sj_strValue := sj_strValue s @ buf, sj_writeStatus := (sj_writeStatus s)\<lparr>bytesWritten := bytesWritten (sj_writeStatus s) + length buf\<rparr>\<rparr>, Some (length buf))"
  using assms ws_add_room [of "sj_writeStatus s" "length buf"]
  by (simp add: json_streamable_def sj_write_def sj_add_status_def json_room_def size_arith)

interpretation json_sink: stream_sink "json_streamable jr" sj_strValue json_room
  by unfold_locales (auto simp: sj_write_room, auto simp: json_room_def status_room_def json_streamable_def)

section \<open>What a JSON body becomes\<close>

fun sj_feed :: "(json \<Rightarrow> bytes \<Rightarrow> json \<times> bool) \<Rightarrow> streamable_json \<Rightarrow> bytes list \<Rightarrow> streamable_json result" where
  "sj_feed jr s [] = Inr s"
| "sj_feed jr s (p # ps) = (case so_write (json_streamable jr) s p of Inl e \<Rightarrow> Inl e | Inr (s', _) \<Rightarrow> sj_feed jr s' ps)"

lemma sj_feed_room:
  assumes "json_room s (length (concat ps))" and "[] \<notin> set ps"
  shows "sj_feed jr s ps = Inr (s\<lparr>sj_strValue := sj_strValue s @ concat ps,
    sj_writeStatus := (sj_writeStatus s)\<lparr>bytesWritten := bytesWritten (sj_writeStatus s) + length (concat ps)\<rparr>\<rparr>)"
  using assms
proof (induction ps arbitrary: s)
  case (Cons p ps)
  have room: "json_room s (length p)" using Cons.prems(1) by (simp add: json_room_def status_room_def)
  have "p \<noteq> []" using Cons.prems(2) by auto
  show ?case
    unfolding sj_feed.simps sj_write_room [OF room \<open>p \<noteq> []\<close>] sum.case prod.case
    by (subst Cons.IH) (use Cons.prems in \<open>auto simp: json_room_def status_room_def add_ac\<close>)
qed simp

text \<open>
  C38. A JSON body. However the text is cut into writes, at the end of the stream the object holds the value of the whole text; and when the text does not parse,
  the end of the stream throws, because the failure is noted in a write status that has just been finished.
\<close>

theorem json_body_value:
  assumes "[] \<notin> set ps" and "length (concat ps) < 2 ^ 63" and "jr JNull (concat ps) = (v, ok)"
  shows "\<exists>s. sj_feed jr streamable_json_new ps = Inr s
    \<and> (if ok then \<exists>s'. writeEOF (json_streamable jr) s = Inr (s', True) \<and> sj_root s' = v \<and> finish (sj_writeStatus s')
       else writeEOF (json_streamable jr) s = Inl (RuntimeError ''Trying to write into an already finished write object.''))"
proof -
  have "json_room streamable_json_new (length (concat ps))"
    using assms(2) by (simp add: json_room_def status_room_def streamable_json_new_def ws_init_def size_max_def)
  from sj_feed_room [OF this assms(1), of jr] show ?thesis
    using assms(3)
    by (simp add: writeEOF_def json_streamable_def sj_write_def sj_add_status_def ws_add_def streamable_json_new_def ws_init_def processValue_def)
qed

lemma sj_toString_text:
  assumes "length (jw (sj_root s)) < 2 ^ 63" and "length (js (sj_root s)) < 2 ^ 63"
  shows "sj_toString jw js s = Inr (s\<lparr>sj_strValue := (if sj_formatted s then js (sj_root s) else jw (sj_root s))\<rparr>,
    if sj_formatted s then js (sj_root s) else jw (sj_root s))"
proof -
  let ?t = "if sj_formatted s then js (sj_root s) else jw (sj_root s)"
  have "status_room (ss_writeStatus streamable_string_new) (length ?t)"
    using assms by (simp add: status_room_def streamable_string_new_def ws_init_def)
  from text_sink.writeFullStream_delivers [OF this] obtain out where
    "writeFullStream string_streamable streamable_string_new ?t = Inr (out, True)" "ss_value out = ?t"
    by (auto simp: streamable_string_new_def)
  then show ?thesis by (simp add: sj_toString_def sj_streamTo_def Let_def split: if_splits)
qed

text \<open>
  Reading a body again. \<^verbatim>\<open>toString\<close> overwrites the received text with the text of the value, so that a call of \<^verbatim>\<open>processValue\<close>
  behind it parses that one: the received text is never looked at again, whether it was valid or not.
\<close>

theorem json_text_overwritten:
  assumes "length (jw (sj_root s)) < 2 ^ 63" and "length (js (sj_root s)) < 2 ^ 63" and "\<not> sj_isFull s"
    and "\<And>old. jr old (jw (sj_root s)) = (sj_root s, True)" and "\<And>old. jr old (js (sj_root s)) = (sj_root s, True)"
  shows "\<exists>s' text. sj_toString jw js s = Inr (s', text) \<and> snd (processValue jr s') = Some (sj_root s)"
  using assms by (simp add: sj_toString_text processValue_def)

text \<open>A reader and writers for the single value \<open>JNull\<close> and for objects with one text.\<close>

definition example_writer :: "json \<Rightarrow> bytes" where
  "example_writer v = (case v of JString s \<Rightarrow> CHR 0x22 # s | _ \<Rightarrow> ''null'')"

definition example_reader :: "json \<Rightarrow> bytes \<Rightarrow> json \<times> bool" where
  "example_reader old t = (if t = ''null'' then (JNull, True) else if t \<noteq> [] \<and> hd t = CHR 0x22 then (JString (tl t), True) else (old, False))"

theorem json_body_value_witness:
  "(\<exists>s. sj_feed example_reader streamable_json_new [''nu'', ''ll''] = Inr s
     \<and> (\<exists>s'. writeEOF (json_streamable example_reader) s = Inr (s', True) \<and> sj_root s' = JNull \<and> finish (sj_writeStatus s')))
   \<and> (\<exists>s. sj_feed example_reader streamable_json_new [''{''] = Inr s
     \<and> writeEOF (json_streamable example_reader) s = Inl (RuntimeError ''Trying to write into an already finished write object.''))"
  using json_body_value [of "[''nu'', ''ll'']" example_reader JNull True] json_body_value [of "[''{'']" example_reader JNull False]
  by (simp add: example_reader_def)

theorem json_text_overwritten_witness:
  "\<exists>s' text. sj_toString example_writer example_writer (streamable_json_new\<lparr>sj_strValue := ''{'', sj_root := JNull\<rparr>) = Inr (s', text)
     \<and> snd (processValue example_reader s') = Some JNull"
  using json_text_overwritten [of example_writer "streamable_json_new\<lparr>sj_strValue := ''{'', sj_root := JNull\<rparr>" example_writer example_reader]
  by (simp add: example_writer_def example_reader_def streamable_json_new_def)

end
