(* ===== verification/RESTful.thy ===== *)
theory RESTful
  imports JWTToken StreamableJSON HTTPBase
begin

text \<open>
  The resources of a REST API (\<^verbatim>\<open>src/Mantids30/API_RESTful/methodshandler.cpp\<close>) and what they answer
  (\<^verbatim>\<open>src/Mantids30/Protocol_HTTP/api_return.h\<close>). A resource is a function on the world \<open>'w\<close> of the application and the answer; the JSON
  Web Token objects that the request parameters point to are shared and so belong to that world.
\<close>

section \<open>Answers\<close>

record api_return =
  ar_cookiesMap :: "(bytes \<times> cookie) list"
  ar_httpExtraHeaders :: "(bytes \<times> bytes) list"
  ar_redirectURL :: bytes
  ar_httpResponseCode :: nat
  ar_body :: streamable_json

definition api_return_new :: api_return where
  "api_return_new = \<lparr>ar_cookiesMap = [], ar_httpExtraHeaders = [], ar_redirectURL = [], ar_httpResponseCode = 200, ar_body = streamable_json_new\<rparr>"

definition setError :: "api_return \<Rightarrow> nat \<Rightarrow> bytes \<Rightarrow> bytes \<Rightarrow> api_return result" where
  "setError r code error message =
     (case json_set (sj_root (ar_body r)) ''error'' (JString error) of
        Inl e \<Rightarrow> Inl e
      | Inr j1 \<Rightarrow>
          (case json_set j1 ''message'' (JString message) of
             Inl e \<Rightarrow> Inl e
           | Inr j2 \<Rightarrow> Inr (r\<lparr>ar_httpResponseCode := code, ar_body := sj_setValue (ar_body r) j2\<rparr>)))"

definition setReasons :: "api_return \<Rightarrow> json \<Rightarrow> api_return result" where
  "setReasons r reasons = map_sum id (\<lambda>j. r\<lparr>ar_body := sj_setValue (ar_body r) j\<rparr>) (json_set (sj_root (ar_body r)) ''reasons'' reasons)"

definition getErrorString :: "api_return \<Rightarrow> bytes" where
  "getErrorString r =
     dec (ar_httpResponseCode r) @ '' - '' @
       (if ar_httpResponseCode r \<noteq> 200 then JSON_ASSTRING (sj_root (ar_body r)) ''message'' ''UNKNOWN ERROR.'' else ''OK'')"

section \<open>Resources\<close>

record client_details =
  cd_ipAddress :: bytes
  cd_extraData :: bytes
  cd_tlsCommonName :: bytes
  cd_userAgent :: bytes

record ('y, 'o) request_parameters =
  rp_clientRequest :: "('y, 'o) http_request"
  rp_pathParameters :: json
  rp_inputJSON :: json
  rp_jwtToken :: token

definition request_parameters_new :: "('y, 'o) http_request \<Rightarrow> ('y, 'o) request_parameters" where
  "request_parameters_new r = \<lparr>rp_clientRequest = r, rp_pathParameters = JNull, rp_inputJSON = JNull, rp_jwtToken = token_empty\<rparr>"

type_synonym ('w, 'y, 'o) rest_method = "'w \<Rightarrow> api_return \<Rightarrow> ('y, 'o) request_parameters \<Rightarrow> client_details \<Rightarrow> 'w \<times> api_return"

record ('w, 'y, 'o) resource =
  rd_method :: "('w, 'y, 'o) rest_method option"
  rd_requireJWTHeaderAuthentication :: bool
  rd_requireJWTCookieAuthentication :: bool
  rd_requiredPermissions :: "bytes set"

definition resource_new :: "('w, 'y, 'o) resource" where
  "resource_new =
     \<lparr>rd_method = None, rd_requireJWTHeaderAuthentication = True, rd_requireJWTCookieAuthentication = True, rd_requiredPermissions = {}\<rparr>"

datatype MethodMode = GET | POST | PUT | DELETE

fun methodModeToString :: "MethodMode \<Rightarrow> bytes" where
  "methodModeToString GET = ''GET''"
| "methodModeToString POST = ''POST''"
| "methodModeToString PUT = ''PUT''"
| "methodModeToString DELETE = ''DELETE''"

definition stringToMethodMode :: "bytes \<Rightarrow> MethodMode" where
  "stringToMethodMode str =
     (if str = ''GET'' then GET else if str = ''POST'' then POST else if str = ''PUT'' then PUT else if str = ''DELETE'' then DELETE else POST)"

datatype ErrorCodes = SUCCESS | INVALID_METHOD_MODE | RESOURCE_NOT_FOUND | AUTHENTICATION_REQUIRED | INSUFFICIENT_PERMISSIONS | INTERNAL_ERROR

record security_parameters =
  haveJWTAuthHeader :: bool
  haveJWTAuthCookie :: bool

definition security_getJSON :: "security_parameters \<Rightarrow> json" where
  "security_getJSON s = JObject [(''haveJWTAuthHeader'', JBool (haveJWTAuthHeader s)), (''haveJWTAuthCookie'', JBool (haveJWTAuthCookie s))]"

definition security_setJSON :: "json \<Rightarrow> security_parameters" where
  "security_setJSON j = \<lparr>haveJWTAuthHeader = JSON_ASBOOL j ''haveJWTAuthHeader'' False, haveJWTAuthCookie = JSON_ASBOOL j ''haveJWTAuthCookie'' False\<rparr>"

record ('w, 'y, 'o) rest_handler =
  m_methodsGET :: "bytes \<rightharpoonup> ('w, 'y, 'o) resource"
  m_methodsPOST :: "bytes \<rightharpoonup> ('w, 'y, 'o) resource"
  m_methodsPUT :: "bytes \<rightharpoonup> ('w, 'y, 'o) resource"
  m_methodsDELETE :: "bytes \<rightharpoonup> ('w, 'y, 'o) resource"

definition rest_handler_new :: "('w, 'y, 'o) rest_handler" where
  "rest_handler_new = \<lparr>m_methodsGET = (\<lambda>_. None), m_methodsPOST = (\<lambda>_. None), m_methodsPUT = (\<lambda>_. None), m_methodsDELETE = (\<lambda>_. None)\<rparr>"

definition addResource :: "('w, 'y, 'o) rest_handler \<Rightarrow> MethodMode \<Rightarrow> bytes \<Rightarrow> ('w, 'y, 'o) resource \<Rightarrow> ('w, 'y, 'o) rest_handler \<times> bool" where
  "addResource h mode resourceName d =
     ((case mode of
         GET \<Rightarrow> h\<lparr>m_methodsGET := (m_methodsGET h)(resourceName \<mapsto> d)\<rparr>
       | POST \<Rightarrow> h\<lparr>m_methodsPOST := (m_methodsPOST h)(resourceName \<mapsto> d)\<rparr>
       | PUT \<Rightarrow> h\<lparr>m_methodsPUT := (m_methodsPUT h)(resourceName \<mapsto> d)\<rparr>
       | DELETE \<Rightarrow> h\<lparr>m_methodsDELETE := (m_methodsDELETE h)(resourceName \<mapsto> d)\<rparr>), True)"

text \<open>The flags of the security options are the bits 1 and 2.\<close>

definition addResource_options ::
  "('w, 'y, 'o) rest_handler \<Rightarrow> MethodMode \<Rightarrow> bytes \<Rightarrow> ('w, 'y, 'o) rest_method option \<Rightarrow> nat \<Rightarrow> bytes set \<Rightarrow> ('w, 'y, 'o) rest_handler \<times> bool" where
  "addResource_options h mode resourceName method securityOptions requiredPermissions =
     addResource h mode resourceName
       \<lparr>rd_method = method, rd_requireJWTHeaderAuthentication = odd securityOptions, rd_requireJWTCookieAuthentication = odd (securityOptions div 2),
        rd_requiredPermissions = requiredPermissions\<rparr>"

definition extractClientDetails :: "('y, 'o) request_parameters \<Rightarrow> client_details" where
  "extractClientDetails p =
     (let r = rp_clientRequest p
      in \<lparr>cd_ipAddress = REMOTE_ADDR (networkClientInfo r), cd_extraData = [], cd_tlsCommonName = tlsCommonName (networkClientInfo r), cd_userAgent = userAgent r\<rparr>)"

section \<open>Calling a resource\<close>

text \<open>The reader and writers of JSON texts, and the view of a body object as a stream of JSON.\<close>

record 'o json_env =
  je_reader :: "json \<Rightarrow> bytes \<Rightarrow> json \<times> bool"
  je_writer :: "json \<Rightarrow> bytes"
  je_styled :: "json \<Rightarrow> bytes"
  je_get :: "'o \<Rightarrow> streamable_json"
  je_put :: "streamable_json \<Rightarrow> 'o \<Rightarrow> 'o"

text \<open>
  The body as input: \<open>None\<close> when parsing failed, and the present input when the request has no JSON body or its text is empty.
\<close>

definition read_input :: "'o json_env \<Rightarrow> ('y, 'o) request_parameters \<Rightarrow> (('y, 'o) request_parameters \<times> json option) result" where
  "read_input je p =
     (case getJSONStreamerContent (rp_clientRequest p) of
        Inl e \<Rightarrow> Inl e
      | Inr None \<Rightarrow> Inr (p, Some (rp_inputJSON p))
      | Inr (Some body) \<Rightarrow>
          (case sj_toString (je_writer je) (je_styled je) (je_get je body) of
             Inl e \<Rightarrow> Inl e
           | Inr (sj, text) \<Rightarrow>
               let keep = (\<lambda>sj. p\<lparr>rp_clientRequest := (rp_clientRequest p)\<lparr>req_content := (req_content (rp_clientRequest p))\<lparr>m_outStream := je_put je sj body\<rparr>\<rparr>\<rparr>)
               in if text = [] then Inr (keep sj, Some (rp_inputJSON p))
                  else (case processValue (je_reader je) sj of (sj', v) \<Rightarrow> Inr (keep sj', v))))"

definition refuse :: "'p \<Rightarrow> 'w \<Rightarrow> api_return option \<Rightarrow> nat \<Rightarrow> bytes \<Rightarrow> ErrorCodes \<Rightarrow> ('p \<times> 'w \<times> api_return option \<times> ErrorCodes) result" where
  "refuse p w apiResponse status message code =
     (case apiResponse of
        None \<Rightarrow> Inr (p, w, None, code)
      | Some r \<Rightarrow> map_sum id (\<lambda>r'. (p, w, Some r', code)) (setError r status ''invalid_invokation'' message))"

text \<open>
  The search for a resource. The result of the search in any of the four maps is compared with the end of the GET map: the end of another map is a different
  iterator in the maps of the GNU library, so that a missing resource of another mode is taken as found, with the default definition.
\<close>

definition find_resource :: "('w, 'y, 'o) rest_handler \<Rightarrow> MethodMode \<Rightarrow> bytes \<Rightarrow> ('w, 'y, 'o) resource option" where
  "find_resource h mode resourceName =
     (let or_default = (\<lambda>m. Some (case m resourceName of Some d \<Rightarrow> d | None \<Rightarrow> resource_new))
      in case mode of
           GET \<Rightarrow> m_methodsGET h resourceName
         | POST \<Rightarrow> or_default (m_methodsPOST h)
         | PUT \<Rightarrow> or_default (m_methodsPUT h)
         | DELETE \<Rightarrow> or_default (m_methodsDELETE h))"

definition invokeResource ::
  "'o json_env \<Rightarrow> ('w, 'y, 'o) rest_handler \<Rightarrow> 'w \<Rightarrow> MethodMode \<Rightarrow> bytes \<Rightarrow> ('y, 'o) request_parameters \<Rightarrow> bytes set \<Rightarrow> security_parameters
    \<Rightarrow> api_return option \<Rightarrow> (('y, 'o) request_parameters \<times> 'w \<times> api_return option \<times> ErrorCodes) result" where
  "invokeResource je h w mode resourceName p currentPermissions sec apiResponse =
     (case find_resource h mode resourceName of
        None \<Rightarrow> refuse p w apiResponse 404 ''Resource not found'' RESOURCE_NOT_FOUND
      | Some d \<Rightarrow>
          if rd_requireJWTHeaderAuthentication d \<and> \<not> haveJWTAuthHeader sec
          then refuse p w apiResponse 403 ''JWT Authentication Header Required'' AUTHENTICATION_REQUIRED
          else if rd_requireJWTCookieAuthentication d \<and> \<not> haveJWTAuthCookie sec
          then refuse p w apiResponse 403 ''JWT Authentication Cookie Required'' AUTHENTICATION_REQUIRED
          else if \<not> rd_requiredPermissions d \<subseteq> currentPermissions
          then refuse p w apiResponse 401 ''Insufficient permissions'' INSUFFICIENT_PERMISSIONS
          else
            (case read_input je p of
               Inl e \<Rightarrow> Inl e
             | Inr (p', None) \<Rightarrow>
                 (case apiResponse of
                    None \<Rightarrow> Inl (UndefinedBehaviour ''null apiResponse'')
                  | Some r \<Rightarrow> refuse (p'\<lparr>rp_inputJSON := JNull\<rparr>) w (Some r) 400 ''Bad Input JSON Parsing'' INTERNAL_ERROR)
             | Inr (p', Some input) \<Rightarrow>
                 let p'' = p'\<lparr>rp_inputJSON := input\<rparr>
                 in (case (rd_method d, apiResponse) of
                       (Some method, Some r) \<Rightarrow> (case method w r p'' (extractClientDetails p'') of (w', r') \<Rightarrow> Inr (p'', w', Some r', SUCCESS))
                     | _ \<Rightarrow> refuse p'' w apiResponse 500 ''Internal error'' INTERNAL_ERROR)))"

definition invokeResource_named ::
  "'o json_env \<Rightarrow> ('w, 'y, 'o) rest_handler \<Rightarrow> 'w \<Rightarrow> bytes \<Rightarrow> bytes \<Rightarrow> ('y, 'o) request_parameters \<Rightarrow> bytes set \<Rightarrow> security_parameters
    \<Rightarrow> api_return option \<Rightarrow> (('y, 'o) request_parameters \<times> 'w \<times> api_return option \<times> ErrorCodes) result" where
  "invokeResource_named je h w modeStr resourceName p currentPermissions sec apiResponse =
     (let invoke = (\<lambda>mode. invokeResource je h w mode resourceName p currentPermissions sec apiResponse)
      in if modeStr = ''GET'' then invoke GET
         else if modeStr = ''POST'' then invoke POST
         else if modeStr = ''PUT'' then invoke PUT
         else if modeStr = ''DELETE'' then invoke DELETE
         else refuse p w apiResponse 400 ''Invalid method mode string'' INVALID_METHOD_MODE)"

section \<open>Who may call a resource\<close>

text \<open>The resources of one mode.\<close>

definition resources :: "('w, 'y, 'o) rest_handler \<Rightarrow> MethodMode \<Rightarrow> bytes \<rightharpoonup> ('w, 'y, 'o) resource" where
  "resources h mode = (case mode of GET \<Rightarrow> m_methodsGET h | POST \<Rightarrow> m_methodsPOST h | PUT \<Rightarrow> m_methodsPUT h | DELETE \<Rightarrow> m_methodsDELETE h)"

definition may_call :: "('w, 'y, 'o) resource \<Rightarrow> bytes set \<Rightarrow> security_parameters \<Rightarrow> bool" where
  "may_call d permissions sec \<longleftrightarrow>
     (rd_requireJWTHeaderAuthentication d \<longrightarrow> haveJWTAuthHeader sec) \<and> (rd_requireJWTCookieAuthentication d \<longrightarrow> haveJWTAuthCookie sec)
     \<and> rd_requiredPermissions d \<subseteq> permissions"

lemma find_resource_method:
  assumes "find_resource h mode name = Some d" and "rd_method d = Some m"
  shows "resources h mode name = Some d"
  using assms by (auto simp: find_resource_def resources_def resource_new_def Let_def split: MethodMode.splits option.splits)

lemma refuse_keeps: "refuse p w r st msg code = Inr (p', w', r', code') \<Longrightarrow> p' = p \<and> w' = w \<and> code' = code \<and> (r = None \<longleftrightarrow> r' = None)"
  by (cases r) (auto simp: refuse_def map_sum_def split: sum.splits)

lemma read_input_keeps:
  assumes "read_input je p = Inr (p', v)"
  shows "rp_jwtToken p' = rp_jwtToken p" and "rp_pathParameters p' = rp_pathParameters p" and "extractClientDetails p' = extractClientDetails p"
  using assms by (auto simp: read_input_def extractClientDetails_def Let_def split: sum.splits option.splits if_splits prod.splits)

text \<open>What a call that does not refuse has done.\<close>

lemma invokeResource_success:
  assumes "invokeResource je h w mode name p permissions sec r = Inr (p', w', r', code)" and "code = SUCCESS \<or> w' \<noteq> w"
  shows "\<exists>d m r0. resources h mode name = Some d \<and> rd_method d = Some m \<and> may_call d permissions sec \<and> r = Some r0 \<and> code = SUCCESS
    \<and> m w r0 p' (extractClientDetails p') = (w', the r') \<and> rp_jwtToken p' = rp_jwtToken p"
proof -
  have refused: "x \<noteq> Inr (p', w', r', code)" if "x = refuse q w q' st msg c" "c \<noteq> SUCCESS" for x q q' st msg c
    using that assms(2) refuse_keeps [of q w q' st msg c p' w' r' code] by auto
  obtain d where d: "find_resource h mode name = Some d" "may_call d permissions sec"
    using assms(1) refused by (auto simp: invokeResource_def may_call_def split: option.splits if_splits)
  then have body: "(case read_input je p of
      Inl e \<Rightarrow> Inl e
    | Inr (p', None) \<Rightarrow> (case r of None \<Rightarrow> Inl (UndefinedBehaviour ''null apiResponse'')
        | Some r \<Rightarrow> refuse (p'\<lparr>rp_inputJSON := JNull\<rparr>) w (Some r) 400 ''Bad Input JSON Parsing'' INTERNAL_ERROR)
    | Inr (p', Some input) \<Rightarrow> let p'' = p'\<lparr>rp_inputJSON := input\<rparr> in (case (rd_method d, r) of
        (Some method, Some r) \<Rightarrow> (case method w r p'' (extractClientDetails p'') of (w', r') \<Rightarrow> Inr (p'', w', Some r', SUCCESS))
      | _ \<Rightarrow> refuse p'' w r 500 ''Internal error'' INTERNAL_ERROR)) = Inr (p', w', r', code)"
    using assms(1) by (auto simp: invokeResource_def may_call_def)
  then obtain q input where q: "read_input je p = Inr (q, Some input)"
    using refused by (auto split: sum.splits option.splits prod.splits)
  with body refused obtain m r0 where m: "rd_method d = Some m" "r = Some r0" "p' = q\<lparr>rp_inputJSON := input\<rparr>" "code = SUCCESS"
      "m w r0 p' (extractClientDetails p') = (w', the r')"
    by (auto simp: Let_def split: option.splits prod.splits)
  then show ?thesis using d find_resource_method [OF d(1) m(1)] read_input_keeps(1) [OF q] by auto
qed

lemma invokeResource_named_mode:
  assumes "invokeResource_named je h w modeStr name p permissions sec r = Inr (p', w', r', code)" and "code = SUCCESS \<or> w' \<noteq> w"
  shows "\<exists>mode. modeStr = methodModeToString mode \<and> invokeResource je h w mode name p permissions sec r = Inr (p', w', r', code)"
proof -
  have "methodModeToString GET = ''GET''" "methodModeToString POST = ''POST''" "methodModeToString PUT = ''PUT''" "methodModeToString DELETE = ''DELETE''"
    by simp_all
  moreover have "refuse p w r 400 ''Invalid method mode string'' INVALID_METHOD_MODE \<noteq> Inr (p', w', r', code)"
    using refuse_keeps assms(2) by fastforce
  ultimately show ?thesis using assms(1) unfolding invokeResource_named_def Let_def by (metis (full_types))
qed

text \<open>
  Calling a resource. When a call succeeds, or changes anything in the world of the application, then a resource of this name is registered for the method of
  the request, its function was run once on the request, and the caller had what the resource asks for: a verified token in the header, in the cookie, and every
  permission.
\<close>

theorem resource_call_authorised:
  assumes "invokeResource_named je h w modeStr name p permissions sec r = Inr (p', w', r', code)" and "code = SUCCESS \<or> w' \<noteq> w"
  shows "\<exists>mode d m r0. modeStr = methodModeToString mode \<and> resources h mode name = Some d \<and> rd_method d = Some m
    \<and> (rd_requireJWTHeaderAuthentication d \<longrightarrow> haveJWTAuthHeader sec) \<and> (rd_requireJWTCookieAuthentication d \<longrightarrow> haveJWTAuthCookie sec)
    \<and> rd_requiredPermissions d \<subseteq> permissions \<and> r = Some r0 \<and> code = SUCCESS \<and> m w r0 p' (extractClientDetails p') = (w', the r')"
  using invokeResource_named_mode [OF assms] invokeResource_success [of je h w _ name p permissions sec r p' w' r' code] assms(2)
  unfolding may_call_def by blast

lemma setError_new: "\<exists>r. setError api_return_new st e msg = Inr r \<and> ar_httpResponseCode r = st"
  by (simp add: setError_def api_return_new_def streamable_json_new_def)

lemma refuse_new: "\<exists>r. refuse p w (Some api_return_new) st msg code = Inr (p, w, Some r, code) \<and> ar_httpResponseCode r = st"
  using setError_new [of st "''invalid_invokation''" msg] by (auto simp: refuse_def)

text \<open>
  Resources that do not exist. A missing GET resource is answered with 404; a missing POST, PUT or DELETE resource with 403 to callers without a token in the
  header or without one in the cookie, and with 500 to callers with both.
\<close>

theorem resource_missing:
  assumes "resources h mode name = None" and "m_containerType (req_content (rp_clientRequest p)) \<noteq> CONTENT_TYPE_JSON"
  shows "\<exists>p' r code. invokeResource je h w mode name p permissions sec (Some api_return_new) = Inr (p', w, Some r, code)
    \<and> (ar_httpResponseCode r, code) =
        (if mode = GET then (404, RESOURCE_NOT_FOUND)
         else if haveJWTAuthHeader sec \<and> haveJWTAuthCookie sec then (500, INTERNAL_ERROR) else (403, AUTHENTICATION_REQUIRED))"
proof -
  have input: "read_input je p = Inr (p, Some (rp_inputJSON p))" using assms(2) by (simp add: read_input_def getJSONStreamerContent_def)
  show ?thesis
  proof (cases "mode = GET")
    case True
    then show ?thesis using assms(1) refuse_new [of p w 404 "''Resource not found''" RESOURCE_NOT_FOUND]
      by (auto simp: invokeResource_def find_resource_def resources_def)
  next
    case False
    then have "find_resource h mode name = Some resource_new"
      using assms(1) by (cases mode) (simp_all add: find_resource_def resources_def)
    then obtain d where d: "find_resource h mode name = Some d" "rd_requireJWTHeaderAuthentication d" "rd_requireJWTCookieAuthentication d"
      "rd_requiredPermissions d = {}" "rd_method d = None"
      using that [of resource_new] by (simp add: resource_new_def)
    consider "\<not> haveJWTAuthHeader sec" | "haveJWTAuthHeader sec" "\<not> haveJWTAuthCookie sec" | "haveJWTAuthHeader sec" "haveJWTAuthCookie sec" by blast
    then show ?thesis
    proof cases
      case 1
      then show ?thesis using False d refuse_new [of p w 403 "''JWT Authentication Header Required''" AUTHENTICATION_REQUIRED] by (auto simp: invokeResource_def)
    next
      case 2
      then show ?thesis using False d refuse_new [of p w 403 "''JWT Authentication Cookie Required''" AUTHENTICATION_REQUIRED] by (auto simp: invokeResource_def)
    next
      case 3
      then show ?thesis using False d input refuse_new [of p w 500 "''Internal error''" INTERNAL_ERROR] by (auto simp: invokeResource_def)
    qed
  qed
qed

section \<open>Concrete cases\<close>

definition example_je :: "streamable_json json_env" where
  "example_je = \<lparr>je_reader = example_reader, je_writer = example_writer, je_styled = example_writer, je_get = id, je_put = (\<lambda>s _. s)\<rparr>"

definition example_request :: "(b_mem_fields, streamable_json) request_parameters" where
  "example_request = request_parameters_new (http_request_new (chunks_vt mem_vt (\<lambda>_. None)) (\<lambda>_. streamable_json_new))"

lemma example_request_type: "m_containerType (req_content (rp_clientRequest example_request)) \<noteq> CONTENT_TYPE_JSON"
  by (simp add: example_request_def request_parameters_new_def http_request_new_def content_new_def subparser.defs)

definition example_resource :: "(nat, b_mem_fields, streamable_json) resource" where
  "example_resource = \<lparr>rd_method = Some (\<lambda>w r p c. (w + 1, r)), rd_requireJWTHeaderAuthentication = True, rd_requireJWTCookieAuthentication = False,
     rd_requiredPermissions = {''write''}\<rparr>"

definition example_rest :: "(nat, b_mem_fields, streamable_json) rest_handler" where
  "example_rest = fst (addResource rest_handler_new POST ''items'' example_resource)"

lemma example_call:
  "invokeResource_named example_je example_rest 0 ''POST'' ''items'' example_request {''write''} \<lparr>haveJWTAuthHeader = True, haveJWTAuthCookie = False\<rparr> (Some api_return_new)
    = Inr (example_request, 1, Some api_return_new, SUCCESS)"
  using example_request_type
  by (simp add: invokeResource_named_def invokeResource_def find_resource_def example_rest_def addResource_def rest_handler_new_def example_resource_def read_input_def
      getJSONStreamerContent_def)

theorem resource_call_authorised_witness:
  "\<exists>mode d. ''POST'' = methodModeToString mode \<and> resources example_rest mode ''items'' = Some d \<and> rd_requiredPermissions d \<subseteq> {''write''}"
  using resource_call_authorised [OF example_call] by auto

theorem resource_missing_witness:
  "\<exists>p' r code. invokeResource example_je example_rest 0 PUT ''items'' example_request {} \<lparr>haveJWTAuthHeader = False, haveJWTAuthCookie = False\<rparr> (Some api_return_new)
      = Inr (p', 0, Some r, code) \<and> ar_httpResponseCode r = 403"
  using resource_missing [OF _ example_request_type, of example_rest PUT "''items''" example_je 0 "{}" "\<lparr>haveJWTAuthHeader = False, haveJWTAuthCookie = False\<rparr>"]
  by (auto simp: resources_def example_rest_def addResource_def rest_handler_new_def)

end
