(* ===== verification/HTMLIEngine.thy ===== *)
theory HTMLIEngine
  imports JSON HTTPBase
begin

text \<open>
  The engine that completes HTML and script files on their way to the client (\<^verbatim>\<open>src/Mantids30/Server_WebCore/htmliengine.cpp\<close>): tags that
  include other files and tags that stand for variables of the session, the request or a function of the API. The regular expressions of the tags are written out
  as matchers: none of them leaves the matcher a choice. The handler of the client is reached through the operations of \<open>htmli_vt\<close>.
\<close>

section \<open>Replacing text\<close>

text \<open>\<^verbatim>\<open>boost::replace_all\<close> is that of \<open>MIMEHeader\<close>.\<close>

definition replaceByJVar :: "(json \<Rightarrow> bytes) \<Rightarrow> json \<Rightarrow> bytes \<Rightarrow> bool \<Rightarrow> bytes" where
  "replaceByJVar writer value scriptVarName useHTMLFrame =
     (let str = replace_all ''>'' [CHR 0x5C, CHR ''>''] (replace_all ''<'' [CHR 0x5C, CHR ''<''] (filter (\<lambda>c. c \<noteq> CHR 0x0A) (writer value)))
      in if scriptVarName = [] then str
         else if useHTMLFrame then ''<script>'' @ [CHR 0x0A] @ ''const '' @ scriptVarName @ '' = '' @ str @ '';'' @ [CHR 0x0A] @ ''</script>''
         else ''const '' @ scriptVarName @ '' = '' @ str @ '';'' @ [CHR 0x0A])"

section \<open>Tags of variables\<close>

definition is_command :: "char \<Rightarrow> bool" where
  "is_command c \<longleftrightarrow> is_alpha c \<or> c = CHR ''/''"

text \<open>
  A tag at the front of a text: the opening mark, a j of either case, the command, a colon, blanks, the value up to the first percent sign, and the closing mark.
  The result is the command, the value and the text behind the tag.
\<close>

definition jtag_at :: "bytes \<Rightarrow> bytes \<Rightarrow> bytes \<Rightarrow> (bytes \<times> bytes \<times> bytes) option" where
  "jtag_at open close s =
     (if \<not> starts_with s open then None
      else case drop (length open) s of
             [] \<Rightarrow> None
           | j # s1 \<Rightarrow>
               let command = takeWhile is_command s1
               in if (j \<noteq> CHR ''j'' \<and> j \<noteq> CHR ''J'') \<or> command = [] then None
                  else case dropWhile is_command s1 of
                         [] \<Rightarrow> None
                       | colon # s2 \<Rightarrow>
                           let s3 = dropWhile (\<lambda>c. c = CHR '' '') s2; value = takeWhile (\<lambda>c. c \<noteq> CHR ''%'') s3; s4 = dropWhile (\<lambda>c. c \<noteq> CHR ''%'') s3
                           in if colon = CHR '':'' \<and> starts_with s4 close then Some (command, value, drop (length close) s4) else None)"

text \<open>The first tag of a text, with what is before and behind it.\<close>

fun jtag_search :: "bytes \<Rightarrow> bytes \<Rightarrow> bytes \<Rightarrow> (bytes \<times> bytes \<times> bytes \<times> bytes) option" where
  "jtag_search open close [] = None"
| "jtag_search open close (c # s) =
     (case jtag_at open close (c # s) of
        Some (command, value, post) \<Rightarrow> Some ([], command, value, post)
      | None \<Rightarrow> map_option (\<lambda>(pre, command, value, post). (c # pre, command, value, post)) (jtag_search open close s))"

lemma jtag_at_shorter:
  assumes "jtag_at open close s = Some (command, value, post)"
  shows "length post < length s"
proof -
  obtain j s1 colon s2 where s: "drop (length open) s = j # s1" "dropWhile is_command s1 = colon # s2"
      "post = drop (length close) (dropWhile (\<lambda>c. c \<noteq> CHR ''%'') (dropWhile (\<lambda>c. c = CHR '' '') s2))"
    using assms by (auto simp: jtag_at_def Let_def split: if_splits list.splits)
  have "length post \<le> length s2" unfolding s(3)
    by (metis length_drop length_dropWhile_le diff_le_self order_trans)
  moreover have "length s2 < length s1" using length_dropWhile_le [of is_command s1] s(2) by simp
  moreover have "length s1 < length s" using arg_cong [OF s(1), of length] by simp
  ultimately show ?thesis by simp
qed

lemma jtag_search_shorter: "jtag_search open close s = Some (pre, command, value, post) \<Longrightarrow> length post < length s"
  by (induction s arbitrary: pre) (auto split: option.splits dest!: jtag_at_shorter)

text \<open>
  \<^verbatim>\<open>iProcResource_JProcessor\<close>: every tag is replaced in place, from the left to the right, and the search goes on behind the text that was put in.
\<close>

function j_process :: "('h \<Rightarrow> bytes \<Rightarrow> bytes \<Rightarrow> ('h \<times> bytes) result) \<Rightarrow> bytes \<Rightarrow> bytes \<Rightarrow> 'h \<Rightarrow> bytes \<Rightarrow> ('h \<times> bytes) result" where
  "j_process replace open close h input =
     (case jtag_search open close input of
        None \<Rightarrow> Inr (h, input)
      | Some (pre, command, value, post) \<Rightarrow>
          (case replace h command value of
             Inl e \<Rightarrow> Inl e
           | Inr (h', replacedBy) \<Rightarrow> map_sum id (\<lambda>(h'', rest). (h'', pre @ replacedBy @ rest)) (j_process replace open close h' post)))"
  by pat_completeness auto
termination by (relation "measure (\<lambda>(replace, open, close, h, input). length input)") (auto dest!: jtag_search_shorter)

declare j_process.simps [simp del]

definition html_open :: bytes where "html_open = ''<!--<%''"
definition html_close :: bytes where "html_close = ''%>-->''"
definition js_open :: bytes where "js_open = ''//<%''"
definition js_close :: bytes where "js_close = ''%>//''"

section \<open>What the tags stand for\<close>

text \<open>
  The client handler: the variables it fills in (\<open>hv_jVars\<close>), those of the session and of the request, the call of an API function, given by its
  version, method and name, with the answer as JSON, and the protocol of errors is left out. \<open>hv_reader\<close> and \<open>hv_writer\<close> are the JSON texts.
\<close>

record 'h htmli_vt =
  hv_jVars :: "'h \<Rightarrow> json result"
  hv_doesSessionVariableExist :: "'h \<Rightarrow> bytes \<Rightarrow> bool result"
  hv_getSessionVariableValue :: "'h \<Rightarrow> bytes \<Rightarrow> json result"
  hv_getVar :: "'h \<Rightarrow> bytes \<Rightarrow> bytes option result"
  hv_postVar :: "'h \<Rightarrow> bytes \<Rightarrow> bytes option result"
  hv_handleAPIRequest :: "'h \<Rightarrow> nat \<Rightarrow> bytes \<Rightarrow> bytes \<Rightarrow> json \<Rightarrow> ('h \<times> json) result"
  hv_reader :: "json \<Rightarrow> bytes \<Rightarrow> json \<times> bool"
  hv_writer :: "json \<Rightarrow> bytes"

text \<open>\<^verbatim>\<open>getTValue<std::string>\<close>: a value that is not one word becomes empty.\<close>

definition getTValue_string :: "bytes \<Rightarrow> bytes" where
  "getTValue_string v = (case next_word v of (word, rest) \<Rightarrow> if word \<noteq> [] \<and> rest = [] then word else [])"

definition jsessvar :: "'h htmli_vt \<Rightarrow> 'h \<Rightarrow> bytes \<Rightarrow> bytes \<Rightarrow> bool \<Rightarrow> bytes result" where
  "jsessvar vt h scriptVarName varName frame =
     (case hv_doesSessionVariableExist vt h varName of
        Inl e \<Rightarrow> Inl e
      | Inr False \<Rightarrow> Inr (replaceByJVar (hv_writer vt) JNull scriptVarName frame)
      | Inr True \<Rightarrow> map_sum id (\<lambda>v. replaceByJVar (hv_writer vt) v scriptVarName frame) (hv_getSessionVariableValue vt h varName))"

definition jvar :: "'h htmli_vt \<Rightarrow> 'h \<Rightarrow> bytes \<Rightarrow> bytes \<Rightarrow> bool \<Rightarrow> bytes result" where
  "jvar vt h scriptVarName varName frame =
     (case hv_jVars vt h of
        Inl e \<Rightarrow> Inl e
      | Inr jVars \<Rightarrow>
          (case hv_doesSessionVariableExist vt h varName of
             Inl e \<Rightarrow> Inl e
           | Inr isSessionVar \<Rightarrow>
               (case isMember jVars varName of
                  Inl e \<Rightarrow> Inl e
                | Inr isJVar \<Rightarrow>
                    map_sum id (\<lambda>v. replaceByJVar (hv_writer vt) v scriptVarName frame)
                      (if isJVar then json_get jVars varName
                       else if isSessionVar then hv_getSessionVariableValue vt h varName
                       else Inr JNull))))"

definition request_var :: "'h htmli_vt \<Rightarrow> bytes option result \<Rightarrow> bytes \<Rightarrow> bool \<Rightarrow> bytes result" where
  "request_var vt value scriptVarName frame =
     map_sum id (\<lambda>v. replaceByJVar (hv_writer vt) (case v of Some v \<Rightarrow> JString (getTValue_string v) | None \<Rightarrow> JNull) scriptVarName frame) value"

definition line_end :: "char \<Rightarrow> bool" where
  "line_end c \<longleftrightarrow> c = CHR 0x0A \<or> c = CHR 0x0D"

text \<open>The pattern \<^verbatim>\<open>^([^/]+)/v([^/]+)/(.+)$\<close> of a function with method and version.\<close>

definition split_function :: "bytes \<Rightarrow> (bytes \<times> bytes \<times> bytes) option" where
  "split_function f =
     (let mode = takeWhile (\<lambda>c. c \<noteq> CHR ''/'') f; s1 = dropWhile (\<lambda>c. c \<noteq> CHR ''/'') f;
          version = takeWhile (\<lambda>c. c \<noteq> CHR ''/'') (drop 2 s1); s2 = dropWhile (\<lambda>c. c \<noteq> CHR ''/'') (drop 2 s1); name = tl s2
      in if mode \<noteq> [] \<and> starts_with s1 ''/v'' \<and> version \<noteq> [] \<and> s2 \<noteq> [] \<and> name \<noteq> [] \<and> \<not> list_ex line_end name
         then Some (mode, version, name) else None)"

definition procJAPI_Exec :: "'h htmli_vt \<Rightarrow> 'h \<Rightarrow> bytes \<Rightarrow> bytes \<Rightarrow> ('h \<times> json) result" where
  "procJAPI_Exec vt h functionName functionInput =
     (let vars = fst (hv_reader vt JNull functionInput)
      in case split_function functionName of
           Some (mode, version, name) \<Rightarrow> hv_handleAPIRequest vt h (strtoul version mod 2 ^ 32) mode name vars
         | None \<Rightarrow> hv_handleAPIRequest vt h 1 ''POST'' functionName vars)"

text \<open>The pattern \<^verbatim>\<open>([^\(]+)\(([^\)]*)\)\<close> of a call, searched in the definition of the function.\<close>

definition split_call :: "bytes \<Rightarrow> (bytes \<times> bytes) option" where
  "split_call f =
     (let s1 = dropWhile (\<lambda>c. c = CHR ''('') f; name = takeWhile (\<lambda>c. c \<noteq> CHR ''('') s1; s2 = dropWhile (\<lambda>c. c \<noteq> CHR ''('') s1;
          input = takeWhile (\<lambda>c. c \<noteq> CHR '')'') (tl s2)
      in if name \<noteq> [] \<and> s2 \<noteq> [] \<and> CHR '')'' \<in> set (tl s2) then Some (name, input) else None)"

definition jfunc :: "'h htmli_vt \<Rightarrow> 'h \<Rightarrow> bytes \<Rightarrow> bytes \<Rightarrow> bool \<Rightarrow> ('h \<times> bytes) result" where
  "jfunc vt h scriptVarName functionDef frame =
     (case split_call functionDef of
        Some (name, input) \<Rightarrow>
          map_sum id (\<lambda>(h', v). (h', replaceByJVar (hv_writer vt) v scriptVarName frame)) (procJAPI_Exec vt h name (replaceHexCodes input))
      | None \<Rightarrow> Inr (h, replaceByJVar (hv_writer vt) JNull scriptVarName frame))"

text \<open>The text for one tag; the C string of the command is used for the name of the script variable.\<close>

definition j_replacement :: "'h htmli_vt \<Rightarrow> bool \<Rightarrow> 'h \<Rightarrow> bytes \<Rightarrow> bytes \<Rightarrow> ('h \<times> bytes) result" where
  "j_replacement vt frame h command value =
     (let same = map_sum id (Pair h)
      in if istarts_with command ''VAR/'' then same (jvar vt h (drop 4 command) value frame)
         else if istarts_with command ''GETVAR/'' then same (request_var vt (hv_getVar vt h value) (drop 7 command) frame)
         else if istarts_with command ''POSTVAR/'' then same (request_var vt (hv_postVar vt h value) (drop 8 command) frame)
         else if istarts_with command ''FUNC/'' then jfunc vt h (drop 5 command) value frame
         else if istarts_with command ''SESS/'' then same (jsessvar vt h (drop 5 command) value frame)
         else Inr (h, ''null''))"

definition procResource_JProcessor :: "'h htmli_vt \<Rightarrow> 'h \<Rightarrow> bytes \<Rightarrow> ('h \<times> bytes) result" where
  "procResource_JProcessor vt h input =
     (case j_process (j_replacement vt False) js_open js_close h input of
        Inl e \<Rightarrow> Inl e
      | Inr (h', input') \<Rightarrow> j_process (j_replacement vt True) html_open html_close h' input')"

section \<open>Included files\<close>

text \<open>
  A tag that includes a file, at the front of a text: the opening mark with an optional percent sign, the word include in any case, the name of the script tag up to
  the colon, blanks, the path up to the first percent sign, and the closing mark. The path takes one of the blanks when there is nothing else. The result is the length
  of the tag, the name and the path. The pattern for scripts is never used, because the content type is compared with a misspelt name and has been cleared before.
\<close>

definition include_at :: "bytes \<Rightarrow> (nat \<times> bytes \<times> bytes) option" where
  "include_at s =
     (if \<not> starts_with s ''<!--<'' then None
      else
        let s1 = drop 6 s; s2 = (if s1 \<noteq> [] \<and> hd s1 = CHR ''%'' then tl s1 else s1); s3 = drop 7 s2
        in if \<not> istarts_with s2 ''include'' then None
           else
             let tag = takeWhile (\<lambda>c. c \<noteq> CHR '':'') s3; s4 = dropWhile (\<lambda>c. c \<noteq> CHR '':'') s3;
                 s5 = dropWhile (\<lambda>c. c = CHR '' '') (tl s4);
                 path = (if s5 \<noteq> [] \<and> hd s5 = CHR ''%'' \<and> length s5 < length (tl s4) then '' '' else takeWhile (\<lambda>c. c \<noteq> CHR ''%'') s5);
                 s6 = dropWhile (\<lambda>c. c \<noteq> CHR ''%'') s5
             in if s4 \<noteq> [] \<and> path \<noteq> [] \<and> starts_with s6 html_close then Some (length s - length (drop (length html_close) s6), tag, path) else None)"

fun include_search :: "bytes \<Rightarrow> (bytes \<times> bytes \<times> bytes) option" where
  "include_search [] = None"
| "include_search (c # s) =
     (case include_at (c # s) of Some (n, tag, path) \<Rightarrow> Some (take n (c # s), tag, path) | None \<Rightarrow> include_search s)"

text \<open>What replaces a tag; \<open>files\<close> gives the content of the files that can be opened.\<close>

definition include_replacement :: "(bytes \<Rightarrow> bytes option) \<Rightarrow> bytes \<Rightarrow> bytes \<Rightarrow> bytes \<Rightarrow> bytes" where
  "include_replacement files documentRoot tag path =
     (case files (documentRoot @ path) of
        Some content \<Rightarrow>
          if length tag > 1 \<and> hd tag = CHR ''/'' then ''<'' @ tl tag @ ''>'' @ content @ ''</'' @ tl tag @ ''>'' else content
      | None \<Rightarrow> ''<!-- HTMLI ENGINE ERROR (FILE NOT FOUND): '' @ path @ '' -->'')"

text \<open>
  \<^verbatim>\<open>iProcResource_HTMLIEngineInclude\<close>: all copies of the first tag are replaced and the whole text is searched again, which may go on for ever.
\<close>

partial_function (option) include_loop :: "(bytes \<Rightarrow> bytes option) \<Rightarrow> bytes \<Rightarrow> bytes \<Rightarrow> bytes option" where
  "include_loop files documentRoot fileContent =
     (case include_search fileContent of
        None \<Rightarrow> Some fileContent
      | Some (fulltag, tag, path) \<Rightarrow>
          include_loop files documentRoot (replace_all fulltag (include_replacement files documentRoot tag path) fileContent))"

definition htmli_content :: "'h htmli_vt \<Rightarrow> (bytes \<Rightarrow> bytes option) \<Rightarrow> bytes \<Rightarrow> 'h \<Rightarrow> bytes \<Rightarrow> ('h \<times> bytes) result option" where
  "htmli_content vt files documentRoot h fileContent =
     map_option (procResource_JProcessor vt h) (include_loop files documentRoot fileContent)"

section \<open>Plain files and files that include themselves\<close>

lemma jtag_search_none: "\<forall>n\<le>length s. jtag_at open close (drop n s) = None \<Longrightarrow> jtag_search open close s = None"
proof (induction s)
  case (Cons c s)
  have "\<forall>n\<le>length s. jtag_at open close (drop n s) = None" using Cons.prems by (metis drop_Suc_Cons Suc_le_mono length_Cons)
  moreover have "jtag_at open close (c # s) = None" using Cons.prems by (metis drop0 le0)
  ultimately show ?case using Cons.IH by simp
qed simp

lemma starts_with_mem: "starts_with s p \<Longrightarrow> set p \<subseteq> set s"
  unfolding starts_with_def by (metis set_take_subset)

lemma no_jtag: "CHR ''%'' \<notin> set s \<Longrightarrow> CHR ''%'' \<in> set open \<Longrightarrow> jtag_search open close s = None"
  by (rule jtag_search_none) (auto simp: jtag_at_def dest!: starts_with_mem dest: in_set_dropD)

lemma tl_mem: "x \<in> set (tl xs) \<Longrightarrow> x \<in> set xs"
  by (cases xs) auto

lemma behind_mem: "set (dropWhile P (dropWhile Q (tl (dropWhile R (drop n xs))))) \<subseteq> set xs"
  by (auto dest!: set_dropWhileD tl_mem in_set_dropD)

lemma skip_mem: "set (if c then tl (drop n xs) else drop n xs) \<subseteq> set xs"
  by (auto dest!: tl_mem in_set_dropD)

lemma include_at_close:
  assumes "include_at s \<noteq> None"
  shows "\<exists>r. set r \<subseteq> set s \<and> starts_with r html_close"
proof -
  let ?s2 = "if drop 6 s \<noteq> [] \<and> hd (drop 6 s) = CHR ''%'' then tl (drop 6 s) else drop 6 s"
  let ?r = "dropWhile (\<lambda>c. c \<noteq> CHR ''%'') (dropWhile (\<lambda>c. c = CHR '' '') (tl (dropWhile (\<lambda>c. c \<noteq> CHR '':'') (drop 7 ?s2))))"
  have "set ?r \<subseteq> set s" using behind_mem [of _ _ _ 7 ?s2] skip_mem by (rule order_trans)
  moreover have "starts_with ?r html_close" using assms unfolding include_at_def Let_def by meson
  ultimately show ?thesis by blast
qed

lemma no_include: "CHR ''%'' \<notin> set s \<Longrightarrow> include_search s = None"
proof (induction s)
  case (Cons c s)
  have "include_at (c # s) = None"
  proof (rule ccontr)
    assume "include_at (c # s) \<noteq> None"
    then obtain r where "set r \<subseteq> set (c # s)" "starts_with r html_close" using include_at_close by blast
    then show False using Cons.prems starts_with_mem [of r html_close] by (auto simp: html_close_def)
  qed
  then show ?case using Cons by simp
qed simp

text \<open>
  Files without tags. A text that has no percent sign reaches the client unchanged, and neither the session nor the API is asked for anything.
\<close>

theorem htmli_plain:
  assumes "CHR ''%'' \<notin> set text"
  shows "htmli_content vt files documentRoot h text = Some (Inr (h, text))"
proof -
  have "jtag_search js_open js_close text = None" "jtag_search html_open html_close text = None"
    by (rule no_jtag [OF assms], simp add: js_open_def html_open_def)+
  moreover have "include_loop files documentRoot text = Some text" by (subst include_loop.simps) (simp add: no_include [OF assms])
  ultimately show ?thesis by (simp add: htmli_content_def procResource_JProcessor_def j_process.simps)
qed

lemma replace_all_self: "needle \<noteq> [] \<Longrightarrow> replace_all needle by needle = by"
  by (cases needle) (simp_all add: starts_with_def replace_all.simps)

text \<open>A text that is a tag whose file is that text again.\<close>

definition includes_itself :: "(bytes \<Rightarrow> bytes option) \<Rightarrow> bytes \<Rightarrow> bytes \<Rightarrow> bool" where
  "includes_itself files documentRoot s \<longleftrightarrow> (\<exists>tag path. include_search s = Some (s, tag, path) \<and> include_replacement files documentRoot tag path = s)"

lemma include_loop_cycle: "include_loop files documentRoot s = Some r \<Longrightarrow> \<not> includes_itself files documentRoot s"
proof (rule include_loop.raw_induct [of "\<lambda>files documentRoot s r. \<not> includes_itself files documentRoot s"])
  fix f and files :: "bytes \<Rightarrow> bytes option" and documentRoot s r :: bytes
  assume ih: "\<And>files documentRoot s r. f files documentRoot s = Some r \<Longrightarrow> \<not> includes_itself files documentRoot s"
    and eq: "(case include_search s of
        None \<Rightarrow> Some s
      | Some (fulltag, tag, path) \<Rightarrow> f files documentRoot (replace_all fulltag (include_replacement files documentRoot tag path) s)) = Some r"
  show "\<not> includes_itself files documentRoot s"
  proof
    assume c: "includes_itself files documentRoot s"
    then obtain tag path where t: "include_search s = Some (s, tag, path)" "include_replacement files documentRoot tag path = s"
      by (auto simp: includes_itself_def)
    moreover have "s \<noteq> []" using t(1) by auto
    ultimately have "f files documentRoot s = Some r" using eq by (simp add: replace_all_self)
    then show False using ih c by blast
  qed
qed

definition include_tag :: "bytes \<Rightarrow> bytes" where
  "include_tag path = ''<!--<%include:'' @ path @ ''%>-->''"

lemma include_tag_found:
  assumes "path \<noteq> []" and "CHR ''%'' \<notin> set path" and "hd path \<noteq> CHR '' ''"
  shows "include_search (include_tag path) = Some (include_tag path, [], path)"
proof -
  obtain c p where p: "path = c # p" using assms(1) by (cases path) auto
  have c: "takeWhile (\<lambda>c. c \<noteq> CHR ''%'') (p @ ''%>-->'') = p" "dropWhile (\<lambda>c. c \<noteq> CHR ''%'') (p @ ''%>-->'') = ''%>-->''"
    using assms(2) by (simp_all add: p takeWhile_append dropWhile_append)
  have "include_at (include_tag path) = Some (length (include_tag path), [], path)"
    using assms c by (auto simp: p include_at_def include_tag_def starts_with_def istarts_with_def html_close_def Let_def iequals_def)
  then show ?thesis by (simp add: include_tag_def)
qed

text \<open>
  C37. A file that includes itself. When a page consists of a tag that includes a file, and that file consists of the same tag, the request is never answered: the
  tag is replaced by itself for ever.
\<close>

theorem htmli_include_hangs:
  assumes "path \<noteq> []" and "CHR ''%'' \<notin> set path" and "hd path \<noteq> CHR '' ''" and "files (documentRoot @ path) = Some (include_tag path)"
  shows "htmli_content vt files documentRoot h (include_tag path) = None"
proof -
  have "includes_itself files documentRoot (include_tag path)"
    using include_tag_found [OF assms(1-3)] assms(4) by (simp add: includes_itself_def include_replacement_def)
  then have "include_loop files documentRoot (include_tag path) = None"
    using include_loop_cycle by (cases "include_loop files documentRoot (include_tag path)") auto
  then show ?thesis by (simp add: htmli_content_def)
qed

theorem htmli_plain_witness:
  "\<forall>(vt :: nat htmli_vt) h. htmli_content vt (\<lambda>_. None) ''/srv'' h ''<p>hello</p>'' = Some (Inr (h, ''<p>hello</p>''))"
  by (intro allI htmli_plain) simp

theorem htmli_include_hangs_witness:
  "\<forall>(vt :: nat htmli_vt) h. htmli_content vt (\<lambda>_. Some (include_tag ''/a.html'')) ''/srv'' h (include_tag ''/a.html'') = None"
  by (intro allI htmli_include_hangs) simp_all

end
