(* ===== verification/WebCore.thy ===== *)
theory WebCore
  imports APIMethods JWT RESTful HTMLIEngine HTTPServer
begin

text \<open>
  The handler of a client of a web server with an API (\<^verbatim>\<open>src/Mantids30/Server_WebCore/apiclienthandler.cpp\<close>): what is common to the
  servers of both kinds of API. It answers a request with the result of an API function, with a file, or with a page of its own. The functions that a kind of server
  overrides are the operations of \<open>web_vt\<close>; \<open>'w\<close> is everything that requests share, such as the data of the application.
\<close>

section \<open>Environment, configuration and state\<close>

text \<open>
  Time, random generator and file system, the codecs and JSON texts, and the conversions between the objects that carry a body, of type \<open>'o\<close>, and the streams
  of text and of JSON that they are made from.
\<close>

record ('y, 'o) web_env =
  we_now :: int
  we_rand :: "bytes option"
  we_mk :: "eDataType \<Rightarrow> 'o"
  we_date :: "int \<Rightarrow> bytes"
  we_fs :: "'o filesystem"
  we_files :: "bytes \<Rightarrow> bytes option"
  we_json :: "'o json_env"
  we_io :: "'o streamable"
  we_mk_text :: "bytes \<Rightarrow> 'o"
  we_mk_json :: "streamable_json \<Rightarrow> 'o"
  we_mem_text :: "'o \<Rightarrow> bytes"
  we_postVar :: "'o \<Rightarrow> bytes \<Rightarrow> bytes option"
  we_cvt :: "'y chunks_vt"
  we_bio_encode :: "bytes \<Rightarrow> bytes"
  we_regex_match :: "bytes \<Rightarrow> bytes \<Rightarrow> bool"

text \<open>A dynamic request handler gets the rest of the path, the request and the response.\<close>

type_synonym ('y, 'o, 'w) dynamic_handler =
  "bytes \<Rightarrow> ('y, 'o) http_request \<Rightarrow> ('y, 'o) http_response \<Rightarrow> 'w \<Rightarrow> ('y, 'o) http_request \<times> ('y, 'o) http_response \<times> 'w \<times> nat"

record ('y, 'o, 'w) web_config =
  dynamicTokenValidator :: "(bytes \<Rightarrow> bytes \<Rightarrow> token \<Rightarrow> token \<times> bool) option"
  dynamicOriginValidator :: "(bytes \<Rightarrow> bytes \<Rightarrow> bool) option"
  redirections :: "bytes \<rightharpoonup> bytes"
  resourceFilter :: "resource_filter list option"
  permittedLoginOrigins :: "bytes set"
  callbackAPIMethodName :: bytes
  useFormattedJSONOutput :: bool
  useHTMLIEngine :: bool
  APIURLs :: "bytes set"
  appName :: bytes
  softwareVersion :: bytes
  redirectPathOn404 :: bytes
  permittedAPIOrigins :: "bytes set"
  webServerName :: bytes
  documentRootPath :: bytes
  dynamicRequestHandlersByRoute :: "(bytes \<times> ('y, 'o, 'w) dynamic_handler) list"

definition web_config_new :: "('y, 'o, 'w) web_config" where
  "web_config_new =
     \<lparr>dynamicTokenValidator = None, dynamicOriginValidator = None, redirections = (\<lambda>_. None), resourceFilter = None, permittedLoginOrigins = {},
      callbackAPIMethodName = ''callback'', useFormattedJSONOutput = True, useHTMLIEngine = True, APIURLs = {''/api''}, appName = [], softwareVersion = [],
      redirectPathOn404 = ''/'', permittedAPIOrigins = {}, webServerName = [], documentRootPath = [], dynamicRequestHandlersByRoute = []\<rparr>"

definition setSoftwareVersion :: "('y, 'o, 'w) web_config \<Rightarrow> nat \<Rightarrow> nat \<Rightarrow> nat \<Rightarrow> bytes \<Rightarrow> ('y, 'o, 'w) web_config" where
  "setSoftwareVersion c major minor subminor subText =
     c\<lparr>softwareVersion := dec major @ ''.'' @ dec minor @ ''.'' @ dec subminor @ (if subText = [] then [] else '' '' @ subText)\<rparr>"

record session_info =
  si_authSession :: "session option"
  si_halfSessionId :: bytes
  si_sessionId :: bytes
  si_isImpersonation :: bool

record ('y, 'o, 'u) web_client =
  wc_server :: "('y, 'o, 'u) http_server"
  wc_JWTToken :: token
  wc_currentSessionInfo :: session_info

record ('c, 'w) web_vt =
  wv_sessionStart :: "'c \<Rightarrow> 'w \<Rightarrow> ('c \<times> 'w \<times> nat) result"
  wv_sessionCleanup :: "'c \<Rightarrow> 'w \<Rightarrow> ('c \<times> 'w) result"
  wv_fillSessionExtraInfo :: "'c \<Rightarrow> json \<Rightarrow> json result"
  wv_doesSessionVariableExist :: "'c \<Rightarrow> bytes \<Rightarrow> bool result"
  wv_getSessionVariableValue :: "'c \<Rightarrow> bytes \<Rightarrow> json result"
  wv_handleAPIRequest :: "'c \<Rightarrow> 'w \<Rightarrow> api_return \<Rightarrow> bytes \<Rightarrow> nat \<Rightarrow> bytes \<Rightarrow> bytes \<Rightarrow> json \<Rightarrow> json \<Rightarrow> ('c \<times> 'w \<times> api_return) result"
  wv_handleAuthFunctions :: "'c \<Rightarrow> 'w \<Rightarrow> bytes \<Rightarrow> bytes \<Rightarrow> ('c \<times> 'w \<times> nat) result"
  wv_handleAPIInfo :: "bytes \<Rightarrow> json"
  wv_isSessionActive :: "'c \<Rightarrow> bool"
  wv_getSessionPermissions :: "'c \<Rightarrow> bytes set result"
  wv_getSessionRoles :: "'c \<Rightarrow> bytes set result"

abbreviation wc_request :: "('y, 'o, 'u, 'z) web_client_scheme \<Rightarrow> ('y, 'o) http_request" where
  "wc_request c \<equiv> clientRequest (wc_server c)"

abbreviation wc_response :: "('y, 'o, 'u, 'z) web_client_scheme \<Rightarrow> ('y, 'o) http_response" where
  "wc_response c \<equiv> serverResponse (wc_server c)"

definition set_response :: "('y, 'o, 'u, 'z) web_client_scheme \<Rightarrow> ('y, 'o) http_response \<Rightarrow> ('y, 'o, 'u, 'z) web_client_scheme" where
  "set_response c r = c\<lparr>wc_server := (wc_server c)\<lparr>serverResponse := r\<rparr>\<rparr>"

section \<open>Paths and versions\<close>

text \<open>\<^verbatim>\<open>boost::tokenizer\<close> with a separator: empty tokens are dropped.\<close>

definition path_tokens :: "bytes \<Rightarrow> bytes list" where
  "path_tokens request = filter (\<lambda>t. t \<noteq> []) (split_compress (\<lambda>c. c = CHR ''/'') request)"

fun path_pairs :: "bytes list \<Rightarrow> json \<Rightarrow> json result" where
  "path_pairs [] j = Inr j"
| "path_pairs [key] j = json_set j key JNull"
| "path_pairs (key # value # ts) j = (case json_set j key (JString value) of Inl e \<Rightarrow> Inl e | Inr j' \<Rightarrow> path_pairs ts j')"

definition processPathParameters :: "bytes \<Rightarrow> bytes \<Rightarrow> json \<Rightarrow> (bytes \<times> json) result" where
  "processPathParameters request methodName pathParameters =
     (case path_tokens request of
        [] \<Rightarrow> Inr (methodName, pathParameters)
      | t # ts \<Rightarrow> map_sum id (Pair t) (path_pairs ts pathParameters))"

text \<open>\<^verbatim>\<open>boost::lexical_cast<int>\<close>: an optional sign and digits, in 32 bits.\<close>

definition lexical_cast_int :: "bytes \<Rightarrow> int option" where
  "lexical_cast_int s =
     (let neg = (s \<noteq> [] \<and> hd s = CHR ''-''); ds = (if s \<noteq> [] \<and> (hd s = CHR ''-'' \<or> hd s = CHR ''+'') then tl s else s);
          v = (if neg then - int (digits_val ds) else int (digits_val ds))
      in if ds \<noteq> [] \<and> list_all is_digit ds \<and> - (2 ^ 31) \<le> v \<and> v < 2 ^ 31 then Some v else None)"

definition versionIsSupported :: "bytes \<Rightarrow> int \<Rightarrow> bool" where
  "versionIsSupported versionStr minVersion = (case lexical_cast_int versionStr of Some version \<Rightarrow> version \<ge> minVersion | None \<Rightarrow> False)"

definition supportedBrowsers :: "(bytes \<times> int) list" where
  "supportedBrowsers =
     [(''chrome/'', 51), (''firefox/'', 60), (''applewebkit/'', 606), (''trident/'', 7), (''curl/'', 0), (''wget/'', 0), (''httpie/'', 0), (''libwww-perl/'', 0),
      (''libfetch/'', 0), (''axel/'', 0), (''wget2/'', 0), (''libmantids/'', 0)]"

text \<open>The text behind the first occurrence of a name.\<close>

fun find_behind :: "bytes \<Rightarrow> bytes \<Rightarrow> bytes option" where
  "find_behind name [] = (if name = [] then Some [] else None)"
| "find_behind name (c # s) = (if starts_with (c # s) name then Some (drop (length name) (c # s)) else find_behind name s)"

fun browser_supported :: "bytes \<Rightarrow> (bytes \<times> int) list \<Rightarrow> bool" where
  "browser_supported details [] = False"
| "browser_supported details ((name, minVersion) # bs) =
     (case find_behind name details of
        Some rest \<Rightarrow> if minVersion = 0 then True else versionIsSupported (takeWhile (\<lambda>c. c \<noteq> CHR '' '') rest) minVersion
      | None \<Rightarrow> browser_supported details bs)"

definition isSupportedUserAgent :: "bytes \<Rightarrow> bool" where
  "isSupportedUserAgent ua = browser_supported (to_lower_copy ua) supportedBrowsers"

definition isURLSafe :: "bytes \<Rightarrow> bool" where
  "isURLSafe url = list_all (\<lambda>c. is_alnum c \<or> c = CHR ''-'' \<or> c = CHR ''_'' \<or> c = CHR ''.'' \<or> c = CHR ''/'') url"

definition isRedirectPathSafeForAuth :: "('y, 'o, 'w) web_config \<Rightarrow> bytes \<Rightarrow> bool" where
  "isRedirectPathSafeForAuth cfg url \<longleftrightarrow> (\<forall>apiurl\<in>APIURLs cfg. \<not> starts_with url (apiurl @ ''/''))"

section \<open>Pages of the server\<close>

definition alert_head :: bytes where
  "alert_head =
     [CHR 0x0A] @ ''        <!DOCTYPE html>'' @ [CHR 0x0A] @ ''        <html lang='' @ [CHR 0x22] @ ''en'' @ [CHR 0x22] @ ''>'' @
     [CHR 0x0A] @ ''        <head>'' @ [CHR 0x0A] @ ''            <meta charset='' @ [CHR 0x22] @ ''UTF-8'' @ [CHR 0x22] @ ''>'' @
     [CHR 0x0A] @ ''            <meta name='' @ [CHR 0x22] @ ''viewport'' @ [CHR 0x22] @ '' content='' @ [CHR 0x22] @
     ''width=device-width, initial-scale=1.0'' @ [CHR 0x22] @ ''>'' @ [CHR 0x0A] @ ''            <title>''"

definition alert_style :: bytes where
  "alert_style =
     ''            </title>'' @ [CHR 0x0A] @ ''            <style>'' @ [CHR 0x0A] @ ''                body {'' @ [CHR 0x0A] @
     ''                    font-family: Arial, sans-serif;'' @ [CHR 0x0A] @ ''                    color: #333;'' @ [CHR 0x0A] @
     ''                    display: flex;'' @ [CHR 0x0A] @ ''                    align-items: center;'' @ [CHR 0x0A] @
     ''                    justify-content: center;'' @ [CHR 0x0A] @ ''                    height: 100vh;'' @ [CHR 0x0A] @
     ''                    margin: 0;'' @ [CHR 0x0A] @ ''                    background-color: #f4f4f4;'' @ [CHR 0x0A] @
     ''                }'' @ [CHR 0x0A] @ ''                .container {'' @ [CHR 0x0A] @
     ''                    text-align: center;'' @ [CHR 0x0A] @ ''                    max-width: 600px;'' @ [CHR 0x0A] @
     ''                    padding: 20px;'' @ [CHR 0x0A] @ ''                    background-color: #fff;'' @ [CHR 0x0A] @
     ''                    border: 1px solid #ccc;'' @ [CHR 0x0A] @ ''                    border-radius: 8px;'' @ [CHR 0x0A] @
     ''                    box-shadow: 0 4px 8px rgba(0, 0, 0, 0.1);'' @ [CHR 0x0A] @ ''                }'' @ [CHR 0x0A] @
     ''                h1 {'' @ [CHR 0x0A] @ ''                    color: #d9534f;'' @ [CHR 0x0A] @ ''                }'' @
     [CHR 0x0A] @ ''                p {'' @ [CHR 0x0A] @ ''                    font-size: 1.1em;'' @ [CHR 0x0A] @
     ''                    margin-top: 10px;'' @ [CHR 0x0A] @ ''                }'' @ [CHR 0x0A] @ ''                a {'' @
     [CHR 0x0A] @ ''                    color: #0275d8;'' @ [CHR 0x0A] @ ''                    text-decoration: none;'' @
     [CHR 0x0A] @ ''                }'' @ [CHR 0x0A] @ ''                a:hover {'' @ [CHR 0x0A] @
     ''                    text-decoration: underline;'' @ [CHR 0x0A] @ ''                }'' @ [CHR 0x0A] @
     ''            </style>'' @ [CHR 0x0A] @ ''        </head>'' @ [CHR 0x0A] @ ''        <body>'' @ [CHR 0x0A] @
     ''            <div class='' @ [CHR 0x22] @ ''container'' @ [CHR 0x22] @ ''>'' @ [CHR 0x0A] @ ''    ''"

definition alert_tail :: bytes where
  "alert_tail =
     [CHR 0x0A] @ ''            </div>'' @ [CHR 0x0A] @ ''        </body>'' @ [CHR 0x0A] @ ''        </html>'' @ [CHR 0x0A] @
     ''    ''"

definition upgrade_message :: bytes where
  "upgrade_message =
     [CHR 0x0A] @ ''                                <h1>Browser Upgrade Required</h1>'' @ [CHR 0x0A] @
     ''                                <p>Your browser does not meet the security requirements to access this site.</p>'' @
     [CHR 0x0A] @
     ''                                <p>To continue, please update your browser to the last version for enhanced security.</p>'' @
     [CHR 0x0A] @ ''                                ''"

definition createHTMLAlertMessage :: "bytes \<Rightarrow> bytes \<Rightarrow> bytes" where
  "createHTMLAlertMessage title message = alert_head @ title @ alert_style @ message @ alert_tail"

definition showBrowserMessage ::
  "('y, 'o) web_env \<Rightarrow> ('y, 'o, 'u, 'z) web_client_scheme \<Rightarrow> bytes \<Rightarrow> bytes \<Rightarrow> nat \<Rightarrow> ('y, 'o, 'u, 'z) web_client_scheme \<times> nat" where
  "showBrowserMessage we c title message returnCode =
     (set_response c (setContentType (setDataStreamer (we_mk we) (wc_response c) (Some (we_mk_text we (createHTMLAlertMessage title message)))) ''text/html'' True),
      returnCode)"

definition redirectUsingJS :: "('y, 'o) web_env \<Rightarrow> ('y, 'o, 'u, 'z) web_client_scheme \<Rightarrow> bytes \<Rightarrow> ('y, 'o, 'u, 'z) web_client_scheme \<times> nat" where
  "redirectUsingJS we c url =
     (if url = ''#retokenize'' then (c, 200)
      else
        let q = CHR 0x27;
            html = ''<script>window.location.href = atob('' @ [q] @ encodeToBase64 (we_bio_encode we) url False @ [q] @ '');</script>''
        in (set_response c (setContentType (setDataStreamer (we_mk we) (wc_response c) (Some (we_mk_text we html))) ''text/html'' True), 200))"

definition web_redirect ::
  "('y, 'o) web_env \<Rightarrow> ('y, 'o, 'u, 'z) web_client_scheme \<Rightarrow> bytes \<Rightarrow> (('y, 'o, 'u, 'z) web_client_scheme \<times> nat) result" where
  "web_redirect we c location =
     map_sum id (\<lambda>(r, st). (set_response c r, st)) (setRedirectLocation (we_rand we) (we_mk we) (wc_response c) location True)"

section \<open>Tokens\<close>

text \<open>\<^verbatim>\<open>verifyToken\<close>: the validator keeps its cache, the client the token that was read.\<close>

definition verifyToken ::
  "('sk, 'pk) jwt_lib \<Rightarrow> int \<Rightarrow> bytes \<Rightarrow> jwt \<Rightarrow> token \<Rightarrow> bytes \<Rightarrow> jwt \<times> (token \<times> bool) result" where
  "verifyToken lib now app validator tok strToken =
     (case verify lib now validator strToken (Some tok) of
        (j, Inl e) \<Rightarrow> (j, Inl e)
      | (j, Inr (t, False)) \<Rightarrow> (j, Inr (t, False))
      | (j, Inr (t, True)) \<Rightarrow>
          (case getClaim t ''app'' of Inl e \<Rightarrow> (j, Inl e) | Inr v \<Rightarrow> (j, Inr (t, JSON_ASSTRING_D v [] = app))))"

section \<open>Variables of a page\<close>

definition json_sets :: "json \<Rightarrow> (bytes \<times> json) list \<Rightarrow> json result" where
  "json_sets j kvs = fold (\<lambda>(k, v) r. case r of Inl e \<Rightarrow> Inl e | Inr j \<Rightarrow> json_set j k v) kvs (Inr j)"

definition fillSessionInfo :: "('y, 'o, 'u, 'z) web_client_scheme \<Rightarrow> json \<Rightarrow> json result" where
  "fillSessionInfo c jVars =
     (let si = wc_currentSessionInfo c; r = wc_request c;
          session = (case si_authSession si of
              Some s \<Rightarrow> [(''isImpersonation'', JBool (si_isImpersonation si)), (''impersonator'', JString (m_impersonator s)),
                (''halfSessionID'', JString (si_halfSessionId si)), (''user'', JString (m_user s)), (''domain'', JString (m_domain s)), (''loggedIn'', JBool True)]
            | None \<Rightarrow> [(''loggedIn'', JBool False)])
      in json_sets jVars (session @ [(''userTLSCommonName'', JString (tlsCommonName (http_request.networkClientInfo r))),
           (''userIP'', JString (REMOTE_ADDR (http_request.networkClientInfo r))), (''userAgent'', JString (userAgent r))]))"

text \<open>The answer of an API function as JSON (\<^verbatim>\<open>APIReturn::toJSON\<close>).\<close>

definition api_return_toJSON :: "(int \<Rightarrow> bytes) \<Rightarrow> api_return \<Rightarrow> json" where
  "api_return_toJSON date r =
     JObject ([(''httpResponseCode'', JInt (int (ar_httpResponseCode r))), (''body'', sj_root (ar_body r))]
       @ (if ar_httpExtraHeaders r \<noteq> [] then [(''extraHeaders'', JObject (map (\<lambda>(k, v). (k, JString v)) (ar_httpExtraHeaders r)))] else [])
       @ (if ar_cookiesMap r \<noteq> [] then [(''cookies'', JArray (map (\<lambda>(n, c). JString (toSetCookieString date c n)) (ar_cookiesMap r)))] else []))"

definition web_htmli_vt :: "('y, 'o) web_env \<Rightarrow> ('y, 'o, 'w) web_config \<Rightarrow> (('y, 'o, 'u, 'z) web_client_scheme, 'w) web_vt
    \<Rightarrow> (('y, 'o, 'u, 'z) web_client_scheme \<times> 'w) htmli_vt" where
  "web_htmli_vt we cfg vt =
     \<lparr>hv_jVars = (\<lambda>(c, w). case json_set JNull ''softwareVersion'' (JString (softwareVersion cfg)) of
          Inl e \<Rightarrow> Inl e | Inr j \<Rightarrow> (case fillSessionInfo c j of Inl e \<Rightarrow> Inl e | Inr j \<Rightarrow> wv_fillSessionExtraInfo vt c j)),
      hv_doesSessionVariableExist = (\<lambda>(c, w). wv_doesSessionVariableExist vt c),
      hv_getSessionVariableValue = (\<lambda>(c, w). wv_getSessionVariableValue vt c),
      hv_getVar = (\<lambda>(c, w) varName. Inr (map_option (\<lambda>v. b_toStringEx (we_cvt we) v size_max 0) (getValue (m_impl (m_getVars (requestLine (wc_request c)))) varName))),
      hv_postVar = (\<lambda>(c, w) varName. map_sum id (\<lambda>o'. we_postVar we o' varName) (postVars (req_content (wc_request c)))),
      hv_handleAPIRequest = (\<lambda>(c, w) version mode name vars.
          map_sum id (\<lambda>(c', w', r). ((c', w'), api_return_toJSON (we_date we) r)) (wv_handleAPIRequest vt c w api_return_new ''/'' version mode name JNull vars)),
      hv_reader = je_reader (we_json we), hv_writer = je_writer (we_json we)\<rparr>"

section \<open>Files\<close>

text \<open>\<^verbatim>\<open>HTMLIEngine::processResourceFile\<close>; \<open>None\<close> when the included files never end.\<close>

definition processResourceFile ::
  "('y, 'o) web_env \<Rightarrow> ('y, 'o, 'w) web_config \<Rightarrow> (('y, 'o, 'u, 'z) web_client_scheme, 'w) web_vt \<Rightarrow> ('y, 'o, 'u, 'z) web_client_scheme \<Rightarrow> 'w \<Rightarrow> bytes
    \<Rightarrow> (('y, 'o, 'u, 'z) web_client_scheme \<times> 'w \<times> nat) result option" where
  "processResourceFile we cfg vt c w path =
     (let c1 = set_response c (setDataStreamer (we_mk we) (wc_response c) None);
          content = (if starts_with path ''MEM:'' then Some (we_mem_text we (m_outStream (rsp_content (wc_response c)))) else we_files we path)
      in case content of
           None \<Rightarrow> Some (Inr (c1, w, 404))
         | Some fileContent \<Rightarrow>
             map_option (\<lambda>r. case r of
                 Inl e \<Rightarrow> Inl e
               | Inr ((c2, w2), text) \<Rightarrow>
                   (case writeString (we_io we) (m_outStream (rsp_content (wc_response c2))) text of
                      Inl e \<Rightarrow> Inl e
                    | Inr (out, _) \<Rightarrow>
                        Inr (set_response c2 ((wc_response c2)\<lparr>rsp_content := (rsp_content (wc_response c2))\<lparr>m_outStream := out\<rparr>\<rparr>), w2, 200)))
               (htmli_content (web_htmli_vt we cfg vt) (we_files we) (documentRootPath cfg) (c1, w) fileContent))"

text \<open>The lookups of a file, with the endings that are tried in turn.\<close>

fun find_file ::
  "('y, 'o) web_env \<Rightarrow> bytes \<Rightarrow> bytes list \<Rightarrow> ('y, 'o, 'u) http_server \<Rightarrow> sLocalRequestedFileInfo
    \<Rightarrow> (('y, 'o, 'u) http_server \<times> sLocalRequestedFileInfo \<times> bool) result" where
  "find_file we root [] s info = Inr (s, info, False)"
| "find_file we root (ending # es) s info =
     (case getLocalFilePathFromURI2 (we_rand we) (we_mk we) (we_date we) (we_fs we) s root (Some info) ending False of
        Inl e \<Rightarrow> Inl e
      | Inr (s', info', True) \<Rightarrow> Inr (s', info', True)
      | Inr (s', info', False) \<Rightarrow> find_file we root es s' info')"

text \<open>The decision for a file that was found: the status, with a redirection in the response.\<close>

definition file_decision ::
  "('y, 'o) web_env \<Rightarrow> ('y, 'o, 'w) web_config \<Rightarrow> (('y, 'o, 'u, 'z) web_client_scheme, 'w) web_vt \<Rightarrow> ('y, 'o, 'u, 'z) web_client_scheme
    \<Rightarrow> sLocalRequestedFileInfo \<Rightarrow> (('y, 'o, 'u, 'z) web_client_scheme \<times> nat) result" where
  "file_decision we cfg vt c info =
     (case (case resourceFilter cfg of
              None \<Rightarrow> Inr filter_result_new
            | Some fs \<Rightarrow>
                (case wv_getSessionPermissions vt c of
                   Inl e \<Rightarrow> Inl e
                 | Inr permissions \<Rightarrow>
                     (case wv_getSessionRoles vt c of
                        Inl e \<Rightarrow> Inl e
                      | Inr roles \<Rightarrow> Inr (evaluateURI (we_regex_match we) fs (sRealRelativePath info) permissions roles (wv_isSessionActive vt c))))) of
        Inl e \<Rightarrow> Inl e
      | Inr e \<Rightarrow>
          if \<not> fr_accept e then Inr (c, 403)
          else if fr_redirectLocation e = [] then Inr (c, 200)
          else web_redirect we c (fr_redirectLocation e))"

definition handleRegularFileRequest ::
  "('y, 'o) web_env \<Rightarrow> ('y, 'o, 'w) web_config \<Rightarrow> (('y, 'o, 'u, 'z) web_client_scheme, 'w) web_vt \<Rightarrow> ('y, 'o, 'u, 'z) web_client_scheme \<Rightarrow> 'w
    \<Rightarrow> (('y, 'o, 'u, 'z) web_client_scheme \<times> 'w \<times> nat) result option" where
  "handleRegularFileRequest we cfg vt c w =
     (if documentRootPath cfg = [] then Some (Inr (c, w, 404))
      else
        case find_file we (documentRootPath cfg) [''.html'', ''index.html'', []] (wc_server c) info_reset of
          Inl e \<Rightarrow> Some (Inl e)
        | Inr (s1, info, found) \<Rightarrow>
            let c1 = c\<lparr>wc_server := s1\<rparr>
            in case (if found \<and> \<not> isDir info then file_decision we cfg vt c1 info else Inr (c1, 404)) of
                 Inl e \<Rightarrow> Some (Inl e)
               | Inr (c2, ret) \<Rightarrow>
                   let c3 = (if ret \<noteq> 200 then set_response c2 (setDataStreamer (we_mk we) (wc_response c2) None) else c2);
                       type = rsp_contentType (wc_response c3);
                       served = (if useHTMLIEngine cfg \<and> (type = ''text/html'' \<or> type = ''application/javascript'')
                                 then processResourceFile we cfg vt c3 w (sRealFullPath info) else Some (Inr (c3, w, ret)))
                   in map_option (\<lambda>r. case r of
                        Inl e \<Rightarrow> Inl e
                      | Inr (c4, w4, ret4) \<Rightarrow>
                          if ret4 = 404 \<and> redirectPathOn404 cfg \<noteq> [] then map_sum id (\<lambda>(c5, st). (c5, w4, st)) (web_redirect we c4 (redirectPathOn404 cfg))
                          else Inr (c4, w4, ret4)) served)"

section \<open>API requests\<close>

definition with_body :: "('y, 'o) web_env \<Rightarrow> ('y, 'o, 'u, 'z) web_client_scheme \<Rightarrow> streamable_json \<Rightarrow> ('y, 'o, 'u, 'z) web_client_scheme" where
  "with_body we c body = set_response c (setContentType (setDataStreamer (we_mk we) (wc_response c) (Some (we_mk_json we body))) ''application/json'' True)"

definition getXAPIKey :: "('y, 'o) http_request \<Rightarrow> bytes" where
  "getXAPIKey r = getOptionValueStringByName (sh_header (req_headers r)) ''x-api-key''"

text \<open>The checks of the origin: the method that takes logins has its own list and accepts no request without an origin.\<close>

definition origin_permitted :: "('y, 'o, 'w) web_config \<Rightarrow> ('y, 'o) http_request \<Rightarrow> bytes \<Rightarrow> bool" where
  "origin_permitted cfg r methodName =
     (let requestOrigin = getOrigin r
      in if methodName = callbackAPIMethodName cfg then requestOrigin \<in> permittedLoginOrigins cfg
         else if requestOrigin = [] then True
         else case dynamicOriginValidator cfg of
                None \<Rightarrow> requestOrigin \<in> permittedAPIOrigins cfg
              | Some validator \<Rightarrow> validator requestOrigin (getXAPIKey r))"

fun add_headers :: "bytes option \<Rightarrow> (bytes \<times> bytes) list \<Rightarrow> ('y, 'o) http_response \<Rightarrow> ('y, 'o) http_response result" where
  "add_headers rand [] r = Inr r"
| "add_headers rand ((name, value) # hs) r =
     (case header_add rand (sh_header (rsp_headers r)) name value 0 of
        Inl e \<Rightarrow> Inl e
      | Inr (h, _) \<Rightarrow> add_headers rand hs (r\<lparr>rsp_headers := (rsp_headers r)\<lparr>sh_header := h\<rparr>\<rparr>))"

text \<open>
  A request for a function of the API. The body of the answer is an object that the response and the answer share, so that it is put into the response once it is
  complete.
\<close>

definition api_request ::
  "('y, 'o) web_env \<Rightarrow> ('y, 'o, 'w) web_config \<Rightarrow> (('y, 'o, 'u, 'z) web_client_scheme, 'w) web_vt \<Rightarrow> ('y, 'o, 'u, 'z) web_client_scheme \<Rightarrow> 'w
    \<Rightarrow> bytes \<Rightarrow> nat \<Rightarrow> bytes \<Rightarrow> (('y, 'o, 'u, 'z) web_client_scheme \<times> 'w \<times> nat) result" where
  "api_request we cfg vt c w baseApiUrl apiVersion resourceAndPathParameters =
     (let answer0 = api_return_new\<lparr>ar_body := sj_setFormatted streamable_json_new (useFormattedJSONOutput cfg)\<rparr>
      in case processPathParameters resourceAndPathParameters [] JNull of
           Inl e \<Rightarrow> Inl e
         | Inr (methodName, pathParameters) \<Rightarrow>
             if \<not> origin_permitted cfg (wc_request c) methodName
             then map_sum id (\<lambda>r. (with_body we c (ar_body r), w, 401)) (setError answer0 401 ''invalid_security_context'' ''Disallowed Origin'')
             else
               (case getJSONStreamerContent (wc_request c) of
                  Inl e \<Rightarrow> Inl e
                | Inr body \<Rightarrow>
                    let postParameters = (case body of None \<Rightarrow> JNull | Some o' \<Rightarrow> sj_root (je_get (we_json we) o'))
                    in (case wv_handleAPIRequest vt c w answer0 baseApiUrl (apiVersion mod 2 ^ 32) (c_str (m_requestMethod (requestLine (wc_request c)))) methodName
                               pathParameters postParameters of
                          Inl e \<Rightarrow> Inl e
                        | Inr (c1, w1, r) \<Rightarrow>
                            let c2 = with_body we c1 (ar_body r);
                                rs = fold (\<lambda>(n, v) rs. setCookie rs n v) (ar_cookiesMap r) (wc_response c2)
                            in (case add_headers (we_rand we) (ar_httpExtraHeaders r) rs of
                                  Inl e \<Rightarrow> Inl e
                                | Inr rs' \<Rightarrow>
                                    let c3 = set_response c2 rs'
                                    in if ar_redirectURL r \<noteq> [] then (case redirectUsingJS we c3 (ar_redirectURL r) of (c4, st) \<Rightarrow> Inr (c4, w1, st))
                                       else Inr (c3, w1, ar_httpResponseCode r)))))"

text \<open>The pattern \<^verbatim>\<open>/v(\d+)/(.+)\<close> of the path behind the base of the API.\<close>

definition split_version :: "bytes \<Rightarrow> (bytes \<times> bytes) option" where
  "split_version s =
     (let ds = takeWhile is_digit (drop 2 s); rest = dropWhile is_digit (drop 2 s)
      in if starts_with s ''/v'' \<and> ds \<noteq> [] \<and> starts_with rest ''/'' \<and> tl rest \<noteq> [] \<and> \<not> list_ex line_end (tl rest) then Some (ds, tl rest) else None)"

text \<open>
  What a path below a base of the API leads to: the answer, and whether it was a path of the API. \<^verbatim>\<open>std::stoul\<close> throws for a version that does not fit
  64 bits.
\<close>

definition api_path ::
  "('y, 'o) web_env \<Rightarrow> ('y, 'o, 'w) web_config \<Rightarrow> (('y, 'o, 'u, 'z) web_client_scheme, 'w) web_vt \<Rightarrow> ('y, 'o, 'u, 'z) web_client_scheme \<Rightarrow> 'w
    \<Rightarrow> bytes \<Rightarrow> (('y, 'o, 'u, 'z) web_client_scheme \<times> 'w \<times> nat \<times> bool) result" where
  "api_path we cfg vt c w baseApiUrl =
     (let apiUrlWithoutBase = drop (length baseApiUrl) (getURI (wc_request c)); is_api = map_sum id (\<lambda>(c', w', st). (c', w', st, True))
      in case split_version apiUrlWithoutBase of
           Some (version, resource) \<Rightarrow>
             if digits_val version \<ge> 2 ^ 64 then Inl (OutOfRange ''stoul'')
             else is_api (api_request we cfg vt c w baseApiUrl (digits_val version) resource)
         | None \<Rightarrow>
             if starts_with apiUrlWithoutBase ''/auth/'' then is_api (wv_handleAuthFunctions vt c w baseApiUrl (drop 6 apiUrlWithoutBase))
             else if starts_with apiUrlWithoutBase ''/info''
             then is_api (Inr (with_body we c (sj_setValue (sj_setFormatted streamable_json_new (useFormattedJSONOutput cfg)) (wv_handleAPIInfo vt baseApiUrl)), w, 200))
             else Inr (c, w, 404, False))"

text \<open>The first route of a dynamic handler below which the path lies, else a file.\<close>

definition other_request ::
  "('y, 'o) web_env \<Rightarrow> ('y, 'o, 'w) web_config \<Rightarrow> (('y, 'o, 'u, 'z) web_client_scheme, 'w) web_vt \<Rightarrow> ('y, 'o, 'u, 'z) web_client_scheme \<Rightarrow> 'w
    \<Rightarrow> (('y, 'o, 'u, 'z) web_client_scheme \<times> 'w \<times> nat) result option" where
  "other_request we cfg vt c w =
     (let uri = getURI (wc_request c)
      in case find (\<lambda>(route, _). starts_with uri (route @ ''/'')) (dynamicRequestHandlersByRoute cfg) of
           Some (route, handler) \<Rightarrow>
             (case handler (drop (length route) uri) (wc_request c) (wc_response c) w of
                (rq, rs, w', st) \<Rightarrow> Some (Inr (c\<lparr>wc_server := (wc_server c)\<lparr>clientRequest := rq, serverResponse := rs\<rparr>\<rparr>, w', st)))
         | None \<Rightarrow> handleRegularFileRequest we cfg vt c w)"

definition session_request ::
  "('y, 'o) web_env \<Rightarrow> ('y, 'o, 'w) web_config \<Rightarrow> (('y, 'o, 'u, 'z) web_client_scheme, 'w) web_vt \<Rightarrow> ('y, 'o, 'u, 'z) web_client_scheme \<Rightarrow> 'w
    \<Rightarrow> (('y, 'o, 'u, 'z) web_client_scheme \<times> 'w \<times> nat) result option" where
  "session_request we cfg vt c w =
     (let uri = getURI (wc_request c);
          cleanup = map_option (\<lambda>r. case r of Inl e \<Rightarrow> Inl e | Inr (c', w', st) \<Rightarrow> map_sum id (\<lambda>(c'', w''). (c'', w'', st)) (wv_sessionCleanup vt c' w'))
      in case (case find (\<lambda>b. starts_with uri (b @ ''/'')) (sorted_list_of_set (APIURLs cfg)) of
                 None \<Rightarrow> Inr (c, w, 404, False)
               | Some baseApiUrl \<Rightarrow> api_path we cfg vt c w baseApiUrl) of
           Inl e \<Rightarrow> Some (Inl e)
         | Inr (c1, w1, ret, True) \<Rightarrow> cleanup (Some (Inr (c1, w1, ret)))
         | Inr (c1, w1, ret, False) \<Rightarrow> cleanup (other_request we cfg vt c1 w1))"

definition web_procHTTPClientContent ::
  "('y, 'o) web_env \<Rightarrow> ('y, 'o, 'w) web_config \<Rightarrow> (('y, 'o, 'u, 'z) web_client_scheme, 'w) web_vt \<Rightarrow> ('y, 'o, 'u, 'z) web_client_scheme \<Rightarrow> 'w
    \<Rightarrow> (('y, 'o, 'u, 'z) web_client_scheme \<times> 'w \<times> nat) result option" where
  "web_procHTTPClientContent we cfg vt c0 w =
     (case (if webServerName cfg \<noteq> [] then map_sum id (\<lambda>s. c0\<lparr>wc_server := s\<rparr>) (setResponseServerName (we_rand we) (wc_server c0) (webServerName cfg)) else Inr c0) of
        Inl e \<Rightarrow> Some (Inl e)
      | Inr c \<Rightarrow>
          if isSupportedUserAgent (userAgent (wc_request c))
          then (case showBrowserMessage we c ''Browser Upgrade Required'' upgrade_message 426 of (c', st) \<Rightarrow> Some (Inr (c', w, st)))
          else
            (case redirections cfg (getURI (wc_request c)) of
               Some location \<Rightarrow> Some (map_sum id (\<lambda>(c', st). (c', w, st)) (web_redirect we c location))
             | None \<Rightarrow>
                 (case wv_sessionStart vt c w of
                    Inl e \<Rightarrow> Some (Inl e)
                  | Inr (c1, w1, st) \<Rightarrow> if st \<noteq> 200 then Some (Inr (c1, w1, st)) else session_request we cfg vt c1 w1)))"

section \<open>What a request leaves untouched\<close>

text \<open>
  The contract between the common part and a kind of server: a property of the client and of the shared world that does not depend on the request and the response, and
  that the functions of the server keep, holds after the whole request.
\<close>

lemma bind_Inr: "(case r of Inl e \<Rightarrow> Inl e | Inr x \<Rightarrow> k x) = Inr y \<longleftrightarrow> (\<exists>x. r = Inr x \<and> k x = Inr y)"
  by (cases r) auto

lemma map_Inr: "map_sum id f r = Inr y \<longleftrightarrow> (\<exists>x. r = Inr x \<and> y = f x)"
  by (cases r) auto

lemma bind_Some_Inr: "(case r of Inl e \<Rightarrow> Some (Inl e) | Inr x \<Rightarrow> k x) = Some (Inr y) \<longleftrightarrow> (\<exists>x. r = Inr x \<and> k x = Some (Inr y))"
  by (cases r) auto

lemmas result_Inr = bind_Inr map_Inr bind_Some_Inr

text \<open>The ways through a path of the API, and through a request with a session.\<close>

lemma api_path_cases [consumes 1, case_names request auth info none]:
  assumes "api_path we cfg vt c w b = Inr (c', w', st, is_api)"
  obtains v res where "api_request we cfg vt c w b v res = Inr (c', w', st)" "is_api"
  | f where "wv_handleAuthFunctions vt c w b f = Inr (c', w', st)" "is_api"
  | body where "c' = with_body we c body" "w' = w" "is_api"
  | "c' = c" "w' = w" "\<not> is_api" "st = 404"
proof (cases "split_version (drop (length b) (getURI (wc_request c)))")
  case None
  then show ?thesis using assms that(2-4) by (auto simp: api_path_def Let_def result_Inr split: if_splits)
next
  case (Some r)
  then show ?thesis using assms that(1) by (cases r) (auto simp: api_path_def Let_def result_Inr split: if_splits)
qed

lemma session_request_cases [consumes 1, case_names api other]:
  assumes "session_request we cfg vt c w = Some (Inr (c', w', st))"
  obtains b c1 w1 ret where "api_path we cfg vt c w b = Inr (c1, w1, ret, True)"
      "map_sum id (\<lambda>(c'', w''). (c'', w'', ret)) (wv_sessionCleanup vt c1 w1) = Inr (c', w', st)"
  | c1 w1 ret1 c2 w2 ret where "(c1, w1) = (c, w) \<or> (\<exists>b. api_path we cfg vt c w b = Inr (c1, w1, ret1, False))"
      "other_request we cfg vt c1 w1 = Some (Inr (c2, w2, ret))"
      "map_sum id (\<lambda>(c'', w''). (c'', w'', ret)) (wv_sessionCleanup vt c2 w2) = Inr (c', w', st)"
proof -
  let ?first = "case find (\<lambda>b. starts_with (getURI (wc_request c)) (b @ ''/'')) (sorted_list_of_set (APIURLs cfg)) of
      None \<Rightarrow> Inr (c, w, 404, False) | Some baseApiUrl \<Rightarrow> api_path we cfg vt c w baseApiUrl"
  obtain c1 w1 ret is_api where f: "?first = Inr (c1, w1, ret, is_api)"
    using assms by (auto simp: session_request_def Let_def result_Inr)
  show thesis
  proof (cases is_api)
    case True
    then have "map_sum id (\<lambda>(c'', w''). (c'', w'', ret)) (wv_sessionCleanup vt c1 w1) = Inr (c', w', st)"
      using assms f by (simp add: session_request_def Let_def)
    then show thesis using that(1) f True by (auto split: option.splits)
  next
    case False
    then obtain c2 w2 ret2 where "other_request we cfg vt c1 w1 = Some (Inr (c2, w2, ret2))"
      "map_sum id (\<lambda>(c'', w''). (c'', w'', ret2)) (wv_sessionCleanup vt c2 w2) = Inr (c', w', st)"
      using assms f by (auto simp: session_request_def Let_def result_Inr)
    moreover have "(c1, w1) = (c, w) \<or> (\<exists>b. api_path we cfg vt c w b = Inr (c1, w1, ret, False))"
      using f False by (auto split: option.splits)
    ultimately show thesis using that(2) by blast
  qed
qed

locale web_session =
  fixes vt :: "(('y, 'o, 'u, 'z) web_client_scheme, 'w) web_vt"
    and I :: "('y, 'o, 'u, 'z) web_client_scheme \<Rightarrow> 'w \<Rightarrow> bool"
  assumes server_irrelevant: "I c w \<Longrightarrow> I (c\<lparr>wc_server := s\<rparr>) w"
    and api_keeps: "I c w \<Longrightarrow> wv_handleAPIRequest vt c w r b v mode name pp post = Inr (c', w', r') \<Longrightarrow> I c' w'"
    and auth_keeps: "I c w \<Longrightarrow> wv_handleAuthFunctions vt c w b f = Inr (c', w', st) \<Longrightarrow> I c' w'"
    and cleanup_keeps: "I c w \<Longrightarrow> wv_sessionCleanup vt c w = Inr (c', w') \<Longrightarrow> I c' w'"
begin

lemma response_irrelevant: "I c w \<Longrightarrow> I (set_response c r) w"
  unfolding set_response_def by (rule server_irrelevant)

lemma redirect_keeps: "I c w \<Longrightarrow> web_redirect we c l = Inr (c', st) \<Longrightarrow> I c' w"
  by (auto simp: web_redirect_def map_sum_def response_irrelevant split: sum.splits prod.splits)

lemma js_keeps: "I c w \<Longrightarrow> redirectUsingJS we c url = (c', st) \<Longrightarrow> I c' w"
  by (auto simp: redirectUsingJS_def Let_def response_irrelevant split: if_splits)

lemma body_keeps: "I c w \<Longrightarrow> I (with_body we c b) w"
  unfolding with_body_def by (rule response_irrelevant)

abbreviation I2 :: "('y, 'o, 'u, 'z) web_client_scheme \<times> 'w \<Rightarrow> bool" where
  "I2 h \<equiv> I (fst h) (snd h)"

lemma replacement_keeps: "I2 h \<Longrightarrow> j_replacement (web_htmli_vt we cfg vt) frame h command value = Inr (h', text) \<Longrightarrow> I2 h'"
  by (auto simp: j_replacement_def jfunc_def procJAPI_Exec_def Let_def result_Inr web_htmli_vt_def api_keeps
      split: if_splits option.splits prod.splits)

lemma process_keeps: "I2 h \<Longrightarrow> j_process (j_replacement (web_htmli_vt we cfg vt) frame) m1 m2 h input = Inr (h', out) \<Longrightarrow> I2 h'"
proof (induction "j_replacement (web_htmli_vt we cfg vt) frame" m1 m2 h input arbitrary: h' out rule: j_process.induct)
  case (1 mark1 mark2 h input)
  show ?case
  proof (cases "jtag_search mark1 mark2 input")
    case None
    then show ?thesis using 1(2,3) by (simp add: j_process.simps)
  next
    case (Some r)
    obtain pre command v post where r: "r = (pre, command, v, post)" by (cases r)
    obtain h1 text1 where s: "j_replacement (web_htmli_vt we cfg vt) frame h command v = Inr (h1, text1)"
      using 1(3) Some r by (subst (asm) j_process.simps) (auto simp: result_Inr)
    then obtain h2 rest where rest: "j_process (j_replacement (web_htmli_vt we cfg vt) frame) mark1 mark2 h1 post = Inr (h2, rest)" "h' = h2"
      using 1(3) Some r by (subst (asm) j_process.simps) (auto simp: result_Inr)
    show ?thesis using 1(1) [OF Some [unfolded r] refl refl refl s refl, of h2 rest] rest replacement_keeps [OF 1(2) s] by simp
  qed
qed

lemma content_keeps:
  assumes "I2 h" and "htmli_content (web_htmli_vt we cfg vt) files root h text = Some (Inr (h', text'))"
  shows "I2 h'"
proof -
  obtain t where "procResource_JProcessor (web_htmli_vt we cfg vt) h t = Inr (h', text')" using assms(2) by (auto simp: htmli_content_def)
  then obtain h1 t1 where "j_process (j_replacement (web_htmli_vt we cfg vt) False) js_open js_close h t = Inr (h1, t1)"
    "j_process (j_replacement (web_htmli_vt we cfg vt) True) html_open html_close h1 t1 = Inr (h', text')"
    by (auto simp: procResource_JProcessor_def split: sum.splits)
  then show ?thesis using process_keeps assms(1) by blast
qed

lemma resource_file_keeps:
  assumes "I c w" and "processResourceFile we cfg vt c w path = Some (Inr (c', w', st))"
  shows "I c' w'"
proof -
  let ?c1 = "set_response c (setDataStreamer (we_mk we) (wc_response c) None)"
  have c1: "I2 (?c1, w)" using assms(1) response_irrelevant by simp
  show ?thesis
    using assms(2) c1 content_keeps [OF c1, of we cfg "we_files we" "documentRootPath cfg"]
    by (auto simp: processResourceFile_def Let_def result_Inr response_irrelevant split: option.splits if_splits)
qed

lemma decision_keeps: "I c w \<Longrightarrow> file_decision we cfg vt c info = Inr (c', st) \<Longrightarrow> I c' w"
  by (auto simp: file_decision_def result_Inr redirect_keeps split: if_splits)

lemma file_keeps:
  assumes "I c w" and "handleRegularFileRequest we cfg vt c w = Some (Inr (c', w', st))"
  shows "I c' w'"
proof (cases "documentRootPath cfg = []")
  case True
  then show ?thesis using assms by (simp add: handleRegularFileRequest_def)
next
  case False
  then obtain s1 info found where s: "find_file we (documentRootPath cfg) [''.html'', ''index.html'', []] (wc_server c) info_reset = Inr (s1, info, found)"
    using assms(2) by (auto simp: handleRegularFileRequest_def split: sum.splits)
  let ?d = "if found \<and> \<not> isDir info then file_decision we cfg vt (c\<lparr>wc_server := s1\<rparr>) info else Inr (c\<lparr>wc_server := s1\<rparr>, 404)"
  obtain c2 ret where d: "?d = Inr (c2, ret)"
    using assms(2) False s by (auto simp: handleRegularFileRequest_def Let_def split: sum.splits)
  have c2: "I c2 w" using d decision_keeps [OF server_irrelevant [OF assms(1)], of we cfg s1 info c2 ret] server_irrelevant [OF assms(1)] by (auto split: if_splits)
  define c3 where "c3 = (if ret \<noteq> 200 then set_response c2 (setDataStreamer (we_mk we) (wc_response c2) None) else c2)"
  let ?type = "rsp_contentType (wc_response c3)"
  let ?served = "if useHTMLIEngine cfg \<and> (?type = ''text/html'' \<or> ?type = ''application/javascript'')
      then processResourceFile we cfg vt c3 w (sRealFullPath info) else Some (Inr (c3, w, ret))"
  have c3: "I c3 w" unfolding c3_def using c2 response_irrelevant by simp
  have eq: "map_option (\<lambda>r. case r of Inl e \<Rightarrow> Inl e
      | Inr (c4, w4, ret4) \<Rightarrow> if ret4 = 404 \<and> redirectPathOn404 cfg \<noteq> [] then map_sum id (\<lambda>(c5, st). (c5, w4, st)) (web_redirect we c4 (redirectPathOn404 cfg))
          else Inr (c4, w4, ret4)) ?served = Some (Inr (c', w', st))"
    using assms(2) False s d unfolding handleRegularFileRequest_def Let_def c3_def by simp
  then obtain c4 w4 ret4 where s4: "?served = Some (Inr (c4, w4, ret4))" by (auto simp: bind_Inr)
  have "I c4 w4" using s4 c3 resource_file_keeps by (auto split: if_splits)
  then show ?thesis using eq unfolding s4 by (auto simp: map_Inr redirect_keeps split: if_splits)
qed

lemma answer_keeps:
  assumes "I c w" and "(if url \<noteq> [] then (case redirectUsingJS we c url of (c4, st) \<Rightarrow> Inr (c4, w, st)) else Inr (c, w, code)) = Inr (c', w', st)"
  shows "I c' w'"
  using assms js_keeps by (auto split: if_splits prod.splits)

lemma request_keeps:
  assumes "I c w" and "api_request we cfg vt c w b v res = Inr (c', w', st)"
  shows "I c' w'"
proof -
  obtain name pp where p: "processPathParameters res [] JNull = Inr (name, pp)"
    using assms(2) by (auto simp: api_request_def Let_def result_Inr)
  show ?thesis
  proof (cases "origin_permitted cfg (wc_request c) name")
    case False
    then show ?thesis using assms p by (auto simp: api_request_def Let_def result_Inr body_keeps)
  next
    case True
    obtain body where body: "getJSONStreamerContent (wc_request c) = Inr body"
      using assms(2) p True by (auto simp: api_request_def Let_def result_Inr)
    let ?call = "wv_handleAPIRequest vt c w (api_return_new\<lparr>ar_body := sj_setFormatted streamable_json_new (useFormattedJSONOutput cfg)\<rparr>) b (v mod 2 ^ 32)
      (c_str (m_requestMethod (requestLine (wc_request c)))) name pp (case body of None \<Rightarrow> JNull | Some o' \<Rightarrow> sj_root (je_get (we_json we) o'))"
    obtain c1 w1 r where r: "?call = Inr (c1, w1, r)"
      using assms(2) p True body by (auto simp: api_request_def Let_def result_Inr)
    obtain rs where rs: "(if ar_redirectURL r \<noteq> [] then (case redirectUsingJS we (set_response (with_body we c1 (ar_body r)) rs) (ar_redirectURL r) of (c4, st) \<Rightarrow> Inr (c4, w1, st))
        else Inr (set_response (with_body we c1 (ar_body r)) rs, w1, ar_httpResponseCode r)) = (Inr (c', w', st) :: (_ \<times> _ \<times> _) result)"
      using assms(2) p True body r by (auto simp: api_request_def Let_def result_Inr)
    have "I (set_response (with_body we c1 (ar_body r)) rs) w1" by (intro response_irrelevant body_keeps) (rule api_keeps [OF assms(1) r])
    then show ?thesis using answer_keeps rs by blast
  qed
qed

lemma path_keeps:
  assumes "I c w" and "api_path we cfg vt c w b = Inr (c', w', st, is_api)"
  shows "I c' w'"
  using assms(2)
proof (cases rule: api_path_cases)
  case (request v res)
  then show ?thesis using request_keeps assms(1) by blast
qed (use assms(1) auth_keeps body_keeps in auto)

lemma session_request_keeps:
  assumes "I c w" and "dynamicRequestHandlersByRoute cfg = []" and "session_request we cfg vt c w = Some (Inr (c', w', st))"
  shows "I c' w'"
proof -
  obtain c1 w1 ret where r: "I c1 w1" "map_sum id (\<lambda>(c'', w''). (c'', w'', ret)) (wv_sessionCleanup vt c1 w1) = Inr (c', w', st)"
    using assms(3)
  proof (cases rule: session_request_cases)
    case (api b c1 w1 ret)
    then show ?thesis using that path_keeps assms(1) by blast
  next
    case (other c1 w1 ret1 c2 w2 ret)
    have "I c1 w1" using other(1) assms(1) path_keeps by blast
    then have "I c2 w2" using other(2) file_keeps assms(2) by (simp add: other_request_def)
    then show ?thesis using that other(3) by blast
  qed
  then show ?thesis using cleanup_keeps by (auto simp: map_Inr)
qed

end

section \<open>Properties of every web server\<close>

definition segment :: "bytes \<Rightarrow> bool" where
  "segment t \<longleftrightarrow> t \<noteq> [] \<and> CHR ''/'' \<notin> set t"

lemma path_tokens_join: "\<forall>t\<in>set ts. segment t \<Longrightarrow> ts \<noteq> [] \<Longrightarrow> path_tokens (join ''/'' ts) = ts"
  unfolding path_tokens_def
  by (subst split_compress_join) (auto simp: segment_def filter_id_conv)

lemma path_pairs_values:
  "path_pairs (concat (map (\<lambda>(k, v). [k, v]) kvs)) (JObject ms) = Inr (JObject (fold (\<lambda>(k, v). assoc_update k (JString v)) kvs ms))"
  by (induction kvs arbitrary: ms) auto

text \<open>
  C36. Parameters in the path. A path of the name of a method and of names and values, none of them empty or with a slash, is read as that method and an object in which
  every name has its value, the last one when a name occurs twice.
\<close>

theorem path_parameters_read:
  assumes "segment method" and "kvs \<noteq> []" and "\<forall>(k, v)\<in>set kvs. segment k \<and> segment v"
  shows "\<exists>ms. processPathParameters (join ''/'' (method # concat (map (\<lambda>(k, v). [k, v]) kvs))) name0 JNull = Inr (method, JObject ms)
    \<and> (\<forall>k. map_of ms k = map_option JString (map_of (rev kvs) k))"
proof -
  obtain k v r where kvs: "kvs = (k, v) # r" using assms(2) by (cases kvs) auto
  have "\<forall>t\<in>set (method # concat (map (\<lambda>(k, v). [k, v]) kvs)). segment t" using assms(1,3) by auto
  then have t: "path_tokens (join ''/'' (method # concat (map (\<lambda>(k, v). [k, v]) kvs))) = method # concat (map (\<lambda>(k, v). [k, v]) kvs)"
    by (rule path_tokens_join) simp
  have m: "map_of (fold (\<lambda>(k, v). assoc_update k (JString v)) r ms) k' = (case map_of (rev r) k' of Some v \<Rightarrow> Some (JString v) | None \<Rightarrow> map_of ms k')" for r ms k'
  proof (induction r arbitrary: ms)
    case (Cons p r)
    obtain a b where p: "p = (a, b)" by (cases p)
    show ?case by (simp add: p Cons.IH map_of_assoc_update map_add_def split: option.split)
  qed simp
  let ?ms = "fold (\<lambda>(k, v). assoc_update k (JString v)) r [(k, JString v)]"
  have "processPathParameters (join ''/'' (method # concat (map (\<lambda>(k, v). [k, v]) kvs))) name0 JNull = Inr (method, JObject ?ms)"
    unfolding processPathParameters_def t by (simp add: kvs path_pairs_values)
  moreover have "\<forall>k'. map_of ?ms k' = map_option JString (map_of (rev kvs) k')"
    by (auto simp: m kvs map_add_def split: option.split)
  ultimately show ?thesis by blast
qed

text \<open>
  The check of the browser. A client whose browser is in the list of supported ones is answered with 426 and a page that asks it to update, before anything else is
  looked at; the client of this library is one of them, an outdated browser is not.
\<close>

theorem supported_browsers_refused:
  assumes "webServerName cfg = []" and "isSupportedUserAgent (userAgent (wc_request c))"
  shows "(\<exists>c'. web_procHTTPClientContent we cfg vt c w = Some (Inr (c', w, 426)))
    \<and> isSupportedUserAgent (''libMantids/'' @ dec 0 @ ''.'' @ dec 4) \<and> \<not> isSupportedUserAgent ''Mozilla/4.0 (compatible; MSIE 6.0)''"
proof (intro conjI)
  show "\<exists>c'. web_procHTTPClientContent we cfg vt c w = Some (Inr (c', w, 426))"
    using assms by (auto simp: web_procHTTPClientContent_def showBrowserMessage_def)
  have d: "dec 0 = ''0''" "dec 4 = ''4''" by (simp add: dec.simps digit_def; code_simp)+
  show "isSupportedUserAgent (''libMantids/'' @ dec 0 @ ''.'' @ dec 4)" unfolding d by code_simp
  show "\<not> isSupportedUserAgent ''Mozilla/4.0 (compatible; MSIE 6.0)''" by code_simp
qed

text \<open>
  A version that does not fit. A request for a function of the API whose version has a value of 2^64 or more ends with an exception that no part of the program
  catches, whatever the server does and whoever the caller is.
\<close>

theorem api_version_throws:
  assumes "webServerName cfg = []" and "\<not> isSupportedUserAgent (userAgent (wc_request c))" and "redirections cfg (getURI (wc_request c)) = None"
    and "wv_sessionStart vt c w = Inr (c1, w1, 200)" and "getURI (wc_request c1) = b @ ''/v'' @ ds @ ''/'' @ resource" and "APIURLs cfg = {b}"
    and "list_all is_digit ds" and "2 ^ 64 \<le> digits_val ds" and "resource \<noteq> []" and "\<not> list_ex line_end resource"
  shows "web_procHTTPClientContent we cfg vt c w = Some (Inl (OutOfRange ''stoul''))"
proof -
  have "ds \<noteq> []" using assms(8) by (auto simp: digits_val_def)
  moreover have "takeWhile is_digit (ds @ ''/'' @ resource) = ds" "dropWhile is_digit (ds @ ''/'' @ resource) = ''/'' @ resource"
    using assms(7) by (simp_all add: list_all_iff takeWhile_tail dropWhile_append3 is_digit_def)
  ultimately have split: "split_version (''/v'' @ ds @ ''/'' @ resource) = Some (ds, resource)"
    using assms(9,10) by (simp add: split_version_def starts_with_def)
  then have "api_path we cfg vt c1 w1 b = Inl (OutOfRange ''stoul'')" using assms(5,8) by (simp add: api_path_def Let_def)
  moreover have "starts_with (getURI (wc_request c1)) (b @ ''/'')" using assms(5) by (simp add: starts_with_def)
  ultimately have "session_request we cfg vt c1 w1 = Some (Inl (OutOfRange ''stoul''))" using assms(6) by (simp add: session_request_def Let_def)
  then show ?thesis using assms(1-4) by (simp add: web_procHTTPClientContent_def)
qed

text \<open>
  C35. A file that the filters refuse. When a file was found for a request and the filters do not accept it for the permissions and roles of the session, the answer is
  403 with the body and the content type taken back, and the file is not read by the engine for pages, whatever kind of file it is.
\<close>

theorem refused_file_withheld:
  assumes "documentRootPath cfg \<noteq> []"
    and "find_file we (documentRootPath cfg) [''.html'', ''index.html'', []] (wc_server c) info_reset = Inr (s1, info, True)" and "\<not> isDir info"
    and "resourceFilter cfg = Some fs" and "wv_getSessionPermissions vt (c\<lparr>wc_server := s1\<rparr>) = Inr permissions"
    and "wv_getSessionRoles vt (c\<lparr>wc_server := s1\<rparr>) = Inr roles"
    and "\<not> fr_accept (evaluateURI (we_regex_match we) fs (sRealRelativePath info) permissions roles (wv_isSessionActive vt (c\<lparr>wc_server := s1\<rparr>)))"
  shows "\<exists>c'. handleRegularFileRequest we cfg vt c w = Some (Inr (c', w, 403))
    \<and> rsp_content (wc_response c') = setStreamableObj (we_mk we) (rsp_content (serverResponse s1)) None \<and> rsp_contentType (wc_response c') = []"
proof -
  have d: "file_decision we cfg vt (c\<lparr>wc_server := s1\<rparr>) info = Inr (c\<lparr>wc_server := s1\<rparr>, 403)"
    using assms(4-7) by (simp add: file_decision_def)
  define c3 where "c3 = set_response (c\<lparr>wc_server := s1\<rparr>) (setDataStreamer (we_mk we) (serverResponse s1) None)"
  have c3: "rsp_contentType (wc_response c3) = []" "rsp_content (wc_response c3) = setStreamableObj (we_mk we) (rsp_content (serverResponse s1)) None"
    by (simp_all add: c3_def set_response_def setDataStreamer_def setContentType_def rsp_header_remove_def Let_def)
  have "handleRegularFileRequest we cfg vt c w = Some (Inr (c3, w, 403))"
    using assms(1-3) d c3(1) by (simp add: handleRegularFileRequest_def Let_def c3_def [symmetric])
  then show ?thesis using c3 by blast
qed


section \<open>Concrete cases of the properties\<close>

theorem path_parameters_read_witness:
  "\<exists>ms. processPathParameters ''items/id/7/id/8'' [] JNull = Inr (''items'', JObject ms) \<and> map_of ms ''id'' = Some (JString ''8'')"
  using path_parameters_read [of "''items''" "[(''id'', ''7''), (''id'', ''8'')]" "[]"] by (auto simp: segment_def)

theorem supported_browsers_refused_witness:
  "\<forall>(we :: ('y, 'o) web_env) (vt :: (('y, 'o, 'u) web_client, 'w) web_vt) (c :: ('y, 'o, 'u) web_client) w.
     \<exists>c'. web_procHTTPClientContent we web_config_new vt
       (c\<lparr>wc_server := (wc_server c)\<lparr>clientRequest := (wc_request c)\<lparr>http_request.userAgent := ''libMantids/0.4''\<rparr>\<rparr>\<rparr>) w = Some (Inr (c', w, 426))"
proof (intro allI)
  fix we :: "('y, 'o) web_env" and vt :: "(('y, 'o, 'u) web_client, 'w) web_vt" and c :: "('y, 'o, 'u) web_client" and w
  let ?c = "c\<lparr>wc_server := (wc_server c)\<lparr>clientRequest := (wc_request c)\<lparr>http_request.userAgent := ''libMantids/0.4''\<rparr>\<rparr>\<rparr>"
  have "isSupportedUserAgent ''libMantids/0.4''" by code_simp
  then have "isSupportedUserAgent (userAgent (wc_request ?c))" by simp
  then show "\<exists>c'. web_procHTTPClientContent we web_config_new vt ?c w = Some (Inr (c', w, 426))"
    using supported_browsers_refused [of web_config_new ?c we vt w] by (simp add: web_config_new_def)
qed

theorem api_version_throws_witness:
  "\<forall>(we :: ('y, 'o) web_env) (vt :: (('y, 'o, 'u) web_client, 'w) web_vt) (c :: ('y, 'o, 'u) web_client) w.
     web_procHTTPClientContent we web_config_new (vt\<lparr>wv_sessionStart := (\<lambda>c w. Inr (c, w, 200))\<rparr>)
       (c\<lparr>wc_server := (wc_server c)\<lparr>clientRequest := (wc_request c)\<lparr>http_request.userAgent := [],
          requestLine := (requestLine (wc_request c))\<lparr>m_requestURI := ''/api/v18446744073709551616/x''\<rparr>\<rparr>\<rparr>\<rparr>) w = Some (Inl (OutOfRange ''stoul''))"
proof (intro allI)
  fix we :: "('y, 'o) web_env" and vt :: "(('y, 'o, 'u) web_client, 'w) web_vt" and c :: "('y, 'o, 'u) web_client" and w
  let ?c = "c\<lparr>wc_server := (wc_server c)\<lparr>clientRequest := (wc_request c)\<lparr>http_request.userAgent := [],
          requestLine := (requestLine (wc_request c))\<lparr>m_requestURI := ''/api/v18446744073709551616/x''\<rparr>\<rparr>\<rparr>\<rparr>"
  have "digits_val ''18446744073709551616'' = 18446744073709551616" by (simp add: digits_val_def of_char_Char)
  moreover have "\<not> isSupportedUserAgent []" "list_all is_digit ''18446744073709551616''" "\<not> list_ex line_end ''x''" by code_simp+
  moreover have "userAgent (wc_request ?c) = []" "getURI (wc_request ?c) = ''/api'' @ ''/v'' @ ''18446744073709551616'' @ ''/'' @ ''x''"
    by (simp_all add: getURI_def)
  moreover have "webServerName (web_config_new :: ('y, 'o, 'w) web_config) = []" "redirections (web_config_new :: ('y, 'o, 'w) web_config) u = None"
    "APIURLs (web_config_new :: ('y, 'o, 'w) web_config) = {''/api''}" for u
    by (simp_all add: web_config_new_def)
  ultimately show "web_procHTTPClientContent we web_config_new (vt\<lparr>wv_sessionStart := (\<lambda>c w. Inr (c, w, 200))\<rparr>) ?c w = Some (Inl (OutOfRange ''stoul''))"
    using api_version_throws [of web_config_new ?c "vt\<lparr>wv_sessionStart := (\<lambda>c w. Inr (c, w, 200))\<rparr>" w ?c w "''/api''" "''18446744073709551616''" "''x''" we]
    by (simp only: web_vt.simps simp_thms) simp
qed

definition example_deny :: resource_filter where
  "example_deny = filter_new\<lparr>f_regexPatterns := [''.*''], f_action := RFILTER_DENY\<rparr>"

definition example_dirs :: "'o filesystem" where
  "example_dirs = \<lparr>fs_realpath = Some, fs_kind = (\<lambda>_. Directory), fs_readable = (\<lambda>_. True), fs_executable = (\<lambda>_. False), fs_map = (\<lambda>_. None), fs_mtime = (\<lambda>_. None)\<rparr>"

theorem refused_file_withheld_witness:
  "\<forall>(we :: ('y, 'o) web_env) (vt :: (('y, 'o, 'u) web_client, 'w) web_vt) (c :: ('y, 'o, 'u) web_client) w element.
     \<exists>c'. handleRegularFileRequest (we\<lparr>we_fs := example_dirs, we_regex_match := (\<lambda>_ _. True)\<rparr>)
       (web_config_new\<lparr>documentRootPath := ''/srv'', resourceFilter := Some [example_deny]\<rparr>)
       (vt\<lparr>wv_getSessionPermissions := (\<lambda>_. Inr {}), wv_getSessionRoles := (\<lambda>_. Inr {})\<rparr>)
       (c\<lparr>wc_server := (wc_server c)\<lparr>m_staticContentElements := [(''/a.html'', element)],
          clientRequest := (wc_request c)\<lparr>requestLine := (requestLine (wc_request c))\<lparr>m_requestURI := ''/a''\<rparr>\<rparr>\<rparr>\<rparr>) w = Some (Inr (c', w, 403))"
proof (intro allI)
  fix we0 :: "('y, 'o) web_env" and vt0 :: "(('y, 'o, 'u) web_client, 'w) web_vt" and c0 :: "('y, 'o, 'u) web_client" and w element
  define we where "we = we0\<lparr>we_fs := example_dirs, we_regex_match := (\<lambda>_ _. True)\<rparr>"
  define cfg where "cfg = (web_config_new :: ('y, 'o, 'w) web_config)\<lparr>documentRootPath := ''/srv'', resourceFilter := Some [example_deny]\<rparr>"
  define vt where "vt = vt0\<lparr>wv_getSessionPermissions := (\<lambda>_. Inr {}), wv_getSessionRoles := (\<lambda>_. Inr {})\<rparr>"
  define c where "c = c0\<lparr>wc_server := (wc_server c0)\<lparr>m_staticContentElements := [(''/a.html'', element)],
          clientRequest := (wc_request c0)\<lparr>requestLine := (requestLine (wc_request c0))\<lparr>m_requestURI := ''/a''\<rparr>\<rparr>\<rparr>\<rparr>"
  have z: "byte_of 0 = CHR 0x00" by code_simp
  have "realpath (we_fs we) ''/srv'' = Some ''/srv''" by (simp add: we_def example_dirs_def realpath_def c_str_def z)
  moreover have "map_of (m_staticContentElements (wc_server c)) (getURI (wc_request c) @ ''.html'') = Some element" by (simp add: c_def getURI_def)
  ultimately have "\<exists>s1 info. find_file we ''/srv'' [''.html'', ''index.html'', []] (wc_server c) info_reset = Inr (s1, info, True) \<and> \<not> isDir info"
    by (auto simp: getLocalFilePathFromURI2_def Let_def info_reset_def)
  then obtain s1 info where f: "find_file we (documentRootPath cfg) [''.html'', ''index.html'', []] (wc_server c) info_reset = Inr (s1, info, True)" "\<not> isDir info"
    by (auto simp: cfg_def)
  have "\<not> fr_accept (evaluateURI (we_regex_match we) [example_deny] (sRealRelativePath info) {} {} (wv_isSessionActive vt (c\<lparr>wc_server := s1\<rparr>)))"
    by (simp add: we_def example_deny_def filter_new_def filter_applies_def filter_decision_def)
  then have "\<exists>c'. handleRegularFileRequest we cfg vt c w = Some (Inr (c', w, 403))"
    using refused_file_withheld [OF _ f, of "[example_deny]" vt "{}" "{}" w] by (auto simp: cfg_def vt_def)
  then show "\<exists>c'. handleRegularFileRequest (we0\<lparr>we_fs := example_dirs, we_regex_match := (\<lambda>_ _. True)\<rparr>)
       (web_config_new\<lparr>documentRootPath := ''/srv'', resourceFilter := Some [example_deny]\<rparr>)
       (vt0\<lparr>wv_getSessionPermissions := (\<lambda>_. Inr {}), wv_getSessionRoles := (\<lambda>_. Inr {})\<rparr>)
       (c0\<lparr>wc_server := (wc_server c0)\<lparr>m_staticContentElements := [(''/a.html'', element)],
          clientRequest := (wc_request c0)\<lparr>requestLine := (requestLine (wc_request c0))\<lparr>m_requestURI := ''/a''\<rparr>\<rparr>\<rparr>\<rparr>) w = Some (Inr (c', w, 403))"
    unfolding we_def cfg_def vt_def c_def .
qed

end
