(* ===== verification/RESTServer.thy ===== *)
theory RESTServer
  imports WebCore
begin

text \<open>
  The server of a REST API (\<^verbatim>\<open>src/Mantids30/Server_RESTfulWebAPI/clienthandler.cpp\<close> and \<^verbatim>\<open>engine.cpp\<close>): who the caller is, is read from the
  token that the request carries, and a request below the base of the API calls a resource. Requests share the validator and the signer of tokens and the data of the
  application.
\<close>

section \<open>State\<close>

record 'v api_world =
  aw_validator :: jwt
  aw_signer :: jwt
  aw_app :: 'v

record ('y, 'o, 'u) rest_client = "('y, 'o, 'u) web_client" +
  m_destroySession :: bool
  m_JWTHeaderTokenVerified :: bool
  m_JWTCookieTokenVerified :: bool

definition rest_client_new :: "('y, 'o, 'u) http_server \<Rightarrow> ('y, 'o, 'u) rest_client" where
  "rest_client_new s =
     \<lparr>wc_server = s, wc_JWTToken = token_empty,
      wc_currentSessionInfo = \<lparr>si_authSession = None, si_halfSessionId = [], si_sessionId = [], si_isImpersonation = False\<rparr>,
      m_destroySession = False, m_JWTHeaderTokenVerified = False, m_JWTCookieTokenVerified = False\<rparr>"

definition rest_isSessionActive :: "('y, 'o, 'u) rest_client \<Rightarrow> bool" where
  "rest_isSessionActive c \<longleftrightarrow> m_JWTHeaderTokenVerified c \<or> m_JWTCookieTokenVerified c"

section \<open>Reading the token\<close>

definition check_token ::
  "('sk, 'pk) jwt_lib \<Rightarrow> int \<Rightarrow> ('y, 'o, 'w) web_config \<Rightarrow> ('y, 'o, 'u) rest_client \<Rightarrow> 'v api_world \<Rightarrow> bytes
    \<Rightarrow> (('y, 'o, 'u) rest_client \<times> 'v api_world \<times> bool) result" where
  "check_token lib now cfg c w strToken =
     (case dynamicTokenValidator cfg of
        Some validator \<Rightarrow>
          (case validator strToken (getXAPIKey (wc_request c)) (wc_JWTToken c) of (t, ok) \<Rightarrow> Inr (c\<lparr>wc_JWTToken := t\<rparr>, w, ok))
      | None \<Rightarrow>
          (case verifyToken lib now (appName cfg) (aw_validator w) (wc_JWTToken c) strToken of
             (j, Inl e) \<Rightarrow> Inl e
           | (j, Inr (t, ok)) \<Rightarrow> Inr (c\<lparr>wc_JWTToken := t\<rparr>, w\<lparr>aw_validator := j\<rparr>, ok)))"

definition start_session :: "int \<Rightarrow> ('y, 'o, 'u) rest_client \<Rightarrow> ('y, 'o, 'u) rest_client" where
  "start_session now c =
     (if rest_isSessionActive c
      then let s = session_new now now (wc_JWTToken c)
           in c\<lparr>wc_currentSessionInfo := \<lparr>si_authSession = Some s, si_halfSessionId = getJwtId (wc_JWTToken c), si_sessionId = getJwtId (wc_JWTToken c),
                  si_isImpersonation = (m_impersonator s \<noteq> [])\<rparr>\<rparr>
      else c)"

definition rest_sessionStart ::
  "('sk, 'pk) jwt_lib \<Rightarrow> int \<Rightarrow> ('y, 'o, 'w) web_config \<Rightarrow> ('y, 'o, 'u) rest_client \<Rightarrow> 'v api_world
    \<Rightarrow> (('y, 'o, 'u) rest_client \<times> 'v api_world \<times> nat) result" where
  "rest_sessionStart lib now cfg c w =
     (let headerBearerToken = getAuthorizationBearer (wc_request c); cookieBearerToken = getCookie (wc_request c) ''AccessToken''
      in case (if headerBearerToken \<noteq> []
               then map_sum id (\<lambda>(c', w', ok). (c'\<lparr>m_JWTHeaderTokenVerified := ok\<rparr>, w')) (check_token lib now cfg c w headerBearerToken)
               else if cookieBearerToken \<noteq> []
               then map_sum id (\<lambda>(c', w', ok). (c'\<lparr>m_JWTCookieTokenVerified := ok\<rparr>, w')) (check_token lib now cfg c w cookieBearerToken)
               else Inr (c, w)) of
           Inl e \<Rightarrow> Inl e
         | Inr (c', w') \<Rightarrow> Inr (start_session now c', w', 200))"

section \<open>The session of a request\<close>

definition rest_fillSessionExtraInfo :: "int \<Rightarrow> ('y, 'o, 'u) rest_client \<Rightarrow> json \<Rightarrow> json result" where
  "rest_fillSessionExtraInfo now c jVars =
     (case json_set jVars ''maxAge'' (JInt 0) of
        Inl e \<Rightarrow> Inl e
      | Inr j \<Rightarrow> if rest_isSessionActive c then json_set j ''maxAge'' (JInt (getExpirationTime (wc_JWTToken c) - now)) else Inr j)"

definition rest_doesSessionVariableExist :: "('y, 'o, 'u) rest_client \<Rightarrow> bytes \<Rightarrow> bool result" where
  "rest_doesSessionVariableExist c varName = (if rest_isSessionActive c then hasClaim (wc_JWTToken c) varName else Inr False)"

definition rest_getSessionVariableValue :: "('y, 'o, 'u) rest_client \<Rightarrow> bytes \<Rightarrow> json result" where
  "rest_getSessionVariableValue c varName = (if rest_isSessionActive c then getClaim (wc_JWTToken c) varName else Inr JNull)"

definition rest_getSessionPermissions :: "('y, 'o, 'u) rest_client \<Rightarrow> bytes set result" where
  "rest_getSessionPermissions c = (if rest_isSessionActive c then getAllPermissions (wc_JWTToken c) else Inr {})"

definition rest_getSessionRoles :: "('y, 'o, 'u) rest_client \<Rightarrow> bytes set result" where
  "rest_getSessionRoles c = (if rest_isSessionActive c then getAllRoles (wc_JWTToken c) else Inr {})"

definition logout_answer ::
  "('y, 'o) web_env \<Rightarrow> ('y, 'o, 'w) web_config \<Rightarrow> ('y, 'o, 'u) rest_client \<Rightarrow> json \<Rightarrow> ('y, 'o, 'u) rest_client" where
  "logout_answer we cfg c r = with_body we c (sj_setValue (sj_setFormatted streamable_json_new (useFormattedJSONOutput cfg)) r)"

text \<open>\<^verbatim>\<open>sessionLogout\<close>. The body is shared, so that it is put into the response with its value.\<close>

definition rest_sessionLogout ::
  "('sk, 'pk) jwt_lib \<Rightarrow> ('y, 'o) web_env \<Rightarrow> ('y, 'o, 'w) web_config \<Rightarrow> ('y, 'o, 'u) rest_client \<Rightarrow> 'v api_world
    \<Rightarrow> (('y, 'o, 'u) rest_client \<times> 'v api_world) result" where
  "rest_sessionLogout lib we cfg c w =
     (if \<not> m_JWTCookieTokenVerified c \<or> \<not> m_destroySession c then Inr (c, w)
      else
        let impersonator = getCookie (wc_request c) ''ImpersonatorToken'' ; now = we_now we
        in if impersonator = []
           then Inr (logout_answer we cfg (set_response c (addCookieClearSecure (wc_response c) ''AccessToken'' ''/''))
                       (JObject [(''authToken'', JNull), (''success'', JBool True)]), w)
           else
             (case verify lib now (aw_validator w) impersonator (Some token_empty) of
                (j, Inl e) \<Rightarrow> Inl e
              | (j, Inr (t, True)) \<Rightarrow>
                  let expires = getExpirationTime t;
                      maxAge = (if expires > now then nat ((expires - now) mod 2 ^ 32) else 0);
                      r = setSecureCookie now (addCookieClearSecure (wc_response c) ''ImpersonatorToken'' ''/'') ''AccessToken'' impersonator maxAge []
                  in Inr (logout_answer we cfg (set_response c r) (JObject [(''authToken'', JString impersonator), (''success'', JBool True)]), w\<lparr>aw_validator := j\<rparr>)
              | (j, Inr (t, False)) \<Rightarrow> Inr (logout_answer we cfg c (JObject [(''success'', JBool False)]), w\<lparr>aw_validator := j\<rparr>)))"

section \<open>Calling a resource\<close>

type_synonym ('v, 'y, 'o) rest_handlers = "nat \<rightharpoonup> ('v api_world, 'y, 'o) rest_handler"

text \<open>The path parameters are not passed on.\<close>

definition rest_handleAPIRequest ::
  "('y, 'o) web_env \<Rightarrow> ('v, 'y, 'o) rest_handlers \<Rightarrow> ('y, 'o, 'u) rest_client \<Rightarrow> 'v api_world \<Rightarrow> api_return \<Rightarrow> bytes \<Rightarrow> nat \<Rightarrow> bytes \<Rightarrow> bytes
    \<Rightarrow> json \<Rightarrow> json \<Rightarrow> (('y, 'o, 'u) rest_client \<times> 'v api_world \<times> api_return) result" where
  "rest_handleAPIRequest we handlers c w apiReturn baseApiUrl apiVersion methodMode methodName pathParameters postParameters =
     (case rest_getSessionPermissions c of
        Inl e \<Rightarrow> Inl e
      | Inr currentPermissions \<Rightarrow>
          let p = (request_parameters_new (wc_request c))\<lparr>rp_jwtToken := (if rest_isSessionActive c then wc_JWTToken c else token_empty)\<rparr>;
              sec = \<lparr>haveJWTAuthHeader = m_JWTHeaderTokenVerified c, haveJWTAuthCookie = m_JWTCookieTokenVerified c\<rparr>
          in (case handlers apiVersion of
                None \<Rightarrow> map_sum id (\<lambda>r. (c, w, r)) (setError apiReturn 404 ''invalid_api_request'' ''Resource Not Found'')
              | Some h \<Rightarrow>
                  (case invokeResource_named (we_json we) h w methodMode methodName p currentPermissions sec (Some apiReturn) of
                     Inl e \<Rightarrow> Inl e
                   | Inr (p', w', r, code) \<Rightarrow>
                       Inr (c\<lparr>wc_server := (wc_server c)\<lparr>clientRequest := rp_clientRequest p'\<rparr>\<rparr>, w', case r of Some r \<Rightarrow> r | None \<Rightarrow> apiReturn))))"

definition rest_handleAuthFunctions :: "('y, 'o, 'u) rest_client \<Rightarrow> 'w \<Rightarrow> bytes \<Rightarrow> bytes \<Rightarrow> (('y, 'o, 'u) rest_client \<times> 'w \<times> nat) result" where
  "rest_handleAuthFunctions c w baseApiUrl authFunctionName = Inr (c, w, 501)"

definition rest_vt ::
  "('sk, 'pk) jwt_lib \<Rightarrow> ('y, 'o) web_env \<Rightarrow> ('y, 'o, 'v api_world) web_config \<Rightarrow> ('v, 'y, 'o) rest_handlers
    \<Rightarrow> (('y, 'o, 'u) rest_client, 'v api_world) web_vt" where
  "rest_vt lib we cfg handlers =
     \<lparr>wv_sessionStart = rest_sessionStart lib (we_now we) cfg, wv_sessionCleanup = rest_sessionLogout lib we cfg,
      wv_fillSessionExtraInfo = rest_fillSessionExtraInfo (we_now we), wv_doesSessionVariableExist = rest_doesSessionVariableExist,
      wv_getSessionVariableValue = rest_getSessionVariableValue, wv_handleAPIRequest = rest_handleAPIRequest we handlers,
      wv_handleAuthFunctions = rest_handleAuthFunctions, wv_handleAPIInfo = (\<lambda>_. JNull), wv_isSessionActive = rest_isSessionActive,
      wv_getSessionPermissions = rest_getSessionPermissions, wv_getSessionRoles = rest_getSessionRoles\<rparr>"

definition rest_procHTTPClientContent ::
  "('sk, 'pk) jwt_lib \<Rightarrow> ('y, 'o) web_env \<Rightarrow> ('y, 'o, 'v api_world) web_config \<Rightarrow> ('v, 'y, 'o) rest_handlers \<Rightarrow> ('y, 'o, 'u) rest_client \<Rightarrow> 'v api_world
    \<Rightarrow> (('y, 'o, 'u) rest_client \<times> 'v api_world \<times> nat) result option" where
  "rest_procHTTPClientContent lib we cfg handlers = web_procHTTPClientContent we cfg (rest_vt lib we cfg handlers)"

section \<open>The engine\<close>

definition revokeJWT :: "('sk, 'pk) jwt_lib \<Rightarrow> ('v api_world, 'y, 'o) rest_method" where
  "revokeJWT lib w response request authClientDetails =
     (let jwtSignature = decodeFromBase64 (bio_decode lib) (JSON_ASSTRING (rp_pathParameters request) ''signature'' []) True;
          expirationTime = to_time (JSON_ASUINT64 (rp_pathParameters request) ''expiration'' 0); j = aw_validator w
      in (w\<lparr>aw_validator := j\<lparr>m_revocation := addToRevocationList (m_revocation j) jwtSignature expirationTime\<rparr>\<rparr>, response))"

definition engine_handlers :: "('sk, 'pk) jwt_lib \<Rightarrow> ('v, 'y, 'o) rest_handlers" where
  "engine_handlers lib =
     [0 \<mapsto> fst (addResource rest_handler_new POST ''revokeJWT'' (resource_new\<lparr>rd_method := Some (revokeJWT lib), rd_requiredPermissions := {''IAM''}\<rparr>))]"


section \<open>What the server guards\<close>

text \<open>A token of a request that the server accepts, and the resources that the tokens of a client open.\<close>

definition token_accepted ::
  "('sk, 'pk) jwt_lib \<Rightarrow> int \<Rightarrow> ('y, 'o, 'w) web_config \<Rightarrow> 'v api_world \<Rightarrow> bytes \<Rightarrow> token \<Rightarrow> bool" where
  "token_accepted lib now cfg w strToken t \<longleftrightarrow>
     strToken \<noteq> [] \<and> snd (verifyToken lib now (appName cfg) (aw_validator w) token_empty strToken) = Inr (t, True)"

text \<open>
  A resource that these texts of tokens open, \<open>t\<close> being the token that was accepted: the one of the header when the resource asks for it, the one of the
  cookie when it asks for that, and an accepted token with every permission that the resource needs.
\<close>

definition opened_by ::
  "('sk, 'pk) jwt_lib \<Rightarrow> int \<Rightarrow> ('y, 'o, 'w) web_config \<Rightarrow> 'v api_world \<Rightarrow> bytes \<Rightarrow> bytes \<Rightarrow> token \<Rightarrow> ('v api_world, 'y, 'o) resource \<Rightarrow> bool" where
  "opened_by lib now cfg w header cookie t d \<longleftrightarrow>
     (rd_requireJWTHeaderAuthentication d \<longrightarrow> token_accepted lib now cfg w header t)
     \<and> (rd_requireJWTCookieAuthentication d \<longrightarrow> token_accepted lib now cfg w cookie t)
     \<and> (rd_requiredPermissions d = {} \<or> (token_accepted lib now cfg w header t \<or> token_accepted lib now cfg w cookie t)
          \<and> (\<exists>permissions. getAllPermissions t = Inr permissions \<and> rd_requiredPermissions d \<subseteq> permissions))"

text \<open>
  What calls of functions make of the shared state: every step is the run of the function of a registered resource that is granted, for the caller \<open>t\<close>,
  on the state that the steps before left, or it leaves the data of the application alone.
\<close>

inductive granted_run ::
  "('v, 'y, 'o) rest_handlers \<Rightarrow> (('v api_world, 'y, 'o) resource \<Rightarrow> bool) \<Rightarrow> token \<Rightarrow> 'v api_world \<Rightarrow> (nat \<times> MethodMode \<times> bytes) list \<Rightarrow> 'v api_world \<Rightarrow> bool"
  for handlers granted t w where
  run_start: "granted_run handlers granted t w [] w"
| run_tokens: "granted_run handlers granted t w calls w1 \<Longrightarrow> aw_app w2 = aw_app w1 \<Longrightarrow> granted_run handlers granted t w calls w2"
| run_call: "granted_run handlers granted t w calls w1 \<Longrightarrow> handlers version = Some h \<Longrightarrow> resources h mode name = Some d \<Longrightarrow> rd_method d = Some m
    \<Longrightarrow> granted d \<Longrightarrow> rp_jwtToken p = t \<Longrightarrow> m w1 r p (extractClientDetails p) = (w2, r') \<Longrightarrow> granted_run handlers granted t w (calls @ [(version, mode, name)]) w2"

lemma granted_run_none: "granted_run handlers granted t w calls w' \<Longrightarrow> calls = [] \<Longrightarrow> aw_app w' = aw_app w"
  by (induction rule: granted_run.induct) auto

lemma granted_run_append:
  assumes "granted_run handlers granted t w1 calls2 w2" and "granted_run handlers granted t w calls1 w1"
  shows "granted_run handlers granted t w (calls1 @ calls2) w2"
  using assms
proof (induction rule: granted_run.induct)
  case (run_call calls w1 version h mode name d m p r w2 r')
  then show ?case using granted_run.run_call [of handlers granted t w "calls1 @ calls" w1 version h mode name d m p r w2 r'] by simp
qed (auto intro: granted_run.run_tokens)

lemma granted_run_mono: "granted_run handlers granted t w calls w' \<Longrightarrow> (\<And>d. granted d \<Longrightarrow> granted' d) \<Longrightarrow> granted_run handlers granted' t w calls w'"
  by (induction rule: granted_run.induct) (auto intro: granted_run.intros)

lemma granted_run_app: "granted_run handlers granted t w calls w' \<Longrightarrow> aw_app w0 = aw_app w \<Longrightarrow> granted_run handlers granted t w0 calls w'"
  using granted_run_append [OF _ run_tokens [OF run_start]] by fastforce

text \<open>The resources that the tokens of a client open, and the token that functions get to see.\<close>

definition client_security :: "('y, 'o, 'u) rest_client \<Rightarrow> security_parameters" where
  "client_security c = \<lparr>haveJWTAuthHeader = m_JWTHeaderTokenVerified c, haveJWTAuthCookie = m_JWTCookieTokenVerified c\<rparr>"

definition may_call_as :: "('y, 'o, 'u) rest_client \<Rightarrow> ('v api_world, 'y, 'o) resource \<Rightarrow> bool" where
  "may_call_as c d \<longleftrightarrow> (\<exists>permissions. rest_getSessionPermissions c = Inr permissions \<and> may_call d permissions (client_security c))"

definition caller :: "('y, 'o, 'u) rest_client \<Rightarrow> token" where
  "caller c = (if rest_isSessionActive c then wc_JWTToken c else token_empty)"

text \<open>What a request keeps: the tokens of the client, and the data of the application except for calls of resources that these tokens open.\<close>

definition same_tokens :: "('y, 'o, 'u) rest_client \<Rightarrow> ('y, 'o, 'u) rest_client \<Rightarrow> bool" where
  "same_tokens c c' \<longleftrightarrow> m_JWTHeaderTokenVerified c' = m_JWTHeaderTokenVerified c \<and> m_JWTCookieTokenVerified c' = m_JWTCookieTokenVerified c
     \<and> wc_JWTToken c' = wc_JWTToken c"

definition guarded ::
  "('v, 'y, 'o) rest_handlers \<Rightarrow> ('y, 'o, 'u) rest_client \<Rightarrow> 'v api_world \<Rightarrow> ('y, 'o, 'u) rest_client \<Rightarrow> 'v api_world \<Rightarrow> bool" where
  "guarded handlers c w c' w' \<longleftrightarrow> same_tokens c c' \<and> (\<exists>calls. granted_run handlers (may_call_as c) (caller c) w calls w')"

lemma same_tokens_trans: "same_tokens c c1 \<Longrightarrow> same_tokens c1 c2 \<Longrightarrow> same_tokens c c2"
  by (simp add: same_tokens_def)

lemma same_tokens_guard: "same_tokens c c' \<Longrightarrow> may_call_as c' = may_call_as c \<and> caller c' = caller c"
  by (auto simp: same_tokens_def may_call_as_def caller_def client_security_def rest_getSessionPermissions_def rest_isSessionActive_def)

lemma same_tokens_server [simp]: "same_tokens c (c'\<lparr>wc_server := s\<rparr>) = same_tokens c c'"
  by (simp add: same_tokens_def)

lemma guarded_trans: "guarded handlers c w c1 w1 \<Longrightarrow> guarded handlers c1 w1 c2 w2 \<Longrightarrow> guarded handlers c w c2 w2"
  unfolding guarded_def by (metis same_tokens_trans same_tokens_guard granted_run_append)

lemma guarded_refl: "guarded handlers c w c w"
  by (auto simp: guarded_def same_tokens_def intro: run_start)

text \<open>A request for a function is at most one call, of the function that was asked for.\<close>

lemma rest_api_calls:
  assumes "rest_handleAPIRequest we handlers c w r b v mode name pp post = Inr (c', w', r')"
  obtains calls where "same_tokens c c'" and "granted_run handlers (may_call_as c) (caller c) w calls w'"
    and "calls = [] \<or> (\<exists>m. mode = methodModeToString m \<and> calls = [(v, m, name)])"
proof -
  let ?p = "(request_parameters_new (wc_request c))\<lparr>rp_jwtToken := caller c\<rparr>"
  obtain permissions where perm: "rest_getSessionPermissions c = Inr permissions"
    using assms by (auto simp: rest_handleAPIRequest_def result_Inr)
  have t: "same_tokens c c'"
    using assms by (auto simp: rest_handleAPIRequest_def same_tokens_def Let_def result_Inr split: option.splits)
  show thesis
  proof (cases "\<exists>h p' r1 code. handlers v = Some h \<and> (code = SUCCESS \<or> w' \<noteq> w)
      \<and> invokeResource_named (we_json we) h w mode name ?p permissions (client_security c) (Some r) = Inr (p', w', r1, code)")
    case True
    then obtain h p' r1 code where call: "handlers v = Some h" "code = SUCCESS \<or> w' \<noteq> w"
        "invokeResource_named (we_json we) h w mode name ?p permissions (client_security c) (Some r) = Inr (p', w', r1, code)" by blast
    obtain m where m: "mode = methodModeToString m" "invokeResource (we_json we) h w m name ?p permissions (client_security c) (Some r) = Inr (p', w', r1, code)"
      using invokeResource_named_mode [OF call(3,2)] by blast
    obtain d f r0 where d: "resources h m name = Some d" "rd_method d = Some f" "may_call d permissions (client_security c)"
        "f w r0 p' (extractClientDetails p') = (w', the r1)" "rp_jwtToken p' = caller c"
      using invokeResource_success [OF m(2) call(2)] by auto
    have granted: "may_call_as c d" using perm d(3) by (auto simp: may_call_as_def)
    have "granted_run handlers (may_call_as c) (caller c) w ([] @ [(v, m, name)]) w'"
      by (rule run_call [where m = f and p = p' and r = r0 and r' = "the r1", OF run_start]) (use granted call(1) d(1,2,4,5) in auto)
    then show thesis using that t m(1) by auto
  next
    case False
    then have "w' = w" using assms perm
      by (auto simp: rest_handleAPIRequest_def caller_def client_security_def Let_def result_Inr split: option.splits; blast)
    then show thesis using that [OF t] run_start by blast
  qed
qed

lemma rest_api_guarded: "rest_handleAPIRequest we handlers c w r b v mode name pp post = Inr (c', w', r') \<Longrightarrow> guarded handlers c w c' w'"
  unfolding guarded_def by (erule rest_api_calls) blast

lemma logout_same_tokens: "rest_sessionLogout lib we cfg c w = Inr (c', w') \<Longrightarrow> same_tokens c c' \<and> aw_app w' = aw_app w"
  by (auto simp: rest_sessionLogout_def Let_def result_Inr same_tokens_def logout_answer_def with_body_def set_response_def
      split: if_splits prod.splits sum.splits bool.splits)

interpretation rest: web_session "rest_vt lib we' cfg' handlers" "guarded handlers c0 w0"
proof
  show "guarded handlers c0 w0 (c\<lparr>wc_server := s\<rparr>) w" if "guarded handlers c0 w0 c w" for c w s
    using that by (simp add: guarded_def)
  show "guarded handlers c0 w0 c' w'"
    if "guarded handlers c0 w0 c w" "wv_handleAPIRequest (rest_vt lib we' cfg' handlers) c w r b v mode name pp post = Inr (c', w', r')"
    for c w r b v mode name pp post c' w' r'
    using that guarded_trans rest_api_guarded by (fastforce simp: rest_vt_def)
  show "guarded handlers c0 w0 c' w'"
    if "guarded handlers c0 w0 c w" "wv_handleAuthFunctions (rest_vt lib we' cfg' handlers) c w b f = Inr (c', w', st)" for c w b f c' w' st
    using that by (simp add: rest_vt_def rest_handleAuthFunctions_def)
  show "guarded handlers c0 w0 c' w'"
    if "guarded handlers c0 w0 c w" "wv_sessionCleanup (rest_vt lib we' cfg' handlers) c w = Inr (c', w')" for c w c' w'
    using that(1) logout_same_tokens [of lib we' cfg' c w c' w'] that(2) same_tokens_trans run_tokens unfolding guarded_def rest_vt_def by fastforce
qed


lemma check_token_accepted:
  assumes "check_token lib now cfg c w strToken = Inr (c', w', ok)" and "dynamicTokenValidator cfg = None" and "wc_JWTToken c = token_empty" and "strToken \<noteq> []"
  shows "aw_app w' = aw_app w" and "ok \<Longrightarrow> token_accepted lib now cfg w strToken (wc_JWTToken c')"
  using assms by (auto simp: check_token_def token_accepted_def split: prod.splits sum.splits)

lemma check_token_flags:
  assumes "check_token lib now cfg c w strToken = Inr (c', w', ok)"
  shows "m_JWTHeaderTokenVerified c' = m_JWTHeaderTokenVerified c" and "m_JWTCookieTokenVerified c' = m_JWTCookieTokenVerified c"
  using assms by (auto simp: check_token_def split: prod.splits sum.splits option.splits)

lemma start_session_keeps [simp]:
  "m_JWTHeaderTokenVerified (start_session now c) = m_JWTHeaderTokenVerified c" "m_JWTCookieTokenVerified (start_session now c) = m_JWTCookieTokenVerified c"
  "wc_JWTToken (start_session now c) = wc_JWTToken c"
  by (simp_all add: start_session_def Let_def)

text \<open>The start of a session reads one token: the one of the header, or the one of the cookie when there is none in the header.\<close>

lemma session_start_cases:
  assumes "rest_sessionStart lib now cfg c w = Inr (c1, w1, st)" and "\<not> rest_isSessionActive c"
  obtains c2 where "getAuthorizationBearer (wc_request c) \<noteq> []"
      "check_token lib now cfg c w (getAuthorizationBearer (wc_request c)) = Inr (c2, w1, m_JWTHeaderTokenVerified c1)"
      "wc_JWTToken c1 = wc_JWTToken c2" "\<not> m_JWTCookieTokenVerified c1"
  | c2 where "getCookie (wc_request c) ''AccessToken'' \<noteq> []"
      "check_token lib now cfg c w (getCookie (wc_request c) ''AccessToken'') = Inr (c2, w1, m_JWTCookieTokenVerified c1)"
      "wc_JWTToken c1 = wc_JWTToken c2" "\<not> m_JWTHeaderTokenVerified c1"
  | "w1 = w" "\<not> rest_isSessionActive c1"
proof -
  let ?bearer = "getAuthorizationBearer (wc_request c)" and ?cookie = "getCookie (wc_request c) ''AccessToken''"
  have off: "\<not> m_JWTHeaderTokenVerified c" "\<not> m_JWTCookieTokenVerified c" using assms(2) by (auto simp: rest_isSessionActive_def)
  consider "?bearer \<noteq> []" | "?bearer = []" "?cookie \<noteq> []" | "?bearer = []" "?cookie = []" by blast
  then show thesis
  proof cases
    case 1
    then obtain c2 ok where "check_token lib now cfg c w ?bearer = Inr (c2, w1, ok)" "c1 = start_session now (c2\<lparr>m_JWTHeaderTokenVerified := ok\<rparr>)"
      using assms(1) by (auto simp: rest_sessionStart_def Let_def result_Inr)
    then show thesis using that(1) [of c2] 1 off check_token_flags(2) by fastforce
  next
    case 2
    then obtain c2 ok where "check_token lib now cfg c w ?cookie = Inr (c2, w1, ok)" "c1 = start_session now (c2\<lparr>m_JWTCookieTokenVerified := ok\<rparr>)"
      using assms(1) by (auto simp: rest_sessionStart_def Let_def result_Inr)
    then show thesis using that(2) [of c2] 2 off check_token_flags(1) by fastforce
  next
    case 3
    then show thesis using assms that(3) by (auto simp: rest_sessionStart_def Let_def start_session_def)
  qed
qed

lemma session_start_tokens:
  assumes "rest_sessionStart lib now cfg c w = Inr (c1, w1, st)" and "dynamicTokenValidator cfg = None" and "\<not> rest_isSessionActive c"
    and "wc_JWTToken c = token_empty"
  shows "aw_app w1 = aw_app w
    \<and> (m_JWTHeaderTokenVerified c1 \<longrightarrow> token_accepted lib now cfg w (getAuthorizationBearer (wc_request c)) (wc_JWTToken c1))
    \<and> (m_JWTCookieTokenVerified c1 \<longrightarrow> token_accepted lib now cfg w (getCookie (wc_request c) ''AccessToken'') (wc_JWTToken c1))"
  using assms(1,3)
proof (cases rule: session_start_cases)
  case (1 c2)
  then show ?thesis using check_token_accepted [OF 1(2) assms(2,4) 1(1)] by auto
next
  case (2 c2)
  then show ?thesis using check_token_accepted [OF 2(2) assms(2,4) 2(1)] by auto
next
  case 3
  then show ?thesis by (simp add: rest_isSessionActive_def)
qed

lemma new_client [simp]:
  "\<not> rest_isSessionActive (rest_client_new s)" "wc_JWTToken (rest_client_new s) = token_empty" "wc_server (rest_client_new s) = s"
  by (simp_all add: rest_client_new_def rest_isSessionActive_def)

lemma new_client_named: "(rest_client_new s)\<lparr>wc_server := s'\<rparr> = rest_client_new s'"
  by (simp add: rest_client_new_def)

lemma setResponseServerName_request: "setResponseServerName rand s name = Inr s' \<Longrightarrow> clientRequest s' = clientRequest s"
  by (auto simp: setResponseServerName_def split: sum.splits)

lemma rest_vt_start [simp]: "wv_sessionStart (rest_vt lib we cfg handlers) = rest_sessionStart lib (we_now we) cfg"
  by (simp add: rest_vt_def)

text \<open>A request that changes data has started a session and gone on to a path of the server.\<close>

lemma request_session:
  assumes "rest_procHTTPClientContent lib we cfg handlers (rest_client_new s) w = Some (Inr (c', w', st))" and "aw_app w' \<noteq> aw_app w"
  obtains s1 c1 w1 where "clientRequest s1 = clientRequest s" "rest_sessionStart lib (we_now we) cfg (rest_client_new s1) w = Inr (c1, w1, 200)"
    "session_request we cfg (rest_vt lib we cfg handlers) c1 w1 = Some (Inr (c', w', st))"
proof -
  let ?named = "if webServerName cfg \<noteq> [] then map_sum id (\<lambda>s'. (rest_client_new s)\<lparr>wc_server := s'\<rparr>) (setResponseServerName (we_rand we) s (webServerName cfg))
    else Inr (rest_client_new s)"
  obtain c where c: "?named = Inr c"
    using assms(1) by (auto simp: rest_procHTTPClientContent_def web_procHTTPClientContent_def result_Inr split: if_splits)
  then obtain s1 where s1: "c = rest_client_new s1" "clientRequest s1 = clientRequest s"
    by (auto simp: map_Inr new_client_named setResponseServerName_request split: if_splits)
  have rest: "(case rest_sessionStart lib (we_now we) cfg c w of Inl e \<Rightarrow> Some (Inl e)
      | Inr (c1, w1, st1) \<Rightarrow> if st1 \<noteq> 200 then Some (Inr (c1, w1, st1)) else session_request we cfg (rest_vt lib we cfg handlers) c1 w1) = Some (Inr (c', w', st))"
    using assms c by (auto simp: rest_procHTTPClientContent_def web_procHTTPClientContent_def map_Inr split: if_splits option.splits prod.splits)
  then obtain c1 w1 st1 where s: "rest_sessionStart lib (we_now we) cfg c w = Inr (c1, w1, st1)" by (auto simp: bind_Some_Inr)
  then have "st1 = 200" by (auto simp: rest_sessionStart_def Let_def result_Inr)
  then show thesis using that s1 s rest by simp
qed

text \<open>The start of a session leaves the request alone.\<close>

lemma session_start_server: "rest_sessionStart lib now cfg c w = Inr (c1, w1, st) \<Longrightarrow> wc_server c1 = wc_server c"
  by (auto simp: rest_sessionStart_def check_token_def start_session_def Let_def result_Inr split: if_splits option.splits prod.splits sum.splits)

lemma same_tokens_answer [simp]: "same_tokens c (with_body we c' b) = same_tokens c c'" "same_tokens c (set_response c' r) = same_tokens c c'"
  by (simp_all add: with_body_def set_response_def same_tokens_def)

lemma same_tokens_redirect: "redirectUsingJS we c url = (c', st) \<Longrightarrow> same_tokens c c'"
  by (auto simp: redirectUsingJS_def Let_def same_tokens_def set_response_def split: if_splits)

lemma same_tokens_refl [simp]: "same_tokens c c"
  by (simp add: same_tokens_def)

lemma api_request_calls:
  assumes "api_request we cfg (rest_vt lib we cfg handlers) c w b version rest = Inr (c', w', st)"
  obtains calls where "same_tokens c c'" and "granted_run handlers (may_call_as c) (caller c) w calls w'"
    and "calls = [] \<or> (\<exists>mode name pp. processPathParameters rest [] JNull = Inr (name, pp)
      \<and> c_str (m_requestMethod (requestLine (wc_request c))) = methodModeToString mode \<and> calls = [(version mod 2 ^ 32, mode, name)])"
proof -
  obtain name pp where n: "processPathParameters rest [] JNull = Inr (name, pp)" using assms by (auto simp: api_request_def Let_def result_Inr)
  show thesis
  proof (cases "origin_permitted cfg (wc_request c) name")
    case True
    let ?r0 = "api_return_new\<lparr>ar_body := sj_setFormatted streamable_json_new (useFormattedJSONOutput cfg)\<rparr>"
    obtain post c1 w1 r where call: "rest_handleAPIRequest we handlers c w ?r0 b (version mod 2 ^ 32)
        (c_str (m_requestMethod (requestLine (wc_request c)))) name pp post = Inr (c1, w1, r)"
      and answer: "(let c2 = with_body we c1 (ar_body r); rs = fold (\<lambda>(n, v) rs. setCookie rs n v) (ar_cookiesMap r) (wc_response c2)
        in (case add_headers (we_rand we) (ar_httpExtraHeaders r) rs of
              Inl e \<Rightarrow> Inl e
            | Inr rs' \<Rightarrow> let c3 = set_response c2 rs'
                in if ar_redirectURL r \<noteq> [] then (case redirectUsingJS we c3 (ar_redirectURL r) of (c4, st) \<Rightarrow> Inr (c4, w1, st))
                   else Inr (c3, w1, ar_httpResponseCode r))) = Inr (c', w', st)"
      using assms n True unfolding api_request_def rest_vt_def Let_def by (auto simp: result_Inr)
    have same: "same_tokens c1 c' \<and> w' = w1"
    proof (cases "ar_redirectURL r = []")
      case True
      then show ?thesis using answer by (auto simp: Let_def result_Inr)
    next
      case False
      then obtain rs' c4 st4 where "redirectUsingJS we (set_response (with_body we c1 (ar_body r)) rs') (ar_redirectURL r) = (c4, st4)" "c4 = c'" "w' = w1"
        using answer by (auto simp: Let_def result_Inr case_prod_beta prod_eq_iff)
      then show ?thesis using same_tokens_redirect same_tokens_trans by (metis same_tokens_answer same_tokens_refl)
    qed
    from rest_api_calls [OF call] show thesis using that n same same_tokens_trans by metis
  next
    case False
    then have "same_tokens c c'" "w' = w" using assms n
      by (auto simp: api_request_def Let_def map_Inr with_body_def set_response_def same_tokens_def)
    then show thesis using that run_start by blast
  qed
qed

lemma session_request_call:
  assumes "session_request we cfg (rest_vt lib we cfg handlers) c w = Some (Inr (c', w', st))"
    and "find (\<lambda>b. starts_with (getURI (wc_request c)) (b @ ''/'')) (sorted_list_of_set (APIURLs cfg)) = Some b"
    and "split_version (drop (length b) (getURI (wc_request c))) = Some (ds, rest)"
  obtains calls where "granted_run handlers (may_call_as c) (caller c) w calls w'"
    and "calls = [] \<or> (\<exists>mode name pp. processPathParameters rest [] JNull = Inr (name, pp)
      \<and> c_str (m_requestMethod (requestLine (wc_request c))) = methodModeToString mode \<and> calls = [(digits_val ds mod 2 ^ 32, mode, name)])"
proof -
  obtain c1 w1 st1 where r: "api_request we cfg (rest_vt lib we cfg handlers) c w b (digits_val ds) rest = Inr (c1, w1, st1)"
      "rest_sessionLogout lib we cfg c1 w1 = Inr (c', w')"
    using assms
    by (auto simp: session_request_def api_path_def Let_def result_Inr map_Inr rest_vt_def split: if_splits sum.splits prod.splits bool.splits)
  from api_request_calls [OF r(1)] show thesis
    using that run_tokens conjunct2 [OF logout_same_tokens [OF r(2)]] by metis
qed

lemma client_grants:
  assumes "m_JWTHeaderTokenVerified c \<longrightarrow> token_accepted lib now cfg w header (wc_JWTToken c)"
    and "m_JWTCookieTokenVerified c \<longrightarrow> token_accepted lib now cfg w cookie (wc_JWTToken c)"
  shows "may_call_as c d \<Longrightarrow> opened_by lib now cfg w header cookie (caller c) d"
    and "caller c = token_empty \<or> token_accepted lib now cfg w header (caller c) \<or> token_accepted lib now cfg w cookie (caller c)"
  using assms
  by (auto simp: may_call_as_def may_call_def client_security_def opened_by_def caller_def rest_getSessionPermissions_def rest_isSessionActive_def
      split: if_splits)

text \<open>
  C30. Who may change data through a REST API. On a server that checks its tokens itself and has no handlers of its own for paths, the data of the application after
  a request are what a sequence of calls makes of the data before: each call runs the function of a registered resource, and that resource is open to the tokens
  of the request, that is, the bearer token of the header was accepted if the resource asks for it, the token of the cookie if it asks for that, and the
  accepted token, which is also the one that the function gets, holds every permission that the resource needs. A token is accepted when the validator
  accepts it and it was issued for the application of the server. When the path is one of the API there is at most one call, and
  it is that of the version, the method and the name in the request; else the calls are those of a page. Without a call the data stay the same.
\<close>

theorem rest_request_authorised:
  assumes "rest_procHTTPClientContent lib we cfg handlers (rest_client_new s) w = Some (Inr (c', w', st))" and "aw_app w' \<noteq> aw_app w"
    and "dynamicTokenValidator cfg = None" and "dynamicRequestHandlersByRoute cfg = []"
  defines "header \<equiv> getAuthorizationBearer (clientRequest s)" and "cookie \<equiv> getCookie (clientRequest s) ''AccessToken''" and "uri \<equiv> getURI (clientRequest s)"
  shows "\<exists>t calls. granted_run handlers (opened_by lib (we_now we) cfg w header cookie t) t w calls w' \<and> calls \<noteq> []
    \<and> (t = token_empty \<or> token_accepted lib (we_now we) cfg w header t \<or> token_accepted lib (we_now we) cfg w cookie t)
    \<and> (\<forall>b ds rest. find (\<lambda>b. starts_with uri (b @ ''/'')) (sorted_list_of_set (APIURLs cfg)) = Some b \<longrightarrow> split_version (drop (length b) uri) = Some (ds, rest) \<longrightarrow>
        (\<exists>mode name pp. processPathParameters rest [] JNull = Inr (name, pp) \<and> c_str (m_requestMethod (requestLine (clientRequest s))) = methodModeToString mode
          \<and> calls = [(digits_val ds mod 2 ^ 32, mode, name)]))"
proof -
  obtain s1 c1 w1 where s1: "clientRequest s1 = clientRequest s" "rest_sessionStart lib (we_now we) cfg (rest_client_new s1) w = Inr (c1, w1, 200)"
    "session_request we cfg (rest_vt lib we cfg handlers) c1 w1 = Some (Inr (c', w', st))"
    using request_session [OF assms(1,2)] by blast
  have t: "aw_app w1 = aw_app w" "m_JWTHeaderTokenVerified c1 \<longrightarrow> token_accepted lib (we_now we) cfg w header (wc_JWTToken c1)"
    "m_JWTCookieTokenVerified c1 \<longrightarrow> token_accepted lib (we_now we) cfg w cookie (wc_JWTToken c1)"
    using session_start_tokens [OF s1(2) assms(3)] s1(1) by (simp_all add: header_def cookie_def)
  note grants = client_grants [OF t(2,3)]
  have rq: "wc_request c1 = clientRequest s" using session_start_server [OF s1(2)] s1(1) by simp
  have run: "granted_run handlers (opened_by lib (we_now we) cfg w header cookie (caller c1)) (caller c1) w calls w' \<and> calls \<noteq> []"
    if "granted_run handlers (may_call_as c1) (caller c1) w1 calls w'" for calls
  proof
    show "granted_run handlers (opened_by lib (we_now we) cfg w header cookie (caller c1)) (caller c1) w calls w'"
      by (rule granted_run_app [OF granted_run_mono [OF that grants(1)] t(1) [symmetric]])
    show "calls \<noteq> []" using granted_run_none [OF that] t(1) assms(2) by metis
  qed
  show ?thesis
  proof (cases "\<exists>b ds rest. find (\<lambda>b. starts_with uri (b @ ''/'')) (sorted_list_of_set (APIURLs cfg)) = Some b \<and> split_version (drop (length b) uri) = Some (ds, rest)")
    case True
    then obtain b ds rest where p: "find (\<lambda>b. starts_with uri (b @ ''/'')) (sorted_list_of_set (APIURLs cfg)) = Some b" "split_version (drop (length b) uri) = Some (ds, rest)"
      by blast
    obtain calls where "granted_run handlers (may_call_as c1) (caller c1) w1 calls w'"
      "calls = [] \<or> (\<exists>mode name pp. processPathParameters rest [] JNull = Inr (name, pp)
        \<and> c_str (m_requestMethod (requestLine (clientRequest s))) = methodModeToString mode \<and> calls = [(digits_val ds mod 2 ^ 32, mode, name)])"
      using session_request_call [OF s1(3), of b ds rest] p rq unfolding uri_def by auto
    then show ?thesis using run grants(2) p by (intro exI [of _ "caller c1"] exI [of _ calls]) auto
  next
    case False
    obtain calls where "granted_run handlers (may_call_as c1) (caller c1) w1 calls w'"
      using rest.session_request_keeps [OF guarded_refl assms(4) s1(3)] by (auto simp: guarded_def)
    then show ?thesis using run grants(2) False by (intro exI [of _ "caller c1"] exI [of _ calls]) auto
  qed
qed

lemma refuse_null:
  assumes "sj_root (ar_body r) = JNull"
  shows "\<exists>r'. refuse p w (Some r) st msg code = Inr (p, w, Some r', code) \<and> ar_httpResponseCode r' = st"
  using assms by (simp add: refuse_def setError_def map_sum_def)

text \<open>
  C32. Resources that ask for both tokens. The start of a session checks one token, so that a resource that asks for a verified token in the header and for one in the
  cookie, as resources do by default and as the resource that revokes tokens does, is closed to every caller: its call is answered with 403 and changes nothing,
  whatever tokens the request carries.
\<close>

theorem both_tokens_never:
  assumes "rest_sessionStart lib now cfg (rest_client_new s) w = Inr (c1, w1, st)" and "handlers version = Some h" and "resources h mode name = Some d"
    and "rd_requireJWTHeaderAuthentication d" and "rd_requireJWTCookieAuthentication d" and "sj_root (ar_body r) = JNull"
    and "rest_getSessionPermissions c1 = Inr permissions"
  shows "\<exists>r'. rest_handleAPIRequest we handlers c1 w1 r b version (methodModeToString mode) name pp post = Inr (c1, w1, r') \<and> ar_httpResponseCode r' = 403"
proof -
  let ?p = "(request_parameters_new (wc_request c1))\<lparr>rp_jwtToken := (if rest_isSessionActive c1 then wc_JWTToken c1 else token_empty)\<rparr>"
  let ?sec = "\<lparr>haveJWTAuthHeader = m_JWTHeaderTokenVerified c1, haveJWTAuthCookie = m_JWTCookieTokenVerified c1\<rparr>"
  have one: "\<not> (m_JWTHeaderTokenVerified c1 \<and> m_JWTCookieTokenVerified c1)"
    using session_start_cases [OF assms(1) new_client(1)] by (metis rest_isSessionActive_def)
  have find: "find_resource h mode name = Some d" using assms(3) by (cases mode) (auto simp: resources_def find_resource_def)
  have "\<exists>msg. invokeResource (we_json we) h w1 mode name ?p permissions ?sec (Some r) = refuse ?p w1 (Some r) 403 msg AUTHENTICATION_REQUIRED"
    using one find assms(4,5) by (cases "m_JWTHeaderTokenVerified c1") (auto simp: invokeResource_def)
  then obtain r' where "invokeResource (we_json we) h w1 mode name ?p permissions ?sec (Some r) = Inr (?p, w1, Some r', AUTHENTICATION_REQUIRED)"
    "ar_httpResponseCode r' = 403"
    using refuse_null [OF assms(6)] by metis
  moreover have "invokeResource_named (we_json we) h w1 (methodModeToString mode) name ?p permissions ?sec (Some r)
      = invokeResource (we_json we) h w1 mode name ?p permissions ?sec (Some r)"
    by (cases mode) (simp_all add: invokeResource_named_def)
  ultimately show ?thesis using assms(2,7) by (auto simp: rest_handleAPIRequest_def Let_def request_parameters_new_def)
qed


lemma no_tokens_start:
  assumes "getAuthorizationBearer (clientRequest s) = []" and "getCookie (clientRequest s) ''AccessToken'' = []"
  shows "rest_sessionStart lib now cfg (rest_client_new s) w = Inr (rest_client_new s, w, 200)"
  using assms by (simp add: rest_sessionStart_def start_session_def)

text \<open>Requests without an origin and without parameters in the path.\<close>

lemma plain_path:
  assumes "segment name"
  shows "processPathParameters name [] JNull = Inr (name, JNull)"
  using path_tokens_join [of "[name]"] assms by (simp add: processPathParameters_def)

lemma split_version_segment:
  assumes "ds \<noteq> []" and "list_all is_digit ds" and "segment name" and "\<not> list_ex line_end name"
  shows "split_version (''/v'' @ ds @ ''/'' @ name) = Some (ds, name)"
proof -
  have "takeWhile is_digit (ds @ ''/'' @ name) = ds" "dropWhile is_digit (ds @ ''/'' @ name) = ''/'' @ name"
    using assms(2) by (simp_all add: list_all_iff takeWhile_tail dropWhile_append3 is_digit_def)
  then show ?thesis using assms by (simp add: split_version_def starts_with_def segment_def)
qed

lemma session_start_cleanup: "rest_sessionStart lib now cfg c w = Inr (c1, w1, st) \<Longrightarrow> m_destroySession c1 = m_destroySession c"
  by (auto simp: rest_sessionStart_def check_token_def start_session_def Let_def result_Inr split: if_splits option.splits prod.splits sum.splits)

text \<open>The run of a request for a resource that its tokens open.\<close>

lemma resource_run:
  assumes "webServerName cfg = []" and "\<not> isSupportedUserAgent (userAgent (clientRequest s))" and "redirections cfg (getURI (clientRequest s)) = None"
    and "rest_sessionStart lib (we_now we) cfg (rest_client_new s) w = Inr (c, w1, 200)" and "getOrigin (clientRequest s) = []"
    and "APIURLs cfg = {b}" and "getURI (clientRequest s) = b @ ''/v'' @ ds @ ''/'' @ name"
    and "ds \<noteq> []" and "list_all is_digit ds" and "digits_val ds < 2 ^ 32" and "segment name" and "\<not> list_ex line_end name" and "name \<noteq> callbackAPIMethodName cfg"
    and "c_str (m_requestMethod (requestLine (clientRequest s))) = methodModeToString mode" and "m_containerType (req_content (clientRequest s)) \<noteq> CONTENT_TYPE_JSON"
    and "handlers (digits_val ds) = Some h" and "resources h mode name = Some d" and "rd_method d = Some m" and "may_call_as c d"
    and "m w1 (api_return_new\<lparr>ar_body := sj_setFormatted streamable_json_new (useFormattedJSONOutput cfg)\<rparr>) ((request_parameters_new (clientRequest s))\<lparr>rp_jwtToken := caller c\<rparr>)
      (extractClientDetails (request_parameters_new (clientRequest s))) = (w', r)"
    and "ar_cookiesMap r = []" and "ar_httpExtraHeaders r = []" and "ar_redirectURL r = []"
  shows "rest_procHTTPClientContent lib we cfg handlers (rest_client_new s) w = Some (Inr (with_body we c (ar_body r), w', ar_httpResponseCode r))"
proof -
  let ?vt = "rest_vt lib we cfg handlers" and ?p = "(request_parameters_new (clientRequest s))\<lparr>rp_jwtToken := caller c\<rparr>"
  let ?r0 = "api_return_new\<lparr>ar_body := sj_setFormatted streamable_json_new (useFormattedJSONOutput cfg)\<rparr>"
  have server: "wc_server c = s" using session_start_server [OF assms(4)] by simp
  obtain permissions where perm: "rest_getSessionPermissions c = Inr permissions" "may_call d permissions (client_security c)"
    using assms(19) by (auto simp: may_call_as_def)
  have find: "find_resource h mode name = Some d" using assms(17) by (cases mode) (auto simp: resources_def find_resource_def)
  have input: "read_input (we_json we) ?p = Inr (?p, Some JNull)"
    using assms(15) by (simp add: read_input_def getJSONStreamerContent_def request_parameters_new_def)
  have p: "?p\<lparr>rp_inputJSON := JNull\<rparr> = ?p" "extractClientDetails ?p = extractClientDetails (request_parameters_new (clientRequest s))"
    "rp_clientRequest ?p = clientRequest s" by (simp_all add: request_parameters_new_def extractClientDetails_def)
  have "invokeResource (we_json we) h w1 mode name ?p permissions (client_security c) (Some ?r0) = Inr (?p, w', Some r, SUCCESS)"
    using find input p assms(18,20) perm(2) by (auto simp: invokeResource_def may_call_def)
  then have named: "invokeResource_named (we_json we) h w1 (methodModeToString mode) name ?p permissions (client_security c) (Some ?r0) = Inr (?p, w', Some r, SUCCESS)"
    by (cases mode) (simp_all add: invokeResource_named_def)
  have call: "rest_handleAPIRequest we handlers c w1 ?r0 b (digits_val ds) (methodModeToString mode) name pp post = Inr (c, w', r)" for pp post
    using named assms(16) perm(1) p(3) server
    by (auto simp: rest_handleAPIRequest_def Let_def caller_def client_security_def split: if_splits)
  have "api_request we cfg ?vt c w1 b (digits_val ds) name = Inr (with_body we c (ar_body r), w', ar_httpResponseCode r)"
    using call assms(5,10,13-15,21-23) plain_path [OF assms(11)] server
    by (simp add: api_request_def origin_permitted_def getJSONStreamerContent_def rest_vt_def Let_def set_response_def with_body_def)
  moreover have "split_version (drop (length b) (getURI (wc_request c))) = Some (ds, name)" using assms(7) split_version_segment [OF assms(8,9,11,12)] server by simp
  ultimately have path: "api_path we cfg ?vt c w1 b = Inr (with_body we c (ar_body r), w', ar_httpResponseCode r, True)"
    using assms(10) by (simp add: api_path_def Let_def)
  have "wv_sessionCleanup ?vt (with_body we c (ar_body r)) w' = Inr (with_body we c (ar_body r), w')"
    using session_start_cleanup [OF assms(4)]
    by (simp add: rest_vt_def rest_sessionLogout_def with_body_def set_response_def rest_client_new_def)
  moreover have "starts_with (getURI (wc_request c)) (b @ ''/'')" using assms(7) server by (simp add: starts_with_def)
  ultimately have "session_request we cfg ?vt c w1 = Some (Inr (with_body we c (ar_body r), w', ar_httpResponseCode r))"
    using path assms(6) by (simp add: session_request_def Let_def)
  then show ?thesis using assms(1-4) by (simp add: rest_procHTTPClientContent_def web_procHTTPClientContent_def)
qed


text \<open>
  C31. An open resource is served to the clients that are not turned away. A client is turned away, with status 426 and a page, when its user agent is one of those
  that the code calls supported (\<^verbatim>\<open>isSupportedUserAgent\<close>); the comment there says the opposite. For all other user agents, a request without tokens, without a
  body and from no other origin, for a resource that was registered without security options and permissions, runs the function of the resource once, on the
  data of the application as it is, and the answer has the status and the body that the function gives.
\<close>

theorem open_resource_served:
  assumes "webServerName cfg = []" and "\<not> isSupportedUserAgent (userAgent (clientRequest s))" and "redirections cfg (getURI (clientRequest s)) = None"
    and "getAuthorizationBearer (clientRequest s) = []" and "getCookie (clientRequest s) ''AccessToken'' = []" and "getOrigin (clientRequest s) = []"
    and "APIURLs cfg = {b}" and "getURI (clientRequest s) = b @ ''/v'' @ ds @ ''/'' @ name"
    and "ds \<noteq> []" and "list_all is_digit ds" and "digits_val ds < 2 ^ 32" and "segment name" and "\<not> list_ex line_end name" and "name \<noteq> callbackAPIMethodName cfg"
    and "c_str (m_requestMethod (requestLine (clientRequest s))) = methodModeToString mode" and "m_containerType (req_content (clientRequest s)) \<noteq> CONTENT_TYPE_JSON"
    and "handlers (digits_val ds) = Some (fst (addResource_options h mode name (Some m) 0 {}))"
    and "m w (api_return_new\<lparr>ar_body := sj_setFormatted streamable_json_new (useFormattedJSONOutput cfg)\<rparr>) (request_parameters_new (clientRequest s))
      (extractClientDetails (request_parameters_new (clientRequest s))) = (w', r)"
    and "ar_cookiesMap r = []" and "ar_httpExtraHeaders r = []" and "ar_redirectURL r = []"
  shows "rest_procHTTPClientContent lib we cfg handlers (rest_client_new s) w = Some (Inr (with_body we (rest_client_new s) (ar_body r), w', ar_httpResponseCode r))"
proof -
  let ?d = "\<lparr>rd_method = Some m, rd_requireJWTHeaderAuthentication = False, rd_requireJWTCookieAuthentication = False, rd_requiredPermissions = {}\<rparr>"
  have d: "resources (fst (addResource_options h mode name (Some m) 0 {})) mode name = Some ?d"
    by (cases mode) (simp_all add: addResource_options_def addResource_def resources_def)
  have c: "may_call_as (rest_client_new s) ?d" by (simp add: may_call_as_def may_call_def rest_getSessionPermissions_def)
  have p: "(request_parameters_new (clientRequest s))\<lparr>rp_jwtToken := caller (rest_client_new s)\<rparr> = request_parameters_new (clientRequest s)"
    by (simp add: caller_def request_parameters_new_def)
  show ?thesis
    by (rule resource_run [where handlers = handlers and c = "rest_client_new s" and w = w and ds = ds and b = b and name = name and mode = mode and d = ?d and m = m and r = r
          and h = "fst (addResource_options h mode name (Some m) 0 {})"])
      (use assms no_tokens_start [OF assms(4,5)] c d p in simp_all)
qed

section \<open>Concrete cases\<close>

text \<open>A counter that anyone may advance, and a request for it.\<close>

definition advance :: "(nat api_world, 'y, 'o) rest_method" where
  "advance w r p cd = (w\<lparr>aw_app := aw_app w + 1\<rparr>, r)"

definition counter_handlers :: "(nat, 'y, 'o) rest_handlers" where
  "counter_handlers = [1 \<mapsto> fst (addResource_options rest_handler_new GET ''items'' (Some advance) 0 {})]"

definition counter_request :: "('y, 'o, 'u) http_server \<Rightarrow> ('y, 'o, 'u) http_server" where
  "counter_request s = s\<lparr>clientRequest := (clientRequest s)\<lparr>http_request.userAgent := [],
     req_headers := (req_headers (clientRequest s))\<lparr>sh_header := mime_header_new\<rparr>,
     req_content := (req_content (clientRequest s))\<lparr>m_containerType := CONTENT_TYPE_BIN\<rparr>,
     requestLine := (requestLine (clientRequest s))\<lparr>m_requestMethod := ''GET'', m_requestURI := ''/api/v1/items''\<rparr>\<rparr>\<rparr>"

lemma counter_request_facts:
  "\<not> isSupportedUserAgent (userAgent (clientRequest (counter_request s)))" "getAuthorizationBearer (clientRequest (counter_request s)) = []"
  "getCookie (clientRequest (counter_request s)) ''AccessToken'' = []" "getOrigin (clientRequest (counter_request s)) = []"
  "getURI (clientRequest (counter_request s)) = ''/api'' @ ''/v'' @ ''1'' @ ''/'' @ ''items''"
  "c_str (m_requestMethod (requestLine (clientRequest (counter_request s)))) = methodModeToString GET"
  "m_containerType (req_content (clientRequest (counter_request s))) \<noteq> CONTENT_TYPE_JSON"
proof -
  show "\<not> isSupportedUserAgent (userAgent (clientRequest (counter_request s)))" by (simp add: counter_request_def) code_simp
  have h: "sh_header (req_headers (clientRequest (counter_request s))) = mime_header_new" by (simp add: counter_request_def)
  have n: "getOptionByName mime_header_new name = None" for name by (simp add: getOptionByName_def mime_header_new_def mm_range_def)
  show "getAuthorizationBearer (clientRequest (counter_request s)) = []"
    by (simp add: getAuthorizationBearer_def getHeaderOption_def getOptionRawStringByName_def h n Let_def split: prod.splits)
  show "getCookie (clientRequest (counter_request s)) ''AccessToken'' = []" by (simp add: getCookie_def getCookies_def h n)
  show "getOrigin (clientRequest (counter_request s)) = []" by (simp add: getOrigin_def getHeaderOption_def getOptionRawStringByName_def h n)
  show "c_str (m_requestMethod (requestLine (clientRequest (counter_request s)))) = methodModeToString GET"
    by (simp add: counter_request_def) code_simp
qed (simp_all add: counter_request_def getURI_def)

definition counter_config :: "('y, 'o, nat api_world) web_config" where
  "counter_config = web_config_new"

lemma counter_config_facts:
  "webServerName counter_config = []" "redirections counter_config u = None" "APIURLs counter_config = {''/api''}"
  "callbackAPIMethodName counter_config = ''callback''" "useFormattedJSONOutput counter_config"
  "dynamicTokenValidator counter_config = None" "dynamicRequestHandlersByRoute counter_config = []"
  by (simp_all add: counter_config_def web_config_new_def)

lemma counter_texts: "is_digit CHR ''1''" "digits_val ''1'' = 1" "\<not> list_ex line_end ''items''"
  by code_simp+

theorem open_resource_served_witness:
  "\<forall>(lib :: ('sk, 'pk) jwt_lib) (we :: ('y, 'o) web_env) (s :: ('y, 'o, 'u) http_server) w.
     \<exists>c'. rest_procHTTPClientContent lib we counter_config counter_handlers (rest_client_new (counter_request s)) w = Some (Inr (c', w\<lparr>aw_app := aw_app w + 1\<rparr>, 200))"
proof (intro allI exI)
  fix lib :: "('sk, 'pk) jwt_lib" and we :: "('y, 'o) web_env" and s :: "('y, 'o, 'u) http_server" and w
  let ?r = "api_return_new\<lparr>ar_body := sj_setFormatted streamable_json_new True\<rparr>"
  have ok: "200 = ar_httpResponseCode ?r" by (simp add: api_return_new_def)
  show "rest_procHTTPClientContent lib we counter_config counter_handlers (rest_client_new (counter_request s)) w
      = Some (Inr (with_body we (rest_client_new (counter_request s)) (ar_body ?r), w\<lparr>aw_app := aw_app w + 1\<rparr>, 200))"
    unfolding ok
    by (rule open_resource_served [where ds = "''1''" and name = "''items''" and mode = GET and b = "''/api''" and h = rest_handler_new and m = advance])
      (use counter_texts in \<open>simp_all add: counter_config_facts counter_request_facts counter_handlers_def advance_def segment_def api_return_new_def\<close>)
qed

text \<open>
  The same counter behind a token: its resource asks for the token of the cookie and for a permission. The request carries a token that the server issued with this
  permission.
\<close>

definition shop_claims :: json where
  "shop_claims = JObject [(''app'', JString ''shop''), (''exp'', JInt 1300), (''permissions'', JArray [JString ''count'']), (''sub'', JString ''bob'')]"

definition shop_lib :: "(unit, unit) jwt_lib" where
  "shop_lib = (example_lib HS256)\<lparr>json_reader := (\<lambda>old x. if x = ''H'' then (header_json HS256, True) else if x = ''P'' then (shop_claims, True) else (JNull, False)),
     json_writer := (\<lambda>v. if v = header_json HS256 then ''H'' else if v = shop_claims then ''P'' else ''?'')\<rparr>"

definition shop_config :: "('y, 'o, nat api_world) web_config" where
  "shop_config = web_config_new\<lparr>appName := ''shop''\<rparr>"

definition shop_handlers :: "(nat, 'y, 'o) rest_handlers" where
  "shop_handlers = [1 \<mapsto> fst (addResource_options rest_handler_new GET ''items'' (Some advance) 2 {''count''})]"

definition shop_world :: "nat api_world" where
  "shop_world = \<lparr>aw_validator = example_jwt HS256, aw_signer = example_jwt HS256, aw_app = 0\<rparr>"

definition shop_request :: "bytes \<Rightarrow> ('y, 'o, 'u) http_server \<Rightarrow> ('y, 'o, 'u) http_server" where
  "shop_request strToken s = s\<lparr>clientRequest := (clientRequest (counter_request s))\<lparr>
     req_headers := (req_headers (clientRequest (counter_request s)))\<lparr>sh_header := mime_header_new\<lparr>
       options := [header_option_new\<lparr>m_origName := ''Cookie'', m_origValue := ''AccessToken='' @ strToken, m_subVar := [(''AccessToken'', strToken)]\<rparr>],
       m_headers := [(''COOKIE'', 0)]\<rparr>\<rparr>\<rparr>\<rparr>"

lemma shop_request_facts:
  "\<not> isSupportedUserAgent (userAgent (clientRequest (shop_request strToken s)))" "getAuthorizationBearer (clientRequest (shop_request strToken s)) = []"
  "getCookie (clientRequest (shop_request strToken s)) ''AccessToken'' = strToken" "getOrigin (clientRequest (shop_request strToken s)) = []"
  "getURI (clientRequest (shop_request strToken s)) = ''/api'' @ ''/v'' @ ''1'' @ ''/'' @ ''items''"
  "c_str (m_requestMethod (requestLine (clientRequest (shop_request strToken s)))) = methodModeToString GET"
  "m_containerType (req_content (clientRequest (shop_request strToken s))) \<noteq> CONTENT_TYPE_JSON"
proof -
  let ?h = "sh_header (req_headers (clientRequest (shop_request strToken s)))"
  have up: "to_upper_copy ''Cookie'' = ''COOKIE''" "to_upper_copy ''Authorization'' \<noteq> ''COOKIE''" "to_upper_copy ''Origin'' \<noteq> ''COOKIE''" by code_simp+
  have none: "getOptionByName ?h ''Authorization'' = None" "getOptionByName ?h ''Origin'' = None"
    using up(2,3) by (simp_all add: shop_request_def getOptionByName_def mm_range_def)
  show "getAuthorizationBearer (clientRequest (shop_request strToken s)) = []" "getOrigin (clientRequest (shop_request strToken s)) = []"
    using none by (simp_all add: getAuthorizationBearer_def getOrigin_def getHeaderOption_def getOptionRawStringByName_def Let_def split: prod.splits)
  show "getCookie (clientRequest (shop_request strToken s)) ''AccessToken'' = strToken"
    by (simp add: shop_request_def getCookie_def getCookies_def getOptionByName_def mm_range_def getSubVar_def up(1))
qed (use counter_request_facts(1,5-7) in \<open>simp_all add: shop_request_def getURI_def\<close>)

lemma shop_token:
  obtains strToken j t where "sign shop_lib (example_jwt HS256) shop_claims = Inr strToken" and "strToken \<noteq> []" and "m_claims t = shop_claims"
    and "verifyToken shop_lib 1100 ''shop'' (example_jwt HS256) token_empty strToken = (j, Inr (t, True))"
proof -
  have neq: "header_json HS256 \<noteq> shop_claims" by (simp add: header_json_def shop_claims_def)
  have codec: "base64_codec (bio_encode shop_lib) (bio_decode shop_lib)"
    using example_codec [of HS256] by (simp add: shop_lib_def)
  have r: "json_reader shop_lib JNull (json_writer shop_lib (header_json (m_algorithm (example_jwt HS256)))) = (header_json (m_algorithm (example_jwt HS256)), True)"
    "json_reader shop_lib old (json_writer shop_lib shop_claims) = (shop_claims, True)" for old
    using neq by (simp_all add: shop_lib_def)
  have hm: "hmac_digest shop_lib n k d \<noteq> []" for n k d by (simp add: shop_lib_def example_lib_def)
  have "m_cacheCurrentByteCount (cache_new True) + length (json_writer shop_lib shop_claims) \<le> m_cacheMaxByteCount (cache_new True)"
    "queue_bytes (m_cacheQueue (cache_new True)) + length (json_writer shop_lib shop_claims) \<le> size_max"
    by (simp_all add: cache_new_def shop_lib_def size_max_def)
  then obtain c where c: "cache_add (m_cache (example_jwt HS256)) (json_writer shop_lib shop_claims) = Inr c"
    using cache_add_ok [OF example_cache(2)] by auto
  obtain strToken where f: "sign shop_lib (example_jwt HS256) shop_claims = Inr strToken"
    by (auto simp: sign_def createSignature_def Let_def)
  obtain h p s where v: "split_token strToken = Some (h, p, s)" "verify shop_lib 1100 (example_jwt HS256) strToken (Some token_empty)
      = ((example_jwt HS256)\<lparr>m_cache := c\<rparr>, case isValid 1100 (verified_token (example_jwt HS256) shop_claims (part_str shop_lib s)) of
          Inl e \<Rightarrow> Inl e | Inr b \<Rightarrow> Inr (verified_token (example_jwt HS256) shop_claims (part_str shop_lib s), b))"
    by (rule sign_verify [OF codec r example_jwt_fields(1) _ c hmac_signature_ok [OF _ _ hm] f, of 1100 "Some token_empty"]) (use example_cache(1) in auto)
  let ?t = "verified_token (example_jwt HS256) shop_claims (part_str shop_lib s)"
  have "JSON_ASUINT64 shop_claims ''exp'' 18446744073709551615 = 1300" by (simp add: JSON_ASUINT64_def member_value_def shop_claims_def)
  then have e: "getExpirationTime \<lparr>m_claims = shop_claims, m_signatureVerified = x, m_revoked = y\<rparr> = 1300" for x y
    by (simp add: getExpirationTime_def to_time_def)
  have m: "isMember shop_claims ''exp'' = Inr True" "isMember shop_claims ''nbf'' = Inr False" by (simp_all add: shop_claims_def)
  have "isValid 1100 ?t = Inr True"
    by (simp add: isValid_def verified_token_def isSignatureRevoked_def revocation_new_def e m)
  moreover have "getClaim ?t ''app'' = Inr (JString ''shop'')" by (simp add: getClaim_def verified_token_def shop_claims_def json_get.simps)
  ultimately have "verifyToken shop_lib 1100 ''shop'' (example_jwt HS256) token_empty strToken = ((example_jwt HS256)\<lparr>m_cache := c\<rparr>, Inr (?t, True))"
    using v(2) by (simp add: verifyToken_def JSON_ASSTRING_D_def)
  moreover have "strToken \<noteq> []"
  proof
    assume "strToken = []"
    moreover have "split_token [] = None" by code_simp
    ultimately show False using v(1) by simp
  qed
  moreover have "m_claims ?t = shop_claims" by (simp add: verified_token_def)
  ultimately show thesis using that f by blast
qed

theorem rest_request_authorised_witness:
  "\<forall>(we :: ('y, 'o) web_env) (s :: ('y, 'o, 'u) http_server). \<exists>strToken c' w' t. sign shop_lib (example_jwt HS256) shop_claims = Inr strToken
     \<and> rest_procHTTPClientContent shop_lib (we\<lparr>we_now := 1100\<rparr>) shop_config shop_handlers (rest_client_new (shop_request strToken s)) shop_world = Some (Inr (c', w', 200))
     \<and> aw_app w' = 1 \<and> granted_run shop_handlers (opened_by shop_lib 1100 (shop_config :: ('y, 'o, nat api_world) web_config) shop_world [] strToken t) t shop_world [(1, GET, ''items'')] w'"
proof (intro allI)
  fix we0 :: "('y, 'o) web_env" and s0 :: "('y, 'o, 'u) http_server"
  obtain strToken j t where tok: "sign shop_lib (example_jwt HS256) shop_claims = Inr strToken" "strToken \<noteq> []" "m_claims t = shop_claims"
    "verifyToken shop_lib 1100 ''shop'' (example_jwt HS256) token_empty strToken = (j, Inr (t, True))" by (rule shop_token)
  let ?we = "we0\<lparr>we_now := 1100\<rparr>" and ?s = "shop_request strToken s0" and ?cfg = "shop_config :: ('y, 'o, nat api_world) web_config"
  let ?d = "\<lparr>rd_method = Some advance, rd_requireJWTHeaderAuthentication = False, rd_requireJWTCookieAuthentication = True, rd_requiredPermissions = {''count''}\<rparr> :: (nat api_world, 'y, 'o) resource"
  let ?c = "start_session 1100 ((rest_client_new ?s)\<lparr>wc_JWTToken := t, m_JWTCookieTokenVerified := True\<rparr>)" and ?w = "shop_world\<lparr>aw_validator := j\<rparr>"
  let ?r = "api_return_new\<lparr>ar_body := sj_setFormatted streamable_json_new (useFormattedJSONOutput ?cfg)\<rparr>"
  note rq = shop_request_facts [of strToken s0]
  have cfg: "webServerName ?cfg = []" "redirections ?cfg u = None" "APIURLs ?cfg = {''/api''}" "callbackAPIMethodName ?cfg = ''callback''"
    "dynamicTokenValidator ?cfg = None" "dynamicRequestHandlersByRoute ?cfg = []" "appName ?cfg = ''shop''" for u
    by (simp_all add: shop_config_def web_config_new_def)
  have start: "rest_sessionStart shop_lib (we_now ?we) ?cfg (rest_client_new ?s) shop_world = Inr (?c, ?w, 200)"
    using rq(2,3) tok(2,4) cfg(5,7) by (simp add: rest_sessionStart_def check_token_def shop_world_def)
  have perms: "getAllPermissions t = Inr {''count''}"
    by (simp add: getAllPermissions_def tok(3) shop_claims_def json_get.simps JSON_ASSTRING_D_def)
  have may: "may_call_as ?c ?d"
    using perms by (simp add: may_call_as_def may_call_def client_security_def rest_getSessionPermissions_def rest_isSessionActive_def)
  have ok: "200 = ar_httpResponseCode ?r" by (simp add: api_return_new_def)
  have run: "rest_procHTTPClientContent shop_lib ?we ?cfg shop_handlers (rest_client_new ?s) shop_world
      = Some (Inr (with_body ?we ?c (ar_body ?r), ?w\<lparr>aw_app := aw_app ?w + 1\<rparr>, 200))"
    unfolding ok
    by (rule resource_run [where ds = "''1''" and name = "''items''" and mode = GET and b = "''/api''" and d = ?d and m = advance and c = ?c
          and h = "fst (addResource_options rest_handler_new GET ''items'' (Some advance) 2 {''count''})", OF cfg(1) rq(1) cfg(2) start rq(4) cfg(3) rq(5)])
      (use counter_texts may rq(6,7) cfg(4) in \<open>simp_all add: shop_handlers_def advance_def segment_def api_return_new_def
        addResource_options_def addResource_def resources_def\<close>)
  have path: "find (\<lambda>b. starts_with (getURI (clientRequest ?s)) (b @ ''/'')) (sorted_list_of_set (APIURLs ?cfg)) = Some ''/api''"
    unfolding rq(5) cfg(3) by (simp add: starts_with_def)
  have version: "split_version (drop (length ''/api'') (getURI (clientRequest ?s))) = Some (''1'', ''items'')"
    unfolding rq(5) by code_simp
  have items: "processPathParameters ''items'' [] JNull = Inr (''items'', JNull)" by (rule plain_path) (simp add: segment_def)
  have get: "methodModeToString GET = methodModeToString mode \<Longrightarrow> mode = GET" for mode by (cases mode) auto
  have changed: "aw_app (?w\<lparr>aw_app := aw_app ?w + 1\<rparr>) \<noteq> aw_app shop_world" by (simp add: shop_world_def)
  have now: "we_now ?we = 1100" by simp
  from rest_request_authorised [OF run changed cfg(5,6), unfolded rq(2,3) now] obtain u calls where
    u: "granted_run shop_handlers (opened_by shop_lib 1100 ?cfg shop_world [] strToken u) u shop_world calls (?w\<lparr>aw_app := aw_app ?w + 1\<rparr>)"
    and calls: "\<And>b ds rest. find (\<lambda>b. starts_with (getURI (clientRequest ?s)) (b @ ''/'')) (sorted_list_of_set (APIURLs ?cfg)) = Some b \<Longrightarrow>
      split_version (drop (length b) (getURI (clientRequest ?s))) = Some (ds, rest) \<Longrightarrow>
      \<exists>mode name pp. processPathParameters rest [] JNull = Inr (name, pp) \<and> c_str (m_requestMethod (requestLine (clientRequest ?s))) = methodModeToString mode
        \<and> calls = [(digits_val ds mod 2 ^ 32, mode, name)]" by blast
  have "calls = [(1, GET, ''items'')]"
    using calls [OF path version] get unfolding items rq(6) counter_texts(2) by auto
  then have "granted_run shop_handlers (opened_by shop_lib 1100 ?cfg shop_world [] strToken u) u shop_world [(1, GET, ''items'')] (?w\<lparr>aw_app := aw_app ?w + 1\<rparr>)"
    using u by simp
  moreover have "aw_app (?w\<lparr>aw_app := aw_app ?w + 1\<rparr>) = 1" by (simp add: shop_world_def)
  ultimately show "\<exists>strToken c' w' t. sign shop_lib (example_jwt HS256) shop_claims = Inr strToken
     \<and> rest_procHTTPClientContent shop_lib ?we ?cfg shop_handlers (rest_client_new (shop_request strToken s0)) shop_world = Some (Inr (c', w', 200))
     \<and> aw_app w' = 1 \<and> granted_run shop_handlers (opened_by shop_lib 1100 ?cfg shop_world [] strToken t) t shop_world [(1, GET, ''items'')] w'"
    using tok(1) run by blast
qed

theorem both_tokens_never_witness:
  "\<forall>(lib :: ('sk, 'pk) jwt_lib) (we :: ('y, 'o) web_env) (s :: ('y, 'o, 'u) http_server) (w :: 'v api_world).
     \<exists>c' r'. rest_handleAPIRequest we (engine_handlers lib) (rest_client_new (counter_request s)) w api_return_new ''/api'' 0 ''POST'' ''revokeJWT'' JNull JNull
       = Inr (c', w, r') \<and> ar_httpResponseCode r' = 403"
proof (intro allI)
  fix lib :: "('sk, 'pk) jwt_lib" and we :: "('y, 'o) web_env" and s :: "('y, 'o, 'u) http_server" and w :: "'v api_world"
  let ?d = "resource_new\<lparr>rd_method := Some (revokeJWT lib), rd_requiredPermissions := {''IAM''}\<rparr> :: ('v api_world, 'y, 'o) resource"
  let ?h = "fst (addResource rest_handler_new POST ''revokeJWT'' ?d)"
  have "engine_handlers lib 0 = Some ?h" by (simp add: engine_handlers_def)
  moreover have "resources ?h POST ''revokeJWT'' = Some ?d" by (simp add: addResource_def resources_def)
  moreover have "rd_requireJWTHeaderAuthentication ?d" "rd_requireJWTCookieAuthentication ?d" by (simp_all add: resource_new_def)
  moreover have "sj_root (ar_body api_return_new) = JNull" by (simp add: api_return_new_def streamable_json_new_def)
  moreover have "rest_getSessionPermissions (rest_client_new (counter_request s)) = Inr {}" by (simp add: rest_getSessionPermissions_def)
  ultimately show "\<exists>c' r'. rest_handleAPIRequest we (engine_handlers lib) (rest_client_new (counter_request s)) w api_return_new ''/api'' 0 ''POST'' ''revokeJWT'' JNull JNull
       = Inr (c', w, r') \<and> ar_httpResponseCode r' = 403"
    using both_tokens_never [OF no_tokens_start [OF counter_request_facts(2,3)], where handlers = "engine_handlers lib" and version = 0 and h = ?h and mode = POST
        and name = "''revokeJWT''" and d = ?d and r = api_return_new and permissions = "{}"] by fastforce
qed

end
