(* ===== verification/JSONEval.thy ===== *)
theory JSONEval
  imports JSON MIMEHeader
begin

text \<open>
  Conditions on JSON values (\<^verbatim>\<open>src/Mantids30/Scripts_JSONExprEval\<close>): a text such as \<^verbatim>\<open>IS_EQUAL($name,"x") && !IS_NULL($id)\<close> is compiled
  into atomic expressions and sub expressions, which are then evaluated on a value. The vector of quoted texts is shared by all parts of an expression and is an
  argument here. Paths into a value (\<^verbatim>\<open>Json::Path\<close>), regular expressions and the texts of real numbers are parameters.
\<close>

section \<open>Texts\<close>

definition ends_with :: "bytes \<Rightarrow> bytes \<Rightarrow> bool" where
  "ends_with s p \<longleftrightarrow> length p \<le> length s \<and> drop (length s - length p) s = p"

definition iends_with :: "bytes \<Rightarrow> bytes \<Rightarrow> bool" where
  "iends_with s p \<longleftrightarrow> length p \<le> length s \<and> iequals (drop (length s - length p) s) p"

fun contains :: "bytes \<Rightarrow> bytes \<Rightarrow> bool" where
  "contains [] p \<longleftrightarrow> p = []"
| "contains (c # s) p \<longleftrightarrow> starts_with (c # s) p \<or> contains s p"

fun icontains :: "bytes \<Rightarrow> bytes \<Rightarrow> bool" where
  "icontains [] p \<longleftrightarrow> p = []"
| "icontains (c # s) p \<longleftrightarrow> istarts_with (c # s) p \<or> icontains s p"

text \<open>\<^verbatim>\<open>boost::replace_first\<close>, and \<^verbatim>\<open>boost::split\<close> that keeps empty tokens.\<close>

fun replace_first :: "bytes \<Rightarrow> bytes \<Rightarrow> bytes \<Rightarrow> bytes" where
  "replace_first pat rep [] = []"
| "replace_first pat rep (c # s) =
     (if pat \<noteq> [] \<and> starts_with (c # s) pat then rep @ drop (length pat) (c # s) else c # replace_first pat rep s)"

fun split_on :: "char \<Rightarrow> bytes \<Rightarrow> bytes list" where
  "split_on sep [] = [[]]"
| "split_on sep (c # s) = (if c = sep then [] # split_on sep s else (case split_on sep s of [] \<Rightarrow> [[c]] | t # ts \<Rightarrow> (c # t) # ts))"

section \<open>The sides of an atomic expression\<close>

record expr_env =
  ee_path :: "bytes \<Rightarrow> json \<Rightarrow> json"
  ee_regex :: "bool \<Rightarrow> bytes \<Rightarrow> (bytes \<Rightarrow> bool) option"
  ee_real :: "int \<Rightarrow> int \<Rightarrow> bytes"

datatype eExpressionSideMode = EXPR_MODE_NUMERIC | EXPR_MODE_STATIC_STRING | EXPR_MODE_JSONPATH | EXPR_MODE_NULL | EXPR_MODE_UNDEFINED

record expression_side =
  side_expr :: bytes
  side_mode :: eExpressionSideMode

definition side_new :: expression_side where
  "side_new = \<lparr>side_expr = [], side_mode = EXPR_MODE_UNDEFINED\<rparr>"

definition setExpr :: "expression_side \<Rightarrow> bytes \<Rightarrow> expression_side" where
  "setExpr s value = s\<lparr>side_expr := trim value\<rparr>"

definition calcMode :: "bytes list \<Rightarrow> expression_side \<Rightarrow> expression_side \<times> bool" where
  "calcMode staticTexts s =
     (let expr = side_expr s
      in if expr = [] then (s\<lparr>side_mode := EXPR_MODE_NULL\<rparr>, True)
         else if hd expr = CHR ''$'' then (s\<lparr>side_mode := EXPR_MODE_JSONPATH\<rparr>, True)
         else if list_all is_digit expr then (s\<lparr>side_mode := EXPR_MODE_NUMERIC\<rparr>, True)
         else if starts_with expr ''_STATIC_'' \<and> length staticTexts > strtoul (drop 8 expr) then (s\<lparr>side_mode := EXPR_MODE_STATIC_STRING\<rparr>, True)
         else (s\<lparr>side_mode := EXPR_MODE_UNDEFINED\<rparr>, False))"

text \<open>\<^verbatim>\<open>Json::Value::asString\<close>, which throws for arrays and objects.\<close>

fun asString :: "(int \<Rightarrow> int \<Rightarrow> bytes) \<Rightarrow> json \<Rightarrow> bytes result" where
  "asString real JNull = Inr []"
| "asString real (JInt i) = Inr (if i < 0 then CHR ''-'' # dec (nat (- i)) else dec (nat i))"
| "asString real (JUInt n) = Inr (dec n)"
| "asString real (JReal m e) = Inr (real m e)"
| "asString real (JString s) = Inr s"
| "asString real (JBool b) = Inr (if b then ''true'' else ''false'')"
| "asString real (JArray vs) = Inl (LogicError ''Type is not convertible to string'')"
| "asString real (JObject ms) = Inl (LogicError ''Type is not convertible to string'')"

fun as_strings :: "(int \<Rightarrow> int \<Rightarrow> bytes) \<Rightarrow> json list \<Rightarrow> bytes list result" where
  "as_strings real [] = Inr []"
| "as_strings real (v # vs) =
     (case asString real v of Inl e \<Rightarrow> Inl e | Inr s \<Rightarrow> map_sum id (Cons s) (as_strings real vs))"

text \<open>The texts of the value that a path leads to: those of the elements of an array, else its own. An empty array has size 0 and is taken for a text.\<close>

definition path_texts :: "(int \<Rightarrow> int \<Rightarrow> bytes) \<Rightarrow> json \<Rightarrow> bytes list result" where
  "path_texts real result =
     (case result of
        JNull \<Rightarrow> Inr []
      | JArray (v # vs) \<Rightarrow> as_strings real (v # vs)
      | JObject (m # ms) \<Rightarrow> Inl (LogicError ''requires arrayValue'')
      | _ \<Rightarrow> map_sum id (\<lambda>s. [s]) (asString real result))"

text \<open>
  \<^verbatim>\<open>resolve\<close>: the texts of a side, and the regular expression that it compiles. The object keeps the compiled expression, which is always the same for a
  side. A pattern that is no regular expression throws.
\<close>

definition recompileRegex :: "expr_env \<Rightarrow> bytes \<Rightarrow> bool \<Rightarrow> (bytes list \<times> (bytes \<Rightarrow> bool) option) result" where
  "recompileRegex env r ignoreCase =
     (case ee_regex env ignoreCase (c_str r) of None \<Rightarrow> Inl (RuntimeError ''regex_error'') | Some m \<Rightarrow> Inr ([], Some m))"

definition resolve :: "expr_env \<Rightarrow> bytes list \<Rightarrow> expression_side \<Rightarrow> json \<Rightarrow> bool \<Rightarrow> bool \<Rightarrow> (bytes list \<times> (bytes \<Rightarrow> bool) option) result" where
  "resolve env staticTexts s v resolveRegex ignoreCase =
     (let literal = (\<lambda>t. if resolveRegex then recompileRegex env t ignoreCase else Inr ([t], None))
      in case side_mode s of
           EXPR_MODE_JSONPATH \<Rightarrow> map_sum id (\<lambda>ts. (ts, None)) (path_texts (ee_real env) (ee_path env (tl (side_expr s)) v))
         | EXPR_MODE_STATIC_STRING \<Rightarrow> literal (staticTexts ! strtoul (drop 8 (side_expr s)))
         | EXPR_MODE_NUMERIC \<Rightarrow> literal (side_expr s)
         | _ \<Rightarrow> Inr ([], None))"

section \<open>Atomic expressions\<close>

datatype eEvalOperator =
    EVAL_OPERATOR_CONTAINS
  | EVAL_OPERATOR_REGEXMATCH
  | EVAL_OPERATOR_ISEQUAL
  | EVAL_OPERATOR_STARTSWITH
  | EVAL_OPERATOR_ENDSWITH
  | EVAL_OPERATOR_ISNULL
  | EVAL_OPERATOR_UNDEFINED

record atomic_expression =
  ae_left :: expression_side
  ae_right :: expression_side
  ae_operator :: eEvalOperator
  ae_negative :: bool
  ae_ignoreCase :: bool

definition atomic_new :: atomic_expression where
  "atomic_new = \<lparr>ae_left = side_new, ae_right = side_new, ae_operator = EVAL_OPERATOR_UNDEFINED, ae_negative = False, ae_ignoreCase = False\<rparr>"

text \<open>
  The patterns of the operators, such as \<^verbatim>\<open>^IS_EQUAL\((?<LEFT_EXPR>[^,]+),(?<RIGHT_EXPR>[^\)]+)\)$\<close>: a line of its own with the name and, in
  parentheses, what is before the first comma and what is from there to the first parenthesis. Lines end at carriage returns and form feeds too.
\<close>

definition line_separator :: "char \<Rightarrow> bool" where
  "line_separator c \<longleftrightarrow> c = CHR 0x0A \<or> c = CHR 0x0D \<or> c = CHR 0x0C"

definition call_at :: "bytes \<Rightarrow> bool \<Rightarrow> bytes \<Rightarrow> (bytes \<times> bytes) option" where
  "call_at name two s =
     (if \<not> starts_with s (name @ ''('') then None
      else
        let s1 = drop (length name + 1) s; left = (if two then takeWhile (\<lambda>c. c \<noteq> CHR '','') s1 else []);
            s2 = (if two then tl (dropWhile (\<lambda>c. c \<noteq> CHR '','') s1) else s1);
            right = takeWhile (\<lambda>c. c \<noteq> CHR '')'') s2; s3 = dropWhile (\<lambda>c. c \<noteq> CHR '')'') s2
        in if (two \<longrightarrow> left \<noteq> [] \<and> CHR '','' \<in> set s1) \<and> right \<noteq> [] \<and> s3 \<noteq> [] \<and> (tl s3 = [] \<or> line_separator (hd (tl s3)))
           then Some (left, right) else None)"

fun call_search :: "bytes \<Rightarrow> bool \<Rightarrow> bool \<Rightarrow> bytes \<Rightarrow> (bytes \<times> bytes) option" where
  "call_search name two start [] = None"
| "call_search name two start (c # s) =
     (case (if start then call_at name two (c # s) else None) of
        Some r \<Rightarrow> Some r
      | None \<Rightarrow> call_search name two (line_separator c) s)"

text \<open>\<^verbatim>\<open>substractExpressions\<close>: the only group of the pattern of \<^verbatim>\<open>IS_NULL\<close> is its left side.\<close>

definition substractExpressions :: "bytes list \<Rightarrow> atomic_expression \<Rightarrow> bytes \<Rightarrow> bytes \<Rightarrow> eEvalOperator \<Rightarrow> atomic_expression \<times> bool" where
  "substractExpressions staticTexts a expr name op1 =
     (case call_search name (op1 \<noteq> EVAL_OPERATOR_ISNULL) True expr of
        None \<Rightarrow> (a, False)
      | Some (g1, g2) \<Rightarrow>
          let (l, okl) = calcMode staticTexts (setExpr (ae_left a) (if op1 = EVAL_OPERATOR_ISNULL then g2 else g1));
              (r, okr) = calcMode staticTexts (setExpr (ae_right a) (if op1 = EVAL_OPERATOR_ISNULL then [] else g2))
          in if \<not> okl then (a\<lparr>ae_left := l, ae_right := setExpr (ae_right a) (if op1 = EVAL_OPERATOR_ISNULL then [] else g2)\<rparr>, False)
             else if \<not> okr then (a\<lparr>ae_left := l, ae_right := r\<rparr>, False)
             else (a\<lparr>ae_left := l, ae_right := r, ae_operator := op1\<rparr>, True))"

definition operators :: "(bytes \<times> eEvalOperator) list" where
  "operators =
     [(''IS_EQUAL'', EVAL_OPERATOR_ISEQUAL), (''REGEX_MATCH'', EVAL_OPERATOR_REGEXMATCH), (''CONTAINS'', EVAL_OPERATOR_CONTAINS),
      (''STARTS_WITH'', EVAL_OPERATOR_STARTSWITH), (''ENDS_WITH'', EVAL_OPERATOR_ENDSWITH), (''IS_NULL'', EVAL_OPERATOR_ISNULL)]"

fun try_operators :: "bytes list \<Rightarrow> atomic_expression \<Rightarrow> bytes \<Rightarrow> (bytes \<times> eEvalOperator) list \<Rightarrow> atomic_expression \<times> bool" where
  "try_operators staticTexts a expr [] = (a\<lparr>ae_operator := EVAL_OPERATOR_UNDEFINED, ae_negative := False\<rparr>, False)"
| "try_operators staticTexts a expr ((name, op1) # ops) =
     (case substractExpressions staticTexts a expr name op1 of
        (a', True) \<Rightarrow> (a', True)
      | (a', False) \<Rightarrow> try_operators staticTexts a' expr ops)"

definition atomic_compile :: "bytes list \<Rightarrow> atomic_expression \<Rightarrow> bytes \<Rightarrow> atomic_expression \<times> bool" where
  "atomic_compile staticTexts a expr =
     (let (a1, e1) = (if starts_with expr ''!'' then (a\<lparr>ae_negative := True\<rparr>, drop 1 expr) else (a, expr));
          (a2, e2) = (if starts_with e1 ''i'' then (a1\<lparr>ae_ignoreCase := True\<rparr>, drop 1 e1) else (a1, e1))
      in try_operators staticTexts a2 e2 operators)"

definition text_relation :: "eEvalOperator \<Rightarrow> bool \<Rightarrow> bytes \<Rightarrow> bytes \<Rightarrow> bool" where
  "text_relation op1 ignoreCase l r =
     (case op1 of
        EVAL_OPERATOR_ENDSWITH \<Rightarrow> if ignoreCase then iends_with l r else ends_with l r
      | EVAL_OPERATOR_STARTSWITH \<Rightarrow> if ignoreCase then istarts_with l r else starts_with l r
      | EVAL_OPERATOR_ISEQUAL \<Rightarrow> if ignoreCase then iequals r l else l = r
      | EVAL_OPERATOR_CONTAINS \<Rightarrow> if ignoreCase then icontains l r else contains l r
      | _ \<Rightarrow> False)"

definition atomic_evaluate :: "expr_env \<Rightarrow> bytes list \<Rightarrow> atomic_expression \<Rightarrow> json \<Rightarrow> bool result" where
  "atomic_evaluate env staticTexts a values =
     (let regex = (ae_operator a = EVAL_OPERATOR_REGEXMATCH)
      in case resolve env staticTexts (ae_left a) values regex (ae_ignoreCase a) of
           Inl e \<Rightarrow> Inl e
         | Inr (lvalues, _) \<Rightarrow>
             (case resolve env staticTexts (ae_right a) values regex (ae_ignoreCase a) of
                Inl e \<Rightarrow> Inl e
              | Inr (rvalues, regexp) \<Rightarrow>
                  Inr (ae_negative a \<noteq>
                    (case ae_operator a of
                       EVAL_OPERATOR_ISNULL \<Rightarrow> lvalues = []
                     | EVAL_OPERATOR_REGEXMATCH \<Rightarrow> (case regexp of None \<Rightarrow> False | Some m \<Rightarrow> list_ex (\<lambda>l. m (c_str l)) lvalues)
                     | op1 \<Rightarrow> list_ex (\<lambda>l. list_ex (text_relation op1 (ae_ignoreCase a) l) rvalues) lvalues))))"


section \<open>Preparing an expression\<close>

lemma replace_all_length: "length rep \<le> length pat \<Longrightarrow> length (replace_all pat rep s) \<le> length s"
proof (induction pat rep s rule: replace_all.induct)
  case (2 pat rep x xs)
  show ?case
  proof (cases "pat \<noteq> [] \<and> starts_with (x # xs) pat")
    case True
    then have "length pat \<le> length (x # xs)" unfolding starts_with_def by (metis length_take min.cobounded1)
    moreover have "length (replace_all pat rep (drop (length pat) (x # xs))) \<le> length (x # xs) - length pat"
      using "2.IH"(1) [OF True "2.prems"] by (simp only: length_drop)
    moreover have "length (replace_all pat rep (x # xs)) = length rep + length (replace_all pat rep (drop (length pat) (x # xs)))"
      using True by (simp add: replace_all.simps(2))
    ultimately show ?thesis using "2.prems" by linarith
  next
    case False
    then have "replace_all pat rep (x # xs) = x # replace_all pat rep xs" unfolding replace_all.simps(2) by (rule if_not_P)
    then show ?thesis using "2.IH"(2) [OF False "2.prems"] by simp
  qed
qed (simp add: replace_all.simps)

lemma replace_all_shorter: "length rep < length pat \<Longrightarrow> contains s pat \<Longrightarrow> length (replace_all pat rep s) < length s"
proof (induction s)
  case (Cons x xs)
  show ?case
  proof (cases "starts_with (x # xs) pat")
    case True
    then have l: "length pat \<le> length (x # xs)" unfolding starts_with_def by (metis length_take min.cobounded1)
    have p: "pat \<noteq> []" using Cons.prems(1) by auto
    have "length (replace_all pat rep (drop (length pat) (x # xs))) \<le> length (x # xs) - length pat"
      using replace_all_length [of rep pat "drop (length pat) (x # xs)"] Cons.prems(1) by (simp only: length_drop)
    moreover have "length (replace_all pat rep (x # xs)) = length rep + length (replace_all pat rep (drop (length pat) (x # xs)))"
      using True p by (simp add: replace_all.simps(2))
    ultimately show ?thesis using Cons.prems(1) l by linarith
  next
    case False
    then have "contains xs pat" using Cons.prems(2) by simp
    then show ?thesis using Cons.IH Cons.prems(1) False by (simp add: replace_all.simps(2))
  qed
qed auto

text \<open>Runs of blanks, and the quoted texts that are replaced by their number in the vector.\<close>

function compress_blanks :: "bytes \<Rightarrow> bytes" where
  "compress_blanks expr = (if contains expr ''  '' then compress_blanks (replace_all ''  '' '' '' expr) else expr)"
  by pat_completeness auto
termination by (relation "measure length") (use replace_all_shorter [of "'' ''" "''  ''"] in auto)

declare compress_blanks.simps [simp del]

definition static_name :: "nat \<Rightarrow> bytes" where
  "static_name i = ''_STATIC_'' @ dec i"

lemma quote_not_in_static_name: "CHR 0x22 \<notin> set (static_name i)"
  by (simp add: static_name_def quote_not_in_dec)

function take_texts :: "bytes list \<Rightarrow> bytes \<Rightarrow> bytes list \<times> bytes" where
  "take_texts staticTexts expr =
     (case find_static expr of
        None \<Rightarrow> (staticTexts, expr)
      | Some t \<Rightarrow> take_texts (staticTexts @ [t]) (replace_all (quoted t) (static_name (length staticTexts)) expr))"
  by pat_completeness auto
termination
  by (relation "measure (\<lambda>(ts, expr). count_list expr (CHR 0x22))") (auto intro!: static_round_decreases quote_not_in_static_name)

declare take_texts.simps [simp del]

section \<open>Sub expressions\<close>

text \<open>
  \<^verbatim>\<open>detectSubExpr\<close> looks for the first parenthesised part from a position on: the end of the text, a closing parenthesis without an opening one, the
  arguments of a function, behind which the search goes on, or a group, negated or not, between two positions.
\<close>

datatype detection = Detect_end | Detect_unbalanced | Detect_function nat | Detect_group bool nat nat

fun detect_loop :: "bytes \<Rightarrow> bytes \<Rightarrow> nat \<Rightarrow> nat \<Rightarrow> nat \<Rightarrow> detection" where
  "detect_loop expr [] i level firstByte = Detect_end"
| "detect_loop expr (c # s) i level firstByte =
     (if c = CHR ''('' then detect_loop expr s (i + 1) (level + 1) (if level = 0 then i else firstByte)
      else if c = CHR '')'' then
        (if level = 0 then Detect_unbalanced
         else if level = 1 then
           (if firstByte > 0 \<and> is_alnum (expr ! (firstByte - 1)) then Detect_function (i + 1)
            else Detect_group (firstByte > 0 \<and> expr ! (firstByte - 1) = CHR ''!'') firstByte i)
         else detect_loop expr s (i + 1) (level - 1) firstByte)
      else detect_loop expr s (i + 1) level firstByte)"

definition detectSubExpr :: "bytes \<Rightarrow> nat \<Rightarrow> detection" where
  "detectSubExpr expr start = detect_loop expr (drop start expr) start 0 0"

definition group_text :: "bytes \<Rightarrow> nat \<Rightarrow> nat \<Rightarrow> bytes" where
  "group_text expr firstByte i = take (i - firstByte - 1) (drop (firstByte + 1) expr)"

definition subexpr_name :: "nat \<Rightarrow> bytes" where
  "subexpr_name i = ''_SUBEXPR_'' @ dec i"

definition replace_group :: "bytes \<Rightarrow> bool \<Rightarrow> bytes \<Rightarrow> nat \<Rightarrow> bytes" where
  "replace_group expr negative subexpr pos = replace_first ((if negative then ''!('' else ''('') @ subexpr @ '')'') (subexpr_name pos) expr"

lemma detect_loop_group:
  assumes "detect_loop expr (drop i expr) i level f = Detect_group neg firstByte j" and "i \<le> length expr"
    and "level > 0 \<longrightarrow> f < i \<and> expr ! f = CHR ''(''"
  shows "firstByte < j \<and> j < length expr \<and> expr ! firstByte = CHR ''('' \<and> expr ! j = CHR '')''
    \<and> neg = (firstByte > 0 \<and> expr ! (firstByte - 1) = CHR ''!'')"
  using assms
proof (induction "length expr - i" arbitrary: i level f)
  case (Suc n)
  then have i: "i < length expr" by linarith
  have d: "drop i expr = expr ! i # drop (Suc i) expr" using i by (simp add: Cons_nth_drop_Suc)
  have n: "n = length expr - Suc i" using Suc.hyps(2) by linarith
  note IH = Suc.hyps(1) [OF n]
  consider (lpar) "expr ! i = CHR ''(''" | (rpar) "expr ! i = CHR '')''" | (other) "expr ! i \<noteq> CHR ''(''" "expr ! i \<noteq> CHR '')''" by blast
  then show ?case
  proof cases
    case lpar
    then show ?thesis using IH [of "level + 1" "if level = 0 then i else f"] Suc.prems d i by (auto simp: less_Suc_eq split: if_splits)
  next
    case rpar
    then show ?thesis using IH [of "level - 1" f] Suc.prems d i by (auto simp: less_Suc_eq split: if_splits)
  next
    case other
    then show ?thesis using IH [of level f] Suc.prems d i by (auto simp: less_Suc_eq split: if_splits)
  qed
qed simp

lemma detect_loop_function:
  "detect_loop expr s i level f = Detect_function j \<Longrightarrow> i < j \<and> j \<le> i + length s"
  by (induction expr s i level f rule: detect_loop.induct) (fastforce split: if_splits)+


text \<open>What is taken out of an expression removes parentheses, which bounds the depth of the sub expressions.\<close>

abbreviation parens :: "bytes \<Rightarrow> nat" where
  "parens s \<equiv> count_list s (CHR ''('')"

lemma parens_drop: "parens (drop n s) \<le> parens s"
  by (metis append_take_drop_id count_list_append le_add2)

lemma parens_take: "parens (take n s) \<le> parens s"
  by (metis append_take_drop_id count_list_append le_add1)

lemma replace_first_found:
  assumes "starts_with (drop n s) pat" and "pat \<noteq> []"
  obtains pre post where "s = pre @ pat @ post" "replace_first pat rep s = pre @ rep @ post"
  using assms
proof (induction s arbitrary: n thesis)
  case Nil
  then show ?case by (simp add: starts_with_def)
next
  case (Cons c s)
  show ?case
  proof (cases "starts_with (c # s) pat")
    case True
    then have "c # s = [] @ pat @ drop (length pat) (c # s)" unfolding starts_with_def by (metis append_Nil append_take_drop_id)
    then show ?thesis using Cons.prems(1) [of "[]"] True Cons.prems(3) by simp
  next
    case False
    then obtain m where "n = Suc m" using Cons.prems(2) by (cases n) auto
    then obtain pre post where "s = pre @ pat @ post" "replace_first pat rep s = pre @ rep @ post"
      using Cons.IH [where n = m] Cons.prems by auto
    then show ?thesis using Cons.prems(1) [of "c # pre" post] False by simp
  qed
qed

lemma group_found:
  assumes "first < i" and "i < length expr" and "expr ! first = CHR ''(''" and "expr ! i = CHR '')''"
  shows "starts_with (drop first expr) (''('' @ group_text expr first i @ '')'')"
proof -
  have "drop first expr = expr ! first # drop (Suc first) expr" using assms Cons_nth_drop_Suc [of first expr] by simp
  moreover have "drop (Suc first) expr = take (i - first - 1) (drop (Suc first) expr) @ drop (i - first - 1) (drop (Suc first) expr)"
    by (rule append_take_drop_id [symmetric])
  moreover have "drop (i - first - 1) (drop (Suc first) expr) = expr ! i # drop (Suc i) expr" using assms Cons_nth_drop_Suc [of i expr] by simp
  ultimately have "drop first expr = (''('' @ group_text expr first i @ '')'') @ drop (Suc i) expr"
    using assms(3,4) by (simp add: group_text_def)
  then show ?thesis by (simp add: starts_with_def)
qed

lemma detectSubExpr_group:
  assumes "detectSubExpr expr start = Detect_group neg first i"
  shows "\<exists>n. starts_with (drop n expr) ((if neg then ''!('' else ''('') @ group_text expr first i @ '')'')" and "parens (group_text expr first i) < parens expr"
proof -
  have "start \<le> length expr" using assms by (cases "start \<le> length expr") (auto simp: detectSubExpr_def)
  then have f: "first < i" "i < length expr" "expr ! first = CHR ''(''" "expr ! i = CHR '')''" "neg = (first > 0 \<and> expr ! (first - 1) = CHR ''!'')"
    using detect_loop_group [of expr start 0 0 neg first i] assms by (simp_all add: detectSubExpr_def)
  have g: "starts_with (drop first expr) (''('' @ group_text expr first i @ '')'')" using group_found f(1-4) .
  show "\<exists>n. starts_with (drop n expr) ((if neg then ''!('' else ''('') @ group_text expr first i @ '')'')"
  proof (cases neg)
    case True
    then have "drop (first - 1) expr = CHR ''!'' # drop first expr" using f by (metis Cons_nth_drop_Suc Suc_pred' less_imp_diff_less order.strict_trans)
    then have "starts_with (drop (first - 1) expr) (''!('' @ group_text expr first i @ '')'')" using g by (simp add: starts_with_def)
    then show ?thesis using True by auto
  next
    case False
    then show ?thesis using g by auto
  qed
  have "drop first expr = expr ! first # drop (Suc first) expr" using f Cons_nth_drop_Suc [of first expr] by simp
  then have "parens expr \<ge> Suc (parens (drop (Suc first) expr))" using parens_drop [of first expr] f(3) by simp
  moreover have "parens (group_text expr first i) \<le> parens (drop (Suc first) expr)" by (simp add: group_text_def parens_take)
  ultimately show "parens (group_text expr first i) < parens expr" by linarith
qed

lemma parens_dec [simp]: "parens (subexpr_name n) = 0" "parens (static_name n) = 0"
  using free_of_dec [of "[CHR ''('']" n] by (simp_all add: subexpr_name_def static_name_def free_of_def is_digit_def count_list_0_iff)

lemma replace_group_parens:
  assumes "detectSubExpr expr start = Detect_group neg first i"
  shows "parens (replace_group expr neg (group_text expr first i) pos) < parens expr"
proof -
  define g where "g = group_text expr first i"
  obtain n where n: "starts_with (drop n expr) ((if neg then ''!('' else ''('') @ g @ '')'')"
    using detectSubExpr_group(1) [OF assms] g_def by blast
  obtain pre post where s: "expr = pre @ ((if neg then ''!('' else ''('') @ g @ '')'') @ post"
      "replace_group expr neg g pos = pre @ subexpr_name pos @ post"
    using replace_first_found [OF n, of "subexpr_name pos"] unfolding replace_group_def by (metis append_is_Nil_conv list.distinct(1))
  have "parens (replace_group expr neg g pos) = parens pre + parens post" unfolding s(2) by simp
  moreover have "parens expr \<ge> parens pre + Suc (parens post)" by (subst s(1)) simp
  ultimately show ?thesis by (simp add: g_def)
qed

lemma detectSubExpr_function: "detectSubExpr expr start = Detect_function j \<Longrightarrow> start < j"
  using detect_loop_function [of expr "drop start expr" start 0 0 j] by (simp add: detectSubExpr_def)

lemma parens_dropWhile: "parens (dropWhile P s) \<le> parens s"
  by (induction s) auto

lemma parens_trim: "parens (trim s) \<le> parens s"
  using parens_dropWhile [of is_space s] parens_dropWhile [of is_space "rev (dropWhile is_space s)"] by (simp add: trim_def)

lemma parens_compress: "parens (compress_blanks s) \<le> parens s"
proof (induction s rule: compress_blanks.induct)
  case (1 s)
  then show ?case using replace_all_count [of "CHR ''(''" "'' ''" "''  ''" s] by (subst compress_blanks.simps) auto
qed

lemma parens_take_texts: "parens (snd (take_texts ts s)) \<le> parens s"
proof (induction ts s rule: take_texts.induct)
  case (1 ts s)
  show ?case
  proof (cases "find_static s")
    case None
    then show ?thesis by (simp add: take_texts.simps)
  next
    case (Some t)
    have "CHR ''('' \<notin> set (static_name (length ts))" using parens_dec(2) [of "length ts"] by (simp add: count_list_0_iff del: parens_dec)
    then show ?thesis using 1 [OF Some] Some replace_all_count [of "CHR ''(''" "static_name (length ts)" "quoted t" s] by (subst take_texts.simps) auto
  qed
qed

section \<open>Compiling\<close>

datatype eEvalMode = EVAL_MODE_OR | EVAL_MODE_AND | EVAL_MODE_UNDEFINED

datatype jsoneval = JSONEval (ev_negative: bool) (ev_mode: eEvalMode) (ev_subs: "jsoneval list") (ev_atoms: "(atomic_expression option \<times> nat) list")
  (ev_error: bytes) (ev_compiled: bool)

text \<open>The parts between the operators; the result is what was compiled before an error.\<close>

fun compile_parts :: "bytes list \<Rightarrow> nat \<Rightarrow> bytes list \<Rightarrow> (atomic_expression option \<times> nat) list \<times> bytes option" where
  "compile_parts staticTexts n [] = ([], None)"
| "compile_parts staticTexts n (p # ps) =
     (let rest = (\<lambda>a. case compile_parts staticTexts n ps of (as, e) \<Rightarrow> (a # as, e))
      in if starts_with p ''_SUBEXPR_''
         then (let pos = strtoul (drop 9 p) in if pos \<ge> n then ([], Some ''Invalid Sub Expression #'') else rest (None, pos))
         else (case atomic_compile staticTexts atomic_new p of
                 (a, False) \<Rightarrow> ([], Some ''Invalid Atomic Expression'')
               | (a, True) \<Rightarrow> rest (Some a, 0)))"

text \<open>The second half of \<^verbatim>\<open>compile\<close>, when the sub expressions have been replaced by their names.\<close>

definition compile_flat :: "bool \<Rightarrow> bytes list \<Rightarrow> jsoneval list \<Rightarrow> bytes \<Rightarrow> jsoneval" where
  "compile_flat negative staticTexts subs expr =
     (let both = contains expr '' && '' \<and> contains expr '' || ''; every = contains expr '' && '';
          mode = (if every then EVAL_MODE_AND else EVAL_MODE_OR);
          expr' = replace_all (if every then '' && '' else '' || '') [CHR 0x0A] expr
      in if both then JSONEval negative EVAL_MODE_UNDEFINED subs [] ''Expression with both and/or and no precedence order'' False
         else if contains expr' '' '' then JSONEval negative mode subs [] ''Invalid Operator (only and/or is admitted)'' False
         else
           (case compile_parts staticTexts (length subs) (split_on (CHR 0x0A) expr') of
              (as, None) \<Rightarrow> JSONEval negative mode subs as [] True
            | (as, Some e) \<Rightarrow> JSONEval negative (if e = ''Invalid Atomic Expression'' then EVAL_MODE_UNDEFINED else mode) subs as e False))"

text \<open>
  \<^verbatim>\<open>compile\<close> on a new object, and its loop over the sub expressions; the failure of a sub expression is not noticed. The vector of texts comes back with
  the texts of the expression.
\<close>

function compile_expr :: "bool \<Rightarrow> bytes list \<Rightarrow> bytes \<Rightarrow> jsoneval \<times> bytes list"
  and compile_subs :: "bytes list \<Rightarrow> jsoneval list \<Rightarrow> bytes \<Rightarrow> nat \<Rightarrow> (bytes list \<times> jsoneval list \<times> bytes \<times> bool)" where
  "compile_expr negative staticTexts expr0 =
     (case take_texts staticTexts (trim expr0) of
        (ts, expr) \<Rightarrow>
          let fail = (\<lambda>e. (JSONEval negative EVAL_MODE_UNDEFINED [] [] e False, ts))
          in if CHR 0x22 \<in> set expr then fail ''bad quoting in text''
             else if CHR 0x0A \<in> set expr then fail ''Mutiline expression not supported''
             else if contains expr ''_SUBEXPR_'' then fail ''Invalid keyword _SUBEXPR_''
             else
               (case compile_subs ts [] (compress_blanks expr) 0 of
                  (ts', subs, expr', True) \<Rightarrow> (compile_flat negative ts' subs expr', ts')
                | (ts', subs, expr', False) \<Rightarrow> (JSONEval negative EVAL_MODE_UNDEFINED subs [] ''bad parenthesis balancing'' False, ts')))"
| "compile_subs staticTexts subs expr start =
     (case detectSubExpr expr start of
        Detect_end \<Rightarrow> (staticTexts, subs, expr, True)
      | Detect_unbalanced \<Rightarrow> (staticTexts, subs, expr, False)
      | Detect_function next \<Rightarrow> if next \<ge> length expr then (staticTexts, subs, expr, True) else compile_subs staticTexts subs expr next
      | Detect_group negative firstByte i \<Rightarrow>
          (case compile_expr negative staticTexts (group_text expr firstByte i) of
             (sub, ts) \<Rightarrow> compile_subs ts (subs @ [sub]) (replace_group expr negative (group_text expr firstByte i) (length subs)) 0))"
  by pat_completeness auto
termination
proof (relation "inv_image (less_than <*lex*> less_than <*lex*> less_than)
    (case_sum (\<lambda>(negative, ts, expr). (parens expr, 1, 0)) (\<lambda>(ts, subs, expr, start). (parens expr, 0, length expr - start)))")
  fix ts ts0 :: "bytes list" and expr expr0 :: bytes and negative :: bool
  assume t: "(ts, expr) = take_texts ts0 (trim expr0)"
  have "parens (compress_blanks expr) \<le> parens expr0"
    using parens_compress [of expr] parens_take_texts [of ts0 "trim expr0"] parens_trim [of expr0] t by (metis order_trans snd_conv)
  then show "(Inr (ts, [], compress_blanks expr, 0), Inl (negative, ts0, expr0))
      \<in> inv_image (less_than <*lex*> less_than <*lex*> less_than)
          (case_sum (\<lambda>(negative, ts, expr). (parens expr, 1, 0)) (\<lambda>(ts, subs, expr, start). (parens expr, 0, length expr - start)))"
    by (auto simp: le_less)
qed (auto dest: detectSubExpr_function detectSubExpr_group(2) replace_group_parens)

declare compile_expr.simps [simp del] compile_subs.simps [simp del]

section \<open>Evaluating\<close>

text \<open>The loops over the parts, which stop early.\<close>

fun all_hold :: "bool result list \<Rightarrow> bool result" where
  "all_hold [] = Inr True"
| "all_hold (r # rs) = (case r of Inl e \<Rightarrow> Inl e | Inr b \<Rightarrow> if b then all_hold rs else Inr False)"

fun any_holds :: "bool result list \<Rightarrow> bool result" where
  "any_holds [] = Inr False"
| "any_holds (r # rs) = (case r of Inl e \<Rightarrow> Inl e | Inr b \<Rightarrow> if b then Inr True else any_holds rs)"

primrec evaluate :: "expr_env \<Rightarrow> bytes list \<Rightarrow> json \<Rightarrow> jsoneval \<Rightarrow> bool result" where
  "evaluate env staticTexts values (JSONEval negative mode subs atoms err compiled) =
     (let rs = map (evaluate env staticTexts values) subs;
          parts = map (\<lambda>(a, i). case a of Some a \<Rightarrow> atomic_evaluate env staticTexts a values | None \<Rightarrow> rs ! i) atoms
      in case mode of
           EVAL_MODE_AND \<Rightarrow> map_sum id (\<lambda>b. negative \<noteq> b) (all_hold parts)
         | EVAL_MODE_OR \<Rightarrow> map_sum id (\<lambda>b. negative \<noteq> b) (any_holds parts)
         | EVAL_MODE_UNDEFINED \<Rightarrow> Inr False)"


section \<open>A group that is no expression\<close>

lemma contains_append: "contains s p \<Longrightarrow> contains (a @ s @ b) p"
proof (induction a)
  case Nil
  then show ?case
  proof (induction s)
    case Nil
    then show ?case by (cases b) (simp_all add: starts_with_def)
  next
    case (Cons c s)
    have "starts_with ((c # s) @ b) p" if "starts_with (c # s) p" using that unfolding starts_with_def
      by (metis append_assoc append_eq_conv_conj append_take_drop_id)
    then show ?case using Cons by auto
  qed
qed simp

lemma contains_skip: "x \<notin> set a \<Longrightarrow> contains (a @ s) (x # p) = contains s (x # p)"
  by (induction a) (auto simp: starts_with_def)

lemma contains_absent: "x \<notin> set s \<Longrightarrow> \<not> contains s (x # p)"
  using contains_skip [of x s "[]" p] by simp

lemma detect_skip:
  "CHR ''('' \<notin> set a \<Longrightarrow> CHR '')'' \<notin> set a \<Longrightarrow> detect_loop expr (a @ s) i level f = detect_loop expr s (i + length a) level f"
  by (induction a arbitrary: i) auto

lemma take_texts_plain: "CHR 0x22 \<notin> set s \<Longrightarrow> take_texts ts s = (ts, s)"
  by (subst take_texts.simps) (simp add: find_static_None)

text \<open>A text without quotes and line ends that is compiled as it is.\<close>

definition prepared :: "bytes \<Rightarrow> bool" where
  "prepared s \<longleftrightarrow> trim s = s \<and> CHR 0x22 \<notin> set s \<and> CHR 0x0A \<notin> set s \<and> \<not> contains s ''_SUBEXPR_'' \<and> \<not> contains s ''  ''"

lemma compile_prepared:
  assumes "prepared s"
  shows "compile_expr negative ts s =
    (case compile_subs ts [] s 0 of
       (ts', subs, expr', True) \<Rightarrow> (compile_flat negative ts' subs expr', ts')
     | (ts', subs, expr', False) \<Rightarrow> (JSONEval negative EVAL_MODE_UNDEFINED subs [] ''bad parenthesis balancing'' False, ts'))"
proof -
  have "compress_blanks s = s" using assms by (subst compress_blanks.simps) (simp add: prepared_def)
  then show ?thesis using assms by (subst compile_expr.simps) (simp add: prepared_def take_texts_plain)
qed

lemma no_group: "CHR ''('' \<notin> set s \<Longrightarrow> CHR '')'' \<notin> set s \<Longrightarrow> compile_subs ts subs s 0 = (ts, subs, s, True)"
  using detect_skip [of s s "[]" 0 0 0] by (subst compile_subs.simps) (simp add: detectSubExpr_def)

lemma first_name: "dec 0 = ''0''" "subexpr_name 0 = ''_SUBEXPR_0''"
proof -
  have "digit 0 = CHR ''0''" by code_simp
  then show "dec 0 = ''0''" by (simp add: dec.simps)
  then show "subexpr_name 0 = ''_SUBEXPR_0''" by (simp add: subexpr_name_def)
qed

text \<open>
  A text whose parentheses belong to calls of functions: a letter or digit stands before each opening one, and the arguments have no parentheses. The
  parts are the text up to a call's opening parenthesis and the arguments.
\<close>

definition with_calls :: "(bytes \<times> bytes) list \<Rightarrow> bytes \<Rightarrow> bytes" where
  "with_calls cs tail = concat (map (\<lambda>(a, args). a @ ''('' @ args @ '')'') cs) @ tail"

definition no_parens :: "bytes \<Rightarrow> bool" where
  "no_parens s \<longleftrightarrow> CHR ''('' \<notin> set s \<and> CHR '')'' \<notin> set s"

definition calls_only :: "(bytes \<times> bytes) list \<Rightarrow> bytes \<Rightarrow> bool" where
  "calls_only cs tail \<longleftrightarrow> list_all (\<lambda>(a, args). no_parens a \<and> no_parens args \<and> a \<noteq> [] \<and> is_alnum (last a)) cs \<and> no_parens tail"

lemma subs_with_calls:
  "calls_only cs tail \<Longrightarrow> expr = front @ with_calls cs tail \<Longrightarrow> compile_subs ts subs expr (length front) = (ts, subs, expr, True)"
proof (induction cs arbitrary: front)
  case Nil
  then have "detectSubExpr expr (length front) = Detect_end"
    using detect_skip [of tail expr "[]" "length front" 0 0] by (simp add: detectSubExpr_def with_calls_def calls_only_def no_parens_def)
  then show ?case by (subst compile_subs.simps) simp
next
  case (Cons c cs)
  obtain a args where c: "c = (a, args)" by (cases c)
  let ?rest = "with_calls cs tail" and ?n = "length front + length a"
  note p = Cons.prems(1) [unfolded calls_only_def c, simplified]
  have e: "expr = (front @ a) @ ''('' @ args @ '')'' @ ?rest" using Cons.prems(2) c by (simp add: with_calls_def)
  then have e': "expr = (front @ a @ ''('' @ args @ '')'') @ ?rest" by simp
  have x: "expr ! (?n - 1) = last a" unfolding e using p by (cases a rule: rev_cases) (simp_all add: nth_append)
  have "detectSubExpr expr (length front) = detect_loop expr (a @ ''('' @ args @ '')'' @ ?rest) (length front) 0 0"
    unfolding detectSubExpr_def using e by simp
  also have "\<dots> = detect_loop expr (''('' @ args @ '')'' @ ?rest) ?n 0 0" using p by (intro detect_skip) (auto simp: no_parens_def)
  also have "\<dots> = detect_loop expr (args @ '')'' @ ?rest) (?n + 1) 1 ?n" by simp
  also have "\<dots> = detect_loop expr ('')'' @ ?rest) (?n + 1 + length args) 1 ?n" using p by (intro detect_skip) (auto simp: no_parens_def)
  also have "\<dots> = Detect_function (length (front @ a @ ''('' @ args @ '')''))" using x p by simp
  finally have d: "detectSubExpr expr (length front) = Detect_function (length (front @ a @ ''('' @ args @ '')''))" .
  have "calls_only cs tail" using Cons.prems(1) by (simp add: calls_only_def)
  from Cons.IH [OF this e'] show ?case using d by (subst compile_subs.simps) (simp del: length_append)
qed

lemma detect_calls:
  "calls_only cs tail \<Longrightarrow> detect_loop expr (with_calls cs tail @ s) i 1 f = detect_loop expr s (i + length (with_calls cs tail)) 1 f"
proof (induction cs arbitrary: i)
  case Nil
  then show ?case using detect_skip [of tail expr s i 1 f] by (simp add: with_calls_def calls_only_def no_parens_def)
next
  case (Cons c cs)
  obtain a args where c: "c = (a, args)" by (cases c)
  let ?rest = "with_calls cs tail @ s" and ?j = "i + length a + 1 + length args + 1"
  note p = Cons.prems [unfolded calls_only_def c, simplified]
  have w: "with_calls (c # cs) tail = a @ ''('' @ args @ '')'' @ with_calls cs tail" by (simp add: with_calls_def c)
  have "detect_loop expr (a @ ''('' @ args @ '')'' @ ?rest) i 1 f = detect_loop expr (''('' @ args @ '')'' @ ?rest) (i + length a) 1 f"
    using p by (intro detect_skip) (auto simp: no_parens_def)
  also have "\<dots> = detect_loop expr (args @ '')'' @ ?rest) (i + length a + 1) 2 f" by (simp add: numeral_2_eq_2)
  also have "\<dots> = detect_loop expr ('')'' @ ?rest) (i + length a + 1 + length args) 2 f" using p by (intro detect_skip) (auto simp: no_parens_def)
  also have "\<dots> = detect_loop expr ?rest ?j 1 f" by simp
  also have "\<dots> = detect_loop expr s (?j + length (with_calls cs tail)) 1 f" using Cons by (simp add: calls_only_def)
  finally show ?case unfolding w by (simp add: ac_simps)
qed

lemma one_group:
  assumes "prepared (''('' @ s @ '')'')" and "s = with_calls cs tail" and "calls_only cs tail" and "compile_expr False ts s = (sub, ts')"
  shows "compile_expr negative ts (''('' @ s @ '')'') = (JSONEval negative EVAL_MODE_OR [sub] [(None, 0)] [] True, ts')"
proof -
  let ?e = "''('' @ s @ '')''"
  have "detect_loop ?e (drop 0 ?e) 0 0 0 = detect_loop ?e (s @ '')'') 1 1 0" by simp
  also have "\<dots> = detect_loop ?e '')'' (1 + length s) 1 0" unfolding assms(2) by (rule detect_calls [OF assms(3)])
  finally have d: "detectSubExpr ?e 0 = Detect_group False 0 (1 + length s)" by (simp add: detectSubExpr_def)
  have g: "group_text ?e 0 (1 + length s) = s" by (simp add: group_text_def)
  have r: "replace_group ?e False s 0 = ''_SUBEXPR_0''" by (simp add: replace_group_def starts_with_def first_name)
  have "compile_subs ts [] ?e 0 = compile_subs ts' [sub] ''_SUBEXPR_0'' 0"
    using d g r assms(4) by (subst compile_subs.simps) (simp del: append_Cons)
  also have "\<dots> = (ts', [sub], ''_SUBEXPR_0'', True)" by (rule no_group) simp_all
  finally have subs: "compile_subs ts [] ?e 0 = (ts', [sub], ''_SUBEXPR_0'', True)" .
  have "strtoul ''0'' = 0" using strtoul_dec [of 0 "[]"] by (simp add: first_name(1) size_max_def)
  then have "compile_flat negative ts' [sub] ''_SUBEXPR_0'' = JSONEval negative EVAL_MODE_OR [sub] [(None, 0)] [] True"
    by (simp add: compile_flat_def replace_all_absent starts_with_def)
  then show ?thesis unfolding compile_prepared [OF assms(1)] subs by simp
qed

text \<open>Both operators in one text, or a blank that is left when the operators are taken out.\<close>

definition bad_operators :: "bytes \<Rightarrow> bool" where
  "bad_operators s \<longleftrightarrow> contains s '' && '' \<and> contains s '' || ''
     \<or> contains (replace_all (if contains s '' && '' then '' && '' else '' || '') [CHR 0x0A] s) '' ''"

text \<open>
  C40. A group that does not compile. A text of calls of functions and other words, with both operators && and || or with a blank that belongs to neither, is no
  expression and fails to compile by itself. Put into parentheses it compiles, and evaluating it depends on no value: it gives true when its only operator
  is &&, so that the condition holds always, and false when it has the operator ||, both or none.
\<close>

theorem broken_group_holds:
  assumes "prepared (''('' @ s @ '')'')" and "trim s = s" and "s = with_calls cs tail" and "calls_only cs tail" and "bad_operators s"
  shows "\<exists>broken e. compile_expr False ts s = (broken, ts) \<and> \<not> ev_compiled broken \<and> compile_expr False ts (''('' @ s @ '')'') = (e, ts) \<and> ev_compiled e
    \<and> (\<forall>env values. evaluate env ts values e = Inr (contains s '' && '' \<and> \<not> contains s '' || ''))"
proof -
  have "prepared s" using assms(1,2) contains_append [of s _ "''(''" "'')''"] by (fastforce simp: prepared_def)
  moreover have "compile_subs ts [] s 0 = (ts, [], s, True)" using subs_with_calls [OF assms(4), of s "[]"] assms(3) by simp
  ultimately obtain broken where b: "compile_expr False ts s = (broken, ts)" "\<not> ev_compiled broken"
      "\<And>env values. evaluate env ts values broken = Inr (contains s '' && '' \<and> \<not> contains s '' || '')"
    using assms(5) by (auto simp: compile_prepared compile_flat_def bad_operators_def Let_def split: if_splits)
  with one_group [OF assms(1,3,4) b(1)] show ?thesis by auto
qed

theorem broken_group_holds_witness:
  "\<exists>e1 e2. compile_expr False [] ''(IS_NULL($a) && IS_NULL($b) & x)'' = (e1, []) \<and> ev_compiled e1 \<and> (\<forall>env values. evaluate env [] values e1 = Inr True)
    \<and> compile_expr False [] ''(IS_NULL($a) IS_NULL($b))'' = (e2, []) \<and> ev_compiled e2 \<and> (\<forall>env values. evaluate env [] values e2 = Inr False)"
proof -
  let ?s1 = "''IS_NULL($a) && IS_NULL($b) & x''" and ?cs1 = "[(''IS_NULL'', ''$a''), ('' && IS_NULL'', ''$b'')]"
  let ?s2 = "''IS_NULL($a) IS_NULL($b)''" and ?cs2 = "[(''IS_NULL'', ''$a''), ('' IS_NULL'', ''$b'')]"
  have a: "prepared (''('' @ ?s1 @ '')'')" "trim ?s1 = ?s1" "?s1 = with_calls ?cs1 '' & x''" "calls_only ?cs1 '' & x''" "bad_operators ?s1"
    "contains ?s1 '' && ''" "\<not> contains ?s1 '' || ''" by code_simp+
  have b: "prepared (''('' @ ?s2 @ '')'')" "trim ?s2 = ?s2" "?s2 = with_calls ?cs2 []" "calls_only ?cs2 []" "bad_operators ?s2" "\<not> contains ?s2 '' && ''"
    by code_simp+
  from broken_group_holds [OF a(1-5), of "[]"] broken_group_holds [OF b(1-5), of "[]"] show ?thesis using a(6,7) b(6) by auto
qed


section \<open>Conditions and their texts\<close>

text \<open>Operands that are paths or numbers, conditions on them, and how they are written.\<close>

datatype operand = Path bytes | Number bytes

datatype condition = Binary bool bool eEvalOperator operand operand | Null bool operand

fun operand_text :: "operand \<Rightarrow> bytes" where
  "operand_text (Path p) = CHR ''$'' # p"
| "operand_text (Number ds) = ds"

definition operator_name :: "eEvalOperator \<Rightarrow> bytes" where
  "operator_name op1 = (case find (\<lambda>(n, o1). o1 = op1) operators of Some (n, _) \<Rightarrow> n | None \<Rightarrow> [])"

definition flags_text :: "bool \<Rightarrow> bool \<Rightarrow> bytes" where
  "flags_text negative ignoreCase = (if negative then ''!'' else []) @ (if ignoreCase then ''i'' else [])"

fun condition_text :: "condition \<Rightarrow> bytes" where
  "condition_text (Binary negative ignoreCase op1 l r) =
     flags_text negative ignoreCase @ operator_name op1 @ ''('' @ operand_text l @ '','' @ operand_text r @ '')''"
| "condition_text (Null negative l) = flags_text negative False @ ''IS_NULL('' @ operand_text l @ '')''"

text \<open>What the conditions mean.\<close>

fun operand_values :: "expr_env \<Rightarrow> json \<Rightarrow> bool \<Rightarrow> bool \<Rightarrow> operand \<Rightarrow> (bytes list \<times> (bytes \<Rightarrow> bool) option) result" where
  "operand_values env v regex ignoreCase (Path p) = map_sum id (\<lambda>ts. (ts, None)) (path_texts (ee_real env) (ee_path env p v))"
| "operand_values env v regex ignoreCase (Number ds) = (if regex then recompileRegex env ds ignoreCase else Inr ([ds], None))"

fun condition_value :: "expr_env \<Rightarrow> json \<Rightarrow> condition \<Rightarrow> bool result" where
  "condition_value env v (Null negative l) = map_sum id (\<lambda>(ls, _). negative \<noteq> (ls = [])) (operand_values env v False False l)"
| "condition_value env v (Binary negative ignoreCase op1 l r) =
     (let regex = (op1 = EVAL_OPERATOR_REGEXMATCH)
      in case operand_values env v regex ignoreCase l of
           Inl e \<Rightarrow> Inl e
         | Inr (ls, _) \<Rightarrow>
             map_sum id (\<lambda>(rs, rx). negative \<noteq>
               (if regex then (\<exists>m. rx = Some m \<and> (\<exists>x\<in>set ls. m (c_str x))) else (\<exists>x\<in>set ls. \<exists>y\<in>set rs. text_relation op1 ignoreCase x y)))
               (operand_values env v regex ignoreCase r))"

definition plain_char :: "char \<Rightarrow> bool" where
  "plain_char c \<longleftrightarrow> \<not> is_space c \<and> c \<notin> {CHR 0x22, CHR ''('', CHR '')'', CHR '','', CHR ''&'', CHR ''|''}"

fun valid_operand :: "operand \<Rightarrow> bool" where
  "valid_operand (Path p) \<longleftrightarrow> list_all plain_char p"
| "valid_operand (Number ds) \<longleftrightarrow> ds \<noteq> [] \<and> list_all is_digit ds"

fun valid_condition :: "condition \<Rightarrow> bool" where
  "valid_condition (Binary negative ignoreCase op1 l r) \<longleftrightarrow>
     op1 \<notin> {EVAL_OPERATOR_ISNULL, EVAL_OPERATOR_UNDEFINED} \<and> valid_operand l \<and> valid_operand r"
| "valid_condition (Null negative l) \<longleftrightarrow> valid_operand l"

lemma digit_plain: "is_digit c \<Longrightarrow> plain_char c"
  by (auto simp: is_digit_def plain_char_def is_space_def of_char_Char)

lemma operand_plain: "valid_operand a \<Longrightarrow> operand_text a \<noteq> [] \<and> list_all plain_char (operand_text a)"
proof (cases a)
  case (Path p)
  have "plain_char (CHR ''$'')" by code_simp
  then show "valid_operand a \<Longrightarrow> ?thesis" using Path by simp
next
  case (Number ds)
  then show "valid_operand a \<Longrightarrow> ?thesis" using digit_plain by (auto simp: list_all_iff)
qed

lemma operand_mode:
  assumes "valid_operand a"
  shows "\<exists>s. calcMode ts (setExpr s0 (operand_text a)) = (s, True)
    \<and> (\<forall>env v regex ic. resolve env ts s v regex ic = operand_values env v regex ic a)"
proof -
  have p: "operand_text a \<noteq> []" "list_all plain_char (operand_text a)" using operand_plain assms by auto
  then have "trim (operand_text a) = operand_text a" by (intro trim_id) (auto simp: list_all_iff plain_char_def)
  then have e: "side_expr (setExpr s0 (operand_text a)) = operand_text a" by (simp add: setExpr_def)
  show ?thesis
  proof (cases a)
    case (Path q)
    then show ?thesis using e by (auto simp: calcMode_def resolve_def)
  next
    case (Number ds)
    then have "ds \<noteq> []" "list_all is_digit ds" using assms by simp_all
    moreover from this have "hd ds \<noteq> CHR ''$''" by (cases ds) (auto simp: is_digit_def of_char_Char)
    ultimately show ?thesis using e Number by (auto simp: calcMode_def resolve_def)
  qed
qed

lemma null_mode: "\<exists>s. calcMode ts (setExpr s0 []) = (s, True) \<and> (\<forall>env v regex ic. resolve env ts s v regex ic = Inr ([], None))"
  by (auto simp: calcMode_def setExpr_def trim_def resolve_def)

section \<open>Reading one condition\<close>

lemma takeWhile_until: "x \<notin> set a \<Longrightarrow> takeWhile (\<lambda>c. c \<noteq> x) (a @ x # b) = a \<and> dropWhile (\<lambda>c. c \<noteq> x) (a @ x # b) = x # b"
  by (induction a) auto

lemma call_at_two:
  assumes "CHR '','' \<notin> set l" and "CHR '')'' \<notin> set r" and "l \<noteq> []" and "r \<noteq> []"
  shows "call_at name True (name @ ''('' @ l @ '','' @ r @ '')'') = Some (l, r)"
  using takeWhile_until [OF assms(1), of "r @ '')''"] takeWhile_until [OF assms(2), of "[]"] assms(3,4)
  by (simp add: call_at_def starts_with_def)

lemma call_at_one:
  assumes "CHR '')'' \<notin> set r" and "r \<noteq> []"
  shows "call_at name False (name @ ''('' @ r @ '')'') = Some ([], r)"
  using takeWhile_until [OF assms(1), of "[]"] assms(2) by (simp add: call_at_def starts_with_def)

lemma call_search_later: "\<forall>c\<in>set s. \<not> line_separator c \<Longrightarrow> call_search name two False s = None"
  by (induction s) auto

lemma call_search_first:
  "\<forall>c\<in>set s. \<not> line_separator c \<Longrightarrow> s \<noteq> [] \<Longrightarrow> call_search name two True s = call_at name two s"
  using call_search_later by (cases s) (auto split: option.splits)

lemma call_at_other: "\<not> starts_with s (name @ ''('') \<Longrightarrow> call_at name two s = None"
  by (simp add: call_at_def)


text \<open>The names of the operators, which no other operator's call starts with.\<close>

lemma operator_name_cases:
  assumes "op1 \<noteq> EVAL_OPERATOR_UNDEFINED"
  shows "operator_name op1 \<in> fst ` set operators"
  using assms by (cases op1) (simp_all add: operator_name_def operators_def)

lemma call_at_wrong:
  assumes "op1 \<noteq> op2" and "op1 \<noteq> EVAL_OPERATOR_UNDEFINED" and "op2 \<noteq> EVAL_OPERATOR_UNDEFINED"
  shows "call_at (operator_name op2) two (operator_name op1 @ ''('' @ s) = None"
  using assms by (intro call_at_other) (cases op1; cases op2; simp add: operator_name_def operators_def starts_with_def)

text \<open>A call without line ends, of one operator with given arguments, is read with the operator and these arguments.\<close>

definition reads_as :: "bytes list \<Rightarrow> bytes \<Rightarrow> eEvalOperator \<Rightarrow> operand \<Rightarrow> operand option \<Rightarrow> bool" where
  "reads_as ts expr op1 l r \<longleftrightarrow>
     (\<forall>a. \<exists>a'. try_operators ts a expr operators = (a', True) \<and> ae_operator a' = op1 \<and> ae_negative a' = ae_negative a \<and> ae_ignoreCase a' = ae_ignoreCase a
        \<and> (\<forall>env v regex ic. resolve env ts (ae_left a') v regex ic = operand_values env v regex ic l)
        \<and> (\<forall>env v regex ic. resolve env ts (ae_right a') v regex ic = (case r of Some r \<Rightarrow> operand_values env v regex ic r | None \<Rightarrow> Inr ([], None))))"

lemma substract_call:
  assumes "call_search (operator_name op1) (op1 \<noteq> EVAL_OPERATOR_ISNULL) True expr = Some (g1, g2)"
    and "if op1 = EVAL_OPERATOR_ISNULL then r = None \<and> g2 = operand_text l else (\<exists>r'. r = Some r' \<and> valid_operand r' \<and> g1 = operand_text l \<and> g2 = operand_text r')"
    and "valid_operand l"
  shows "\<exists>a'. substractExpressions ts a expr (operator_name op1) op1 = (a', True) \<and> ae_operator a' = op1 \<and> ae_negative a' = ae_negative a
    \<and> ae_ignoreCase a' = ae_ignoreCase a \<and> (\<forall>env v regex ic. resolve env ts (ae_left a') v regex ic = operand_values env v regex ic l)
    \<and> (\<forall>env v regex ic. resolve env ts (ae_right a') v regex ic = (case r of Some r \<Rightarrow> operand_values env v regex ic r | None \<Rightarrow> Inr ([], None)))"
proof -
  obtain sl where l: "calcMode ts (setExpr (ae_left a) (operand_text l)) = (sl, True)"
      "\<forall>env v regex ic. resolve env ts sl v regex ic = operand_values env v regex ic l"
    using operand_mode [OF assms(3)] by blast
  have "\<exists>sr. calcMode ts (setExpr (ae_right a) (case r of Some r \<Rightarrow> operand_text r | None \<Rightarrow> [])) = (sr, True)
      \<and> (\<forall>env v regex ic. resolve env ts sr v regex ic = (case r of Some r \<Rightarrow> operand_values env v regex ic r | None \<Rightarrow> Inr ([], None)))"
  proof (cases r)
    case None
    then show ?thesis using null_mode [of ts "ae_right a"] by simp
  next
    case (Some r')
    then have "valid_operand r'" using assms(2) by (simp split: if_splits)
    then show ?thesis using operand_mode [of r' ts "ae_right a"] Some by simp
  qed
  then obtain sr where r: "calcMode ts (setExpr (ae_right a) (case r of Some r \<Rightarrow> operand_text r | None \<Rightarrow> [])) = (sr, True)"
      "\<forall>env v regex ic. resolve env ts sr v regex ic = (case r of Some r \<Rightarrow> operand_values env v regex ic r | None \<Rightarrow> Inr ([], None))"
    by blast
  have "substractExpressions ts a expr (operator_name op1) op1 = (a\<lparr>ae_left := sl, ae_right := sr, ae_operator := op1\<rparr>, True)"
    using assms(1,2) l(1) r(1) by (cases "op1 = EVAL_OPERATOR_ISNULL") (auto simp: substractExpressions_def)
  then show ?thesis using l(2) r(2) by simp
qed

lemma try_call:
  assumes "\<forall>c\<in>set (operator_name op1 @ ''('' @ s). \<not> line_separator c" and "op1 \<noteq> EVAL_OPERATOR_UNDEFINED"
    and "\<And>a. \<exists>a'. substractExpressions ts a (operator_name op1 @ ''('' @ s) (operator_name op1) op1 = (a', True) \<and> P a a'"
  shows "\<exists>a'. try_operators ts a (operator_name op1 @ ''('' @ s) operators = (a', True) \<and> P a a'"
proof -
  let ?e = "operator_name op1 @ ''('' @ s"
  have wrong: "substractExpressions ts a ?e (operator_name op2) op2 = (a, False)" if "op2 \<noteq> op1" "op2 \<noteq> EVAL_OPERATOR_UNDEFINED" for op2
    using call_at_wrong [of op1 op2 _ s] that assms(2) call_search_first [OF assms(1)] by (simp add: substractExpressions_def)
  have names: "(n, op2) \<in> set ops \<Longrightarrow> n = operator_name op2 \<and> op2 \<noteq> EVAL_OPERATOR_UNDEFINED" if "set ops \<subseteq> set operators" for n op2 ops
    using that by (auto simp: operators_def operator_name_def)
  have "\<exists>a'. try_operators ts a ?e ops = (a', True) \<and> P a a'" if "op1 \<in> snd ` set ops" "set ops \<subseteq> set operators" for ops
    using that
  proof (induction ops)
    case (Cons o1 ops)
    obtain n op2 where o1: "o1 = (n, op2)" by (cases o1)
    then have n: "n = operator_name op2" "op2 \<noteq> EVAL_OPERATOR_UNDEFINED" using names [OF Cons.prems(2), of n op2] by simp_all
    show ?case
    proof (cases "op2 = op1")
      case True
      then show ?thesis using assms(3) [of a] o1 n by auto
    next
      case False
      then show ?thesis using Cons wrong [OF False n(2)] o1 n by auto
    qed
  qed simp
  moreover have "op1 \<in> snd ` set operators" using assms(2) by (cases op1) (simp_all add: operators_def)
  ultimately show ?thesis by blast
qed

lemma reads_call:
  assumes "call_at (operator_name op1) (op1 \<noteq> EVAL_OPERATOR_ISNULL) (operator_name op1 @ ''('' @ s) = Some (g1, g2)"
    and "\<forall>c\<in>set (operator_name op1 @ ''('' @ s). \<not> line_separator c" and "op1 \<noteq> EVAL_OPERATOR_UNDEFINED" and "valid_operand l"
    and "if op1 = EVAL_OPERATOR_ISNULL then r = None \<and> g2 = operand_text l else (\<exists>r'. r = Some r' \<and> valid_operand r' \<and> g1 = operand_text l \<and> g2 = operand_text r')"
  shows "reads_as ts (operator_name op1 @ ''('' @ s) op1 l r"
  unfolding reads_as_def
proof
  fix a
  have "call_search (operator_name op1) (op1 \<noteq> EVAL_OPERATOR_ISNULL) True (operator_name op1 @ ''('' @ s) = Some (g1, g2)"
    using call_search_first [OF assms(2)] assms(1) by simp
  from substract_call [OF this assms(5,4)] show "\<exists>a'. try_operators ts a (operator_name op1 @ ''('' @ s) operators = (a', True) \<and> ae_operator a' = op1
        \<and> ae_negative a' = ae_negative a \<and> ae_ignoreCase a' = ae_ignoreCase a
        \<and> (\<forall>env v regex ic. resolve env ts (ae_left a') v regex ic = operand_values env v regex ic l)
        \<and> (\<forall>env v regex ic. resolve env ts (ae_right a') v regex ic = (case r of Some r \<Rightarrow> operand_values env v regex ic r | None \<Rightarrow> Inr ([], None)))"
    by (intro try_call [OF assms(2,3)]) blast
qed

lemma plain_facts: "plain_char c \<Longrightarrow> \<not> line_separator c \<and> c \<noteq> CHR '','' \<and> c \<noteq> CHR '')'' \<and> c \<noteq> CHR ''('' \<and> c \<noteq> CHR '' '' \<and> c \<noteq> CHR 0x22 \<and> c \<noteq> CHR 0x0A \<and> c \<noteq> CHR ''|''"
proof -
  have "\<not> plain_char (CHR 0x0A)" "\<not> plain_char (CHR 0x0D)" "\<not> plain_char (CHR 0x0C)" "\<not> plain_char (CHR '','')" "\<not> plain_char (CHR '')'')"
    "\<not> plain_char (CHR ''('')" "\<not> plain_char (CHR '' '')" "\<not> plain_char (CHR 0x22)" "\<not> plain_char (CHR ''|'')"
    by code_simp+
  then show "plain_char c \<Longrightarrow> ?thesis" by (auto simp: line_separator_def)
qed

lemma plain_line: "plain_char c \<Longrightarrow> \<not> line_separator c"
  using plain_facts by blast

lemma punctuation_line: "\<not> line_separator (CHR '','')" "\<not> line_separator (CHR ''('')" "\<not> line_separator (CHR '')'')"
  by (simp_all add: line_separator_def)

lemma operator_chars: "c \<in> set (operator_name op1) \<Longrightarrow> is_upper c \<or> c = CHR ''_''"
  by (cases op1) (auto simp: operator_name_def operators_def is_upper_def of_char_Char)

lemma operator_plain: "c \<in> set (operator_name op1) \<Longrightarrow> plain_char c"
  using operator_chars [of c op1] by (auto simp: plain_char_def is_space_def is_upper_def of_char_Char)

lemma flags_compile:
  assumes "op1 \<noteq> EVAL_OPERATOR_UNDEFINED" and "reads_as ts (operator_name op1 @ ''('' @ s) op1 l r"
  shows "\<exists>a. atomic_compile ts atomic_new (flags_text neg ic @ operator_name op1 @ ''('' @ s) = (a, True)
    \<and> ae_operator a = op1 \<and> ae_negative a = neg \<and> ae_ignoreCase a = ic
    \<and> (\<forall>env v regex i. resolve env ts (ae_left a) v regex i = operand_values env v regex i l)
    \<and> (\<forall>env v regex i. resolve env ts (ae_right a) v regex i = (case r of Some r \<Rightarrow> operand_values env v regex i r | None \<Rightarrow> Inr ([], None)))"
proof -
  let ?a = "atomic_new\<lparr>ae_negative := neg, ae_ignoreCase := ic\<rparr>"
  obtain c n where n: "operator_name op1 = c # n" "c \<noteq> CHR ''!''" "c \<noteq> CHR ''i''"
    using assms(1) by (cases op1) (auto simp: operator_name_def operators_def)
  have "atomic_compile ts atomic_new (flags_text neg ic @ operator_name op1 @ ''('' @ s) = try_operators ts ?a (operator_name op1 @ ''('' @ s) operators"
    using n by (cases neg; cases ic) (simp_all add: atomic_compile_def flags_text_def starts_with_def atomic_new_def)
  moreover obtain a' where "try_operators ts ?a (operator_name op1 @ ''('' @ s) operators = (a', True)" "ae_operator a' = op1" "ae_negative a' = ae_negative ?a"
      "ae_ignoreCase a' = ae_ignoreCase ?a" "\<forall>env v regex ic. resolve env ts (ae_left a') v regex ic = operand_values env v regex ic l"
      "\<forall>env v regex ic. resolve env ts (ae_right a') v regex ic = (case r of Some r \<Rightarrow> operand_values env v regex ic r | None \<Rightarrow> Inr ([], None))"
    using assms(2) unfolding reads_as_def by blast
  ultimately show ?thesis by auto
qed


section \<open>Reading a list of conditions\<close>

text \<open>The parts of an expression: a call, with parentheses around its arguments only.\<close>

definition call_text :: "bytes \<Rightarrow> bool" where
  "call_text p \<longleftrightarrow> (\<exists>pre x args. p = pre @ x # ''('' @ args @ '')'' \<and> is_alnum x \<and> (\<forall>c\<in>set (pre @ x # args). c \<noteq> CHR ''('' \<and> c \<noteq> CHR '')''))
     \<and> (\<forall>c\<in>set p. \<not> is_space c \<and> c \<noteq> CHR 0x22 \<and> c \<noteq> CHR ''|'')"

lemma detect_call:
  assumes "call_text p" and "CHR ''('' \<notin> set gap" and "CHR '')'' \<notin> set gap" and "expr = front @ gap @ p @ rest"
  shows "detectSubExpr expr (length front) = Detect_function (length (front @ gap @ p))"
proof -
  obtain pre x args where p: "p = pre @ x # ''('' @ args @ '')''" "is_alnum x" "\<forall>c\<in>set (pre @ x # args). c \<noteq> CHR ''('' \<and> c \<noteq> CHR '')''"
    using assms(1) [unfolded call_text_def, THEN conjunct1] by (elim exE conjE) (rule that)
  let ?n = "length front + length (gap @ pre @ [x])"
  have e: "expr = (front @ gap @ pre @ [x]) @ ''('' @ args @ '')'' @ rest" using assms(4) p(1) by simp
  have x: "expr ! (?n - 1) = x" unfolding e by (simp add: nth_append)
  have "detectSubExpr expr (length front) = detect_loop expr ((gap @ pre @ [x]) @ ''('' @ args @ '')'' @ rest) (length front) 0 0"
    unfolding detectSubExpr_def using e by simp
  also have "\<dots> = detect_loop expr (''('' @ args @ '')'' @ rest) ?n 0 0"
    using assms(2,3) p(3) by (intro detect_skip) auto
  also have "\<dots> = detect_loop expr (args @ '')'' @ rest) (?n + 1) 1 ?n" by simp
  also have "\<dots> = detect_loop expr ('')'' @ rest) (?n + 1 + length args) 1 ?n" using p(3) by (intro detect_skip) auto
  also have "\<dots> = Detect_function (?n + 1 + length args + 1)" using x p(2) by simp
  also have "\<dots> = Detect_function (length (front @ gap @ p))" using p(1) by simp
  finally show ?thesis .
qed

lemma subs_of_calls:
  assumes "\<forall>p\<in>set ps. call_text p" and "CHR ''('' \<notin> set sep" and "CHR '')'' \<notin> set sep" and "gap \<in> {[], sep}" and "ps \<noteq> []"
    and "expr = front @ gap @ join sep ps"
  shows "compile_subs ts subs expr (length front) = (ts, subs, expr, True)"
  using assms
proof (induction ps arbitrary: gap front)
  case (Cons p ps)
  define rest where "rest = (if ps = [] then [] else sep @ join sep ps)"
  have j: "join sep (p # ps) = p @ rest" by (cases ps) (simp_all add: rest_def)
  have d: "detectSubExpr expr (length front) = Detect_function (length (front @ gap @ p))"
    by (rule detect_call [of p gap]) (use Cons.prems j in auto)
  have e: "expr = (front @ gap @ p) @ rest" using Cons.prems(6) j by simp
  show ?case
  proof (cases "ps = []")
    case True
    then have "length expr = length (front @ gap @ p)" using e by (simp add: rest_def)
    then show ?thesis using d by (subst compile_subs.simps) simp
  next
    case False
    have "p \<noteq> []" using Cons.prems(1) by (auto simp: call_text_def)
    obtain q qs where q: "ps = q # qs" using False by (cases ps) auto
    then have "q \<noteq> []" using Cons.prems(1) by (auto simp: call_text_def)
    then have "rest \<noteq> []" using q hd_join [of q sep qs] by (cases qs) (simp_all add: rest_def)
    then have "length (front @ gap @ p) < length expr" using e by simp
    moreover have "compile_subs ts subs expr (length (front @ gap @ p)) = (ts, subs, expr, True)"
      by (rule Cons.IH [of sep "front @ gap @ p"]) (use Cons.prems e False rest_def in auto)
    ultimately show ?thesis using d by (subst compile_subs.simps) simp
  qed
qed simp

lemma split_on_absent: "sep \<notin> set a \<Longrightarrow> split_on sep a = [a]"
  by (induction a) auto

lemma split_on_join:
  assumes "\<forall>p\<in>set ps. sep \<notin> set p" and "ps \<noteq> []"
  shows "split_on sep (join [sep] ps) = ps"
proof -
  have one: "sep \<notin> set a \<Longrightarrow> split_on sep (a @ sep # s) = a # split_on sep s" for a s
    by (induction a) auto
  show ?thesis using assms
  proof (induction ps)
    case (Cons p ps)
    then show ?case using one [of p] split_on_absent [of sep p] by (cases ps) simp_all
  qed simp
qed

lemma replace_all_join:
  assumes "\<forall>p\<in>set ps. x \<notin> set p"
  shows "replace_all (x # s) rep (join (x # s) ps) = join rep ps"
proof -
  have one: "x \<notin> set p \<Longrightarrow> replace_all (x # s) rep (p @ (x # s) @ r) = p @ rep @ replace_all (x # s) rep r" for p r
    by (metis replace_all_skip replace_all_here)
  show ?thesis using assms
  proof (induction ps)
    case (Cons p ps)
    show ?case
    proof (cases ps)
      case Nil
      then show ?thesis using Cons.prems replace_all_absent by simp
    next
      case (Cons q qs)
      then show ?thesis using Cons.IH Cons.prems one [of p "join (x # s) (q # qs)"] by simp
    qed
  qed (simp add: replace_all.simps)
qed

lemma no_double_blank:
  assumes "\<forall>p\<in>set ps. CHR '' '' \<notin> set p \<and> p \<noteq> []" and "sep = CHR '' '' # s @ '' ''" and "CHR '' '' \<notin> set s" and "s \<noteq> []"
  shows "\<not> contains (join sep ps) ''  ''"
  using assms(1)
proof (induction ps)
  case (Cons p ps)
  show ?case
  proof (cases ps)
    case Nil
    then show ?thesis using Cons.prems contains_absent by simp
  next
    case (Cons q qs)
    have n: "q \<noteq> []" "CHR '' '' \<notin> set q" using Cons.prems Cons by simp_all
    have "hd q \<in> set q" using n(1) by simp
    then have "hd q \<noteq> CHR '' ''" using n(2) by metis
    then have q: "join sep (q # qs) \<noteq> []" "hd (join sep (q # qs)) \<noteq> CHR '' ''"
      using n(1) hd_join [OF n(1), of sep qs] by (cases qs, simp_all)
    have "contains (p @ sep @ join sep (q # qs)) ''  '' = contains (sep @ join sep (q # qs)) ''  ''"
      using Cons.prems by (intro contains_skip) simp
    also have "\<dots> = contains (s @ '' '' @ join sep (q # qs)) ''  ''"
      using assms(2-4) by (cases s) (auto simp: starts_with_def)
    also have "\<dots> = contains ('' '' @ join sep (q # qs)) ''  ''" using assms(3) by (intro contains_skip)
    also have "\<dots> = contains (join sep (q # qs)) ''  ''"
      using q by (cases "join sep (q # qs)") (auto simp: starts_with_def)
    finally show ?thesis using Cons Cons.IH Cons.prems by simp
  qed
qed simp


text \<open>A valid condition is a call, does not look like the name of a sub expression, and compiles to what it means.\<close>

lemma condition_chars:
  assumes "valid_condition c"
  obtains pre x args where "condition_text c = pre @ x # ''('' @ args @ '')''" "is_alnum x" "list_all (\<lambda>c. plain_char c \<or> c = CHR '','') (pre @ x # args)"
proof -
  have f: "list_all plain_char (flags_text neg ic)" for neg ic
  proof -
    have "plain_char (CHR ''!'')" "plain_char (CHR ''i'')" by code_simp+
    then show ?thesis by (simp add: flags_text_def)
  qed
  have u: "\<exists>pre x. n = pre @ [x] \<and> is_alnum x \<and> list_all plain_char (pre @ [x])" if "n \<in> fst ` set operators" for n
  proof -
    have "list_all (\<lambda>n. n \<noteq> [] \<and> is_alnum (last n) \<and> list_all plain_char n) (map fst operators)" by code_simp
    then have "n \<noteq> [] \<and> is_alnum (last n) \<and> list_all plain_char n" using that by (auto simp: list_all_iff)
    then show ?thesis by (metis append_butlast_last_id)
  qed
  show thesis
  proof (cases c)
    case (Binary neg ic op1 l r)
    then obtain pre x where n: "operator_name op1 = pre @ [x]" "is_alnum x" "list_all plain_char (pre @ [x])"
      using u [OF operator_name_cases, of op1] assms by auto
    have "list_all plain_char (operand_text l)" "list_all plain_char (operand_text r)" using assms Binary operand_plain by auto
    then show thesis using that [of "flags_text neg ic @ pre" x "operand_text l @ '','' @ operand_text r"] n f [of neg ic] Binary by (auto simp: list_all_iff)
  next
    case (Null neg l)
    have "list_all plain_char ''IS_NUL''" "is_alnum (CHR ''L'')" "plain_char (CHR ''L'')" by code_simp+
    moreover have "list_all plain_char (operand_text l)" using assms Null operand_plain by auto
    ultimately show thesis using that [of "flags_text neg False @ ''IS_NUL''" "CHR ''L''" "operand_text l"] f [of neg False] Null by (auto simp: list_all_iff)
  qed
qed

lemma condition_call:
  assumes "valid_condition c"
  shows "call_text (condition_text c)"
proof -
  obtain pre x args where t: "condition_text c = pre @ x # ''('' @ args @ '')''" "is_alnum x" "list_all (\<lambda>c. plain_char c \<or> c = CHR '','') (pre @ x # args)"
    using condition_chars [OF assms] .
  have s: "\<not> is_space (CHR '','')" "\<not> is_space (CHR ''('')" "\<not> is_space (CHR '')'')" by code_simp+
  have ok: "\<not> is_space a \<and> a \<noteq> CHR 0x22 \<and> a \<noteq> CHR ''|'' \<and> a \<noteq> CHR ''('' \<and> a \<noteq> CHR '')''" if "a \<in> set (pre @ x # args)" for a
    using t(3) that s plain_facts [of a] by (auto simp: list_all_iff plain_char_def)
  have "\<forall>a\<in>set (condition_text c). \<not> is_space a \<and> a \<noteq> CHR 0x22 \<and> a \<noteq> CHR ''|''"
    unfolding t(1) using ok s by auto
  then show ?thesis unfolding call_text_def using t(1,2) ok by blast
qed

lemma condition_compile:
  assumes "valid_condition c"
  shows "\<exists>a. atomic_compile ts atomic_new (condition_text c) = (a, True) \<and> (\<forall>env v. atomic_evaluate env ts a v = condition_value env v c)"
proof (cases c)
  case (Binary neg ic op1 l r)
  then have v: "op1 \<noteq> EVAL_OPERATOR_ISNULL" "op1 \<noteq> EVAL_OPERATOR_UNDEFINED" "valid_operand l" "valid_operand r" using assms by auto
  let ?s = "operand_text l @ '','' @ operand_text r @ '')''"
  have p: "list_all plain_char (operand_text l)" "list_all plain_char (operand_text r)" "operand_text l \<noteq> []" "operand_text r \<noteq> []"
    using v operand_plain by auto
  have "CHR '','' \<notin> set (operand_text l)" "CHR '')'' \<notin> set (operand_text r)" using p(1,2) plain_facts by (auto simp: list_all_iff)
  then have "call_at (operator_name op1) (op1 \<noteq> EVAL_OPERATOR_ISNULL) (operator_name op1 @ ''('' @ ?s) = Some (operand_text l, operand_text r)"
    using call_at_two p(3,4) v(1) by simp
  moreover have "\<forall>c\<in>set (operator_name op1 @ ''('' @ ?s). \<not> line_separator c"
    using operator_plain plain_line punctuation_line p(1,2) by (auto simp: list_all_iff)
  ultimately have "reads_as ts (operator_name op1 @ ''('' @ ?s) op1 l (Some r)" using v by (intro reads_call) auto
  from flags_compile [OF v(2) this, of neg ic] obtain a where a: "atomic_compile ts atomic_new (condition_text c) = (a, True)" "ae_operator a = op1"
      "ae_negative a = neg" "ae_ignoreCase a = ic" "\<forall>env v regex i. resolve env ts (ae_left a) v regex i = operand_values env v regex i l"
      "\<forall>env v regex i. resolve env ts (ae_right a) v regex i = operand_values env v regex i r"
    using Binary by auto
  have "atomic_evaluate env ts a v = condition_value env v c" for env v
  proof (cases "op1 = EVAL_OPERATOR_REGEXMATCH")
    case True
    then show ?thesis using a Binary
      by (auto simp: atomic_evaluate_def Let_def list_ex_iff split: sum.splits option.splits prod.splits)
  next
    case False
    then show ?thesis using a Binary v(1,2)
      by (cases op1) (auto simp: atomic_evaluate_def Let_def list_ex_iff split: sum.splits prod.splits)
  qed
  then show ?thesis using a(1) by blast
next
  case (Null neg l)
  then have v: "valid_operand l" using assms by simp
  have p: "list_all plain_char (operand_text l)" "operand_text l \<noteq> []" using v operand_plain by auto
  have n: "operator_name EVAL_OPERATOR_ISNULL = ''IS_NULL''" by (simp add: operator_name_def operators_def)
  have "CHR '')'' \<notin> set (operand_text l)" using p(1) plain_facts by (auto simp: list_all_iff)
  then have "call_at (operator_name EVAL_OPERATOR_ISNULL) (EVAL_OPERATOR_ISNULL \<noteq> EVAL_OPERATOR_ISNULL) (operator_name EVAL_OPERATOR_ISNULL @ ''('' @ operand_text l @ '')'')
      = Some ([], operand_text l)"
    using call_at_one p(2) by simp
  moreover have "\<forall>c\<in>set (operator_name EVAL_OPERATOR_ISNULL @ ''('' @ operand_text l @ '')''). \<not> line_separator c"
    using operator_plain plain_line punctuation_line p(1) by (auto simp: list_all_iff)
  ultimately have "reads_as ts (operator_name EVAL_OPERATOR_ISNULL @ ''('' @ operand_text l @ '')'') EVAL_OPERATOR_ISNULL l None"
    using v by (intro reads_call) auto
  from flags_compile [OF _ this, of neg False] obtain a where a: "atomic_compile ts atomic_new (condition_text c) = (a, True)"
      "ae_operator a = EVAL_OPERATOR_ISNULL" "ae_negative a = neg" "ae_ignoreCase a = False"
      "\<forall>env v regex i. resolve env ts (ae_left a) v regex i = operand_values env v regex i l"
      "\<forall>env v regex i. resolve env ts (ae_right a) v regex i = Inr ([], None)"
    using Null n by auto
  have "atomic_evaluate env ts a v = condition_value env v c" for env v
    using a Null by (auto simp: atomic_evaluate_def Let_def split: sum.splits prod.splits)
  then show ?thesis using a(1) by blast
qed


lemma condition_free:
  assumes "valid_condition c" and "a \<in> set (condition_text c)"
  shows "\<not> is_space a \<and> a \<noteq> CHR '' '' \<and> a \<noteq> CHR 0x0A \<and> a \<noteq> CHR 0x22 \<and> a \<noteq> CHR ''|'' \<and> a \<noteq> CHR ''&''"
proof -
  obtain pre x args where t: "condition_text c = pre @ x # ''('' @ args @ '')''" "list_all (\<lambda>c. plain_char c \<or> c = CHR '','') (pre @ x # args)"
    using condition_chars [OF assms(1)] by metis
  have s: "\<not> is_space (CHR '','')" "\<not> is_space (CHR ''('')" "\<not> is_space (CHR '')'')" by code_simp+
  have "a \<in> set (pre @ x # args) \<or> a = CHR ''('' \<or> a = CHR '')''" using assms(2) unfolding t(1) by auto
  moreover have "\<forall>b\<in>set (pre @ x # args). plain_char b \<or> b = CHR '',''" using t(2) by (simp only: list_all_iff)
  ultimately have "plain_char a \<or> a = CHR '','' \<or> a = CHR ''('' \<or> a = CHR '')''" by blast
  then show ?thesis
  proof (elim disjE)
    assume "plain_char a"
    moreover from this have "\<not> is_space a" "a \<noteq> CHR ''&''" by (simp_all add: plain_char_def)
    ultimately show ?thesis using plain_facts by blast
  qed (use s in simp_all)
qed

lemma join_chars: "set (join sep ps) \<subseteq> set sep \<union> \<Union> (set ` set ps)"
  by (induction sep ps rule: join.induct) auto

lemma contains_mem: "contains s p \<Longrightarrow> set p \<subseteq> set s"
proof (induction s)
  case (Cons a s)
  then show ?case using set_take_subset [of "length p" "a # s"] by (auto simp: starts_with_def)
qed simp

lemma compile_conditions:
  assumes "\<forall>c\<in>set cs. valid_condition c"
  shows "\<exists>as. compile_parts ts n (map condition_text cs) = (map (\<lambda>a. (Some a, 0)) as, None)
    \<and> (\<forall>env v. map (\<lambda>a. atomic_evaluate env ts a v) as = map (condition_value env v) cs)"
  using assms
proof (induction cs)
  case (Cons c cs)
  obtain as where as: "compile_parts ts n (map condition_text cs) = (map (\<lambda>a. (Some a, 0)) as, None)"
      "\<forall>env v. map (\<lambda>a. atomic_evaluate env ts a v) as = map (condition_value env v) cs"
    using Cons by auto
  obtain a where a: "atomic_compile ts atomic_new (condition_text c) = (a, True)" "\<forall>env v. atomic_evaluate env ts a v = condition_value env v c"
    using condition_compile Cons.prems by (metis list.set_intros(1))
  have "\<not> starts_with (condition_text c) ''_SUBEXPR_''"
  proof -
    have o: "operator_name op1 = [] \<or> hd (operator_name op1) \<noteq> CHR ''_''" for op1 by (cases op1) (simp_all add: operator_name_def operators_def)
    have "hd (condition_text c) \<noteq> CHR ''_''" using o operator_name_cases Cons.prems
      by (cases c) (auto simp: flags_text_def hd_append operator_name_def operators_def)
    moreover have "condition_text c \<noteq> []" by (cases c) simp_all
    ultimately show ?thesis by (cases "condition_text c") (auto simp: starts_with_def)
  qed
  then show ?case using as a by (intro exI [of _ "a # as"]) simp
qed simp

text \<open>
  C39. Conditions mean what they say. Conditions on paths and numbers, joined by && or by ||, compile, and evaluating them on a value gives what the conditions
  mean, from left to right and only as far as needed; when a condition throws, so does the evaluation, unless an earlier condition has decided.
\<close>

theorem conditions_evaluated:
  assumes "cs \<noteq> []" and "\<forall>c\<in>set cs. valid_condition c" and "sep = (if every then '' && '' else '' || '')"
    and "\<not> contains (join sep (map condition_text cs)) ''_SUBEXPR_''"
  shows "\<exists>e. compile_expr negative ts (join sep (map condition_text cs)) = (e, ts) \<and> ev_compiled e
    \<and> (\<forall>env v. evaluate env ts v e = map_sum id (\<lambda>b. negative \<noteq> b) ((if every then all_hold else any_holds) (map (condition_value env v) cs)))"
proof -
  define ps where "ps = map condition_text cs"
  define expr where "expr = join sep ps"
  have free: "\<not> is_space a \<and> a \<noteq> CHR '' '' \<and> a \<noteq> CHR 0x0A \<and> a \<noteq> CHR 0x22 \<and> a \<noteq> CHR ''|'' \<and> a \<noteq> CHR ''&''" if "p \<in> set ps" "a \<in> set p" for p a
    using that condition_free assms(2) unfolding ps_def by auto
  have calls: "\<forall>p\<in>set ps. call_text p" using condition_call assms(2) by (auto simp: ps_def)
  then have ne: "p \<noteq> []" if "p \<in> set ps" for p using that by (auto simp: call_text_def)
  have ps: "ps \<noteq> []" using assms(1) by (simp add: ps_def)
  have chars: "a \<in> set sep \<or> (\<exists>p\<in>set ps. a \<in> set p)" if "a \<in> set expr" for a using join_chars [of sep ps] that unfolding expr_def by auto
  have sp: "set sep \<subseteq> {CHR '' '', CHR ''&'', CHR ''|''}" using assms(3) by (auto split: if_splits)
  have absent: "CHR 0x22 \<notin> set p" "CHR 0x0A \<notin> set p" "CHR '' '' \<notin> set p" "CHR ''|'' \<notin> set p" "CHR ''&'' \<notin> set p" if "p \<in> set ps" for p
    using free [OF that] by blast+
  have quiet: "CHR 0x22 \<notin> set expr" "CHR 0x0A \<notin> set expr"
    using chars [of "CHR 0x22"] chars [of "CHR 0x0A"] sp absent by auto
  have prep: "prepared expr"
  proof -
    obtain p qs where p: "ps = p # qs" using ps by (cases ps) auto
    have h: "hd expr = hd p" using hd_join [of p sep qs] ne p by (simp add: expr_def)
    obtain rs r where r: "ps = rs @ [r]" using ps by (metis append_butlast_last_id)
    have l: "last expr = last r" using join_snoc [of sep rs r] ne [of r] r by (simp add: expr_def)
    have "p \<in> set ps" unfolding p by simp
    moreover have "r \<in> set ps" unfolding r by simp
    moreover from calculation have "hd p \<in> set p" "last r \<in> set r" using ne by simp_all
    ultimately have "\<not> is_space (hd expr)" "\<not> is_space (last expr)" using free h l by simp_all
    then have "trim expr = expr" by (intro trim_id) simp
    moreover have "\<not> contains expr ''  ''" unfolding expr_def
      by (rule no_double_blank [where s = "if every then ''&&'' else ''||''"]) (use absent ne assms(3) in auto)
    ultimately show ?thesis using quiet assms(4) by (simp add: prepared_def expr_def ps_def)
  qed
  have subs: "compile_subs ts [] expr 0 = (ts, [], expr, True)"
    using subs_of_calls [OF calls _ _ _ ps, of sep "[]" expr "[]"] assms(3) by (simp add: expr_def)
  obtain as where as: "compile_parts ts 0 ps = (map (\<lambda>a. (Some a, 0)) as, None)"
      "\<forall>env v. map (\<lambda>a. atomic_evaluate env ts a v) as = map (condition_value env v) cs"
    using compile_conditions [OF assms(2)] ps_def by blast
  define single where "single \<longleftrightarrow> length ps = 1"
  have every: "contains expr '' && '' \<longleftrightarrow> every \<and> \<not> single"
  proof (cases "every \<and> \<not> single")
    case True
    then obtain p q qs where "ps = p # q # qs" using ps by (cases ps; cases "tl ps") (auto simp: single_def)
    then have "expr = p @ '' && '' @ join sep (q # qs)" using True assms(3) by (simp add: expr_def)
    then show ?thesis using True contains_append [of "'' && ''" "'' && ''" p "join sep (q # qs)"] by (simp add: starts_with_def)
  next
    case False
    have "CHR ''&'' \<notin> set expr"
    proof (cases single)
      case True
      then obtain p where "ps = [p]" by (auto simp: single_def length_Suc_conv)
      then show ?thesis using absent by (auto simp: expr_def)
    next
      case single: False
      then show ?thesis using False chars [of "CHR ''&''"] absent assms(3) by auto
    qed
    then show ?thesis using False contains_mem [of expr "'' && ''"] by auto
  qed
  have unmixed: "\<not> (contains expr '' && '' \<and> contains expr '' || '')"
  proof
    assume b: "contains expr '' && '' \<and> contains expr '' || ''"
    then have "every" "CHR ''|'' \<in> set expr" using every contains_mem [of expr "'' || ''"] by auto
    then show False using chars [of "CHR ''|''"] absent assms(3) by auto
  qed
  have parts: "replace_all (if every \<and> \<not> single then '' && '' else '' || '') [CHR 0x0A] expr = join [CHR 0x0A] ps"
  proof (cases single)
    case True
    then obtain p where "ps = [p]" by (auto simp: single_def length_Suc_conv)
    then show ?thesis using absent replace_all_absent True by (auto simp: expr_def)
  next
    case False
    then show ?thesis using replace_all_join [of ps "CHR '' ''"] absent assms(3) by (auto simp: expr_def)
  qed
  have "\<not> contains (join [CHR 0x0A] ps) '' ''"
    using join_chars [of "[CHR 0x0A]" ps] absent by (intro contains_absent) auto
  moreover have "split_on (CHR 0x0A) (join [CHR 0x0A] ps) = ps" using split_on_join ps absent by blast
  ultimately have e: "compile_flat negative ts [] expr =
      JSONEval negative (if every \<and> \<not> single then EVAL_MODE_AND else EVAL_MODE_OR) [] (map (\<lambda>a. (Some a, 0)) as) [] True"
    using unmixed parts as(1) by (simp add: compile_flat_def every Let_def)
  have one: "all_hold [r] = any_holds [r]" for r by (cases r) auto
  have modes: "(if every \<and> \<not> single then all_hold rs else any_holds rs) = (if every then all_hold else any_holds) rs" if "length rs = length ps" for rs
    using that one by (auto simp: single_def length_Suc_conv)
  have "evaluate env ts v (compile_flat negative ts [] expr) =
      map_sum id (\<lambda>b. negative \<noteq> b) (if every \<and> \<not> single then all_hold (map (condition_value env v) cs) else any_holds (map (condition_value env v) cs))" for env v
    using as(2) by (simp add: e comp_def)
  then have "evaluate env ts v (compile_flat negative ts [] expr) =
      map_sum id (\<lambda>b. negative \<noteq> b) ((if every then all_hold else any_holds) (map (condition_value env v) cs))" for env v
    using modes [of "map (condition_value env v) cs"] by (simp add: ps_def)
  then show ?thesis using compile_prepared [OF prep, of negative ts] subs e by (simp add: expr_def ps_def)
qed

theorem conditions_evaluated_witness:
  "\<exists>e. compile_expr False [] ''IS_EQUAL($a,7) && !IS_NULL($b)'' = (e, []) \<and> ev_compiled e
    \<and> (\<forall>env v. evaluate env [] v e = map_sum id (\<lambda>b. False \<noteq> b)
         (all_hold (map (condition_value env v) [Binary False False EVAL_OPERATOR_ISEQUAL (Path ''a'') (Number ''7''), Null True (Path ''b'')])))"
proof -
  let ?cs = "[Binary False False EVAL_OPERATOR_ISEQUAL (Path ''a'') (Number ''7''), Null True (Path ''b'')]"
  have t: "join '' && '' (map condition_text ?cs) = ''IS_EQUAL($a,7) && !IS_NULL($b)''"
    by (simp add: flags_text_def operator_name_def operators_def)
  have "list_all plain_char ''a''" "list_all plain_char ''b''" "list_all is_digit ''7''" "\<not> contains ''IS_EQUAL($a,7) && !IS_NULL($b)'' ''_SUBEXPR_''"
    by code_simp+
  then show ?thesis using conditions_evaluated [of ?cs "'' && ''" True False "[]"] unfolding t by simp
qed

end
