(* ===== verification/Spec2Isabelle.thy ===== *)
theory Spec2Isabelle
  imports LineRecv JWT SafeMap SafeQueue ThreadPool HTTPClient HTTPServer Sessions CryptoChallenge RESTServer JSONEval
begin

text \<open>
  A verification library for the core of libMantids30, a C++ library of network services. All paths are relative to \<^verbatim>\<open>src/Mantids30\<close>.

  \<^bold>\<open>The program.\<close> Bytes arrive in writes of any size. They are collected in containers (\<^verbatim>\<open>Memory/b_base.cpp\<close> and its classes), cut into elements by
  sub-parsers (\<^verbatim>\<open>Memory/subparser.cpp\<close>) that a streaming parser drives (\<^verbatim>\<open>Memory/parser.cpp\<close>), and each protocol is a parser with its own
  sub-parsers: the line protocol, URL variables, the two sides of HTTP. HTTP messages are made of first lines, a MIME header, cookies, security
  and cache options, and a body in one of three transmission modes. Services built on it identify their callers by JSON Web Tokens and sessions,
  and share maps, queues and a thread pool between threads.

  \<^bold>\<open>How the code is modelled.\<close> A class is a \<^theory_text>\<open>record\<close>, an inherited class a record extension, a method a function of the same name from the state to
  the new state, prefixed where several classes have it (\<open>urlvars_streamTo\<close>). A C++ exception, an access outside a container and a failed
  allocation are the left side of \<open>result\<close>. Bytes are \<^typ>\<open>char\<close>, buffers lists of them; \<^verbatim>\<open>size_t\<close> is \<^typ>\<open>nat\<close> with the wrap-around written out
  (\<open>uadd\<close>, \<open>usub\<close>, \<open>size_max\<close> in Prelude), machine integers of other widths carry their range or are words. Virtual functions are records of functions (\<open>container_vt\<close>, \<open>parser_vt\<close>,
  \<open>streamable\<close>). Code that several threads enter is a step relation whose steps are the sections under one lock; a notification that follows the unlocking is a
  step of its own.

  \<^bold>\<open>The theories.\<close>
  \<^item> Prelude, Text: machine sizes, errors, and the functions of the standard library and of Boost that the code calls, after their documentation.
  \<^item> SafeInt (\<^verbatim>\<open>Helpers/safeint.h\<close>), MemHelpers (\<^verbatim>\<open>Helpers/mem.cpp\<close>), Encoders (\<^verbatim>\<open>Helpers/encoders.cpp\<close>).
  \<^item> Streamable (\<^verbatim>\<open>Memory/streamableobject.cpp\<close>): the write status and the drivers of a full write; locale \<open>roomy_sink\<close> states what a destination with room
    promises, and is interpreted on the containers.
  \<^item> Container (\<^verbatim>\<open>b_base.cpp\<close>), BMem (\<^verbatim>\<open>b_mem.cpp\<close>), BChunks (\<^verbatim>\<open>b_chunks.cpp\<close>), BRef (\<^verbatim>\<open>b_ref.cpp\<close>): the abstract container with its locale of
    virtual functions, interpreted on the three classes; the lemmas show that they refine one byte string (\<open>chunks_content\<close>).
  \<^item> SubParser (\<^verbatim>\<open>subparser.cpp\<close>) and Parser (\<^verbatim>\<open>parser.cpp\<close>): the parse modes against a specification of delimited elements, and the parser loop; locales
    for what a protocol promises to the loop. LineRecv (\<^verbatim>\<open>Protocol_LineRecv\<close>) is the smallest protocol.
  \<^item> JSON (\<^verbatim>\<open>Helpers/json.cpp\<close>), JWTToken, JWTCache, JWT (\<^verbatim>\<open>DataFormat_JWT\<close>): tokens, cache and revocation, signing and verifying.
  \<^item> SafeMap, SafeQueue, ThreadPool (\<^verbatim>\<open>Threads\<close>) and Sessions (\<^verbatim>\<open>Sessions\<close>, \<^verbatim>\<open>Server_MonolithWebAPI/sessionsmanager.cpp\<close>): step relations with invariants
    by rule induction. In the map notifications are given under the lock; in the queue and the pool they come behind it, and a wait of the queue may report a timeout to
    a thread that has been notified, which loses a wake-up.
  \<^item> MIMEHeader (\<^verbatim>\<open>Protocol_MIME/mime_sub_header.cpp\<close>), HTTPHeaders, HTTPCookies, URLStream, URLVars, HTTPStartLine, HTTPContent (\<^verbatim>\<open>Protocol_HTTP\<close>): the parts of
    an HTTP message, with printing, reading and limits.
  \<^item> HTTPBase, HTTPClient, HTTPServer (\<^verbatim>\<open>httpv1_base.cpp\<close>, \<^verbatim>\<open>httpv1_client.cpp\<close>, \<^verbatim>\<open>httpv1_server.cpp\<close>): both sides of a connection; the locale
    \<open>header_protocol\<close> covers the reading of header lines and is interpreted on both sides and on a protocol that has nothing but headers, \<open>body_protocol\<close> and \<open>chunked_reception\<close> that of a body, on either side.
  \<^item> SocketStream (\<^verbatim>\<open>Net_Sockets/socket_stream.cpp\<close> and the classes around it) with its reader and writer of blocks and strings; the locale \<open>socket_line\<close> is what
    a connected socket promises, and is interpreted on the in-memory socket, on sockets of the operating system (\<^verbatim>\<open>socket.cpp\<close>) over a connection that cuts the bytes
    in any pieces, and on XOR layers over both. CryptoChallenge
    (\<^verbatim>\<open>Net_Sockets/streams_cryptochallenge.cpp\<close>): the exchange of proofs of a shared key, as functions of what each side reads.
  \<^item> StreamableJSON (\<^verbatim>\<open>Memory/streamablejson.cpp\<close>), APIMethods (\<^verbatim>\<open>API_Monolith\<close>, and the filters of \<^verbatim>\<open>Server_WebCore/resourcesfilter.cpp\<close>), RESTful (\<^verbatim>\<open>API_RESTful\<close>),
    HTMLIEngine (\<^verbatim>\<open>Server_WebCore/htmliengine.cpp\<close>): what the servers of an API are made of.
  \<^item> WebCore (\<^verbatim>\<open>Server_WebCore\<close>): the handling of one request, whose virtual functions are a record; the locale \<open>web_session\<close> states what a class of servers
    promises about them. RESTServer (\<^verbatim>\<open>Server_RESTfulWebAPI\<close>) is that class, and interprets the locale.
  \<^item> JSONEval (\<^verbatim>\<open>Scripts_JSONExprEval\<close>): conditions on JSON values, compiled from a text and evaluated.
  \<^item> This theory: properties that span client and server.

  \<^bold>\<open>Bounds and fuel.\<close> Loops that are bounded by a size carry it as fuel: the loops of full writes, of \<open>b_find\<close> and of the decoders run on the length of their
  input plus one, and lemmas show that the fuel never ends first (\<open>find_loop_first\<close>, \<open>writeFullStream_loop_delivers\<close>). The recursion of the parser is bounded in the
  source by the limit of rounds \<open>m_maxTTL\<close> (4096). The loop of \<open>varCount\<close> has no bound: it is a partial function, and the theorem says exactly when
  it returns; so is the loop over the included files of a page (\<open>include_loop\<close>), which a page can keep going for ever. The compiler of conditions
  (\<open>compile_expr\<close>) ends because every sub expression has fewer parentheses than the text it is in.

  \<^bold>\<open>Parameters.\<close> What is not under \<^verbatim>\<open>src\<close> is an argument of the definitions that use it: OpenSSL (digests, signatures, its Base64 codec), the reader and
  writer of jsoncpp, the clock and the texts of dates, the random source (one answer per call), the file system, memory mapping, the regular expression of the
  authentication realm, the size of the heap, the calls of the operating system on a socket (\<open>kernel\<close>), and the handlers of derived classes.

  \<^bold>\<open>Not modelled.\<close> Memory-mapped files (\<^verbatim>\<open>b_mmap.cpp\<close>), copies into \<^verbatim>\<open>std::ostream\<close>, vararg printing, conversions to JSON that no modelled code
  reads, plain accessors. Opening and binding sockets, TLS, network interfaces, databases, process execution, command line and logs go to
  the operating system or to client libraries with little logic of their own. The RPC protocols, the client handler of the monolithic server, the loops that accept
  connections, typed values (\<^verbatim>\<open>Memory/a_*.cpp\<close>) and the parts of MIME messages are not modelled.
\<close>

section \<open>Credentials from client to server\<close>

text \<open>A header step that leaves the options of one name alone.\<close>

definition header_lacks :: "bytes \<Rightarrow> mime_header result \<Rightarrow> bool" where
  "header_lacks n r \<longleftrightarrow> (\<exists>h. r = Inr h \<and> header_inv h \<and> getOptionsByName h n = [])"

lemma header_add_lacks:
  assumes "header_inv h" and "getOptionsByName h n = []" and "to_upper_copy n \<noteq> to_upper_copy n'"
  shows "header_lacks n (map_sum id fst (header_add (Some buffer) h n' v 0))"
proof (cases "length (m_headers h) = m_maxOptions h")
  case True
  then show ?thesis using assms(1,2) header_add_full [OF True] by (simp add: header_lacks_def)
next
  case False
  obtain opt where a: "header_add (Some buffer) h n' v 0 =
      Inr (h\<lparr>options := options h @ [opt], m_headers := mm_insert (to_upper_copy n') (length (options h)) (m_headers h), m_lastOpt := Some (length (options h))\<rparr>, True)"
    using header_add_new [OF False] by metis
  then show ?thesis
    using header_add_inv [OF assms(1), of buffer n' v 0] getOptions_insert [OF assms(1), where opt = opt and n = n'] assms(2,3) by (auto simp: header_lacks_def)
qed

lemma header_lacks_steps:
  assumes "header_lacks n r" and "to_upper_copy n \<noteq> to_upper_copy n'"
  shows "header_lacks n (case r of Inl e \<Rightarrow> Inl e | Inr h \<Rightarrow> header_replace (Some buffer) h n' v)"
    and "header_lacks n (case r of Inl e \<Rightarrow> Inl e | Inr h \<Rightarrow> map_sum id fst (header_add (Some buffer) h n' v 0))"
    and "header_lacks n (case r of Inl e \<Rightarrow> Inl e | Inr h \<Rightarrow> Inr (header_remove h n'))"
proof -
  obtain h where h: "r = Inr h" "header_inv h" "getOptionsByName h n = []" using assms(1) by (auto simp: header_lacks_def)
  have rm: "header_inv (header_remove h n')" "getOptionsByName (header_remove h n') n = []" using header_remove_inv [OF h(2)] h(3) by (simp_all add: getOptions_remove)
  show "header_lacks n (case r of Inl e \<Rightarrow> Inl e | Inr h \<Rightarrow> header_replace (Some buffer) h n' v)"
    using header_add_lacks [OF rm assms(2)] h(1) by (simp add: header_replace_def)
  show "header_lacks n (case r of Inl e \<Rightarrow> Inl e | Inr h \<Rightarrow> map_sum id fst (header_add (Some buffer) h n' v 0))"
    using header_add_lacks [OF h(2,3) assms(2)] h(1) by simp
  show "header_lacks n (case r of Inl e \<Rightarrow> Inl e | Inr h \<Rightarrow> Inr (header_remove h n'))" using rm h(1) by (simp add: header_lacks_def)
qed

text \<open>
  C25. Credentials that never arrive. The client puts the user name and the password under \<^verbatim>\<open>Authentication\<close> and the server looks for them under
  \<^verbatim>\<open>Authorization\<close>: whatever the client prepared, unless it set that option itself, the server that reads the client's headers finds basic authentication disabled.
\<close>

theorem basic_auth_lost:
  assumes "header_inv (sh_header (req_headers (clientRequest c)))" and "getOptionsByName (sh_header (req_headers (clientRequest c))) ''Authorization'' = []"
  shows "\<exists>h. client_headers (Some buffer) enc64 n c = Inr h \<and> \<not> ba_isEnabled (parse_basic_auth dec64 h a)"
proof -
  let ?n = "''Authorization''" and ?r0 = "Inr (sh_header (req_headers (clientRequest c))) :: mime_header result"
  have up: "to_upper_copy ?n \<noteq> to_upper_copy ''Connetion''" "to_upper_copy ?n \<noteq> to_upper_copy ''Content-Length''" "to_upper_copy ?n \<noteq> to_upper_copy ''Cookie''"
    "to_upper_copy ?n \<noteq> to_upper_copy ''Authentication''" "to_upper_copy ?n \<noteq> to_upper_copy ''User-Agent''" "to_upper_copy ?n \<noteq> to_upper_copy ''Host''" by code_simp+
  have "header_lacks ?n ?r0" using assms by (simp add: header_lacks_def)
  from header_lacks_steps(1) [OF header_lacks_steps(3) [OF this up(1)] up(2), of buffer "dec n"]
  have h1: "header_lacks ?n (header_replace (Some buffer) (header_remove (sh_header (req_headers (clientRequest c))) ''Connetion'') ''Content-Length'' (dec n))" by simp
  have "header_lacks ?n (client_headers (Some buffer) enc64 n c)"
    unfolding client_headers_def Let_def client_putOnHeaders_def
    using header_lacks_steps(1) [OF _ up(6)] header_lacks_steps(1) [OF _ up(5)] header_lacks_steps(1) [OF _ up(4)] header_lacks_steps(2) [OF h1 up(3)] by simp
  then obtain h where "client_headers (Some buffer) enc64 n c = Inr h" "getOptionsByName h ?n = []" by (auto simp: header_lacks_def)
  then show ?thesis by (auto simp: parse_basic_auth_def exist_conv Let_def)
qed


theorem basic_auth_lost_witness:
  "\<exists>c. http_client_new example_env () = Inr c
     \<and> (\<forall>enc64 dec64 a. \<exists>h. client_headers (Some ''0123456789abcdef'') enc64 0 (c\<lparr>clientRequest := (clientRequest c)\<lparr>basicAuth := setAuthentication (basicAuth (clientRequest c)) ''user'' ''secret''\<rparr>\<rparr>) = Inr h
     \<and> \<not> ba_isEnabled (parse_basic_auth dec64 h a))"
proof -
  obtain c :: "(b_mem_fields, b_mem_fields chunks, unit) http_client" where c: "http_client_new example_env () = Inr c"
    using client_new_exists [of "()"] by (rule exE)
  let ?c = "c\<lparr>clientRequest := (clientRequest c)\<lparr>basicAuth := setAuthentication (basicAuth (clientRequest c)) ''user'' ''secret''\<rparr>\<rparr>"
  have "sh_header (req_headers (clientRequest c)) = mime_header_new"
    using c by (auto simp: http_client_new_def http_base_new_def http_base.defs http_request_new_def sub_header_awaits(2) Let_def split: sum.splits)
  then have h: "sh_header (req_headers (clientRequest ?c)) = mime_header_new" by simp
  have i: "header_inv (sh_header (req_headers (clientRequest ?c)))" unfolding h by (rule header_inv_new)
  have e: "getOptionsByName (sh_header (req_headers (clientRequest ?c))) ''Authorization'' = []"
    unfolding h by (simp add: getOptionsByName_def mm_range_def mime_header_new_def)
  show ?thesis using basic_auth_lost [OF i e, of "''0123456789abcdef''" _ 0] c by blast
qed

end
